(* ===== verification/Antonix_Base.thy ===== *)
theory Antonix_Base
  imports Main "HOL-Library.Word"
begin

text \<open>
  Prelude of the development: the machine types of \<^verbatim>\<open>include/types.h\<close>, its status codes,
  the ways in which kernel code can fail to return, and the generic facts on words, byte
  buffers and lists that the component theories share.

  A kernel routine that can reach \<^verbatim>\<open>HalKernelPanic\<close>, touch memory it must not touch, or loop
  for ever has a result of type \<open>'a run\<close>: \<open>Inl\<close> names the reason it did not return,
  \<open>Inr\<close> carries what it returned.
\<close>

section \<open>Machine integers\<close>

type_synonym u8 = "8 word"
type_synonym u16 = "16 word"
type_synonym u32 = "32 word"
type_synonym u64 = "64 word"
type_synonym bytes = "u8 list"

text \<open>The simplification rules that unfold kernel control flow, and the definitions the
  component proofs open.\<close>

named_theorems run_simps
named_theorems model_defs

section \<open>Status codes\<close>

text \<open>\<^verbatim>\<open>HRESULT\<close> and its symbolic constants.\<close>

datatype hresult =
    S_OK | S_FALSE | E_INVALIDARG | E_POINTER | E_FAIL | E_NOTIMPL | E_ENDOFSTR
  | E_ACCESSDENIED | E_NOTFOUND | E_OUTOFMEM | E_INVALIDDATA | E_NOTSUPPORTED
  | E_INVALIDSTATE | E_TIMEDOUT | E_BUFFEROVERFLOW | E_BUFFERUNDERFLOW | E_UNEXPECTED
  | E_TERMINATED

fun hr_code :: "hresult \<Rightarrow> u32" where
  "hr_code S_OK = 0x00"
| "hr_code S_FALSE = 0x01"
| "hr_code E_INVALIDARG = 0x10"
| "hr_code E_POINTER = 0x11"
| "hr_code E_FAIL = 0x12"
| "hr_code E_NOTIMPL = 0x13"
| "hr_code E_ENDOFSTR = 0x14"
| "hr_code E_ACCESSDENIED = 0x15"
| "hr_code E_NOTFOUND = 0x16"
| "hr_code E_OUTOFMEM = 0x17"
| "hr_code E_INVALIDDATA = 0x18"
| "hr_code E_NOTSUPPORTED = 0x19"
| "hr_code E_INVALIDSTATE = 0x1A"
| "hr_code E_TIMEDOUT = 0x1B"
| "hr_code E_BUFFEROVERFLOW = 0x1C"
| "hr_code E_BUFFERUNDERFLOW = 0x1D"
| "hr_code E_UNEXPECTED = 0x1E"
| "hr_code E_TERMINATED = 0x1F"

definition SUCCEEDED :: "hresult \<Rightarrow> bool" where
  "SUCCEEDED x = (x = S_OK \<or> x = S_FALSE)"

definition FAILED :: "hresult \<Rightarrow> bool" where
  "FAILED x = (x \<noteq> S_OK \<and> x \<noteq> S_FALSE)"

lemma FAILED_iff [simp]: "FAILED x \<longleftrightarrow> \<not> SUCCEEDED x"
  by (simp add: FAILED_def SUCCEEDED_def)

lemma SUCCEEDED_simps [simp]:
  "SUCCEEDED S_OK" "SUCCEEDED S_FALSE" "\<not> SUCCEEDED E_INVALIDARG" "\<not> SUCCEEDED E_POINTER"
  "\<not> SUCCEEDED E_FAIL" "\<not> SUCCEEDED E_NOTIMPL" "\<not> SUCCEEDED E_ENDOFSTR"
  "\<not> SUCCEEDED E_ACCESSDENIED" "\<not> SUCCEEDED E_NOTFOUND" "\<not> SUCCEEDED E_OUTOFMEM"
  "\<not> SUCCEEDED E_INVALIDDATA" "\<not> SUCCEEDED E_BUFFEROVERFLOW" "\<not> SUCCEEDED E_BUFFERUNDERFLOW"
  "\<not> SUCCEEDED E_TIMEDOUT" "\<not> SUCCEEDED E_UNEXPECTED" "\<not> SUCCEEDED E_INVALIDSTATE"
  "\<not> SUCCEEDED E_NOTSUPPORTED" "\<not> SUCCEEDED E_TERMINATED"
  by (simp_all add: SUCCEEDED_def)

lemma hr_code_inject [simp]: "hr_code x = hr_code y \<longleftrightarrow> x = y"
  by (cases x; cases y; simp)

section \<open>Kernel runs\<close>

text \<open>\<open>Panic\<close> is a call of \<^verbatim>\<open>HalKernelPanic\<close>, \<open>BadAccess\<close> an access outside the object
  a pointer designates (a null dereference included), \<open>NoReturn\<close> a loop without end.\<close>

datatype halt = Panic string | BadAccess | NoReturn

type_synonym 'a run = "halt + 'a"

fun bindR :: "'a run \<Rightarrow> ('a \<Rightarrow> 'b run) \<Rightarrow> 'b run" where
  "bindR (Inl h) k = Inl h"
| "bindR (Inr x) k = k x"

definition guardR :: "bool \<Rightarrow> halt \<Rightarrow> unit run" where
  "guardR b h = (if b then Inr () else Inl h)"

lemma bindR_eq_Inr [simp]: "bindR m k = Inr y \<longleftrightarrow> (\<exists>x. m = Inr x \<and> k x = Inr y)"
  by (cases m) auto

lemma guardR_simps [simp]: "guardR True h = Inr ()" "guardR False h = Inl h"
  by (simp_all add: guardR_def)

lemma guardR_eq_Inr [simp]: "guardR b h = Inr u \<longleftrightarrow> b"
  by (simp add: guardR_def)

text \<open>A little-endian integer.\<close>

fun le_word :: "bytes \<Rightarrow> 'a::len word" where
  "le_word [] = 0"
| "le_word (x # xs) = ucast x + 256 * le_word xs"

section \<open>Word facts\<close>

lemma unat_add_small: "unat (a :: u32) + unat b < 2 ^ 32 \<Longrightarrow> unat (a + b) = unat a + unat b"
  by (simp add: unat_word_ariths)

lemma unat_sub_small: "unat (b :: u32) \<le> unat a \<Longrightarrow> unat (a - b) = unat a - unat b"
  by (simp add: unat_sub word_le_nat_alt)

lemma unat_lt_2_32: "unat (a :: u32) < 4294967296"
  using unsigned_less [of a] by simp

lemma unat_of_nat_small: "n < 4294967296 \<Longrightarrow> unat (of_nat n :: u32) = n"
  by (simp add: unat_of_nat)

lemma sint_of_nat_small: "n < 2 ^ 31 \<Longrightarrow> sint (of_nat n :: u32) = int n"
proof -
  assume "n < 2 ^ 31"
  then have "int n < 2 ^ 31" by simp
  then have "sint (word_of_int (int n) :: u32) = int n"
    by (subst sint_sbintrunc') (simp add: signed_take_bit_int_eq_self)
  then show ?thesis by (simp only: of_int_of_nat_eq)
qed

lemma unat_ucast64 [simp]: "unat (ucast (w :: u32) :: u64) = unat w"
proof -
  have "unat w < 2 ^ 64"
    using unat_lt_2_32 [of w] by simp
  then show ?thesis
    by (simp add: unsigned_ucast_eq take_bit_nat_eq_self)
qed

section \<open>Byte buffers\<close>

text \<open>\<^verbatim>\<open>memcpy\<close> from one object into another, at byte offsets: the target keeps its length.\<close>

definition buf_put :: "'a list \<Rightarrow> nat \<Rightarrow> 'a list \<Rightarrow> 'a list" where
  "buf_put b i xs = take i b @ xs @ drop (i + length xs) b"

definition buf_get :: "'a list \<Rightarrow> nat \<Rightarrow> nat \<Rightarrow> 'a list" where
  "buf_get b i n = take n (drop i b)"

text \<open>\<^verbatim>\<open>memcpy(&dst[di], &src[si], n)\<close> between two objects. Copying nothing accesses nothing.\<close>

definition memcpyR :: "'a list \<Rightarrow> nat \<Rightarrow> 'a list \<Rightarrow> nat \<Rightarrow> nat \<Rightarrow> 'a list run" where
  "memcpyR dst di src si n =
     (if n = 0 then Inr dst
      else if di + n \<le> length dst \<and> si + n \<le> length src then Inr (buf_put dst di (buf_get src si n))
      else Inl BadAccess)"

lemma memcpyR_ok: "di + n \<le> length dst \<Longrightarrow> si + n \<le> length src \<Longrightarrow>
   memcpyR dst di src si n = Inr (buf_put dst di (buf_get src si n))"
  by (cases "n = 0") (simp_all add: memcpyR_def buf_get_def buf_put_def)

lemma length_buf_put [simp]: "i + length xs \<le> length b \<Longrightarrow> length (buf_put b i xs) = length b"
  by (simp add: buf_put_def)

lemma length_buf_get [simp]: "i + n \<le> length b \<Longrightarrow> length (buf_get b i n) = n"
  by (simp add: buf_get_def)

lemma nth_buf_put:
  assumes "i + length xs \<le> length b" and "k < length b"
  shows "buf_put b i xs ! k = (if i \<le> k \<and> k < i + length xs then xs ! (k - i) else b ! k)"
  using assms by (auto simp: buf_put_def nth_append min_def)

lemma nth_buf_get: "i + n \<le> length b \<Longrightarrow> k < n \<Longrightarrow> buf_get b i n ! k = b ! (i + k)"
  by (simp add: buf_get_def)

lemma buf_get_put_same: "i + length xs \<le> length b \<Longrightarrow> buf_get (buf_put b i xs) i (length xs) = xs"
  by (simp add: buf_get_def buf_put_def)

lemma buf_put_Nil [simp]: "buf_put b i [] = b"
  by (simp add: buf_put_def)

lemma buf_get_0 [simp]: "buf_get b i 0 = []"
  by (simp add: buf_get_def)

section \<open>Lists\<close>

text \<open>Deleting the element at an index, as the kernel's array removals do.\<close>

definition remove_nth :: "nat \<Rightarrow> 'a list \<Rightarrow> 'a list" where
  "remove_nth i xs = take i xs @ drop (Suc i) xs"

lemma length_remove_nth [simp]: "i < length xs \<Longrightarrow> length (remove_nth i xs) = length xs - 1"
  by (simp add: remove_nth_def)

lemma remove_nth_Cons [simp]:
  "remove_nth 0 (x # xs) = xs" "remove_nth (Suc i) (x # xs) = x # remove_nth i xs"
  by (simp_all add: remove_nth_def)

lemma set_remove_nth: "set (remove_nth i xs) \<subseteq> set xs"
  by (auto simp: remove_nth_def dest: in_set_takeD in_set_dropD)

lemma in_set_remove_nth: "i < length xs \<Longrightarrow> x \<in> set xs \<Longrightarrow> x = xs ! i \<or> x \<in> set (remove_nth i xs)"
  by (induction xs arbitrary: i) (auto simp: nth_Cons split: nat.splits)

lemma distinct_remove_nth: "distinct xs \<Longrightarrow> distinct (remove_nth i xs)"
  by (auto simp: remove_nth_def dest: set_take_disj_set_drop_if_distinct [of xs i "Suc i"])

lemma nth_remove_nth:
  "i < length xs \<Longrightarrow> k < length xs - 1 \<Longrightarrow>
   remove_nth i xs ! k = (if k < i then xs ! k else xs ! Suc k)"
  by (auto simp: remove_nth_def nth_append)

end
