(* ===== verification/Sync.thy ===== *)
theory Sync
  imports Antonix_Base
begin

text \<open>
  Model of \<^verbatim>\<open>syncobjs.c\<close>: spinlocks, recursive mutexes and events, on a single processor
  (the kernel has no SMP support). The processor's interrupt flag and the thread that the
  scheduler reports as current are the \<open>cpu\<close> record; what other threads do while a routine
  yields is a parameter of the routine.
\<close>

section \<open>Data\<close>

text \<open>\<open>cpu_current\<close> is what \<^verbatim>\<open>sched_get_current_pid\<close> and \<^verbatim>\<open>sched_get_current_tid\<close> report: \<open>None\<close> when
  no thread is current, which makes both of them fail.\<close>

record cpu =
  cpu_if :: bool
  cpu_current :: "(u32 \<times> u32) option"

record spinlock =
  sl_lock :: u32

record mutex =
  mx_inner :: spinlock
  mx_count :: u32
  mx_pid :: u32
  mx_tid :: u32

record k_event =
  ev_owner_pid :: u32
  ev_state :: u32
  ev_autoreset :: u8
  ev_lock :: spinlock

section \<open>Spinlocks\<close>

definition spinlock_create :: spinlock where
  "spinlock_create = \<lparr> sl_lock = 0 \<rparr>"

text \<open>The loop exchanges the lock word with 1 until the old value is 0. With interrupts off on
  one processor nobody else can clear the word, so a held lock spins for ever.\<close>

definition spinlock_acquire :: "cpu \<Rightarrow> spinlock \<Rightarrow> (u32 \<times> cpu \<times> spinlock) run" where
  "spinlock_acquire c sl =
     (let if_state = (if cpu_if c then 1 else 0);
          c = c\<lparr>cpu_if := False\<rparr>
      in if sl_lock sl = 0 then Inr (if_state, c, sl\<lparr>sl_lock := 1\<rparr>) else Inl NoReturn)"

definition spinlock_release :: "cpu \<Rightarrow> spinlock \<Rightarrow> u32 \<Rightarrow> (cpu \<times> spinlock) run" where
  "spinlock_release c sl if_state =
     (if sl_lock sl \<noteq> 1 then Inl (Panic ''spinlock_realase(): Trying to release a non-locked spinlock.'')
      else Inr (if if_state \<noteq> 0 then c\<lparr>cpu_if := True\<rparr> else c, sl\<lparr>sl_lock := 0\<rparr>))"

section \<open>Recursive mutexes\<close>

definition mutex_create :: mutex where
  "mutex_create = \<lparr> mx_inner = spinlock_create, mx_count = 0, mx_pid = 0, mx_tid = 0 \<rparr>"

definition mutex_get_lock_count :: "cpu \<Rightarrow> mutex \<Rightarrow> (u32 \<times> cpu \<times> mutex) run" where
  "mutex_get_lock_count c m =
     bindR (spinlock_acquire c (mx_inner m)) (\<lambda>(st, c, sl).
     bindR (spinlock_release c sl st) (\<lambda>(c, sl).
     Inr (mx_count m, c, m\<lparr>mx_inner := sl\<rparr>)))"

text \<open>A mutex held by another thread panics before the retry that the code has prepared.\<close>

definition mutex_lock :: "cpu \<Rightarrow> mutex \<Rightarrow> (cpu \<times> mutex) run" where
  "mutex_lock c m =
     bindR (spinlock_acquire c (mx_inner m)) (\<lambda>(intr_status, c, sl).
     case cpu_current c of
       None \<Rightarrow> Inl (Panic ''mutex_lock(): Failed to retrieve current process id.'')
     | Some (curr_pid, curr_tid) \<Rightarrow>
         if mx_count m > 0 \<and> (mx_pid m \<noteq> curr_pid \<or> mx_tid m \<noteq> curr_tid)
         then Inl (Panic ''...'')
         else
           let m = (if mx_count m = 0 then m\<lparr>mx_pid := curr_pid, mx_tid := curr_tid\<rparr> else m);
               m = m\<lparr>mx_count := mx_count m + 1\<rparr>
           in bindR (spinlock_release c sl intr_status) (\<lambda>(c, sl). Inr (c, m\<lparr>mx_inner := sl\<rparr>)))"

definition mutex_unlock :: "cpu \<Rightarrow> mutex \<Rightarrow> (cpu \<times> mutex) run" where
  "mutex_unlock c m =
     bindR (spinlock_acquire c (mx_inner m)) (\<lambda>(intr_status, c, sl).
     case cpu_current c of
       None \<Rightarrow> Inl (Panic ''mutex_lock(): Failed to retrieve current process id.'')
     | Some (curr_pid, curr_tid) \<Rightarrow>
         if mx_pid m \<noteq> curr_pid \<or> mx_tid m \<noteq> curr_tid
         then Inl (Panic ''mutex_unlock(): Trying to unlock a non-owned mutex.'')
         else if mx_count m \<le> 0
         then Inl (Panic ''mutex_unlock(): Trying to unlock non-locked mutex or counter dropped below zero.'')
         else
           let m = m\<lparr>mx_count := mx_count m - 1\<rparr>
           in bindR (spinlock_release c sl intr_status) (\<lambda>(c, sl). Inr (c, m\<lparr>mx_inner := sl\<rparr>)))"

text \<open>\<open>others k\<close> is the effect on the mutex of the threads that run during the \<open>k\<close>-th yield.\<close>

partial_function (option) mutex_destroy_wait ::
  "(nat \<Rightarrow> mutex \<Rightarrow> mutex) \<Rightarrow> nat \<Rightarrow> cpu \<Rightarrow> mutex \<Rightarrow> (cpu \<times> mutex) run option" where
  "mutex_destroy_wait others k c m =
     (case mutex_get_lock_count c m of
        Inl h \<Rightarrow> Some (Inl h)
      | Inr (cnt, c', m') \<Rightarrow>
          if cnt = 0 then Some (Inr (c', m'))
          else mutex_destroy_wait others (Suc k) c' (others k m'))"

definition mutex_destroy :: "(nat \<Rightarrow> mutex \<Rightarrow> mutex) \<Rightarrow> cpu \<Rightarrow> mutex \<Rightarrow> (cpu \<times> mutex) run" where
  "mutex_destroy others c m =
     (case mutex_destroy_wait others 0 c m of None \<Rightarrow> Inl NoReturn | Some r \<Rightarrow> r)"

section \<open>Events\<close>

definition EVENT_FLAG_AUTORESET :: u32 where "EVENT_FLAG_AUTORESET = 1"
definition EVENT_STATE_UNSIGNALED :: u32 where "EVENT_STATE_UNSIGNALED = 0"
definition TIMEOUT_INFINITE :: u32 where "TIMEOUT_INFINITE = 0xFFFFFFFF"

definition event_create :: "u32 \<Rightarrow> k_event" where
  "event_create flags =
     \<lparr> ev_owner_pid = 0, ev_state = 0,
       ev_autoreset = (if flags = EVENT_FLAG_AUTORESET then 1 else 0),
       ev_lock = spinlock_create \<rparr>"

definition event_signal :: "cpu \<Rightarrow> k_event \<Rightarrow> (cpu \<times> k_event) run" where
  "event_signal c e =
     bindR (spinlock_acquire c (ev_lock e)) (\<lambda>(intf, c, sl).
     let e = e\<lparr>ev_state := ev_state e + 1\<rparr> in
     bindR (spinlock_release c sl intf) (\<lambda>(c, sl). Inr (c, e\<lparr>ev_lock := sl\<rparr>)))"

definition event_reset :: "cpu \<Rightarrow> k_event \<Rightarrow> (cpu \<times> k_event) run" where
  "event_reset c e =
     bindR (spinlock_acquire c (ev_lock e)) (\<lambda>(intf, c, sl).
     let e = e\<lparr>ev_state := 0\<rparr> in
     bindR (spinlock_release c sl intf) (\<lambda>(c, sl). Inr (c, e\<lparr>ev_lock := sl\<rparr>)))"

text \<open>
  The body of the \<^verbatim>\<open>do\<close> loop up to the time-out test: read the state, apply auto-reset.
\<close>

definition event_poll :: "cpu \<Rightarrow> k_event \<Rightarrow> (u32 \<times> cpu \<times> k_event) run" where
  "event_poll c e =
     bindR (spinlock_acquire c (ev_lock e)) (\<lambda>(intf, c, sl).
     let state = ev_state e;
         e = (if state \<noteq> EVENT_STATE_UNSIGNALED \<and> ev_autoreset e \<noteq> 0
              then e\<lparr>ev_state := EVENT_STATE_UNSIGNALED\<rparr> else e)
     in bindR (spinlock_release c sl intf) (\<lambda>(c, sl). Inr (state, c, e\<lparr>ev_lock := sl\<rparr>)))"

text \<open>
  \<open>tick k\<close> is the \<^verbatim>\<open>timer_gettickcount\<close> value read in iteration \<open>k\<close>, a 64-bit value from which
  the 32-bit \<^verbatim>\<open>initial_time\<close> is subtracted; \<open>others k\<close> is what other threads do to the event
  during the \<open>k\<close>-th yield.
\<close>

partial_function (option) event_wait_loop ::
  "(nat \<Rightarrow> u64) \<Rightarrow> (nat \<Rightarrow> k_event \<Rightarrow> k_event) \<Rightarrow> u32 \<Rightarrow> u32 \<Rightarrow> nat \<Rightarrow> cpu \<Rightarrow> k_event
   \<Rightarrow> (hresult \<times> cpu \<times> k_event) run option" where
  "event_wait_loop tick others timeout initial_time k c e =
     (case event_poll c e of
        Inl h \<Rightarrow> Some (Inl h)
      | Inr (state, c', e') \<Rightarrow>
          if state = EVENT_STATE_UNSIGNALED \<and> tick k - ucast initial_time \<ge> ucast timeout
          then Some (Inr (E_TIMEDOUT, c', e'))
          else if state = EVENT_STATE_UNSIGNALED
          then event_wait_loop tick others timeout initial_time (Suc k) c' (others k e')
          else Some (Inr (S_OK, c', e')))"

definition event_waitfor ::
  "u64 \<Rightarrow> (nat \<Rightarrow> u64) \<Rightarrow> (nat \<Rightarrow> k_event \<Rightarrow> k_event) \<Rightarrow> cpu \<Rightarrow> k_event \<Rightarrow> u32
   \<Rightarrow> (hresult \<times> cpu \<times> k_event) run" where
  "event_waitfor now tick others c e timeout =
     (case event_wait_loop tick others timeout (ucast now) 0 c e of
        None \<Rightarrow> Inl NoReturn | Some r \<Rightarrow> r)"

section \<open>Spinlock and mutex laws\<close>

lemma spinlock_acquire_Inr [run_simps]:
  "spinlock_acquire c sl = Inr (st, c', sl') \<longleftrightarrow>
     sl_lock sl = 0 \<and> st = (if cpu_if c then 1 else 0) \<and> c' = c\<lparr>cpu_if := False\<rparr>
     \<and> sl' = sl\<lparr>sl_lock := 1\<rparr>"
  by (auto simp: spinlock_acquire_def)

lemma spinlock_acquire_free:
  "sl_lock sl = 0 \<Longrightarrow> spinlock_acquire c sl =
     Inr (if cpu_if c then 1 else 0, c\<lparr>cpu_if := False\<rparr>, sl\<lparr>sl_lock := 1\<rparr>)"
  by (simp add: spinlock_acquire_def)

lemma spinlock_release_held:
  "sl_lock sl = 1 \<Longrightarrow> spinlock_release c sl st =
     Inr (if st \<noteq> 0 then c\<lparr>cpu_if := True\<rparr> else c, sl\<lparr>sl_lock := 0\<rparr>)"
  by (simp add: spinlock_release_def)

lemma cpu_if_restore [simp]:
  "(if cpu_if c then c\<lparr>cpu_if := True\<rparr> else c\<lparr>cpu_if := False\<rparr>) = (c :: cpu)"
  by (cases c) simp

lemma cpu_if_same [simp]: "cpu_if c \<Longrightarrow> c\<lparr>cpu_if := True\<rparr> = (c :: cpu)"
  "\<not> cpu_if c \<Longrightarrow> c\<lparr>cpu_if := False\<rparr> = (c :: cpu)"
  by (cases c; simp)+

lemma spinlock_lock_same [simp]: "sl_lock sl = 0 \<Longrightarrow> sl\<lparr>sl_lock := 0\<rparr> = (sl :: spinlock)"
  by (cases sl) simp

text \<open>\<open>lockable c m\<close>: the current thread of \<open>c\<close> may enter \<open>m\<close> now.\<close>

definition lockable :: "cpu \<Rightarrow> mutex \<Rightarrow> bool" where
  "lockable c m \<longleftrightarrow> sl_lock (mx_inner m) = 0 \<and>
     (case cpu_current c of None \<Rightarrow> False
      | Some (p, t) \<Rightarrow> mx_count m = 0 \<or> mx_pid m = p \<and> mx_tid m = t)"

definition owned_by :: "mutex \<Rightarrow> u32 \<times> u32 \<Rightarrow> bool" where
  "owned_by m o' \<longleftrightarrow> mx_count m \<noteq> 0 \<and> (mx_pid m, mx_tid m) = o'"

definition entered :: "cpu \<Rightarrow> mutex \<Rightarrow> mutex" where
  "entered c m = m\<lparr>mx_count := mx_count m + 1, mx_pid := fst (the (cpu_current c)),
                    mx_tid := snd (the (cpu_current c))\<rparr>"

lemma mutex_inner_same [simp]: "sl_lock (mx_inner m) = 0 \<Longrightarrow> m\<lparr>mx_inner := mx_inner m\<rparr> = (m :: mutex)"
  by (cases m) simp

lemma mutex_lock_lockable:
  assumes "lockable c m"
  shows "mutex_lock c m = Inr (c, entered c m)"
proof -
  obtain p t where cur: "cpu_current c = Some (p, t)"
    using assms by (auto simp: lockable_def split: option.splits)
  with assms have "sl_lock (mx_inner m) = 0" "mx_count m = 0 \<or> mx_pid m = p \<and> mx_tid m = t"
    by (auto simp: lockable_def)
  with cur show ?thesis
    by (cases c; cases m; cases "mx_inner m")
      (auto simp: mutex_lock_def spinlock_acquire_def spinlock_release_def entered_def
        word_gt_0 Let_def)
qed

lemma mutex_lock_Inr_iff:
  "mutex_lock c m = Inr (c', m') \<longleftrightarrow> lockable c m \<and> c' = c \<and> m' = entered c m"
proof (cases "lockable c m")
  case True
  then show ?thesis by (auto simp: mutex_lock_lockable)
next
  case False
  then show ?thesis
    by (auto simp: mutex_lock_def lockable_def spinlock_acquire_def word_gt_0 Let_def
        split: option.splits prod.splits if_splits)
qed

definition left :: "mutex \<Rightarrow> mutex" where
  "left m = m\<lparr>mx_count := mx_count m - 1\<rparr>"

lemma mutex_unlock_Inr_iff:
  "mutex_unlock c m = Inr (c', m') \<longleftrightarrow>
     sl_lock (mx_inner m) = 0 \<and> (\<exists>o'. cpu_current c = Some o' \<and> owned_by m o') \<and> c' = c \<and> m' = left m"
  by (cases c; cases m; cases "mx_inner m")
    (auto simp: mutex_unlock_def spinlock_acquire_def spinlock_release_def owned_by_def left_def
      Let_def split: option.splits prod.splits if_splits)

lemma lockable_entered: "lockable c m \<Longrightarrow> mx_count m \<noteq> - 1 \<Longrightarrow>
  sl_lock (mx_inner (entered c m)) = 0 \<and> (\<exists>o'. cpu_current c = Some o' \<and> owned_by (entered c m) o')"
  by (auto simp: lockable_def entered_def owned_by_def eq_neg_iff_add_eq_0 split: option.splits)

lemma lockable_left_entered: "lockable c m \<Longrightarrow> lockable c (left (entered c m))"
  by (auto simp: lockable_def entered_def left_def split: option.splits)

text \<open>A lock call and the matching unlock around a critical section.\<close>

lemma mutex_critical:
  assumes "lockable c m" and "mx_count m \<noteq> - 1"
  shows "mutex_lock c m = Inr (c, entered c m)"
    and "mutex_unlock c (entered c m) = Inr (c, left (entered c m))"
    and "lockable c (left (entered c m))" and "mx_count (left (entered c m)) \<noteq> - 1"
  using assms lockable_entered [OF assms] lockable_left_entered [OF assms(1)]
  by (simp_all add: mutex_lock_lockable mutex_unlock_Inr_iff) (simp add: left_def entered_def)

section \<open>The mutex as a protocol between threads\<close>

text \<open>
  Any number of threads, named by their process and thread ids, enter and leave one mutex.
  \<open>depth t\<close> counts how many of thread \<open>t\<close>'s \<^verbatim>\<open>mutex_lock\<close> calls have returned and are not yet
  undone. A step is one whole call (each runs with interrupts off under the inner spinlock).
  A thread nests its locks less than \<open>2 ^ 32 - 1\<close> deep, so that the 32-bit counter does not wrap.
\<close>

record mutex_sys =
  ms_mutex :: mutex
  ms_depth :: "u32 \<times> u32 \<Rightarrow> nat"

inductive mutex_step :: "mutex_sys \<Rightarrow> mutex_sys \<Rightarrow> bool" where
  lock: "cpu_current c = Some t \<Longrightarrow> ms_depth s t < 2 ^ 32 - 1 \<Longrightarrow>
     mutex_lock c (ms_mutex s) = Inr (c', m') \<Longrightarrow>
     mutex_step s \<lparr> ms_mutex = m', ms_depth = (ms_depth s)(t := Suc (ms_depth s t)) \<rparr>"
| unlock: "cpu_current c = Some t \<Longrightarrow>
     mutex_unlock c (ms_mutex s) = Inr (c', m') \<Longrightarrow>
     mutex_step s \<lparr> ms_mutex = m', ms_depth = (ms_depth s)(t := ms_depth s t - 1) \<rparr>"

inductive_cases mutex_stepE: "mutex_step s s'"

inductive mutex_reach :: "mutex_sys \<Rightarrow> bool" where
  init: "mutex_reach \<lparr> ms_mutex = mutex_create, ms_depth = (\<lambda>_. 0) \<rparr>"
| step: "mutex_reach s \<Longrightarrow> mutex_step s s' \<Longrightarrow> mutex_reach s'"

definition mutex_inv :: "mutex_sys \<Rightarrow> bool" where
  "mutex_inv s \<longleftrightarrow> sl_lock (mx_inner (ms_mutex s)) = 0 \<and>
     (\<forall>t. ms_depth s t = (if owned_by (ms_mutex s) t then unat (mx_count (ms_mutex s)) else 0))"

lemma mutex_inv_depth:
  "mutex_inv s \<Longrightarrow> ms_depth s u = (if owned_by (ms_mutex s) u then unat (mx_count (ms_mutex s)) else 0)"
  by (cases u) (simp add: mutex_inv_def)

lemma mutex_inv_init: "mutex_inv \<lparr> ms_mutex = mutex_create, ms_depth = (\<lambda>_. 0) \<rparr>"
  by (simp add: mutex_inv_def mutex_create_def spinlock_create_def owned_by_def)

lemma unat_Suc_u32: "unat (w :: u32) < 2 ^ 32 - 1 \<Longrightarrow> unat (w + 1) = Suc (unat w)"
  by (subst unat_add_small) auto

lemma unat_pred_u32: "(w :: u32) \<noteq> 0 \<Longrightarrow> unat (w - 1) = unat w - 1"
  by (subst unat_sub_small) (auto simp: unat_gt_0 Suc_leI)

lemma mutex_inv_lock:
  assumes inv: "mutex_inv s" and cur: "cpu_current c = Some t" and d: "ms_depth s t < 2 ^ 32 - 1"
    and lk: "lockable c (ms_mutex s)"
  shows "mutex_inv \<lparr> ms_mutex = entered c (ms_mutex s), ms_depth = (ms_depth s)(t := Suc (ms_depth s t)) \<rparr>"
proof -
  let ?m = "ms_mutex s"
  note dep = mutex_inv_depth [OF inv]
  have own: "mx_count ?m = 0 \<or> (mx_pid ?m, mx_tid ?m) = t"
    using lk cur by (auto simp: lockable_def)
  have dt: "ms_depth s t = unat (mx_count ?m)"
    using own dep [of t] by (auto simp: owned_by_def)
  have others: "u \<noteq> t \<Longrightarrow> ms_depth s u = 0" for u
    using own dep [of u] by (auto simp: owned_by_def)
  have c: "unat (mx_count ?m + 1) = Suc (unat (mx_count ?m))"
    using d dt by (intro unat_Suc_u32) simp
  then have nz: "mx_count ?m + 1 \<noteq> 0"
    by (metis nat.distinct(1) unat_0)
  have "owned_by (entered c ?m) u \<longleftrightarrow> u = t" for u
    using cur nz by (cases t) (auto simp: entered_def owned_by_def)
  with inv c dt others show ?thesis
    by (simp add: mutex_inv_def entered_def del: split_paired_All)
qed

lemma mutex_inv_unlock:
  assumes inv: "mutex_inv s" and own: "owned_by (ms_mutex s) t"
  shows "mutex_inv \<lparr> ms_mutex = left (ms_mutex s), ms_depth = (ms_depth s)(t := ms_depth s t - 1) \<rparr>"
  using inv own
  by (auto simp: mutex_inv_def left_def owned_by_def unat_pred_u32 split: if_splits)

lemma mutex_step_inv: "mutex_step s s' \<Longrightarrow> mutex_inv s \<Longrightarrow> mutex_inv s'"
  by (erule mutex_stepE)
    (simp_all add: mutex_lock_Inr_iff mutex_unlock_Inr_iff mutex_inv_lock,
      use mutex_inv_unlock in force)

lemma mutex_reach_inv: "mutex_reach s \<Longrightarrow> mutex_inv s"
  by (induction rule: mutex_reach.induct) (auto simp: mutex_inv_init intro: mutex_step_inv)

text \<open>
  C23. Mutual exclusion of the recursive mutex: in every state reachable through completed
  \<^verbatim>\<open>mutex_lock\<close> and \<^verbatim>\<open>mutex_unlock\<close> calls of any number of threads, at most one thread is inside,
  the mutex records exactly that thread as its owner, and its counter is that thread's depth.
\<close>

theorem mutex_mutual_exclusion:
  assumes "mutex_reach s" and "ms_depth s t > 0"
  shows "(\<forall>u. ms_depth s u > 0 \<longleftrightarrow> u = t) \<and> (mx_pid (ms_mutex s), mx_tid (ms_mutex s)) = t
    \<and> unat (mx_count (ms_mutex s)) = ms_depth s t"
proof -
  note d = mutex_inv_depth [OF mutex_reach_inv [OF assms(1)]]
  have t: "owned_by (ms_mutex s) t" "ms_depth s t = unat (mx_count (ms_mutex s))"
    using assms(2) d [of t] by (simp_all split: if_splits)
  moreover have "owned_by (ms_mutex s) u \<longleftrightarrow> u = t" for u
    using t(1) by (auto simp: owned_by_def)
  ultimately show ?thesis
    using assms(2) d by (simp add: owned_by_def)
qed

definition cpu_of :: "u32 \<times> u32 \<Rightarrow> cpu" where
  "cpu_of t = \<lparr> cpu_if = True, cpu_current = Some t \<rparr>"

lemma mutex_reach_example:
  "mutex_reach \<lparr> ms_mutex = \<lparr> mx_inner = \<lparr> sl_lock = 0 \<rparr>, mx_count = 1, mx_pid = 100, mx_tid = 1 \<rparr>,
                 ms_depth = (\<lambda>_. 0)((100, 1) := 1) \<rparr>"
proof -
  have "mutex_step \<lparr> ms_mutex = mutex_create, ms_depth = (\<lambda>_. 0) \<rparr>
     \<lparr> ms_mutex = \<lparr> mx_inner = \<lparr> sl_lock = 0 \<rparr>, mx_count = 1, mx_pid = 100, mx_tid = 1 \<rparr>,
       ms_depth = (\<lambda>_. 0)((100, 1) := Suc 0) \<rparr>"
    using mutex_step.lock [of "cpu_of (100, 1)" "(100, 1)"
        "\<lparr> ms_mutex = mutex_create, ms_depth = (\<lambda>_. 0) \<rparr>" "cpu_of (100, 1)"
        "\<lparr> mx_inner = \<lparr> sl_lock = 0 \<rparr>, mx_count = 1, mx_pid = 100, mx_tid = 1 \<rparr>"]
    by (simp add: cpu_of_def mutex_create_def spinlock_create_def mutex_lock_Inr_iff lockable_def
        entered_def)
  with mutex_reach.init show ?thesis by (auto intro: mutex_reach.step)
qed

theorem mutex_mutual_exclusion_witness:
  "\<exists>s. mutex_reach s \<and> ms_depth s (100, 1) > 0 \<and> \<not> ms_depth s (100, 2) > 0"
  using mutex_mutual_exclusion [OF mutex_reach_example, of "(100, 1)"] mutex_reach_example
  by (intro exI [of _ "\<lparr> ms_mutex = \<lparr> mx_inner = \<lparr> sl_lock = 0 \<rparr>, mx_count = 1, mx_pid = 100, mx_tid = 1 \<rparr>,
                 ms_depth = (\<lambda>_. 0)((100, 1) := 1) \<rparr>"]) simp

section \<open>Events\<close>

lemma event_poll_free:
  assumes "sl_lock (ev_lock e) = 0"
  shows "event_poll c e = Inr (ev_state e, c,
     if ev_state e \<noteq> 0 \<and> ev_autoreset e \<noteq> 0 then e\<lparr>ev_state := 0\<rparr> else e)"
  using assms
  by (cases c; cases e; cases "ev_lock e")
    (auto simp: event_poll_def spinlock_acquire_def spinlock_release_def EVENT_STATE_UNSIGNALED_def Let_def)

text \<open>The event as the waiting thread finds it at iteration \<open>k\<close>, if it was never signalled before.\<close>

fun event_at :: "(nat \<Rightarrow> k_event \<Rightarrow> k_event) \<Rightarrow> k_event \<Rightarrow> nat \<Rightarrow> k_event" where
  "event_at others e 0 = e"
| "event_at others e (Suc k) = others k (event_at others e k)"

lemma event_wait_loop_stop:
  assumes "\<And>j. j \<le> k + n \<Longrightarrow> sl_lock (ev_lock (event_at others e j)) = 0"
    and "\<And>j. k \<le> j \<Longrightarrow> j < k + n \<Longrightarrow> ev_state (event_at others e j) = 0 \<and> tick j - ucast t0 < ucast timeout"
    and "ev_state (event_at others e (k + n)) \<noteq> 0 \<or> tick (k + n) - ucast t0 \<ge> ucast timeout"
  shows "event_wait_loop tick others timeout t0 k c (event_at others e k) =
     (let e' = event_at others e (k + n) in
      Some (Inr (if ev_state e' \<noteq> 0 then S_OK else E_TIMEDOUT, c,
        if ev_state e' \<noteq> 0 \<and> ev_autoreset e' \<noteq> 0 then e'\<lparr>ev_state := 0\<rparr> else e')))"
  using assms
proof (induction n arbitrary: k)
  case 0
  then show ?case
    by (subst event_wait_loop.simps)
      (auto simp: event_poll_free EVENT_STATE_UNSIGNALED_def Let_def)
next
  case (Suc n)
  have now: "ev_state (event_at others e k) = 0" "tick k - ucast t0 < ucast timeout"
    using Suc.prems(2) [of k] by auto
  have poll: "event_poll c (event_at others e k) = Inr (0, c, event_at others e k)"
    using Suc.prems(1) [of k] now by (simp add: event_poll_free)
  have "event_wait_loop tick others timeout t0 k c (event_at others e k)
      = event_wait_loop tick others timeout t0 (Suc k) c (event_at others e (Suc k))"
    using now by (subst event_wait_loop.simps) (simp add: poll EVENT_STATE_UNSIGNALED_def not_le [symmetric])
  with Suc.IH [of "Suc k"] Suc.prems show ?case by simp
qed

text \<open>\<^verbatim>\<open>event_waitfor\<close> returns at the first poll that sees the event signalled or the time-out
  elapsed, whichever is first: \<open>S_OK\<close> in the first case, with an auto-reset event consumed (its
  state is 0 again), \<open>E_TIMEDOUT\<close> with the event untouched in the second. \<open>n\<close> is that poll.
\<close>

theorem event_waitfor_result:
  assumes "\<And>j. j \<le> n \<Longrightarrow> sl_lock (ev_lock (event_at others e j)) = 0"
    and "\<And>j. j < n \<Longrightarrow> ev_state (event_at others e j) = 0
                \<and> tick j - ucast (ucast now :: u32) < ucast timeout"
    and "ev_state (event_at others e n) \<noteq> 0 \<or> tick n - ucast (ucast now :: u32) \<ge> ucast timeout"
  shows "event_waitfor now tick others c e timeout =
     (let e' = event_at others e n in
      Inr (if ev_state e' \<noteq> 0 then S_OK else E_TIMEDOUT, c,
        if ev_state e' \<noteq> 0 \<and> ev_autoreset e' \<noteq> 0 then e'\<lparr>ev_state := 0\<rparr> else e'))"
  using event_wait_loop_stop [of 0 n others e tick "ucast now" timeout c] assms
  by (simp add: event_waitfor_def Let_def)

text \<open>An auto-reset event that another thread signals during the second yield.\<close>

theorem event_waitfor_result_witness:
  "event_waitfor 10 (\<lambda>k. 10) (\<lambda>k e. if k = 1 then e\<lparr>ev_state := 1\<rparr> else e)
     (cpu_of (100, 1)) (event_create EVENT_FLAG_AUTORESET) 50
   = Inr (S_OK, cpu_of (100, 1), event_create EVENT_FLAG_AUTORESET)"
proof -
  let ?o = "\<lambda>(k::nat) e. if k = 1 then e\<lparr>ev_state := 1\<rparr> else (e :: k_event)"
  let ?e = "event_create EVENT_FLAG_AUTORESET"
  have at: "event_at ?o ?e 0 = ?e" "event_at ?o ?e 1 = ?e" "event_at ?o ?e 2 = ?e\<lparr>ev_state := 1\<rparr>"
    by (simp_all add: numeral_2_eq_2)
  have lt: "j < 2 \<Longrightarrow> event_at ?o ?e j = ?e" for j :: nat
    using at by (cases "j = 0") (auto simp: less_2_cases_iff)
  have le: "j \<le> 2 \<Longrightarrow> sl_lock (ev_lock (event_at ?o ?e j)) = 0" for j :: nat
    using at lt [of j] by (cases "j = 2") (auto simp: event_create_def spinlock_create_def)
  have un: "j < 2 \<Longrightarrow> ev_state (event_at ?o ?e j) = 0" for j :: nat
    using lt [of j] by (simp add: event_create_def)
  show ?thesis
    by (subst event_waitfor_result [of 2])
      (use le un at(3) in \<open>auto simp: event_create_def EVENT_FLAG_AUTORESET_def Let_def\<close>)
qed

text \<open>An infinite wait is not infinite: \<^verbatim>\<open>timer_gettickcount\<close> wraps at 32 bits, and when it reads
  less than the initial time the 64-bit difference is huge, so an unsignalled wait ends with
  \<open>E_TIMEDOUT\<close> at its first poll whatever the time-out is, \<^verbatim>\<open>TIMEOUT_INFINITE\<close> included.
\<close>

theorem event_wait_spurious_timeout:
  assumes "sl_lock (ev_lock e) = 0" and "ev_state e = 0" and "tick 0 < ucast (ucast now :: u32)"
  shows "event_waitfor now tick others c e TIMEOUT_INFINITE = Inr (E_TIMEDOUT, c, e)"
proof -
  let ?t = "ucast (ucast now :: u32) :: u64"
  have t: "unat ?t < 2 ^ 32"
    using unsigned_less [of "ucast now :: u32"] by (simp add: unat_ucast64)
  have "unat (tick 0 - ?t) \<ge> 2 ^ 32 - 1"
    using assms(3) t by (simp add: word_less_nat_alt unat_sub_if' not_le)
  then have "ucast TIMEOUT_INFINITE \<le> tick 0 - ?t"
    by (simp add: word_le_nat_alt TIMEOUT_INFINITE_def)
  with assms(1,2) event_waitfor_result [of 0 others e tick now TIMEOUT_INFINITE c]
  show ?thesis by (simp add: Let_def)
qed

theorem event_wait_spurious_timeout_witness:
  "event_waitfor 4294967295 (\<lambda>_. 0) (\<lambda>_. id) (cpu_of (100, 1)) (event_create 0) TIMEOUT_INFINITE
   = Inr (E_TIMEDOUT, cpu_of (100, 1), event_create 0)"
  by (rule event_wait_spurious_timeout) (simp_all add: event_create_def spinlock_create_def)

end
