(* ===== verification/Fifo_Spec.thy ===== *)
theory Fifo_Spec
  imports Antonix_Base
begin

text \<open>
  The contract of a bounded byte channel, which both the ring buffer container and the named
  pipes promise: a block is queued whole or not at all, a read takes the oldest bytes or
  nothing, and no byte is lost, duplicated or reordered. The index arithmetic that the two
  sources share, line by line, is defined and proved here once.
\<close>

section \<open>The shared ring arithmetic\<close>

definition ring_free :: "u32 \<Rightarrow> u32 \<Rightarrow> u32 \<Rightarrow> u32" where
  "ring_free cap rp wp = (if wp \<ge> rp then cap - (wp - rp) else rp - wp)"

definition ring_avail :: "u32 \<Rightarrow> u32 \<Rightarrow> u32 \<Rightarrow> u32" where
  "ring_avail cap rp wp = (if rp > wp then cap - (rp - wp) else wp - rp)"

text \<open>Copy a block in, in two pieces if it runs past the end; the result is the buffer and the
  new write index.\<close>

definition ring_store :: "u32 \<Rightarrow> u32 \<Rightarrow> bytes \<Rightarrow> bytes \<Rightarrow> u32 \<Rightarrow> (bytes \<times> u32) run" where
  "ring_store cap wp buf src len =
     (if len > cap - wp then
        let s1 = cap - wp; s2 = len - s1 in
        bindR (memcpyR buf (unat wp) src 0 (unat s1)) (\<lambda>buf.
        bindR (memcpyR buf 0 src (unat s1) (unat s2)) (\<lambda>buf. Inr (buf, s2)))
      else
        bindR (memcpyR buf (unat wp) src 0 (unat len)) (\<lambda>buf. Inr (buf, wp + len)))"

text \<open>Copy a block out; the result is the destination and the new read index.\<close>

definition ring_fetch :: "u32 \<Rightarrow> u32 \<Rightarrow> bytes \<Rightarrow> bytes \<Rightarrow> u32 \<Rightarrow> (bytes \<times> u32) run" where
  "ring_fetch cap rp buf dst len =
     (if rp + len > cap then
        let s1 = cap - rp; s2 = len - s1 in
        bindR (memcpyR dst 0 buf (unat rp) (unat s1)) (\<lambda>dst.
        bindR (memcpyR dst (unat s1) buf 0 (unat s2)) (\<lambda>dst. Inr (dst, s2)))
      else
        bindR (memcpyR dst 0 buf (unat rp) (unat len)) (\<lambda>dst. Inr (dst, rp + len)))"

section \<open>What the ring holds\<close>

definition ring_data :: "u32 \<Rightarrow> u32 \<Rightarrow> bytes \<Rightarrow> bytes" where
  "ring_data rp wp buf =
     (if unat wp < unat rp then drop (unat rp) buf @ take (unat wp) buf
      else take (unat wp - unat rp) (drop (unat rp) buf))"

text \<open>The indices lie in the buffer, and the full ring is never confused with the empty one.
  Capacities below \<open>2 ^ 31\<close> keep \<^verbatim>\<open>read_pointer + len\<close> from wrapping.\<close>

definition ring_ok :: "u32 \<Rightarrow> u32 \<Rightarrow> u32 \<Rightarrow> bytes \<Rightarrow> bool" where
  "ring_ok cap rp wp buf \<longleftrightarrow> 0 < unat cap \<and> unat cap < 2 ^ 31 \<and> length buf = unat cap
     \<and> unat rp \<le> unat cap \<and> unat wp \<le> unat cap \<and> \<not> (unat wp = unat cap \<and> unat rp = 0)"

lemma length_ring_data:
  "ring_ok cap rp wp buf \<Longrightarrow> length (ring_data rp wp buf) =
     (if unat wp < unat rp then unat cap - (unat rp - unat wp) else unat wp - unat rp)"
  by (auto simp: ring_ok_def ring_data_def)

lemma length_ring_data_less: "ring_ok cap rp wp buf \<Longrightarrow> length (ring_data rp wp buf) < unat cap"
  by (simp add: length_ring_data) (auto simp: ring_ok_def)

lemma ring_avail_unat:
  "ring_ok cap rp wp buf \<Longrightarrow> unat (ring_avail cap rp wp) = length (ring_data rp wp buf)"
  by (simp add: length_ring_data ring_avail_def word_less_nat_alt)
    (auto simp: ring_ok_def unat_sub_small)

lemma ring_free_unat:
  assumes "ring_ok cap rp wp buf"
  shows "unat (ring_free cap rp wp - 1) = unat cap - 1 - length (ring_data rp wp buf)"
proof -
  have "unat (ring_free cap rp wp) = unat cap - length (ring_data rp wp buf)"
    using assms by (simp add: length_ring_data ring_free_def word_le_nat_alt)
      (auto simp: ring_ok_def unat_sub_small)
  moreover have "0 < unat cap - length (ring_data rp wp buf)"
    using length_ring_data_less [OF assms] by simp
  ultimately show ?thesis by (subst unat_sub_small) simp_all
qed

lemma data_store_straight:
  assumes "w + length xs \<le> length b" and "r \<le> w"
  shows "take (w + length xs - r) (drop r (buf_put b w xs)) = take (w - r) (drop r b) @ xs"
proof -
  have "w + length xs - r = (w - r) + length xs" and "min (length b - r) (w - r) = w - r"
    using assms by auto
  with assms show ?thesis by (simp add: buf_put_def drop_take)
qed

lemma data_store_behind:
  "w + length xs < r \<Longrightarrow> r \<le> length b \<Longrightarrow>
   drop r (buf_put b w xs) @ take (w + length xs) (buf_put b w xs) = drop r b @ take w b @ xs"
  by (simp add: buf_put_def min_def)

lemma data_store_wrap:
  assumes "r \<le> w" "w \<le> length b" "length xs = (length b - w) + n" "n < r"
  shows "drop r (buf_put (buf_put b w (take (length b - w) xs)) 0 (drop (length b - w) xs))
     @ take n (buf_put (buf_put b w (take (length b - w) xs)) 0 (drop (length b - w) xs))
    = take (w - r) (drop r b) @ xs"
  using assms by (simp add: buf_put_def drop_take min_def)

lemma ring_store_ok:
  assumes ok: "ring_ok cap rp wp buf" and len: "length src = unat len"
    and fits: "length (ring_data rp wp buf) + unat len \<le> unat cap - 1"
  shows "\<exists>buf' wp'. ring_store cap wp buf src len = Inr (buf', wp') \<and> ring_ok cap rp wp' buf'
     \<and> ring_data rp wp' buf' = ring_data rp wp buf @ src"
proof -
  note b = ok [unfolded ring_ok_def]
  let ?s1 = "unat cap - unat wp"
  have s1: "unat (cap - wp) = ?s1"
    using b by (simp add: unat_sub_small)
  note used = length_ring_data [OF ok]
  show ?thesis
  proof (cases "len > cap - wp")
    case True
    then have gt: "?s1 < unat len" by (simp add: word_less_nat_alt s1)
    then have le: "unat rp \<le> unat wp"
      using fits used b by (auto split: if_splits)
    have s2: "unat (len - (cap - wp)) = unat len - ?s1"
      using gt by (subst unat_sub_small) (simp_all add: s1)
    have "unat wp - unat rp + unat len \<le> unat cap - 1"
      using fits used le by simp
    then have n: "unat len - ?s1 < unat rp"
      using le b gt by arith
    let ?b1 = "buf_put buf (unat wp) (take ?s1 src)"
    let ?b2 = "buf_put ?b1 0 (drop ?s1 src)"
    have st: "ring_store cap wp buf src len = Inr (?b2, len - (cap - wp))"
      using True b len gt le n
      by (simp add: ring_store_def Let_def s1 s2 memcpyR_ok buf_get_def min_def)
    have "ring_data rp (len - (cap - wp)) ?b2 = ring_data rp wp buf @ src"
      using data_store_wrap [of "unat rp" "unat wp" buf src "unat len - ?s1"] le n b len gt s2
      by (simp add: ring_data_def)
    moreover have "ring_ok cap rp (len - (cap - wp)) ?b2"
      using b n le gt len by (simp add: ring_ok_def s2)
    ultimately show ?thesis using st by blast
  next
    case False
    then have le: "unat wp + unat len \<le> unat cap"
      using b by (simp add: word_less_nat_alt s1) arith
    have wp': "unat (wp + len) = unat wp + unat len"
      using le b by (subst unat_add_small) auto
    let ?b = "buf_put buf (unat wp) src"
    have st: "ring_store cap wp buf src len = Inr (?b, wp + len)"
      using False b len le by (simp add: ring_store_def memcpyR_ok buf_get_def)
    have "ring_data rp (wp + len) ?b = ring_data rp wp buf @ src \<and> ring_ok cap rp (wp + len) ?b"
    proof (cases "unat wp < unat rp")
      case True
      then have "unat wp + unat len < unat rp"
        using fits used b by auto
      with True data_store_behind [of "unat wp" src "unat rp" buf] b len le show ?thesis
        by (simp add: ring_data_def ring_ok_def wp')
    next
      case False
      with data_store_straight [of "unat wp" src buf "unat rp"] b len le fits used show ?thesis
        by (auto simp: ring_data_def ring_ok_def wp')
    qed
    with st show ?thesis by blast
  qed
qed

lemma data_fetch_straight:
  "r + n \<le> w \<Longrightarrow> w \<le> length b \<Longrightarrow>
   take n (take (w - r) (drop r b)) = buf_get b r n \<and>
   drop n (take (w - r) (drop r b)) = take (w - (r + n)) (drop (r + n) b)"
  by (simp add: buf_get_def min_def drop_take add.commute)

lemma ring_fetch_ok:
  assumes ok: "ring_ok cap rp wp buf" and room: "unat len \<le> length dst"
    and enough: "unat len \<le> length (ring_data rp wp buf)"
  shows "\<exists>rp'. ring_fetch cap rp buf dst len
       = Inr (buf_put dst 0 (take (unat len) (ring_data rp wp buf)), rp')
     \<and> ring_ok cap rp' wp buf \<and> ring_data rp' wp buf = drop (unat len) (ring_data rp wp buf)"
proof -
  note b = ok [unfolded ring_ok_def]
  note used = length_ring_data [OF ok]
  let ?s1 = "unat cap - unat rp"
  have s1: "unat (cap - rp) = ?s1"
    using b by (simp add: unat_sub_small)
  have sum: "unat (rp + len) = unat rp + unat len"
    using b enough length_ring_data_less [OF ok] by (subst unat_add_small) auto
  show ?thesis
  proof (cases "rp + len > cap")
    case True
    then have "unat cap < unat rp + unat len" by (simp add: word_less_nat_alt sum)
    then have gt: "?s1 < unat len" using b by arith
    then have lt: "unat wp < unat rp"
      using enough used b by (auto split: if_splits)
    have s2: "unat (len - (cap - rp)) = unat len - ?s1"
      using gt by (subst unat_sub_small) (simp_all add: s1)
    have n: "unat len - ?s1 \<le> unat wp"
      using enough used lt b by auto
    have "ring_fetch cap rp buf dst len
        = Inr (buf_put (buf_put dst 0 (drop (unat rp) buf)) ?s1 (take (unat len - ?s1) buf), len - (cap - rp))"
      using True b room gt n
      by (simp add: ring_fetch_def Let_def s1 s2 memcpyR_ok buf_get_def)
    moreover have "buf_put (buf_put dst 0 (drop (unat rp) buf)) ?s1 (take (unat len - ?s1) buf)
        = buf_put dst 0 (take (unat len) (ring_data rp wp buf))"
      using lt b gt n room by (simp add: ring_data_def buf_put_def min_def)
    moreover have "ring_data (len - (cap - rp)) wp buf = drop (unat len) (ring_data rp wp buf)"
      using lt b gt n by (simp add: ring_data_def s2 drop_take)
    moreover have "ring_ok cap (len - (cap - rp)) wp buf"
      using b lt n gt by (auto simp: ring_ok_def s2)
    ultimately show ?thesis by auto
  next
    case False
    then have le: "unat rp + unat len \<le> unat cap"
      by (simp add: word_less_nat_alt sum)
    have st: "ring_fetch cap rp buf dst len = Inr (buf_put dst 0 (buf_get buf (unat rp) (unat len)), rp + len)"
      using False b le room by (simp add: ring_fetch_def memcpyR_ok)
    show ?thesis
    proof (cases "unat wp < unat rp")
      case True
      then show ?thesis using st b le sum
        by (auto simp: ring_data_def ring_ok_def buf_get_def add.commute)
    next
      case False
      then have "unat rp + unat len \<le> unat wp"
        using enough used by simp
      with False data_fetch_straight [of "unat rp" "unat len" "unat wp" buf] b st le sum show ?thesis
        by (auto simp: ring_data_def ring_ok_def)
    qed
  qed
qed

section \<open>The channel contract\<close>

text \<open>Client programs of a channel: \<open>Send xs\<close> offers a block, \<open>Recv n\<close> asks for \<open>n\<close> bytes. The run
  collects the bytes the channel accepted and the bytes it delivered.\<close>

datatype chan_op = Send bytes | Recv nat

fun op_size :: "chan_op \<Rightarrow> nat" where
  "op_size (Send xs) = length xs"
| "op_size (Recv n) = n"

fun chan_run ::
  "('s \<Rightarrow> bytes \<Rightarrow> (hresult \<times> 's) run) \<Rightarrow> ('s \<Rightarrow> nat \<Rightarrow> (hresult \<times> bytes \<times> 's) run)
   \<Rightarrow> chan_op list \<Rightarrow> 's \<Rightarrow> (bytes \<times> bytes \<times> 's) run" where
  "chan_run send recv [] s = Inr ([], [], s)"
| "chan_run send recv (Send xs # ops) s =
     bindR (send s xs) (\<lambda>(h, s').
     bindR (chan_run send recv ops s') (\<lambda>(acc, rcv, t).
     Inr (if SUCCEEDED h then xs @ acc else acc, rcv, t)))"
| "chan_run send recv (Recv n # ops) s =
     bindR (recv s n) (\<lambda>(h, ys, s').
     bindR (chan_run send recv ops s') (\<lambda>(acc, rcv, t).
     Inr (acc, if SUCCEEDED h then ys @ rcv else rcv, t)))"

locale byte_channel =
  fixes chan_inv :: "'s \<Rightarrow> bool"
    and queued :: "'s \<Rightarrow> bytes"
    and usable :: "'s \<Rightarrow> nat"
    and send :: "'s \<Rightarrow> bytes \<Rightarrow> (hresult \<times> 's) run"
    and recv :: "'s \<Rightarrow> nat \<Rightarrow> (hresult \<times> bytes \<times> 's) run"
  assumes send_fits: "chan_inv s \<Longrightarrow> length (queued s) + length xs \<le> usable s \<Longrightarrow>
      \<exists>s'. send s xs = Inr (S_OK, s') \<and> chan_inv s' \<and> usable s' = usable s \<and> queued s' = queued s @ xs"
    and send_full: "chan_inv s \<Longrightarrow> usable s < length (queued s) + length xs \<Longrightarrow> length xs < 2 ^ 32 \<Longrightarrow>
      \<exists>h s'. send s xs = Inr (h, s') \<and> FAILED h \<and> chan_inv s' \<and> usable s' = usable s \<and> queued s' = queued s"
    and recv_ready: "chan_inv s \<Longrightarrow> n \<le> length (queued s) \<Longrightarrow>
      \<exists>s'. recv s n = Inr (S_OK, take n (queued s), s') \<and> chan_inv s' \<and> usable s' = usable s
        \<and> queued s' = drop n (queued s)"
    and recv_short: "chan_inv s \<Longrightarrow> length (queued s) < n \<Longrightarrow> n < 2 ^ 32 \<Longrightarrow>
      \<exists>h ys s'. recv s n = Inr (h, ys, s') \<and> FAILED h \<and> chan_inv s' \<and> usable s' = usable s \<and> queued s' = queued s"
begin

lemma send_step:
  assumes "chan_inv s" and "length xs < 2 ^ 32"
  obtains h s' where "send s xs = Inr (h, s')" "chan_inv s'" "usable s' = usable s"
    "queued s' = queued s @ (if SUCCEEDED h then xs else [])"
proof (cases "length (queued s) + length xs \<le> usable s")
  case True
  obtain s' where "send s xs = Inr (S_OK, s')" "chan_inv s'" "usable s' = usable s"
    "queued s' = queued s @ xs"
    using send_fits [OF assms(1) True] by blast
  then show ?thesis by (intro that [of S_OK s']) simp_all
next
  case False
  obtain h s' where "send s xs = Inr (h, s')" "FAILED h" "chan_inv s'" "usable s' = usable s"
    "queued s' = queued s"
    using send_full [OF assms(1) _ assms(2)] False by (auto simp del: FAILED_iff)
  then show ?thesis by (intro that [of h s']) simp_all
qed

lemma recv_step:
  assumes "chan_inv s" and "n < 2 ^ 32"
  obtains h ys s' where "recv s n = Inr (h, ys, s')" "chan_inv s'" "usable s' = usable s"
    "queued s = (if SUCCEEDED h then ys else []) @ queued s'"
proof (cases "n \<le> length (queued s)")
  case True
  obtain s' where "recv s n = Inr (S_OK, take n (queued s), s')" "chan_inv s'" "usable s' = usable s"
    "queued s' = drop n (queued s)"
    using recv_ready [OF assms(1) True] by blast
  then show ?thesis by (intro that [of S_OK "take n (queued s)" s']) simp_all
next
  case False
  obtain h ys s' where "recv s n = Inr (h, ys, s')" "FAILED h" "chan_inv s'" "usable s' = usable s"
    "queued s' = queued s"
    using recv_short [OF assms(1) _ assms(2)] False by (auto simp del: FAILED_iff)
  then show ?thesis by (intro that [of h ys s']) simp_all
qed

text \<open>First in, first out, nothing lost or invented, for every client program.\<close>

lemma run_is_fifo:
  assumes "chan_inv s" and "\<And>p. p \<in> set ops \<Longrightarrow> op_size p < 2 ^ 32"
  shows "\<exists>acc rcv s'. chan_run send recv ops s = Inr (acc, rcv, s') \<and> chan_inv s'
    \<and> usable s' = usable s \<and> queued s @ acc = rcv @ queued s'"
  using assms
proof (induction ops arbitrary: s)
  case Nil
  then show ?case by simp
next
  case (Cons p ops)
  show ?case
  proof (cases p)
    case (Send xs)
    have "length xs < 2 ^ 32"
      using Cons.prems(2) [of p] Send by simp
    from send_step [OF Cons.prems(1) this] obtain h s1 where s1: "send s xs = Inr (h, s1)"
      "chan_inv s1" "usable s1 = usable s" "queued s1 = queued s @ (if SUCCEEDED h then xs else [])"
      by blast
    obtain acc rcv t where "chan_run send recv ops s1 = Inr (acc, rcv, t)" "chan_inv t"
      "usable t = usable s1" "queued s1 @ acc = rcv @ queued t"
      using Cons.IH [OF s1(2)] Cons.prems(2) by auto
    with s1 Send show ?thesis by (cases "SUCCEEDED h") auto
  next
    case (Recv n)
    have "n < 2 ^ 32"
      using Cons.prems(2) [of p] Recv by simp
    from recv_step [OF Cons.prems(1) this] obtain h ys s1 where s1: "recv s n = Inr (h, ys, s1)"
      "chan_inv s1" "usable s1 = usable s" "queued s = (if SUCCEEDED h then ys else []) @ queued s1"
      by blast
    obtain acc rcv t where "chan_run send recv ops s1 = Inr (acc, rcv, t)" "chan_inv t"
      "usable t = usable s1" "queued s1 @ acc = rcv @ queued t"
      using Cons.IH [OF s1(2)] Cons.prems(2) by auto
    with s1 Recv show ?thesis by (cases "SUCCEEDED h") auto
  qed
qed

end

end
