(* ===== verification/RingBuffer.thy ===== *)
theory RingBuffer
  imports Sync Fifo_Spec
begin

text \<open>
  Model of \<^verbatim>\<open>libc/ringbuffer.c\<close>: the thread-safe ring buffer container with its three locking
  modes, and its interpretation as a byte channel.
\<close>

section \<open>Data\<close>

datatype lock_type = RING_BUFFER_LOCK_NONE | RING_BUFFER_LOCK_MUTEX | RING_BUFFER_LOCK_SPINLOCK

record ring_buffer =
  rb_lock_type :: lock_type
  rb_mutex :: mutex
  rb_spinlock :: spinlock
  rb_buffer :: bytes
  rb_capacity :: u32
  rb_read_pointer :: u32
  rb_write_pointer :: u32

section \<open>Locking macros\<close>

definition RB_LOCK :: "cpu \<Rightarrow> ring_buffer \<Rightarrow> (u32 \<times> cpu \<times> ring_buffer) run" where
  "RB_LOCK c rb =
     (case rb_lock_type rb of
        RING_BUFFER_LOCK_MUTEX \<Rightarrow>
          bindR (mutex_lock c (rb_mutex rb)) (\<lambda>(c, m). Inr (0, c, rb\<lparr>rb_mutex := m\<rparr>))
      | RING_BUFFER_LOCK_SPINLOCK \<Rightarrow>
          bindR (spinlock_acquire c (rb_spinlock rb)) (\<lambda>(sl, c, s). Inr (sl, c, rb\<lparr>rb_spinlock := s\<rparr>))
      | RING_BUFFER_LOCK_NONE \<Rightarrow> Inr (0, c, rb))"

definition RB_UNLOCK :: "u32 \<Rightarrow> cpu \<Rightarrow> ring_buffer \<Rightarrow> (cpu \<times> ring_buffer) run" where
  "RB_UNLOCK sl c rb =
     (case rb_lock_type rb of
        RING_BUFFER_LOCK_MUTEX \<Rightarrow>
          bindR (mutex_unlock c (rb_mutex rb)) (\<lambda>(c, m). Inr (c, rb\<lparr>rb_mutex := m\<rparr>))
      | RING_BUFFER_LOCK_SPINLOCK \<Rightarrow>
          bindR (spinlock_release c (rb_spinlock rb) sl) (\<lambda>(c, s). Inr (c, rb\<lparr>rb_spinlock := s\<rparr>))
      | RING_BUFFER_LOCK_NONE \<Rightarrow> Inr (c, rb))"

section \<open>Operations\<close>

text \<open>\<open>desc_ok\<close> says whether \<^verbatim>\<open>kcalloc\<close> found room for the descriptor, \<open>mem\<close> is the block that
  \<^verbatim>\<open>kmalloc(buffer_size)\<close> returned, with whatever it held before.\<close>

definition create_ring_buffer :: "bool \<Rightarrow> bytes option \<Rightarrow> u32 \<Rightarrow> lock_type \<Rightarrow> ring_buffer option" where
  "create_ring_buffer desc_ok mem buffer_size lock_mechanism =
     (if \<not> desc_ok then None
      else case mem of
        None \<Rightarrow> None
      | Some b \<Rightarrow> Some \<lparr> rb_lock_type = lock_mechanism, rb_mutex = mutex_create,
          rb_spinlock = spinlock_create, rb_buffer = b, rb_capacity = buffer_size,
          rb_read_pointer = 0, rb_write_pointer = 0 \<rparr>)"

text \<open>After taking and dropping the lock once, the buffer is freed and the lock destroyed.\<close>

definition destroy_ring_buffer ::
  "(nat \<Rightarrow> mutex \<Rightarrow> mutex) \<Rightarrow> cpu \<Rightarrow> ring_buffer \<Rightarrow> cpu run" where
  "destroy_ring_buffer others c rb =
     bindR (RB_LOCK c rb) (\<lambda>(sl, c, rb).
     bindR (RB_UNLOCK sl c rb) (\<lambda>(c, rb).
     case rb_lock_type rb of
       RING_BUFFER_LOCK_MUTEX \<Rightarrow> bindR (mutex_destroy others c (rb_mutex rb)) (\<lambda>(c, m). Inr c)
     | _ \<Rightarrow> Inr c))"

definition rb_write :: "cpu \<Rightarrow> ring_buffer \<Rightarrow> bytes \<Rightarrow> u32 \<Rightarrow> (hresult \<times> cpu \<times> ring_buffer) run" where
  "rb_write c rb src len =
     bindR (RB_LOCK c rb) (\<lambda>(sl, c, rb).
     let free_seg_size =
           ring_free (rb_capacity rb) (rb_read_pointer rb) (rb_write_pointer rb) - 1 in
     if free_seg_size < len then
       bindR (RB_UNLOCK sl c rb) (\<lambda>(c, rb). Inr (E_BUFFEROVERFLOW, c, rb))
     else
       bindR (ring_store (rb_capacity rb) (rb_write_pointer rb) (rb_buffer rb) src len) (\<lambda>(buf, wp).
       bindR (RB_UNLOCK sl c (rb\<lparr>rb_buffer := buf, rb_write_pointer := wp\<rparr>)) (\<lambda>(c, rb).
       Inr (S_OK, c, rb))))"

definition rb_read ::
  "cpu \<Rightarrow> ring_buffer \<Rightarrow> bytes \<Rightarrow> u32 \<Rightarrow> (hresult \<times> bytes \<times> cpu \<times> ring_buffer) run" where
  "rb_read c rb dst len =
     bindR (RB_LOCK c rb) (\<lambda>(sl, c, rb).
     let avail_bytes = ring_avail (rb_capacity rb) (rb_read_pointer rb) (rb_write_pointer rb) in
     if avail_bytes < len then
       bindR (RB_UNLOCK sl c rb) (\<lambda>(c, rb). Inr (E_BUFFERUNDERFLOW, dst, c, rb))
     else
       bindR (ring_fetch (rb_capacity rb) (rb_read_pointer rb) (rb_buffer rb) dst len) (\<lambda>(dst, rp).
       bindR (RB_UNLOCK sl c (rb\<lparr>rb_read_pointer := rp\<rparr>)) (\<lambda>(c, rb).
       Inr (S_OK, dst, c, rb))))"

definition rb_get_read_size :: "cpu \<Rightarrow> ring_buffer \<Rightarrow> (u32 \<times> cpu \<times> ring_buffer) run" where
  "rb_get_read_size c rb =
     bindR (RB_LOCK c rb) (\<lambda>(sl, c, rb).
     let avail_bytes = ring_avail (rb_capacity rb) (rb_read_pointer rb) (rb_write_pointer rb) in
     bindR (RB_UNLOCK sl c rb) (\<lambda>(c, rb). Inr (avail_bytes, c, rb)))"

definition rb_get_write_size :: "cpu \<Rightarrow> ring_buffer \<Rightarrow> (u32 \<times> cpu \<times> ring_buffer) run" where
  "rb_get_write_size c rb =
     bindR (RB_LOCK c rb) (\<lambda>(sl, c, rb).
     let free_seg_size = ring_free (rb_capacity rb) (rb_read_pointer rb) (rb_write_pointer rb) in
     bindR (RB_UNLOCK sl c rb) (\<lambda>(c, rb). Inr (free_seg_size - 1, c, rb)))"

text \<open>The second component is what \<^verbatim>\<open>*actual_bytes\<close> receives.\<close>

definition rb_read_upto ::
  "cpu \<Rightarrow> ring_buffer \<Rightarrow> bytes \<Rightarrow> u32 \<Rightarrow> (hresult \<times> u32 \<times> bytes \<times> cpu \<times> ring_buffer) run" where
  "rb_read_upto c rb dst max_bytes =
     bindR (rb_get_read_size c rb) (\<lambda>(size, c, rb).
     let size = (if size > max_bytes then max_bytes else size) in
     if size = 0 then Inr (E_BUFFERUNDERFLOW, size, dst, c, rb)
     else bindR (rb_read c rb dst size) (\<lambda>(hr, dst, c, rb). Inr (hr, size, dst, c, rb)))"

section \<open>The locks around an operation\<close>

definition rb_locks_ok :: "cpu \<Rightarrow> ring_buffer \<Rightarrow> bool" where
  "rb_locks_ok c rb \<longleftrightarrow>
     (case rb_lock_type rb of
        RING_BUFFER_LOCK_NONE \<Rightarrow> True
      | RING_BUFFER_LOCK_MUTEX \<Rightarrow> lockable c (rb_mutex rb) \<and> mx_count (rb_mutex rb) \<noteq> - 1
      | RING_BUFFER_LOCK_SPINLOCK \<Rightarrow> sl_lock (rb_spinlock rb) = 0)"

definition rb_inv :: "cpu \<times> ring_buffer \<Rightarrow> bool" where
  "rb_inv = (\<lambda>(c, rb). rb_locks_ok c rb \<and>
     ring_ok (rb_capacity rb) (rb_read_pointer rb) (rb_write_pointer rb) (rb_buffer rb))"

definition rb_contents :: "cpu \<times> ring_buffer \<Rightarrow> bytes" where
  "rb_contents = (\<lambda>(c, rb). ring_data (rb_read_pointer rb) (rb_write_pointer rb) (rb_buffer rb))"

definition rb_usable :: "cpu \<times> ring_buffer \<Rightarrow> nat" where
  "rb_usable = (\<lambda>(c, rb). unat (rb_capacity rb) - 1)"

text \<open>The data of the container, without its locks.\<close>

definition rb_same_data :: "ring_buffer \<Rightarrow> ring_buffer \<Rightarrow> bool" where
  "rb_same_data a b \<longleftrightarrow> rb_buffer a = rb_buffer b \<and> rb_capacity a = rb_capacity b
     \<and> rb_read_pointer a = rb_read_pointer b \<and> rb_write_pointer a = rb_write_pointer b"

text \<open>\<open>rb_held c rb sl c1 rb1\<close>: \<open>rb1\<close> is \<open>rb\<close> with its lock taken, and whatever a body then does to
  the buffer and the indices, releasing the lock gives the same processor state and a buffer
  that can be locked again.\<close>

definition rb_held :: "cpu \<Rightarrow> ring_buffer \<Rightarrow> u32 \<Rightarrow> cpu \<Rightarrow> ring_buffer \<Rightarrow> bool" where
  "rb_held c rb sl c1 rb1 \<longleftrightarrow> rb_same_data rb1 rb \<and>
     (\<forall>buf rp wp. \<exists>rb3. RB_UNLOCK sl c1 (rb1\<lparr>rb_buffer := buf, rb_read_pointer := rp, rb_write_pointer := wp\<rparr>)
        = Inr (c, rb3) \<and> rb_locks_ok c rb3
        \<and> rb_same_data rb3 (rb\<lparr>rb_buffer := buf, rb_read_pointer := rp, rb_write_pointer := wp\<rparr>))"

lemma rb_lock_held:
  assumes "rb_locks_ok c rb"
  obtains sl c1 rb1 where "RB_LOCK c rb = Inr (sl, c1, rb1)" "rb_held c rb sl c1 rb1"
proof (cases "rb_lock_type rb")
  case RING_BUFFER_LOCK_NONE
  show ?thesis
    using RING_BUFFER_LOCK_NONE
    by (intro that [of 0 c rb]) (auto simp: RB_LOCK_def RB_UNLOCK_def rb_locks_ok_def rb_same_data_def rb_held_def)
next
  case RING_BUFFER_LOCK_MUTEX
  let ?m = "rb_mutex rb"
  have l: "lockable c ?m" "mx_count ?m \<noteq> - 1"
    using assms RING_BUFFER_LOCK_MUTEX by (simp_all add: rb_locks_ok_def)
  with mutex_critical [OF l] RING_BUFFER_LOCK_MUTEX show ?thesis
    by (intro that [of 0 c "rb\<lparr>rb_mutex := entered c ?m\<rparr>"])
      (auto simp: RB_LOCK_def RB_UNLOCK_def rb_locks_ok_def rb_same_data_def rb_held_def)
next
  case RING_BUFFER_LOCK_SPINLOCK
  have "(if cpu_if c then 1 else 0 :: u32) \<noteq> 0 \<longleftrightarrow> cpu_if c"
    by simp
  then show ?thesis
    using RING_BUFFER_LOCK_SPINLOCK assms
    by (intro that [of "if cpu_if c then 1 else 0" "c\<lparr>cpu_if := False\<rparr>"
          "rb\<lparr>rb_spinlock := (rb_spinlock rb)\<lparr>sl_lock := 1\<rparr>\<rparr>"])
      (cases c; auto simp: RB_LOCK_def RB_UNLOCK_def rb_locks_ok_def rb_same_data_def rb_held_def
        spinlock_acquire_def spinlock_release_def)+
qed

section \<open>Each branch of the operations\<close>

lemma rb_held_unlock:
  assumes "rb_held c rb sl c1 rb1"
  obtains rb3 where "RB_UNLOCK sl c1 (rb1\<lparr>rb_buffer := buf, rb_read_pointer := rp, rb_write_pointer := wp\<rparr>)
        = Inr (c, rb3)" "rb_locks_ok c rb3"
    "rb_same_data rb3 (rb\<lparr>rb_buffer := buf, rb_read_pointer := rp, rb_write_pointer := wp\<rparr>)"
  using assms unfolding rb_held_def by blast

lemma rb_held_data:
  assumes "rb_held c rb sl c1 rb1"
  shows "rb_buffer rb1 = rb_buffer rb" "rb_capacity rb1 = rb_capacity rb"
    "rb_read_pointer rb1 = rb_read_pointer rb" "rb_write_pointer rb1 = rb_write_pointer rb"
  using assms by (simp_all add: rb_held_def rb_same_data_def)

lemma rb_held_unlock_same:
  assumes "rb_held c rb sl c1 rb1"
  obtains rb3 where "RB_UNLOCK sl c1 rb1 = Inr (c, rb3)" "rb_locks_ok c rb3" "rb_same_data rb3 rb"
proof -
  have "rb1\<lparr>rb_buffer := rb_buffer rb, rb_read_pointer := rb_read_pointer rb,
      rb_write_pointer := rb_write_pointer rb\<rparr> = rb1"
    using rb_held_data [OF assms] by (cases rb1) simp
  then show ?thesis
    using rb_held_unlock [OF assms, where buf = "rb_buffer rb" and rp = "rb_read_pointer rb"
        and wp = "rb_write_pointer rb"] that
    by (cases rb) (auto simp: rb_same_data_def)
qed

lemma rb_inv_same:
  "rb_same_data rb' rb \<Longrightarrow> rb_locks_ok c rb' \<Longrightarrow> rb_inv (c, rb) \<Longrightarrow> rb_inv (c, rb')"
  "rb_same_data rb' rb \<Longrightarrow> rb_contents (c, rb') = rb_contents (c, rb)"
  "rb_same_data rb' rb \<Longrightarrow> rb_usable (c, rb') = rb_usable (c, rb)"
  by (simp_all add: rb_same_data_def rb_inv_def rb_contents_def rb_usable_def)

lemma rb_write_fits:
  assumes inv: "rb_inv (c, rb)" and len: "length src = unat len"
    and fits: "length (rb_contents (c, rb)) + unat len \<le> rb_usable (c, rb)"
  shows "\<exists>rb'. rb_write c rb src len = Inr (S_OK, c, rb') \<and> rb_inv (c, rb')
     \<and> rb_usable (c, rb') = rb_usable (c, rb) \<and> rb_contents (c, rb') = rb_contents (c, rb) @ src"
proof -
  have ok: "ring_ok (rb_capacity rb) (rb_read_pointer rb) (rb_write_pointer rb) (rb_buffer rb)"
    and lk: "rb_locks_ok c rb"
    using inv by (simp_all add: rb_inv_def)
  obtain sl c1 rb1 where lock: "RB_LOCK c rb = Inr (sl, c1, rb1)" "rb_held c rb sl c1 rb1"
    using rb_lock_held [OF lk] by blast
  note data = rb_held_data [OF lock(2)]
  have room: "\<not> ring_free (rb_capacity rb) (rb_read_pointer rb) (rb_write_pointer rb) - 1 < len"
    using fits ring_free_unat [OF ok] by (simp add: word_less_nat_alt rb_contents_def rb_usable_def)
  obtain buf' wp' where st: "ring_store (rb_capacity rb) (rb_write_pointer rb) (rb_buffer rb) src len = Inr (buf', wp')"
    "ring_ok (rb_capacity rb) (rb_read_pointer rb) wp' buf'"
    "ring_data (rb_read_pointer rb) wp' buf' = ring_data (rb_read_pointer rb) (rb_write_pointer rb) (rb_buffer rb) @ src"
    using ring_store_ok [OF ok len] fits by (auto simp: rb_contents_def rb_usable_def)
  have upd: "rb1\<lparr>rb_buffer := buf', rb_read_pointer := rb_read_pointer rb, rb_write_pointer := wp'\<rparr>
      = rb1\<lparr>rb_buffer := buf', rb_write_pointer := wp'\<rparr>"
    using data by (cases rb1) simp
  obtain rb3 where "RB_UNLOCK sl c1 (rb1\<lparr>rb_buffer := buf', rb_write_pointer := wp'\<rparr>) = Inr (c, rb3)"
    "rb_locks_ok c rb3"
    "rb_same_data rb3 (rb\<lparr>rb_buffer := buf', rb_read_pointer := rb_read_pointer rb, rb_write_pointer := wp'\<rparr>)"
    using rb_held_unlock [OF lock(2), where buf = buf' and rp = "rb_read_pointer rb" and wp = wp'] upd
    by metis
  with lock room st data show ?thesis
    by (intro exI [of _ rb3])
      (simp add: rb_write_def rb_same_data_def rb_inv_def rb_contents_def rb_usable_def Let_def)
qed

lemma rb_write_full:
  assumes inv: "rb_inv (c, rb)" and full: "rb_usable (c, rb) < length (rb_contents (c, rb)) + unat len"
  shows "\<exists>rb'. rb_write c rb src len = Inr (E_BUFFEROVERFLOW, c, rb') \<and> rb_inv (c, rb')
     \<and> rb_usable (c, rb') = rb_usable (c, rb) \<and> rb_contents (c, rb') = rb_contents (c, rb)"
proof -
  have ok: "ring_ok (rb_capacity rb) (rb_read_pointer rb) (rb_write_pointer rb) (rb_buffer rb)"
    and lk: "rb_locks_ok c rb"
    using inv by (simp_all add: rb_inv_def)
  obtain sl c1 rb1 where lock: "RB_LOCK c rb = Inr (sl, c1, rb1)" "rb_held c rb sl c1 rb1"
    using rb_lock_held [OF lk] by blast
  have room: "ring_free (rb_capacity rb) (rb_read_pointer rb) (rb_write_pointer rb) - 1 < len"
    using full ring_free_unat [OF ok] length_ring_data_less [OF ok]
    by (simp add: word_less_nat_alt rb_contents_def rb_usable_def)
  obtain rb3 where "RB_UNLOCK sl c1 rb1 = Inr (c, rb3)" "rb_locks_ok c rb3" "rb_same_data rb3 rb"
    using rb_held_unlock_same [OF lock(2)] by blast
  with lock(1) room rb_held_data [OF lock(2)] rb_inv_same [of rb3 rb c] inv show ?thesis
    by (simp add: rb_write_def Let_def)
qed

lemma rb_read_ready:
  assumes inv: "rb_inv (c, rb)" and room: "unat len \<le> length dst"
    and enough: "unat len \<le> length (rb_contents (c, rb))"
  shows "\<exists>rb'. rb_read c rb dst len
       = Inr (S_OK, buf_put dst 0 (take (unat len) (rb_contents (c, rb))), c, rb') \<and> rb_inv (c, rb')
     \<and> rb_usable (c, rb') = rb_usable (c, rb) \<and> rb_contents (c, rb') = drop (unat len) (rb_contents (c, rb))"
proof -
  have ok: "ring_ok (rb_capacity rb) (rb_read_pointer rb) (rb_write_pointer rb) (rb_buffer rb)"
    and lk: "rb_locks_ok c rb"
    using inv by (simp_all add: rb_inv_def)
  obtain sl c1 rb1 where lock: "RB_LOCK c rb = Inr (sl, c1, rb1)" "rb_held c rb sl c1 rb1"
    using rb_lock_held [OF lk] by blast
  note data = rb_held_data [OF lock(2)]
  have have_bytes: "\<not> ring_avail (rb_capacity rb) (rb_read_pointer rb) (rb_write_pointer rb) < len"
    using enough ring_avail_unat [OF ok] by (simp add: word_less_nat_alt rb_contents_def)
  obtain rp' where f: "ring_fetch (rb_capacity rb) (rb_read_pointer rb) (rb_buffer rb) dst len
       = Inr (buf_put dst 0 (take (unat len) (rb_contents (c, rb))), rp')"
     "ring_ok (rb_capacity rb) rp' (rb_write_pointer rb) (rb_buffer rb)"
     "ring_data rp' (rb_write_pointer rb) (rb_buffer rb) = drop (unat len) (rb_contents (c, rb))"
    using ring_fetch_ok [OF ok room] enough by (auto simp: rb_contents_def)
  have upd: "rb1\<lparr>rb_buffer := rb_buffer rb, rb_read_pointer := rp', rb_write_pointer := rb_write_pointer rb\<rparr>
      = rb1\<lparr>rb_read_pointer := rp'\<rparr>"
    using data by (cases rb1) simp
  obtain rb3 where "RB_UNLOCK sl c1 (rb1\<lparr>rb_read_pointer := rp'\<rparr>) = Inr (c, rb3)" "rb_locks_ok c rb3"
    "rb_same_data rb3 (rb\<lparr>rb_buffer := rb_buffer rb, rb_read_pointer := rp', rb_write_pointer := rb_write_pointer rb\<rparr>)"
    using rb_held_unlock [OF lock(2), where buf = "rb_buffer rb" and rp = rp' and wp = "rb_write_pointer rb"] upd
    by metis
  with lock(1) have_bytes f data show ?thesis
    by (intro exI [of _ rb3])
      (simp add: rb_read_def rb_same_data_def rb_inv_def rb_contents_def rb_usable_def Let_def)
qed

lemma rb_read_short:
  assumes inv: "rb_inv (c, rb)" and short: "length (rb_contents (c, rb)) < unat len"
  shows "\<exists>rb'. rb_read c rb dst len = Inr (E_BUFFERUNDERFLOW, dst, c, rb') \<and> rb_inv (c, rb')
     \<and> rb_usable (c, rb') = rb_usable (c, rb) \<and> rb_contents (c, rb') = rb_contents (c, rb)"
proof -
  have ok: "ring_ok (rb_capacity rb) (rb_read_pointer rb) (rb_write_pointer rb) (rb_buffer rb)"
    and lk: "rb_locks_ok c rb"
    using inv by (simp_all add: rb_inv_def)
  obtain sl c1 rb1 where lock: "RB_LOCK c rb = Inr (sl, c1, rb1)" "rb_held c rb sl c1 rb1"
    using rb_lock_held [OF lk] by blast
  have no_bytes: "ring_avail (rb_capacity rb) (rb_read_pointer rb) (rb_write_pointer rb) < len"
    using short ring_avail_unat [OF ok] by (simp add: word_less_nat_alt rb_contents_def)
  obtain rb3 where "RB_UNLOCK sl c1 rb1 = Inr (c, rb3)" "rb_locks_ok c rb3" "rb_same_data rb3 rb"
    using rb_held_unlock_same [OF lock(2)] by blast
  with lock(1) no_bytes rb_held_data [OF lock(2)] rb_inv_same [of rb3 rb c] inv show ?thesis
    by (simp add: rb_read_def Let_def)
qed

lemma rb_read_size:
  assumes inv: "rb_inv (c, rb)"
  shows "\<exists>n rb'. rb_get_read_size c rb = Inr (n, c, rb') \<and> rb_inv (c, rb')
     \<and> rb_contents (c, rb') = rb_contents (c, rb) \<and> rb_usable (c, rb') = rb_usable (c, rb)
     \<and> unat n = length (rb_contents (c, rb))"
proof -
  have ok: "ring_ok (rb_capacity rb) (rb_read_pointer rb) (rb_write_pointer rb) (rb_buffer rb)"
    and lk: "rb_locks_ok c rb"
    using inv by (simp_all add: rb_inv_def)
  obtain sl c1 rb1 where lock: "RB_LOCK c rb = Inr (sl, c1, rb1)" "rb_held c rb sl c1 rb1"
    using rb_lock_held [OF lk] by blast
  obtain rb3 where "RB_UNLOCK sl c1 rb1 = Inr (c, rb3)" "rb_locks_ok c rb3" "rb_same_data rb3 rb"
    using rb_held_unlock_same [OF lock(2)] by blast
  with lock(1) rb_held_data [OF lock(2)] rb_inv_same [of rb3 rb c] inv ring_avail_unat [OF ok] show ?thesis
    by (simp add: rb_get_read_size_def Let_def) (simp add: rb_contents_def)
qed

section \<open>The ring buffer is a byte channel\<close>

definition rb_send :: "cpu \<times> ring_buffer \<Rightarrow> bytes \<Rightarrow> (hresult \<times> cpu \<times> ring_buffer) run" where
  "rb_send = (\<lambda>(c, rb) xs. rb_write c rb xs (of_nat (length xs)))"

definition rb_recv :: "cpu \<times> ring_buffer \<Rightarrow> nat \<Rightarrow> (hresult \<times> bytes \<times> cpu \<times> ring_buffer) run" where
  "rb_recv = (\<lambda>(c, rb) n. rb_read c rb (replicate n 0) (of_nat n))"

lemma rb_inv_bounds:
  assumes "rb_inv s"
  shows "length (rb_contents s) < 2 ^ 31" "rb_usable s < 2 ^ 31"
proof -
  obtain c rb where s: "s = (c, rb)" by (cases s)
  have ok: "ring_ok (rb_capacity rb) (rb_read_pointer rb) (rb_write_pointer rb) (rb_buffer rb)"
    using assms s by (simp add: rb_inv_def)
  then have "unat (rb_capacity rb) < 2 ^ 31"
    by (simp add: ring_ok_def)
  then show "length (rb_contents s) < 2 ^ 31" "rb_usable s < 2 ^ 31"
    using length_ring_data_less [OF ok] by (simp_all add: s rb_contents_def rb_usable_def)
qed

interpretation rb: byte_channel rb_inv rb_contents rb_usable rb_send rb_recv
proof
  fix s and xs :: bytes
  assume a: "rb_inv s" "length (rb_contents s) + length xs \<le> rb_usable s"
  obtain c rb where s: "s = (c, rb)" by (cases s)
  have n: "unat (of_nat (length xs) :: u32) = length xs"
    using a rb_inv_bounds [OF a(1)] by (intro unat_of_nat_small) simp
  show "\<exists>s'. rb_send s xs = Inr (S_OK, s') \<and> rb_inv s' \<and> rb_usable s' = rb_usable s
      \<and> rb_contents s' = rb_contents s @ xs"
    using rb_write_fits [of c rb xs "of_nat (length xs)"] a s n by (auto simp: rb_send_def)
next
  fix s xs
  assume a: "rb_inv s" "rb_usable s < length (rb_contents s) + length xs" "length (xs :: bytes) < 2 ^ 32"
  obtain c rb where s: "s = (c, rb)" by (cases s)
  have n: "unat (of_nat (length xs) :: u32) = length xs"
    using a by (intro unat_of_nat_small) simp
  show "\<exists>h s'. rb_send s xs = Inr (h, s') \<and> FAILED h \<and> rb_inv s' \<and> rb_usable s' = rb_usable s
      \<and> rb_contents s' = rb_contents s"
    using rb_write_full [of c rb "of_nat (length xs)" xs] a s n by (auto simp: rb_send_def)
next
  fix s n
  assume a: "rb_inv s" "n \<le> length (rb_contents s)"
  obtain c rb where s: "s = (c, rb)" by (cases s)
  have n: "unat (of_nat n :: u32) = n"
    using a rb_inv_bounds [OF a(1)] by (intro unat_of_nat_small) simp
  show "\<exists>s'. rb_recv s n = Inr (S_OK, take n (rb_contents s), s') \<and> rb_inv s'
      \<and> rb_usable s' = rb_usable s \<and> rb_contents s' = drop n (rb_contents s)"
    using rb_read_ready [of c rb "of_nat n" "replicate n 0"] a s n
    by (auto simp: rb_recv_def buf_put_def)
next
  fix s and n :: nat
  assume a: "rb_inv s" "length (rb_contents s) < n" "n < 2 ^ 32"
  obtain c rb where s: "s = (c, rb)" by (cases s)
  have n: "unat (of_nat n :: u32) = n"
    using a by (intro unat_of_nat_small) simp
  show "\<exists>h ys s'. rb_recv s n = Inr (h, ys, s') \<and> FAILED h \<and> rb_inv s'
      \<and> rb_usable s' = rb_usable s \<and> rb_contents s' = rb_contents s"
    using rb_read_short [of c rb "of_nat n" "replicate n 0"] a s n by (auto simp: rb_recv_def)
qed

section \<open>Properties\<close>

text \<open>
  C2. Whatever sequence of writes and reads a client issues on a consistent ring buffer, in any of
  the three locking modes, no call panics or touches memory outside the buffer, and the bytes read
  are exactly the bytes written, in order: what was stored plus all accepted blocks is what was
  delivered plus what is still stored. The usable size never changes.\<close>

theorem ring_buffer_fifo:
  assumes "rb_inv (c, rb)" and "\<And>p. p \<in> set ops \<Longrightarrow> op_size p < 2 ^ 32"
  shows "\<exists>acc rcv s'. chan_run rb_send rb_recv ops (c, rb) = Inr (acc, rcv, s') \<and> rb_inv s'
    \<and> rb_usable s' = rb_usable (c, rb) \<and> rb_contents (c, rb) @ acc = rcv @ rb_contents s'"
  using rb.run_is_fifo [OF assms] by blast

lemma ring_buffer_fifo_witness:
  "\<exists>acc rcv s'. chan_run rb_send rb_recv [Send [1, 2, 3], Recv 2, Send [4, 5], Recv 3, Recv 1]
      (\<lparr> cpu_if = True, cpu_current = Some (1, 1) \<rparr>,
       the (create_ring_buffer True (Some [0, 0, 0, 0]) 4 RING_BUFFER_LOCK_MUTEX))
    = Inr (acc, rcv, s') \<and> acc = rcv @ rb_contents s'"
proof -
  let ?c = "\<lparr> cpu_if = True, cpu_current = Some (1, 1) \<rparr>"
  let ?rb = "the (create_ring_buffer True (Some [0, 0, 0, 0]) 4 RING_BUFFER_LOCK_MUTEX)"
  have inv: "rb_inv (?c, ?rb)"
    by (simp add: rb_inv_def rb_locks_ok_def create_ring_buffer_def ring_ok_def lockable_def
        mutex_create_def spinlock_create_def)
  have "rb_contents (?c, ?rb) = []"
    by (simp add: rb_contents_def create_ring_buffer_def ring_data_def)
  moreover have "\<exists>acc rcv s'. chan_run rb_send rb_recv
      [Send [1, 2, 3], Recv 2, Send [4, 5], Recv 3, Recv 1] (?c, ?rb) = Inr (acc, rcv, s') \<and> rb_inv s'
      \<and> rb_usable s' = rb_usable (?c, ?rb) \<and> rb_contents (?c, ?rb) @ acc = rcv @ rb_contents s'"
    by (rule ring_buffer_fifo [OF inv]) auto
  ultimately show ?thesis
    by (metis append_Nil)
qed

text \<open>\<^verbatim>\<open>rb_read_upto\<close> delivers as many of the oldest stored bytes as are there, at most
  \<^verbatim>\<open>max\<close>, reports that count, and removes exactly those bytes; with nothing to deliver it
  returns an underflow error and changes neither the destination nor the contents.\<close>

theorem rb_read_upto_delivers_prefix:
  assumes inv: "rb_inv (c, rb)" and room: "unat max_bytes \<le> length dst"
    and n: "n = (if unat max_bytes < length (rb_contents (c, rb)) then unat max_bytes
                 else length (rb_contents (c, rb)))"
  shows "\<exists>size rb'. rb_read_upto c rb dst max_bytes
      = Inr (if n = 0 then E_BUFFERUNDERFLOW else S_OK, size,
             buf_put dst 0 (take n (rb_contents (c, rb))), c, rb')
    \<and> unat size = n \<and> rb_inv (c, rb') \<and> rb_contents (c, rb') = drop n (rb_contents (c, rb))"
proof -
  obtain w rb1 where g: "rb_get_read_size c rb = Inr (w, c, rb1)" "rb_inv (c, rb1)"
    "rb_contents (c, rb1) = rb_contents (c, rb)" "unat w = length (rb_contents (c, rb))"
    using rb_read_size [OF inv] by blast
  define size where "size = (if w > max_bytes then max_bytes else w)"
  have sz: "unat size = n"
    using g(4) n by (auto simp: size_def word_less_nat_alt)
  show ?thesis
  proof (cases "n = 0")
    case True
    then have "size = 0"
      using sz by (simp add: unat_eq_zero)
    then show ?thesis using g True
      by (auto simp: rb_read_upto_def size_def Let_def buf_put_def split: if_splits)
  next
    case False
    then have "size \<noteq> 0" "unat size \<le> length dst" "unat size \<le> length (rb_contents (c, rb1))"
      using sz n room g(3) by (auto split: if_splits)
    then obtain rb' where "rb_read c rb1 dst size
        = Inr (S_OK, buf_put dst 0 (take n (rb_contents (c, rb))), c, rb')"
      "rb_inv (c, rb')" "rb_contents (c, rb') = drop n (rb_contents (c, rb))"
      using rb_read_ready [OF g(2), of size dst] sz g(3) by auto
    then show ?thesis using g(1) False sz \<open>size \<noteq> 0\<close>
      by (auto simp: rb_read_upto_def size_def Let_def)
  qed
qed

lemma rb_read_upto_delivers_prefix_witness:
  "\<exists>size rb'. rb_read_upto \<lparr> cpu_if = False, cpu_current = None \<rparr>
      \<lparr> rb_lock_type = RING_BUFFER_LOCK_SPINLOCK, rb_mutex = mutex_create, rb_spinlock = spinlock_create,
        rb_buffer = [7, 8, 9, 6], rb_capacity = 4, rb_read_pointer = 3, rb_write_pointer = 2 \<rparr> [0, 0] 2
    = Inr (S_OK, size, [6, 7], \<lparr> cpu_if = False, cpu_current = None \<rparr>, rb')
    \<and> unat size = 2 \<and> rb_contents (\<lparr> cpu_if = False, cpu_current = None \<rparr>, rb') = [8]"
proof -
  let ?c = "\<lparr> cpu_if = False, cpu_current = None \<rparr>"
  let ?rb = "\<lparr> rb_lock_type = RING_BUFFER_LOCK_SPINLOCK, rb_mutex = mutex_create, rb_spinlock = spinlock_create,
        rb_buffer = [7, 8, 9, 6], rb_capacity = 4, rb_read_pointer = 3, rb_write_pointer = 2 \<rparr>"
  have inv: "rb_inv (?c, ?rb)"
    by (simp add: rb_inv_def rb_locks_ok_def ring_ok_def spinlock_create_def)
  have contents: "rb_contents (?c, ?rb) = [6, 7, 8]"
    by (simp add: rb_contents_def ring_data_def)
  have n: "(2 :: nat) = (if unat (2 :: u32) < length (rb_contents (?c, ?rb)) then unat (2 :: u32)
      else length (rb_contents (?c, ?rb)))" and room: "unat (2 :: u32) \<le> length ([0, 0] :: bytes)"
    unfolding contents by simp_all
  have out: "buf_put [0, 0] 0 (take 2 [6, 7, 8]) = [6, 7 :: u8]" "drop 2 [6, 7, 8] = [8 :: u8]"
      "(if (2 :: nat) = 0 then E_BUFFERUNDERFLOW else S_OK) = S_OK"
    by (simp_all add: buf_put_def)
  show ?thesis
    using rb_read_upto_delivers_prefix [OF inv room n, unfolded contents out] by blast
qed

text \<open>A ring buffer created with size 0 is accepted, and the free size that \<^verbatim>\<open>rb_write\<close>
  computes for it wraps round to \<open>2 ^ 32 - 1\<close>: every write of at least one byte passes the size
  check and copies into memory the buffer does not own.\<close>

theorem ring_buffer_zero_capacity_overruns:
  assumes "create_ring_buffer True (Some []) 0 m = Some rb" and "rb_locks_ok c rb"
    and "length src = unat len" and "len \<noteq> 0"
  shows "rb_write c rb src len = Inl BadAccess"
proof -
  have rb: "rb_capacity rb = 0" "rb_read_pointer rb = 0" "rb_write_pointer rb = 0" "rb_buffer rb = []"
    using assms(1) by (auto simp: create_ring_buffer_def)
  obtain sl c1 rb1 where lock: "RB_LOCK c rb = Inr (sl, c1, rb1)" "rb_held c rb sl c1 rb1"
    using rb_lock_held [OF assms(2)] by blast
  have "\<not> (- 1 :: u32) < len"
    by (simp add: not_less)
  moreover have "0 < len" "unat len \<noteq> 0"
    using assms(4) by (simp_all add: word_gt_0 unat_eq_zero)
  ultimately show ?thesis
    using lock rb_held_data [OF lock(2)] rb
    by (simp add: rb_write_def ring_free_def ring_store_def memcpyR_def Let_def)
qed

lemma ring_buffer_zero_capacity_overruns_witness:
  "rb_write \<lparr> cpu_if = True, cpu_current = Some (1, 1) \<rparr>
     (the (create_ring_buffer True (Some []) 0 RING_BUFFER_LOCK_MUTEX)) [65] 1 = Inl BadAccess"
  by (rule ring_buffer_zero_capacity_overruns [where m = RING_BUFFER_LOCK_MUTEX])
    (simp_all add: create_ring_buffer_def rb_locks_ok_def lockable_def mutex_create_def spinlock_create_def)

end
