(* ===== verification/Pipe.thy ===== *)
theory Pipe
  imports Sync Fifo_Spec
begin

text \<open>
  Model of \<^verbatim>\<open>pipe.c\<close>: the named pipe device, its ring buffer, its handle counting and its
  creation, and its interpretation as a byte channel. The VFS mount and unmount calls are
  parameters that return a status.
\<close>

section \<open>Data\<close>

record pipe_desc =
  pp_read_pos :: u32
  pp_write_pos :: u32
  pp_buffer_size :: u32
  pp_ring_buffer :: bytes
  pp_ref_cnt :: u32
  pp_lock :: mutex
  pp_flags :: u32

definition PIPE_FLAG_NONE :: u32 where "PIPE_FLAG_NONE = 0"
definition PIPE_FLAG_DELETE_ON_CLOSE :: u32 where "PIPE_FLAG_DELETE_ON_CLOSE = 1"

definition DEVIO_OPEN :: u32 where "DEVIO_OPEN = 0x01"
definition DEVIO_CLOSE :: u32 where "DEVIO_CLOSE = 0x02"

section \<open>Reading and writing\<close>

text \<open>The result is the status, the caller's buffer and \<^verbatim>\<open>*bytes_read\<close>.\<close>

definition pipe_read ::
  "cpu \<Rightarrow> pipe_desc \<Rightarrow> u32 \<Rightarrow> bytes \<Rightarrow> (hresult \<times> bytes \<times> u32 \<times> cpu \<times> pipe_desc) run" where
  "pipe_read c d block_size out =
     bindR (mutex_lock c (pp_lock d)) (\<lambda>(c, m).
     let avail_bytes = ring_avail (pp_buffer_size d) (pp_read_pos d) (pp_write_pos d) in
     if avail_bytes < block_size then
       bindR (mutex_unlock c m) (\<lambda>(c, m). Inr (E_FAIL, out, 0, c, d\<lparr>pp_lock := m\<rparr>))
     else
       bindR (ring_fetch (pp_buffer_size d) (pp_read_pos d) (pp_ring_buffer d) out block_size)
         (\<lambda>(out, rp).
       bindR (mutex_unlock c m) (\<lambda>(c, m).
       Inr (S_OK, out, block_size, c, d\<lparr>pp_read_pos := rp, pp_lock := m\<rparr>))))"

definition pipe_write ::
  "cpu \<Rightarrow> pipe_desc \<Rightarrow> u32 \<Rightarrow> bytes \<Rightarrow> (hresult \<times> u32 \<times> cpu \<times> pipe_desc) run" where
  "pipe_write c d block_size src =
     bindR (mutex_lock c (pp_lock d)) (\<lambda>(c, m).
     let free_size = ring_free (pp_buffer_size d) (pp_read_pos d) (pp_write_pos d) - 1 in
     if free_size < block_size then
       bindR (mutex_unlock c m) (\<lambda>(c, m). Inr (E_FAIL, 0, c, d\<lparr>pp_lock := m\<rparr>))
     else
       bindR (ring_store (pp_buffer_size d) (pp_write_pos d) (pp_ring_buffer d) src block_size)
         (\<lambda>(buf, wp).
       bindR (mutex_unlock c m) (\<lambda>(c, m).
       Inr (S_OK, block_size, c, d\<lparr>pp_ring_buffer := buf, pp_write_pos := wp, pp_lock := m\<rparr>))))"

section \<open>Handles and life cycle\<close>

text \<open>Freeing the ring and destroying the lock; \<open>others\<close> as in \<^const>\<open>mutex_destroy\<close>.\<close>

definition destroy_pipe_desc :: "(nat \<Rightarrow> mutex \<Rightarrow> mutex) \<Rightarrow> cpu \<Rightarrow> pipe_desc \<Rightarrow> (hresult \<times> cpu) run" where
  "destroy_pipe_desc others c d =
     bindR (mutex_destroy others c (pp_lock d)) (\<lambda>(c, m). Inr (S_OK, c))"

text \<open>The descriptor is \<open>None\<close> once it has been destroyed; \<open>unmount\<close> is the status that
  \<^verbatim>\<open>vfs_unmount_device\<close> returns.\<close>

definition pipe_ioctl ::
  "(nat \<Rightarrow> mutex \<Rightarrow> mutex) \<Rightarrow> hresult \<Rightarrow> cpu \<Rightarrow> pipe_desc \<Rightarrow> u32
   \<Rightarrow> (hresult \<times> cpu \<times> pipe_desc option) run" where
  "pipe_ioctl others unmount c d code =
     (if code = DEVIO_OPEN then Inr (S_OK, c, Some (d\<lparr>pp_ref_cnt := pp_ref_cnt d + 1\<rparr>))
      else if code = DEVIO_CLOSE then
        let cnt = pp_ref_cnt d; d = d\<lparr>pp_ref_cnt := cnt - 1\<rparr> in
        if cnt = 0 \<and> pp_flags d = PIPE_FLAG_DELETE_ON_CLOSE then
          bindR (destroy_pipe_desc others c d) (\<lambda>(h, c). Inr (unmount, c, None))
        else Inr (S_OK, c, Some d)
      else Inr (E_INVALIDARG, c, Some d))"

text \<open>
  The four allocations in order: whether the device record is there, the block returned for the
  descriptor (with its previous contents), the ring, and whether the url is there. A ring that
  was not allocated has no byte that can be accessed. \<open>mount\<close> is the status that
  \<^verbatim>\<open>vfs_mount_device\<close> returns for the path.
\<close>

definition pipe_create ::
  "bool \<Rightarrow> pipe_desc option \<Rightarrow> bytes option \<Rightarrow> bool \<Rightarrow> (string \<Rightarrow> hresult) \<Rightarrow> string \<Rightarrow> u32 \<Rightarrow> u32
   \<Rightarrow> (hresult \<times> (string \<times> pipe_desc) option) run" where
  "pipe_create dev_ok desc ring url_ok mount name flags buff_size =
     (if \<not> dev_ok then Inr (E_OUTOFMEM, None)
      else case desc of
        None \<Rightarrow> Inl BadAccess
      | Some d0 \<Rightarrow>
          if \<not> url_ok then Inl BadAccess
          else
            let d = d0\<lparr> pp_buffer_size := buff_size,
                        pp_ring_buffer := (case ring of None \<Rightarrow> [] | Some b \<Rightarrow> b),
                        pp_flags := flags, pp_lock := mutex_create \<rparr>;
                url = ''/ipc/'' @ name
            in Inr (mount url, Some (url, d)))"

section \<open>The invariant, and each branch\<close>

definition pipe_inv :: "cpu \<times> pipe_desc \<Rightarrow> bool" where
  "pipe_inv = (\<lambda>(c, d). lockable c (pp_lock d) \<and> mx_count (pp_lock d) \<noteq> - 1
     \<and> ring_ok (pp_buffer_size d) (pp_read_pos d) (pp_write_pos d) (pp_ring_buffer d))"

definition pipe_contents :: "cpu \<times> pipe_desc \<Rightarrow> bytes" where
  "pipe_contents = (\<lambda>(c, d). ring_data (pp_read_pos d) (pp_write_pos d) (pp_ring_buffer d))"

definition pipe_usable :: "cpu \<times> pipe_desc \<Rightarrow> nat" where
  "pipe_usable = (\<lambda>(c, d). unat (pp_buffer_size d) - 1)"

lemmas pipe_view_defs = pipe_inv_def pipe_contents_def pipe_usable_def

lemma pipe_inv_lock:
  assumes "pipe_inv (c, d)"
  shows "mutex_lock c (pp_lock d) = Inr (c, entered c (pp_lock d))"
    and "mutex_unlock c (entered c (pp_lock d)) = Inr (c, left (entered c (pp_lock d)))"
    and "lockable c (left (entered c (pp_lock d)))"
    and "mx_count (left (entered c (pp_lock d))) \<noteq> - 1"
    and "ring_ok (pp_buffer_size d) (pp_read_pos d) (pp_write_pos d) (pp_ring_buffer d)"
  using assms mutex_critical [of c "pp_lock d"] by (auto simp: pipe_inv_def)

lemma pipe_write_fits:
  assumes inv: "pipe_inv (c, d)" and len: "length src = unat n"
    and fits: "length (pipe_contents (c, d)) + unat n \<le> pipe_usable (c, d)"
  shows "\<exists>d'. pipe_write c d n src = Inr (S_OK, n, c, d') \<and> pipe_inv (c, d')
     \<and> pipe_usable (c, d') = pipe_usable (c, d) \<and> pipe_contents (c, d') = pipe_contents (c, d) @ src"
proof -
  note l = pipe_inv_lock [OF inv]
  have room: "\<not> ring_free (pp_buffer_size d) (pp_read_pos d) (pp_write_pos d) - 1 < n"
    using fits ring_free_unat [OF l(5)] by (simp add: word_less_nat_alt pipe_contents_def pipe_usable_def)
  show ?thesis
    using l room ring_store_ok [OF l(5) len] fits
    by (auto simp: pipe_write_def Let_def pipe_view_defs)
qed

lemma pipe_write_full:
  assumes inv: "pipe_inv (c, d)" and full: "pipe_usable (c, d) < length (pipe_contents (c, d)) + unat n"
  shows "\<exists>d'. pipe_write c d n src = Inr (E_FAIL, 0, c, d') \<and> pipe_inv (c, d')
     \<and> pipe_usable (c, d') = pipe_usable (c, d) \<and> pipe_contents (c, d') = pipe_contents (c, d)"
proof -
  note l = pipe_inv_lock [OF inv]
  have room: "ring_free (pp_buffer_size d) (pp_read_pos d) (pp_write_pos d) - 1 < n"
    using full ring_free_unat [OF l(5)] length_ring_data_less [OF l(5)]
    by (simp add: word_less_nat_alt pipe_contents_def pipe_usable_def)
  show ?thesis
    using l room by (auto simp: pipe_write_def Let_def pipe_view_defs)
qed

lemma pipe_read_ready:
  assumes inv: "pipe_inv (c, d)" and room: "unat n \<le> length out"
    and enough: "unat n \<le> length (pipe_contents (c, d))"
  shows "\<exists>d'. pipe_read c d n out
       = Inr (S_OK, buf_put out 0 (take (unat n) (pipe_contents (c, d))), n, c, d') \<and> pipe_inv (c, d')
     \<and> pipe_usable (c, d') = pipe_usable (c, d) \<and> pipe_contents (c, d') = drop (unat n) (pipe_contents (c, d))"
proof -
  note l = pipe_inv_lock [OF inv]
  have "\<not> ring_avail (pp_buffer_size d) (pp_read_pos d) (pp_write_pos d) < n"
    using enough ring_avail_unat [OF l(5)] by (simp add: word_less_nat_alt pipe_contents_def)
  then show ?thesis
    using l ring_fetch_ok [OF l(5) room] enough
    by (auto simp: pipe_read_def Let_def pipe_view_defs)
qed

lemma pipe_read_short:
  assumes inv: "pipe_inv (c, d)" and short: "length (pipe_contents (c, d)) < unat n"
  shows "\<exists>d'. pipe_read c d n out = Inr (E_FAIL, out, 0, c, d') \<and> pipe_inv (c, d')
     \<and> pipe_usable (c, d') = pipe_usable (c, d) \<and> pipe_contents (c, d') = pipe_contents (c, d)"
proof -
  note l = pipe_inv_lock [OF inv]
  have "ring_avail (pp_buffer_size d) (pp_read_pos d) (pp_write_pos d) < n"
    using short ring_avail_unat [OF l(5)] by (simp add: word_less_nat_alt pipe_contents_def)
  then show ?thesis
    using l by (auto simp: pipe_read_def Let_def pipe_view_defs)
qed

section \<open>The pipe is a byte channel\<close>

definition pipe_send :: "cpu \<times> pipe_desc \<Rightarrow> bytes \<Rightarrow> (hresult \<times> cpu \<times> pipe_desc) run" where
  "pipe_send = (\<lambda>(c, d) xs. bindR (pipe_write c d (of_nat (length xs)) xs) (\<lambda>(h, n, c, d). Inr (h, c, d)))"

definition pipe_recv :: "cpu \<times> pipe_desc \<Rightarrow> nat \<Rightarrow> (hresult \<times> bytes \<times> cpu \<times> pipe_desc) run" where
  "pipe_recv = (\<lambda>(c, d) n. bindR (pipe_read c d (of_nat n) (replicate n 0)) (\<lambda>(h, ys, k, c, d). Inr (h, ys, c, d)))"

lemma pipe_inv_bounds:
  assumes "pipe_inv s"
  shows "length (pipe_contents s) < 2 ^ 31" "pipe_usable s < 2 ^ 31"
proof -
  obtain c d where s: "s = (c, d)" by (cases s)
  have ok: "ring_ok (pp_buffer_size d) (pp_read_pos d) (pp_write_pos d) (pp_ring_buffer d)"
    using assms s by (simp add: pipe_inv_def)
  then show "length (pipe_contents s) < 2 ^ 31" "pipe_usable s < 2 ^ 31"
    using length_ring_data_less [OF ok] by (auto simp: s pipe_contents_def pipe_usable_def ring_ok_def)
qed

interpretation pipe: byte_channel pipe_inv pipe_contents pipe_usable pipe_send pipe_recv
proof
  fix s and xs :: bytes
  assume a: "pipe_inv s" "length (pipe_contents s) + length xs \<le> pipe_usable s"
  obtain c d where s: "s = (c, d)" by (cases s)
  have n: "unat (of_nat (length xs) :: u32) = length xs"
    using a pipe_inv_bounds [OF a(1)] by (intro unat_of_nat_small) simp
  show "\<exists>s'. pipe_send s xs = Inr (S_OK, s') \<and> pipe_inv s' \<and> pipe_usable s' = pipe_usable s
      \<and> pipe_contents s' = pipe_contents s @ xs"
    using pipe_write_fits [of c d xs "of_nat (length xs)"] a s n by (auto simp: pipe_send_def)
next
  fix s and xs :: bytes
  assume a: "pipe_inv s" "pipe_usable s < length (pipe_contents s) + length xs" "length xs < 2 ^ 32"
  obtain c d where s: "s = (c, d)" by (cases s)
  have n: "unat (of_nat (length xs) :: u32) = length xs"
    using a by (intro unat_of_nat_small) simp
  show "\<exists>h s'. pipe_send s xs = Inr (h, s') \<and> FAILED h \<and> pipe_inv s' \<and> pipe_usable s' = pipe_usable s
      \<and> pipe_contents s' = pipe_contents s"
    using pipe_write_full [of c d "of_nat (length xs)" xs] a s n by (auto simp: pipe_send_def)
next
  fix s n
  assume a: "pipe_inv s" "n \<le> length (pipe_contents s)"
  obtain c d where s: "s = (c, d)" by (cases s)
  have n: "unat (of_nat n :: u32) = n"
    using a pipe_inv_bounds [OF a(1)] by (intro unat_of_nat_small) simp
  show "\<exists>s'. pipe_recv s n = Inr (S_OK, take n (pipe_contents s), s') \<and> pipe_inv s'
      \<and> pipe_usable s' = pipe_usable s \<and> pipe_contents s' = drop n (pipe_contents s)"
    using pipe_read_ready [of c d "of_nat n" "replicate n 0"] a s n
    by (auto simp: pipe_recv_def buf_put_def)
next
  fix s and n :: nat
  assume a: "pipe_inv s" "length (pipe_contents s) < n" "n < 2 ^ 32"
  obtain c d where s: "s = (c, d)" by (cases s)
  have n: "unat (of_nat n :: u32) = n"
    using a by (intro unat_of_nat_small) simp
  show "\<exists>h ys s'. pipe_recv s n = Inr (h, ys, s') \<and> FAILED h \<and> pipe_inv s'
      \<and> pipe_usable s' = pipe_usable s \<and> pipe_contents s' = pipe_contents s"
    using pipe_read_short [of c d "of_nat n" "replicate n 0"] a s n by (auto simp: pipe_recv_def)
qed

section \<open>Handle counting\<close>

text \<open>The open and close requests the VFS issues, in order, until the pipe is destroyed.\<close>

fun pipe_ioctls ::
  "(nat \<Rightarrow> mutex \<Rightarrow> mutex) \<Rightarrow> hresult \<Rightarrow> cpu \<Rightarrow> u32 list \<Rightarrow> pipe_desc \<Rightarrow> pipe_desc option run" where
  "pipe_ioctls others unmount c [] d = Inr (Some d)"
| "pipe_ioctls others unmount c (code # codes) d =
     bindR (pipe_ioctl others unmount c d code) (\<lambda>(h, c, r).
     case r of None \<Rightarrow> Inr None | Some d \<Rightarrow> pipe_ioctls others unmount c codes d)"

text \<open>Handles that are open after the requests; \<open>None\<close> if a handle is closed that was not open.\<close>

fun open_handles :: "u32 list \<Rightarrow> nat \<Rightarrow> nat option" where
  "open_handles [] n = Some n"
| "open_handles (code # codes) n =
     (if code = DEVIO_OPEN then open_handles codes (Suc n)
      else if code = DEVIO_CLOSE then (case n of 0 \<Rightarrow> None | Suc m \<Rightarrow> open_handles codes m)
      else open_handles codes n)"

lemma pipe_ioctls_counts:
  assumes "open_handles codes n = Some k" and "unat (pp_ref_cnt d) = n" and "n + length codes < 2 ^ 32"
  shows "\<exists>d'. pipe_ioctls others unmount c codes d = Inr (Some d') \<and> unat (pp_ref_cnt d') = k"
  using assms
proof (induction codes arbitrary: n d)
  case (Cons code codes)
  have up: "unat (pp_ref_cnt d + 1) = Suc n"
    using Cons.prems by (subst unat_add_small) auto
  have down: "n \<noteq> 0 \<Longrightarrow> unat (pp_ref_cnt d - 1) = n - 1 \<and> pp_ref_cnt d \<noteq> 0"
    using Cons.prems(2) by (subst unat_sub_small) auto
  have codes: "DEVIO_CLOSE \<noteq> DEVIO_OPEN"
    by (simp add: DEVIO_CLOSE_def DEVIO_OPEN_def)
  consider "code = DEVIO_OPEN" | "code = DEVIO_CLOSE" | "code \<noteq> DEVIO_OPEN" "code \<noteq> DEVIO_CLOSE"
    by blast
  then show ?case
  proof cases
    case 1
    with Cons.IH [of "Suc n" "d\<lparr>pp_ref_cnt := pp_ref_cnt d + 1\<rparr>"] Cons.prems up show ?thesis
      by (simp add: pipe_ioctl_def)
  next
    case 2
    with Cons.prems(1) codes obtain m where m: "n = Suc m" "open_handles codes m = Some k"
      by (auto split: nat.splits)
    with Cons.IH [of m "d\<lparr>pp_ref_cnt := pp_ref_cnt d - 1\<rparr>"] Cons.prems down 2 codes show ?thesis
      by (simp add: pipe_ioctl_def Let_def)
  next
    case 3
    with Cons.IH [of n d] Cons.prems show ?thesis
      by (simp add: pipe_ioctl_def)
  qed
qed simp

section \<open>Properties\<close>

text \<open>
  C36. A pipe delivers to its readers exactly the bytes its writers put in, in order, for every
  sequence of reads and writes; a write that does not fit and a read that asks for too much fail
  and change nothing. No call panics or leaves the ring.\<close>

theorem pipe_fifo:
  assumes "pipe_inv (c, d)" and "\<And>p. p \<in> set ops \<Longrightarrow> op_size p < 2 ^ 32"
  shows "\<exists>acc rcv s'. chan_run pipe_send pipe_recv ops (c, d) = Inr (acc, rcv, s') \<and> pipe_inv s'
    \<and> pipe_usable s' = pipe_usable (c, d) \<and> pipe_contents (c, d) @ acc = rcv @ pipe_contents s'"
  using pipe.run_is_fifo [OF assms] by blast

lemma pipe_fifo_witness:
  "\<exists>acc rcv s'. chan_run pipe_send pipe_recv [Send [1, 2], Recv 3, Send [3], Recv 3]
      (\<lparr> cpu_if = True, cpu_current = Some (1, 1) \<rparr>,
       \<lparr> pp_read_pos = 3, pp_write_pos = 3, pp_buffer_size = 4, pp_ring_buffer = [0, 0, 0, 0],
         pp_ref_cnt = 1, pp_lock = mutex_create, pp_flags = 0 \<rparr>)
    = Inr (acc, rcv, s') \<and> acc = rcv @ pipe_contents s'"
proof -
  let ?c = "\<lparr> cpu_if = True, cpu_current = Some (1, 1) \<rparr>"
  let ?d = "\<lparr> pp_read_pos = 3, pp_write_pos = 3, pp_buffer_size = 4, pp_ring_buffer = [0, 0, 0, 0],
         pp_ref_cnt = 1, pp_lock = mutex_create, pp_flags = 0 \<rparr>"
  have inv: "pipe_inv (?c, ?d)"
    by (simp add: pipe_inv_def ring_ok_def lockable_def mutex_create_def spinlock_create_def)
  have "pipe_contents (?c, ?d) = []"
    by (simp add: pipe_contents_def ring_data_def)
  moreover have "\<exists>acc rcv s'. chan_run pipe_send pipe_recv [Send [1, 2], Recv 3, Send [3], Recv 3] (?c, ?d)
      = Inr (acc, rcv, s') \<and> pipe_inv s' \<and> pipe_usable s' = pipe_usable (?c, ?d)
      \<and> pipe_contents (?c, ?d) @ acc = rcv @ pipe_contents s'"
    by (rule pipe_fifo [OF inv]) auto
  ultimately show ?thesis
    by (metis append_Nil)
qed

text \<open>The handle count is right, but the test at close is not: as long as only open handles are
  closed, no close request ever destroys the pipe, not even the last one on a pipe created with
  \<^verbatim>\<open>PIPE_FLAG_DELETE_ON_CLOSE\<close>. Only a close without an open handle does.\<close>

theorem pipe_survives_last_close:
  assumes "open_handles codes 0 = Some n" and "pp_ref_cnt d = 0" and "length codes < 2 ^ 32"
  shows "\<exists>d'. pipe_ioctls others unmount c codes d = Inr (Some d') \<and> unat (pp_ref_cnt d') = n"
  using pipe_ioctls_counts [of codes 0 n d] assms by simp

lemma pipe_survives_last_close_witness:
  "\<exists>d'. pipe_ioctls (\<lambda>_ m. m) S_OK \<lparr> cpu_if = True, cpu_current = Some (100, 1) \<rparr> [DEVIO_OPEN, DEVIO_OPEN, DEVIO_CLOSE, DEVIO_CLOSE]
      \<lparr> pp_read_pos = 0, pp_write_pos = 0, pp_buffer_size = 4, pp_ring_buffer = [0, 0, 0, 0],
        pp_ref_cnt = 0, pp_lock = mutex_create, pp_flags = PIPE_FLAG_DELETE_ON_CLOSE \<rparr>
    = Inr (Some d') \<and> unat (pp_ref_cnt d') = 0"
  by (rule pipe_survives_last_close) (simp_all add: DEVIO_OPEN_def DEVIO_CLOSE_def)

text \<open>\<^verbatim>\<open>pipe_create\<close> never sets the positions and the handle count of the descriptor it takes
  from \<^verbatim>\<open>kmalloc\<close>: the new pipe starts with whatever the block held, and it is a consistent
  empty pipe exactly when those two stale words happen to be in range and equal (or to mark the
  two ends of the ring).\<close>

theorem pipe_create_keeps_stale_positions:
  assumes "length ring = unat sz" and "0 < unat sz" and "unat sz < 2 ^ 31"
    and "cpu_current c \<noteq> None"
  shows "\<exists>d. pipe_create True (Some d0) (Some ring) True mount name flags sz
        = Inr (mount (''/ipc/'' @ name), Some (''/ipc/'' @ name, d))
    \<and> pp_ref_cnt d = pp_ref_cnt d0
    \<and> (pipe_inv (c, d) \<and> pipe_contents (c, d) = [] \<longleftrightarrow>
        (pp_read_pos d0 = pp_write_pos d0 \<or> pp_read_pos d0 = sz \<and> pp_write_pos d0 = 0)
        \<and> unat (pp_read_pos d0) \<le> unat sz)"
proof -
  let ?d = "d0\<lparr>pp_buffer_size := sz, pp_ring_buffer := ring, pp_flags := flags, pp_lock := mutex_create\<rparr>"
  have inv: "pipe_inv (c, ?d) \<longleftrightarrow> ring_ok sz (pp_read_pos d0) (pp_write_pos d0) ring"
    using assms(4) by (auto simp: pipe_inv_def lockable_def mutex_create_def spinlock_create_def)
  have "ring_ok sz rp wp ring \<and> ring_data rp wp ring = [] \<longleftrightarrow>
      (rp = wp \<or> rp = sz \<and> wp = 0) \<and> unat rp \<le> unat sz" for rp wp
  proof
    assume a: "ring_ok sz rp wp ring \<and> ring_data rp wp ring = []"
    then have "unat rp = unat wp \<or> unat rp = unat sz \<and> unat wp = 0"
      using length_ring_data [of sz rp wp ring] by (auto simp: ring_ok_def split: if_splits)
    with a show "(rp = wp \<or> rp = sz \<and> wp = 0) \<and> unat rp \<le> unat sz"
      by (simp add: ring_ok_def word_unat_eq_iff)
  next
    assume "(rp = wp \<or> rp = sz \<and> wp = 0) \<and> unat rp \<le> unat sz"
    then show "ring_ok sz rp wp ring \<and> ring_data rp wp ring = []"
      using assms by (auto simp: ring_ok_def ring_data_def)
  qed
  with inv show ?thesis
    by (simp add: pipe_create_def pipe_contents_def Let_def)
qed

lemma pipe_create_keeps_stale_positions_witness:
  "\<exists>d. pipe_create True (Some \<lparr> pp_read_pos = 9, pp_write_pos = 5, pp_buffer_size = 0,
        pp_ring_buffer = [], pp_ref_cnt = 77, pp_lock = mutex_create, pp_flags = 0 \<rparr>)
      (Some [0, 0]) True (\<lambda>_. S_OK) ''p'' 0 2 = Inr (S_OK, Some (''/ipc/p'', d))
    \<and> pp_ref_cnt d = 77 \<and> \<not> (pipe_inv (\<lparr> cpu_if = True, cpu_current = Some (1, 1) \<rparr>, d)
        \<and> pipe_contents (\<lparr> cpu_if = True, cpu_current = Some (1, 1) \<rparr>, d) = [])"
  using pipe_create_keeps_stale_positions [of "[0, 0]" 2 "\<lparr> cpu_if = True, cpu_current = Some (1, 1) \<rparr>"
      "\<lparr> pp_read_pos = 9, pp_write_pos = 5, pp_buffer_size = 0,
        pp_ring_buffer = [], pp_ref_cnt = 77, pp_lock = mutex_create, pp_flags = 0 \<rparr>" "\<lambda>_. S_OK" "''p''" 0]
  by auto

end
