(* ===== verification/CString.thy ===== *)
theory CString
  imports Antonix_Base "HOL-Library.Signed_Division"
begin

text \<open>
  Model of \<^verbatim>\<open>libc/string.c\<close> over flat kernel memory: a function from 32-bit addresses to bytes,
  with address arithmetic that wraps. \<^verbatim>\<open>char\<close> is signed, \<^verbatim>\<open>int\<close> and \<^verbatim>\<open>long\<close> are 32 bits and wrap.
  A routine whose loop is bounded only by the data has an option result, \<open>None\<close> when it never
  returns.
\<close>

type_synonym mem = "u32 \<Rightarrow> u8"

abbreviation ch :: "char \<Rightarrow> u8" where
  "ch c \<equiv> of_char c"

section \<open>Memory blocks\<close>

fun memcpy_loop :: "mem \<Rightarrow> u32 \<Rightarrow> u32 \<Rightarrow> nat \<Rightarrow> mem" where
  "memcpy_loop m d s 0 = m"
| "memcpy_loop m d s (Suc n) = memcpy_loop (m(d := m s)) (d + 1) (s + 1) n"

definition memcpy :: "mem \<Rightarrow> u32 \<Rightarrow> u32 \<Rightarrow> u32 \<Rightarrow> mem" where
  "memcpy m dst src count = (if count = 0 then m else memcpy_loop m dst src (unat count))"

definition memmove :: "mem \<Rightarrow> u32 \<Rightarrow> u32 \<Rightarrow> u32 \<Rightarrow> mem" where
  "memmove m dst src count = memcpy m dst src count"

fun memset_loop :: "mem \<Rightarrow> u32 \<Rightarrow> u8 \<Rightarrow> nat \<Rightarrow> mem" where
  "memset_loop m d byte 0 = m"
| "memset_loop m d byte (Suc n) = memset_loop (m(d := byte)) (d + 1) byte n"

definition memset :: "mem \<Rightarrow> u32 \<Rightarrow> u32 \<Rightarrow> u32 \<Rightarrow> mem" where
  "memset m dst c sz = (if sz \<le> 0 then m else memset_loop m dst (ucast c) (unat sz))"

text \<open>The pointers stay where they are while the count runs down.\<close>

fun memcmp_loop :: "mem \<Rightarrow> u32 \<Rightarrow> u32 \<Rightarrow> nat \<Rightarrow> int" where
  "memcmp_loop m p1 p2 0 = 0"
| "memcmp_loop m p1 p2 (Suc num) =
     (if m p1 = m p2 then memcmp_loop m p1 p2 num
      else if m p1 > m p2 then 1
      else if m p1 < m p2 then - 1
      else memcmp_loop m p1 p2 num)"

definition memcmp :: "mem \<Rightarrow> u32 \<Rightarrow> u32 \<Rightarrow> u32 \<Rightarrow> int" where
  "memcmp m ptr1 ptr2 num = memcmp_loop m ptr1 ptr2 (unat num)"

section \<open>Strings\<close>

partial_function (option) strlen_loop :: "mem \<Rightarrow> u32 \<Rightarrow> u32 \<Rightarrow> u32 option" where
  "strlen_loop m str len = (if m str \<noteq> 0 then strlen_loop m (str + 1) (len + 1) else Some len)"

definition strlen :: "mem \<Rightarrow> u32 \<Rightarrow> u32 option" where
  "strlen m str = strlen_loop m str 0"

partial_function (option) strcmp :: "mem \<Rightarrow> u32 \<Rightarrow> u32 \<Rightarrow> int option" where
  "strcmp m s1 s2 =
     (if sint (m s1) > sint (m s2) then Some 1
      else if sint (m s1) < sint (m s2) then Some (- 1)
      else if m s1 = 0 then Some 0
      else strcmp m (s1 + 1) (s2 + 1))"

definition toupper :: "u8 \<Rightarrow> u8" where
  "toupper c = (if sint c \<ge> 97 \<and> sint c \<le> 122 then c - (97 - 65) else c)"

partial_function (option) stricmp :: "mem \<Rightarrow> u32 \<Rightarrow> u32 \<Rightarrow> int option" where
  "stricmp m s1 s2 =
     (if sint (toupper (m s1)) > sint (toupper (m s2)) then Some 1
      else if sint (toupper (m s1)) < sint (toupper (m s2)) then Some (- 1)
      else if m s1 = 0 then Some 0
      else stricmp m (s1 + 1) (s2 + 1))"

partial_function (option) strcpy :: "mem \<Rightarrow> u32 \<Rightarrow> u32 \<Rightarrow> mem option" where
  "strcpy m dst src =
     (if m src \<noteq> 0 then strcpy (m(dst := m src)) (dst + 1) (src + 1)
      else Some (m(dst := 0)))"

text \<open>A signed character is compared with an unsigned byte, both widened to \<^verbatim>\<open>int\<close>.\<close>

definition chr_eq :: "u8 \<Rightarrow> u32 \<Rightarrow> bool" where
  "chr_eq c character \<longleftrightarrow> sint c = uint (ucast character :: u8)"

text \<open>0 is the null pointer.\<close>

partial_function (option) strchr :: "mem \<Rightarrow> u32 \<Rightarrow> u32 \<Rightarrow> u32 option" where
  "strchr m str character =
     (if m str \<noteq> 0 then
        if chr_eq (m str) character then Some str else strchr m (str + 1) character
      else Some (if character = 0 then str else 0))"

partial_function (option) strrchr_loop :: "mem \<Rightarrow> u32 \<Rightarrow> u32 \<Rightarrow> u32 \<Rightarrow> u32 option" where
  "strrchr_loop m str character result =
     (if m str \<noteq> 0 then
        strrchr_loop m (str + 1) character (if chr_eq (m str) character then str else result)
      else Some (if character = 0 then str else result))"

definition strrchr :: "mem \<Rightarrow> u32 \<Rightarrow> u32 \<Rightarrow> u32 option" where
  "strrchr m str character = strrchr_loop m str character 0"

definition isspace :: "u8 \<Rightarrow> bool" where
  "isspace c \<longleftrightarrow> c \<in> {32, 9, 10, 11, 12, 13}"

section \<open>Splitting\<close>

text \<open>A 32-bit pointer stored little-endian.\<close>

definition store32 :: "mem \<Rightarrow> u32 \<Rightarrow> u32 \<Rightarrow> mem" where
  "store32 m a v = m(a := ucast v, a + 1 := ucast (drop_bit 8 v), a + 2 := ucast (drop_bit 16 v),
                     a + 3 := ucast (drop_bit 24 v))"

partial_function (option) explode_count :: "mem \<Rightarrow> u32 \<Rightarrow> u8 \<Rightarrow> nat \<Rightarrow> nat option" where
  "explode_count m s delim cnt =
     (if m s \<noteq> 0 then explode_count m (s + 1) delim (if m s = delim then Suc cnt else cnt)
      else Some cnt)"

text \<open>The \<^verbatim>\<open>for\<close> loop; \<open>alloc i\<close> is the block \<^verbatim>\<open>kmalloc\<close> returns for the \<open>i\<close>-th substring.\<close>

fun explode_loop :: "(nat \<Rightarrow> u32) \<Rightarrow> u32 \<Rightarrow> u8 \<Rightarrow> nat \<Rightarrow> nat \<Rightarrow> mem \<Rightarrow> u32 \<Rightarrow> mem option" where
  "explode_loop alloc arr delim i 0 m d = Some m"
| "explode_loop alloc arr delim i (Suc n) m d =
     (case strchr m d (scast delim) of
        None \<Rightarrow> None
      | Some d2 \<Rightarrow>
          (case (if d2 = 0 then strlen m d else Some (d2 - d)) of
             None \<Rightarrow> None
           | Some k \<Rightarrow>
               let m = store32 m (arr + 4 * of_nat i) (alloc i);
                   m = (if k > 0 then memcpy m (alloc i) d k else m);
                   m = m(alloc i + k := 0)
               in explode_loop alloc arr delim (Suc i) n m (d2 + 1)))"

definition str_explode :: "(nat \<Rightarrow> u32) \<Rightarrow> u32 \<Rightarrow> mem \<Rightarrow> u32 \<Rightarrow> u8 \<Rightarrow> (mem \<times> u32 \<times> nat) option" where
  "str_explode alloc arr m src delim =
     (case explode_count m src delim 1 of
        None \<Rightarrow> None
      | Some cnt \<Rightarrow>
          (case explode_loop alloc arr delim 0 cnt m src of
             None \<Rightarrow> None | Some m \<Rightarrow> Some (m, arr, cnt)))"

section \<open>Number parsing\<close>

partial_function (option) skip_spaces :: "mem \<Rightarrow> u32 \<Rightarrow> u32 option" where
  "skip_spaces m c = (if isspace (m c) then skip_spaces m (c + 1) else Some c)"

text \<open>The digit loop never moves \<^verbatim>\<open>c\<close>.\<close>

partial_function (option) strtol_loop :: "mem \<Rightarrow> u32 \<Rightarrow> u32 \<Rightarrow> u32 option" where
  "strtol_loop m c k =
     (if m c \<noteq> 0 then strtol_loop m c (push_bit 3 k + push_bit 1 k + scast (m c) - 48)
      else Some k)"

definition strtol :: "mem \<Rightarrow> u32 \<Rightarrow> u32 \<Rightarrow> (u32 \<times> u32) run" where
  "strtol m str base =
     (case skip_spaces m str of
        None \<Rightarrow> Inl NoReturn
      | Some c \<Rightarrow>
          let negative = (m c = ch CHR ''-'');
              c = (if m c = ch CHR ''-'' \<or> m c = ch CHR ''+'' then c + 1 else c)
          in if m c = ch CHR ''0'' \<and> m (c + 1) = ch CHR ''0''
             then Inl (Panic ''strtol(): octal support not implemented.'')
             else if m c = ch CHR ''0'' \<and> (m (c + 1) = ch CHR ''x'' \<or> m (c + 1) = ch CHR ''X'')
             then Inl (Panic ''strtol(): hex support not implemented.'')
             else let base = (if base = 0 then 10 else base)
             in if base \<noteq> 10 then Inl (Panic ''strtol(): only base 10 is supported.'')
             else case strtol_loop m c 0 of
                    None \<Rightarrow> Inl NoReturn
                  | Some k \<Rightarrow> Inr (if negative then - k else k, c))"

section \<open>Formatted printing\<close>

text \<open>\<^verbatim>\<open>__sprint_hex\<close>.\<close>

definition hexmap :: bytes where
  "hexmap = map of_char ''0123456789ABCDEF''"

function hex_digits :: "u32 \<Rightarrow> u32" where
  "hex_digits num = (if num div 16 > 0 then 1 + hex_digits (num div 16) else 1)"
  by auto
termination
  by (relation "measure unat") (auto simp: word_less_nat_alt unat_div)

declare hex_digits.simps [simp del]

function hex_put :: "mem \<Rightarrow> u32 \<Rightarrow> u32 \<Rightarrow> mem \<times> u32" where
  "hex_put m target usrc =
     (let target = target - 1;
          m = m(target := hexmap ! unat (usrc mod 16))
      in if usrc div 16 > 0 then hex_put m target (usrc div 16) else (m, target))"
  by auto
termination
  by (relation "measure (\<lambda>(m, t, u). unat u)") (auto simp: word_less_nat_alt unat_div)

declare hex_put.simps [simp del]

definition sprint_hex :: "mem \<Rightarrow> u32 \<Rightarrow> u32 \<Rightarrow> mem \<times> u32" where
  "sprint_hex m target src =
     (let digits = hex_digits src;
          m = m(target := ch CHR ''0'', target + 1 := ch CHR ''x'');
          target = target + 2 + digits;
          (m, target) = hex_put m target src
      in (m, target + digits))"

text \<open>\<^verbatim>\<open>__sprint_dec\<close>: the digits are reversed into an \<^verbatim>\<open>int\<close>, then printed from it.\<close>

function dec_reverse :: "u32 \<Rightarrow> u32 \<Rightarrow> nat \<Rightarrow> u32 \<times> nat" where
  "dec_reverse src reversed cnt =
     (if sint src > 0
      then dec_reverse (word_of_int (sint src sdiv 10))
             (reversed * 10 + word_of_int (sint src smod 10)) (Suc cnt)
      else (reversed, cnt))"
  by auto
termination
proof (relation "measure (\<lambda>(s, r, c). nat (sint s))", goal_cases)
  case (2 src reversed cnt)
  then have pos: "0 < sint src" by simp
  have lt: "sint src < 2 ^ 31" using sint_lt [of src] by simp
  have eq: "sint src sdiv 10 = sint src div 10"
    using pos by (simp add: signed_divide_int_def)
  have "sint (word_of_int (sint src div 10) :: u32) = sint src div 10"
    using pos lt by (simp add: sint_sbintrunc' signed_take_bit_int_eq_self)
  with pos show ?case by (simp add: eq)
qed simp

declare dec_reverse.simps [simp del]

fun dec_put :: "mem \<Rightarrow> u32 \<Rightarrow> u32 \<Rightarrow> nat \<Rightarrow> mem \<times> u32" where
  "dec_put m target reversed cnt =
     (let m = m(target := 48 + ucast (word_of_int (sint reversed smod 10) :: u32));
          target = target + 1;
          reversed = word_of_int (sint reversed sdiv 10)
      in case cnt of 0 \<Rightarrow> (m, target) | Suc 0 \<Rightarrow> (m, target)
         | Suc n \<Rightarrow> dec_put m target reversed n)"

declare dec_put.simps [simp del]

definition sprint_dec :: "mem \<Rightarrow> u32 \<Rightarrow> u32 \<Rightarrow> mem \<times> u32" where
  "sprint_dec m target src =
     (let (m, target, src) =
            (if sint src < 0 then (m(target := ch CHR ''-''), target + 1, - src) else (m, target, src));
          (reversed, cnt) = dec_reverse src 0 0
      in dec_put m target reversed cnt)"

text \<open>\<^verbatim>\<open>__sprint_str\<close>: for a null pointer the text NULL is written, and then address 0 is read on.\<close>

partial_function (option) sprint_str_loop :: "mem \<Rightarrow> u32 \<Rightarrow> u32 \<Rightarrow> (mem \<times> u32) option" where
  "sprint_str_loop m target src =
     (if m src \<noteq> 0 then sprint_str_loop (m(target := m src)) (target + 1) (src + 1)
      else Some (m, target))"

definition sprint_str :: "mem \<Rightarrow> u32 \<Rightarrow> u32 \<Rightarrow> bool \<Rightarrow> (mem \<times> u32) option" where
  "sprint_str m target src inc_null =
     (let (m, target) =
            (if src = 0
             then (m(target := ch CHR ''N'', target + 1 := ch CHR ''U'', target + 2 := ch CHR ''L'',
                     target + 3 := ch CHR ''L''), target + 4)
             else (m, target))
      in case sprint_str_loop m target src of
           None \<Rightarrow> None
         | Some (m, target) \<Rightarrow> Some (if inc_null then m(target := 0) else m, target))"

text \<open>The argument list is the sequence of 32-bit words that \<^verbatim>\<open>va_arg\<close> reads off the stack.\<close>

partial_function (option) vsprintf_loop ::
  "mem \<Rightarrow> u32 \<Rightarrow> u32 \<Rightarrow> (nat \<Rightarrow> u32) \<Rightarrow> nat \<Rightarrow> (mem \<times> u32) option" where
  "vsprintf_loop m dst pc args k =
     (if m pc = 0 then Some (m, dst)
      else if m pc = ch CHR ''%'' then
        let pc = pc + 1; i = m pc in
        if i = ch CHR ''d'' then
          (case sprint_dec m dst (args k) of (m, dst) \<Rightarrow> vsprintf_loop m dst (pc + 1) args (Suc k))
        else if i = ch CHR ''x'' then
          (case sprint_hex m dst (args k) of (m, dst) \<Rightarrow> vsprintf_loop m dst (pc + 1) args (Suc k))
        else if i = ch CHR ''s'' then
          (case sprint_str m dst (args k) False of
             None \<Rightarrow> None
           | Some (m, dst) \<Rightarrow> vsprintf_loop m dst (pc + 1) args (Suc k))
        else vsprintf_loop (m(dst := m pc)) (dst + 1) (pc + 1) args k
      else vsprintf_loop (m(dst := m pc)) (dst + 1) (pc + 1) args k)"

definition vsprintf :: "mem \<Rightarrow> u32 \<Rightarrow> u32 \<Rightarrow> (nat \<Rightarrow> u32) \<Rightarrow> (mem \<times> u32) option" where
  "vsprintf m target fmt args =
     (case vsprintf_loop m target fmt args 0 of
        None \<Rightarrow> None
      | Some (m, dst) \<Rightarrow> Some (m(dst := 0), dst - target))"

section \<open>Strings and blocks in memory\<close>

fun cstr_at :: "mem \<Rightarrow> u32 \<Rightarrow> bytes \<Rightarrow> bool" where
  "cstr_at m p [] = (m p = 0)"
| "cstr_at m p (x # xs) = (x \<noteq> 0 \<and> m p = x \<and> cstr_at m (p + 1) xs)"

fun mem_put :: "mem \<Rightarrow> u32 \<Rightarrow> bytes \<Rightarrow> mem" where
  "mem_put m a [] = m"
| "mem_put m a (x # xs) = mem_put (m(a := x)) (a + 1) xs"

lemma add_of_nat_Suc: "(a :: u32) + of_nat (Suc i) = a + 1 + of_nat i"
  by (simp add: add.assoc)

lemma cstr_at_upd:
  "(\<And>j. j \<le> length xs \<Longrightarrow> a \<noteq> p + of_nat j) \<Longrightarrow> cstr_at (m(a := v)) p xs = cstr_at m p xs"
proof (induction xs arbitrary: p)
  case Nil
  from Nil [of 0] show ?case by simp
next
  case (Cons x xs)
  have "a \<noteq> p" using Cons.prems [of 0] by simp
  moreover have "a \<noteq> p + 1 + of_nat j" if "j \<le> length xs" for j
    using Cons.prems [of "Suc j"] that by (simp only: add_of_nat_Suc) simp
  ultimately show ?case using Cons.IH by simp
qed

lemma mem_put_other: "(\<And>i. i < length xs \<Longrightarrow> b \<noteq> a + of_nat i) \<Longrightarrow> mem_put m a xs b = m b"
proof (induction xs arbitrary: m a)
  case (Cons x xs)
  have "b \<noteq> a" using Cons.prems [of 0] by simp
  moreover have "b \<noteq> a + 1 + of_nat i" if "i < length xs" for i
    using Cons.prems [of "Suc i"] that by (simp only: add_of_nat_Suc) simp
  ultimately show ?case using Cons.IH by simp
qed simp

lemma numeral_pow_2_32: "(2 :: nat) ^ 32 = 4294967296"
  by simp

lemma add_of_nat_eq_iff:
  "i < 2 ^ 32 \<Longrightarrow> j < 2 ^ 32 \<Longrightarrow> (a :: u32) + of_nat i = a + of_nat j \<longleftrightarrow> i = j"
  by (metis add_left_cancel unat_of_nat_small numeral_pow_2_32)

lemma mem_put_at:
  "length xs \<le> 2 ^ 32 \<Longrightarrow> i < length xs \<Longrightarrow> mem_put m a xs (a + of_nat i) = xs ! i"
proof (induction xs arbitrary: m a i)
  case (Cons x xs)
  show ?case
  proof (cases i)
    case 0
    have "a \<noteq> a + 1 + of_nat j" if "j < length xs" for j
      using add_of_nat_eq_iff [of 0 "Suc j" a] Cons.prems(1) that
      by (simp only: add_of_nat_Suc) simp
    then show ?thesis using 0 by (simp add: mem_put_other)
  next
    case (Suc k)
    then show ?thesis using Cons.IH [of k "m(a := x)" "a + 1"] Cons.prems
      by (simp only: add_of_nat_Suc) (simp add: fun_upd_def)
  qed
qed simp

lemma cstr_at_iff:
  "cstr_at m p xs \<longleftrightarrow> (\<forall>i < length xs. xs ! i \<noteq> 0 \<and> m (p + of_nat i) = xs ! i) \<and> m (p + of_nat (length xs)) = 0"
proof (induction xs arbitrary: p)
  case (Cons x xs)
  have "(\<forall>i < length (x # xs). (x # xs) ! i \<noteq> 0 \<and> m (p + of_nat i) = (x # xs) ! i) \<longleftrightarrow>
      x \<noteq> 0 \<and> m p = x \<and> (\<forall>i < length xs. xs ! i \<noteq> 0 \<and> m (p + 1 + of_nat i) = xs ! i)"
    by (auto simp: less_Suc_eq_0_disj add.assoc)
  then show ?case using Cons by (simp add: add.assoc)
qed simp

section \<open>Copying\<close>

lemma memcpy_loop_copies:
  assumes "\<And>i j. i < j \<Longrightarrow> j < n \<Longrightarrow> d + of_nat i \<noteq> s + of_nat j"
  shows "memcpy_loop m d s n = mem_put m d (map (\<lambda>i. m (s + of_nat i)) [0..<n])"
  using assms
proof (induction n arbitrary: m d s)
  case (Suc n)
  have "d \<noteq> s + of_nat (Suc j)" if "j < n" for j
    using Suc.prems [of 0 "Suc j"] that by simp
  then have eq: "map (\<lambda>i. (m(d := m s)) (s + 1 + of_nat i)) [0..<n] = map (\<lambda>i. m (s + 1 + of_nat i)) [0..<n]"
    by (intro map_cong refl) (auto simp: add.assoc)
  have "d + 1 + of_nat i \<noteq> s + 1 + of_nat j" if "i < j" "j < n" for i j
    using Suc.prems [of "Suc i" "Suc j"] that by (simp only: add_of_nat_Suc) simp
  moreover have "map (\<lambda>i. m (s + of_nat i)) [0..<Suc n] = m s # map (\<lambda>i. m (s + 1 + of_nat i)) [0..<n]"
    by (simp add: upt_conv_Cons map_Suc_upt [symmetric] add.assoc del: upt_Suc)
  ultimately show ?case
    using Suc.IH [of "d + 1" "s + 1" "m(d := m s)"] unfolding eq by (simp del: fun_upd_apply upt_Suc)
qed simp

lemma strcpy_put:
  assumes "cstr_at m src xs" and "\<And>i j. i < j \<Longrightarrow> j \<le> length xs \<Longrightarrow> dst + of_nat i \<noteq> src + of_nat j"
  shows "strcpy m dst src = Some (mem_put m dst (xs @ [0]))"
  using assms
proof (induction xs arbitrary: m dst src)
  case Nil
  then show ?case by (subst strcpy.simps) simp
next
  case (Cons x xs)
  have "dst \<noteq> src + 1 + of_nat j" if "j \<le> length xs" for j
    using Cons.prems(2) [of 0 "Suc j"] that by (simp only: add_of_nat_Suc) simp
  then have "cstr_at (m(dst := x)) (src + 1) xs"
    using Cons.prems(1) by (subst cstr_at_upd) auto
  moreover have "dst + 1 + of_nat i \<noteq> src + 1 + of_nat j" if "i < j" "j \<le> length xs" for i j
    using Cons.prems(2) [of "Suc i" "Suc j"] that by (simp only: add_of_nat_Suc) simp
  ultimately have "strcpy (m(dst := x)) (dst + 1) (src + 1) = Some (mem_put (m(dst := x)) (dst + 1) (xs @ [0]))"
    using Cons.IH by blast
  then show ?case using Cons.prems(1) by (subst strcpy.simps) simp
qed

lemma memcpy_loop_overlap:
  assumes "0 < k" and "j + c + k \<le> 2 ^ 32" and "x < j + c + k"
    and "\<And>y. y < j + k \<Longrightarrow> m' (s + of_nat y) = m (s + of_nat (y mod k))"
  shows "memcpy_loop m' (s + of_nat (j + k)) (s + of_nat j) c (s + of_nat x) = m (s + of_nat (x mod k))"
  using assms(2-)
proof (induction c arbitrary: m' j)
  case (Suc c)
  let ?m = "m'(s + of_nat (j + k) := m' (s + of_nat j))"
  have upd: "?m (s + of_nat y) = m (s + of_nat (y mod k))" if "y < Suc j + k" for y
  proof (cases "y = j + k")
    case True
    then show ?thesis using Suc.prems(3) [of j] assms(1) by simp
  next
    case False
    then have "s + of_nat y \<noteq> s + of_nat (j + k)"
      using that Suc.prems(1) by (subst add_of_nat_eq_iff) auto
    then have "?m (s + of_nat y) = m' (s + of_nat y)"
      by (simp only: fun_upd_apply if_False)
    with Suc.prems(3) [of y] that False show ?thesis by simp
  qed
  have "memcpy_loop m' (s + of_nat (j + k)) (s + of_nat j) (Suc c)
      = memcpy_loop ?m (s + of_nat (Suc j + k)) (s + of_nat (Suc j)) c"
    by (simp add: ac_simps)
  moreover have "memcpy_loop ?m (s + of_nat (Suc j + k)) (s + of_nat (Suc j)) c (s + of_nat x)
      = m (s + of_nat (x mod k))"
    using Suc.prems(1,2) by (intro Suc.IH upd) auto
  ultimately show ?case by simp
qed simp

section \<open>Decimal printing\<close>

text \<open>The decimal digits of a number, most significant first, and least significant first.\<close>

fun dec_digits :: "nat \<Rightarrow> nat list" where
  "dec_digits n = (if n < 10 then [n] else dec_digits (n div 10) @ [n mod 10])"

declare dec_digits.simps [simp del]

fun low_digits :: "nat \<Rightarrow> nat list" where
  "low_digits n = (if n = 0 then [] else n mod 10 # low_digits (n div 10))"

declare low_digits.simps [simp del]

definition digits_value :: "nat list \<Rightarrow> nat" where
  "digits_value ds = foldl (\<lambda>r d. r * 10 + d) 0 ds"

lemma dec_digits_low: "n \<noteq> 0 \<Longrightarrow> dec_digits n = rev (low_digits n)"
proof (induction n rule: dec_digits.induct)
  case (1 n)
  show ?case
  proof (cases "n < 10")
    case True
    then show ?thesis using 1 by (simp add: dec_digits.simps low_digits.simps [of n] low_digits.simps [of 0])
  next
    case False
    then show ?thesis using 1 by (simp add: dec_digits.simps [of n] low_digits.simps [of n])
  qed
qed

lemma low_digits_less: "d \<in> set (low_digits n) \<Longrightarrow> d < 10"
  by (induction n rule: low_digits.induct) (subst (asm) (2) low_digits.simps, auto split: if_splits)

lemma length_low_digits: "n < 10 ^ k \<Longrightarrow> length (low_digits n) \<le> k"
proof (induction n arbitrary: k rule: low_digits.induct)
  case (1 n)
  show ?case
  proof (cases k)
    case (Suc j)
    then have "n div 10 < 10 ^ j" using 1 by (simp add: less_mult_imp_div_less mult.commute)
    with 1 Suc show ?thesis by (subst low_digits.simps) auto
  qed (use 1 in \<open>simp add: low_digits.simps\<close>)
qed

lemma digits_value_snoc: "digits_value (ds @ [d]) = digits_value ds * 10 + d"
  by (simp add: digits_value_def)

lemma digits_value_less: "\<forall>d \<in> set ds. d < 10 \<Longrightarrow> digits_value ds < 10 ^ length ds"
  by (induction ds rule: rev_induct) (simp_all add: digits_value_snoc, simp add: digits_value_def)

lemma int_sdiv_smod_10: "int n sdiv 10 = int (n div 10)" "int n smod 10 = int (n mod 10)"
  by (simp_all add: signed_divide_int_def signed_modulo_int_def sgn_if zdiv_int)
     (simp_all add: minus_div_mult_eq_mod [symmetric] of_nat_diff zdiv_int)

lemma dec_reverse_digits:
  "n < 2 ^ 31 \<Longrightarrow> dec_reverse (of_nat n) (of_nat r) c
     = (of_nat (foldl (\<lambda>r d. r * 10 + d) r (low_digits n)), c + length (low_digits n))"
proof (induction n arbitrary: r c rule: low_digits.induct)
  case (1 n)
  show ?case
  proof (cases "n = 0")
    case True
    then show ?thesis by (simp add: dec_reverse.simps low_digits.simps)
  next
    case False
    have "dec_reverse (of_nat n) (of_nat r) c
        = dec_reverse (of_nat (n div 10)) (of_nat (r * 10 + n mod 10)) (Suc c)"
      using False 1(2) by (subst dec_reverse.simps)
        (simp add: sint_of_nat_small int_sdiv_smod_10 del: of_nat_mod of_nat_div)
    then show ?thesis using 1(1) [OF False, of "r * 10 + n mod 10" "Suc c"] 1(2) False
      by (simp only: low_digits.simps [of n]) simp
  qed
qed

definition digit_chars :: "nat list \<Rightarrow> bytes" where
  "digit_chars ds = map (\<lambda>d. 48 + of_nat d) ds"

lemma dec_put_digits:
  assumes "ds \<noteq> []" and "\<forall>d \<in> set ds. d < 10" and "digits_value ds < 2 ^ 31"
  shows "dec_put m t (of_nat (digits_value ds)) (length ds)
     = (mem_put m t (digit_chars (rev ds)), t + of_nat (length ds))"
  using assms
proof (induction ds arbitrary: m t rule: rev_induct)
  case (snoc d ds)
  let ?v = "digits_value ds"
  have d: "d < 10" and v: "?v * 10 + d < 2 ^ 31"
    using snoc.prems by (simp_all add: digits_value_snoc)
  obtain w where w: "digits_value (ds @ [d]) = w" by blast
  have "sint (of_nat w :: u32) = int w"
    using snoc.prems w by (intro sint_of_nat_small) simp
  moreover have "w div 10 = ?v" "w mod 10 = d"
    using d w by (simp_all add: digits_value_snoc flip: w)
  ultimately have s: "word_of_int (sint (of_nat w :: u32) smod 10) = (of_nat d :: u32)"
      "word_of_int (sint (of_nat w :: u32) sdiv 10) = (of_nat ?v :: u32)"
    by (simp_all only: int_sdiv_smod_10 of_int_of_nat_eq)
  have b: "48 + ucast (of_nat d :: u32) = (48 + of_nat d :: u8)"
    using d by (simp add: unsigned_of_nat take_bit_nat_eq_self)
  show ?case
  proof (cases ds)
    case Nil
    then show ?thesis unfolding w
      by (subst dec_put.simps) (use s b in \<open>simp add: digit_chars_def Let_def\<close>)
  next
    case (Cons e es)
    have IH: "dec_put (m(t := 48 + of_nat d)) (t + 1) (of_nat ?v) (length ds)
        = (mem_put (m(t := 48 + of_nat d)) (t + 1) (digit_chars (rev ds)), t + 1 + of_nat (length ds))"
      using snoc.IH Cons snoc.prems v by simp
    show ?thesis unfolding w
      by (subst dec_put.simps) (use s b IH Cons in \<open>simp add: digit_chars_def Let_def add.assoc\<close>)
  qed
qed simp

lemma sint_u8_eq [simp]: "sint (a :: u8) = sint b \<longleftrightarrow> a = b"
  by (auto intro: signed_word_eqI)

lemma sint_u8_0 [simp]: "sint (a :: u8) = 0 \<longleftrightarrow> a = 0" "0 = sint a \<longleftrightarrow> a = 0"
  using sint_u8_eq [of a 0] by auto

definition byte_less :: "(int \<times> int) set" where
  "byte_less = {(a, b). a < b}"

lemma strcmp_cstr:
  "cstr_at m p xs \<Longrightarrow> cstr_at m q ys \<Longrightarrow> strcmp m p q =
     Some (if xs = ys then 0
           else if (map sint (xs @ [0]), map sint (ys @ [0])) \<in> lexord byte_less then - 1 else 1)"
proof (induction xs arbitrary: p q ys)
  case Nil
  then show ?case
    by (cases ys; subst strcmp.simps) (auto simp: byte_less_def)
next
  case (Cons x xs)
  show ?case
  proof (cases ys)
    case Nil
    with Cons show ?thesis by (subst strcmp.simps) (auto simp: byte_less_def)
  next
    case (Cons y zs)
    with Cons.prems Cons.IH [of "p + 1" "q + 1" zs] show ?thesis
      by (subst strcmp.simps) (auto simp: byte_less_def)
  qed
qed

text \<open>\<^verbatim>\<open>stricmp\<close> finds two strings equal exactly when they are, letter case apart.\<close>

lemma toupper_0 [simp]: "toupper c = 0 \<longleftrightarrow> c = 0"
  by (auto simp: toupper_def eq_diff_eq)

lemma toupper_zero [simp]: "toupper 0 = 0"
  by simp

lemma stricmp_cstr:
  "cstr_at m p xs \<Longrightarrow> cstr_at m q ys \<Longrightarrow>
     \<exists>r. stricmp m p q = Some r \<and> (r = 0 \<longleftrightarrow> map toupper xs = map toupper ys)"
proof (induction xs arbitrary: p q ys)
  case Nil
  then show ?case by (cases ys; subst stricmp.simps) auto
next
  case (Cons x xs)
  show ?case
  proof (cases ys)
    case Nil
    with Cons show ?thesis by (subst stricmp.simps) auto
  next
    case (Cons y zs)
    with Cons.prems Cons.IH [of "p + 1" "q + 1" zs] show ?thesis by (subst stricmp.simps) auto
  qed
qed

section \<open>Properties\<close>

text \<open>\<^verbatim>\<open>strcmp\<close> of two strings returns, and its result orders them lexicographically by their
  characters as signed bytes, terminator included: 0 exactly for equal strings, \<open>- 1\<close> when the
  first is smaller, 1 when it is greater.\<close>

theorem strcmp_lexicographic:
  assumes "cstr_at m p xs" and "cstr_at m q ys"
  shows "strcmp m p q =
     Some (if xs = ys then 0
           else if (map sint (xs @ [0]), map sint (ys @ [0])) \<in> lexord byte_less then - 1 else 1)"
  using strcmp_cstr [OF assms] .

lemma strcmp_lexicographic_witness:
  "strcmp (mem_put (mem_put (\<lambda>_. 0) 16 [97, 98]) 32 [97, 99]) 16 32 = Some (- 1)"
  by (subst strcmp_lexicographic [where xs = "[97, 98]" and ys = "[97, 99]"]) (simp_all add: byte_less_def)

text \<open>\<^verbatim>\<open>memcpy\<close> copies correctly whenever no byte is overwritten before it is read, that is for
  disjoint blocks and for a destination below the source: the block arrives, and every other
  byte of memory keeps its value.\<close>

theorem memcpy_copies:
  assumes "\<And>i j. i < j \<Longrightarrow> j < unat n \<Longrightarrow> dst + of_nat i \<noteq> src + of_nat j"
  shows "(\<forall>i < unat n. memcpy m dst src n (dst + of_nat i) = m (src + of_nat i))
    \<and> (\<forall>a. (\<forall>i < unat n. a \<noteq> dst + of_nat i) \<longrightarrow> memcpy m dst src n a = m a)"
proof -
  let ?xs = "map (\<lambda>i. m (src + of_nat i)) [0..<unat n]"
  have eq: "memcpy m dst src n = mem_put m dst ?xs"
    using memcpy_loop_copies [OF assms] by (simp add: memcpy_def)
  have len: "length ?xs \<le> 2 ^ 32"
    using unat_lt_2_32 [of n] by simp
  show ?thesis
    unfolding eq using mem_put_at [OF len, where m = m and a = dst] mem_put_other [of ?xs _ dst m]
    by auto
qed

lemma memcpy_copies_witness:
  "memcpy (mem_put (\<lambda>_. 0) 101 [1, 2, 3]) 100 101 3 (100 + of_nat 2) = 3"
proof -
  have "(100 :: u32) + of_nat i \<noteq> 101 + of_nat j" if "i < j" "j < unat (3 :: u32)" for i j
  proof -
    have "j < 3"
      using that(2) by simp
    with that(1) have "i = 0 \<and> (j = 1 \<or> j = 2) \<or> i = 1 \<and> j = 2"
      by linarith
    then show ?thesis by auto
  qed
  then have "\<forall>i < unat (3 :: u32). memcpy (mem_put (\<lambda>_. 0) 101 [1, 2, 3]) 100 101 3 (100 + of_nat i)
      = mem_put (\<lambda>_. 0) 101 [1, 2, 3] (101 + of_nat i)"
    using memcpy_copies [of 3 100 101 "mem_put (\<lambda>_. 0) 101 [1, 2, 3]"] by blast
  then show ?thesis
    by (elim allE [of _ 2]) simp
qed

text \<open>\<^verbatim>\<open>memmove\<close> is \<^verbatim>\<open>memcpy\<close>, so when the destination overlaps the source from above, at a
  distance \<open>k\<close>, the first \<open>k\<close> bytes are repeated over the whole destination instead of the block
  being moved.\<close>

theorem memmove_overlap_repeats:
  assumes "0 < k" and "unat n + k \<le> 2 ^ 32" and "i < unat n"
  shows "memmove m (src + of_nat k) src n (src + of_nat (k + i)) = m (src + of_nat (i mod k))"
  using memcpy_loop_overlap [of k 0 "unat n" "k + i" m src m] assms
  by (auto simp: memmove_def memcpy_def)

lemma memmove_overlap_repeats_witness:
  "memmove (mem_put (\<lambda>_. 0) 100 [1, 2, 3]) (100 + of_nat 1) 100 3 (100 + of_nat (1 + 2)) = 1"
  by (subst memmove_overlap_repeats) simp_all

text \<open>\<^verbatim>\<open>memcmp\<close> never advances its pointers: it compares the first bytes only, whatever the
  length, so blocks that differ further on count as equal.\<close>

theorem memcmp_compares_first_byte:
  "memcmp m p q n =
     (if n = 0 \<or> m p = m q then 0 else if m p > m q then 1 else - 1)"
proof -
  have eq: "m p = m q \<Longrightarrow> memcmp_loop m p q k = 0" for k
    by (induction k) simp_all
  show ?thesis
  proof (cases "unat n")
    case 0
    then show ?thesis by (simp add: memcmp_def unat_eq_zero)
  next
    case (Suc k)
    then have "n \<noteq> 0" by auto
    with Suc eq show ?thesis by (simp add: memcmp_def)
  qed
qed

text \<open>For every number with at most nine digits \<^verbatim>\<open>__sprint_dec\<close> writes a minus sign if it is
  negative and then its decimal digits, most significant first, and returns the address after
  them; nothing else in memory changes.\<close>

theorem sprint_dec_prints:
  assumes "\<bar>sint src\<bar> < 10 ^ 9"
  shows "sprint_dec m target src =
     (let text = (if sint src < 0 then [ch CHR ''-''] else []) @ digit_chars (dec_digits (nat \<bar>sint src\<bar>))
      in (mem_put m target text, target + of_nat (length text)))"
proof -
  define n where "n = nat \<bar>sint src\<bar>"
  have n: "n < 10 ^ 9" "n < 2 ^ 31" using assms by (simp_all add: n_def)
  have pos: "of_nat n = src" if "\<not> sint src < 0"
    using that by (simp add: n_def)
  have neg: "of_nat n = - src" if "sint src < 0"
    using that by (simp add: n_def)
  have rev: "dec_reverse (of_nat n) 0 0 = (of_nat (digits_value (low_digits n)), length (low_digits n))"
    using dec_reverse_digits [OF n(2), of 0 0] by (simp add: digits_value_def)
  have put: "dec_put m' t (of_nat (digits_value (low_digits n))) (length (low_digits n))
      = (mem_put m' t (digit_chars (dec_digits n)), t + of_nat (length (dec_digits n)))" for m' t
  proof (cases "n = 0")
    case True
    then show ?thesis
      by (subst dec_put.simps) (simp add: low_digits.simps dec_digits.simps digits_value_def digit_chars_def)
  next
    case False
    then have "low_digits n \<noteq> []" by (subst low_digits.simps) simp
    moreover have "digits_value (low_digits n) < 10 ^ 9"
      using digits_value_less [of "low_digits n"] length_low_digits [OF n(1)] low_digits_less [of _ n]
      by (meson less_le_trans one_le_numeral power_increasing)
    ultimately show ?thesis
      using dec_put_digits [of "low_digits n" m' t] low_digits_less [of _ n] False
      by (simp add: dec_digits_low)
  qed
  show ?thesis
    using rev put pos neg
    by (auto simp: sprint_dec_def Let_def digit_chars_def add.assoc n_def [symmetric])
qed

lemma sprint_dec_prints_witness:
  "sprint_dec (\<lambda>_. 0) 100 (- 305) = (mem_put (\<lambda>_. 0) 100 [45, 51, 48, 53], 104)"
  by (subst sprint_dec_prints) (simp_all add: dec_digits.simps digit_chars_def)

text \<open>\<^verbatim>\<open>strtol\<close> never moves past a digit: the only value it ever returns is 0, and only for a
  string with nothing after its spaces and sign. On every other string it panics or loops for
  ever.\<close>

theorem strtol_returns_only_zero:
  assumes "strtol m str base = Inr (k, str_end)"
  shows "k = 0 \<and> m str_end = 0"
proof -
  have stop: "m c = 0" if "strtol_loop m c j = Some y" for c j y
    by (rule strtol_loop.raw_induct [of "\<lambda>m c j y. m c = 0", OF _ that]) (auto split: if_splits)
  have stopped: "\<exists>y. strtol_loop m str_end 0 = Some y \<and> (k = y \<or> k = - y)"
    using assms by (auto simp: strtol_def Let_def split: option.splits if_splits)
  then have "m str_end = 0" using stop by auto
  moreover from this have "strtol_loop m str_end 0 = Some 0" by (subst strtol_loop.simps) simp
  ultimately show ?thesis using stopped by auto
qed

lemma strtol_returns_only_zero_witness:
  "\<exists>k e. strtol (mem_put (\<lambda>_. 0) 100 [32, 45]) 100 10 = Inr (k, e) \<and> k = 0
     \<and> mem_put (\<lambda>_. 0) 100 [32, 45] e = 0"
proof -
  let ?m = "mem_put (\<lambda>_. 0) 100 [32, 45]"
  have "skip_spaces ?m 100 = Some 101"
    by (subst skip_spaces.simps, subst skip_spaces.simps) (simp add: isspace_def)
  moreover have "strtol_loop ?m 102 0 = Some 0"
    by (subst strtol_loop.simps) simp
  ultimately obtain k e where "strtol ?m 100 10 = Inr (k, e)"
    by (simp add: strtol_def Let_def)
  with strtol_returns_only_zero [OF this] show ?thesis by blast
qed

end
