(* ===== verification/LinkedList.thy ===== *)
theory LinkedList
  imports Antonix_Base
begin

text \<open>
  Model of \<^verbatim>\<open>libc/linkedlist.c\<close>: doubly linked lists over a store that maps node addresses to
  nodes (0 is the null pointer), and their refinement of HOL lists. The address that \<^verbatim>\<open>kmalloc\<close>
  returns for a new node is an argument of the operation that allocates.
\<close>

section \<open>Data\<close>

record dnode =
  dn_prev :: u32
  dn_next :: u32
  dn_payload :: u32

record dlist =
  dl_count :: u32
  dl_root :: u32

type_synonym dstore = "u32 \<rightharpoonup> dnode"

definition derefR :: "dstore \<Rightarrow> u32 \<Rightarrow> dnode run" where
  "derefR ns p = (case ns p of None \<Rightarrow> Inl BadAccess | Some n \<Rightarrow> Inr n)"

definition dn_set :: "dstore \<Rightarrow> u32 \<Rightarrow> (dnode \<Rightarrow> dnode) \<Rightarrow> dstore run" where
  "dn_set ns p f = bindR (derefR ns p) (\<lambda>n. Inr (ns(p \<mapsto> f n)))"

text \<open>A neighbour is updated only if there is one.\<close>

definition dn_link :: "dstore \<Rightarrow> u32 \<Rightarrow> (dnode \<Rightarrow> dnode) \<Rightarrow> dstore run" where
  "dn_link ns p f = (if p \<noteq> 0 then dn_set ns p f else Inr ns)"

section \<open>Operations\<close>

definition dlist_create :: "bool \<Rightarrow> dlist option" where
  "dlist_create alloc_ok = (if alloc_ok then Some \<lparr> dl_count = 0, dl_root = 0 \<rparr> else None)"

definition dlist_entry_create :: "dstore \<Rightarrow> u32 \<Rightarrow> u32 \<Rightarrow> dstore" where
  "dlist_entry_create ns new payload =
     (if new = 0 then ns else ns(new \<mapsto> \<lparr> dn_prev = 0, dn_next = 0, dn_payload = payload \<rparr>))"

definition dlist_entry_destroy :: "dstore \<Rightarrow> u32 \<Rightarrow> (u32 \<times> dstore) run" where
  "dlist_entry_destroy ns p = bindR (derefR ns p) (\<lambda>n. Inr (dn_payload n, ns(p := None)))"

text \<open>The \<^verbatim>\<open>while (current_node->next)\<close> loop; on a cyclic list it does not return.\<close>

partial_function (option) dlist_last :: "dstore \<Rightarrow> u32 \<Rightarrow> u32 run option" where
  "dlist_last ns p =
     (case ns p of
        None \<Rightarrow> Some (Inl BadAccess)
      | Some n \<Rightarrow> if dn_next n \<noteq> 0 then dlist_last ns (dn_next n) else Some (Inr p))"

definition dlist_add :: "dstore \<Rightarrow> dlist \<Rightarrow> u32 \<Rightarrow> u32 \<Rightarrow> (u32 \<times> dstore \<times> dlist) run" where
  "dlist_add ns l new payload =
     (let ns = dlist_entry_create ns new payload in
      if new = 0 then Inr (0, ns, l)
      else if dl_root l = 0 then
        let l = l\<lparr>dl_root := new, dl_count := dl_count l + 1\<rparr> in Inr (dl_count l, ns, l)
      else
        case dlist_last ns (dl_root l) of
          None \<Rightarrow> Inl NoReturn
        | Some r \<Rightarrow>
            bindR r (\<lambda>cur.
            bindR (dn_set ns cur (\<lambda>n. n\<lparr>dn_next := new\<rparr>)) (\<lambda>ns.
            bindR (dn_set ns new (\<lambda>n. n\<lparr>dn_prev := cur\<rparr>)) (\<lambda>ns.
            let l = l\<lparr>dl_count := dl_count l + 1\<rparr> in Inr (dl_count l, ns, l)))))"

text \<open>The \<^verbatim>\<open>for\<close> loop that follows \<open>index\<close> links; 0 when the list ends before.\<close>

fun dlist_seek :: "dstore \<Rightarrow> u32 \<Rightarrow> nat \<Rightarrow> u32 run" where
  "dlist_seek ns p 0 = Inr p"
| "dlist_seek ns p (Suc i) =
     bindR (derefR ns p) (\<lambda>n. if dn_next n = 0 then Inr 0 else dlist_seek ns (dn_next n) i)"

definition dlist_get_at :: "dstore \<Rightarrow> dlist \<Rightarrow> u32 \<Rightarrow> u32 run" where
  "dlist_get_at ns l index =
     (if index \<ge> dl_count l \<or> dl_root l = 0 then Inr 0
      else bindR (dlist_seek ns (dl_root l) (unat index)) (\<lambda>p.
        if p = 0 then Inr 0 else bindR (derefR ns p) (\<lambda>n. Inr (dn_payload n))))"

definition dlist_remove_at :: "dstore \<Rightarrow> dlist \<Rightarrow> u32 \<Rightarrow> (u32 \<times> dstore \<times> dlist) run" where
  "dlist_remove_at ns l index =
     (if index \<ge> dl_count l \<or> dl_root l = 0 then Inr (0, ns, l)
      else bindR (dlist_seek ns (dl_root l) (unat index)) (\<lambda>p.
        if p = 0 then Inr (0, ns, l)
        else bindR (derefR ns p) (\<lambda>n.
          bindR (dn_link ns (dn_prev n) (\<lambda>q. q\<lparr>dn_next := dn_next n\<rparr>)) (\<lambda>ns.
          bindR (dn_link ns (dn_next n) (\<lambda>q. q\<lparr>dn_prev := dn_prev n\<rparr>)) (\<lambda>ns.
          let l = (if index = 0 then l\<lparr>dl_root := dn_next n\<rparr> else l) in
          bindR (dlist_entry_destroy ns p) (\<lambda>(payload, ns).
          Inr (payload, ns, l\<lparr>dl_count := dl_count l - 1\<rparr>)))))))"

text \<open>The payloads handed to the callback, in order, and the store afterwards. The \<^verbatim>\<open>for\<close> loop
  runs \<open>node_count\<close> times at most.\<close>

fun dlist_destroy_loop :: "dstore \<Rightarrow> u32 \<Rightarrow> nat \<Rightarrow> (u32 list \<times> dstore) run" where
  "dlist_destroy_loop ns p 0 = Inr ([], ns)"
| "dlist_destroy_loop ns p (Suc i) =
     (if p = 0 then Inr ([], ns)
      else bindR (derefR ns p) (\<lambda>n.
        bindR (dlist_entry_destroy ns p) (\<lambda>(payload, ns).
        bindR (dlist_destroy_loop ns (dn_next n) i) (\<lambda>(rest, ns).
        Inr (payload # rest, ns)))))"

definition dlist_destroy :: "dstore \<Rightarrow> dlist \<Rightarrow> (u32 list \<times> dstore) run" where
  "dlist_destroy ns l = dlist_destroy_loop ns (dl_root l) (unat (dl_count l))"

partial_function (option) dlist_find_loop :: "dstore \<Rightarrow> u32 \<Rightarrow> u32 \<Rightarrow> u32 \<Rightarrow> u32 run option" where
  "dlist_find_loop ns p payload index =
     (if p = 0 then Some (Inr (- 1))
      else case ns p of
        None \<Rightarrow> Some (Inl BadAccess)
      | Some n \<Rightarrow> if dn_payload n = payload then Some (Inr index)
                  else dlist_find_loop ns (dn_next n) payload (index + 1))"

definition dlist_find :: "dstore \<Rightarrow> dlist \<Rightarrow> u32 \<Rightarrow> u32 run" where
  "dlist_find ns l payload =
     (case dlist_find_loop ns (dl_root l) payload 0 of None \<Rightarrow> Inl NoReturn | Some r \<Rightarrow> r)"

definition dlist_get_count :: "dlist \<Rightarrow> u32" where
  "dlist_get_count l = dl_count l"

section \<open>What a list in the store represents\<close>

text \<open>\<open>addr_of xs i\<close> is the address of the \<open>i\<close>-th node, the null pointer past the end.\<close>

definition addr_of :: "(u32 \<times> u32) list \<Rightarrow> nat \<Rightarrow> u32" where
  "addr_of xs i = (if i < length xs then fst (xs ! i) else 0)"

definition node_of :: "(u32 \<times> u32) list \<Rightarrow> nat \<Rightarrow> dnode" where
  "node_of xs i = \<lparr> dn_prev = (if i = 0 then 0 else addr_of xs (i - 1)),
                     dn_next = addr_of xs (Suc i), dn_payload = snd (xs ! i) \<rparr>"

definition dl_repr :: "dstore \<Rightarrow> dlist \<Rightarrow> (u32 \<times> u32) list \<Rightarrow> bool" where
  "dl_repr ns l xs \<longleftrightarrow> distinct (map fst xs) \<and> 0 \<notin> set (map fst xs) \<and> length xs < 2 ^ 32 - 1
     \<and> dl_root l = addr_of xs 0 \<and> dl_count l = of_nat (length xs)
     \<and> (\<forall>i < length xs. ns (fst (xs ! i)) = Some (node_of xs i))"

lemma addr_of_0_iff: "0 \<notin> set (map fst xs) \<Longrightarrow> addr_of xs i = 0 \<longleftrightarrow> length xs \<le> i"
  by (metis addr_of_def image_eqI list.set_map not_le nth_mem)

lemma dl_reprD:
  assumes "dl_repr ns l xs"
  shows "dl_root l = addr_of xs 0" "addr_of xs i = 0 \<longleftrightarrow> length xs \<le> i"
    "unat (dl_count l) = length xs" "length xs < 2 ^ 32 - 1"
    "i < length xs \<Longrightarrow> ns (addr_of xs i) = Some (node_of xs i)"
    "i < length xs \<Longrightarrow> j < length xs \<Longrightarrow> addr_of xs i = addr_of xs j \<longleftrightarrow> i = j"
  using assms addr_of_0_iff [of xs i]
  by (auto simp: dl_repr_def addr_of_def unat_of_nat_small nth_eq_iff_index_eq distinct_map)
    (metis length_map nth_eq_iff_index_eq nth_map distinct_map)

lemma node_of_simps [simp]:
  "dn_next (node_of xs i) = addr_of xs (Suc i)" "dn_payload (node_of xs i) = snd (xs ! i)"
  "dn_prev (node_of xs i) = (if i = 0 then 0 else addr_of xs (i - 1))"
  by (simp_all add: node_of_def)

lemma dlist_seek_repr:
  "dl_repr ns l xs \<Longrightarrow> j + i < length xs \<Longrightarrow> dlist_seek ns (addr_of xs j) i = Inr (addr_of xs (j + i))"
proof (induction i arbitrary: j)
  case (Suc i)
  then show ?case
    using Suc.IH [of "Suc j"] by (simp add: derefR_def dl_reprD)
qed simp

lemma dlist_last_repr:
  assumes "\<And>i. i < length xs \<Longrightarrow> ns (addr_of xs i) = Some (node_of xs i)"
    and "0 \<notin> set (map fst xs)" and "j < length xs"
  shows "dlist_last ns (addr_of xs j) = Some (Inr (addr_of xs (length xs - 1)))"
  using assms(3)
proof (induction "length xs - 1 - j" arbitrary: j)
  case 0
  then have "j = length xs - 1" "length xs \<noteq> 0" by auto
  then show ?case
    by (subst dlist_last.simps) (simp add: assms(1) addr_of_0_iff [OF assms(2)])
next
  case (Suc k)
  then have "dlist_last ns (addr_of xs (Suc j)) = Some (Inr (addr_of xs (length xs - 1)))"
    by (intro Suc.hyps(1)) auto
  moreover have "Suc j < length xs" using Suc by auto
  ultimately show ?case
    by (subst dlist_last.simps) (simp add: assms(1) addr_of_0_iff [OF assms(2)])
qed

lemma dlist_get_at_repr:
  assumes "dl_repr ns l xs"
  shows "dlist_get_at ns l index = Inr (if unat index < length xs then snd (xs ! unat index) else 0)"
proof (cases "unat index < length xs")
  case True
  have "\<not> dl_count l \<le> index"
    using dl_reprD(3) [OF assms] True by (simp add: word_le_nat_alt)
  moreover have "dl_root l \<noteq> 0"
    using dl_reprD(1) [OF assms] dl_reprD(2) [OF assms, of 0] True by auto
  ultimately show ?thesis
    using True dlist_seek_repr [OF assms, of 0 "unat index"] dl_reprD [OF assms]
    by (simp add: dlist_get_at_def derefR_def)
next
  case False
  then show ?thesis
    using dl_reprD(3) [OF assms] by (simp add: dlist_get_at_def word_le_nat_alt)
qed

lemma dlist_find_loop_repr:
  assumes "dl_repr ns l xs" and "j \<le> length xs"
  shows "dlist_find_loop ns (addr_of xs j) v (of_nat j) = Some (Inr
     (case find (\<lambda>i. snd (xs ! i) = v) [j..<length xs] of None \<Rightarrow> - 1 | Some i \<Rightarrow> of_nat i))"
  using assms(2)
proof (induction "length xs - j" arbitrary: j)
  case 0
  then show ?case
    using dl_reprD(2) [OF assms(1), of j] by (subst dlist_find_loop.simps) simp
next
  case (Suc k)
  then have j: "j < length xs" by simp
  have "dlist_find_loop ns (addr_of xs (Suc j)) v (of_nat (Suc j)) = Some (Inr
     (case find (\<lambda>i. snd (xs ! i) = v) [Suc j..<length xs] of None \<Rightarrow> - 1 | Some i \<Rightarrow> of_nat i))"
    using Suc by (intro Suc.hyps(1)) auto
  then show ?case
    using j dl_reprD [OF assms(1)]
    by (subst dlist_find_loop.simps) (simp add: upt_conv_Cons add.commute)
qed

lemma dlist_destroy_loop_repr:
  assumes "dl_repr ns l xs" and "j \<le> length xs" and "\<And>i. j \<le> i \<Longrightarrow> i < length xs \<Longrightarrow> ns' (addr_of xs i) = ns (addr_of xs i)"
  shows "\<exists>ns2. dlist_destroy_loop ns' (addr_of xs j) (length xs - j) = Inr (map snd (drop j xs), ns2)"
  using assms(2,3)
proof (induction "length xs - j" arbitrary: j ns')
  case 0
  then show ?case by simp
next
  case (Suc k)
  then have j: "j < length xs" and len: "length xs - j = Suc (length xs - Suc j)" by simp_all
  have "\<exists>ns2. dlist_destroy_loop (ns'(addr_of xs j := None)) (addr_of xs (Suc j)) (length xs - Suc j)
      = Inr (map snd (drop (Suc j) xs), ns2)"
    using Suc.prems Suc.hyps(2) j by (intro Suc.hyps(1)) (auto simp: dl_reprD(6) [OF assms(1)])
  moreover have "ns' (addr_of xs j) = Some (node_of xs j)" "addr_of xs j \<noteq> 0"
    using j Suc.prems(2) [of j] dl_reprD [OF assms(1)] by auto
  moreover have "drop j xs = xs ! j # drop (Suc j) xs"
    using j by (simp add: Cons_nth_drop_Suc)
  ultimately show ?case
    by (auto simp: len derefR_def dlist_entry_destroy_def)
qed

lemma addr_of_append: "addr_of (xs @ [(a, v)]) i = (if i = length xs then a else addr_of xs i)"
  by (auto simp: addr_of_def nth_append)

lemma dlist_add_repr:
  assumes repr: "dl_repr ns l xs" and new: "new \<noteq> 0" "new \<notin> set (map fst xs)"
    and len: "Suc (length xs) < 2 ^ 32 - 1"
  shows "\<exists>ns' l'. dlist_add ns l new v = Inr (of_nat (Suc (length xs)), ns', l')
     \<and> dl_repr ns' l' (xs @ [(new, v)])"
proof (cases "xs = []")
  case True
  then show ?thesis
    using repr new
    by (auto simp: dlist_add_def dlist_entry_create_def dl_repr_def addr_of_def node_of_def)
next
  case False
  define k where "k = length xs - 1"
  have k: "k < length xs" "Suc k = length xs" using False by (simp_all add: k_def)
  let ?ns1 = "ns(new \<mapsto> \<lparr>dn_prev = 0, dn_next = 0, dn_payload = v\<rparr>)"
  let ?ns2 = "?ns1(addr_of xs k \<mapsto> (node_of xs k)\<lparr>dn_next := new\<rparr>)"
  let ?ns3 = "?ns2(new \<mapsto> \<lparr>dn_prev = addr_of xs k, dn_next = 0, dn_payload = v\<rparr>)"
  have fresh: "addr_of xs i \<noteq> new" if "i < length xs" for i
    using new(2) that by (auto simp: addr_of_def)
  have old: "?ns1 (addr_of xs i) = Some (node_of xs i)" if "i < length xs" for i
    using fresh [OF that] that dl_reprD(5) [OF repr] by simp
  have last: "dlist_last ?ns1 (addr_of xs 0) = Some (Inr (addr_of xs k))"
    using dlist_last_repr [of xs ?ns1 0, OF old] repr False by (simp add: dl_repr_def k_def)
  have root: "dl_root l = addr_of xs 0" "addr_of xs 0 \<noteq> 0"
    using dl_reprD(1) [OF repr] dl_reprD(2) [OF repr, of 0] False by auto
  have step: "dlist_add ns l new v = Inr (dl_count l + 1, ?ns3, l\<lparr>dl_count := dl_count l + 1\<rparr>)"
    using new(1) root last old [OF k(1)] fresh [OF k(1)]
    by (simp add: dlist_add_def dlist_entry_create_def dn_set_def derefR_def Let_def)
  have nodes: "?ns3 (fst ((xs @ [(new, v)]) ! i)) = Some (node_of (xs @ [(new, v)]) i)" if "i < Suc (length xs)" for i
  proof -
    consider "i = length xs" | "i = k" | "i < length xs" "i \<noteq> k" using \<open>i < Suc (length xs)\<close> by linarith
    then show ?thesis
    proof cases
      case 1
      moreover have "length xs - Suc 0 \<noteq> length xs" using False by (cases xs) auto
      ultimately show ?thesis using False k
        by (simp add: node_of_def addr_of_append) (auto simp: addr_of_def k_def)
    next
      case 2
      then show ?thesis using k fresh [of k]
        by (simp add: node_of_def addr_of_append nth_append) (auto simp: addr_of_def)
    next
      case 3
      then have "addr_of xs i \<noteq> addr_of xs k" using dl_reprD(6) [OF repr 3(1) k(1)] by simp
      then show ?thesis using 3 k fresh [of i] dl_reprD(5) [OF repr, of i]
        by (simp add: node_of_def addr_of_append nth_append) (auto simp: addr_of_def)
    qed
  qed
  have "dl_repr ?ns3 (l\<lparr>dl_count := dl_count l + 1\<rparr>) (xs @ [(new, v)])"
    using repr new len nodes root False unfolding dl_repr_def
    by (auto simp: addr_of_append simp del: fun_upd_apply)
  then show ?thesis
    using step repr by (simp add: dl_repr_def)
qed

lemma addr_of_remove:
  "k < length xs \<Longrightarrow> addr_of (remove_nth k xs) i = (if i < k then addr_of xs i else addr_of xs (Suc i))"
  by (auto simp: addr_of_def nth_remove_nth)

lemma dlist_remove_at_repr:
  assumes repr: "dl_repr ns l xs" and k: "unat index < length xs"
  shows "\<exists>ns' l'. dlist_remove_at ns l index = Inr (snd (xs ! unat index), ns', l')
     \<and> dl_repr ns' l' (remove_nth (unat index) xs)"
proof -
  define k where "k = unat index"
  have k: "k < length xs" using assms(2) by (simp add: k_def)
  note R = dl_reprD [OF repr]
  define q where "q = (if k = 0 then 0 else addr_of xs (k - 1))"
  define ns1 where "ns1 = (if k = 0 then ns
      else ns(addr_of xs (k - 1) \<mapsto> (node_of xs (k - 1))\<lparr>dn_next := addr_of xs (Suc k)\<rparr>))"
  define ns2 where "ns2 = (if Suc k < length xs
      then ns1(addr_of xs (Suc k) \<mapsto> (node_of xs (Suc k))\<lparr>dn_prev := q\<rparr>) else ns1)"
  define ns3 where "ns3 = ns2(addr_of xs k := None)"
  define l' where "l' = l\<lparr>dl_root := if k = 0 then addr_of xs 1 else dl_root l, dl_count := dl_count l - 1\<rparr>"
  have prev: "k \<noteq> 0 \<Longrightarrow> addr_of xs (k - 1) \<noteq> 0 \<and> k - 1 < length xs" using R(2) [of "k - 1"] k by auto
  have at1: "ns1 (addr_of xs i) = Some (if k \<noteq> 0 \<and> i = k - 1 then (node_of xs i)\<lparr>dn_next := addr_of xs (Suc k)\<rparr> else node_of xs i)"
    if "i < length xs" for i
    using that R(6) [of "k - 1" i] R(5) [of i] prev by (auto simp: ns1_def)
  have at2: "ns2 (addr_of xs i) = Some (if k \<noteq> 0 \<and> i = k - 1 then (node_of xs i)\<lparr>dn_next := addr_of xs (Suc k)\<rparr>
      else if i = Suc k then (node_of xs i)\<lparr>dn_prev := q\<rparr> else node_of xs i)" if "i < length xs" for i
    using that R(6) [of "Suc k" i] at1 [of i] by (auto simp: ns2_def)
  have at3: "i < length xs \<Longrightarrow> i \<noteq> k \<Longrightarrow> ns3 (addr_of xs i) = ns2 (addr_of xs i)" for i
    using R(6) [of i k] k by (simp add: ns3_def)
  have pn: "dn_prev (node_of xs k) = q" by (simp add: q_def)
  have s1: "dn_link ns q (\<lambda>x. x\<lparr>dn_next := addr_of xs (Suc k)\<rparr>) = Inr ns1"
    using prev R(5) [of "k - 1"] by (auto simp: dn_link_def dn_set_def derefR_def q_def ns1_def)
  have s2: "dn_link ns1 (addr_of xs (Suc k)) (\<lambda>x. x\<lparr>dn_prev := q\<rparr>) = Inr ns2"
    using R(2) [of "Suc k"] at1 [of "Suc k"] by (auto simp: dn_link_def dn_set_def derefR_def ns2_def)
  have s3: "dlist_entry_destroy ns2 (addr_of xs k) = Inr (snd (xs ! k), ns3)"
    using at2 [OF k] by (simp add: dlist_entry_destroy_def derefR_def ns3_def)
  have at0: "derefR ns (addr_of xs k) = Inr (node_of xs k)" "addr_of xs k \<noteq> 0"
    using R(5) [OF k] R(2) [of k] k by (simp_all add: derefR_def)
  have count: "\<not> dl_count l \<le> index" using R(3) k by (simp add: word_le_nat_alt k_def)
  have root: "dl_root l \<noteq> 0" using R(1) R(2) [of 0] k by auto
  have seek: "dlist_seek ns (dl_root l) (unat index) = Inr (addr_of xs k)"
    using dlist_seek_repr [OF repr, of 0 k] k R(1) by (simp add: k_def)
  have k0: "index = 0 \<longleftrightarrow> k = 0" by (auto simp: k_def unat_eq_zero)
  have step: "dlist_remove_at ns l index = Inr (snd (xs ! k), ns3, l')"
    using count root seek at0 s1 s2 s3 k0
    by (simp add: dlist_remove_at_def pn l'_def Let_def del: node_of_simps(3))
  note rem = addr_of_remove [OF k]
  have nodes: "ns3 (fst (remove_nth k xs ! i)) = Some (node_of (remove_nth k xs) i)" if "i < length xs - 1" for i
  proof (cases "i < k")
    case True
    then have "fst (remove_nth k xs ! i) = addr_of xs i" "i < length xs" "i \<noteq> k"
      using that k by (simp_all add: nth_remove_nth addr_of_def)
    then show ?thesis using at3 [of i] at2 [of i] True k
      by (auto simp: node_of_def rem nth_remove_nth)
  next
    case False
    have i: "Suc i < length xs" using that by simp
    with False have "fst (remove_nth k xs ! i) = addr_of xs (Suc i)" "Suc i \<noteq> k"
      using that k by (simp_all add: nth_remove_nth addr_of_def)
    moreover have "dn_prev (node_of (remove_nth k xs) i) = (if i = k then q else addr_of xs i)"
      using False by (cases "i = k"; cases "i - 1 < k") (auto simp: rem q_def)
    then have "node_of (remove_nth k xs) i = (if i = k then (node_of xs (Suc i))\<lparr>dn_prev := q\<rparr> else node_of xs (Suc i))"
      using False i k by (simp add: node_of_def rem nth_remove_nth)
    ultimately show ?thesis using at3 [of "Suc i"] at2 [of "Suc i"] False i by auto
  qed
  have set: "set (map fst (remove_nth k xs)) \<subseteq> set (map fst xs)"
    using set_remove_nth [of k xs] by auto
  have "distinct (map fst (remove_nth k xs))"
    using repr distinct_remove_nth [of "map fst xs" k] by (simp add: dl_repr_def remove_nth_def take_map drop_map)
  moreover have "dl_count l - 1 = of_nat (length xs - 1)"
    using repr k by (simp add: dl_repr_def of_nat_diff)
  moreover have "dl_root l' = addr_of (remove_nth k xs) 0"
    using R(1) by (simp add: l'_def rem)
  ultimately have "dl_repr ns3 l' (remove_nth k xs)"
    using repr nodes set k unfolding dl_repr_def by (auto simp: l'_def)
  then show ?thesis using step by (auto simp: k_def)
qed

section \<open>Programs over a list\<close>

datatype list_op = LAdd u32 u32 | LGet u32 | LRemove u32 | LFind u32

text \<open>The abstract list keeps node addresses beside the payloads; a null address is a failed
  allocation.\<close>

fun spec_op :: "list_op \<Rightarrow> (u32 \<times> u32) list \<Rightarrow> u32 \<times> (u32 \<times> u32) list" where
  "spec_op (LAdd a v) xs = (if a = 0 then (0, xs) else (of_nat (Suc (length xs)), xs @ [(a, v)]))"
| "spec_op (LGet i) xs = (if unat i < length xs then snd (xs ! unat i) else 0, xs)"
| "spec_op (LRemove i) xs =
     (if unat i < length xs then (snd (xs ! unat i), remove_nth (unat i) xs) else (0, xs))"
| "spec_op (LFind v) xs =
     (case find (\<lambda>i. snd (xs ! i) = v) [0..<length xs] of None \<Rightarrow> - 1 | Some i \<Rightarrow> of_nat i, xs)"

fun dl_op :: "list_op \<Rightarrow> dstore \<Rightarrow> dlist \<Rightarrow> (u32 \<times> dstore \<times> dlist) run" where
  "dl_op (LAdd a v) ns l = dlist_add ns l a v"
| "dl_op (LGet i) ns l = bindR (dlist_get_at ns l i) (\<lambda>r. Inr (r, ns, l))"
| "dl_op (LRemove i) ns l = dlist_remove_at ns l i"
| "dl_op (LFind v) ns l = bindR (dlist_find ns l v) (\<lambda>r. Inr (r, ns, l))"

fun op_fresh :: "list_op \<Rightarrow> (u32 \<times> u32) list \<Rightarrow> bool" where
  "op_fresh (LAdd a v) xs \<longleftrightarrow> a = 0 \<or> a \<notin> set (map fst xs) \<and> Suc (length xs) < 2 ^ 32 - 1"
| "op_fresh _ xs \<longleftrightarrow> True"

fun spec_ops :: "list_op list \<Rightarrow> (u32 \<times> u32) list \<Rightarrow> u32 list \<times> (u32 \<times> u32) list" where
  "spec_ops [] xs = ([], xs)"
| "spec_ops (p # ps) xs = (let (r, ys) = spec_op p xs; (rs, zs) = spec_ops ps ys in (r # rs, zs))"

fun ops_fresh :: "list_op list \<Rightarrow> (u32 \<times> u32) list \<Rightarrow> bool" where
  "ops_fresh [] xs \<longleftrightarrow> True"
| "ops_fresh (p # ps) xs \<longleftrightarrow> op_fresh p xs \<and> ops_fresh ps (snd (spec_op p xs))"

fun dl_ops :: "list_op list \<Rightarrow> dstore \<Rightarrow> dlist \<Rightarrow> (u32 list \<times> dstore \<times> dlist) run" where
  "dl_ops [] ns l = Inr ([], ns, l)"
| "dl_ops (p # ps) ns l =
     bindR (dl_op p ns l) (\<lambda>(r, ns, l). bindR (dl_ops ps ns l) (\<lambda>(rs, ns, l). Inr (r # rs, ns, l)))"

lemma dl_op_sim:
  assumes "dl_repr ns l xs" and "op_fresh p xs"
  shows "\<exists>ns' l'. dl_op p ns l = Inr (fst (spec_op p xs), ns', l') \<and> dl_repr ns' l' (snd (spec_op p xs))"
proof (cases p)
  case (LAdd a v)
  then show ?thesis
    using assms dlist_add_repr [OF assms(1), of a v]
    by (cases "a = 0") (simp_all add: dlist_add_def dlist_entry_create_def Let_def)
next
  case (LGet i)
  then show ?thesis using assms by (simp add: dlist_get_at_repr)
next
  case (LRemove i)
  show ?thesis
  proof (cases "unat i < length xs")
    case True
    then show ?thesis using LRemove dlist_remove_at_repr [OF assms(1) True] by simp
  next
    case False
    then show ?thesis using LRemove assms(1) dl_reprD(3) [OF assms(1)]
      by (simp add: dlist_remove_at_def word_le_nat_alt)
  qed
next
  case (LFind v)
  then show ?thesis using assms(1) dlist_find_loop_repr [OF assms(1), of 0 v] dl_reprD(1) [OF assms(1)]
    by (simp add: dlist_find_def)
qed

lemma dl_ops_sim:
  "dl_repr ns l xs \<Longrightarrow> ops_fresh ps xs \<Longrightarrow>
   \<exists>ns' l'. dl_ops ps ns l = Inr (fst (spec_ops ps xs), ns', l') \<and> dl_repr ns' l' (snd (spec_ops ps xs))"
proof (induction ps arbitrary: ns l xs)
  case (Cons p ps)
  obtain r ys where sp: "spec_op p xs = (r, ys)" by fastforce
  obtain ns1 l1 where s1: "dl_op p ns l = Inr (r, ns1, l1)" "dl_repr ns1 l1 ys"
    using dl_op_sim [of ns l xs p] Cons.prems sp by auto
  obtain ns2 l2 where "dl_ops ps ns1 l1 = Inr (fst (spec_ops ps ys), ns2, l2)"
    "dl_repr ns2 l2 (snd (spec_ops ps ys))"
    using Cons.IH [OF s1(2)] Cons.prems sp by auto
  with s1 sp show ?case by (auto simp: split_beta)
qed simp

section \<open>Properties\<close>

text \<open>
  C38. The linked list refines a plain list: for every program of additions, look-ups, removals by
  index and searches, whose allocations give fresh nodes or fail, each call returns what it would
  on the list, no call dereferences a bad pointer or fails to return, and the links, the root and
  the count are consistent afterwards.\<close>

theorem dlist_refines_list:
  assumes "dl_repr ns l xs" and "ops_fresh ps xs"
  shows "\<exists>ns' l'. dl_ops ps ns l = Inr (fst (spec_ops ps xs), ns', l') \<and> dl_repr ns' l' (snd (spec_ops ps xs))"
  using dl_ops_sim [OF assms] .

lemma dlist_refines_list_witness:
  "\<exists>ns' l'. dl_ops [LAdd 16 7, LAdd 32 8, LAdd 48 9, LRemove 1, LGet 1, LFind 8, LFind 9]
      Map.empty \<lparr> dl_count = 0, dl_root = 0 \<rparr> = Inr ([1, 2, 3, 8, 9, - 1, 1], ns', l')
    \<and> dl_repr ns' l' [(16, 7), (48, 9)]"
proof -
  let ?ps = "[LAdd 16 7, LAdd 32 8, LAdd 48 9, LRemove 1, LGet 1, LFind 8, LFind 9]"
  have "dl_repr Map.empty \<lparr> dl_count = 0, dl_root = 0 \<rparr> []"
    by (simp add: dl_repr_def addr_of_def)
  moreover have run: "spec_ops ?ps [] = ([1, 2, 3, 8, 9, - 1, 1], [(16, 7), (48, 9)])"
    by (simp add: upt_rec remove_nth_def)
  moreover have "ops_fresh ?ps []"
    by simp
  ultimately show ?thesis
    using dlist_refines_list [of Map.empty "\<lparr> dl_count = 0, dl_root = 0 \<rparr>" "[]" ?ps] by simp
qed

text \<open>Destroying a list hands every payload to the callback exactly once, in list order.\<close>

theorem dlist_destroy_visits_all:
  assumes "dl_repr ns l xs"
  shows "\<exists>ns'. dlist_destroy ns l = Inr (map snd xs, ns')"
  using dlist_destroy_loop_repr [OF assms, of 0 ns] dl_reprD [OF assms]
  by (simp add: dlist_destroy_def)

lemma dlist_destroy_visits_all_witness:
  "\<exists>ns'. dlist_destroy [16 \<mapsto> \<lparr> dn_prev = 0, dn_next = 32, dn_payload = 5 \<rparr>,
                       32 \<mapsto> \<lparr> dn_prev = 16, dn_next = 0, dn_payload = 6 \<rparr>]
      \<lparr> dl_count = 2, dl_root = 16 \<rparr> = Inr ([5, 6], ns')"
  using dlist_destroy_visits_all [of "[16 \<mapsto> \<lparr> dn_prev = 0, dn_next = 32, dn_payload = 5 \<rparr>,
                       32 \<mapsto> \<lparr> dn_prev = 16, dn_next = 0, dn_payload = 6 \<rparr>]"
      "\<lparr> dl_count = 2, dl_root = 16 \<rparr>" "[(16, 5), (32, 6)]"]
  by (simp add: dl_repr_def addr_of_def node_of_def less_Suc_eq)

end
