(* ===== verification/Alloc_Spec.thy ===== *)
theory Alloc_Spec
  imports Antonix_Base
begin

text \<open>
  The contract of the kernel's block allocators: an allocator hands out sets of blocks through
  handles, and takes them back. The clients of the contract are runs of allocations and releases,
  in any order, and for an allocator that may fail half-way also of the calls that fail.
\<close>

section \<open>Runs\<close>

text \<open>\<open>alloc_reach alloc release s0 s hs\<close>: from \<open>s0\<close> some run of allocations and releases of handles
  it holds leads to \<open>s\<close>, and \<open>hs\<close> are the handles that it then holds.\<close>

inductive alloc_reach ::
  "('s \<Rightarrow> 'r \<Rightarrow> ('h \<times> 's) option) \<Rightarrow> ('s \<Rightarrow> 'h \<Rightarrow> 's option) \<Rightarrow> 's \<Rightarrow> 's \<Rightarrow> 'h list \<Rightarrow> bool"
  for alloc release s0 where
  start: "alloc_reach alloc release s0 s0 []"
| allocate: "alloc_reach alloc release s0 s hs \<Longrightarrow> alloc s r = Some (h, s') \<Longrightarrow>
     alloc_reach alloc release s0 s' (h # hs)"
| dispose: "alloc_reach alloc release s0 s hs \<Longrightarrow> i < length hs \<Longrightarrow> release s (hs ! i) = Some s' \<Longrightarrow>
     alloc_reach alloc release s0 s' (remove_nth i hs)"

inductive_cases alloc_reach_NilE: "alloc_reach alloc release s0 s []"

text \<open>
  \<open>alloc_run alloc botch release s0 s hs lost\<close>: the same runs with the calls that fail among their steps.
  \<open>botch s r\<close> is the state that a failed allocation leaves, \<open>used\<close> what is in use in a state, and \<open>lost\<close>
  collects what the failed calls of the run have put in use without handing it out.\<close>

inductive alloc_run ::
  "('s \<Rightarrow> 'r \<Rightarrow> ('h \<times> 's) option) \<Rightarrow> ('s \<Rightarrow> 'r \<Rightarrow> 's option) \<Rightarrow> ('s \<Rightarrow> 'h \<Rightarrow> 's option)
     \<Rightarrow> ('s \<Rightarrow> 'b set) \<Rightarrow> 's \<Rightarrow> 's \<Rightarrow> 'h list \<Rightarrow> 'b set \<Rightarrow> bool"
  for alloc botch release used s0 where
  start: "alloc_run alloc botch release used s0 s0 [] {}"
| allocate: "alloc_run alloc botch release used s0 s hs lost \<Longrightarrow> alloc s r = Some (h, s') \<Longrightarrow>
     alloc_run alloc botch release used s0 s' (h # hs) lost"
| fail: "alloc_run alloc botch release used s0 s hs lost \<Longrightarrow> botch s r = Some s' \<Longrightarrow>
     alloc_run alloc botch release used s0 s' hs (lost \<union> (used s' - used s))"
| dispose: "alloc_run alloc botch release used s0 s hs lost \<Longrightarrow> i < length hs \<Longrightarrow> release s (hs ! i) = Some s' \<Longrightarrow>
     alloc_run alloc botch release used s0 s' (remove_nth i hs) lost"

text \<open>Every two of the sets have no block in common.\<close>

fun disjoint_sets :: "'b set list \<Rightarrow> bool" where
  "disjoint_sets [] \<longleftrightarrow> True"
| "disjoint_sets (B # Bs) \<longleftrightarrow> (\<forall>C \<in> set Bs. B \<inter> C = {}) \<and> disjoint_sets Bs"

lemma disjoint_sets_nth:
  "disjoint_sets Bs \<Longrightarrow> i < length Bs \<Longrightarrow> j < length Bs \<Longrightarrow> i \<noteq> j \<Longrightarrow> Bs ! i \<inter> Bs ! j = {}"
proof (induction Bs arbitrary: i j)
  case (Cons B Bs)
  have hd: "B \<inter> Bs ! m = {}" if "m < length Bs" for m
    using Cons.prems(1) that by simp
  show ?case
  proof (cases i)
    case 0
    then show ?thesis using Cons.prems hd by (cases j) auto
  next
    case (Suc m)
    then show ?thesis using Cons.prems Cons.IH [of m] hd by (cases j) (auto simp: Int_commute)
  qed
qed simp

lemma disjoint_sets_remove_nth: "disjoint_sets Bs \<Longrightarrow> disjoint_sets (remove_nth i Bs)"
proof (induction Bs arbitrary: i)
  case (Cons B Bs)
  then show ?case
    using set_remove_nth [of "i - 1" Bs] by (cases i) (auto simp: remove_nth_def [of 0])
qed (simp add: remove_nth_def)

lemma map_remove_nth: "map f (remove_nth i xs) = remove_nth i (map f xs)"
  by (simp add: remove_nth_def take_map drop_map)

section \<open>The contract\<close>

locale block_allocator =
  fixes alloc :: "'s \<Rightarrow> 'r \<Rightarrow> ('h \<times> 's) option"
    and release :: "'s \<Rightarrow> 'h \<Rightarrow> 's option"
    and ok :: "'s \<Rightarrow> bool"
    and in_use :: "'s \<Rightarrow> 'b set"
    and valid :: "'s \<Rightarrow> 'h \<Rightarrow> bool"
    and blocks :: "'s \<Rightarrow> 'h \<Rightarrow> 'b set"
  assumes alloc_law: "ok s \<Longrightarrow> alloc s r = Some (h, s') \<Longrightarrow>
      ok s' \<and> valid s' h \<and> blocks s' h \<inter> in_use s = {} \<and> in_use s' = in_use s \<union> blocks s' h"
    and alloc_keeps: "ok s \<Longrightarrow> alloc s r = Some (h, s') \<Longrightarrow> valid s k \<Longrightarrow> valid s' k \<and> blocks s' k = blocks s k"
    and release_law: "ok s \<Longrightarrow> valid s h \<Longrightarrow>
      \<exists>s'. release s h = Some s' \<and> ok s' \<and> in_use s' = in_use s - blocks s h"
    and release_keeps: "ok s \<Longrightarrow> valid s h \<Longrightarrow> release s h = Some s' \<Longrightarrow> valid s k \<Longrightarrow>
      blocks s k \<inter> blocks s h = {} \<Longrightarrow> valid s' k \<and> blocks s' k = blocks s k"
    and valid_in_use: "ok s \<Longrightarrow> valid s h \<Longrightarrow> blocks s h \<subseteq> in_use s"
begin

definition held :: "'b set \<Rightarrow> 's \<Rightarrow> 'h list \<Rightarrow> bool" where
  "held B s hs \<longleftrightarrow> ok s \<and> (\<forall>h \<in> set hs. valid s h) \<and> disjoint_sets (map (blocks s) hs)
     \<and> (\<forall>h \<in> set hs. blocks s h \<inter> B = {}) \<and> in_use s = B \<union> \<Union> (blocks s ` set hs)"

lemma heldD:
  assumes "held B s hs"
  shows held_ok: "ok s" and held_valid: "x \<in> set hs \<Longrightarrow> valid s x"
    and held_disjoint_sets: "disjoint_sets (map (blocks s) hs)"
    and held_new: "x \<in> set hs \<Longrightarrow> blocks s x \<inter> B = {}"
    and held_in_use: "in_use s = B \<union> \<Union> (blocks s ` set hs)"
  using assms by (simp_all add: held_def)

lemma held_alloc:
  assumes held: "held B s hs" and alloc: "alloc s r = Some (h, s')"
  shows "held B s' (h # hs)"
proof -
  note a = alloc_law [OF held_ok [OF held] alloc]
  have k: "valid s' x \<and> blocks s' x = blocks s x" if "x \<in> set hs" for x
    by (rule alloc_keeps [OF held_ok [OF held] alloc held_valid [OF held that]])
  have map: "map (blocks s') hs = map (blocks s) hs" using k by simp
  have disj: "blocks s' h \<inter> (B \<union> \<Union> (blocks s ` set hs)) = {}"
    using a by (simp only: held_in_use [OF held])
  then have "\<forall>C \<in> set (map (blocks s) hs). blocks s' h \<inter> C = {}" by auto
  then have "disjoint_sets (map (blocks s') (h # hs))"
    by (simp only: list.map map disjoint_sets.simps held_disjoint_sets [OF held] simp_thms)
  moreover have "in_use s' = B \<union> \<Union> (blocks s' ` set (h # hs))"
    using a k held_in_use [OF held] by simp blast
  moreover have "\<forall>x \<in> set (h # hs). valid s' x \<and> blocks s' x \<inter> B = {}"
    using a k held_new [OF held] disj by simp blast
  ultimately show ?thesis
    using a unfolding held_def by blast
qed

lemma held_others:
  assumes held: "held B s hs" and i: "i < length hs" and x: "x \<in> set (remove_nth i hs)"
  shows "x \<in> set hs \<and> blocks s x \<inter> blocks s (hs ! i) = {}"
proof -
  obtain j where j: "j < length hs - 1" "x = remove_nth i hs ! j"
    using x i by (metis in_set_conv_nth length_remove_nth)
  have "\<exists>m < length hs. m \<noteq> i \<and> x = hs ! m"
  proof (cases "j < i")
    case True
    with j i show ?thesis by (intro exI [of _ j]) (simp add: nth_remove_nth)
  next
    case False
    with j i show ?thesis by (intro exI [of _ "Suc j"]) (simp add: nth_remove_nth)
  qed
  then obtain m where m: "m < length hs" "m \<noteq> i" "x = hs ! m" by blast
  then show ?thesis
    using disjoint_sets_nth [OF held_disjoint_sets [OF held], of m i] i by simp
qed

lemma held_release:
  assumes held: "held B s hs" and i: "i < length hs" and rel: "release s (hs ! i) = Some s'"
  shows "held B s' (remove_nth i hs)"
proof -
  let ?rest = "remove_nth i hs"
  note ok = held_ok [OF held]
  have vi: "valid s (hs ! i)" using held_valid [OF held] i by simp
  have r: "ok s'" "in_use s' = in_use s - blocks s (hs ! i)"
    using release_law [OF ok vi] rel by auto
  have k: "valid s' x \<and> blocks s' x = blocks s x" if "x \<in> set ?rest" for x
    using release_keeps [OF ok vi rel] held_valid [OF held] held_others [OF held i that] by blast
  then have map: "map (blocks s') ?rest = remove_nth i (map (blocks s) hs)"
    by (simp add: map_remove_nth [symmetric])
  have all: "\<Union> (blocks s ` set hs) = blocks s (hs ! i) \<union> \<Union> (blocks s ` set ?rest)"
    using in_set_remove_nth [OF i] set_remove_nth [of i hs] nth_mem [OF i] by blast
  have "blocks s (hs ! i) \<inter> B = {}"
    using held_new [OF held] i by simp
  moreover have "\<Union> (blocks s ` set ?rest) \<inter> blocks s (hs ! i) = {}"
    using held_others [OF held i] by blast
  ultimately have "in_use s - blocks s (hs ! i) = B \<union> \<Union> (blocks s ` set ?rest)"
    unfolding held_in_use [OF held] all by blast
  then have "in_use s' = B \<union> \<Union> (blocks s' ` set ?rest)"
    using r(2) k by simp
  moreover have "disjoint_sets (map (blocks s') ?rest)"
    unfolding map by (rule disjoint_sets_remove_nth [OF held_disjoint_sets [OF held]])
  moreover have "\<forall>x \<in> set ?rest. valid s' x \<and> blocks s' x \<inter> B = {}"
    using k held_new [OF held] set_remove_nth [of i hs] by auto
  ultimately show ?thesis
    using r(1) unfolding held_def by blast
qed

text \<open>What a client may rely on in every run.\<close>

lemma reach_held: "alloc_reach alloc release s0 s hs \<Longrightarrow> ok s0 \<Longrightarrow> held (in_use s0) s hs"
proof (induction rule: alloc_reach.induct)
  case start
  then show ?case by (simp add: held_def)
next
  case (allocate s hs r h s')
  then show ?case by (blast intro: held_alloc)
next
  case (dispose s hs i s')
  then show ?case by (blast intro: held_release)
qed

lemma held_releasable: "held B s hs \<Longrightarrow> h \<in> set hs \<Longrightarrow> \<exists>s'. release s h = Some s'"
  using release_law [OF held_ok held_valid] by blast

lemma held_disjoint:
  "held B s hs \<Longrightarrow> i < length hs \<Longrightarrow> j < length hs \<Longrightarrow> i \<noteq> j \<Longrightarrow> blocks s (hs ! i) \<inter> blocks s (hs ! j) = {}"
  using disjoint_sets_nth [OF held_disjoint_sets, of B s hs i j] by simp

lemma run_exact:
  assumes "alloc_reach alloc release s0 s hs" and "ok s0"
  shows "(\<forall>i j. i < length hs \<longrightarrow> j < length hs \<longrightarrow> i \<noteq> j \<longrightarrow> blocks s (hs ! i) \<inter> blocks s (hs ! j) = {})
    \<and> in_use s = in_use s0 \<union> (\<Union>h \<in> set hs. blocks s h)
    \<and> (\<forall>h \<in> set hs. blocks s h \<inter> in_use s0 = {} \<and> (\<exists>s'. release s h = Some s'))"
proof (intro conjI allI impI ballI)
  note held = reach_held [OF assms]
  show "blocks s (hs ! i) \<inter> blocks s (hs ! j) = {}" if "i < length hs" "j < length hs" "i \<noteq> j" for i j
    by (rule held_disjoint [OF held that])
  show "in_use s = in_use s0 \<union> (\<Union>h \<in> set hs. blocks s h)"
    by (rule held_in_use [OF held])
  show "blocks s h \<inter> in_use s0 = {}" "\<exists>s'. release s h = Some s'" if "h \<in> set hs" for h
    by (rule held_new [OF held that], rule held_releasable [OF held that])
qed

end

text \<open>An allocator whose failed calls may leave blocks in use, and take none back.\<close>

locale lossy_allocator = block_allocator alloc release ok in_use valid blocks
  for alloc :: "'s \<Rightarrow> 'r \<Rightarrow> ('h \<times> 's) option"
    and release :: "'s \<Rightarrow> 'h \<Rightarrow> 's option"
    and ok :: "'s \<Rightarrow> bool"
    and in_use :: "'s \<Rightarrow> 'b set"
    and valid :: "'s \<Rightarrow> 'h \<Rightarrow> bool"
    and blocks :: "'s \<Rightarrow> 'h \<Rightarrow> 'b set" +
  fixes botch :: "'s \<Rightarrow> 'r \<Rightarrow> 's option"
  assumes botch_law: "ok s \<Longrightarrow> botch s r = Some s' \<Longrightarrow> ok s' \<and> in_use s \<subseteq> in_use s'"
    and botch_keeps: "ok s \<Longrightarrow> botch s r = Some s' \<Longrightarrow> valid s k \<Longrightarrow> valid s' k \<and> blocks s' k = blocks s k"
begin

lemma held_botch:
  assumes held: "held B s hs" and botch: "botch s r = Some s'"
  shows "held (B \<union> (in_use s' - in_use s)) s' hs"
proof -
  note b = botch_law [OF held_ok [OF held] botch]
  have k: "valid s' x \<and> blocks s' x = blocks s x" if "x \<in> set hs" for x
    by (rule botch_keeps [OF held_ok [OF held] botch held_valid [OF held that]])
  then have map: "map (blocks s') hs = map (blocks s) hs" by simp
  have sub: "blocks s x \<subseteq> in_use s" if "x \<in> set hs" for x
    by (rule valid_in_use [OF held_ok [OF held] held_valid [OF held that]])
  have "disjoint_sets (map (blocks s') hs)"
    unfolding map by (rule held_disjoint_sets [OF held])
  moreover have "\<forall>x \<in> set hs. valid s' x \<and> blocks s' x \<inter> (B \<union> (in_use s' - in_use s)) = {}"
    using k held_new [OF held] sub by fastforce
  moreover have "in_use s' = (B \<union> (in_use s' - in_use s)) \<union> \<Union> (blocks s' ` set hs)"
    using k b held_in_use [OF held] by auto
  ultimately show ?thesis
    using b unfolding held_def by blast
qed

lemma run_held:
  "alloc_run alloc botch release in_use s0 s hs lost \<Longrightarrow> ok s0 \<Longrightarrow>
     held (in_use s0 \<union> lost) s hs \<and> lost \<inter> in_use s0 = {}"
proof (induction rule: alloc_run.induct)
  case start
  then show ?case by (simp add: held_def)
next
  case (allocate s hs lost r h s')
  then show ?case by (blast intro: held_alloc)
next
  case (fail s hs lost r s')
  then have "held (in_use s0 \<union> lost \<union> (in_use s' - in_use s)) s' hs" "in_use s0 \<subseteq> in_use s"
    using held_botch held_in_use by blast+
  with fail show ?case by (simp only: Un_assoc) blast
next
  case (dispose s hs lost i s')
  then show ?case by (blast intro: held_release)
qed

lemma lossy_run_exact:
  assumes "alloc_run alloc botch release in_use s0 s hs lost" and "ok s0"
  shows "(\<forall>i j. i < length hs \<longrightarrow> j < length hs \<longrightarrow> i \<noteq> j \<longrightarrow> blocks s (hs ! i) \<inter> blocks s (hs ! j) = {})
    \<and> in_use s = in_use s0 \<union> lost \<union> (\<Union>h \<in> set hs. blocks s h) \<and> lost \<inter> in_use s0 = {}
    \<and> (\<forall>h \<in> set hs. blocks s h \<inter> (in_use s0 \<union> lost) = {} \<and> (\<exists>s'. release s h = Some s'))"
proof (intro conjI allI impI ballI)
  have run: "held (in_use s0 \<union> lost) s hs \<and> lost \<inter> in_use s0 = {}" by (rule run_held [OF assms])
  then have held: "held (in_use s0 \<union> lost) s hs" by blast
  show "blocks s (hs ! i) \<inter> blocks s (hs ! j) = {}" if "i < length hs" "j < length hs" "i \<noteq> j" for i j
    by (rule held_disjoint [OF held that])
  show "in_use s = in_use s0 \<union> lost \<union> (\<Union>h \<in> set hs. blocks s h)"
    by (rule held_in_use [OF held])
  show "lost \<inter> in_use s0 = {}" using run by blast
  show "blocks s h \<inter> (in_use s0 \<union> lost) = {}" "\<exists>s'. release s h = Some s'" if "h \<in> set hs" for h
    by (rule held_new [OF held that], rule held_releasable [OF held that])
qed

end

end
