(* ===== verification/PhysMem.thy ===== *)
theory PhysMem
  imports Alloc_Spec
begin

unbundle bit_operations_syntax

text \<open>
  Model of \<^verbatim>\<open>mm_phys.c\<close>: the physical memory manager, a bitmap of 131072 words with one bit for
  each block of 4096 bytes. The bitmap is a function from word index to word, with every access
  checked against its length.
\<close>

section \<open>Data\<close>

type_synonym bitmap = "nat \<Rightarrow> u32"

definition MEMORY_BITMAP_LENGTH :: nat where
  "MEMORY_BITMAP_LENGTH = 128 * 1024"

definition KPMM_BLOCK_SIZE :: u32 where
  "KPMM_BLOCK_SIZE = 4096"

section \<open>Operations\<close>

text \<open>
  The marking loop. \<open>n\<close> is the 32-bit pattern of \<^verbatim>\<open>num_blocks\<close> when the loop tests it, which
  reaches 0 after that many decrements; a whole free word is taken at once.
\<close>

function mark_loop :: "bitmap \<Rightarrow> u32 \<Rightarrow> nat \<Rightarrow> (hresult \<times> bitmap) run" where
  "mark_loop bm block_id n =
     (if n = 0 then Inr (S_OK, bm)
      else
        let i = unat (block_id div 32) in
        if MEMORY_BITMAP_LENGTH \<le> i then Inl BadAccess
        else if sint (of_nat n :: u32) \<ge> 32 \<and> block_id mod 32 = 0 then
          (if bm i \<noteq> 0 then Inr (E_FAIL, bm)
           else mark_loop (bm(i := 0xFFFFFFFF)) (block_id + 32) (n - 32))
        else if bm i AND push_bit (unat (block_id mod 32)) 1 \<noteq> 0 then Inr (E_FAIL, bm)
        else mark_loop (bm(i := bm i OR push_bit (unat (block_id mod 32)) 1)) (block_id + 1) (n - 1))"
  by auto
termination
  by (relation "measure (\<lambda>(bm, b, n). n)") auto

declare mark_loop.simps [simp del]

definition kpmm_mark_blocks :: "bitmap \<Rightarrow> u32 \<Rightarrow> u32 \<Rightarrow> (hresult \<times> bitmap) run" where
  "kpmm_mark_blocks bm addr num_blocks = mark_loop bm (addr div KPMM_BLOCK_SIZE) (unat num_blocks)"

text \<open>The debug check negates the shifted word before it takes its lowest bit.\<close>

fun unmark_loop :: "bitmap \<Rightarrow> u32 \<Rightarrow> nat \<Rightarrow> (hresult \<times> bitmap) run" where
  "unmark_loop bm block_id 0 = Inr (S_OK, bm)"
| "unmark_loop bm block_id (Suc n) =
     (let i = unat (block_id div 32); k = unat (block_id mod 32) in
      if MEMORY_BITMAP_LENGTH \<le> i then Inl BadAccess
      else if (if drop_bit k (bm i) = 0 then 1 else 0) AND (1 :: u32) \<noteq> 0 then Inr (E_FAIL, bm)
      else unmark_loop (bm(i := bm i AND NOT (push_bit k 1))) (block_id + 1) n)"

definition kpmm_unmark_blocks :: "bitmap \<Rightarrow> u32 \<Rightarrow> u32 \<Rightarrow> (hresult \<times> bitmap) run" where
  "kpmm_unmark_blocks bm addr num_blocks = unmark_loop bm (addr div KPMM_BLOCK_SIZE) (unat num_blocks)"

text \<open>The search loop returns the start word, or nothing. The processor takes the shift count
  \<^verbatim>\<open>icnt\<close> modulo 32.\<close>

function find_loop :: "bitmap \<Rightarrow> int \<Rightarrow> nat \<Rightarrow> int \<Rightarrow> nat \<Rightarrow> nat option" where
  "find_loop bm num_blocks i icnt i_start =
     (if MEMORY_BITMAP_LENGTH \<le> i then None
      else if icnt \<ge> 32 then
        (if bm i \<noteq> 0 then find_loop bm num_blocks (Suc i) num_blocks (Suc i)
         else find_loop bm num_blocks (Suc i) (icnt - 32) i_start)
      else if bm i AND (push_bit (nat (icnt mod 32)) 1 - 1) \<noteq> 0 then
        find_loop bm num_blocks (Suc i) num_blocks (Suc i)
      else Some i_start)"
  by auto
termination
  by (relation "measure (\<lambda>(bm, n, i, c, s). MEMORY_BITMAP_LENGTH - i)") auto

declare find_loop.simps [simp del]

definition kpmm_find_free_region :: "bitmap \<Rightarrow> u32 \<Rightarrow> hresult \<times> u32 option" where
  "kpmm_find_free_region bm num_blocks =
     (case find_loop bm (sint num_blocks) 0 (sint num_blocks) 0 of
        None \<Rightarrow> (E_FAIL, None)
      | Some i_start \<Rightarrow> (S_OK, Some (of_nat i_start * 32 * KPMM_BLOCK_SIZE)))"

definition kpmm_alloc :: "bitmap \<Rightarrow> u32 \<Rightarrow> (hresult \<times> u32 option \<times> bitmap) run" where
  "kpmm_alloc bm num_blocks =
     (case kpmm_find_free_region bm num_blocks of
        (hr, None) \<Rightarrow> Inr (hr, None, bm)
      | (hr, Some area) \<Rightarrow>
          bindR (kpmm_mark_blocks bm area num_blocks) (\<lambda>(hr, bm). Inr (hr, Some area, bm)))"

definition kpmm_init :: "(hresult \<times> bitmap) run" where
  "kpmm_init =
     bindR (kpmm_mark_blocks (\<lambda>_. 0) 0x000000 (0x100000 div KPMM_BLOCK_SIZE)) (\<lambda>(_, bm).
     bindR (kpmm_mark_blocks bm 0x00100000 (4 * 1024 * 1024 div KPMM_BLOCK_SIZE)) (\<lambda>(_, bm).
     Inr (S_OK, bm)))"

definition kpmm_test_region :: "u32 \<Rightarrow> u32 \<Rightarrow> hresult" where
  "kpmm_test_region addr num_blocks = E_NOTIMPL"

definition kpmm_self_test :: hresult where
  "kpmm_self_test = E_NOTIMPL"

section \<open>The set of blocks in use\<close>

definition used :: "bitmap \<Rightarrow> nat \<Rightarrow> bool" where
  "used bm b \<longleftrightarrow> bit (bm (b div 32)) (b mod 32)"

definition range_of :: "u32 \<Rightarrow> nat \<Rightarrow> nat set" where
  "range_of block_id n = {unat block_id ..< unat block_id + n}"

lemma used_word: "bm i = 0 \<longleftrightarrow> (\<forall>k < 32. \<not> used bm (32 * i + k))"
proof -
  have "bm i = 0 \<longleftrightarrow> (\<forall>k < 32. \<not> bit (bm i) k)"
    by (auto simp: bit_eq_iff)
  then show ?thesis by (simp add: used_def)
qed

lemma block_parts:
  "unat (b div 32 :: u32) = unat b div 32" "unat (b mod 32 :: u32) = unat b mod 32"
  by (simp_all add: unat_div unat_mod)

lemma test_block:
  "bm (unat (b div 32)) AND push_bit (unat (b mod 32 :: u32)) 1 \<noteq> 0 \<longleftrightarrow> used bm (unat b)"
proof -
  have "unat b mod 32 < 32" by simp
  then have "(\<exists>n < 32. bit (bm (unat b div 32)) n \<and> n = unat b mod 32) \<longleftrightarrow> used bm (unat b)"
    by (auto simp: used_def)
  then show ?thesis
    by (auto simp: block_parts bit_eq_iff bit_simps used_def)
qed

lemma used_set_block:
  "used (bm(unat (b div 32) := bm (unat (b div 32)) OR push_bit (unat (b mod 32 :: u32)) 1)) x
     \<longleftrightarrow> used bm x \<or> x = unat b"
proof -
  have "x = unat b \<longleftrightarrow> x div 32 = unat b div 32 \<and> x mod 32 = unat b mod 32"
    by (metis div_mult_mod_eq)
  then show ?thesis
    by (auto simp: used_def block_parts bit_simps)
qed

lemma used_clear_block:
  "used (bm(unat (b div 32) := bm (unat (b div 32)) AND NOT (push_bit (unat (b mod 32 :: u32)) 1))) x
     \<longleftrightarrow> used bm x \<and> x \<noteq> unat b"
proof -
  have "x = unat b \<longleftrightarrow> x div 32 = unat b div 32 \<and> x mod 32 = unat b mod 32"
    by (metis div_mult_mod_eq)
  then show ?thesis
    by (auto simp: used_def block_parts bit_simps)
qed

lemma word_block_iff:
  assumes "c mod 32 = (0 :: nat)"
  shows "x \<in> {c ..< c + 32} \<longleftrightarrow> x div 32 = c div 32"
proof -
  obtain q where q: "c = 32 * q" using assms by (auto simp: mod_eq_0_iff_dvd)
  have "x = 32 * (x div 32) + x mod 32" "x mod 32 < 32" by simp_all
  then have "x div 32 = q \<longrightarrow> 32 * q \<le> x \<and> x < 32 * q + 32" by linarith
  moreover have "32 * q \<le> x \<Longrightarrow> x < 32 * Suc q \<Longrightarrow> x div 32 = q" by (rule div_nat_eqI) simp_all
  ultimately show ?thesis by (auto simp: q)
qed

lemma used_set_word:
  assumes "b mod 32 = (0 :: u32)"
  shows "used (bm(unat (b div 32) := 0xFFFFFFFF)) x \<longleftrightarrow> used bm x \<or> x \<in> {unat b ..< unat b + 32}"
proof -
  have "x \<in> {unat b ..< unat b + 32} \<longleftrightarrow> x div 32 = unat b div 32"
    using assms block_parts(2) [of b] by (intro word_block_iff) simp
  moreover have "bit (0xFFFFFFFF :: u32) (x mod 32)"
  proof -
    have "(0xFFFFFFFF :: u32) = - 1" by simp
    then show ?thesis by (simp only: bit_minus_1_iff) simp
  qed
  ultimately show ?thesis
    by (auto simp: used_def block_parts)
qed

section \<open>Marking\<close>

lemma sint_le_nat: "sint (of_nat n :: u32) \<le> int n"
proof (cases "n < 2 ^ 31")
  case False
  then have "2 ^ 31 \<le> int n" by simp
  with sint_lt [of "of_nat n :: u32"] show ?thesis by simp
qed (simp add: sint_of_nat_small)

lemma unat_block_add:
  assumes "unat (b div 32 :: u32) < MEMORY_BITMAP_LENGTH" and "k \<le> 32"
  shows "unat (b + of_nat k) = unat b + k"
proof -
  have "unat b div 32 < 131072" using assms(1) by (simp add: block_parts MEMORY_BITMAP_LENGTH_def)
  then have "unat b < 4194304" by simp
  then show ?thesis using assms(2) by (subst unat_add_small) (simp_all add: unat_of_nat_small)
qed

lemma range_split:
  "k \<le> n \<Longrightarrow> unat b' = unat b + k \<Longrightarrow> range_of b n = {unat b ..< unat b + k} \<union> range_of b' (n - k)"
  by (auto simp: range_of_def)

lemma word_free_blocks:
  assumes "bm (unat (b div 32)) = 0" and "b mod 32 = (0 :: u32)" and "x \<in> {unat b ..< unat b + 32}"
  shows "\<not> used bm x"
proof -
  have "x div 32 = unat b div 32"
    using assms(2,3) block_parts(2) [of b] word_block_iff [of "unat b" x] by simp
  then show ?thesis using assms(1) by (simp add: used_def block_parts)
qed

lemma mark_loop_sound:
  "mark_loop bm b n = Inr (S_OK, bm') \<Longrightarrow>
     (\<forall>x \<in> range_of b n. \<not> used bm x) \<and> (\<forall>x. used bm' x \<longleftrightarrow> used bm x \<or> x \<in> range_of b n)"
proof (induction bm b n rule: mark_loop.induct)
  case (1 bm b n)
  define i where "i = unat (b div 32)"
  show ?case
  proof (cases "n = 0")
    case True
    then show ?thesis using 1(3) by (subst (asm) mark_loop.simps) (simp add: range_of_def)
  next
    case n0: False
    have guard: "\<not> MEMORY_BITMAP_LENGTH \<le> i"
      using 1(3) n0 by (subst (asm) mark_loop.simps) (auto simp: i_def Let_def)
    then have lt: "unat (b div 32) < MEMORY_BITMAP_LENGTH" by (simp add: i_def)
    show ?thesis
    proof (cases "sint (of_nat n :: u32) \<ge> 32 \<and> b mod 32 = 0")
      case True
      have free: "bm i = 0" and rec: "mark_loop (bm(i := 0xFFFFFFFF)) (b + 32) (n - 32) = Inr (S_OK, bm')"
        using 1(3) n0 guard True
        by (subst (asm) (1) mark_loop.simps, auto simp: i_def Let_def split: if_splits)+
      have "32 \<le> n" using True sint_le_nat [of n] by linarith
      moreover have "unat (b + 32) = unat b + 32" using unat_block_add [OF lt, of 32] by simp
      ultimately have "range_of b n = {unat b ..< unat b + 32} \<union> range_of (b + 32) (n - 32)"
        by (rule range_split)
      moreover have "(\<forall>x \<in> range_of (b + 32) (n - 32). \<not> used (bm(i := 0xFFFFFFFF)) x) \<and>
          (\<forall>x. used bm' x \<longleftrightarrow> used (bm(i := 0xFFFFFFFF)) x \<or> x \<in> range_of (b + 32) (n - 32))"
        using 1(1) [OF n0 i_def guard True] free rec by (simp add: fun_upd_def)
      moreover have "used (bm(i := 0xFFFFFFFF)) x \<longleftrightarrow> used bm x \<or> x \<in> {unat b ..< unat b + 32}" for x
        using used_set_word [of b bm x] True by (simp add: i_def)
      moreover have "\<not> used bm x" if "x \<in> {unat b ..< unat b + 32}" for x
        using word_free_blocks [of bm b x] free True that by (simp add: i_def)
      ultimately show ?thesis by auto
    next
      case False
      let ?w = "bm i OR push_bit (unat (b mod 32)) 1"
      have free: "\<not> bm i AND push_bit (unat (b mod 32)) 1 \<noteq> 0"
        and rec: "mark_loop (bm(i := ?w)) (b + 1) (n - 1) = Inr (S_OK, bm')"
        using 1(3) n0 guard False
        by (subst (asm) (1) mark_loop.simps, auto simp: i_def Let_def split: if_splits)+
      have "1 \<le> n" using n0 by simp
      moreover have "unat (b + 1) = unat b + 1" using unat_block_add [OF lt, of 1] by simp
      ultimately have "range_of b n = {unat b ..< unat b + 1} \<union> range_of (b + 1) (n - 1)"
        by (rule range_split)
      moreover have "(\<forall>x \<in> range_of (b + 1) (n - 1). \<not> used (bm(i := ?w)) x) \<and>
          (\<forall>x. used bm' x \<longleftrightarrow> used (bm(i := ?w)) x \<or> x \<in> range_of (b + 1) (n - 1))"
        using 1(2) [OF n0 i_def guard False free] rec by (simp add: fun_upd_def)
      moreover have "used (bm(i := ?w)) x \<longleftrightarrow> used bm x \<or> x = unat b" for x
        using used_set_block [of bm b x] by (simp add: i_def)
      moreover have "\<not> used bm (unat b)"
        using test_block [of bm b] free by (simp add: i_def)
      ultimately show ?thesis by auto
    qed
  qed
qed

lemma mark_loop_complete:
  "\<forall>x \<in> range_of b n. \<not> used bm x \<Longrightarrow> unat b + n \<le> 32 * MEMORY_BITMAP_LENGTH \<Longrightarrow>
     \<exists>bm'. mark_loop bm b n = Inr (S_OK, bm')"
proof (induction bm b n rule: mark_loop.induct)
  case (1 bm b n)
  define i where "i = unat (b div 32)"
  show ?case
  proof (cases "n = 0")
    case True
    then show ?thesis by (subst mark_loop.simps) simp
  next
    case n0: False
    have lt: "unat (b div 32) < MEMORY_BITMAP_LENGTH"
      using 1(4) n0 by (simp add: block_parts MEMORY_BITMAP_LENGTH_def)
    then have guard: "\<not> MEMORY_BITMAP_LENGTH \<le> i" by (simp add: i_def)
    show ?thesis
    proof (cases "sint (of_nat n :: u32) \<ge> 32 \<and> b mod 32 = 0")
      case True
      have n: "32 \<le> n" using True sint_le_nat [of n] by linarith
      have b: "unat (b + 32) = unat b + 32" using unat_block_add [OF lt, of 32] by simp
      have R: "range_of b n = {unat b ..< unat b + 32} \<union> range_of (b + 32) (n - 32)"
        by (rule range_split [OF n b])
      have "bm i = 0 \<longleftrightarrow> (\<forall>k < 32. \<not> used bm (32 * i + k))" by (rule used_word)
      moreover have "unat b mod 32 = 0" using True block_parts(2) [of b] by simp
      then have "unat b = 32 * i" using mult_div_mod_eq [of 32 "unat b"] by (simp add: i_def block_parts)
      ultimately have free: "bm i = 0" using 1(3) R by auto
      have U: "used (bm(i := 0xFFFFFFFF)) x \<longleftrightarrow> used bm x \<or> x \<in> {unat b ..< unat b + 32}" for x
        using used_set_word [of b bm x] True by (simp add: i_def)
      have "\<forall>x \<in> range_of (b + 32) (n - 32). \<not> used (bm(i := 0xFFFFFFFF)) x"
        unfolding U using 1(3) R b by (auto simp: range_of_def)
      then obtain bm' where "mark_loop (bm(i := 0xFFFFFFFF)) (b + 32) (n - 32) = Inr (S_OK, bm')"
        using 1(1) [OF n0 i_def guard True] free 1(4) b n by (auto simp: fun_upd_def)
      then show ?thesis using n0 guard True free by (subst mark_loop.simps) (simp add: i_def)
    next
      case False
      let ?w = "bm i OR push_bit (unat (b mod 32)) 1"
      have n: "1 \<le> n" using n0 by simp
      have b: "unat (b + 1) = unat b + 1" using unat_block_add [OF lt, of 1] by simp
      have R: "range_of b n = {unat b ..< unat b + 1} \<union> range_of (b + 1) (n - 1)"
        by (rule range_split [OF n b])
      have "\<not> used bm (unat b)" using 1(3) R by auto
      then have free: "\<not> bm i AND push_bit (unat (b mod 32)) 1 \<noteq> 0"
        using test_block [of bm b] by (simp add: i_def)
      have U: "used (bm(i := ?w)) x \<longleftrightarrow> used bm x \<or> x = unat b" for x
        using used_set_block [of bm b x] by (simp add: i_def)
      have "\<forall>x \<in> range_of (b + 1) (n - 1). \<not> used (bm(i := ?w)) x"
        unfolding U using 1(3) R b by (auto simp: range_of_def)
      then obtain bm' where "mark_loop (bm(i := ?w)) (b + 1) (n - 1) = Inr (S_OK, bm')"
        using 1(2) [OF n0 i_def guard False free] 1(4) b n by (auto simp: fun_upd_def)
      then show ?thesis using n0 guard False free by (subst mark_loop.simps) (auto simp: i_def Let_def)
    qed
  qed
qed

lemma mark_loop_in_range:
  "mark_loop bm b n = Inr (S_OK, bm') \<Longrightarrow> n \<noteq> 0 \<Longrightarrow> unat b + n \<le> 32 * MEMORY_BITMAP_LENGTH"
proof (induction bm b n rule: mark_loop.induct)
  case (1 bm b n)
  define i where "i = unat (b div 32)"
  have guard: "\<not> MEMORY_BITMAP_LENGTH \<le> i"
    using 1(3,4) by (subst (asm) mark_loop.simps) (auto simp: i_def Let_def)
  then have lt: "unat (b div 32) < MEMORY_BITMAP_LENGTH" and small: "unat b < 32 * MEMORY_BITMAP_LENGTH"
    by (auto simp: i_def block_parts MEMORY_BITMAP_LENGTH_def)
  show ?case
  proof (cases "sint (of_nat n :: u32) \<ge> 32 \<and> b mod 32 = 0")
    case True
    have free: "bm i = 0" and rec: "mark_loop (bm(i := 0xFFFFFFFF)) (b + 32) (n - 32) = Inr (S_OK, bm')"
      using 1(3,4) guard True
      by (subst (asm) (1) mark_loop.simps, auto simp: i_def Let_def split: if_splits)+
    have n: "32 \<le> n" using True sint_le_nat [of n] by linarith
    have b: "unat (b + 32) = unat b + 32" using unat_block_add [OF lt, of 32] by simp
    show ?thesis
    proof (cases "n = 32")
      case n32: True
      have "unat b mod 32 = 0" using True block_parts(2) [of b] by simp
      then have "unat b = 32 * i" using mult_div_mod_eq [of 32 "unat b"] by (simp add: i_def block_parts)
      then show ?thesis using n32 guard by simp
    next
      case False
      then show ?thesis using 1(1) [OF 1(4) i_def guard True] free rec b n by (simp add: fun_upd_def)
    qed
  next
    case False
    let ?w = "bm i OR push_bit (unat (b mod 32)) 1"
    have free: "\<not> bm i AND push_bit (unat (b mod 32)) 1 \<noteq> 0"
      and rec: "mark_loop (bm(i := ?w)) (b + 1) (n - 1) = Inr (S_OK, bm')"
      using 1(3,4) guard False
      by (subst (asm) (1) mark_loop.simps, auto simp: i_def Let_def split: if_splits)+
    have b: "unat (b + 1) = unat b + 1" using unat_block_add [OF lt, of 1] by simp
    show ?thesis
    proof (cases "n = 1")
      case True
      then show ?thesis using small by simp
    next
      case n1: False
      then show ?thesis
        using 1(2) [OF 1(4) i_def guard False free] rec b 1(4) by (simp add: fun_upd_def)
    qed
  qed
qed

text \<open>A failed marking has only added blocks of the range.\<close>

lemma mark_loop_partial:
  "mark_loop bm b n = Inr (hr, bm') \<Longrightarrow>
     (used bm x \<longrightarrow> used bm' x) \<and> (used bm' x \<longrightarrow> used bm x \<or> x \<in> range_of b n) \<and> (hr = S_OK \<or> hr = E_FAIL)"
proof (induction bm b n rule: mark_loop.induct)
  case (1 bm b n)
  define i where "i = unat (b div 32)"
  show ?case
  proof (cases "n = 0")
    case True
    then show ?thesis using 1(3) by (subst (asm) mark_loop.simps) simp
  next
    case n0: False
    have guard: "\<not> MEMORY_BITMAP_LENGTH \<le> i"
      using 1(3) n0 by (subst (asm) mark_loop.simps) (auto simp: i_def Let_def)
    then have lt: "unat (b div 32) < MEMORY_BITMAP_LENGTH" by (simp add: i_def)
    show ?thesis
    proof (cases "sint (of_nat n :: u32) \<ge> 32 \<and> b mod 32 = 0")
      case True
      have n: "32 \<le> n" using True sint_le_nat [of n] by linarith
      have b: "unat (b + 32) = unat b + 32" using unat_block_add [OF lt, of 32] by simp
      have R: "range_of b n = {unat b ..< unat b + 32} \<union> range_of (b + 32) (n - 32)"
        by (rule range_split [OF n b])
      have U: "used (bm(i := 0xFFFFFFFF)) x \<longleftrightarrow> used bm x \<or> x \<in> {unat b ..< unat b + 32}"
        using used_set_word [of b bm x] True by (simp add: i_def)
      show ?thesis
      proof (cases "bm i = 0")
        case False
        then show ?thesis using 1(3) n0 guard True
          by (subst (asm) mark_loop.simps) (auto simp: i_def Let_def)
      next
        case free: True
        then have "mark_loop (bm(i := 0xFFFFFFFF)) (b + 32) (n - 32) = Inr (hr, bm')"
          using 1(3) n0 guard True by (subst (asm) (1) mark_loop.simps) (auto simp: i_def Let_def)
        then show ?thesis
          using 1(1) [OF n0 i_def guard True] free U R by (auto simp: fun_upd_def)
      qed
    next
      case False
      let ?w = "bm i OR push_bit (unat (b mod 32)) 1"
      have n: "1 \<le> n" using n0 by simp
      have b: "unat (b + 1) = unat b + 1" using unat_block_add [OF lt, of 1] by simp
      have R: "range_of b n = {unat b ..< unat b + 1} \<union> range_of (b + 1) (n - 1)"
        by (rule range_split [OF n b])
      have U: "used (bm(i := ?w)) x \<longleftrightarrow> used bm x \<or> x = unat b"
        using used_set_block [of bm b x] by (simp add: i_def)
      show ?thesis
      proof (cases "bm i AND push_bit (unat (b mod 32)) 1 \<noteq> 0")
        case True
        then show ?thesis using 1(3) n0 guard False
          by (subst (asm) mark_loop.simps) (auto simp: i_def Let_def)
      next
        case free: False
        then have "mark_loop (bm(i := ?w)) (b + 1) (n - 1) = Inr (hr, bm')"
          using 1(3) n0 guard False by (subst (asm) (1) mark_loop.simps) (auto simp: i_def Let_def)
        then show ?thesis
          using 1(2) [OF n0 i_def guard False free] U R by (auto simp: fun_upd_def)
      qed
    qed
  qed
qed

section \<open>Unmarking\<close>

lemma unmark_loop_used:
  "\<forall>x \<in> range_of b n. used bm x \<Longrightarrow> unat b + n \<le> 32 * MEMORY_BITMAP_LENGTH \<Longrightarrow>
     \<exists>bm'. unmark_loop bm b n = Inr (S_OK, bm') \<and> (\<forall>x. used bm' x \<longleftrightarrow> used bm x \<and> x \<notin> range_of b n)"
proof (induction n arbitrary: bm b)
  case 0
  then show ?case by (simp add: range_of_def)
next
  case (Suc n)
  let ?bm = "bm(unat (b div 32) := bm (unat (b div 32)) AND NOT (push_bit (unat (b mod 32)) 1))"
  have lt: "unat (b div 32) < MEMORY_BITMAP_LENGTH"
    using Suc.prems(2) by (simp add: block_parts MEMORY_BITMAP_LENGTH_def)
  have b: "unat (b + 1) = unat b + 1" using unat_block_add [OF lt, of 1] by simp
  have R: "range_of b (Suc n) = {unat b ..< unat b + 1} \<union> range_of (b + 1) n"
    using range_split [of 1 "Suc n", OF _ b] by simp
  have "used bm (unat b)" using Suc.prems(1) R by auto
  then have "bit (drop_bit (unat (b mod 32)) (bm (unat (b div 32)))) 0"
    by (simp add: used_def bit_drop_bit_eq block_parts)
  then have set: "drop_bit (unat (b mod 32)) (bm (unat (b div 32))) \<noteq> 0" by auto
  have U: "used ?bm x \<longleftrightarrow> used bm x \<and> x \<noteq> unat b" for x by (rule used_clear_block)
  have "\<forall>x \<in> range_of (b + 1) n. used ?bm x"
    unfolding U using Suc.prems(1) R b by (auto simp: range_of_def)
  then obtain bm' where "unmark_loop ?bm (b + 1) n = Inr (S_OK, bm')"
    "\<forall>x. used bm' x \<longleftrightarrow> used ?bm x \<and> x \<notin> range_of (b + 1) n"
    using Suc.IH [of "b + 1" ?bm] Suc.prems(2) b by (auto simp: fun_upd_def)
  then show ?case
    using lt set U R by (auto simp: Let_def not_le)
qed

section \<open>Searching\<close>

lemma push_bit_1_mask: "k < 32 \<Longrightarrow> push_bit k (1 :: u32) - 1 = mask k"
  by (simp add: mask_eq_exp_minus_1 push_bit_eq_mult)

lemma find_loop_free:
  assumes "find_loop bm n i icnt i_start = Some j" and "0 \<le> n" and "0 \<le> icnt" and "i_start \<le> i"
    and "icnt + 32 * int (i - i_start) = n" and "\<And>k. i_start \<le> k \<Longrightarrow> k < i \<Longrightarrow> bm k = 0"
  shows "j < MEMORY_BITMAP_LENGTH \<and> (\<forall>x. 32 * j \<le> x \<and> int x < int (32 * j) + n \<longrightarrow> \<not> used bm x)"
  using assms
proof (induction bm n i icnt i_start rule: find_loop.induct)
  case (1 bm n i icnt i_start)
  have i: "\<not> MEMORY_BITMAP_LENGTH \<le> i"
    using 1(4) by (subst (asm) find_loop.simps) (auto split: if_splits)
  show ?case
  proof (cases "icnt \<ge> 32")
    case True
    show ?thesis
    proof (cases "bm i = 0")
      case zero: True
      then have "find_loop bm n (Suc i) (icnt - 32) i_start = Some j"
        using 1(4) i True by (subst (asm) find_loop.simps) simp
      moreover have "bm k = 0" if "i_start \<le> k" "k < Suc i" for k
        using that zero 1(9) by (cases "k = i") auto
      ultimately show ?thesis
        using 1(2) [OF i True] zero 1(5-8) True by (auto simp: of_nat_diff)
    next
      case False
      then have "find_loop bm n (Suc i) n (Suc i) = Some j"
        using 1(4) i True by (subst (asm) find_loop.simps) simp
      then show ?thesis using 1(1) [OF i True False] 1(5) by auto
    qed
  next
    case False
    show ?thesis
    proof (cases "bm i AND (push_bit (nat (icnt mod 32)) 1 - 1) \<noteq> 0")
      case True
      then have "find_loop bm n (Suc i) n (Suc i) = Some j"
        using 1(4) i False by (subst (asm) find_loop.simps) simp
      then show ?thesis using 1(3) [OF i False True] 1(5) by auto
    next
      case free: False
      then have j: "j = i_start"
        using 1(4) i False by (subst (asm) find_loop.simps) simp
      define c where "c = nat icnt"
      have c: "c < 32" "icnt mod 32 = int c" "n = int (32 * (i - i_start) + c)"
        using False 1(6,8) by (auto simp: c_def)
      have low: "\<not> bit (bm i) b" if "b < c" for b
      proof -
        have "bm i AND mask c = 0" using free c push_bit_1_mask by simp
        then have "\<not> bit (bm i AND mask c) b" by simp
        then show ?thesis using that c by (simp add: bit_simps)
      qed
      have "\<not> used bm x" if "32 * i_start \<le> x" "int x < int (32 * i_start) + n" for x
      proof -
        have x: "x < 32 * i + c" using that c 1(7) by (simp add: of_nat_diff)
        then have "x div 32 \<le> i" using c by (intro less_Suc_eq_le [THEN iffD1] less_mult_imp_div_less) simp
        moreover have "i_start \<le> x div 32" using that by simp
        moreover have "x div 32 = i \<Longrightarrow> x mod 32 < c" using x by (metis add_less_cancel_left mult_div_mod_eq)
        ultimately show ?thesis
          using 1(9) [of "x div 32"] low [of "x mod 32"] by (cases "x div 32 = i") (auto simp: used_def)
      qed
      then show ?thesis using i j 1(7) by auto
    qed
  qed
qed

lemma alloc_marks:
  assumes "kpmm_alloc bm n = Inr (S_OK, Some a, bm')"
  shows "mark_loop bm (a div KPMM_BLOCK_SIZE) (unat n) = Inr (S_OK, bm')"
  using assms
  by (auto simp: kpmm_alloc_def kpmm_find_free_region_def kpmm_mark_blocks_def split: option.splits)

lemma alloc_example:
  assumes "odd (bm 0)" and "\<And>i. i \<noteq> 0 \<Longrightarrow> bm i = 0"
  shows "\<exists>bm'. kpmm_alloc bm 2 = Inr (S_OK, Some 0x20000, bm')"
proof -
  have "odd (bm 0 AND 3)" using assms(1) by (simp add: even_and_iff)
  then have "bm 0 AND 3 \<noteq> 0" by auto
  then have "find_loop bm 2 0 2 0 = Some 1"
    by (subst find_loop.simps, subst find_loop.simps) (simp add: MEMORY_BITMAP_LENGTH_def assms(2))
  then have f: "kpmm_find_free_region bm 2 = (S_OK, Some 0x20000)"
    by (simp add: kpmm_find_free_region_def KPMM_BLOCK_SIZE_def)
  have "\<forall>x \<in> range_of 32 2. \<not> used bm x"
    by (auto simp: range_of_def used_def assms(2))
  then obtain bm' where m: "mark_loop bm 32 2 = Inr (S_OK, bm')"
    using mark_loop_complete [of 32 2 bm] by (auto simp: MEMORY_BITMAP_LENGTH_def)
  show ?thesis
    using f m by (simp add: kpmm_alloc_def kpmm_mark_blocks_def KPMM_BLOCK_SIZE_def)
qed

section \<open>The allocator contract\<close>

text \<open>A handle is the address and the count that the client of \<^verbatim>\<open>kpmm_alloc\<close> keeps and passes to
  \<^verbatim>\<open>kpmm_unmark_blocks\<close>.\<close>

definition kpmm_get :: "bitmap \<Rightarrow> u32 \<Rightarrow> ((u32 \<times> u32) \<times> bitmap) option" where
  "kpmm_get bm n = (case kpmm_alloc bm n of Inr (S_OK, Some a, bm') \<Rightarrow> Some ((a, n), bm') | _ \<Rightarrow> None)"

text \<open>A call that fails leaves the bitmap as it is when the search finds nothing, and with the blocks
  marked so far when the marking fails: the caller gets no area and cannot release them.\<close>

definition kpmm_botch :: "bitmap \<Rightarrow> u32 \<Rightarrow> bitmap option" where
  "kpmm_botch bm n =
     (case kpmm_alloc bm n of Inr (hr, _, bm') \<Rightarrow> if hr = S_OK then None else Some bm' | Inl _ \<Rightarrow> None)"

definition kpmm_put :: "bitmap \<Rightarrow> u32 \<times> u32 \<Rightarrow> bitmap option" where
  "kpmm_put bm h = (case kpmm_unmark_blocks bm (fst h) (snd h) of Inr (S_OK, bm') \<Rightarrow> Some bm' | _ \<Rightarrow> None)"

definition kpmm_blocks :: "u32 \<times> u32 \<Rightarrow> nat set" where
  "kpmm_blocks h = range_of (fst h div KPMM_BLOCK_SIZE) (unat (snd h))"

definition kpmm_valid :: "bitmap \<Rightarrow> u32 \<times> u32 \<Rightarrow> bool" where
  "kpmm_valid bm h \<longleftrightarrow> kpmm_blocks h \<subseteq> Collect (used bm)
     \<and> (snd h = 0 \<or> unat (fst h div KPMM_BLOCK_SIZE) + unat (snd h) \<le> 32 * MEMORY_BITMAP_LENGTH)"

lemma kpmm_get_Some:
  "kpmm_get bm n = Some (h, bm') \<longleftrightarrow> (\<exists>a. h = (a, n) \<and> kpmm_alloc bm n = Inr (S_OK, Some a, bm'))"
  by (auto simp: kpmm_get_def split: sum.splits prod.splits hresult.splits option.splits)

lemma kpmm_put_valid:
  assumes "kpmm_valid bm h"
  shows "\<exists>bm'. kpmm_put bm h = Some bm' \<and> Collect (used bm') = Collect (used bm) - kpmm_blocks h"
proof (cases "snd h = 0")
  case True
  then show ?thesis by (auto simp: kpmm_put_def kpmm_unmark_blocks_def kpmm_blocks_def range_of_def)
next
  case False
  then obtain bm' where "unmark_loop bm (fst h div KPMM_BLOCK_SIZE) (unat (snd h)) = Inr (S_OK, bm')"
    "\<forall>x. used bm' x \<longleftrightarrow> used bm x \<and> x \<notin> kpmm_blocks h"
    using assms unmark_loop_used [of "fst h div KPMM_BLOCK_SIZE" "unat (snd h)" bm]
    by (auto simp: kpmm_valid_def kpmm_blocks_def)
  then show ?thesis by (auto simp: kpmm_put_def kpmm_unmark_blocks_def)
qed

lemma kpmm_get_law:
  assumes "kpmm_get bm n = Some (h, bm')"
  shows "kpmm_valid bm' h" "kpmm_blocks h \<inter> Collect (used bm) = {}"
    "Collect (used bm') = Collect (used bm) \<union> kpmm_blocks h"
proof -
  obtain a where h: "h = (a, n)" and m: "mark_loop bm (a div KPMM_BLOCK_SIZE) (unat n) = Inr (S_OK, bm')"
    using assms alloc_marks by (auto simp: kpmm_get_Some)
  note s = mark_loop_sound [OF m]
  then show "kpmm_blocks h \<inter> Collect (used bm) = {}"
    and "Collect (used bm') = Collect (used bm) \<union> kpmm_blocks h"
    by (auto simp: h kpmm_blocks_def)
  then show "kpmm_valid bm' h"
    using mark_loop_in_range [OF m] by (auto simp: kpmm_valid_def h unat_eq_zero)
qed

interpretation kpmm: block_allocator kpmm_get kpmm_put "\<lambda>_. True" "\<lambda>bm. Collect (used bm)"
  kpmm_valid "\<lambda>_. kpmm_blocks"
proof
  show "True \<and> kpmm_valid s' h \<and> kpmm_blocks h \<inter> Collect (used s) = {}
      \<and> Collect (used s') = Collect (used s) \<union> kpmm_blocks h" if "kpmm_get s r = Some (h, s')" for s r h s'
    using kpmm_get_law [OF that] by blast
  show "kpmm_valid s' k \<and> kpmm_blocks k = kpmm_blocks k"
    if "kpmm_get s r = Some (h, s')" "kpmm_valid s k" for s r h s' k
    using kpmm_get_law(3) [OF that(1)] that(2) by (auto simp: kpmm_valid_def)
  show "\<exists>s'. kpmm_put s h = Some s' \<and> True \<and> Collect (used s') = Collect (used s) - kpmm_blocks h"
    if "kpmm_valid s h" for s h
    using kpmm_put_valid [OF that] by blast
  show "kpmm_valid s' k \<and> kpmm_blocks k = kpmm_blocks k"
    if "kpmm_valid s h" "kpmm_put s h = Some s'" "kpmm_valid s k" "kpmm_blocks k \<inter> kpmm_blocks h = {}" for s h s' k
    using kpmm_put_valid [OF that(1)] that(2-4) by (auto simp: kpmm_valid_def)
  show "kpmm_blocks h \<subseteq> Collect (used s)" if "kpmm_valid s h" for s h
    using that by (simp add: kpmm_valid_def)
qed

lemma kpmm_botch_cases:
  assumes "kpmm_botch bm n = Some bm'"
  shows "bm' = bm \<or> (\<exists>j hr. find_loop bm (sint n) 0 (sint n) 0 = Some j \<and> hr \<noteq> S_OK
    \<and> mark_loop bm (of_nat j * 32 * KPMM_BLOCK_SIZE div KPMM_BLOCK_SIZE) (unat n) = Inr (hr, bm'))"
  using assms
  by (auto simp: kpmm_botch_def kpmm_alloc_def kpmm_find_free_region_def  kpmm_mark_blocks_def
      split: option.splits sum.splits if_splits)

lemma kpmm_botch_grows: "kpmm_botch bm n = Some bm' \<Longrightarrow> Collect (used bm) \<subseteq> Collect (used bm')"
  using kpmm_botch_cases mark_loop_partial by blast

interpretation kpmm_run: lossy_allocator kpmm_get kpmm_put "\<lambda>_. True" "\<lambda>bm. Collect (used bm)"
  kpmm_valid "\<lambda>_. kpmm_blocks" kpmm_botch
proof
  show "True \<and> Collect (used s) \<subseteq> Collect (used s')" if "kpmm_botch s r = Some s'" for s r s'
    using kpmm_botch_grows [OF that] by simp
  show "kpmm_valid s' k \<and> kpmm_blocks k = kpmm_blocks k"
    if "kpmm_botch s r = Some s'" "kpmm_valid s k" for s r s' k
    using kpmm_botch_grows [OF that(1)] that(2) by (auto simp: kpmm_valid_def)
qed

section \<open>Properties\<close>

text \<open>
  C6. In every run of physical allocations, successful and failed, and of releases, in any order, the
  areas that the client holds are pairwise disjoint and contain no block that was in use before the
  run or that a failed call has marked. What is in use is exactly what was in use before the run, what
  the failed calls have marked and never give back, and the areas held; each area held can be
  released. So nothing is handed out twice, and blocks leak in failed calls only
  (\<open>kpmm_failed_alloc_keeps\<close> says in which). A call that would access the bitmap beyond its end stops
  the run.\<close>

theorem kpmm_runs_exact:
  assumes "alloc_run kpmm_get kpmm_botch kpmm_put (\<lambda>bm. Collect (used bm)) bm0 bm hs lost"
  shows "(\<forall>i j. i < length hs \<longrightarrow> j < length hs \<longrightarrow> i \<noteq> j \<longrightarrow> kpmm_blocks (hs ! i) \<inter> kpmm_blocks (hs ! j) = {})
    \<and> Collect (used bm) = Collect (used bm0) \<union> lost \<union> (\<Union>h \<in> set hs. kpmm_blocks h)
    \<and> lost \<inter> Collect (used bm0) = {}
    \<and> (\<forall>h \<in> set hs. kpmm_blocks h \<inter> (Collect (used bm0) \<union> lost) = {} \<and> (\<exists>bm'. kpmm_put bm h = Some bm'))"
  by (rule kpmm_run.lossy_run_exact [OF assms TrueI])

text \<open>A request of \<open>2 ^ 31\<close> blocks is negative for the search, which accepts it at the first word;
  the marking then takes the free blocks up to the first used one and fails.\<close>

lemma botch_example:
  "\<exists>bm. kpmm_botch (\<lambda>i. if i = 0 then 2 else 0) 0x80000000 = Some bm
     \<and> bm 0 = 3 \<and> (\<forall>i. i \<noteq> 0 \<longrightarrow> bm i = 0)"
proof -
  let ?bm = "\<lambda>i. if i = 0 then 2 else (0 :: u32)"
  have s: "sint (0x80000000 :: u32) = - 0x80000000" by (simp add: sint_uint)
  have f: "find_loop ?bm (- 0x80000000) 0 (- 0x80000000) 0 = Some 0"
    by (subst find_loop.simps) (simp add: MEMORY_BITMAP_LENGTH_def)
  have t: "sint (of_nat 2147483648 :: u32) < 32" "sint (of_nat 2147483647 :: u32) \<ge> 32"
    by (simp_all add: sint_uint)
  have m: "mark_loop ?bm 0 2147483648 = Inr (E_FAIL, ?bm(0 := 3))"
    by (subst mark_loop.simps, subst mark_loop.simps) (use t in \<open>simp add: MEMORY_BITMAP_LENGTH_def Let_def\<close>)
  have "kpmm_botch ?bm 0x80000000 = Some (?bm(0 := 3))"
    by (simp add: kpmm_botch_def kpmm_alloc_def kpmm_find_free_region_def kpmm_mark_blocks_def s f m)
  then show ?thesis by auto
qed

lemma used_first_word:
  assumes "\<And>i. i \<noteq> 0 \<Longrightarrow> bm i = 0"
  shows "used bm = bit (bm 0)"
proof
  fix x
  show "used bm x \<longleftrightarrow> bit (bm 0) x"
  proof (cases "x < 32")
    case True
    then show ?thesis by (simp add: used_def)
  next
    case False
    then have "\<not> bit (bm 0) x" by (auto dest: bit_imp_le_length)
    moreover have "x div 32 \<noteq> 0" using False by (simp add: div_eq_0_iff)
    ultimately show ?thesis using assms by (simp add: used_def)
  qed
qed

lemma bits_2_3: "bit (2 :: u32) = (\<lambda>k. k = 1)" "bit (3 :: u32) = (\<lambda>k. k = 0 \<or> k = 1)"
proof -
  have "(2 :: u32) = push_bit 1 1" by simp
  then have two: "bit (2 :: u32) k \<longleftrightarrow> k = 1" for k
    by (simp only: bit_push_bit_iff bit_1_iff) auto
  have "(3 :: u32) = 2 OR 1" by simp
  then show "bit (3 :: u32) = (\<lambda>k. k = 0 \<or> k = 1)"
    by (simp only: fun_eq_iff bit_or_iff two bit_1_iff) auto
  show "bit (2 :: u32) = (\<lambda>k. k = 1)" using two by blast
qed

lemma kpmm_runs_exact_witness:
  "\<exists>bm1 bm. kpmm_botch (\<lambda>i. if i = 0 then 2 else 0) 0x80000000 = Some bm1
     \<and> kpmm_get bm1 2 = Some ((0x20000, 2), bm)
     \<and> Collect (used bm) = {1} \<union> {0} \<union> {32 ..< 34} \<and> (\<exists>bm'. kpmm_put bm (0x20000, 2) = Some bm')"
proof -
  let ?bm = "\<lambda>i. if i = 0 then 2 else (0 :: u32)"
  let ?run = "alloc_run kpmm_get kpmm_botch kpmm_put (\<lambda>bm. Collect (used bm)) ?bm"
  obtain bm1 where b: "kpmm_botch ?bm 0x80000000 = Some bm1" "bm1 0 = 3" "\<And>i. i \<noteq> 0 \<Longrightarrow> bm1 i = 0"
    using botch_example by blast
  obtain bm where g: "kpmm_get bm1 2 = Some ((0x20000, 2), bm)"
    using alloc_example [of bm1] b by (auto simp: kpmm_get_Some)
  have U: "Collect (used ?bm) = {1}" "Collect (used bm1) = {0, 1}"
    using used_first_word [of ?bm] used_first_word [OF b(3)] b(2)
    by (auto simp: bits_2_3)
  have "?run bm1 [] ({} \<union> (Collect (used bm1) - Collect (used ?bm)))"
    by (rule alloc_run.fail [where botch = kpmm_botch, OF alloc_run.start b(1)])
  then have "?run bm [(0x20000, 2)] ({} \<union> (Collect (used bm1) - Collect (used ?bm)))"
    by (rule alloc_run.allocate [where alloc = kpmm_get, OF _ g])
  from kpmm_runs_exact [OF this]
  have "Collect (used bm) = Collect (used ?bm) \<union> ({} \<union> (Collect (used bm1) - Collect (used ?bm)))
      \<union> kpmm_blocks (0x20000, 2) \<and> (\<exists>bm'. kpmm_put bm (0x20000, 2) = Some bm')"
    by simp
  moreover have "{} \<union> (Collect (used bm1) - Collect (used ?bm)) = {0}" by (auto simp: U)
  ultimately show ?thesis
    using b(1) g by (intro exI [of _ bm1] exI [of _ bm]) (simp add: U kpmm_blocks_def range_of_def KPMM_BLOCK_SIZE_def)
qed

text \<open>\<^verbatim>\<open>kpmm_alloc\<close> fails only when the search finds nothing: if the search settles on a run of
  words below 4 GB, the allocation succeeds and returns that address. The tail test on a word
  that is only partly needed is enough for the marking not to meet a used block.\<close>

theorem kpmm_alloc_succeeds:
  assumes "find_loop bm (sint n) 0 (sint n) 0 = Some j" and "32 * j + unat n \<le> 2 ^ 20"
  shows "\<exists>bm'. kpmm_alloc bm n = Inr (S_OK, Some (of_nat (j * 131072)), bm')"
proof -
  have n: "sint n = int (unat n)"
    using assms(2) sint_of_nat_small [of "unat n"] by simp
  have free: "\<forall>x. 32 * j \<le> x \<and> int x < int (32 * j) + sint n \<longrightarrow> \<not> used bm x"
    using find_loop_free [OF assms(1)] n by simp
  have free': "\<not> used bm x" if "32 * j \<le> x" "x < 32 * j + unat n" for x
  proof -
    have "int x < int (32 * j) + sint n" using that(2) n by linarith
    then show ?thesis using free that(1) by blast
  qed
  let ?a = "of_nat (j * 131072) :: u32"
  have "\<exists>bm'. mark_loop bm (?a div KPMM_BLOCK_SIZE) (unat n) = Inr (S_OK, bm')"
  proof (cases "unat n = 0")
    case True
    then show ?thesis by (subst mark_loop.simps) simp
  next
    case False
    then have "unat ?a = j * 131072" using assms(2) by (intro unat_of_nat_small) simp
    then have "unat (?a div KPMM_BLOCK_SIZE) = 32 * j"
      by (simp add: unat_div KPMM_BLOCK_SIZE_def)
    then show ?thesis
      using free' assms(2) by (intro mark_loop_complete) (auto simp: range_of_def MEMORY_BITMAP_LENGTH_def)
  qed
  moreover have "of_nat j * 32 * KPMM_BLOCK_SIZE = ?a"
    by (simp add: KPMM_BLOCK_SIZE_def)
  ultimately show ?thesis
    using assms(1) by (auto simp: kpmm_alloc_def kpmm_find_free_region_def kpmm_mark_blocks_def)
qed

lemma kpmm_alloc_succeeds_witness:
  "\<exists>bm'. kpmm_alloc (\<lambda>i. if i = 0 then 1 else 0) 40 = Inr (S_OK, Some (of_nat (1 * 131072)), bm')"
proof (rule kpmm_alloc_succeeds)
  have s: "sint (40 :: u32) = 40" using sint_of_nat_small [of 40] by simp
  show "find_loop (\<lambda>i. if i = 0 then 1 else 0) (sint (40 :: u32)) 0 (sint (40 :: u32)) 0 = Some 1"
    unfolding s
    by (subst find_loop.simps, subst find_loop.simps, subst find_loop.simps)
      (simp add: MEMORY_BITMAP_LENGTH_def)
qed simp

text \<open>A failed call loses blocks only if the request is negative as a signed number, or if the
  search has settled on a run that ends above 4 GB, whose address wraps around: in every other
  case it leaves the bitmap as it was.\<close>

theorem kpmm_failed_alloc_keeps:
  assumes "kpmm_botch bm n = Some bm'" and "bm' \<noteq> bm"
  shows "\<exists>j. find_loop bm (sint n) 0 (sint n) 0 = Some j \<and> 2 ^ 20 < 32 * j + unat n"
proof -
  obtain j where j: "find_loop bm (sint n) 0 (sint n) 0 = Some j"
    using kpmm_botch_cases [OF assms(1)] assms(2) by blast
  moreover have "2 ^ 20 < 32 * j + unat n"
  proof (rule ccontr)
    assume "\<not> 2 ^ 20 < 32 * j + unat n"
    then obtain b where "kpmm_alloc bm n = Inr (S_OK, Some (of_nat (j * 131072)), b)"
      using kpmm_alloc_succeeds [OF j] by auto
    with assms(1) show False by (simp add: kpmm_botch_def)
  qed
  ultimately show ?thesis by blast
qed

lemma kpmm_failed_alloc_keeps_witness:
  "\<exists>j. find_loop (\<lambda>i. if i = 0 then 2 else 0) (sint (0x80000000 :: u32)) 0 (sint (0x80000000 :: u32)) 0 = Some j
     \<and> 2 ^ 20 < 32 * j + unat (0x80000000 :: u32)"
proof -
  obtain bm where b: "kpmm_botch (\<lambda>i. if i = 0 then 2 else 0) 0x80000000 = Some bm" "bm 0 = 3"
    using botch_example by blast
  then have "bm \<noteq> (\<lambda>i. if i = 0 then 2 else 0)" by auto
  from kpmm_failed_alloc_keeps [OF b(1) this] show ?thesis .
qed

text \<open>The double-free check of \<^verbatim>\<open>kpmm_unmark_blocks\<close> negates before it masks, so it misses a free
  block whenever a higher block of the same word is in use: freeing such a block again succeeds.\<close>

theorem kpmm_double_free_undetected:
  assumes "\<not> used bm b" and "used bm c" and "b < c" and "b div 32 = c div 32" and "b < 2 ^ 20"
  shows "\<exists>bm'. kpmm_unmark_blocks bm (of_nat b * KPMM_BLOCK_SIZE) 1 = Inr (S_OK, bm')"
proof -
  have "unat (of_nat (b * 4096) :: u32) = b * 4096"
    using assms(5) by (intro unat_of_nat_small) simp
  then have "unat (of_nat b * KPMM_BLOCK_SIZE div KPMM_BLOCK_SIZE) = b"
    by (simp add: KPMM_BLOCK_SIZE_def unat_div)
  then obtain w :: u32 where w: "of_nat b * KPMM_BLOCK_SIZE div KPMM_BLOCK_SIZE = w" "unat w = b" by blast
  have "c mod 32 = b mod 32 + (c - b)"
    using mult_div_mod_eq [of 32 c] mult_div_mod_eq [of 32 b] assms(3,4) by linarith
  then have "bit (drop_bit (b mod 32) (bm (b div 32))) (c - b)"
    using assms(2,4) by (simp add: used_def bit_drop_bit_eq)
  then have "drop_bit (b mod 32) (bm (b div 32)) \<noteq> 0" by auto
  then show ?thesis
    using assms(5) by (simp add: kpmm_unmark_blocks_def w block_parts Let_def MEMORY_BITMAP_LENGTH_def)
qed

lemma kpmm_double_free_undetected_witness:
  "\<exists>bm'. kpmm_unmark_blocks (\<lambda>_. 2) (of_nat 0 * KPMM_BLOCK_SIZE) 1 = Inr (S_OK, bm')"
  by (rule kpmm_double_free_undetected [where c = 1]) (simp_all add: used_def bit_simps)

end
