(* ===== verification/SkHeap.thy ===== *)
theory SkHeap
  imports CString Alloc_Spec
begin

unbundle bit_operations_syntax

text \<open>
  Model of \<^verbatim>\<open>mm_skheap.c\<close>: the static kernel heap, a 1 MB pool of 4096 blocks of 256 bytes with a
  bitmap of 512 bytes, and a control structure of four words in front of every allocation. The
  control structures live in flat memory.
\<close>

section \<open>Data\<close>

definition SKHEAP_SIZE :: u32 where "SKHEAP_SIZE = 0x100000"
definition SKHEAP_BLOCK_SIZE :: u32 where "SKHEAP_BLOCK_SIZE = 0x100"
definition SKHEAP_BLOCK_COUNT :: nat where "SKHEAP_BLOCK_COUNT = 0x100000 div 0x100"
definition SKHEAP_BITMAP_ELEMENTS :: nat where "SKHEAP_BITMAP_ELEMENTS = 0x100000 div 0x100 div 8"

lemma skheap_consts:
  "SKHEAP_BLOCK_COUNT = 4096" "SKHEAP_BITMAP_ELEMENTS = 512" "SKHEAP_BLOCK_SIZE = 256" "SKHEAP_SIZE = 1048576"
  by (simp_all add: SKHEAP_BLOCK_COUNT_def SKHEAP_BITMAP_ELEMENTS_def SKHEAP_BLOCK_SIZE_def SKHEAP_SIZE_def)

record skheap =
  sk_start :: u32
  sk_bitmap :: "nat \<Rightarrow> u8"
  sk_mem :: mem

text \<open>The control structure: \<^verbatim>\<open>size\<close>, \<^verbatim>\<open>ext_size\<close>, \<^verbatim>\<open>padding\<close>, \<^verbatim>\<open>crc_size\<close>, four words of memory.\<close>

record skh_control_struct =
  cs_size :: u32
  cs_ext_size :: u32
  cs_padding :: u32
  cs_crc_size :: u32

definition load32 :: "mem \<Rightarrow> u32 \<Rightarrow> u32" where
  "load32 m a = ucast (m a) OR push_bit 8 (ucast (m (a + 1))) OR push_bit 16 (ucast (m (a + 2)))
     OR push_bit 24 (ucast (m (a + 3)))"

definition load_cs :: "mem \<Rightarrow> u32 \<Rightarrow> skh_control_struct" where
  "load_cs m a = \<lparr> cs_size = load32 m a, cs_ext_size = load32 m (a + 4),
     cs_padding = load32 m (a + 8), cs_crc_size = load32 m (a + 12) \<rparr>"

definition store_cs :: "mem \<Rightarrow> u32 \<Rightarrow> skh_control_struct \<Rightarrow> mem" where
  "store_cs m a c = store32 (store32 (store32 (store32 m a (cs_size c)) (a + 4) (cs_ext_size c))
     (a + 8) (cs_padding c)) (a + 12) (cs_crc_size c)"

section \<open>The block bitmap\<close>

definition skheap_get_capacity :: u32 where
  "skheap_get_capacity = SKHEAP_SIZE"

function sk_find_loop :: "(nat \<Rightarrow> u8) \<Rightarrow> nat \<Rightarrow> nat \<Rightarrow> nat \<Rightarrow> nat \<Rightarrow> nat option" where
  "sk_find_loop bm blocks i bl_cntr start_bl_id =
     (if SKHEAP_BITMAP_ELEMENTS \<le> i then None
      else if bl_cntr > 8 then
        (if bm i \<noteq> 0 then sk_find_loop bm blocks (Suc i) blocks ((i + 1) * 8)
         else sk_find_loop bm blocks (Suc i) (bl_cntr - 8) start_bl_id)
      else if ucast (bm i) AND (push_bit bl_cntr 1 - 1) \<noteq> (0 :: u32) then
        sk_find_loop bm blocks (Suc i) blocks ((i + 1) * 8)
      else Some start_bl_id)"
  by auto
termination
  by (relation "measure (\<lambda>(bm, b, i, c, s). SKHEAP_BITMAP_ELEMENTS - i)") auto

declare sk_find_loop.simps [simp del]

text \<open>\<open>None\<close> is \<^verbatim>\<open>E_FAIL\<close>, \<open>Some\<close> the address with \<^verbatim>\<open>S_OK\<close>.\<close>

definition skheap_find_free_region :: "skheap \<Rightarrow> u32 \<Rightarrow> u32 option run" where
  "skheap_find_free_region h sz =
     (if sz mod SKHEAP_BLOCK_SIZE \<noteq> 0
      then Inl (Panic ''Invalid region size, it must be multiple of block size.'')
      else
        let blocks = unat (sz div SKHEAP_BLOCK_SIZE) in
        case sk_find_loop (sk_bitmap h) blocks 0 blocks 0 of
          None \<Rightarrow> Inr None
        | Some b \<Rightarrow> Inr (Some (sk_start h + of_nat b * SKHEAP_BLOCK_SIZE)))"

function sk_find_loop_a :: "(nat \<Rightarrow> u8) \<Rightarrow> nat \<Rightarrow> nat \<Rightarrow> nat \<Rightarrow> nat \<Rightarrow> nat option" where
  "sk_find_loop_a bm blocks i bl_cntr start_bl_id =
     (if SKHEAP_BITMAP_ELEMENTS \<le> i then None
      else if bl_cntr = blocks \<and> i mod 2 \<noteq> 0 then sk_find_loop_a bm blocks (Suc i) bl_cntr start_bl_id
      else if bl_cntr = blocks \<and> bm (i - 1) AND 0x80 \<noteq> 0 then sk_find_loop_a bm blocks (Suc i) bl_cntr start_bl_id
      else
        let start_bl_id = (if bl_cntr = blocks then i * 8 - 1 else start_bl_id);
            bl_cntr = (if bl_cntr = blocks then bl_cntr - 1 else bl_cntr) in
        if bl_cntr > 8 then
          (if bm i \<noteq> 0 then sk_find_loop_a bm blocks (Suc i) blocks start_bl_id
           else sk_find_loop_a bm blocks (Suc i) (bl_cntr - 8) start_bl_id)
        else if ucast (bm i) AND (push_bit bl_cntr 1 - 1) \<noteq> (0 :: u32) then
          sk_find_loop_a bm blocks (Suc i) blocks start_bl_id
        else Some start_bl_id)"
  by auto
termination
  by (relation "measure (\<lambda>(bm, b, i, c, s). SKHEAP_BITMAP_ELEMENTS - i)") auto

declare sk_find_loop_a.simps [simp del]

definition skheap_find_free_region_aligned :: "skheap \<Rightarrow> u32 \<Rightarrow> u32 option run" where
  "skheap_find_free_region_aligned h sz =
     (if sz mod SKHEAP_BLOCK_SIZE \<noteq> 0
      then Inl (Panic ''Invalid region size, it must be multiple of block size.'')
      else
        let blocks = unat (sz div SKHEAP_BLOCK_SIZE) in
        case sk_find_loop_a (sk_bitmap h) blocks 2 blocks 0 of
          None \<Rightarrow> Inr None
        | Some b \<Rightarrow> Inr (Some (sk_start h + of_nat b * SKHEAP_BLOCK_SIZE)))"

fun sk_mark_loop :: "(nat \<Rightarrow> u8) \<Rightarrow> nat \<Rightarrow> nat \<Rightarrow> bool \<Rightarrow> (nat \<Rightarrow> u8) run" where
  "sk_mark_loop bm block_id 0 in_use = Inr bm"
| "sk_mark_loop bm block_id (Suc n) in_use =
     (let i = block_id div 8; bit_mask = push_bit (block_id mod 8) 1; e = bm i in
      if in_use \<and> e AND bit_mask \<noteq> 0 then
        Inl (Panic ''Error: marking a block, already marked the same state (in use).'')
      else if \<not> in_use \<and> e AND bit_mask = 0 then
        Inl (Panic ''Error: marking a block, already marked the same state (free).'')
      else sk_mark_loop (bm(i := if in_use then e OR bit_mask else e AND (bit_mask XOR 0xFF)))
             (block_id + 1) n in_use)"

definition skheap_mark_region :: "skheap \<Rightarrow> u32 \<Rightarrow> u32 \<Rightarrow> bool \<Rightarrow> skheap run" where
  "skheap_mark_region h start len in_use =
     (let offs_address = start - sk_start h;
          block_id = unat (offs_address div SKHEAP_BLOCK_SIZE);
          num_blocks = unat (len div SKHEAP_BLOCK_SIZE) in
      if offs_address mod SKHEAP_BLOCK_SIZE \<noteq> 0 then
        Inl (Panic ''Trying to mark region which doesn't start on block boundary.'')
      else if len mod SKHEAP_BLOCK_SIZE \<noteq> 0 then
        Inl (Panic ''Trying to mark region which doesn't span across block boundary.'')
      else if block_id + num_blocks \<ge> SKHEAP_BLOCK_COUNT then
        Inl (Panic ''Trying to mark region outside of static kernel heap region.'')
      else if num_blocks = 0 then
        Inl (Panic ''Memory region size is zero or below SKHEAP_BLOCK_SIZE.'')
      else bindR (sk_mark_loop (sk_bitmap h) block_id num_blocks in_use) (\<lambda>bm.
           Inr (h\<lparr>sk_bitmap := bm\<rparr>)))"

section \<open>Addresses\<close>

definition skheap_get_virt_addr :: "u32 \<Rightarrow> u32" where
  "skheap_get_virt_addr a = a + 0xC0000000"

definition skheap_get_phys_addr :: "u32 \<Rightarrow> u32" where
  "skheap_get_phys_addr a = a - 0xC0000000"

section \<open>Allocation\<close>

text \<open>\<^verbatim>\<open>ext_size\<close>: the size with the control structure, moved to the next block boundary; the
  remainder is a signed one.\<close>

definition sk_ext_size :: "u32 \<Rightarrow> u32" where
  "sk_ext_size sz =
     (let e = sz + 16 in e + (SKHEAP_BLOCK_SIZE - word_of_int (sint e smod 256)))"

definition sk_new_cs :: "u32 \<Rightarrow> u32 \<Rightarrow> u32 \<Rightarrow> skh_control_struct" where
  "sk_new_cs sz ext_size padding =
     \<lparr> cs_size = sz, cs_ext_size = ext_size, cs_padding = padding,
       cs_crc_size = (sz + ext_size) XOR 0xFFFFFFFF \<rparr>"

definition skheap_malloc :: "skheap \<Rightarrow> u32 \<Rightarrow> (u32 \<times> skheap) run" where
  "skheap_malloc h sz =
     (if sint sz \<le> 0 then Inr (0, h)
      else
        let ext_size = sk_ext_size sz in
        bindR (skheap_find_free_region h ext_size) (\<lambda>r.
        case r of
          None \<Rightarrow> Inr (0, h)
        | Some p \<Rightarrow>
            bindR (skheap_mark_region h p ext_size True) (\<lambda>h.
            Inr (p + 16, h\<lparr>sk_mem := store_cs (sk_mem h) p (sk_new_cs sz ext_size 0)\<rparr>))))"

definition skheap_calloc :: "skheap \<Rightarrow> u32 \<Rightarrow> (u32 \<times> skheap) run" where
  "skheap_calloc h sz =
     bindR (skheap_malloc h sz) (\<lambda>(p, h).
     if p = 0 then Inr (0, h) else Inr (p, h\<lparr>sk_mem := memset (sk_mem h) p 0 sz\<rparr>))"

definition skheap_malloc_a :: "skheap \<Rightarrow> u32 \<Rightarrow> (u32 \<times> skheap) run" where
  "skheap_malloc_a h sz =
     (if sint sz \<le> 0 then Inr (0, h)
      else
        let ext_size = sk_ext_size sz in
        bindR (skheap_find_free_region_aligned h ext_size) (\<lambda>r.
        case r of
          None \<Rightarrow> Inr (0, h)
        | Some p \<Rightarrow>
            bindR (skheap_mark_region h p ext_size True) (\<lambda>h.
            Inr (p + SKHEAP_BLOCK_SIZE,
                 h\<lparr>sk_mem := store_cs (sk_mem h) (p + SKHEAP_BLOCK_SIZE - 16)
                               (sk_new_cs sz ext_size (SKHEAP_BLOCK_SIZE - 16))\<rparr>))))"

definition skheap_calloc_a :: "skheap \<Rightarrow> u32 \<Rightarrow> (u32 \<times> skheap) run" where
  "skheap_calloc_a h sz =
     bindR (skheap_malloc_a h sz) (\<lambda>(p, h).
     if p = 0 then Inr (0, h) else Inr (p, h\<lparr>sk_mem := memset (sk_mem h) p 0 sz\<rparr>))"

definition skheap_free :: "skheap \<Rightarrow> u32 \<Rightarrow> skheap run" where
  "skheap_free h ptr =
     (if ptr = 0 then Inl (Panic ''SKHEAP: Trying to free null pointer.'')
      else if ptr < sk_start h \<or> ptr \<ge> sk_start h + SKHEAP_SIZE then
        Inl (Panic ''SKHEAP: Freeing a memory outside the static kernel heap pool.'')
      else
        let cs = load_cs (sk_mem h) (ptr - 16) in
        if cs_crc_size cs XOR 0xFFFFFFFF \<noteq> cs_size cs + cs_ext_size cs then
          Inl (Panic ''Freeing invalid memory block. CRC value doesn't comply.'')
        else skheap_mark_region h (ptr - 16 - cs_padding cs) (cs_ext_size cs) False)"

text \<open>The new block is filled and the old one freed, but the old pointer is returned. A failed
  allocation makes the copy go to address 0.\<close>

definition skheap_realloc :: "skheap \<Rightarrow> u32 \<Rightarrow> u32 \<Rightarrow> (u32 \<times> skheap) run" where
  "skheap_realloc h p new_size =
     (if sint new_size \<le> 0 \<or> p = 0 then Inr (0, h)
      else
        bindR (skheap_malloc h new_size) (\<lambda>(new, h).
        let h = h\<lparr>sk_mem := memcpy (sk_mem h) new p (cs_size (load_cs (sk_mem h) (p - 16)))\<rparr> in
        bindR (skheap_free h p) (\<lambda>h. Inr (p, h))))"

text \<open>\<open>region\<close> is the address of the static array.\<close>

definition skheap_init :: "mem \<Rightarrow> u32 \<Rightarrow> (hresult \<times> skheap) run" where
  "skheap_init m region =
     (let h = \<lparr> sk_start = region, sk_bitmap = (\<lambda>_. 0), sk_mem = m \<rparr>;
          padding = 4096 - region mod 4096 in
      if padding > 0 \<and> padding \<noteq> 4096 then
        let h = h\<lparr>sk_start := sk_start h + padding\<rparr> in
        if sk_start h mod 4096 \<noteq> 0 then Inl (Panic ''Unexpected error.'')
        else
          let reserve_size = padding + (SKHEAP_BLOCK_SIZE - padding mod SKHEAP_BLOCK_SIZE);
              reserve_addr = sk_start h + SKHEAP_SIZE - reserve_size;
              reserve_addr = reserve_addr - (SKHEAP_BLOCK_SIZE - reserve_addr mod SKHEAP_BLOCK_SIZE)
          in bindR (skheap_mark_region h reserve_addr reserve_size True) (\<lambda>h. Inr (S_OK, h))
      else Inr (S_OK, h))"

section \<open>Blocks in use\<close>

definition sk_used :: "(nat \<Rightarrow> u8) \<Rightarrow> nat \<Rightarrow> bool" where
  "sk_used bm b \<longleftrightarrow> bit (bm (b div 8)) (b mod 8)"

lemma sk_test_block: "bm (b div 8) AND push_bit (b mod 8) 1 \<noteq> 0 \<longleftrightarrow> sk_used bm b"
  by (simp add: sk_used_def bit_iff_and_push_bit_not_eq_0)

lemma sk_block_eq: "x = b \<longleftrightarrow> x div 8 = b div 8 \<and> x mod 8 = (b mod 8 :: nat)"
  by (metis div_mult_mod_eq)

lemma sk_used_set:
  "sk_used (bm(b div 8 := bm (b div 8) OR push_bit (b mod 8) 1)) x \<longleftrightarrow> sk_used bm x \<or> x = b"
  by (auto simp: sk_used_def bit_simps sk_block_eq [of x b])

lemma sk_used_clear:
  "sk_used (bm(b div 8 := bm (b div 8) AND (push_bit (b mod 8) 1 XOR 0xFF))) x \<longleftrightarrow> sk_used bm x \<and> x \<noteq> b"
proof -
  have "push_bit (b mod 8) 1 XOR (0xFF :: u8) = NOT (push_bit (b mod 8) 1)"
  proof -
    have "(0xFF :: u8) = - 1" by simp
    then show ?thesis by (simp only: bit.xor_one_right)
  qed
  then show ?thesis
    by (auto simp: sk_used_def bit_simps sk_block_eq [of x b])
qed

lemma sk_mark_loop_ok:
  "\<forall>x \<in> {b ..< b + n}. sk_used bm x \<noteq> u \<Longrightarrow>
     \<exists>bm'. sk_mark_loop bm b n u = Inr bm' \<and> (\<forall>x. sk_used bm' x \<longleftrightarrow> (if x \<in> {b ..< b + n} then u else sk_used bm x))"
proof (induction n arbitrary: bm b)
  case (Suc n)
  let ?bm = "bm(b div 8 := if u then bm (b div 8) OR push_bit (b mod 8) 1
                            else bm (b div 8) AND (push_bit (b mod 8) 1 XOR 0xFF))"
  have U: "sk_used ?bm x \<longleftrightarrow> (if x = b then u else sk_used bm x)" for x
    using sk_used_set [of bm b x] sk_used_clear [of bm b x] by (cases u) auto
  have "\<forall>x \<in> {b + 1 ..< b + 1 + n}. sk_used ?bm x \<noteq> u"
    unfolding U using Suc.prems by auto
  then obtain bm' where "sk_mark_loop ?bm (b + 1) n u = Inr bm'"
    "\<forall>x. sk_used bm' x \<longleftrightarrow> (if x \<in> {b + 1 ..< b + 1 + n} then u else sk_used ?bm x)"
    using Suc.IH [of "b + 1" ?bm] by blast
  moreover have "sk_used bm b \<noteq> u" using Suc.prems by simp
  ultimately show ?case
    unfolding U using sk_test_block [of bm b] by (cases u) (auto simp: Let_def)
qed simp

lemma sk_mark_loop_Inr:
  "sk_mark_loop bm b n u = Inr bm' \<Longrightarrow> \<forall>x \<in> {b ..< b + n}. sk_used bm x \<noteq> u"
proof (induction n arbitrary: bm b)
  case (Suc n)
  let ?bm = "bm(b div 8 := if u then bm (b div 8) OR push_bit (b mod 8) 1
                            else bm (b div 8) AND (push_bit (b mod 8) 1 XOR 0xFF))"
  have U: "sk_used ?bm x \<longleftrightarrow> (if x = b then u else sk_used bm x)" for x
    using sk_used_set [of bm b x] sk_used_clear [of bm b x] by (cases u) auto
  have b: "sk_used bm b \<noteq> u" and "sk_mark_loop ?bm (b + 1) n u = Inr bm'"
    using Suc.prems sk_test_block [of bm b] by (auto simp: Let_def split: if_splits)
  then have "\<forall>x \<in> {b + 1 ..< b + 1 + n}. sk_used ?bm x \<noteq> u"
    by (intro Suc.IH)
  then have rest: "x \<in> {b + 1 ..< b + 1 + n} \<Longrightarrow> x \<noteq> b \<Longrightarrow> sk_used bm x \<noteq> u" for x
    unfolding U by auto
  show ?case
  proof
    fix x assume "x \<in> {b ..< b + Suc n}"
    then show "sk_used bm x \<noteq> u" using b rest [of x] by (cases "x = b") auto
  qed
qed simp

section \<open>Control structures, searching and sizes\<close>

lemma bytes32:
  fixes v :: u32
  shows
  "ucast (ucast v :: u8) OR push_bit 8 (ucast (ucast (drop_bit 8 v) :: u8)) OR
   push_bit 16 (ucast (ucast (drop_bit 16 v) :: u8)) OR push_bit 24 (ucast (ucast (drop_bit 24 v) :: u8)) = v"
proof (rule bit_word_eqI)
  fix n assume "n < LENGTH(32)"
  then consider "n < 8" | "8 \<le> n" "n < 16" | "16 \<le> n" "n < 24" | "24 \<le> n" "n < 32" by fastforce
  then show "bit ((ucast (ucast v :: u8) :: u32) OR push_bit 8 (ucast (ucast (drop_bit 8 v) :: u8)) OR
   push_bit 16 (ucast (ucast (drop_bit 16 v) :: u8)) OR push_bit 24 (ucast (ucast (drop_bit 24 v) :: u8))) n = bit v n"
    by cases (simp_all add: bit_unsigned_iff bit_or_iff bit_push_bit_iff bit_drop_bit_eq less_diff_conv2)
qed

lemma load_store_cs: "load_cs (store_cs m a c) a = c"
  by (cases c) (simp add: load_cs_def store_cs_def load32_def store32_def bytes32 add.assoc)

lemma sk_find_free:
  assumes "sk_find_loop bm n i c s = Some b" and "s = 8 * i0" and "i0 \<le> i" and "c + 8 * (i - i0) = n"
    and "\<And>k. i0 \<le> k \<Longrightarrow> k < i \<Longrightarrow> bm k = 0"
  shows "\<forall>x \<in> {b ..< b + n}. \<not> sk_used bm x \<and> x < 4096"
  using assms
proof (induction bm n i c s arbitrary: i0 rule: sk_find_loop.induct)
  case (1 bm n i c s)
  have i: "\<not> SKHEAP_BITMAP_ELEMENTS \<le> i"
    using 1(4) by (subst (asm) sk_find_loop.simps) (auto split: if_splits)
  show ?case
  proof (cases "c > 8")
    case True
    show ?thesis
    proof (cases "bm i = 0")
      case zero: True
      then have "sk_find_loop bm n (Suc i) (c - 8) s = Some b"
        using 1(4) i True by (subst (asm) sk_find_loop.simps) simp
      moreover have "bm k = 0" if "i0 \<le> k" "k < Suc i" for k
        using that zero 1(8) by (cases "k = i") auto
      ultimately show ?thesis using 1(2) [OF i True, of i0] zero 1(5-7) True by auto
    next
      case False
      then have "sk_find_loop bm n (Suc i) n ((i + 1) * 8) = Some b"
        using 1(4) i True by (subst (asm) sk_find_loop.simps) simp
      then show ?thesis using 1(1) [OF i True False, of "Suc i"] by auto
    qed
  next
    case False
    show ?thesis
    proof (cases "ucast (bm i) AND (push_bit c 1 - 1) \<noteq> (0 :: u32)")
      case True
      then have "sk_find_loop bm n (Suc i) n ((i + 1) * 8) = Some b"
        using 1(4) i False by (subst (asm) sk_find_loop.simps) simp
      then show ?thesis using 1(3) [OF i False True, of "Suc i"] by auto
    next
      case free: False
      then have b: "b = 8 * i0"
        using 1(4,5) i False by (subst (asm) sk_find_loop.simps) simp
      have low: "\<not> bit (bm i) k" if "k < c" for k
      proof -
        have "push_bit c (1 :: u32) - 1 = mask c" by (simp add: mask_eq_exp_minus_1 push_bit_eq_mult)
        then have "ucast (bm i) AND mask c = (0 :: u32)" using free by simp
        then have "\<not> bit (ucast (bm i) AND mask c :: u32) k" by simp
        then show ?thesis using that False by (auto simp: bit_simps)
      qed
      show ?thesis
      proof
        fix x assume "x \<in> {b ..< b + n}"
        then have x: "8 * i0 \<le> x" "x < 8 * i + c" using b 1(6,7) by auto
        then have "x div 8 \<le> i" using False by (intro less_Suc_eq_le [THEN iffD1] less_mult_imp_div_less) simp
        moreover have "i0 \<le> x div 8" using x(1) by simp
        moreover have "x div 8 = i \<Longrightarrow> x mod 8 < c" using x by (metis add_less_cancel_left mult_div_mod_eq)
        ultimately have "\<not> sk_used bm x"
          using 1(8) [of "x div 8"] low [of "x mod 8"] by (cases "x div 8 = i") (auto simp: sk_used_def)
        then show "\<not> sk_used bm x \<and> x < 4096"
          using x False i by (simp add: skheap_consts)
      qed
    qed
  qed
qed

lemma int_smod: "0 < m \<Longrightarrow> int n smod int m = int (n mod m)"
  by (cases "n = 0") (simp_all add: signed_modulo_int_def signed_divide_int_def zdiv_int of_nat_mod minus_div_mult_eq_mod)

lemma sk_ext_size:
  assumes "0 < sint sz" and "unat sz < 2 ^ 31 - 512"
  shows "unat (sk_ext_size sz) = (unat sz + 16) div 256 * 256 + 256"
proof -
  have e: "unat (sz + 16) = unat sz + 16" using assms(2) by (subst unat_add_small) auto
  then have s: "sint (sz + 16) = int (unat sz + 16)"
    using sint_of_nat_small [of "unat sz + 16"] assms(2) by simp
  define r where "r = (unat sz + 16) mod 256"
  have "(256 :: int) = int 256" by simp
  then have "sint (sz + 16) smod 256 = int r"
    unfolding s r_def by (simp only: int_smod [of 256])
  then have w: "word_of_int (sint (sz + 16) smod 256) = (of_nat r :: u32)"
    by (simp only: of_int_of_nat_eq)
  have r: "r < 256" by (simp add: r_def)
  have "unat (256 - of_nat r :: u32) = 256 - r"
    using r by (subst unat_sub_small) (simp_all add: unat_of_nat_small)
  moreover have "sk_ext_size sz = (sz + 16) + (256 - of_nat r)"
    by (simp only: sk_ext_size_def Let_def skheap_consts w)
  ultimately have "unat (sk_ext_size sz) = unat sz + 16 + (256 - r)"
    using e r assms(2) by (simp only:) (subst unat_add_small, auto)
  moreover have "unat sz + 16 = (unat sz + 16) div 256 * 256 + r" by (simp add: r_def)
  ultimately show ?thesis using r by linarith
qed

section \<open>The aligned search\<close>

text \<open>A candidate start has been fixed at word \<open>i0\<close> and every block up to word \<open>i\<close> is free.\<close>

definition sk_a_progress :: "(nat \<Rightarrow> u8) \<Rightarrow> nat \<Rightarrow> nat \<Rightarrow> nat \<Rightarrow> nat \<Rightarrow> nat \<Rightarrow> bool" where
  "sk_a_progress bm n i c s i0 \<longleftrightarrow> i0 mod 2 = 0 \<and> 2 \<le> i0 \<and> i0 \<le> i \<and> s = 8 * i0 - 1
     \<and> c + 1 + 8 * (i - i0) = n \<and> \<not> bit (bm (i0 - 1)) 7 \<and> (\<forall>k. i0 \<le> k \<and> k < i \<longrightarrow> bm k = 0)"

lemma mask_low:
  assumes "ucast (w :: u8) AND (push_bit c 1 - 1) = (0 :: u32)" and "c \<le> 8" and "k < c"
  shows "\<not> bit w k"
proof -
  have "push_bit c (1 :: u32) - 1 = mask c" by (simp add: mask_eq_exp_minus_1 push_bit_eq_mult)
  then have "ucast w AND mask c = (0 :: u32)" using assms(1) by simp
  then have "\<not> bit (ucast w AND mask c :: u32) k" by simp
  then show ?thesis using assms(2,3) by (auto simp: bit_simps)
qed

lemma sk_a_found:
  assumes P: "sk_a_progress bm n i c s i0" and c: "c \<le> 8" and i: "i < 512"
    and low: "ucast (bm i) AND (push_bit c 1 - 1) = (0 :: u32)"
  shows "(\<forall>x \<in> {s ..< s + n}. \<not> sk_used bm x \<and> x < 4096) \<and> (s + 1) mod 16 = 0"
proof -
  have p: "2 \<le> i0" "i0 \<le> i" "s = 8 * i0 - 1" "c + 1 + 8 * (i - i0) = n" "i0 mod 2 = 0"
    using P by (simp_all add: sk_a_progress_def)
  have "\<not> sk_used bm x \<and> x < 4096" if x: "x \<in> {s ..< s + n}" for x
  proof (cases "x = s")
    case True
    have "x = 8 * (i0 - 1) + 7" using True p by simp
    then have "x div 8 = i0 - 1" "x mod 8 = 7" by (simp_all)
    then show ?thesis using P True p i by (auto simp: sk_used_def sk_a_progress_def)
  next
    case False
    then have x: "8 * i0 \<le> x" "x < 8 * i + c" using that p by auto
    then have "x div 8 \<le> i" using c by (intro less_Suc_eq_le [THEN iffD1] less_mult_imp_div_less) simp
    moreover have "i0 \<le> x div 8" using x(1) by simp
    moreover have "x div 8 = i \<Longrightarrow> x mod 8 < c" using x by (metis add_less_cancel_left mult_div_mod_eq)
    ultimately have "\<not> sk_used bm x"
      using P mask_low [OF low c, of "x mod 8"] by (cases "x div 8 = i") (auto simp: sk_used_def sk_a_progress_def)
    then show ?thesis using x c i by simp
  qed
  moreover have "(s + 1) mod 16 = 0"
  proof -
    have "s + 1 = 8 * i0" using p by simp
    then show ?thesis using p(5) by presburger
  qed
  ultimately show ?thesis by blast
qed

lemma sk_a_tail:
  assumes loop: "(if c > 8 then (if bm i \<noteq> 0 then sk_find_loop_a bm n (Suc i) n s
           else sk_find_loop_a bm n (Suc i) (c - 8) s)
        else if ucast (bm i) AND (push_bit c 1 - 1) \<noteq> (0 :: u32) then
          sk_find_loop_a bm n (Suc i) n s else Some s) = Some b"
    and P: "sk_a_progress bm n i c s i0" and i: "i < 512"
    and IH: "\<And>c' s'. sk_find_loop_a bm n (Suc i) c' s' = Some b \<Longrightarrow>
       c' = n \<or> (\<exists>i0. sk_a_progress bm n (Suc i) c' s' i0) \<Longrightarrow>
       (\<forall>x \<in> {b ..< b + n}. \<not> sk_used bm x \<and> x < 4096) \<and> (b + 1) mod 16 = 0"
  shows "(\<forall>x \<in> {b ..< b + n}. \<not> sk_used bm x \<and> x < 4096) \<and> (b + 1) mod 16 = 0"
proof (cases "c > 8")
  case True
  show ?thesis
  proof (cases "bm i = 0")
    case zero: True
    have "sk_a_progress bm n (Suc i) (c - 8) s i0"
      using P zero True less_Suc_eq by (auto simp: sk_a_progress_def)
    then show ?thesis using IH [of "c - 8" s] loop True zero by auto
  next
    case False
    then show ?thesis using IH [of n s] loop True by auto
  qed
next
  case False
  then show ?thesis
    using IH [of n s] loop sk_a_found [OF P _ i] by (auto split: if_splits)
qed

lemma sk_find_a_free:
  assumes "sk_find_loop_a bm n i c s = Some b" and "1 \<le> n" and "2 \<le> i"
    and "c = n \<or> (\<exists>i0. sk_a_progress bm n i c s i0)"
  shows "(\<forall>x \<in> {b ..< b + n}. \<not> sk_used bm x \<and> x < 4096) \<and> (b + 1) mod 16 = 0"
  using assms
proof (induction "512 - i" arbitrary: i c s rule: less_induct)
  case less
  have i: "i < 512"
    using less.prems(1) by (subst (asm) sk_find_loop_a.simps) (auto simp: skheap_consts split: if_splits)
  have IH: "\<And>c' s'. sk_find_loop_a bm n (Suc i) c' s' = Some b \<Longrightarrow>
       c' = n \<or> (\<exists>i0. sk_a_progress bm n (Suc i) c' s' i0) \<Longrightarrow>
       (\<forall>x \<in> {b ..< b + n}. \<not> sk_used bm x \<and> x < 4096) \<and> (b + 1) mod 16 = 0"
    using less.hyps [of "Suc i"] less.prems(2,3) i by auto
  show ?case
  proof (cases "c = n")
    case False
    then obtain i0 where P: "sk_a_progress bm n i c s i0" using less.prems(4) by blast
    have "(if c > 8 then (if bm i \<noteq> 0 then sk_find_loop_a bm n (Suc i) n s
           else sk_find_loop_a bm n (Suc i) (c - 8) s)
        else if ucast (bm i) AND (push_bit c 1 - 1) \<noteq> (0 :: u32) then
          sk_find_loop_a bm n (Suc i) n s else Some s) = Some b"
      using less.prems(1) False i by (subst (asm) sk_find_loop_a.simps) (simp add: skheap_consts Let_def)
    then show ?thesis by (rule sk_a_tail [OF _ P i IH])
  next
    case c: True
    show ?thesis
    proof (cases "i mod 2 \<noteq> 0 \<or> bm (i - 1) AND 0x80 \<noteq> 0")
      case True
      then have "sk_find_loop_a bm n (Suc i) n s = Some b"
        using less.prems(1) c i by (subst (asm) sk_find_loop_a.simps) (auto simp: skheap_consts Let_def split: if_splits)
      then show ?thesis using IH by blast
    next
      case False
      have "push_bit 7 (1 :: u8) = 0x80" by simp
      then have "\<not> bit (bm (i - 1)) 7"
        using False by (simp add: bit_iff_and_push_bit_not_eq_0)
      then have P: "sk_a_progress bm n i (n - 1) (i * 8 - 1) i"
        using less.prems(2,3) False by (auto simp: sk_a_progress_def mult.commute)
      have "(if n - 1 > 8 then (if bm i \<noteq> 0 then sk_find_loop_a bm n (Suc i) n (i * 8 - 1)
           else sk_find_loop_a bm n (Suc i) (n - 1 - 8) (i * 8 - 1))
        else if ucast (bm i) AND (push_bit (n - 1) 1 - 1) \<noteq> (0 :: u32) then
          sk_find_loop_a bm n (Suc i) n (i * 8 - 1) else Some (i * 8 - 1)) = Some b"
        using less.prems(1) False c i unfolding sk_find_loop_a.simps [of bm n i c s]
        by (simp add: skheap_consts Let_def split del: if_split del: One_nat_def)
      then show ?thesis by (rule sk_a_tail [OF _ P i IH])
    qed
  qed
qed

section \<open>Allocating and freeing\<close>

lemma sk_offset:
  assumes "b < 4096"
  shows "unat ((s + of_nat b * SKHEAP_BLOCK_SIZE - s) div SKHEAP_BLOCK_SIZE) = b"
    and "(s + of_nat b * SKHEAP_BLOCK_SIZE - s) mod SKHEAP_BLOCK_SIZE = 0"
proof -
  have "unat (of_nat (b * 256) :: u32) = b * 256"
    using assms by (intro unat_of_nat_small) simp
  then have u: "unat (of_nat b * SKHEAP_BLOCK_SIZE) = b * 256"
    by (simp add: skheap_consts)
  show "unat ((s + of_nat b * SKHEAP_BLOCK_SIZE - s) div SKHEAP_BLOCK_SIZE) = b"
    using u by (simp add: unat_div skheap_consts)
  have "unat (of_nat b * SKHEAP_BLOCK_SIZE mod SKHEAP_BLOCK_SIZE) = 0"
    using u by (simp add: unat_mod skheap_consts)
  then show "(s + of_nat b * SKHEAP_BLOCK_SIZE - s) mod SKHEAP_BLOCK_SIZE = 0"
    by (simp add: unat_eq_zero)
qed

lemma sk_len:
  assumes "unat len = n * 256"
  shows "unat (len div SKHEAP_BLOCK_SIZE) = n" "len mod SKHEAP_BLOCK_SIZE = 0"
proof -
  show "unat (len div SKHEAP_BLOCK_SIZE) = n"
    using assms by (simp add: unat_div skheap_consts)
  have "unat (len mod SKHEAP_BLOCK_SIZE) = 0"
    using assms by (simp add: unat_mod skheap_consts)
  then show "len mod SKHEAP_BLOCK_SIZE = 0"
    by (simp add: unat_eq_zero)
qed

lemma skheap_mark_region_eq:
  assumes "b < 4096" and "unat len = n * 256"
  shows "skheap_mark_region h (sk_start h + of_nat b * SKHEAP_BLOCK_SIZE) len u =
    (if b + n \<ge> 4096 then Inl (Panic ''Trying to mark region outside of static kernel heap region.'')
     else if n = 0 then Inl (Panic ''Memory region size is zero or below SKHEAP_BLOCK_SIZE.'')
     else bindR (sk_mark_loop (sk_bitmap h) b n u) (\<lambda>bm. Inr (h\<lparr>sk_bitmap := bm\<rparr>)))"
  using sk_offset [OF assms(1), of "sk_start h"] sk_len [OF assms(2)]
  by (simp add: skheap_mark_region_def Let_def skheap_consts(1))

definition sk_blocks :: "u32 \<Rightarrow> nat" where
  "sk_blocks sz = (unat sz + 16) div 256 + 1"

lemma sk_ext_blocks:
  assumes "0 < sint sz" and "unat sz \<le> 2 ^ 20"
  shows "unat (sk_ext_size sz) = sk_blocks sz * 256" "unat sz + 16 < sk_blocks sz * 256"
  using sk_ext_size [OF assms(1)] assms(2) mod_less_divisor [of 256 "unat sz + 16"]
    mult_div_mod_eq [of 256 "unat sz + 16"]
  by (simp_all add: sk_blocks_def)

lemma skheap_malloc_Inr:
  assumes "skheap_malloc h sz = Inr (p, h')" and "p \<noteq> 0" and "unat sz \<le> 2 ^ 20"
  obtains b bm' where "b + sk_blocks sz < 4096" "p = sk_start h + of_nat b * SKHEAP_BLOCK_SIZE + 16"
    "\<forall>x \<in> {b ..< b + sk_blocks sz}. \<not> sk_used (sk_bitmap h) x"
    "\<forall>x. sk_used bm' x \<longleftrightarrow> sk_used (sk_bitmap h) x \<or> x \<in> {b ..< b + sk_blocks sz}"
    "h' = h\<lparr>sk_bitmap := bm', sk_mem := store_cs (sk_mem h) (p - 16) (sk_new_cs sz (sk_ext_size sz) 0)\<rparr>"
    "unat (sk_ext_size sz) = sk_blocks sz * 256"
proof -
  have pos: "0 < sint sz"
    using assms(1,2) by (auto simp: skheap_malloc_def split: if_splits)
  note ext = sk_ext_blocks [OF pos assms(3)]
  note len = sk_len [OF ext(1)]
  let ?n = "sk_blocks sz"
  obtain b where b: "sk_find_loop (sk_bitmap h) ?n 0 ?n 0 = Some b"
    using assms(1,2) pos len
    by (auto simp: skheap_malloc_def skheap_find_free_region_def Let_def split: option.splits)
  have free: "\<forall>x \<in> {b ..< b + ?n}. \<not> sk_used (sk_bitmap h) x \<and> x < 4096"
    using sk_find_free [OF b, of 0] by simp
  have n: "?n \<noteq> 0" by (simp add: sk_blocks_def)
  with free have b4: "b < 4096" by simp
  obtain bm' where bm': "sk_mark_loop (sk_bitmap h) b ?n True = Inr bm'"
    "\<forall>x. sk_used bm' x \<longleftrightarrow> (if x \<in> {b ..< b + ?n} then True else sk_used (sk_bitmap h) x)"
    using sk_mark_loop_ok [of b ?n "sk_bitmap h" True] free by auto
  have m: "skheap_malloc h sz = bindR (skheap_mark_region h (sk_start h + of_nat b * SKHEAP_BLOCK_SIZE) (sk_ext_size sz) True)
      (\<lambda>h'. Inr (sk_start h + of_nat b * SKHEAP_BLOCK_SIZE + 16,
        h'\<lparr>sk_mem := store_cs (sk_mem h') (sk_start h + of_nat b * SKHEAP_BLOCK_SIZE) (sk_new_cs sz (sk_ext_size sz) 0)\<rparr>))"
    using pos len b by (simp add: skheap_malloc_def skheap_find_free_region_def Let_def)
  have last: "b + ?n < 4096"
    using assms(1) m skheap_mark_region_eq [OF b4 ext(1), of h True] by (auto split: if_splits)
  then have "p = sk_start h + of_nat b * SKHEAP_BLOCK_SIZE + 16"
    "h' = h\<lparr>sk_bitmap := bm', sk_mem := store_cs (sk_mem h) (p - 16) (sk_new_cs sz (sk_ext_size sz) 0)\<rparr>"
    using assms(1) m skheap_mark_region_eq [OF b4 ext(1), of h True] bm'(1) n by auto
  moreover have "\<forall>x. sk_used bm' x \<longleftrightarrow> sk_used (sk_bitmap h) x \<or> x \<in> {b ..< b + ?n}"
    using bm'(2) by auto
  moreover have "\<forall>x \<in> {b ..< b + ?n}. \<not> sk_used (sk_bitmap h) x"
    using free by auto
  ultimately show ?thesis
    by (intro that [OF last _ _ _ _ ext(1)])
qed

lemma skheap_malloc_a_Inr:
  assumes "skheap_malloc_a h sz = Inr (q, h')" and "q \<noteq> 0" and "unat sz \<le> 2 ^ 20"
  shows "\<exists>b. b + sk_blocks sz < 4096 \<and> (b + 1) mod 16 = 0
    \<and> q = sk_start h + of_nat b * SKHEAP_BLOCK_SIZE + SKHEAP_BLOCK_SIZE
    \<and> (\<forall>x \<in> {b ..< b + sk_blocks sz}. \<not> sk_used (sk_bitmap h) x)
    \<and> (\<forall>x. sk_used (sk_bitmap h') x \<longleftrightarrow> sk_used (sk_bitmap h) x \<or> x \<in> {b ..< b + sk_blocks sz})
    \<and> sk_mem h' = store_cs (sk_mem h) (q - 16) (sk_new_cs sz (sk_ext_size sz) (SKHEAP_BLOCK_SIZE - 16))
    \<and> sk_start h' = sk_start h \<and> unat (sk_ext_size sz) = sk_blocks sz * 256"
proof -
  have pos: "0 < sint sz"
    using assms(1,2) by (auto simp: skheap_malloc_a_def split: if_splits)
  note ext = sk_ext_blocks [OF pos assms(3)]
  note len = sk_len [OF ext(1)]
  let ?n = "sk_blocks sz"
  have n: "1 \<le> ?n" by (simp add: sk_blocks_def)
  obtain b where b: "sk_find_loop_a (sk_bitmap h) ?n 2 ?n 0 = Some b"
    using assms(1,2) pos len
    by (auto simp: skheap_malloc_a_def skheap_find_free_region_aligned_def Let_def split: option.splits)
  have free: "\<forall>x \<in> {b ..< b + ?n}. \<not> sk_used (sk_bitmap h) x \<and> x < 4096" and al: "(b + 1) mod 16 = 0"
    using sk_find_a_free [OF b n] by simp_all
  have b4: "b < 4096" using free n by simp
  obtain bm' where bm': "sk_mark_loop (sk_bitmap h) b ?n True = Inr bm'"
    "\<forall>x. sk_used bm' x \<longleftrightarrow> (if x \<in> {b ..< b + ?n} then True else sk_used (sk_bitmap h) x)"
    using sk_mark_loop_ok [of b ?n "sk_bitmap h" True] free by auto
  let ?p = "sk_start h + of_nat b * SKHEAP_BLOCK_SIZE"
  have m: "skheap_malloc_a h sz = bindR (skheap_mark_region h ?p (sk_ext_size sz) True)
      (\<lambda>h'. Inr (?p + SKHEAP_BLOCK_SIZE,
        h'\<lparr>sk_mem := store_cs (sk_mem h') (?p + SKHEAP_BLOCK_SIZE - 16)
             (sk_new_cs sz (sk_ext_size sz) (SKHEAP_BLOCK_SIZE - 16))\<rparr>))"
    using pos len b by (simp add: skheap_malloc_a_def skheap_find_free_region_aligned_def Let_def)
  have last: "b + ?n < 4096"
    using assms(1) m skheap_mark_region_eq [OF b4 ext(1), of h True] by (auto split: if_splits)
  then have "q = ?p + SKHEAP_BLOCK_SIZE \<and> sk_bitmap h' = bm' \<and> sk_start h' = sk_start h
      \<and> sk_mem h' = store_cs (sk_mem h) (q - 16) (sk_new_cs sz (sk_ext_size sz) (SKHEAP_BLOCK_SIZE - 16))"
    using assms(1) m skheap_mark_region_eq [OF b4 ext(1), of h True] bm'(1) n by auto
  then show ?thesis
    using last al free bm'(2) ext(1) by (intro exI [of _ b]) auto
qed

lemma sk_addr_in_pool:
  assumes "unat s + 0x100000 < 2 ^ 32" and "k < 0x100000"
  shows "unat (s + of_nat k) = unat s + k" "\<not> s + of_nat k < s" "\<not> s + of_nat k \<ge> s + SKHEAP_SIZE"
proof -
  show u: "unat (s + of_nat k) = unat s + k"
    using assms by (subst unat_add_small) (simp_all add: unat_of_nat_small)
  moreover have "unat (s + SKHEAP_SIZE) = unat s + 0x100000"
    using assms by (subst unat_add_small) (simp_all add: skheap_consts)
  ultimately show "\<not> s + of_nat k < s" "\<not> s + of_nat k \<ge> s + SKHEAP_SIZE"
    using assms by (simp_all add: word_less_nat_alt word_le_nat_alt)
qed

lemma xor_ones_twice: "(w XOR 0xFFFFFFFF) XOR 0xFFFFFFFF = (w :: u32)"
  by (simp add: xor.assoc)

section \<open>Control structures of different blocks\<close>

lemma load_store32: "load32 (store32 m a w) a = w"
  by (simp add: load32_def store32_def bytes32)

lemma store32_apart: "4 \<le> unat (z - a) \<Longrightarrow> store32 m a w z = m z"
  by (auto simp: store32_def)

lemma store_cs_apart:
  assumes "16 \<le> unat (z - a)"
  shows "store_cs m a c z = m z"
proof -
  have "4 \<le> unat (z - (a + of_nat k))" if "k \<le> 12" for k
  proof -
    have "z - (a + of_nat k) = (z - a) - of_nat k" by simp
    also have "unat \<dots> = unat (z - a) - k"
      using assms that by (subst unat_sub_small) (simp_all add: unat_of_nat_small)
    finally show ?thesis using assms that by simp
  qed
  from this [of 0] this [of 4] this [of 8] this [of 12] show ?thesis
    by (simp add: store_cs_def store32_apart)
qed

lemma load_cs_cong:
  assumes "\<And>j. j < 16 \<Longrightarrow> m (a + of_nat j) = m' (a + of_nat j)"
  shows "load_cs m a = load_cs m' a"
proof -
  have "load32 m (a + of_nat k) = load32 m' (a + of_nat k)" if "k \<le> 12" for k
    using assms [of k] assms [of "k + 1"] assms [of "k + 2"] assms [of "k + 3"] that
    by (simp add: load32_def ac_simps)
  from this [of 0] this [of 4] this [of 8] this [of 12] show ?thesis
    by (simp add: load_cs_def)
qed

text \<open>Two control structures at offsets \<open>x\<close> and \<open>y\<close> of the pool that do not overlap.\<close>

lemma load_store_cs_other:
  assumes "x < 2 ^ 20" and "y < 2 ^ 20" and "x + 16 \<le> y \<or> y + 16 \<le> x"
  shows "load_cs (store_cs m (s + of_nat x) c) (s + of_nat y) = load_cs m (s + of_nat y)"
proof (rule load_cs_cong)
  fix j :: nat assume j: "j < 16"
  have d: "s + of_nat y + of_nat j - (s + of_nat x) = of_nat (y + j) - (of_nat x :: u32)" by simp
  have "16 \<le> unat (of_nat (y + j) - (of_nat x :: u32))"
  proof (cases "x \<le> y + j")
    case True
    have "unat (of_nat (y + j) :: u32) = y + j" "unat (of_nat x :: u32) = x"
      using assms j by (simp_all add: unat_of_nat_small del: of_nat_add)
    then show ?thesis using True assms j by (subst unat_sub_small) simp_all
  next
    case False
    have "of_nat (y + j) - (of_nat x :: u32) = - of_nat (x - (y + j))" using False by simp
    also have "\<dots> = of_nat (2 ^ 32 - (x - (y + j)))"
      using False assms by (simp add: of_nat_diff)
    also have "unat \<dots> = 2 ^ 32 - (x - (y + j))"
      using False assms by (intro unat_of_nat_small) simp
    finally show ?thesis using assms by simp
  qed
  then show "store_cs m (s + of_nat x) c (s + of_nat y + of_nat j) = m (s + of_nat y + of_nat j)"
    by (intro store_cs_apart) (simp only: d)
qed

section \<open>The allocator contract\<close>

text \<open>A request is a size of at most the pool, and whether the block is to be page-aligned; the handle
  is the pointer. The blocks behind a pointer are those that \<^verbatim>\<open>skheap_free\<close> reads from the control
  structure in front of it.\<close>

definition skheap_get :: "skheap \<Rightarrow> u32 \<times> bool \<Rightarrow> (u32 \<times> skheap) option" where
  "skheap_get h r =
     (if unat (fst r) > 2 ^ 20 then None
      else case (if snd r then skheap_malloc_a h (fst r) else skheap_malloc h (fst r)) of
        Inl _ \<Rightarrow> None
      | Inr (p, h') \<Rightarrow> if p = 0 then None else Some (p, h'))"

definition skheap_put :: "skheap \<Rightarrow> u32 \<Rightarrow> skheap option" where
  "skheap_put h p = (case skheap_free h p of Inl _ \<Rightarrow> None | Inr h' \<Rightarrow> Some h')"

definition sk_area :: "skheap \<Rightarrow> u32 \<Rightarrow> nat set" where
  "sk_area h p =
     (let cs = load_cs (sk_mem h) (p - 16);
          b = unat ((p - 16 - cs_padding cs - sk_start h) div SKHEAP_BLOCK_SIZE)
      in {b ..< b + unat (cs_ext_size cs div SKHEAP_BLOCK_SIZE)})"

definition sk_shape :: "skheap \<Rightarrow> u32 \<Rightarrow> nat \<Rightarrow> nat \<Rightarrow> nat \<Rightarrow> bool" where
  "sk_shape h p b n pad \<longleftrightarrow>
     (let cs = load_cs (sk_mem h) (p - 16) in
      p = sk_start h + of_nat (b * 256 + pad + 16) \<and> cs_padding cs = of_nat pad \<and> pad \<le> 240
      \<and> unat (cs_ext_size cs) = n * 256 \<and> cs_crc_size cs XOR 0xFFFFFFFF = cs_size cs + cs_ext_size cs
      \<and> n \<noteq> 0 \<and> b + n < 4096)"

definition sk_valid :: "skheap \<Rightarrow> u32 \<Rightarrow> bool" where
  "sk_valid h p \<longleftrightarrow> (\<exists>b n pad. sk_shape h p b n pad) \<and> sk_area h p \<subseteq> Collect (sk_used (sk_bitmap h))"

definition sk_placed :: "skheap \<Rightarrow> bool" where
  "sk_placed h \<longleftrightarrow> unat (sk_start h) + 0x100000 < 2 ^ 32"

lemma sk_shapeD:
  assumes "sk_shape h p b n pad"
  shows "p = sk_start h + of_nat (b * 256 + pad + 16)" "cs_padding (load_cs (sk_mem h) (p - 16)) = of_nat pad"
    "pad \<le> 240" "unat (cs_ext_size (load_cs (sk_mem h) (p - 16))) = n * 256"
    "cs_crc_size (load_cs (sk_mem h) (p - 16)) XOR 0xFFFFFFFF
       = cs_size (load_cs (sk_mem h) (p - 16)) + cs_ext_size (load_cs (sk_mem h) (p - 16))"
    "n \<noteq> 0" "b + n < 4096"
  using assms unfolding sk_shape_def Let_def by blast+

lemma sk_shape_base:
  assumes "sk_shape h p b n pad"
  shows "p - 16 = sk_start h + of_nat (b * 256 + pad)"
    and "p - 16 - cs_padding (load_cs (sk_mem h) (p - 16)) = sk_start h + of_nat b * SKHEAP_BLOCK_SIZE"
proof -
  show p: "p - 16 = sk_start h + of_nat (b * 256 + pad)"
    by (subst sk_shapeD(1) [OF assms]) simp
  show "p - 16 - cs_padding (load_cs (sk_mem h) (p - 16)) = sk_start h + of_nat b * SKHEAP_BLOCK_SIZE"
    unfolding sk_shapeD(2) [OF assms] unfolding p by (simp add: skheap_consts)
qed

lemma sk_shape_area:
  assumes "sk_shape h p b n pad"
  shows "sk_area h p = {b ..< b + n}"
proof -
  have "b < 4096" using sk_shapeD(7) [OF assms] by simp
  then show ?thesis
    unfolding sk_area_def Let_def sk_shape_base(2) [OF assms] sk_len(1) [OF sk_shapeD(4) [OF assms]]
    by (simp only: sk_offset(1))
qed

lemma sk_put_valid:
  assumes v: "sk_valid h p" and pool: "sk_placed h"
  shows "\<exists>bm. skheap_put h p = Some (h\<lparr>sk_bitmap := bm\<rparr>)
    \<and> Collect (sk_used bm) = Collect (sk_used (sk_bitmap h)) - sk_area h p"
proof -
  obtain b n pad where s: "sk_shape h p b n pad" using v by (auto simp: sk_valid_def)
  let ?cs = "load_cs (sk_mem h) (p - 16)"
  note f = sk_shapeD [OF s]
  have "b * 256 + pad + 16 < 0x100000" using f(3,6,7) by simp
  from sk_addr_in_pool [OF pool [unfolded sk_placed_def] this]
  have in_pool: "unat p = unat (sk_start h) + (b * 256 + pad + 16)" "\<not> p < sk_start h" "\<not> p \<ge> sk_start h + SKHEAP_SIZE"
    unfolding f(1) [symmetric] .
  then have "p \<noteq> 0" by (auto simp: unat_eq_zero)
  obtain bm where bm: "sk_mark_loop (sk_bitmap h) b n False = Inr bm"
    "\<forall>x. sk_used bm x \<longleftrightarrow> (if x \<in> {b ..< b + n} then False else sk_used (sk_bitmap h) x)"
    using sk_mark_loop_ok [of b n "sk_bitmap h" False] v sk_shape_area [OF s] by (auto simp: sk_valid_def)
  have "b < 4096" using f(7) by simp
  from skheap_mark_region_eq [OF this f(4), of h False]
  have "skheap_mark_region h (sk_start h + of_nat b * SKHEAP_BLOCK_SIZE) (cs_ext_size ?cs) False = Inr (h\<lparr>sk_bitmap := bm\<rparr>)"
    using f(6,7) bm(1) by simp
  then have "skheap_free h p = Inr (h\<lparr>sk_bitmap := bm\<rparr>)"
    unfolding skheap_free_def Let_def sk_shape_base(2) [OF s] f(5) using \<open>p \<noteq> 0\<close> in_pool by simp
  then show ?thesis
    using bm(2) sk_shape_area [OF s] by (intro exI [of _ bm]) (auto simp: skheap_put_def split: if_splits)
qed

text \<open>Every allocation makes a valid handle, and leaves the others as they were.\<close>

lemma sk_get_shape:
  assumes "skheap_get h r = Some (p, h')"
  shows "\<exists>b n pad. sk_shape h' p b n pad \<and> sk_start h' = sk_start h
    \<and> (\<forall>x \<in> {b ..< b + n}. \<not> sk_used (sk_bitmap h) x)
    \<and> (\<forall>x. sk_used (sk_bitmap h') x \<longleftrightarrow> sk_used (sk_bitmap h) x \<or> x \<in> {b ..< b + n})
    \<and> (\<exists>c. sk_mem h' = store_cs (sk_mem h) (p - 16) c)"
proof -
  obtain sz al where r: "r = (sz, al)" by force
  have small: "unat sz \<le> 2 ^ 20" and p: "p \<noteq> 0"
    and m: "(if al then skheap_malloc_a h sz else skheap_malloc h sz) = Inr (p, h')"
    using assms by (auto simp: skheap_get_def r split: if_splits sum.splits)
  have n: "sk_blocks sz \<noteq> 0" by (simp add: sk_blocks_def)
  show ?thesis
  proof (cases al)
    case True
    then obtain b where b: "b + sk_blocks sz < 4096"
      "p = sk_start h + of_nat b * SKHEAP_BLOCK_SIZE + SKHEAP_BLOCK_SIZE"
      "\<forall>x \<in> {b ..< b + sk_blocks sz}. \<not> sk_used (sk_bitmap h) x"
      "\<forall>x. sk_used (sk_bitmap h') x \<longleftrightarrow> sk_used (sk_bitmap h) x \<or> x \<in> {b ..< b + sk_blocks sz}"
      "sk_mem h' = store_cs (sk_mem h) (p - 16) (sk_new_cs sz (sk_ext_size sz) (SKHEAP_BLOCK_SIZE - 16))"
      "sk_start h' = sk_start h" "unat (sk_ext_size sz) = sk_blocks sz * 256"
      using skheap_malloc_a_Inr [of h sz p h'] m p small by auto
    then have "sk_shape h' p b (sk_blocks sz) 240"
      using n by (simp add: sk_shape_def Let_def load_store_cs sk_new_cs_def xor_ones_twice skheap_consts)
    with b show ?thesis by blast
  next
    case False
    with m have m: "skheap_malloc h sz = Inr (p, h')" by simp
    obtain b bm' where b: "b + sk_blocks sz < 4096" "p = sk_start h + of_nat b * SKHEAP_BLOCK_SIZE + 16"
      "\<forall>x \<in> {b ..< b + sk_blocks sz}. \<not> sk_used (sk_bitmap h) x"
      "\<forall>x. sk_used bm' x \<longleftrightarrow> sk_used (sk_bitmap h) x \<or> x \<in> {b ..< b + sk_blocks sz}"
      "h' = h\<lparr>sk_bitmap := bm', sk_mem := store_cs (sk_mem h) (p - 16) (sk_new_cs sz (sk_ext_size sz) 0)\<rparr>"
      "unat (sk_ext_size sz) = sk_blocks sz * 256"
      using skheap_malloc_Inr [OF m p small] by blast
    then have "sk_shape h' p b (sk_blocks sz) 0"
      using n by (simp add: sk_shape_def Let_def load_store_cs sk_new_cs_def xor_ones_twice skheap_consts)
    with b show ?thesis by (intro exI [of _ b] exI [of _ "sk_blocks sz"] exI [of _ 0]) auto
  qed
qed

lemma sk_get_keeps:
  assumes get: "skheap_get h r = Some (p, h')" and k: "sk_valid h k"
  shows "sk_valid h' k \<and> sk_area h' k = sk_area h k"
proof -
  obtain b n pad c where s: "sk_shape h' p b n pad" "sk_start h' = sk_start h"
    "\<forall>x \<in> {b ..< b + n}. \<not> sk_used (sk_bitmap h) x"
    "\<forall>x. sk_used (sk_bitmap h') x \<longleftrightarrow> sk_used (sk_bitmap h) x \<or> x \<in> {b ..< b + n}"
    "sk_mem h' = store_cs (sk_mem h) (p - 16) c"
    using sk_get_shape [OF get] by blast
  obtain b2 n2 pad2 where s2: "sk_shape h k b2 n2 pad2" using k by (auto simp: sk_valid_def)
  have used: "{b2 ..< b2 + n2} \<subseteq> Collect (sk_used (sk_bitmap h))"
    using k sk_shape_area [OF s2] by (simp add: sk_valid_def)
  note bounds = sk_shapeD(3,6,7) [OF s(1)] sk_shapeD(3,6,7) [OF s2]
  have "b \<noteq> b2" using s(3) used bounds by fastforce
  then have "b * 256 + pad + 16 \<le> b2 * 256 + pad2 \<or> b2 * 256 + pad2 + 16 \<le> b * 256 + pad"
    using bounds by (cases "b < b2") auto
  then have "load_cs (store_cs (sk_mem h) (sk_start h + of_nat (b * 256 + pad)) c) (sk_start h + of_nat (b2 * 256 + pad2))
      = load_cs (sk_mem h) (sk_start h + of_nat (b2 * 256 + pad2))"
    using bounds by (intro load_store_cs_other) auto
  then have cs: "load_cs (sk_mem h') (k - 16) = load_cs (sk_mem h) (k - 16)"
    unfolding s(5) sk_shape_base(1) [OF s(1)] sk_shape_base(1) [OF s2] s(2) .
  have "sk_area h' k = sk_area h k" "sk_shape h' k b2 n2 pad2"
    using s2 by (simp_all add: sk_area_def sk_shape_def cs s(2))
  then show ?thesis
    using k s(4) by (auto simp: sk_valid_def)
qed

lemma sk_valid_bitmap:
  assumes "sk_valid h k" and "sk_area h k \<subseteq> Collect (sk_used bm)"
  shows "sk_valid (h\<lparr>sk_bitmap := bm\<rparr>) k \<and> sk_area (h\<lparr>sk_bitmap := bm\<rparr>) k = sk_area h k"
  using assms by (simp add: sk_valid_def sk_area_def sk_shape_def)

interpretation skheap: block_allocator skheap_get skheap_put sk_placed
  "\<lambda>h. Collect (sk_used (sk_bitmap h))" sk_valid sk_area
proof
  show "sk_placed s' \<and> sk_valid s' h \<and> sk_area s' h \<inter> Collect (sk_used (sk_bitmap s)) = {}
      \<and> Collect (sk_used (sk_bitmap s')) = Collect (sk_used (sk_bitmap s)) \<union> sk_area s' h"
    if "sk_placed s" "skheap_get s r = Some (h, s')" for s r h s'
    using sk_get_shape [OF that(2)] that(1) by (fastforce simp: sk_valid_def sk_placed_def sk_shape_area)
  show "sk_valid s' k \<and> sk_area s' k = sk_area s k"
    if "sk_placed s" "skheap_get s r = Some (h, s')" "sk_valid s k" for s r h s' k
    by (rule sk_get_keeps [OF that(2,3)])
  show "\<exists>s'. skheap_put s h = Some s' \<and> sk_placed s'
      \<and> Collect (sk_used (sk_bitmap s')) = Collect (sk_used (sk_bitmap s)) - sk_area s h"
    if "sk_placed s" "sk_valid s h" for s h
    using sk_put_valid [OF that(2,1)] that(1) by (auto simp: sk_placed_def)
  show "sk_valid s' k \<and> sk_area s' k = sk_area s k"
    if "sk_placed s" "sk_valid s h" "skheap_put s h = Some s'" "sk_valid s k" "sk_area s k \<inter> sk_area s h = {}"
    for s h s' k
  proof -
    note prem = that
    obtain bm where bm: "s' = s\<lparr>sk_bitmap := bm\<rparr>"
      "Collect (sk_used bm) = Collect (sk_used (sk_bitmap s)) - sk_area s h"
      using sk_put_valid [OF prem(2,1)] prem(3) by auto
    have "sk_area s k \<subseteq> Collect (sk_used bm)"
      using prem(4,5) unfolding bm(2) sk_valid_def by blast
    then show ?thesis
      unfolding bm(1) by (rule sk_valid_bitmap [OF prem(4)])
  qed
  show "sk_area s h \<subseteq> Collect (sk_used (sk_bitmap s))" if "sk_placed s" "sk_valid s h" for s h
    using that(2) by (simp add: sk_valid_def)
qed

section \<open>Properties\<close>

text \<open>
  C12. In every run of plain and page-aligned allocations and of releases, in any order, the blocks
  behind the pointers that the client holds are pairwise disjoint, none was in use before the run, and
  with those they are exactly what is in use. \<^verbatim>\<open>skheap_free\<close> of a pointer held finds its control
  structure intact and succeeds.\<close>

theorem skheap_runs_exact:
  assumes "alloc_reach skheap_get skheap_put h0 h ps" and "sk_placed h0"
  shows "(\<forall>i j. i < length ps \<longrightarrow> j < length ps \<longrightarrow> i \<noteq> j \<longrightarrow> sk_area h (ps ! i) \<inter> sk_area h (ps ! j) = {})
    \<and> Collect (sk_used (sk_bitmap h)) = Collect (sk_used (sk_bitmap h0)) \<union> (\<Union>p \<in> set ps. sk_area h p)
    \<and> (\<forall>p \<in> set ps. sk_area h p \<inter> Collect (sk_used (sk_bitmap h0)) = {} \<and> (\<exists>h'. skheap_put h p = Some h'))"
  by (rule skheap.run_exact [OF assms])

text \<open>A successful \<^verbatim>\<open>skheap_malloc\<close> returns a block inside the pool that is large enough for
  the request and its control structure, made of heap blocks that were all free; exactly these
  become used. So live allocations never overlap.\<close>

theorem skheap_malloc_exclusive:
  assumes "skheap_malloc h sz = Inr (p, h')" and "p \<noteq> 0" and "unat sz \<le> 2 ^ 20"
  shows "\<exists>b n. p = sk_start h + of_nat b * SKHEAP_BLOCK_SIZE + 16 \<and> b + n < SKHEAP_BLOCK_COUNT
    \<and> 16 + unat sz \<le> 256 * n \<and> (\<forall>x \<in> {b ..< b + n}. \<not> sk_used (sk_bitmap h) x)
    \<and> (\<forall>x. sk_used (sk_bitmap h') x \<longleftrightarrow> sk_used (sk_bitmap h) x \<or> x \<in> {b ..< b + n})"
proof -
  have "0 < sint sz"
    using assms(1,2) by (auto simp: skheap_malloc_def split: if_splits)
  then have "unat sz + 16 < sk_blocks sz * 256"
    using sk_ext_blocks(2) assms(3) by blast
  moreover obtain b bm' where "b + sk_blocks sz < 4096" "p = sk_start h + of_nat b * SKHEAP_BLOCK_SIZE + 16"
    "\<forall>x \<in> {b ..< b + sk_blocks sz}. \<not> sk_used (sk_bitmap h) x"
    "\<forall>x. sk_used bm' x \<longleftrightarrow> sk_used (sk_bitmap h) x \<or> x \<in> {b ..< b + sk_blocks sz}"
    "h' = h\<lparr>sk_bitmap := bm', sk_mem := store_cs (sk_mem h) (p - 16) (sk_new_cs sz (sk_ext_size sz) 0)\<rparr>"
    using skheap_malloc_Inr [OF assms] by blast
  ultimately show ?thesis
    by (intro exI [of _ b] exI [of _ "sk_blocks sz"]) (simp add: skheap_consts(1))
qed

lemma sk_malloc_example:
  "\<exists>h'. skheap_malloc \<lparr> sk_start = 0x200000, sk_bitmap = (\<lambda>i. if i = 0 then 1 else 0), sk_mem = (\<lambda>_. 0) \<rparr> 300
     = Inr (0x200810, h')"
proof -
  let ?h = "\<lparr> sk_start = 0x200000, sk_bitmap = (\<lambda>i. if i = 0 then 1 else 0), sk_mem = (\<lambda>_. 0) \<rparr>"
  have pos: "sint (300 :: u32) = 300" using sint_of_nat_small [of 300] by simp
  have ext: "unat (sk_ext_size 300) = 2 * 256"
    using sk_ext_blocks(1) [of 300] pos by (simp add: sk_blocks_def)
  have f: "sk_find_loop (sk_bitmap ?h) 2 0 2 0 = Some 8"
    by (subst sk_find_loop.simps, subst sk_find_loop.simps) (simp add: skheap_consts)
  have "\<forall>x \<in> {8 ..< 8 + 2}. sk_used (sk_bitmap ?h) x \<noteq> True"
    by (auto simp: sk_used_def)
  then obtain bm' where "sk_mark_loop (sk_bitmap ?h) 8 2 True = Inr bm'"
    using sk_mark_loop_ok by blast
  then have "skheap_mark_region ?h (0x200000 + of_nat 8 * SKHEAP_BLOCK_SIZE) (sk_ext_size 300) True
      = Inr (?h\<lparr>sk_bitmap := bm'\<rparr>)"
    using skheap_mark_region_eq [of 8 "sk_ext_size 300" 2 ?h True] ext by simp
  then have "skheap_mark_region ?h 0x200800 (sk_ext_size 300) True = Inr (?h\<lparr>sk_bitmap := bm'\<rparr>)"
    by (simp add: skheap_consts)
  then show ?thesis
    using pos f sk_len [OF ext]
    by (simp add: skheap_malloc_def skheap_find_free_region_def Let_def skheap_consts(3))
qed

lemma skheap_malloc_exclusive_witness:
  "\<exists>h' b n. skheap_malloc \<lparr> sk_start = 0x200000, sk_bitmap = (\<lambda>i. if i = 0 then 1 else 0), sk_mem = (\<lambda>_. 0) \<rparr> 300
     = Inr (0x200810, h') \<and> 0x200810 = 0x200000 + of_nat b * SKHEAP_BLOCK_SIZE + 16 \<and> 316 \<le> 256 * n
     \<and> (\<forall>x \<in> {b ..< b + n}. sk_used (sk_bitmap h') x)"
proof -
  let ?h = "\<lparr> sk_start = 0x200000, sk_bitmap = (\<lambda>i. if i = 0 then 1 else 0), sk_mem = (\<lambda>_. 0) \<rparr>"
  obtain h' where h': "skheap_malloc ?h 300 = Inr (0x200810, h')" using sk_malloc_example by blast
  have "(0x200810 :: u32) \<noteq> 0" "unat (300 :: u32) \<le> 2 ^ 20" by simp_all
  from skheap_malloc_exclusive [OF h' this] obtain b n where
    "0x200810 = sk_start ?h + of_nat b * SKHEAP_BLOCK_SIZE + 16" "16 + unat (300 :: u32) \<le> 256 * n"
    "\<forall>x. sk_used (sk_bitmap h') x \<longleftrightarrow> sk_used (sk_bitmap ?h) x \<or> x \<in> {b ..< b + n}" by blast
  with h' show ?thesis by (intro exI [of _ h'] exI [of _ b] exI [of _ n]) simp
qed

lemma skheap_runs_exact_witness:
  "\<exists>h. skheap_get \<lparr> sk_start = 0x200000, sk_bitmap = (\<lambda>i. if i = 0 then 1 else 0), sk_mem = (\<lambda>_. 0) \<rparr> (300, False)
     = Some (0x200810, h)
     \<and> Collect (sk_used (sk_bitmap h)) = Collect (sk_used (\<lambda>i. if i = 0 then 1 else 0)) \<union> sk_area h 0x200810
     \<and> (\<exists>h'. skheap_put h 0x200810 = Some h')"
proof -
  let ?h = "\<lparr> sk_start = 0x200000, sk_bitmap = (\<lambda>i. if i = 0 then 1 else 0), sk_mem = (\<lambda>_. 0) \<rparr>"
  obtain h where g: "skheap_get ?h (300, False) = Some (0x200810, h)"
    using sk_malloc_example by (auto simp: skheap_get_def)
  have "alloc_reach skheap_get skheap_put ?h h [0x200810]"
    by (rule alloc_reach.allocate [of skheap_get skheap_put ?h ?h "[]" "(300, False)", OF alloc_reach.start g])
  moreover have "sk_placed ?h" by (simp add: sk_placed_def)
  ultimately have "Collect (sk_used (sk_bitmap h)) = Collect (sk_used (sk_bitmap ?h)) \<union> sk_area h 0x200810
      \<and> (\<exists>h'. skheap_put h 0x200810 = Some h')"
    using skheap_runs_exact [of ?h h "[0x200810]"] by simp
  with g show ?thesis by auto
qed

text \<open>The page-aligned allocator returns a pointer on a 4096-byte boundary of the pool and takes
  only free blocks, but it spends a whole block on the control structure while it reserved 16
  bytes for it. What is left behind the pointer is smaller than the request exactly when the
  request with those 16 bytes ends more than 16 bytes into a block.\<close>

theorem skheap_malloc_a_too_small:
  assumes "skheap_malloc_a h sz = Inr (q, h')" and "q \<noteq> 0" and "unat sz \<le> 2 ^ 20"
  shows "\<exists>b n. q = sk_start h + of_nat (16 * n) * SKHEAP_BLOCK_SIZE \<and> 16 * n + b < SKHEAP_BLOCK_COUNT
    \<and> (\<forall>x \<in> {16 * n - 1 ..< 16 * n + b}. \<not> sk_used (sk_bitmap h) x)
    \<and> (\<forall>x. sk_used (sk_bitmap h') x \<longleftrightarrow> sk_used (sk_bitmap h) x \<or> x \<in> {16 * n - 1 ..< 16 * n + b})
    \<and> (256 * b < unat sz \<longleftrightarrow> 16 < (unat sz + 16) mod 256)"
proof -
  obtain s where s: "s + sk_blocks sz < 4096" "(s + 1) mod 16 = 0"
    "q = sk_start h + of_nat s * SKHEAP_BLOCK_SIZE + SKHEAP_BLOCK_SIZE"
    "\<forall>x \<in> {s ..< s + sk_blocks sz}. \<not> sk_used (sk_bitmap h) x"
    "\<forall>x. sk_used (sk_bitmap h') x \<longleftrightarrow> sk_used (sk_bitmap h) x \<or> x \<in> {s ..< s + sk_blocks sz}"
    using skheap_malloc_a_Inr [OF assms] by (elim exE conjE) (rule that; assumption)
  define n where "n = (s + 1) div 16"
  have n: "s + 1 = 16 * n"
    using mult_div_mod_eq [of 16 "s + 1"] unfolding s(2) n_def by linarith
  define b where "b = (unat sz + 16) div 256"
  have nb: "sk_blocks sz = b + 1" by (simp add: b_def sk_blocks_def)
  have sn: "s = 16 * n - 1" "s + sk_blocks sz = 16 * n + b" using n nb by auto
  have "sk_start h + of_nat (16 * n) * SKHEAP_BLOCK_SIZE = q"
    unfolding s(3) n [symmetric] by (simp add: distrib_right)
  moreover have "256 * b < unat sz \<longleftrightarrow> 16 < (unat sz + 16) mod 256"
    using mult_div_mod_eq [of 256 "unat sz + 16"] unfolding b_def by linarith
  ultimately show ?thesis
    using s(1,4,5) unfolding sn(2) unfolding sn(1)
    by - (rule exI [of _ b], rule exI [of _ n], simp add: skheap_consts(1))
qed

lemma skheap_malloc_a_too_small_witness:
  "\<exists>h' q b. skheap_malloc_a \<lparr> sk_start = 0x200000, sk_bitmap = (\<lambda>_. 0), sk_mem = (\<lambda>_. 0) \<rparr> 100
     = Inr (q, h') \<and> 256 * b < unat (100 :: u32)"
proof -
  let ?h = "\<lparr> sk_start = 0x200000, sk_bitmap = (\<lambda>_. 0), sk_mem = (\<lambda>_. 0) \<rparr>"
  have pos: "sint (100 :: u32) = 100" using sint_of_nat_small [of 100] by simp
  have ext: "unat (sk_ext_size 100) = 1 * 256"
    using sk_ext_blocks(1) [of 100] pos by (simp add: sk_blocks_def)
  have f: "sk_find_loop_a (sk_bitmap ?h) 1 2 1 0 = Some 15"
    by (subst sk_find_loop_a.simps) (simp add: skheap_consts)
  have "\<forall>x \<in> {15 ..< 15 + 1}. sk_used (sk_bitmap ?h) x \<noteq> True"
    by (auto simp: sk_used_def)
  then obtain bm' where "sk_mark_loop (sk_bitmap ?h) 15 1 True = Inr bm'"
    using sk_mark_loop_ok by blast
  then have "skheap_mark_region ?h (0x200000 + of_nat 15 * SKHEAP_BLOCK_SIZE) (sk_ext_size 100) True
      = Inr (?h\<lparr>sk_bitmap := bm'\<rparr>)"
    using skheap_mark_region_eq [of 15 "sk_ext_size 100" 1 ?h True] ext by simp
  then have "skheap_mark_region ?h 0x200F00 (sk_ext_size 100) True = Inr (?h\<lparr>sk_bitmap := bm'\<rparr>)"
    by (simp add: skheap_consts)
  then obtain h' where h': "skheap_malloc_a ?h 100 = Inr (0x201000, h')"
    using pos f sk_len [OF ext]
    by (simp add: skheap_malloc_a_def skheap_find_free_region_aligned_def Let_def skheap_consts(3))
  have "(0x201000 :: u32) \<noteq> 0" "unat (100 :: u32) \<le> 2 ^ 20" by simp_all
  from skheap_malloc_a_too_small [OF h' this] obtain b where
    "256 * b < unat (100 :: u32) \<longleftrightarrow> 16 < (unat (100 :: u32) + 16) mod 256" by blast
  with h' show ?thesis by auto
qed

end
