(* ===== verification/Heap.thy ===== *)
theory Heap
  imports Sync CString
begin

unbundle bit_operations_syntax

text \<open>
  Model of \<^verbatim>\<open>libc/stdlib_memory.c\<close> and of the \<^verbatim>\<open>kmalloc\<close> family of \<^verbatim>\<open>mm.c\<close> that forwards to it:
  heaps of up to 8 MB tiled by blocks, each behind a control block of 20 bytes, with first-fit
  allocation, splitting, and merging with the following free blocks. Control blocks are a typed
  store, a function from address to control block; the contents of the blocks are flat memory.
\<close>

section \<open>Data\<close>

definition MM_MAGIC :: u32 where "MM_MAGIC = 0x4E584D4D"
definition MAX_HEAPS :: u32 where "MAX_HEAPS = 16"
definition DEFAULT_HEAP_SIZE :: u32 where "DEFAULT_HEAP_SIZE = 8 * 1024 * 1024"

definition USAGE_KERNEL :: u32 where "USAGE_KERNEL = 0x2"
definition USAGE_USER :: u32 where "USAGE_USER = 0x4"
definition USAGE_DATA :: u32 where "USAGE_DATA = 0x100"

text \<open>The size of a control block.\<close>

definition MCB_SIZE :: u32 where "MCB_SIZE = 20"

record mm_control_block =
  mcb_heap_id :: u32
  mcb_magic :: u32
  mcb_size :: u32
  mcb_padding :: u32
  mcb_free :: bool

record mm_heap_descriptor =
  hd_lock :: mutex
  hd_memory :: u32
  hd_size :: u32

record mm_context =
  ctx_initialized :: bool
  ctx_pid :: u32
  ctx_kernel_mode :: bool
  ctx_heap_count :: u32
  ctx_lock :: mutex
  ctx_heaps :: "mm_heap_descriptor list"

type_synonym mcbs = "u32 \<Rightarrow> mm_control_block"

record mm_state =
  mm_ctx :: mm_context
  mm_mcbs :: mcbs
  mm_bytes :: mem

section \<open>Blocks of one heap\<close>

text \<open>The scan of \<^verbatim>\<open>mm_allocate_block_from_heap\<close>: the success flag, the result pointer (0 if no block
  fits), and the control blocks.\<close>

partial_function (option) alloc_loop ::
  "mcbs \<Rightarrow> u32 \<Rightarrow> u32 \<Rightarrow> u32 \<Rightarrow> (bool \<times> u32 \<times> mcbs) option" where
  "alloc_loop m addr end_addr sz =
     (if addr = end_addr then Some (True, 0, m)
      else
        let mcb = m addr in
        if mcb_magic mcb \<noteq> MM_MAGIC then Some (False, 0, m)
        else if mcb_free mcb \<and> mcb_size mcb \<ge> sz + MCB_SIZE then
          let m = (if mcb_size mcb = sz then m(addr := mcb\<lparr>mcb_free := False\<rparr>)
                   else m(addr + MCB_SIZE + sz :=
                            \<lparr> mcb_heap_id = mcb_heap_id mcb, mcb_magic = MM_MAGIC,
                              mcb_size = mcb_size mcb - sz - MCB_SIZE, mcb_padding = 0, mcb_free = True \<rparr>,
                          addr := mcb\<lparr>mcb_free := False, mcb_size := sz\<rparr>))
          in Some (True, addr + MCB_SIZE, m)
        else alloc_loop m (addr + (mcb_size mcb + MCB_SIZE)) end_addr sz)"

definition mm_allocate_block_from_heap ::
  "cpu \<Rightarrow> mm_heap_descriptor \<Rightarrow> mcbs \<Rightarrow> u32 \<Rightarrow> (bool \<times> u32 \<times> cpu \<times> mm_heap_descriptor \<times> mcbs) run" where
  "mm_allocate_block_from_heap c d m sz =
     bindR (mutex_lock c (hd_lock d)) (\<lambda>(c, l).
     case alloc_loop m (hd_memory d) (hd_memory d + hd_size d) sz of
       None \<Rightarrow> Inl NoReturn
     | Some (success, result, m) \<Rightarrow>
         bindR (mutex_unlock c l) (\<lambda>(c, l). Inr (success, result, c, d\<lparr>hd_lock := l\<rparr>, m)))"

text \<open>The merging loop of \<^verbatim>\<open>mm_free_block_from_heap\<close>: the bytes to add, or nothing if the chain is
  broken.\<close>

partial_function (option) free_loop :: "mcbs \<Rightarrow> u32 \<Rightarrow> u32 \<Rightarrow> u32 \<Rightarrow> u32 option option" where
  "free_loop m next end_addr expand_size =
     (if next = end_addr then Some (Some expand_size)
      else if next > end_addr \<or> next \<le> end_addr \<and> mcb_magic (m next) \<noteq> MM_MAGIC then Some None
      else if \<not> mcb_free (m next) then Some (Some expand_size)
      else free_loop m (next + MCB_SIZE + mcb_size (m next) + mcb_padding (m next)) end_addr
             (expand_size + (mcb_size (m next) + MCB_SIZE)))"

definition mm_free_block_from_heap ::
  "cpu \<Rightarrow> mm_heap_descriptor \<Rightarrow> mcbs \<Rightarrow> u32 \<Rightarrow> (bool \<times> cpu \<times> mm_heap_descriptor \<times> mcbs) run" where
  "mm_free_block_from_heap c d m p =
     bindR (mutex_lock c (hd_lock d)) (\<lambda>(c, l).
     case free_loop m (p + MCB_SIZE + mcb_size (m p) + mcb_padding (m p)) (hd_memory d + hd_size d) 0 of
       None \<Rightarrow> Inl NoReturn
     | Some None \<Rightarrow>
         bindR (mutex_unlock c l) (\<lambda>(c, l). Inr (False, c, d\<lparr>hd_lock := l\<rparr>, m))
     | Some (Some expand_size) \<Rightarrow>
         bindR (mutex_unlock c l) (\<lambda>(c, l).
         Inr (True, c, d\<lparr>hd_lock := l\<rparr>,
              m(p := (m p)\<lparr>mcb_size := mcb_size (m p) + expand_size, mcb_free := True\<rparr>))))"

section \<open>Heaps\<close>

text \<open>\<open>vmm\<close> is \<^verbatim>\<open>vmm_create_heap\<close>: status and address for a process, a size and a usage.\<close>

definition mm_create_heap ::
  "(u32 \<Rightarrow> u32 \<Rightarrow> u32 \<Rightarrow> hresult \<times> u32) \<Rightarrow> cpu \<Rightarrow> mm_state \<Rightarrow> (bool \<times> cpu \<times> mm_state) run" where
  "mm_create_heap vmm c s =
     (let ctx = mm_ctx s in
      bindR (mutex_lock c (ctx_lock ctx)) (\<lambda>(c, l).
      let n = unat (ctx_heap_count ctx) in
      if ctx_heap_count ctx \<ge> MAX_HEAPS then
        bindR (mutex_unlock c l) (\<lambda>(c, l). Inr (False, c, s\<lparr>mm_ctx := ctx\<lparr>ctx_lock := l\<rparr>\<rparr>))
      else if length (ctx_heaps ctx) \<le> n then Inl BadAccess
      else
        let d = (ctx_heaps ctx ! n)\<lparr>hd_size := DEFAULT_HEAP_SIZE\<rparr>;
            (hr, mem_addr) = vmm (ctx_pid ctx) (hd_size d)
               (USAGE_DATA OR (if ctx_kernel_mode ctx then USAGE_KERNEL else USAGE_USER));
            d = d\<lparr>hd_memory := mem_addr\<rparr> in
        if FAILED hr then
          bindR (mutex_unlock c l) (\<lambda>(c, l).
          Inr (False, c, s\<lparr>mm_ctx := ctx\<lparr>ctx_lock := l, ctx_heaps := (ctx_heaps ctx)[n := d]\<rparr>\<rparr>))
        else
          let m = (mm_mcbs s)(mem_addr := \<lparr> mcb_heap_id = ctx_heap_count ctx, mcb_magic = MM_MAGIC,
                mcb_size = hd_size d - MCB_SIZE, mcb_padding = 0, mcb_free = True \<rparr>);
              d = d\<lparr>hd_lock := mutex_create\<rparr> in
          bindR (mutex_unlock c l) (\<lambda>(c, l).
          Inr (True, c, s\<lparr>mm_mcbs := m,
            mm_ctx := ctx\<lparr>ctx_lock := l, ctx_heaps := (ctx_heaps ctx)[n := d],
                           ctx_heap_count := ctx_heap_count ctx + 1\<rparr>\<rparr>))))"

text \<open>It returns before it does anything.\<close>

definition mm_free_heap :: "mm_state \<Rightarrow> u32 \<Rightarrow> bool \<times> mm_state" where
  "mm_free_heap s i = (False, s)"

definition mm_init :: "cpu \<Rightarrow> mm_state \<Rightarrow> bool \<times> mm_state" where
  "mm_init c s =
     (if ctx_initialized (mm_ctx s) then (False, s)
      else case cpu_current c of
        None \<Rightarrow> (False, s)
      | Some (pid, tid) \<Rightarrow>
          (True, s\<lparr>mm_ctx := (mm_ctx s)\<lparr> ctx_pid := pid, ctx_lock := mutex_create,
             ctx_kernel_mode := True, ctx_heap_count := 0, ctx_initialized := True \<rparr>\<rparr>))"

partial_function (option) mm_fini_loop :: "mm_state \<Rightarrow> mm_state option" where
  "mm_fini_loop s =
     (if ctx_heap_count (mm_ctx s) > 0 then mm_fini_loop (snd (mm_free_heap s 0)) else Some s)"

definition mm_fini :: "(nat \<Rightarrow> mutex \<Rightarrow> mutex) \<Rightarrow> cpu \<Rightarrow> mm_state \<Rightarrow> (cpu \<times> mm_state) run" where
  "mm_fini others c s =
     (if \<not> ctx_initialized (mm_ctx s) then Inr (c, s)
      else
        bindR (mutex_lock c (ctx_lock (mm_ctx s))) (\<lambda>(c, l).
        case mm_fini_loop s of
          None \<Rightarrow> Inl NoReturn
        | Some s \<Rightarrow>
            bindR (mutex_unlock c l) (\<lambda>(c, l).
            bindR (mutex_destroy others c l) (\<lambda>(c, l).
            Inr (c, s\<lparr>mm_ctx := (mm_ctx s)\<lparr>ctx_lock := l, ctx_initialized := False\<rparr>\<rparr>)))))"

section \<open>The allocator\<close>

text \<open>Try one heap; the flag and the pointer.\<close>

definition mm_try_heap :: "cpu \<Rightarrow> mm_state \<Rightarrow> nat \<Rightarrow> u32 \<Rightarrow> (bool \<times> u32 \<times> cpu \<times> mm_state) run" where
  "mm_try_heap c s i sz =
     (let ctx = mm_ctx s in
      if length (ctx_heaps ctx) \<le> i then Inl BadAccess
      else bindR (mm_allocate_block_from_heap c (ctx_heaps ctx ! i) (mm_mcbs s) sz) (\<lambda>(ok, p, c, d, m).
        Inr (ok, p, c, s\<lparr>mm_mcbs := m, mm_ctx := ctx\<lparr>ctx_heaps := (ctx_heaps ctx)[i := d]\<rparr>\<rparr>)))"

text \<open>The \<^verbatim>\<open>for\<close> loop over the existing heaps, \<open>n\<close> of them left; it stops at an error or a
  block.\<close>

fun mm_scan_heaps :: "cpu \<Rightarrow> mm_state \<Rightarrow> nat \<Rightarrow> nat \<Rightarrow> u32 \<Rightarrow> (bool \<times> u32 \<times> cpu \<times> mm_state) run" where
  "mm_scan_heaps c s i 0 sz = Inr (True, 0, c, s)"
| "mm_scan_heaps c s i (Suc n) sz =
     bindR (mm_try_heap c s i sz) (\<lambda>(ok, p, c, s).
     if \<not> ok \<or> p \<noteq> 0 then Inr (ok, p, c, s) else mm_scan_heaps c s (Suc i) n sz)"

definition malloc ::
  "(u32 \<Rightarrow> u32 \<Rightarrow> u32 \<Rightarrow> hresult \<times> u32) \<Rightarrow> cpu \<Rightarrow> mm_state \<Rightarrow> u32 \<Rightarrow> (u32 \<times> cpu \<times> mm_state) run" where
  "malloc vmm c s sz =
     (let (ok, s) = (if ctx_initialized (mm_ctx s) then (True, s) else mm_init c s) in
      if \<not> ok then Inr (0, c, s)
      else if sz = 0 then Inr (0, c, s)
      else
        bindR (mutex_lock c (ctx_lock (mm_ctx s))) (\<lambda>(c, l).
        let s = s\<lparr>mm_ctx := (mm_ctx s)\<lparr>ctx_lock := l\<rparr>\<rparr> in
        bindR (mm_scan_heaps c s 0 (unat (ctx_heap_count (mm_ctx s))) sz) (\<lambda>(ok, p, c, s).
        bindR (if ok \<and> p = 0 \<and> ctx_heap_count (mm_ctx s) < MAX_HEAPS - 1 then
                 bindR (mm_create_heap vmm c s) (\<lambda>(created, c, s).
                 if created then
                   bindR (mm_try_heap c s (unat (ctx_heap_count (mm_ctx s) - 1)) sz) (\<lambda>(ok, p, c, s). Inr (p, c, s))
                 else Inr (0, c, s))
               else Inr (p, c, s)) (\<lambda>(p, c, s).
        bindR (mutex_unlock c (ctx_lock (mm_ctx s))) (\<lambda>(c, l).
        Inr (p, c, s\<lparr>mm_ctx := (mm_ctx s)\<lparr>ctx_lock := l\<rparr>\<rparr>))))))"

definition free :: "cpu \<Rightarrow> mm_state \<Rightarrow> u32 \<Rightarrow> (cpu \<times> mm_state) run" where
  "free c s ptr =
     (let p = ptr - MCB_SIZE; mcb = mm_mcbs s p in
      if mcb_magic mcb \<noteq> MM_MAGIC \<or> mcb_size mcb = 0 \<or> mcb_heap_id mcb \<ge> MAX_HEAPS then Inr (c, s)
      else
        let i = unat (mcb_heap_id mcb) in
        bindR (mutex_lock c (ctx_lock (mm_ctx s))) (\<lambda>(c, l).
        if length (ctx_heaps (mm_ctx s)) \<le> i then Inl BadAccess
        else
          bindR (mm_free_block_from_heap c (ctx_heaps (mm_ctx s) ! i) (mm_mcbs s) p) (\<lambda>(ok, c, d, m).
          bindR (mutex_unlock c l) (\<lambda>(c, l).
          Inr (c, s\<lparr>mm_mcbs := m,
                    mm_ctx := (mm_ctx s)\<lparr>ctx_lock := l, ctx_heaps := (ctx_heaps (mm_ctx s))[i := d]\<rparr>\<rparr>)))))"

definition calloc ::
  "(u32 \<Rightarrow> u32 \<Rightarrow> u32 \<Rightarrow> hresult \<times> u32) \<Rightarrow> cpu \<Rightarrow> mm_state \<Rightarrow> u32 \<Rightarrow> u32 \<Rightarrow> (u32 \<times> cpu \<times> mm_state) run" where
  "calloc vmm c s num sz =
     bindR (malloc vmm c s (num * sz)) (\<lambda>(p, c, s).
     Inr (p, c, if p \<noteq> 0 then s\<lparr>mm_bytes := memset (mm_bytes s) p 0 (num * sz)\<rparr> else s))"

definition realloc ::
  "(u32 \<Rightarrow> u32 \<Rightarrow> u32 \<Rightarrow> hresult \<times> u32) \<Rightarrow> cpu \<Rightarrow> mm_state \<Rightarrow> u32 \<Rightarrow> u32 \<Rightarrow> (u32 \<times> cpu \<times> mm_state) run" where
  "realloc vmm c s ptr sz =
     (if sz = 0 then
        (if ptr \<noteq> 0 then bindR (free c s ptr) (\<lambda>(c, s). Inr (0, c, s)) else Inr (0, c, s))
      else
        bindR (malloc vmm c s sz) (\<lambda>(new, c, s).
        if ptr = 0 then Inr (new, c, s)
        else
          let old_size = mcb_size (mm_mcbs s (ptr - MCB_SIZE));
              s = (if new \<noteq> 0
                   then s\<lparr>mm_bytes := memcpy (mm_bytes s) new ptr (if sz > old_size then old_size else sz)\<rparr>
                   else s)
          in bindR (free c s ptr) (\<lambda>(c, s). Inr (new, c, s))))"

section \<open>The kernel interface of \<^verbatim>\<open>mm.c\<close>\<close>

definition kmalloc where "kmalloc = malloc"
definition kcalloc where "kcalloc vmm c s sz = calloc vmm c s 1 sz"
definition kfree where "kfree = free"
definition krealloc where "krealloc = realloc"

section \<open>Tilings\<close>

text \<open>A heap is a chain of blocks, each with its size and whether it is free, that fills the
  range from \<open>a\<close> to \<open>e\<close> exactly; \<open>h\<close> is the heap's number.\<close>

fun tiles :: "mcbs \<Rightarrow> u32 \<Rightarrow> nat \<Rightarrow> nat \<Rightarrow> (nat \<times> bool) list \<Rightarrow> bool" where
  "tiles m h a e [] \<longleftrightarrow> a = e"
| "tiles m h a e ((s, f) # bs) \<longleftrightarrow> a + 20 + s \<le> e
     \<and> m (of_nat a) = \<lparr> mcb_heap_id = h, mcb_magic = MM_MAGIC, mcb_size = of_nat s, mcb_padding = 0, mcb_free = f \<rparr>
     \<and> tiles m h (a + 20 + s) e bs"

text \<open>First fit: the offset of the chosen block, and the blocks afterwards.\<close>

fun first_fit :: "nat \<Rightarrow> (nat \<times> bool) list \<Rightarrow> (nat \<times> (nat \<times> bool) list) option" where
  "first_fit n [] = None"
| "first_fit n ((s, f) # bs) =
     (if f \<and> n + 20 \<le> s then Some (0, (n, False) # (s - n - 20, True) # bs)
      else case first_fit n bs of None \<Rightarrow> None | Some (off, bs') \<Rightarrow> Some (20 + s + off, (s, f) # bs'))"

text \<open>The bytes gained by merging the free blocks at the front, and the remaining blocks.\<close>

fun merge_front :: "(nat \<times> bool) list \<Rightarrow> nat \<times> (nat \<times> bool) list" where
  "merge_front [] = (0, [])"
| "merge_front ((s, f) # bs) =
     (if f then case merge_front bs of (x, r) \<Rightarrow> (s + 20 + x, r) else (0, (s, f) # bs))"

fun span_of :: "(nat \<times> bool) list \<Rightarrow> nat" where
  "span_of [] = 0"
| "span_of ((s, f) # bs) = 20 + s + span_of bs"

lemma tiles_append:
  "tiles m h a e (bs @ cs) \<longleftrightarrow> a + span_of bs \<le> e \<and> tiles m h a (a + span_of bs) bs \<and> tiles m h (a + span_of bs) e cs"
proof (induction bs arbitrary: a)
  case Nil
  have "tiles m h a e cs \<Longrightarrow> a \<le> e" by (cases cs) auto
  then show ?case by auto
next
  case (Cons b bs)
  obtain s f where b: "b = (s, f)" by (cases b)
  show ?case unfolding b using Cons [of "a + 20 + s"] by (auto simp: add.assoc)
qed

lemma tiles_span: "tiles m h a e bs \<Longrightarrow> e = a + span_of bs"
proof (induction bs arbitrary: a)
  case (Cons b bs)
  have "tiles m h (a + 20 + fst b) e bs"
    using Cons.prems by (cases b) simp
  from Cons.IH [OF this] show ?case by (cases b) simp
qed simp

lemma tiles_cong:
  "(\<And>x. a \<le> x \<Longrightarrow> x < e \<Longrightarrow> m' (of_nat x) = m (of_nat x)) \<Longrightarrow> tiles m' h a e bs = tiles m h a e bs"
proof (induction bs arbitrary: a)
  case (Cons b bs)
  obtain s f where b: "b = (s, f)" by (cases b)
  have "tiles m' h (a + 20 + s) e bs = tiles m h (a + 20 + s) e bs"
    using Cons by simp
  moreover have "a + 20 + s \<le> e \<Longrightarrow> m' (of_nat a) = m (of_nat a)"
    using Cons.prems [of a] by simp
  ultimately show ?case unfolding b by auto
qed simp

lemma of_nat_eq_iff32:
  "x < 2 ^ 32 \<Longrightarrow> y < 2 ^ 32 \<Longrightarrow> (of_nat x :: u32) = of_nat y \<longleftrightarrow> x = y"
  by (metis numeral_pow_2_32 unat_of_nat_small)

lemma alloc_loop_first_fit:
  assumes "tiles m h a e bs" and "e < 2 ^ 32" and "unat sz + 20 < 2 ^ 32"
  shows "case first_fit (unat sz) bs of
     None \<Rightarrow> alloc_loop m (of_nat a) (of_nat e) sz = Some (True, 0, m)
   | Some (off, bs') \<Rightarrow> \<exists>m'. alloc_loop m (of_nat a) (of_nat e) sz = Some (True, of_nat (a + off + 20), m')
       \<and> tiles m' h a e bs' \<and> (\<forall>x < a. m' (of_nat x) = m (of_nat x))"
  using assms(1)
proof (induction bs arbitrary: a)
  case Nil
  then show ?case by (subst alloc_loop.simps) simp
next
  case (Cons b bs)
  obtain s f where b: "b = (s, f)" by (cases b)
  have t: "a + 20 + s \<le> e" "tiles m h (a + 20 + s) e bs"
    and mcb: "m (of_nat a) = \<lparr> mcb_heap_id = h, mcb_magic = MM_MAGIC, mcb_size = of_nat s, mcb_padding = 0, mcb_free = f \<rparr>"
    using Cons.prems by (simp_all add: b)
  have ae: "(of_nat a :: u32) \<noteq> of_nat e"
    using t(1) assms(2) by (subst of_nat_eq_iff32) auto
  have us: "unat (of_nat s :: u32) = s"
    using t(1) assms(2) by (intro unat_of_nat_small) simp
  have "unat (sz + MCB_SIZE) = unat sz + 20"
    using assms(3) by (subst unat_add_small) (simp_all add: MCB_SIZE_def)
  then have fit: "sz + MCB_SIZE \<le> of_nat s \<longleftrightarrow> unat sz + 20 \<le> s"
    by (simp add: word_le_nat_alt us)
  show ?case
  proof (cases "f \<and> unat sz + 20 \<le> s")
    case True
    define n where "n = unat sz"
    have n: "sz = of_nat n" "n + 20 \<le> s" "f" using True by (simp_all add: n_def)
    have ne: "of_nat s \<noteq> sz" using us True by (metis not_add_less1 le_add1 le_antisym add_eq_self_zero zero_neq_numeral)
    let ?new = "\<lparr> mcb_heap_id = h, mcb_magic = MM_MAGIC, mcb_size = of_nat s - sz - MCB_SIZE, mcb_padding = 0, mcb_free = True \<rparr>"
    let ?cur = "\<lparr> mcb_heap_id = h, mcb_magic = MM_MAGIC, mcb_size = sz, mcb_padding = 0, mcb_free = False \<rparr>"
    have at: "of_nat a + MCB_SIZE + sz = of_nat (a + 20 + n)"
      by (simp add: n(1) MCB_SIZE_def)
    define m1 where "m1 = m(of_nat (a + 20 + n) := ?new, of_nat a := ?cur)"
    have loop: "alloc_loop m (of_nat a) (of_nat e) sz = Some (True, of_nat a + MCB_SIZE, m1)"
      using ae fit True ne unfolding m1_def at [symmetric]
      by (subst alloc_loop.simps) (simp add: mcb Let_def)
    have rest: "of_nat s - sz - MCB_SIZE = of_nat (s - n - 20)"
      using n by (simp add: of_nat_diff MCB_SIZE_def)
    have other: "m1 (of_nat x) = m (of_nat x)" if "x < 2 ^ 32" "x \<noteq> a" "x \<noteq> a + 20 + n" for x
      unfolding m1_def using that t(1) n(2) assms(2) of_nat_eq_iff32 [of x a] of_nat_eq_iff32 [of x "a + 20 + n"]
      by (simp del: of_nat_add)
    have tail: "tiles m1 h (a + 20 + s) e bs"
      using t(2) by (subst tiles_cong [of _ _ m1 m]) (use n(2) t(1) assms(2) other in auto)
    have cur: "m1 (of_nat a) = ?cur" by (simp add: m1_def)
    have new: "m1 (of_nat (a + 20 + n)) = ?new"
      using of_nat_eq_iff32 [of a "a + 20 + n"] t(1) n(2) assms(2) by (simp add: m1_def del: of_nat_add)
    have sum: "a + 20 + n + 20 + (s - n - 20) = a + 20 + s" using n(2) by simp
    have "tiles m1 h a e ((n, False) # (s - n - 20, True) # bs)"
      unfolding tiles.simps sum cur new rest using tail t(1) n by simp
    moreover have "\<forall>x < a. m1 (of_nat x) = m (of_nat x)"
      using other t(1) assms(2) by auto
    moreover have "first_fit (unat sz) (b # bs) = Some (0, (n, False) # (s - n - 20, True) # bs)"
      using n by (simp add: b n_def)
    moreover have "of_nat a + MCB_SIZE = of_nat (a + 0 + 20)" by (simp add: MCB_SIZE_def)
    ultimately show ?thesis
      using loop by (simp only: option.case prod.case) blast
  next
    case False
    have step: "alloc_loop m (of_nat a) (of_nat e) sz = alloc_loop m (of_nat (a + 20 + s)) (of_nat e) sz"
      using ae fit False by (subst alloc_loop.simps) (auto simp: mcb Let_def MCB_SIZE_def add.commute add.left_commute)
    have IH: "case first_fit (unat sz) bs of
       None \<Rightarrow> alloc_loop m (of_nat (a + 20 + s)) (of_nat e) sz = Some (True, 0, m)
     | Some (off, bs') \<Rightarrow> \<exists>m'. alloc_loop m (of_nat (a + 20 + s)) (of_nat e) sz = Some (True, of_nat (a + 20 + s + off + 20), m')
         \<and> tiles m' h (a + 20 + s) e bs' \<and> (\<forall>x < a + 20 + s. m' (of_nat x) = m (of_nat x))"
      using Cons.IH [OF t(2)] .
    show ?thesis
    proof (cases "first_fit (unat sz) bs")
      case None
      then show ?thesis using IH step False by (auto simp: b)
    next
      case (Some r)
      obtain off bs' where r: "r = (off, bs')" by (cases r)
      obtain m' where m': "alloc_loop m (of_nat (a + 20 + s)) (of_nat e) sz = Some (True, of_nat (a + 20 + s + off + 20), m')"
        "tiles m' h (a + 20 + s) e bs'" "\<forall>x < a + 20 + s. m' (of_nat x) = m (of_nat x)"
        using IH Some r by auto
      have "tiles m' h a e ((s, f) # bs')"
        using m'(2,3) t(1) mcb by simp
      moreover have "first_fit (unat sz) (b # bs) = Some (20 + s + off, (s, f) # bs')"
        using Some r False by (auto simp: b)
      moreover have "a + 20 + s + off + 20 = a + (20 + s + off) + 20" by simp
      ultimately show ?thesis
        using m'(1,3) step by (simp only: option.case prod.case) force
    qed
  qed
qed

lemma free_loop_merge:
  assumes "tiles m h a e bs" and "e < 2 ^ 32"
  shows "free_loop m (of_nat a) (of_nat e) (of_nat x) = Some (Some (of_nat (x + fst (merge_front bs))))"
  using assms(1)
proof (induction bs arbitrary: a x)
  case Nil
  then show ?case by (subst free_loop.simps) simp
next
  case (Cons b bs)
  obtain s f where b: "b = (s, f)" by (cases b)
  have t: "a + 20 + s \<le> e" "tiles m h (a + 20 + s) e bs"
    and mcb: "m (of_nat a) = \<lparr> mcb_heap_id = h, mcb_magic = MM_MAGIC, mcb_size = of_nat s, mcb_padding = 0, mcb_free = f \<rparr>"
    using Cons.prems by (simp_all add: b)
  have ae: "(of_nat a :: u32) \<noteq> of_nat e" "\<not> of_nat e < (of_nat a :: u32)"
    using t(1) assms(2) of_nat_eq_iff32 [of a e]
    by (auto simp: word_less_nat_alt unat_of_nat_small)
  have IH: "free_loop m (of_nat (a + 20 + s)) (of_nat e) (of_nat (x + (s + 20)))
      = Some (Some (of_nat (x + (s + 20) + fst (merge_front bs))))"
    using Cons.IH [OF t(2)] .
  have "f \<Longrightarrow> free_loop m (of_nat a) (of_nat e) (of_nat x)
      = free_loop m (of_nat (a + 20 + s)) (of_nat e) (of_nat (x + (s + 20)))"
    using ae by (subst free_loop.simps) (simp add: mcb MCB_SIZE_def add.commute add.left_commute)
  moreover have "\<not> f \<Longrightarrow> free_loop m (of_nat a) (of_nat e) (of_nat x) = Some (Some (of_nat x))"
    using ae by (subst free_loop.simps) (simp add: mcb)
  ultimately show ?case
    unfolding b using IH by (cases f) (simp_all add: split_beta add.assoc)
qed

lemma merge_front_tiles:
  "tiles m h a e bs \<Longrightarrow> tiles m h (a + fst (merge_front bs)) e (snd (merge_front bs)) \<and> a + fst (merge_front bs) \<le> e"
proof (induction bs arbitrary: a)
  case (Cons b bs)
  obtain s f where b: "b = (s, f)" by (cases b)
  have "tiles m h (a + 20 + s) e bs" "a + 20 + s \<le> e" using Cons.prems by (simp_all add: b)
  with Cons.IH [of "a + 20 + s"] Cons.prems show ?case
    by (cases f) (simp_all add: b split_beta add.commute add.left_commute)
qed simp

section \<open>A consistent heap\<close>

definition heap_ok :: "cpu \<Rightarrow> mm_heap_descriptor \<Rightarrow> mcbs \<Rightarrow> u32 \<Rightarrow> (nat \<times> bool) list \<Rightarrow> bool" where
  "heap_ok c d m h bs \<longleftrightarrow> lockable c (hd_lock d) \<and> mx_count (hd_lock d) \<noteq> - 1
     \<and> unat (hd_memory d) + unat (hd_size d) < 2 ^ 32
     \<and> tiles m h (unat (hd_memory d)) (unat (hd_memory d) + unat (hd_size d)) bs"

lemma heap_ok_locks:
  assumes "heap_ok c d m h bs"
  shows "mutex_lock c (hd_lock d) = Inr (c, entered c (hd_lock d))"
    and "mutex_unlock c (entered c (hd_lock d)) = Inr (c, left (entered c (hd_lock d)))"
    and "lockable c (left (entered c (hd_lock d)))" "mx_count (left (entered c (hd_lock d))) \<noteq> - 1"
  using assms mutex_critical [of c "hd_lock d"] by (auto simp: heap_ok_def)

definition free_block_at :: "nat \<Rightarrow> (nat \<times> bool) list \<Rightarrow> (nat \<times> bool) list" where
  "free_block_at k bs =
     (case merge_front (drop (Suc k) bs) of (x, rest) \<Rightarrow> take k bs @ (fst (bs ! k) + x, True) # rest)"

lemma split_at: "k < length bs \<Longrightarrow> bs = take k bs @ (fst (bs ! k), snd (bs ! k)) # drop (Suc k) bs"
  by (simp add: id_take_nth_drop)

lemma tiles_set:
  assumes "tiles m h a e bs" and "e < 2 ^ 32" and "k < length bs"
  defines "p \<equiv> a + span_of (take k bs)"
  shows "tiles (m(of_nat p := (m (of_nat p))\<lparr>mcb_size := of_nat (fst (bs ! k) + fst (merge_front (drop (Suc k) bs))), mcb_free := True\<rparr>))
      h a e (free_block_at k bs)"
    and "m (of_nat p) = \<lparr> mcb_heap_id = h, mcb_magic = MM_MAGIC, mcb_size = of_nat (fst (bs ! k)), mcb_padding = 0, mcb_free = snd (bs ! k) \<rparr>"
    and "tiles m h (p + 20 + fst (bs ! k)) e (drop (Suc k) bs)"
proof -
  define s where "s = fst (bs ! k)"
  define x where "x = fst (merge_front (drop (Suc k) bs))"
  define rest where "rest = snd (merge_front (drop (Suc k) bs))"
  let ?m = "m(of_nat p := (m (of_nat p))\<lparr>mcb_size := of_nat (s + x), mcb_free := True\<rparr>)"
  have t: "p \<le> e" "tiles m h a p (take k bs)" "tiles m h p e ((s, snd (bs ! k)) # drop (Suc k) bs)"
    using assms(1) split_at [OF assms(3)] tiles_append [of m h a e "take k bs"] unfolding p_def s_def by metis+
  from t(3) show b: "m (of_nat p) = \<lparr> mcb_heap_id = h, mcb_magic = MM_MAGIC, mcb_size = of_nat (fst (bs ! k)), mcb_padding = 0, mcb_free = snd (bs ! k) \<rparr>"
    unfolding tiles.simps s_def by (elim conjE)
  from t(3) show post: "tiles m h (p + 20 + fst (bs ! k)) e (drop (Suc k) bs)"
    unfolding tiles.simps s_def by (elim conjE)
  have mf: "tiles m h (p + 20 + s + x) e rest" "p + 20 + s + x \<le> e"
    using merge_front_tiles [OF post] by (simp_all add: x_def rest_def s_def)
  have other: "?m (of_nat y) = m (of_nat y)" if "y \<noteq> p" "y < 2 ^ 32" for y
    using that mf(2) assms(2) of_nat_eq_iff32 [of y p] by simp
  have "tiles ?m h a p (take k bs)"
    using t(1,2) other assms(2) by (subst tiles_cong [of _ _ ?m m]) (auto simp del: fun_upd_apply)
  moreover have "tiles ?m h (p + 20 + (s + x)) e rest"
    using mf other assms(2) by (subst tiles_cong [of _ _ ?m m]) (auto simp: add.assoc simp del: fun_upd_apply)
  moreover have "?m (of_nat p) = \<lparr> mcb_heap_id = h, mcb_magic = MM_MAGIC, mcb_size = of_nat (s + x), mcb_padding = 0, mcb_free = True \<rparr>"
    using b by simp
  ultimately have "tiles ?m h p e ((s + x, True) # rest)"
    using mf(2) by simp
  then show "tiles (m(of_nat p := (m (of_nat p))\<lparr>mcb_size := of_nat (fst (bs ! k) + fst (merge_front (drop (Suc k) bs))), mcb_free := True\<rparr>))
      h a e (free_block_at k bs)"
    using \<open>tiles ?m h a p (take k bs)\<close> t(1)
    by (simp add: free_block_at_def split_beta tiles_append p_def s_def x_def rest_def del: fun_upd_apply)
qed

section \<open>Properties\<close>

text \<open>
  C21. Allocation from a heap is first fit with splitting: on a heap whose control blocks tile its
  memory and for a request of less than \<open>2 ^ 32 - 20\<close> bytes, so that adding the size of a control block does
  not wrap around (\<open>heap_alloc_size_overflow\<close> shows what happens when it does),
  \<^verbatim>\<open>mm_allocate_block_from_heap\<close> returns and does not run off the chain; it answers with the
  first free block that holds the request and a further control block, cut to the request, or with
  a null pointer if there is none; and the control blocks tile the memory afterwards.\<close>

theorem heap_alloc_first_fit:
  assumes "heap_ok c d m h bs" and "unat sz + 20 < 2 ^ 32"
  shows "\<exists>p d' m'. mm_allocate_block_from_heap c d m sz = Inr (True, p, c, d', m')
    \<and> (case first_fit (unat sz) bs of
         None \<Rightarrow> p = 0 \<and> heap_ok c d' m' h bs
       | Some (off, bs') \<Rightarrow> p = hd_memory d + of_nat (off + 20) \<and> heap_ok c d' m' h bs')"
proof -
  note l = heap_ok_locks [OF assms(1)]
  define a where "a = unat (hd_memory d)"
  define e where "e = a + unat (hd_size d)"
  have ok: "tiles m h a e bs" "e < 2 ^ 32"
    using assms(1) by (simp_all add: heap_ok_def a_def e_def)
  have ae: "of_nat a = hd_memory d" "of_nat e = hd_memory d + hd_size d"
    by (simp_all add: a_def e_def)
  let ?d = "d\<lparr>hd_lock := left (entered c (hd_lock d))\<rparr>"
  have keep: "heap_ok c ?d m' h bs' \<longleftrightarrow> tiles m' h a e bs'" for m' bs'
    using l(3,4) ok(2) by (simp add: heap_ok_def a_def e_def)
  note A = alloc_loop_first_fit [OF ok assms(2), unfolded ae]
  show ?thesis
  proof (cases "first_fit (unat sz) bs")
    case None
    then show ?thesis using A l(1,2) ok(1) keep by (simp add: mm_allocate_block_from_heap_def)
  next
    case (Some r)
    obtain off bs' where r: "r = (off, bs')" by (cases r)
    obtain m' where "alloc_loop m (hd_memory d) (hd_memory d + hd_size d) sz = Some (True, of_nat (a + off + 20), m')"
      "tiles m' h a e bs'"
      using A Some r by auto
    then show ?thesis using Some r l(1,2) keep ae(1)
      by (simp add: mm_allocate_block_from_heap_def add.assoc)
  qed
qed

text \<open>
  C22. Freeing the \<open>k\<close>-th block of a consistent heap succeeds and makes it one free block together
  with all the free blocks that directly follow it; every other block is untouched and the control
  blocks tile the memory afterwards.\<close>

theorem heap_free_merges:
  assumes "heap_ok c d m h bs" and "k < length bs"
  shows "\<exists>d' m'. mm_free_block_from_heap c d m (hd_memory d + of_nat (span_of (take k bs))) = Inr (True, c, d', m')
    \<and> heap_ok c d' m' h (free_block_at k bs)"
proof -
  note l = heap_ok_locks [OF assms(1)]
  define a where "a = unat (hd_memory d)"
  define e where "e = a + unat (hd_size d)"
  have ok: "tiles m h a e bs" "e < 2 ^ 32"
    using assms(1) by (simp_all add: heap_ok_def a_def e_def)
  have ae: "of_nat a = hd_memory d" "of_nat e = hd_memory d + hd_size d"
    by (simp_all add: a_def e_def)
  let ?d = "d\<lparr>hd_lock := left (entered c (hd_lock d))\<rparr>"
  have keep: "heap_ok c ?d m' h bs' \<longleftrightarrow> tiles m' h a e bs'" for m' bs'
    using l(3,4) ok(2) by (simp add: heap_ok_def a_def e_def)
  define p where "p = a + span_of (take k bs)"
  note T = tiles_set [OF ok assms(2), folded p_def]
  have addr: "hd_memory d + of_nat (span_of (take k bs)) = of_nat p"
    using ae(1) by (simp add: p_def)
  have nxt: "of_nat p + MCB_SIZE + mcb_size (m (of_nat p)) + mcb_padding (m (of_nat p)) = of_nat (p + 20 + fst (bs ! k))"
    unfolding T(2) by (simp add: MCB_SIZE_def)
  have F: "free_loop m (of_nat (p + 20 + fst (bs ! k))) (hd_memory d + hd_size d) 0
      = Some (Some (of_nat (fst (merge_front (drop (Suc k) bs)))))"
    using free_loop_merge [OF T(3) ok(2), of 0] ae(2) by simp
  have sz: "mcb_size (m (of_nat p)) + of_nat (fst (merge_front (drop (Suc k) bs)))
      = of_nat (fst (bs ! k) + fst (merge_front (drop (Suc k) bs)))"
    unfolding T(2) by simp
  show ?thesis
    unfolding addr using l(1,2) keep T(1)
    by (simp only: mm_free_block_from_heap_def nxt F) (simp add: T(2))
qed

text \<open>A small heap: 30 bytes in use, 60 free.\<close>

definition small_heap :: mm_heap_descriptor where
  "small_heap = \<lparr> hd_lock = mutex_create, hd_memory = 0x1000, hd_size = 130 \<rparr>"

definition small_mcbs :: mcbs where
  "small_mcbs = (\<lambda>a. \<lparr> mcb_heap_id = 0, mcb_magic = MM_MAGIC, mcb_size = (if a = 0x1000 then 30 else 60),
                       mcb_padding = 0, mcb_free = (a \<noteq> 0x1000) \<rparr>)"

lemma small_heap_ok:
  "heap_ok \<lparr> cpu_if = True, cpu_current = Some (1, 1) \<rparr> small_heap small_mcbs 0 [(30, False), (60, True)]"
  by (simp add: heap_ok_def small_heap_def small_mcbs_def lockable_def mutex_create_def spinlock_create_def)

lemma heap_alloc_first_fit_witness:
  "\<exists>d' m'. mm_allocate_block_from_heap \<lparr> cpu_if = True, cpu_current = Some (1, 1) \<rparr> small_heap small_mcbs 16
     = Inr (True, 0x1000 + of_nat 70, \<lparr> cpu_if = True, cpu_current = Some (1, 1) \<rparr>, d', m')
     \<and> heap_ok \<lparr> cpu_if = True, cpu_current = Some (1, 1) \<rparr> d' m' 0 [(30, False), (16, False), (24, True)]"
proof -
  have "unat (16 :: u32) + 20 < 2 ^ 32" by simp
  moreover have "first_fit (unat (16 :: u32)) [(30, False), (60, True)]
      = Some (50, [(30, False), (16, False), (24, True)])" by simp
  ultimately show ?thesis
    using heap_alloc_first_fit [OF small_heap_ok, of 16] by (auto simp: small_heap_def)
qed

lemma heap_free_merges_witness:
  "\<exists>d' m'. mm_free_block_from_heap \<lparr> cpu_if = True, cpu_current = Some (1, 1) \<rparr> small_heap small_mcbs 0x1000
     = Inr (True, \<lparr> cpu_if = True, cpu_current = Some (1, 1) \<rparr>, d', m')
     \<and> heap_ok \<lparr> cpu_if = True, cpu_current = Some (1, 1) \<rparr> d' m' 0 [(110, True)]"
  using heap_free_merges [OF small_heap_ok, of 0]
  by (simp add: small_heap_def free_block_at_def)

text \<open>The size check of the allocator overflows: for a request within 20 bytes of \<open>2 ^ 32\<close>, the sum
  with the size of a control block wraps to a small number, so the first free block passes, and
  \<^verbatim>\<open>malloc\<close> hands out a pointer to a block far smaller than the request.\<close>

theorem heap_alloc_size_overflow:
  assumes "heap_ok c d m h ((s, True) # bs)" and "2 ^ 32 - 20 \<le> unat sz" and "unat sz + 20 - 2 ^ 32 \<le> s"
  shows "\<exists>d' m'. mm_allocate_block_from_heap c d m sz = Inr (True, hd_memory d + 20, c, d', m') \<and> s < unat sz"
proof -
  note l = heap_ok_locks [OF assms(1)]
  have t: "unat (hd_memory d) + 20 + s \<le> unat (hd_memory d) + unat (hd_size d)"
    "unat (hd_memory d) + unat (hd_size d) < 2 ^ 32"
    "m (hd_memory d) = \<lparr> mcb_heap_id = h, mcb_magic = MM_MAGIC, mcb_size = of_nat s, mcb_padding = 0, mcb_free = True \<rparr>"
    using assms(1) by (simp_all add: heap_ok_def)
  have "hd_size d \<noteq> 0"
    using t(1) by auto
  then have ne: "hd_memory d \<noteq> hd_memory d + hd_size d" by simp
  have "unat (of_nat s :: u32) = s"
    using t(1,2) by (intro unat_of_nat_small) simp
  moreover have "unat (sz + MCB_SIZE) = unat sz + 20 - 2 ^ 32"
    using assms(2) unat_lt_2_32 [of sz] by (simp add: unat_word_ariths MCB_SIZE_def mod_if)
  ultimately have "sz + MCB_SIZE \<le> of_nat s"
    using assms(3) by (simp add: word_le_nat_alt)
  then have "\<exists>m'. alloc_loop m (hd_memory d) (hd_memory d + hd_size d) sz = Some (True, hd_memory d + MCB_SIZE, m')"
    using ne t(3) by (subst alloc_loop.simps) (simp add: Let_def)
  moreover have "s < unat sz"
    using t(1,2) assms(2) by linarith
  ultimately show ?thesis
    using l(1,2) by (auto simp: mm_allocate_block_from_heap_def MCB_SIZE_def)
qed

lemma heap_alloc_size_overflow_witness:
  "\<exists>d' m'. mm_allocate_block_from_heap \<lparr> cpu_if = True, cpu_current = Some (1, 1) \<rparr>
       \<lparr> hd_lock = mutex_create, hd_memory = 0x1000, hd_size = 80 \<rparr>
       (\<lambda>_. \<lparr> mcb_heap_id = 0, mcb_magic = MM_MAGIC, mcb_size = 60, mcb_padding = 0, mcb_free = True \<rparr>) 0xFFFFFFF0
     = Inr (True, 0x1000 + 20, \<lparr> cpu_if = True, cpu_current = Some (1, 1) \<rparr>, d', m') \<and> 60 < unat (0xFFFFFFF0 :: u32)"
proof -
  let ?c = "\<lparr> cpu_if = True, cpu_current = Some (1, 1) \<rparr>"
  let ?d = "\<lparr> hd_lock = mutex_create, hd_memory = 0x1000, hd_size = 80 \<rparr>"
  let ?m = "\<lambda>_ :: u32. \<lparr> mcb_heap_id = 0, mcb_magic = MM_MAGIC, mcb_size = 60, mcb_padding = 0, mcb_free = True \<rparr>"
  have ok: "heap_ok ?c ?d ?m 0 [(60, True)]"
    by (simp add: heap_ok_def lockable_def mutex_create_def spinlock_create_def)
  have "2 ^ 32 - 20 \<le> unat (0xFFFFFFF0 :: u32)" "unat (0xFFFFFFF0 :: u32) + 20 - 2 ^ 32 \<le> 60"
    by simp_all
  from heap_alloc_size_overflow [OF ok this] show ?thesis by simp
qed

end
