(* ===== verification/Url.thy ===== *)
theory Url
  imports CString
begin

text \<open>
  Model of \<^verbatim>\<open>url_utils.c\<close>. A path is the list of its characters without the terminator; a pointer
  into it is an offset. The results are the strings that the routines leave in their destination,
  which the caller has to make large enough; the local name buffers have their size.
\<close>

section \<open>Constants\<close>

definition VFS_PATH_DELIMITER :: u8 where "VFS_PATH_DELIMITER = ch CHR ''/''"
definition VFS_MAX_FILENAME_LENGTH :: nat where "VFS_MAX_FILENAME_LENGTH = 255"

text \<open>The offset of the last occurrence of a character, what \<^verbatim>\<open>strrchr\<close> finds.\<close>

fun last_offset :: "u8 \<Rightarrow> bytes \<Rightarrow> nat option" where
  "last_offset c [] = None"
| "last_offset c (x # xs) =
     (case last_offset c xs of Some i \<Rightarrow> Some (Suc i) | None \<Rightarrow> if x = c then Some 0 else None)"

section \<open>Operations\<close>

definition url_get_basename :: "bytes \<Rightarrow> bytes" where
  "url_get_basename path =
     (case last_offset VFS_PATH_DELIMITER path of None \<Rightarrow> path | Some i \<Rightarrow> drop (i + 1) path)"

definition url_get_dirname :: "bytes \<Rightarrow> bytes" where
  "url_get_dirname path =
     (case last_offset VFS_PATH_DELIMITER path of
        None \<Rightarrow> [ch CHR ''.'']
      | Some len \<Rightarrow> if len = 0 then [ch CHR ''/''] else take len path)"

text \<open>The component array holds the offsets after the delimiters.\<close>

definition url_decompose :: "bytes \<Rightarrow> u8 \<Rightarrow> nat list" where
  "url_decompose url delim = map Suc (filter (\<lambda>i. url ! i = delim) [0..<length url])"

definition url_extract_comp :: "bytes \<Rightarrow> nat list \<Rightarrow> nat \<Rightarrow> bytes" where
  "url_extract_comp url components i =
     (if i \<ge> length components then []
      else if i = length components - 1 then drop (components ! i) url
      else let offs = components ! (i + 1) - components ! i in take (offs - 1) (drop (components ! i) url))"

text \<open>Extraction into a buffer of \<^verbatim>\<open>VFS_MAX_FILENAME_LENGTH\<close> characters.\<close>

definition url_extract_name :: "bytes \<Rightarrow> nat list \<Rightarrow> nat \<Rightarrow> bytes run" where
  "url_extract_name url components i =
     (let name = url_extract_comp url components i in
      bindR (guardR (length name < VFS_MAX_FILENAME_LENGTH) BadAccess) (\<lambda>_. Inr name))"

text \<open>The loop that sets the skip mask, \<open>n\<close> components left; an error stops it.\<close>

fun url_mark_loop :: "bytes \<Rightarrow> nat list \<Rightarrow> nat \<Rightarrow> nat \<Rightarrow> bool list \<Rightarrow> (hresult \<times> bool list) run" where
  "url_mark_loop url comps i 0 skip_mask = Inr (S_OK, skip_mask)"
| "url_mark_loop url comps i (Suc n) skip_mask =
     bindR (url_extract_name url comps i) (\<lambda>name.
     if name = [ch CHR ''.''] then url_mark_loop url comps (i + 1) n (skip_mask[i := True])
     else if name = [ch CHR ''.'', ch CHR ''.''] then
       (if i = 0 then Inr (E_INVALIDDATA, skip_mask)
        else url_mark_loop url comps (i + 1) n (skip_mask[i := True, i - 1 := True]))
     else if length name = 0 then
       url_mark_loop url comps (i + 1) n (replicate (i + 1) True @ drop (i + 1) skip_mask)
     else url_mark_loop url comps (i + 1) n skip_mask)"

fun url_compose_loop :: "bytes \<Rightarrow> nat list \<Rightarrow> nat \<Rightarrow> nat \<Rightarrow> bool list \<Rightarrow> bytes run" where
  "url_compose_loop url comps i 0 skip_mask = Inr []"
| "url_compose_loop url comps i (Suc n) skip_mask =
     (if skip_mask ! i then url_compose_loop url comps (i + 1) n skip_mask
      else bindR (url_extract_name url comps i) (\<lambda>name.
           bindR (url_compose_loop url comps (i + 1) n skip_mask) (\<lambda>s.
           Inr (VFS_PATH_DELIMITER # name @ s))))"

definition url_normalize :: "bytes \<Rightarrow> (hresult \<times> bytes) run" where
  "url_normalize src =
     (let comp_arr = url_decompose src VFS_PATH_DELIMITER; comp_cnt = length comp_arr in
      if comp_cnt = 0 then Inr (S_OK, [VFS_PATH_DELIMITER])
      else
        bindR (url_mark_loop src comp_arr 0 comp_cnt (replicate comp_cnt False)) (\<lambda>(hr, skip_mask).
        if FAILED hr then Inr (hr, [])
        else
          bindR (url_compose_loop src comp_arr 0 comp_cnt skip_mask) (\<lambda>s.
          Inr (S_OK, if s = [] then [VFS_PATH_DELIMITER] else s))))"

definition url_append_trailing_path_delimeter :: "bytes \<Rightarrow> bytes" where
  "url_append_trailing_path_delimeter url =
     (if length url = 0 \<or> url ! (length url - 1) \<noteq> VFS_PATH_DELIMITER then url @ [VFS_PATH_DELIMITER] else url)"

definition url_exclude_trailing_path_delimeter :: "bytes \<Rightarrow> bytes" where
  "url_exclude_trailing_path_delimeter url =
     (if length url > 0 \<and> url ! (length url - 1) = VFS_PATH_DELIMITER then take (length url - 1) url else url)"

section \<open>Paths as lists of names\<close>

text \<open>The path with the given names, and the names a path may have.\<close>

fun join :: "bytes list \<Rightarrow> bytes" where
  "join [] = []"
| "join (n # ns) = VFS_PATH_DELIMITER # n @ join ns"

definition names_ok :: "bytes list \<Rightarrow> bool" where
  "names_ok ns \<longleftrightarrow> (\<forall>n \<in> set ns. VFS_PATH_DELIMITER \<notin> set n \<and> length n < VFS_MAX_FILENAME_LENGTH)"

fun starts :: "nat \<Rightarrow> bytes list \<Rightarrow> nat list" where
  "starts k [] = []"
| "starts k (n # ns) = Suc k # starts (Suc k + length n) ns"

lemma filter_offsets_Cons:
  "filter (\<lambda>i. (x # xs) ! i = c) [0..<length (x # xs)] =
     (if x = c then [0] else []) @ map Suc (filter (\<lambda>i. xs ! i = c) [0..<length xs])"
proof -
  have "[0..<length (x # xs)] = 0 # map Suc [0..<length xs]"
    by (simp add: map_Suc_upt upt_conv_Cons del: upt_Suc)
  then show ?thesis by (simp add: filter_map comp_def)
qed

lemma filter_offsets_append:
  "filter (\<lambda>i. (xs @ ys) ! i = c) [0..<length (xs @ ys)] =
     filter (\<lambda>i. xs ! i = c) [0..<length xs] @ map ((+) (length xs)) (filter (\<lambda>i. ys ! i = c) [0..<length ys])"
proof (induction xs)
  case (Cons x xs)
  then show ?case by (simp only: append_Cons filter_offsets_Cons) (simp add: comp_def)
qed simp

lemma filter_offsets_none: "c \<notin> set xs \<Longrightarrow> filter (\<lambda>i. xs ! i = c) [0..<length xs] = []"
  by (auto simp: filter_empty_conv)

lemma decompose_join:
  "names_ok ns \<Longrightarrow> map ((+) k) (url_decompose (join ns) VFS_PATH_DELIMITER) = starts k ns"
proof (induction ns arbitrary: k)
  case Nil
  then show ?case by (simp add: url_decompose_def)
next
  case (Cons n ns)
  have n: "VFS_PATH_DELIMITER \<notin> set n" and ns: "names_ok ns"
    using Cons.prems by (auto simp: names_ok_def)
  have "url_decompose (join (n # ns)) VFS_PATH_DELIMITER
      = Suc 0 # map ((+) (Suc (length n))) (url_decompose (join ns) VFS_PATH_DELIMITER)"
    unfolding url_decompose_def join.simps filter_offsets_Cons filter_offsets_append filter_offsets_none [OF n]
    by (simp add: comp_def)
  then show ?case
    using Cons.IH [OF ns, of "Suc k + length n"] by (simp add: comp_def add.assoc add.commute add.left_commute)
qed

lemma length_starts [simp]: "length (starts k ns) = length ns"
  by (induction ns arbitrary: k) simp_all

lemma starts_nth: "i < length ns \<Longrightarrow> starts k ns ! i = k + length (join (take i ns)) + 1"
proof (induction ns arbitrary: k i)
  case (Cons n ns)
  then show ?case by (cases i) simp_all
qed simp

lemma join_append: "join (xs @ ys) = join xs @ join ys"
  by (induction xs) simp_all

lemma extract_join:
  assumes "names_ok ns" and "i < length ns"
  shows "url_extract_comp (join ns) (starts 0 ns) i = ns ! i"
proof -
  have split: "ns = take i ns @ ns ! i # drop (Suc i) ns"
    using assms(2) by (simp add: id_take_nth_drop)
  have rest: "drop (starts 0 ns ! i) (join ns) = ns ! i @ join (drop (Suc i) ns)"
    using assms(2) by (subst (2) split) (simp add: starts_nth join_append)
  show ?thesis
  proof (cases "i = length ns - 1")
    case True
    then have "drop (Suc i) ns = []" using assms(2) by simp
    then show ?thesis using rest True assms(2) by (simp add: url_extract_comp_def)
  next
    case False
    then have "starts 0 ns ! (i + 1) - starts 0 ns ! i - 1 = length (ns ! i)"
      using assms(2) by (simp add: starts_nth take_Suc_conv_app_nth join_append)
    then show ?thesis using rest False assms(2) by (simp add: url_extract_comp_def Let_def)
  qed
qed

lemma extract_name_join:
  "names_ok ns \<Longrightarrow> i < length ns \<Longrightarrow> url_extract_name (join ns) (starts 0 ns) i = Inr (ns ! i)"
  by (simp add: url_extract_name_def extract_join Let_def names_ok_def)

section \<open>Resolution\<close>

abbreviation dot :: bytes where "dot \<equiv> [ch CHR ''.'']"
abbreviation dotdot :: bytes where "dotdot \<equiv> [ch CHR ''.'', ch CHR ''.'']"

text \<open>What normalisation is for: a path names a walk from the root, which keeps the names it has
  entered. An empty name starts again at the root.\<close>

definition enter :: "bytes list \<Rightarrow> bytes \<Rightarrow> bytes list" where
  "enter walk n = (if n = dot then walk else if n = dotdot then butlast walk
                   else if n = [] then [] else walk @ [n])"

definition resolve :: "bytes list \<Rightarrow> bytes list" where
  "resolve ns = foldl enter [] ns"

definition show_path :: "bytes list \<Rightarrow> bytes" where
  "show_path ns = (if ns = [] then [VFS_PATH_DELIMITER] else join ns)"

text \<open>No \<open>..\<close> opens the path or follows another \<open>..\<close> or a \<open>.\<close>; the flag tells whether one may come
  next.\<close>

fun dots_ok :: "bool \<Rightarrow> bytes list \<Rightarrow> bool" where
  "dots_ok may [] = True"
| "dots_ok may (n # ns) = ((n = dotdot \<longrightarrow> may) \<and> dots_ok (n \<noteq> dot \<and> n \<noteq> dotdot) ns)"

text \<open>The names a skip mask keeps.\<close>

definition kept :: "bytes list \<Rightarrow> bool list \<Rightarrow> bytes list" where
  "kept ns sm = map fst (filter (\<lambda>(n, skip). \<not> skip) (zip ns sm))"

lemma kept_append: "length xs = length m \<Longrightarrow> kept (xs @ ys) (m @ k) = kept xs m @ kept ys k"
  by (simp add: kept_def)

lemma kept_simps [simp]:
  "kept [] sm = []" "kept ns [] = []" "kept (n # ns) (True # sm) = kept ns sm"
  "kept (n # ns) (False # sm) = n # kept ns sm" "kept ns (replicate k True) = []"
  by (auto simp: kept_def filter_empty_conv dest: set_zip_rightD in_set_replicate [THEN iffD1])

lemma enter_cases [simp]:
  "n = dot \<Longrightarrow> enter w n = w" "n = dotdot \<Longrightarrow> enter w n = butlast w" "n = [] \<Longrightarrow> enter w n = []"
  "n \<noteq> dot \<Longrightarrow> n \<noteq> dotdot \<Longrightarrow> n \<noteq> [] \<Longrightarrow> enter w n = w @ [n]"
  by (simp_all add: enter_def)

lemma kept_snoc:
  "length xs = length m \<Longrightarrow> kept (xs @ [n]) (m @ [b]) = kept xs m @ (if b then [] else [n])"
  by (simp add: kept_append kept_def)

text \<open>The state of the marking loop: the processed names \<open>xs\<close>, their marks \<open>m\<close>, and whether marking
  the last of them undoes the last step of the walk.\<close>

definition undoable :: "bytes list \<Rightarrow> bool list \<Rightarrow> bool" where
  "undoable xs m \<longleftrightarrow> xs \<noteq> [] \<and> kept xs (m[length m - 1 := True]) = butlast (kept xs m)"

lemma undoable_name: "length xs = length m \<Longrightarrow> undoable (xs @ [n]) (m @ [False])"
  by (simp add: undoable_def kept_append)

lemma undoable_root: "m \<noteq> [] \<Longrightarrow> length xs = length m \<Longrightarrow> undoable xs (replicate (length m) True)"
proof -
  assume m: "m \<noteq> []" "length xs = length m"
  have "(replicate (length m) True)[length m - 1 := True] = replicate (length m) True"
    using m by (intro list_update_same_conv [THEN iffD2]) simp_all
  then show ?thesis using m by (auto simp: undoable_def)
qed

lemma mark_loop_walks:
  assumes "names_ok (xs @ ys)" and "length xs = length m" and "dots_ok may ys"
    and "may \<longrightarrow> undoable xs m"
  shows "\<exists>sm. url_mark_loop (join (xs @ ys)) (starts 0 (xs @ ys)) (length xs) (length ys)
                   (m @ replicate (length ys) False) = Inr (S_OK, sm)
         \<and> length sm = length (xs @ ys) \<and> kept (xs @ ys) sm = foldl enter (kept xs m) ys"
  using assms
proof (induction ys arbitrary: xs m may)
  case Nil
  then show ?case by simp
next
  case (Cons n ys)
  let ?u = "join (xs @ n # ys)" and ?c = "starts 0 (xs @ n # ys)" and ?t = "replicate (length ys) False"
  have name: "url_extract_name ?u ?c (length xs) = Inr n"
    using extract_name_join [OF Cons.prems(1), of "length xs"] by simp
  have go: "\<exists>sm. url_mark_loop ?u ?c (Suc (length xs)) (length ys) (m' @ ?t) = Inr (S_OK, sm)
      \<and> length sm = length (xs @ n # ys) \<and> kept (xs @ n # ys) sm = foldl enter (enter (kept xs m) n) ys"
    if "length m' = Suc (length xs)" "kept (xs @ [n]) m' = enter (kept xs m) n"
      "n \<noteq> dot \<and> n \<noteq> dotdot \<longrightarrow> undoable (xs @ [n]) m'" for m'
    using Cons.IH [of "xs @ [n]" m' "n \<noteq> dot \<and> n \<noteq> dotdot"] that Cons.prems(1,3) by simp
  have upd: "(m @ False # ?t)[length m := b] = (m @ [b]) @ ?t" for b
    by simp
  consider "n = dot" | "n = dotdot" | "n = []" | "n \<noteq> dot" "n \<noteq> dotdot" "n \<noteq> []" by blast
  then show ?case
  proof cases
    case 1
    then show ?thesis
      using go [of "m @ [True]"] name upd [of True] Cons.prems(2) by (simp add: kept_snoc)
  next
    case 2
    then have un: "undoable xs m" using Cons.prems by simp
    let ?m = "m[length m - 1 := True] @ [True]"
    have "xs \<noteq> []" "m \<noteq> []" using un Cons.prems(2) by (auto simp: undoable_def)
    then have "(m @ False # ?t)[length m := True, length m - 1 := True] = ?m @ ?t"
      by (cases m rule: rev_cases) (simp_all add: list_update_append)
    then show ?thesis
      using go [of ?m] name Cons.prems(2) un 2 \<open>xs \<noteq> []\<close> \<open>m \<noteq> []\<close> by (simp add: kept_snoc undoable_def)
  next
    case 3
    let ?m = "replicate (length (m @ [False])) True"
    have m: "kept (xs @ [n]) ?m = []" "undoable (xs @ [n]) ?m"
      using undoable_root [of "m @ [False]" "xs @ [n]"] Cons.prems(2) by (simp_all del: replicate_Suc)
    have "replicate (length xs + 1) True @ drop (length xs + 1) (m @ False # ?t) = ?m @ ?t"
      using Cons.prems(2) by (simp del: replicate_Suc)
    then show ?thesis
      using go [of ?m] m name Cons.prems(2) 3 by (simp del: replicate_Suc)
  next
    case 4
    then show ?thesis
      using go [of "m @ [False]"] name Cons.prems(2) undoable_name by (simp add: kept_snoc)
  qed
qed

lemma compose_join:
  assumes "names_ok (xs @ ys)" and "length m = length xs" and "length k = length ys"
  shows "url_compose_loop (join (xs @ ys)) (starts 0 (xs @ ys)) (length xs) (length ys) (m @ k)
       = Inr (join (kept ys k))"
  using assms
proof (induction ys arbitrary: xs m k)
  case Nil
  then show ?case by simp
next
  case (Cons n ys)
  then obtain b k' where k: "k = b # k'" "length k' = length ys" by (cases k) auto
  have "url_extract_name (join (xs @ n # ys)) (starts 0 (xs @ n # ys)) (length xs) = Inr n"
    using extract_name_join [OF Cons.prems(1), of "length xs"] by simp
  then show ?case
    using Cons.IH [of "xs @ [n]" "m @ [b]" k'] Cons.prems k by (cases b) (simp_all add: nth_append)
qed

lemma names_ok_kept: "names_ok ns \<Longrightarrow> names_ok (foldl enter w ns) \<or> \<not> names_ok w"
proof (induction ns arbitrary: w)
  case (Cons n ns)
  have "names_ok w \<Longrightarrow> names_ok (enter w n)"
    using Cons.prems by (auto simp: names_ok_def enter_def dest: in_set_butlastD)
  moreover have "names_ok ns" using Cons.prems by (simp add: names_ok_def)
  ultimately show ?case using Cons.IH [of "enter w n"] by auto
qed auto

section \<open>Properties\<close>

text \<open>C39. On a path made of names that fit the name buffer, in which no \<open>..\<close> opens the path or follows
  a \<open>.\<close> or another \<open>..\<close>, \<^verbatim>\<open>url_normalize\<close> writes the path of the walk the names describe: a \<open>.\<close>
  stays, a \<open>..\<close> leaves the last directory entered, an empty name goes back to the root.\<close>

theorem url_normalize_resolves:
  assumes "names_ok ns" and "dots_ok False ns"
  shows "url_normalize (join ns) = Inr (S_OK, show_path (resolve ns))"
proof -
  have comps: "url_decompose (join ns) VFS_PATH_DELIMITER = starts 0 ns"
    using decompose_join [OF assms(1), of 0] by (simp add: map_idI)
  obtain sm where sm: "url_mark_loop (join ns) (starts 0 ns) 0 (length ns) (replicate (length ns) False)
      = Inr (S_OK, sm)" "length sm = length ns" "kept ns sm = resolve ns"
    using mark_loop_walks [of "[]" ns "[]" False] assms by (auto simp: resolve_def)
  have "url_compose_loop (join ns) (starts 0 ns) 0 (length ns) sm = Inr (join (resolve ns))"
    using compose_join [of "[]" ns "[]" sm] assms(1) sm by simp
  moreover have "join xs = [] \<longleftrightarrow> xs = []" for xs by (cases xs) simp_all
  moreover have "starts 0 ns = [] \<longleftrightarrow> ns = []" by (cases ns) simp_all
  ultimately show ?thesis
    using sm by (simp add: url_normalize_def comps Let_def show_path_def resolve_def)
qed

theorem url_normalize_resolves_witness:
  "url_normalize (join [[97], [98], dotdot, [99], dot]) = Inr (S_OK, [47, 97, 47, 99])"
proof -
  have "names_ok [[97], [98], dotdot, [99], dot]" "dots_ok False [[97], [98], dotdot, [99], dot]"
    by (simp_all add: names_ok_def VFS_PATH_DELIMITER_def VFS_MAX_FILENAME_LENGTH_def)
  moreover have "show_path (resolve [[97], [98], dotdot, [99], dot]) = [47, 97, 47, 99]"
    by (simp add: show_path_def resolve_def enter_def VFS_PATH_DELIMITER_def)
  ultimately show ?thesis using url_normalize_resolves [of "[[97], [98], dotdot, [99], dot]"] by simp
qed

lemma last_offset_None: "last_offset c xs = None \<longleftrightarrow> c \<notin> set xs"
  by (induction xs) (auto split: option.splits)

lemma last_offset_Some: "last_offset c xs = Some i \<Longrightarrow> \<exists>d b. xs = d @ c # b \<and> length d = i \<and> c \<notin> set b"
proof (induction xs arbitrary: i)
  case (Cons x xs)
  show ?case
  proof (cases "last_offset c xs")
    case None
    then have "x = c" "i = 0" "c \<notin> set xs"
      using Cons.prems by (auto simp: last_offset_None [symmetric] split: if_splits)
    then show ?thesis by (intro exI [of _ "[]"] exI [of _ xs]) auto
  next
    case (Some j)
    then obtain d b where "xs = d @ c # b" "length d = j" "c \<notin> set b" using Cons.IH by blast
    then have "x # xs = (x # d) @ c # b" "length (x # d) = Suc j" "c \<notin> set b" by simp_all
    then show ?thesis using Cons.prems Some by (metis last_offset.simps(2) option.simps(5) option.inject)
  qed
qed simp

text \<open>\<^verbatim>\<open>url_get_dirname\<close> and \<^verbatim>\<open>url_get_basename\<close> split a path at its last delimiter: the base name
  has no delimiter, and directory, delimiter and base name put together are the path again. The
  directory of a name in the root is the root.\<close>

theorem url_split_at_last_delimiter:
  assumes "VFS_PATH_DELIMITER \<in> set path"
  shows "VFS_PATH_DELIMITER \<notin> set (url_get_basename path)
    \<and> (\<exists>d. path = d @ VFS_PATH_DELIMITER # url_get_basename path
           \<and> url_get_dirname path = (if d = [] then [VFS_PATH_DELIMITER] else d))"
proof -
  obtain i where i: "last_offset VFS_PATH_DELIMITER path = Some i"
    using assms last_offset_None by fastforce
  then obtain d b where db: "path = d @ VFS_PATH_DELIMITER # b" "length d = i" "VFS_PATH_DELIMITER \<notin> set b"
    using last_offset_Some by blast
  have "url_get_basename path = b" using i db by (simp add: url_get_basename_def)
  moreover have "url_get_dirname path = (if d = [] then [VFS_PATH_DELIMITER] else d)"
    using i db by (auto simp: url_get_dirname_def VFS_PATH_DELIMITER_def)
  ultimately show ?thesis using db by blast
qed

theorem url_split_at_last_delimiter_witness:
  "VFS_PATH_DELIMITER \<notin> set (url_get_basename [47, 97, 47, 98])
   \<and> (\<exists>d. [47, 97, 47, 98] = d @ VFS_PATH_DELIMITER # url_get_basename [47, 97, 47, 98]
          \<and> url_get_dirname [47, 97, 47, 98] = (if d = [] then [VFS_PATH_DELIMITER] else d))"
  using url_split_at_last_delimiter [of "[47, 97, 47, 98]"] by (simp add: VFS_PATH_DELIMITER_def)

text \<open>A \<open>..\<close> that follows another \<open>..\<close> is lost, because it marks the \<open>..\<close> before it and not the name
  that one had already removed a neighbour of: \<^verbatim>\<open>/a/b/../..\<close> becomes \<^verbatim>\<open>/a\<close>, not \<^verbatim>\<open>/\<close>.\<close>

theorem url_normalize_repeated_dotdot:
  "url_normalize (join [[97], [98], dotdot, dotdot]) = Inr (S_OK, [47, 97])
   \<and> show_path (resolve [[97], [98], dotdot, dotdot]) = [47]"
  by code_simp

end
