(* ===== verification/Interrupts.thy ===== *)
theory Interrupts
  imports Antonix_Base
begin

unbundle bit_operations_syntax

text \<open>
  Model of \<^verbatim>\<open>desctables.c\<close>: the descriptor tables, the interrupt controllers and the table of
  interrupt handlers. Port writes are logged, newest first; a read of a controller's data port
  gives back the mask written there last. Handlers and assembly stubs are their addresses.
\<close>

section \<open>Data\<close>

record gdt_entry =
  ge_limit_low :: u16
  ge_base_low :: u16
  ge_base_middle :: u8
  ge_access :: u8
  ge_granularity :: u8
  ge_base_high :: u8

record idt_entry =
  ie_base_low :: u16
  ie_selector :: u16
  ie_reserved :: u8
  ie_flags :: u8
  ie_base_high :: u16

text \<open>The members of the task state segment that the kernel sets; the others stay 0.\<close>

record tss_entry =
  ts_esp0 :: u32
  ts_ss0 :: u32
  ts_cs :: u32
  ts_ss :: u32
  ts_ds :: u32
  ts_es :: u32
  ts_fs :: u32
  ts_gs :: u32

record interrupts =
  in_if :: bool
  in_gdt :: "gdt_entry list"
  in_idt :: "idt_entry list"
  in_tss :: tss_entry
  in_isr :: "u32 list"
  in_io :: "(u16 \<times> u8) list"

definition INVALID_IRQ_LINE :: u32 where "INVALID_IRQ_LINE = 0xFFFFFFFF"
definition IRQ0_INTID :: u32 where "IRQ0_INTID = 32"
definition IRQ8_INTID :: u32 where "IRQ8_INTID = 40"
definition IRQ15_INTID :: u32 where "IRQ15_INTID = 47"
definition RESCHEDULE_INTID :: u32 where "RESCHEDULE_INTID = 0x81"
definition PORT_PIC1_CMD :: u16 where "PORT_PIC1_CMD = 0x20"
definition PORT_PIC1_DATA :: u16 where "PORT_PIC1_DATA = 0x21"
definition PORT_PIC2_CMD :: u16 where "PORT_PIC2_CMD = 0xA0"
definition PORT_PIC2_DATA :: u16 where "PORT_PIC2_DATA = 0xA1"
definition PIC_EOI :: u8 where "PIC_EOI = 0x20"

lemmas pic_defs = PORT_PIC1_CMD_def PORT_PIC1_DATA_def PORT_PIC2_CMD_def PORT_PIC2_DATA_def PIC_EOI_def
lemmas intid_defs = INVALID_IRQ_LINE_def IRQ0_INTID_def IRQ8_INTID_def IRQ15_INTID_def

definition WRITE_PORT_UCHAR :: "interrupts \<Rightarrow> u16 \<Rightarrow> u8 \<Rightarrow> interrupts" where
  "WRITE_PORT_UCHAR s port v = s\<lparr>in_io := (port, v) # in_io s\<rparr>"

definition READ_PORT_UCHAR :: "interrupts \<Rightarrow> u16 \<Rightarrow> u8" where
  "READ_PORT_UCHAR s port = (case map_of (in_io s) port of None \<Rightarrow> 0 | Some v \<Rightarrow> v)"

section \<open>Interrupt lines\<close>

definition irq_to_intid :: "u32 \<Rightarrow> u32" where
  "irq_to_intid irq_id =
     (if irq_id > 15 then 0xFFFFFFFF
      else if irq_id < 8 then IRQ0_INTID + irq_id else IRQ8_INTID + (irq_id - 8))"

definition intid_to_irq :: "u32 \<Rightarrow> u32" where
  "intid_to_irq int_id =
     (if int_id \<ge> IRQ0_INTID \<and> int_id \<le> IRQ15_INTID then int_id - IRQ0_INTID else INVALID_IRQ_LINE)"

definition irq_enable :: "interrupts \<Rightarrow> u8 \<Rightarrow> hresult \<times> interrupts" where
  "irq_enable s irq_id =
     (if irq_id > 15 then (E_INVALIDARG, s)
      else
        let port = (if irq_id < 8 then PORT_PIC1_DATA else PORT_PIC2_DATA);
            irq_id = (if irq_id < 8 then irq_id else irq_id - 8);
            val = READ_PORT_UCHAR s port AND NOT (push_bit (unat irq_id) 1)
        in (S_OK, WRITE_PORT_UCHAR s port val))"

definition irq_disable :: "interrupts \<Rightarrow> u8 \<Rightarrow> hresult \<times> interrupts" where
  "irq_disable s irq_id =
     (if irq_id > 15 then (E_INVALIDARG, s)
      else
        let port = (if irq_id < 8 then PORT_PIC1_DATA else PORT_PIC2_DATA);
            irq_id = (if irq_id < 8 then irq_id else irq_id - 8);
            val = READ_PORT_UCHAR s port OR push_bit (unat irq_id) 1
        in (S_OK, WRITE_PORT_UCHAR s port val))"

definition irq_disable_all :: "interrupts \<Rightarrow> hresult \<times> interrupts" where
  "irq_disable_all s =
     (S_OK, WRITE_PORT_UCHAR (WRITE_PORT_UCHAR s PORT_PIC1_DATA 0xFF) PORT_PIC2_DATA 0xFF)"

section \<open>Handlers\<close>

definition register_isr_callback :: "interrupts \<Rightarrow> u32 \<Rightarrow> u32 \<Rightarrow> hresult \<times> interrupts" where
  "register_isr_callback s int_id pCB =
     (if int_id \<ge> 256 then (E_INVALIDARG, s)
      else
        let s = s\<lparr>in_isr := (in_isr s)[unat int_id := pCB]\<rparr>;
            s = (if intid_to_irq int_id \<noteq> INVALID_IRQ_LINE
                 then snd (irq_enable s (ucast (intid_to_irq int_id))) else s)
        in (S_OK, s))"

text \<open>The line to disable is the truth value of a comparison.\<close>

definition unregister_isr_callback :: "interrupts \<Rightarrow> u32 \<Rightarrow> hresult \<times> interrupts" where
  "unregister_isr_callback s int_id =
     (let s = (if intid_to_irq int_id \<noteq> 0
               then snd (irq_disable s (if intid_to_irq int_id \<noteq> INVALID_IRQ_LINE then 1 else 0)) else s)
      in register_isr_callback s int_id 0)"

definition pic_send_eoi :: "interrupts \<Rightarrow> u8 \<Rightarrow> interrupts" where
  "pic_send_eoi s irq =
     (let s = (if irq \<ge> 8 then WRITE_PORT_UCHAR s PORT_PIC2_CMD PIC_EOI else s)
      in WRITE_PORT_UCHAR s PORT_PIC1_CMD PIC_EOI)"

text \<open>The gateways return the handler they call, \<open>None\<close> if they call none. \<open>irr\<close> is the in-service
  register that the controller shows after the query of a spurious interrupt.\<close>

definition isr_handler_gateway :: "interrupts \<Rightarrow> u32 \<Rightarrow> u32 option run" where
  "isr_handler_gateway s int_no =
     (if unat int_no \<ge> length (in_isr s) then Inl BadAccess
      else if in_isr s ! unat int_no \<noteq> 0 then Inr (Some (in_isr s ! unat int_no)) else Inr None)"

definition irq_handler_gateway :: "interrupts \<Rightarrow> u32 \<Rightarrow> u8 \<Rightarrow> (u32 option \<times> interrupts) run" where
  "irq_handler_gateway s int_no irr =
     (let irqid = intid_to_irq int_no;
          s = (if int_no = 0x27 then WRITE_PORT_UCHAR s 0x20 0x0B else s) in
      if int_no = 0x27 \<and> irr AND 0x80 = 0 then Inr (None, s)
      else
        let s = pic_send_eoi s (ucast irqid) in
        if unat int_no \<ge> length (in_isr s) then Inl BadAccess
        else if in_isr s ! unat int_no \<noteq> 0 then Inr (Some (in_isr s ! unat int_no), s)
        else Inl (Panic ''Unhandled IRQ''))"

section \<open>Descriptor tables\<close>

definition gdt_gate :: "u32 \<Rightarrow> u32 \<Rightarrow> u8 \<Rightarrow> u8 \<Rightarrow> gdt_entry" where
  "gdt_gate base limit access gran =
     \<lparr> ge_limit_low = ucast (limit AND 0xFFFF), ge_base_low = ucast (base AND 0xFFFF),
       ge_base_middle = ucast (drop_bit 16 base AND 0xFF), ge_access = access,
       ge_granularity = ucast (drop_bit 16 limit AND 0x0F) OR (gran AND 0xF0),
       ge_base_high = ucast (drop_bit 24 base AND 0xFF) \<rparr>"

definition gdt_set_gate ::
  "interrupts \<Rightarrow> nat \<Rightarrow> u32 \<Rightarrow> u32 \<Rightarrow> u8 \<Rightarrow> u8 \<Rightarrow> interrupts run" where
  "gdt_set_gate s num base limit access gran =
     bindR (guardR (num < length (in_gdt s)) BadAccess) (\<lambda>_.
     Inr (s\<lparr>in_gdt := (in_gdt s)[num := gdt_gate base limit access gran]\<rparr>))"

text \<open>\<open>tss_base\<close> is the address of the task state segment, whose size is 104 bytes.\<close>

definition gdt_initialize :: "interrupts \<Rightarrow> u32 \<Rightarrow> interrupts run" where
  "gdt_initialize s tss_base =
     bindR (gdt_set_gate s 0 0 0 0 0) (\<lambda>s.
     bindR (gdt_set_gate s 1 0 0xFFFFFFFF 0x9A 0xCF) (\<lambda>s.
     bindR (gdt_set_gate s 2 0 0xFFFFFFFF 0x92 0xCF) (\<lambda>s.
     bindR (gdt_set_gate s 3 0 0xFFFFFFFF 0xFA 0xCF) (\<lambda>s.
     bindR (gdt_set_gate s 4 0 0xFFFFFFFF 0xF2 0xCF) (\<lambda>s.
     bindR (gdt_set_gate s 5 tss_base (tss_base + 104) 0xE9 0x00) (\<lambda>s.
     Inr (s\<lparr>in_tss := \<lparr> ts_esp0 = 0, ts_ss0 = 0x10, ts_cs = 0x08 OR 2, ts_ss = 0x10 OR 2, ts_ds = 0x10 OR 2,
              ts_es = 0x10 OR 2, ts_fs = 0x10 OR 2, ts_gs = 0x10 OR 2 \<rparr>\<rparr>)))))))"

definition gdt_update_tss :: "interrupts \<Rightarrow> u16 \<Rightarrow> u32 \<Rightarrow> interrupts" where
  "gdt_update_tss s ss_kernel esp_kernel =
     s\<lparr>in_tss := (in_tss s)\<lparr>ts_ss0 := ucast ss_kernel, ts_esp0 := esp_kernel\<rparr>\<rparr>"

definition idt_set_gate :: "interrupts \<Rightarrow> u8 \<Rightarrow> u32 \<Rightarrow> u16 \<Rightarrow> u8 \<Rightarrow> interrupts" where
  "idt_set_gate s num base sel flags =
     s\<lparr>in_idt := (in_idt s)[unat num := \<lparr> ie_base_low = ucast (base AND 0xFFFF), ie_selector = sel,
        ie_reserved = 0, ie_flags = flags, ie_base_high = ucast (drop_bit 16 base AND 0xFFFF) \<rparr>]\<rparr>"

text \<open>\<open>isr_stub\<close> and \<open>irq_stub\<close> are the addresses of the assembly stubs, \<open>gpf\<close> that of the general
  protection fault handler.\<close>

definition idt_initialize :: "interrupts \<Rightarrow> (nat \<Rightarrow> u32) \<Rightarrow> (nat \<Rightarrow> u32) \<Rightarrow> u32 \<Rightarrow> interrupts" where
  "idt_initialize s isr_stub irq_stub gpf =
     (let zero = \<lparr> ie_base_low = 0, ie_selector = 0, ie_reserved = 0, ie_flags = 0, ie_base_high = 0 \<rparr>;
          s = s\<lparr>in_idt := replicate 256 zero\<rparr>;
          s = foldl (\<lambda>s n. idt_set_gate s (of_nat n) (isr_stub n) 0x08 0x8E) s [0..<32];
          s = idt_set_gate s 128 (isr_stub 128) 0x08 0xEE;
          s = idt_set_gate s 129 (isr_stub 129) 0x08 0xEE;
          s = s\<lparr>in_if := False\<rparr>;
          s = foldl (\<lambda>s (port, v). WRITE_PORT_UCHAR s port v) s
                [(PORT_PIC1_CMD, 0x11), (PORT_PIC2_CMD, 0x11), (PORT_PIC1_DATA, 0x20), (PORT_PIC2_DATA, 0x28),
                 (PORT_PIC1_DATA, 0x04), (PORT_PIC2_DATA, 0x02), (PORT_PIC1_DATA, 0x01), (PORT_PIC2_DATA, 0x01),
                 (PORT_PIC1_DATA, 0x0), (PORT_PIC2_DATA, 0x0)];
          s = s\<lparr>in_if := True\<rparr>;
          s = foldl (\<lambda>s n. idt_set_gate s (ucast IRQ0_INTID + of_nat n) (irq_stub n) 0x08 0x8E) s [0..<16];
          s = snd (irq_disable_all s);
          s = snd (irq_enable s 2);
          s = s\<lparr>in_isr := replicate 256 0\<rparr>
      in snd (register_isr_callback s 0xD gpf))"

section \<open>The mask of a line\<close>

definition line_masked :: "interrupts \<Rightarrow> nat \<Rightarrow> bool" where
  "line_masked s n = bit (READ_PORT_UCHAR s (if n < 8 then PORT_PIC1_DATA else PORT_PIC2_DATA)) (n mod 8)"

lemma read_write_port [simp]:
  "READ_PORT_UCHAR (WRITE_PORT_UCHAR s p v) q = (if p = q then v else READ_PORT_UCHAR s q)"
  by (simp add: READ_PORT_UCHAR_def WRITE_PORT_UCHAR_def)

lemma write_port_fields [simp]:
  "in_isr (WRITE_PORT_UCHAR s p v) = in_isr s" "in_idt (WRITE_PORT_UCHAR s p v) = in_idt s"
  by (simp_all add: WRITE_PORT_UCHAR_def)

lemma read_port_isr [simp]: "READ_PORT_UCHAR (s\<lparr>in_isr := i\<rparr>) p = READ_PORT_UCHAR s p"
  by (simp add: READ_PORT_UCHAR_def)

lemma line_masked_isr [simp]: "line_masked (s\<lparr>in_isr := i\<rparr>) n = line_masked s n"
  by (simp add: line_masked_def)

lemma irq_enable_masked:
  assumes "k < 16" and "n < 16"
  shows "line_masked (snd (irq_enable s (of_nat k))) n \<longleftrightarrow> line_masked s n \<and> n \<noteq> k"
proof -
  have k: "unat (of_nat k :: u8) = k" using assms(1) by (simp add: unat_of_nat)
  then have le: "(of_nat k :: u8) \<le> 15" "(of_nat k :: u8) < 8 \<longleftrightarrow> k < 8"
    using assms(1) by (simp_all add: word_le_nat_alt word_less_nat_alt)
  have "\<not> k < 8 \<Longrightarrow> unat (of_nat k - 8 :: u8) = k - 8"
    using le k by (simp add: unat_sub not_less)
  then have sh: "unat (if (of_nat k :: u8) < 8 then of_nat k else of_nat k - 8 :: u8) = k mod 8"
    using k le assms(1) by (auto simp: mod_if)
  have "k mod 8 = n mod 8 \<longleftrightarrow> k = n" if "k < 8 \<longleftrightarrow> n < 8"
    using that assms by (cases "k < 8") (auto simp: mod_if split: if_splits)
  then show ?thesis
    unfolding irq_enable_def Let_def sh using le(1) assms
    by (auto simp: line_masked_def le(2) bit_simps pic_defs)
qed

lemma irq_enable_isr [simp]: "in_isr (snd (irq_enable s k)) = in_isr s"
  by (simp add: irq_enable_def Let_def)

lemma intid_line: "n < 16 \<Longrightarrow> intid_to_irq (32 + of_nat n) = of_nat n"
proof -
  assume n: "n < 16"
  then have "unat (32 + of_nat n :: u32) = 32 + n" by (simp add: unat_word_ariths unat_of_nat)
  then show ?thesis using n by (simp add: intid_to_irq_def intid_defs word_le_nat_alt)
qed

lemma intid_small: "n < 16 \<Longrightarrow> unat (32 + of_nat n :: u32) = 32 + n"
  by (simp add: unat_word_ariths unat_of_nat)

lemma register_irq:
  assumes "n < 16"
  shows "register_isr_callback s (32 + of_nat n) cb
       = (S_OK, snd (irq_enable (s\<lparr>in_isr := (in_isr s)[32 + n := cb]\<rparr>) (of_nat n)))"
proof -
  have "\<not> (32 + of_nat n :: u32) \<ge> 256" using assms intid_small [OF assms] by (simp add: word_le_nat_alt)
  moreover have "of_nat n \<noteq> INVALID_IRQ_LINE"
    using assms by (simp add: INVALID_IRQ_LINE_def word_unat_eq_iff unat_of_nat)
  moreover have "ucast (of_nat n :: u32) = (of_nat n :: u8)"
    using assms by (simp add: word_unat_eq_iff unat_of_nat unsigned_ucast_eq take_bit_nat_eq_self)
  ultimately show ?thesis
    using intid_line [OF assms] intid_small [OF assms] by (simp add: register_isr_callback_def Let_def)
qed

lemma irq_disable_masked:
  assumes "n < 16"
  shows "line_masked (snd (irq_disable s 1)) n \<longleftrightarrow> line_masked s n \<or> n = 1"
proof -
  have "n mod 8 = 1 \<longleftrightarrow> n = 1" if "n < 8" using that by (simp add: mod_if)
  then show ?thesis
    by (auto simp: irq_disable_def Let_def line_masked_def bit_simps pic_defs)
qed

lemma irq_disable_isr [simp]: "in_isr (snd (irq_disable s k)) = in_isr s"
  by (simp add: irq_disable_def Let_def)

lemma gdt_initialize_overruns:
  "length (in_gdt s) = 5 \<Longrightarrow> gdt_initialize s tss_base = Inl BadAccess"
  by (simp add: gdt_initialize_def gdt_set_gate_def)

section \<open>Properties\<close>

text \<open>A handler registered for an interrupt line receives the interrupts of that line: the line is
  unmasked and no other line's mask changes, and the next interrupt on it is acknowledged and calls
  the handler, unless it is a spurious interrupt on line 7.\<close>

theorem registered_handler_called:
  assumes "length (in_isr s) = 256" and "n < 16" and "cb \<noteq> 0"
    and "register_isr_callback s (32 + of_nat n) cb = (hr, s')"
  shows "hr = S_OK \<and> (\<forall>m < 16. line_masked s' m \<longleftrightarrow> line_masked s m \<and> m \<noteq> n)
    \<and> (\<exists>s''. irq_handler_gateway s' (32 + of_nat n) irr
           = Inr (if n = 7 \<and> irr AND 0x80 = 0 then None else Some cb, s'')
         \<and> (n = 7 \<and> irr AND 0x80 = 0 \<or> (PORT_PIC1_CMD, PIC_EOI) = hd (in_io s'')))"
proof -
  have s': "hr = S_OK" "s' = snd (irq_enable (s\<lparr>in_isr := (in_isr s)[32 + n := cb]\<rparr>) (of_nat n))"
    using assms(2,4) by (simp_all add: register_irq)
  have "\<forall>m < 16. line_masked s' m \<longleftrightarrow> line_masked s m \<and> m \<noteq> n"
    unfolding s'(2) using assms(2) by (simp add: irq_enable_masked)
  moreover have "in_isr s' ! (32 + n) = cb" "length (in_isr s') = 256"
    using s'(2) assms(1,2) by simp_all
  moreover have "(32 + of_nat n :: u32) = 0x27 \<longleftrightarrow> n = 7"
    using intid_small [OF assms(2)] by (simp add: word_unat_eq_iff)
  ultimately show ?thesis
    using s'(1) assms(2,3) intid_small [OF assms(2)]
    by (cases "n = 7") (simp_all add: irq_handler_gateway_def Let_def pic_send_eoi_def WRITE_PORT_UCHAR_def)
qed

definition quiet_interrupts :: interrupts where
  "quiet_interrupts = \<lparr> in_if = False, in_gdt = [], in_idt = [],
     in_tss = \<lparr> ts_esp0 = 0, ts_ss0 = 0, ts_cs = 0, ts_ss = 0, ts_ds = 0, ts_es = 0, ts_fs = 0, ts_gs = 0 \<rparr>,
     in_isr = replicate 256 0, in_io = [(PORT_PIC1_DATA, 0xFF), (PORT_PIC2_DATA, 0xFF)] \<rparr>"

theorem registered_handler_called_witness:
  "\<exists>s' s''. register_isr_callback quiet_interrupts 33 0xC0101000 = (S_OK, s')
     \<and> irq_handler_gateway s' 33 0 = Inr (Some 0xC0101000, s'')"
proof -
  obtain hr s' where r: "register_isr_callback quiet_interrupts (32 + of_nat 1) 0xC0101000 = (hr, s')"
    by fastforce
  then show ?thesis
    using registered_handler_called [OF _ _ _ r, of 0] by (auto simp: quiet_interrupts_def)
qed

text \<open>Removing the handler of an interrupt line does the opposite of disabling it. The line ends up
  unmasked, whatever it was before; it is line 1 that gets masked, unless the line is 0 or 1; and the
  next interrupt on the line brings the kernel down, because its handler is gone.\<close>

theorem unregister_unmasks_line:
  assumes "length (in_isr s) = 256" and "n < 16" and "n \<noteq> 7"
    and "unregister_isr_callback s (32 + of_nat n) = (hr, s')"
  shows "(\<forall>m < 16. line_masked s' m \<longleftrightarrow> m \<noteq> n \<and> (line_masked s m \<or> m = 1 \<and> n \<noteq> 0))
    \<and> irq_handler_gateway s' (32 + of_nat n) irr = Inl (Panic ''Unhandled IRQ'')"
proof -
  let ?d = "if n = 0 then s else snd (irq_disable s 1)"
  have "(of_nat n :: u32) = 0 \<longleftrightarrow> n = 0" "of_nat n \<noteq> INVALID_IRQ_LINE"
    using assms(2) by (simp_all add: INVALID_IRQ_LINE_def word_unat_eq_iff unat_of_nat)
  then have s': "s' = snd (irq_enable (?d\<lparr>in_isr := (in_isr ?d)[32 + n := 0]\<rparr>) (of_nat n))"
    using assms(2,4) by (auto simp: unregister_isr_callback_def Let_def intid_line register_irq)
  have "\<forall>m < 16. line_masked s' m \<longleftrightarrow> m \<noteq> n \<and> (line_masked s m \<or> m = 1 \<and> n \<noteq> 0)"
    unfolding s' using assms(2) by (auto simp: irq_enable_masked irq_disable_masked)
  moreover have "in_isr s' ! (32 + n) = 0" "length (in_isr s') = 256"
    using s' assms(1,2) by simp_all
  moreover have "(32 + of_nat n :: u32) = 0x27 \<longleftrightarrow> n = 7"
    using intid_small [OF assms(2)] by (simp add: word_unat_eq_iff)
  ultimately show ?thesis
    using assms(2,3) intid_small [OF assms(2)] by (simp add: irq_handler_gateway_def Let_def pic_send_eoi_def)
qed

theorem unregister_unmasks_line_witness:
  "\<not> line_masked (snd (unregister_isr_callback quiet_interrupts 33)) 1
   \<and> irq_handler_gateway (snd (unregister_isr_callback quiet_interrupts 33)) 33 0 = Inl (Panic ''Unhandled IRQ'')"
proof -
  obtain hr s' where r: "unregister_isr_callback quiet_interrupts (32 + of_nat 1) = (hr, s')"
    by fastforce
  then show ?thesis
    using unregister_unmasks_line [OF _ _ _ r, of 0] by (auto simp: quiet_interrupts_def)
qed

end
