(* ===== verification/Processes.thy ===== *)
theory Processes
  imports Interrupts Sync SkHeap PhysMem Heap
begin

text \<open>
  The kernel state that \<^verbatim>\<open>mm_virt.c\<close> and \<^verbatim>\<open>scheduler.c\<close> share, and the process table of
  \<^verbatim>\<open>scheduler.c\<close>. Objects of one type live in one store, a function from address to object; the
  static heap of \<^verbatim>\<open>SkHeap\<close> decides which addresses they get. Address 0 is the null pointer.
\<close>

section \<open>Data\<close>

record page_entry =
  pe_present :: bool
  pe_writable :: bool
  pe_user :: bool
  pe_frame_addr :: u32

record page_dir_entry =
  de_present :: bool
  de_readwrite :: bool
  de_allow_user_read :: bool
  de_page_table_addr :: u32

record page_dir =
  pd_table :: "nat \<Rightarrow> page_dir_entry"
  pd_phys_table :: "nat \<Rightarrow> u32"
  pd_phys_table_phys_addr :: u32

record k_vmm_region =
  vr_phys_addr :: u32
  vr_virt_addr :: u32
  vr_region_size :: u32
  vr_usage :: u32
  vr_access :: u32

record k_thread =
  th_process :: u32
  th_id :: u32
  th_stack_size :: u32
  th_user_stack :: u32
  th_kernel_stack :: u32
  th_eip :: u32
  th_esp :: u32
  th_ebp :: u32
  th_state :: u32
  th_quanta :: u32
  th_priority :: u32
  th_running :: bool
  th_next :: u32

record k_process =
  pr_name :: bytes
  pr_id :: u32
  pr_priority :: u32
  pr_mode :: u32
  pr_thread_id_counter :: u32
  pr_threads :: "u32 list"
  pr_thread_count :: u32
  pr_regions :: "k_vmm_region list"
  pr_region_count :: u32
  pr_page_dir :: u32
  pr_page_dir_phys :: u32
  pr_lock :: spinlock

definition MAX_THREADS :: nat where "MAX_THREADS = 32"
definition MAX_PROCESSES :: nat where "MAX_PROCESSES = 32"
definition MAX_VM_REGIONS :: nat where "MAX_VM_REGIONS = 32"
definition MAX_KERNEL_REGIONS :: nat where "MAX_KERNEL_REGIONS = 128"

text \<open>The objects as \<^verbatim>\<open>memset\<close> leaves them, and the sizes of their types in bytes.\<close>

definition zero_page_entry :: page_entry where
  "zero_page_entry = \<lparr> pe_present = False, pe_writable = False, pe_user = False, pe_frame_addr = 0 \<rparr>"

definition zero_page_dir_entry :: page_dir_entry where
  "zero_page_dir_entry = \<lparr> de_present = False, de_readwrite = False, de_allow_user_read = False,
     de_page_table_addr = 0 \<rparr>"

definition zero_page_dir :: page_dir where
  "zero_page_dir = \<lparr> pd_table = (\<lambda>_. zero_page_dir_entry), pd_phys_table = (\<lambda>_. 0),
     pd_phys_table_phys_addr = 0 \<rparr>"

definition zero_region :: k_vmm_region where
  "zero_region = \<lparr> vr_phys_addr = 0, vr_virt_addr = 0, vr_region_size = 0, vr_usage = 0, vr_access = 0 \<rparr>"

definition zero_thread :: k_thread where
  "zero_thread = \<lparr> th_process = 0, th_id = 0, th_stack_size = 0, th_user_stack = 0, th_kernel_stack = 0,
     th_eip = 0, th_esp = 0, th_ebp = 0, th_state = 0, th_quanta = 0, th_priority = 0,
     th_running = False, th_next = 0 \<rparr>"

definition zero_process :: k_process where
  "zero_process = \<lparr> pr_name = replicate 32 0, pr_id = 0, pr_priority = 0, pr_mode = 0,
     pr_thread_id_counter = 0, pr_threads = replicate MAX_THREADS 0, pr_thread_count = 0,
     pr_regions = replicate MAX_VM_REGIONS zero_region, pr_region_count = 0, pr_page_dir = 0,
     pr_page_dir_phys = 0, pr_lock = spinlock_create \<rparr>"

definition sizeof_page_table :: u32 where "sizeof_page_table = 4096"
definition sizeof_page_dir :: u32 where "sizeof_page_dir = 4096 + 4096 + 4"
definition sizeof_thread :: u32 where "sizeof_thread = 52"
definition sizeof_process :: u32 where "sizeof_process = 836"

section \<open>The kernel state\<close>

record kernel =
  ks_int :: interrupts
  ks_heap :: skheap
  ks_bitmap :: bitmap
  ks_tables :: "u32 \<Rightarrow> nat \<Rightarrow> page_entry"
  ks_dirs :: "u32 \<Rightarrow> page_dir"
  ks_procs :: "u32 \<Rightarrow> k_process"
  ks_threads :: "u32 \<Rightarrow> k_thread"
  ks_process_array :: "u32 list"
  ks_process_count :: u32
  ks_process_array_lock :: spinlock
  ks_kernel_proc :: u32
  ks_initialized :: bool
  ks_free_pid :: u32
  ks_run_queue :: u32
  ks_current :: u32
  ks_sched_lock :: spinlock
  ks_sched_enabled :: u32
  ks_kernel_regions :: "k_vmm_region list"
  ks_kernel_region_cnt :: u32
  ks_page_dir :: u32
  ks_cr3 :: u32

definition upd_proc :: "kernel \<Rightarrow> u32 \<Rightarrow> (k_process \<Rightarrow> k_process) \<Rightarrow> kernel" where
  "upd_proc s p f = s\<lparr>ks_procs := (ks_procs s)(p := f (ks_procs s p))\<rparr>"

definition upd_thread :: "kernel \<Rightarrow> u32 \<Rightarrow> (k_thread \<Rightarrow> k_thread) \<Rightarrow> kernel" where
  "upd_thread s t f = s\<lparr>ks_threads := (ks_threads s)(t := f (ks_threads s t))\<rparr>"

section \<open>The spinlocks of the kernel state\<close>

datatype lock_id = ProcessArrayLock | SchedLock | ProcessLock u32

fun lock_of :: "kernel \<Rightarrow> lock_id \<Rightarrow> spinlock" where
  "lock_of s ProcessArrayLock = ks_process_array_lock s"
| "lock_of s SchedLock = ks_sched_lock s"
| "lock_of s (ProcessLock p) = pr_lock (ks_procs s p)"

fun set_lock :: "lock_id \<Rightarrow> spinlock \<Rightarrow> kernel \<Rightarrow> kernel" where
  "set_lock ProcessArrayLock sl s = s\<lparr>ks_process_array_lock := sl\<rparr>"
| "set_lock SchedLock sl s = s\<lparr>ks_sched_lock := sl\<rparr>"
| "set_lock (ProcessLock p) sl s = upd_proc s p (\<lambda>pr. pr\<lparr>pr_lock := sl\<rparr>)"

text \<open>The processor as the synchronisation objects see it.\<close>

definition kernel_cpu :: "kernel \<Rightarrow> cpu" where
  "kernel_cpu s = \<lparr> cpu_if = in_if (ks_int s), cpu_current = (if ks_current s = 0 then None else
     let t = ks_threads s (ks_current s) in Some (pr_id (ks_procs s (th_process t)), th_id t)) \<rparr>"

definition set_if :: "bool \<Rightarrow> kernel \<Rightarrow> kernel" where
  "set_if b s = s\<lparr>ks_int := (ks_int s)\<lparr>in_if := b\<rparr>\<rparr>"

definition lock_acquire :: "kernel \<Rightarrow> lock_id \<Rightarrow> (u32 \<times> kernel) run" where
  "lock_acquire s l = bindR (spinlock_acquire (kernel_cpu s) (lock_of s l)) (\<lambda>(ifl, c, sl).
     Inr (ifl, set_lock l sl (set_if (cpu_if c) s)))"

definition lock_release :: "kernel \<Rightarrow> lock_id \<Rightarrow> u32 \<Rightarrow> kernel run" where
  "lock_release s l ifl = bindR (spinlock_release (kernel_cpu s) (lock_of s l) ifl) (\<lambda>(c, sl).
     Inr (set_lock l sl (set_if (cpu_if c) s)))"

text \<open>Work done under a lock, from the acquisition to the release.\<close>

definition with_lock :: "kernel \<Rightarrow> lock_id \<Rightarrow> (kernel \<Rightarrow> ('a \<times> kernel) run) \<Rightarrow> ('a \<times> kernel) run" where
  "with_lock s l body =
     bindR (lock_acquire s l) (\<lambda>(ifl, s).
     bindR (body s) (\<lambda>(r, s).
     bindR (lock_release s l ifl) (\<lambda>s. Inr (r, s))))"

section \<open>The process table\<close>

text \<open>The search of \<^verbatim>\<open>sched_find_process\<close> and of \<^verbatim>\<open>sched_find_proc\<close>.\<close>

definition find_pid :: "kernel \<Rightarrow> u32 \<Rightarrow> u32 option" where
  "find_pid s pid = find (\<lambda>p. pr_id (ks_procs s p) = pid) (take (unat (ks_process_count s)) (ks_process_array s))"

definition sched_find_process :: "kernel \<Rightarrow> u32 \<Rightarrow> ((hresult \<times> u32) \<times> kernel) run" where
  "sched_find_process s pid =
     with_lock s ProcessArrayLock (\<lambda>s.
       case find_pid s pid of Some p \<Rightarrow> Inr ((S_OK, p), s) | None \<Rightarrow> Inr ((E_NOTFOUND, 0), s))"

definition sched_find_proc :: "kernel \<Rightarrow> u32 \<Rightarrow> ((hresult \<times> u32) \<times> kernel) run" where
  "sched_find_proc s pid =
     with_lock s ProcessArrayLock (\<lambda>s.
       case find_pid s pid of Some p \<Rightarrow> Inr ((S_OK, p), s) | None \<Rightarrow> Inr ((E_NOTFOUND, 0), s))"

definition sched_get_process_count :: "kernel \<Rightarrow> (u32 \<times> kernel) run" where
  "sched_get_process_count s = with_lock s ProcessArrayLock (\<lambda>s. Inr (ks_process_count s, s))"

definition sched_get_process_by_id :: "kernel \<Rightarrow> u32 \<Rightarrow> ((hresult \<times> u32) \<times> kernel) run" where
  "sched_get_process_by_id s i =
     with_lock s ProcessArrayLock (\<lambda>s.
       if i < ks_process_count s then Inr ((S_OK, ks_process_array s ! unat i), s)
       else Inr ((E_NOTFOUND, 0), s))"

definition sched_get_current_proc :: "kernel \<Rightarrow> ((hresult \<times> u32) \<times> kernel) run" where
  "sched_get_current_proc s =
     with_lock s SchedLock (\<lambda>s.
       if ks_current s = 0 then Inr ((E_FAIL, 0), s)
       else Inr ((S_OK, th_process (ks_threads s (ks_current s))), s))"

definition sched_get_current_pid :: "kernel \<Rightarrow> ((hresult \<times> u32) \<times> kernel) run" where
  "sched_get_current_pid s =
     bindR (sched_get_current_proc s) (\<lambda>((hr, p), s).
     if FAILED hr then Inr ((hr, 0), s) else Inr ((S_OK, pr_id (ks_procs s p)), s))"

definition sched_get_current_tid :: "kernel \<Rightarrow> ((hresult \<times> u32) \<times> kernel) run" where
  "sched_get_current_tid s =
     with_lock s SchedLock (\<lambda>s.
       if ks_current s = 0 then Inr ((E_FAIL, 0), s)
       else Inr ((S_OK, th_id (ks_threads s (ks_current s))), s))"

text \<open>A null process descriptor stands for the first process of the table.\<close>

definition process_or_kernel :: "kernel \<Rightarrow> u32 \<Rightarrow> ((hresult \<times> u32) \<times> kernel) run" where
  "process_or_kernel s proc_desc =
     (if proc_desc = 0 then sched_get_process_by_id s 0 else Inr ((S_OK, proc_desc), s))"

lemma process_or_kernel_nonnull [simp]: "p \<noteq> 0 \<Longrightarrow> process_or_kernel s p = Inr ((S_OK, p), s)"
  by (simp add: process_or_kernel_def)

section \<open>Reading under a lock\<close>

definition locked :: "kernel \<Rightarrow> lock_id \<Rightarrow> kernel" where
  "locked s l = set_lock l \<lparr> sl_lock = 1 \<rparr> (set_if False s)"

lemma set_if_same [simp]: "set_if (in_if (ks_int s)) s = s" "set_if b (set_if c s) = set_if b s"
  by (simp_all add: set_if_def)

lemma set_lock_set_if: "set_lock l sl (set_if b s) = set_if b (set_lock l sl s)"
  by (cases l) (simp_all add: set_if_def upd_proc_def)

lemma set_lock_same [simp]: "set_lock l (lock_of s l) s = s" "set_lock l a (set_lock l b s) = set_lock l a s"
  by (cases l; simp add: upd_proc_def)+

lemma lock_of_set [simp]: "lock_of (set_lock l sl s) l = sl" "lock_of (set_if b s) l = lock_of s l"
  by (cases l; simp add: upd_proc_def set_if_def)+

lemma kernel_cpu_if [simp]: "cpu_if (kernel_cpu s) = in_if (ks_int s)"
  by (simp add: kernel_cpu_def)

lemma in_if_set [simp]: "in_if (ks_int (set_lock l sl s)) = in_if (ks_int s)" "in_if (ks_int (set_if b s)) = b"
  by (cases l; simp add: upd_proc_def set_if_def)+

lemma lock_acquire_free: "sl_lock (lock_of s l) = 0 \<Longrightarrow>
  lock_acquire s l = Inr (if in_if (ks_int s) then 1 else 0, locked s l)"
  by (cases "lock_of s l") (simp add: lock_acquire_def spinlock_acquire_def locked_def Let_def)

lemma lock_acquire_held: "sl_lock (lock_of s l) \<noteq> 0 \<Longrightarrow> lock_acquire s l = Inl NoReturn"
  by (simp add: lock_acquire_def spinlock_acquire_def Let_def)

lemma lock_release_locked:
  assumes "sl_lock (lock_of s l) = 0"
  shows "lock_release (locked s l) l (if in_if (ks_int s) then 1 else 0) = Inr s"
proof -
  have "lock_of s l = \<lparr> sl_lock = 0 \<rparr>" using assms by (cases "lock_of s l") simp
  then have "set_lock l \<lparr> sl_lock = 0 \<rparr> s = s" using set_lock_same(1) [of l s] by simp
  moreover have "set_if (in_if (ks_int s)) s = s" by simp
  ultimately show ?thesis
    by (cases "in_if (ks_int s)")
      (simp_all add: lock_release_def spinlock_release_def locked_def set_lock_set_if)
qed

lemma with_lock_read:
  "with_lock s l (\<lambda>s. Inr (f s, s)) = (if sl_lock (lock_of s l) = 0 then Inr (f (locked s l), s) else Inl NoReturn)"
  by (simp add: with_lock_def lock_acquire_free lock_acquire_held lock_release_locked)

lemma locked_process_fields [simp]:
  "ks_process_array (locked s l) = ks_process_array s" "ks_process_count (locked s l) = ks_process_count s"
  "ks_current (locked s l) = ks_current s" "ks_threads (locked s l) = ks_threads s"
  "pr_id (ks_procs (locked s l) p) = pr_id (ks_procs s p)"
  by (cases l; simp add: locked_def set_if_def upd_proc_def)+

lemma sched_find_process_eq:
  "sched_find_process s pid = (if sl_lock (ks_process_array_lock s) = 0
     then Inr (case find_pid s pid of Some p \<Rightarrow> (S_OK, p) | None \<Rightarrow> (E_NOTFOUND, 0), s) else Inl NoReturn)"
proof -
  have "sched_find_process s pid = with_lock s ProcessArrayLock
      (\<lambda>s. Inr (case find_pid s pid of Some p \<Rightarrow> (S_OK, p) | None \<Rightarrow> (E_NOTFOUND, 0), s))"
    unfolding sched_find_process_def by (rule arg_cong [where f = "with_lock s ProcessArrayLock"]) (auto split: option.splits)
  then show ?thesis by (simp add: with_lock_read) (simp add: find_pid_def)
qed

lemma sched_get_process_by_id_eq:
  "sched_get_process_by_id s i = (if sl_lock (ks_process_array_lock s) = 0
     then Inr (if i < ks_process_count s then (S_OK, ks_process_array s ! unat i) else (E_NOTFOUND, 0), s)
     else Inl NoReturn)"
proof -
  have "sched_get_process_by_id s i = with_lock s ProcessArrayLock
      (\<lambda>s. Inr (if i < ks_process_count s then (S_OK, ks_process_array s ! unat i) else (E_NOTFOUND, 0), s))"
    unfolding sched_get_process_by_id_def by (rule arg_cong [where f = "with_lock s ProcessArrayLock"]) auto
  then show ?thesis by (simp add: with_lock_read)
qed

lemma sched_get_current_proc_eq:
  "sched_get_current_proc s = (if sl_lock (ks_sched_lock s) = 0
     then Inr (if ks_current s = 0 then (E_FAIL, 0) else (S_OK, th_process (ks_threads s (ks_current s))), s)
     else Inl NoReturn)"
proof -
  have "sched_get_current_proc s = with_lock s SchedLock
      (\<lambda>s. Inr (if ks_current s = 0 then (E_FAIL, 0) else (S_OK, th_process (ks_threads s (ks_current s))), s))"
    unfolding sched_get_current_proc_def by (rule arg_cong [where f = "with_lock s SchedLock"]) auto
  then show ?thesis by (simp add: with_lock_read)
qed

end
