(* ===== verification/Vmm.thy ===== *)
theory Vmm
  imports Processes
begin

unbundle bit_operations_syntax

text \<open>
  Model of \<^verbatim>\<open>mm_virt.c\<close>: the regions of an address space and the page directories and page tables
  that implement them. The processor's translation cache is left out; a change of a table takes
  effect at once. \<^verbatim>\<open>vmm_lock\<close> and \<^verbatim>\<open>vmm_unlock\<close> do nothing in the code.
\<close>

section \<open>Constants\<close>

definition VM_PAGE_FRAME_SIZE :: u32 where "VM_PAGE_FRAME_SIZE = 0x1000"
definition KERNEL_HEAP_START :: u32 where "KERNEL_HEAP_START = 0xC8000000"
definition KERNEL_TEMP_START :: u32 where "KERNEL_TEMP_START = 0xFE000000"
definition USAGE_HEAP :: u32 where "USAGE_HEAP = 0x8"
definition USAGE_STACK :: u32 where "USAGE_STACK = 0x10"
definition USAGE_AUTOFREE :: u32 where "USAGE_AUTOFREE = 0x20"
definition USAGE_TEMP :: u32 where "USAGE_TEMP = 0x40"
definition ACCESS_READWRITE :: u32 where "ACCESS_READWRITE = 0x01 OR 0x02"
definition PROCESS_MODE_KERNEL :: u32 where "PROCESS_MODE_KERNEL = 0x00"
definition PROCESS_MODE_USER :: u32 where "PROCESS_MODE_USER = 0x01"

text \<open>The distance of the linker symbols \<^verbatim>\<open>kernel_virtual_start\<close> and \<^verbatim>\<open>kernel_physical_start\<close>.\<close>

definition get_kernel_address_space_offset :: u32 where
  "get_kernel_address_space_offset = 0xC0100000 - (0xC0100000 - 0xC0000000)"

section \<open>Page tables\<close>

text \<open>A page directory entry that names no page table gets one from the static heap on demand.\<close>

definition fetch_page_table ::
  "kernel \<Rightarrow> u32 \<Rightarrow> nat \<Rightarrow> bool \<Rightarrow> bool \<Rightarrow> bool \<Rightarrow> (hresult \<times> u32 \<times> kernel) run" where
  "fetch_page_table s dir i auto_create autocr_rw autocr_us =
     bindR (guardR (dir \<noteq> 0) BadAccess) (\<lambda>_.
     if de_page_table_addr (pd_table (ks_dirs s dir) i) \<noteq> 0 then
       Inr (S_OK, skheap_get_virt_addr (push_bit 12 (de_page_table_addr (pd_table (ks_dirs s dir) i))), s)
     else if auto_create then
       bindR (skheap_calloc_a (ks_heap s) sizeof_page_table) (\<lambda>(table, heap).
       let phys = skheap_get_phys_addr table;
           d = ks_dirs s dir;
           e = \<lparr> de_present = True, de_readwrite = autocr_rw, de_allow_user_read = autocr_us,
                 de_page_table_addr = drop_bit 12 phys \<rparr>
       in Inr (S_OK, table,
            s\<lparr>ks_heap := heap, ks_tables := (ks_tables s)(table := (\<lambda>_. zero_page_entry)),
              ks_dirs := (ks_dirs s)(dir := d\<lparr>pd_phys_table := (pd_phys_table d)(i := phys),
                                               pd_table := (pd_table d)(i := e)\<rparr>)\<rparr>))
     else Inr (E_INVALIDARG, 0, s))"

definition set_page :: "kernel \<Rightarrow> u32 \<Rightarrow> nat \<Rightarrow> page_entry \<Rightarrow> kernel" where
  "set_page s table i e = s\<lparr>ks_tables := (ks_tables s)(table := (ks_tables s table)(i := e))\<rparr>"

definition page_table_id :: "u32 \<Rightarrow> nat" where "page_table_id a = unat ((a div 0x1000) div 1024)"
definition page_id :: "u32 \<Rightarrow> nat" where "page_id a = unat ((a div 0x1000) mod 1024)"

text \<open>The loop that fills \<open>n\<close> page table entries from a virtual and a physical address on.\<close>

fun map_pages :: "kernel \<Rightarrow> u32 \<Rightarrow> bool \<Rightarrow> bool \<Rightarrow> u32 \<Rightarrow> u32 \<Rightarrow> nat \<Rightarrow> kernel run" where
  "map_pages s dir f_rw f_us phys_addr_idx virt_addr_idx 0 = Inr s"
| "map_pages s dir f_rw f_us phys_addr_idx virt_addr_idx (Suc n) =
     bindR (fetch_page_table s dir (page_table_id virt_addr_idx) True f_rw f_us) (\<lambda>(hr, table, s).
     if FAILED hr then Inl (Panic ''Failed to retrieve page table.'')
     else if table = 0 then Inl BadAccess
     else
       let s = set_page s table (page_id virt_addr_idx)
                 \<lparr> pe_present = True, pe_writable = f_rw, pe_user = f_us,
                   pe_frame_addr = drop_bit 12 phys_addr_idx \<rparr>
       in map_pages s dir f_rw f_us (phys_addr_idx + VM_PAGE_FRAME_SIZE) (virt_addr_idx + VM_PAGE_FRAME_SIZE) n)"

text \<open>The loop that clears the present bits up to an end address. \<open>None\<close>: it never ends.\<close>

partial_function (option) unmap_pages ::
  "kernel \<Rightarrow> u32 \<Rightarrow> u32 \<Rightarrow> u32 \<Rightarrow> (hresult \<times> kernel) run option" where
  "unmap_pages s dir virt_addr_idx end_addr =
     (if virt_addr_idx < end_addr then
        (case fetch_page_table s dir (page_table_id virt_addr_idx) False False False of
           Inl h \<Rightarrow> Some (Inl h)
         | Inr (hr, table, s) \<Rightarrow>
             if FAILED hr then Some (Inr (hr, s))
             else if table = 0 then Some (Inl BadAccess)
             else unmap_pages
                    (set_page s table (page_id virt_addr_idx)
                       ((ks_tables s table (page_id virt_addr_idx))\<lparr>pe_present := False\<rparr>))
                    dir (virt_addr_idx + VM_PAGE_FRAME_SIZE) end_addr)
      else Some (Inr (S_OK, s)))"

definition run_unmap_pages :: "kernel \<Rightarrow> u32 \<Rightarrow> u32 \<Rightarrow> u32 \<Rightarrow> (hresult \<times> kernel) run" where
  "run_unmap_pages s dir virt_addr end_addr =
     (case unmap_pages s dir virt_addr end_addr of None \<Rightarrow> Inl NoReturn | Some r \<Rightarrow> r)"

section \<open>Regions\<close>

text \<open>The overlap test of the mapping routines: does the region start or end inside the range?\<close>

definition region_overlap :: "u32 \<Rightarrow> u32 \<Rightarrow> k_vmm_region \<Rightarrow> bool" where
  "region_overlap range_start range_end r \<longleftrightarrow>
     vr_virt_addr r \<ge> range_start \<and> vr_virt_addr r < range_end
     \<or> vr_virt_addr r + vr_region_size r > range_start \<and> vr_virt_addr r + vr_region_size r \<le> range_end"

definition region_index :: "k_vmm_region list \<Rightarrow> u32 \<Rightarrow> u32 \<Rightarrow> nat option" where
  "region_index regions cnt virt_addr =
     find (\<lambda>i. vr_virt_addr (regions ! i) = virt_addr) [0..<unat cnt]"

text \<open>Removal from the array, with the count still the old one.\<close>

definition region_remove :: "k_vmm_region list \<Rightarrow> u32 \<Rightarrow> nat \<Rightarrow> k_vmm_region list" where
  "region_remove regions cnt i =
     foldl (\<lambda>rs i. rs[i := rs ! (i + 1)]) regions [i..<unat (cnt - 1)]"

text \<open>The loop that looks for the region with the highest address.\<close>

fun highest_region :: "k_vmm_region \<Rightarrow> k_vmm_region list \<Rightarrow> k_vmm_region run" where
  "highest_region r [] = Inr r"
| "highest_region r (x # xs) =
     (if vr_virt_addr x = vr_virt_addr r then Inl (Panic '''')
      else highest_region (if vr_virt_addr x > vr_virt_addr r then x else r) xs)"

section \<open>Address spaces of processes\<close>

definition vmm_find_region :: "kernel \<Rightarrow> u32 \<Rightarrow> u32 \<Rightarrow> hresult \<times> k_vmm_region option" where
  "vmm_find_region s proc virt_addr =
     (let p = ks_procs s proc in
      case region_index (pr_regions p) (pr_region_count p) virt_addr of
        Some i \<Rightarrow> (S_OK, Some (pr_regions p ! i))
      | None \<Rightarrow> (E_FAIL, None))"

definition vmm_map_region ::
  "kernel \<Rightarrow> u32 \<Rightarrow> u32 \<Rightarrow> u32 \<Rightarrow> u32 \<Rightarrow> u32 \<Rightarrow> u32 \<Rightarrow> bool \<Rightarrow> (hresult \<times> kernel) run" where
  "vmm_map_region s proc_desc phys_addr virt_addr sz usage access commit =
     bindR (process_or_kernel s proc_desc) (\<lambda>((hr, proc), s).
     if FAILED hr then Inr (hr, s)
     else
       let p = ks_procs s proc; n = unat (pr_region_count p) in
       if n = MAX_VM_REGIONS then Inl (Panic ''Maximum count of virtual memory regions reached.'')
       else if sz mod VM_PAGE_FRAME_SIZE \<noteq> 0 then
         Inl (Panic ''Memory region's length is not granular to page frame size.'')
       else if phys_addr mod 0x1000 \<noteq> 0 then Inl (Panic ''Physical address must be aligned at 4KiB.'')
       else if list_ex (region_overlap virt_addr (virt_addr + sz)) (take n (pr_regions p)) then Inr (E_FAIL, s)
       else
         bindR (guardR (n < length (pr_regions p)) BadAccess) (\<lambda>_.
         let r = \<lparr> vr_phys_addr = phys_addr, vr_virt_addr = virt_addr, vr_region_size = sz,
                   vr_usage = usage, vr_access = access \<rparr>;
             s = upd_proc s proc (\<lambda>p. p\<lparr>pr_regions := (pr_regions p)[n := r]\<rparr>)
         in bindR (map_pages s (pr_page_dir p) (access = ACCESS_READWRITE) (usage OR USAGE_USER \<noteq> 0)
                     phys_addr virt_addr (unat (sz div VM_PAGE_FRAME_SIZE))) (\<lambda>s.
            Inr (S_OK, upd_proc s proc (\<lambda>p. p\<lparr>pr_region_count := pr_region_count p + 1\<rparr>)))))"

definition vmm_unmap_region :: "kernel \<Rightarrow> u32 \<Rightarrow> u32 \<Rightarrow> bool \<Rightarrow> (hresult \<times> kernel) run" where
  "vmm_unmap_region s proc_desc virt_addr commit =
     bindR (process_or_kernel s proc_desc) (\<lambda>((hr, proc), s).
     if FAILED hr then Inr (hr, s)
     else
       let p = ks_procs s proc in
       case region_index (pr_regions p) (pr_region_count p) virt_addr of
         None \<Rightarrow> Inr (E_INVALIDARG, s)
       | Some i \<Rightarrow>
           let r = pr_regions p ! i; num_blocks = vr_region_size r div VM_PAGE_FRAME_SIZE in
           if \<not> num_blocks > 0 then Inl (Panic '''')
           else
             bindR (run_unmap_pages s (pr_page_dir p) virt_addr (virt_addr + vr_region_size r)) (\<lambda>(hr, s).
             if FAILED hr then Inr (hr, s)
             else
               bindR (if vr_usage r AND USAGE_AUTOFREE \<noteq> 0 then
                        (if vr_region_size r mod VM_PAGE_FRAME_SIZE \<noteq> 0 then Inl (Panic '''')
                         else bindR (kpmm_unmark_blocks (ks_bitmap s) (vr_phys_addr r)
                                       (vr_region_size r div VM_PAGE_FRAME_SIZE)) (\<lambda>(hr, bm).
                              Inr (hr, s\<lparr>ks_bitmap := bm\<rparr>)))
                      else Inr (S_OK, s)) (\<lambda>(hr, s).
               if FAILED hr then Inr (hr, s)
               else Inr (S_OK, upd_proc s proc (\<lambda>p.
                      p\<lparr>pr_regions := region_remove (pr_regions p) (pr_region_count p) i,
                        pr_region_count := pr_region_count p - 1\<rparr>)))))"

text \<open>A failure of the process lookup is returned as if it were the address.\<close>

definition vmm_get_address_space_end :: "kernel \<Rightarrow> u32 \<Rightarrow> (u32 \<times> kernel) run" where
  "vmm_get_address_space_end s proc_desc =
     bindR (process_or_kernel s proc_desc) (\<lambda>((hr, proc), s).
     if FAILED hr then Inr (hr_code hr, s)
     else if pr_region_count (ks_procs s proc) = 0 then Inr (KERNEL_HEAP_START, s)
     else
       with_lock s (ProcessLock proc) (\<lambda>s.
         let p = ks_procs s proc in
         bindR (highest_region (pr_regions p ! 0) (drop 1 (take (unat (pr_region_count p)) (pr_regions p)))) (\<lambda>r.
         Inr (vr_virt_addr r + vr_region_size r, s))))"

definition vmm_alloc_and_map ::
  "kernel \<Rightarrow> u32 \<Rightarrow> u32 \<Rightarrow> u32 \<Rightarrow> u32 \<Rightarrow> u32 \<Rightarrow> bool \<Rightarrow> (hresult \<times> kernel) run" where
  "vmm_alloc_and_map s proc virt_addr sz usage access commit =
     bindR (kpmm_alloc (ks_bitmap s) (sz div KPMM_BLOCK_SIZE)) (\<lambda>(hr, area, bm).
     let s = s\<lparr>ks_bitmap := bm\<rparr> in
     case area of
       None \<Rightarrow> Inr (hr, s)
     | Some phys_addr \<Rightarrow>
         if FAILED hr then Inr (hr, s)
         else vmm_map_region s proc phys_addr virt_addr sz (usage OR USAGE_AUTOFREE) access commit)"

definition vmm_alloc_and_map_limited ::
  "kernel \<Rightarrow> u32 \<Rightarrow> u32 \<Rightarrow> u32 \<Rightarrow> u32 \<Rightarrow> u32 \<Rightarrow> u32 \<Rightarrow> bool \<Rightarrow> (hresult \<times> kernel) run" where
  "vmm_alloc_and_map_limited s proc_desc virt_addr limit sz usage access commit =
     bindR (kpmm_alloc (ks_bitmap s) (sz div KPMM_BLOCK_SIZE)) (\<lambda>(hr, area, bm).
     let s = s\<lparr>ks_bitmap := bm\<rparr> in
     case area of
       None \<Rightarrow> Inr (hr, s)
     | Some phys_addr \<Rightarrow>
         if FAILED hr then Inr (hr, s)
         else if phys_addr + sz > limit then
           bindR (kpmm_unmark_blocks (ks_bitmap s) phys_addr (sz div KPMM_BLOCK_SIZE)) (\<lambda>(_, bm).
           Inr (E_FAIL, s\<lparr>ks_bitmap := bm\<rparr>))
         else
           bindR (process_or_kernel s proc_desc) (\<lambda>((hr, proc), s).
           if FAILED hr then Inr (hr, s)
           else vmm_map_region s proc phys_addr virt_addr sz (usage OR USAGE_AUTOFREE) access commit))"

text \<open>The search for a free address in the temporary area, \<open>None\<close> if it never ends. An overlap with a
  region continues behind that region.\<close>

partial_function (option) temp_map_loop ::
  "k_vmm_region list \<Rightarrow> u32 \<Rightarrow> u32 \<Rightarrow> u32 option run option" where
  "temp_map_loop regions region_size addr =
     (if addr < 0xFFFFFFFF - region_size then
        (case find (region_overlap addr (addr + region_size)) regions of
           None \<Rightarrow> Some (Inr (Some addr))
         | Some r \<Rightarrow>
             if (vr_virt_addr r + vr_region_size r) mod KPMM_BLOCK_SIZE \<noteq> 0 then Some (Inl (Panic ''''))
             else temp_map_loop regions region_size
                    (vr_virt_addr r + vr_region_size r - KPMM_BLOCK_SIZE + KPMM_BLOCK_SIZE))
      else Some (Inr None))"

definition vmm_temp_map_region ::
  "kernel \<Rightarrow> u32 \<Rightarrow> u32 \<Rightarrow> u32 \<Rightarrow> (hresult \<times> u32 \<times> kernel) run" where
  "vmm_temp_map_region s proc_desc phys_addr region_size =
     (let p = ks_procs s proc_desc in
      if proc_desc = 0 then Inl BadAccess
      else case temp_map_loop (take (unat (pr_region_count p)) (pr_regions p)) region_size KERNEL_TEMP_START of
        None \<Rightarrow> Inl NoReturn
      | Some (Inl h) \<Rightarrow> Inl h
      | Some (Inr None) \<Rightarrow> Inr (E_FAIL, 0, s)
      | Some (Inr (Some addr)) \<Rightarrow>
          bindR (vmm_map_region s proc_desc phys_addr addr region_size USAGE_TEMP ACCESS_READWRITE True) (\<lambda>(hr, s).
          if FAILED hr then Inr (hr, 0, s) else Inr (S_OK, addr, s)))"

definition vmm_get_region_phys_addr :: "kernel \<Rightarrow> u32 \<Rightarrow> u32 \<Rightarrow> (hresult \<times> u32 \<times> kernel) run" where
  "vmm_get_region_phys_addr s proc_desc virt_addr =
     bindR (process_or_kernel s proc_desc) (\<lambda>((hr, proc), s).
     if FAILED hr then Inr (hr, 0, s)
     else
       let p = ks_procs s proc in
       case region_index (pr_regions p) (pr_region_count p) virt_addr of
         Some i \<Rightarrow> Inr (S_OK, vr_phys_addr (pr_regions p ! i), s)
       | None \<Rightarrow> Inr (E_NOTFOUND, 0, s))"

definition vmm_get_region ::
  "kernel \<Rightarrow> u32 \<Rightarrow> u32 \<Rightarrow> ((hresult \<times> k_vmm_region option) \<times> kernel) run" where
  "vmm_get_region s proc i =
     with_lock s (ProcessLock proc) (\<lambda>s.
       let p = ks_procs s proc in
       if proc = 0 then Inl BadAccess
       else if i > pr_region_count p then Inr ((E_INVALIDARG, None), s)
       else if unat i \<ge> length (pr_regions p) then Inl BadAccess
       else Inr ((S_OK, Some (pr_regions p ! unat i)), s))"

definition vmm_get_region_count :: "kernel \<Rightarrow> u32 \<Rightarrow> (u32 \<times> kernel) run" where
  "vmm_get_region_count s proc = with_lock s (ProcessLock proc) (\<lambda>s. Inr (pr_region_count (ks_procs s proc), s))"

section \<open>The kernel's own regions and heaps\<close>

definition vmm_map_region_ks ::
  "kernel \<Rightarrow> u32 \<Rightarrow> u32 \<Rightarrow> u32 \<Rightarrow> u32 \<Rightarrow> u32 \<Rightarrow> (hresult \<times> kernel) run" where
  "vmm_map_region_ks s phys_addr virt_addr sz usage access =
     (let n = unat (ks_kernel_region_cnt s) in
      if virt_addr < get_kernel_address_space_offset then
        Inl (Panic ''Requesting to map kernel virtual memory to address lower than 0xC0000000.'')
      else if n = MAX_KERNEL_REGIONS then Inl (Panic ''Maximum count of virtual memory regions reached.'')
      else if sz mod VM_PAGE_FRAME_SIZE \<noteq> 0 then
        Inl (Panic ''Memory region's length is not granular to page frame size.'')
      else if phys_addr mod 0x1000 \<noteq> 0 then Inl (Panic ''Physical address must be aligned at 4KiB.'')
      else if list_ex (region_overlap virt_addr (virt_addr + sz)) (take n (ks_kernel_regions s)) then Inr (E_FAIL, s)
      else
        bindR (guardR (n < length (ks_kernel_regions s)) BadAccess) (\<lambda>_.
        let r = \<lparr> vr_phys_addr = phys_addr, vr_virt_addr = virt_addr, vr_region_size = sz,
                  vr_usage = usage, vr_access = access \<rparr>;
            s = s\<lparr>ks_kernel_regions := (ks_kernel_regions s)[n := r]\<rparr>
        in bindR (map_pages s (ks_page_dir s) (access = ACCESS_READWRITE) (usage = USAGE_USER)
                    phys_addr virt_addr (unat (sz div VM_PAGE_FRAME_SIZE))) (\<lambda>s.
           Inr (S_OK, s\<lparr>ks_kernel_region_cnt := ks_kernel_region_cnt s + 1\<rparr>))))"

definition vmm_unmap_region_ks :: "kernel \<Rightarrow> u32 \<Rightarrow> (hresult \<times> kernel) run" where
  "vmm_unmap_region_ks s virt_addr =
     (case region_index (ks_kernel_regions s) (ks_kernel_region_cnt s) virt_addr of
        None \<Rightarrow> Inr (E_INVALIDARG, s)
      | Some i \<Rightarrow>
          let r = ks_kernel_regions s ! i; num_blocks = vr_region_size r div VM_PAGE_FRAME_SIZE in
          if vr_usage r AND USAGE_KERNEL = 0 then Inr (E_INVALIDARG, s)
          else if \<not> num_blocks > 0 then Inl (Panic '''')
          else
            bindR (run_unmap_pages s (ks_page_dir s) virt_addr (virt_addr + vr_region_size r)) (\<lambda>(hr, s).
            if FAILED hr then Inr (hr, s)
            else Inr (S_OK, s\<lparr>ks_kernel_regions := region_remove (ks_kernel_regions s) (ks_kernel_region_cnt s) i,
                              ks_kernel_region_cnt := ks_kernel_region_cnt s - 1\<rparr>)))"

definition vmm_find_region_ks :: "kernel \<Rightarrow> u32 \<Rightarrow> hresult \<times> k_vmm_region option" where
  "vmm_find_region_ks s virt_addr =
     (case region_index (ks_kernel_regions s) (ks_kernel_region_cnt s) virt_addr of
        Some i \<Rightarrow> (S_OK, Some (ks_kernel_regions s ! i))
      | None \<Rightarrow> (E_FAIL, None))"

definition vmm_get_address_space_end_ks :: "kernel \<Rightarrow> u32 run" where
  "vmm_get_address_space_end_ks s =
     (if ks_kernel_region_cnt s = 0 then Inr 0xC0000000
      else bindR (highest_region (ks_kernel_regions s ! 0)
                    (drop 1 (take (unat (ks_kernel_region_cnt s)) (ks_kernel_regions s)))) (\<lambda>r.
           Inr (vr_virt_addr r + vr_region_size r)))"

text \<open>The heap's address is the last component of the result.\<close>

definition vmm_create_heap_k :: "kernel \<Rightarrow> u32 \<Rightarrow> u32 \<Rightarrow> (hresult \<times> kernel \<times> u32 option) run" where
  "vmm_create_heap_k s sz usage =
     (if sz mod VM_PAGE_FRAME_SIZE \<noteq> 0 then Inl (Panic '''')
      else
        let ph_blocks = (sz + (KPMM_BLOCK_SIZE - 1)) div KPMM_BLOCK_SIZE in
        case kpmm_find_free_region (ks_bitmap s) ph_blocks of
          (hr, None) \<Rightarrow> Inl (Panic ''Not enough physical memory'')
        | (hr, Some ptr) \<Rightarrow>
            if usage = USAGE_KERNEL then
              bindR (kpmm_mark_blocks (ks_bitmap s) ptr ph_blocks) (\<lambda>(hr, bm).
              let s = s\<lparr>ks_bitmap := bm\<rparr> in
              if FAILED hr then Inr (hr, s, None)
              else
                bindR (vmm_get_address_space_end_ks s) (\<lambda>virt_addr.
                bindR (vmm_map_region_ks s ptr virt_addr sz (usage OR USAGE_HEAP) ACCESS_READWRITE) (\<lambda>(hr, s).
                Inr (hr, s, Some virt_addr))))
            else Inr (E_FAIL, s, None))"

definition vmm_create_heap :: "kernel \<Rightarrow> u32 \<Rightarrow> u32 \<Rightarrow> u32 \<Rightarrow> (hresult \<times> kernel \<times> u32 option) run" where
  "vmm_create_heap s pid sz usage =
     (if sz mod VM_PAGE_FRAME_SIZE \<noteq> 0 then Inl (Panic '''')
      else
        bindR (sched_find_process s pid) (\<lambda>((hr, proc), s).
        if FAILED hr then Inr (hr, s, None)
        else
          let ph_blocks = (sz + (KPMM_BLOCK_SIZE - 1)) div KPMM_BLOCK_SIZE in
          case kpmm_find_free_region (ks_bitmap s) ph_blocks of
            (hr, None) \<Rightarrow> Inl (Panic ''vmm_create_heap(): Not enough physical memory.'')
          | (hr, Some ptr) \<Rightarrow>
              bindR (kpmm_mark_blocks (ks_bitmap s) ptr ph_blocks) (\<lambda>(hr, bm).
              let s = s\<lparr>ks_bitmap := bm\<rparr> in
              if FAILED hr then Inr (hr, s, None)
              else
                bindR (vmm_get_address_space_end_ks s) (\<lambda>virt_addr.
                bindR (vmm_map_region s proc ptr virt_addr sz (usage OR USAGE_HEAP) ACCESS_READWRITE True) (\<lambda>(hr, s).
                Inr (hr, s, Some virt_addr))))))"

definition vmm_destroy_heap_k :: "kernel \<Rightarrow> u32 \<Rightarrow> (hresult \<times> kernel) run" where
  "vmm_destroy_heap_k s heap_ptr =
     (case vmm_find_region_ks s heap_ptr of
        (hr, None) \<Rightarrow> Inr (hr, s)
      | (hr, Some r) \<Rightarrow>
          if vr_usage r AND USAGE_HEAP = 0 then Inl (Panic ''Trying to free non-heap region'')
          else if vr_usage r AND USAGE_KERNEL \<noteq> 0 then
            bindR (vmm_unmap_region_ks s (vr_virt_addr r)) (\<lambda>(hr, s).
            if FAILED hr then Inr (hr, s)
            else if vr_region_size r mod VM_PAGE_FRAME_SIZE \<noteq> 0 then Inl (Panic '''')
            else bindR (kpmm_unmark_blocks (ks_bitmap s) (vr_phys_addr r)
                          (vr_region_size r div VM_PAGE_FRAME_SIZE)) (\<lambda>(hr, bm).
                 Inr (if FAILED hr then hr else S_OK, s\<lparr>ks_bitmap := bm\<rparr>)))
          else Inl (Panic ''Destroying user-space heap is not implemented.''))"

definition vmm_destroy_heap :: "kernel \<Rightarrow> u32 \<Rightarrow> u32 \<Rightarrow> (hresult \<times> kernel) run" where
  "vmm_destroy_heap s pid heap_ptr =
     bindR (sched_find_process s pid) (\<lambda>((hr, proc), s).
     if FAILED hr then Inr (hr, s)
     else
       case vmm_find_region s proc heap_ptr of
         (hr, None) \<Rightarrow> Inr (hr, s)
       | (hr, Some r) \<Rightarrow>
           if vr_usage r AND USAGE_HEAP = 0 then Inl (Panic ''Trying to free non-heap region'')
           else
             bindR (vmm_unmap_region s proc (vr_virt_addr r) True) (\<lambda>(hr, s).
             if FAILED hr then Inr (hr, s)
             else if vr_region_size r mod VM_PAGE_FRAME_SIZE \<noteq> 0 then Inl (Panic '''')
             else bindR (kpmm_unmark_blocks (ks_bitmap s) (vr_phys_addr r)
                           (vr_region_size r div VM_PAGE_FRAME_SIZE)) (\<lambda>(hr, bm).
                  Inr (if FAILED hr then hr else S_OK, s\<lparr>ks_bitmap := bm\<rparr>))))"

definition vmm_get_region_count_ks :: "kernel \<Rightarrow> u32" where
  "vmm_get_region_count_ks s = ks_kernel_region_cnt s"

definition vmm_get_region_ks :: "kernel \<Rightarrow> u32 \<Rightarrow> hresult \<times> k_vmm_region option" where
  "vmm_get_region_ks s i =
     (if i \<ge> ks_kernel_region_cnt s then (E_INVALIDARG, None)
      else (S_OK, Some (ks_kernel_regions s ! unat i)))"

section \<open>Initialisation\<close>

definition vmm_page_fault_handler :: "unit run" where
  "vmm_page_fault_handler = Inl (Panic ''Shutting down...'')"

definition vmm_init_virtual_address_space :: "kernel \<Rightarrow> kernel run" where
  "vmm_init_virtual_address_space s =
     bindR (vmm_map_region_ks s 0 0xC0000000 (4 * 1024 * 1024) USAGE_KERNEL ACCESS_READWRITE) (\<lambda>(hr, s).
     if FAILED hr then Inl (Panic ''Failed to map region [0x0..0x00100000] to [0xC0000000..0xC0100000].'')
     else Inr s)"

text \<open>\<open>pf_handler\<close> is the address of the page fault handler.\<close>

definition vmm_init :: "kernel \<Rightarrow> u32 \<Rightarrow> (hresult \<times> kernel) run" where
  "vmm_init s pf_handler =
     (let s = s\<lparr>ks_dirs := (ks_dirs s)(ks_page_dir s := zero_page_dir)\<rparr> in
      if ks_page_dir s mod 4096 \<noteq> 0 then Inl (Panic ''page_dir variable is not 4kb-aligned.'')
      else
        let s = s\<lparr>ks_dirs := (ks_dirs s)(ks_page_dir s :=
                    zero_page_dir\<lparr>pd_phys_table_phys_addr :=
                      ks_page_dir s + 4096 - get_kernel_address_space_offset\<rparr>)\<rparr>;
            s = s\<lparr>ks_kernel_region_cnt := 0\<rparr>;
            s = s\<lparr>ks_int := snd (register_isr_callback (ks_int s) 14 pf_handler)\<rparr>
        in bindR (vmm_init_virtual_address_space s) (\<lambda>s.
           Inr (S_OK, s\<lparr>ks_cr3 := skheap_get_phys_addr (ks_page_dir s)\<rparr>)))"

section \<open>The processor's view of an address space\<close>

text \<open>\<open>mapped s dir pg\<close> is the entry by which the processor translates page number \<open>pg\<close>, if present.\<close>

definition table_of :: "page_dir_entry \<Rightarrow> u32" where
  "table_of e = skheap_get_virt_addr (push_bit 12 (de_page_table_addr e))"

definition mapped :: "kernel \<Rightarrow> u32 \<Rightarrow> nat \<Rightarrow> page_entry option" where
  "mapped s dir pg =
     (let e = pd_table (ks_dirs s dir) (pg div 1024); p = ks_tables s (table_of e) (pg mod 1024)
      in if de_present e \<and> pe_present p then Some p else None)"

definition pool_ok :: "skheap \<Rightarrow> bool" where
  "pool_ok h \<longleftrightarrow> unat (sk_start h) mod 4096 = 0 \<and> 0xC0100000 \<le> unat (sk_start h) \<and> unat (sk_start h) + 0x100000 < 2 ^ 32"

definition table_in_use :: "skheap \<Rightarrow> u32 \<Rightarrow> bool" where
  "table_in_use h t \<longleftrightarrow> (\<exists>b. b < 4096 \<and> t = sk_start h + of_nat b * SKHEAP_BLOCK_SIZE \<and> sk_used (sk_bitmap h) b)"

text \<open>A page directory in good order: every entry that names a page table is present, the tables are
  distinct and lie in used blocks of the static heap.\<close>

definition dir_ok :: "kernel \<Rightarrow> u32 \<Rightarrow> bool" where
  "dir_ok s dir \<longleftrightarrow> dir \<noteq> 0 \<and> pool_ok (ks_heap s)
     \<and> (\<forall>i < 1024. let e = pd_table (ks_dirs s dir) i in
          (de_present e \<longleftrightarrow> de_page_table_addr e \<noteq> 0)
          \<and> (de_present e \<longrightarrow> table_in_use (ks_heap s) (table_of e) \<and> table_of e \<noteq> 0))
     \<and> (\<forall>i < 1024. \<forall>j < 1024. i \<noteq> j \<longrightarrow> de_present (pd_table (ks_dirs s dir) i) \<longrightarrow>
          de_present (pd_table (ks_dirs s dir) j) \<longrightarrow>
          table_of (pd_table (ks_dirs s dir) i) \<noteq> table_of (pd_table (ks_dirs s dir) j))"

lemma skheap_mark_region_start: "skheap_mark_region h p n u = Inr h' \<Longrightarrow> sk_start h' = sk_start h"
  by (auto simp: skheap_mark_region_def Let_def split: if_split_asm)

lemma skheap_malloc_a_start: "skheap_malloc_a h sz = Inr (q, h') \<Longrightarrow> sk_start h' = sk_start h"
  by (auto simp: skheap_malloc_a_def Let_def dest!: skheap_mark_region_start split: if_splits option.splits)

lemma page_aligned: "unat (x :: u32) mod 4096 = 0 \<Longrightarrow> push_bit 12 (drop_bit 12 x) = x"
proof -
  assume a: "unat x mod 4096 = 0"
  have "unat (take_bit 12 x) = 0"
    using a by (simp add: take_bit_eq_mod unat_mod)
  then have "take_bit 12 x = 0" by (simp add: unat_eq_zero)
  then show ?thesis using bits_ident [of 12 x] by simp
qed

lemma pool_addr:
  assumes "pool_ok h" and "b < 4096"
  shows "unat (sk_start h + of_nat b * SKHEAP_BLOCK_SIZE) = unat (sk_start h) + 256 * b"
proof -
  have "unat (of_nat b * SKHEAP_BLOCK_SIZE) = 256 * b"
    using unat_of_nat_small [of "b * 256"] assms(2) by (simp add: skheap_consts)
  then show ?thesis using assms by (subst unat_add_small) (simp_all add: pool_ok_def)
qed

lemma new_table:
  assumes "skheap_calloc_a h sizeof_page_table = Inr (t, h')" and "t \<noteq> 0" and "pool_ok h"
  shows "pool_ok h'" "table_in_use h' t" "\<not> table_in_use h t" "\<And>u. table_in_use h u \<Longrightarrow> table_in_use h' u"
    "push_bit 12 (drop_bit 12 (skheap_get_phys_addr t)) = skheap_get_phys_addr t"
    "drop_bit 12 (skheap_get_phys_addr t) \<noteq> 0"
proof -
  obtain h2 where m: "skheap_malloc_a h sizeof_page_table = Inr (t, h2)" "sk_bitmap h' = sk_bitmap h2"
    "sk_start h' = sk_start h2"
    using assms(1,2) by (auto simp: skheap_calloc_a_def split: if_splits)
  have sz: "unat sizeof_page_table \<le> 2 ^ 20" "sk_blocks sizeof_page_table = 17"
    by (simp_all add: sizeof_page_table_def sk_blocks_def)
  obtain b where b: "b + 17 < 4096" "(b + 1) mod 16 = 0"
    "t = sk_start h + of_nat b * SKHEAP_BLOCK_SIZE + SKHEAP_BLOCK_SIZE"
    "\<forall>x \<in> {b ..< b + 17}. \<not> sk_used (sk_bitmap h) x"
    "\<forall>x. sk_used (sk_bitmap h2) x \<longleftrightarrow> sk_used (sk_bitmap h) x \<or> x \<in> {b ..< b + 17}"
    using skheap_malloc_a_Inr [OF m(1) assms(2) sz(1)] that unfolding sz(2) by (elim exE conjE)
  have start: "sk_start h' = sk_start h" using m skheap_malloc_a_start by simp
  then show ok: "pool_ok h'" using assms(3) by (simp add: pool_ok_def)
  have t: "t = sk_start h + of_nat (b + 1) * SKHEAP_BLOCK_SIZE"
    using b(3) by (simp add: distrib_right)
  show "table_in_use h' t"
    unfolding table_in_use_def using t b(1,5) m(2) start by (intro exI [of _ "b + 1"]) auto
  have ut: "unat t = unat (sk_start h) + 256 * (b + 1)"
    unfolding t using pool_addr [OF assms(3), of "b + 1"] b(1) by simp
  show "\<not> table_in_use h t"
  proof
    assume "table_in_use h t"
    then obtain c where c: "c < 4096" "t = sk_start h + of_nat c * SKHEAP_BLOCK_SIZE" "sk_used (sk_bitmap h) c"
      by (auto simp: table_in_use_def)
    then have "c = b + 1" using ut pool_addr [OF assms(3), of c] by simp
    then show False using c(3) b(4) by auto
  qed
  show "table_in_use h' u" if "table_in_use h u" for u
    using that b(5) m(2) start by (auto simp: table_in_use_def)
  obtain q where q: "b + 1 = 16 * q" using b(2) by (auto simp: mod_eq_0_iff_dvd dvd_def)
  have p: "unat (skheap_get_phys_addr t) = unat t - 0xC0000000"
    unfolding skheap_get_phys_addr_def using ut assms(3) by (subst unat_sub_small) (simp_all add: pool_ok_def)
  obtain r where r: "unat (sk_start h) = 4096 * r" using assms(3) by (auto simp: pool_ok_def mod_eq_0_iff_dvd dvd_def)
  have "unat (skheap_get_phys_addr t) = 4096 * (r + q - 0xC0000)"
    using p ut q r by simp
  then show "push_bit 12 (drop_bit 12 (skheap_get_phys_addr t)) = skheap_get_phys_addr t"
    by (intro page_aligned) simp
  have "unat (drop_bit 12 (skheap_get_phys_addr t)) = unat (skheap_get_phys_addr t) div 4096"
    by (simp add: drop_bit_eq_div unat_div)
  moreover have "0x100000 \<le> unat (skheap_get_phys_addr t)"
    using p ut assms(3) unfolding pool_ok_def by linarith
  ultimately have "unat (drop_bit 12 (skheap_get_phys_addr t)) \<noteq> 0" by simp
  then show "drop_bit 12 (skheap_get_phys_addr t) \<noteq> 0" by fastforce
qed

lemma dir_okD:
  assumes "dir_ok s dir" and "i < 1024"
  shows "de_present (pd_table (ks_dirs s dir) i) \<longleftrightarrow> de_page_table_addr (pd_table (ks_dirs s dir) i) \<noteq> 0"
    and "de_present (pd_table (ks_dirs s dir) i) \<Longrightarrow> table_in_use (ks_heap s) (table_of (pd_table (ks_dirs s dir) i))"
    and "de_present (pd_table (ks_dirs s dir) i) \<Longrightarrow> table_of (pd_table (ks_dirs s dir) i) \<noteq> 0"
    and "j < 1024 \<Longrightarrow> i \<noteq> j \<Longrightarrow> de_present (pd_table (ks_dirs s dir) i) \<Longrightarrow> de_present (pd_table (ks_dirs s dir) j) \<Longrightarrow>
      table_of (pd_table (ks_dirs s dir) i) \<noteq> table_of (pd_table (ks_dirs s dir) j)"
  using assms by (auto simp: dir_ok_def Let_def)

text \<open>A routine that only touches page tables and the static heap behind them.\<close>

definition tables_only :: "kernel \<Rightarrow> kernel \<Rightarrow> bool" where
  "tables_only s s' \<longleftrightarrow> s' = s\<lparr>ks_heap := ks_heap s', ks_tables := ks_tables s', ks_dirs := ks_dirs s'\<rparr>"

lemma tables_only_refl [simp]: "tables_only s s"
  by (simp add: tables_only_def)

lemma tables_only_trans: "tables_only s s' \<Longrightarrow> tables_only s' s'' \<Longrightarrow> tables_only s s''"
  by (cases s; cases s'; cases s'') (auto simp: tables_only_def)

lemma fetch_existing:
  assumes "dir_ok s dir" and "i < 1024" and "de_present (pd_table (ks_dirs s dir) i)"
  shows "fetch_page_table s dir i c rw us = Inr (S_OK, table_of (pd_table (ks_dirs s dir) i), s)"
  using assms dir_okD(1) [OF assms(1,2)] by (simp add: fetch_page_table_def table_of_def dir_ok_def)

lemma fetch_missing:
  assumes "dir_ok s dir" and "i < 1024" and "\<not> de_present (pd_table (ks_dirs s dir) i)"
  shows "fetch_page_table s dir i False rw us = Inr (E_INVALIDARG, 0, s)"
  using assms dir_okD(1) [OF assms(1,2)] by (simp add: fetch_page_table_def dir_ok_def)

lemma fetch_creates:
  assumes "dir_ok s dir" and "i < 1024" and "fetch_page_table s dir i True rw us = Inr (hr, t, s')" and "t \<noteq> 0"
  shows "hr = S_OK \<and> dir_ok s' dir \<and> tables_only s s' \<and> de_present (pd_table (ks_dirs s' dir) i)
    \<and> table_of (pd_table (ks_dirs s' dir) i) = t \<and> (\<forall>pg < 2 ^ 20. mapped s' dir pg = mapped s dir pg)"
proof (cases "de_present (pd_table (ks_dirs s dir) i)")
  case True
  then show ?thesis using assms fetch_existing [OF assms(1,2) True] by auto
next
  case False
  let ?d = "ks_dirs s dir"
  let ?e = "\<lparr> de_present = True, de_readwrite = rw, de_allow_user_read = us,
              de_page_table_addr = drop_bit 12 (skheap_get_phys_addr t) \<rparr>"
  have "dir \<noteq> 0" "pool_ok (ks_heap s)" "de_page_table_addr (pd_table ?d i) = 0"
    using assms(1) False dir_okD(1) [OF assms(1,2)] by (simp_all add: dir_ok_def)
  then obtain h where c: "skheap_calloc_a (ks_heap s) sizeof_page_table = Inr (t, h)" "hr = S_OK"
    "s' = s\<lparr>ks_heap := h, ks_tables := (ks_tables s)(t := (\<lambda>_. zero_page_entry)),
            ks_dirs := (ks_dirs s)(dir := ?d\<lparr>pd_phys_table := (pd_phys_table ?d)(i := skheap_get_phys_addr t),
                                             pd_table := (pd_table ?d)(i := ?e)\<rparr>)\<rparr>"
    using assms(3) by (auto simp: fetch_page_table_def Let_def)
  note new = new_table [OF c(1) assms(4) \<open>pool_ok (ks_heap s)\<close>]
  have te: "table_of ?e = t"
    using new(5) by (simp add: table_of_def skheap_get_virt_addr_def skheap_get_phys_addr_def)
  have tab: "pd_table (ks_dirs s' dir) j = (if j = i then ?e else pd_table ?d j)" for j
    by (simp add: c(3))
  have fresh: "table_of (pd_table ?d j) \<noteq> t" if "j < 1024" "de_present (pd_table ?d j)" for j
    using new(3) dir_okD(2) [OF assms(1) that] by auto
  have "dir_ok s' dir"
    unfolding dir_ok_def tab
  proof (intro conjI allI impI, goal_cases)
    case (3 j)
    then show ?case
      using new te dir_okD [OF assms(1) 3] assms(4) by (auto simp: Let_def c(3))
  next
    case (4 j k)
    then show ?case
      using te fresh [of j] fresh [of k] dir_okD(4) [OF assms(1) 4(1,2)] by (auto split: if_splits)
  qed (use \<open>dir \<noteq> 0\<close> new(1) in \<open>simp_all add: c(3)\<close>)
  moreover have "mapped s' dir pg = mapped s dir pg" if "pg < 2 ^ 20" for pg
  proof (cases "pg div 1024 = i")
    case True
    then show ?thesis
      using False te by (simp add: mapped_def tab Let_def c(3) zero_page_entry_def)
  next
    case ne: False
    have "pg div 1024 < 1024" using that by simp
    then show ?thesis
      using ne fresh [of "pg div 1024"] by (auto simp: mapped_def tab Let_def c(3))
  qed
  ultimately show ?thesis
    using te c(2) by (simp add: tab) (simp add: tables_only_def c(3))
qed

lemma set_page_mapped:
  assumes "dir_ok s dir" and "q < 2 ^ 20" and "pg < 2 ^ 20" and "de_present (pd_table (ks_dirs s dir) (q div 1024))"
  shows "mapped (set_page s (table_of (pd_table (ks_dirs s dir) (q div 1024))) (q mod 1024) e) dir pg
       = (if pg = q then (if pe_present e then Some e else None) else mapped s dir pg)"
proof -
  have "q div 1024 < 1024" "pg div 1024 < 1024" using assms(2,3) by auto
  moreover have "pg = q \<longleftrightarrow> pg div 1024 = q div 1024 \<and> pg mod 1024 = q mod 1024"
    by (metis div_mult_mod_eq)
  ultimately show ?thesis
    using dir_okD(4) [OF assms(1), of "q div 1024" "pg div 1024"] assms(4)
    by (auto simp: mapped_def set_page_def Let_def)
qed

lemma set_page_dir_ok [simp]: "dir_ok (set_page s t i e) dir \<longleftrightarrow> dir_ok s dir"
  by (simp add: dir_ok_def set_page_def)

lemma set_page_tables_only [simp]: "tables_only s (set_page s t i e)"
  by (simp add: tables_only_def set_page_def)

lemma page_ids:
  assumes "unat va = 4096 * q"
  shows "page_table_id va = q div 1024" "page_id va = q mod 1024"
  using assms by (simp_all add: page_table_id_def page_id_def unat_div unat_mod)

lemma map_pages_maps:
  assumes "dir_ok s dir" and "unat va = 4096 * q" and "q + n \<le> 2 ^ 20"
    and "map_pages s dir rw us pa va n = Inr s'"
  shows "dir_ok s' dir \<and> tables_only s s' \<and> (\<forall>pg < 2 ^ 20. mapped s' dir pg =
     (if q \<le> pg \<and> pg < q + n
      then Some \<lparr> pe_present = True, pe_writable = rw, pe_user = us,
                  pe_frame_addr = drop_bit 12 (pa + of_nat (4096 * (pg - q))) \<rparr>
      else mapped s dir pg))"
  using assms
proof (induction n arbitrary: s va pa q)
  case (Suc n)
  let ?e = "\<lparr> pe_present = True, pe_writable = rw, pe_user = us, pe_frame_addr = drop_bit 12 pa \<rparr>"
  have q: "q < 2 ^ 20" "q div 1024 < 1024" using Suc.prems(3) by auto
  obtain hr t s1 where f: "fetch_page_table s dir (q div 1024) True rw us = Inr (hr, t, s1)" "t \<noteq> 0"
    and rest: "map_pages (set_page s1 t (q mod 1024) ?e) dir rw us (pa + 0x1000) (va + 0x1000) n = Inr s'"
    using Suc.prems(4) page_ids [OF Suc.prems(2)] by (auto simp: VM_PAGE_FRAME_SIZE_def Let_def split: if_splits)
  note c = fetch_creates [OF Suc.prems(1) q(2) f]
  let ?s2 = "set_page s1 t (q mod 1024) ?e"
  have m2: "mapped ?s2 dir pg = (if pg = q then Some ?e else mapped s dir pg)" if "pg < 2 ^ 20" for pg
    using set_page_mapped [of s1 dir q pg ?e] c q(1) that by auto
  have d2: "dir_ok ?s2 dir" "tables_only s ?s2"
    using c tables_only_trans [of s s1 ?s2] by simp_all
  show ?case
  proof (cases n)
    case 0
    then have "s' = ?s2" using rest by simp
    then show ?thesis using m2 d2 0 by (auto simp: le_less_Suc_eq)
  next
    case (Suc k)
    have va: "unat (va + 0x1000) = 4096 * (q + 1)"
      using Suc.prems(2,3) Suc by (subst unat_add_small) simp_all
    have IH: "dir_ok s' dir" "tables_only ?s2 s'"
      "\<And>pg. pg < 2 ^ 20 \<Longrightarrow> mapped s' dir pg =
       (if q + 1 \<le> pg \<and> pg < q + 1 + n
        then Some \<lparr> pe_present = True, pe_writable = rw, pe_user = us,
                    pe_frame_addr = drop_bit 12 (pa + 0x1000 + of_nat (4096 * (pg - (q + 1)))) \<rparr>
        else mapped ?s2 dir pg)"
      using Suc.IH [OF d2(1) va _ rest] Suc.prems(3) by simp_all
    have shift: "pa + 0x1000 + of_nat (4096 * (pg - (q + 1))) = pa + of_nat (4096 * (pg - q))" if "q + 1 \<le> pg" for pg
    proof -
      have "pg - q = Suc (pg - (q + 1))" using that by simp
      then show ?thesis by (simp only: mult_Suc_right of_nat_add) simp
    qed
    have "mapped s' dir pg = (if q \<le> pg \<and> pg < q + Suc n
        then Some \<lparr> pe_present = True, pe_writable = rw, pe_user = us,
                    pe_frame_addr = drop_bit 12 (pa + of_nat (4096 * (pg - q))) \<rparr>
        else mapped s dir pg)" if "pg < 2 ^ 20" for pg
    proof (cases "q + 1 \<le> pg")
      case True
      then show ?thesis using IH(3) [OF that] m2 [OF that] shift [OF True] by simp
    next
      case False
      then show ?thesis using IH(3) [OF that] m2 [OF that] by auto
    qed
    then show ?thesis using IH(1,2) d2(2) tables_only_trans by blast
  qed
qed auto

lemma unmap_pages_unmaps:
  assumes "dir_ok s dir" and "unat va = 4096 * q" and "unat e = 4096 * (q + n)"
    and "\<forall>pg \<in> {q ..< q + n}. mapped s dir pg \<noteq> None"
  shows "\<exists>s'. unmap_pages s dir va e = Some (Inr (S_OK, s')) \<and> dir_ok s' dir \<and> tables_only s s'
     \<and> (\<forall>pg < 2 ^ 20. mapped s' dir pg = (if q \<le> pg \<and> pg < q + n then None else mapped s dir pg))"
  using assms
proof (induction n arbitrary: s va q)
  case 0
  then have "\<not> va < e" by (simp add: word_less_nat_alt)
  then show ?case using 0 by (subst unmap_pages.simps) auto
next
  case (Suc n)
  have e: "unat e < 4294967296" by (rule unat_lt_2_32)
  then have q: "q < 2 ^ 20" "q div 1024 < 1024" using Suc.prems(3) by auto
  have lt: "va < e" using Suc.prems(2,3) by (simp add: word_less_nat_alt)
  let ?t = "table_of (pd_table (ks_dirs s dir) (q div 1024))"
  have "mapped s dir q \<noteq> None" using Suc.prems(4) by simp
  then have pres: "de_present (pd_table (ks_dirs s dir) (q div 1024))"
    by (auto simp: mapped_def Let_def split: if_splits)
  let ?p = "(ks_tables s ?t (q mod 1024))\<lparr>pe_present := False\<rparr>"
  let ?s2 = "set_page s ?t (q mod 1024) ?p"
  have m2: "mapped ?s2 dir pg = (if pg = q then None else mapped s dir pg)" if "pg < 2 ^ 20" for pg
    using set_page_mapped [OF Suc.prems(1) q(1) that pres, of ?p] by simp
  have va: "unat (va + 0x1000) = 4096 * (q + 1)"
    using Suc.prems(2,3) e by (subst unat_add_small) simp_all
  have "\<forall>pg \<in> {q + 1 ..< q + 1 + n}. mapped ?s2 dir pg \<noteq> None"
    using Suc.prems(3,4) e by (auto simp: m2)
  then obtain s' where s': "unmap_pages ?s2 dir (va + 0x1000) e = Some (Inr (S_OK, s'))" "dir_ok s' dir"
    "tables_only ?s2 s'"
    "\<forall>pg < 2 ^ 20. mapped s' dir pg = (if q + 1 \<le> pg \<and> pg < q + 1 + n then None else mapped ?s2 dir pg)"
    using Suc.IH [of ?s2 "va + 0x1000" "q + 1"] Suc.prems(1,3) va by auto
  have "unmap_pages s dir va e = Some (Inr (S_OK, s'))"
    using s'(1) lt fetch_existing [OF Suc.prems(1) q(2) pres] dir_okD(3) [OF Suc.prems(1) q(2) pres]
      page_ids [OF Suc.prems(2)]
    by (subst unmap_pages.simps) (simp add: VM_PAGE_FRAME_SIZE_def)
  moreover have "\<forall>pg < 2 ^ 20. mapped s' dir pg = (if q \<le> pg \<and> pg < q + Suc n then None else mapped s dir pg)"
    using s'(4) m2 by auto
  moreover have "tables_only s s'"
    using tables_only_trans [OF set_page_tables_only s'(3)] .
  ultimately show ?case using s'(2) by blast
qed

section \<open>Regions\<close>

lemma find_index_Some: "find P [0..<n] = Some i \<Longrightarrow> i < n \<and> P i \<and> (\<forall>j < i. \<not> P j)"
  by (auto simp: find_Some_iff)

lemma region_remove_loop:
  "i \<le> n \<Longrightarrow> n < length rs \<Longrightarrow> foldl (\<lambda>rs i. rs[i := rs ! (i + 1)]) rs [i..<n]
     = take i rs @ take (n - i) (drop (i + 1) rs) @ drop n rs"
proof (induction "n - i" arbitrary: i rs)
  case 0
  then show ?case by simp
next
  case (Suc k)
  then have i: "i < n" "i < length rs" by simp_all
  have len: "n < length (rs[i := rs ! (i + 1)])" using Suc.prems by simp
  have "foldl (\<lambda>rs i. rs[i := rs ! (i + 1)]) rs [i..<n]
      = foldl (\<lambda>rs i. rs[i := rs ! (i + 1)]) (rs[i := rs ! (i + 1)]) [i + 1..<n]"
    using i by (simp add: upt_conv_Cons)
  also have "\<dots> = take (i + 1) (rs[i := rs ! (i + 1)]) @ take (n - (i + 1)) (drop (i + 1 + 1) rs) @ drop n rs"
    using Suc.hyps(1) [of "i + 1" "rs[i := rs ! (i + 1)]"] Suc.hyps(2) i len by simp
  also have "take (i + 1) (rs[i := rs ! (i + 1)]) = take i rs @ [rs ! (i + 1)]"
    using i(2) by (simp add: take_Suc_conv_app_nth)
  moreover have "take (n - i) (drop (i + 1) rs) = rs ! (i + 1) # take (n - (i + 1)) (drop (i + 1 + 1) rs)"
  proof -
    have "drop (i + 1) rs = rs ! (i + 1) # drop (i + 1 + 1) rs" "n - i = Suc (n - (i + 1))"
      using i Suc.prems(2) Cons_nth_drop_Suc [of "i + 1" rs] by simp_all
    then show ?thesis by simp
  qed
  ultimately show ?case by simp
qed

text \<open>The regions in use.\<close>

definition live_regions :: "k_process \<Rightarrow> k_vmm_region list" where
  "live_regions p = take (unat (pr_region_count p)) (pr_regions p)"

lemma region_remove_live:
  assumes "i < unat cnt" and "unat cnt \<le> length rs"
  shows "take (unat (cnt - 1)) (region_remove rs cnt i) = remove_nth i (take (unat cnt) rs)"
proof -
  obtain m where m: "unat cnt = Suc m" "i \<le> m" "m < length rs"
    using assms by (cases "unat cnt") auto
  have "unat (cnt - 1) = m" using m(1) by (subst unat_sub_small) simp_all
  then have "region_remove rs cnt i = (take i rs @ take (m - i) (drop (i + 1) rs)) @ drop m rs"
    using m region_remove_loop [of i m rs] by (simp add: region_remove_def)
  moreover have "length (take i rs @ take (m - i) (drop (i + 1) rs)) = m"
    using m by simp
  ultimately have "take m (region_remove rs cnt i) = take i rs @ take (m - i) (drop (i + 1) rs)"
    by (metis append_eq_conv_conj)
  then show ?thesis
    using \<open>unat (cnt - 1) = m\<close> m by (simp add: remove_nth_def drop_take)
qed

section \<open>Mapping and unmapping regions\<close>

lemma upd_proc_view [simp]:
  "mapped (upd_proc s p f) d pg = mapped s d pg" "dir_ok (upd_proc s p f) d = dir_ok s d"
  "ks_procs (upd_proc s p f) p = f (ks_procs s p)"
  by (simp_all add: mapped_def dir_ok_def upd_proc_def Let_def)

lemma tables_only_procs: "tables_only s s' \<Longrightarrow> ks_procs s' = ks_procs s"
  by (subst tables_only_def [THEN iffD1], assumption, simp)

definition new_region :: "u32 \<Rightarrow> u32 \<Rightarrow> u32 \<Rightarrow> u32 \<Rightarrow> u32 \<Rightarrow> k_vmm_region" where
  "new_region phys_addr virt_addr sz usage access = \<lparr> vr_phys_addr = phys_addr, vr_virt_addr = virt_addr,
     vr_region_size = sz, vr_usage = usage, vr_access = access \<rparr>"

lemma vmm_map_region_S_OK:
  assumes "vmm_map_region s proc pa va sz usage access commit = Inr (S_OK, s')" and "proc \<noteq> 0"
  obtains s1 where "unat (pr_region_count (ks_procs s proc)) < length (pr_regions (ks_procs s proc))"
    "unat (pr_region_count (ks_procs s proc)) \<noteq> MAX_VM_REGIONS" "sz mod VM_PAGE_FRAME_SIZE = 0"
    "\<not> list_ex (region_overlap va (va + sz)) (live_regions (ks_procs s proc))"
    "map_pages (upd_proc s proc (\<lambda>p. p\<lparr>pr_regions := (pr_regions p)
        [unat (pr_region_count (ks_procs s proc)) := new_region pa va sz usage access]\<rparr>))
       (pr_page_dir (ks_procs s proc)) (access = ACCESS_READWRITE) True pa va (unat (sz div VM_PAGE_FRAME_SIZE)) = Inr s1"
    "s' = upd_proc s1 proc (\<lambda>p. p\<lparr>pr_region_count := pr_region_count p + 1\<rparr>)"
proof -
  have "usage OR USAGE_USER \<noteq> 0"
  proof
    assume "usage OR USAGE_USER = 0"
    then have "bit (usage OR USAGE_USER) 2 = bit (0 :: u32) 2" by simp
    then show False by (simp add: bit_simps USAGE_USER_def)
  qed
  then show thesis
    using assms that by (auto simp: vmm_map_region_def Let_def live_regions_def new_region_def split: if_splits)
qed

lemma sz_pages:
  assumes "sz mod VM_PAGE_FRAME_SIZE = 0"
  shows "unat (sz div VM_PAGE_FRAME_SIZE) = unat sz div 4096" "4096 * (unat sz div 4096) = unat sz"
proof -
  show "unat (sz div VM_PAGE_FRAME_SIZE) = unat sz div 4096"
    by (simp add: VM_PAGE_FRAME_SIZE_def unat_div)
  have "unat (sz mod VM_PAGE_FRAME_SIZE) = 0" using assms by simp
  then have "unat sz mod 4096 = 0" by (simp add: VM_PAGE_FRAME_SIZE_def unat_mod)
  then show "4096 * (unat sz div 4096) = unat sz" using mult_div_mod_eq [of 4096 "unat sz"] by linarith
qed

lemma map_region_effect:
  assumes "vmm_map_region s proc pa va sz usage access commit = Inr (S_OK, s')" and "proc \<noteq> 0"
    and "length (pr_regions (ks_procs s proc)) = MAX_VM_REGIONS"
    and "dir_ok s (pr_page_dir (ks_procs s proc))"
    and "unat va mod 4096 = 0" and "unat va + unat sz \<le> 2 ^ 32"
  shows "dir_ok s' (pr_page_dir (ks_procs s proc))
    \<and> (\<forall>pg < 2 ^ 20. mapped s' (pr_page_dir (ks_procs s proc)) pg =
         (if unat va div 4096 \<le> pg \<and> pg < (unat va + unat sz) div 4096
          then Some \<lparr> pe_present = True, pe_writable = (access = ACCESS_READWRITE), pe_user = True,
                      pe_frame_addr = drop_bit 12 (pa + of_nat (4096 * (pg - unat va div 4096))) \<rparr>
          else mapped s (pr_page_dir (ks_procs s proc)) pg))"
    and "live_regions (ks_procs s' proc) = live_regions (ks_procs s proc) @ [new_region pa va sz usage access]"
    and "pr_page_dir (ks_procs s' proc) = pr_page_dir (ks_procs s proc)"
    and "length (pr_regions (ks_procs s' proc)) = MAX_VM_REGIONS"
    and "unat (pr_region_count (ks_procs s' proc)) \<le> MAX_VM_REGIONS"
    and "\<not> list_ex (region_overlap va (va + sz)) (live_regions (ks_procs s proc))"
    and "sz mod VM_PAGE_FRAME_SIZE = 0"
proof -
  let ?p = "ks_procs s proc"
  let ?n = "unat (pr_region_count ?p)"
  obtain s1 where s1: "?n < length (pr_regions ?p)" "?n \<noteq> MAX_VM_REGIONS" "sz mod VM_PAGE_FRAME_SIZE = 0"
    "\<not> list_ex (region_overlap va (va + sz)) (live_regions ?p)"
    "map_pages (upd_proc s proc (\<lambda>p. p\<lparr>pr_regions := (pr_regions p)[?n := new_region pa va sz usage access]\<rparr>))
       (pr_page_dir ?p) (access = ACCESS_READWRITE) True pa va (unat (sz div VM_PAGE_FRAME_SIZE)) = Inr s1"
    "s' = upd_proc s1 proc (\<lambda>p. p\<lparr>pr_region_count := pr_region_count p + 1\<rparr>)"
    using vmm_map_region_S_OK [OF assms(1,2)] by blast
  show "\<not> list_ex (region_overlap va (va + sz)) (live_regions ?p)" "sz mod VM_PAGE_FRAME_SIZE = 0"
    using s1(3,4) by simp_all
  note pages = sz_pages [OF s1(3)]
  have q: "unat va = 4096 * (unat va div 4096)"
    using assms(5) mult_div_mod_eq [of 4096 "unat va"] by linarith
  have e: "(unat va + unat sz) div 4096 = unat va div 4096 + unat sz div 4096"
    using assms(5) by (simp add: div_add1_eq)
  have le: "unat va div 4096 + unat sz div 4096 \<le> 2 ^ 20"
    unfolding e [symmetric] using assms(6) by simp
  have m: "dir_ok s1 (pr_page_dir ?p)" "ks_procs s1 = (ks_procs s)(proc :=
      ?p\<lparr>pr_regions := (pr_regions ?p)[?n := new_region pa va sz usage access]\<rparr>)"
    "\<forall>pg < 2 ^ 20. mapped s1 (pr_page_dir ?p) pg =
         (if unat va div 4096 \<le> pg \<and> pg < unat va div 4096 + unat sz div 4096
          then Some \<lparr> pe_present = True, pe_writable = (access = ACCESS_READWRITE), pe_user = True,
                      pe_frame_addr = drop_bit 12 (pa + of_nat (4096 * (pg - unat va div 4096))) \<rparr>
          else mapped s (pr_page_dir ?p) pg)"
  proof -
    define s0 where "s0 = upd_proc s proc (\<lambda>p. p\<lparr>pr_regions := (pr_regions p)[?n := new_region pa va sz usage access]\<rparr>)"
    have s0: "dir_ok s0 (pr_page_dir ?p)" "mapped s0 d pg = mapped s d pg"
      "ks_procs s0 = (ks_procs s)(proc := ?p\<lparr>pr_regions := (pr_regions ?p)[?n := new_region pa va sz usage access]\<rparr>)" for d pg
      using assms(4) unfolding s0_def by simp_all (simp add: upd_proc_def)
    note maps = map_pages_maps [OF s0(1) q le s1(5) [folded s0_def, unfolded pages(1)]]
    show "dir_ok s1 (pr_page_dir ?p)" using maps by blast
    have "tables_only s0 s1" using maps by blast
    then show "ks_procs s1 = (ks_procs s)(proc := ?p\<lparr>pr_regions := (pr_regions ?p)[?n := new_region pa va sz usage access]\<rparr>)"
      using s0(3) tables_only_procs by metis
    show "\<forall>pg < 2 ^ 20. mapped s1 (pr_page_dir ?p) pg =
         (if unat va div 4096 \<le> pg \<and> pg < unat va div 4096 + unat sz div 4096
          then Some \<lparr> pe_present = True, pe_writable = (access = ACCESS_READWRITE), pe_user = True,
                      pe_frame_addr = drop_bit 12 (pa + of_nat (4096 * (pg - unat va div 4096))) \<rparr>
          else mapped s (pr_page_dir ?p) pg)"
      using maps unfolding s0(2) by blast
  qed
  show "dir_ok s' (pr_page_dir ?p)
    \<and> (\<forall>pg < 2 ^ 20. mapped s' (pr_page_dir ?p) pg =
         (if unat va div 4096 \<le> pg \<and> pg < (unat va + unat sz) div 4096
          then Some \<lparr> pe_present = True, pe_writable = (access = ACCESS_READWRITE), pe_user = True,
                      pe_frame_addr = drop_bit 12 (pa + of_nat (4096 * (pg - unat va div 4096))) \<rparr>
          else mapped s (pr_page_dir ?p) pg))"
    using m(1,3) unfolding s1(6) e by simp
  have "unat (pr_region_count ?p + 1) = Suc ?n"
    using s1(1) assms(3) by (subst unat_add_small) (simp_all add: MAX_VM_REGIONS_def)
  then show "live_regions (ks_procs s' proc) = live_regions ?p @ [new_region pa va sz usage access]"
    "pr_page_dir (ks_procs s' proc) = pr_page_dir ?p" "length (pr_regions (ks_procs s' proc)) = MAX_VM_REGIONS"
    "unat (pr_region_count (ks_procs s' proc)) \<le> MAX_VM_REGIONS"
    using s1(1) assms(3) unfolding s1(6) by (simp_all add: m(2) live_regions_def take_Suc_conv_app_nth)
qed

lemma region_index_last:
  assumes "take (unat cnt) rs = xs @ [r]" and "vr_virt_addr r = va" and "\<forall>x \<in> set xs. vr_virt_addr x \<noteq> va"
  shows "region_index rs cnt va = Some (length xs)" "rs ! length xs = r" "length xs < unat cnt"
proof -
  have len: "length (take (unat cnt) rs) = Suc (length xs)" using assms(1) by simp
  then show lt: "length xs < unat cnt" by auto
  have nth: "rs ! j = (xs @ [r]) ! j" if "j \<le> length xs" for j
    using assms(1) lt that by (metis le_less_trans nth_take)
  then show "rs ! length xs = r" by (simp add: nth_append)
  then show "region_index rs cnt va = Some (length xs)"
    unfolding region_index_def find_Some_iff using lt nth assms(2,3)
    by (intro exI [of _ "length xs"]) (auto simp: nth_append)
qed

lemma unmap_region_effect:
  assumes "region_index (pr_regions (ks_procs s proc)) (pr_region_count (ks_procs s proc)) va = Some i"
    and "pr_regions (ks_procs s proc) ! i = r" and "i < unat (pr_region_count (ks_procs s proc))"
    and "unat (pr_region_count (ks_procs s proc)) \<le> length (pr_regions (ks_procs s proc))"
    and "proc \<noteq> 0" and "vr_usage r AND USAGE_AUTOFREE = 0" and "vr_region_size r mod VM_PAGE_FRAME_SIZE = 0"
    and "vr_region_size r \<noteq> 0" and "unat va mod 4096 = 0" and "unat va + unat (vr_region_size r) < 2 ^ 32"
    and "dir_ok s (pr_page_dir (ks_procs s proc))"
    and "\<forall>pg \<in> {unat va div 4096 ..< (unat va + unat (vr_region_size r)) div 4096}.
           mapped s (pr_page_dir (ks_procs s proc)) pg \<noteq> None"
  shows "\<exists>s'. vmm_unmap_region s proc va commit = Inr (S_OK, s')
    \<and> (\<forall>pg < 2 ^ 20. mapped s' (pr_page_dir (ks_procs s proc)) pg =
         (if unat va div 4096 \<le> pg \<and> pg < (unat va + unat (vr_region_size r)) div 4096 then None
          else mapped s (pr_page_dir (ks_procs s proc)) pg))
    \<and> live_regions (ks_procs s' proc) = remove_nth i (live_regions (ks_procs s proc))"
proof -
  let ?p = "ks_procs s proc"
  note pages = sz_pages [OF assms(7)]
  have q: "unat va = 4096 * (unat va div 4096)"
    using assms(9) mult_div_mod_eq [of 4096 "unat va"] by linarith
  have e: "(unat va + unat (vr_region_size r)) div 4096 = unat va div 4096 + unat (vr_region_size r) div 4096"
    using assms(9) by (simp add: div_add1_eq)
  have "unat (va + vr_region_size r) = unat va + unat (vr_region_size r)"
    using assms(10) by (simp add: unat_add_small)
  then have end_addr: "unat (va + vr_region_size r) = 4096 * (unat va div 4096 + unat (vr_region_size r) div 4096)"
    using q pages(2) by (simp add: distrib_left)
  obtain s1 where s1: "unmap_pages s (pr_page_dir ?p) va (va + vr_region_size r) = Some (Inr (S_OK, s1))"
    "tables_only s s1" "\<forall>pg < 2 ^ 20. mapped s1 (pr_page_dir ?p) pg =
       (if unat va div 4096 \<le> pg \<and> pg < unat va div 4096 + unat (vr_region_size r) div 4096 then None
        else mapped s (pr_page_dir ?p) pg)"
    using unmap_pages_unmaps [OF assms(11) q end_addr] assms(12) unfolding e by blast
  have "0 < unat (vr_region_size r)" using assms(8) by (simp add: unat_gt_0)
  then have "unat (vr_region_size r) div 4096 \<noteq> 0" using pages(2) by (metis mult_0_right less_not_refl)
  then have "0 < vr_region_size r div VM_PAGE_FRAME_SIZE"
    using pages(1) by (simp add: word_less_nat_alt)
  then have "vmm_unmap_region s proc va commit = Inr (S_OK, upd_proc s1 proc (\<lambda>p.
      p\<lparr>pr_regions := region_remove (pr_regions p) (pr_region_count p) i, pr_region_count := pr_region_count p - 1\<rparr>))"
    using assms(1,2,5,6) s1(1) by (simp add: vmm_unmap_region_def run_unmap_pages_def Let_def)
  moreover have "ks_procs s1 = ks_procs s" using s1(2) by (rule tables_only_procs)
  ultimately show ?thesis
    using s1(3) region_remove_live [OF assms(3,4)] unfolding e by (simp add: live_regions_def)
qed

lemma fetch_tables_only: "fetch_page_table s dir i c rw us = Inr (hr, t, s') \<Longrightarrow> tables_only s s'"
  by (auto simp: fetch_page_table_def Let_def tables_only_def split: if_splits)

lemma map_pages_tables_only: "map_pages s dir rw us pa va n = Inr s' \<Longrightarrow> tables_only s s'"
proof (induction n arbitrary: s pa va)
  case (Suc n)
  obtain hr t s1 e where f: "fetch_page_table s dir (page_table_id va) True rw us = Inr (hr, t, s1)"
    "map_pages (set_page s1 t (page_id va) e) dir rw us (pa + VM_PAGE_FRAME_SIZE) (va + VM_PAGE_FRAME_SIZE) n = Inr s'"
    using Suc.prems by (auto simp: Let_def split: if_splits)
  from fetch_tables_only [OF f(1)] Suc.IH [OF f(2)] show ?case
    using tables_only_trans set_page_tables_only by blast
qed simp

text \<open>What a successful mapping leaves alone.\<close>

lemma map_region_frame:
  assumes "vmm_map_region s proc pa va sz usage access commit = Inr (S_OK, s')" and "proc \<noteq> 0"
  shows "ks_kernel_regions s' = ks_kernel_regions s" "ks_kernel_region_cnt s' = ks_kernel_region_cnt s"
    "ks_process_array s' = ks_process_array s" "ks_process_count s' = ks_process_count s"
    "ks_process_array_lock s' = ks_process_array_lock s" "pr_id (ks_procs s' p) = pr_id (ks_procs s p)"
    "ks_bitmap s' = ks_bitmap s" "ks_threads s' = ks_threads s" "ks_run_queue s' = ks_run_queue s"
    "ks_current s' = ks_current s" "ks_sched_lock s' = ks_sched_lock s" "ks_int s' = ks_int s"
proof -
  obtain s1 where "map_pages (upd_proc s proc (\<lambda>p. p\<lparr>pr_regions := (pr_regions p)
        [unat (pr_region_count (ks_procs s proc)) := new_region pa va sz usage access]\<rparr>))
       (pr_page_dir (ks_procs s proc)) (access = ACCESS_READWRITE) True pa va (unat (sz div VM_PAGE_FRAME_SIZE)) = Inr s1"
    and s': "s' = upd_proc s1 proc (\<lambda>p. p\<lparr>pr_region_count := pr_region_count p + 1\<rparr>)"
    using vmm_map_region_S_OK [OF assms] by blast
  from map_pages_tables_only [OF this(1)] obtain h t d where
    "s1 = (upd_proc s proc (\<lambda>p. p\<lparr>pr_regions := (pr_regions p)
        [unat (pr_region_count (ks_procs s proc)) := new_region pa va sz usage access]\<rparr>))
        \<lparr>ks_heap := h, ks_tables := t, ks_dirs := d\<rparr>"
    by (auto simp: tables_only_def)
  then show "ks_kernel_regions s' = ks_kernel_regions s" "ks_kernel_region_cnt s' = ks_kernel_region_cnt s"
    "ks_process_array s' = ks_process_array s" "ks_process_count s' = ks_process_count s"
    "ks_process_array_lock s' = ks_process_array_lock s" "pr_id (ks_procs s' p) = pr_id (ks_procs s p)"
    "ks_bitmap s' = ks_bitmap s" "ks_threads s' = ks_threads s" "ks_run_queue s' = ks_run_queue s"
    "ks_current s' = ks_current s" "ks_sched_lock s' = ks_sched_lock s" "ks_int s' = ks_int s"
    unfolding s' by (simp_all add: upd_proc_def)
qed

lemma map_region_live:
  assumes "vmm_map_region s proc pa va sz usage access commit = Inr (S_OK, s')" and "proc \<noteq> 0"
    and "length (pr_regions (ks_procs s proc)) = MAX_VM_REGIONS"
  shows "live_regions (ks_procs s' proc) = live_regions (ks_procs s proc) @ [new_region pa va sz usage access]"
proof -
  let ?p = "ks_procs s proc"
  let ?n = "unat (pr_region_count ?p)"
  obtain s1 where s1: "?n < length (pr_regions ?p)"
    "map_pages (upd_proc s proc (\<lambda>p. p\<lparr>pr_regions := (pr_regions p)[?n := new_region pa va sz usage access]\<rparr>))
       (pr_page_dir ?p) (access = ACCESS_READWRITE) True pa va (unat (sz div VM_PAGE_FRAME_SIZE)) = Inr s1"
    "s' = upd_proc s1 proc (\<lambda>p. p\<lparr>pr_region_count := pr_region_count p + 1\<rparr>)"
    using vmm_map_region_S_OK [OF assms(1,2)] by blast
  have "ks_procs s1 proc = ?p\<lparr>pr_regions := (pr_regions ?p)[?n := new_region pa va sz usage access]\<rparr>"
    using tables_only_procs [OF map_pages_tables_only [OF s1(2)]] by simp
  moreover have "unat (pr_region_count ?p + 1) = Suc ?n"
    using s1(1) assms(3) by (subst unat_add_small) (simp_all add: MAX_VM_REGIONS_def)
  ultimately show ?thesis
    using s1(1) unfolding s1(3) by (simp add: live_regions_def take_Suc_conv_app_nth)
qed

section \<open>Properties\<close>

text \<open>C4. A successful \<^verbatim>\<open>vmm_map_region\<close> of a page-aligned region makes the processor translate every
  page of it to the page of physical memory at the same offset, and changes the translation of no
  other page; page tables it needs come from the static heap and stay distinct. The region is added
  to the process. Every page is open to user mode, whatever \<open>usage\<close> says.\<close>

theorem vmm_map_region_translates:
  assumes "vmm_map_region s proc pa va sz usage access commit = Inr (S_OK, s')" and "proc \<noteq> 0"
    and "length (pr_regions (ks_procs s proc)) = MAX_VM_REGIONS"
    and "dir_ok s (pr_page_dir (ks_procs s proc))"
    and "unat va mod 4096 = 0" and "unat va + unat sz \<le> 2 ^ 32"
  shows "dir_ok s' (pr_page_dir (ks_procs s proc))
    \<and> (\<forall>pg < 2 ^ 20. mapped s' (pr_page_dir (ks_procs s proc)) pg =
         (if unat va div 4096 \<le> pg \<and> pg < (unat va + unat sz) div 4096
          then Some \<lparr> pe_present = True, pe_writable = (access = ACCESS_READWRITE), pe_user = True,
                      pe_frame_addr = drop_bit 12 (pa + of_nat (4096 * (pg - unat va div 4096))) \<rparr>
          else mapped s (pr_page_dir (ks_procs s proc)) pg))
    \<and> live_regions (ks_procs s' proc) = live_regions (ks_procs s proc) @ [new_region pa va sz usage access]"
  using map_region_effect(1,2) [OF assms(1-6)] by blast

text \<open>C35. Unmapping a region that was just mapped succeeds, leaves none of its pages present, leaves every other
  page of this address space translated as it was before the mapping, and gives back the process's list of
  regions. This holds for a region that is not empty, begins on a page boundary, ends below 4 GB and is not marked
  to free its physical memory. Nothing is said of the rest of the kernel: the page tables that the mapping has
  allocated stay.\<close>

theorem vmm_map_unmap_roundtrip:
  assumes "vmm_map_region s proc pa va sz usage access commit = Inr (S_OK, s')" and "proc \<noteq> 0"
    and "length (pr_regions (ks_procs s proc)) = MAX_VM_REGIONS"
    and "dir_ok s (pr_page_dir (ks_procs s proc))"
    and "unat va mod 4096 = 0" and "unat va + unat sz < 2 ^ 32" and "sz \<noteq> 0" and "usage AND USAGE_AUTOFREE = 0"
  shows "\<exists>s2. vmm_unmap_region s' proc va commit' = Inr (S_OK, s2)
    \<and> (\<forall>pg < 2 ^ 20. mapped s2 (pr_page_dir (ks_procs s proc)) pg =
         (if unat va div 4096 \<le> pg \<and> pg < (unat va + unat sz) div 4096 then None
          else mapped s (pr_page_dir (ks_procs s proc)) pg))
    \<and> live_regions (ks_procs s2 proc) = live_regions (ks_procs s proc)"
proof -
  have "unat va + unat sz \<le> 2 ^ 32" using assms(6) by simp
  note m = map_region_effect [OF assms(1-5) this]
  have "va < va + sz"
    using assms(6,7) unat_gt_0 [of sz] by (simp add: word_less_nat_alt unat_add_small)
  then have new: "\<forall>x \<in> set (live_regions (ks_procs s proc)). vr_virt_addr x \<noteq> va"
    using m(6) by (auto simp: list_ex_iff region_overlap_def)
  let ?l = "live_regions (ks_procs s proc)"
  have r: "vr_virt_addr (new_region pa va sz usage access) = va" "vr_region_size (new_region pa va sz usage access) = sz"
    "vr_usage (new_region pa va sz usage access) = usage"
    by (simp_all add: new_region_def)
  note ix = region_index_last [OF m(2) [unfolded live_regions_def [of "ks_procs s' proc"]] r(1) new]
  have dk: "dir_ok s' (pr_page_dir (ks_procs s' proc))" using m(1,3) by simp
  have cnt: "unat (pr_region_count (ks_procs s' proc)) \<le> length (pr_regions (ks_procs s' proc))"
    using m(4,5) by simp
  have am: "\<forall>pg \<in> {unat va div 4096 ..< (unat va + unat sz) div 4096}.
      mapped s' (pr_page_dir (ks_procs s' proc)) pg \<noteq> None"
  proof
    fix pg assume pg: "pg \<in> {unat va div 4096 ..< (unat va + unat sz) div 4096}"
    have "(unat va + unat sz) div 4096 < 2 ^ 20"
      using assms(6) by (intro less_mult_imp_div_less) simp
    then have "pg < 2 ^ 20" using pg by simp
    then show "mapped s' (pr_page_dir (ks_procs s' proc)) pg \<noteq> None" using m(1,3) pg by simp
  qed
  have "\<exists>s2. vmm_unmap_region s' proc va commit' = Inr (S_OK, s2)
    \<and> (\<forall>pg < 2 ^ 20. mapped s2 (pr_page_dir (ks_procs s' proc)) pg =
         (if unat va div 4096 \<le> pg \<and> pg < (unat va + unat sz) div 4096 then None
          else mapped s' (pr_page_dir (ks_procs s' proc)) pg))
    \<and> live_regions (ks_procs s2 proc) = remove_nth (length ?l) (live_regions (ks_procs s' proc))"
    by (rule unmap_region_effect [OF ix(1,2,3) cnt assms(2), unfolded r, OF assms(8) m(7) assms(7,5,6) dk am])
  then obtain s2 where s2: "vmm_unmap_region s' proc va commit' = Inr (S_OK, s2)"
    "\<forall>pg < 2 ^ 20. mapped s2 (pr_page_dir (ks_procs s proc)) pg =
         (if unat va div 4096 \<le> pg \<and> pg < (unat va + unat sz) div 4096 then None
          else mapped s' (pr_page_dir (ks_procs s proc)) pg)"
    "live_regions (ks_procs s2 proc) = remove_nth (length ?l) (live_regions (ks_procs s' proc))"
    unfolding m(3) by blast
  then have "live_regions (ks_procs s2 proc) = ?l" unfolding m(2) by (simp add: remove_nth_def)
  then show ?thesis using s2(1,2) m(1) by auto
qed

text \<open>A kernel with one process whose page directory is still empty.\<close>

definition example_process :: k_process where
  "example_process = zero_process\<lparr>pr_id := 100, pr_page_dir := 0xC0301000, pr_page_dir_phys := 0x00301000\<rparr>"

definition example_kernel :: kernel where
  "example_kernel = \<lparr> ks_int = quiet_interrupts,
     ks_heap = \<lparr> sk_start = 0xC0200000, sk_bitmap = (\<lambda>_. 0), sk_mem = (\<lambda>_. 0) \<rparr>, ks_bitmap = (\<lambda>_. 0),
     ks_tables = (\<lambda>_ _. zero_page_entry), ks_dirs = (\<lambda>_. zero_page_dir),
     ks_procs = (\<lambda>_. example_process), ks_threads = (\<lambda>_. zero_thread),
     ks_process_array = 0xC0300000 # replicate 31 0, ks_process_count = 1,
     ks_process_array_lock = spinlock_create, ks_kernel_proc = 0xC0300000, ks_initialized = True,
     ks_free_pid = 101, ks_run_queue = 0, ks_current = 0, ks_sched_lock = spinlock_create, ks_sched_enabled = 0,
     ks_kernel_regions = replicate 128 zero_region, ks_kernel_region_cnt = 0, ks_page_dir = 0xC0302000, ks_cr3 = 0 \<rparr>"

lemma calloc_a_example:
  "\<exists>h'. skheap_calloc_a \<lparr> sk_start = 0xC0200000, sk_bitmap = (\<lambda>_. 0), sk_mem = (\<lambda>_. 0) \<rparr> sizeof_page_table
     = Inr (0xC0201000, h')"
proof -
  let ?h = "\<lparr> sk_start = 0xC0200000, sk_bitmap = (\<lambda>_. 0), sk_mem = (\<lambda>_. 0) \<rparr>"
  have pos: "sint sizeof_page_table = 4096" using sint_of_nat_small [of 4096] by (simp add: sizeof_page_table_def)
  have ext: "unat (sk_ext_size sizeof_page_table) = 17 * 256"
    using sk_ext_blocks(1) [of sizeof_page_table] pos by (simp add: sk_blocks_def sizeof_page_table_def)
  have f: "sk_find_loop_a (sk_bitmap ?h) 17 2 17 0 = Some 15"
    by (subst sk_find_loop_a.simps, simp add: skheap_consts)
      (subst sk_find_loop_a.simps, simp add: skheap_consts)
  have "\<forall>x \<in> {15 ..< 15 + 17}. sk_used (sk_bitmap ?h) x \<noteq> True"
    by (auto simp: sk_used_def)
  then obtain bm' where "sk_mark_loop (sk_bitmap ?h) 15 17 True = Inr bm'"
    using sk_mark_loop_ok by blast
  then have "skheap_mark_region ?h (sk_start ?h + of_nat 15 * SKHEAP_BLOCK_SIZE) (sk_ext_size sizeof_page_table) True
      = Inr (?h\<lparr>sk_bitmap := bm'\<rparr>)"
    using skheap_mark_region_eq [of 15 "sk_ext_size sizeof_page_table" 17 ?h True] ext by simp
  then have "skheap_mark_region ?h 0xC0200F00 (sk_ext_size sizeof_page_table) True = Inr (?h\<lparr>sk_bitmap := bm'\<rparr>)"
    by (simp add: skheap_consts)
  then obtain h' where "skheap_malloc_a ?h sizeof_page_table = Inr (0xC0201000, h')"
    using pos f sk_len [OF ext]
    by (simp add: skheap_malloc_a_def skheap_find_free_region_aligned_def Let_def skheap_consts(3))
  then show ?thesis by (simp add: skheap_calloc_a_def)
qed

lemma map_example:
  "\<exists>s'. vmm_map_region example_kernel 0xC0300000 0x500000 0xC8000000 0x1000 USAGE_KERNEL ACCESS_READWRITE True
     = Inr (S_OK, s')"
proof -
  obtain h' where h': "skheap_calloc_a \<lparr> sk_start = 0xC0200000, sk_bitmap = (\<lambda>_. 0), sk_mem = (\<lambda>_. 0) \<rparr>
      sizeof_page_table = Inr (0xC0201000, h')"
    using calloc_a_example by blast
  have n: "unat ((0x1000 :: u32) div VM_PAGE_FRAME_SIZE) = Suc 0" by (simp add: VM_PAGE_FRAME_SIZE_def)
  show ?thesis
    unfolding vmm_map_region_def Let_def n map_pages.simps fetch_page_table_def
    using h' by (simp add: example_kernel_def example_process_def zero_process_def upd_proc_def
        zero_page_dir_def zero_page_dir_entry_def MAX_VM_REGIONS_def VM_PAGE_FRAME_SIZE_def Let_def set_page_def)
qed

lemma example_dir_ok: "dir_ok example_kernel 0xC0301000"
  by (simp add: dir_ok_def example_kernel_def pool_ok_def zero_page_dir_def zero_page_dir_entry_def)

lemma example_process_simps:
  "ks_procs example_kernel p = example_process" "pr_page_dir example_process = 0xC0301000"
  "length (pr_regions example_process) = MAX_VM_REGIONS"
  by (simp_all add: example_kernel_def example_process_def zero_process_def)

theorem vmm_map_region_translates_witness:
  "\<exists>s'. vmm_map_region example_kernel 0xC0300000 0x500000 0xC8000000 0x1000 USAGE_KERNEL ACCESS_READWRITE True
       = Inr (S_OK, s')
     \<and> mapped s' 0xC0301000 0xC8000 = Some \<lparr> pe_present = True, pe_writable = True, pe_user = True, pe_frame_addr = 0x500 \<rparr>"
proof -
  obtain s' where s': "vmm_map_region example_kernel 0xC0300000 0x500000 0xC8000000 0x1000 USAGE_KERNEL
      ACCESS_READWRITE True = Inr (S_OK, s')" using map_example by blast
  have "\<forall>pg < 2 ^ 20. mapped s' 0xC0301000 pg = (if 0xC8000 \<le> pg \<and> pg < 0xC8001
      then Some \<lparr> pe_present = True, pe_writable = True, pe_user = True,
                  pe_frame_addr = drop_bit 12 (0x500000 + of_nat (4096 * (pg - 0xC8000))) \<rparr>
      else mapped example_kernel 0xC0301000 pg)"
    using vmm_map_region_translates [OF s'] example_dir_ok
    unfolding example_process_simps(1,2) by (simp add: example_process_simps(3))
  from this [rule_format, of "0xC8000"] s' show ?thesis by simp
qed

theorem vmm_map_unmap_roundtrip_witness:
  "\<exists>s' s2. vmm_map_region example_kernel 0xC0300000 0x500000 0xC8000000 0x1000 USAGE_KERNEL ACCESS_READWRITE True
       = Inr (S_OK, s') \<and> vmm_unmap_region s' 0xC0300000 0xC8000000 True = Inr (S_OK, s2)
       \<and> mapped s2 0xC0301000 0xC8000 = None"
proof -
  obtain s' where s': "vmm_map_region example_kernel 0xC0300000 0x500000 0xC8000000 0x1000 USAGE_KERNEL
      ACCESS_READWRITE True = Inr (S_OK, s')" using map_example by blast
  have "USAGE_KERNEL AND USAGE_AUTOFREE = 0" by (simp add: USAGE_KERNEL_def USAGE_AUTOFREE_def)
  then have "\<exists>s2. vmm_unmap_region s' 0xC0300000 0xC8000000 True = Inr (S_OK, s2)
    \<and> (\<forall>pg < 2 ^ 20. mapped s2 0xC0301000 pg = (if 0xC8000 \<le> pg \<and> pg < 0xC8001 then None
          else mapped example_kernel 0xC0301000 pg))"
    using vmm_map_unmap_roundtrip [OF s', of True] example_dir_ok
    unfolding example_process_simps(1,2) by (auto simp add: example_process_simps(3))
  then obtain s2 where "vmm_unmap_region s' 0xC0300000 0xC8000000 True = Inr (S_OK, s2)"
    "mapped s2 0xC0301000 0xC8000 = None" by auto
  with s' show ?thesis by blast
qed

text \<open>The test by which the mapping routines refuse a range accepts exactly the ranges that have no
  address in common with the region, and those that lie strictly inside it: a range that neither
  starts nor ends with an existing region but is enclosed by it can be mapped over it.\<close>

theorem region_overlap_misses_enclosed:
  assumes "range_start < range_end" and "vr_virt_addr r < vr_virt_addr r + vr_region_size r"
  shows "region_overlap range_start range_end r \<longleftrightarrow>
    (\<exists>a. range_start \<le> a \<and> a < range_end \<and> vr_virt_addr r \<le> a \<and> a < vr_virt_addr r + vr_region_size r)
    \<and> \<not> (vr_virt_addr r < range_start \<and> range_end < vr_virt_addr r + vr_region_size r)"
proof -
  have "(\<exists>a. range_start \<le> a \<and> a < range_end \<and> vr_virt_addr r \<le> a \<and> a < vr_virt_addr r + vr_region_size r)
      \<longleftrightarrow> vr_virt_addr r < range_end \<and> range_start < vr_virt_addr r + vr_region_size r"
  proof
    assume "vr_virt_addr r < range_end \<and> range_start < vr_virt_addr r + vr_region_size r"
    then show "\<exists>a. range_start \<le> a \<and> a < range_end \<and> vr_virt_addr r \<le> a \<and> a < vr_virt_addr r + vr_region_size r"
      using assms by (intro exI [of _ "if range_start \<le> vr_virt_addr r then vr_virt_addr r else range_start"]) auto
  qed (auto intro: le_less_trans)
  then show ?thesis
    using assms by (auto simp: region_overlap_def not_less not_le)
qed

theorem region_overlap_misses_enclosed_witness:
  "\<not> region_overlap 0xC0100000 0xC0200000 (new_region 0 0xC0000000 0x400000 USAGE_KERNEL ACCESS_READWRITE)"
  using region_overlap_misses_enclosed [of "0xC0100000" "0xC0200000"
      "new_region 0 0xC0000000 0x400000 USAGE_KERNEL ACCESS_READWRITE"]
  by (simp add: new_region_def)

text \<open>A process can have one heap only. \<^verbatim>\<open>vmm_create_heap\<close> takes the address of the new heap from the
  kernel's own regions, which a heap of a process is not added to, so it asks for the same address
  again, and the mapping fails because of the first heap.\<close>

theorem vmm_create_heap_only_once:
  assumes "find_pid s pid = Some proc" and "proc \<noteq> 0"
    and "length (pr_regions (ks_procs s proc)) = MAX_VM_REGIONS"
    and "vmm_create_heap s pid sz usage = Inr (S_OK, s1, Some a)"
    and "vmm_create_heap s1 pid sz2 usage2 = Inr (hr, s2, out)"
    and "sz2 \<noteq> 0" and "unat a + unat sz2 < 2 ^ 32"
  shows "FAILED hr"
proof -
  have find: "sched_find_process s pid = Inr ((S_OK, proc), s)" and free: "sl_lock (ks_process_array_lock s) = 0"
    using assms(1,4) by (auto simp: vmm_create_heap_def sched_find_process_eq split: if_splits)
  obtain bm ptr where first: "vmm_get_address_space_end_ks (s\<lparr>ks_bitmap := bm\<rparr>) = Inr a"
    "vmm_map_region (s\<lparr>ks_bitmap := bm\<rparr>) proc ptr a sz (usage OR USAGE_HEAP) ACCESS_READWRITE True = Inr (S_OK, s1)"
    using assms(4) find by (auto simp: vmm_create_heap_def Let_def split: if_splits option.splits prod.splits)
  note frame = map_region_frame [OF first(2) assms(2)]
  have "find_pid s1 pid = find_pid s pid"
    using frame(3,4,6) by (simp add: find_pid_def)
  then have find1: "sched_find_process s1 pid = Inr ((S_OK, proc), s1)"
    using assms(1) free frame(5) by (simp add: sched_find_process_eq)
  have again: "vmm_get_address_space_end_ks (s1\<lparr>ks_bitmap := b\<rparr>) = Inr a" for b
    using first(1) frame(1,2) by (cases "ks_kernel_region_cnt s = 0") (auto simp: vmm_get_address_space_end_ks_def)
  have "new_region ptr a sz (usage OR USAGE_HEAP) ACCESS_READWRITE \<in> set (live_regions (ks_procs s1 proc))"
    using map_region_live [OF first(2) assms(2)] assms(3) by simp
  moreover have "a < a + sz2"
    using assms(6,7) unat_gt_0 [of sz2] by (simp add: word_less_nat_alt unat_add_small)
  ultimately have "list_ex (region_overlap a (a + sz2)) (live_regions (ks_procs s1 proc))"
    by (auto simp: list_ex_iff region_overlap_def new_region_def intro!: bexI)
  then have no: "vmm_map_region (s1\<lparr>ks_bitmap := b\<rparr>) proc p a sz2 u acc c \<noteq> Inr (S_OK, s')"
    "vmm_map_region (s1\<lparr>ks_bitmap := b\<rparr>) proc p a sz2 u acc c \<noteq> Inr (S_FALSE, s')" for b p u acc c s'
    using assms(2) by (auto simp: vmm_map_region_def Let_def live_regions_def)
  show ?thesis
    using assms(5) find1 again no
    by (auto simp: vmm_create_heap_def Let_def SUCCEEDED_def split: if_splits option.splits prod.splits)
qed

lemma mark_one_example:
  "kpmm_mark_blocks (\<lambda>_. 0) 0 1 = Inr (S_OK, (\<lambda>_. 0)(0 := 1))"
  "kpmm_mark_blocks ((\<lambda>_. 0)(0 := 1)) 0x20000 1 = Inr (S_OK, (\<lambda>_. 0)(0 := 1, 1 := 1))"
  by (simp_all add: kpmm_mark_blocks_def mark_loop.simps [of _ _ "Suc 0"] mark_loop.simps [of _ _ 0]
      MEMORY_BITMAP_LENGTH_def KPMM_BLOCK_SIZE_def Let_def)

lemma find_one_example:
  "kpmm_find_free_region (\<lambda>_. 0) 1 = (S_OK, Some 0)"
  "kpmm_find_free_region ((\<lambda>_. 0)(0 := 1)) 1 = (S_OK, Some 0x20000)"
proof -
  have "find_loop (\<lambda>_. 0) 1 0 1 0 = Some 0"
    by (subst find_loop.simps) (simp add: MEMORY_BITMAP_LENGTH_def)
  then show "kpmm_find_free_region (\<lambda>_. 0) 1 = (S_OK, Some 0)" by (simp add: kpmm_find_free_region_def)
  have "find_loop ((\<lambda>_. 0)(0 := 1)) 1 0 1 0 = Some 1"
    by (subst find_loop.simps, simp add: MEMORY_BITMAP_LENGTH_def)
      (subst find_loop.simps, simp add: MEMORY_BITMAP_LENGTH_def)
  then show "kpmm_find_free_region ((\<lambda>_. 0)(0 := 1)) 1 = (S_OK, Some 0x20000)"
    by (simp add: kpmm_find_free_region_def KPMM_BLOCK_SIZE_def)
qed

lemma map_example_heap:
  "\<exists>s'. vmm_map_region (example_kernel\<lparr>ks_bitmap := b\<rparr>) 0xC0300000 0 0xC0000000 0x1000 u ACCESS_READWRITE True
     = Inr (S_OK, s') \<and> ks_bitmap s' = b \<and> pr_region_count (ks_procs s' 0xC0300000) = 1"
proof -
  obtain h' where h': "skheap_calloc_a \<lparr> sk_start = 0xC0200000, sk_bitmap = (\<lambda>_. 0), sk_mem = (\<lambda>_. 0) \<rparr>
      sizeof_page_table = Inr (0xC0201000, h')"
    using calloc_a_example by blast
  have n: "unat ((0x1000 :: u32) div VM_PAGE_FRAME_SIZE) = Suc 0" by (simp add: VM_PAGE_FRAME_SIZE_def)
  show ?thesis
    unfolding vmm_map_region_def Let_def n map_pages.simps fetch_page_table_def
    using h' by (simp add: example_kernel_def example_process_def zero_process_def upd_proc_def
        zero_page_dir_def zero_page_dir_entry_def MAX_VM_REGIONS_def VM_PAGE_FRAME_SIZE_def Let_def set_page_def)
qed

lemma example_find: "find_pid example_kernel 100 = Some 0xC0300000"
  by (simp add: find_pid_def example_kernel_def example_process_def)

theorem vmm_create_heap_only_once_witness:
  "\<exists>s1 hr s2 out. vmm_create_heap example_kernel 100 0x1000 USAGE_DATA = Inr (S_OK, s1, Some 0xC0000000)
     \<and> vmm_create_heap s1 100 0x1000 USAGE_DATA = Inr (hr, s2, out) \<and> FAILED hr"
proof -
  obtain s1 where m: "vmm_map_region (example_kernel\<lparr>ks_bitmap := (\<lambda>_. 0)(0 := 1)\<rparr>) 0xC0300000 0 0xC0000000 0x1000
      (USAGE_DATA OR USAGE_HEAP) ACCESS_READWRITE True = Inr (S_OK, s1)" "ks_bitmap s1 = (\<lambda>_. 0)(0 := 1)"
    "pr_region_count (ks_procs s1 0xC0300000) = 1"
    using map_example_heap by blast
  have one: "(4095 + KPMM_BLOCK_SIZE) div KPMM_BLOCK_SIZE = 1" "0x1000 mod VM_PAGE_FRAME_SIZE = 0"
    by (simp_all add: KPMM_BLOCK_SIZE_def VM_PAGE_FRAME_SIZE_def)
  have ex: "ks_bitmap example_kernel = (\<lambda>_. 0)" "sl_lock (ks_process_array_lock example_kernel) = 0"
    "vmm_get_address_space_end_ks (example_kernel\<lparr>ks_bitmap := b\<rparr>) = Inr 0xC0000000" for b
    by (simp_all add: example_kernel_def spinlock_create_def vmm_get_address_space_end_ks_def)
  have first: "vmm_create_heap example_kernel 100 0x1000 USAGE_DATA = Inr (S_OK, s1, Some 0xC0000000)"
    using m(1) by (simp add: vmm_create_heap_def one Let_def sched_find_process_eq ex example_find
        find_one_example mark_one_example)
  have "(0xC0300000 :: u32) \<noteq> 0" by simp
  note frame = map_region_frame [OF m(1) this]
  have find1: "sched_find_process s1 100 = Inr ((S_OK, 0xC0300000), s1)"
  proof -
    have "find_pid s1 100 = find_pid example_kernel 100" using frame(3,4,6) by (simp add: find_pid_def)
    then show ?thesis using frame(5) ex(2) example_find by (simp add: sched_find_process_eq)
  qed
  have end1: "vmm_get_address_space_end_ks (s1\<lparr>ks_bitmap := b\<rparr>) = Inr 0xC0000000" for b
    using frame(1,2) by (simp add: vmm_get_address_space_end_ks_def example_kernel_def)
  have len: "length (pr_regions (ks_procs (example_kernel\<lparr>ks_bitmap := b\<rparr>) 0xC0300000)) = MAX_VM_REGIONS" for b
    by (simp add: example_kernel_def example_process_simps)
  have live: "live_regions (ks_procs s1 0xC0300000) = [new_region 0 0xC0000000 0x1000 (USAGE_DATA OR USAGE_HEAP) ACCESS_READWRITE]"
    using map_region_live [OF m(1) _ len]
    by (simp add: live_regions_def example_kernel_def example_process_def zero_process_def)
  have "vmm_map_region (s1\<lparr>ks_bitmap := b\<rparr>) 0xC0300000 0x20000 0xC0000000 0x1000 u ACCESS_READWRITE True
      = Inr (E_FAIL, s1\<lparr>ks_bitmap := b\<rparr>)" for b u
    using live m(3) by (simp add: vmm_map_region_def Let_def live_regions_def MAX_VM_REGIONS_def
        VM_PAGE_FRAME_SIZE_def region_overlap_def new_region_def)
  then have "\<exists>hr s2 out. vmm_create_heap s1 100 0x1000 USAGE_DATA = Inr (hr, s2, out)"
    using m(2) by (simp add: vmm_create_heap_def one Let_def find1 end1 find_one_example mark_one_example)
  then obtain hr s2 out where second: "vmm_create_heap s1 100 0x1000 USAGE_DATA = Inr (hr, s2, out)" by blast
  have "FAILED hr"
    using vmm_create_heap_only_once [OF example_find _ _ first second] len [of "ks_bitmap example_kernel"] by simp
  with first second show ?thesis by blast
qed

end
