(* ===== verification/Sched.thy ===== *)
theory Sched
  imports Vmm
begin

unbundle bit_operations_syntax

text \<open>
  Model of \<^verbatim>\<open>scheduler.c\<close>: creation and destruction of threads and processes, the run queue and the
  switch from one thread to the next. The run queue is a chain of next pointers through the thread
  descriptors. What a switch loads into the processor is the result of the routine that makes it.
\<close>

section \<open>Constants\<close>

definition DEFAULT_THREAD_QUANTA :: u32 where "DEFAULT_THREAD_QUANTA = 20"
definition THREAD_STATE_READY :: u32 where "THREAD_STATE_READY = 0x01"
definition PROCESS_PRIORITY_NORMAL :: u32 where "PROCESS_PRIORITY_NORMAL = 0x02"
definition STACK_SIZE_KERNEL :: u32 where "STACK_SIZE_KERNEL = 0x2000"
definition STACK_SIZE_USER :: u32 where "STACK_SIZE_USER = 0x2000"
definition USAGE_KERNELSTACK :: u32 where "USAGE_KERNELSTACK = USAGE_KERNEL OR USAGE_STACK"
definition USAGE_USERSTACK :: u32 where "USAGE_USERSTACK = USAGE_USER OR USAGE_STACK"
definition unmapped_barrier :: u32 where "unmapped_barrier = 0x1000"

section \<open>Stacks\<close>

definition stack_index :: "k_vmm_region list \<Rightarrow> u32" where
  "stack_index regions =
     foldl (\<lambda>index r. if vr_usage r OR USAGE_STACK \<noteq> 0
                      then (if vr_virt_addr r < index then vr_virt_addr r else index) else index)
       (0xC0000000 - 4096) regions"

definition sched_find_proper_stack_location :: "kernel \<Rightarrow> u32 \<Rightarrow> u32 \<Rightarrow> u32 run" where
  "sched_find_proper_stack_location s proc stack_size =
     (let p = ks_procs s proc; index = stack_index (take (unat (pr_region_count p)) (pr_regions p)) in
      if index < stack_size + unmapped_barrier then Inl (Panic ''Failed to find place for stack.'')
      else Inr (index - stack_size - unmapped_barrier))"

text \<open>Pushing words, the first one first. The stack is written through the kernel's flat memory.\<close>

fun push_words :: "mem \<Rightarrow> u32 \<Rightarrow> u32 list \<Rightarrow> mem \<times> u32" where
  "push_words m sp [] = (m, sp)"
| "push_words m sp (w # ws) = push_words (store32 m (sp - 4) w) (sp - 4) ws"

text \<open>\<open>exit_addr\<close> is the address of \<^verbatim>\<open>sched_exit_thread\<close>.\<close>

definition sched_setup_thread_stack :: "kernel \<Rightarrow> u32 \<Rightarrow> u32 \<Rightarrow> (hresult \<times> kernel) run" where
  "sched_setup_thread_stack s t exit_addr =
     (let th = ks_threads s t; is_user = (pr_mode (ks_procs s (th_process th)) = PROCESS_MODE_USER) in
      bindR (vmm_get_region_phys_addr s (th_process th) (th_kernel_stack th)) (\<lambda>(hr, phys, s).
      if FAILED hr then Inr (hr, s)
      else
        let current_proc = (if ks_current s = 0 then ks_kernel_proc s else th_process (ks_threads s (ks_current s))) in
        bindR (vmm_temp_map_region s current_proc phys (th_stack_size th)) (\<lambda>(hr, stack_temp_ptr, s).
        if FAILED hr then Inr (hr, s)
        else
          let offset = stack_temp_ptr - th_kernel_stack th in
          if \<not> stack_temp_ptr > th_kernel_stack th then Inl (Panic '''')
          else
            let (m, stack) = push_words (sk_mem (ks_heap s)) (stack_temp_ptr + th_stack_size th)
                  ([t, 0, exit_addr] @ (if is_user then [0x20 OR 3, th_user_stack th + th_stack_size th] else [])
                   @ [0x00000202, if is_user then 0x18 OR 3 else 0x08, th_eip th, 0, 0, 0, 0, 0, 0]);
                curr_esp = stack - offset;
                (m, stack) = push_words m stack [curr_esp + 4 * 4, 0, 0, 0, if is_user then 0x20 OR 3 else 0x10];
                s = s\<lparr>ks_heap := (ks_heap s)\<lparr>sk_mem := m\<rparr>\<rparr>;
                s = upd_thread s t (\<lambda>th. th\<lparr>th_esp := stack - offset\<rparr>)
            in bindR (vmm_unmap_region s current_proc stack_temp_ptr True) (\<lambda>(hr, s).
               if FAILED hr then Inl (Panic '''') else Inr (S_OK, s)))))"

section \<open>The run queue\<close>

text \<open>The walk to the last thread of the queue, \<open>None\<close> if it never ends.\<close>

partial_function (option) queue_last :: "(u32 \<Rightarrow> k_thread) \<Rightarrow> u32 \<Rightarrow> u32 option" where
  "queue_last ths t = (if th_next (ths t) = 0 then Some t else queue_last ths (th_next (ths t)))"

text \<open>Making \<open>t\<close> the last thread of a queue that is not empty.\<close>

definition queue_append :: "kernel \<Rightarrow> u32 \<Rightarrow> kernel run" where
  "queue_append s t =
     (case queue_last (ks_threads s) (ks_run_queue s) of
        None \<Rightarrow> Inl NoReturn
      | Some tail \<Rightarrow> Inr (upd_thread (upd_thread s tail (\<lambda>th. th\<lparr>th_next := t\<rparr>)) t (\<lambda>th. th\<lparr>th_next := 0\<rparr>)))"

definition sched_add_thread_to_run_queue :: "kernel \<Rightarrow> u32 \<Rightarrow> (hresult \<times> kernel) run" where
  "sched_add_thread_to_run_queue s t =
     with_lock s SchedLock (\<lambda>s.
       if ks_run_queue s = 0 then Inr (S_OK, s\<lparr>ks_run_queue := t\<rparr>)
       else bindR (queue_append s t) (\<lambda>s. Inr (S_OK, s)))"

section \<open>Switching\<close>

text \<open>How the switching routines end: they return, or they load a thread's registers. A thread that
  runs for the first time is entered through the return path of the interrupt handlers; the others
  resume at the saved instruction pointer with the mark \<^verbatim>\<open>0x12345\<close>.\<close>

datatype switch =
    Returned hresult
  | Enter (sw_esp: u32) (sw_ebp: u32)
  | Resume (sw_eip: u32) (sw_esp: u32) (sw_ebp: u32)

definition sched_enter_process_addr_space :: "kernel \<Rightarrow> u32 \<Rightarrow> hresult \<times> kernel" where
  "sched_enter_process_addr_space s new_proc = (S_OK, s\<lparr>ks_cr3 := pr_page_dir_phys (ks_procs s new_proc)\<rparr>)"

definition sched_switch_to_thread :: "kernel \<Rightarrow> u32 \<Rightarrow> (switch \<times> kernel) run" where
  "sched_switch_to_thread s t =
     (if t = 0 then Inr (Returned E_POINTER, s)
      else if t = ks_current s then Inl (Panic ''Trying to switch to same task?'')
      else
        let s = s\<lparr>ks_current := t\<rparr>; th = ks_threads s t; p = ks_procs s (th_process th);
            s = (if pr_mode p = PROCESS_MODE_USER
                 then set_if False (s\<lparr>ks_int := gdt_update_tss (ks_int s) 0x10 (th_kernel_stack th + th_stack_size th)\<rparr>)
                 else s)
        in if \<not> th_running th
           then Inr (Enter (th_esp th) (th_ebp th),
                     (upd_thread s t (\<lambda>th. th\<lparr>th_running := True\<rparr>))\<lparr>ks_cr3 := pr_page_dir_phys p\<rparr>)
           else Inr (Returned S_OK, s))"

text \<open>\<open>esp\<close>, \<open>ebp\<close>, \<open>eip\<close> are the registers at the entry; \<open>eip\<close> is the mark after a resumption.\<close>

definition sched_update :: "kernel \<Rightarrow> u32 \<Rightarrow> u32 \<Rightarrow> u32 \<Rightarrow> (switch \<times> kernel) run" where
  "sched_update s esp ebp eip =
     (if ks_sched_enabled s = 0 then Inr (Returned S_FALSE, s)
      else if eip = 0x12345 then Inr (Returned S_OK, s)
      else if ks_run_queue s = 0 then Inl (Panic ''No tasks in run queue.'')
      else
        bindR (if ks_current s \<noteq> 0
               then queue_append (upd_thread s (ks_current s)
                      (\<lambda>th. th\<lparr>th_eip := eip, th_esp := esp, th_ebp := ebp\<rparr>)) (ks_current s)
               else Inr s) (\<lambda>s.
        let new = ks_run_queue s;
            s = s\<lparr>ks_run_queue := th_next (ks_threads s (ks_run_queue s))\<rparr>
        in bindR (sched_switch_to_thread s new) (\<lambda>(sw, s).
           case sw of
             Returned hr \<Rightarrow>
               if SUCCEEDED hr then
                 let th = ks_threads s new in
                 Inr (Resume (th_eip th) (th_esp th) (th_ebp th),
                      s\<lparr>ks_cr3 := pr_page_dir_phys (ks_procs s (th_process th))\<rparr>)
               else Inl (Panic ''sched_update(): failed...'')
           | _ \<Rightarrow> Inr (sw, s))))"

text \<open>The interrupt handlers, and the software interrupt that a thread gives up the processor with.
  \<open>ticks\<close> is the timer's tick counter.\<close>

definition timer_irq_handler :: "u64 \<Rightarrow> kernel \<Rightarrow> u32 \<Rightarrow> u32 \<Rightarrow> u32 \<Rightarrow> u64 \<times> (switch \<times> kernel) run" where
  "timer_irq_handler ticks s esp ebp eip =
     ((ticks + 1) mod 0xFFFFFFFFFFFFFFFF, sched_update s esp ebp eip)"

definition scheduler_isr_handler :: "kernel \<Rightarrow> u32 \<Rightarrow> u32 \<Rightarrow> u32 \<Rightarrow> (switch \<times> kernel) run" where
  "scheduler_isr_handler s esp ebp eip = sched_update s esp ebp eip"

definition sched_update_sw :: "kernel \<Rightarrow> u32 \<Rightarrow> u32 \<Rightarrow> u32 \<Rightarrow> (switch \<times> kernel) run" where
  "sched_update_sw s esp ebp eip =
     (if \<not> ks_initialized s then Inr (Returned E_FAIL, s)
      else bindR (scheduler_isr_handler s esp ebp eip) (\<lambda>(sw, s).
           Inr (case sw of Returned _ \<Rightarrow> Returned S_OK | _ \<Rightarrow> sw, s)))"

definition sched_yield :: "kernel \<Rightarrow> u32 \<Rightarrow> u32 \<Rightarrow> u32 \<Rightarrow> (switch \<times> kernel) run" where
  "sched_yield s esp ebp eip = sched_update_sw s esp ebp eip"

definition sched_enable :: "kernel \<Rightarrow> u32 \<Rightarrow> hresult \<times> kernel" where
  "sched_enable s b = (S_OK, s\<lparr>ks_sched_enabled := b\<rparr>)"

section \<open>Threads\<close>

text \<open>The steps of \<^verbatim>\<open>sched_create_thread\<close> under the process lock.\<close>

definition create_thread_locked :: "kernel \<Rightarrow> u32 \<Rightarrow> u32 \<Rightarrow> u32 \<Rightarrow> (u32 \<times> kernel) run" where
  "create_thread_locked s proc entry_point exit_addr =
     bindR (skheap_malloc (ks_heap s) sizeof_thread) (\<lambda>(t, heap).
     let n = unat (pr_thread_count (ks_procs s proc));
         s = upd_proc (s\<lparr>ks_heap := heap\<rparr>) proc (\<lambda>p. p\<lparr>pr_threads := (pr_threads p)[n := t]\<rparr>)
     in bindR (guardR (t \<noteq> 0) BadAccess) (\<lambda>_.
     let p = ks_procs s proc;
         s = s\<lparr>ks_threads := (ks_threads s)(t := zero_thread
               \<lparr>th_id := pr_thread_id_counter p, th_process := proc, th_priority := pr_priority p,
                th_quanta := DEFAULT_THREAD_QUANTA, th_state := THREAD_STATE_READY, th_eip := entry_point,
                th_running := False\<rparr>)\<rparr>;
         s = upd_proc s proc (\<lambda>p. p\<lparr>pr_thread_id_counter := pr_thread_id_counter p + 1\<rparr>)
     in bindR (sched_find_proper_stack_location s proc STACK_SIZE_KERNEL) (\<lambda>virt_addr.
     let s = upd_thread s t (\<lambda>th. th\<lparr>th_stack_size := STACK_SIZE_KERNEL\<rparr>)
     in bindR (vmm_alloc_and_map s proc virt_addr STACK_SIZE_KERNEL USAGE_KERNELSTACK ACCESS_READWRITE False) (\<lambda>(hr, s).
     if FAILED hr then Inl (Panic ''Failed to allocate kernel space stack.'')
     else
       let s = upd_thread s t (\<lambda>th. th\<lparr>th_kernel_stack := virt_addr\<rparr>)
       in bindR (if pr_mode (ks_procs s proc) = PROCESS_MODE_USER then
                   bindR (sched_find_proper_stack_location s proc STACK_SIZE_USER) (\<lambda>virt_addr.
                   bindR (vmm_alloc_and_map s proc virt_addr STACK_SIZE_USER USAGE_USERSTACK ACCESS_READWRITE False) (\<lambda>(hr, s).
                   if FAILED hr then Inl (Panic ''Failed to allocate user space stack.'')
                   else Inr (upd_thread s t (\<lambda>th. th\<lparr>th_user_stack := virt_addr\<rparr>))))
                 else Inr s) (\<lambda>s.
          bindR (sched_setup_thread_stack s t exit_addr) (\<lambda>(hr, s).
          if FAILED hr then Inl (Panic ''Failed to setup new thread stack.'')
          else Inr (t, upd_proc s proc (\<lambda>p. p\<lparr>pr_thread_count := pr_thread_count p + 1\<rparr>))))))))"

definition sched_create_thread :: "kernel \<Rightarrow> u32 \<Rightarrow> u32 \<Rightarrow> u32 \<Rightarrow> ((hresult \<times> u32 option) \<times> kernel) run" where
  "sched_create_thread s proc_desc entry_point exit_addr =
     bindR (if proc_desc = 0 then sched_get_current_proc s else Inr ((S_OK, proc_desc), s)) (\<lambda>((hr, proc), s).
     if FAILED hr then Inr ((hr, None), s)
     else if unat (pr_thread_count (ks_procs s proc)) \<ge> MAX_THREADS then Inr ((E_FAIL, None), s)
     else
       bindR (with_lock s (ProcessLock proc) (\<lambda>s. create_thread_locked s proc entry_point exit_addr)) (\<lambda>(t, s).
       bindR (with_lock s SchedLock (\<lambda>s.
                Inr ((), if ks_current s \<noteq> 0 \<and> th_process (ks_threads s (ks_current s)) = proc
                         then snd (sched_enter_process_addr_space s proc) else s))) (\<lambda>(_, s).
       bindR (sched_add_thread_to_run_queue s t) (\<lambda>(_, s).
       Inr ((S_OK, Some (th_id (ks_threads s t))), s)))))"

definition thread_remove :: "u32 list \<Rightarrow> u32 \<Rightarrow> nat \<Rightarrow> u32 list" where
  "thread_remove ts cnt i = foldl (\<lambda>ts i. ts[i := ts ! (i + 1)]) ts [i..<unat (cnt - 1)]"

definition destroy_thread_struct :: "kernel \<Rightarrow> u32 \<Rightarrow> (hresult \<times> kernel) run" where
  "destroy_thread_struct s t =
     (let proc = th_process (ks_threads s t); p = ks_procs s proc in
      case find (\<lambda>i. pr_threads p ! i = t) [0..<unat (pr_thread_count p)] of
        None \<Rightarrow> Inl (Panic ''destroy_thread_struct(): thread not found.'')
      | Some i \<Rightarrow>
          let s = upd_proc s proc (\<lambda>p. p\<lparr>pr_threads := thread_remove (pr_threads p) (pr_thread_count p) i,
                                         pr_thread_count := pr_thread_count p - 1\<rparr>) in
          if th_kernel_stack (ks_threads s t) = 0 then Inl (Panic '''')
          else
            bindR (if pr_mode p = PROCESS_MODE_USER then vmm_unmap_region s proc (th_user_stack (ks_threads s t)) False
                   else Inr (S_OK, s)) (\<lambda>(hr, s).
            if FAILED hr then Inr (hr, s)
            else bindR (skheap_free (ks_heap s) t) (\<lambda>heap. Inr (S_OK, s\<lparr>ks_heap := heap\<rparr>))))"

text \<open>After a success the routine spins until it is preempted, without a result.\<close>

definition sched_exit_thread :: "kernel \<Rightarrow> u32 \<Rightarrow> (hresult option \<times> kernel) run" where
  "sched_exit_thread s t =
     bindR (with_lock s SchedLock (\<lambda>s.
       if ks_current s \<noteq> t then Inl (Panic ''sched_exit_thread(): t is not current thread.'')
       else destroy_thread_struct (s\<lparr>ks_current := 0\<rparr>) t)) (\<lambda>(hr, s).
     Inr (if SUCCEEDED hr then None else Some hr, s))"

section \<open>Processes\<close>

definition create_process_locked ::
  "kernel \<Rightarrow> u32 \<Rightarrow> u32 \<Rightarrow> u32 \<Rightarrow> ((hresult \<times> u32 option) \<times> kernel) run" where
  "create_process_locked s entry_point priority exit_addr =
     (if unat (ks_process_count s) \<ge> MAX_PROCESSES then Inr ((E_FAIL, None), s)
      else
        bindR (skheap_calloc (ks_heap s) sizeof_process) (\<lambda>(p, heap).
        bindR (guardR (p \<noteq> 0) BadAccess) (\<lambda>_.
        bindR (skheap_calloc_a heap sizeof_page_dir) (\<lambda>(page_dir, heap).
        let s = s\<lparr>ks_heap := heap, ks_dirs := (ks_dirs s)(page_dir := zero_page_dir)\<rparr>;
            s = s\<lparr>ks_procs := (ks_procs s)(p := zero_process\<lparr>pr_id := ks_free_pid s, pr_mode := PROCESS_MODE_USER,
                  pr_priority := priority, pr_page_dir := page_dir, pr_lock := spinlock_create,
                  pr_page_dir_phys := skheap_get_phys_addr page_dir\<rparr>),
                  ks_free_pid := ks_free_pid s + 1\<rparr>
        in bindR (sched_create_thread s p entry_point exit_addr) (\<lambda>((hr, _), s).
           if FAILED hr then Inr ((hr, None), s)
           else Inr ((hr, Some (pr_id (ks_procs s p))),
                  s\<lparr>ks_process_array := (ks_process_array s)[unat (ks_process_count s) := p],
                    ks_process_count := ks_process_count s + 1\<rparr>))))))"

definition sched_create_process ::
  "kernel \<Rightarrow> u32 \<Rightarrow> u32 \<Rightarrow> u32 \<Rightarrow> ((hresult \<times> u32 option) \<times> kernel) run" where
  "sched_create_process s entry_point priority exit_addr =
     with_lock s ProcessArrayLock (\<lambda>s. create_process_locked s entry_point priority exit_addr)"

definition sched_create_initial_proc :: "kernel \<Rightarrow> (hresult \<times> kernel) run" where
  "sched_create_initial_proc s =
     (let p = ks_kernel_proc s;
          s = upd_proc s p (\<lambda>pr. pr\<lparr>pr_name := buf_put (pr_name pr) 0 (map ch ''init'' @ [0]),
                pr_id := ks_free_pid s, pr_mode := PROCESS_MODE_KERNEL, pr_priority := PROCESS_PRIORITY_NORMAL\<rparr>);
          s = s\<lparr>ks_free_pid := ks_free_pid s + 1\<rparr>
      in bindR (skheap_calloc_a (ks_heap s) sizeof_page_dir) (\<lambda>(page_dir, heap).
         let s = s\<lparr>ks_heap := heap, ks_dirs := (ks_dirs s)(page_dir := zero_page_dir)\<rparr>;
             s = upd_proc s p (\<lambda>pr. pr\<lparr>pr_page_dir := page_dir, pr_page_dir_phys := skheap_get_phys_addr page_dir\<rparr>)
         in if page_dir mod 0x1000 \<noteq> 0 then Inl (Panic '''')
            else
              let s = upd_proc s p (\<lambda>pr. pr\<lparr>pr_lock := spinlock_create\<rparr>) in
              bindR (vmm_map_region s p 0 0xC0000000 (4 * 1024 * 1024) USAGE_KERNEL ACCESS_READWRITE False) (\<lambda>(hr, s).
              if FAILED hr then Inl (Panic ''Failed to map region [0x0..0x00100000] to [0xC0000000..0xC0100000].'')
              else
                with_lock s ProcessArrayLock (\<lambda>s.
                  Inr (S_OK, s\<lparr>ks_process_array := (ks_process_array s)[unat (ks_process_count s) := p],
                               ks_process_count := ks_process_count s + 1\<rparr>)))))"

text \<open>The handlers' addresses are parameters. The routine then waits to be preempted for good.\<close>

definition sched_initialize :: "kernel \<Rightarrow> u32 \<Rightarrow> u32 \<Rightarrow> u32 \<Rightarrow> u32 \<Rightarrow> u32 \<Rightarrow> kernel run" where
  "sched_initialize s kernel_thread_entry idle_entry exit_addr timer_handler resched_handler =
     (let s = s\<lparr>ks_process_count := 0, ks_process_array_lock := spinlock_create, ks_run_queue := 0,
                ks_current := 0, ks_sched_lock := spinlock_create\<rparr>
      in bindR (sched_create_initial_proc s) (\<lambda>(hr, s).
         if FAILED hr then Inl (Panic ''Failed to create kernel process descriptor.'')
         else
           let s = snd (sched_enter_process_addr_space s (ks_kernel_proc s)) in
           bindR (sched_create_thread s (ks_kernel_proc s) kernel_thread_entry exit_addr) (\<lambda>((hr, _), s).
           if FAILED hr then Inl (Panic ''Failed to create kernel main thread.'')
           else
             bindR (sched_create_thread s (ks_kernel_proc s) idle_entry exit_addr) (\<lambda>(_, s).
             let s = s\<lparr>ks_initialized := True, ks_sched_enabled := 1\<rparr>
             in Inr (s\<lparr>ks_int := snd (register_isr_callback (snd (register_isr_callback (ks_int s) IRQ0_INTID timer_handler))
                                        RESCHEDULE_INTID resched_handler)\<rparr>)))))"

section \<open>The run queue as a list\<close>

fun chain :: "(u32 \<Rightarrow> k_thread) \<Rightarrow> u32 \<Rightarrow> u32 list \<Rightarrow> bool" where
  "chain ths t [] \<longleftrightarrow> t = 0"
| "chain ths t (x # xs) \<longleftrightarrow> t = x \<and> x \<noteq> 0 \<and> chain ths (th_next (ths x)) xs"

definition run_queue :: "kernel \<Rightarrow> u32 list \<Rightarrow> bool" where
  "run_queue s xs \<longleftrightarrow> chain (ks_threads s) (ks_run_queue s) xs \<and> distinct xs"

lemma chain_cong: "(\<And>x. x \<in> set xs \<Longrightarrow> th_next (ths' x) = th_next (ths x)) \<Longrightarrow> chain ths' t xs = chain ths t xs"
  by (induction xs arbitrary: t) auto

lemma chain_nonnull: "chain ths t xs \<Longrightarrow> x \<in> set xs \<Longrightarrow> x \<noteq> 0"
  by (induction xs arbitrary: t) auto

lemma queue_last_chain: "chain ths t (xs @ [x]) \<Longrightarrow> queue_last ths t = Some x"
proof (induction xs arbitrary: t)
  case (Cons y ys)
  then have "th_next (ths y) \<noteq> 0" by (cases ys) auto
  then show ?case using Cons by (subst queue_last.simps) auto
qed (subst queue_last.simps, simp)

lemma chain_append:
  "chain ths t (xs @ [x]) \<Longrightarrow> distinct (xs @ [x]) \<Longrightarrow> n \<notin> set (xs @ [x]) \<Longrightarrow> n \<noteq> 0 \<Longrightarrow>
     chain (ths(x := (ths x)\<lparr>th_next := n\<rparr>, n := e\<lparr>th_next := 0\<rparr>)) t (xs @ [x, n])"
  by (induction xs arbitrary: t) auto

lemma queue_append_chain:
  assumes "chain (ks_threads s) (ks_run_queue s) xs" and "distinct xs" and "xs \<noteq> []" and "n \<notin> set xs" and "n \<noteq> 0"
  shows "\<exists>s'. queue_append s n = Inr s' \<and> chain (ks_threads s') (ks_run_queue s) (xs @ [n])
    \<and> s' = s\<lparr>ks_threads := ks_threads s'\<rparr>
    \<and> (\<forall>x. (ks_threads s' x)\<lparr>th_next := 0\<rparr> = (ks_threads s x)\<lparr>th_next := 0\<rparr>)"
proof -
  obtain ys y where xs: "xs = ys @ [y]" using assms(3) by (cases xs rule: rev_cases) auto
  let ?th = "(ks_threads s)(y := (ks_threads s y)\<lparr>th_next := n\<rparr>, n := (ks_threads s n)\<lparr>th_next := 0\<rparr>)"
  have "queue_append s n = Inr (s\<lparr>ks_threads := ?th\<rparr>)"
    using queue_last_chain assms(1,4) unfolding xs by (simp add: queue_append_def upd_thread_def)
  moreover have "chain ?th (ks_run_queue s) (xs @ [n])"
    using chain_append [of "ks_threads s" "ks_run_queue s" ys y n "ks_threads s n"] assms unfolding xs by simp
  ultimately show ?thesis
    by (intro exI [of _ "s\<lparr>ks_threads := ?th\<rparr>"]) simp
qed

lemma thread_eq_but_next:
  assumes "a\<lparr>th_next := 0\<rparr> = b\<lparr>th_next := 0\<rparr>"
  shows "th_process a = th_process b" "th_eip a = th_eip b" "th_esp a = th_esp b" "th_ebp a = th_ebp b"
    "th_running a = th_running b" "th_kernel_stack a = th_kernel_stack b" "th_stack_size a = th_stack_size b"
  using assms by (cases a; cases b; simp)+

text \<open>The state in which the scheduler makes its choice: enabled, with a queue of other threads.\<close>

definition schedulable :: "kernel \<Rightarrow> u32 list \<Rightarrow> bool" where
  "schedulable s xs \<longleftrightarrow> ks_sched_enabled s \<noteq> 0 \<and> run_queue s xs \<and> ks_current s \<notin> set xs"

text \<open>What loading a thread puts into the processor.\<close>

definition loads :: "k_thread \<Rightarrow> switch" where
  "loads th = (if th_running th then Resume (th_eip th) (th_esp th) (th_ebp th) else Enter (th_esp th) (th_ebp th))"

definition waiting :: "u32 \<Rightarrow> u32 list" where
  "waiting c = (if c = 0 then [] else [c])"

definition made_current :: "kernel \<Rightarrow> u32 \<Rightarrow> kernel" where
  "made_current s x =
     (let th = ks_threads s x; s = s\<lparr>ks_current := x\<rparr> in
      if pr_mode (ks_procs s (th_process th)) = PROCESS_MODE_USER
      then set_if False (s\<lparr>ks_int := gdt_update_tss (ks_int s) 0x10 (th_kernel_stack th + th_stack_size th)\<rparr>)
      else s)"

lemma made_current_fields [simp]:
  "ks_current (made_current s x) = x" "ks_run_queue (made_current s x) = ks_run_queue s"
  "ks_sched_enabled (made_current s x) = ks_sched_enabled s" "ks_procs (made_current s x) = ks_procs s"
  "ks_threads (made_current s x) = ks_threads s"
  by (simp_all add: made_current_def Let_def set_if_def)

lemma switch_eq:
  "x \<noteq> 0 \<Longrightarrow> x \<noteq> ks_current s \<Longrightarrow> sched_switch_to_thread s x =
     (if th_running (ks_threads s x) then Inr (Returned S_OK, made_current s x)
      else Inr (Enter (th_esp (ks_threads s x)) (th_ebp (ks_threads s x)),
             (upd_thread (made_current s x) x (\<lambda>th. th\<lparr>th_running := True\<rparr>))
               \<lparr>ks_cr3 := pr_page_dir_phys (ks_procs s (th_process (ks_threads s x)))\<rparr>))"
  by (simp add: sched_switch_to_thread_def made_current_def Let_def)

text \<open>The state after the current thread was saved and put at the end of the queue.\<close>

lemma save_effect:
  assumes "chain (ks_threads s) (ks_run_queue s) xs" and "distinct xs" and "xs \<noteq> []" and "ks_current s \<notin> set xs"
  obtains ths where "(if ks_current s \<noteq> 0
      then queue_append (upd_thread s (ks_current s) (\<lambda>th. th\<lparr>th_eip := eip, th_esp := esp, th_ebp := ebp\<rparr>)) (ks_current s)
      else Inr s) = Inr (s\<lparr>ks_threads := ths\<rparr>)"
    "chain ths (ks_run_queue s) (xs @ waiting (ks_current s))"
    "\<And>y. y \<noteq> ks_current s \<Longrightarrow> (ths y)\<lparr>th_next := 0\<rparr> = (ks_threads s y)\<lparr>th_next := 0\<rparr>"
    "ks_current s \<noteq> 0 \<Longrightarrow> th_eip (ths (ks_current s)) = eip \<and> th_esp (ths (ks_current s)) = esp
       \<and> th_ebp (ths (ks_current s)) = ebp"
proof (cases "ks_current s = 0")
  case True
  show thesis
    by (rule that [of "ks_threads s"]) (use True assms in \<open>simp_all add: waiting_def\<close>)
next
  case False
  define th0 where "th0 = (ks_threads s)(ks_current s :=
      (ks_threads s (ks_current s))\<lparr>th_eip := eip, th_esp := esp, th_ebp := ebp\<rparr>)"
  let ?s0 = "s\<lparr>ks_threads := th0\<rparr>"
  have "chain th0 (ks_run_queue s) xs"
    using assms(1,4) by (subst chain_cong [of _ _ "ks_threads s"]) (auto simp: th0_def)
  then obtain s1 where s1: "queue_append ?s0 (ks_current s) = Inr s1"
    "chain (ks_threads s1) (ks_run_queue s) (xs @ [ks_current s])" "s1 = ?s0\<lparr>ks_threads := ks_threads s1\<rparr>"
    "\<forall>y. (ks_threads s1 y)\<lparr>th_next := 0\<rparr> = (th0 y)\<lparr>th_next := 0\<rparr>"
    using queue_append_chain [of ?s0 xs "ks_current s"] assms False by auto
  have "s1 = s\<lparr>ks_threads := ks_threads s1\<rparr>" using s1(3) by simp
  show thesis
  proof (rule that [of "ks_threads s1"])
    show "(if ks_current s \<noteq> 0
      then queue_append (upd_thread s (ks_current s) (\<lambda>th. th\<lparr>th_eip := eip, th_esp := esp, th_ebp := ebp\<rparr>)) (ks_current s)
      else Inr s) = Inr (s\<lparr>ks_threads := ks_threads s1\<rparr>)"
      using False s1(1) \<open>s1 = s\<lparr>ks_threads := ks_threads s1\<rparr>\<close> by (simp add: upd_thread_def th0_def)
    show "chain (ks_threads s1) (ks_run_queue s) (xs @ waiting (ks_current s))"
      using False s1(2) by (simp add: waiting_def)
    show "(ks_threads s1 y)\<lparr>th_next := 0\<rparr> = (ks_threads s y)\<lparr>th_next := 0\<rparr>" if "y \<noteq> ks_current s" for y
      using that s1(4) by (simp add: th0_def)
    show "th_eip (ks_threads s1 (ks_current s)) = eip \<and> th_esp (ks_threads s1 (ks_current s)) = esp
       \<and> th_ebp (ks_threads s1 (ks_current s)) = ebp"
      using thread_eq_but_next [OF s1(4) [rule_format, of "ks_current s"]] by (simp add: th0_def)
  qed
qed

lemma update_effect:
  assumes "schedulable s (x # xs)" and "eip \<noteq> 0x12345"
  shows "\<exists>s'. sched_update s esp ebp eip = Inr (loads (ks_threads s x), s') \<and> ks_current s' = x
    \<and> schedulable s' (xs @ waiting (ks_current s))
    \<and> ks_cr3 s' = pr_page_dir_phys (ks_procs s (th_process (ks_threads s x)))
    \<and> (ks_current s \<noteq> 0 \<longrightarrow> th_eip (ks_threads s' (ks_current s)) = eip
         \<and> th_esp (ks_threads s' (ks_current s)) = esp \<and> th_ebp (ks_threads s' (ks_current s)) = ebp)
    \<and> th_running (ks_threads s' x)"
proof -
  let ?c = "ks_current s"
  have en: "ks_sched_enabled s \<noteq> 0" and q: "chain (ks_threads s) (ks_run_queue s) (x # xs)"
    and d: "distinct (x # xs)" and c: "?c \<notin> set (x # xs)"
    using assms(1) by (auto simp: schedulable_def run_queue_def)
  have x: "ks_run_queue s = x" "x \<noteq> 0" "x \<noteq> ?c" using q c by auto
  obtain ths where ths: "(if ?c \<noteq> 0
      then queue_append (upd_thread s ?c (\<lambda>th. th\<lparr>th_eip := eip, th_esp := esp, th_ebp := ebp\<rparr>)) ?c
      else Inr s) = Inr (s\<lparr>ks_threads := ths\<rparr>)"
    "chain ths (ks_run_queue s) ((x # xs) @ waiting ?c)"
    "\<And>y. y \<noteq> ?c \<Longrightarrow> (ths y)\<lparr>th_next := 0\<rparr> = (ks_threads s y)\<lparr>th_next := 0\<rparr>"
    "?c \<noteq> 0 \<Longrightarrow> th_eip (ths ?c) = eip \<and> th_esp (ths ?c) = esp \<and> th_ebp (ths ?c) = ebp"
    by (rule save_effect [OF q d _ c]) auto
  note same = thread_eq_but_next [OF ths(3) [OF x(3)]]
  define s1 where "s1 = s\<lparr>ks_threads := ths, ks_run_queue := th_next (ths x)\<rparr>"
  have f1: "ks_threads s1 = ths" "ks_current s1 = ?c" "ks_procs s1 = ks_procs s" "ks_run_queue s1 = th_next (ths x)"
    "ks_sched_enabled s1 = ks_sched_enabled s"
    by (simp_all add: s1_def)
  have up: "sched_update s esp ebp eip = bindR (sched_switch_to_thread s1 x) (\<lambda>(sw, s).
           case sw of
             Returned hr \<Rightarrow>
               if SUCCEEDED hr then
                 let th = ks_threads s x in
                 Inr (Resume (th_eip th) (th_esp th) (th_ebp th),
                      s\<lparr>ks_cr3 := pr_page_dir_phys (ks_procs s (th_process th))\<rparr>)
               else Inl (Panic ''sched_update(): failed...'')
           | _ \<Rightarrow> Inr (sw, s))"
    using en assms(2) x(1,2) by (simp add: sched_update_def ths(1) Let_def s1_def cong del: switch.case_cong_weak if_weak_cong)
  let ?ths = "ths(x := (ths x)\<lparr>th_running := True\<rparr>)"
  have run: "th_running (ths x) \<Longrightarrow> ?ths = ths" by (cases "ths x") (auto simp: fun_eq_iff)
  have "chain ?ths (th_next (ths x)) (xs @ waiting ?c)"
    using ths(2) by (subst chain_cong [of _ _ ths]) auto
  moreover have "distinct (xs @ waiting ?c)" "x \<notin> set (xs @ waiting ?c)"
    using d c x(3) by (auto simp: waiting_def)
  moreover have sw: "sched_switch_to_thread s1 x = (if th_running (ths x) then Inr (Returned S_OK, made_current s1 x)
      else Inr (Enter (th_esp (ths x)) (th_ebp (ths x)), (upd_thread (made_current s1 x) x (\<lambda>th. th\<lparr>th_running := True\<rparr>))
               \<lparr>ks_cr3 := pr_page_dir_phys (ks_procs s (th_process (ths x)))\<rparr>))"
    using switch_eq [of x s1] x(2,3) by (simp add: f1)
  ultimately show ?thesis
    unfolding up using same ths(4) x(3) en run
    by (cases "th_running (ths x)") (simp_all add: f1 loads_def schedulable_def run_queue_def Let_def upd_thread_def)
qed

section \<open>Properties\<close>

text \<open>C1. With other threads in the run queue, \<^verbatim>\<open>sched_update\<close> is a round-robin switch: it saves the
  registers of the current thread and puts it at the end of the queue, makes the first thread of the
  queue current, and loads that thread's address space and the registers saved for it, or enters it
  for the first time.\<close>

theorem sched_update_round_robin:
  assumes "schedulable s (x # xs)" and "eip \<noteq> 0x12345"
  shows "\<exists>s'. sched_update s esp ebp eip = Inr (loads (ks_threads s x), s') \<and> ks_current s' = x
    \<and> schedulable s' (xs @ waiting (ks_current s))
    \<and> ks_cr3 s' = pr_page_dir_phys (ks_procs s (th_process (ks_threads s x)))
    \<and> (ks_current s \<noteq> 0 \<longrightarrow> loads (ks_threads s' (ks_current s)) =
         (if th_running (ks_threads s' (ks_current s)) then Resume eip esp ebp else Enter esp ebp))
    \<and> th_running (ks_threads s' x)"
  using update_effect [OF assms, of esp ebp] by (auto simp: loads_def)

text \<open>A sequence of timer interrupts, with the registers they find.\<close>

fun sched_ticks :: "kernel \<Rightarrow> (u32 \<times> u32 \<times> u32) list \<Rightarrow> kernel run" where
  "sched_ticks s [] = Inr s"
| "sched_ticks s ((esp, ebp, eip) # rs) = bindR (sched_update s esp ebp eip) (\<lambda>(sw, s). sched_ticks s rs)"

text \<open>C3. No thread starves: the thread at position \<open>k\<close> of the run queue is the current one after
  exactly \<open>k + 1\<close> timer interrupts, whatever registers they find.\<close>

theorem sched_no_starvation:
  assumes "schedulable s xs" and "k < length xs" and "length rs = Suc k" and "\<forall>(esp, ebp, eip) \<in> set rs. eip \<noteq> 0x12345"
  shows "\<exists>s'. sched_ticks s rs = Inr s' \<and> ks_current s' = xs ! k"
  using assms
proof (induction k arbitrary: s xs rs)
  case 0
  then obtain x ys esp ebp eip where "xs = x # ys" "rs = [(esp, ebp, eip)]"
    by (cases xs; cases rs) auto
  then show ?case using update_effect [of s x ys eip esp ebp] 0 by auto
next
  case (Suc k)
  then obtain x ys esp ebp eip rs' where xs: "xs = x # ys" and rs: "rs = (esp, ebp, eip) # rs'"
    by (cases xs; cases rs) auto
  then obtain s1 sw where s1: "sched_update s esp ebp eip = Inr (sw, s1)" "schedulable s1 (ys @ waiting (ks_current s))"
    using update_effect [of s x ys eip esp ebp] Suc.prems by auto
  have "\<exists>s'. sched_ticks s1 rs' = Inr s' \<and> ks_current s' = (ys @ waiting (ks_current s)) ! k"
    using Suc.IH [OF s1(2), of rs'] Suc.prems xs rs by auto
  then show ?case using s1(1) xs rs Suc.prems(2) by (auto simp: nth_append)
qed

text \<open>C20. A new stack is placed below every region of the process and below the kernel, with an
  unmapped page between it and the next region above, so a stack that overflows upwards or a
  neighbour that overflows downwards meets no other region.\<close>

theorem stack_location_is_free:
  assumes "sched_find_proper_stack_location s proc stack_size = Inr a" and "unat stack_size + 0x1000 < 2 ^ 32"
  shows "unat a + unat stack_size + 0x1000 \<le> 0xBFFFF000
    \<and> (\<forall>r \<in> set (live_regions (ks_procs s proc)). unat a + unat stack_size + 0x1000 \<le> unat (vr_virt_addr r))"
proof -
  have nz: "u OR USAGE_STACK \<noteq> 0" for u
  proof
    assume "u OR USAGE_STACK = 0"
    then have "bit (u OR USAGE_STACK) 4 = bit (0 :: u32) 4" by simp
    then show False by (simp add: bit_simps USAGE_STACK_def)
  qed
  have fold: "foldl (\<lambda>index r. if vr_usage r OR USAGE_STACK \<noteq> 0
                      then (if vr_virt_addr r < index then vr_virt_addr r else index) else index) i rs \<le> i
      \<and> (\<forall>r \<in> set rs. foldl (\<lambda>index r. if vr_usage r OR USAGE_STACK \<noteq> 0
                      then (if vr_virt_addr r < index then vr_virt_addr r else index) else index) i rs \<le> vr_virt_addr r)" for i rs
  proof (induction rs arbitrary: i)
    case (Cons r rs)
    show ?case
      using Cons [of "if vr_virt_addr r < i then vr_virt_addr r else i"] nz
      by (auto split: if_splits)
  qed simp
  let ?i = "stack_index (live_regions (ks_procs s proc))"
  have i: "?i \<le> 0xBFFFF000" "r \<in> set (live_regions (ks_procs s proc)) \<Longrightarrow> ?i \<le> vr_virt_addr r" for r
    using fold [of "0xC0000000 - 4096" "live_regions (ks_procs s proc)"] by (auto simp: stack_index_def)
  have ok: "\<not> ?i < stack_size + unmapped_barrier" "a = ?i - stack_size - unmapped_barrier"
    using assms(1) by (auto simp: sched_find_proper_stack_location_def live_regions_def Let_def split: if_splits)
  have "unat (stack_size + unmapped_barrier) = unat stack_size + 0x1000"
    using assms(2) by (simp add: unat_add_small unmapped_barrier_def)
  then have "unat a = unat ?i - (unat stack_size + 0x1000)" "unat stack_size + 0x1000 \<le> unat ?i"
    using ok unat_sub_small [of "stack_size + unmapped_barrier" ?i] by (simp_all add: diff_diff_eq word_less_nat_alt)
  then have a: "unat a + unat stack_size + 0x1000 = unat ?i" by simp
  show ?thesis
    unfolding a using i by (auto simp: word_le_nat_alt)
qed

text \<open>Two threads wait while a third one runs.\<close>

definition sched_example :: kernel where
  "sched_example = example_kernel\<lparr>ks_threads := (\<lambda>_. zero_thread)
       (0xC0210010 := zero_thread\<lparr>th_next := 0xC0220010, th_esp := 0xBFFFBFBC\<rparr>,
        0xC0220010 := zero_thread\<lparr>th_esp := 0xBFFF8FBC\<rparr>),
     ks_run_queue := 0xC0210010, ks_current := 0xC0230010, ks_sched_enabled := 1\<rparr>"

lemma sched_example_schedulable: "schedulable sched_example [0xC0210010, 0xC0220010]"
  by (simp add: schedulable_def run_queue_def sched_example_def zero_thread_def)

theorem sched_update_round_robin_witness:
  "\<exists>s'. sched_update sched_example 0xBFFF0000 0xBFFF0010 0xC0105000 = Inr (Enter 0xBFFFBFBC 0, s')
     \<and> ks_current s' = 0xC0210010 \<and> schedulable s' [0xC0220010, 0xC0230010]"
proof -
  have "loads (ks_threads sched_example 0xC0210010) = Enter 0xBFFFBFBC 0" "ks_current sched_example = 0xC0230010"
    by (simp_all add: loads_def sched_example_def zero_thread_def)
  then show ?thesis
    using sched_update_round_robin [OF sched_example_schedulable, of "0xC0105000" "0xBFFF0000" "0xBFFF0010"]
    by (auto simp: waiting_def)
qed

theorem sched_no_starvation_witness:
  "\<exists>s'. sched_ticks sched_example [(1, 2, 3), (4, 5, 6)] = Inr s' \<and> ks_current s' = 0xC0220010"
  using sched_no_starvation [OF sched_example_schedulable, of 1 "[(1, 2, 3), (4, 5, 6)]"] by simp

theorem stack_location_is_free_witness:
  "\<exists>a. sched_find_proper_stack_location example_kernel 0xC0300000 0x2000 = Inr a
     \<and> unat a + unat (0x2000 :: u32) + 0x1000 \<le> 0xBFFFF000"
proof -
  have "sched_find_proper_stack_location example_kernel 0xC0300000 0x2000 = Inr 0xBFFFC000"
    by (simp add: sched_find_proper_stack_location_def stack_index_def example_kernel_def example_process_def
        zero_process_def unmapped_barrier_def)
  then show ?thesis
    using stack_location_is_free [of example_kernel "0xC0300000" "0x2000"] by simp
qed

section \<open>The first stack of a thread\<close>






















end
