(* ===== verification/Vfs.thy ===== *)
theory Vfs
  imports Url Sync
begin

unbundle bit_operations_syntax

text \<open>
  Model of \<^verbatim>\<open>vfs.c\<close>, the tree: nodes, paths, and the operations that look up, create and mount.
  Nodes, file system drivers and streams live in stores from address to object; a string is the list
  of its characters without the terminator. The addresses that \<^verbatim>\<open>kmalloc\<close>, \<^verbatim>\<open>krealloc\<close> and
  \<^verbatim>\<open>kcalloc\<close> return are arguments of the operation that allocates, 0 when they fail.
\<close>

section \<open>Constants\<close>

definition NODE_TYPE_FILE :: u8 where "NODE_TYPE_FILE = 0x01"
definition NODE_TYPE_DIRECTORY :: u8 where "NODE_TYPE_DIRECTORY = 0x02"
definition NODE_TYPE_CHARDEVICE :: u8 where "NODE_TYPE_CHARDEVICE = 0x04"
definition NODE_TYPE_BLOCKDEVICE :: u8 where "NODE_TYPE_BLOCKDEVICE = 0x08"
definition NODE_TYPE_PIPE :: u8 where "NODE_TYPE_PIPE = 0x10"
definition NODE_TYPE_SYMLINK :: u8 where "NODE_TYPE_SYMLINK = 0x20"
definition NODE_TYPE_MOUNTPOINT :: u8 where "NODE_TYPE_MOUNTPOINT = 0x40"

definition FILE_OPEN_READ :: u32 where "FILE_OPEN_READ = 0x01"
definition FILE_OPEN_WRITE :: u32 where "FILE_OPEN_WRITE = 0x02"
definition NODE_MODE_ALL_RWE :: u32 where "NODE_MODE_ALL_RWE = 0xFFFF"
definition VFS_MAX_DIRNAME_LENGTH :: nat where "VFS_MAX_DIRNAME_LENGTH = 255"

lemmas node_types = NODE_TYPE_FILE_def NODE_TYPE_DIRECTORY_def NODE_TYPE_CHARDEVICE_def
  NODE_TYPE_BLOCKDEVICE_def NODE_TYPE_MOUNTPOINT_def

section \<open>Data\<close>

text \<open>The function pointers of a stream: the routines of the VFS, and those of a device driver by
  their address.\<close>

datatype stream_fn =
    Vfs_file_read | Vfs_file_write | Vfs_file_seek | Vfs_file_tell | Vfs_file_ioctl | Vfs_close
  | Driver_fn u32

record k_stream =
  st_mode :: u32
  st_pos :: u32
  st_filename :: bytes
  st_read :: stream_fn
  st_write :: stream_fn
  st_seek :: stream_fn
  st_tell :: stream_fn
  st_ioctl :: stream_fn
  st_close :: stream_fn
  st_priv_data :: u32
  st_lock :: mutex

text \<open>\<^verbatim>\<open>K_DEVICE\<close>; a missing \<^verbatim>\<open>initialize\<close> or \<^verbatim>\<open>finalize\<close> is address 0.\<close>

record k_device =
  kd_type :: u32
  kd_opaque :: u32
  kd_read :: u32
  kd_write :: u32
  kd_ioctl :: u32
  kd_seek :: u32
  kd_tell :: u32
  kd_initialize :: u32
  kd_finalize :: u32

record fs_driver =
  fd_create :: u32
  fd_open :: u32
  fd_opendir :: u32
  fd_mkdir :: u32
  fd_finalize :: u32
  fd_priv_data :: u32

text \<open>\<^verbatim>\<open>content\<close> points to the bytes of a file or to the descriptor of a device. The child array holds
  the entries written so far, \<open>None\<close> when the pointer is null. The counters are natural numbers: a
  child takes more than 256 bytes, so that memory ends before 32 bits do.\<close>

record vfs_node =
  vn_index :: u8
  vn_name :: bytes
  vn_type :: u8
  vn_permission :: u32
  vn_fs_driver :: u32
  vn_size :: u64
  vn_children :: "u32 list option"
  vn_child_cnt :: nat
  vn_child_capacity :: nat
  vn_content :: "bytes option"
  vn_device :: "k_device option"
  vn_content_capacity :: u32
  vn_ref_count :: u32
  vn_parent :: u32
  vn_lock :: mutex

record vfs =
  vs_root :: u32
  vs_self :: u32
  vs_nodes :: "u32 \<rightharpoonup> vfs_node"
  vs_drivers :: "u32 \<rightharpoonup> fs_driver"
  vs_streams :: "u32 \<rightharpoonup> k_stream"

definition zero_mutex :: mutex where
  "zero_mutex = \<lparr> mx_inner = \<lparr> sl_lock = 0 \<rparr>, mx_count = 0, mx_pid = 0, mx_tid = 0 \<rparr>"

text \<open>A node as \<^verbatim>\<open>kcalloc\<close> delivers it.\<close>

definition zero_node :: vfs_node where
  "zero_node = \<lparr> vn_index = 0, vn_name = [], vn_type = 0, vn_permission = 0, vn_fs_driver = 0, vn_size = 0,
     vn_children = None, vn_child_cnt = 0, vn_child_capacity = 0, vn_content = None, vn_device = None,
     vn_content_capacity = 0, vn_ref_count = 0, vn_parent = 0, vn_lock = zero_mutex \<rparr>"

definition derefN :: "vfs \<Rightarrow> u32 \<Rightarrow> vfs_node run" where
  "derefN s n = (case vs_nodes s n of None \<Rightarrow> Inl BadAccess | Some nd \<Rightarrow> Inr nd)"

definition put_node :: "vfs \<Rightarrow> u32 \<Rightarrow> vfs_node \<Rightarrow> vfs" where
  "put_node s n nd = s\<lparr>vs_nodes := (vs_nodes s)(n \<mapsto> nd)\<rparr>"

text \<open>The entries \<open>children[0 .. child_cnt - 1]\<close>.\<close>

definition child_entries :: "vfs_node \<Rightarrow> u32 list run" where
  "child_entries nd =
     (if vn_child_cnt nd = 0 then Inr []
      else case vn_children nd of
        None \<Rightarrow> Inl BadAccess
      | Some xs \<Rightarrow> if vn_child_cnt nd \<le> length xs then Inr (take (vn_child_cnt nd) xs) else Inl BadAccess)"

section \<open>Nodes\<close>

definition vfs_init :: "vfs \<Rightarrow> u32 \<Rightarrow> (hresult \<times> vfs) run" where
  "vfs_init s new =
     (if new = 0 then Inl BadAccess
      else Inr (S_OK, (put_node s new (zero_node\<lparr>vn_type := NODE_TYPE_DIRECTORY\<rparr>))\<lparr>vs_root := new\<rparr>))"

text \<open>The search returns the position and the address of the child, nothing for \<^verbatim>\<open>E_NOTFOUND\<close>.\<close>

fun find_child_loop :: "vfs \<Rightarrow> bytes \<Rightarrow> nat \<Rightarrow> u32 list \<Rightarrow> (nat \<times> u32) option run" where
  "find_child_loop s child_name i [] = Inr None"
| "find_child_loop s child_name i (c # cs) =
     bindR (derefN s c) (\<lambda>nd.
     if vn_name nd = child_name then Inr (Some (i, c)) else find_child_loop s child_name (i + 1) cs)"

definition vfsnode_find_child :: "vfs \<Rightarrow> u32 \<Rightarrow> bytes \<Rightarrow> (nat \<times> u32) option run" where
  "vfsnode_find_child s n child_name =
     bindR (derefN s n) (\<lambda>nd. bindR (child_entries nd) (\<lambda>cs. find_child_loop s child_name 0 cs))"

definition vfsnode_addref :: "vfs \<Rightarrow> u32 \<Rightarrow> vfs run" where
  "vfsnode_addref s n =
     bindR (derefN s n) (\<lambda>nd. Inr (put_node s n (nd\<lparr>vn_ref_count := vn_ref_count nd + 1\<rparr>)))"

definition vfsnode_release :: "vfs \<Rightarrow> u32 \<Rightarrow> (u32 \<times> vfs) run" where
  "vfsnode_release s n =
     bindR (derefN s n) (\<lambda>nd.
     if vn_ref_count nd = 0 then Inl (Panic ''VFS node's refcount dropped below zero.'')
     else Inr (vn_ref_count nd - 1, put_node s n (nd\<lparr>vn_ref_count := vn_ref_count nd - 1\<rparr>)))"

text \<open>Growing the child array: \<open>arr\<close> is what the allocator returns for it. A failure has already
  replaced the pointer and the capacity.\<close>

definition grow_children :: "vfs_node \<Rightarrow> u32 \<Rightarrow> vfs_node" where
  "grow_children nd arr =
     (if vn_child_cnt nd \<ge> vn_child_capacity nd then
        if vn_child_capacity nd = 0
        then nd\<lparr>vn_children := (if arr = 0 then None else Some []), vn_child_capacity := 5\<rparr>
        else nd\<lparr>vn_children := (if arr = 0 then None else vn_children nd),
                vn_child_capacity := vn_child_capacity nd * 2\<rparr>
      else nd)"

definition vfsnode_add_child ::
  "vfs \<Rightarrow> u32 \<Rightarrow> bytes \<Rightarrow> u8 \<Rightarrow> u32 \<Rightarrow> u32 \<Rightarrow> (hresult \<times> u32 option \<times> vfs) run" where
  "vfsnode_add_child s n node_name node_type arr new =
     bindR (vfsnode_find_child s n node_name) (\<lambda>r.
     if r \<noteq> None then Inr (E_INVALIDARG, None, s)
     else
       bindR (derefN s n) (\<lambda>nd0.
       let nd = grow_children nd0 arr in
       if vn_child_cnt nd0 \<ge> vn_child_capacity nd0 \<and> arr = 0 then Inr (E_FAIL, None, put_node s n nd)
       else if new = 0 \<or> length node_name \<ge> 256 then Inl BadAccess
       else
         case vn_children nd of
           None \<Rightarrow> Inl BadAccess
         | Some xs \<Rightarrow>
             let cn = zero_node\<lparr>vn_name := node_name, vn_type := node_type, vn_index := of_nat (vn_child_cnt nd),
                                vn_parent := n, vn_lock := mutex_create\<rparr>;
                 nd = nd\<lparr>vn_children := Some (take (vn_child_cnt nd) xs @ [new]),
                         vn_child_cnt := vn_child_cnt nd + 1\<rparr>
             in Inr (S_OK, Some new, put_node (put_node s new cn) n nd)))"

section \<open>Paths\<close>

text \<open>The component that starts at offset \<open>o\<close> of a path ends at the next delimiter.\<close>

definition comp_at :: "bytes \<Rightarrow> nat \<Rightarrow> bytes" where
  "comp_at url offs = takeWhile (\<lambda>c. c \<noteq> VFS_PATH_DELIMITER) (drop offs url)"

definition implode_str :: "bytes \<Rightarrow> nat list \<Rightarrow> bytes" where
  "implode_str url components = concat (map (\<lambda>c. VFS_PATH_DELIMITER # comp_at url c) components)"

text \<open>Into a buffer of the given size; nothing is written without a buffer.\<close>

definition implode_into :: "nat option \<Rightarrow> bytes \<Rightarrow> nat list \<Rightarrow> bytes run" where
  "implode_into buf url components =
     (case buf of
        None \<Rightarrow> Inr []
      | Some cap \<Rightarrow>
          let str = implode_str url components in
          if length str < cap then Inr str else Inl BadAccess)"

text \<open>The walk over the components; \<open>seen\<close> are those already entered. The result is the status, the
  node, and at a mount point the path of the mount point and the path behind it.\<close>

fun parse_loop ::
  "vfs \<Rightarrow> bytes \<Rightarrow> nat option \<Rightarrow> nat option \<Rightarrow> nat list \<Rightarrow> u32 \<Rightarrow> nat list
   \<Rightarrow> (hresult \<times> u32 \<times> (bytes \<times> bytes) option) run" where
  "parse_loop s url base_buf ext_buf seen cur [] = Inr (S_OK, cur, None)"
| "parse_loop s url base_buf ext_buf seen cur (c # cs) =
     (let comp_name = comp_at url c in
      if length comp_name \<ge> 256 then Inl BadAccess
      else
        bindR (vfsnode_find_child s cur comp_name) (\<lambda>r.
        case r of
          None \<Rightarrow> Inr (E_NOTFOUND, 0, None)
        | Some (i, nxt) \<Rightarrow>
            bindR (derefN s nxt) (\<lambda>nd.
            if vn_type nd AND NODE_TYPE_MOUNTPOINT \<noteq> 0 then
              bindR (implode_into base_buf url (seen @ [c])) (\<lambda>base_path.
              bindR (implode_into ext_buf url cs) (\<lambda>mounted_path.
              Inr (S_OK, nxt, Some (base_path, mounted_path))))
            else parse_loop s url base_buf ext_buf (seen @ [c]) nxt cs)))"

definition vfs_parse_url ::
  "vfs \<Rightarrow> bytes \<Rightarrow> u32 \<Rightarrow> nat option \<Rightarrow> nat option \<Rightarrow> (hresult \<times> u32 \<times> (bytes \<times> bytes) option) run" where
  "vfs_parse_url s dirname root base_buf ext_buf =
     (if length dirname \<noteq> 0 \<and> dirname ! 0 \<noteq> VFS_PATH_DELIMITER then Inr (E_INVALIDARG, 0, None)
      else if dirname = [VFS_PATH_DELIMITER] \<or> length dirname = 0 then Inr (S_OK, root, None)
      else parse_loop s dirname base_buf ext_buf [] root (url_decompose dirname VFS_PATH_DELIMITER))"

section \<open>Operations on the tree\<close>

text \<open>A path behind a mount point is the business of the driver mounted there: the call is passed on
  to one of its functions, and its result is the result of the operation.\<close>

datatype 'a served = Served 'a | Passed u32 u32 bytes

definition pass_on :: "vfs \<Rightarrow> u32 \<Rightarrow> (fs_driver \<Rightarrow> u32) \<Rightarrow> bytes \<Rightarrow> 'a served run" where
  "pass_on s node func ext_path =
     bindR (derefN s node) (\<lambda>nd.
     case vs_drivers s (vn_fs_driver nd) of
       None \<Rightarrow> Inl BadAccess
     | Some d \<Rightarrow> if func d = 0 then Inl BadAccess else Inr (Passed (func d) (vn_fs_driver nd) ext_path))"

text \<open>A path split into buffers of \<open>cap\<close> bytes.\<close>

definition split_path :: "nat \<Rightarrow> bytes \<Rightarrow> (bytes \<times> bytes) run" where
  "split_path cap path =
     (if length (url_get_dirname path) < cap \<and> length (url_get_basename path) < cap
      then Inr (url_get_dirname path, url_get_basename path) else Inl BadAccess)"

text \<open>The common end of the operations that add a node: its permissions and driver are set through the
  pointer that only a successful \<^verbatim>\<open>vfsnode_add_child\<close> has set.\<close>

definition add_and_set ::
  "vfs \<Rightarrow> u32 \<Rightarrow> bytes \<Rightarrow> u8 \<Rightarrow> u32 \<Rightarrow> u32 \<Rightarrow> u32 \<Rightarrow> u32 \<Rightarrow> (hresult \<times> u32 \<times> vfs) run" where
  "add_and_set s parent node_name node_type perm drv arr new =
     bindR (vfsnode_add_child s parent node_name node_type arr new) (\<lambda>(hr, out, s).
     case out of
       None \<Rightarrow> Inl BadAccess
     | Some n \<Rightarrow>
         bindR (derefN s n) (\<lambda>nd.
         Inr (hr, n, put_node s n (nd\<lparr>vn_permission := perm, vn_fs_driver := drv\<rparr>))))"

definition vfs_mkdir :: "vfs \<Rightarrow> bytes \<Rightarrow> u32 \<Rightarrow> u32 \<Rightarrow> u32 \<Rightarrow> (hresult \<times> vfs) run" where
  "vfs_mkdir s path mode arr new =
     bindR (split_path 1024 path) (\<lambda>(dir_path, dir_name).
     bindR (vfs_parse_url s dir_path (vs_root s) None None) (\<lambda>(hr, parent, _).
     if FAILED hr then Inr (hr, s)
     else bindR (add_and_set s parent dir_name NODE_TYPE_DIRECTORY mode (vs_self s) arr new)
            (\<lambda>(hr, n, s). Inr (hr, s))))"

definition vfs_create :: "vfs \<Rightarrow> bytes \<Rightarrow> u32 \<Rightarrow> u32 \<Rightarrow> u32 \<Rightarrow> (hresult \<times> vfs) served run" where
  "vfs_create s filename perm arr new =
     bindR (vfs_parse_url s filename (vs_root s) None (Some 1024)) (\<lambda>(hr, node, ext).
     case ext of
       Some (_, ext_path) \<Rightarrow> pass_on s node fd_create ext_path
     | None \<Rightarrow>
         if hr \<noteq> E_NOTFOUND then Inr (Served (E_FAIL, s))
         else
           bindR (split_path VFS_MAX_DIRNAME_LENGTH filename) (\<lambda>(dir_name, file_name).
           bindR (vfs_parse_url s dir_name (vs_root s) None None) (\<lambda>(hr, node, _).
           if FAILED hr then Inr (Served (hr, s))
           else bindR (add_and_set s node file_name NODE_TYPE_FILE perm (vs_self s) arr new)
                  (\<lambda>(hr, n, s). Inr (Served (hr, s))))))"

text \<open>\<open>content\<close> is the address of the copy of the descriptor; \<open>init\<close> is the driver's routine, which may
  change that copy.\<close>

definition vfs_mount_device ::
  "(k_device \<Rightarrow> hresult \<times> k_device) \<Rightarrow> vfs \<Rightarrow> k_device \<Rightarrow> bytes \<Rightarrow> u32 \<Rightarrow> u32 \<Rightarrow> u32 \<Rightarrow> (hresult \<times> vfs) run" where
  "vfs_mount_device init s dev path arr new content =
     (if kd_type dev \<noteq> ucast NODE_TYPE_BLOCKDEVICE \<and> kd_type dev \<noteq> ucast NODE_TYPE_CHARDEVICE then Inr (E_FAIL, s)
      else
        bindR (vfs_parse_url s path (vs_root s) None (Some 1024)) (\<lambda>(hr, node, ext).
        if ext \<noteq> None \<or> hr \<noteq> E_NOTFOUND then Inr (E_INVALIDARG, s)
        else
          bindR (split_path VFS_MAX_DIRNAME_LENGTH path) (\<lambda>(dir_name, file_name).
          bindR (vfs_parse_url s dir_name (vs_root s) None None) (\<lambda>(hr, node, _).
          if FAILED hr then Inr (hr, s)
          else
            bindR (add_and_set s node file_name (ucast (kd_type dev)) NODE_MODE_ALL_RWE (vs_self s) arr new)
              (\<lambda>(hr, n, s).
            if content = 0 then Inl BadAccess
            else
              bindR (derefN s n) (\<lambda>nd.
              let (hr', dev') = (if kd_initialize dev \<noteq> 0 then init dev else (hr, dev)) in
              if kd_initialize dev \<noteq> 0 \<and> FAILED hr' then
                Inl (Panic ''vfs_mount_device(): Device failed to initialize. Handling routine not implemented.'')
              else Inr (hr', put_node s n (nd\<lparr>vn_content_capacity := 56, vn_device := Some dev'\<rparr>))))))))"

definition vfs_unmount_device :: "(k_device \<Rightarrow> k_device) \<Rightarrow> vfs \<Rightarrow> bytes \<Rightarrow> (hresult \<times> vfs) run" where
  "vfs_unmount_device fin s path =
     bindR (vfs_parse_url s path (vs_root s) None None) (\<lambda>(hr, node, ext).
     if FAILED hr \<or> ext \<noteq> None then Inr (E_INVALIDARG, s)
     else
       bindR (derefN s node) (\<lambda>nd.
       if vn_type nd \<noteq> NODE_TYPE_BLOCKDEVICE \<and> vn_type nd \<noteq> NODE_TYPE_CHARDEVICE then Inr (E_FAIL, s)
       else
         case vn_device nd of
           None \<Rightarrow> Inl BadAccess
         | Some dev \<Rightarrow>
             Inr (E_NOTIMPL, if kd_finalize dev \<noteq> 0 then put_node s node (nd\<lparr>vn_device := Some (fin dev)\<rparr>) else s)))"

definition zero_driver :: fs_driver where
  "zero_driver = \<lparr> fd_create = 0, fd_open = 0, fd_opendir = 0, fd_mkdir = 0, fd_finalize = 0, fd_priv_data = 0 \<rparr>"

text \<open>The arguments may be null. \<open>ctor\<close> fills the driver record at \<open>drv\<close> that \<^verbatim>\<open>kcalloc\<close> returned.\<close>

definition vfs_mount_fs ::
  "vfs \<Rightarrow> bytes option \<Rightarrow> (fs_driver \<Rightarrow> bytes \<Rightarrow> hresult \<times> fs_driver) option \<Rightarrow> bytes option
   \<Rightarrow> u32 \<Rightarrow> u32 \<Rightarrow> u32 \<Rightarrow> (hresult \<times> vfs) run" where
  "vfs_mount_fs s mount_path fs_ctor storage_drv drv arr new =
     (case (mount_path, fs_ctor, storage_drv) of
        (Some path, Some ctor, Some storage) \<Rightarrow>
          bindR (vfs_parse_url s path (vs_root s) None (Some 1024)) (\<lambda>(hr, node, ext).
          if ext \<noteq> None \<or> hr \<noteq> E_NOTFOUND then Inr (E_INVALIDARG, s)
          else
            bindR (split_path VFS_MAX_DIRNAME_LENGTH path) (\<lambda>(dir_name, mp_name).
            bindR (vfs_parse_url s dir_name (vs_root s) None None) (\<lambda>(hr, node, _).
            if FAILED hr then Inr (hr, s)
            else if drv = 0 then Inl BadAccess
            else
              let (hr, d) = ctor zero_driver storage in
              if FAILED hr then Inr (hr, s)
              else
                bindR (add_and_set (s\<lparr>vs_drivers := (vs_drivers s)(drv \<mapsto> d)\<rparr>) node mp_name
                         NODE_TYPE_MOUNTPOINT NODE_MODE_ALL_RWE drv arr new)
                  (\<lambda>(hr, n, s). Inr (hr, s)))))
      | _ \<Rightarrow> Inr (E_POINTER, s))"

text \<open>\<open>fin\<close> is the status that the driver's finalizer returns.\<close>

definition vfs_unmount_fs :: "hresult \<Rightarrow> vfs \<Rightarrow> bytes \<Rightarrow> (hresult \<times> vfs) run" where
  "vfs_unmount_fs fin s mount_path =
     bindR (vfs_parse_url s mount_path (vs_root s) None None) (\<lambda>(hr, node, ext).
     if FAILED hr \<or> ext \<noteq> None then Inr (E_INVALIDARG, s)
     else
       bindR (derefN s node) (\<lambda>nd.
       if vn_type nd AND NODE_TYPE_MOUNTPOINT = 0 then Inr (E_FAIL, s)
       else
         case vs_drivers s (vn_fs_driver nd) of
           None \<Rightarrow> Inl BadAccess
         | Some d \<Rightarrow>
             if fd_finalize d \<noteq> 0
             then Inr (if FAILED fin then S_FALSE else fin,
                       s\<lparr>vs_drivers := (vs_drivers s)(vn_fs_driver nd := None)\<rparr>)
             else Inr (hr, s)))"

definition vfs_get_driver :: "vfs \<Rightarrow> u32" where
  "vfs_get_driver s = vs_self s"

section \<open>Well-formed trees\<close>

definition kids :: "vfs_node \<Rightarrow> u32 list" where
  "kids nd = (case vn_children nd of None \<Rightarrow> [] | Some xs \<Rightarrow> xs)"

definition node_name :: "vfs \<Rightarrow> u32 \<Rightarrow> bytes" where
  "node_name s c = (case vs_nodes s c of None \<Rightarrow> [] | Some nd \<Rightarrow> vn_name nd)"

text \<open>The children of a node exist, know their parent and their position, and have different names;
  the counters describe the child array.\<close>

definition node_ok :: "vfs \<Rightarrow> u32 \<Rightarrow> vfs_node \<Rightarrow> bool" where
  "node_ok s n nd \<longleftrightarrow>
     length (kids nd) = vn_child_cnt nd \<and> vn_child_cnt nd \<le> vn_child_capacity nd
     \<and> (vn_child_capacity nd \<noteq> 0 \<longrightarrow> vn_children nd \<noteq> None)
     \<and> (\<forall>i < vn_child_cnt nd. \<exists>cd. vs_nodes s (kids nd ! i) = Some cd \<and> vn_parent cd = n \<and> vn_index cd = of_nat i)
     \<and> distinct (map (node_name s) (kids nd))"

definition vfs_ok :: "vfs \<Rightarrow> bool" where
  "vfs_ok s \<longleftrightarrow> vs_nodes s (vs_root s) \<noteq> None \<and> (\<forall>n nd. vs_nodes s n = Some nd \<longrightarrow> node_ok s n nd)"

lemma node_okD:
  assumes "node_ok s n nd"
  shows "length (kids nd) = vn_child_cnt nd" "vn_child_cnt nd \<le> vn_child_capacity nd"
    "vn_child_capacity nd \<noteq> 0 \<Longrightarrow> vn_children nd \<noteq> None"
    "i < vn_child_cnt nd \<Longrightarrow> \<exists>cd. vs_nodes s (kids nd ! i) = Some cd \<and> vn_parent cd = n \<and> vn_index cd = of_nat i"
    "distinct (map (node_name s) (kids nd))"
  using assms unfolding node_ok_def by blast+

lemma node_ok_child: "node_ok s n nd \<Longrightarrow> c \<in> set (kids nd) \<Longrightarrow> \<exists>cd. vs_nodes s c = Some cd \<and> vn_parent cd = n"
  using node_okD(1,4) [of s n nd] by (metis in_set_conv_nth)

lemma child_entries_ok:
  assumes "node_ok s n nd"
  shows "child_entries nd = Inr (kids nd)"
  using node_okD(1-3) [OF assms] by (auto simp: child_entries_def kids_def split: option.splits)

lemma find_child_loop_ok:
  assumes "\<forall>c \<in> set cs. vs_nodes s c \<noteq> None"
  shows "find_child_loop s name i cs =
     Inr (map_option (\<lambda>c. (i + length (takeWhile (\<lambda>c. node_name s c \<noteq> name) cs), c))
            (List.find (\<lambda>c. node_name s c = name) cs))"
  using assms
proof (induction cs arbitrary: i)
  case (Cons c cs)
  then obtain nd where "vs_nodes s c = Some nd" by auto
  with Cons show ?case by (simp add: derefN_def node_name_def comp_def)
qed simp

text \<open>The child with a name.\<close>

definition child :: "vfs \<Rightarrow> u32 \<Rightarrow> bytes \<Rightarrow> u32 option" where
  "child s n name = (case vs_nodes s n of
     None \<Rightarrow> None | Some nd \<Rightarrow> List.find (\<lambda>c. node_name s c = name) (kids nd))"

lemma vfsnode_find_child_ok:
  assumes "vfs_ok s" and "vs_nodes s n = Some nd"
  shows "case child s n name of
      None \<Rightarrow> vfsnode_find_child s n name = Inr None
    | Some c \<Rightarrow> \<exists>i. vfsnode_find_child s n name = Inr (Some (i, c)) \<and> vs_nodes s c \<noteq> None"
proof -
  have ok: "node_ok s n nd" using assms by (simp add: vfs_ok_def)
  then have "\<forall>c \<in> set (kids nd). vs_nodes s c \<noteq> None" using node_ok_child by fastforce
  then show ?thesis
    using find_child_loop_ok [of "kids nd" s name 0] assms(2)
    by (auto simp: vfsnode_find_child_def derefN_def child_entries_ok [OF ok] child_def find_Some_iff
             split: option.splits)
qed

section \<open>Paths as walks\<close>

text \<open>The reference: a walk from a node along a list of names; at a mount point it stops with the names
  that are left.\<close>

definition is_mount :: "vfs \<Rightarrow> u32 \<Rightarrow> bool" where
  "is_mount s n = (case vs_nodes s n of None \<Rightarrow> False | Some nd \<Rightarrow> vn_type nd AND NODE_TYPE_MOUNTPOINT \<noteq> 0)"

fun walk :: "vfs \<Rightarrow> u32 \<Rightarrow> bytes list \<Rightarrow> (u32 \<times> bytes list option) option" where
  "walk s cur [] = Some (cur, None)"
| "walk s cur (n # ns) =
     (case child s cur n of
        None \<Rightarrow> None
      | Some c \<Rightarrow> if is_mount s c then Some (c, Some ns) else walk s c ns)"

lemma walk_rest_le: "walk s cur ns = Some (c, Some rest) \<Longrightarrow> length rest \<le> length ns"
  by (induction ns arbitrary: cur) (fastforce split: option.splits if_splits)+

lemma comp_at_join:
  assumes "names_ok (n # ns)" and "drop k url = n @ join ns"
  shows "comp_at url k = n"
proof -
  have "VFS_PATH_DELIMITER \<notin> set n" using assms(1) by (simp add: names_ok_def)
  then show ?thesis
    using assms(2) by (cases ns) (auto simp: comp_at_def takeWhile_eq_all_conv takeWhile_append)
qed

lemma comps_join:
  "names_ok ys \<Longrightarrow> drop k url = join (ys @ zs) \<Longrightarrow> names_ok zs \<Longrightarrow> map (comp_at url) (starts k ys) = ys"
proof (induction ys arbitrary: k)
  case (Cons n ys)
  have d: "drop (Suc k) url = n @ join (ys @ zs)"
    using Cons.prems(2) by (simp add: drop_Suc drop_tl)
  then have "drop (Suc k + length n) url = join (ys @ zs)"
    by (metis add.commute append_eq_conv_conj drop_drop)
  moreover have "names_ok (n # ys @ zs)" "names_ok ys"
    using Cons.prems by (auto simp: names_ok_def)
  ultimately show ?case
    using Cons.IH Cons.prems(3) comp_at_join [OF _ d] by simp
qed simp

lemma implode_join:
  assumes "names_ok ys" and "names_ok zs" and "drop k url = join (ys @ zs)"
  shows "implode_str url (starts k ys) = join ys"
proof -
  have "implode_str url (starts k ys) = concat (map ((#) VFS_PATH_DELIMITER) (map (comp_at url) (starts k ys)))"
    by (simp add: implode_str_def comp_def)
  moreover have "concat (map ((#) VFS_PATH_DELIMITER) ys) = join ys"
    by (induction ys) simp_all
  ultimately show ?thesis by (simp add: comps_join [OF assms(1,3,2)])
qed

lemma starts_append: "starts k (xs @ ys) = starts k xs @ starts (k + length (join xs)) ys"
  by (induction xs arbitrary: k) (simp_all add: ac_simps)

definition buf_fits :: "nat option \<Rightarrow> bytes \<Rightarrow> bool" where
  "buf_fits buf url \<longleftrightarrow> (case buf of None \<Rightarrow> True | Some cap \<Rightarrow> length url < cap)"

definition buf_text :: "nat option \<Rightarrow> bytes \<Rightarrow> bytes" where
  "buf_text buf str = (case buf of None \<Rightarrow> [] | Some _ \<Rightarrow> str)"

lemma implode_into_join:
  assumes "names_ok (xs @ ys @ zs)" and "buf_fits buf (join (xs @ ys @ zs))"
  shows "implode_into buf (join (xs @ ys @ zs)) (starts (length (join xs)) ys) = Inr (buf_text buf (join ys))"
proof -
  have "implode_str (join (xs @ ys @ zs)) (starts (length (join xs)) ys) = join ys"
    using assms(1) by (intro implode_join [where zs = zs]) (auto simp: names_ok_def join_append)
  then show ?thesis
    using assms(2) by (auto simp: implode_into_def buf_fits_def buf_text_def join_append split: option.splits)
qed

lemma parse_loop_walk:
  assumes "vfs_ok s" and "vs_nodes s cur \<noteq> None" and "names_ok (xs @ ys)"
    and "buf_fits b (join (xs @ ys))" and "buf_fits e (join (xs @ ys))"
  shows "parse_loop s (join (xs @ ys)) b e (starts 0 xs) cur (starts (length (join xs)) ys) =
    Inr (case walk s cur ys of
           None \<Rightarrow> (E_NOTFOUND, 0, None)
         | Some (c, None) \<Rightarrow> (S_OK, c, None)
         | Some (c, Some rest) \<Rightarrow> (S_OK, c, Some (buf_text b (join (xs @ take (length ys - length rest) ys)), buf_text e (join rest))))"
  using assms
proof (induction ys arbitrary: xs cur)
  case (Cons n ys)
  let ?url = "join (xs @ n # ys)" and ?k = "length (join xs)"
  obtain nd where nd: "vs_nodes s cur = Some nd" using Cons.prems(2) by auto
  have name: "comp_at ?url (Suc ?k) = n"
    using Cons.prems(3) by (intro comp_at_join [of n ys]) (auto simp: names_ok_def join_append)
  have short: "length n < 256"
    using Cons.prems(3) by (auto simp: names_ok_def VFS_MAX_FILENAME_LENGTH_def)
  have st: "starts ?k (n # ys) = Suc ?k # starts (length (join (xs @ [n]))) ys"
    by (simp add: join_append)
  have seen: "starts 0 xs @ [Suc ?k] = starts 0 (xs @ [n])"
    by (simp add: starts_append)
  show ?case
  proof (cases "child s cur n")
    case None
    then show ?thesis
      using vfsnode_find_child_ok [OF Cons.prems(1) nd, of n] name short st by simp
  next
    case (Some c)
    then obtain i cd where f: "vfsnode_find_child s cur n = Inr (Some (i, c))" "vs_nodes s c = Some cd"
      using vfsnode_find_child_ok [OF Cons.prems(1) nd, of n] by auto
    show ?thesis
    proof (cases "is_mount s c")
      case True
      have "implode_into b ?url (starts 0 (xs @ [n])) = Inr (buf_text b (join (xs @ [n])))"
        using implode_into_join [of "[]" "xs @ [n]" ys b] Cons.prems(3,4) by simp
      moreover have "implode_into e ?url (starts (length (join (xs @ [n]))) ys) = Inr (buf_text e (join ys))"
        using implode_into_join [of "xs @ [n]" ys "[]" e] Cons.prems(3,5) by simp
      ultimately show ?thesis
        using True f name short Some unfolding st
        by (simp add: seen derefN_def is_mount_def)
    next
      case False
      then have "parse_loop s ?url b e (starts 0 xs) cur (starts ?k (n # ys))
          = parse_loop s (join ((xs @ [n]) @ ys)) b e (starts 0 (xs @ [n])) c (starts (length (join (xs @ [n]))) ys)"
        using f name short unfolding st by (simp add: seen derefN_def is_mount_def)
      also have "\<dots> = Inr (case walk s c ys of
           None \<Rightarrow> (E_NOTFOUND, 0, None)
         | Some (c, None) \<Rightarrow> (S_OK, c, None)
         | Some (c, Some rest) \<Rightarrow> (S_OK, c, Some (buf_text b (join ((xs @ [n]) @ take (length ys - length rest) ys)), buf_text e (join rest))))"
        using Cons.prems f by (intro Cons.IH) simp_all
      finally show ?thesis
        using walk_rest_le [of s c ys] Some False by (auto simp: Suc_diff_le split: option.splits)
    qed
  qed
qed simp

section \<open>Adding a node\<close>

definition new_node :: "u32 \<Rightarrow> vfs_node \<Rightarrow> bytes \<Rightarrow> u8 \<Rightarrow> u32 \<Rightarrow> u32 \<Rightarrow> vfs_node" where
  "new_node p nd name ty perm drv = zero_node\<lparr>vn_name := name, vn_type := ty, vn_index := of_nat (vn_child_cnt nd),
     vn_parent := p, vn_lock := mutex_create, vn_permission := perm, vn_fs_driver := drv\<rparr>"

text \<open>The tree \<open>s'\<close> has one node more than \<open>s\<close>, the last child of \<open>p\<close>.\<close>

definition grown :: "vfs \<Rightarrow> vfs \<Rightarrow> u32 \<Rightarrow> u32 \<Rightarrow> vfs_node \<Rightarrow> bool" where
  "grown s s' p new cn \<longleftrightarrow>
     vs_nodes s new = None \<and> new \<noteq> 0 \<and> vs_root s' = vs_root s \<and> vs_self s' = vs_self s
     \<and> vs_streams s' = vs_streams s
     \<and> vn_children cn = None \<and> vn_child_cnt cn = 0 \<and> vn_child_capacity cn = 0 \<and> vn_parent cn = p
     \<and> (\<exists>nd nd'. vs_nodes s p = Some nd \<and> vs_nodes s' = (vs_nodes s)(p \<mapsto> nd', new \<mapsto> cn)
          \<and> kids nd' = kids nd @ [new] \<and> vn_children nd' \<noteq> None \<and> vn_child_cnt nd' = vn_child_cnt nd + 1
          \<and> vn_child_cnt nd' \<le> vn_child_capacity nd' \<and> vn_index cn = of_nat (vn_child_cnt nd)
          \<and> vn_name nd' = vn_name nd \<and> vn_type nd' = vn_type nd \<and> vn_parent nd' = vn_parent nd
          \<and> vn_index nd' = vn_index nd \<and> vn_ref_count nd' = vn_ref_count nd)"

lemma grow_children_ok:
  assumes "node_ok s n nd" and "arr \<noteq> 0 \<or> vn_child_cnt nd < vn_child_capacity nd"
  shows "vn_children (grow_children nd arr) = Some (kids nd)" "kids (grow_children nd arr) = kids nd"
    "vn_child_cnt nd < vn_child_capacity (grow_children nd arr)" "vn_child_cnt (grow_children nd arr) = vn_child_cnt nd"
    "vn_name (grow_children nd arr) = vn_name nd" "vn_type (grow_children nd arr) = vn_type nd"
    "vn_parent (grow_children nd arr) = vn_parent nd" "vn_index (grow_children nd arr) = vn_index nd"
    "vn_ref_count (grow_children nd arr) = vn_ref_count nd"
  using node_okD(1-3) [OF assms(1)] assms(2) by (auto simp: grow_children_def kids_def split: option.splits)

lemma add_and_set_ok:
  assumes ok: "vfs_ok s" and nd: "vs_nodes s p = Some nd"
    and arr: "arr \<noteq> 0 \<or> vn_child_cnt nd < vn_child_capacity nd"
    and new: "new \<noteq> 0" "vs_nodes s new = None" and name: "length name < 256"
    and fresh: "child s p name = None"
  shows "\<exists>s'. add_and_set s p name ty perm drv arr new = Inr (S_OK, new, s')
    \<and> grown s s' p new (new_node p nd name ty perm drv) \<and> vs_drivers s' = vs_drivers s"
proof -
  have pok: "node_ok s p nd" using ok nd by (simp add: vfs_ok_def)
  note g = grow_children_ok [OF pok arr]
  have f: "vfsnode_find_child s p name = Inr None"
    using vfsnode_find_child_ok [OF ok nd, of name] fresh by simp
  have ne: "p \<noteq> new" using nd new(2) by auto
  let ?nd = "(grow_children nd arr)\<lparr>vn_children := Some (kids nd @ [new]), vn_child_cnt := vn_child_cnt nd + 1\<rparr>"
  let ?s = "put_node (put_node s new (new_node p nd name ty 0 0)) p ?nd"
  have "take (vn_child_cnt nd) (kids nd) = kids nd"
    using node_okD(1) [OF pok] by simp
  then have add: "vfsnode_add_child s p name ty arr new = Inr (S_OK, Some new, ?s)"
    using f nd arr new(1) name g by (auto simp: vfsnode_add_child_def derefN_def Let_def new_node_def zero_node_def)
  then have "add_and_set s p name ty perm drv arr new
      = Inr (S_OK, new, put_node ?s new (new_node p nd name ty perm drv))"
    using ne by (simp add: add_and_set_def derefN_def put_node_def new_node_def)
  moreover have "grown s (put_node ?s new (new_node p nd name ty perm drv)) p new (new_node p nd name ty perm drv)"
    unfolding grown_def using ne nd new g
    by (intro conjI exI [of _ nd] exI [of _ ?nd])
      (auto simp: put_node_def new_node_def zero_node_def kids_def fun_eq_iff)
  ultimately show ?thesis by (auto simp: put_node_def)
qed

lemma grownE:
  assumes "grown s s' p new cn"
  obtains nd nd' where "vs_nodes s p = Some nd" "vs_nodes s' = (vs_nodes s)(p \<mapsto> nd', new \<mapsto> cn)"
    "kids nd' = kids nd @ [new]" "vn_children nd' \<noteq> None" "vn_child_cnt nd' = vn_child_cnt nd + 1"
    "vn_child_cnt nd' \<le> vn_child_capacity nd'" "vn_index cn = of_nat (vn_child_cnt nd)"
    "vn_name nd' = vn_name nd" "vn_type nd' = vn_type nd" "vn_parent nd' = vn_parent nd" "vn_index nd' = vn_index nd"
    "vs_nodes s new = None" "p \<noteq> new" "kids cn = []" "vn_child_cnt cn = 0" "vn_child_capacity cn = 0" "vn_parent cn = p"
proof -
  obtain nd nd' where n: "vs_nodes s p = Some nd" "vs_nodes s' = (vs_nodes s)(p \<mapsto> nd', new \<mapsto> cn)"
    "kids nd' = kids nd @ [new]" "vn_children nd' \<noteq> None" "vn_child_cnt nd' = vn_child_cnt nd + 1"
    "vn_child_cnt nd' \<le> vn_child_capacity nd'" "vn_index cn = of_nat (vn_child_cnt nd)"
    "vn_name nd' = vn_name nd" "vn_type nd' = vn_type nd" "vn_parent nd' = vn_parent nd" "vn_index nd' = vn_index nd"
    using assms unfolding grown_def by blast
  moreover have c: "vs_nodes s new = None" "kids cn = []" "vn_child_cnt cn = 0" "vn_child_capacity cn = 0" "vn_parent cn = p"
    using assms by (simp_all add: grown_def kids_def)
  moreover have "p \<noteq> new" using n(1) c(1) by auto
  ultimately show ?thesis by (intro that)
qed

lemma grown_name:
  assumes "grown s s' p new cn"
  shows "node_name s' c = (if c = new then vn_name cn else node_name s c)"
  using assms by (elim grownE) (simp add: node_name_def)

lemma child_mem:
  assumes ok: "vfs_ok s" and c: "child s n name = Some c"
  shows "vs_nodes s c \<noteq> None \<and> node_name s c = name"
proof -
  obtain nd where nd: "vs_nodes s n = Some nd" and f: "List.find (\<lambda>c. node_name s c = name) (kids nd) = Some c"
    using c by (auto simp: child_def split: option.splits)
  have "node_ok s n nd" using ok nd by (simp add: vfs_ok_def)
  moreover have "c \<in> set (kids nd)" "node_name s c = name"
    using f by (auto simp: find_Some_iff)
  ultimately show ?thesis using node_ok_child by fastforce
qed

lemma find_cong: "(\<And>c. c \<in> set cs \<Longrightarrow> P c = Q c) \<Longrightarrow> List.find P cs = List.find Q cs"
  by (induction cs) auto

lemma find_append: "List.find P (xs @ ys) = (case List.find P xs of None \<Rightarrow> List.find P ys | Some x \<Rightarrow> Some x)"
  by (induction xs) auto

lemma grown_child:
  assumes ok: "vfs_ok s" and g: "grown s s' p new cn" and fresh: "child s p (vn_name cn) = None"
  shows "child s' n name = (if n = p \<and> name = vn_name cn then Some new else if n = new then None else child s n name)"
  using g
proof (cases rule: grownE)
  case (1 nd nd')
  have old: "List.find (\<lambda>c. node_name s' c = name) (kids m) = List.find (\<lambda>c. node_name s c = name) (kids m)"
    if "vs_nodes s k = Some m" for k m
  proof (rule find_cong)
    fix c assume "c \<in> set (kids m)"
    then have "c \<noteq> new" using ok that node_ok_child [of s k m c] 1 by (auto simp: vfs_ok_def)
    then show "(node_name s' c = name) = (node_name s c = name)" by (simp add: grown_name [OF g])
  qed
  show ?thesis
  proof (cases "n = p")
    case True
    have "child s' p name = (case child s p name of None \<Rightarrow> if name = vn_name cn then Some new else None | Some x \<Rightarrow> Some x)"
    proof -
      have "List.find (\<lambda>c. node_name s' c = name) (kids nd') =
          (case List.find (\<lambda>c. node_name s c = name) (kids nd) of
             None \<Rightarrow> if name = vn_name cn then Some new else None | Some x \<Rightarrow> Some x)"
        using old [OF 1(1)] grown_name [OF g, of new] unfolding 1(3) find_append
        by (auto split: option.splits)
      then show ?thesis using 1(1,2,13) by (simp add: child_def)
    qed
    then show ?thesis using True fresh 1 by (auto split: option.splits)
  next
    case False
    then show ?thesis using 1 old by (auto simp: child_def split: option.splits)
  qed
qed

lemma grown_ok:
  assumes ok: "vfs_ok s" and g: "grown s s' p new cn" and fresh: "child s p (vn_name cn) = None"
  shows "vfs_ok s'"
  using g
proof (cases rule: grownE)
  case (1 nd nd')
  have root: "vs_root s' = vs_root s" using g by (simp add: grown_def)
  have keeps: "\<exists>cd'. vs_nodes s' c = Some cd' \<and> vn_parent cd' = vn_parent cd \<and> vn_index cd' = vn_index cd"
    if "vs_nodes s c = Some cd" for c cd
    using that 1 by (cases "c = p") auto
  have old: "node_ok s' n m" if m: "vs_nodes s n = Some m" for n m
  proof -
    have mok: "node_ok s n m" using ok m by (simp add: vfs_ok_def)
    have "map (node_name s') (kids m) = map (node_name s) (kids m)"
      using node_ok_child [OF mok] 1(12) by (fastforce simp: grown_name [OF g])
    then show ?thesis
      using mok keeps unfolding node_ok_def by metis
  qed
  have "node_ok s' n m" if "vs_nodes s' n = Some m" for n m
  proof -
    consider "n = new" | "n = p" | "n \<noteq> new" "n \<noteq> p" by blast
    then show ?thesis
    proof cases
      case a: 1
      then show ?thesis using that 1 by (auto simp: node_ok_def)
    next
      case 2
      then have m: "m = nd'" using that 1 by simp
      note o = old [OF 1(1)]
      have "vn_name cn \<notin> set (map (node_name s') (kids nd))"
      proof -
        have "node_ok s p nd" using ok 1(1) by (simp add: vfs_ok_def)
        then have "new \<notin> set (kids nd)" using node_ok_child 1(12) by fastforce
        moreover have "node_name s c \<noteq> vn_name cn" if "c \<in> set (kids nd)" for c
          using fresh 1(1) that by (auto simp: child_def find_None_iff)
        ultimately show ?thesis by (fastforce simp: grown_name [OF g])
      qed
      then have "distinct (map (node_name s') (kids nd'))"
        using node_okD(5) [OF o] 1 by (simp add: grown_name [OF g])
      moreover have "\<exists>cd. vs_nodes s' (kids nd' ! i) = Some cd \<and> vn_parent cd = p \<and> vn_index cd = of_nat i"
        if "i < vn_child_cnt nd'" for i
        using that node_okD(1) [OF o] node_okD(4) [OF o, of i] 1 by (cases "i = vn_child_cnt nd") (auto simp: nth_append)
      ultimately show ?thesis
        using 1 node_okD(1) [OF o] unfolding m 2 node_ok_def by simp
    next
      case 3
      then show ?thesis using that old 1 by simp
    qed
  qed
  then show ?thesis
    using ok keeps by (fastforce simp: vfs_ok_def root)
qed

lemma grown_mount:
  assumes "grown s s' p new cn"
  shows "is_mount s' c = (if c = new then vn_type cn AND NODE_TYPE_MOUNTPOINT \<noteq> 0 else is_mount s c)"
  using assms by (elim grownE) (simp add: is_mount_def)

text \<open>Every path that led somewhere still leads there; a path that newly leads somewhere leads to the
  new node.\<close>

lemma grown_walk:
  assumes ok: "vfs_ok s" and g: "grown s s' p new cn" and fresh: "child s p (vn_name cn) = None"
    and n: "vs_nodes s n \<noteq> None"
  shows "(case walk s n ms of
      Some r \<Rightarrow> walk s' n ms = Some r
    | None \<Rightarrow> (\<forall>r. walk s' n ms = Some r \<longrightarrow> fst r = new))"
  using n
proof (induction ms arbitrary: n)
  case (Cons m ms)
  have "vs_nodes s new = None" using g by (simp add: grown_def)
  then have nn: "n \<noteq> new" using Cons.prems by auto
  show ?case
  proof (cases "child s n m")
    case (Some c)
    then have c: "vs_nodes s c \<noteq> None" using child_mem [OF ok] by blast
    then have "c \<noteq> new" using \<open>vs_nodes s new = None\<close> by auto
    moreover have "child s' n m = Some c"
      using grown_child [OF ok g fresh, of n m] Some nn fresh by auto
    ultimately show ?thesis
      using Cons.IH [OF c] Some grown_mount [OF g, of c] by (auto split: option.splits)
  next
    case None
    show ?thesis
    proof (cases "n = p \<and> m = vn_name cn")
      case True
      then have "child s' n m = Some new" using grown_child [OF ok g fresh, of n m] by simp
      moreover have "walk s' new ms = (case ms of [] \<Rightarrow> Some (new, None) | _ \<Rightarrow> None)"
        using grown_child [OF ok g fresh, of new] g by (cases ms) (auto simp: grown_def)
      ultimately show ?thesis using None by (auto split: list.splits if_splits)
    next
      case False
      then have "child s' n m = None" using grown_child [OF ok g fresh, of n m] None nn by auto
      then show ?thesis using None by simp
    qed
  qed
qed simp

lemma walk_append:
  "walk s n (xs @ ys) = (case walk s n xs of
     None \<Rightarrow> None | Some (c, None) \<Rightarrow> walk s c ys | Some (c, Some rest) \<Rightarrow> Some (c, Some (rest @ ys)))"
  by (induction xs arbitrary: n) (auto split: option.splits)

text \<open>When the operation returns at all, it has added the node.\<close>

lemma add_and_set_Inr:
  assumes ok: "vfs_ok s" and nd: "vs_nodes s p = Some nd" and new: "vs_nodes s new = None"
    and r: "add_and_set s p name ty perm drv arr new = Inr (hr, n, s')"
  shows "hr = S_OK \<and> n = new \<and> child s p name = None \<and> grown s s' p new (new_node p nd name ty perm drv)
    \<and> vs_drivers s' = vs_drivers s"
proof -
  have pok: "node_ok s p nd" using ok nd by (simp add: vfs_ok_def)
  have c: "child s p name = None"
  proof (rule ccontr)
    assume "child s p name \<noteq> None"
    then obtain i c where "vfsnode_find_child s p name = Inr (Some (i, c))"
      using vfsnode_find_child_ok [OF ok nd, of name] by (auto split: option.splits)
    then show False using r by (simp add: add_and_set_def vfsnode_add_child_def)
  qed
  then have f: "vfsnode_find_child s p name = Inr None"
    using vfsnode_find_child_ok [OF ok nd, of name] by simp
  have "arr \<noteq> 0 \<or> vn_child_cnt nd < vn_child_capacity nd" "new \<noteq> 0" "length name < 256"
    using r f nd by (auto simp: add_and_set_def vfsnode_add_child_def derefN_def Let_def split: if_splits)
  then obtain s2 where "add_and_set s p name ty perm drv arr new = Inr (S_OK, new, s2)"
    "grown s s2 p new (new_node p nd name ty perm drv)" "vs_drivers s2 = vs_drivers s"
    using add_and_set_ok [OF ok nd _ _ new _ c] by blast
  then show ?thesis using r c by auto
qed

lemma add_and_set_vfs_ok:
  assumes "vfs_ok s" "vs_nodes s p \<noteq> None" "vs_nodes s new = None"
    "add_and_set s p name ty perm drv arr new = Inr (hr, n, s')"
  shows "vfs_ok s' \<and> hr = S_OK \<and> n = new"
proof -
  obtain nd where nd: "vs_nodes s p = Some nd" using assms(2) by auto
  show ?thesis
    using add_and_set_Inr [OF assms(1) nd assms(3,4)] grown_ok [OF assms(1), of s' p new]
    by (auto simp: new_node_def)
qed

text \<open>Changes that leave the tree alone.\<close>

definition same_shape :: "vfs_node \<Rightarrow> vfs_node \<Rightarrow> bool" where
  "same_shape nd nd' \<longleftrightarrow> vn_children nd' = vn_children nd \<and> vn_child_cnt nd' = vn_child_cnt nd
     \<and> vn_child_capacity nd' = vn_child_capacity nd \<and> vn_name nd' = vn_name nd \<and> vn_type nd' = vn_type nd
     \<and> vn_parent nd' = vn_parent nd \<and> vn_index nd' = vn_index nd"

lemma put_shape_name: "vs_nodes s n = Some nd \<Longrightarrow> same_shape nd nd' \<Longrightarrow> node_name (put_node s n nd') = node_name s"
  by (auto simp: node_name_def put_node_def same_shape_def fun_eq_iff)

lemma put_shape_ok:
  assumes ok: "vfs_ok s" and nd: "vs_nodes s n = Some nd" and sh: "same_shape nd nd'"
  shows "vfs_ok (put_node s n nd')"
proof -
  have keeps: "\<exists>cd'. vs_nodes (put_node s n nd') c = Some cd' \<and> vn_parent cd' = vn_parent cd \<and> vn_index cd' = vn_index cd"
    if "vs_nodes s c = Some cd" for c cd
    using that nd sh by (cases "c = n") (auto simp: put_node_def same_shape_def)
  have "node_ok (put_node s n nd') k m" if m: "vs_nodes (put_node s n nd') k = Some m" for k m
  proof -
    obtain m0 where m0: "vs_nodes s k = Some m0" "same_shape m0 m"
      using m nd sh by (cases "k = n") (auto simp: put_node_def same_shape_def)
    then have mok: "node_ok s k m0" and "kids m = kids m0"
      using ok by (simp_all add: vfs_ok_def same_shape_def kids_def)
    then show ?thesis
      using m0(2) keeps unfolding node_ok_def put_shape_name [OF nd sh] same_shape_def by metis
  qed
  then show ?thesis
    using ok keeps by (fastforce simp: vfs_ok_def put_node_def)
qed

section \<open>Parsing any path\<close>

lemma parse_loop_node:
  assumes "vfs_ok s" "vs_nodes s cur \<noteq> None" "parse_loop s url b e seen cur cs = Inr (S_OK, n, ext)"
  shows "vs_nodes s n \<noteq> None \<and> (ext = None \<longrightarrow> n = cur \<or> \<not> is_mount s n)"
  using assms
proof (induction cs arbitrary: seen cur)
  case (Cons c cs)
  obtain nd where nd: "vs_nodes s cur = Some nd" using Cons.prems(2) by auto
  show ?case
  proof (cases "child s cur (comp_at url c)")
    case None
    then show ?thesis
      using Cons.prems(3) vfsnode_find_child_ok [OF Cons.prems(1) nd, of "comp_at url c"]
      by (auto simp: Let_def split: if_splits)
  next
    case (Some k)
    then obtain i cd where f: "vfsnode_find_child s cur (comp_at url c) = Inr (Some (i, k))" "vs_nodes s k = Some cd"
      using vfsnode_find_child_ok [OF Cons.prems(1) nd, of "comp_at url c"] by auto
    show ?thesis
    proof (cases "is_mount s k")
      case True
      then show ?thesis
        using Cons.prems(3) f by (auto simp: Let_def derefN_def is_mount_def split: if_splits)
    next
      case False
      then have "parse_loop s url b e (seen @ [c]) k cs = Inr (S_OK, n, ext)"
        using Cons.prems(3) f by (auto simp: Let_def derefN_def is_mount_def split: if_splits)
      from Cons.IH [OF Cons.prems(1) _ this] False f show ?thesis by auto
    qed
  qed
qed auto

lemma parse_loop_status:
  "parse_loop s url b e seen cur cs = Inr (hr, n, ext) \<Longrightarrow> hr = S_OK \<or> hr = E_NOTFOUND \<and> ext = None"
  by (induction cs arbitrary: seen cur) (auto simp: Let_def split: if_splits option.splits)

lemma parse_status:
  "vfs_parse_url s url root b e = Inr (hr, n, ext) \<Longrightarrow> hr = S_OK \<or> \<not> SUCCEEDED hr \<and> ext = None"
  using parse_loop_status by (fastforce simp: vfs_parse_url_def split: if_splits)

lemma parse_node:
  assumes "vfs_ok s" "vfs_parse_url s url (vs_root s) b e = Inr (hr, n, ext)" "SUCCEEDED hr"
  shows "vs_nodes s n \<noteq> None \<and> (ext = None \<longrightarrow> n = vs_root s \<or> \<not> is_mount s n)"
proof -
  have hr: "hr = S_OK" using parse_status [OF assms(2)] assms(3) by blast
  have root: "vs_nodes s (vs_root s) \<noteq> None" using assms(1) by (simp add: vfs_ok_def)
  show ?thesis
    using assms(2) root parse_loop_node [OF assms(1) root] unfolding hr
    by (auto simp: vfs_parse_url_def split: if_splits)
qed

text \<open>A path of names: the walk decides.\<close>

definition path_ok :: "bytes list \<Rightarrow> bool" where
  "path_ok ns \<longleftrightarrow> names_ok ns \<and> [] \<notin> set ns"

lemma path_okD: "path_ok (xs @ ys) \<Longrightarrow> path_ok xs" "path_ok (xs @ ys) \<Longrightarrow> path_ok ys"
  by (auto simp: path_ok_def names_ok_def)

lemma join_eq_Nil [simp]: "join ns = [] \<longleftrightarrow> ns = []"
  by (cases ns) simp_all

lemma join_root: "path_ok ns \<Longrightarrow> join ns \<noteq> [VFS_PATH_DELIMITER]"
  by (cases ns) (auto simp: path_ok_def)

lemma decompose_starts: "names_ok ns \<Longrightarrow> url_decompose (join ns) VFS_PATH_DELIMITER = starts 0 ns"
  using decompose_join [of ns 0] by (simp add: map_idI)

lemma parse_path:
  assumes "vfs_ok s" and "path_ok ns" and "buf_fits b (join ns)" and "buf_fits e (join ns)"
  shows "vfs_parse_url s (join ns) (vs_root s) b e = Inr (case walk s (vs_root s) ns of
           None \<Rightarrow> (E_NOTFOUND, 0, None)
         | Some (c, None) \<Rightarrow> (S_OK, c, None)
         | Some (c, Some rest) \<Rightarrow> (S_OK, c, Some (buf_text b (join (take (length ns - length rest) ns)), buf_text e (join rest))))"
proof (cases "ns = []")
  case True
  then show ?thesis by (simp add: vfs_parse_url_def)
next
  case False
  then have "join ns ! 0 = VFS_PATH_DELIMITER" by (cases ns) simp_all
  moreover have root: "vs_nodes s (vs_root s) \<noteq> None" using assms(1) by (simp add: vfs_ok_def)
  have nok: "names_ok ns" using assms(2) by (simp add: path_ok_def)
  have "parse_loop s (join ns) b e [] (vs_root s) (starts 0 ns) = Inr (case walk s (vs_root s) ns of
           None \<Rightarrow> (E_NOTFOUND, 0, None)
         | Some (c, None) \<Rightarrow> (S_OK, c, None)
         | Some (c, Some rest) \<Rightarrow> (S_OK, c, Some (buf_text b (join (take (length ns - length rest) ns)), buf_text e (join rest))))"
    using parse_loop_walk [OF assms(1) root, of "[]" ns b e, unfolded append_Nil] assms(3,4) nok by simp
  ultimately show ?thesis
    using False join_root [OF assms(2)] decompose_starts [OF nok] by (simp add: vfs_parse_url_def)
qed

lemma last_offset_append: "c \<notin> set b \<Longrightarrow> last_offset c (d @ c # b) = Some (length d)"
  by (induction d) (simp_all add: last_offset_None [symmetric])

lemma split_path_join:
  assumes "path_ok (ns @ [n])" and "length (join (ns @ [n])) < cap"
  shows "split_path cap (join (ns @ [n])) = Inr (if ns = [] then [VFS_PATH_DELIMITER] else join ns, n)"
proof -
  have n: "VFS_PATH_DELIMITER \<notin> set n" "n \<noteq> []"
    using assms(1) by (auto simp: path_ok_def names_ok_def)
  have "last_offset VFS_PATH_DELIMITER (join (ns @ [n])) = Some (length (join ns))"
    using last_offset_append [OF n(1), of "join ns"] by (simp add: join_append)
  then have "url_get_basename (join (ns @ [n])) = n"
    "url_get_dirname (join (ns @ [n])) = (if ns = [] then [VFS_PATH_DELIMITER] else join ns)"
    by (auto simp: url_get_basename_def url_get_dirname_def join_append VFS_PATH_DELIMITER_def)
  then show ?thesis
    using assms(2) n(2) by (auto simp: split_path_def join_append Suc_lessD)
qed

lemma parse_dir:
  assumes "vfs_ok s" and "path_ok ns"
  shows "vfs_parse_url s (if ns = [] then [VFS_PATH_DELIMITER] else join ns) (vs_root s) None None
    = vfs_parse_url s (join ns) (vs_root s) None None"
  by (simp add: vfs_parse_url_def)

lemma walk_mount: "walk s n ns = Some (m, Some rest) \<Longrightarrow> is_mount s m"
  by (induction ns arbitrary: n) (auto split: option.splits if_splits)

text \<open>A node added below a mount point changes no path.\<close>

lemma walk_behind_mount:
  assumes ok: "vfs_ok s" and g: "grown s s' p new cn" and fresh: "child s p (vn_name cn) = None" and p: "is_mount s p"
    and n: "vs_nodes s n \<noteq> None" "n \<noteq> p"
  shows "walk s' n ms = walk s n ms"
  using n
proof (induction ms arbitrary: n)
  case (Cons m ms)
  have "vs_nodes s new = None" using g by (simp add: grown_def)
  then have same: "child s' n m = child s n m"
    using grown_child [OF ok g fresh, of n m] Cons.prems by auto
  show ?case
  proof (cases "child s n m")
    case (Some c)
    then have c: "vs_nodes s c \<noteq> None" using child_mem [OF ok] by blast
    then have "is_mount s' c = is_mount s c" using grown_mount [OF g, of c] \<open>vs_nodes s new = None\<close> by auto
    then show ?thesis using Some same Cons.IH [OF c] p by auto
  qed (simp add: same)
qed simp

section \<open>Properties\<close>

text \<open>C33. The path parser is the walk along the names of the path: it reports \<^verbatim>\<open>E_NOTFOUND\<close> when a name
  is missing and the node otherwise; at the first mount point it stops there, and splits the path into the
  path of the mount point and the path that its driver gets.\<close>

theorem vfs_parse_url_walks:
  assumes "vfs_ok s" and "path_ok ns" and "length (join ns) < 1024"
  shows "vfs_parse_url s (join ns) (vs_root s) (Some 1024) (Some 1024) = Inr (case walk s (vs_root s) ns of
           None \<Rightarrow> (E_NOTFOUND, 0, None)
         | Some (c, None) \<Rightarrow> (S_OK, c, None)
         | Some (c, Some rest) \<Rightarrow> (S_OK, c, Some (join (take (length ns - length rest) ns), join rest)))"
  using parse_path [OF assms(1,2), of "Some 1024" "Some 1024"] assms(3)
  by (simp add: buf_fits_def buf_text_def split: option.split)

text \<open>\<^verbatim>\<open>vfs_create\<close> of a new name in an existing directory makes the path lead to a new, empty file with
  the permissions asked for. Every path that led to a node still leads to the same node, and no path other
  than those to the new file has become valid. The tree stays well formed.\<close>

theorem vfs_create_resolves:
  assumes ok: "vfs_ok s" and path: "path_ok (ns @ [n])" and short: "length (join (ns @ [n])) < 255"
    and dir: "walk s (vs_root s) ns = Some (p, None)" and fresh: "child s p n = None"
    and mem: "arr \<noteq> 0" "new \<noteq> 0" "vs_nodes s new = None"
  shows "\<exists>s' nd. vfs_create s (join (ns @ [n])) perm arr new = Inr (Served (S_OK, s')) \<and> vfs_ok s'
    \<and> vfs_parse_url s' (join (ns @ [n])) (vs_root s') None None = Inr (S_OK, new, None)
    \<and> vs_nodes s' new = Some nd \<and> vn_type nd = NODE_TYPE_FILE \<and> vn_permission nd = perm \<and> vn_size nd = 0
    \<and> (\<forall>ms c rest. walk s (vs_root s) ms = Some (c, rest) \<longrightarrow> walk s' (vs_root s') ms = Some (c, rest))
    \<and> (\<forall>ms c rest. walk s' (vs_root s') ms = Some (c, rest) \<longrightarrow> c = new \<or> walk s (vs_root s) ms = Some (c, rest))"
proof -
  have root: "vs_nodes s (vs_root s) \<noteq> None" using ok by (simp add: vfs_ok_def)
  have ns: "path_ok ns" using path by (rule path_okD)
  have dirp: "vfs_parse_url s (join ns) (vs_root s) None None = Inr (S_OK, p, None)"
    using parse_path [OF ok ns, of None None] dir by (simp add: buf_fits_def)
  then obtain nd where nd: "vs_nodes s p = Some nd"
    using parse_node [OF ok, of "join ns"] by fastforce
  have "walk s (vs_root s) (ns @ [n]) = None" using dir fresh by (simp add: walk_append)
  then have first: "vfs_parse_url s (join (ns @ [n])) (vs_root s) None (Some 1024) = Inr (E_NOTFOUND, 0, None)"
    using parse_path [OF ok path, of None "Some 1024"] short by (simp add: buf_fits_def)
  have len: "length n < 256" using short by (simp add: join_append)
  let ?new = "new_node p nd n NODE_TYPE_FILE perm (vs_self s)"
  obtain s' where add: "add_and_set s p n NODE_TYPE_FILE perm (vs_self s) arr new = Inr (S_OK, new, s')"
    and g: "grown s s' p new ?new"
    using add_and_set_ok [OF ok nd _ mem(2,3) len fresh] mem(1) by blast
  have fr: "child s p (vn_name ?new) = None" using fresh by (simp add: new_node_def)
  have ok': "vfs_ok s'" by (rule grown_ok [OF ok g fr])
  have r': "vs_root s' = vs_root s" using g by (simp add: grown_def)
  have cr: "vfs_create s (join (ns @ [n])) perm arr new = Inr (Served (S_OK, s'))"
    using first split_path_join [OF path, of VFS_MAX_DIRNAME_LENGTH] short dirp add parse_dir [OF ok ns]
    by (simp add: vfs_create_def VFS_MAX_DIRNAME_LENGTH_def del: FAILED_iff) (simp add: FAILED_def)
  have old: "walk s' (vs_root s') ms = Some (c, rest)" if "walk s (vs_root s) ms = Some (c, rest)" for ms c rest
    using grown_walk [OF ok g fr root, of ms] that by (simp add: r')
  have rev: "c = new \<or> walk s (vs_root s) ms = Some (c, rest)" if "walk s' (vs_root s') ms = Some (c, rest)" for ms c rest
    using grown_walk [OF ok g fr root, of ms] that by (cases "walk s (vs_root s) ms") (auto simp: r')
  have "child s' p n = Some new" using grown_child [OF ok g fr, of p n] by (simp add: new_node_def)
  moreover have "\<not> is_mount s' new"
    using grown_mount [OF g, of new] by (simp add: new_node_def node_types zero_node_def)
  ultimately have "walk s' (vs_root s') (ns @ [n]) = Some (new, None)"
    using old [OF dir] by (simp add: walk_append)
  then have "vfs_parse_url s' (join (ns @ [n])) (vs_root s') None None = Inr (S_OK, new, None)"
    using parse_path [OF ok' path, of None None] by (simp add: buf_fits_def)
  moreover have "vs_nodes s' new = Some ?new" using g by (elim grownE) simp
  ultimately show ?thesis
    using cr ok' old rev by (intro exI [of _ s'] exI [of _ ?new]) (simp add: new_node_def zero_node_def)
qed

text \<open>\<^verbatim>\<open>vfs_unmount_fs\<close> never unmounts anything: the parser reports every mount point as crossed, which
  the routine takes for a path inside the mounted file system, and any other node is not a mount
  point.\<close>

theorem vfs_unmount_fs_never_succeeds:
  assumes "vfs_ok s" and "\<not> is_mount s (vs_root s)" and "vfs_unmount_fs fin s path = Inr (hr, s')"
  shows "FAILED hr \<and> s' = s"
proof -
  obtain h n ext where p: "vfs_parse_url s path (vs_root s) None None = Inr (h, n, ext)"
    using assms(3) by (auto simp: vfs_unmount_fs_def)
  show ?thesis
  proof (cases "FAILED h \<or> ext \<noteq> None")
    case True
    then show ?thesis using assms(3) p by (auto simp: vfs_unmount_fs_def)
  next
    case False
    then have "vs_nodes s n \<noteq> None" "\<not> is_mount s n"
      using parse_node [OF assms(1) p] assms(2) by auto
    then show ?thesis
      using assms(3) p False by (auto simp: vfs_unmount_fs_def derefN_def is_mount_def)
  qed
qed

text \<open>\<^verbatim>\<open>vfs_mkdir\<close> below a mount point reports success but makes the directory a child of the mount point's
  own node. No path leads there: every path is resolved as before, by the mounted driver.\<close>

theorem vfs_mkdir_behind_mount_lost:
  assumes ok: "vfs_ok s" and path: "path_ok (ns @ [n])" and short: "length (join (ns @ [n])) < 1024"
    and dir: "walk s (vs_root s) ns = Some (m, Some rest)" and fresh: "child s m n = None"
    and root: "\<not> is_mount s (vs_root s)" and mem: "arr \<noteq> 0" "new \<noteq> 0" "vs_nodes s new = None"
  shows "\<exists>s'. vfs_mkdir s (join (ns @ [n])) mode arr new = Inr (S_OK, s') \<and> child s' m n = Some new
    \<and> (\<forall>ms. walk s' (vs_root s') ms = walk s (vs_root s) ms)"
proof -
  have ns: "path_ok ns" using path by (rule path_okD)
  have len: "length n < 256"
    using path by (auto simp: path_ok_def names_ok_def VFS_MAX_FILENAME_LENGTH_def)
  have dirp: "vfs_parse_url s (join ns) (vs_root s) None None = Inr (S_OK, m, Some ([], []))"
    using parse_path [OF ok ns, of None None] dir by (simp add: buf_fits_def buf_text_def)
  then obtain nd where nd: "vs_nodes s m = Some nd"
    using parse_node [OF ok, of "join ns"] by fastforce
  have mnt: "is_mount s m" using walk_mount [OF dir] .
  let ?new = "new_node m nd n NODE_TYPE_DIRECTORY mode (vs_self s)"
  obtain s' where add: "add_and_set s m n NODE_TYPE_DIRECTORY mode (vs_self s) arr new = Inr (S_OK, new, s')"
    and g: "grown s s' m new ?new"
    using add_and_set_ok [OF ok nd _ mem(2,3) len fresh] mem(1) by blast
  have fr: "child s m (vn_name ?new) = None" using fresh by (simp add: new_node_def)
  have mk: "vfs_mkdir s (join (ns @ [n])) mode arr new = Inr (S_OK, s')"
    using split_path_join [OF path short] dirp add parse_dir [OF ok ns] by (simp add: vfs_mkdir_def)
  have "walk s' (vs_root s') ms = walk s (vs_root s) ms" for ms
    using walk_behind_mount [OF ok g fr mnt, of "vs_root s" ms] root mnt ok g
    by (auto simp: grown_def vfs_ok_def)
  moreover have "child s' m n = Some new" using grown_child [OF ok g fr, of m n] by (simp add: new_node_def)
  ultimately show ?thesis using mk by blast
qed

section \<open>An example tree\<close>

text \<open>The root with a directory \<^verbatim>\<open>a\<close> and a mount point \<^verbatim>\<open>m\<close>.\<close>

definition example_vfs :: vfs where
  "example_vfs = \<lparr> vs_root = 1, vs_self = 0x100,
     vs_nodes = [1 \<mapsto> zero_node\<lparr>vn_type := NODE_TYPE_DIRECTORY, vn_children := Some [2, 3], vn_child_cnt := 2,
                      vn_child_capacity := 5\<rparr>,
       2 \<mapsto> zero_node\<lparr>vn_name := [97], vn_type := NODE_TYPE_DIRECTORY, vn_parent := 1\<rparr>,
       3 \<mapsto> zero_node\<lparr>vn_name := [109], vn_type := NODE_TYPE_MOUNTPOINT, vn_parent := 1, vn_index := 1\<rparr>],
     vs_drivers = Map.empty, vs_streams = Map.empty \<rparr>"

lemma example_vfs_ok: "vfs_ok example_vfs"
proof -
  have two: "i < 2 \<longleftrightarrow> i = 0 \<or> i = 1" for i :: nat by auto
  show ?thesis
    by (auto simp: vfs_ok_def node_ok_def example_vfs_def kids_def zero_node_def node_name_def two split: if_splits)
qed

lemma example_vfs_sel:
  "vs_root example_vfs = 1" "vs_nodes example_vfs 9 = None" "\<not> is_mount example_vfs 1" "\<not> is_mount example_vfs 2"
  "is_mount example_vfs 3" "child example_vfs 1 [97] = Some 2" "child example_vfs 1 [109] = Some 3"
  "child example_vfs 2 [98] = None" "child example_vfs 3 [98] = None"
  by (simp_all add: example_vfs_def is_mount_def child_def zero_node_def node_types kids_def node_name_def)

lemma example_paths:
  "path_ok ([[97]] @ [[98]])" "path_ok ([[109]] @ [[98]])" "length (join ([[97]] @ [[98]])) = 4"
  "length (join ([[109]] @ [[98]])) = 4"
  by (simp_all add: path_ok_def names_ok_def VFS_PATH_DELIMITER_def VFS_MAX_FILENAME_LENGTH_def)

lemma vfs_parse_url_walks_witness:
  "vfs_parse_url example_vfs (join ([[109]] @ [[98]])) 1 (Some 1024) (Some 1024)
     = Inr (S_OK, 3, Some (join [[109]], join [[98]]))"
  using vfs_parse_url_walks [OF example_vfs_ok example_paths(2)] by (simp add: example_vfs_sel example_paths)

lemma vfs_create_resolves_witness:
  "\<exists>s'. vfs_create example_vfs (join ([[97]] @ [[98]])) 0xFFFF 5 9 = Inr (Served (S_OK, s')) \<and> vfs_ok s'
     \<and> vfs_parse_url s' (join ([[97]] @ [[98]])) (vs_root s') None None = Inr (S_OK, 9, None)"
proof -
  have "walk example_vfs (vs_root example_vfs) [[97]] = Some (2, None)" by (simp add: example_vfs_sel)
  moreover have "length (join ([[97]] @ [[98]])) < 255" "(5 :: u32) \<noteq> 0" "(9 :: u32) \<noteq> 0"
    by (simp_all add: example_paths)
  ultimately show ?thesis
    using vfs_create_resolves [OF example_vfs_ok example_paths(1), of 2 5 9 "0xFFFF"] example_vfs_sel by blast
qed

lemma vfs_unmount_fs_never_succeeds_witness:
  "vfs_unmount_fs S_OK example_vfs [47, 109] = Inr (E_INVALIDARG, example_vfs) \<and> FAILED E_INVALIDARG"
proof -
  have "vfs_unmount_fs S_OK example_vfs [47, 109] = Inr (E_INVALIDARG, example_vfs)" by code_simp
  moreover have "\<not> is_mount example_vfs (vs_root example_vfs)" by (simp add: example_vfs_sel)
  ultimately show ?thesis using vfs_unmount_fs_never_succeeds [OF example_vfs_ok] by blast
qed

lemma vfs_mkdir_behind_mount_lost_witness:
  "\<exists>s'. vfs_mkdir example_vfs (join ([[109]] @ [[98]])) 0xFFFF 5 9 = Inr (S_OK, s') \<and> child s' 3 [98] = Some 9
     \<and> (\<forall>ms. walk s' (vs_root s') ms = walk example_vfs (vs_root example_vfs) ms)"
proof -
  have "walk example_vfs (vs_root example_vfs) [[109]] = Some (3, Some [])" by (simp add: example_vfs_sel)
  moreover have "length (join ([[109]] @ [[98]])) < 1024" "(5 :: u32) \<noteq> 0" "(9 :: u32) \<noteq> 0"
    "\<not> is_mount example_vfs (vs_root example_vfs)"
    by (simp_all add: example_paths example_vfs_sel)
  ultimately show ?thesis
    using vfs_mkdir_behind_mount_lost [OF example_vfs_ok example_paths(2), of 3 "[]" 5 9 "0xFFFF"] example_vfs_sel
    by blast
qed

end
