(* ===== verification/VfsFile.thy ===== *)
theory VfsFile
  imports Vfs
begin

unbundle bit_operations_syntax

text \<open>
  Model of \<^verbatim>\<open>vfs.c\<close>, the streams: directory streams, open files and devices, reading, writing and
  seeking, and the dispatch of \<^verbatim>\<open>kstdio.c\<close> to the functions of a stream. A routine of a device driver
  is a parameter.
\<close>

section \<open>Constants\<close>

definition KSTREAM_ORIGIN_CURRENT :: u8 where "KSTREAM_ORIGIN_CURRENT = 0x00"
definition KSTREAM_ORIGIN_BEGINNING :: u8 where "KSTREAM_ORIGIN_BEGINNING = 0x01"
definition KSTREAM_ORIGIN_END :: u8 where "KSTREAM_ORIGIN_END = 0x02"

lemmas origins = KSTREAM_ORIGIN_CURRENT_def KSTREAM_ORIGIN_BEGINNING_def KSTREAM_ORIGIN_END_def

section \<open>Directory streams\<close>

record dir_stream =
  ds_len :: nat
  ds_pos :: nat
  ds_names :: "bytes list"
  ds_info :: "(u32 \<times> u32) list"
  ds_dirname :: bytes

text \<open>The loop that copies name, size and type of each child; a name has to fit its copy.\<close>

fun dir_entries :: "vfs \<Rightarrow> u32 list \<Rightarrow> (bytes \<times> u32 \<times> u32) list run" where
  "dir_entries s [] = Inr []"
| "dir_entries s (c # cs) =
     bindR (derefN s c) (\<lambda>nd.
     if length (vn_name nd) \<ge> VFS_MAX_DIRNAME_LENGTH then Inl BadAccess
     else bindR (dir_entries s cs) (\<lambda>es. Inr ((vn_name nd, ucast (vn_size nd), scast (vn_type nd)) # es)))"

text \<open>\<open>mem\<close> tells whether all the allocations succeed; a failed one is written through.\<close>

definition vfs_opendir :: "bool \<Rightarrow> vfs \<Rightarrow> bytes \<Rightarrow> (hresult \<times> dir_stream option) served run" where
  "vfs_opendir mem s dirname =
     bindR (vfs_parse_url s dirname (vs_root s) (Some 1024) (Some 1024)) (\<lambda>(hr, node, ext).
     if FAILED hr then Inr (Served (hr, None))
     else case ext of
       Some (_, ext_path) \<Rightarrow> pass_on s node fd_opendir ext_path
     | None \<Rightarrow>
         bindR (derefN s node) (\<lambda>nd.
         if vn_type nd AND NODE_TYPE_DIRECTORY = 0 then Inr (Served (E_INVALIDARG, None))
         else if \<not> mem \<or> length (vn_name nd) \<ge> VFS_MAX_DIRNAME_LENGTH then Inl BadAccess
         else
           bindR (child_entries nd) (\<lambda>cs.
           bindR (dir_entries s cs) (\<lambda>es.
           Inr (Served (S_OK, Some \<lparr> ds_len = vn_child_cnt nd, ds_pos = 0, ds_names = map fst es,
                                     ds_info = map snd es, ds_dirname = vn_name nd \<rparr>))))))"

definition vfs_readdir :: "dir_stream \<Rightarrow> (hresult \<times> (bytes \<times> u32 \<times> u32) option \<times> dir_stream) run" where
  "vfs_readdir d =
     (if \<not> ds_pos d \<le> ds_len d then Inl (Panic ''assert'')
      else if ds_pos d = ds_len d then Inr (E_ENDOFSTR, None, d)
      else if ds_pos d \<ge> length (ds_names d) \<or> ds_pos d \<ge> length (ds_info d) then Inl BadAccess
      else Inr (S_OK, Some (ds_names d ! ds_pos d, ds_info d ! ds_pos d), d\<lparr>ds_pos := ds_pos d + 1\<rparr>))"

definition vfs_rewinddir :: "dir_stream \<Rightarrow> hresult \<times> dir_stream" where
  "vfs_rewinddir d = (S_OK, d\<lparr>ds_pos := 0\<rparr>)"

text \<open>The caller's pointer is null afterwards.\<close>

definition vfs_closedir :: "dir_stream \<Rightarrow> hresult \<times> dir_stream option" where
  "vfs_closedir d = (S_OK, None)"

section \<open>File streams\<close>

definition derefS :: "vfs \<Rightarrow> u32 \<Rightarrow> k_stream run" where
  "derefS s p = (case vs_streams s p of None \<Rightarrow> Inl BadAccess | Some st \<Rightarrow> Inr st)"

definition put_stream :: "vfs \<Rightarrow> u32 \<Rightarrow> k_stream \<Rightarrow> vfs" where
  "put_stream s p st = s\<lparr>vs_streams := (vs_streams s)(p \<mapsto> st)\<rparr>"

definition content_bytes :: "vfs_node \<Rightarrow> bytes" where
  "content_bytes nd = (case vn_content nd of None \<Rightarrow> [] | Some b \<Rightarrow> b)"

text \<open>The result is the status, the caller's buffer and what \<^verbatim>\<open>*bytes_read\<close> is set to, if it is.\<close>

definition vfs_file_read :: "vfs \<Rightarrow> u32 \<Rightarrow> u32 \<Rightarrow> bytes \<Rightarrow> (hresult \<times> bytes \<times> u32 option \<times> vfs) run" where
  "vfs_file_read s str block_size out_buf =
     bindR (derefS s str) (\<lambda>st.
     if st_priv_data st = 0 then Inr (S_OK, out_buf, None, s)
     else if st_mode st AND FILE_OPEN_READ = 0 then Inr (E_FAIL, out_buf, Some 0, s)
     else
       bindR (derefN s (st_priv_data st)) (\<lambda>nd.
       let node_size = ucast (vn_size nd) :: u32 in
       if st_pos st > node_size then Inl (Panic ''File pos is beyond it's size.'')
       else
         let effective = (if st_pos st + block_size > node_size then node_size - st_pos st else block_size) in
         if effective = 0 then Inr (E_ENDOFSTR, out_buf, Some 0, s)
         else
           bindR (memcpyR out_buf 0 (content_bytes nd) (unat (st_pos st)) (unat effective)) (\<lambda>out_buf.
           Inr (S_OK, out_buf, Some effective, put_stream s str (st\<lparr>st_pos := st_pos st + effective\<rparr>)))))"

text \<open>A new block has the bytes \<open>junk\<close>; \<^verbatim>\<open>krealloc\<close> keeps what fits of the old block.\<close>

definition resized :: "(nat \<Rightarrow> u8) \<Rightarrow> nat \<Rightarrow> bytes \<Rightarrow> bytes" where
  "resized junk k b = take k b @ map junk [length b ..< k]"

text \<open>The three changes that a write makes to the node: the first content block, a larger block of 1.2
  times the need, and the bytes with the new size.\<close>

definition first_content :: "(nat \<Rightarrow> u8) \<Rightarrow> u32 \<Rightarrow> vfs_node \<Rightarrow> vfs_node" where
  "first_content junk block_size nd =
     (if vn_content_capacity nd = 0
      then nd\<lparr>vn_content := Some (resized junk (unat block_size) []), vn_content_capacity := block_size\<rparr>
      else nd)"

definition grow_content :: "(nat \<Rightarrow> u8) \<Rightarrow> u32 \<Rightarrow> vfs_node \<Rightarrow> vfs_node" where
  "grow_content junk need nd =
     (if need > vn_content_capacity nd then
        let new_cap = need + need * 2 div 10 in
        nd\<lparr>vn_content := Some (resized junk (unat new_cap) (content_bytes nd)), vn_content_capacity := new_cap\<rparr>
      else nd)"

definition store_content :: "bytes \<Rightarrow> u32 \<Rightarrow> vfs_node \<Rightarrow> vfs_node" where
  "store_content content pos nd =
     (let nd = nd\<lparr>vn_content := (if vn_content nd = None then None else Some content)\<rparr> in
      if ucast pos > vn_size nd then nd\<lparr>vn_size := ucast pos\<rparr> else nd)"

text \<open>\<open>alloc_ok\<close> and \<open>realloc_ok\<close> tell whether the allocator delivers; when it does not, the pointer to the
  content is lost.\<close>

definition vfs_file_write ::
  "(nat \<Rightarrow> u8) \<Rightarrow> bool \<Rightarrow> bool \<Rightarrow> vfs \<Rightarrow> u32 \<Rightarrow> u32 \<Rightarrow> bytes \<Rightarrow> (hresult \<times> u32 option \<times> vfs) run" where
  "vfs_file_write junk alloc_ok realloc_ok s str block_size in_buf =
     bindR (derefS s str) (\<lambda>st.
     if st_priv_data st = 0 then Inr (S_OK, None, s)
     else if st_mode st AND FILE_OPEN_WRITE = 0 then Inr (E_FAIL, Some 0, s)
     else
       bindR (derefN s (st_priv_data st)) (\<lambda>nd.
       if st_pos st > ucast (vn_size nd) then Inl (Panic ''vfs_file_write(): File pos is beyond it's size.'')
       else if vn_content_capacity nd = 0 \<and> \<not> alloc_ok then
         Inr (E_OUTOFMEM, Some 0, put_node s (st_priv_data st) (nd\<lparr>vn_content := None\<rparr>))
       else
         let nd = first_content junk block_size nd; need = st_pos st + block_size in
         if need > vn_content_capacity nd \<and> \<not> realloc_ok then
           Inr (E_OUTOFMEM, Some 0, put_node s (st_priv_data st) (nd\<lparr>vn_content := None\<rparr>))
         else
           let nd = grow_content junk need nd in
           bindR (memcpyR (content_bytes nd) (unat (st_pos st)) in_buf 0 (unat block_size)) (\<lambda>content.
           Inr (S_OK, Some block_size,
                put_stream (put_node s (st_priv_data st) (store_content content need nd)) str (st\<lparr>st_pos := need\<rparr>)))))"

definition vfs_file_ioctl :: "u32 \<Rightarrow> hresult" where
  "vfs_file_ioctl code = E_FAIL"

text \<open>\<^verbatim>\<open>new_pos\<close> is the lower half of the 64-bit sum. The lock of the node is taken around the reading of
  the size.\<close>

definition vfs_file_seek :: "cpu \<Rightarrow> vfs \<Rightarrow> u32 \<Rightarrow> u64 \<Rightarrow> u8 \<Rightarrow> (hresult \<times> cpu \<times> vfs) run" where
  "vfs_file_seek c s str pos origin =
     bindR (derefS s str) (\<lambda>st.
     bindR (mutex_lock c (st_lock st)) (\<lambda>(c, sl).
     bindR (derefN s (st_priv_data st)) (\<lambda>nd.
     bindR (mutex_lock c (vn_lock nd)) (\<lambda>(c, nl).
     let node_size = ucast (vn_size nd) :: u32 in
     bindR (mutex_unlock c nl) (\<lambda>(c, nl).
     let s = put_node s (st_priv_data st) (nd\<lparr>vn_lock := nl\<rparr>);
         target = (if origin = KSTREAM_ORIGIN_BEGINNING then Some (ucast pos)
                   else if origin = KSTREAM_ORIGIN_CURRENT then Some (st_pos st + ucast pos)
                   else if origin = KSTREAM_ORIGIN_END then Some (node_size - ucast pos)
                   else None);
         (hr, st) = (case target of
             None \<Rightarrow> (E_INVALIDARG, st)
           | Some new_pos \<Rightarrow>
               if sint new_pos < 0 \<or> sint new_pos > sint node_size then (E_INVALIDARG, st)
               else (S_OK, st\<lparr>st_pos := new_pos\<rparr>)) in
     bindR (mutex_unlock c sl) (\<lambda>(c, sl). Inr (hr, c, put_stream s str (st\<lparr>st_lock := sl\<rparr>))))))))"

definition vfs_file_tell :: "cpu \<Rightarrow> vfs \<Rightarrow> u32 \<Rightarrow> (u32 \<times> cpu \<times> vfs) run" where
  "vfs_file_tell c s str =
     bindR (derefS s str) (\<lambda>st.
     bindR (mutex_lock c (st_lock st)) (\<lambda>(c, sl).
     bindR (mutex_unlock c sl) (\<lambda>(c, sl). Inr (st_pos st, c, put_stream s str (st\<lparr>st_lock := sl\<rparr>)))))"

section \<open>Opening and closing\<close>

text \<open>\<open>str\<close> is the stream that \<^verbatim>\<open>kcalloc\<close> returns, \<open>name_ok\<close> whether there is memory for the copy of the
  file name, \<open>dev_open\<close> what the driver's \<^verbatim>\<open>ioctl\<close> answers to \<^verbatim>\<open>DEVIO_OPEN\<close>.\<close>

definition vfs_open ::
  "(u32 \<Rightarrow> hresult) \<Rightarrow> bool \<Rightarrow> vfs \<Rightarrow> bytes \<Rightarrow> u32 \<Rightarrow> u32 \<Rightarrow> (hresult \<times> u32 \<times> vfs) served run" where
  "vfs_open dev_open name_ok s filename fmode str =
     bindR (vfs_parse_url s filename (vs_root s) (Some 1024) (Some 1024)) (\<lambda>(hr, node, ext).
     if FAILED hr then Inr (Served (hr, 0, s))
     else case ext of
       Some (_, ext_path) \<Rightarrow> pass_on s node fd_open ext_path
     | None \<Rightarrow>
         bindR (derefN s node) (\<lambda>nd.
         if vn_permission nd \<noteq> NODE_MODE_ALL_RWE then Inr (Served (E_ACCESSDENIED, 0, s))
         else if vn_type nd AND NODE_TYPE_DIRECTORY \<noteq> 0 then Inr (Served (E_FAIL, 0, s))
         else
           bindR (vfsnode_addref s node) (\<lambda>s.
           if str = 0 then bindR (vfsnode_release s node) (\<lambda>(_, s). Inr (Served (E_FAIL, 0, s)))
           else if \<not> name_ok then Inl BadAccess
           else
             let st = \<lparr> st_mode = fmode, st_pos = 0, st_filename = filename, st_read = Vfs_file_read,
                        st_write = Vfs_file_write, st_seek = Vfs_file_seek, st_tell = Vfs_file_tell,
                        st_ioctl = Vfs_file_ioctl, st_close = Vfs_close, st_priv_data = node,
                        st_lock = mutex_create \<rparr> in
             if vn_type nd = NODE_TYPE_FILE then Inr (Served (S_OK, str, put_stream s str st))
             else if vn_type nd = NODE_TYPE_BLOCKDEVICE \<or> vn_type nd = NODE_TYPE_CHARDEVICE then
               (case vn_device nd of
                  None \<Rightarrow> Inl BadAccess
                | Some dev \<Rightarrow>
                    if FAILED (dev_open (kd_ioctl dev)) then Inl (Panic ''Failed to open device.'')
                    else Inr (Served (S_OK, str, put_stream s str
                           (st\<lparr>st_read := Driver_fn (kd_read dev), st_write := Driver_fn (kd_write dev),
                               st_seek := Driver_fn (kd_seek dev), st_tell := Driver_fn (kd_tell dev),
                               st_ioctl := Driver_fn (kd_ioctl dev)\<rparr>))))
             else Inl (Panic ''Unknown node type.''))))"

definition vfs_close :: "(stream_fn \<Rightarrow> hresult) \<Rightarrow> vfs \<Rightarrow> u32 \<Rightarrow> (hresult \<times> u32 \<times> vfs) run" where
  "vfs_close dev_close s str =
     bindR (derefS s str) (\<lambda>st.
     bindR (derefN s (st_priv_data st)) (\<lambda>nd.
     if (vn_type nd = NODE_TYPE_BLOCKDEVICE \<or> vn_type nd = NODE_TYPE_CHARDEVICE) \<and> FAILED (dev_close (st_ioctl st))
     then Inl (Panic ''Failed to close device.'')
     else
       bindR (vfsnode_release (s\<lparr>vs_streams := (vs_streams s)(str := None)\<rparr>) (st_priv_data st)) (\<lambda>(_, s).
       Inr (S_OK, 0, s))))"

section \<open>The kernel's standard input and output\<close>

text \<open>\<open>drv\<close> is the effect of a driver's routine, by its address.\<close>

definition k_fcreate where "k_fcreate = vfs_create"
definition k_fopen where "k_fopen = vfs_open"
definition k_opendir where "k_opendir = vfs_opendir"
definition k_mkdir where "k_mkdir = vfs_mkdir"

definition k_fread ::
  "(u32 \<Rightarrow> vfs \<Rightarrow> u32 \<Rightarrow> u32 \<Rightarrow> bytes \<Rightarrow> (hresult \<times> bytes \<times> u32 option \<times> vfs) run)
   \<Rightarrow> vfs \<Rightarrow> u32 \<Rightarrow> u32 \<Rightarrow> bytes \<Rightarrow> (hresult \<times> bytes \<times> u32 option \<times> vfs) run" where
  "k_fread drv s str block_size out_buf =
     bindR (derefS s str) (\<lambda>st.
     case st_read st of
       Vfs_file_read \<Rightarrow> vfs_file_read s str block_size out_buf
     | Driver_fn f \<Rightarrow> drv f s str block_size out_buf
     | _ \<Rightarrow> Inl BadAccess)"

definition k_fwrite ::
  "(u32 \<Rightarrow> vfs \<Rightarrow> u32 \<Rightarrow> u32 \<Rightarrow> bytes \<Rightarrow> (hresult \<times> u32 option \<times> vfs) run)
   \<Rightarrow> (nat \<Rightarrow> u8) \<Rightarrow> bool \<Rightarrow> bool \<Rightarrow> vfs \<Rightarrow> u32 \<Rightarrow> u32 \<Rightarrow> bytes \<Rightarrow> (hresult \<times> u32 option \<times> vfs) run" where
  "k_fwrite drv junk alloc_ok realloc_ok s str block_size in_buf =
     bindR (derefS s str) (\<lambda>st.
     case st_write st of
       Vfs_file_write \<Rightarrow> vfs_file_write junk alloc_ok realloc_ok s str block_size in_buf
     | Driver_fn f \<Rightarrow> drv f s str block_size in_buf
     | _ \<Rightarrow> Inl BadAccess)"

definition k_fseek ::
  "(u32 \<Rightarrow> cpu \<Rightarrow> vfs \<Rightarrow> u32 \<Rightarrow> u64 \<Rightarrow> u8 \<Rightarrow> (u32 \<times> cpu \<times> vfs) run)
   \<Rightarrow> cpu \<Rightarrow> vfs \<Rightarrow> u32 \<Rightarrow> u64 \<Rightarrow> u8 \<Rightarrow> (u32 \<times> cpu \<times> vfs) run" where
  "k_fseek drv c s str pos origin =
     bindR (derefS s str) (\<lambda>st.
     case st_seek st of
       Vfs_file_seek \<Rightarrow> bindR (vfs_file_seek c s str pos origin) (\<lambda>(hr, c, s). Inr (hr_code hr, c, s))
     | Driver_fn f \<Rightarrow> drv f c s str pos origin
     | _ \<Rightarrow> Inl BadAccess)"

definition k_ftell ::
  "(u32 \<Rightarrow> cpu \<Rightarrow> vfs \<Rightarrow> u32 \<Rightarrow> (u32 \<times> cpu \<times> vfs) run) \<Rightarrow> cpu \<Rightarrow> vfs \<Rightarrow> u32 \<Rightarrow> (u32 \<times> cpu \<times> vfs) run" where
  "k_ftell drv c s str =
     bindR (derefS s str) (\<lambda>st.
     case st_tell st of
       Vfs_file_tell \<Rightarrow> vfs_file_tell c s str
     | Driver_fn f \<Rightarrow> drv f c s str
     | _ \<Rightarrow> Inl BadAccess)"

definition k_fclose ::
  "(u32 \<Rightarrow> vfs \<Rightarrow> u32 \<Rightarrow> (hresult \<times> u32 \<times> vfs) run) \<Rightarrow> (stream_fn \<Rightarrow> hresult) \<Rightarrow> vfs \<Rightarrow> u32
   \<Rightarrow> (hresult \<times> u32 \<times> vfs) run" where
  "k_fclose drv dev_close s str =
     bindR (derefS s str) (\<lambda>st.
     case st_close st of
       Vfs_close \<Rightarrow> vfs_close dev_close s str
     | Driver_fn f \<Rightarrow> drv f s str
     | _ \<Rightarrow> Inl BadAccess)"

definition k_ioctl ::
  "(u32 \<Rightarrow> vfs \<Rightarrow> u32 \<Rightarrow> u32 \<Rightarrow> u32 \<Rightarrow> (hresult \<times> vfs) run) \<Rightarrow> vfs \<Rightarrow> u32 \<Rightarrow> u32 \<Rightarrow> u32 \<Rightarrow> (hresult \<times> vfs) run" where
  "k_ioctl drv s str code arg =
     bindR (derefS s str) (\<lambda>st.
     case st_ioctl st of
       Vfs_file_ioctl \<Rightarrow> Inr (vfs_file_ioctl code, s)
     | Driver_fn f \<Rightarrow> drv f s str code arg
     | _ \<Rightarrow> Inl BadAccess)"

section \<open>Files as byte lists\<close>

text \<open>The reference: a file is a list of bytes and a stream a position in it. A write at the position
  replaces and extends; a read delivers what there is; a seek stays inside the file. Results are the codes that a
  caller sees. The code keeps the lower 32 bits of the target of a seek and reads them as a signed number, and so
  does the reference: a target of \<open>2 ^ 32\<close> is the beginning of the file.\<close>

datatype file_op = File_read nat | File_write bytes | File_seek u64 u8

definition seek_target :: "bytes \<Rightarrow> nat \<Rightarrow> u64 \<Rightarrow> u8 \<Rightarrow> int option" where
  "seek_target d p pos origin =
     (if origin = KSTREAM_ORIGIN_BEGINNING then Some (sint pos)
      else if origin = KSTREAM_ORIGIN_CURRENT then Some (int p + sint pos)
      else if origin = KSTREAM_ORIGIN_END then Some (int (length d) - sint pos)
      else None)"

definition low_half :: "int \<Rightarrow> int" where
  "low_half t = sint (word_of_int t :: u32)"

fun file_step :: "file_op \<Rightarrow> bytes \<times> nat \<Rightarrow> (u32 \<times> bytes) \<times> (bytes \<times> nat)" where
  "file_step (File_read n) (d, p) =
     (if n = 0 \<or> p = length d then ((hr_code E_ENDOFSTR, []), (d, p))
      else ((hr_code S_OK, take n (drop p d)), (d, p + min n (length d - p))))"
| "file_step (File_write xs) (d, p) = ((hr_code S_OK, []), (buf_put d p xs, p + length xs))"
| "file_step (File_seek pos origin) (d, p) =
     (case seek_target d p pos origin of
        None \<Rightarrow> ((hr_code E_INVALIDARG, []), (d, p))
      | Some t \<Rightarrow>
          if low_half t < 0 \<or> low_half t > int (length d) then ((hr_code E_INVALIDARG, []), (d, p))
          else ((hr_code S_OK, []), (d, nat (low_half t))))"

fun file_run :: "file_op list \<Rightarrow> bytes \<times> nat \<Rightarrow> (u32 \<times> bytes) list \<times> (bytes \<times> nat)" where
  "file_run [] v = ([], v)"
| "file_run (f # fs) v = (let (r, v1) = file_step f v; (rs, v2) = file_run fs v1 in (r # rs, v2))"

text \<open>The same operations on a stream of the kernel, which is not that of a device; the buffers have the size of the
  request. \<open>mem\<close> tells whether the allocator delivers the first block of a file and a larger one.\<close>

fun k_step :: "(nat \<Rightarrow> u8) \<Rightarrow> bool \<times> bool \<Rightarrow> cpu \<Rightarrow> u32 \<Rightarrow> file_op \<Rightarrow> vfs \<Rightarrow> ((u32 \<times> bytes) \<times> cpu \<times> vfs) run" where
  "k_step junk mem c str (File_read n) s =
     bindR (k_fread (\<lambda>_ _ _ _ _. Inl BadAccess) s str (of_nat n) (replicate n 0)) (\<lambda>(hr, out, cnt, s).
     Inr ((hr_code hr, case cnt of None \<Rightarrow> [] | Some k \<Rightarrow> take (unat k) out), c, s))"
| "k_step junk mem c str (File_write xs) s =
     bindR (k_fwrite (\<lambda>_ _ _ _ _. Inl BadAccess) junk (fst mem) (snd mem) s str (of_nat (length xs)) xs) (\<lambda>(hr, cnt, s).
     Inr ((hr_code hr, []), c, s))"
| "k_step junk mem c str (File_seek pos origin) s =
     bindR (k_fseek (\<lambda>_ _ _ _ _ _. Inl BadAccess) c s str pos origin) (\<lambda>(code, c, s). Inr ((code, []), c, s))"

fun k_run ::
  "(nat \<Rightarrow> u8) \<Rightarrow> cpu \<Rightarrow> u32 \<Rightarrow> (file_op \<times> bool \<times> bool) list \<Rightarrow> vfs \<Rightarrow> ((u32 \<times> bytes) list \<times> cpu \<times> vfs) run" where
  "k_run junk c str [] s = Inr ([], c, s)"
| "k_run junk c str ((f, mem) # fs) s =
     bindR (k_step junk mem c str f s) (\<lambda>(r, c, s).
     bindR (k_run junk c str fs s) (\<lambda>(rs, c, s). Inr (r # rs, c, s)))"

section \<open>The state of an open file\<close>

definition content_ok :: "vfs_node \<Rightarrow> bool" where
  "content_ok nd \<longleftrightarrow> length (content_bytes nd) = unat (vn_content_capacity nd)
     \<and> unat (vn_size nd) \<le> unat (vn_content_capacity nd) \<and> unat (vn_size nd) < 2 ^ 31"

definition node_data :: "vfs_node \<Rightarrow> bytes" where
  "node_data nd = take (unat (vn_size nd)) (content_bytes nd)"

definition free_lock :: "cpu \<Rightarrow> mutex \<Rightarrow> bool" where
  "free_lock c m \<longleftrightarrow> lockable c m \<and> mx_count m \<noteq> - 1"

definition stream_ok :: "cpu \<Rightarrow> k_stream \<Rightarrow> vfs_node \<Rightarrow> bool" where
  "stream_ok c st nd \<longleftrightarrow> st_mode st AND FILE_OPEN_READ \<noteq> 0 \<and> st_mode st AND FILE_OPEN_WRITE \<noteq> 0
     \<and> st_read st = Vfs_file_read \<and> st_write st = Vfs_file_write \<and> st_seek st = Vfs_file_seek
     \<and> st_priv_data st \<noteq> 0 \<and> unat (st_pos st) \<le> unat (vn_size nd)
     \<and> free_lock c (st_lock st) \<and> free_lock c (vn_lock nd) \<and> content_ok nd"

text \<open>The stream \<open>str\<close> shows the bytes \<open>d\<close> at position \<open>p\<close>.\<close>

definition shows_file :: "cpu \<Rightarrow> vfs \<Rightarrow> u32 \<Rightarrow> bytes \<times> nat \<Rightarrow> bool" where
  "shows_file c s str v \<longleftrightarrow>
     (\<exists>st nd. vs_streams s str = Some st \<and> vs_nodes s (st_priv_data st) = Some nd \<and> stream_ok c st nd
        \<and> v = (node_data nd, unat (st_pos st)))"

lemma length_node_data: "content_ok nd \<Longrightarrow> length (node_data nd) = unat (vn_size nd)"
  by (simp add: node_data_def content_ok_def)

lemma size32: "content_ok nd \<Longrightarrow> unat (ucast (vn_size nd) :: u32) = unat (vn_size nd)"
  by (simp add: content_ok_def unsigned_ucast_eq take_bit_nat_eq_self)

lemma read_refines:
  assumes st: "vs_streams s str = Some st" and nd: "vs_nodes s (st_priv_data st) = Some nd"
    and ok: "stream_ok c st nd" and n: "n < 2 ^ 31"
  shows "\<exists>s'. k_step junk mem c str (File_read n) s = Inr (fst (file_step (File_read n) (node_data nd, unat (st_pos st))), c, s')
    \<and> shows_file c s' str (snd (file_step (File_read n) (node_data nd, unat (st_pos st))))"
proof -
  let ?p = "unat (st_pos st)" and ?size = "ucast (vn_size nd) :: u32"
  have c: "content_ok nd" and p: "?p \<le> unat (vn_size nd)" using ok by (simp_all add: stream_ok_def)
  note len = length_node_data [OF c]
  have sz: "unat ?size = unat (vn_size nd)" using size32 [OF c] .
  have small: "unat (vn_size nd) < 2 ^ 31" using c by (simp add: content_ok_def)
  have un: "unat (of_nat n :: u32) = n" using n by (intro unat_of_nat_small) simp
  have sum: "unat (st_pos st + of_nat n) = ?p + n" using un n p small by (subst unat_add_small) auto
  define eff where "eff = (if st_pos st + of_nat n > ?size then ?size - st_pos st else of_nat n)"
  have eff: "unat eff = min n (unat (vn_size nd) - ?p)"
    unfolding eff_def word_less_nat_alt sum sz using p un sz by (auto simp: unat_sub_small)
  have z: "eff = 0 \<longleftrightarrow> n = 0 \<or> ?p = unat (vn_size nd)"
    using eff p by (auto simp: unat_eq_zero [symmetric])
  have m: "k_fread (\<lambda>_ _ _ _ _. Inl BadAccess) s str (of_nat n) (replicate n 0) =
      (if eff = 0 then Inr (E_ENDOFSTR, replicate n 0, Some 0, s)
       else bindR (memcpyR (replicate n 0) 0 (content_bytes nd) ?p (unat eff)) (\<lambda>out.
              Inr (S_OK, out, Some eff, put_stream s str (st\<lparr>st_pos := st_pos st + eff\<rparr>))))"
    using ok st nd p sz unfolding eff_def
    by (simp add: k_fread_def derefS_def vfs_file_read_def derefN_def stream_ok_def Let_def word_less_nat_alt)
  show ?thesis
  proof (cases "eff = 0")
    case True
    then show ?thesis using m z len st nd ok by (auto simp: shows_file_def)
  next
    case False
    then have nz: "\<not> (n = 0 \<or> ?p = unat (vn_size nd))" using z by blast
    have cb: "unat (vn_size nd) \<le> length (content_bytes nd)" using c by (simp add: content_ok_def)
    have out: "memcpyR (replicate n 0) 0 (content_bytes nd) ?p (unat eff)
        = Inr (buf_put (replicate n 0) 0 (buf_get (content_bytes nd) ?p (unat eff)))"
      using eff p cb by (intro memcpyR_ok) auto
    have "buf_get (content_bytes nd) ?p (unat eff) = take n (drop ?p (node_data nd))"
      using eff p by (simp add: buf_get_def node_data_def drop_take min_def)
    moreover have "length (take n (drop ?p (node_data nd))) = unat eff"
      using eff p len by simp
    ultimately have res: "take (unat eff) (buf_put (replicate n 0) 0 (buf_get (content_bytes nd) ?p (unat eff)))
        = take n (drop ?p (node_data nd))"
      by (metis append_Nil append_eq_conv_conj buf_put_def take_0)
    let ?s = "put_stream s str (st\<lparr>st_pos := st_pos st + eff\<rparr>)"
    have pos: "unat (st_pos st + eff) = ?p + unat eff"
      using eff p small by (subst unat_add_small) auto
    have "k_step junk mem c str (File_read n) s = Inr ((hr_code S_OK, take n (drop ?p (node_data nd))), c, ?s)"
      using m False out res by simp
    moreover have "shows_file c ?s str (node_data nd, ?p + min n (unat (vn_size nd) - ?p))"
      unfolding shows_file_def using nd ok pos eff p
      by (intro exI [of _ "st\<lparr>st_pos := st_pos st + eff\<rparr>"] exI [of _ nd]) (simp add: put_stream_def stream_ok_def)
    moreover have "file_step (File_read n) (node_data nd, ?p)
        = ((hr_code S_OK, take n (drop ?p (node_data nd))), (node_data nd, ?p + min n (unat (vn_size nd) - ?p)))"
      using nz len by simp
    ultimately show ?thesis by (metis fst_conv snd_conv)
  qed
qed

lemma length_resized [simp]: "length (resized junk k b) = k"
  by (simp add: resized_def)

lemma take_resized: "n \<le> k \<Longrightarrow> n \<le> length b \<Longrightarrow> take n (resized junk k b) = take n b"
  by (simp add: resized_def)

text \<open>The content block after the two steps that may replace it.\<close>

lemma new_capacity:
  assumes "unat (need :: u32) < 2 ^ 31"
  shows "unat (need + need * 2 div 10) = unat need + unat need * 2 div 10"
proof -
  have "unat (need * 2) = unat need * 2" using assms by (simp add: unat_word_ariths)
  then have "unat (need * 2 div 10) = unat need * 2 div 10" by (simp add: unat_div)
  then show ?thesis using assms by (subst unat_add_small) simp_all
qed

lemma take_buf_put:
  assumes "p + length xs \<le> k" and "k \<le> length b"
  shows "take k (buf_put b p xs) = buf_put (take k b) p xs"
proof (cases "p = k")
  case True
  then show ?thesis using assms by (simp add: buf_put_def)
next
  case False
  then have "p < k" using assms(1) by simp
  then show ?thesis using assms by (simp add: buf_put_def drop_take min_def)
qed

lemma write_content:
  assumes "take sz b = d" and "sz \<le> length b" and "p \<le> sz" and "p + length xs \<le> length b"
  shows "take (max sz (p + length xs)) (buf_put b p xs) = buf_put d p xs"
proof (cases "p + length xs \<le> sz")
  case True
  then show ?thesis using take_buf_put [OF True assms(2)] assms(1) by (simp add: max_def)
next
  case False
  have "length d = sz" using assms(1,2) by auto
  moreover have "take p d = take p b" using assms(1,3) by auto
  ultimately show ?thesis using False assms(3,4) by (simp add: buf_put_def max_def)
qed

lemma content_bytes_Some [simp]: "content_bytes (nd\<lparr>vn_content := Some b\<rparr>) = b"
  "content_bytes (nd\<lparr>vn_content_capacity := k\<rparr>) = content_bytes nd" "content_bytes (nd\<lparr>vn_size := z\<rparr>) = content_bytes nd"
  by (simp_all add: content_bytes_def)

lemma first_content_ok:
  assumes "content_ok nd" and "unat len < 2 ^ 31"
  shows "content_ok (first_content junk len nd)" "node_data (first_content junk len nd) = node_data nd"
    "vn_size (first_content junk len nd) = vn_size nd" "vn_lock (first_content junk len nd) = vn_lock nd"
proof -
  have "vn_content_capacity nd = 0 \<Longrightarrow> vn_size nd = 0"
    using assms(1) by (simp add: content_ok_def unat_eq_zero)
  then show "content_ok (first_content junk len nd)" "node_data (first_content junk len nd) = node_data nd"
    "vn_size (first_content junk len nd) = vn_size nd" "vn_lock (first_content junk len nd) = vn_lock nd"
    using assms by (auto simp: first_content_def content_ok_def node_data_def)
qed

lemma grow_content_ok:
  assumes "content_ok nd" and "unat need < 2 ^ 31"
  shows "content_ok (grow_content junk need nd)" "node_data (grow_content junk need nd) = node_data nd"
    "unat need \<le> unat (vn_content_capacity (grow_content junk need nd))"
    "vn_size (grow_content junk need nd) = vn_size nd" "vn_lock (grow_content junk need nd) = vn_lock nd"
proof -
  define nc where "nc = need + need * 2 div 10"
  have nc: "unat need \<le> unat nc" using new_capacity [OF assms(2)] by (simp add: nc_def)
  have g: "grow_content junk need nd = (if need > vn_content_capacity nd
      then nd\<lparr>vn_content := Some (resized junk (unat nc) (content_bytes nd)), vn_content_capacity := nc\<rparr> else nd)"
    by (simp add: grow_content_def nc_def Let_def)
  have more: "unat (vn_size nd) \<le> unat nc" if "need > vn_content_capacity nd"
    using that nc assms(1) by (simp add: content_ok_def word_less_nat_alt)
  show "content_ok (grow_content junk need nd)" "node_data (grow_content junk need nd) = node_data nd"
    "unat need \<le> unat (vn_content_capacity (grow_content junk need nd))"
    "vn_size (grow_content junk need nd) = vn_size nd" "vn_lock (grow_content junk need nd) = vn_lock nd"
    using assms(1) more nc
    by (auto simp: g content_ok_def node_data_def take_resized word_less_nat_alt not_less)
qed

lemma store_content_ok:
  assumes c: "content_ok nd" and p: "p \<le> unat (vn_size nd)" and fit: "p + length xs \<le> unat (vn_content_capacity nd)"
    and pos: "unat pos = p + length xs" and small: "unat pos < 2 ^ 31"
  shows "content_ok (store_content (buf_put (content_bytes nd) p xs) pos nd)"
    "node_data (store_content (buf_put (content_bytes nd) p xs) pos nd) = buf_put (node_data nd) p xs"
    "unat (vn_size (store_content (buf_put (content_bytes nd) p xs) pos nd)) = max (unat (vn_size nd)) (p + length xs)"
    "vn_lock (store_content (buf_put (content_bytes nd) p xs) pos nd) = vn_lock nd"
proof -
  let ?nd = "store_content (buf_put (content_bytes nd) p xs) pos nd"
  have len: "length (content_bytes nd) = unat (vn_content_capacity nd)" "unat (vn_size nd) \<le> unat (vn_content_capacity nd)"
    using c by (simp_all add: content_ok_def)
  have cb: "content_bytes ?nd = buf_put (content_bytes nd) p xs"
    using len fit by (cases "vn_content nd") (auto simp: store_content_def Let_def content_bytes_def buf_put_def)
  show sz: "unat (vn_size ?nd) = max (unat (vn_size nd)) (p + length xs)"
    using pos by (auto simp: store_content_def Let_def word_less_nat_alt max_def)
  have cap: "vn_content_capacity ?nd = vn_content_capacity nd" by (simp add: store_content_def Let_def)
  show "content_ok ?nd"
    using c fit small pos unfolding content_ok_def cb sz cap by simp
  show "node_data ?nd = buf_put (node_data nd) p xs"
    using write_content [of "unat (vn_size nd)" "content_bytes nd" "node_data nd" p xs] len fit p
    unfolding node_data_def cb sz by simp
  show "vn_lock ?nd = vn_lock nd" by (simp add: store_content_def Let_def)
qed

lemma write_refines:
  assumes st: "vs_streams s str = Some st" and nd: "vs_nodes s (st_priv_data st) = Some nd"
    and ok: "stream_ok c st nd" and room: "unat (st_pos st) + length xs < 2 ^ 31"
  shows "\<exists>s'. k_step junk (True, True) c str (File_write xs) s = Inr ((hr_code S_OK, []), c, s')
    \<and> shows_file c s' str (buf_put (node_data nd) (unat (st_pos st)) xs, unat (st_pos st) + length xs)"
proof -
  let ?p = "unat (st_pos st)" and ?len = "of_nat (length xs) :: u32"
  have c: "content_ok nd" and p: "?p \<le> unat (vn_size nd)" using ok by (simp_all add: stream_ok_def)
  have sz: "\<not> st_pos st > ucast (vn_size nd)" using size32 [OF c] p by (simp add: word_less_nat_alt)
  have ul: "unat ?len = length xs" using room by (intro unat_of_nat_small) simp
  have need: "unat (st_pos st + ?len) = ?p + length xs"
    using ul room by (subst unat_add_small) auto
  then have needs: "unat (st_pos st + ?len) < 2 ^ 31" using room by simp
  define nd1 where "nd1 = first_content junk ?len nd"
  define nd2 where "nd2 = grow_content junk (st_pos st + ?len) nd1"
  define nd3 where "nd3 = store_content (buf_put (content_bytes nd2) ?p xs) (st_pos st + ?len) nd2"
  have "unat ?len < 2 ^ 31" using ul room by simp
  note n1 = first_content_ok [OF c this, of junk, folded nd1_def]
  note n2 = grow_content_ok [OF n1(1) needs, of junk, folded nd2_def]
  have p2: "?p \<le> unat (vn_size nd2)" using p n1 n2 by simp
  have fit: "?p + length xs \<le> unat (vn_content_capacity nd2)" using n2(3) need by simp
  note n3 = store_content_ok [OF n2(1) p2 fit need needs, folded nd3_def]
  let ?s = "put_stream (put_node s (st_priv_data st) nd3) str (st\<lparr>st_pos := st_pos st + ?len\<rparr>)"
  have "length (content_bytes nd2) = unat (vn_content_capacity nd2)" using n2(1) by (simp add: content_ok_def)
  then have copy: "memcpyR (content_bytes nd2) ?p xs 0 (unat ?len) = Inr (buf_put (content_bytes nd2) ?p xs)"
    using fit ul memcpyR_ok [of ?p "length xs" "content_bytes nd2" 0 xs] by (simp add: buf_get_def)
  have mode: "st_priv_data st \<noteq> 0" "st_mode st AND FILE_OPEN_WRITE \<noteq> 0" "st_write st = Vfs_file_write"
    using ok by (simp_all add: stream_ok_def)
  have "vfs_file_write junk True True s str ?len xs = Inr (S_OK, Some ?len, ?s)"
    unfolding vfs_file_write_def derefS_def derefN_def st nd option.case bindR.simps Let_def
      nd1_def [symmetric] nd2_def [symmetric] copy nd3_def [symmetric]
    using mode sz by simp
  then have run: "k_step junk (True, True) c str (File_write xs) s = Inr ((hr_code S_OK, []), c, ?s)"
    using st mode by (simp add: k_fwrite_def derefS_def)
  have "stream_ok c (st\<lparr>st_pos := st_pos st + ?len\<rparr>) nd3"
    using ok n1(4) n2(5) n3 need by (simp add: stream_ok_def)
  then have "shows_file c ?s str (buf_put (node_data nd) ?p xs, ?p + length xs)"
    unfolding shows_file_def using n1(2) n2(2) n3(2) need
    by (intro exI [of _ "st\<lparr>st_pos := st_pos st + ?len\<rparr>"] exI [of _ nd3]) (simp add: put_stream_def put_node_def)
  then show ?thesis using run by blast
qed

text \<open>Without memory a write that needs it fails; any other write does not notice.\<close>

lemma file_write_memory:
  "vfs_file_write junk a r s str k xs = vfs_file_write junk True True s str k xs \<or>
    (\<not> (a \<and> r) \<and> (\<exists>s'. vfs_file_write junk a r s str k xs = Inr (E_OUTOFMEM, Some 0, s')))"
proof (cases "derefS s str")
  case (Inr st)
  show ?thesis
  proof (cases "derefN s (st_priv_data st)")
    case (Inr nd)
    define nd1 where "nd1 = first_content junk k nd"
    consider "a \<and> r" | "\<not> a" "vn_content_capacity nd = 0" | "\<not> r" "st_pos st + k > vn_content_capacity nd1"
      | "\<not> (vn_content_capacity nd = 0 \<and> \<not> a)" "\<not> (st_pos st + k > vn_content_capacity nd1 \<and> \<not> r)"
      by blast
    then show ?thesis
      by cases (simp_all add: vfs_file_write_def \<open>derefS s str = Inr st\<close> Inr Let_def nd1_def [symmetric])
  qed (simp add: vfs_file_write_def Inr)
qed (simp add: vfs_file_write_def)

lemma write_memory:
  assumes "k_step junk (True, True) c str (File_write xs) s = Inr r"
  shows "k_step junk mem c str (File_write xs) s = Inr r \<or>
    (mem \<noteq> (True, True) \<and> (\<exists>s'. k_step junk mem c str (File_write xs) s = Inr ((hr_code E_OUTOFMEM, []), c, s')))"
proof (cases "derefS s str")
  case (Inr st)
  show ?thesis
  proof (cases "st_write st = Vfs_file_write")
    case True
    then show ?thesis
      using assms file_write_memory [of junk "fst mem" "snd mem" s str "of_nat (length xs)" xs]
      by (cases mem) (auto simp: k_fwrite_def Inr simp del: bindR_eq_Inr)
  next
    case False
    then have "k_step junk mem c str (File_write xs) s = k_step junk (True, True) c str (File_write xs) s"
      by (cases "st_write st") (simp_all add: k_fwrite_def Inr)
    then show ?thesis using assms by simp
  qed
qed (use assms in \<open>simp add: k_fwrite_def\<close>)

text \<open>Seeking: a target that fits in 32 bits is exact.\<close>

lemma low_half_small: "- (2 ^ 31) \<le> i \<Longrightarrow> i < 2 ^ 31 \<Longrightarrow> low_half i = i"
  unfolding low_half_def by (subst sint_sbintrunc') (simp add: signed_take_bit_int_eq_self)

lemma low_half_unat: "0 \<le> low_half t \<Longrightarrow> unat (word_of_int t :: u32) = nat (low_half t)"
proof -
  assume "0 \<le> low_half t"
  moreover have "low_half t < 2 ^ 31" unfolding low_half_def using sint_lt [of "word_of_int t :: u32"] by simp
  ultimately have "uint (word_of_int t :: u32) = low_half t"
    unfolding low_half_def uint_sint by (intro take_bit_int_eq_self) simp_all
  then show ?thesis by (simp only: unat_eq_nat_uint)
qed

lemma ucast_sint: "(ucast (pos :: u64) :: u32) = word_of_int (sint pos)"
proof (rule bit_word_eqI)
  fix n assume "n < LENGTH(32)"
  then show "bit (ucast pos :: u32) n = bit (word_of_int (sint pos) :: u32) n"
    by (simp add: bit_simps)
qed

lemma size32_of_nat: "content_ok nd \<Longrightarrow> (ucast (vn_size nd) :: u32) = of_nat (unat (vn_size nd))"
proof -
  assume "content_ok nd"
  have "(ucast (vn_size nd) :: u32) = of_nat (unat (ucast (vn_size nd) :: u32))" by simp
  then show ?thesis unfolding size32 [OF \<open>content_ok nd\<close>] .
qed

lemma seek_target_word:
  assumes "content_ok nd"
  shows "(if origin = KSTREAM_ORIGIN_BEGINNING then Some (ucast pos)
      else if origin = KSTREAM_ORIGIN_CURRENT then Some (st_pos st + ucast pos)
      else if origin = KSTREAM_ORIGIN_END then Some (ucast (vn_size nd) - ucast pos)
      else None) = map_option (word_of_int :: int \<Rightarrow> u32) (seek_target (node_data nd) (unat (st_pos st)) pos origin)"
proof -
  have "(ucast (vn_size nd) :: u32) = word_of_int (int (unat (vn_size nd)))"
    using size32_of_nat [OF assms] by simp
  moreover have "st_pos st = word_of_int (int (unat (st_pos st)))" by simp
  ultimately show ?thesis
    by (simp add: seek_target_def ucast_sint length_node_data [OF assms])
qed

definition seek_result :: "vfs_node \<Rightarrow> k_stream \<Rightarrow> u64 \<Rightarrow> u8 \<Rightarrow> hresult \<times> u32" where
  "seek_result nd st pos origin =
     (case seek_target (node_data nd) (unat (st_pos st)) pos origin of
        None \<Rightarrow> (E_INVALIDARG, st_pos st)
      | Some t \<Rightarrow>
          if low_half t < 0 \<or> low_half t > int (unat (vn_size nd)) then (E_INVALIDARG, st_pos st)
          else (S_OK, word_of_int t))"

lemma seek_decision:
  assumes c: "content_ok nd"
  shows "(case (if origin = KSTREAM_ORIGIN_BEGINNING then Some (ucast pos)
      else if origin = KSTREAM_ORIGIN_CURRENT then Some (st_pos st + ucast pos)
      else if origin = KSTREAM_ORIGIN_END then Some (ucast (vn_size nd) - ucast pos)
      else None) of
        None \<Rightarrow> (E_INVALIDARG, st)
      | Some new_pos \<Rightarrow>
          if sint new_pos < 0 \<or> sint new_pos > sint (ucast (vn_size nd) :: u32) then (E_INVALIDARG, st)
          else (S_OK, st\<lparr>st_pos := new_pos\<rparr>))
    = (fst (seek_result nd st pos origin), st\<lparr>st_pos := snd (seek_result nd st pos origin)\<rparr>)"
proof -
  have sz: "sint (ucast (vn_size nd) :: u32) = int (unat (vn_size nd))"
    using sint_of_nat_small [of "unat (vn_size nd)"] c unfolding size32_of_nat [OF c] content_ok_def by blast
  show ?thesis
    unfolding seek_target_word [OF c] seek_result_def sz
    by (cases "seek_target (node_data nd) (unat (st_pos st)) pos origin") (simp_all add: low_half_def)
qed

lemma seek_result_step:
  assumes c: "content_ok nd" and p: "unat (st_pos st) \<le> unat (vn_size nd)"
  shows "unat (snd (seek_result nd st pos origin)) \<le> unat (vn_size nd)"
    and "file_step (File_seek pos origin) (node_data nd, unat (st_pos st))
      = ((hr_code (fst (seek_result nd st pos origin)), []), (node_data nd, unat (snd (seek_result nd st pos origin))))"
proof -
  have w: "unat (word_of_int t :: u32) = nat (low_half t) \<and> nat (low_half t) \<le> unat (vn_size nd)"
    if "\<not> (low_half t < 0 \<or> low_half t > int (unat (vn_size nd)))" for t
    using low_half_unat [of t] that by (metis linorder_not_less nat_int nat_mono)
  show "unat (snd (seek_result nd st pos origin)) \<le> unat (vn_size nd)"
    using w p unfolding seek_result_def by (cases "seek_target (node_data nd) (unat (st_pos st)) pos origin") auto
  show "file_step (File_seek pos origin) (node_data nd, unat (st_pos st))
      = ((hr_code (fst (seek_result nd st pos origin)), []), (node_data nd, unat (snd (seek_result nd st pos origin))))"
  proof (cases "seek_target (node_data nd) (unat (st_pos st)) pos origin")
    case (Some t)
    then show ?thesis using w [of t] unfolding seek_result_def file_step.simps length_node_data [OF c] by auto
  qed (simp add: seek_result_def)
qed

lemma seek_refines:
  assumes st: "vs_streams s str = Some st" and nd: "vs_nodes s (st_priv_data st) = Some nd"
    and ok: "stream_ok c st nd"
  shows "\<exists>s'. k_step junk mem c str (File_seek pos origin) s
      = Inr (fst (file_step (File_seek pos origin) (node_data nd, unat (st_pos st))), c, s')
    \<and> shows_file c s' str (snd (file_step (File_seek pos origin) (node_data nd, unat (st_pos st))))"
proof -
  have c: "content_ok nd" and p: "unat (st_pos st) \<le> unat (vn_size nd)"
    and locks: "free_lock c (st_lock st)" "free_lock c (vn_lock nd)"
    using ok by (simp_all add: stream_ok_def)
  note sl = mutex_critical [OF locks(1) [unfolded free_lock_def, THEN conjunct1] locks(1) [unfolded free_lock_def, THEN conjunct2]]
  note nl = mutex_critical [OF locks(2) [unfolded free_lock_def, THEN conjunct1] locks(2) [unfolded free_lock_def, THEN conjunct2]]
  let ?sl = "left (entered c (st_lock st))" and ?nd = "nd\<lparr>vn_lock := left (entered c (vn_lock nd))\<rparr>"
  let ?r = "seek_result nd st pos origin"
  let ?s = "put_stream (put_node s (st_priv_data st) ?nd) str (st\<lparr>st_pos := snd ?r, st_lock := ?sl\<rparr>)"
  have "vfs_file_seek c s str pos origin = Inr (fst ?r, c, ?s)"
    unfolding vfs_file_seek_def derefS_def derefN_def st nd option.case bindR.simps Let_def sl(1) nl(1,2) prod.case
      seek_decision [OF c] sl(2) by simp
  then have run: "k_step junk mem c str (File_seek pos origin) s = Inr ((hr_code (fst ?r), []), c, ?s)"
    using st ok by (simp add: k_fseek_def derefS_def stream_ok_def)
  have same: "node_data ?nd = node_data nd" "content_ok ?nd"
    using c by (simp_all add: node_data_def content_ok_def content_bytes_def)
  have "stream_ok c (st\<lparr>st_pos := snd ?r, st_lock := ?sl\<rparr>) ?nd"
    using ok seek_result_step(1) [OF c p] sl nl same by (simp add: stream_ok_def free_lock_def)
  then have "shows_file c ?s str (node_data nd, unat (snd ?r))"
    unfolding shows_file_def using same
    by (intro exI [of _ "st\<lparr>st_pos := snd ?r, st_lock := ?sl\<rparr>"] exI [of _ ?nd]) (simp add: put_stream_def put_node_def)
  then show ?thesis unfolding seek_result_step(2) [OF c p] fst_conv snd_conv using run by blast
qed

text \<open>One operation, then any number.\<close>

fun read_fits_32 :: "file_op \<Rightarrow> bool" where
  "read_fits_32 (File_read n) \<longleftrightarrow> n < 2 ^ 31"
| "read_fits_32 (File_write xs) \<longleftrightarrow> True"
| "read_fits_32 (File_seek pos origin) \<longleftrightarrow> True"

fun op_writes :: "file_op \<Rightarrow> nat" where
  "op_writes (File_write xs) = length xs"
| "op_writes (File_read n) = 0"
| "op_writes (File_seek pos origin) = 0"

lemma step_refines:
  assumes "shows_file c s str (d, p)" and "read_fits_32 f" and "length d + op_writes f < 2 ^ 31"
  shows "(\<exists>s'. k_step junk mem c str f s = Inr (fst (file_step f (d, p)), c, s') \<and> shows_file c s' str (snd (file_step f (d, p))))
    \<or> (\<exists>xs s'. f = File_write xs \<and> mem \<noteq> (True, True) \<and> k_step junk mem c str f s = Inr ((hr_code E_OUTOFMEM, []), c, s'))"
proof -
  obtain st nd where st: "vs_streams s str = Some st" "vs_nodes s (st_priv_data st) = Some nd" "stream_ok c st nd"
    and v: "d = node_data nd" "p = unat (st_pos st)"
    using assms(1) by (auto simp: shows_file_def)
  have p: "p \<le> length d" using st(3) v by (simp add: stream_ok_def length_node_data)
  show ?thesis
  proof (cases f)
    case (File_read n)
    then show ?thesis using read_refines [OF st] assms(2) v by (simp del: k_step.simps file_step.simps)
  next
    case (File_seek pos origin)
    then show ?thesis using seek_refines [OF st] v by (simp del: k_step.simps file_step.simps)
  next
    case (File_write xs)
    then obtain s' where w: "k_step junk (True, True) c str f s = Inr ((hr_code S_OK, []), c, s')"
      "shows_file c s' str (buf_put d p xs, p + length xs)"
      using write_refines [OF st, of xs junk] assms(3) p v by (auto simp del: k_step.simps)
    have "k_step junk mem c str f s = Inr ((hr_code S_OK, []), c, s') \<or>
        (mem \<noteq> (True, True) \<and> (\<exists>s'. k_step junk mem c str f s = Inr ((hr_code E_OUTOFMEM, []), c, s')))"
      using write_memory w(1) unfolding File_write by blast
    then show ?thesis using w(2) File_write by (auto simp del: k_step.simps)
  qed
qed

lemma shows_file_pos: "shows_file c s str (d, p) \<Longrightarrow> p \<le> length d"
  by (auto simp: shows_file_def stream_ok_def length_node_data)

lemma file_step_length: "p \<le> length d \<Longrightarrow> length (fst (snd (file_step f (d, p)))) \<le> length d + op_writes f"
  by (cases f) (auto simp: buf_put_def Let_def split: option.splits)

text \<open>A run follows the reference to its end, or to the first write for which there is no memory.\<close>

definition follows :: "(nat \<Rightarrow> u8) \<Rightarrow> cpu \<Rightarrow> u32 \<Rightarrow> (file_op \<times> bool \<times> bool) list \<Rightarrow> vfs \<Rightarrow> bytes \<times> nat \<Rightarrow> vfs \<Rightarrow> bool" where
  "follows junk c str fs s v s' \<longleftrightarrow> k_run junk c str fs s = Inr (fst (file_run (map fst fs) v), c, s')
     \<and> shows_file c s' str (snd (file_run (map fst fs) v))"

definition runs_out :: "(nat \<Rightarrow> u8) \<Rightarrow> cpu \<Rightarrow> u32 \<Rightarrow> (file_op \<times> bool \<times> bool) list \<Rightarrow> vfs \<Rightarrow> bytes \<times> nat \<Rightarrow> bool" where
  "runs_out junk c str fs s v \<longleftrightarrow>
     (\<exists>before xs mem after s1 s2. fs = before @ (File_write xs, mem) # after \<and> mem \<noteq> (True, True)
        \<and> follows junk c str before s v s1 \<and> k_step junk mem c str (File_write xs) s1 = Inr ((hr_code E_OUTOFMEM, []), c, s2))"

lemma follows_Cons:
  assumes "k_step junk mem c str f s = Inr (fst (file_step f v), c, s1)" and "follows junk c str fs s1 (snd (file_step f v)) s2"
  shows "follows junk c str ((f, mem) # fs) s v s2"
  using assms by (simp add: follows_def Let_def split_beta del: k_step.simps)

lemma runs_out_Cons:
  assumes "k_step junk mem c str f s = Inr (fst (file_step f v), c, s1)" and "runs_out junk c str fs s1 (snd (file_step f v))"
  shows "runs_out junk c str ((f, mem) # fs) s v"
  using assms(2) follows_Cons [OF assms(1)] unfolding runs_out_def by (metis append_Cons)

lemma run_refines:
  "shows_file c s str (d, p) \<Longrightarrow> \<forall>f \<in> set (map fst fs). read_fits_32 f \<Longrightarrow>
   length d + sum_list (map op_writes (map fst fs)) < 2 ^ 31 \<Longrightarrow>
   (\<exists>s'. follows junk c str fs s (d, p) s') \<or> runs_out junk c str fs s (d, p)"
proof (induction fs arbitrary: s d p)
  case Nil
  then show ?case by (simp add: follows_def)
next
  case (Cons g fs)
  obtain f mem where g: "g = (f, mem)" by (metis surj_pair)
  obtain d1 p1 where v1: "snd (file_step f (d, p)) = (d1, p1)" by fastforce
  have f: "read_fits_32 f" "length d + op_writes f < 2 ^ 31" using Cons.prems(2,3) by (simp_all add: g)
  from step_refines [OF Cons.prems(1) f, of junk mem] show ?case
  proof (elim disjE exE conjE)
    fix s1 assume s1: "k_step junk mem c str f s = Inr (fst (file_step f (d, p)), c, s1)"
      "shows_file c s1 str (snd (file_step f (d, p)))"
    have "length d1 \<le> length d + op_writes f"
      using file_step_length [OF shows_file_pos [OF Cons.prems(1)], of f] v1 by simp
    then have small: "length d1 + sum_list (map op_writes (map fst fs)) < 2 ^ 31" using Cons.prems(3) by (simp add: g)
    have fits: "\<forall>f \<in> set (map fst fs). read_fits_32 f" using Cons.prems(2) by simp
    have "(\<exists>s'. follows junk c str fs s1 (d1, p1) s') \<or> runs_out junk c str fs s1 (d1, p1)"
      using Cons.IH [OF _ fits small] s1(2) unfolding v1 .
    then show ?thesis
      using follows_Cons [OF s1(1)] runs_out_Cons [OF s1(1)] unfolding v1 g by blast
  next
    fix xs s' assume "f = File_write xs" "mem \<noteq> (True, True)"
      "k_step junk mem c str f s = Inr ((hr_code E_OUTOFMEM, []), c, s')"
    moreover have "follows junk c str [] s (d, p) s" using Cons.prems(1) by (simp add: follows_def)
    ultimately show ?thesis unfolding runs_out_def g by (metis append_Nil)
  qed
qed

section \<open>Opening a file\<close>

text \<open>A file that was just created, or closed by everyone, opens as a stream at its beginning.\<close>

lemma open_shows_file:
  assumes ok: "vfs_ok s" and path: "path_ok ns" and len: "length (join ns) < 1024"
    and node: "walk s (vs_root s) ns = Some (n, None)" and nd: "vs_nodes s n = Some nd"
    and ty: "vn_type nd = NODE_TYPE_FILE" and perm: "vn_permission nd = NODE_MODE_ALL_RWE"
    and content: "content_ok nd" "free_lock c (vn_lock nd)" and cpu: "cpu_current c \<noteq> None"
    and mem: "n \<noteq> 0" "str \<noteq> 0"
  shows "\<exists>s'. vfs_open drv True s (join ns) (FILE_OPEN_READ OR FILE_OPEN_WRITE) str = Inr (Served (S_OK, str, s'))
    \<and> shows_file c s' str (node_data nd, 0)"
proof -
  let ?nd = "nd\<lparr>vn_ref_count := vn_ref_count nd + 1\<rparr>"
  have "vfs_parse_url s (join ns) (vs_root s) (Some 1024) (Some 1024) = Inr (S_OK, n, None)"
    using parse_path [OF ok path, of "Some 1024" "Some 1024"] node len by (simp add: buf_fits_def)
  then obtain st where st: "vfs_open drv True s (join ns) (FILE_OPEN_READ OR FILE_OPEN_WRITE) str
      = Inr (Served (S_OK, str, put_stream (put_node s n ?nd) str st))"
    "st_mode st = FILE_OPEN_READ OR FILE_OPEN_WRITE" "st_pos st = 0" "st_read st = Vfs_file_read"
    "st_write st = Vfs_file_write" "st_seek st = Vfs_file_seek" "st_priv_data st = n" "st_lock st = mutex_create"
    using nd ty perm mem by (simp add: vfs_open_def derefN_def vfsnode_addref_def node_types)
  have "stream_ok c st ?nd"
    using st content cpu mem
    by (auto simp: stream_ok_def FILE_OPEN_READ_def FILE_OPEN_WRITE_def free_lock_def lockable_def mutex_create_def
        spinlock_create_def content_ok_def content_bytes_def)
  then show ?thesis
    using st(1,3,7) unfolding shows_file_def
    by (intro exI [of _ "put_stream (put_node s n ?nd) str st"])
      (auto simp: put_stream_def put_node_def node_data_def content_bytes_def)
qed

section \<open>The invariant\<close>

text \<open>Every stream belongs to a node, and a node counts the streams open on it.\<close>

definition streams_of :: "vfs \<Rightarrow> u32 \<Rightarrow> u32 set" where
  "streams_of s n = {p. \<exists>st. vs_streams s p = Some st \<and> st_priv_data st = n}"

definition refs_ok :: "vfs \<Rightarrow> bool" where
  "refs_ok s \<longleftrightarrow> finite (dom (vs_streams s))
     \<and> (\<forall>p st. vs_streams s p = Some st \<longrightarrow> vs_nodes s (st_priv_data st) \<noteq> None)
     \<and> (\<forall>n nd. vs_nodes s n = Some nd \<longrightarrow> vn_ref_count nd = of_nat (card (streams_of s n)))"

text \<open>The nodes are a tree below the root: there is no node at the null address, the root has no parent, and every
  node is reached from the root by the child arrays.\<close>

definition tree_links :: "vfs \<Rightarrow> (u32 \<times> u32) set" where
  "tree_links s = {(p, c). \<exists>pd. vs_nodes s p = Some pd \<and> c \<in> set (kids pd)}"

definition tree_ok :: "vfs \<Rightarrow> bool" where
  "tree_ok s \<longleftrightarrow> vs_nodes s 0 = None \<and> (\<forall>rd. vs_nodes s (vs_root s) = Some rd \<longrightarrow> vn_parent rd = 0)
     \<and> (\<forall>n. vs_nodes s n \<noteq> None \<longrightarrow> (vs_root s, n) \<in> (tree_links s)\<^sup>*)"

definition vfs_inv :: "vfs \<Rightarrow> bool" where
  "vfs_inv s \<longleftrightarrow> vfs_ok s \<and> refs_ok s \<and> tree_ok s"

lemma tree_links_parent: "vfs_ok s \<Longrightarrow> (p, c) \<in> tree_links s \<Longrightarrow> vs_nodes s c = Some cd \<Longrightarrow> p = vn_parent cd"
  unfolding tree_links_def vfs_ok_def using node_ok_child by fastforce

lemma tree_links_nodes: "vfs_ok s \<Longrightarrow> (p, c) \<in> tree_links s \<Longrightarrow> vs_nodes s p \<noteq> None \<and> vs_nodes s c \<noteq> None"
  unfolding tree_links_def vfs_ok_def using node_ok_child by fastforce

lemma root_no_parent: "vfs_ok s \<Longrightarrow> tree_ok s \<Longrightarrow> (p, vs_root s) \<notin> tree_links s"
  using tree_links_parent [of s p "vs_root s"] tree_links_nodes [of s p "vs_root s"] by (auto simp: tree_ok_def)

text \<open>Every node but the root has exactly one parent, the one that it names.\<close>

lemma tree_links_iff:
  assumes ok: "vfs_ok s" "tree_ok s" and n: "vs_nodes s n = Some nd"
  shows "(p, n) \<in> tree_links s \<longleftrightarrow> n \<noteq> vs_root s \<and> p = vn_parent nd"
proof -
  have "(vn_parent nd, n) \<in> tree_links s" if ne: "n \<noteq> vs_root s"
  proof -
    have "(vs_root s, n) \<in> (tree_links s)\<^sup>*" using ok(2) n by (auto simp: tree_ok_def)
    then obtain q where "(q, n) \<in> tree_links s" using ne by (metis rtranclE)
    then show ?thesis using tree_links_parent [OF ok(1) _ n] by metis
  qed
  then show ?thesis
    using tree_links_parent [OF ok(1) _ n] root_no_parent [OF ok] by blast
qed

text \<open>No node is below itself: going up from it one would come to the root, which is below nothing.\<close>

lemma tree_acyclic:
  assumes ok: "vfs_ok s" "tree_ok s" and n: "vs_nodes s n \<noteq> None"
  shows "(n, n) \<notin> (tree_links s)\<^sup>+"
proof -
  have "(vs_root s, n) \<in> (tree_links s)\<^sup>*" using ok(2) n by (simp add: tree_ok_def)
  then show ?thesis
  proof (induction rule: rtrancl_induct)
    case base
    show ?case using root_no_parent [OF ok] by (metis tranclE)
  next
    case (step q m)
    show ?case
    proof
      assume "(m, m) \<in> (tree_links s)\<^sup>+"
      then obtain k where k: "(m, k) \<in> (tree_links s)\<^sup>*" "(k, m) \<in> tree_links s" by (metis tranclD2)
      obtain md where "vs_nodes s m = Some md" using tree_links_nodes [OF ok(1) step.hyps(2)] by auto
      then have "k = q" using tree_links_parent [OF ok(1)] k(2) step.hyps(2) by metis
      then have "(q, q) \<in> (tree_links s)\<^sup>+" using step.hyps(2) k(1) by (metis rtrancl_into_trancl2)
      then show False using step.IH by blast
    qed
  qed
qed

lemma tree_ok_cong: "vs_nodes s' = vs_nodes s \<Longrightarrow> vs_root s' = vs_root s \<Longrightarrow> tree_ok s' = tree_ok s"
  by (simp add: tree_ok_def tree_links_def)

lemma put_shape_tree:
  assumes "tree_ok s" and nd: "vs_nodes s n = Some nd" and sh: "same_shape nd nd'"
  shows "tree_ok (put_node s n nd')"
proof -
  have "kids nd' = kids nd" using sh by (simp add: same_shape_def kids_def)
  then have l: "tree_links (put_node s n nd') = tree_links s"
    using nd by (auto simp: tree_links_def put_node_def split: if_splits)
  show ?thesis
    using assms(1) nd sh unfolding tree_ok_def l by (auto simp: put_node_def same_shape_def)
qed

lemma grown_tree:
  assumes ok: "tree_ok s" and root: "vs_nodes s (vs_root s) \<noteq> None" and g: "grown s s' p new cn"
  shows "tree_ok s'"
proof -
  obtain nd nd' where nd: "vs_nodes s p = Some nd" and n: "vs_nodes s' = (vs_nodes s)(p \<mapsto> nd', new \<mapsto> cn)"
    and k: "kids nd' = kids nd @ [new]" "vn_parent nd' = vn_parent nd"
    and new: "vs_nodes s new = None" "new \<noteq> 0" "vs_root s' = vs_root s"
    using g unfolding grown_def by blast
  have pn: "p \<noteq> new" using nd new(1) by auto
  have sub: "tree_links s \<subseteq> tree_links s'" "(p, new) \<in> tree_links s'"
    using nd new(1) k(1) pn by (auto simp: tree_links_def n)
  have old: "(vs_root s, m) \<in> (tree_links s')\<^sup>*" if "vs_nodes s m \<noteq> None" for m
    using ok that rtrancl_mono [OF sub(1)] by (auto simp: tree_ok_def)
  have "(vs_root s, new) \<in> (tree_links s')\<^sup>*"
    using old [of p] nd sub(2) by (simp add: rtrancl_into_rtrancl)
  then have "(vs_root s, m) \<in> (tree_links s')\<^sup>*" if "vs_nodes s' m \<noteq> None" for m
    using that old nd by (auto simp: n split: if_splits)
  moreover have "vn_parent rd = 0" if "vs_nodes s' (vs_root s) = Some rd" for rd
  proof -
    have "vs_root s \<noteq> new" using root new(1) by auto
    then show ?thesis using that ok nd k(2) by (auto simp: n tree_ok_def split: if_splits)
  qed
  moreover have "vs_nodes s' 0 = None" using ok nd new(2) by (auto simp: n tree_ok_def)
  ultimately show ?thesis unfolding tree_ok_def new(3) by blast
qed

text \<open>The operations of the VFS, with the guarantee of the allocator that what it returns is not in use.\<close>

inductive vfs_step :: "vfs \<Rightarrow> vfs \<Rightarrow> bool" where
  mkdir: "vs_nodes s new = None \<Longrightarrow> vfs_mkdir s path mode arr new = Inr (hr, s') \<Longrightarrow> vfs_step s s'"
| create: "vs_nodes s new = None \<Longrightarrow> vfs_create s path perm arr new = Inr (Served (hr, s')) \<Longrightarrow> vfs_step s s'"
| mount_device: "vs_nodes s new = None \<Longrightarrow> vfs_mount_device init s dev path arr new content = Inr (hr, s') \<Longrightarrow> vfs_step s s'"
| unmount_device: "vfs_unmount_device fin s path = Inr (hr, s') \<Longrightarrow> vfs_step s s'"
| mount_fs: "vs_nodes s new = None \<Longrightarrow> vfs_mount_fs s mp ctor storage drv arr new = Inr (hr, s') \<Longrightarrow> vfs_step s s'"
| unmount_fs: "vfs_unmount_fs st s path = Inr (hr, s') \<Longrightarrow> vfs_step s s'"
| open_file: "vs_streams s str = None \<Longrightarrow> vfs_open dev_open ok s path mode str = Inr (Served (hr, out, s')) \<Longrightarrow> vfs_step s s'"
| close_file: "vfs_close dev_close s str = Inr (hr, out, s') \<Longrightarrow> vfs_step s s'"
| read_file: "vfs_file_read s str n buf = Inr (hr, out, cnt, s') \<Longrightarrow> vfs_step s s'"
| write_file: "vfs_file_write junk a r s str n buf = Inr (hr, cnt, s') \<Longrightarrow> vfs_step s s'"
| seek_file: "vfs_file_seek c s str pos origin = Inr (hr, c', s') \<Longrightarrow> vfs_step s s'"
| tell_file: "vfs_file_tell c s str = Inr (pos, c', s') \<Longrightarrow> vfs_step s s'"

inductive vfs_reach :: "vfs \<Rightarrow> bool" where
  boot: "vs_nodes s0 = Map.empty \<Longrightarrow> vs_streams s0 = Map.empty \<Longrightarrow> vfs_init s0 new = Inr (S_OK, s) \<Longrightarrow> vfs_reach s"
| step: "vfs_reach s \<Longrightarrow> vfs_step s s' \<Longrightarrow> vfs_reach s'"

lemma node_name_cong: "vs_nodes s' = vs_nodes s \<Longrightarrow> node_name s' = node_name s"
  by (simp add: node_name_def fun_eq_iff)

lemma vfs_ok_cong: "vs_nodes s' = vs_nodes s \<Longrightarrow> vs_root s' = vs_root s \<Longrightarrow> vfs_ok s' = vfs_ok s"
proof -
  assume n: "vs_nodes s' = vs_nodes s" and r: "vs_root s' = vs_root s"
  show ?thesis unfolding vfs_ok_def node_ok_def node_name_cong [OF n] n r ..
qed

lemma streams_of_cong: "vs_streams s' = vs_streams s \<Longrightarrow> streams_of s' = streams_of s"
  by (simp add: streams_of_def fun_eq_iff)

lemma put_node_inv:
  assumes "vfs_inv s" "vs_nodes s n = Some nd" "same_shape nd nd'" "vn_ref_count nd' = vn_ref_count nd"
  shows "vfs_inv (put_node s n nd')"
proof -
  have so: "streams_of (put_node s n nd') = streams_of s"
    by (rule streams_of_cong) (simp add: put_node_def)
  have "refs_ok (put_node s n nd')"
    using assms(1,2,4) unfolding refs_ok_def so vfs_inv_def by (auto simp: put_node_def)
  then show ?thesis
    using assms(1) put_shape_ok [OF _ assms(2,3)] put_shape_tree [OF _ assms(2,3)] by (simp add: vfs_inv_def)
qed

lemma put_stream_inv:
  assumes "vfs_inv s" "vs_streams s p = Some st" "st_priv_data st' = st_priv_data st"
  shows "vfs_inv (put_stream s p st')"
proof -
  have so: "streams_of (put_stream s p st') = streams_of s"
    using assms(2,3) by (auto simp: streams_of_def put_stream_def fun_eq_iff)
  have "refs_ok (put_stream s p st')"
    using assms unfolding refs_ok_def so vfs_inv_def by (auto simp: put_stream_def)
  moreover have "vfs_ok (put_stream s p st') = vfs_ok s"
    by (rule vfs_ok_cong) (simp_all add: put_stream_def)
  moreover have "tree_ok (put_stream s p st') = tree_ok s"
    by (rule tree_ok_cong) (simp_all add: put_stream_def)
  ultimately show ?thesis using assms(1) by (simp add: vfs_inv_def)
qed

lemma drivers_inv [simp]: "vfs_inv (s\<lparr>vs_drivers := d\<rparr>) = vfs_inv s"
proof -
  have "vfs_ok (s\<lparr>vs_drivers := d\<rparr>) = vfs_ok s" by (rule vfs_ok_cong) simp_all
  moreover have "tree_ok (s\<lparr>vs_drivers := d\<rparr>) = tree_ok s" by (rule tree_ok_cong) simp_all
  moreover have "streams_of (s\<lparr>vs_drivers := d\<rparr>) = streams_of s" by (rule streams_of_cong) simp
  ultimately show ?thesis by (simp add: vfs_inv_def refs_ok_def)
qed

lemma grown_inv:
  assumes inv: "vfs_inv s" and g: "grown s s' p new (new_node p nd name ty perm drv)" and fresh: "child s p name = None"
  shows "vfs_inv s'"
proof -
  have st: "vs_streams s' = vs_streams s" and nn: "vs_nodes s new = None" using g by (simp_all add: grown_def)
  have so: "streams_of s' = streams_of s" using st by (rule streams_of_cong)
  have none: "streams_of s new = {}" using inv nn by (fastforce simp: vfs_inv_def refs_ok_def streams_of_def)
  have ok: "vfs_ok s'"
    using grown_ok [OF _ g] inv fresh by (simp add: vfs_inv_def new_node_def)
  obtain nd1 nd2 where n: "vs_nodes s p = Some nd1" "vs_nodes s' = (vs_nodes s)(p \<mapsto> nd2, new \<mapsto> new_node p nd name ty perm drv)"
    "vn_ref_count nd2 = vn_ref_count nd1"
    using g unfolding grown_def by blast
  have "vn_ref_count (new_node p nd name ty perm drv) = 0" by (simp add: new_node_def zero_node_def)
  then have "refs_ok s'"
    using inv n none unfolding refs_ok_def vfs_inv_def so st by auto
  moreover have "vs_nodes s (vs_root s) \<noteq> None" "tree_ok s" using inv by (simp_all add: vfs_inv_def vfs_ok_def)
  then have "tree_ok s'" using grown_tree [OF _ _ g] by blast
  ultimately show ?thesis using ok by (simp add: vfs_inv_def)
qed

lemma add_inv:
  assumes inv: "vfs_inv s" and p: "vs_nodes s p \<noteq> None" and new: "vs_nodes s new = None"
    and r: "add_and_set s p name ty perm drv arr new = Inr (hr, n, s')"
  shows "vfs_inv s' \<and> n = new \<and> vs_nodes s' new \<noteq> None"
proof -
  obtain nd where nd: "vs_nodes s p = Some nd" using p by auto
  have ok: "vfs_ok s" using inv by (simp add: vfs_inv_def)
  note a = add_and_set_Inr [OF ok nd new r]
  then show ?thesis
    using grown_inv [OF inv, of s' p new nd name ty perm drv] by (auto elim!: grownE)
qed

lemma parse_add_inv:
  assumes inv: "vfs_inv s" and new: "vs_nodes s new = None"
    and p: "vfs_parse_url s url (vs_root s) b e = Inr (h, n, ext)" "SUCCEEDED h"
  shows "add_and_set s n name ty perm drv arr new = Inr (hr, k, s') \<Longrightarrow> vfs_inv s' \<and> k = new \<and> vs_nodes s' new \<noteq> None"
    and "add_and_set (s\<lparr>vs_drivers := d\<rparr>) n name ty perm drv arr new = Inr (hr, k, s') \<Longrightarrow> vfs_inv s'"
proof -
  have n: "vs_nodes s n \<noteq> None" using parse_node [OF _ p] inv by (simp add: vfs_inv_def)
  show "add_and_set s n name ty perm drv arr new = Inr (hr, k, s') \<Longrightarrow> vfs_inv s' \<and> k = new \<and> vs_nodes s' new \<noteq> None"
    by (rule add_inv [OF inv n new])
  show "add_and_set (s\<lparr>vs_drivers := d\<rparr>) n name ty perm drv arr new = Inr (hr, k, s') \<Longrightarrow> vfs_inv s'"
    using add_inv [of "s\<lparr>vs_drivers := d\<rparr>" n new] inv n new by simp
qed

lemma mkdir_inv:
  assumes inv: "vfs_inv s" and new: "vs_nodes s new = None" and r: "vfs_mkdir s path mode arr new = Inr (hr, s')"
  shows "vfs_inv s'"
  using r inv by (auto simp: vfs_mkdir_def split: if_splits dest: parse_add_inv(1) [OF inv new])

lemma create_inv:
  assumes inv: "vfs_inv s" and new: "vs_nodes s new = None" and r: "vfs_create s path perm arr new = Inr (Served (hr, s'))"
  shows "vfs_inv s'"
  using r inv
  by (auto simp: vfs_create_def pass_on_def split: if_splits option.splits dest: parse_add_inv(1) [OF inv new])

lemma same_shape_device: "same_shape nd (nd\<lparr>vn_content_capacity := k, vn_device := d\<rparr>)"
  "same_shape nd (nd\<lparr>vn_device := d\<rparr>)" "same_shape nd (nd\<lparr>vn_lock := m\<rparr>)" "same_shape nd (nd\<lparr>vn_content := c\<rparr>)"
  by (simp_all add: same_shape_def)

lemma mount_device_inv:
  assumes inv: "vfs_inv s" and new: "vs_nodes s new = None"
    and r: "vfs_mount_device init s dev path arr new content = Inr (hr, s')"
  shows "vfs_inv s'"
proof -
  have put: "vfs_inv (put_node t n (nd\<lparr>vn_content_capacity := k, vn_device := d\<rparr>))"
    if "vfs_inv t" "vs_nodes t n = Some nd" for t n nd k d
    by (rule put_node_inv [OF that same_shape_device(1)]) simp
  show ?thesis
    using r inv
    by (auto simp: vfs_mount_device_def derefN_def Let_def case_prod_unfold split: if_splits option.splits
        intro!: put dest: parse_add_inv(1) [OF inv new])
qed

lemma unmount_device_inv:
  assumes inv: "vfs_inv s" and r: "vfs_unmount_device fin s path = Inr (hr, s')"
  shows "vfs_inv s'"
proof -
  have put: "vfs_inv (put_node s n (nd\<lparr>vn_device := d\<rparr>))" if "vs_nodes s n = Some nd" for n nd d
    by (rule put_node_inv [OF inv that same_shape_device(2)]) simp
  show ?thesis
    using r inv by (auto simp: vfs_unmount_device_def derefN_def split: if_splits option.splits intro!: put)
qed

lemma mount_fs_inv:
  assumes inv: "vfs_inv s" and new: "vs_nodes s new = None"
    and r: "vfs_mount_fs s mp ctor storage drv arr new = Inr (hr, s')"
  shows "vfs_inv s'"
  using r inv
  by (auto simp: vfs_mount_fs_def Let_def case_prod_unfold split: if_splits option.splits
      dest: parse_add_inv(2) [OF inv new])

lemma unmount_fs_inv:
  assumes inv: "vfs_inv s" and r: "vfs_unmount_fs st s path = Inr (hr, s')"
  shows "vfs_inv s'"
  using r inv by (auto simp: vfs_unmount_fs_def derefN_def split: if_splits option.splits)

lemma refs_node: "vfs_inv s \<Longrightarrow> vs_nodes s n = Some nd \<Longrightarrow> vn_ref_count nd = of_nat (card (streams_of s n))"
  by (simp add: vfs_inv_def refs_ok_def)

lemma finite_streams: "vfs_inv s \<Longrightarrow> finite (streams_of s n)"
  by (rule finite_subset [of _ "dom (vs_streams s)"]) (auto simp: streams_of_def vfs_inv_def refs_ok_def)

lemma same_shape_ref: "same_shape nd (nd\<lparr>vn_ref_count := k\<rparr>)"
  by (simp add: same_shape_def)

text \<open>A new stream, with the count of its node raised.\<close>

lemma add_stream_inv:
  assumes inv: "vfs_inv s" and nd: "vs_nodes s n = Some nd" and p: "vs_streams s p = None" and st: "st_priv_data st = n"
  shows "vfs_inv (put_stream (put_node s n (nd\<lparr>vn_ref_count := vn_ref_count nd + 1\<rparr>)) p st)"
proof -
  let ?s = "put_stream (put_node s n (nd\<lparr>vn_ref_count := vn_ref_count nd + 1\<rparr>)) p st"
  have so: "streams_of ?s k = (if k = n then insert p (streams_of s n) else streams_of s k)" for k
    using p st by (auto simp: streams_of_def put_stream_def put_node_def)
  have "p \<notin> streams_of s n" using p by (simp add: streams_of_def)
  then have "card (insert p (streams_of s n)) = Suc (card (streams_of s n))"
    using finite_streams [OF inv] by simp
  then have "refs_ok ?s"
    using inv nd p st refs_node [OF inv nd] unfolding refs_ok_def so vfs_inv_def
    by (auto simp: put_stream_def put_node_def)
  moreover have "vfs_ok ?s"
    using put_shape_ok [OF _ nd same_shape_ref] inv vfs_ok_cong [of ?s "put_node s n (nd\<lparr>vn_ref_count := vn_ref_count nd + 1\<rparr>)"]
    by (simp add: vfs_inv_def put_stream_def)
  moreover have "tree_ok ?s"
    using put_shape_tree [OF _ nd same_shape_ref] inv tree_ok_cong [of ?s "put_node s n (nd\<lparr>vn_ref_count := vn_ref_count nd + 1\<rparr>)"]
    by (simp add: vfs_inv_def put_stream_def)
  ultimately show ?thesis by (simp add: vfs_inv_def)
qed

lemma remove_stream_inv:
  assumes inv: "vfs_inv s" and st: "vs_streams s p = Some st" and nd: "vs_nodes s (st_priv_data st) = Some nd"
  shows "vfs_inv (put_node (s\<lparr>vs_streams := (vs_streams s)(p := None)\<rparr>) (st_priv_data st)
           (nd\<lparr>vn_ref_count := vn_ref_count nd - 1\<rparr>))" (is "vfs_inv ?s")
proof -
  have so: "streams_of ?s k = (if k = st_priv_data st then streams_of s k - {p} else streams_of s k)" for k
    using st by (auto simp: streams_of_def put_node_def)
  have p: "p \<in> streams_of s (st_priv_data st)" using st by (simp add: streams_of_def)
  then have "Suc (card (streams_of s (st_priv_data st) - {p})) = card (streams_of s (st_priv_data st))"
    using finite_streams [OF inv] by (metis card_Suc_Diff1)
  then have "(of_nat (card (streams_of s (st_priv_data st) - {p})) :: u32) = of_nat (card (streams_of s (st_priv_data st))) - 1"
    by (metis add_diff_cancel_left' of_nat_Suc)
  then have "refs_ok ?s"
    using inv nd refs_node [OF inv nd] unfolding refs_ok_def so vfs_inv_def
    by (auto simp: put_node_def)
  moreover have "vfs_ok ?s"
    using put_shape_ok [OF _ nd same_shape_ref] inv
      vfs_ok_cong [of ?s "put_node s (st_priv_data st) (nd\<lparr>vn_ref_count := vn_ref_count nd - 1\<rparr>)"]
    by (simp add: vfs_inv_def put_node_def)
  moreover have "tree_ok ?s"
    using put_shape_tree [OF _ nd same_shape_ref] inv
      tree_ok_cong [of ?s "put_node s (st_priv_data st) (nd\<lparr>vn_ref_count := vn_ref_count nd - 1\<rparr>)"]
    by (simp add: vfs_inv_def put_node_def)
  ultimately show ?thesis by (simp add: vfs_inv_def)
qed

lemma addref_release:
  assumes nd: "vs_nodes s n = Some nd" and a: "vfsnode_addref s n = Inr s1" and r: "vfsnode_release s1 n = Inr (k, s2)"
  shows "s2 = s"
proof -
  have s1: "s1 = put_node s n (nd\<lparr>vn_ref_count := vn_ref_count nd + 1\<rparr>)"
    using nd a by (simp add: vfsnode_addref_def derefN_def)
  have "s2 = put_node s1 n (nd\<lparr>vn_ref_count := vn_ref_count nd + 1 - 1\<rparr>)"
    using r unfolding s1 by (simp add: vfsnode_release_def derefN_def put_node_def split: if_splits)
  moreover have "nd\<lparr>vn_ref_count := vn_ref_count nd + 1 - 1\<rparr> = nd" by simp
  ultimately have "s2 = put_node s n nd" unfolding s1 by (simp add: put_node_def)
  then show ?thesis using nd by (simp add: put_node_def fun_upd_idem)
qed

lemma open_cases:
  assumes "vfs_open drv ok s path mode str = Inr (Served (hr, out, s'))"
  shows "s' = s \<or> (\<exists>n nd s1. vs_nodes s n = Some nd \<and> vfsnode_addref s n = Inr s1
    \<and> ((\<exists>k. vfsnode_release s1 n = Inr (k, s')) \<or> (\<exists>st. st_priv_data st = n \<and> s' = put_stream s1 str st)))"
proof -
  obtain h n ext where p: "vfs_parse_url s path (vs_root s) (Some 1024) (Some 1024) = Inr (h, n, ext)"
    using assms by (auto simp: vfs_open_def)
  note r = assms [unfolded vfs_open_def p bindR.simps prod.case]
  show ?thesis
  proof (cases "FAILED h \<or> ext \<noteq> None \<or> vs_nodes s n = None")
    case True
    then show ?thesis using r by (auto simp: pass_on_def derefN_def split: if_splits option.splits)
  next
    case False
    then obtain nd where nd: "vs_nodes s n = Some nd" "ext = None" "\<not> FAILED h" by blast
    note r = r [unfolded nd(2) option.case derefN_def nd(1) bindR.simps]
    show ?thesis
    proof (cases "vn_permission nd \<noteq> NODE_MODE_ALL_RWE \<or> vn_type nd AND NODE_TYPE_DIRECTORY \<noteq> 0")
      case True
      then show ?thesis using r nd(3) by (auto split: if_splits)
    next
      case False
      then obtain s1 where s1: "vfsnode_addref s n = Inr s1" using r nd by (auto split: if_splits)
      have "(\<exists>k. vfsnode_release s1 n = Inr (k, s')) \<or> s' \<in> put_stream s1 str ` {st. st_priv_data st = n}"
        using r nd(3) False unfolding s1 bindR.simps Let_def
        by (cases "vn_device nd") (auto split: if_splits intro!: imageI)
      then show ?thesis using nd(1) s1 by blast
    qed
  qed
qed

lemma open_inv:
  assumes inv: "vfs_inv s" and p: "vs_streams s str = None"
    and r: "vfs_open drv ok s path mode str = Inr (Served (hr, out, s'))"
  shows "vfs_inv s'"
  using open_cases [OF r]
proof (elim disjE exE conjE)
  fix n nd s1 st
  assume "vs_nodes s n = Some nd" "vfsnode_addref s n = Inr s1" "st_priv_data st = n" "s' = put_stream s1 str st"
  then show ?thesis
    using add_stream_inv [OF inv _ p, of n nd st] by (simp add: vfsnode_addref_def derefN_def)
next
  fix n nd s1 k
  assume "vs_nodes s n = Some nd" "vfsnode_addref s n = Inr s1" "vfsnode_release s1 n = Inr (k, s')"
  then show ?thesis using addref_release inv by blast
qed (simp add: inv)

lemma close_inv:
  assumes inv: "vfs_inv s" and r: "vfs_close dev_close s str = Inr (hr, out, s')"
  shows "vfs_inv s'"
proof -
  obtain st nd where st: "vs_streams s str = Some st" "vs_nodes s (st_priv_data st) = Some nd"
    using r by (auto simp: vfs_close_def derefS_def derefN_def split: option.splits)
  then have "s' = put_node (s\<lparr>vs_streams := (vs_streams s)(str := None)\<rparr>) (st_priv_data st)
           (nd\<lparr>vn_ref_count := vn_ref_count nd - 1\<rparr>)"
    using r by (auto simp: vfs_close_def derefS_def derefN_def vfsnode_release_def split: if_splits)
  then show ?thesis using remove_stream_inv [OF inv st] by simp
qed

text \<open>Reading, writing and seeking change contents, sizes, positions and locks only.\<close>

lemma stream_put_inv:
  assumes "vfs_inv s" "vs_streams s p = Some st" "st_priv_data st' = st_priv_data st"
    "vs_nodes s n = Some nd" "same_shape nd nd'" "vn_ref_count nd' = vn_ref_count nd"
  shows "vfs_inv (put_stream (put_node s n nd') p st')"
  using put_node_inv [OF assms(1,4-6)] assms(2,3) by (intro put_stream_inv [where st = st]) (auto simp: put_node_def)

lemma read_inv:
  assumes inv: "vfs_inv s" and r: "vfs_file_read s str n buf = Inr (hr, out, cnt, s')"
  shows "vfs_inv s'"
  using r inv
  by (auto simp: vfs_file_read_def derefS_def derefN_def Let_def split: if_splits option.splits intro: put_stream_inv)

lemma content_same:
  "same_shape nd (grow_content junk need (first_content junk k nd))"
  "vn_ref_count (grow_content junk need (first_content junk k nd)) = vn_ref_count nd"
  by (simp_all add: same_shape_def grow_content_def first_content_def Let_def)

lemma store_same: "same_shape nd nd1 \<Longrightarrow> same_shape nd (store_content b pos nd1)"
  "vn_ref_count (store_content b pos nd1) = vn_ref_count nd1"
  by (simp_all add: same_shape_def store_content_def Let_def)

lemma lost_same: "same_shape nd (nd\<lparr>vn_content := None\<rparr>)"
  "same_shape nd ((first_content junk k nd)\<lparr>vn_content := None\<rparr>)"
  "vn_ref_count (first_content junk k nd) = vn_ref_count nd"
  by (simp_all add: same_shape_def first_content_def)

lemma write_inv:
  assumes inv: "vfs_inv s" and r: "vfs_file_write junk a ra s str n buf = Inr (hr, cnt, s')"
  shows "vfs_inv s'"
proof (cases "vs_streams s str")
  case None
  then show ?thesis using r by (simp add: vfs_file_write_def derefS_def)
next
  case (Some st)
  show ?thesis
  proof (cases "vs_nodes s (st_priv_data st)")
    case None
    then show ?thesis using r inv Some by (auto simp: vfs_file_write_def derefS_def derefN_def split: if_splits)
  next
    case nd: (Some nd)
    let ?nd = "grow_content junk (st_pos st + n) (first_content junk n nd)"
    have "vfs_inv (put_stream (put_node s (st_priv_data st) (store_content b pos ?nd)) str (st\<lparr>st_pos := k\<rparr>))" for b pos k
      by (rule stream_put_inv [OF inv Some _ nd]) (simp_all add: content_same store_same)
    moreover have "vfs_inv (put_node s (st_priv_data st) (nd\<lparr>vn_content := None\<rparr>))"
      "vfs_inv (put_node s (st_priv_data st) ((first_content junk n nd)\<lparr>vn_content := None\<rparr>))"
      by (rule put_node_inv [OF inv nd]; simp add: lost_same)+
    ultimately show ?thesis
      using r inv unfolding vfs_file_write_def derefS_def derefN_def Some nd option.case bindR.simps Let_def
      by (auto split: if_splits)
  qed
qed

lemma seek_inv:
  assumes inv: "vfs_inv s" and r: "vfs_file_seek c s str pos origin = Inr (hr, c', s')"
  shows "vfs_inv s'"
proof -
  obtain st nd where st: "vs_streams s str = Some st" "vs_nodes s (st_priv_data st) = Some nd"
    using r by (auto simp: vfs_file_seek_def derefS_def derefN_def split: option.splits)
  have "vfs_inv (put_stream (put_node s (st_priv_data st) (nd\<lparr>vn_lock := m\<rparr>)) str st')" if "st_priv_data st' = st_priv_data st" for m st'
    by (rule stream_put_inv [OF inv st(1) that st(2)]) (simp_all add: same_shape_def)
  then show ?thesis
    using r st by (auto simp: vfs_file_seek_def derefS_def derefN_def Let_def split: if_splits option.splits prod.splits)
qed

lemma tell_inv:
  assumes inv: "vfs_inv s" and r: "vfs_file_tell c s str = Inr (pos, c', s')"
  shows "vfs_inv s'"
  using r inv by (auto simp: vfs_file_tell_def derefS_def split: option.splits intro: put_stream_inv)

lemma step_inv: "vfs_step s s' \<Longrightarrow> vfs_inv s \<Longrightarrow> vfs_inv s'"
  by (induction rule: vfs_step.induct)
    (blast intro: mkdir_inv create_inv mount_device_inv unmount_device_inv mount_fs_inv unmount_fs_inv open_inv
       close_inv read_inv write_inv seek_inv tell_inv)+

lemma boot_inv:
  assumes "vs_nodes s0 = Map.empty" "vs_streams s0 = Map.empty" "vfs_init s0 new = Inr (S_OK, s)"
  shows "vfs_inv s"
  using assms
  by (auto simp: vfs_init_def put_node_def vfs_inv_def vfs_ok_def node_ok_def refs_ok_def streams_of_def zero_node_def kids_def
      tree_ok_def split: if_splits)

lemma reach_inv: "vfs_reach s \<Longrightarrow> vfs_inv s"
  by (induction rule: vfs_reach.induct) (auto intro: boot_inv step_inv)

section \<open>Directory listings\<close>

fun read_all :: "nat \<Rightarrow> dir_stream \<Rightarrow> ((bytes \<times> u32 \<times> u32) list \<times> hresult \<times> dir_stream) run" where
  "read_all 0 d = bindR (vfs_readdir d) (\<lambda>(hr, e, d). Inr ([], hr, d))"
| "read_all (Suc k) d =
     bindR (vfs_readdir d) (\<lambda>(hr, e, d).
     case e of
       None \<Rightarrow> Inr ([], hr, d)
     | Some x \<Rightarrow> bindR (read_all k d) (\<lambda>(xs, hr, d). Inr (x # xs, hr, d)))"

definition entry_of :: "vfs \<Rightarrow> u32 \<Rightarrow> bytes \<times> u32 \<times> u32" where
  "entry_of s c = (case vs_nodes s c of None \<Rightarrow> ([], 0, 0) | Some nd \<Rightarrow> (vn_name nd, ucast (vn_size nd), scast (vn_type nd)))"

lemma dir_entries_ok:
  "\<forall>c \<in> set cs. vs_nodes s c \<noteq> None \<and> length (node_name s c) < 255 \<Longrightarrow> dir_entries s cs = Inr (map (entry_of s) cs)"
  by (induction cs) (auto simp: derefN_def entry_of_def node_name_def VFS_MAX_DIRNAME_LENGTH_def not_le)

lemma read_all_rest:
  assumes "ds_len d = length (ds_names d)" "length (ds_info d) = length (ds_names d)" "ds_pos d + k = ds_len d"
  shows "read_all k d = Inr (drop (ds_pos d) (zip (ds_names d) (ds_info d)), E_ENDOFSTR, d\<lparr>ds_pos := ds_len d\<rparr>)"
  using assms
proof (induction k arbitrary: d)
  case 0
  then show ?case by (simp add: vfs_readdir_def)
next
  case (Suc k)
  have "drop (ds_pos d) (zip (ds_names d) (ds_info d))
      = (ds_names d ! ds_pos d, ds_info d ! ds_pos d) # drop (Suc (ds_pos d)) (zip (ds_names d) (ds_info d))"
    using Suc.prems by (subst Cons_nth_drop_Suc [symmetric]) simp_all
  then show ?case
    using Suc.IH [of "d\<lparr>ds_pos := ds_pos d + 1\<rparr>"] Suc.prems by (simp add: vfs_readdir_def)
qed

section \<open>Properties\<close>

text \<open>C13. A sequence of reads, writes and seeks through \<^verbatim>\<open>kstdio\<close>, on a stream of a file that is open for both, answers
  as a list of bytes with a position: a read returns the bytes there are, a write replaces and extends, whatever
  reallocation it takes, a seek to a target outside the file is refused. It does so to the end, or up to a write for
  which the allocator has no memory, which answers \<^verbatim>\<open>E_OUTOFMEM\<close>; when it always delivers, to the end. Each read
  asks for less than 2 GB, and the file, with all that is written, stays below 2 GB. Seeks are not limited, but their
  target is what its lower 32 bits say as a signed number, in the list of bytes as in the code: a seek to \<open>2 ^ 32\<close>
  succeeds and goes to the beginning (\<open>seek_wraps_to_beginning\<close>).\<close>

theorem vfs_file_refines_bytes:
  assumes "shows_file c s str (d, p)" and "\<forall>f \<in> set (map fst fs). read_fits_32 f"
    and "length d + sum_list (map op_writes (map fst fs)) < 2 ^ 31"
  shows "(\<exists>s'. k_run junk c str fs s = Inr (fst (file_run (map fst fs) (d, p)), c, s')
        \<and> shows_file c s' str (snd (file_run (map fst fs) (d, p))))
    \<or> (\<exists>before xs mem after s1 s2. fs = before @ (File_write xs, mem) # after \<and> mem \<noteq> (True, True)
        \<and> k_run junk c str before s = Inr (fst (file_run (map fst before) (d, p)), c, s1)
        \<and> shows_file c s1 str (snd (file_run (map fst before) (d, p)))
        \<and> k_step junk mem c str (File_write xs) s1 = Inr ((hr_code E_OUTOFMEM, []), c, s2))"
  using run_refines [OF assms, of junk] unfolding follows_def runs_out_def by blast

text \<open>A seek whose target does not fit in 32 bits is not refused: \<open>2 ^ 32\<close> is the beginning of any file.\<close>

theorem seek_wraps_to_beginning:
  assumes "vs_streams s str = Some st" and "vs_nodes s (st_priv_data st) = Some nd" and "stream_ok c st nd"
  shows "\<exists>s'. k_fseek drv c s str 0x100000000 KSTREAM_ORIGIN_BEGINNING = Inr (hr_code S_OK, c, s')
    \<and> shows_file c s' str (node_data nd, 0)"
proof -
  have "sint (0x100000000 :: u64) = 2 ^ 32" by (simp add: sint_uint)
  moreover have "low_half (2 ^ 32) = 0" by (simp add: low_half_def word_of_int_eq_iff)
  ultimately have fs: "file_step (File_seek 0x100000000 KSTREAM_ORIGIN_BEGINNING) (node_data nd, unat (st_pos st))
      = ((hr_code S_OK, []), (node_data nd, 0))"
    by (simp add: seek_target_def)
  obtain s' where s': "k_step (\<lambda>_. 0) (True, True) c str (File_seek 0x100000000 KSTREAM_ORIGIN_BEGINNING) s
      = Inr ((hr_code S_OK, []), c, s')" "shows_file c s' str (node_data nd, 0)"
    using seek_refines [OF assms, of "\<lambda>_. 0" "(True, True)" "0x100000000" KSTREAM_ORIGIN_BEGINNING] unfolding fs by auto
  then show ?thesis
    using assms by (auto simp: k_fseek_def derefS_def stream_ok_def)
qed

text \<open>C18. In every state that the VFS can reach by its operations, whatever their arguments, the nodes are a tree: each
  is reached from the root by the child arrays and none is below itself; the root is nobody's child, and any other
  node is a child of the node that it names as its parent, and of no other. The children of a node are numbered in
  order and have different names, every stream belongs to a node, and the reference count of a node is the number of
  streams open on it, as a 32-bit number.\<close>

theorem vfs_tree_invariant:
  assumes "vfs_reach s" and "vs_nodes s n = Some nd"
  shows "(vs_root s, n) \<in> (tree_links s)\<^sup>* \<and> (n, n) \<notin> (tree_links s)\<^sup>+
    \<and> (\<forall>p. (p, n) \<in> tree_links s \<longleftrightarrow> n \<noteq> vs_root s \<and> p = vn_parent nd)
    \<and> (\<forall>i < vn_child_cnt nd. \<exists>cd. vs_nodes s (kids nd ! i) = Some cd \<and> vn_parent cd = n \<and> vn_index cd = of_nat i)
    \<and> length (kids nd) = vn_child_cnt nd \<and> distinct (map (node_name s) (kids nd))
    \<and> (\<forall>p st. vs_streams s p = Some st \<longrightarrow> vs_nodes s (st_priv_data st) \<noteq> None)
    \<and> finite (streams_of s n) \<and> vn_ref_count nd = of_nat (card (streams_of s n))"
proof -
  have inv: "vfs_inv s" using reach_inv [OF assms(1)] .
  then have ok: "vfs_ok s" "tree_ok s" and streams: "\<forall>p st. vs_streams s p = Some st \<longrightarrow> vs_nodes s (st_priv_data st) \<noteq> None"
    by (simp_all add: vfs_inv_def refs_ok_def)
  have "node_ok s n nd" using ok(1) assms(2) by (simp add: vfs_ok_def)
  moreover have "(vs_root s, n) \<in> (tree_links s)\<^sup>*" using ok(2) assms(2) by (simp add: tree_ok_def)
  ultimately show ?thesis
    using finite_streams [OF inv] refs_node [OF inv assms(2)] streams tree_acyclic [OF ok, of n] tree_links_iff [OF ok assms(2)]
      assms(2) by (simp add: node_ok_def)
qed

text \<open>Reading a directory stream to its end delivers the name, the size and the type of every child of the
  directory, in order, each once, and then \<^verbatim>\<open>E_ENDOFSTR\<close>; rewinding starts again.\<close>

theorem vfs_readdir_lists_children:
  assumes ok: "vfs_ok s" and path: "path_ok ns" and len: "length (join ns) < 1024"
    and dir: "walk s (vs_root s) ns = Some (n, None)" and nd: "vs_nodes s n = Some nd"
    and ty: "vn_type nd AND NODE_TYPE_DIRECTORY \<noteq> 0"
    and names: "length (vn_name nd) < 255" "\<forall>c \<in> set (kids nd). length (node_name s c) < 255"
  shows "\<exists>d. vfs_opendir True s (join ns) = Inr (Served (S_OK, Some d))
    \<and> (\<exists>e. read_all (length (kids nd)) d = Inr (map (entry_of s) (kids nd), E_ENDOFSTR, e)
          \<and> vfs_readdir e = Inr (E_ENDOFSTR, None, e) \<and> vfs_rewinddir e = (S_OK, d))"
proof -
  have nok: "node_ok s n nd" using ok nd by (simp add: vfs_ok_def)
  have p: "vfs_parse_url s (join ns) (vs_root s) (Some 1024) (Some 1024) = Inr (S_OK, n, None)"
    using parse_path [OF ok path, of "Some 1024" "Some 1024"] dir len by (simp add: buf_fits_def)
  have es: "dir_entries s (kids nd) = Inr (map (entry_of s) (kids nd))"
    using node_ok_child [OF nok] names(2) by (intro dir_entries_ok) fastforce
  define d where "d = \<lparr> ds_len = vn_child_cnt nd, ds_pos = 0, ds_names = map fst (map (entry_of s) (kids nd)),
    ds_info = map snd (map (entry_of s) (kids nd)), ds_dirname = vn_name nd \<rparr>"
  have "vfs_opendir True s (join ns) = Inr (Served (S_OK, Some d))"
    using ty names(1) by (simp add: vfs_opendir_def p derefN_def nd child_entries_ok [OF nok] es d_def VFS_MAX_DIRNAME_LENGTH_def)
  moreover have "read_all (length (kids nd)) d = Inr (drop (ds_pos d) (zip (ds_names d) (ds_info d)), E_ENDOFSTR, d\<lparr>ds_pos := ds_len d\<rparr>)"
    using node_okD(1) [OF nok] by (intro read_all_rest) (simp_all add: d_def)
  then have "read_all (length (kids nd)) d = Inr (map (entry_of s) (kids nd), E_ENDOFSTR, d\<lparr>ds_pos := ds_len d\<rparr>)"
    by (simp add: d_def zip_map_map zip_same_conv_map)
  moreover have "vfs_readdir (d\<lparr>ds_pos := ds_len d\<rparr>) = Inr (E_ENDOFSTR, None, d\<lparr>ds_pos := ds_len d\<rparr>)"
    "vfs_rewinddir (d\<lparr>ds_pos := ds_len d\<rparr>) = (S_OK, d)"
    by (simp_all add: vfs_readdir_def vfs_rewinddir_def d_def)
  ultimately show ?thesis by blast
qed

text \<open>A read whose length wraps the position around escapes the test against the size of the file: the
  whole length is copied, past the end of the content and of the caller's buffer.\<close>

theorem vfs_file_read_wraps:
  assumes st: "vs_streams s str = Some st" and nd: "vs_nodes s (st_priv_data st) = Some nd" "st_priv_data st \<noteq> 0"
    and mode: "st_mode st AND FILE_OPEN_READ \<noteq> 0" and c: "content_ok nd" and pos: "unat (st_pos st) \<le> unat (vn_size nd)"
    and wraps: "2 ^ 32 \<le> unat (st_pos st) + unat n"
  shows "vfs_file_read s str n buf = Inl BadAccess"
proof -
  have n: "unat n < 2 ^ 32" using unat_lt_2_32 [of n] by simp
  have "unat (st_pos st + n) = (unat (st_pos st) + unat n) mod 2 ^ 32" by (simp add: unat_word_ariths)
  also have "\<dots> = unat (st_pos st) + unat n - 2 ^ 32"
    using wraps n unat_lt_2_32 [of "st_pos st"] by (subst le_mod_geq) simp_all
  finally have sum: "unat (st_pos st + n) < unat (st_pos st)" using n wraps by linarith
  have sz: "unat (ucast (vn_size nd) :: u32) = unat (vn_size nd)" by (rule size32 [OF c])
  have "\<not> unat (st_pos st) + unat n \<le> length (content_bytes nd)"
    using c wraps unat_lt_2_32 [of "vn_content_capacity nd"] by (simp add: content_ok_def)
  moreover have "unat n \<noteq> 0" using wraps unat_lt_2_32 [of "st_pos st"] by auto
  ultimately have "memcpyR buf 0 (content_bytes nd) (unat (st_pos st)) (unat n) = Inl BadAccess" "n \<noteq> 0"
    by (auto simp: memcpyR_def unat_eq_zero)
  then show ?thesis
    using sum pos nd mode
    by (simp add: vfs_file_read_def derefS_def st derefN_def Let_def word_less_nat_alt sz)
qed

section \<open>Examples\<close>

text \<open>A file \<^verbatim>\<open>f\<close> in the root, open at its start.\<close>

definition file_vfs :: vfs where
  "file_vfs = \<lparr> vs_root = 1, vs_self = 0x100,
     vs_nodes = [1 \<mapsto> zero_node\<lparr>vn_type := NODE_TYPE_DIRECTORY, vn_children := Some [4], vn_child_cnt := 1,
                      vn_child_capacity := 5\<rparr>,
       4 \<mapsto> zero_node\<lparr>vn_name := [102], vn_type := NODE_TYPE_FILE, vn_parent := 1, vn_size := 3,
                      vn_content := Some [1, 2, 3], vn_content_capacity := 3, vn_ref_count := 1\<rparr>],
     vs_drivers = Map.empty,
     vs_streams = [8 \<mapsto> \<lparr> st_mode = 3, st_pos = 0, st_filename = [47, 102], st_read = Vfs_file_read,
       st_write = Vfs_file_write, st_seek = Vfs_file_seek, st_tell = Vfs_file_tell, st_ioctl = Vfs_file_ioctl,
       st_close = Vfs_close, st_priv_data = 4, st_lock = mutex_create \<rparr>] \<rparr>"

lemma file_vfs_shows: "shows_file (cpu_of (1, 1)) file_vfs 8 ([1, 2, 3], 0)"
  by (auto simp: shows_file_def file_vfs_def stream_ok_def FILE_OPEN_READ_def FILE_OPEN_WRITE_def free_lock_def
      lockable_def mutex_create_def spinlock_create_def zero_node_def zero_mutex_def content_ok_def node_data_def
      content_bytes_def cpu_of_def)

lemma vfs_file_refines_bytes_witness:
  "\<exists>s'. k_run (\<lambda>_. 0) (cpu_of (1, 1)) 8 [(File_read 2, True, True), (File_write [7, 8], True, True),
        (File_seek 1 KSTREAM_ORIGIN_BEGINNING, True, True), (File_read 9, True, True)] file_vfs
      = Inr ([(0, [1, 2]), (0, []), (0, []), (0, [2, 7, 8])], cpu_of (1, 1), s')
    \<and> shows_file (cpu_of (1, 1)) s' 8 ([1, 2, 7, 8], 4)"
proof -
  let ?fs = "[File_read 2, File_write [7, 8], File_seek 1 KSTREAM_ORIGIN_BEGINNING, File_read 9]"
  let ?ms = "map (\<lambda>f. (f, True, True)) ?fs"
  have m: "map fst ?ms = ?fs" "\<forall>g \<in> set ?ms. snd g = (True, True)" by simp_all
  have "\<forall>f \<in> set (map fst ?ms). read_fits_32 f" "length [1, 2, 3 :: u8] + sum_list (map op_writes (map fst ?ms)) < 2 ^ 31"
    by simp_all
  moreover have "low_half 1 = 1" by (rule low_half_small) simp_all
  then have "file_run ?fs ([1, 2, 3], 0) = ([(0, [1, 2]), (0, []), (0, []), (0, [2, 7, 8])], ([1, 2, 7, 8], 4))"
    by (simp add: Let_def buf_put_def seek_target_def origins)
  moreover have "\<not> (?ms = before @ (File_write xs, mem) # after \<and> mem \<noteq> (True, True))" for before xs mem after
    using m(2) by (metis in_set_conv_decomp snd_conv)
  ultimately have "\<exists>s'. k_run (\<lambda>_. 0) (cpu_of (1, 1)) 8 ?ms file_vfs
      = Inr ([(0, [1, 2]), (0, []), (0, []), (0, [2, 7, 8])], cpu_of (1, 1), s')
    \<and> shows_file (cpu_of (1, 1)) s' 8 ([1, 2, 7, 8], 4)"
    using vfs_file_refines_bytes [OF file_vfs_shows, of ?ms "\<lambda>_. 0"] unfolding m(1) by fastforce
  then show ?thesis by (simp del: k_run.simps)
qed

definition boot_vfs :: vfs where
  "boot_vfs = \<lparr> vs_root = 0, vs_self = 0x100, vs_nodes = Map.empty, vs_drivers = Map.empty, vs_streams = Map.empty \<rparr>"

lemma boot_reach: "\<exists>s s' nd. vfs_init boot_vfs 1 = Inr (S_OK, s) \<and> vfs_mkdir s [47, 97] 0xFFFF 5 2 = Inr (S_OK, s')
    \<and> vfs_reach s' \<and> vs_nodes s' 1 = Some nd \<and> vn_child_cnt nd = 1"
proof -
  obtain s where i: "vfs_init boot_vfs 1 = Inr (S_OK, s)" by (simp add: vfs_init_def)
  then have s: "s = (put_node boot_vfs 1 (zero_node\<lparr>vn_type := NODE_TYPE_DIRECTORY\<rparr>))\<lparr>vs_root := 1\<rparr>"
    by (simp add: vfs_init_def)
  have r: "vfs_reach s" by (rule vfs_reach.boot [OF _ _ i]) (simp_all add: boot_vfs_def)
  have ok: "vfs_ok s" using reach_inv [OF r] by (simp add: vfs_inv_def)
  have nd: "vs_nodes s 1 = Some (zero_node\<lparr>vn_type := NODE_TYPE_DIRECTORY\<rparr>)" "vs_root s = 1"
    by (simp_all add: s put_node_def)
  have c: "child s 1 [97] = None" by (simp add: child_def nd kids_def zero_node_def)
  have free: "vs_nodes s 2 = None" by (simp add: s put_node_def boot_vfs_def)
  obtain s' where s': "add_and_set s 1 [97] NODE_TYPE_DIRECTORY 0xFFFF (vs_self s) 5 2 = Inr (S_OK, 2, s')"
    "grown s s' 1 2 (new_node 1 (zero_node\<lparr>vn_type := NODE_TYPE_DIRECTORY\<rparr>) [97] NODE_TYPE_DIRECTORY 0xFFFF (vs_self s))"
    using add_and_set_ok [OF ok nd(1) _ _ free _ c, of 5 NODE_TYPE_DIRECTORY "0xFFFF" "vs_self s"]
    by (auto simp: zero_node_def)
  have path: "path_ok ([] @ [[97]])" and j: "join ([] @ [[97]]) = [47, 97]"
    by (simp_all add: path_ok_def names_ok_def VFS_PATH_DELIMITER_def VFS_MAX_FILENAME_LENGTH_def)
  have "split_path 1024 [47, 97] = Inr ([47], [97])"
    using split_path_join [OF path, of 1024] unfolding j by (simp add: VFS_PATH_DELIMITER_def)
  moreover have "vfs_parse_url s [47] (vs_root s) None None = Inr (S_OK, 1, None)"
    by (simp add: vfs_parse_url_def VFS_PATH_DELIMITER_def nd)
  ultimately have m: "vfs_mkdir s [47, 97] 0xFFFF 5 2 = Inr (S_OK, s')"
    using s'(1) by (simp add: vfs_mkdir_def)
  then have "vfs_reach s'" using r free vfs_step.mkdir vfs_reach.step by blast
  moreover obtain nd' where "vs_nodes s' 1 = Some nd'" "vn_child_cnt nd' = 1"
    using s'(2) nd(1) by (elim grownE) (simp add: zero_node_def)
  ultimately show ?thesis using i m by blast
qed

lemma vfs_tree_invariant_witness:
  "\<exists>s nd cd. vfs_reach s \<and> vs_nodes s 1 = Some nd \<and> vn_child_cnt nd = 1
     \<and> vs_nodes s (kids nd ! 0) = Some cd \<and> vn_parent cd = 1"
proof -
  obtain s nd where "vfs_reach s" "vs_nodes s 1 = Some nd" "vn_child_cnt nd = 1" using boot_reach by blast
  with vfs_tree_invariant [OF this(1,2)] show ?thesis by auto
qed

lemma vfs_readdir_lists_children_witness:
  "\<exists>d e. vfs_opendir True example_vfs (join []) = Inr (Served (S_OK, Some d))
     \<and> read_all 2 d = Inr ([([97], 0, 2), ([109], 0, 64)], E_ENDOFSTR, e)"
proof -
  have nd: "vs_nodes example_vfs 1 = Some (zero_node\<lparr>vn_type := NODE_TYPE_DIRECTORY, vn_children := Some [2, 3],
      vn_child_cnt := 2, vn_child_capacity := 5\<rparr>)" by (simp add: example_vfs_def)
  let ?nd = "zero_node\<lparr>vn_type := NODE_TYPE_DIRECTORY, vn_children := Some [2, 3], vn_child_cnt := 2, vn_child_capacity := 5\<rparr>"
  have kids: "kids ?nd = [2, 3]" by (simp add: kids_def)
  have "path_ok []" "walk example_vfs (vs_root example_vfs) [] = Some (1, None)" "vn_type ?nd AND NODE_TYPE_DIRECTORY \<noteq> 0"
    "length (vn_name ?nd) < 255" "\<forall>c \<in> set (kids ?nd). length (node_name example_vfs c) < 255"
    by (simp_all add: path_ok_def names_ok_def example_vfs_sel node_types zero_node_def kids_def node_name_def example_vfs_def)
  from vfs_readdir_lists_children [OF example_vfs_ok this(1) _ this(2) nd this(3-5)]
  have "\<exists>d. vfs_opendir True example_vfs (join []) = Inr (Served (S_OK, Some d))
      \<and> (\<exists>e. read_all (length (kids ?nd)) d = Inr (map (entry_of example_vfs) (kids ?nd), E_ENDOFSTR, e))"
    by auto
  moreover have "map (entry_of example_vfs) (kids ?nd) = [([97], 0, 2), ([109], 0, 64)]"
    by (simp add: kids_def entry_of_def example_vfs_def zero_node_def node_types)
  moreover have "length (kids ?nd) = 2" by (simp add: kids)
  ultimately show ?thesis by (simp only:) blast
qed

lemma vfs_file_read_wraps_witness:
  "vfs_file_read (put_stream file_vfs 8 ((the (vs_streams file_vfs 8))\<lparr>st_pos := 1\<rparr>)) 8 0xFFFFFFFF [0, 0, 0] = Inl BadAccess"
  by (rule vfs_file_read_wraps [where st = "(the (vs_streams file_vfs 8))\<lparr>st_pos := 1\<rparr>" and nd = "the (vs_nodes file_vfs 4)"])
    (simp_all add: put_stream_def file_vfs_def FILE_OPEN_READ_def content_ok_def content_bytes_def)

end
