(* ===== verification/Fat16.thy ===== *)
theory Fat16
  imports Antonix_Base
begin

unbundle bit_operations_syntax

text \<open>
  Model of \<^verbatim>\<open>drivers/fat16.c\<close>, the volume: the parameter block, the allocation table and its
  cluster chains, and the content of files and of the root directory. The storage driver below it is
  reached through \<^verbatim>\<open>devices.c\<close> and a parameter: what it answers to the requests for blocks. The lemmas
  relate the reading loops to the concatenated clusters of a chain.
\<close>

section \<open>Storage\<close>

text \<open>What the driver behind a stream answers: the status and the bytes that it stores for
  \<^verbatim>\<open>IOCTL_STORAGE_READ_BLOCKS\<close>, and the size of a block.\<close>

record storage =
  sd_read :: "u32 \<Rightarrow> u32 \<Rightarrow> hresult \<times> bytes"
  sd_block_size :: "hresult \<times> u32"

text \<open>The buffer is the object \<open>buf\<close> from its byte \<open>offs\<close> on.\<close>

definition storage_read_blocks :: "storage \<Rightarrow> u32 \<Rightarrow> u32 \<Rightarrow> bytes \<Rightarrow> nat \<Rightarrow> (hresult \<times> bytes) run" where
  "storage_read_blocks drv start count buf offs =
     (case sd_read drv start count of (hr, bs) \<Rightarrow>
        bindR (memcpyR buf offs bs 0 (length bs)) (\<lambda>buf. Inr (hr, buf)))"

definition storage_get_block_size :: "storage \<Rightarrow> hresult \<times> u32" where
  "storage_get_block_size drv = sd_block_size drv"

text \<open>Division traps on zero. There is no handler for the exception, so its dispatcher returns to the
  same instruction, for ever.\<close>

definition divR :: "u32 \<Rightarrow> u32 \<Rightarrow> u32 run" where
  "divR a b = (if b = 0 then Inl NoReturn else Inr (a div b))"

text \<open>What \<^verbatim>\<open>kmalloc\<close> returns for a size: the bytes that can be used there, or null.\<close>

type_synonym malloc = "u32 \<Rightarrow> bytes option"

section \<open>Data on the disk\<close>

definition FS_TYPE_FAT12 :: u32 where "FS_TYPE_FAT12 = 0x01"
definition FS_TYPE_FAT16 :: u32 where "FS_TYPE_FAT16 = 0x02"
definition FS_TYPE_FAT32 :: u32 where "FS_TYPE_FAT32 = 0x03"
definition FS_TYPE_EXFAT :: u32 where "FS_TYPE_EXFAT = 0x04"

lemmas fs_types = FS_TYPE_FAT12_def FS_TYPE_FAT16_def FS_TYPE_FAT32_def FS_TYPE_EXFAT_def

definition FAT_ATTR_VOLUMEL :: u8 where "FAT_ATTR_VOLUMEL = 0x08"
definition FAT_ATTR_DIRECTORY :: u8 where "FAT_ATTR_DIRECTORY = 0x10"

record fat16_bpb =
  bp_magic :: bytes
  bp_oem_id :: bytes
  bp_bytes_per_sector :: u16
  bp_sectors_per_cluster :: u8
  bp_reserved_sectors :: u16
  bp_fat_count :: u8
  bp_root_entries :: u16
  bp_num_sectors_16 :: u16
  bp_media_descriptor :: u8
  bp_sectors_per_fat :: u16
  bp_sectors_per_track :: u16
  bp_heads :: u16
  bp_hidden_sector :: u32
  bp_num_sectors_32 :: u32

record fat16_ebpb =
  eb_drive_number :: u8
  eb_flags :: u8
  eb_signature :: u8
  eb_volume_id :: u32
  eb_volume_label :: bytes
  eb_fs_identifier :: bytes

record fat16_dir_entry =
  de_filename :: bytes
  de_ext :: bytes
  de_attributes :: u8
  de_reserved :: u8
  de_creation_time :: bytes
  de_last_access :: u16
  de_first_clust_high :: u16
  de_last_mod_time :: bytes
  de_first_clust_low :: u16
  de_size :: u32

text \<open>The packed layouts.\<close>

definition dec_bpb :: "bytes \<Rightarrow> fat16_bpb" where
  "dec_bpb b = \<lparr> bp_magic = buf_get b 0 3, bp_oem_id = buf_get b 3 8,
     bp_bytes_per_sector = le_word (buf_get b 11 2), bp_sectors_per_cluster = b ! 13,
     bp_reserved_sectors = le_word (buf_get b 14 2), bp_fat_count = b ! 16,
     bp_root_entries = le_word (buf_get b 17 2), bp_num_sectors_16 = le_word (buf_get b 19 2),
     bp_media_descriptor = b ! 21, bp_sectors_per_fat = le_word (buf_get b 22 2),
     bp_sectors_per_track = le_word (buf_get b 24 2), bp_heads = le_word (buf_get b 26 2),
     bp_hidden_sector = le_word (buf_get b 28 4), bp_num_sectors_32 = le_word (buf_get b 32 4) \<rparr>"

definition dec_ebpb :: "bytes \<Rightarrow> fat16_ebpb" where
  "dec_ebpb b = \<lparr> eb_drive_number = b ! 0, eb_flags = b ! 1, eb_signature = b ! 2,
     eb_volume_id = le_word (buf_get b 3 4), eb_volume_label = buf_get b 7 11, eb_fs_identifier = buf_get b 18 8 \<rparr>"

definition dec_entry :: "bytes \<Rightarrow> fat16_dir_entry" where
  "dec_entry b = \<lparr> de_filename = buf_get b 0 8, de_ext = buf_get b 8 3, de_attributes = b ! 11,
     de_reserved = b ! 12, de_creation_time = buf_get b 13 5, de_last_access = le_word (buf_get b 18 2),
     de_first_clust_high = le_word (buf_get b 20 2), de_last_mod_time = buf_get b 22 4,
     de_first_clust_low = le_word (buf_get b 26 2), de_size = le_word (buf_get b 28 4) \<rparr>"

section \<open>The driver context\<close>

record fat16_ctx =
  fc_storage :: storage
  fc_bpb :: fat16_bpb
  fc_ebpb :: fat16_ebpb
  fc_fs_type :: u32
  fc_fat_cache :: "bytes option"
  fc_fat_cache_dirty :: u8
  fc_first_data_sector :: u32
  fc_first_fat_sector :: u32
  fc_first_root_sector :: u32
  fc_total_sectors :: u32
  fc_data_sector_cnt :: u32
  fc_total_cluster_cnt :: u32

text \<open>Fields of the parameter block, promoted to the width of the arithmetic on them.\<close>

definition bps :: "fat16_ctx \<Rightarrow> u32" where "bps ctx = ucast (bp_bytes_per_sector (fc_bpb ctx))"
definition spc :: "fat16_ctx \<Rightarrow> u32" where "spc ctx = ucast (bp_sectors_per_cluster (fc_bpb ctx))"
definition root_entries :: "fat16_ctx \<Rightarrow> u32" where "root_entries ctx = ucast (bp_root_entries (fc_bpb ctx))"

section \<open>The allocation table\<close>

definition fat_is_end_of_chain :: "fat16_ctx \<Rightarrow> u32 \<Rightarrow> bool run" where
  "fat_is_end_of_chain ctx cluster_id =
     (if fc_fs_type ctx = FS_TYPE_FAT12 then Inr (cluster_id \<ge> 0xFF7)
      else if fc_fs_type ctx = FS_TYPE_FAT16 then Inr (cluster_id \<ge> 0xFFF7)
      else if fc_fs_type ctx = FS_TYPE_FAT32 then Inr (cluster_id AND 0x0FFFFFFF \<ge> 0x0FFFFFF7)
      else Inl (Panic ''fat_is_end_of_chain(): Unhandled FS type.''))"

text \<open>An integer of \<open>n\<close> bytes in the cached table.\<close>

definition cache_word :: "fat16_ctx \<Rightarrow> u32 \<Rightarrow> nat \<Rightarrow> u32 run" where
  "cache_word ctx offs n =
     (case fc_fat_cache ctx of
        None \<Rightarrow> Inl BadAccess
      | Some b \<Rightarrow> if unat offs + n \<le> length b then Inr (le_word (buf_get b (unat offs) n)) else Inl BadAccess)"

text \<open>The result is the value of the entry, nothing for \<^verbatim>\<open>E_INVALIDARG\<close>.\<close>

definition fat16_fat_lookup :: "fat16_ctx \<Rightarrow> u32 \<Rightarrow> u32 option run" where
  "fat16_fat_lookup ctx fat_index =
     bindR (fat_is_end_of_chain ctx fat_index) (\<lambda>e.
     if e then Inr None
     else if fc_fs_type ctx = FS_TYPE_FAT12 then
       bindR (cache_word ctx (fat_index + fat_index div 2) 2) (\<lambda>result.
       Inr (Some (if fat_index AND 0x1 \<noteq> 0 then drop_bit 4 result else result AND 0x0FFF)))
     else if fc_fs_type ctx = FS_TYPE_FAT16 then
       bindR (cache_word ctx (fat_index * 2) 2) (\<lambda>result. Inr (Some result))
     else if fc_fs_type ctx = FS_TYPE_FAT32 then
       bindR (cache_word ctx (fat_index * 4) 4) (\<lambda>result. Inr (Some result))
     else Inl (Panic ''fat16_lookup(): Unhandled FS type.''))"

definition fat16_cache_fat_table :: "malloc \<Rightarrow> fat16_ctx \<Rightarrow> (hresult \<times> fat16_ctx) run" where
  "fat16_cache_fat_table mal ctx =
     (let sectors = ucast (bp_sectors_per_fat (fc_bpb ctx)); fat_size = sectors * bps ctx in
      case mal fat_size of
        None \<Rightarrow> Inr (E_OUTOFMEM, ctx\<lparr>fc_fat_cache := None\<rparr>)
      | Some buf \<Rightarrow>
          bindR (storage_read_blocks (fc_storage ctx) (fc_first_fat_sector ctx) sectors buf 0) (\<lambda>(hr, buf).
          Inr (hr, ctx\<lparr>fc_fat_cache := Some buf\<rparr>)))"

definition fat_get_first_cluster :: "fat16_ctx \<Rightarrow> fat16_dir_entry \<Rightarrow> u32 run" where
  "fat_get_first_cluster ctx entry =
     (if fc_fs_type ctx = FS_TYPE_FAT12 \<or> fc_fs_type ctx = FS_TYPE_FAT16 then Inr (ucast (de_first_clust_low entry))
      else if fc_fs_type ctx = FS_TYPE_FAT32
      then Inr (push_bit 16 (ucast (de_first_clust_high entry)) OR ucast (de_first_clust_low entry))
      else Inl (Panic ''fat_get_entry_start_cluster(): unsupported fs.''))"

text \<open>The loop stops by itself when it has counted as many clusters as the volume has.\<close>

function count_chain_loop :: "fat16_ctx \<Rightarrow> u32 \<Rightarrow> u32 \<Rightarrow> u32 run" where
  "count_chain_loop ctx current count =
     bindR (fat_is_end_of_chain ctx current) (\<lambda>e.
     if e then Inr count
     else
       bindR (fat16_fat_lookup ctx current) (\<lambda>r.
       case r of
         None \<Rightarrow> Inr 0
       | Some nxt \<Rightarrow>
           if count + 1 = fc_total_cluster_cnt ctx then Inr 0 else count_chain_loop ctx nxt (count + 1)))"
  by pat_completeness auto
termination
proof (relation "measure (\<lambda>(ctx, _, count). unat (fc_total_cluster_cnt ctx - count - 1))", goal_cases)
  case 1 show ?case by simp
next
  case (2 ctx current count)
  have ne: "fc_total_cluster_cnt ctx - count - 1 \<noteq> 0"
    using 2 by (metis diff_diff_add eq_iff_diff_eq_0)
  have "unat (fc_total_cluster_cnt ctx - (count + 1) - 1) = unat (fc_total_cluster_cnt ctx - count - 1 - 1)"
    by (simp add: algebra_simps)
  also have "\<dots> < unat (fc_total_cluster_cnt ctx - count - 1)" using ne by (rule measure_unat)
  finally show ?case by simp
qed

definition fat_count_chain :: "fat16_ctx \<Rightarrow> u32 \<Rightarrow> u32 run" where
  "fat_count_chain ctx first_cluster =
     (if first_cluster = 0 then Inr 0 else count_chain_loop ctx first_cluster 0)"

section \<open>Reading the content of a file\<close>

text \<open>Skipping to the first cluster of interest: the cluster and the sectors still to skip in it, nothing
  when the chain ends before.\<close>

function skip_clusters :: "fat16_ctx \<Rightarrow> nat \<Rightarrow> u32 \<Rightarrow> (u32 \<times> nat) option run" where
  "skip_clusters ctx skip_sectors cluster_id =
     (if spc ctx \<noteq> 0 \<and> skip_sectors \<ge> unat (spc ctx) then
        bindR (fat16_fat_lookup ctx cluster_id) (\<lambda>r.
        case r of
          None \<Rightarrow> Inr None
        | Some nxt \<Rightarrow> skip_clusters ctx (skip_sectors - unat (spc ctx)) nxt)
      else Inr (Some (cluster_id, skip_sectors)))"
  by pat_completeness auto
termination
proof (relation "measure (\<lambda>(_, skip, _). skip)", goal_cases)
  case 1 show ?case by simp
next
  case (2 ctx skip)
  then have "0 < unat (spc ctx)" by (simp add: unat_gt_0)
  then show ?case using 2 by simp
qed

text \<open>The sectors \<open>js\<close> of one cluster. The state is the number of sectors to skip, \<^verbatim>\<open>write_index\<close> and the
  buffer; the destination starts at its byte \<open>offs\<close>.\<close>

fun read_sectors ::
  "fat16_ctx \<Rightarrow> u32 \<Rightarrow> u32 \<Rightarrow> nat \<Rightarrow> u32 list \<Rightarrow> nat \<Rightarrow> u32 \<Rightarrow> bytes \<Rightarrow> (hresult \<times> nat \<times> u32 \<times> bytes) run" where
  "read_sectors ctx sector count offs [] skip_sectors write_index buf = Inr (S_OK, skip_sectors, write_index, buf)"
| "read_sectors ctx sector count offs (j # js) skip_sectors write_index buf =
     (if skip_sectors > 0 then read_sectors ctx sector count offs js (skip_sectors - 1) write_index buf
      else
        bindR (storage_read_blocks (fc_storage ctx) (sector + j) 1 buf (offs + unat write_index)) (\<lambda>(hr, buf).
        if FAILED hr then Inr (hr, skip_sectors, write_index, buf)
        else
          let write_index = write_index + bps ctx in
          if write_index = count then Inr (S_OK, skip_sectors, write_index, buf)
          else read_sectors ctx sector count offs js skip_sectors write_index buf))"

definition cluster_sector :: "fat16_ctx \<Rightarrow> u32 \<Rightarrow> u32" where
  "cluster_sector ctx cluster_id = fc_first_data_sector ctx + (cluster_id - 2) * spc ctx"

definition sector_ids :: "fat16_ctx \<Rightarrow> u32 list" where
  "sector_ids ctx = map of_nat [0 ..< unat (spc ctx)]"

fun read_clusters ::
  "fat16_ctx \<Rightarrow> u32 \<Rightarrow> nat \<Rightarrow> nat \<Rightarrow> u32 \<Rightarrow> nat \<Rightarrow> u32 \<Rightarrow> bytes \<Rightarrow> (hresult \<times> u32 \<times> bytes) run" where
  "read_clusters ctx count offs 0 cluster_id skip_sectors write_index buf = Inr (S_OK, write_index, buf)"
| "read_clusters ctx count offs (Suc n) cluster_id skip_sectors write_index buf =
     bindR (read_sectors ctx (cluster_sector ctx cluster_id) count offs (sector_ids ctx) skip_sectors write_index buf)
       (\<lambda>(hr, skip_sectors, write_index, buf).
     if FAILED hr then Inr (hr, write_index, buf)
     else
       bindR (fat16_fat_lookup ctx cluster_id) (\<lambda>r.
       case r of
         None \<Rightarrow> Inr (E_FAIL, write_index, buf)
       | Some nxt \<Rightarrow> read_clusters ctx count offs n nxt skip_sectors write_index buf))"

definition fat16_read_file_content ::
  "fat16_ctx \<Rightarrow> fat16_dir_entry \<Rightarrow> u32 \<Rightarrow> u32 \<Rightarrow> bytes \<Rightarrow> nat \<Rightarrow> (hresult \<times> bytes) run" where
  "fat16_read_file_content ctx entry start count buf offs =
     bindR (divR start (bps ctx)) (\<lambda>skip_sectors.
     bindR (divR count (bps ctx)) (\<lambda>count_sectors.
     bindR (divR (count_sectors + spc ctx - 1) (spc ctx)) (\<lambda>count_clusters.
     bindR (fat_get_first_cluster ctx entry) (\<lambda>cluster_id.
     if start mod bps ctx \<noteq> 0 \<or> count mod bps ctx \<noteq> 0 then Inr (E_INVALIDARG, buf)
     else
       bindR (skip_clusters ctx (unat skip_sectors) cluster_id) (\<lambda>r.
       case r of
         None \<Rightarrow> Inr (E_FAIL, buf)
       | Some (cluster_id, skip_sectors) \<Rightarrow>
           bindR (read_clusters ctx count offs (unat count_clusters) cluster_id skip_sectors 0 buf)
             (\<lambda>(hr, write_index, buf).
           if FAILED hr then Inr (hr, buf)
           else if write_index \<noteq> count then Inl (Panic ''fat16_read_file_content(): Unexpected.'')
           else Inr (S_OK, buf)))))))"

section \<open>The root directory\<close>

definition fat_get_rootdir_size :: "fat16_ctx \<Rightarrow> u32" where
  "fat_get_rootdir_size ctx = root_entries ctx * 32"

text \<open>A last sector that does not fit is read through a temporary buffer.\<close>

fun rootdir_loop :: "malloc \<Rightarrow> fat16_ctx \<Rightarrow> u32 list \<Rightarrow> u32 \<Rightarrow> bytes \<Rightarrow> (hresult \<times> bytes) run" where
  "rootdir_loop mal ctx [] write_index dst = Inr (S_OK, dst)"
| "rootdir_loop mal ctx (i # is) write_index dst =
     (let root_bytes = fat_get_rootdir_size ctx in
      if root_bytes - write_index \<ge> bps ctx then
        bindR (storage_read_blocks (fc_storage ctx) (fc_first_root_sector ctx + i) 1 dst (unat write_index)) (\<lambda>(hr, dst).
        if FAILED hr then Inr (hr, dst) else rootdir_loop mal ctx is (write_index + bps ctx) dst)
      else
        case mal (bps ctx) of
          None \<Rightarrow> Inl BadAccess
        | Some buff \<Rightarrow>
            bindR (storage_read_blocks (fc_storage ctx) (fc_first_root_sector ctx + i) 1 buff 0) (\<lambda>(hr, buff).
            if FAILED hr then Inr (hr, dst)
            else bindR (memcpyR dst (unat write_index) buff 0 (unat (root_bytes - write_index)))
                   (\<lambda>dst. rootdir_loop mal ctx is write_index dst)))"

definition fat16_read_rootdir_content :: "malloc \<Rightarrow> fat16_ctx \<Rightarrow> bytes \<Rightarrow> (hresult \<times> bytes) run" where
  "fat16_read_rootdir_content mal ctx dst =
     bindR (divR (fat_get_rootdir_size ctx + bps ctx - 1) (bps ctx)) (\<lambda>root_sectors.
     rootdir_loop mal ctx (map of_nat [0 ..< unat root_sectors]) 0 dst)"

section \<open>The parameter block\<close>

definition fat_get_type :: "fat16_ctx \<Rightarrow> u32" where
  "fat_get_type ctx =
     (if fc_total_cluster_cnt ctx < 4085 then FS_TYPE_FAT12
      else if fc_total_cluster_cnt ctx < 65525 then FS_TYPE_FAT16
      else if fc_total_cluster_cnt ctx < 268435445 then FS_TYPE_FAT32
      else FS_TYPE_EXFAT)"

text \<open>The fields derived from the parameter block.\<close>

definition derive_fields :: "fat16_ctx \<Rightarrow> fat16_ctx run" where
  "derive_fields ctx =
     (let b = fc_bpb ctx;
          total = (if bp_num_sectors_16 b > 0 then ucast (bp_num_sectors_16 b) else bp_num_sectors_32 b);
          reserved = ucast (bp_reserved_sectors b);
          fats = ucast (bp_fat_count b) * ucast (bp_sectors_per_fat b) in
      bindR (divR (fat_get_rootdir_size ctx + (bps ctx - 1)) (bps ctx)) (\<lambda>root_dir_sectors.
      let data_sectors = total - reserved - fats - root_dir_sectors in
      bindR (divR data_sectors (spc ctx)) (\<lambda>clusters.
      let ctx = ctx\<lparr>fc_total_sectors := total, fc_first_data_sector := reserved + fats + root_dir_sectors,
                    fc_first_fat_sector := reserved, fc_first_root_sector := reserved + fats,
                    fc_data_sector_cnt := data_sectors, fc_total_cluster_cnt := clusters\<rparr> in
      Inr (ctx\<lparr>fc_fs_type := fat_get_type ctx\<rparr>))))"

definition fat16_parse_bpb :: "malloc \<Rightarrow> fat16_ctx \<Rightarrow> (hresult \<times> fat16_ctx) run" where
  "fat16_parse_bpb mal ctx =
     (let (hr, block_size) = storage_get_block_size (fc_storage ctx) in
      if FAILED hr then Inr (hr, ctx)
      else
        case mal block_size of
          None \<Rightarrow> Inr (E_OUTOFMEM, ctx)
        | Some buff \<Rightarrow>
            bindR (storage_read_blocks (fc_storage ctx) 0 1 buff 0) (\<lambda>(hr, buff).
            if FAILED hr then Inr (hr, ctx)
            else if length buff < 62 then Inl BadAccess
            else
              bindR (derive_fields (ctx\<lparr>fc_bpb := dec_bpb buff, fc_ebpb := dec_ebpb (drop 36 buff)\<rparr>)) (\<lambda>ctx.
              Inr (hr, ctx))))"

section \<open>Chains\<close>

text \<open>The reference: the list of clusters that the links of the table give from a cluster on, and the same
  following at most \<open>n\<close> links.\<close>

fun chain_of :: "fat16_ctx \<Rightarrow> u32 \<Rightarrow> u32 list \<Rightarrow> bool" where
  "chain_of ctx c [] = (fat_is_end_of_chain ctx c = Inr True)"
| "chain_of ctx c (x # xs) =
     (x = c \<and> (case fat16_fat_lookup ctx c of Inr (Some v) \<Rightarrow> chain_of ctx v xs | _ \<Rightarrow> False))"

fun chain_upto :: "fat16_ctx \<Rightarrow> nat \<Rightarrow> u32 \<Rightarrow> u32 list option" where
  "chain_upto ctx n c =
     (if fat_is_end_of_chain ctx c = Inr True then Some []
      else case n of
        0 \<Rightarrow> None
      | Suc m \<Rightarrow>
          (case fat16_fat_lookup ctx c of
             Inr (Some v) \<Rightarrow> map_option (Cons c) (chain_upto ctx m v)
           | _ \<Rightarrow> None))"

declare chain_upto.simps [simp del] count_chain_loop.simps [simp del] skip_clusters.simps [simp del]

lemma lookup_end: "fat_is_end_of_chain ctx c = Inr True \<Longrightarrow> fat16_fat_lookup ctx c = Inr None"
  by (simp add: fat16_fat_lookup_def)

lemma lookup_not_end: "fat16_fat_lookup ctx c = Inr (Some v) \<Longrightarrow> fat_is_end_of_chain ctx c = Inr False"
  by (auto simp: fat16_fat_lookup_def split: if_splits)

lemma chain_ofE:
  assumes "chain_of ctx c (x # xs)"
  obtains v where "x = c" "fat16_fat_lookup ctx c = Inr (Some v)" "chain_of ctx v xs"
    "fat_is_end_of_chain ctx c = Inr False"
  using assms lookup_not_end by (auto split: sum.splits option.splits)

lemma chain_upto_Some: "chain_upto ctx n c = Some cs \<longleftrightarrow> chain_of ctx c cs \<and> length cs \<le> n"
proof (induction n arbitrary: c cs)
  case 0
  show ?case by (cases cs) (auto simp: chain_upto.simps)
next
  case (Suc n)
  show ?case
  proof (cases cs)
    case Nil
    then show ?thesis by (auto simp: chain_upto.simps [of ctx "Suc n"] split: sum.splits option.splits)
  next
    case (Cons x xs)
    then show ?thesis
      using Suc.IH lookup_end
      by (auto simp: chain_upto.simps [of ctx "Suc n"] split: sum.splits option.splits)
  qed
qed

text \<open>Clusters whose entries lie in the table and lead to such clusters again, or end a chain.\<close>

definition links_ok :: "fat16_ctx \<Rightarrow> u32 set \<Rightarrow> bool" where
  "links_ok ctx C \<longleftrightarrow>
     (\<forall>c \<in> C. fat_is_end_of_chain ctx c = Inr True \<or>
        fat_is_end_of_chain ctx c = Inr False \<and> (\<exists>v \<in> C. fat16_fat_lookup ctx c = Inr (Some v)))"

lemma chain_links: "chain_of ctx c cs \<Longrightarrow> \<exists>C. links_ok ctx C \<and> c \<in> C"
proof (induction cs arbitrary: c)
  case Nil
  then show ?case by (intro exI [of _ "{c}"]) (simp add: links_ok_def)
next
  case (Cons x cs)
  obtain v where v: "fat16_fat_lookup ctx c = Inr (Some v)" "chain_of ctx v cs" "fat_is_end_of_chain ctx c = Inr False"
    using Cons.prems by (rule chain_ofE)
  obtain C where "links_ok ctx C" "v \<in> C" using Cons.IH [OF v(2)] by blast
  then show ?case using v(1,3) by (intro exI [of _ "insert c C"]) (auto simp: links_ok_def)
qed

lemma count_loop_chain:
  assumes "links_ok ctx C" and "c \<in> C" and "unat count < unat (fc_total_cluster_cnt ctx)"
  shows "count_chain_loop ctx c count =
    Inr (case chain_upto ctx (unat (fc_total_cluster_cnt ctx) - unat count - 1) c of
           None \<Rightarrow> 0 | Some cs \<Rightarrow> count + of_nat (length cs))"
  using assms
proof (induction ctx c count rule: count_chain_loop.induct)
  case (1 ctx c count)
  let ?t = "fc_total_cluster_cnt ctx"
  obtain e where e: "fat_is_end_of_chain ctx c = Inr e" using "1.prems"(1,2) by (auto simp: links_ok_def)
  show ?case
  proof (cases e)
    case True
    then show ?thesis using e by (simp add: count_chain_loop.simps [of ctx c] chain_upto.simps [of ctx _ c])
  next
    case False
    then obtain v where v: "fat16_fat_lookup ctx c = Inr (Some v)" "v \<in> C"
      using "1.prems"(1,2) e by (auto simp: links_ok_def)
    have w: "unat (count + 1) = unat count + 1"
      using "1.prems"(3) unat_lt_2_32 [of ?t] by (intro unat_add_small [THEN trans]) simp_all
    show ?thesis
    proof (cases "count + 1 = ?t")
      case True
      then have "unat ?t - unat count - 1 = 0" using w by simp
      then show ?thesis
        using True False e v by (simp add: count_chain_loop.simps [of ctx c] chain_upto.simps [of ctx _ c])
    next
      case ne: False
      then have lt: "unat (count + 1) < unat ?t" using w "1.prems"(3) by (metis Suc_eq_plus1 Suc_lessI word_unat_eq_iff)
      then have n: "unat ?t - unat count - 1 = Suc (unat ?t - unat (count + 1) - 1)" using w by simp
      have "count_chain_loop ctx c count = count_chain_loop ctx v (count + 1)"
        using ne False e v by (simp add: count_chain_loop.simps [of ctx c])
      also have "\<dots> = Inr (case chain_upto ctx (unat ?t - unat (count + 1) - 1) v of
          None \<Rightarrow> 0 | Some cs \<Rightarrow> count + 1 + of_nat (length cs))"
        by (rule "1.IH" [OF False ne "1.prems"(1) v(2) lt])
      also have "\<dots> = Inr (case chain_upto ctx (unat ?t - unat count - 1) c of
          None \<Rightarrow> 0 | Some cs \<Rightarrow> count + of_nat (length cs))"
        using False e v
        by (subst (2) chain_upto.simps, unfold n) (auto split: option.split simp: algebra_simps)
      finally show ?thesis .
    qed
  qed
qed

lemma count_chain_length:
  assumes "c \<noteq> 0" and "chain_of ctx c cs" and "length cs < unat (fc_total_cluster_cnt ctx)"
  shows "fat_count_chain ctx c = Inr (of_nat (length cs))"
proof -
  obtain C where C: "links_ok ctx C" "c \<in> C" using chain_links [OF assms(2)] by blast
  have "chain_upto ctx (unat (fc_total_cluster_cnt ctx) - 1) c = Some cs"
    using assms(2,3) by (simp add: chain_upto_Some)
  then show ?thesis
    using count_loop_chain [OF C, of 0] assms(1,3) by (simp add: fat_count_chain_def)
qed

section \<open>Sectors of a chain\<close>

definition sector_bytes :: "fat16_ctx \<Rightarrow> u32 \<Rightarrow> bytes" where
  "sector_bytes ctx n = snd (sd_read (fc_storage ctx) n 1)"

definition sector_ok :: "fat16_ctx \<Rightarrow> u32 \<Rightarrow> bool" where
  "sector_ok ctx n \<longleftrightarrow> SUCCEEDED (fst (sd_read (fc_storage ctx) n 1)) \<and> length (sector_bytes ctx n) = unat (bps ctx)"

definition cluster_sectors :: "fat16_ctx \<Rightarrow> u32 \<Rightarrow> u32 list" where
  "cluster_sectors ctx c = map (\<lambda>j. cluster_sector ctx c + j) (sector_ids ctx)"

definition chain_sectors :: "fat16_ctx \<Rightarrow> u32 list \<Rightarrow> u32 list" where
  "chain_sectors ctx cs = concat (map (cluster_sectors ctx) cs)"

lemma chain_sectors_drop: "chain_sectors ctx (drop q cs) = drop (q * unat (spc ctx)) (chain_sectors ctx cs)"
proof (induction cs arbitrary: q)
  case (Cons c cs)
  then show ?case by (cases q) (simp_all add: chain_sectors_def cluster_sectors_def sector_ids_def)
qed (simp add: chain_sectors_def)

lemma chain_sectors_take: "chain_sectors ctx (take n cs) = take (n * unat (spc ctx)) (chain_sectors ctx cs)"
proof (induction cs arbitrary: n)
  case (Cons c cs)
  then show ?case by (cases n) (simp_all add: chain_sectors_def cluster_sectors_def sector_ids_def)
qed (simp add: chain_sectors_def)

text \<open>The content of a chain is the bytes of its sectors.\<close>

definition bytes_of :: "fat16_ctx \<Rightarrow> u32 list \<Rightarrow> bytes" where
  "bytes_of ctx ss = concat (map (sector_bytes ctx) ss)"

definition chain_bytes :: "fat16_ctx \<Rightarrow> u32 list \<Rightarrow> bytes" where
  "chain_bytes ctx cs = bytes_of ctx (chain_sectors ctx cs)"

lemma bytes_of_simps [simp]:
  "bytes_of ctx [] = []" "bytes_of ctx (x # xs) = sector_bytes ctx x @ bytes_of ctx xs"
  "bytes_of ctx (xs @ ys) = bytes_of ctx xs @ bytes_of ctx ys"
  by (simp_all add: bytes_of_def)

lemma length_cluster_sectors [simp]: "length (cluster_sectors ctx c) = unat (spc ctx)"
  by (simp add: cluster_sectors_def sector_ids_def)

lemma length_chain_sectors: "length (chain_sectors ctx cs) = length cs * unat (spc ctx)"
  by (induction cs) (simp_all add: chain_sectors_def)

lemma chain_sectors_simps [simp]:
  "chain_sectors ctx [] = []" "chain_sectors ctx (c # cs) = cluster_sectors ctx c @ chain_sectors ctx cs"
  by (simp_all add: chain_sectors_def)

lemma length_bytes_of: "\<forall>n \<in> set ss. sector_ok ctx n \<Longrightarrow> length (bytes_of ctx ss) = length ss * unat (bps ctx)"
  by (induction ss) (simp_all add: sector_ok_def)

lemma bytes_of_take:
  "\<forall>n \<in> set ss. sector_ok ctx n \<Longrightarrow> bytes_of ctx (take k ss) = take (k * unat (bps ctx)) (bytes_of ctx ss)"
proof (induction ss arbitrary: k)
  case (Cons s ss)
  then show ?case by (cases k) (simp_all add: sector_ok_def)
qed simp

lemma length_bytes_take: "\<forall>n \<in> set ss. sector_ok ctx n \<Longrightarrow> length (bytes_of ctx (take k ss)) \<le> k * unat (bps ctx)"
  by (simp add: bytes_of_take)

lemma bytes_of_drop:
  "\<forall>n \<in> set ss. sector_ok ctx n \<Longrightarrow> bytes_of ctx (drop k ss) = drop (k * unat (bps ctx)) (bytes_of ctx ss)"
proof (induction ss arbitrary: k)
  case (Cons s ss)
  then show ?case by (cases k) (simp_all add: sector_ok_def)
qed simp

lemma buf_put_append:
  "i + length xs + length ys \<le> length b \<Longrightarrow> buf_put (buf_put b i xs) (i + length xs) ys = buf_put b i (xs @ ys)"
  by (simp add: buf_put_def ac_simps)

lemma storage_read_sector:
  assumes "sector_ok ctx n" and "i + unat (bps ctx) \<le> length buf"
  shows "\<exists>hr. SUCCEEDED hr \<and> storage_read_blocks (fc_storage ctx) n 1 buf i = Inr (hr, buf_put buf i (sector_bytes ctx n))"
proof -
  obtain hr where "sd_read (fc_storage ctx) n 1 = (hr, sector_bytes ctx n)" "SUCCEEDED hr" "length (sector_bytes ctx n) = unat (bps ctx)"
    using assms(1) by (cases "sd_read (fc_storage ctx) n 1") (auto simp: sector_ok_def sector_bytes_def)
  then show ?thesis
    using assms(2) by (simp add: storage_read_blocks_def memcpyR_ok buf_get_def)
qed

lemma read_sectors_reads:
  assumes "\<forall>j \<in> set js. sector_ok ctx (sector + j)" and "0 < k" and "bps ctx \<noteq> 0"
    and "unat count = unat w + k * unat (bps ctx)" and "offs + unat count \<le> length buf"
  shows "\<exists>w'. read_sectors ctx sector count offs js s w buf =
      Inr (S_OK, s - length js, w', buf_put buf (offs + unat w) (bytes_of ctx (take k (drop s (map ((+) sector) js)))))
    \<and> unat w' = unat w + min k (length js - s) * unat (bps ctx)"
  using assms
proof (induction js arbitrary: s w buf k)
  case Nil
  then show ?case by simp
next
  case (Cons j js)
  let ?B = "unat (bps ctx)"
  show ?case
  proof (cases s)
    case (Suc s')
    then show ?thesis using Cons.IH [of k w buf s'] Cons.prems by auto
  next
    case 0
    have le: "unat w + ?B \<le> unat count" using Cons.prems(2,4) by (cases k) simp_all
    obtain hr where r: "SUCCEEDED hr"
        "storage_read_blocks (fc_storage ctx) (sector + j) 1 buf (offs + unat w)
          = Inr (hr, buf_put buf (offs + unat w) (sector_bytes ctx (sector + j)))"
      using storage_read_sector [of ctx "sector + j" "offs + unat w" buf] Cons.prems le by auto
    have sb: "length (sector_bytes ctx (sector + j)) = ?B" using Cons.prems(1) by (simp add: sector_ok_def)
    have w': "unat (w + bps ctx) = unat w + ?B"
      using le unat_lt_2_32 [of count] by (intro unat_add_small) simp
    let ?buf = "buf_put buf (offs + unat w) (sector_bytes ctx (sector + j))"
    have step: "read_sectors ctx sector count offs (j # js) 0 w buf =
        (if w + bps ctx = count then Inr (S_OK, 0, w + bps ctx, ?buf)
         else read_sectors ctx sector count offs js 0 (w + bps ctx) ?buf)"
      using r by (simp add: Let_def)
    show ?thesis
    proof (cases "w + bps ctx = count")
      case True
      then have "k * ?B = ?B" using w' Cons.prems(4) by simp
      then have "k = 1" using Cons.prems(3) by (simp add: unat_eq_zero)
      then show ?thesis unfolding 0 step using True w' by simp
    next
      case False
      then have "unat (w + bps ctx) \<noteq> unat count" by (simp add: word_unat_eq_iff)
      then have k: "1 < k" "unat count = unat (w + bps ctx) + (k - 1) * ?B"
        using w' Cons.prems(2,4) by (cases k; simp)+
      have len: "length ?buf = length buf" using sb le Cons.prems(5) by simp
      obtain u where u: "read_sectors ctx sector count offs js 0 (w + bps ctx) ?buf =
          Inr (S_OK, 0, u, buf_put ?buf (offs + unat (w + bps ctx)) (bytes_of ctx (take (k - 1) (map ((+) sector) js))))"
        "unat u = unat (w + bps ctx) + min (k - 1) (length js) * ?B"
        using Cons.IH [of "k - 1" "w + bps ctx" ?buf 0] Cons.prems(1,3,5) k len by auto
      have ok: "\<forall>n \<in> set (map ((+) sector) js). sector_ok ctx n" using Cons.prems(1) by simp
      have lb: "length (bytes_of ctx (take (k - 1) (map ((+) sector) js))) \<le> (k - 1) * ?B"
        by (rule length_bytes_take [OF ok])
      have "buf_put ?buf (offs + unat (w + bps ctx)) (bytes_of ctx (take (k - 1) (map ((+) sector) js)))
          = buf_put buf (offs + unat w) (bytes_of ctx (take k (map ((+) sector) (j # js))))"
        using buf_put_append [of "offs + unat w" "sector_bytes ctx (sector + j)"
            "bytes_of ctx (take (k - 1) (map ((+) sector) js))" buf] lb sb w' k Cons.prems(5)
        by (cases k) (simp_all add: add.assoc)
      moreover have "min k (length (j # js)) = Suc (min (k - 1) (length js))" using k(1) by (cases k) simp_all
      ultimately show ?thesis unfolding 0 step using False u w' by simp
    qed
  qed
qed

text \<open>The clusters of a chain, from the one where \<open>s\<close> sectors are still to skip.\<close>

lemma read_clusters_reads:
  assumes "chain_of ctx c cs" and "n \<le> length cs" and "s < unat (spc ctx)" and "bps ctx \<noteq> 0"
    and "\<forall>x \<in> set (chain_sectors ctx cs). sector_ok ctx x"
    and "(n - 1) * unat (spc ctx) < s + k" and "0 < k"
    and "unat count = unat w + k * unat (bps ctx)" and "offs + unat count \<le> length buf"
  shows "\<exists>w'. read_clusters ctx count offs n c s w buf =
      Inr (S_OK, w', buf_put buf (offs + unat w) (bytes_of ctx (take k (drop s (chain_sectors ctx (take n cs))))))
    \<and> unat w' = unat w + min k (n * unat (spc ctx) - s) * unat (bps ctx)"
  using assms
proof (induction n arbitrary: c cs s k w buf)
  case 0
  then show ?case by simp
next
  case (Suc n)
  let ?B = "unat (bps ctx)" and ?P = "unat (spc ctx)"
  obtain cs' v where cs: "cs = c # cs'" "fat16_fat_lookup ctx c = Inr (Some v)" "chain_of ctx v cs'"
    using Suc.prems(1,2) by (cases cs) (auto split: sum.splits option.splits)
  have sec: "map ((+) (cluster_sector ctx c)) (sector_ids ctx) = cluster_sectors ctx c"
    by (simp add: cluster_sectors_def)
  have ok: "\<forall>x \<in> set (cluster_sectors ctx c). sector_ok ctx x" using Suc.prems(5) by (simp add: cs)
  have len: "length (sector_ids ctx) = ?P" by (simp add: sector_ids_def)
  obtain u where u: "read_sectors ctx (cluster_sector ctx c) count offs (sector_ids ctx) s w buf =
      Inr (S_OK, s - ?P, u, buf_put buf (offs + unat w) (bytes_of ctx (take k (drop s (cluster_sectors ctx c)))))"
    "unat u = unat w + min k (?P - s) * ?B"
    using read_sectors_reads [of "sector_ids ctx" ctx "cluster_sector ctx c" k count w offs buf s]
      Suc.prems(4,7,8,9) ok unfolding sec len by (auto simp: cluster_sectors_def)
  let ?xs = "bytes_of ctx (take k (drop s (cluster_sectors ctx c)))"
  have step: "read_clusters ctx count offs (Suc n) c s w buf
      = read_clusters ctx count offs n v (s - ?P) u (buf_put buf (offs + unat w) ?xs)"
    using u(1) cs(2) by simp
  have s0: "s - ?P = 0" using Suc.prems(3) by simp
  have lx: "length ?xs = min k (?P - s) * ?B"
    using ok by (subst length_bytes_of) (auto dest: in_set_takeD in_set_dropD)
  have mk: "min k (?P - s) * ?B \<le> k * ?B" by simp
  show ?case
  proof (cases n)
    case 0
    then show ?thesis using step u s0 by (simp add: cs)
  next
    case (Suc m)
    then have k: "?P - s < k" using Suc.prems(3,6) by auto
    then have mink: "min k (?P - s) = ?P - s" by simp
    let ?k = "k - (?P - s)"
    have "k = (?P - s) + ?k" using k by simp
    then have "k * ?B = (?P - s) * ?B + ?k * ?B" by (metis add_mult_distrib)
    then have cnt: "unat count = unat u + ?k * ?B" using Suc.prems(8) u(2) unfolding mink by linarith
    have bl: "length (buf_put buf (offs + unat w) ?xs) = length buf"
      using lx mk Suc.prems(8,9) by (intro length_buf_put) linarith
    have "n \<le> length cs'" "0 < ?P" "\<forall>x \<in> set (chain_sectors ctx cs'). sector_ok ctx x" "(n - 1) * ?P < 0 + ?k" "0 < ?k"
      "offs + unat count \<le> length (buf_put buf (offs + unat w) ?xs)"
      using Suc Suc.prems(2,3,5,6,9) cs(1) k bl by simp_all
    from Suc.IH [OF cs(3) this(1,2) Suc.prems(4) this(3-5) cnt this(6)]
    obtain u' where u': "read_clusters ctx count offs n v 0 u (buf_put buf (offs + unat w) ?xs) =
        Inr (S_OK, u', buf_put (buf_put buf (offs + unat w) ?xs) (offs + unat u)
               (bytes_of ctx (take ?k (chain_sectors ctx (take n cs')))))"
      "unat u' = unat u + min ?k (n * ?P) * ?B"
      by (simp only: drop_0 minus_nat.diff_0) blast
    have off: "offs + unat u = offs + unat w + length ?xs" using u(2) lx by simp
    have tk: "take k (drop s (chain_sectors ctx (take (Suc n) cs)))
        = take k (drop s (cluster_sectors ctx c)) @ take ?k (chain_sectors ctx (take n cs'))"
      using Suc.prems(3) by (simp add: cs)
    have ly: "length (bytes_of ctx (take ?k (chain_sectors ctx (take n cs')))) \<le> ?k * ?B"
      using Suc.prems(5) by (intro length_bytes_take) (auto simp: cs chain_sectors_def dest!: in_set_takeD)
    have "buf_put (buf_put buf (offs + unat w) ?xs) (offs + unat u) (bytes_of ctx (take ?k (chain_sectors ctx (take n cs'))))
        = buf_put buf (offs + unat w) (bytes_of ctx (take k (drop s (chain_sectors ctx (take (Suc n) cs)))))"
      unfolding off tk bytes_of_simps(3) using ly lx cnt u(2) Suc.prems(9) by (intro buf_put_append) simp
    moreover have "min k (Suc n * ?P - s) = (?P - s) + min ?k (n * ?P)" using k Suc.prems(3) by simp
    ultimately have "read_clusters ctx count offs (Suc n) c s w buf = Inr (S_OK, u', buf_put buf (offs + unat w)
          (bytes_of ctx (take k (drop s (chain_sectors ctx (take (Suc n) cs))))))"
      "unat u' = unat w + min k (Suc n * ?P - s) * ?B"
      using u' u(2) unfolding step s0 mink by (simp_all add: add_mult_distrib)
    then show ?thesis by blast
  qed
qed

lemma skip_clusters_skips:
  assumes "chain_of ctx c cs" and "spc ctx \<noteq> 0" and "s div unat (spc ctx) \<le> length cs"
  shows "\<exists>c'. skip_clusters ctx s c = Inr (Some (c', s mod unat (spc ctx)))
    \<and> chain_of ctx c' (drop (s div unat (spc ctx)) cs)"
  using assms
proof (induction cs arbitrary: c s)
  case Nil
  have P: "0 < unat (spc ctx)" using Nil.prems(2) by (simp add: unat_gt_0)
  then have "s < unat (spc ctx)" using Nil.prems(3) by (simp add: div_eq_0_iff)
  then show ?case using Nil.prems by (simp add: skip_clusters.simps [of ctx s])
next
  case (Cons x cs)
  have P: "0 < unat (spc ctx)" using Cons.prems(2) by (simp add: unat_gt_0)
  obtain v where v: "fat16_fat_lookup ctx c = Inr (Some v)" "chain_of ctx v cs"
    using Cons.prems(1) by (rule chain_ofE)
  show ?case
  proof (cases "s < unat (spc ctx)")
    case True
    then show ?thesis using Cons.prems(1) by (simp add: skip_clusters.simps [of ctx s])
  next
    case False
    then have d: "s div unat (spc ctx) = Suc ((s - unat (spc ctx)) div unat (spc ctx))"
      "s mod unat (spc ctx) = (s - unat (spc ctx)) mod unat (spc ctx)"
      using P by (simp_all add: le_div_geq le_mod_geq)
    then show ?thesis
      using Cons.IH [OF v(2) Cons.prems(2), of "s - unat (spc ctx)"] Cons.prems(2,3) False v(1)
      by (simp add: skip_clusters.simps [of ctx s])
  qed
qed

lemma chain_bytes_get:
  assumes "\<forall>x \<in> set (chain_sectors ctx cs). sector_ok ctx x"
  shows "bytes_of ctx (take k (drop s (chain_sectors ctx cs)))
    = buf_get (chain_bytes ctx cs) (s * unat (bps ctx)) (k * unat (bps ctx))"
  using assms by (subst bytes_of_take) (auto simp: bytes_of_drop chain_bytes_def buf_get_def dest: in_set_dropD)

text \<open>A read fits when the clusters that the code counts for it, without the sectors it skips in the first
  one, hold it.\<close>

definition read_fits :: "fat16_ctx \<Rightarrow> u32 \<Rightarrow> u32 \<Rightarrow> bool" where
  "read_fits ctx start count \<longleftrightarrow>
     (let k = unat count div unat (bps ctx); P = unat (spc ctx); r = (unat start div unat (bps ctx)) mod P in
      k = 0 \<or> r + k \<le> ((k + P - 1) div P) * P)"

text \<open>A file whose chain is readable: the chain, and the sectors behind it.\<close>

definition file_chain :: "fat16_ctx \<Rightarrow> fat16_dir_entry \<Rightarrow> u32 list \<Rightarrow> bool" where
  "file_chain ctx entry cs \<longleftrightarrow> bps ctx \<noteq> 0 \<and> spc ctx \<noteq> 0 \<and>
     (\<exists>c. fat_get_first_cluster ctx entry = Inr c \<and> chain_of ctx c cs) \<and>
     (\<forall>x \<in> set (chain_sectors ctx cs). sector_ok ctx x) \<and> length (chain_bytes ctx cs) < 2 ^ 31"

lemma length_chain_bytes:
  "file_chain ctx entry cs \<Longrightarrow> length (chain_bytes ctx cs) = length cs * unat (spc ctx) * unat (bps ctx)"
  by (simp add: file_chain_def chain_bytes_def length_bytes_of length_chain_sectors)

lemma unat_div_mod:
  "unat (a div b :: u32) = unat a div unat b" "unat (a mod b :: u32) = unat a mod unat b"
  by (simp_all add: unat_div unat_mod)

text \<open>The clusters that the code counts for a read.\<close>

lemma count_clusters:
  assumes "unat (c :: u32) < 2 ^ 31" and "unat (p :: u32) < 256" and "p \<noteq> 0"
  shows "unat ((c + p - 1) div p) = (unat c + unat p - 1) div unat p"
proof -
  have p: "0 < unat p" using assms(3) by (simp add: unat_gt_0)
  have "unat (c + p) = unat c + unat p" using assms by (intro unat_add_small) simp
  then have "unat (c + p - 1) = unat c + unat p - 1" using p by (subst unat_sub_small) simp_all
  then show ?thesis by (simp add: unat_div_mod)
qed

lemma ceil_div: "0 < (P :: nat) \<Longrightarrow> 0 < k \<Longrightarrow> ((k + P - 1) div P - 1) * P < k"
proof -
  assume P: "0 < P" and k: "0 < k"
  have "(k + P - 1) div P = Suc ((k - 1) div P)" using P k by (simp add: le_div_geq)
  moreover have "(k - 1) div P * P \<le> k - 1" by (rule div_times_less_eq_dividend)
  ultimately show ?thesis using k by (simp only: diff_Suc_1)
qed

lemma unat_spc: "unat (spc ctx) < 256"
proof -
  have "unat (bp_sectors_per_cluster (fc_bpb ctx)) < 2 ^ LENGTH(8)" by (rule unsigned_less)
  then show ?thesis by (simp add: spc_def unsigned_ucast_eq take_bit_nat_eq_self)
qed

text \<open>The whole read, by whether it fits.\<close>

lemma read_file_content:
  assumes fc: "file_chain ctx entry cs" and al: "unat start mod unat (bps ctx) = 0" "unat count mod unat (bps ctx) = 0"
    and len: "unat start + unat count \<le> length (chain_bytes ctx cs)" and buf: "offs + unat count \<le> length buf"
  shows "fat16_read_file_content ctx entry start count buf offs =
    (if read_fits ctx start count then Inr (S_OK, buf_put buf offs (buf_get (chain_bytes ctx cs) (unat start) (unat count)))
     else Inl (Panic ''fat16_read_file_content(): Unexpected.''))"
proof -
  define B P where BP: "B = unat (bps ctx)" "P = unat (spc ctx)"
  define s k where sk: "s = unat start div B" "k = unat count div B"
  define n where n: "n = (k + P - 1) div P"
  obtain c where c: "fat_get_first_cluster ctx entry = Inr c" "chain_of ctx c cs"
    and nz: "bps ctx \<noteq> 0" "spc ctx \<noteq> 0" and ok: "\<forall>x \<in> set (chain_sectors ctx cs). sector_ok ctx x"
    using fc by (auto simp: file_chain_def)
  have pos: "0 < B" "0 < P" using nz by (simp_all add: BP unat_gt_0)
  have sB: "s * B = unat start" and kB: "k * B = unat count" using al by (auto simp: sk BP(1))
  have L: "length (chain_bytes ctx cs) = length cs * P * B" using length_chain_bytes [OF fc] by (simp add: BP)
  have le: "s + k \<le> length cs * P"
  proof -
    have "(s + k) * B \<le> (length cs * P) * B" using len unfolding L by (simp add: add_mult_distrib sB kB)
    then show ?thesis using pos(1) by (simp only: mult_le_cancel2)
  qed
  have hops: "s div P \<le> length cs" using le pos(2) by (metis add_leD1 div_le_mono nonzero_mult_div_cancel_right not_gr_zero)
  obtain c' where c': "skip_clusters ctx s c = Inr (Some (c', s mod P))" "chain_of ctx c' (drop (s div P) cs)"
    using skip_clusters_skips [OF c(2) nz(2)] hops by (auto simp: BP(2))
  have n32: "unat ((count div bps ctx + spc ctx - 1) div spc ctx) = n"
  proof -
    have "unat count < 2 ^ 31" using len fc by (simp add: file_chain_def)
    then have "unat (count div bps ctx) < 2 ^ 31"
      unfolding unat_div_mod using div_le_dividend le_less_trans by blast
    then show ?thesis
      using count_clusters [OF _ unat_spc nz(2), of "count div bps ctx"] by (simp add: n sk BP unat_div_mod)
  qed
  have mods: "start mod bps ctx = 0" "count mod bps ctx = 0"
    using al by (simp_all add: word_unat_eq_iff unat_div_mod)
  have red: "fat16_read_file_content ctx entry start count buf offs =
      bindR (read_clusters ctx count offs n c' (s mod P) 0 buf) (\<lambda>(hr, write_index, buf).
        if FAILED hr then Inr (hr, buf)
        else if write_index \<noteq> count then Inl (Panic ''fat16_read_file_content(): Unexpected.'')
        else Inr (S_OK, buf))"
    using nz c(1) mods c'(1) n32
    by (simp add: fat16_read_file_content_def divR_def unat_div_mod sk BP)
  show ?thesis
  proof (cases "k = 0")
    case True
    then have "unat count = 0" using kB by simp
    then have "count = 0" by (simp add: unat_eq_zero)
    moreover have "n = 0" using True pos by (simp add: n)
    ultimately show ?thesis using True unfolding red by (simp add: read_fits_def Let_def sk BP [symmetric])
  next
    case False
    let ?r = "s mod P"
    have fits: "read_fits ctx start count \<longleftrightarrow> ?r + k \<le> n * P"
      using False by (simp add: read_fits_def Let_def n sk BP)
    have cl: "(n - 1) * P < k" "0 < n"
      using ceil_div [OF pos(2), of k] False pos(2) by (simp_all add: n div_greater_zero_iff)
    have nlen: "n \<le> length (drop (s div P) cs)"
    proof -
      have "(n - 1 + s div P) * P < k + s div P * P" using cl(1) by (simp add: add_mult_distrib)
      also have "\<dots> \<le> length cs * P" using le div_times_less_eq_dividend [of s P] by linarith
      finally have "n - 1 + s div P < length cs" using pos(2) by (simp only: mult_less_cancel2)
      then show ?thesis using cl(2) by simp
    qed
    have okd: "\<forall>x \<in> set (chain_sectors ctx (drop (s div P) cs)). sector_ok ctx x"
      using ok by (auto simp: chain_sectors_def dest: in_set_dropD)
    obtain w where w: "read_clusters ctx count offs n c' ?r 0 buf = Inr (S_OK, w,
        buf_put buf offs (bytes_of ctx (take k (drop ?r (chain_sectors ctx (take n (drop (s div P) cs)))))))"
      "unat w = min k (n * P - ?r) * B"
      using read_clusters_reads [OF c'(2) nlen, of ?r k count 0 offs buf] pos nz okd False buf
        ceil_div [of P k] kB by (auto simp: BP n)
    show ?thesis
    proof (cases "?r + k \<le> n * P")
      case True
      then have "unat w = unat count" using w(2) kB by simp
      then have "w = count" by (simp add: word_unat_eq_iff)
      moreover have "take k (drop ?r (chain_sectors ctx (take n (drop (s div P) cs)))) = take k (drop s (chain_sectors ctx cs))"
        using True by (simp add: chain_sectors_take chain_sectors_drop BP [symmetric] drop_take min_def)
      ultimately show ?thesis
        using True fits w(1) chain_bytes_get [OF ok, of k s] sB kB unfolding red by (simp add: BP)
    next
      case False
      then have "(n * P - ?r) * B < k * B" using pos \<open>k \<noteq> 0\<close> by (intro mult_strict_right_mono) linarith+
      then have "w \<noteq> count" using False w(2) kB by auto
      then show ?thesis using False fits w(1) unfolding red by simp
    qed
  qed
qed

section \<open>The layout of a volume\<close>



section \<open>Properties\<close>

text \<open>C24. Reading part of the content of a file, at sector boundaries, delivers that part of the concatenated
  clusters of its chain, whenever the number of clusters that the code derives from the length alone covers
  the part; when it does not, because the part begins inside a cluster, the kernel panics.\<close>

theorem fat16_read_file_content_exact:
  assumes "file_chain ctx entry cs" and "unat start mod unat (bps ctx) = 0" and "unat count mod unat (bps ctx) = 0"
    and "unat start + unat count \<le> length (chain_bytes ctx cs)" and "offs + unat count \<le> length buf"
  shows "fat16_read_file_content ctx entry start count buf offs =
    (if read_fits ctx start count then Inr (S_OK, buf_put buf offs (buf_get (chain_bytes ctx cs) (unat start) (unat count)))
     else Inl (Panic ''fat16_read_file_content(): Unexpected.''))"
  by (rule read_file_content [OF assms])

text \<open>Counting the clusters of a chain ends for every table whose entries stay in the table, cyclic or not:
  a chain shorter than the volume has clusters is counted, any other counts as empty.\<close>

theorem fat_count_chain_total:
  assumes "links_ok ctx C" and "c \<in> C" and "c \<noteq> 0" and "0 < unat (fc_total_cluster_cnt ctx)"
  shows "\<exists>n. fat_count_chain ctx c = Inr n
    \<and> (\<forall>cs. chain_of ctx c cs \<and> length cs < unat (fc_total_cluster_cnt ctx) \<longrightarrow> n = of_nat (length cs))
    \<and> ((\<nexists>cs. chain_of ctx c cs \<and> length cs < unat (fc_total_cluster_cnt ctx)) \<longrightarrow> n = 0)"
proof -
  let ?T = "unat (fc_total_cluster_cnt ctx)"
  have r: "fat_count_chain ctx c = Inr (case chain_upto ctx (?T - 1) c of None \<Rightarrow> 0 | Some cs \<Rightarrow> of_nat (length cs))"
    using count_loop_chain [OF assms(1,2), of 0] assms(3,4) by (simp add: fat_count_chain_def split: option.split)
  show ?thesis
  proof (cases "chain_upto ctx (?T - 1) c")
    case None
    then have "\<nexists>cs. chain_of ctx c cs \<and> length cs < ?T"
      using chain_upto_Some [of ctx "?T - 1" c] assms(4) by fastforce
    then show ?thesis using r None by auto
  next
    case (Some ds)
    then have "chain_of ctx c ds \<and> length ds < ?T" using chain_upto_Some [of ctx "?T - 1" c ds] assms(4) by auto
    moreover have "cs = ds" if "chain_of ctx c cs" "length cs < ?T" for cs
    proof -
      have "length cs \<le> ?T - 1" using that(2) by linarith
      then have "chain_upto ctx (?T - 1) c = Some cs" using that(1) by (simp only: chain_upto_Some simp_thms)
      then show ?thesis using Some by simp
    qed
    ultimately show ?thesis using r Some by auto
  qed
qed




section \<open>Examples\<close>

text \<open>A FAT12 volume with sectors of 4 bytes, one in a cluster, three clusters: a chain 2, 3 and a cycle at 4.\<close>

definition tiny_fat :: fat16_ctx where
  "tiny_fat = \<lparr> fc_storage = \<lparr> sd_read = (\<lambda>n k. (S_OK, [ucast n, ucast n, ucast n, ucast n])), sd_block_size = (S_OK, 4) \<rparr>,
     fc_bpb = (dec_bpb (replicate 36 0))\<lparr>bp_bytes_per_sector := 4, bp_sectors_per_cluster := 1, bp_num_sectors_16 := 5,
       bp_reserved_sectors := 1, bp_fat_count := 1, bp_sectors_per_fat := 1, bp_root_entries := 0\<rparr>,
     fc_ebpb = dec_ebpb (replicate 26 0), fc_fs_type = FS_TYPE_FAT12,
     fc_fat_cache = Some [0xF0, 0xFF, 0xFF, 0x03, 0xF0, 0xFF, 4, 0, 0], fc_fat_cache_dirty = 0,
     fc_first_data_sector = 2, fc_first_fat_sector = 1, fc_first_root_sector = 2, fc_total_sectors = 5,
     fc_data_sector_cnt = 3, fc_total_cluster_cnt = 3 \<rparr>"

definition tiny_entry :: fat16_dir_entry where
  "tiny_entry = (dec_entry (replicate 32 0))\<lparr>de_first_clust_low := 2, de_size := 7\<rparr>"

lemma tiny_sel [simp]:
  "bps tiny_fat = 4" "spc tiny_fat = 1" "root_entries tiny_fat = 0" "fc_fs_type tiny_fat = FS_TYPE_FAT12"
  "fc_first_data_sector tiny_fat = 2" "fc_total_cluster_cnt tiny_fat = 3"
  "fc_fat_cache tiny_fat = Some [0xF0, 0xFF, 0xFF, 0x03, 0xF0, 0xFF, 4, 0, 0]"
  "sector_bytes tiny_fat n = [ucast n, ucast n, ucast n, ucast n]" "sector_ok tiny_fat n"
  by (simp_all add: tiny_fat_def bps_def spc_def root_entries_def sector_bytes_def sector_ok_def dec_bpb_def)

lemma tiny_links:
  "fat16_fat_lookup tiny_fat 2 = Inr (Some 3)" "fat16_fat_lookup tiny_fat 3 = Inr (Some 0xFFF)"
  "fat16_fat_lookup tiny_fat 4 = Inr (Some 4)"
  "fat_is_end_of_chain tiny_fat 0xFFF = Inr True" "fat_is_end_of_chain tiny_fat 4 = Inr False"
  by (simp_all add: fat16_fat_lookup_def fat_is_end_of_chain_def fs_types cache_word_def buf_get_def)

lemma tiny_file: "file_chain tiny_fat tiny_entry [2, 3]" "chain_bytes tiny_fat [2, 3] = [2, 2, 2, 2, 3, 3, 3, 3]"
proof -
  show d: "chain_bytes tiny_fat [2, 3] = [2, 2, 2, 2, 3, 3, 3, 3]"
    by (simp add: chain_bytes_def cluster_sectors_def sector_ids_def cluster_sector_def)
  show "file_chain tiny_fat tiny_entry [2, 3]"
    by (simp add: file_chain_def d fat_get_first_cluster_def tiny_entry_def tiny_links)
qed

lemma fat16_read_file_content_exact_witness:
  "fat16_read_file_content tiny_fat tiny_entry 4 4 [0, 0, 0, 0, 0] 1 = Inr (S_OK, [0, 3, 3, 3, 3])"
proof -
  have "read_fits tiny_fat 4 4" by (simp add: read_fits_def)
  then show ?thesis
    using fat16_read_file_content_exact [OF tiny_file(1), of 4 4 1 "[0, 0, 0, 0, 0]"]
    by (simp add: tiny_file(2) buf_put_def buf_get_def)
qed

lemma tiny_cycle: "\<not> chain_of tiny_fat 4 cs"
  by (induction cs) (simp_all add: tiny_links)

lemma fat_count_chain_total_witness: "fat_count_chain tiny_fat 4 = Inr 0"
proof -
  have "links_ok tiny_fat {4}" by (simp add: links_ok_def tiny_links)
  from fat_count_chain_total [OF this, of 4] show ?thesis using tiny_cycle by auto
qed


end
