(* ===== verification/FatFile.thy ===== *)
theory FatFile
  imports Fat16 CString VfsFile
begin

unbundle bit_operations_syntax

text \<open>
  Model of \<^verbatim>\<open>drivers/fat16.c\<close>, the file system: short names, the search for a path, directory streams,
  and file streams with their block cache. Every allocation goes through the parameter \<open>mal\<close>; a local
  variable that the code may use before it is set is a parameter too.
\<close>

section \<open>Directory entries\<close>

text \<open>The entry at an index of the content of a directory.\<close>

definition entry_at :: "bytes \<Rightarrow> nat \<Rightarrow> fat16_dir_entry run" where
  "entry_at content i =
     (if 32 * i + 32 \<le> length content then Inr (dec_entry (buf_get content (32 * i) 32)) else Inl BadAccess)"

definition fat_copy_short_filename :: "fat16_dir_entry \<Rightarrow> bytes" where
  "fat_copy_short_filename e =
     takeWhile (\<lambda>c. c \<noteq> 32) (de_filename e) @ (if de_ext e ! 0 \<noteq> 32 then [46] else [])
       @ takeWhile (\<lambda>c. c \<noteq> 32) (de_ext e) @ [0]"

text \<open>What a C string in a buffer says.\<close>

definition cstring :: "bytes \<Rightarrow> bytes" where
  "cstring b = takeWhile (\<lambda>c. c \<noteq> 0) b"

fun fat_get_subitem_count :: "bytes \<Rightarrow> nat list \<Rightarrow> u32 \<Rightarrow> u32 run" where
  "fat_get_subitem_count entry_arr [] cnt = Inr cnt"
| "fat_get_subitem_count entry_arr (i # is) cnt =
     bindR (entry_at entry_arr i) (\<lambda>e.
     if de_filename e ! 0 = 0xE5 then fat_get_subitem_count entry_arr is cnt
     else if de_filename e ! 0 = 0x00 then Inr cnt
     else fat_get_subitem_count entry_arr is (cnt + 1))"

text \<open>The loop over the sub-entries. Names compare as \<^verbatim>\<open>stricmp\<close> does (\<open>stricmp_cstr\<close>),
  without regard to case.\<close>

fun find_entries :: "bytes \<Rightarrow> bytes \<Rightarrow> u32 \<Rightarrow> bool \<Rightarrow> nat list \<Rightarrow> fat16_dir_entry option run" where
  "find_entries buf filename flagmask skip_vlabel [] = Inr None"
| "find_entries buf filename flagmask skip_vlabel (i # is) =
     bindR (entry_at buf i) (\<lambda>e0.
     if de_filename e0 ! 0 = 0xE5 then find_entries buf filename flagmask skip_vlabel is
     else
       let e = (if de_filename e0 ! 0 = 0x05 then e0\<lparr>de_filename := (de_filename e0)[0 := 0xE5]\<rparr> else e0) in
       if de_filename e ! 0 = 0x00 then Inr None
       else if skip_vlabel \<and> de_attributes e AND FAT_ATTR_VOLUMEL \<noteq> 0 then find_entries buf filename flagmask skip_vlabel is
       else if flagmask \<noteq> 0 \<and> ucast (de_attributes e) AND flagmask \<noteq> flagmask then find_entries buf filename flagmask skip_vlabel is
       else if map toupper (cstring (fat_copy_short_filename e)) \<noteq> map toupper filename
       then find_entries buf filename flagmask skip_vlabel is
       else Inr (Some e))"

text \<open>The content of a directory and the number of its entries; the root has no entry of its own.\<close>

definition root_content :: "malloc \<Rightarrow> fat16_ctx \<Rightarrow> u32 \<Rightarrow> (hresult \<times> (bytes \<times> nat) option) run" where
  "root_content mal ctx room =
     (case mal room of
        None \<Rightarrow> Inr (E_OUTOFMEM, None)
      | Some buf \<Rightarrow>
          bindR (fat16_read_rootdir_content mal ctx buf) (\<lambda>(hr, buf).
          if FAILED hr then Inr (hr, None) else Inr (S_OK, Some (buf, unat (root_entries ctx)))))"

definition dir_content_size :: "fat16_ctx \<Rightarrow> fat16_dir_entry \<Rightarrow> u32 run" where
  "dir_content_size ctx entry =
     bindR (fat_get_first_cluster ctx entry) (\<lambda>c.
     bindR (fat_count_chain ctx c) (\<lambda>n. Inr (n * bps ctx * spc ctx)))"

definition dir_content :: "malloc \<Rightarrow> fat16_ctx \<Rightarrow> fat16_dir_entry \<Rightarrow> u32 \<Rightarrow> (hresult \<times> (bytes \<times> nat) option) run" where
  "dir_content mal ctx entry content_size =
     (case mal content_size of
        None \<Rightarrow> Inr (E_OUTOFMEM, None)
      | Some buf \<Rightarrow>
          bindR (fat16_read_file_content ctx entry 0 content_size buf 0) (\<lambda>(hr, buf).
          if FAILED hr then Inr (hr, None) else Inr (S_OK, Some (buf, unat (content_size div 32)))))"

text \<open>The buffer for the root has \<^verbatim>\<open>root_entries & sizeof(FAT16_DIR_ENTRY)\<close> bytes. The entry found is
  nothing when \<^verbatim>\<open>dst\<close> stays as it was.\<close>

definition fat16_find_subentry ::
  "malloc \<Rightarrow> fat16_ctx \<Rightarrow> fat16_dir_entry option \<Rightarrow> bytes \<Rightarrow> u32 \<Rightarrow> bool \<Rightarrow> (hresult \<times> fat16_dir_entry option) run" where
  "fat16_find_subentry mal ctx dir filename flagmask skip_vlabel =
     bindR (case dir of
         None \<Rightarrow> root_content mal ctx (root_entries ctx AND 32)
       | Some d \<Rightarrow>
           bindR (dir_content_size ctx d) (\<lambda>content_size.
           if de_attributes d AND FAT_ATTR_DIRECTORY = 0 then Inr (E_INVALIDARG, None)
           else dir_content mal ctx d content_size))
       (\<lambda>(hr, content).
     case content of
       None \<Rightarrow> Inr (hr, None)
     | Some (buf, entry_cnt) \<Rightarrow>
         bindR (find_entries buf filename flagmask skip_vlabel [0 ..< entry_cnt]) (\<lambda>r.
         case r of None \<Rightarrow> Inr (E_NOTFOUND, None) | Some e \<Rightarrow> Inr (hr, Some e)))"

text \<open>The walk along the components of a path; \<open>cur\<close> is the entry reached, nothing at the root.\<close>

fun fat_parse_loop ::
  "malloc \<Rightarrow> fat16_ctx \<Rightarrow> bytes \<Rightarrow> nat list \<Rightarrow> fat16_dir_entry option \<Rightarrow> (hresult \<times> fat16_dir_entry option) run" where
  "fat_parse_loop mal ctx url [] cur = Inr (S_OK, cur)"
| "fat_parse_loop mal ctx url (c # cs) cur =
     (let comp_name = comp_at url c; flagmask = (if cs = [] then 0 else ucast FAT_ATTR_DIRECTORY) in
      if length comp_name \<ge> 256 then Inl BadAccess
      else
        bindR (fat16_find_subentry mal ctx cur comp_name flagmask True) (\<lambda>(hr, e).
        if FAILED hr then Inr (hr, None) else fat_parse_loop mal ctx url cs e))"

text \<open>A path without components delivers the local variable \<^verbatim>\<open>curr_entry\<close> as it is, here \<open>uninit\<close>.\<close>

definition fat16_parse_url ::
  "malloc \<Rightarrow> fat16_dir_entry \<Rightarrow> fat16_ctx \<Rightarrow> bytes \<Rightarrow> (hresult \<times> fat16_dir_entry option) run" where
  "fat16_parse_url mal uninit ctx url =
     bindR (fat_parse_loop mal ctx url (url_decompose url VFS_PATH_DELIMITER) None) (\<lambda>(hr, e).
     if FAILED hr then Inr (hr, None) else Inr (S_OK, Some (case e of None \<Rightarrow> uninit | Some e \<Rightarrow> e)))"

section \<open>Directory streams\<close>

record fat_dir_stream =
  fds_len :: nat
  fds_pos :: nat
  fds_dirname :: bytes
  fds_content :: bytes

definition fat16_opendir ::
  "malloc \<Rightarrow> fat16_dir_entry \<Rightarrow> fat16_ctx \<Rightarrow> bytes \<Rightarrow> (hresult \<times> fat_dir_stream option) run" where
  "fat16_opendir mal uninit ctx dirname =
     bindR (if dirname \<noteq> [] then
              bindR (fat16_parse_url mal uninit ctx dirname) (\<lambda>(hr, e).
              case e of
                None \<Rightarrow> Inr (hr, None)
              | Some entry \<Rightarrow>
                  if de_attributes entry AND FAT_ATTR_DIRECTORY = 0 then Inr (E_FAIL, None)
                  else
                    bindR (dir_content_size ctx entry) (\<lambda>content_size.
                    if content_size = 0 then Inr (E_FAIL, None) else dir_content mal ctx entry content_size))
            else root_content mal ctx (fat_get_rootdir_size ctx))
       (\<lambda>(hr, content).
     case content of
       None \<Rightarrow> Inr (hr, None)
     | Some (buf, n) \<Rightarrow>
         (case mal 36 of
            None \<Rightarrow> Inl BadAccess
          | Some _ \<Rightarrow>
              (case mal (of_nat VFS_MAX_DIRNAME_LENGTH) of
                 None \<Rightarrow> Inr (E_OUTOFMEM, None)
               | Some name \<Rightarrow>
                   if length dirname \<ge> length name then Inl BadAccess
                   else Inr (S_OK, Some \<lparr> fds_len = n, fds_pos = 0, fds_dirname = dirname, fds_content = buf \<rparr>))))"

definition skipped_entry :: "fat16_dir_entry \<Rightarrow> bool" where
  "skipped_entry e \<longleftrightarrow> de_attributes e AND FAT_ATTR_VOLUMEL \<noteq> 0 \<or> de_attributes e = 0x0F \<or>
     (de_filename e ! 0 = 46 \<and> (de_filename e ! 1 = 32 \<or> (de_filename e ! 1 = 46 \<and> de_filename e ! 2 = 32)))"

function fat16_readdir :: "fat_dir_stream \<Rightarrow> (hresult \<times> (bytes \<times> u32 \<times> u32) option \<times> fat_dir_stream) run" where
  "fat16_readdir d =
     (if fds_pos d < fds_len d then
        bindR (entry_at (fds_content d) (fds_pos d)) (\<lambda>e.
        if de_filename e ! 0 = 0xE5 then fat16_readdir (d\<lparr>fds_pos := fds_pos d + 1\<rparr>)
        else if de_filename e ! 0 = 0x00 then Inr (E_ENDOFSTR, None, d\<lparr>fds_pos := fds_len d\<rparr>)
        else if skipped_entry e then fat16_readdir (d\<lparr>fds_pos := fds_pos d + 1\<rparr>)
        else Inr (S_OK, Some (cstring (fat_copy_short_filename e), de_size e,
                     ucast (if de_attributes e AND FAT_ATTR_DIRECTORY = 0 then NODE_TYPE_FILE else NODE_TYPE_DIRECTORY)),
                  d\<lparr>fds_pos := fds_pos d + 1\<rparr>))
      else Inr (E_ENDOFSTR, None, d))"
  by pat_completeness auto
termination by (relation "measure (\<lambda>d. fds_len d - fds_pos d)") auto

definition fat16_rewinddir :: "fat_dir_stream \<Rightarrow> hresult \<times> fat_dir_stream" where
  "fat16_rewinddir d = (S_OK, d\<lparr>fds_pos := 0\<rparr>)"

definition fat16_closedir :: "fat_dir_stream \<Rightarrow> hresult \<times> fat_dir_stream option" where
  "fat16_closedir d = (S_OK, None)"

definition fat16_mkdir :: "bytes \<Rightarrow> u32 \<Rightarrow> hresult" where "fat16_mkdir path mode = E_NOTIMPL"
definition fat16_create :: "bytes \<Rightarrow> u32 \<Rightarrow> hresult" where "fat16_create filename perm = E_NOTIMPL"

section \<open>File streams\<close>

text \<open>The stream and its private structure.\<close>

record fat_stream =
  fst_mode :: u32
  fst_pos :: u32
  fst_lock :: mutex
  fst_entry :: fat16_dir_entry
  fst_cache_cap :: u32
  fst_cache_start_addr :: u32
  fst_cache_size :: u32
  fst_cache_buff :: "bytes option"
  fst_cache_invalid :: bool

text \<open>\<open>str_ok\<close> and \<open>ctx_ok\<close> tell whether \<^verbatim>\<open>kcalloc\<close> delivers the stream and its private structure.\<close>

definition fat16_open ::
  "malloc \<Rightarrow> fat16_dir_entry \<Rightarrow> bool \<Rightarrow> bool \<Rightarrow> fat16_ctx \<Rightarrow> bytes \<Rightarrow> u32 \<Rightarrow> (hresult \<times> fat_stream option) run" where
  "fat16_open mal uninit str_ok ctx_ok ctx filename flags =
     bindR (fat16_parse_url mal uninit ctx filename) (\<lambda>(hr, e).
     case e of
       None \<Rightarrow> Inr (hr, None)
     | Some entry \<Rightarrow>
         if de_attributes entry AND (FAT_ATTR_DIRECTORY OR FAT_ATTR_VOLUMEL) \<noteq> 0 then Inr (E_FAIL, None)
         else if \<not> str_ok \<or> \<not> ctx_ok then Inr (E_OUTOFMEM, None)
         else Inr (S_OK, Some \<lparr> fst_mode = flags, fst_pos = 0, fst_lock = mutex_create, fst_entry = entry,
                fst_cache_cap = 0, fst_cache_start_addr = 0, fst_cache_size = 0, fst_cache_buff = None,
                fst_cache_invalid = False \<rparr>))"

definition fat16_file_close :: "fat_stream \<Rightarrow> hresult \<times> fat_stream option" where
  "fat16_file_close s = (S_OK, None)"

definition cache_bytes :: "fat_stream \<Rightarrow> bytes" where
  "cache_bytes s = (case fst_cache_buff s of None \<Rightarrow> [] | Some b \<Rightarrow> b)"

definition fat16_cache_blocks :: "malloc \<Rightarrow> fat16_ctx \<Rightarrow> fat_stream \<Rightarrow> u32 \<Rightarrow> u32 \<Rightarrow> (hresult \<times> fat_stream) run" where
  "fat16_cache_blocks mal ctx s start_addr block_cnt =
     bindR (divR start_addr (bps ctx)) (\<lambda>_.
     if start_addr mod bps ctx \<noteq> 0 \<or> block_cnt = 0 then Inr (E_INVALIDARG, s)
     else
       let sz = block_cnt * bps ctx; grow = fst_cache_cap s < sz in
       if grow \<and> mal sz = None then Inr (E_OUTOFMEM, s\<lparr>fst_cache_buff := None\<rparr>)
       else
         let s = (if grow then s\<lparr>fst_cache_buff := mal sz, fst_cache_cap := sz, fst_cache_invalid := True\<rparr> else s) in
         bindR (fat16_read_file_content ctx (fst_entry s) start_addr sz (cache_bytes s) 0) (\<lambda>(hr, b).
         let s = s\<lparr>fst_cache_buff := map_option (\<lambda>_. b) (fst_cache_buff s)\<rparr> in
         if FAILED hr then Inr (hr, s)
         else Inr (S_OK, s\<lparr>fst_cache_start_addr := start_addr, fst_cache_size := sz, fst_cache_invalid := False\<rparr>)))"

text \<open>The three parts of a read: what the cache has, the rest of a block entered in its middle, then whole
  blocks and the beginning of the last one. \<open>w\<close>, \<open>r\<close> and \<open>cnt\<close> are the write index, the read index and the
  bytes still to read.\<close>

definition read_cached :: "fat_stream \<Rightarrow> u32 \<Rightarrow> u32 \<Rightarrow> bytes \<Rightarrow> (bool \<times> bytes \<times> u32 \<times> u32 \<times> u32) run" where
  "read_cached s start_addr cnt dst =
     (let cend = fst_cache_start_addr s + fst_cache_size s; offs = start_addr - fst_cache_start_addr s in
      if \<not> fst_cache_invalid s \<and> start_addr \<ge> fst_cache_start_addr s \<and> start_addr \<le> cend then
        if start_addr + cnt \<le> cend then
          bindR (memcpyR dst 0 (cache_bytes s) (unat offs) (unat cnt)) (\<lambda>dst. Inr (True, dst, 0, start_addr, cnt))
        else
          let n = fst_cache_size s - offs in
          bindR (memcpyR dst 0 (cache_bytes s) (unat offs) (unat n)) (\<lambda>dst.
          Inr (False, dst, n, start_addr + n, cnt - n))
      else Inr (False, dst, 0, start_addr, cnt))"

definition read_first ::
  "malloc \<Rightarrow> fat16_ctx \<Rightarrow> fat_stream \<Rightarrow> bytes \<Rightarrow> u32 \<Rightarrow> u32 \<Rightarrow> u32 \<Rightarrow> (hresult \<times> fat_stream \<times> bytes \<times> u32 \<times> u32 \<times> u32) run" where
  "read_first mal ctx s dst w r cnt =
     bindR (divR r (bps ctx)) (\<lambda>_.
     let offs = r mod bps ctx; n = bps ctx - offs in
     if offs = 0 then Inr (S_OK, s, dst, w, r, cnt)
     else
       bindR (fat16_cache_blocks mal ctx s (r - offs) 1) (\<lambda>(hr, s).
       if FAILED hr then Inr (hr, s, dst, w, r, cnt)
       else
         bindR (memcpyR dst (unat w) (cache_bytes s) (unat offs) (unat n)) (\<lambda>dst.
         Inr (S_OK, s, dst, w + n, r + n, cnt - n))))"

definition read_rest ::
  "malloc \<Rightarrow> fat16_ctx \<Rightarrow> fat_stream \<Rightarrow> bytes \<Rightarrow> u32 \<Rightarrow> u32 \<Rightarrow> u32 \<Rightarrow> (hresult \<times> fat_stream \<times> bytes) run" where
  "read_rest mal ctx s dst w r cnt =
     (if r mod bps ctx \<noteq> 0 then Inl (Panic ''fat16_read_subblock(): unexpected.'')
      else
        bindR (divR cnt (bps ctx)) (\<lambda>block_count.
        let n = block_count * bps ctx in
        bindR (fat16_read_file_content ctx (fst_entry s) r n dst (unat w)) (\<lambda>(hr, dst).
        if FAILED hr then Inr (hr, s, dst)
        else if cnt - n \<ge> bps ctx then Inl (Panic ''fat16_read_subblock(): unexpected(2).'')
        else if cnt - n > 0 then
          bindR (fat16_cache_blocks mal ctx s (r + n) 1) (\<lambda>(hr, s).
          if FAILED hr then Inr (hr, s, dst)
          else
            bindR (memcpyR dst (unat (w + n)) (cache_bytes s) 0 (unat (cnt - n))) (\<lambda>dst. Inr (S_OK, s, dst)))
        else Inr (S_OK, s, dst))))"

definition fat16_read_subblock ::
  "malloc \<Rightarrow> fat16_ctx \<Rightarrow> fat_stream \<Rightarrow> u32 \<Rightarrow> u32 \<Rightarrow> bytes \<Rightarrow> (hresult \<times> fat_stream \<times> bytes) run" where
  "fat16_read_subblock mal ctx s start_addr cnt dst =
     bindR (read_cached s start_addr cnt dst) (\<lambda>(hit, dst, w, r, cnt).
     if hit then Inr (S_OK, s, dst)
     else
       bindR (read_first mal ctx s dst w r cnt) (\<lambda>(hr, s, dst, w, r, cnt).
       if FAILED hr then Inr (hr, s, dst) else read_rest mal ctx s dst w r cnt))"

text \<open>The part of a read under the lock of the stream: \<^verbatim>\<open>n\<close> is \<^verbatim>\<open>effective_size\<close>.\<close>

definition effective_size :: "fat_stream \<Rightarrow> u32 \<Rightarrow> u32" where
  "effective_size s block_size =
     (if block_size + fst_pos s \<ge> de_size (fst_entry s) then de_size (fst_entry s) - fst_pos s else block_size)"

definition read_locked ::
  "malloc \<Rightarrow> fat16_ctx \<Rightarrow> fat_stream \<Rightarrow> u32 \<Rightarrow> bytes \<Rightarrow> (hresult \<times> fat_stream \<times> bytes \<times> u32 option) run" where
  "read_locked mal ctx s n dst =
     (if n = 0 then Inr (E_ENDOFSTR, s, dst, Some 0)
      else
        bindR (fat16_read_subblock mal ctx s (fst_pos s) n dst) (\<lambda>(hr, s, dst).
        if FAILED hr then Inr (hr, s, dst, None) else Inr (hr, s\<lparr>fst_pos := fst_pos s + n\<rparr>, dst, Some n)))"

text \<open>The results are the status, the caller's buffer and what \<^verbatim>\<open>*bytes_read\<close> is set to, if it is.\<close>

definition fat16_file_read ::
  "malloc \<Rightarrow> fat16_ctx \<Rightarrow> cpu \<Rightarrow> fat_stream \<Rightarrow> u32 \<Rightarrow> bytes option
   \<Rightarrow> (hresult \<times> bytes option \<times> u32 option \<times> cpu \<times> fat_stream) run" where
  "fat16_file_read mal ctx c s block_size out_buf =
     (if block_size = 0 then Inr (E_INVALIDARG, out_buf, None, c, s)
      else case out_buf of
        None \<Rightarrow> Inr (E_POINTER, None, None, c, s)
      | Some dst \<Rightarrow>
          bindR (mutex_lock c (fst_lock s)) (\<lambda>(c, l).
          bindR (read_locked mal ctx (s\<lparr>fst_lock := l\<rparr>) (effective_size s block_size) dst) (\<lambda>(hr, s, dst, bytes_read).
          bindR (mutex_unlock c (fst_lock s)) (\<lambda>(c, l).
          Inr (hr, Some dst, bytes_read, c, s\<lparr>fst_lock := l\<rparr>)))))"

definition fat16_file_write :: "u32 \<Rightarrow> bytes \<Rightarrow> hresult" where "fat16_file_write block_size in_buf = E_NOTIMPL"
definition fat16_file_ioctl :: "u32 \<Rightarrow> hresult" where "fat16_file_ioctl code = E_UNEXPECTED"

definition fat16_file_seek :: "cpu \<Rightarrow> fat_stream \<Rightarrow> u64 \<Rightarrow> u8 \<Rightarrow> (hresult \<times> cpu \<times> fat_stream) run" where
  "fat16_file_seek c s pos origin =
     bindR (mutex_lock c (fst_lock s)) (\<lambda>(c, l).
     let s = s\<lparr>fst_lock := l\<rparr>; sz = de_size (fst_entry s);
         target = (if origin = KSTREAM_ORIGIN_BEGINNING then Some (ucast pos)
                   else if origin = KSTREAM_ORIGIN_CURRENT then Some (fst_pos s + ucast pos)
                   else if origin = KSTREAM_ORIGIN_END then Some (sz - ucast pos)
                   else None);
         (hr, s) = (case target of
             None \<Rightarrow> (E_INVALIDARG, s)
           | Some new_pos \<Rightarrow>
               if sint new_pos < 0 \<or> sint new_pos > sint sz then (E_INVALIDARG, s) else (S_OK, s\<lparr>fst_pos := new_pos\<rparr>)) in
     bindR (mutex_unlock c (fst_lock s)) (\<lambda>(c, l). Inr (hr, c, s\<lparr>fst_lock := l\<rparr>)))"

definition fat16_file_tell :: "cpu \<Rightarrow> fat_stream \<Rightarrow> (u32 \<times> cpu \<times> fat_stream) run" where
  "fat16_file_tell c s =
     bindR (mutex_lock c (fst_lock s)) (\<lambda>(c, l).
     bindR (mutex_unlock c l) (\<lambda>(c, l). Inr (fst_pos s, c, s\<lparr>fst_lock := l\<rparr>)))"

section \<open>Mounting\<close>

text \<open>\<^verbatim>\<open>priv_data\<close> of a driver. The destructor frees the context and leaves the pointer as it is.\<close>

datatype priv_data = Null | Live fat16_ctx | Dangling

record fat16_drv =
  fdv_priv_data :: priv_data
  fdv_storage_open :: bool
  fdv_ops :: bool

definition zero_bpb :: fat16_bpb where "zero_bpb = dec_bpb (replicate 36 0)"
definition zero_ebpb :: fat16_ebpb where "zero_ebpb = dec_ebpb (replicate 26 0)"

definition zero_ctx :: "storage \<Rightarrow> fat16_ctx" where
  "zero_ctx st = \<lparr> fc_storage = st, fc_bpb = zero_bpb, fc_ebpb = zero_ebpb, fc_fs_type = 0, fc_fat_cache = None,
     fc_fat_cache_dirty = 0, fc_first_data_sector = 0, fc_first_fat_sector = 0, fc_first_root_sector = 0,
     fc_total_sectors = 0, fc_data_sector_cnt = 0, fc_total_cluster_cnt = 0 \<rparr>"

text \<open>\<open>opened\<close> is what \<^verbatim>\<open>k_fopen\<close> delivers for the name of the storage device.\<close>

definition fat16_init :: "malloc \<Rightarrow> bool \<Rightarrow> hresult \<times> storage \<Rightarrow> fat16_drv \<Rightarrow> (hresult \<times> fat16_drv) run" where
  "fat16_init mal ctx_ok opened drv =
     (if fdv_priv_data drv \<noteq> Null then Inr (E_FAIL, drv)
      else if \<not> ctx_ok then Inr (E_OUTOFMEM, drv)
      else
        let (hr, st) = opened; drv = drv\<lparr>fdv_priv_data := Live (zero_ctx st)\<rparr> in
        if FAILED hr then Inr (hr, drv)
        else
          let drv = drv\<lparr>fdv_storage_open := True\<rparr> in
          bindR (fat16_parse_bpb mal (zero_ctx st)) (\<lambda>(hr, ctx).
          let drv = drv\<lparr>fdv_priv_data := Live ctx\<rparr> in
          if FAILED hr then Inr (E_FAIL, drv)
          else
            bindR (fat16_cache_fat_table mal ctx) (\<lambda>(hr, ctx).
            let drv = drv\<lparr>fdv_priv_data := Live ctx\<rparr> in
            if FAILED hr then Inr (hr, drv) else Inr (S_OK, drv\<lparr>fdv_ops := True\<rparr>))))"

definition fat16_fini :: "fat16_drv \<Rightarrow> (hresult \<times> fat16_drv) run" where
  "fat16_fini drv =
     (case fdv_priv_data drv of
        Null \<Rightarrow> Inr (E_FAIL, drv)
      | Live ctx \<Rightarrow> Inr (S_OK, drv\<lparr>fdv_priv_data := Dangling, fdv_storage_open := False\<rparr>)
      | Dangling \<Rightarrow> Inl BadAccess)"

declare fat16_readdir.simps [simp del]

section \<open>The block cache\<close>

text \<open>The cache holds a part of the content of the file, from a block boundary to a block boundary.\<close>

definition cache_ok :: "fat16_ctx \<Rightarrow> bytes \<Rightarrow> fat_stream \<Rightarrow> bool" where
  "cache_ok ctx d s \<longleftrightarrow>
     unat (fst_cache_cap s) \<le> length (cache_bytes s) \<and>
     (\<not> fst_cache_invalid s \<longrightarrow>
        unat (fst_cache_start_addr s) mod unat (bps ctx) = 0 \<and> unat (fst_cache_size s) mod unat (bps ctx) = 0 \<and>
        unat (fst_cache_start_addr s) + unat (fst_cache_size s) \<le> length d \<and>
        unat (fst_cache_size s) \<le> length (cache_bytes s) \<and>
        take (unat (fst_cache_size s)) (cache_bytes s)
          = buf_get d (unat (fst_cache_start_addr s)) (unat (fst_cache_size s)))"

text \<open>A position from which the code reads on correctly: a block boundary, or one inside the cache.\<close>

definition pos_ok :: "fat16_ctx \<Rightarrow> fat_stream \<Rightarrow> nat \<Rightarrow> bool" where
  "pos_ok ctx s p \<longleftrightarrow> p mod unat (bps ctx) = 0 \<or>
     (\<not> fst_cache_invalid s \<and> unat (fst_cache_start_addr s) \<le> p
        \<and> p \<le> unat (fst_cache_start_addr s) + unat (fst_cache_size s))"

definition same_stream :: "fat_stream \<Rightarrow> fat_stream \<Rightarrow> bool" where
  "same_stream s s' \<longleftrightarrow> fst_mode s' = fst_mode s \<and> fst_pos s' = fst_pos s \<and> fst_lock s' = fst_lock s
     \<and> fst_entry s' = fst_entry s"

text \<open>The allocator has a block for a sector.\<close>

definition sector_room :: "malloc \<Rightarrow> fat16_ctx \<Rightarrow> bool" where
  "sector_room mal ctx \<longleftrightarrow> (\<exists>b. mal (bps ctx) = Some b \<and> unat (bps ctx) \<le> length b)"

lemma read_fits_sector:
  assumes "unat count = unat (bps ctx)" and "spc ctx \<noteq> 0" and "bps ctx \<noteq> 0"
  shows "read_fits ctx start count"
proof -
  have P: "0 < unat (spc ctx)" "0 < unat (bps ctx)" using assms(2,3) by (simp_all add: unat_gt_0)
  then have "(1 + unat (spc ctx) - 1) div unat (spc ctx) * unat (spc ctx) = unat (spc ctx)" by simp
  moreover have "unat start div unat (bps ctx) mod unat (spc ctx) + 1 \<le> unat (spc ctx)"
    using P by (simp add: Suc_le_eq)
  ultimately show ?thesis using P by (simp add: read_fits_def assms(1))
qed

lemma file_chainD: "file_chain ctx e cs \<Longrightarrow> bps ctx \<noteq> 0 \<and> spc ctx \<noteq> 0 \<and> length (chain_bytes ctx cs) < 2 ^ 31"
  by (simp add: file_chain_def)

lemma cache_block:
  assumes fc: "file_chain ctx (fst_entry s) cs" and ok: "cache_ok ctx (chain_bytes ctx cs) s" and mal: "sector_room mal ctx"
    and al: "unat a mod unat (bps ctx) = 0" and le: "unat a + unat (bps ctx) \<le> length (chain_bytes ctx cs)"
  shows "\<exists>s'. fat16_cache_blocks mal ctx s a 1 = Inr (S_OK, s') \<and> cache_ok ctx (chain_bytes ctx cs) s'
    \<and> same_stream s s' \<and> fst_cache_start_addr s' = a \<and> fst_cache_size s' = bps ctx \<and> \<not> fst_cache_invalid s'"
proof -
  let ?d = "chain_bytes ctx cs" and ?B = "unat (bps ctx)"
  have nz: "bps ctx \<noteq> 0" "spc ctx \<noteq> 0" using file_chainD [OF fc] by simp_all
  have am: "a mod bps ctx = 0" using al by (simp add: word_unat_eq_iff unat_div_mod)
  obtain m where m: "mal (bps ctx) = Some m" "?B \<le> length m" using mal by (auto simp: sector_room_def)
  define g where "g = (fst_cache_cap s < bps ctx)"
  define s1 where "s1 = (if g then s\<lparr>fst_cache_buff := Some m, fst_cache_cap := bps ctx, fst_cache_invalid := True\<rparr> else s)"
  have s1: "unat (fst_cache_cap s1) \<le> length (cache_bytes s1)" "?B \<le> unat (fst_cache_cap s1)"
      "fst_entry s1 = fst_entry s" "same_stream s s1"
    using ok m(2) by (auto simp: s1_def g_def cache_ok_def cache_bytes_def same_stream_def word_less_nat_alt)
  have len: "0 + ?B \<le> length (cache_bytes s1)" using s1 by simp
  obtain b where b: "fst_cache_buff s1 = Some b" "cache_bytes s1 = b"
    using len nz by (cases "fst_cache_buff s1") (auto simp: cache_bytes_def unat_eq_zero)
  let ?b = "buf_put b 0 (buf_get ?d (unat a) ?B)"
  have rd: "fat16_read_file_content ctx (fst_entry s) a (bps ctx) (cache_bytes s1) 0 = Inr (S_OK, ?b)"
    using read_file_content [OF fc al _ le len] read_fits_sector [OF refl nz(2,1)] b by simp
  define s' where "s' = s1\<lparr>fst_cache_buff := Some ?b, fst_cache_start_addr := a, fst_cache_size := bps ctx, fst_cache_invalid := False\<rparr>"
  have "fat16_cache_blocks mal ctx s a 1 = Inr (S_OK, s')"
    using nz am rd m(1) b
    by (cases g) (simp_all add: fat16_cache_blocks_def divR_def g_def s1_def s'_def Let_def)
  moreover have "cache_ok ctx ?d s'"
  proof -
    have "length ?b = length b" "take ?B ?b = buf_get ?d (unat a) ?B"
      using len b(2) le by (simp_all add: buf_put_def)
    then show ?thesis using s1(1,2) b al le len by (simp add: cache_ok_def s'_def cache_bytes_def)
  qed
  moreover have "same_stream s s'" using s1(4) by (simp add: same_stream_def s'_def)
  ultimately show ?thesis by (auto simp: s'_def)
qed

section \<open>Reads\<close>

lemma buf_get_append: "buf_get d p (m + n) = buf_get d p m @ buf_get d (p + m) n"
  by (simp add: buf_get_def take_add add.commute)

lemma unat_mod_0: "a mod b = 0 \<longleftrightarrow> unat (a :: u32) mod unat b = 0"
  by (simp add: word_unat_eq_iff unat_div_mod)

lemma buf_get_take: "i + k \<le> n \<Longrightarrow> buf_get (take n b) i k = buf_get b i k"
  by (simp add: buf_get_def drop_take min_absorb1)

lemma buf_get_get: "i + k \<le> n \<Longrightarrow> buf_get (buf_get b a n) i k = buf_get b (a + i) k"
  by (simp add: buf_get_def drop_take min_absorb1 add.commute)

lemma next_block:
  assumes "a mod B = 0" and "L mod B = 0" and "a + m \<le> L" and "0 < m" and "0 < (B :: nat)"
  shows "a + B \<le> L"
proof -
  obtain a' l where al: "a = a' * B" "L = l * B" using assms(1,2) by (metis mod_0_imp_dvd dvdE mult.commute)
  then have "a' * B < l * B" using assms(3,4) by linarith
  then have "Suc a' \<le> l" using assms(5) by simp
  then have "Suc a' * B \<le> l * B" by (rule mult_le_mono1)
  then show ?thesis using al by simp
qed

text \<open>The part that the cache delivers: all, or up to a block boundary.\<close>

lemma read_cached_ok:
  assumes ok: "cache_ok ctx d s" and pos: "pos_ok ctx s (unat p)" and nz: "bps ctx \<noteq> 0"
    and le: "unat p + unat n \<le> length d" and d: "length d < 2 ^ 31" and dst: "unat n \<le> length dst"
  shows "read_cached s p n dst = Inr (True, buf_put dst 0 (buf_get d (unat p) (unat n)), 0, p, n)
      \<and> pos_ok ctx s (unat p + unat n)
    \<or> (\<exists>w. unat w \<le> unat n \<and> (unat p + unat w) mod unat (bps ctx) = 0
        \<and> read_cached s p n dst = Inr (False, buf_put dst 0 (buf_get d (unat p) (unat w)), w, p + w, n - w))"
proof -
  let ?a = "unat (fst_cache_start_addr s)" and ?z = "unat (fst_cache_size s)" and ?c = "cache_bytes s"
  show ?thesis
  proof (cases "\<not> fst_cache_invalid s \<and> ?a \<le> unat p \<and> unat p \<le> ?a + ?z")
    case False
    then have al: "unat p mod unat (bps ctx) = 0" using pos by (auto simp: pos_ok_def)
    have "unat (fst_cache_start_addr s + fst_cache_size s) = ?a + ?z" if "\<not> fst_cache_invalid s"
      using ok that d by (intro unat_add_small) (simp add: cache_ok_def)
    then have "read_cached s p n dst = Inr (False, dst, 0, p, n)"
      using False by (auto simp: read_cached_def Let_def word_le_nat_alt)
    then show ?thesis using al by (intro disjI2 exI [of _ 0]) simp
  next
    case True
    then have c: "?a mod unat (bps ctx) = 0" "?z mod unat (bps ctx) = 0" "?a + ?z \<le> length d" "?z \<le> length ?c"
        "take ?z ?c = buf_get d ?a ?z"
      using ok by (simp_all add: cache_ok_def)
    have cend: "unat (fst_cache_start_addr s + fst_cache_size s) = ?a + ?z"
      using c(3) d by (intro unat_add_small) simp
    have offs: "unat (p - fst_cache_start_addr s) = unat p - ?a" using True by (intro unat_sub_small) simp
    have pn: "unat (p + n) = unat p + unat n" using le d by (intro unat_add_small) simp
    have from_cache: "buf_get ?c (unat p - ?a) k = buf_get d (unat p) k" if "unat p + k \<le> ?a + ?z" for k
      using that True buf_get_take [of "unat p - ?a" k ?z ?c] buf_get_get [of "unat p - ?a" k ?z d ?a] by (simp add: c(5))
    have here: "\<not> fst_cache_invalid s" "p \<ge> fst_cache_start_addr s" "p \<le> fst_cache_start_addr s + fst_cache_size s"
      using True cend by (simp_all add: word_le_nat_alt)
    show ?thesis
    proof (cases "unat p + unat n \<le> ?a + ?z")
      case hit: True
      then have "p + n \<le> fst_cache_start_addr s + fst_cache_size s" using pn cend by (simp add: word_le_nat_alt)
      moreover have "memcpyR dst 0 ?c (unat (p - fst_cache_start_addr s)) (unat n)
          = Inr (buf_put dst 0 (buf_get d (unat p) (unat n)))"
        using hit True c(4) dst by (subst memcpyR_ok) (simp_all add: offs from_cache)
      ultimately show ?thesis
        using here hit True by (simp add: read_cached_def Let_def pos_ok_def)
    next
      case False
      let ?w = "fst_cache_size s - (p - fst_cache_start_addr s)"
      have w: "unat ?w = ?z - (unat p - ?a)" using True by (subst unat_sub_small) (auto simp: offs)
      have "\<not> p + n \<le> fst_cache_start_addr s + fst_cache_size s" using False pn cend by (simp add: word_le_nat_alt)
      moreover have "memcpyR dst 0 ?c (unat (p - fst_cache_start_addr s)) (unat ?w)
          = Inr (buf_put dst 0 (buf_get d (unat p) (unat ?w)))"
        using False True c(4) dst w by (subst memcpyR_ok) (simp_all add: offs from_cache)
      ultimately have "read_cached s p n dst = Inr (False, buf_put dst 0 (buf_get d (unat p) (unat ?w)), ?w, p + ?w, n - ?w)"
        using here by (simp add: read_cached_def Let_def)
      moreover have "unat p + unat ?w = ?a + ?z" using w True by simp
      moreover have "(?a + ?z) mod unat (bps ctx) = 0" using c(1,2) by (metis add_0 mod_add_eq mod_0)
      moreover have "unat ?w \<le> unat n" unfolding w using True False by linarith
      ultimately show ?thesis by metis
    qed
  qed
qed

text \<open>Whole blocks, then the beginning of a last one.\<close>

lemma read_rest_ok:
  assumes fc: "file_chain ctx (fst_entry s) cs" and ok: "cache_ok ctx (chain_bytes ctx cs) s" and mal: "sector_room mal ctx"
    and al: "unat r mod unat (bps ctx) = 0" and le: "unat r + unat n \<le> length (chain_bytes ctx cs)"
    and dst: "unat w + unat n \<le> length dst" "unat w + unat n < 2 ^ 32" and small: "spc ctx = 1 \<or> unat n \<le> unat (bps ctx)"
  shows "\<exists>s'. read_rest mal ctx s dst w r n = Inr (S_OK, s', buf_put dst (unat w) (buf_get (chain_bytes ctx cs) (unat r) (unat n)))
    \<and> cache_ok ctx (chain_bytes ctx cs) s' \<and> same_stream s s' \<and> pos_ok ctx s' (unat r + unat n)"
proof -
  let ?d = "chain_bytes ctx cs" and ?B = "unat (bps ctx)"
  define k m where km: "k = unat n div ?B" "m = unat n mod ?B"
  have nz: "bps ctx \<noteq> 0" "spc ctx \<noteq> 0" and dl: "length ?d < 2 ^ 31" using file_chainD [OF fc] by simp_all
  have B: "0 < ?B" using nz by (simp add: unat_gt_0)
  have nk: "unat n = k * ?B + m" "m < ?B" using B by (simp_all add: km)
  let ?n = "n div bps ctx * bps ctx"
  have un: "unat ?n = k * ?B"
  proof -
    have "k * ?B < 2 ^ LENGTH(32)" using unat_lt_2_32 [of n] nk by simp
    then show ?thesis unfolding unat_word_ariths(2) unat_div_mod(1) km(1) [symmetric] by (rule mod_less)
  qed
  have um: "unat (n - ?n) = m" using un nk by (subst unat_sub_small) simp_all
  have fits: "read_fits ctx r ?n"
  proof (cases "spc ctx = 1")
    case True
    then show ?thesis by (simp add: read_fits_def)
  next
    case False
    then have "k * ?B \<le> ?B" using small nk by linarith
    then have "k = 0 \<or> k = 1" using B by (cases k) auto
    then show ?thesis
      using read_fits_sector [OF _ nz(2,1), of ?n r] un B by (auto simp: read_fits_def)
  qed
  have rd: "fat16_read_file_content ctx (fst_entry s) r ?n dst (unat w) = Inr (S_OK, buf_put dst (unat w) (buf_get ?d (unat r) (k * ?B)))"
    using read_file_content [OF fc al, of ?n "unat w" dst] un nk le dst fits by simp
  show ?thesis
  proof (cases "m = 0")
    case True
    then have "n - ?n = 0" using um by (simp add: unat_eq_zero)
    then have "read_rest mal ctx s dst w r n = Inr (S_OK, s, buf_put dst (unat w) (buf_get ?d (unat r) (unat n)))"
      using rd nz True nk al by (simp add: read_rest_def divR_def Let_def unat_mod_0)
    moreover have "pos_ok ctx s (unat r + unat n)" using True nk al by (simp add: pos_ok_def mod_add_left_eq [symmetric])
    ultimately show ?thesis using ok by (auto simp: same_stream_def)
  next
    case False
    have ur: "unat (r + ?n) = unat r + k * ?B" using le dl un nk by (subst unat_add_small) simp_all
    have al': "unat (r + ?n) mod ?B = 0" using al ur by simp
    have "unat (r + ?n) + ?B \<le> length ?d"
      using next_block [OF al', of "length ?d" m] length_chain_bytes [OF fc] ur nk le False B by simp
    then obtain s' where s': "fat16_cache_blocks mal ctx s (r + ?n) 1 = Inr (S_OK, s')" "cache_ok ctx ?d s'"
        "same_stream s s'" "fst_cache_start_addr s' = r + ?n" "fst_cache_size s' = bps ctx" "\<not> fst_cache_invalid s'"
      using cache_block [OF fc ok mal al'] by blast
    let ?dst = "buf_put dst (unat w) (buf_get ?d (unat r) (k * ?B))"
    have c: "take ?B (cache_bytes s') = buf_get ?d (unat r + k * ?B) ?B" "?B \<le> length (cache_bytes s')"
      using s'(2,4-6) ur by (simp_all add: cache_ok_def)
    then have cm: "buf_get (cache_bytes s') 0 m = buf_get ?d (unat r + k * ?B) m"
      using buf_get_take [of 0 m ?B "cache_bytes s'"] buf_get_get [of 0 m ?B ?d "unat r + k * ?B"] nk(2) by simp
    have lk: "length (buf_get ?d (unat r) (k * ?B)) = k * ?B" using le nk by simp
    have uw: "unat (w + ?n) = unat w + k * ?B" using dst(2) nk(1) un by (subst unat_add_small) simp_all
    have "memcpyR ?dst (unat (w + ?n)) (cache_bytes s') 0 m = Inr (buf_put ?dst (unat w + k * ?B) (buf_get ?d (unat r + k * ?B) m))"
      using dst nk c(2) lk by (subst memcpyR_ok) (simp_all add: uw cm)
    also have "\<dots> = Inr (buf_put dst (unat w) (buf_get ?d (unat r) (unat n)))"
      using buf_put_append [of "unat w" "buf_get ?d (unat r) (k * ?B)" "buf_get ?d (unat r + k * ?B) m" dst] dst nk lk le
      by (simp add: buf_get_append)
    finally have "read_rest mal ctx s dst w r n = Inr (S_OK, s', buf_put dst (unat w) (buf_get ?d (unat r) (unat n)))"
      using rd nz al s'(1) False um nk(2)
      by (simp add: read_rest_def divR_def Let_def unat_mod_0 word_le_nat_alt word_less_nat_alt unat_eq_zero)
    moreover have "pos_ok ctx s' (unat r + unat n)" using s'(4-6) ur nk by (simp add: pos_ok_def)
    ultimately show ?thesis using s'(2,3) by blast
  qed
qed

text \<open>A read of \<open>n\<close> bytes from a good position.\<close>

lemma read_subblock_ok:
  assumes fc: "file_chain ctx (fst_entry s) cs" and ok: "cache_ok ctx (chain_bytes ctx cs) s" and mal: "sector_room mal ctx"
    and pos: "pos_ok ctx s (unat p)" and le: "unat p + unat n \<le> length (chain_bytes ctx cs)"
    and dst: "unat n \<le> length dst" and small: "spc ctx = 1 \<or> unat n \<le> unat (bps ctx)"
  shows "\<exists>s'. fat16_read_subblock mal ctx s p n dst = Inr (S_OK, s', buf_put dst 0 (buf_get (chain_bytes ctx cs) (unat p) (unat n)))
    \<and> cache_ok ctx (chain_bytes ctx cs) s' \<and> same_stream s s' \<and> pos_ok ctx s' (unat p + unat n)"
proof -
  let ?d = "chain_bytes ctx cs"
  have nz: "bps ctx \<noteq> 0" and dl: "length ?d < 2 ^ 31" using file_chainD [OF fc] by simp_all
  from read_cached_ok [OF ok pos nz le dl dst] show ?thesis
  proof (elim disjE exE conjE)
    assume "read_cached s p n dst = Inr (True, buf_put dst 0 (buf_get ?d (unat p) (unat n)), 0, p, n)"
      "pos_ok ctx s (unat p + unat n)"
    then show ?thesis using ok by (auto simp: fat16_read_subblock_def same_stream_def)
  next
    fix w
    assume w: "unat w \<le> unat n" "(unat p + unat w) mod unat (bps ctx) = 0"
      "read_cached s p n dst = Inr (False, buf_put dst 0 (buf_get ?d (unat p) (unat w)), w, p + w, n - w)"
    let ?dst = "buf_put dst 0 (buf_get ?d (unat p) (unat w))"
    have "unat (p + w) = unat p + unat w" using w(1) le dl by (intro unat_add_small) simp
    then have u: "unat (p + w) = unat p + unat w" "unat (n - w) = unat n - unat w"
      by (simp_all only: unat_sub_small [OF w(1)])
    have first: "read_first mal ctx s ?dst w (p + w) (n - w) = Inr (S_OK, s, ?dst, w, p + w, n - w)"
      using w(2) nz u(1) by (simp add: read_first_def divR_def unat_mod_0)
    have lw: "length (buf_get ?d (unat p) (unat w)) = unat w" using w(1) le by simp
    have "\<exists>s'. read_rest mal ctx s ?dst w (p + w) (n - w)
        = Inr (S_OK, s', buf_put ?dst (unat w) (buf_get ?d (unat (p + w)) (unat (n - w))))
      \<and> cache_ok ctx ?d s' \<and> same_stream s s' \<and> pos_ok ctx s' (unat (p + w) + unat (n - w))"
    proof (rule read_rest_ok [OF fc ok mal])
      show "unat (p + w) mod unat (bps ctx) = 0" using w(2) u by simp
      show "unat (p + w) + unat (n - w) \<le> length ?d" using w(1) le unfolding u by linarith
      show "unat w + unat (n - w) \<le> length ?dst" using w(1) dst lw unfolding u by simp
      show "unat w + unat (n - w) < 2 ^ 32" using w(1) unat_lt_2_32 [of n] unfolding u by simp
      show "spc ctx = 1 \<or> unat (n - w) \<le> unat (bps ctx)" using small unfolding u by linarith
    qed
    moreover have "buf_put ?dst (unat w) (buf_get ?d (unat (p + w)) (unat (n - w))) = buf_put dst 0 (buf_get ?d (unat p) (unat n))"
      using buf_put_append [of 0 "buf_get ?d (unat p) (unat w)" "buf_get ?d (unat p + unat w) (unat n - unat w)" dst]
        buf_get_append [of ?d "unat p" "unat w" "unat n - unat w"] w(1) le dst lw by (simp add: u)
    ultimately show ?thesis using w(1,3) first by (simp add: fat16_read_subblock_def u)
  qed
qed

section \<open>Files as byte lists, read in order\<close>

text \<open>A stream that is free to use, at a good position of a file whose content is \<open>d\<close>.\<close>

definition shows_fat :: "cpu \<Rightarrow> fat16_ctx \<Rightarrow> fat_stream \<Rightarrow> bytes \<times> nat \<Rightarrow> bool" where
  "shows_fat c ctx s = (\<lambda>(d, p).
     \<exists>cs. file_chain ctx (fst_entry s) cs \<and> unat (de_size (fst_entry s)) \<le> length (chain_bytes ctx cs) \<and>
       d = take (unat (de_size (fst_entry s))) (chain_bytes ctx cs) \<and> unat (fst_pos s) = p \<and> p \<le> length d \<and>
       cache_ok ctx (chain_bytes ctx cs) s \<and> pos_ok ctx s p \<and> free_lock c (fst_lock s))"

text \<open>Reading: the results of the reads of the byte list \<open>d\<close> from position \<open>p\<close> on, and of the driver, each
  into a buffer of its own.\<close>

fun read_run :: "nat list \<Rightarrow> bytes \<times> nat \<Rightarrow> (hresult \<times> bytes) list \<times> nat" where
  "read_run [] (d, p) = ([], p)"
| "read_run (n # ns) (d, p) =
     (if p = length d then ((E_ENDOFSTR, []) # fst (read_run ns (d, p)), snd (read_run ns (d, p)))
      else
        let xs = buf_get d p n; (rs, q) = read_run ns (d, p + length xs) in ((S_OK, xs) # rs, q))"

fun fat_run :: "malloc \<Rightarrow> fat16_ctx \<Rightarrow> cpu \<Rightarrow> nat list \<Rightarrow> fat_stream \<Rightarrow> ((hresult \<times> bytes) list \<times> fat_stream) run" where
  "fat_run mal ctx c [] s = Inr ([], s)"
| "fat_run mal ctx c (n # ns) s =
     bindR (fat16_file_read mal ctx c s (of_nat n) (Some (replicate n 0))) (\<lambda>(hr, buf, got, c', s').
     bindR (fat_run mal ctx c ns s') (\<lambda>(rs, s'').
     Inr ((hr, take (case got of None \<Rightarrow> 0 | Some k \<Rightarrow> unat k) (case buf of None \<Rightarrow> [] | Some b \<Rightarrow> b)) # rs, s'')))"

lemma lock_update [simp]:
  "cache_ok ctx d (s\<lparr>fst_lock := l\<rparr>) = cache_ok ctx d s" "pos_ok ctx (s\<lparr>fst_lock := l\<rparr>) p = pos_ok ctx s p"
  "cache_ok ctx d (s\<lparr>fst_pos := q\<rparr>) = cache_ok ctx d s" "pos_ok ctx (s\<lparr>fst_pos := q\<rparr>) p = pos_ok ctx s p"
  by (simp_all add: cache_ok_def pos_ok_def cache_bytes_def)

lemma file_read_ok:
  assumes sh: "shows_fat c ctx s (d, p)" and mal: "sector_room mal ctx" and n: "0 < n" "n < 2 ^ 31" "n \<le> length buf"
    and small: "spc ctx = 1 \<or> n \<le> unat (bps ctx)"
  shows "\<exists>s'. fat16_file_read mal ctx c s (of_nat n) (Some buf) =
      (if p = length d then Inr (E_ENDOFSTR, Some buf, Some 0, c, s')
       else Inr (S_OK, Some (buf_put buf 0 (buf_get d p n)), Some (of_nat (length (buf_get d p n))), c, s'))
    \<and> shows_fat c ctx s' (d, if p = length d then p else p + length (buf_get d p n))"
proof -
  obtain cs where fc: "file_chain ctx (fst_entry s) cs" and le: "unat (de_size (fst_entry s)) \<le> length (chain_bytes ctx cs)"
    and d: "d = take (unat (de_size (fst_entry s))) (chain_bytes ctx cs)" and p: "unat (fst_pos s) = p" "p \<le> length d"
    and ok: "cache_ok ctx (chain_bytes ctx cs) s" and pos: "pos_ok ctx s p" and lock: "free_lock c (fst_lock s)"
    using sh by (auto simp: shows_fat_def)
  note sl = mutex_critical [OF lock [unfolded free_lock_def, THEN conjunct1] lock [unfolded free_lock_def, THEN conjunct2]]
  let ?sz = "de_size (fst_entry s)" and ?e = "entered c (fst_lock s)" and ?n = "of_nat n :: u32"
  have ld: "length d = unat ?sz" using le d by simp
  have dl: "length (chain_bytes ctx cs) < 2 ^ 31" using file_chainD [OF fc] by simp
  have un: "unat ?n = n" using n(2) by (intro unat_of_nat_small) simp
  have n0: "?n \<noteq> 0" using un n(1) by auto
  have sum: "unat (?n + fst_pos s) = n + p" using un n(2) p ld le dl by (subst unat_add_small) simp_all
  define m where "m = effective_size s ?n"
  have m: "unat m = min n (length d - p)"
    using sum p ld un unfolding m_def effective_size_def word_le_nat_alt by (auto simp: unat_sub_small)
  have len: "length (buf_get d p n) = unat m" using m by (simp add: buf_get_def)
  have rd: "fat16_file_read mal ctx c s ?n (Some buf) =
      bindR (read_locked mal ctx (s\<lparr>fst_lock := ?e\<rparr>) m buf) (\<lambda>(hr, s, dst, bytes_read).
      bindR (mutex_unlock c (fst_lock s)) (\<lambda>(c, l).
      Inr (hr, Some dst, bytes_read, c, s\<lparr>fst_lock := l\<rparr>)))"
    using n0 sl(1) by (simp add: fat16_file_read_def m_def)
  show ?thesis
  proof (cases "p = length d")
    case True
    then have "m = 0" using m by (simp add: unat_eq_zero)
    then have "fat16_file_read mal ctx c s ?n (Some buf) = Inr (E_ENDOFSTR, Some buf, Some 0, c, s\<lparr>fst_lock := left ?e\<rparr>)"
      unfolding rd using sl(2) by (simp add: read_locked_def)
    moreover have "shows_fat c ctx (s\<lparr>fst_lock := left ?e\<rparr>) (d, p)"
      using fc le d p ok pos sl(3,4) by (auto simp: shows_fat_def free_lock_def)
    ultimately show ?thesis using True by auto
  next
    case False
    then have m0: "m \<noteq> 0" using m n(1) p(2) by auto
    let ?s = "s\<lparr>fst_lock := ?e\<rparr>"
    have "\<exists>s'. fat16_read_subblock mal ctx ?s (fst_pos s) m buf
        = Inr (S_OK, s', buf_put buf 0 (buf_get (chain_bytes ctx cs) (unat (fst_pos s)) (unat m)))
      \<and> cache_ok ctx (chain_bytes ctx cs) s' \<and> same_stream ?s s' \<and> pos_ok ctx s' (unat (fst_pos s) + unat m)"
    proof (rule read_subblock_ok [OF _ _ mal])
      show "file_chain ctx (fst_entry ?s) cs" using fc by simp
      show "cache_ok ctx (chain_bytes ctx cs) ?s" "pos_ok ctx ?s (unat (fst_pos s))" using ok pos p by simp_all
      show "unat (fst_pos s) + unat m \<le> length (chain_bytes ctx cs)" using m p ld le by linarith
      show "unat m \<le> length buf" "spc ctx = 1 \<or> unat m \<le> unat (bps ctx)" using m n(3) small by linarith+
    qed
    then obtain s' where s': "fat16_read_subblock mal ctx ?s (fst_pos s) m buf
          = Inr (S_OK, s', buf_put buf 0 (buf_get (chain_bytes ctx cs) p (unat m)))"
      "cache_ok ctx (chain_bytes ctx cs) s'" "same_stream ?s s'" "pos_ok ctx s' (p + unat m)"
      unfolding p(1) by blast
    have same: "buf_get (chain_bytes ctx cs) p (unat m) = buf_get d p n"
      unfolding d using m ld p by (simp add: buf_get_def drop_take min_def)
    let ?s' = "s'\<lparr>fst_pos := fst_pos s' + m, fst_lock := left ?e\<rparr>"
    have "fat16_file_read mal ctx c s ?n (Some buf) = Inr (S_OK, Some (buf_put buf 0 (buf_get d p n)), Some m, c, ?s')"
      unfolding rd using m0 s'(1,3) sl(2) by (simp add: read_locked_def same same_stream_def)
    moreover have "shows_fat c ctx ?s' (d, p + unat m)"
    proof -
      have "unat (fst_pos s' + m) = p + unat m"
        using s'(3) p m ld le dl by (subst unat_add_small) (simp_all add: same_stream_def)
      then show ?thesis
        using fc le d p m s'(2-4) sl(3,4) by (auto simp: shows_fat_def free_lock_def same_stream_def)
    qed
    ultimately show ?thesis using False len by (auto simp: word_unat_eq_iff unat_of_nat_small)
  qed
qed

lemma take_put: "length xs \<le> length b \<Longrightarrow> take (length xs) (buf_put b 0 xs) = xs"
  by (simp add: buf_put_def)

lemma fat_run_refines:
  assumes "shows_fat c ctx s (d, p)" and "sector_room mal ctx"
    and "\<forall>n \<in> set ns. 0 < n \<and> n < 2 ^ 31 \<and> (spc ctx = 1 \<or> n \<le> unat (bps ctx))"
  shows "\<exists>s'. fat_run mal ctx c ns s = Inr (fst (read_run ns (d, p)), s') \<and> shows_fat c ctx s' (d, snd (read_run ns (d, p)))"
  using assms
proof (induction ns arbitrary: s p)
  case Nil
  then show ?case by simp
next
  case (Cons n ns)
  let ?xs = "buf_get d p n"
  have n: "0 < n" "n < 2 ^ 31" "n \<le> length (replicate n (0 :: u8))" "spc ctx = 1 \<or> n \<le> unat (bps ctx)"
    using Cons.prems(3) by simp_all
  have lx: "length ?xs \<le> n" by (simp add: buf_get_def)
  then have ux: "unat (of_nat (length ?xs) :: u32) = length ?xs" using n(2) by (intro unat_of_nat_small) simp
  obtain s1 where s1: "fat16_file_read mal ctx c s (of_nat n) (Some (replicate n 0)) =
      (if p = length d then Inr (E_ENDOFSTR, Some (replicate n 0), Some 0, c, s1)
       else Inr (S_OK, Some (buf_put (replicate n 0) 0 ?xs), Some (of_nat (length ?xs)), c, s1))"
    "shows_fat c ctx s1 (d, if p = length d then p else p + length ?xs)"
    using file_read_ok [OF Cons.prems(1,2) n] by blast
  obtain s2 where s2: "fat_run mal ctx c ns s1 = Inr (fst (read_run ns (d, if p = length d then p else p + length ?xs)), s2)"
    "shows_fat c ctx s2 (d, snd (read_run ns (d, if p = length d then p else p + length ?xs)))"
    using Cons.IH [OF s1(2) Cons.prems(2)] Cons.prems(3) by auto
  show ?case
  proof (cases "p = length d")
    case True
    then show ?thesis using s1(1) s2 by simp
  next
    case False
    then show ?thesis
      using s1(1) s2 ux take_put [of ?xs "replicate n 0"] lx by (simp add: case_prod_unfold Let_def)
  qed
qed

text \<open>A file that was just opened.\<close>

lemma open_shows_fat:
  assumes "file_chain ctx e cs" and "unat (de_size e) \<le> length (chain_bytes ctx cs)" and "cpu_current c \<noteq> None"
    and "fst_entry s = e" "fst_pos s = 0" "fst_lock s = mutex_create" "fst_cache_cap s = 0" "fst_cache_start_addr s = 0"
      "fst_cache_size s = 0"
  shows "shows_fat c ctx s (take (unat (de_size e)) (chain_bytes ctx cs), 0)"
  using assms by (auto simp: shows_fat_def cache_ok_def pos_ok_def free_lock_def lockable_def mutex_create_def spinlock_create_def)

section \<open>Directories\<close>

text \<open>The entries of a directory, those that are listed, and how they are listed.\<close>

definition entries_of :: "bytes \<Rightarrow> nat \<Rightarrow> fat16_dir_entry list" where
  "entries_of content n = map (\<lambda>i. dec_entry (buf_get content (32 * i) 32)) [0 ..< n]"

definition used_entries :: "fat16_dir_entry list \<Rightarrow> fat16_dir_entry list" where
  "used_entries es = filter (\<lambda>e. de_filename e ! 0 \<noteq> 0xE5) (takeWhile (\<lambda>e. de_filename e ! 0 \<noteq> 0) es)"

definition entry_info :: "fat16_dir_entry \<Rightarrow> bytes \<times> u32 \<times> u32" where
  "entry_info e = (cstring (fat_copy_short_filename e), de_size e,
     ucast (if de_attributes e AND FAT_ATTR_DIRECTORY = 0 then NODE_TYPE_FILE else NODE_TYPE_DIRECTORY))"

definition listed :: "fat16_dir_entry list \<Rightarrow> (bytes \<times> u32 \<times> u32) list" where
  "listed es = map entry_info (filter (\<lambda>e. \<not> skipped_entry e) (used_entries es))"

lemma listed_Nil [simp]: "listed [] = []"
  by (simp add: listed_def used_entries_def)

lemma listed_Cons [simp]:
  "listed (e # es) =
     (if de_filename e ! 0 = 0 then []
      else if de_filename e ! 0 = 0xE5 \<or> skipped_entry e then listed es else entry_info e # listed es)"
  by (simp add: listed_def used_entries_def)

lemma entry_at_ok: "32 * n \<le> length content \<Longrightarrow> i < n \<Longrightarrow> entry_at content i = Inr (entries_of content n ! i)"
  by (simp add: entry_at_def entries_of_def)

lemma length_entries_of [simp]: "length (entries_of content n) = n"
  by (simp add: entries_of_def)

text \<open>One call of \<^verbatim>\<open>readdir\<close>.\<close>

definition next_listed :: "(bytes \<times> u32 \<times> u32) list \<Rightarrow> hresult \<times> (bytes \<times> u32 \<times> u32) option" where
  "next_listed xs = (case xs of [] \<Rightarrow> (E_ENDOFSTR, None) | x # _ \<Rightarrow> (S_OK, Some x))"

lemma next_listed_simps [simp]: "next_listed [] = (E_ENDOFSTR, None)" "next_listed (x # xs) = (S_OK, Some x)"
  by (simp_all add: next_listed_def)

lemma readdir_step:
  assumes "32 * fds_len d \<le> length (fds_content d)" and "es = entries_of (fds_content d) (fds_len d)"
  shows "\<exists>q. fat16_readdir d = Inr (fst (next_listed (listed (drop (fds_pos d) es))),
       snd (next_listed (listed (drop (fds_pos d) es))), d\<lparr>fds_pos := q\<rparr>)
    \<and> listed (drop q es) = tl (listed (drop (fds_pos d) es))"
  using assms
proof (induction d rule: fat16_readdir.induct)
  case (1 d)
  let ?p = "fds_pos d"
  let ?d = "d\<lparr>fds_pos := ?p + 1\<rparr>"
  have es: "length es = fds_len d" using "1.prems"(2) by simp
  show ?case
  proof (cases "?p < fds_len d")
    case False
    then show ?thesis using es by (intro exI [of _ ?p]) (simp add: fat16_readdir.simps [of d])
  next
    case True
    let ?e = "es ! ?p"
    have at: "entry_at (fds_content d) ?p = Inr ?e" unfolding "1.prems"(2) by (rule entry_at_ok [OF "1.prems"(1) True])
    have dr: "drop ?p es = ?e # drop (Suc ?p) es" using True es by (simp add: Cons_nth_drop_Suc)
    show ?thesis
    proof (cases "de_filename ?e ! 0 = 0xE5 \<or> de_filename ?e ! 0 \<noteq> 0 \<and> skipped_entry ?e")
      case skip: True
      have nz: "de_filename ?e ! 0 \<noteq> 0" using skip by auto
      have "fat16_readdir d = fat16_readdir ?d" using skip True at by (auto simp: fat16_readdir.simps [of d])
      moreover have "\<exists>q. fat16_readdir ?d = Inr (fst (next_listed (listed (drop (Suc ?p) es))),
            snd (next_listed (listed (drop (Suc ?p) es))), d\<lparr>fds_pos := q\<rparr>)
          \<and> listed (drop q es) = tl (listed (drop (Suc ?p) es))"
        using "1.IH"(1) [OF True, of ?e] "1.IH"(2) [OF True, of ?e] skip "1.prems"
        by (cases "de_filename ?e ! 0 = 0xE5") simp_all
      ultimately show ?thesis unfolding dr using skip nz by simp
    next
      case stop: False
      show ?thesis
      proof (cases "de_filename ?e ! 0 = 0")
        case True': True
        then show ?thesis using True at es unfolding dr
          by (intro exI [of _ "fds_len d"]) (simp add: fat16_readdir.simps [of d])
      next
        case False
        then show ?thesis using stop True at unfolding dr
          by (intro exI [of _ "?p + 1"]) (simp add: fat16_readdir.simps [of d] entry_info_def)
      qed
    qed
  qed
qed

text \<open>Reading a directory to its end, at most \<open>n\<close> entries.\<close>

fun readdir_all :: "nat \<Rightarrow> fat_dir_stream \<Rightarrow> ((bytes \<times> u32 \<times> u32) list \<times> hresult \<times> fat_dir_stream) run" where
  "readdir_all 0 d = bindR (fat16_readdir d) (\<lambda>(hr, x, d). Inr ([], hr, d))"
| "readdir_all (Suc n) d =
     bindR (fat16_readdir d) (\<lambda>(hr, x, d).
     case x of
       None \<Rightarrow> Inr ([], hr, d)
     | Some x \<Rightarrow> bindR (readdir_all n d) (\<lambda>(xs, hr, d). Inr (x # xs, hr, d)))"

lemma readdir_all_lists:
  assumes "32 * fds_len d \<le> length (fds_content d)" and "es = entries_of (fds_content d) (fds_len d)"
    and "length (listed (drop (fds_pos d) es)) \<le> n"
  shows "\<exists>q. readdir_all n d = Inr (listed (drop (fds_pos d) es), E_ENDOFSTR, d\<lparr>fds_pos := q\<rparr>)"
  using assms
proof (induction n arbitrary: d)
  case 0
  then show ?case using readdir_step [OF 0(1,2)] by auto
next
  case (Suc n)
  obtain q where q: "fat16_readdir d = Inr (fst (next_listed (listed (drop (fds_pos d) es))),
       snd (next_listed (listed (drop (fds_pos d) es))), d\<lparr>fds_pos := q\<rparr>)"
    "listed (drop q es) = tl (listed (drop (fds_pos d) es))"
    using readdir_step [OF Suc.prems(1,2)] by blast
  show ?case
  proof (cases "listed (drop (fds_pos d) es)")
    case Nil
    then show ?thesis using q(1) by auto
  next
    case (Cons x xs)
    then show ?thesis using Suc.IH [of "d\<lparr>fds_pos := q\<rparr>"] Suc.prems q by auto
  qed
qed

section \<open>The root directory\<close>

definition root_sectors :: "fat16_ctx \<Rightarrow> u32 list" where
  "root_sectors ctx = map (\<lambda>i. fc_first_root_sector ctx + of_nat i)
     [0 ..< (unat (fat_get_rootdir_size ctx) + unat (bps ctx) - 1) div unat (bps ctx)]"

definition root_bytes :: "fat16_ctx \<Rightarrow> bytes" where
  "root_bytes ctx = take (unat (fat_get_rootdir_size ctx)) (bytes_of ctx (root_sectors ctx))"

lemma unat_root_entries: "unat (root_entries ctx) < 65536"
proof -
  have "unat (bp_root_entries (fc_bpb ctx)) < 2 ^ LENGTH(16)" by (rule unsigned_less)
  then show ?thesis by (simp add: root_entries_def unsigned_ucast_eq take_bit_nat_eq_self)
qed

lemma unat_root_size: "unat (fat_get_rootdir_size ctx) = 32 * unat (root_entries ctx)"
  using unat_root_entries [of ctx] unfolding fat_get_rootdir_size_def by (subst unat_word_ariths) simp

lemma unat_bps: "unat (bps ctx) < 65536"
proof -
  have "unat (bp_bytes_per_sector (fc_bpb ctx)) < 2 ^ LENGTH(16)" by (rule unsigned_less)
  then show ?thesis by (simp add: bps_def unsigned_ucast_eq take_bit_nat_eq_self)
qed

lemma ceil_cover:
  assumes "0 < (B :: nat)"
  shows "R \<le> (R + B - 1) div B * B"
proof -
  have "(R + B - 1) div B * B + (R + B - 1) mod B = R + B - 1" by (rule div_mult_mod_eq)
  moreover have "(R + B - 1) mod B < B" using assms by simp
  ultimately show ?thesis by linarith
qed

lemma rootdir_loop_reads:
  assumes nz: "bps ctx \<noteq> 0" and ok: "\<forall>x \<in> set (root_sectors ctx). sector_ok ctx x" and mal: "sector_room mal ctx"
    and N: "N = length (root_sectors ctx)" and k: "k + m = N" and w: "unat w = k * unat (bps ctx)"
    and le: "k * unat (bps ctx) \<le> unat (fat_get_rootdir_size ctx)" and dst: "unat (fat_get_rootdir_size ctx) \<le> length dst"
  shows "rootdir_loop mal ctx (map of_nat [k ..< N]) w dst
    = Inr (S_OK, buf_put dst (k * unat (bps ctx)) (drop (k * unat (bps ctx)) (root_bytes ctx)))"
proof -
  let ?R = "unat (fat_get_rootdir_size ctx)" and ?B = "unat (bps ctx)"
  have B: "0 < ?B" using nz by (simp add: unat_gt_0)
  have NB: "N = (?R + ?B - 1) div ?B" by (simp add: N root_sectors_def)
  have cover: "?R \<le> N * ?B" unfolding NB by (rule ceil_cover [OF B])
  have below: "(N - 1) * ?B < ?R" if "0 < N"
  proof -
    have "0 < ?R" using that B unfolding NB by (cases "?R = 0") simp_all
    then show ?thesis unfolding NB by (rule ceil_div [OF B])
  qed
  from k w le dst show ?thesis
  proof (induction m arbitrary: k w dst)
    case 0
    then have "length (root_bytes ctx) \<le> k * ?B" using cover by (simp add: root_bytes_def)
    then show ?case using 0 by simp
  next
    case (Suc m)
    let ?s = "fc_first_root_sector ctx + of_nat k"
    have kN: "k < N" using Suc.prems(1) by simp
    have kR: "k * ?B < ?R"
    proof -
      have "k * ?B \<le> (N - 1) * ?B" using kN by (intro mult_le_mono1) simp
      also have "\<dots> < ?R" using kN by (intro below) simp
      finally show ?thesis .
    qed
    have split: "[k ..< N] = k # [Suc k ..< N]" using kN by (rule upt_conv_Cons)
    have dr: "drop k (root_sectors ctx) = ?s # drop (Suc k) (root_sectors ctx)"
      using kN unfolding N by (simp add: Cons_nth_drop_Suc [symmetric] root_sectors_def)
    have oks: "sector_ok ctx ?s" using ok kN N by (simp add: root_sectors_def)
    then have ls: "length (sector_bytes ctx ?s) = ?B" by (simp add: sector_ok_def)
    have rb: "drop (k * ?B) (root_bytes ctx) = take (?R - k * ?B) (sector_bytes ctx ?s @ bytes_of ctx (drop (Suc k) (root_sectors ctx)))"
      using ok by (simp add: root_bytes_def drop_take bytes_of_drop [symmetric] dr)
    have uw: "unat (fat_get_rootdir_size ctx - w) = ?R - k * ?B"
      using Suc.prems(2,3) by (subst unat_sub_small) simp_all
    show ?case
    proof (cases "?B \<le> ?R - k * ?B")
      case True
      have fit: "unat w + ?B \<le> length dst" using True Suc.prems(2,4) kR by linarith
      obtain hr where r: "SUCCEEDED hr" "storage_read_blocks (fc_storage ctx) ?s 1 dst (unat w) = Inr (hr, buf_put dst (unat w) (sector_bytes ctx ?s))"
        using storage_read_sector [OF oks, of "unat w" dst] fit by auto
      have uw': "unat (w + bps ctx) = Suc k * ?B"
        using Suc.prems(2) True kR unat_lt_2_32 [of "fat_get_rootdir_size ctx"] by (subst unat_add_small) simp_all
      let ?dst = "buf_put dst (unat w) (sector_bytes ctx ?s)"
      have "rootdir_loop mal ctx (map of_nat [k ..< N]) w dst = rootdir_loop mal ctx (map of_nat [Suc k ..< N]) (w + bps ctx) ?dst"
        using r True uw unfolding split by (simp add: Let_def word_le_nat_alt)
      also have "\<dots> = Inr (S_OK, buf_put ?dst (Suc k * ?B) (drop (Suc k * ?B) (root_bytes ctx)))"
        using Suc.prems(1,2,4) uw' True ls kR by (intro Suc.IH) simp_all
      also have "buf_put ?dst (Suc k * ?B) (drop (Suc k * ?B) (root_bytes ctx))
          = buf_put dst (k * ?B) (sector_bytes ctx ?s @ drop (Suc k * ?B) (root_bytes ctx))"
      proof -
        have "length (drop (Suc k * ?B) (root_bytes ctx)) \<le> ?R - Suc k * ?B" by (simp add: root_bytes_def)
        then have "k * ?B + length (sector_bytes ctx ?s) + length (drop (Suc k * ?B) (root_bytes ctx)) \<le> length dst"
          using ls Suc.prems(4) True kR by simp
        from buf_put_append [OF this] show ?thesis using ls Suc.prems(2) by (simp add: add.commute)
      qed
      also have "sector_bytes ctx ?s @ drop (Suc k * ?B) (root_bytes ctx) = drop (k * ?B) (root_bytes ctx)"
      proof -
        have "drop (Suc k * ?B) (root_bytes ctx) = take (?R - Suc k * ?B) (bytes_of ctx (drop (Suc k) (root_sectors ctx)))"
          unfolding root_bytes_def drop_take bytes_of_drop [OF ok] ..
        then show ?thesis unfolding rb using True ls by (simp add: add.commute)
      qed
      finally show ?thesis .
    next
      case False
      obtain b where b: "mal (bps ctx) = Some b" "?B \<le> length b" using mal by (auto simp: sector_room_def)
      obtain hr where r: "SUCCEEDED hr" "storage_read_blocks (fc_storage ctx) ?s 1 b 0 = Inr (hr, buf_put b 0 (sector_bytes ctx ?s))"
        using storage_read_sector [OF oks, of 0 b] b(2) by auto
      have "(N - 1) * ?B < Suc k * ?B" using below kN False by simp
      then have last: "Suc k = N" using kN B by (simp only: mult_less_cancel2) simp
      have "buf_get (buf_put b 0 (sector_bytes ctx ?s)) 0 (?R - k * ?B) = take (?R - k * ?B) (sector_bytes ctx ?s)"
        using False ls by (simp add: buf_get_def buf_put_def)
      then have "memcpyR dst (unat w) (buf_put b 0 (sector_bytes ctx ?s)) 0 (?R - k * ?B)
          = Inr (buf_put dst (k * ?B) (take (?R - k * ?B) (sector_bytes ctx ?s)))"
        using False ls b(2) Suc.prems(2,4) kR by (subst memcpyR_ok) simp_all
      then show ?thesis
        using r b(1) False uw last ls unfolding split by (simp add: Let_def word_le_nat_alt rb)
    qed
  qed
qed

lemma length_root_bytes:
  assumes "bps ctx \<noteq> 0" and "\<forall>x \<in> set (root_sectors ctx). sector_ok ctx x"
  shows "length (root_bytes ctx) = unat (fat_get_rootdir_size ctx)"
  using ceil_cover [of "unat (bps ctx)" "unat (fat_get_rootdir_size ctx)"] assms
  by (simp add: root_bytes_def length_bytes_of root_sectors_def unat_gt_0)

lemma unat_root_sectors:
  assumes nz: "bps ctx \<noteq> 0"
  shows "unat ((fat_get_rootdir_size ctx + bps ctx - 1) div bps ctx) = length (root_sectors ctx)"
proof -
  have R: "unat (fat_get_rootdir_size ctx) < 2 ^ 31" using unat_root_entries [of ctx] by (simp add: unat_root_size)
  have "unat (fat_get_rootdir_size ctx + bps ctx) = unat (fat_get_rootdir_size ctx) + unat (bps ctx)"
    using R unat_bps [of ctx] by (intro unat_add_small) simp
  moreover have "0 < unat (bps ctx)" using nz by (simp add: unat_gt_0)
  ultimately have "unat (fat_get_rootdir_size ctx + bps ctx - 1) = unat (fat_get_rootdir_size ctx) + unat (bps ctx) - 1"
    by (subst unat_sub_small) simp_all
  then show ?thesis by (simp add: unat_div_mod root_sectors_def)
qed

lemma read_rootdir_content:
  assumes nz: "bps ctx \<noteq> 0" and ok: "\<forall>x \<in> set (root_sectors ctx). sector_ok ctx x" and mal: "sector_room mal ctx"
    and dst: "unat (fat_get_rootdir_size ctx) \<le> length dst"
  shows "fat16_read_rootdir_content mal ctx dst = Inr (S_OK, buf_put dst 0 (root_bytes ctx))"
  using rootdir_loop_reads [OF nz ok mal refl, of 0 _ 0 dst] nz dst unat_root_sectors [OF nz]
  by (simp add: fat16_read_rootdir_content_def divR_def)

section \<open>Searching a directory\<close>

text \<open>The escape character for \<^verbatim>\<open>0xE5\<close>, and the entry that a search looks for.\<close>

definition unescape :: "fat16_dir_entry \<Rightarrow> fat16_dir_entry" where
  "unescape e = (if de_filename e ! 0 = 0x05 then e\<lparr>de_filename := (de_filename e)[0 := 0xE5]\<rparr> else e)"

definition entry_matches :: "bytes \<Rightarrow> u32 \<Rightarrow> bool \<Rightarrow> fat16_dir_entry \<Rightarrow> bool" where
  "entry_matches filename flagmask skip_vlabel e \<longleftrightarrow>
     \<not> (skip_vlabel \<and> de_attributes e AND FAT_ATTR_VOLUMEL \<noteq> 0) \<and>
     (flagmask = 0 \<or> ucast (de_attributes e) AND flagmask = flagmask) \<and>
     map toupper (cstring (fat_copy_short_filename e)) = map toupper filename"

lemma find_entries_finds:
  assumes "32 * n \<le> length content" and "\<forall>e \<in> set (entries_of content n). 0 < length (de_filename e)"
    and "k \<le> n"
  shows "find_entries content filename flagmask skip_vlabel [k ..< n]
    = Inr (List.find (entry_matches filename flagmask skip_vlabel)
             (map unescape (used_entries (drop k (entries_of content n)))))"
  using assms(3)
proof (induction "n - k" arbitrary: k)
  case 0
  then show ?case by (simp add: used_entries_def)
next
  case (Suc m)
  let ?e = "entries_of content n ! k"
  have k: "k < n" using Suc.hyps(2) by simp
  have at: "entry_at content k = Inr ?e" by (rule entry_at_ok [OF assms(1) k])
  have dr: "drop k (entries_of content n) = ?e # drop (Suc k) (entries_of content n)"
    using k by (simp add: Cons_nth_drop_Suc)
  have sp: "[k ..< n] = k # [Suc k ..< n]" using k by (rule upt_conv_Cons)
  have "?e \<in> set (entries_of content n)" using k by simp
  then have len: "0 < length (de_filename ?e)" using assms(2) by blast
  have ih: "find_entries content filename flagmask skip_vlabel [Suc k ..< n]
    = Inr (List.find (entry_matches filename flagmask skip_vlabel)
             (map unescape (used_entries (drop (Suc k) (entries_of content n)))))"
    using Suc.hyps k by (intro Suc.hyps(1)) simp_all
  have u0: "de_filename (unescape ?e) ! 0 = 0 \<longleftrightarrow> de_filename ?e ! 0 = 0" using len by (simp add: unescape_def)
  have step: "find_entries content filename flagmask skip_vlabel (k # [Suc k ..< n]) =
      (if de_filename ?e ! 0 = 0xE5 then find_entries content filename flagmask skip_vlabel [Suc k ..< n]
       else if de_filename ?e ! 0 = 0 then Inr None
       else if entry_matches filename flagmask skip_vlabel (unescape ?e) then Inr (Some (unescape ?e))
       else find_entries content filename flagmask skip_vlabel [Suc k ..< n])"
    unfolding find_entries.simps at bindR.simps Let_def unescape_def [symmetric] u0
    by (simp add: entry_matches_def)
  show ?case unfolding sp step dr ih by (simp add: used_entries_def)
qed

lemma entries_of_put: "32 * n \<le> length xs \<Longrightarrow> entries_of (buf_put b 0 xs) n = entries_of xs n"
  by (simp add: entries_of_def buf_put_def buf_get_def)

lemma entries_of_name: "32 * n \<le> length content \<Longrightarrow> e \<in> set (entries_of content n) \<Longrightarrow> length (de_filename e) = 8"
  by (auto simp: entries_of_def dec_entry_def buf_get_def)

text \<open>The allocator delivers.\<close>

definition mal_ok :: "malloc \<Rightarrow> bool" where
  "mal_ok mal \<longleftrightarrow> (\<forall>k. \<exists>b. mal k = Some b \<and> unat k \<le> length b)"

text \<open>A directory with a readable chain of fewer clusters than the volume has.\<close>

definition dir_chain :: "fat16_ctx \<Rightarrow> fat16_dir_entry \<Rightarrow> u32 list \<Rightarrow> bool" where
  "dir_chain ctx dir cs \<longleftrightarrow> file_chain ctx dir cs \<and> de_attributes dir AND FAT_ATTR_DIRECTORY \<noteq> 0 \<and>
     fat_get_first_cluster ctx dir \<noteq> Inr 0 \<and>
     length cs < unat (fc_total_cluster_cnt ctx)"

lemma dir_content_reads:
  assumes dc: "dir_chain ctx dir cs" and mal: "mal_ok mal"
  shows "\<exists>sz b. dir_content_size ctx dir = Inr sz \<and> unat sz = length (chain_bytes ctx cs) \<and>
    dir_content mal ctx dir sz = Inr (S_OK, Some (buf_put b 0 (chain_bytes ctx cs), length (chain_bytes ctx cs) div 32))
    \<and> length (chain_bytes ctx cs) \<le> length b"
proof -
  let ?d = "chain_bytes ctx cs" and ?B = "unat (bps ctx)" and ?P = "unat (spc ctx)"
  have fc: "file_chain ctx dir cs" using dc by (simp add: dir_chain_def)
  obtain c where c: "fat_get_first_cluster ctx dir = Inr c" "c \<noteq> 0" "chain_of ctx c cs"
    using dc by (auto simp: dir_chain_def file_chain_def)
  have cnt: "fat_count_chain ctx c = Inr (of_nat (length cs))"
    using count_chain_length [OF c(2,3)] dc by (simp add: dir_chain_def)
  have L: "length ?d = length cs * ?P * ?B" by (rule length_chain_bytes [OF fc])
  have nz: "bps ctx \<noteq> 0" "spc ctx \<noteq> 0" and dl: "length ?d < 2 ^ 31" using file_chainD [OF fc] by simp_all
  have pos: "0 < ?B" "0 < ?P" using nz by (simp_all add: unat_gt_0)
  define sz where "sz = (of_nat (length cs) * bps ctx * spc ctx :: u32)"
  have "sz = of_nat (length cs * ?B * ?P)" by (simp add: sz_def)
  moreover have "length cs * ?B * ?P = length ?d" unfolding L by simp
  ultimately have usz: "unat sz = length ?d" using dl unat_of_nat_small [of "length ?d"] by simp
  obtain b where b: "mal sz = Some b" "length ?d \<le> length b" using mal usz by (force simp: mal_ok_def)
  have al: "unat (0 :: u32) mod ?B = 0" "unat sz mod ?B = 0" using usz L by simp_all
  have fits: "read_fits ctx 0 sz"
    using ceil_cover [OF pos(2), of "unat sz div ?B"] by (simp add: read_fits_def Let_def)
  have "fat16_read_file_content ctx dir 0 sz b 0 = Inr (S_OK, buf_put b 0 ?d)"
    using read_file_content [OF fc al, of 0 b] fits usz b(2) by (simp add: buf_get_def)
  then have "dir_content mal ctx dir sz = Inr (S_OK, Some (buf_put b 0 ?d, length ?d div 32))"
    using b(1) usz by (simp add: dir_content_def unat_div_mod)
  moreover have "dir_content_size ctx dir = Inr sz" using c(1) cnt by (simp add: dir_content_size_def sz_def)
  ultimately show ?thesis using usz b(2) by blast
qed

lemma find_subentry_dir:
  assumes dc: "dir_chain ctx dir cs" and mal: "mal_ok mal"
  shows "fat16_find_subentry mal ctx (Some dir) filename flagmask skip_vlabel =
    Inr (case List.find (entry_matches filename flagmask skip_vlabel)
                (map unescape (used_entries (entries_of (chain_bytes ctx cs) (length (chain_bytes ctx cs) div 32)))) of
           None \<Rightarrow> (E_NOTFOUND, None) | Some e \<Rightarrow> (S_OK, Some e))"
proof -
  let ?d = "chain_bytes ctx cs" and ?n = "length (chain_bytes ctx cs) div 32"
  obtain sz b where r: "dir_content_size ctx dir = Inr sz" "unat sz = length ?d"
      "dir_content mal ctx dir sz = Inr (S_OK, Some (buf_put b 0 ?d, ?n))" "length ?d \<le> length b"
    using dir_content_reads [OF dc mal] by blast
  have e: "entries_of (buf_put b 0 ?d) ?n = entries_of ?d ?n" by (rule entries_of_put) simp
  have l: "32 * ?n \<le> length (buf_put b 0 ?d)" using r(4) by (simp add: order_trans [OF times_div_less_eq_dividend])
  have "find_entries (buf_put b 0 ?d) filename flagmask skip_vlabel [0 ..< ?n]
    = Inr (List.find (entry_matches filename flagmask skip_vlabel) (map unescape (used_entries (drop 0 (entries_of ?d ?n)))))"
    unfolding e [symmetric] using entries_of_name [OF l] by (intro find_entries_finds l) auto
  then show ?thesis
    using r(1,3) dc by (simp add: fat16_find_subentry_def dir_chain_def split: option.split)
qed

section \<open>Properties\<close>

text \<open>C16. Reading a file in order through the block cache, each read into a buffer of its own size, delivers its bytes
  in order and then \<^verbatim>\<open>E_ENDOFSTR\<close>, for reads of any sizes from 1 to \<open>2 ^ 31 - 1\<close> on a volume with one sector in a
  cluster, and of any sizes from 1 to the size of a sector on a volume with more. Larger reads are excluded there
  because the kernel panics on some of them (\<open>fat16_read_file_content_exact\<close>).\<close>

theorem fat16_reads_in_order:
  assumes "shows_fat c ctx s (d, p)" and "sector_room mal ctx"
    and "\<forall>n \<in> set ns. 0 < n \<and> n < 2 ^ 31 \<and> (spc ctx = 1 \<or> n \<le> unat (bps ctx))"
  shows "\<exists>s'. fat_run mal ctx c ns s = Inr (fst (read_run ns (d, p)), s') \<and> shows_fat c ctx s' (d, snd (read_run ns (d, p)))"
  by (rule fat_run_refines [OF assms])

text \<open>A short read in the middle of a block that is not cached, as after a seek, writes the rest of the whole
  block into the caller's buffer, past its end.\<close>

theorem fat16_unaligned_miss_overruns:
  assumes fc: "file_chain ctx (fst_entry s) cs" and sz: "unat (de_size (fst_entry s)) \<le> length (chain_bytes ctx cs)"
    and ok: "cache_ok ctx (chain_bytes ctx cs) s" and mal: "sector_room mal ctx" and lock: "free_lock c (fst_lock s)"
    and miss: "\<not> pos_ok ctx s (unat (fst_pos s))"
    and n: "0 < unat n" "unat (fst_pos s) + unat n < unat (de_size (fst_entry s))"
      "unat (fst_pos s) mod unat (bps ctx) + unat n < unat (bps ctx)"
  shows "fat16_file_read mal ctx c s n (Some (replicate (unat n) 0)) = Inl BadAccess"
proof -
  let ?d = "chain_bytes ctx cs" and ?B = "unat (bps ctx)" and ?p = "unat (fst_pos s)"
  let ?s = "s\<lparr>fst_lock := entered c (fst_lock s)\<rparr>"
  have nz: "bps ctx \<noteq> 0" and dl: "length ?d < 2 ^ 31" using file_chainD [OF fc] by simp_all
  have B: "0 < ?B" using nz by (simp add: unat_gt_0)
  let ?o = "fst_pos s mod bps ctx"
  have o: "unat ?o = ?p mod ?B" by (simp add: unat_div_mod)
  have pm: "unat (fst_pos s - ?o) = ?p - ?p mod ?B" unfolding o [symmetric] by (rule unat_sub_small) (simp add: o)
  have "?p - ?p mod ?B + ?B \<le> length ?d"
    using next_block [of "?p - ?p mod ?B" ?B "length ?d" "?p mod ?B + unat n"] length_chain_bytes [OF fc] n sz B
    by (simp add: minus_mod_eq_mult_div)
  then obtain s' where s': "fat16_cache_blocks mal ctx ?s (fst_pos s - ?o) 1 = Inr (S_OK, s')"
      "cache_ok ctx ?d s'" "fst_cache_size s' = bps ctx" "\<not> fst_cache_invalid s'"
    using cache_block [of ctx ?s cs mal "fst_pos s - ?o"] fc ok mal pm by (auto simp: minus_mod_eq_mult_div)
  have "unat (fst_cache_start_addr s + fst_cache_size s) = unat (fst_cache_start_addr s) + unat (fst_cache_size s)"
    if "\<not> fst_cache_invalid s"
    using ok that dl by (intro unat_add_small) (simp add: cache_ok_def)
  then have inv: "?o \<noteq> 0" "\<not> (\<not> fst_cache_invalid s \<and> fst_cache_start_addr s \<le> fst_pos s
      \<and> fst_pos s \<le> fst_cache_start_addr s + fst_cache_size s)"
    using miss by (auto simp: pos_ok_def unat_mod_0 word_le_nat_alt)
  have un: "unat (bps ctx - ?o) = ?B - ?p mod ?B" unfolding o [symmetric] by (rule unat_sub_small) (simp add: o B less_imp_le)
  have "memcpyR (replicate (unat n) 0) 0 (cache_bytes s') (unat ?o) (unat (bps ctx - ?o)) = Inl BadAccess"
  proof -
    have "unat n < ?B - ?p mod ?B" using n(3) by linarith
    then show ?thesis using n(1) by (simp add: memcpyR_def un)
  qed
  then have "fat16_read_subblock mal ctx ?s (fst_pos s) n (replicate (unat n) 0) = Inl BadAccess"
    using inv nz s'(1) by (auto simp: fat16_read_subblock_def read_cached_def read_first_def divR_def Let_def)
  moreover have "unat (n + fst_pos s) = unat n + ?p" using n(2) sz dl by (intro unat_add_small) simp
  then have "effective_size s n = n" "n \<noteq> 0" using n(1,2) by (auto simp: effective_size_def word_le_nat_alt)
  ultimately show ?thesis
    using mutex_critical(1) [of c "fst_lock s"] lock by (simp add: fat16_file_read_def read_locked_def free_lock_def)
qed

text \<open>Opening the root directory and reading it to the end lists the entries that the sectors of the root
  directory hold, without deleted entries, labels, long names and the dot entries, up to the first unused one,
  each once, and then \<^verbatim>\<open>E_ENDOFSTR\<close>.\<close>

theorem fat16_root_lists_entries:
  assumes "bps ctx \<noteq> 0" and "\<forall>x \<in> set (root_sectors ctx). sector_ok ctx x" and "mal_ok mal"
    and "length (listed (entries_of (root_bytes ctx) (unat (root_entries ctx)))) \<le> n"
  shows "\<exists>d e. fat16_opendir mal uninit ctx [] = Inr (S_OK, Some d)
    \<and> readdir_all n d = Inr (listed (entries_of (root_bytes ctx) (unat (root_entries ctx))), E_ENDOFSTR, e)"
proof -
  let ?n = "unat (root_entries ctx)" and ?r = "root_bytes ctx"
  have room: "sector_room mal ctx" using assms(3) by (auto simp: mal_ok_def sector_room_def)
  obtain b where b: "mal (fat_get_rootdir_size ctx) = Some b" "32 * ?n \<le> length b"
    using assms(3) unat_root_size [of ctx] by (fastforce simp: mal_ok_def)
  obtain x where x: "mal 36 = Some x" using assms(3) by (fastforce simp: mal_ok_def)
  obtain y where y: "mal (of_nat VFS_MAX_DIRNAME_LENGTH) = Some y" "y \<noteq> []"
    using assms(3) [unfolded mal_ok_def, rule_format, of "of_nat VFS_MAX_DIRNAME_LENGTH"]
    by (fastforce simp: VFS_MAX_DIRNAME_LENGTH_def)
  have rd: "fat16_read_rootdir_content mal ctx b = Inr (S_OK, buf_put b 0 ?r)"
    using b(2) by (intro read_rootdir_content [OF assms(1,2) room]) (simp add: unat_root_size)
  have lr: "length ?r = 32 * ?n"
    using length_root_bytes [OF assms(1,2)] by (simp add: unat_root_size)
  let ?d = "\<lparr> fds_len = ?n, fds_pos = 0, fds_dirname = [], fds_content = buf_put b 0 ?r \<rparr>"
  have op: "fat16_opendir mal uninit ctx [] = Inr (S_OK, Some ?d)"
    using b(1) x y rd by (simp add: fat16_opendir_def root_content_def)
  have es: "entries_of ?r ?n = entries_of (fds_content ?d) (fds_len ?d)" using lr by (simp add: entries_of_put)
  have "\<exists>q. readdir_all n ?d = Inr (listed (drop (fds_pos ?d) (entries_of ?r ?n)), E_ENDOFSTR, ?d\<lparr>fds_pos := q\<rparr>)"
    using b(2) lr assms(4) by (intro readdir_all_lists [OF _ es]) simp_all
  then show ?thesis using op by auto
qed

text \<open>The search in a directory delivers the first used entry that has the name, whatever its case, and the
  flags asked for, and \<^verbatim>\<open>E_NOTFOUND\<close> only if there is none, however long the chain of the directory.\<close>

theorem fat16_find_subentry_finds:
  assumes "dir_chain ctx dir cs" and "mal_ok mal"
  shows "fat16_find_subentry mal ctx (Some dir) filename flagmask skip_vlabel =
    Inr (case List.find (entry_matches filename flagmask skip_vlabel)
                (map unescape (used_entries (entries_of (chain_bytes ctx cs) (length (chain_bytes ctx cs) div 32)))) of
           None \<Rightarrow> (E_NOTFOUND, None) | Some e \<Rightarrow> (S_OK, Some e))"
  by (rule find_subentry_dir [OF assms])

text \<open>The search in the root directory reads it into a buffer of \<^verbatim>\<open>root_entries & 32\<close> bytes, so that on every
  volume with a root directory, opening any path writes past a block of the kernel heap.\<close>

theorem fat16_root_search_overruns:
  assumes "32 < unat (bps ctx)" and "0 < unat (root_entries ctx)" and "\<forall>x \<in> set (root_sectors ctx). sector_ok ctx x"
    and "\<forall>k. \<exists>b. mal k = Some b \<and> length b = unat k"
  shows "fat16_find_subentry mal ctx None filename flagmask skip_vlabel = Inl BadAccess"
proof -
  let ?R = "unat (fat_get_rootdir_size ctx)" and ?B = "unat (bps ctx)" and ?n = "unat (root_entries ctx)"
  obtain b where b: "mal (root_entries ctx AND 32) = Some b" "length b = unat (root_entries ctx AND 32)"
    using assms(4) by metis
  obtain x where x: "mal (bps ctx) = Some x" "length x = ?B" using assms(4) by metis
  have "root_entries ctx AND 32 \<le> 32" by (rule word_and_le1)
  then have b32: "length b \<le> 32" using b(2) by (simp add: word_le_nat_alt)
  have bR: "length b < ?R"
  proof (cases "?n = 1")
    case True
    then have "root_entries ctx = 1" by (simp add: word_unat_eq_iff)
    then show ?thesis using b(2) by (simp add: unat_root_size)
  next
    case False
    then show ?thesis using b32 assms(2) by (simp add: unat_root_size)
  qed
  have nz: "bps ctx \<noteq> 0" using assms(1) by auto
  define N where "N = unat ((fat_get_rootdir_size ctx + bps ctx - 1) div bps ctx)"
  have N: "N = length (root_sectors ctx)" unfolding N_def by (rule unat_root_sectors [OF nz])
  have "0 < N"
    using assms(1) bR by (simp add: N root_sectors_def div_greater_zero_iff)
  then have split: "[0 ..< N] = 0 # [1 ..< N]" by (simp add: upt_conv_Cons)
  have ok: "sector_ok ctx (fc_first_root_sector ctx)" using \<open>0 < N\<close> assms(3) N by (force simp: root_sectors_def)
  obtain hr where r: "sd_read (fc_storage ctx) (fc_first_root_sector ctx) 1 = (hr, sector_bytes ctx (fc_first_root_sector ctx))"
      "SUCCEEDED hr" "length (sector_bytes ctx (fc_first_root_sector ctx)) = ?B"
    using ok by (cases "sd_read (fc_storage ctx) (fc_first_root_sector ctx) 1") (auto simp: sector_ok_def sector_bytes_def)
  have "rootdir_loop mal ctx (map of_nat [0 ..< N]) 0 b = Inl BadAccess"
  proof (cases "bps ctx \<le> fat_get_rootdir_size ctx")
    case True
    then show ?thesis unfolding split using r b32 assms(1) by (auto simp: storage_read_blocks_def memcpyR_def)
  next
    case False
    then show ?thesis unfolding split using r x bR nz
      by (auto simp: storage_read_blocks_def memcpyR_def buf_put_def)
  qed
  then have "fat16_read_rootdir_content mal ctx b = Inl BadAccess"
    using nz by (simp add: fat16_read_rootdir_content_def divR_def N_def)
  then show ?thesis using b(1) by (simp add: fat16_find_subentry_def root_content_def)
qed

section \<open>Examples\<close>

text \<open>A FAT12 volume with sectors of 64 bytes, two of them for the root directory, one sector in a cluster, and a
  file in the clusters 2 and 3. A sector holds its own number, but for the first of the root.\<close>

definition example_entry :: bytes where
  "example_entry = [65, 32, 32, 32, 32, 32, 32, 32, 66, 32, 32] @ replicate 15 0 @ [2, 0, 70, 0, 0, 0]"

definition example_sector :: "u32 \<Rightarrow> bytes" where
  "example_sector n = (if n = 3 then example_entry @ replicate 32 0 else replicate 64 (ucast n))"

definition example_fat :: fat16_ctx where
  "example_fat = (zero_ctx \<lparr> sd_read = (\<lambda>n k. (S_OK, example_sector n)), sd_block_size = (S_OK, 64) \<rparr>)
     \<lparr> fc_bpb := zero_bpb\<lparr>bp_bytes_per_sector := 64, bp_sectors_per_cluster := 1, bp_root_entries := 4\<rparr>,
       fc_fs_type := FS_TYPE_FAT12, fc_fat_cache := Some [0xF0, 0xFF, 0xFF, 0x03, 0xF0, 0xFF, 0, 0, 0],
       fc_first_data_sector := 5, fc_first_fat_sector := 1, fc_first_root_sector := 3, fc_total_sectors := 8,
       fc_data_sector_cnt := 3, fc_total_cluster_cnt := 3 \<rparr>"

definition example_stream :: "u32 \<Rightarrow> fat_stream" where
  "example_stream p = \<lparr> fst_mode = 1, fst_pos = p, fst_lock = mutex_create, fst_entry = dec_entry example_entry,
     fst_cache_cap = 0, fst_cache_start_addr = 0, fst_cache_size = 0, fst_cache_buff = None, fst_cache_invalid = False \<rparr>"

definition big_malloc :: malloc where
  "big_malloc k = Some (replicate (unat k) 0)"

lemma big_malloc_ok: "mal_ok big_malloc" "sector_room big_malloc ctx"
  by (simp_all add: mal_ok_def sector_room_def big_malloc_def)

lemma example_fat_sel [simp]:
  "bps example_fat = 64" "spc example_fat = 1" "root_entries example_fat = 4" "fc_fs_type example_fat = FS_TYPE_FAT12"
  "fc_first_root_sector example_fat = 3" "fc_first_data_sector example_fat = 5" "fc_total_cluster_cnt example_fat = 3"
  "sector_bytes example_fat n = example_sector n" "length (example_sector n) = 64"
  "fc_fat_cache example_fat = Some [0xF0, 0xFF, 0xFF, 0x03, 0xF0, 0xFF, 0, 0, 0]"
  by (simp_all add: example_fat_def bps_def spc_def root_entries_def sector_bytes_def zero_ctx_def zero_bpb_def dec_bpb_def
      example_sector_def example_entry_def)

lemma example_sector_ok [simp]: "sector_ok example_fat n"
  by (simp add: sector_ok_def) (simp add: example_fat_def zero_ctx_def)

lemma example_links:
  "fat16_fat_lookup example_fat 2 = Inr (Some 3)" "fat16_fat_lookup example_fat 3 = Inr (Some 0xFFF)"
  "fat_is_end_of_chain example_fat 0xFFF = Inr True" "fat_is_end_of_chain example_fat 2 = Inr False"
  by (simp_all add: fat16_fat_lookup_def fat_is_end_of_chain_def fs_types cache_word_def buf_get_def)

lemma example_chain: "chain_of example_fat 2 [2, 3]"
  by (simp add: example_links)

lemma example_bytes: "chain_bytes example_fat [2, 3] = replicate 64 5 @ replicate 64 6"
  by (simp add: chain_bytes_def cluster_sectors_def sector_ids_def cluster_sector_def) (simp add: example_sector_def)

lemma example_file: "file_chain example_fat (dec_entry example_entry) [2, 3]"
  by (simp add: file_chain_def example_bytes)
    (simp add: fat_get_first_cluster_def fs_types dec_entry_def example_entry_def buf_get_def example_links)

lemma example_entry_sel: "de_size (dec_entry example_entry) = 70" "de_attributes (dec_entry example_entry) = 0"
  "de_filename (dec_entry example_entry) = [65, 32, 32, 32, 32, 32, 32, 32]" "de_ext (dec_entry example_entry) = [66, 32, 32]"
  by (simp_all add: dec_entry_def example_entry_def buf_get_def nth_append)

lemma fat16_reads_in_order_witness:
  "\<exists>s'. fat_run big_malloc example_fat (cpu_of (1, 1)) [60, 64, 5] (example_stream 0)
    = Inr ([(S_OK, replicate 60 5), (S_OK, replicate 4 5 @ replicate 6 6), (E_ENDOFSTR, [])], s')"
proof -
  let ?d = "replicate 64 5 @ replicate 6 6 :: bytes"
  have "shows_fat (cpu_of (1, 1)) example_fat (example_stream 0) (take (unat (de_size (dec_entry example_entry))) (chain_bytes example_fat [2, 3]), 0)"
    by (rule open_shows_fat [OF example_file])
      (simp_all add: example_bytes example_entry_sel example_stream_def cpu_of_def)
  then have "shows_fat (cpu_of (1, 1)) example_fat (example_stream 0) (?d, 0)"
    by (simp add: example_bytes example_entry_sel)
  moreover have "fst (read_run [60, 64, 5] (?d, 0)) = [(S_OK, replicate 60 5), (S_OK, replicate 4 5 @ replicate 6 6), (E_ENDOFSTR, [])]"
    by (simp add: buf_get_def Let_def)
  ultimately show ?thesis
    using fat16_reads_in_order [of "cpu_of (1, 1)" example_fat "example_stream 0" ?d 0 big_malloc "[60, 64, 5]"]
    by (auto simp: big_malloc_ok)
qed

lemma fat16_unaligned_miss_overruns_witness:
  "fat16_file_read big_malloc example_fat (cpu_of (1, 1)) (example_stream 10) 5 (Some (replicate 5 0)) = Inl BadAccess"
proof -
  have "fat16_file_read big_malloc example_fat (cpu_of (1, 1)) (example_stream 10) 5 (Some (replicate (unat (5 :: u32)) 0)) = Inl BadAccess"
    by (rule fat16_unaligned_miss_overruns [where cs = "[2, 3]"])
      (simp_all add: example_stream_def example_file example_bytes example_entry_sel cache_ok_def cache_bytes_def pos_ok_def
        big_malloc_ok free_lock_def lockable_def mutex_create_def spinlock_create_def cpu_of_def)
  then show ?thesis by simp
qed

lemma fat16_root_search_overruns_witness:
  "fat16_find_subentry big_malloc example_fat None [65] 0 True = Inl BadAccess"
  by (rule fat16_root_search_overruns) (simp_all add: big_malloc_def)

lemma example_root: "listed (entries_of (root_bytes example_fat) 4) = [([65, 46, 66], 70, 1)]"
proof -
  have "root_sectors example_fat = [3, 4]" by (simp add: root_sectors_def fat_get_rootdir_size_def upt_rec)
  then have rb: "root_bytes example_fat = example_entry @ replicate 32 0 @ replicate 64 4"
    by (simp add: root_bytes_def fat_get_rootdir_size_def) (simp add: example_sector_def example_entry_def)
  have l: "length example_entry = 32" by (simp add: example_entry_def)
  have "entries_of (root_bytes example_fat) 4
      = [dec_entry example_entry, dec_entry (replicate 32 0), dec_entry (replicate 32 4), dec_entry (replicate 32 4)]"
    unfolding rb by (simp add: entries_of_def upt_rec buf_get_def l)
  moreover have "de_filename (dec_entry (replicate 32 0)) ! 0 = 0" by (simp add: dec_entry_def buf_get_def)
  ultimately show ?thesis
    by (simp add: example_entry_sel skipped_entry_def FAT_ATTR_VOLUMEL_def entry_info_def fat_copy_short_filename_def
        cstring_def NODE_TYPE_FILE_def)
qed

lemma fat16_root_lists_entries_witness:
  "\<exists>d e. fat16_opendir big_malloc (dec_entry example_entry) example_fat [] = Inr (S_OK, Some d)
    \<and> readdir_all 1 d = Inr ([([65, 46, 66], 70, 1)], E_ENDOFSTR, e)"
  using fat16_root_lists_entries [of example_fat big_malloc 1 "dec_entry example_entry"] by (simp add: big_malloc_ok example_root)

text \<open>A directory in the clusters 2 and 3: there is no entry with a name that starts with 5.\<close>

lemma fat16_find_subentry_finds_witness:
  "fat16_find_subentry big_malloc example_fat (Some ((dec_entry example_entry)\<lparr>de_attributes := 16\<rparr>)) [66] 0 True
    = Inr (E_NOTFOUND, None)"
proof -
  let ?dir = "(dec_entry example_entry)\<lparr>de_attributes := 16\<rparr>"
  have dc: "dir_chain example_fat ?dir [2, 3]"
    using example_file by (simp add: dir_chain_def FAT_ATTR_DIRECTORY_def file_chain_def fat_get_first_cluster_def)
      (simp add: fs_types dec_entry_def example_entry_def buf_get_def)
  have es: "entries_of (chain_bytes example_fat [2, 3]) 4
      = [dec_entry (replicate 32 5), dec_entry (replicate 32 5), dec_entry (replicate 32 6), dec_entry (replicate 32 6)]"
    by (simp add: example_bytes entries_of_def upt_rec buf_get_def)
  have r8: "replicate 8 x = [x, x, x, x, x, x, x, x]" for x :: u8 by (simp add: numeral_eq_Suc)
  have f: "de_filename (dec_entry (replicate 32 x)) = [x, x, x, x, x, x, x, x]" for x
    by (simp add: dec_entry_def buf_get_def r8)
  have "List.find (entry_matches [66] 0 True) (map unescape (used_entries (entries_of (chain_bytes example_fat [2, 3]) 4))) = None"
    unfolding es by (simp add: used_entries_def f unescape_def entry_matches_def fat_copy_short_filename_def cstring_def toupper_def)
  then show ?thesis
    using fat16_find_subentry_finds [OF dc big_malloc_ok(1), of "[66]" 0 True] by (simp add: example_bytes)
qed

end
