(* ===== verification/Geometry.thy ===== *)
theory Geometry
  imports Complex_Main Antonix_Base
begin

text \<open>
  \<^verbatim>\<open>subsystems/nxgi_geometry.c\<close>: points and axis-aligned rectangles of the graphics interface. A
  coordinate is an \<^verbatim>\<open>int32_t\<close>, a 32-bit word read as a signed number by \<open><s\<close>, \<open>\<le>s\<close> and \<open>sint\<close>; sums
  and products wrap, as the compiled code does. The tests for overlap and for intersection of
  segments are compared with what they mean for points of the plane.
\<close>

section \<open>Points and rectangles\<close>

type_synonym i32 = "32 word"

record NXGI_POINT =
  px :: i32
  py :: i32

record NXGI_SIZE =
  sz_width :: i32
  sz_height :: i32

text \<open>The unions of \<^verbatim>\<open>NXGI_RECT\<close> name the same four coordinates twice, as two points and as \<^verbatim>\<open>x1\<close>
  to \<^verbatim>\<open>y2\<close>.\<close>

record NXGI_RECT =
  p1 :: NXGI_POINT
  p2 :: NXGI_POINT

abbreviation x1 :: "NXGI_RECT \<Rightarrow> i32" where "x1 r \<equiv> px (p1 r)"
abbreviation y1 :: "NXGI_RECT \<Rightarrow> i32" where "y1 r \<equiv> py (p1 r)"
abbreviation x2 :: "NXGI_RECT \<Rightarrow> i32" where "x2 r \<equiv> px (p2 r)"
abbreviation y2 :: "NXGI_RECT \<Rightarrow> i32" where "y2 r \<equiv> py (p2 r)"

definition POINT :: "i32 \<Rightarrow> i32 \<Rightarrow> NXGI_POINT" where
  "POINT x y = \<lparr>px = x, py = y\<rparr>"

definition RECT :: "i32 \<Rightarrow> i32 \<Rightarrow> i32 \<Rightarrow> i32 \<Rightarrow> NXGI_RECT" where
  "RECT a b c d = \<lparr>p1 = POINT a b, p2 = POINT c d\<rparr>"

definition RECT_WIDTH :: "NXGI_RECT \<Rightarrow> i32" where
  "RECT_WIDTH r = x2 r - x1 r"

definition RECT_HEIGHT :: "NXGI_RECT \<Rightarrow> i32" where
  "RECT_HEIGHT r = y2 r - y1 r"

lemma POINT_sel [simp]: "px (POINT x y) = x" "py (POINT x y) = y"
  by (simp_all add: POINT_def)

lemma RECT_sel [simp]: "p1 (RECT a b c d) = POINT a b" "p2 (RECT a b c d) = POINT c d"
  by (simp_all add: RECT_def)

lemma point_eqI: "px p = px q \<Longrightarrow> py p = py q \<Longrightarrow> (p :: NXGI_POINT) = q"
  by simp

definition nxgig_clip_point :: "NXGI_POINT \<Rightarrow> NXGI_RECT \<Rightarrow> NXGI_POINT" where
  "nxgig_clip_point p r =
     (let p = (if px p <s x1 r then p\<lparr>px := x1 r\<rparr> else if x2 r <s px p then p\<lparr>px := x2 r\<rparr> else p) in
      if py p <s y1 r then p\<lparr>py := y1 r\<rparr> else if y2 r <s py p then p\<lparr>py := y2 r\<rparr> else p)"

definition nxgig_point_in_rect :: "NXGI_POINT \<Rightarrow> NXGI_RECT \<Rightarrow> bool" where
  "nxgig_point_in_rect p r \<longleftrightarrow>
     x1 r \<le>s px p \<and> px p \<le>s x2 r \<and> y1 r \<le>s py p \<and> py p \<le>s y2 r"

definition nxgig_rect_intersect :: "NXGI_RECT \<Rightarrow> NXGI_RECT \<Rightarrow> bool" where
  "nxgig_rect_intersect r s \<longleftrightarrow>
     \<not> (x2 r <s x1 s \<or> x2 s <s x1 r \<or> y2 r <s y1 s \<or> y2 s <s y1 r)"

definition nxgig_rect_contains_rect :: "NXGI_RECT \<Rightarrow> NXGI_RECT \<Rightarrow> bool" where
  "nxgig_rect_contains_rect containee container \<longleftrightarrow>
     nxgig_point_in_rect (p1 containee) container \<and> nxgig_point_in_rect (p2 containee) container"

definition nxgig_rects_union :: "NXGI_RECT \<Rightarrow> NXGI_RECT \<Rightarrow> NXGI_RECT" where
  "nxgig_rects_union r s =
     RECT (if x1 r <s x1 s then x1 r else x1 s) (if y1 r <s y1 s then y1 r else y1 s)
          (if x2 s <s x2 r then x2 r else x2 s) (if y2 s <s y2 r then y2 r else y2 s)"

definition nxgig_rect_area :: "NXGI_RECT \<Rightarrow> u32" where
  "nxgig_rect_area r = RECT_WIDTH r * RECT_HEIGHT r"

definition nxgig_rect_inflate :: "NXGI_RECT \<Rightarrow> i32 \<Rightarrow> NXGI_RECT" where
  "nxgig_rect_inflate r v = RECT (x1 r - v) (y1 r - v) (x2 r + v) (y2 r + v)"

definition nxgig_point_add :: "NXGI_POINT \<Rightarrow> NXGI_POINT \<Rightarrow> NXGI_POINT" where
  "nxgig_point_add p q = POINT (px p + px q) (py p + py q)"

definition nxgig_point_sub :: "NXGI_POINT \<Rightarrow> NXGI_POINT \<Rightarrow> NXGI_POINT" where
  "nxgig_point_sub p q = POINT (px p - px q) (py p - py q)"

definition nxgig_rect_offset :: "NXGI_RECT \<Rightarrow> NXGI_POINT \<Rightarrow> NXGI_RECT" where
  "nxgig_rect_offset r vector = \<lparr>p1 = nxgig_point_add (p1 r) vector, p2 = nxgig_point_add (p2 r) vector\<rparr>"

section \<open>Segments\<close>

definition helper_on_segment :: "NXGI_POINT \<Rightarrow> NXGI_POINT \<Rightarrow> NXGI_POINT \<Rightarrow> bool" where
  "helper_on_segment p q r \<longleftrightarrow>
     px q \<le>s (if px r <s px p then px p else px r) \<and> (if px p <s px r then px p else px r) \<le>s px q \<and>
     py q \<le>s (if py r <s py p then py p else py r) \<and> (if py p <s py r then py p else py r) \<le>s py q"

definition helper_orientation :: "NXGI_POINT \<Rightarrow> NXGI_POINT \<Rightarrow> NXGI_POINT \<Rightarrow> i32" where
  "helper_orientation p q r =
     (let val = (py q - py p) * (px r - px q) - (px q - px p) * (py r - py q) in
      if val = 0 then 0 else if 0 <s val then 1 else 2)"

definition nxgig_segment_segment_intersect ::
  "NXGI_POINT \<Rightarrow> NXGI_POINT \<Rightarrow> NXGI_POINT \<Rightarrow> NXGI_POINT \<Rightarrow> bool" where
  "nxgig_segment_segment_intersect pa qa pb qb =
     (let o1 = helper_orientation pa qa pb; o2 = helper_orientation pa qa qb;
          o3 = helper_orientation pb qb pa; o4 = helper_orientation pb qb qa in
      if o1 \<noteq> o2 \<and> o3 \<noteq> o4 then True
      else if o1 = 0 \<and> helper_on_segment pa pb qa then True
      else if o2 = 0 \<and> helper_on_segment pa qb qa then True
      else if o3 = 0 \<and> helper_on_segment pb pa qb then True
      else if o4 = 0 \<and> helper_on_segment pb qa qb then True
      else False)"

definition nxgig_line_rect_intersect :: "NXGI_POINT \<Rightarrow> NXGI_POINT \<Rightarrow> NXGI_RECT \<Rightarrow> bool" where
  "nxgig_line_rect_intersect la lb r \<longleftrightarrow>
     (let edge_intersect =
        (nxgig_segment_segment_intersect la lb (POINT (x1 r) (y1 r)) (POINT (x2 r) (y1 r)) \<or>
         nxgig_segment_segment_intersect la lb (POINT (x2 r) (y1 r)) (POINT (x2 r) (y2 r)) \<or>
         nxgig_segment_segment_intersect la lb (POINT (x2 r) (y2 r)) (POINT (x1 r) (y2 r)) \<or>
         nxgig_segment_segment_intersect la lb (POINT (x1 r) (y2 r)) (POINT (x1 r) (y1 r)));
        contain = (nxgig_point_in_rect la r \<and> nxgig_point_in_rect lb r) in
      edge_intersect \<or> contain)"

section \<open>Clipping, containment and union\<close>

lemmas signed_order = word_sle_eq word_sless_alt

definition rect_ok :: "NXGI_RECT \<Rightarrow> bool" where
  "rect_ok r \<longleftrightarrow> x1 r \<le>s x2 r \<and> y1 r \<le>s y2 r"

lemma clip_point_px: "px (nxgig_clip_point p r) =
    (if px p <s x1 r then x1 r else if x2 r <s px p then x2 r else px p)"
  by (simp add: nxgig_clip_point_def Let_def)

lemma clip_point_py: "py (nxgig_clip_point p r) =
    (if py p <s y1 r then y1 r else if y2 r <s py p then y2 r else py p)"
  by (simp add: nxgig_clip_point_def Let_def)

lemma clip_point_inside: "nxgig_point_in_rect p r \<Longrightarrow> nxgig_clip_point p r = p"
  by (auto simp: nxgig_point_in_rect_def nxgig_clip_point_def signed_order)

lemma clip_point_in_rect: "rect_ok r \<Longrightarrow> nxgig_point_in_rect (nxgig_clip_point p r) r"
  by (auto simp: rect_ok_def nxgig_point_in_rect_def clip_point_px clip_point_py signed_order)

text \<open>Clipping a point to a rectangle with ordered corners gives the point of the rectangle that is
  nearest in both coordinates, hence the point itself when it lies inside.\<close>

theorem nxgig_clip_point_nearest:
  assumes "rect_ok r"
  shows "nxgig_point_in_rect (nxgig_clip_point p r) r \<and>
    (\<forall>q. nxgig_point_in_rect q r \<longrightarrow>
       \<bar>sint (px (nxgig_clip_point p r)) - sint (px p)\<bar> \<le> \<bar>sint (px q) - sint (px p)\<bar> \<and>
       \<bar>sint (py (nxgig_clip_point p r)) - sint (py p)\<bar> \<le> \<bar>sint (py q) - sint (py p)\<bar>)"
proof (intro conjI allI impI)
  show "nxgig_point_in_rect (nxgig_clip_point p r) r"
    using assms by (rule clip_point_in_rect)
qed (use assms in \<open>auto simp: rect_ok_def nxgig_point_in_rect_def clip_point_px clip_point_py signed_order\<close>)

lemma nxgig_clip_point_nearest_witness:
  "nxgig_point_in_rect (nxgig_clip_point (POINT (-7) 30) (RECT 0 0 10 20)) (RECT 0 0 10 20)"
proof -
  have "rect_ok (RECT 0 0 10 20)" by code_simp
  from nxgig_clip_point_nearest [OF this, of "POINT (-7) 30"] show ?thesis by blast
qed

text \<open>The overlap test answers whether two rectangles with ordered corners have a point in common.\<close>

theorem nxgig_rect_intersect_iff:
  assumes "rect_ok r" and "rect_ok s"
  shows "nxgig_rect_intersect r s \<longleftrightarrow> (\<exists>p. nxgig_point_in_rect p r \<and> nxgig_point_in_rect p s)"
proof
  assume "nxgig_rect_intersect r s"
  then have "nxgig_point_in_rect (nxgig_clip_point (p1 s) r) s"
    using assms
    by (auto simp: nxgig_rect_intersect_def rect_ok_def nxgig_point_in_rect_def clip_point_px
        clip_point_py signed_order)
  then show "\<exists>p. nxgig_point_in_rect p r \<and> nxgig_point_in_rect p s"
    using clip_point_in_rect [OF assms(1)] by blast
next
  assume "\<exists>p. nxgig_point_in_rect p r \<and> nxgig_point_in_rect p s"
  then show "nxgig_rect_intersect r s"
    by (auto simp: nxgig_rect_intersect_def nxgig_point_in_rect_def signed_order)
qed

lemma nxgig_rect_intersect_iff_witness:
  "\<exists>p. nxgig_point_in_rect p (RECT 0 0 10 10) \<and> nxgig_point_in_rect p (RECT 5 (-5) 20 3)"
proof -
  have "rect_ok (RECT 0 0 10 10)" "rect_ok (RECT 5 (-5) 20 3)"
    "nxgig_rect_intersect (RECT 0 0 10 10) (RECT 5 (-5) 20 3)"
    by code_simp+
  then show ?thesis
    using nxgig_rect_intersect_iff [of "RECT 0 0 10 10" "RECT 5 (-5) 20 3"] by blast
qed

lemma contains_rect_trans:
  "nxgig_rect_contains_rect a b \<Longrightarrow> nxgig_rect_contains_rect b c \<Longrightarrow> nxgig_rect_contains_rect a c"
  by (auto simp: nxgig_rect_contains_rect_def nxgig_point_in_rect_def signed_order)

lemma nxgig_rects_union_least:
  assumes "rect_ok r" and "rect_ok s"
  shows "nxgig_rect_contains_rect r (nxgig_rects_union r s)"
    and "nxgig_rect_contains_rect s (nxgig_rects_union r s)"
    and "\<And>t. nxgig_rect_contains_rect r t \<Longrightarrow> nxgig_rect_contains_rect s t \<Longrightarrow>
           nxgig_rect_contains_rect (nxgig_rects_union r s) t"
  using assms
  by (auto simp: rect_ok_def nxgig_rect_contains_rect_def nxgig_rects_union_def
      nxgig_point_in_rect_def signed_order)

lemma inflate_deflate: "nxgig_rect_inflate (nxgig_rect_inflate r v) (- v) = r"
  by (simp add: nxgig_rect_inflate_def RECT_def POINT_def)

lemma offset_back: "nxgig_rect_offset (nxgig_rect_offset r d) (POINT (- px d) (- py d)) = r"
  by (simp add: nxgig_rect_offset_def nxgig_point_add_def POINT_def)

lemma point_sub_add: "nxgig_point_sub (nxgig_point_add p q) q = p"
  by (simp add: nxgig_point_sub_def nxgig_point_add_def POINT_def)

section \<open>Segments in the plane\<close>

text \<open>The segments with ends \<open>a\<close>, \<open>a + u\<close> and \<open>a + w\<close>, \<open>a + w + v\<close>: a common point is a pair of
  parameters. The orientations of the four triples are \<open>- (u \<times> w)\<close> and so on.\<close>

definition crossr :: "real \<Rightarrow> real \<Rightarrow> real \<Rightarrow> real \<Rightarrow> real" where
  "crossr a b c d = a * d - b * c"

definition meet_at :: "real \<Rightarrow> real \<Rightarrow> real \<Rightarrow> real \<Rightarrow> real \<Rightarrow> real \<Rightarrow> real \<Rightarrow> real \<Rightarrow> bool" where
  "meet_at ux uy vx vy wx wy s t \<longleftrightarrow>
     0 \<le> s \<and> s \<le> 1 \<and> 0 \<le> t \<and> t \<le> 1 \<and> s * ux - t * vx = wx \<and> s * uy - t * vy = wy"

lemma ratio_unit:
  fixes p q :: real
  assumes "sgn p \<noteq> sgn q"
  shows "0 \<le> p / (p - q) \<and> p / (p - q) \<le> 1"
  using assms by (auto simp: sgn_if divide_simps split: if_splits)

lemma meet_general:
  assumes D1: "D1 = - crossr ux uy wx wy" and D3: "D3 = crossr vx vy wx wy"
    and K: "K = crossr ux uy vx vy"
    and s1: "sgn D1 \<noteq> sgn (D1 - K)" and s3: "sgn D3 \<noteq> sgn (D3 + K)"
  shows "meet_at ux uy vx vy wx wy (- D3 / K) (D1 / K)"
proof -
  have K0: "K \<noteq> 0" using s1 by auto
  have "0 \<le> D1 / K \<and> D1 / K \<le> 1" using ratio_unit [OF s1] by simp
  moreover have "0 \<le> - D3 / K \<and> - D3 / K \<le> 1" using ratio_unit [OF s3] by simp
  moreover have "(- D3) * ux - D1 * vx = wx * K" "(- D3) * uy - D1 * vy = wy * K"
    by (simp_all add: D1 D3 K crossr_def algebra_simps)
  then have "- D3 / K * ux - D1 / K * vx = wx" "- D3 / K * uy - D1 / K * vy = wy"
    using K0 by (simp_all add: field_simps)
  ultimately show ?thesis by (simp add: meet_at_def)
qed

lemma split_sgn:
  fixes t k :: real
  assumes "0 \<le> t" and "t \<le> 1" and "k \<noteq> 0"
  shows "sgn (t * k) \<noteq> sgn (- ((1 - t) * k))"
proof (cases "t = 0 \<or> t = 1")
  case True
  then show ?thesis using assms(3) by (auto simp: sgn_eq_0_iff)
next
  case False
  then have "sgn t = 1" "sgn (1 - t) = 1" using assms by (simp_all add: sgn_if)
  then show ?thesis
    using assms(3) by (simp only: sgn_mult sgn_minus mult_1) (simp add: sgn_if)
qed

lemma meet_signs:
  assumes "meet_at ux uy vx vy wx wy s t" and K: "K = crossr ux uy vx vy" and "K \<noteq> 0"
    and D1: "D1 = - crossr ux uy wx wy" and D3: "D3 = crossr vx vy wx wy"
  shows "sgn D1 \<noteq> sgn (D1 - K) \<and> sgn D3 \<noteq> sgn (D3 + K)"
proof -
  have w: "wx = s * ux - t * vx" "wy = s * uy - t * vy" and st: "0 \<le> s" "s \<le> 1" "0 \<le> t" "t \<le> 1"
    using assms(1) by (auto simp: meet_at_def)
  have "D1 = t * K" "D3 = - (s * K)"
    unfolding D1 D3 K w crossr_def by (simp_all add: algebra_simps)
  moreover have "D1 - K = - ((1 - t) * K)" "D3 + K = (1 - s) * K"
    using calculation by (simp_all add: algebra_simps)
  ultimately show ?thesis
    using split_sgn [of t K] split_sgn [of s "- K"] st \<open>K \<noteq> 0\<close> by simp
qed

text \<open>A point on the line of a segment lies on it iff it lies in its bounding box.\<close>

definition in_box :: "real \<Rightarrow> real \<Rightarrow> bool" where
  "in_box u w \<longleftrightarrow> (0 \<le> w \<and> w \<le> u) \<or> (u \<le> w \<and> w \<le> 0)"

lemma on_line_in_box:
  assumes "crossr ux uy wx wy = 0" and "in_box ux wx" and "in_box uy wy"
  shows "\<exists>s. 0 \<le> s \<and> s \<le> 1 \<and> s * ux = wx \<and> s * uy = wy"
proof (cases "ux = 0")
  case True
  then have wx: "wx = 0" using assms(2) by (auto simp: in_box_def)
  show ?thesis
  proof (cases "uy = 0")
    case True
    then show ?thesis
      using \<open>ux = 0\<close> wx assms(3) by (intro exI [of _ 0]) (auto simp: in_box_def)
  next
    case False
    then show ?thesis
      using \<open>ux = 0\<close> wx assms(3)
      by (intro exI [of _ "wy / uy"]) (auto simp: in_box_def divide_simps)
  qed
next
  case False
  have "wx / ux * uy = wy"
    using assms(1) False by (simp add: crossr_def field_simps)
  then show ?thesis
    using False assms(2) by (intro exI [of _ "wx / ux"]) (auto simp: in_box_def divide_simps)
qed

lemma scale_in_box: "0 \<le> s \<Longrightarrow> s \<le> 1 \<Longrightarrow> in_box u (s * u)"
  using mult_left_le_one_le [of u s] mult_left_le_one_le [of "- u" s]
  by (cases "0 \<le> u") (auto simp: in_box_def mult_nonneg_nonneg mult_nonneg_nonpos)

text \<open>The conditions under which the code answers yes for collinear triples, with the second segment
  starting at \<open>w\<close>.\<close>

definition touch :: "real \<Rightarrow> real \<Rightarrow> real \<Rightarrow> real \<Rightarrow> real \<Rightarrow> real \<Rightarrow> bool" where
  "touch ux uy vx vy wx wy \<longleftrightarrow>
     (crossr ux uy wx wy = 0 \<and> in_box ux wx \<and> in_box uy wy) \<or>
     (crossr ux uy (wx + vx) (wy + vy) = 0 \<and> in_box ux (wx + vx) \<and> in_box uy (wy + vy)) \<or>
     (crossr vx vy (- wx) (- wy) = 0 \<and> in_box vx (- wx) \<and> in_box vy (- wy)) \<or>
     (crossr vx vy (ux - wx) (uy - wy) = 0 \<and> in_box vx (ux - wx) \<and> in_box vy (uy - wy))"

lemma touch_meets:
  assumes "touch ux uy vx vy wx wy"
  shows "\<exists>s t. meet_at ux uy vx vy wx wy s t"
  using assms unfolding touch_def
proof (elim disjE)
  assume "crossr ux uy wx wy = 0 \<and> in_box ux wx \<and> in_box uy wy"
  then obtain s where "0 \<le> s \<and> s \<le> 1 \<and> s * ux = wx \<and> s * uy = wy"
    using on_line_in_box by blast
  then show ?thesis by (intro exI [of _ s] exI [of _ 0]) (simp add: meet_at_def)
next
  assume "crossr ux uy (wx + vx) (wy + vy) = 0 \<and> in_box ux (wx + vx) \<and> in_box uy (wy + vy)"
  then obtain s where "0 \<le> s \<and> s \<le> 1 \<and> s * ux = wx + vx \<and> s * uy = wy + vy"
    using on_line_in_box by blast
  then show ?thesis by (intro exI [of _ s] exI [of _ 1]) (simp add: meet_at_def)
next
  assume "crossr vx vy (- wx) (- wy) = 0 \<and> in_box vx (- wx) \<and> in_box vy (- wy)"
  then obtain t where "0 \<le> t \<and> t \<le> 1 \<and> t * vx = - wx \<and> t * vy = - wy"
    using on_line_in_box by blast
  then show ?thesis by (intro exI [of _ 0] exI [of _ t]) (simp add: meet_at_def)
next
  assume "crossr vx vy (ux - wx) (uy - wy) = 0 \<and> in_box vx (ux - wx) \<and> in_box vy (uy - wy)"
  then obtain t where "0 \<le> t \<and> t \<le> 1 \<and> t * vx = ux - wx \<and> t * vy = uy - wy"
    using on_line_in_box by blast
  then show ?thesis by (intro exI [of _ 1] exI [of _ t]) (simp add: meet_at_def)
qed

text \<open>On one line with \<open>u \<noteq> 0\<close> everything is a multiple of \<open>u\<close>.\<close>

lemma parallel_multiple:
  assumes "crossr ux uy wx wy = 0" and "\<not> (ux = 0 \<and> uy = 0)"
  shows "\<exists>k. wx = k * ux \<and> wy = k * uy"
proof (cases "ux = 0")
  case True
  then show ?thesis
    using assms by (intro exI [of _ "wy / uy"]) (auto simp: crossr_def)
next
  case False
  then show ?thesis
    using assms by (intro exI [of _ "wx / ux"]) (auto simp: crossr_def field_simps)
qed

lemma in_box_scaled: "in_box k l \<Longrightarrow> in_box (k * u) (l * u)"
  unfolding in_box_def
  by (cases "0 \<le> u") (auto simp: zero_le_mult_iff mult_le_0_iff mult_right_mono mult_right_mono_neg)

lemma crossr_scaled: "crossr (k * a) (k * b) (l * a) (l * b) = 0"
  by (simp add: crossr_def)

lemma collinear_touch:
  assumes m: "meet_at ux uy vx vy wx wy s t" and K: "crossr ux uy vx vy = 0"
  shows "touch ux uy vx vy wx wy"
proof (cases "ux = 0 \<and> uy = 0")
  case True
  have "in_box vx (t * vx)" "in_box vy (t * vy)"
    using m by (auto intro: scale_in_box simp: meet_at_def)
  moreover have "wx = - (t * vx)" "wy = - (t * vy)"
    using m True by (auto simp: meet_at_def)
  ultimately have "crossr vx vy (- wx) (- wy) = 0 \<and> in_box vx (- wx) \<and> in_box vy (- wy)"
    by (simp add: crossr_def)
  then show ?thesis by (simp add: touch_def)
next
  case False
  obtain k where v: "vx = k * ux" "vy = k * uy"
    using parallel_multiple [OF K False] by blast
  define l where "l = s - t * k"
  have w: "wx = l * ux" "wy = l * uy"
    using m v by (auto simp: meet_at_def l_def algebra_simps)
  have st: "0 \<le> s" "s \<le> 1" "0 \<le> t" "t \<le> 1" and s: "s = l + t * k"
    using m by (auto simp: meet_at_def l_def)
  have tk: "in_box k (t * k)" using st by (simp add: scale_in_box)
  consider "in_box 1 l" | "in_box 1 (l + k)" | "in_box k (- l)"
    using tk s st by (fastforce simp: in_box_def)
  then show ?thesis
  proof cases
    case 1
    then show ?thesis
      using in_box_scaled [of 1 l ux] in_box_scaled [of 1 l uy] crossr_scaled [of 1 ux uy l]
      by (simp add: touch_def w)
  next
    case 2
    then show ?thesis
      using in_box_scaled [of 1 "l + k" ux] in_box_scaled [of 1 "l + k" uy]
        crossr_scaled [of 1 ux uy "l + k"]
      by (simp add: touch_def w v distrib_right)
  next
    case 3
    then show ?thesis
      using in_box_scaled [of k "- l" ux] in_box_scaled [of k "- l" uy] crossr_scaled [of k ux uy "- l"]
      by (simp add: touch_def w v)
  qed
qed

lemma segments_meet_iff:
  fixes ux uy vx vy wx wy :: real
  defines "D1 \<equiv> - crossr ux uy wx wy" and "D3 \<equiv> crossr vx vy wx wy" and "K \<equiv> crossr ux uy vx vy"
  shows "(\<exists>s t. meet_at ux uy vx vy wx wy s t) \<longleftrightarrow>
     (sgn D1 \<noteq> sgn (D1 - K) \<and> sgn D3 \<noteq> sgn (D3 + K)) \<or> touch ux uy vx vy wx wy"
proof
  assume "\<exists>s t. meet_at ux uy vx vy wx wy s t"
  then obtain s t where m: "meet_at ux uy vx vy wx wy s t" by blast
  show "(sgn D1 \<noteq> sgn (D1 - K) \<and> sgn D3 \<noteq> sgn (D3 + K)) \<or> touch ux uy vx vy wx wy"
  proof (cases "K = 0")
    case True
    then show ?thesis using collinear_touch [OF m] by (simp add: K_def)
  next
    case False
    then show ?thesis
      using meet_signs [OF m K_def [THEN meta_eq_to_obj_eq] False D1_def [THEN meta_eq_to_obj_eq]
          D3_def [THEN meta_eq_to_obj_eq]] by blast
  qed
next
  assume "(sgn D1 \<noteq> sgn (D1 - K) \<and> sgn D3 \<noteq> sgn (D3 + K)) \<or> touch ux uy vx vy wx wy"
  then show "\<exists>s t. meet_at ux uy vx vy wx wy s t"
    using meet_general [of D1 ux uy wx wy D3 vx vy K] touch_meets
    by (auto simp: D1_def D3_def K_def)
qed

section \<open>The intersection test\<close>

lemma sint_sub_small:
  "- (2 ^ 31) \<le> sint a - sint b \<Longrightarrow> sint a - sint b < 2 ^ 31 \<Longrightarrow> sint (a - b :: i32) = sint a - sint b"
  by (simp add: sint_word_ariths signed_take_bit_int_eq_self)

lemma sint_add_small:
  "- (2 ^ 31) \<le> sint a + sint b \<Longrightarrow> sint a + sint b < 2 ^ 31 \<Longrightarrow> sint (a + b :: i32) = sint a + sint b"
  by (simp add: sint_word_ariths signed_take_bit_int_eq_self)

lemma sint_mult_small:
  "- (2 ^ 31) \<le> sint a * sint b \<Longrightarrow> sint a * sint b < 2 ^ 31 \<Longrightarrow> sint (a * b :: i32) = sint a * sint b"
  by (simp add: sint_word_ariths signed_take_bit_int_eq_self)

text \<open>Coordinates below \<open>2\<^sup>1\<^sup>4\<close> in size, far beyond any screen, keep the orientation test free of
  overflow.\<close>

definition small_point :: "NXGI_POINT \<Rightarrow> bool" where
  "small_point p \<longleftrightarrow> \<bar>sint (px p)\<bar> < 2 ^ 14 \<and> \<bar>sint (py p)\<bar> < 2 ^ 14"

definition orient_val :: "NXGI_POINT \<Rightarrow> NXGI_POINT \<Rightarrow> NXGI_POINT \<Rightarrow> int" where
  "orient_val p q r =
     (sint (py q) - sint (py p)) * (sint (px r) - sint (px q)) -
     (sint (px q) - sint (px p)) * (sint (py r) - sint (py q))"

lemma abs_mult_small:
  fixes a b :: int
  assumes "\<bar>a\<bar> < 2 ^ 15" and "\<bar>b\<bar> < 2 ^ 15"
  shows "\<bar>a * b\<bar> < 2 ^ 30"
proof -
  have "\<bar>a\<bar> * \<bar>b\<bar> < 2 ^ 15 * 2 ^ 15"
    using assms by (intro mult_strict_mono) auto
  then show ?thesis by (simp add: abs_mult)
qed

lemma sint_diff_mult:
  fixes a b c d :: i32
  assumes "\<bar>sint a\<bar> < 2 ^ 14" "\<bar>sint b\<bar> < 2 ^ 14" "\<bar>sint c\<bar> < 2 ^ 14" "\<bar>sint d\<bar> < 2 ^ 14"
  shows "sint ((a - b) * (c - d)) = (sint a - sint b) * (sint c - sint d) \<and>
         \<bar>(sint a - sint b) * (sint c - sint d)\<bar> < 2 ^ 30"
proof -
  have e: "sint (a - b) = sint a - sint b" "sint (c - d) = sint c - sint d"
    using assms by (auto intro!: sint_sub_small)
  have b: "\<bar>(sint a - sint b) * (sint c - sint d)\<bar> < 2 ^ 30"
    using assms by (intro abs_mult_small) auto
  then have "sint ((a - b) * (c - d)) = sint (a - b) * sint (c - d)"
    by (intro sint_mult_small) (auto simp: e abs_less_iff)
  with e b show ?thesis by simp
qed

lemma helper_orientation_small:
  assumes "small_point p" and "small_point q" and "small_point r"
  shows "helper_orientation p q r =
    (if orient_val p q r = 0 then 0 else if 0 < orient_val p q r then 1 else 2)"
proof -
  let ?a = "(py q - py p) * (px r - px q)" and ?b = "(px q - px p) * (py r - py q)"
  have a: "sint ?a = (sint (py q) - sint (py p)) * (sint (px r) - sint (px q))" "\<bar>sint ?a\<bar> < 2 ^ 30"
    using sint_diff_mult [of "py q" "py p" "px r" "px q"] assms by (auto simp: small_point_def)
  have b: "sint ?b = (sint (px q) - sint (px p)) * (sint (py r) - sint (py q))" "\<bar>sint ?b\<bar> < 2 ^ 30"
    using sint_diff_mult [of "px q" "px p" "py r" "py q"] assms by (auto simp: small_point_def)
  have "sint (?a - ?b) = sint ?a - sint ?b"
    using a(2) b(2) by (intro sint_sub_small) (auto simp: abs_less_iff)
  then have v: "sint (?a - ?b) = orient_val p q r"
    by (simp add: a(1) b(1) orient_val_def)
  have z: "?a - ?b = 0 \<longleftrightarrow> orient_val p q r = 0"
    using v by (metis signed_0 signed_word_eqI)
  show ?thesis
    unfolding helper_orientation_def Let_def z word_sless_alt v by simp
qed

lemma orientation_neq_iff:
  assumes "small_point p" "small_point q" "small_point r" "small_point s"
  shows "helper_orientation p q r \<noteq> helper_orientation p q s \<longleftrightarrow>
    sgn (real_of_int (orient_val p q r)) \<noteq> sgn (real_of_int (orient_val p q s))"
  using assms by (auto simp: helper_orientation_small sgn_if)

lemma orientation_0_iff:
  "small_point p \<Longrightarrow> small_point q \<Longrightarrow> small_point r \<Longrightarrow>
   helper_orientation p q r = 0 \<longleftrightarrow> real_of_int (orient_val p q r) = 0"
  by (simp add: helper_orientation_small)

section \<open>Points of the plane\<close>

abbreviation rX :: "NXGI_POINT \<Rightarrow> real" where "rX p \<equiv> real_of_int (sint (px p))"
abbreviation rY :: "NXGI_POINT \<Rightarrow> real" where "rY p \<equiv> real_of_int (sint (py p))"

definition segment :: "NXGI_POINT \<Rightarrow> NXGI_POINT \<Rightarrow> (real \<times> real) set" where
  "segment p q = {(rX p + t * (rX q - rX p), rY p + t * (rY q - rY p)) | t. 0 \<le> t \<and> t \<le> 1}"

lemma between_box:
  fixes p q r :: int
  shows "q \<le> (if r < p then p else r) \<and> (if p < r then p else r) \<le> q \<longleftrightarrow>
    in_box (real_of_int r - real_of_int p) (real_of_int q - real_of_int p)"
  unfolding in_box_def by (cases "r < p"; cases "p < r") auto

lemma on_segment_box:
  "helper_on_segment p q r \<longleftrightarrow> in_box (rX r - rX p) (rX q - rX p) \<and> in_box (rY r - rY p) (rY q - rY p)"
  unfolding helper_on_segment_def between_box [symmetric] signed_order by (simp add: if_distrib [of sint])

lemma segments_common_iff:
  "segment pa qa \<inter> segment pb qb \<noteq> {} \<longleftrightarrow>
   (\<exists>s t. meet_at (rX qa - rX pa) (rY qa - rY pa) (rX qb - rX pb) (rY qb - rY pb) (rX pb - rX pa) (rY pb - rY pa) s t)"
  (is "?L \<longleftrightarrow> ?R")
proof
  assume ?L
  then obtain s t where m: "0 \<le> s" "s \<le> 1" "0 \<le> t" "t \<le> 1"
    and e: "rX pa + s * (rX qa - rX pa) = rX pb + t * (rX qb - rX pb)"
      "rY pa + s * (rY qa - rY pa) = rY pb + t * (rY qb - rY pb)"
    unfolding segment_def by blast
  have "s * (rX qa - rX pa) - t * (rX qb - rX pb) = rX pb - rX pa" using e(1) by linarith
  moreover have "s * (rY qa - rY pa) - t * (rY qb - rY pb) = rY pb - rY pa" using e(2) by linarith
  ultimately show ?R using m unfolding meet_at_def by blast
next
  assume ?R
  then obtain s t where m: "0 \<le> s" "s \<le> 1" "0 \<le> t" "t \<le> 1"
    and e: "s * (rX qa - rX pa) - t * (rX qb - rX pb) = rX pb - rX pa"
      "s * (rY qa - rY pa) - t * (rY qb - rY pb) = rY pb - rY pa"
    unfolding meet_at_def by blast
  have "rX pa + s * (rX qa - rX pa) = rX pb + t * (rX qb - rX pb)" using e(1) by linarith
  moreover have "rY pa + s * (rY qa - rY pa) = rY pb + t * (rY qb - rY pb)" using e(2) by linarith
  ultimately have "(rX pa + s * (rX qa - rX pa), rY pa + s * (rY qa - rY pa)) \<in> segment pa qa \<inter> segment pb qb"
    using m unfolding segment_def by blast
  then show ?L by blast
qed

lemma orient_cross:
  fixes pa qa pb qb :: NXGI_POINT
  defines "ux \<equiv> rX qa - rX pa" and "uy \<equiv> rY qa - rY pa" and "vx \<equiv> rX qb - rX pb" and "vy \<equiv> rY qb - rY pb"
    and "wx \<equiv> rX pb - rX pa" and "wy \<equiv> rY pb - rY pa"
  shows "real_of_int (orient_val pa qa pb) = - crossr ux uy wx wy"
    and "real_of_int (orient_val pa qa qb) = - crossr ux uy wx wy - crossr ux uy vx vy"
    and "real_of_int (orient_val pb qb pa) = crossr vx vy wx wy"
    and "real_of_int (orient_val pb qb qa) = crossr vx vy wx wy + crossr ux uy vx vy"
  by (simp_all add: orient_val_def crossr_def ux_def uy_def vx_def vy_def wx_def wy_def algebra_simps)

lemma touch_orient:
  fixes pa qa pb qb :: NXGI_POINT
  defines "ux \<equiv> rX qa - rX pa" and "uy \<equiv> rY qa - rY pa" and "vx \<equiv> rX qb - rX pb" and "vy \<equiv> rY qb - rY pb"
    and "wx \<equiv> rX pb - rX pa" and "wy \<equiv> rY pb - rY pa"
  shows "touch ux uy vx vy wx wy \<longleftrightarrow>
    (real_of_int (orient_val pa qa pb) = 0 \<and> helper_on_segment pa pb qa) \<or>
    (real_of_int (orient_val pa qa qb) = 0 \<and> helper_on_segment pa qb qa) \<or>
    (real_of_int (orient_val pb qb pa) = 0 \<and> helper_on_segment pb pa qb) \<or>
    (real_of_int (orient_val pb qb qa) = 0 \<and> helper_on_segment pb qa qb)"
proof -
  have "crossr ux uy (wx + vx) (wy + vy) = 0 \<longleftrightarrow> - crossr ux uy wx wy - crossr ux uy vx vy = 0"
    "crossr vx vy (- wx) (- wy) = 0 \<longleftrightarrow> crossr vx vy wx wy = 0"
    "crossr vx vy (ux - wx) (uy - wy) = 0 \<longleftrightarrow> crossr vx vy wx wy + crossr ux uy vx vy = 0"
    by (auto simp: crossr_def algebra_simps)
  moreover have "wx + vx = rX qb - rX pa" "wy + vy = rY qb - rY pa" "- wx = rX pa - rX pb" "- wy = rY pa - rY pb"
    "ux - wx = rX qa - rX pb" "uy - wy = rY qa - rY pb"
    by (simp_all add: ux_def uy_def vx_def vy_def wx_def wy_def)
  ultimately show ?thesis
    unfolding touch_def orient_cross on_segment_box
    by (simp add: ux_def uy_def vx_def vy_def wx_def wy_def)
qed

lemma segment_intersect_small:
  assumes "small_point pa" and "small_point qa" and "small_point pb" and "small_point qb"
  shows "nxgig_segment_segment_intersect pa qa pb qb \<longleftrightarrow> segment pa qa \<inter> segment pb qb \<noteq> {}"
proof -
  have "nxgig_segment_segment_intersect pa qa pb qb \<longleftrightarrow>
    (helper_orientation pa qa pb \<noteq> helper_orientation pa qa qb \<and>
     helper_orientation pb qb pa \<noteq> helper_orientation pb qb qa) \<or>
    (helper_orientation pa qa pb = 0 \<and> helper_on_segment pa pb qa) \<or>
    (helper_orientation pa qa qb = 0 \<and> helper_on_segment pa qb qa) \<or>
    (helper_orientation pb qb pa = 0 \<and> helper_on_segment pb pa qb) \<or>
    (helper_orientation pb qb qa = 0 \<and> helper_on_segment pb qa qb)"
    unfolding nxgig_segment_segment_intersect_def Let_def by argo
  moreover have "segment pa qa \<inter> segment pb qb \<noteq> {} \<longleftrightarrow>
    (sgn (real_of_int (orient_val pa qa pb)) \<noteq> sgn (real_of_int (orient_val pa qa qb)) \<and>
     sgn (real_of_int (orient_val pb qb pa)) \<noteq> sgn (real_of_int (orient_val pb qb qa))) \<or>
    (real_of_int (orient_val pa qa pb) = 0 \<and> helper_on_segment pa pb qa) \<or>
    (real_of_int (orient_val pa qa qb) = 0 \<and> helper_on_segment pa qb qa) \<or>
    (real_of_int (orient_val pb qb pa) = 0 \<and> helper_on_segment pb pa qb) \<or>
    (real_of_int (orient_val pb qb qa) = 0 \<and> helper_on_segment pb qa qb)"
    unfolding segments_common_iff segments_meet_iff touch_orient
      orient_cross(1) [where pa = pa and qa = qa and pb = pb]
      orient_cross(2) [where pa = pa and qa = qa and pb = pb and qb = qb]
      orient_cross(3) [where pa = pa and qb = qb and pb = pb]
      orient_cross(4) [where pa = pa and qa = qa and pb = pb and qb = qb] ..
  ultimately show ?thesis
    using assms by (simp only: orientation_neq_iff orientation_0_iff)
qed

text \<open>Beyond that bound the products wrap: this segment crosses the other one close to its end, and
  the test denies it.\<close>

theorem segment_intersect_overflows:
  "\<not> nxgig_segment_segment_intersect (POINT 0 0) (POINT 50000 50000) (POINT 0 50000) (POINT 50000 49999)"
  by code_simp

section \<open>Segments and rectangles\<close>

definition rect_area :: "NXGI_RECT \<Rightarrow> (real \<times> real) set" where
  "rect_area r = {(x, y). rX (p1 r) \<le> x \<and> x \<le> rX (p2 r) \<and> rY (p1 r) \<le> y \<and> y \<le> rY (p2 r)}"

text \<open>Walking along a segment until the first of finitely many affine conditions is tight.\<close>

lemma affine_between:
  fixes a b s t :: real
  assumes "0 \<le> a" and "0 \<le> a + t * b" and "0 \<le> s" and "s \<le> t"
  shows "0 \<le> a + s * b"
proof (cases "0 \<le> b")
  case True
  then show ?thesis using assms by simp
next
  case False
  then have "t * b \<le> s * b" using assms by (intro mult_right_mono_neg) auto
  then show ?thesis using assms by linarith
qed

lemma first_tight:
  fixes cs :: "(real \<times> real) list"
  assumes "\<forall>(a, b) \<in> set cs. 0 \<le> a"
  shows "\<exists>s. 0 \<le> s \<and> s \<le> 1 \<and> (\<forall>(a, b) \<in> set cs. 0 \<le> a + s * b) \<and>
    (s = 1 \<or> (\<exists>(a, b) \<in> set cs. a + s * b = 0))"
  using assms
proof (induction cs)
  case Nil
  show ?case by (intro exI [of _ 1]) simp
next
  case (Cons c cs)
  obtain a b where c: "c = (a, b)" by (cases c)
  obtain s where s: "0 \<le> s" "s \<le> 1" "\<forall>(a, b) \<in> set cs. 0 \<le> a + s * b"
    "s = 1 \<or> (\<exists>(a, b) \<in> set cs. a + s * b = 0)"
    using Cons by auto
  show ?case
  proof (cases "0 \<le> a + s * b")
    case True
    then show ?thesis using s c by (intro exI [of _ s]) auto
  next
    case False
    have a: "0 \<le> a" using Cons.prems c by simp
    have sb: "s * b < 0" using False a by linarith
    then have b: "b < 0" using s(1) by (simp add: mult_less_0_iff)
    define t where "t = a / (- b)"
    have t0: "0 \<le> t" "a + t * b = 0" using a b by (simp_all add: t_def divide_simps)
    have "t \<le> s" using False b by (simp add: t_def divide_simps)
    moreover have "\<forall>(a, b) \<in> set cs. 0 \<le> a + t * b"
      using Cons.prems s(3) t0(1) \<open>t \<le> s\<close> affine_between by fastforce
    ultimately show ?thesis using t0 s(2) c by (intro exI [of _ t]) auto
  qed
qed

lemma segment_vertical:
  assumes "rX p = rX q" and "rY p \<le> y \<and> y \<le> rY q \<or> rY q \<le> y \<and> y \<le> rY p"
  shows "(rX p, y) \<in> segment p q"
proof (cases "rY p = rY q")
  case True
  then show ?thesis using assms unfolding segment_def by (auto intro!: exI [of _ 0])
next
  case False
  define t where "t = (y - rY p) / (rY q - rY p)"
  have "0 \<le> t" "t \<le> 1" using assms False by (auto simp: t_def divide_simps)
  moreover have "y = rY p + t * (rY q - rY p)" using False by (simp add: t_def)
  ultimately show ?thesis using assms(1) unfolding segment_def by force
qed

lemma segment_horizontal:
  assumes "rY p = rY q" and "rX p \<le> x \<and> x \<le> rX q \<or> rX q \<le> x \<and> x \<le> rX p"
  shows "(x, rY p) \<in> segment p q"
proof (cases "rX p = rX q")
  case True
  then show ?thesis using assms unfolding segment_def by (auto intro!: exI [of _ 0])
next
  case False
  define t where "t = (x - rX p) / (rX q - rX p)"
  have "0 \<le> t" "t \<le> 1" using assms False by (auto simp: t_def divide_simps)
  moreover have "x = rX p + t * (rX q - rX p)" using False by (simp add: t_def)
  ultimately show ?thesis using assms(1) unfolding segment_def by force
qed

text \<open>The four edges, as the code lists them, are the points of the rectangle at which a side is
  tight.\<close>

definition edges :: "NXGI_RECT \<Rightarrow> (NXGI_POINT \<times> NXGI_POINT) list" where
  "edges r =
     [(POINT (x1 r) (y1 r), POINT (x2 r) (y1 r)), (POINT (x2 r) (y1 r), POINT (x2 r) (y2 r)),
      (POINT (x2 r) (y2 r), POINT (x1 r) (y2 r)), (POINT (x1 r) (y2 r), POINT (x1 r) (y1 r))]"

lemma tight_on_edge:
  assumes "(x, y) \<in> rect_area r"
    and "x = rX (p1 r) \<or> x = rX (p2 r) \<or> y = rY (p1 r) \<or> y = rY (p2 r)"
  shows "\<exists>(p, q) \<in> set (edges r). (x, y) \<in> segment p q"
  using assms(2)
proof (elim disjE)
  assume "x = rX (p1 r)"
  then show ?thesis
    using assms(1) segment_vertical [of "POINT (x1 r) (y2 r)" "POINT (x1 r) (y1 r)" y]
    by (auto simp: edges_def rect_area_def)
next
  assume "x = rX (p2 r)"
  then show ?thesis
    using assms(1) segment_vertical [of "POINT (x2 r) (y1 r)" "POINT (x2 r) (y2 r)" y]
    by (auto simp: edges_def rect_area_def)
next
  assume "y = rY (p1 r)"
  then show ?thesis
    using assms(1) segment_horizontal [of "POINT (x1 r) (y1 r)" "POINT (x2 r) (y1 r)" x]
    by (auto simp: edges_def rect_area_def)
next
  assume "y = rY (p2 r)"
  then show ?thesis
    using assms(1) segment_horizontal [of "POINT (x2 r) (y2 r)" "POINT (x1 r) (y2 r)" x]
    by (auto simp: edges_def rect_area_def)
qed

lemma affine_in_range:
  fixes lo hi a b t :: real
  assumes "lo \<le> a" "a \<le> hi" "lo \<le> b" "b \<le> hi" "0 \<le> t" "t \<le> 1"
  shows "lo \<le> a + t * (b - a) \<and> a + t * (b - a) \<le> hi"
  using affine_between [of "a - lo" 1 "b - a" t] affine_between [of "hi - a" 1 "a - b" t] assms
  by (simp add: algebra_simps)

lemma segment_in_rect:
  assumes "(rX p, rY p) \<in> rect_area r" and "(rX q, rY q) \<in> rect_area r"
  shows "segment p q \<subseteq> rect_area r"
  using assms affine_in_range unfolding segment_def rect_area_def by auto

lemma edges_in_rect:
  assumes "rect_ok r" and "(p, q) \<in> set (edges r)"
  shows "segment p q \<subseteq> rect_area r"
  using assms
  by (intro segment_in_rect) (auto simp: edges_def rect_area_def rect_ok_def signed_order simp del: of_int_sint)

lemma point_in_rect_area: "nxgig_point_in_rect p r \<longleftrightarrow> (rX p, rY p) \<in> rect_area r"
  by (simp add: nxgig_point_in_rect_def rect_area_def signed_order del: of_int_sint)

lemma leaves_through_edge:
  assumes i: "(x, y) \<in> rect_area r" and o: "(x', y') \<notin> rect_area r"
  shows "\<exists>s. 0 \<le> s \<and> s \<le> 1 \<and>
    (\<exists>(p, q) \<in> set (edges r). (x + s * (x' - x), y + s * (y' - y)) \<in> segment p q)"
proof -
  define cs where "cs = [(x - rX (p1 r), x' - x), (rX (p2 r) - x, x - x'),
    (y - rY (p1 r), y' - y), (rY (p2 r) - y, y - y')]"
  have "\<forall>(a, b) \<in> set cs. 0 \<le> a" using i by (simp add: cs_def rect_area_def)
  then obtain s where s: "0 \<le> s" "s \<le> 1" "\<forall>(a, b) \<in> set cs. 0 \<le> a + s * b"
    "s = 1 \<or> (\<exists>(a, b) \<in> set cs. a + s * b = 0)"
    using first_tight [of cs] by blast
  have neg: "s * (x - x') = - (s * (x' - x))" "s * (y - y') = - (s * (y' - y))"
    by (simp_all add: algebra_simps)
  have inr: "(x + s * (x' - x), y + s * (y' - y)) \<in> rect_area r"
    using s(3) by (simp add: cs_def rect_area_def neg)
  have "s \<noteq> 1" using inr o by auto
  then have "x + s * (x' - x) = rX (p1 r) \<or> x + s * (x' - x) = rX (p2 r) \<or>
     y + s * (y' - y) = rY (p1 r) \<or> y + s * (y' - y) = rY (p2 r)"
    using s(4) by (auto simp: cs_def neg)
  then show ?thesis using tight_on_edge [OF inr] s(1,2) by blast
qed

lemma meets_rect_iff:
  assumes "rect_ok r"
  shows "segment la lb \<inter> rect_area r \<noteq> {} \<longleftrightarrow>
    (\<exists>(p, q) \<in> set (edges r). segment la lb \<inter> segment p q \<noteq> {}) \<or>
    ((rX la, rY la) \<in> rect_area r \<and> (rX lb, rY lb) \<in> rect_area r)"  (is "?L \<longleftrightarrow> ?E \<or> ?C")
proof
  assume ?L
  then obtain t where t: "0 \<le> t" "t \<le> 1"
    and i: "(rX la + t * (rX lb - rX la), rY la + t * (rY lb - rY la)) \<in> rect_area r"
    unfolding segment_def by blast
  show "?E \<or> ?C"
  proof (cases ?C)
    case False
    then obtain e where e: "e = 0 \<or> e = 1"
      and o: "(rX la + e * (rX lb - rX la), rY la + e * (rY lb - rY la)) \<notin> rect_area r" 
      by (metis add.right_neutral add_diff_cancel_left' diff_add_cancel mult_1 mult_zero_left add.commute)
    obtain s p q where s: "0 \<le> s" "s \<le> 1" and pq: "(p, q) \<in> set (edges r)"
      and m: "(rX la + t * (rX lb - rX la) + s * (rX la + e * (rX lb - rX la) - (rX la + t * (rX lb - rX la))),
          rY la + t * (rY lb - rY la) + s * (rY la + e * (rY lb - rY la) - (rY la + t * (rY lb - rY la)))) \<in> segment p q"
      using leaves_through_edge [OF i o] by blast
    define u where "u = t + s * (e - t)"
    have "0 \<le> u" "u \<le> 1"
      using affine_in_range [of 0 t 1 e s] t s e by (auto simp: u_def)
    moreover have eqs: "rX la + t * (rX lb - rX la) + s * (rX la + e * (rX lb - rX la) - (rX la + t * (rX lb - rX la))) =
        rX la + u * (rX lb - rX la)"
      "rY la + t * (rY lb - rY la) + s * (rY la + e * (rY lb - rY la) - (rY la + t * (rY lb - rY la))) =
        rY la + u * (rY lb - rY la)"
      by (simp_all add: u_def algebra_simps)
    ultimately have "(rX la + u * (rX lb - rX la), rY la + u * (rY lb - rY la)) \<in> segment la lb \<inter> segment p q"
      using m unfolding eqs segment_def [of la lb] by blast
    then show ?thesis using pq by blast
  qed simp
next
  assume "?E \<or> ?C"
  then show ?L
  proof
    assume ?E
    then show ?L using edges_in_rect [OF assms] by blast
  next
    assume ?C
    moreover have "(rX la, rY la) \<in> segment la lb" unfolding segment_def by (force intro: exI [of _ 0])
    ultimately show ?L by blast
  qed
qed

text \<open>C37. The test of a segment against a rectangle answers whether the segment has a point of the plane
  in the rectangle, for ordered corners and coordinates below 2^14.\<close>

theorem nxgig_line_rect_intersect_iff:
  assumes "rect_ok r" and "small_point la" and "small_point lb" and "small_point (p1 r)" and "small_point (p2 r)"
  shows "nxgig_line_rect_intersect la lb r \<longleftrightarrow> segment la lb \<inter> rect_area r \<noteq> {}"
proof -
  have "small_point (POINT (x1 r) (y1 r))" "small_point (POINT (x2 r) (y1 r))"
    "small_point (POINT (x2 r) (y2 r))" "small_point (POINT (x1 r) (y2 r))"
    using assms(4,5) by (simp_all add: small_point_def)
  then show ?thesis
    unfolding nxgig_line_rect_intersect_def meets_rect_iff [OF assms(1)] Let_def edges_def
    using assms(2,3) by (simp add: segment_intersect_small point_in_rect_area)
qed

lemma nxgig_line_rect_intersect_iff_witness:
  "segment (POINT (-5) 5) (POINT 5 (-5)) \<inter> rect_area (RECT 0 0 10 10) \<noteq> {}"
proof -
  have "rect_ok (RECT 0 0 10 10)" "small_point (POINT (-5) 5)" "small_point (POINT 5 (-5))"
    "small_point (p1 (RECT 0 0 10 10))" "small_point (p2 (RECT 0 0 10 10))"
    "nxgig_line_rect_intersect (POINT (-5) 5) (POINT 5 (-5)) (RECT 0 0 10 10)"
    by code_simp+
  then show ?thesis
    using nxgig_line_rect_intersect_iff [of "RECT 0 0 10 10" "POINT (-5) 5" "POINT 5 (-5)"] by blast
qed

text \<open>The test of two segments answers whether they have a point of the plane in common, for coordinates
  below 2^14.\<close>

theorem nxgig_segment_segment_intersect_iff:
  assumes "small_point pa" and "small_point qa" and "small_point pb" and "small_point qb"
  shows "nxgig_segment_segment_intersect pa qa pb qb \<longleftrightarrow> segment pa qa \<inter> segment pb qb \<noteq> {}"
  using assms by (rule segment_intersect_small)

lemma nxgig_segment_segment_intersect_iff_witness:
  "segment (POINT 0 0) (POINT 4 4) \<inter> segment (POINT 2 2) (POINT 9 9) \<noteq> {}"
proof -
  have "small_point (POINT 0 0)" "small_point (POINT 4 4)" "small_point (POINT 2 2)" "small_point (POINT 9 9)"
    "nxgig_segment_segment_intersect (POINT 0 0) (POINT 4 4) (POINT 2 2) (POINT 9 9)"
    by code_simp+
  then show ?thesis
    using nxgig_segment_segment_intersect_iff [of "POINT 0 0" "POINT 4 4" "POINT 2 2" "POINT 9 9"] by blast
qed

end
