(* ===== verification/Graphics.thy ===== *)
theory Graphics
  imports Geometry
begin

unbundle bit_operations_syntax

text \<open>
  \<^verbatim>\<open>subsystems/nxgi_graphics.c\<close> and \<^verbatim>\<open>subsystems/nxgi.c\<close>: bitmaps, graphics contexts and the drawing
  operations on 32-bit pixels. Bitmaps and contexts live in stores from addresses to objects; the
  pixels of a bitmap are an object of their own, and an access outside it is \<open>BadAccess\<close>. Offsets of
  pixels are 32-bit words, as in the code. The method pointers of a context are the fields
  \<open>gc_set_pixel\<close> to \<open>gc_draw_text\<close> that \<^verbatim>\<open>set_target\<close> assigns together, here \<open>gc_ops\<close>; the other methods
  never change. Addresses returned by \<^verbatim>\<open>kmalloc\<close> and \<^verbatim>\<open>kcalloc\<close> are arguments, 0 where the heap is
  exhausted.
\<close>

section \<open>Data\<close>

record NXGI_COLOR =
  col_b :: u8
  col_g :: u8
  col_r :: u8
  col_a :: u8

datatype NXGI_FORMAT = NXGI_FORMAT_RGBA32 | NXGI_FORMAT_BGRA32

datatype NXGI_BITMAP_TAG = NXGI_BITMAP_TAG_DEFAULT | NXGI_BITMAP_TAG_SCREEN_SURFACE

text \<open>The method \<^verbatim>\<open>destroy\<close> of a bitmap.\<close>

datatype bitmap_dtor = nxgi_destroy_bitmap_fn | nxgi_destroy_screensurf_fn

record NXGI_BITMAP =
  bm_width :: u32
  bm_stride :: u32
  bm_height :: u32
  bm_bpp :: u32
  bm_format :: NXGI_FORMAT
  bm_refs :: u32
  bm_tag :: NXGI_BITMAP_TAG
  bm_bits :: bytes
  bm_destroy :: bitmap_dtor

text \<open>The name is the string in \<^verbatim>\<open>char name[64]\<close>.\<close>

record NXGI_FONT =
  fn_name :: string
  fn_size :: u32
  fn_style :: u32
  fn_color :: NXGI_COLOR
  fn_reserved :: u32

record NXGI_GRAPHICS_CONTEXT =
  gc_ops :: bool
  gc_target :: u32
  gc_font :: NXGI_FONT
  gc_offset :: NXGI_POINT
  gc_color :: NXGI_COLOR
  gc_clip_rect :: NXGI_RECT

record nxgi =
  bmps :: "u32 \<rightharpoonup> NXGI_BITMAP"
  gcs :: "u32 \<rightharpoonup> NXGI_GRAPHICS_CONTEXT"
  graphics_drv :: u32
  screen_surf :: u32

definition COLOR :: "u8 \<Rightarrow> u8 \<Rightarrow> u8 \<Rightarrow> u8 \<Rightarrow> NXGI_COLOR" where
  "COLOR r g b a = \<lparr>col_b = b, col_g = g, col_r = r, col_a = a\<rparr>"

definition SIZE :: "i32 \<Rightarrow> i32 \<Rightarrow> NXGI_SIZE" where
  "SIZE w h = \<lparr>sz_width = w, sz_height = h\<rparr>"

text \<open>\<^verbatim>\<open>strcpy\<close> into the 64 bytes of the name writes past them for a longer string. The field
  \<^verbatim>\<open>reserved\<close> stays what the stack held, an argument here.\<close>

definition FONT_PARAMS :: "u32 \<Rightarrow> string \<Rightarrow> u32 \<Rightarrow> u32 \<Rightarrow> NXGI_COLOR \<Rightarrow> NXGI_FONT run" where
  "FONT_PARAMS junk name sz style color =
     (if length name < 64
      then Inr \<lparr>fn_name = name, fn_size = sz, fn_style = style, fn_color = color, fn_reserved = junk\<rparr>
      else Inl BadAccess)"

definition SYS_FONT_WIDTH :: i32 where "SYS_FONT_WIDTH = 8"
definition SYS_FONT_HEIGHT :: i32 where "SYS_FONT_HEIGHT = 8"

definition sys_font :: "u8 list list" where
  "sys_font = [
     [0x00, 0x00, 0x00, 0x00, 0x00, 0x00, 0x00, 0x00],
     [0x00, 0x3E, 0x41, 0x55, 0x41, 0x55, 0x49, 0x3E],
     [0x00, 0x3E, 0x7F, 0x6B, 0x7F, 0x6B, 0x77, 0x3E],
     [0x00, 0x22, 0x77, 0x7F, 0x7F, 0x3E, 0x1C, 0x08],
     [0x00, 0x08, 0x1C, 0x3E, 0x7F, 0x3E, 0x1C, 0x08],
     [0x00, 0x08, 0x1C, 0x2A, 0x7F, 0x2A, 0x08, 0x1C],
     [0x00, 0x08, 0x1C, 0x3E, 0x7F, 0x3E, 0x08, 0x1C],
     [0x00, 0x00, 0x1C, 0x3E, 0x3E, 0x3E, 0x1C, 0x00],
     [0xFF, 0xFF, 0xE3, 0xC1, 0xC1, 0xC1, 0xE3, 0xFF],
     [0x00, 0x00, 0x1C, 0x22, 0x22, 0x22, 0x1C, 0x00],
     [0xFF, 0xFF, 0xE3, 0xDD, 0xDD, 0xDD, 0xE3, 0xFF],
     [0x00, 0x0F, 0x03, 0x05, 0x39, 0x48, 0x48, 0x30],
     [0x00, 0x08, 0x3E, 0x08, 0x1C, 0x22, 0x22, 0x1C],
     [0x00, 0x18, 0x14, 0x10, 0x10, 0x30, 0x70, 0x60],
     [0x00, 0x0F, 0x19, 0x11, 0x13, 0x37, 0x76, 0x60],
     [0x00, 0x08, 0x2A, 0x1C, 0x77, 0x1C, 0x2A, 0x08],
     [0x00, 0x60, 0x78, 0x7E, 0x7F, 0x7E, 0x78, 0x60],
     [0x00, 0x03, 0x0F, 0x3F, 0x7F, 0x3F, 0x0F, 0x03],
     [0x00, 0x08, 0x1C, 0x2A, 0x08, 0x2A, 0x1C, 0x08],
     [0x00, 0x66, 0x66, 0x66, 0x66, 0x00, 0x66, 0x66],
     [0x00, 0x3F, 0x65, 0x65, 0x3D, 0x05, 0x05, 0x05],
     [0x00, 0x0C, 0x32, 0x48, 0x24, 0x12, 0x4C, 0x30],
     [0x00, 0x00, 0x00, 0x00, 0x00, 0x7F, 0x7F, 0x7F],
     [0x00, 0x08, 0x1C, 0x2A, 0x08, 0x2A, 0x1C, 0x3E],
     [0x00, 0x08, 0x1C, 0x3E, 0x7F, 0x1C, 0x1C, 0x1C],
     [0x00, 0x1C, 0x1C, 0x1C, 0x7F, 0x3E, 0x1C, 0x08],
     [0x00, 0x08, 0x0C, 0x7E, 0x7F, 0x7E, 0x0C, 0x08],
     [0x00, 0x08, 0x18, 0x3F, 0x7F, 0x3F, 0x18, 0x08],
     [0x00, 0x00, 0x00, 0x70, 0x70, 0x70, 0x7F, 0x7F],
     [0x00, 0x00, 0x14, 0x22, 0x7F, 0x22, 0x14, 0x00],
     [0x00, 0x08, 0x1C, 0x1C, 0x3E, 0x3E, 0x7F, 0x7F],
     [0x00, 0x7F, 0x7F, 0x3E, 0x3E, 0x1C, 0x1C, 0x08],
     [0x00, 0x00, 0x00, 0x00, 0x00, 0x00, 0x00, 0x00],
     [0x00, 0x18, 0x3C, 0x3C, 0x18, 0x18, 0x00, 0x18],
     [0x00, 0x36, 0x36, 0x14, 0x00, 0x00, 0x00, 0x00],
     [0x00, 0x36, 0x36, 0x7F, 0x36, 0x7F, 0x36, 0x36],
     [0x00, 0x08, 0x1E, 0x20, 0x1C, 0x02, 0x3C, 0x08],
     [0x00, 0x60, 0x66, 0x0C, 0x18, 0x30, 0x66, 0x06],
     [0x00, 0x3C, 0x66, 0x3C, 0x28, 0x65, 0x66, 0x3F],
     [0x00, 0x18, 0x18, 0x18, 0x30, 0x00, 0x00, 0x00],
     [0x00, 0x60, 0x30, 0x18, 0x18, 0x18, 0x30, 0x60],
     [0x00, 0x06, 0x0C, 0x18, 0x18, 0x18, 0x0C, 0x06],
     [0x00, 0x00, 0x36, 0x1C, 0x7F, 0x1C, 0x36, 0x00],
     [0x00, 0x00, 0x08, 0x08, 0x3E, 0x08, 0x08, 0x00],
     [0x00, 0x00, 0x00, 0x00, 0x30, 0x30, 0x30, 0x60],
     [0x00, 0x00, 0x00, 0x00, 0x3C, 0x00, 0x00, 0x00],
     [0x00, 0x00, 0x00, 0x00, 0x00, 0x00, 0x60, 0x60],
     [0x00, 0x00, 0x06, 0x0C, 0x18, 0x30, 0x60, 0x00],
     [0x00, 0x3C, 0x66, 0x6E, 0x76, 0x66, 0x66, 0x3C],
     [0x00, 0x18, 0x18, 0x38, 0x18, 0x18, 0x18, 0x7E],
     [0x00, 0x3C, 0x66, 0x06, 0x0C, 0x30, 0x60, 0x7E],
     [0x00, 0x3C, 0x66, 0x06, 0x1C, 0x06, 0x66, 0x3C],
     [0x00, 0x0C, 0x1C, 0x2C, 0x4C, 0x7E, 0x0C, 0x0C],
     [0x00, 0x7E, 0x60, 0x7C, 0x06, 0x06, 0x66, 0x3C],
     [0x00, 0x3C, 0x66, 0x60, 0x7C, 0x66, 0x66, 0x3C],
     [0x00, 0x7E, 0x66, 0x0C, 0x0C, 0x18, 0x18, 0x18],
     [0x00, 0x3C, 0x66, 0x66, 0x3C, 0x66, 0x66, 0x3C],
     [0x00, 0x3C, 0x66, 0x66, 0x3E, 0x06, 0x66, 0x3C],
     [0x00, 0x00, 0x18, 0x18, 0x00, 0x18, 0x18, 0x00],
     [0x00, 0x00, 0x18, 0x18, 0x00, 0x18, 0x18, 0x30],
     [0x00, 0x06, 0x0C, 0x18, 0x30, 0x18, 0x0C, 0x06],
     [0x00, 0x00, 0x00, 0x3C, 0x00, 0x3C, 0x00, 0x00],
     [0x00, 0x60, 0x30, 0x18, 0x0C, 0x18, 0x30, 0x60],
     [0x00, 0x3C, 0x66, 0x06, 0x1C, 0x18, 0x00, 0x18],
     [0x00, 0x38, 0x44, 0x5C, 0x58, 0x42, 0x3C, 0x00],
     [0x00, 0x3C, 0x66, 0x66, 0x7E, 0x66, 0x66, 0x66],
     [0x00, 0x7C, 0x66, 0x66, 0x7C, 0x66, 0x66, 0x7C],
     [0x00, 0x3C, 0x66, 0x60, 0x60, 0x60, 0x66, 0x3C],
     [0x00, 0x7C, 0x66, 0x66, 0x66, 0x66, 0x66, 0x7C],
     [0x00, 0x7E, 0x60, 0x60, 0x7C, 0x60, 0x60, 0x7E],
     [0x00, 0x7E, 0x60, 0x60, 0x7C, 0x60, 0x60, 0x60],
     [0x00, 0x3C, 0x66, 0x60, 0x60, 0x6E, 0x66, 0x3C],
     [0x00, 0x66, 0x66, 0x66, 0x7E, 0x66, 0x66, 0x66],
     [0x00, 0x3C, 0x18, 0x18, 0x18, 0x18, 0x18, 0x3C],
     [0x00, 0x1E, 0x0C, 0x0C, 0x0C, 0x6C, 0x6C, 0x38],
     [0x00, 0x66, 0x6C, 0x78, 0x70, 0x78, 0x6C, 0x66],
     [0x00, 0x60, 0x60, 0x60, 0x60, 0x60, 0x60, 0x7E],
     [0x00, 0x63, 0x77, 0x7F, 0x6B, 0x63, 0x63, 0x63],
     [0x00, 0x63, 0x73, 0x7B, 0x6F, 0x67, 0x63, 0x63],
     [0x00, 0x3C, 0x66, 0x66, 0x66, 0x66, 0x66, 0x3C],
     [0x00, 0x7C, 0x66, 0x66, 0x66, 0x7C, 0x60, 0x60],
     [0x00, 0x3C, 0x66, 0x66, 0x66, 0x6E, 0x3C, 0x06],
     [0x00, 0x7C, 0x66, 0x66, 0x7C, 0x78, 0x6C, 0x66],
     [0x00, 0x3C, 0x66, 0x60, 0x3C, 0x06, 0x66, 0x3C],
     [0x00, 0x7E, 0x5A, 0x18, 0x18, 0x18, 0x18, 0x18],
     [0x00, 0x66, 0x66, 0x66, 0x66, 0x66, 0x66, 0x3E],
     [0x00, 0x66, 0x66, 0x66, 0x66, 0x66, 0x3C, 0x18],
     [0x00, 0x63, 0x63, 0x63, 0x6B, 0x7F, 0x77, 0x63],
     [0x00, 0x63, 0x63, 0x36, 0x1C, 0x36, 0x63, 0x63],
     [0x00, 0x66, 0x66, 0x66, 0x3C, 0x18, 0x18, 0x18],
     [0x00, 0x7E, 0x06, 0x0C, 0x18, 0x30, 0x60, 0x7E],
     [0x00, 0x1E, 0x18, 0x18, 0x18, 0x18, 0x18, 0x1E],
     [0x00, 0x00, 0x60, 0x30, 0x18, 0x0C, 0x06, 0x00],
     [0x00, 0x78, 0x18, 0x18, 0x18, 0x18, 0x18, 0x78],
     [0x00, 0x08, 0x14, 0x22, 0x41, 0x00, 0x00, 0x00],
     [0x00, 0x00, 0x00, 0x00, 0x00, 0x00, 0x00, 0x7F],
     [0x00, 0x0C, 0x0C, 0x06, 0x00, 0x00, 0x00, 0x00],
     [0x00, 0x00, 0x00, 0x3C, 0x06, 0x3E, 0x66, 0x3E],
     [0x00, 0x60, 0x60, 0x60, 0x7C, 0x66, 0x66, 0x7C],
     [0x00, 0x00, 0x00, 0x3C, 0x66, 0x60, 0x66, 0x3C],
     [0x00, 0x06, 0x06, 0x06, 0x3E, 0x66, 0x66, 0x3E],
     [0x00, 0x00, 0x00, 0x3C, 0x66, 0x7E, 0x60, 0x3C],
     [0x00, 0x1C, 0x36, 0x30, 0x30, 0x7C, 0x30, 0x30],
     [0x00, 0x00, 0x3E, 0x66, 0x66, 0x3E, 0x06, 0x3C],
     [0x00, 0x60, 0x60, 0x60, 0x7C, 0x66, 0x66, 0x66],
     [0x00, 0x00, 0x18, 0x00, 0x18, 0x18, 0x18, 0x3C],
     [0x00, 0x0C, 0x00, 0x0C, 0x0C, 0x6C, 0x6C, 0x38],
     [0x00, 0x60, 0x60, 0x66, 0x6C, 0x78, 0x6C, 0x66],
     [0x00, 0x18, 0x18, 0x18, 0x18, 0x18, 0x18, 0x18],
     [0x00, 0x00, 0x00, 0x63, 0x77, 0x7F, 0x6B, 0x6B],
     [0x00, 0x00, 0x00, 0x7C, 0x7E, 0x66, 0x66, 0x66],
     [0x00, 0x00, 0x00, 0x3C, 0x66, 0x66, 0x66, 0x3C],
     [0x00, 0x00, 0x7C, 0x66, 0x66, 0x7C, 0x60, 0x60],
     [0x00, 0x00, 0x3C, 0x6C, 0x6C, 0x3C, 0x0D, 0x0F],
     [0x00, 0x00, 0x00, 0x7C, 0x66, 0x66, 0x60, 0x60],
     [0x00, 0x00, 0x00, 0x3E, 0x40, 0x3C, 0x02, 0x7C],
     [0x00, 0x00, 0x18, 0x18, 0x7E, 0x18, 0x18, 0x18],
     [0x00, 0x00, 0x00, 0x66, 0x66, 0x66, 0x66, 0x3E],
     [0x00, 0x00, 0x00, 0x00, 0x66, 0x66, 0x3C, 0x18],
     [0x00, 0x00, 0x00, 0x63, 0x6B, 0x6B, 0x6B, 0x3E],
     [0x00, 0x00, 0x00, 0x66, 0x3C, 0x18, 0x3C, 0x66],
     [0x00, 0x00, 0x00, 0x66, 0x66, 0x3E, 0x06, 0x3C],
     [0x00, 0x00, 0x00, 0x3C, 0x0C, 0x18, 0x30, 0x3C],
     [0x00, 0x0E, 0x18, 0x18, 0x30, 0x18, 0x18, 0x0E],
     [0x00, 0x18, 0x18, 0x18, 0x00, 0x18, 0x18, 0x18],
     [0x00, 0x70, 0x18, 0x18, 0x0C, 0x18, 0x18, 0x70],
     [0x00, 0x00, 0x00, 0x3A, 0x6C, 0x00, 0x00, 0x00],
     [0x00, 0x08, 0x1C, 0x36, 0x63, 0x41, 0x41, 0x7F]]"

section \<open>Stores\<close>

definition bmp_at :: "nxgi \<Rightarrow> u32 \<Rightarrow> NXGI_BITMAP run" where
  "bmp_at st p = (if p = 0 then Inl BadAccess else case bmps st p of None \<Rightarrow> Inl BadAccess | Some b \<Rightarrow> Inr b)"

definition gc_at :: "nxgi \<Rightarrow> u32 \<Rightarrow> NXGI_GRAPHICS_CONTEXT run" where
  "gc_at st g = (if g = 0 then Inl BadAccess else case gcs st g of None \<Rightarrow> Inl BadAccess | Some c \<Rightarrow> Inr c)"

definition put_bmp :: "u32 \<Rightarrow> NXGI_BITMAP \<Rightarrow> nxgi \<Rightarrow> nxgi" where
  "put_bmp p b st = st\<lparr>bmps := (bmps st)(p \<mapsto> b)\<rparr>"

definition put_gc :: "u32 \<Rightarrow> NXGI_GRAPHICS_CONTEXT \<Rightarrow> nxgi \<Rightarrow> nxgi" where
  "put_gc g c st = st\<lparr>gcs := (gcs st)(g \<mapsto> c)\<rparr>"

text \<open>Calls in sequence, when one of them may not return.\<close>

fun bindO :: "'a run option \<Rightarrow> ('a \<Rightarrow> 'b run option) \<Rightarrow> 'b run option" where
  "bindO None k = None"
| "bindO (Some (Inl h)) k = Some (Inl h)"
| "bindO (Some (Inr x)) k = k x"

section \<open>State of a context\<close>

definition clamp_low :: "i32 \<Rightarrow> i32" where
  "clamp_low v = (if v <s 0 then 0 else v)"

definition clamp_high :: "u32 \<Rightarrow> i32 \<Rightarrow> i32" where
  "clamp_high m v = (if m <s v then m else v)"

definition graphics_set_clip_rect :: "u32 \<Rightarrow> NXGI_RECT \<Rightarrow> nxgi \<Rightarrow> (hresult \<times> nxgi) run" where
  "graphics_set_clip_rect g r st =
     bindR (gc_at st g) (\<lambda>gc.
     bindR (bmp_at st (gc_target gc)) (\<lambda>b.
       let r = RECT (clamp_low (x1 r)) (clamp_low (y1 r)) (clamp_low (x2 r)) (clamp_low (y2 r));
           r = RECT (clamp_high (bm_width b) (x1 r)) (clamp_high (bm_height b) (y1 r))
                    (clamp_high (bm_width b) (x2 r)) (clamp_high (bm_height b) (y2 r)) in
       Inr (S_OK, put_gc g (gc\<lparr>gc_clip_rect := r\<rparr>) st)))"

definition detach_target :: "u32 \<Rightarrow> NXGI_GRAPHICS_CONTEXT \<Rightarrow> nxgi \<Rightarrow> nxgi run" where
  "detach_target g gc st =
     (if gc_target gc \<noteq> 0
      then bindR (bmp_at st (gc_target gc)) (\<lambda>b.
             Inr (put_gc g (gc\<lparr>gc_target := 0\<rparr>) (put_bmp (gc_target gc) (b\<lparr>bm_refs := bm_refs b - 1\<rparr>) st)))
      else Inr st)"

definition attach_target :: "u32 \<Rightarrow> u32 \<Rightarrow> nxgi \<Rightarrow> (hresult \<times> nxgi) run" where
  "attach_target g pTarget st =
     bindR (gc_at st g) (\<lambda>gc.
     bindR (bmp_at st pTarget) (\<lambda>b.
       if bm_tag b \<noteq> NXGI_BITMAP_TAG_DEFAULT \<and> bm_tag b \<noteq> NXGI_BITMAP_TAG_SCREEN_SURFACE then Inr (E_FAIL, st)
       else
         let st = put_gc g (gc\<lparr>gc_target := pTarget\<rparr>) (put_bmp pTarget (b\<lparr>bm_refs := bm_refs b + 1\<rparr>) st) in
         bindR (graphics_set_clip_rect g (RECT 0 0 (bm_width b) (bm_height b)) st) (\<lambda>(_, st).
         bindR (gc_at st g) (\<lambda>gc.
           case bm_format b of
             NXGI_FORMAT_BGRA32 \<Rightarrow> Inr (S_OK, put_gc g (gc\<lparr>gc_ops := True\<rparr>) st)
           | NXGI_FORMAT_RGBA32 \<Rightarrow> Inr (E_FAIL, st)))))"

definition graphics_set_target :: "u32 \<Rightarrow> u32 \<Rightarrow> nxgi \<Rightarrow> (hresult \<times> nxgi) run" where
  "graphics_set_target g pTarget st =
     bindR (gc_at st g) (\<lambda>gc.
     bindR (detach_target g gc st) (\<lambda>st.
       if pTarget = 0 then Inr (S_OK, st) else attach_target g pTarget st))"

definition graphics_get_target :: "u32 \<Rightarrow> nxgi \<Rightarrow> (hresult \<times> u32) run" where
  "graphics_get_target g st = bindR (gc_at st g) (\<lambda>gc. Inr (S_OK, gc_target gc))"

definition graphics_set_color :: "u32 \<Rightarrow> NXGI_COLOR \<Rightarrow> nxgi \<Rightarrow> (hresult \<times> nxgi) run" where
  "graphics_set_color g color st =
     bindR (gc_at st g) (\<lambda>gc. Inr (S_OK, put_gc g (gc\<lparr>gc_color := color\<rparr>) st))"

definition graphics_get_color :: "u32 \<Rightarrow> nxgi \<Rightarrow> (hresult \<times> NXGI_COLOR) run" where
  "graphics_get_color g st = bindR (gc_at st g) (\<lambda>gc. Inr (S_OK, gc_color gc))"

definition graphics_set_offset :: "u32 \<Rightarrow> NXGI_POINT \<Rightarrow> nxgi \<Rightarrow> (hresult \<times> nxgi) run" where
  "graphics_set_offset g offset st =
     bindR (gc_at st g) (\<lambda>gc. Inr (S_OK, put_gc g (gc\<lparr>gc_offset := offset\<rparr>) st))"

definition graphics_get_offset :: "u32 \<Rightarrow> nxgi \<Rightarrow> (hresult \<times> NXGI_POINT) run" where
  "graphics_get_offset g st = bindR (gc_at st g) (\<lambda>gc. Inr (S_OK, gc_offset gc))"

definition graphics_get_clip_rect :: "u32 \<Rightarrow> nxgi \<Rightarrow> (hresult \<times> NXGI_RECT) run" where
  "graphics_get_clip_rect g st = bindR (gc_at st g) (\<lambda>gc. Inr (S_OK, gc_clip_rect gc))"

definition graphics_set_font :: "u32 \<Rightarrow> NXGI_FONT \<Rightarrow> nxgi \<Rightarrow> (hresult \<times> nxgi) run" where
  "graphics_set_font g font_params st =
     bindR (gc_at st g) (\<lambda>gc.
       if fn_name font_params \<noteq> ''System'' then Inr (E_INVALIDARG, st)
       else if fn_size font_params \<noteq> 1 then Inr (E_INVALIDARG, st)
       else Inr (S_OK, put_gc g (gc\<lparr>gc_font := font_params\<rparr>) st))"

definition graphics_get_font :: "u32 \<Rightarrow> nxgi \<Rightarrow> (hresult \<times> NXGI_FONT) run" where
  "graphics_get_font g st = bindR (gc_at st g) (\<lambda>gc. Inr (S_OK, gc_font gc))"

section \<open>Pixels\<close>

definition color_bytes :: "NXGI_COLOR \<Rightarrow> bytes" where
  "color_bytes c = [col_b c, col_g c, col_r c, col_a c]"

definition bytes_color :: "bytes \<Rightarrow> NXGI_COLOR" where
  "bytes_color bs = \<lparr>col_b = bs ! 0, col_g = bs ! 1, col_r = bs ! 2, col_a = bs ! 3\<rparr>"

text \<open>\<^verbatim>\<open>*(NXGI_COLOR *)(pBits + off) = color\<close>.\<close>

definition store_color :: "bytes \<Rightarrow> u32 \<Rightarrow> NXGI_COLOR \<Rightarrow> bytes run" where
  "store_color bits off color =
     (if unat off + 4 \<le> length bits then Inr (buf_put bits (unat off) (color_bytes color)) else Inl BadAccess)"

definition load_color :: "bytes \<Rightarrow> u32 \<Rightarrow> NXGI_COLOR run" where
  "load_color bits off =
     (if unat off + 4 \<le> length bits then Inr (bytes_color (buf_get bits (unat off) 4)) else Inl BadAccess)"

definition pixel_offset :: "NXGI_BITMAP \<Rightarrow> u32 \<Rightarrow> u32 \<Rightarrow> u32" where
  "pixel_offset b x y = x * bm_bpp b div 8 + y * bm_stride b"

definition with_target ::
  "u32 \<Rightarrow> nxgi \<Rightarrow> (NXGI_GRAPHICS_CONTEXT \<Rightarrow> NXGI_BITMAP \<Rightarrow> (hresult \<times> bytes) run) \<Rightarrow> (hresult \<times> nxgi) run" where
  "with_target g st f =
     bindR (gc_at st g) (\<lambda>gc.
       if gc_target gc = 0 then Inr (E_INVALIDSTATE, st)
       else bindR (bmp_at st (gc_target gc)) (\<lambda>b.
            bindR (f gc b) (\<lambda>(hr, bits). Inr (hr, put_bmp (gc_target gc) (b\<lparr>bm_bits := bits\<rparr>) st))))"

definition graphics_set_pixel_bgra32 :: "u32 \<Rightarrow> NXGI_POINT \<Rightarrow> NXGI_COLOR \<Rightarrow> nxgi \<Rightarrow> (hresult \<times> nxgi) run" where
  "graphics_set_pixel_bgra32 g pos color st =
     with_target g st (\<lambda>gc b.
       bindR (store_color (bm_bits b) (pixel_offset b (px pos) (py pos)) color) (\<lambda>bits. Inr (S_OK, bits)))"

definition graphics_get_pixel_bgra32 :: "u32 \<Rightarrow> NXGI_POINT \<Rightarrow> nxgi \<Rightarrow> (hresult \<times> NXGI_COLOR option) run" where
  "graphics_get_pixel_bgra32 g pos st =
     bindR (gc_at st g) (\<lambda>gc.
       if gc_target gc = 0 then Inr (E_INVALIDSTATE, None)
       else bindR (bmp_at st (gc_target gc)) (\<lambda>b.
            bindR (load_color (bm_bits b) (pixel_offset b (px pos) (py pos))) (\<lambda>c. Inr (S_OK, Some c))))"

section \<open>Lines and rectangles\<close>

text \<open>\<^verbatim>\<open>while (n--) { *pixel = color; pixel += step; }\<close>.\<close>

fun pixel_run :: "bytes \<Rightarrow> u32 \<Rightarrow> u32 \<Rightarrow> NXGI_COLOR \<Rightarrow> nat \<Rightarrow> bytes run" where
  "pixel_run bits off step color 0 = Inr bits"
| "pixel_run bits off step color (Suc n) =
     bindR (store_color bits off color) (\<lambda>bits. pixel_run bits (off + step) step color n)"

definition intrnl_draw_hline_bgra32 ::
  "NXGI_GRAPHICS_CONTEXT \<Rightarrow> NXGI_BITMAP \<Rightarrow> bytes \<Rightarrow> u32 \<Rightarrow> u32 \<Rightarrow> u32 \<Rightarrow> bytes run" where
  "intrnl_draw_hline_bgra32 gc b bits xa y xb =
     (let (xa, xb) = (if xb < xa then (xb, xa) else (xa, xb)) in
      pixel_run bits (y * bm_stride b + xa * bm_bpp b div 8) 4 (gc_color gc) (unat (xb - xa)))"

definition intrnl_draw_vline_bgra32 ::
  "NXGI_GRAPHICS_CONTEXT \<Rightarrow> NXGI_BITMAP \<Rightarrow> bytes \<Rightarrow> u32 \<Rightarrow> u32 \<Rightarrow> u32 \<Rightarrow> bytes run" where
  "intrnl_draw_vline_bgra32 gc b bits x ya yb =
     (let (ya, yb) = (if yb < ya then (yb, ya) else (ya, yb)) in
      pixel_run bits (ya * bm_stride b + x * bm_bpp b div 8) (bm_stride b) (gc_color gc) (unat (yb - ya)))"

definition intrnl_apply_offset :: "NXGI_GRAPHICS_CONTEXT \<Rightarrow> NXGI_POINT \<Rightarrow> NXGI_POINT" where
  "intrnl_apply_offset gc p = POINT (px p + px (gc_offset gc)) (py p + py (gc_offset gc))"

definition intrnl_transform_point :: "NXGI_GRAPHICS_CONTEXT \<Rightarrow> NXGI_POINT \<Rightarrow> NXGI_POINT" where
  "intrnl_transform_point gc p =
     (let x = px p + px (gc_offset gc); y = py p + py (gc_offset gc); c = gc_clip_rect gc in
      POINT (if x2 c <s x then x2 c else if x <s x1 c then x1 c else x)
            (if y2 c <s y then y2 c else if y <s y1 c then y1 c else y))"

definition intrnl_swap_ints :: "i32 \<Rightarrow> i32 \<Rightarrow> i32 \<times> i32" where
  "intrnl_swap_ints a b = (b, a)"

definition abs32 :: "i32 \<Rightarrow> i32" where
  "abs32 n = (if 0 <s n then n else - n)"

text \<open>Bresenham's loop.\<close>

partial_function (option) line_loop ::
  "NXGI_BITMAP \<Rightarrow> NXGI_COLOR \<Rightarrow> i32 \<Rightarrow> i32 \<Rightarrow> i32 \<Rightarrow> i32 \<Rightarrow> NXGI_POINT \<Rightarrow> NXGI_POINT \<Rightarrow> bytes \<Rightarrow> i32
   \<Rightarrow> bytes run option" where
  "line_loop b color dx sx dy sy p q bits err =
     (case store_color bits (pixel_offset b (px p) (py p)) color of
        Inl h \<Rightarrow> Some (Inl h)
      | Inr bits \<Rightarrow>
          if px p = px q \<and> py p = py q then Some (Inr bits)
          else
            line_loop b color dx sx dy sy
              (POINT (if - dx <s err then px p + sx else px p) (if err <s dy then py p + sy else py p)) q bits
              ((if - dx <s err then err - dy else err) + (if err <s dy then dx else 0)))"


text \<open>Division by two, rounding towards zero as C does.\<close>

definition half32 :: "i32 \<Rightarrow> i32" where
  "half32 v = (if v <s 0 then - ((- v) div 2) else v div 2)"

definition draw_line_bits ::
  "NXGI_GRAPHICS_CONTEXT \<Rightarrow> NXGI_BITMAP \<Rightarrow> bytes \<Rightarrow> u32 \<Rightarrow> u32 \<Rightarrow> u32 \<Rightarrow> u32 \<Rightarrow> bytes run option" where
  "draw_line_bits gc b bits xa ya xb yb =
     (let r = gc_clip_rect gc;
          unoffs_r = nxgig_rect_offset r (POINT (- px (gc_offset gc)) (- py (gc_offset gc))) in
      if \<not> nxgig_line_rect_intersect (POINT xa ya) (POINT xb yb) unoffs_r then Some (Inr bits)
      else
        let p = intrnl_transform_point gc (POINT xa ya); q = intrnl_transform_point gc (POINT xb yb) in
        if px p = px q then Some (intrnl_draw_vline_bgra32 gc b bits (px p) (py p) (py q))
        else if py p = py q then Some (intrnl_draw_hline_bgra32 gc b bits (px p) (py p) (px q))
        else
          let dx = abs32 (px q - px p); sx = (if px p <s px q then 1 else -1);
              dy = abs32 (py q - py p); sy = (if py p <s py q then 1 else -1) in
          line_loop b (gc_color gc) dx sx dy sy p q bits (half32 (if dy <s dx then dx else - dy)))"

definition graphics_draw_line_bgra32 ::
  "u32 \<Rightarrow> u32 \<Rightarrow> u32 \<Rightarrow> u32 \<Rightarrow> u32 \<Rightarrow> nxgi \<Rightarrow> (hresult \<times> nxgi) run option" where
  "graphics_draw_line_bgra32 g xa ya xb yb st =
     bindO (Some (gc_at st g)) (\<lambda>gc.
       if gc_target gc = 0 then Some (Inr (E_INVALIDSTATE, st))
       else bindO (Some (bmp_at st (gc_target gc))) (\<lambda>b.
            bindO (draw_line_bits gc b (bm_bits b) xa ya xb yb) (\<lambda>bits.
              Some (Inr (S_OK, put_bmp (gc_target gc) (b\<lparr>bm_bits := bits\<rparr>) st)))))"

definition graphics_draw_rect_bgra32 :: "u32 \<Rightarrow> NXGI_RECT \<Rightarrow> nxgi \<Rightarrow> (hresult \<times> nxgi) run option" where
  "graphics_draw_rect_bgra32 g rect st =
     bindO (Some (gc_at st g)) (\<lambda>gc.
       if gc_target gc = 0 then Some (Inr (E_INVALIDSTATE, st))
       else if x1 rect = x2 rect \<or> y1 rect = y2 rect then Some (Inr (S_FALSE, st))
       else
         let rect = RECT (x1 rect) (y1 rect) (x2 rect - 1) (y2 rect - 1) in
         if x1 rect = x2 rect \<or> y1 rect = y2 rect then Some (Inr (S_FALSE, st))
         else
           bindO (graphics_draw_line_bgra32 g (x1 rect) (y1 rect) (x2 rect) (y1 rect) st) (\<lambda>(_, st).
           bindO (graphics_draw_line_bgra32 g (x2 rect) (y1 rect) (x2 rect) (y2 rect) st) (\<lambda>(_, st).
           bindO (graphics_draw_line_bgra32 g (x2 rect) (y2 rect) (x1 rect) (y2 rect) st) (\<lambda>(_, st).
           bindO (graphics_draw_line_bgra32 g (x1 rect) (y2 rect) (x1 rect) (y1 rect) st) (\<lambda>(_, st).
             Some (Inr (S_OK, st)))))))"

text \<open>\<^verbatim>\<open>for (y = y1; y < y2; y++) intrnl_draw_hline_bgra32(gc, x1, y, x2)\<close>; the argument \<open>n\<close> counts the
  rows that are left.\<close>

fun fill_loop ::
  "NXGI_GRAPHICS_CONTEXT \<Rightarrow> NXGI_BITMAP \<Rightarrow> bytes \<Rightarrow> u32 \<Rightarrow> u32 \<Rightarrow> i32 \<Rightarrow> nat \<Rightarrow> bytes run" where
  "fill_loop gc b bits xa xb y 0 = Inr bits"
| "fill_loop gc b bits xa xb y (Suc n) =
     bindR (intrnl_draw_hline_bgra32 gc b bits xa y xb) (\<lambda>bits. fill_loop gc b bits xa xb (y + 1) n)"

definition fill_rect_bits ::
  "NXGI_GRAPHICS_CONTEXT \<Rightarrow> NXGI_BITMAP \<Rightarrow> NXGI_RECT \<Rightarrow> (hresult \<times> bytes) run" where
  "fill_rect_bits gc b rect =
     (let p = intrnl_transform_point gc (p1 rect); q = intrnl_transform_point gc (p2 rect) in
      if px p = px q \<or> py p = py q then Inr (S_FALSE, bm_bits b)
      else
        let (ya, yb) = (if py q <s py p then intrnl_swap_ints (py p) (py q) else (py p, py q)) in
        bindR (fill_loop gc b (bm_bits b) (px p) (px q) ya (nat (sint yb - sint ya)))
          (\<lambda>bits. Inr (S_OK, bits)))"

definition graphics_fill_rect_bgra32 :: "u32 \<Rightarrow> NXGI_RECT \<Rightarrow> nxgi \<Rightarrow> (hresult \<times> nxgi) run" where
  "graphics_fill_rect_bgra32 g rect st = with_target g st (\<lambda>gc b. fill_rect_bits gc b rect)"

section \<open>Copying\<close>

definition graphics_stretchblt_bgra32 :: "u32 \<Rightarrow> NXGI_RECT \<Rightarrow> u32 \<Rightarrow> NXGI_RECT \<Rightarrow> nxgi \<Rightarrow> (hresult \<times> nxgi) run" where
  "graphics_stretchblt_bgra32 g dst_rect pSrcBitmap src_rect st = Inr (E_NOTIMPL, st)"

definition graphics_alphablend_bgra32 :: "u32 \<Rightarrow> NXGI_POINT \<Rightarrow> u32 \<Rightarrow> NXGI_RECT \<Rightarrow> nxgi \<Rightarrow> (hresult \<times> nxgi) run" where
  "graphics_alphablend_bgra32 g dst_pos pSrcBitmap src_rect st = Inr (E_NOTIMPL, st)"

text \<open>\<^verbatim>\<open>memcpy\<close> copies byte by byte, upwards. Source and target may be the same bitmap, so the source is
  read from the store each time.\<close>

fun copy_bytes :: "u32 \<Rightarrow> u32 \<Rightarrow> u32 \<Rightarrow> u32 \<Rightarrow> nat \<Rightarrow> nxgi \<Rightarrow> nxgi run" where
  "copy_bytes d doff s soff 0 st = Inr st"
| "copy_bytes d doff s soff (Suc n) st =
     bindR (bmp_at st s) (\<lambda>sb.
     bindR (guardR (unat soff < length (bm_bits sb)) BadAccess) (\<lambda>_.
     bindR (bmp_at st d) (\<lambda>db.
     bindR (guardR (unat doff < length (bm_bits db)) BadAccess) (\<lambda>_.
       copy_bytes d (doff + 1) s (soff + 1) n
         (put_bmp d (db\<lparr>bm_bits := (bm_bits db)[unat doff := bm_bits sb ! unat soff]\<rparr>) st)))))"

text \<open>The loop over the rows; \<open>n\<close> rows are left, from row \<open>j\<close> on.\<close>

fun blit_loop :: "u32 \<Rightarrow> NXGI_BITMAP \<Rightarrow> u32 \<Rightarrow> NXGI_BITMAP \<Rightarrow> NXGI_RECT \<Rightarrow> NXGI_RECT \<Rightarrow> NXGI_POINT \<Rightarrow> u32 \<Rightarrow> u32 \<Rightarrow> u32
    \<Rightarrow> i32 \<Rightarrow> nat \<Rightarrow> nxgi \<Rightarrow> nxgi run" where
  "blit_loop d db s sb clipped src_rect clip_offset line_size horiz_offs src_horiz_offs j 0 st = Inr st"
| "blit_loop d db s sb clipped src_rect clip_offset line_size horiz_offs src_horiz_offs j (Suc n) st =
     bindR (copy_bytes d ((y1 clipped + j) * bm_stride db + horiz_offs)
              s ((y1 src_rect + py clip_offset + j) * bm_stride sb + src_horiz_offs) (unat line_size) st)
       (blit_loop d db s sb clipped src_rect clip_offset line_size horiz_offs src_horiz_offs (j + 1) n)"

definition blit_rects :: "NXGI_GRAPHICS_CONTEXT \<Rightarrow> NXGI_POINT \<Rightarrow> NXGI_RECT \<Rightarrow> NXGI_RECT \<times> NXGI_RECT" where
  "blit_rects gc dst_pos src_rect =
     (let dst_rect = \<lparr>p1 = dst_pos, p2 = POINT (px dst_pos + RECT_WIDTH src_rect) (py dst_pos + RECT_HEIGHT src_rect)\<rparr> in
      (\<lparr>p1 = intrnl_apply_offset gc (p1 dst_rect), p2 = intrnl_apply_offset gc (p2 dst_rect)\<rparr>,
       \<lparr>p1 = intrnl_transform_point gc (p1 dst_rect), p2 = intrnl_transform_point gc (p2 dst_rect)\<rparr>))"

definition graphics_bitblt_bgra32 ::
  "u32 \<Rightarrow> NXGI_POINT \<Rightarrow> u32 \<Rightarrow> NXGI_RECT \<Rightarrow> nxgi \<Rightarrow> (hresult \<times> nxgi) run" where
  "graphics_bitblt_bgra32 g dst_pos pSrcBitmap src_rect st =
     bindR (gc_at st g) (\<lambda>gc.
       if gc_target gc = 0 then Inr (E_INVALIDSTATE, st)
       else
         bindR (bmp_at st pSrcBitmap) (\<lambda>sb.
         bindR (bmp_at st (gc_target gc)) (\<lambda>db.
           if bm_format sb \<noteq> bm_format db then Inr (E_NOTIMPL, st)
           else if \<not> nxgig_rect_contains_rect src_rect (RECT 0 0 (bm_width sb) (bm_height sb)) then Inr (E_INVALIDARG, st)
           else
             let (dst_rect, clipped) = blit_rects gc dst_pos src_rect;
                 clip_offset = POINT (x1 clipped - x1 dst_rect) (y1 clipped - y1 dst_rect) in
             if x1 dst_rect = x2 dst_rect \<or> y1 dst_rect = y2 dst_rect then Inr (S_FALSE, st)
             else
               bindR (blit_loop (gc_target gc) db pSrcBitmap sb clipped src_rect clip_offset
                        (RECT_WIDTH clipped * bm_bpp sb div 8) (x1 clipped * bm_bpp db div 8)
                        ((x1 src_rect + px clip_offset) * bm_bpp db div 8) 0 (nat (sint (RECT_HEIGHT clipped))) st)
                 (\<lambda>st. Inr (S_OK, st)))))"

section \<open>Text\<close>

definition intrnl_get_char_size :: "NXGI_GRAPHICS_CONTEXT \<Rightarrow> u8 \<Rightarrow> NXGI_SIZE" where
  "intrnl_get_char_size gc c = (if fn_size (gc_font gc) \<noteq> 1 then SIZE 0 0 else SIZE SYS_FONT_WIDTH SYS_FONT_HEIGHT)"

text \<open>A text is the list of its characters. The width counts up from 0.\<close>

definition text_size_of :: "NXGI_GRAPHICS_CONTEXT \<Rightarrow> bytes \<Rightarrow> NXGI_SIZE" where
  "text_size_of gc txt =
     SIZE (fold (\<lambda>_ w. w + 1) txt 0 * sz_width (intrnl_get_char_size gc 32))
          (sz_height (intrnl_get_char_size gc 32))"

definition graphics_text_size :: "u32 \<Rightarrow> bytes \<Rightarrow> nxgi \<Rightarrow> (hresult \<times> NXGI_SIZE) run" where
  "graphics_text_size g txt st = bindR (gc_at st g) (\<lambda>gc. Inr (S_OK, text_size_of gc txt))"

text \<open>One row of a glyph: bit \<open>i\<close> is drawn at column \<open>8 - i\<close>. A glyph is a signed \<^verbatim>\<open>char\<close>, so the shift keeps
  its sign. \<open>n\<close> bits are left.\<close>

fun glyph_row :: "NXGI_COLOR \<Rightarrow> u32 \<Rightarrow> u8 \<Rightarrow> nat \<Rightarrow> nat \<Rightarrow> bytes \<Rightarrow> bytes run" where
  "glyph_row color pix_ptr glyph i 0 bits = Inr bits"
| "glyph_row color pix_ptr glyph i (Suc n) bits =
     (let glyph_offs = signed_drop_bit i glyph in
      bindR (if glyph_offs AND 1 \<noteq> 0 then store_color bits (pix_ptr + 4 * (8 - of_nat i)) color else Inr bits)
        (\<lambda>bits. if glyph_offs \<le>s 1 then Inr bits else glyph_row color pix_ptr glyph (Suc i) n bits))"

fun char_rows :: "NXGI_BITMAP \<Rightarrow> NXGI_COLOR \<Rightarrow> u32 \<Rightarrow> u32 \<Rightarrow> u8 \<Rightarrow> nat \<Rightarrow> nat \<Rightarrow> bytes \<Rightarrow> bytes run" where
  "char_rows b color x y c j 0 bits = Inr bits"
| "char_rows b color x y c j (Suc n) bits =
     (let glyph = sys_font ! unat c ! j in
      bindR (if glyph = 0 then Inr bits
             else glyph_row color (x * bm_bpp b div 8 + (y + of_nat j) * bm_stride b) glyph 0 8 bits)
        (char_rows b color x y c (Suc j) n))"

definition intrnl_draw_char_bgra32 ::
  "NXGI_BITMAP \<Rightarrow> bytes \<Rightarrow> u32 \<Rightarrow> u32 \<Rightarrow> NXGI_FONT \<Rightarrow> u8 \<Rightarrow> bytes run" where
  "intrnl_draw_char_bgra32 b bits x y font c =
     (if c <s 0 then Inr bits else char_rows b (fn_color font) x y c 0 8 bits)"

text \<open>The same with a test of each pixel against the clipped cell. A column that is skipped does not end
  the row.\<close>

fun glyph_row_segment :: "NXGI_COLOR \<Rightarrow> NXGI_RECT \<Rightarrow> u32 \<Rightarrow> u32 \<Rightarrow> u8 \<Rightarrow> nat \<Rightarrow> nat \<Rightarrow> bytes \<Rightarrow> bytes run" where
  "glyph_row_segment color clip_rect x pix_ptr glyph i 0 bits = Inr bits"
| "glyph_row_segment color clip_rect x pix_ptr glyph i (Suc n) bits =
     (let lx = x + 8 - of_nat i in
      if lx <s x1 clip_rect \<or> x2 clip_rect <s lx then glyph_row_segment color clip_rect x pix_ptr glyph (Suc i) n bits
      else
        let glyph_offs = signed_drop_bit i glyph in
        bindR (if glyph_offs AND 1 \<noteq> 0 then store_color bits (pix_ptr + 4 * (8 - of_nat i)) color else Inr bits)
          (\<lambda>bits. if glyph_offs \<le>s 1 then Inr bits
                  else glyph_row_segment color clip_rect x pix_ptr glyph (Suc i) n bits))"

fun char_rows_segment ::
  "NXGI_BITMAP \<Rightarrow> NXGI_COLOR \<Rightarrow> u32 \<Rightarrow> u32 \<Rightarrow> NXGI_RECT \<Rightarrow> u8 \<Rightarrow> nat \<Rightarrow> nat \<Rightarrow> bytes \<Rightarrow> bytes run" where
  "char_rows_segment b color x y clip_rect c j 0 bits = Inr bits"
| "char_rows_segment b color x y clip_rect c j (Suc n) bits =
     (let ly = y + of_nat j; glyph = sys_font ! unat c ! j in
      bindR (if ly <s y1 clip_rect \<or> y2 clip_rect <s ly \<or> glyph = 0 then Inr bits
             else glyph_row_segment color clip_rect x (x * bm_bpp b div 8 + (y + of_nat j) * bm_stride b) glyph 0 8 bits)
        (char_rows_segment b color x y clip_rect c (Suc j) n))"

definition intrnl_draw_char_segment_bgra32 ::
  "NXGI_BITMAP \<Rightarrow> bytes \<Rightarrow> u32 \<Rightarrow> u32 \<Rightarrow> NXGI_RECT \<Rightarrow> NXGI_FONT \<Rightarrow> u8 \<Rightarrow> bytes run" where
  "intrnl_draw_char_segment_bgra32 b bits x y clip_rect font c =
     (if c <s 0 then Inr bits else char_rows_segment b (fn_color font) x y clip_rect c 0 8 bits)"

fun draw_text_loop ::
  "NXGI_GRAPHICS_CONTEXT \<Rightarrow> NXGI_BITMAP \<Rightarrow> NXGI_POINT \<Rightarrow> u32 \<Rightarrow> bytes \<Rightarrow> bytes \<Rightarrow> bytes run" where
  "draw_text_loop gc b pos draw_cntr [] bits = Inr bits"
| "draw_text_loop gc b pos draw_cntr (c # cs) bits =
     (let char_size = intrnl_get_char_size gc c;
          ca = intrnl_transform_point gc pos;
          cb = intrnl_transform_point gc (POINT (px pos + sz_width char_size) (py pos + sz_height char_size));
          w = px cb - px ca; h = py cb - py ca;
          pos' = POINT (px pos + sz_width char_size) (py pos) in
      if sz_width char_size \<le>s w \<and> sz_height char_size \<le>s h then
        bindR (intrnl_draw_char_bgra32 b bits (px ca) (py ca) (gc_font gc) c)
          (draw_text_loop gc b pos' (draw_cntr + 1) cs)
      else if 0 <s w \<and> 0 <s h then
        bindR (intrnl_draw_char_segment_bgra32 b bits (px pos + px (gc_offset gc)) (py pos + py (gc_offset gc))
                 \<lparr>p1 = ca, p2 = cb\<rparr> (gc_font gc) c)
          (draw_text_loop gc b pos' (draw_cntr + 1) cs)
      else if 0 < draw_cntr then Inr bits
      else draw_text_loop gc b pos' draw_cntr cs bits)"

definition graphics_draw_text_bgra32 :: "u32 \<Rightarrow> NXGI_POINT \<Rightarrow> bytes \<Rightarrow> nxgi \<Rightarrow> (hresult \<times> nxgi) run" where
  "graphics_draw_text_bgra32 g pos txt st =
     with_target g st (\<lambda>gc b.
       let size_of = text_size_of gc txt;
           pa = intrnl_transform_point gc pos;
           pb = intrnl_transform_point gc (POINT (px pos + sz_width size_of) (py pos + sz_height size_of)) in
       if px pb - px pa = 0 \<or> py pb - py pa = 0 then Inr (S_OK, bm_bits b)
       else bindR (draw_text_loop gc b pos 0 txt (bm_bits b)) (\<lambda>bits. Inr (S_OK, bits)))"

section \<open>Life cycle\<close>

definition empty_gc :: NXGI_GRAPHICS_CONTEXT where
  "empty_gc = \<lparr>gc_ops = False, gc_target = 0,
     gc_font = \<lparr>fn_name = [], fn_size = 0, fn_style = 0, fn_color = COLOR 0 0 0 0, fn_reserved = 0\<rparr>,
     gc_offset = POINT 0 0, gc_color = COLOR 0 0 0 0, gc_clip_rect = RECT 0 0 0 0\<rparr>"

text \<open>\<open>ptr\<close> is what \<^verbatim>\<open>kcalloc\<close> returns.\<close>

definition graphics_create_context :: "u32 \<Rightarrow> nxgi \<Rightarrow> (hresult \<times> u32 \<times> nxgi) run" where
  "graphics_create_context ptr st =
     (if ptr = 0 then Inr (E_OUTOFMEM, 0, st)
      else
        let default_font = \<lparr>fn_name = ''System'', fn_size = 1, fn_style = 0, fn_color = COLOR 255 255 255 255, fn_reserved = 0\<rparr> in
        bindR (graphics_set_font ptr default_font (put_gc ptr empty_gc st)) (\<lambda>(_, st). Inr (S_OK, ptr, st)))"

definition graphics_destroy_context :: "u32 \<Rightarrow> nxgi \<Rightarrow> nxgi run" where
  "graphics_destroy_context g st =
     bindR (graphics_set_target g 0 st) (\<lambda>(_, st). Inr (st\<lparr>gcs := (gcs st)(g := None)\<rparr>))"

definition nxgi_format_to_bpp :: "NXGI_FORMAT \<Rightarrow> u32" where
  "nxgi_format_to_bpp fmt = (case fmt of NXGI_FORMAT_BGRA32 \<Rightarrow> 32 | NXGI_FORMAT_RGBA32 \<Rightarrow> 32)"

text \<open>\<open>bptr\<close> and \<open>bits\<close> are what the two allocations return; the bits hold at least the bytes asked for, and
  those are what the bitmap may use. The place for the result is not null.\<close>

definition nxgi_create_bitmap ::
  "u32 \<Rightarrow> u32 \<Rightarrow> NXGI_FORMAT \<Rightarrow> u32 \<Rightarrow> (u32 \<Rightarrow> bytes option) \<Rightarrow> nxgi \<Rightarrow> hresult \<times> u32 \<times> nxgi" where
  "nxgi_create_bitmap width height format bptr kmalloc st =
     (if width = 0 \<or> height = 0 \<or> nxgi_format_to_bpp format = 0 then (E_INVALIDARG, 0, st)
      else if bptr = 0 then (E_OUTOFMEM, 0, st)
      else
        let stride = width * nxgi_format_to_bpp format div 8 in
        case kmalloc (stride * height) of
          None \<Rightarrow> (E_OUTOFMEM, 0, st)
        | Some bits \<Rightarrow>
            (S_OK, bptr, put_bmp bptr
               \<lparr>bm_width = width, bm_stride = stride, bm_height = height, bm_bpp = nxgi_format_to_bpp format,
                bm_format = format, bm_refs = 0, bm_tag = NXGI_BITMAP_TAG_DEFAULT, bm_bits = bits,
                bm_destroy = nxgi_destroy_bitmap_fn\<rparr> st))"

definition nxgi_destroy_bitmap_impl :: "u32 \<Rightarrow> nxgi \<Rightarrow> hresult \<times> u32 \<times> nxgi" where
  "nxgi_destroy_bitmap_impl p st = (S_OK, 0, st\<lparr>bmps := (bmps st)(p := None)\<rparr>)"

definition nxgi_destroy_screensurf_impl :: "u32 \<Rightarrow> nxgi \<Rightarrow> hresult \<times> u32 \<times> nxgi" where
  "nxgi_destroy_screensurf_impl p st = (S_OK, 0, st)"

definition nxgi_destroy_bitmap :: "u32 \<Rightarrow> nxgi \<Rightarrow> (hresult \<times> u32 \<times> nxgi) run" where
  "nxgi_destroy_bitmap p st =
     bindR (bmp_at st p) (\<lambda>b.
       Inr (case bm_destroy b of
              nxgi_destroy_bitmap_fn \<Rightarrow> nxgi_destroy_bitmap_impl p st
            | nxgi_destroy_screensurf_fn \<Rightarrow> nxgi_destroy_screensurf_impl p st))"

section \<open>Dispatch\<close>

text \<open>The drawing methods of a context are null until a target with a supported format is set; calling
  them then executes address 0.\<close>

definition drawing_op :: "u32 \<Rightarrow> nxgi \<Rightarrow> 'a run \<Rightarrow> 'a run" where
  "drawing_op g st r = bindR (gc_at st g) (\<lambda>gc. if gc_ops gc then r else Inl BadAccess)"

definition nxgi_draw_line :: "u32 \<Rightarrow> u32 \<Rightarrow> u32 \<Rightarrow> u32 \<Rightarrow> u32 \<Rightarrow> nxgi \<Rightarrow> (hresult \<times> nxgi) run option" where
  "nxgi_draw_line g xa ya xb yb st =
     bindO (Some (drawing_op g st (Inr ()))) (\<lambda>_. graphics_draw_line_bgra32 g xa ya xb yb st)"

definition nxgi_draw_rect :: "u32 \<Rightarrow> NXGI_RECT \<Rightarrow> nxgi \<Rightarrow> (hresult \<times> nxgi) run option" where
  "nxgi_draw_rect g rect st = bindO (Some (drawing_op g st (Inr ()))) (\<lambda>_. graphics_draw_rect_bgra32 g rect st)"

definition nxgi_fill_rect :: "u32 \<Rightarrow> NXGI_RECT \<Rightarrow> nxgi \<Rightarrow> (hresult \<times> nxgi) run" where
  "nxgi_fill_rect g rect st = drawing_op g st (graphics_fill_rect_bgra32 g rect st)"

definition nxgi_bitblt :: "u32 \<Rightarrow> NXGI_POINT \<Rightarrow> u32 \<Rightarrow> NXGI_RECT \<Rightarrow> nxgi \<Rightarrow> (hresult \<times> nxgi) run" where
  "nxgi_bitblt g dst_pos pSrcBitmap src_rect st = drawing_op g st (graphics_bitblt_bgra32 g dst_pos pSrcBitmap src_rect st)"

definition nxgi_stretchblt :: "u32 \<Rightarrow> NXGI_RECT \<Rightarrow> u32 \<Rightarrow> NXGI_RECT \<Rightarrow> nxgi \<Rightarrow> (hresult \<times> nxgi) run" where
  "nxgi_stretchblt g dst_rect pSrcBitmap src_rect st = drawing_op g st (graphics_stretchblt_bgra32 g dst_rect pSrcBitmap src_rect st)"

definition nxgi_alphablend :: "u32 \<Rightarrow> NXGI_POINT \<Rightarrow> u32 \<Rightarrow> NXGI_RECT \<Rightarrow> nxgi \<Rightarrow> (hresult \<times> nxgi) run" where
  "nxgi_alphablend g dst_pos pSrcBitmap src_rect st = drawing_op g st (graphics_alphablend_bgra32 g dst_pos pSrcBitmap src_rect st)"

definition nxgi_draw_text :: "u32 \<Rightarrow> NXGI_POINT \<Rightarrow> bytes \<Rightarrow> nxgi \<Rightarrow> (hresult \<times> nxgi) run" where
  "nxgi_draw_text g pos txt st = drawing_op g st (graphics_draw_text_bgra32 g pos txt st)"

text \<open>The methods that \<^verbatim>\<open>graphics_create_context\<close> sets are there from the start.\<close>

definition nxgi_set_target :: "u32 \<Rightarrow> u32 \<Rightarrow> nxgi \<Rightarrow> (hresult \<times> nxgi) run" where
  "nxgi_set_target g pTarget st = graphics_set_target g pTarget st"

definition nxgi_get_target :: "u32 \<Rightarrow> nxgi \<Rightarrow> (hresult \<times> u32) run" where
  "nxgi_get_target g st = graphics_get_target g st"

definition nxgi_set_color :: "u32 \<Rightarrow> NXGI_COLOR \<Rightarrow> nxgi \<Rightarrow> (hresult \<times> nxgi) run" where
  "nxgi_set_color g color st = graphics_set_color g color st"

definition nxgi_get_color :: "u32 \<Rightarrow> nxgi \<Rightarrow> (hresult \<times> NXGI_COLOR) run" where
  "nxgi_get_color g st = graphics_get_color g st"

definition nxgi_set_offset :: "u32 \<Rightarrow> NXGI_POINT \<Rightarrow> nxgi \<Rightarrow> (hresult \<times> nxgi) run" where
  "nxgi_set_offset g offset st = graphics_set_offset g offset st"

definition nxgi_get_offset :: "u32 \<Rightarrow> nxgi \<Rightarrow> (hresult \<times> NXGI_POINT) run" where
  "nxgi_get_offset g st = graphics_get_offset g st"

definition nxgi_set_clip_rect :: "u32 \<Rightarrow> NXGI_RECT \<Rightarrow> nxgi \<Rightarrow> (hresult \<times> nxgi) run" where
  "nxgi_set_clip_rect g r st = graphics_set_clip_rect g r st"

definition nxgi_get_clip_rect :: "u32 \<Rightarrow> nxgi \<Rightarrow> (hresult \<times> NXGI_RECT) run" where
  "nxgi_get_clip_rect g st = graphics_get_clip_rect g st"

definition nxgi_text_size :: "u32 \<Rightarrow> bytes \<Rightarrow> nxgi \<Rightarrow> (hresult \<times> NXGI_SIZE) run" where
  "nxgi_text_size g txt st = graphics_text_size g txt st"

definition nxgi_set_font :: "u32 \<Rightarrow> NXGI_FONT \<Rightarrow> nxgi \<Rightarrow> (hresult \<times> nxgi) run" where
  "nxgi_set_font g font_params st = graphics_set_font g font_params st"

definition nxgi_get_font :: "u32 \<Rightarrow> nxgi \<Rightarrow> (hresult \<times> NXGI_FONT) run" where
  "nxgi_get_font g st = graphics_get_font g st"

definition nxgi_create_graphics_context :: "u32 \<Rightarrow> nxgi \<Rightarrow> (hresult \<times> u32 \<times> nxgi) run" where
  "nxgi_create_graphics_context ptr st = graphics_create_context ptr st"

definition nxgi_destroy_graphics_context :: "u32 \<Rightarrow> nxgi \<Rightarrow> nxgi run" where
  "nxgi_destroy_graphics_context g st = graphics_destroy_context g st"

definition nxgi_get_screen :: "nxgi \<Rightarrow> hresult \<times> u32" where
  "nxgi_get_screen st = (S_OK, screen_surf st)"

definition nxgi_internal_format :: "nxgi \<Rightarrow> NXGI_FORMAT run" where
  "nxgi_internal_format st = bindR (bmp_at st (screen_surf st)) (\<lambda>b. Inr (bm_format b))"

datatype NXGI_HALIGN = NXGI_HALIGN_LEFT | NXGI_HALIGN_CENTER | NXGI_HALIGN_RIGHT
datatype NXGI_VALIGN = NXGI_VALIGN_TOP | NXGI_VALIGN_MIDDLE | NXGI_VALIGN_BOTTOM

definition nxgi_draw_aligned_text ::
  "u32 \<Rightarrow> NXGI_RECT \<Rightarrow> NXGI_HALIGN \<Rightarrow> NXGI_VALIGN \<Rightarrow> bytes \<Rightarrow> nxgi \<Rightarrow> (hresult \<times> nxgi) run" where
  "nxgi_draw_aligned_text g box halign valign txt st =
     bindR (nxgi_text_size g txt st) (\<lambda>(hr, sz).
       if FAILED hr then Inr (hr, st)
       else
         let x = (case halign of
                    NXGI_HALIGN_LEFT \<Rightarrow> x1 box
                  | NXGI_HALIGN_CENTER \<Rightarrow> x1 box + half32 (RECT_WIDTH box - sz_width sz)
                  | NXGI_HALIGN_RIGHT \<Rightarrow> x2 box - sz_width sz);
             y = (case valign of
                    NXGI_VALIGN_TOP \<Rightarrow> y1 box
                  | NXGI_VALIGN_MIDDLE \<Rightarrow> y1 box + half32 (RECT_HEIGHT box - sz_height sz)
                  | NXGI_VALIGN_BOTTOM \<Rightarrow> y2 box - sz_height sz) in
         nxgi_draw_text g (POINT x y) txt st)"

section \<open>The screen\<close>

text \<open>The video driver, a parameter: opening it, its interface as \<^verbatim>\<open>k_ioctl\<close> gives it, setting and reading the
  mode, and locking the frame buffer.\<close>

record video_mode =
  vm_width :: u32
  vm_height :: u32
  vm_bpp :: u32
  vm_format :: NXGI_FORMAT

record video_iface =
  vi_set_mode :: "u32 \<Rightarrow> u32 \<Rightarrow> NXGI_FORMAT \<Rightarrow> hresult"
  vi_get_mode :: video_mode
  vi_lock_fb :: "hresult \<times> bytes \<times> u32"

definition get_graphics_iface :: "hresult \<times> video_iface \<Rightarrow> video_iface option" where
  "get_graphics_iface ioctl = (if FAILED (fst ioctl) then None else Some (snd ioctl))"

definition nxgi_make_screen :: "video_iface \<Rightarrow> u32 \<Rightarrow> nxgi \<Rightarrow> hresult \<times> nxgi" where
  "nxgi_make_screen vi ptr st =
     (if ptr = 0 then (E_OUTOFMEM, st\<lparr>graphics_drv := 0\<rparr>)
      else case vi_lock_fb vi of (hr, fb, stride) \<Rightarrow>
        if FAILED hr then (hr, st\<lparr>graphics_drv := 0\<rparr>)
        else
          let m = vi_get_mode vi in
          (S_OK, (put_bmp ptr
             \<lparr>bm_width = vm_width m, bm_stride = stride, bm_height = vm_height m, bm_bpp = vm_bpp m,
              bm_format = vm_format m, bm_refs = 0, bm_tag = NXGI_BITMAP_TAG_SCREEN_SURFACE, bm_bits = fb,
              bm_destroy = nxgi_destroy_screensurf_fn\<rparr> st)\<lparr>screen_surf := ptr\<rparr>))"

definition nxgi_init ::
  "hresult \<times> u32 \<Rightarrow> hresult \<times> video_iface \<Rightarrow> u32 \<Rightarrow> u32 \<Rightarrow> u32 \<Rightarrow> NXGI_FORMAT \<Rightarrow> nxgi \<Rightarrow> (hresult \<times> nxgi) run" where
  "nxgi_init fopen ioctl ptr xres yres fmt st =
     (case fopen of (hr, drv) \<Rightarrow>
        if FAILED hr then Inr (S_OK, st)
        else
          let st = st\<lparr>graphics_drv := drv\<rparr> in
          case get_graphics_iface ioctl of
            None \<Rightarrow> Inl BadAccess
          | Some vi \<Rightarrow>
              if FAILED (vi_set_mode vi xres yres fmt) then Inr (S_OK, st)
              else Inr (nxgi_make_screen vi ptr st))"

definition nxgi_fini :: "hresult \<times> video_iface \<Rightarrow> nxgi \<Rightarrow> (hresult \<times> nxgi) run" where
  "nxgi_fini ioctl st =
     (if graphics_drv st \<noteq> 0 \<and> get_graphics_iface ioctl = None then Inl BadAccess
      else
        let st = (if screen_surf st \<noteq> 0 then st\<lparr>bmps := (bmps st)(screen_surf st := None), screen_surf := 0\<rparr> else st);
            st = (if graphics_drv st \<noteq> 0 then st\<lparr>graphics_drv := 0\<rparr> else st) in
        Inr (S_OK, st))"

end
