(* ===== verification/Drawing.thy ===== *)
theory Drawing
  imports Graphics
begin

text \<open>
  What the drawing operations of \<open>Graphics\<close> do to the pixels: filling sets exactly the pixels of the
  rectangle inside the clip rectangle, and never leaves the bitmap.
\<close>

section \<open>Pixels as cells\<close>

definition cell :: "bytes \<Rightarrow> nat \<Rightarrow> NXGI_COLOR" where
  "cell bits i = bytes_color (buf_get bits (4 * i) 4)"

lemma bytes_color_bytes [simp]: "bytes_color (color_bytes c) = c"
  by (simp add: bytes_color_def color_bytes_def numeral_eq_Suc)

lemma length_color_bytes [simp]: "length (color_bytes c) = 4"
  by (simp add: color_bytes_def)

lemma cell_put:
  assumes i: "4 * i + 4 \<le> length bits" and k: "4 * k + 4 \<le> length bits"
  shows "cell (buf_put bits (4 * i) (color_bytes c)) k = (if k = i then c else cell bits k)"
proof (cases "k = i")
  case True
  then show ?thesis
    using buf_get_put_same [of "4 * i" "color_bytes c" bits] i by (simp add: cell_def)
next
  case False
  have "buf_get (buf_put bits (4 * i) (color_bytes c)) (4 * k) 4 = buf_get bits (4 * k) 4"
  proof (rule nth_equalityI)
    fix j assume "j < length (buf_get (buf_put bits (4 * i) (color_bytes c)) (4 * k) 4)"
    then have j: "j < 4" using i k by simp
    have "\<not> (4 * i \<le> 4 * k + j \<and> 4 * k + j < 4 * i + 4)" using False j by linarith
    then show "buf_get (buf_put bits (4 * i) (color_bytes c)) (4 * k) 4 ! j = buf_get bits (4 * k) 4 ! j"
      using i k j by (auto simp: nth_buf_get nth_buf_put)
  qed (use i k in simp)
  then show ?thesis using False by (simp add: cell_def)
qed

lemma store_color_cell:
  assumes "unat off = 4 * i" and "4 * i + 4 \<le> length bits"
  shows "store_color bits off c = Inr (buf_put bits (4 * i) (color_bytes c))"
  using assms by (simp add: store_color_def)

text \<open>A run of stores paints the cells \<open>i\<close>, \<open>i + s\<close>, \<open>i + 2 s\<close>, \<dots>.\<close>

definition painted :: "bytes \<Rightarrow> (nat \<Rightarrow> bool) \<Rightarrow> NXGI_COLOR \<Rightarrow> bytes \<Rightarrow> bool" where
  "painted bits P c bits' \<longleftrightarrow> length bits' = length bits \<and>
     (\<forall>k. 4 * k + 4 \<le> length bits \<longrightarrow> cell bits' k = (if P k then c else cell bits k))"

lemma painted_refl: "painted bits (\<lambda>_. False) c bits"
  by (simp add: painted_def)

lemma painted_trans:
  "painted a P c b \<Longrightarrow> painted b Q c d \<Longrightarrow> painted a (\<lambda>k. P k \<or> Q k) c d"
  by (auto simp: painted_def)

lemma painted_cong: "painted a P c b \<Longrightarrow> (\<And>k. 4 * k + 4 \<le> length a \<Longrightarrow> P k = Q k) \<Longrightarrow> painted a Q c b"
  by (auto simp: painted_def)

lemma painted_length: "painted a P c b \<Longrightarrow> length b = length a"
  by (simp add: painted_def)

lemma store_painted:
  assumes "unat off = 4 * i" and "4 * i + 4 \<le> length bits"
  shows "\<exists>bits'. store_color bits off c = Inr bits' \<and> painted bits (\<lambda>k. k = i) c bits'"
  using assms by (auto simp: store_color_cell painted_def cell_put)

lemma pixel_run_paints:
  assumes "unat off = 4 * i" and "unat step = 4 * s" and "n = 0 \<or> 4 * (i + s * (n - 1)) + 4 \<le> length bits"
    and "length bits < 2 ^ 32"
  shows "\<exists>bits'. pixel_run bits off step c n = Inr bits' \<and> painted bits (\<lambda>k. \<exists>m < n. k = i + s * m) c bits'"
  using assms
proof (induction n arbitrary: bits off i)
  case 0
  then show ?case by (simp add: painted_refl)
next
  case (Suc n)
  have i: "4 * i + 4 \<le> length bits" using Suc.prems(3) by (simp add: algebra_simps)
  obtain b1 where b1: "store_color bits off c = Inr b1" "painted bits (\<lambda>k. k = i) c b1"
    using store_painted [OF Suc.prems(1) i] by blast
  have "\<exists>bits'. pixel_run b1 (off + step) step c n = Inr bits' \<and>
      painted b1 (\<lambda>k. \<exists>m < n. k = i + s + s * m) c bits'"
  proof (cases n)
    case 0
    then show ?thesis by (simp add: painted_refl)
  next
    case (Suc n')
    have le: "4 * (i + s * n) + 4 \<le> length bits" using Suc.prems(3) by simp
    then have "4 * i + 4 * s + 4 \<le> length bits" using Suc by (simp add: algebra_simps)
    then have "unat (off + step) = 4 * (i + s)"
      using Suc.prems(1,2,4) by (subst unat_add_small) simp_all
    then show ?thesis
      using Suc.IH [of "off + step" "i + s" b1] Suc.prems(2,4) le \<open>n = Suc n'\<close> painted_length [OF b1(2)]
      by (simp add: algebra_simps)
  qed
  then obtain b2 where b2: "pixel_run b1 (off + step) step c n = Inr b2"
    "painted b1 (\<lambda>k. \<exists>m < n. k = i + s + s * m) c b2" by blast
  have "painted bits (\<lambda>k. \<exists>m < Suc n. k = i + s * m) c b2"
  proof (rule painted_cong [OF painted_trans [OF b1(2) b2(2)]])
    fix k
    show "(k = i \<or> (\<exists>m<n. k = i + s + s * m)) = (\<exists>m<Suc n. k = i + s * m)"
      by (auto simp: less_Suc_eq_0_disj)
  qed
  then show ?case using b1(1) b2(1) by simp
qed

section \<open>Bitmaps\<close>

text \<open>A bitmap of 32-bit pixels without padding, of at most \<open>2\<^sup>1\<^sup>4\<close> pixels per side: what
  \<^verbatim>\<open>nxgi_create_bitmap\<close> makes.\<close>

definition bmp_ok :: "NXGI_BITMAP \<Rightarrow> bool" where
  "bmp_ok b \<longleftrightarrow> bm_bpp b = 32 \<and> unat (bm_stride b) = 4 * unat (bm_width b) \<and>
     unat (bm_width b) < 2 ^ 14 \<and> unat (bm_height b) < 2 ^ 14 \<and>
     length (bm_bits b) = 4 * (unat (bm_width b) * unat (bm_height b))"

definition pixel :: "NXGI_BITMAP \<Rightarrow> nat \<Rightarrow> nat \<Rightarrow> NXGI_COLOR" where
  "pixel b x y = cell (bm_bits b) (y * unat (bm_width b) + x)"

lemma unat_mult_small: "unat (a :: u32) * unat b < 2 ^ 32 \<Longrightarrow> unat (a * b) = unat a * unat b"
  by (simp add: unat_word_ariths)

lemma unat_div_8: "unat ((a :: u32) div 8) = unat a div 8"
  by (simp add: unat_div)

lemma side_product:
  assumes "bmp_ok b" and "y < unat (bm_height b)" and "x \<le> unat (bm_width b)"
  shows "y * unat (bm_width b) + x \<le> unat (bm_width b) * unat (bm_height b)"
    and "unat (bm_width b) * unat (bm_height b) < 2 ^ 28"
proof -
  have "Suc y * unat (bm_width b) \<le> unat (bm_height b) * unat (bm_width b)"
    using assms(2) by (intro mult_le_mono1) simp
  then show "y * unat (bm_width b) + x \<le> unat (bm_width b) * unat (bm_height b)"
    using assms(3) by (simp add: mult.commute)
  have "unat (bm_width b) * unat (bm_height b) \<le> 2 ^ 14 * (2 ^ 14 - 1)"
    using assms(1) by (intro mult_le_mono) (auto simp: bmp_ok_def)
  then show "unat (bm_width b) * unat (bm_height b) < 2 ^ 28" by simp
qed

lemma bits_small: "bmp_ok b \<Longrightarrow> length (bm_bits b) < 2 ^ 32"
proof -
  assume b: "bmp_ok b"
  then have "unat (bm_width b) * unat (bm_height b) \<le> 2 ^ 14 * 2 ^ 14"
    by (intro mult_le_mono) (auto simp: bmp_ok_def)
  then have "unat (bm_width b) * unat (bm_height b) \<le> 268435456" by simp
  moreover have "length (bm_bits b) = 4 * (unat (bm_width b) * unat (bm_height b))"
    using b unfolding bmp_ok_def by blast
  ultimately have "length (bm_bits b) < 4294967296" by linarith
  then show ?thesis by simp
qed

lemma offset_x:
  assumes "bmp_ok b" and "unat x \<le> unat (bm_width b)"
  shows "unat (x * bm_bpp b div 8) = 4 * unat x"
  using assms by (simp add: bmp_ok_def unat_div_8 unat_mult_small)

lemma offset_y:
  assumes "bmp_ok b" and "unat y < unat (bm_height b)"
  shows "unat (y * bm_stride b) = 4 * (unat y * unat (bm_width b))"
proof -
  have "unat y * unat (bm_width b) < 2 ^ 28"
    using side_product [OF assms, of 0] by linarith
  then show ?thesis
    using assms(1) by (subst unat_mult_small) (simp_all add: bmp_ok_def)
qed

lemma offset_xy:
  assumes "bmp_ok b" and "unat y < unat (bm_height b)" and "unat x \<le> unat (bm_width b)"
  shows "unat (y * bm_stride b + x * bm_bpp b div 8) = 4 * (unat y * unat (bm_width b) + unat x)"
    and "unat (x * bm_bpp b div 8 + y * bm_stride b) = 4 * (unat y * unat (bm_width b) + unat x)"
proof -
  have "4 * (unat y * unat (bm_width b)) + 4 * unat x < 2 ^ 32"
    using side_product [OF assms] by simp
  then show "unat (y * bm_stride b + x * bm_bpp b div 8) = 4 * (unat y * unat (bm_width b) + unat x)"
    using offset_x [OF assms(1,3)] offset_y [OF assms(1,2)] by (subst unat_add_small) simp_all
  then show "unat (x * bm_bpp b div 8 + y * bm_stride b) = 4 * (unat y * unat (bm_width b) + unat x)"
    by (simp add: add.commute)
qed

section \<open>Horizontal and vertical lines\<close>

lemma hline_paints:
  assumes b: "bmp_ok b" and len: "length bits = length (bm_bits b)" and y: "unat y < unat (bm_height b)"
    and x: "unat xa \<le> unat (bm_width b)" "unat xb \<le> unat (bm_width b)"
  shows "\<exists>bits'. intrnl_draw_hline_bgra32 gc b bits xa y xb = Inr bits' \<and>
    painted bits (\<lambda>k. \<exists>x. k = unat y * unat (bm_width b) + x \<and>
      min (unat xa) (unat xb) \<le> x \<and> x < max (unat xa) (unat xb)) (gc_color gc) bits'"
proof -
  define lo hi where "lo = (if xb < xa then xb else xa)" and "hi = (if xb < xa then xa else xb)"
  have ord: "lo \<le> hi" by (auto simp: lo_def hi_def)
  have le: "unat lo = min (unat xa) (unat xb)" "unat hi = max (unat xa) (unat xb)" "unat lo \<le> unat (bm_width b)"
    using x by (auto simp: lo_def hi_def word_less_nat_alt min_def max_def)
  have n: "unat (hi - lo) = unat hi - unat lo" using ord by (simp add: unat_sub)
  have L: "length bits = 4 * (unat (bm_width b) * unat (bm_height b))" using b len by (simp add: bmp_ok_def)
  have "unat hi \<le> unat (bm_width b)" using x le by simp
  then have m: "unat y * unat (bm_width b) + unat hi \<le> unat (bm_width b) * unat (bm_height b)"
    using side_product(1) [OF b y] by blast
  have "\<exists>bits'. pixel_run bits (y * bm_stride b + lo * bm_bpp b div 8) 4 (gc_color gc) (unat (hi - lo)) = Inr bits' \<and>
    painted bits (\<lambda>k. \<exists>m < unat (hi - lo). k = unat y * unat (bm_width b) + unat lo + 1 * m) (gc_color gc) bits'"
  proof (rule pixel_run_paints)
    show "unat (y * bm_stride b + lo * bm_bpp b div 8) = 4 * (unat y * unat (bm_width b) + unat lo)"
      using offset_xy [OF b y le(3)] by simp
    show "unat (hi - lo) = 0 \<or> 4 * (unat y * unat (bm_width b) + unat lo + 1 * (unat (hi - lo) - 1)) + 4 \<le> length bits"
      using m n by (auto simp: L)
    show "length bits < 2 ^ 32" using bits_small [OF b] len by simp
  qed simp
  then obtain bits' where r: "pixel_run bits (y * bm_stride b + lo * bm_bpp b div 8) 4 (gc_color gc) (unat (hi - lo)) = Inr bits'"
    "painted bits (\<lambda>k. \<exists>m < unat (hi - lo). k = unat y * unat (bm_width b) + unat lo + 1 * m) (gc_color gc) bits'"
    by blast
  have "painted bits (\<lambda>k. \<exists>x. k = unat y * unat (bm_width b) + x \<and>
      min (unat xa) (unat xb) \<le> x \<and> x < max (unat xa) (unat xb)) (gc_color gc) bits'"
  proof (rule painted_cong [OF r(2)])
    fix k
    show "(\<exists>m < unat (hi - lo). k = unat y * unat (bm_width b) + unat lo + 1 * m) =
      (\<exists>x. k = unat y * unat (bm_width b) + x \<and> min (unat xa) (unat xb) \<le> x \<and> x < max (unat xa) (unat xb))"
      unfolding le(1,2) [symmetric] n
      by (safe, rule_tac x = "unat lo + m" in exI, simp, rule_tac x = "x - unat lo" in exI, simp)
  qed
  moreover have "intrnl_draw_hline_bgra32 gc b bits xa y xb =
      pixel_run bits (y * bm_stride b + lo * bm_bpp b div 8) 4 (gc_color gc) (unat (hi - lo))"
    by (simp add: intrnl_draw_hline_bgra32_def lo_def hi_def)
  ultimately show ?thesis using r(1) by auto
qed


lemma cell_bound: "A + Suc x \<le> m \<Longrightarrow> B + C = A \<Longrightarrow> 4 * (B + x + C) + 4 \<le> 4 * (m :: nat)"
  by auto

lemma vline_paints:
  assumes b: "bmp_ok b" and len: "length bits = length (bm_bits b)" and x: "unat x < unat (bm_width b)"
    and y: "unat ya \<le> unat (bm_height b)" "unat yb \<le> unat (bm_height b)"
  shows "\<exists>bits'. intrnl_draw_vline_bgra32 gc b bits x ya yb = Inr bits' \<and>
    painted bits (\<lambda>k. \<exists>y. k = y * unat (bm_width b) + unat x \<and>
      min (unat ya) (unat yb) \<le> y \<and> y < max (unat ya) (unat yb)) (gc_color gc) bits'"
proof -
  define lo hi where "lo = (if yb < ya then yb else ya)" and "hi = (if yb < ya then ya else yb)"
  have ord: "lo \<le> hi" by (auto simp: lo_def hi_def)
  have le: "unat lo = min (unat ya) (unat yb)" "unat hi = max (unat ya) (unat yb)" "unat hi \<le> unat (bm_height b)"
    using y by (auto simp: lo_def hi_def word_less_nat_alt min_def max_def)
  have n: "unat (hi - lo) = unat hi - unat lo" using ord by (simp add: unat_sub)
  have L: "length bits = 4 * (unat (bm_width b) * unat (bm_height b))" using b len by (simp add: bmp_ok_def)
  have eq: "intrnl_draw_vline_bgra32 gc b bits x ya yb =
      pixel_run bits (lo * bm_stride b + x * bm_bpp b div 8) (bm_stride b) (gc_color gc) (unat (hi - lo))"
    by (simp add: intrnl_draw_vline_bgra32_def lo_def hi_def)
  show ?thesis
  proof (cases "lo = hi")
    case True
    then have "min (unat ya) (unat yb) = max (unat ya) (unat yb)" using le by simp
    then show ?thesis using True eq by (auto simp: painted_def)
  next
    case False
    then have lt: "unat lo < unat hi" using ord by (metis order.not_eq_order_implies_strict word_less_nat_alt)
    have lo: "unat lo < unat (bm_height b)" using lt le(3) by linarith
    have "\<exists>bits'. pixel_run bits (lo * bm_stride b + x * bm_bpp b div 8) (bm_stride b) (gc_color gc) (unat (hi - lo)) = Inr bits' \<and>
      painted bits (\<lambda>k. \<exists>m < unat (hi - lo). k = unat lo * unat (bm_width b) + unat x + unat (bm_width b) * m) (gc_color gc) bits'"
    proof (rule pixel_run_paints)
      show "unat (lo * bm_stride b + x * bm_bpp b div 8) = 4 * (unat lo * unat (bm_width b) + unat x)"
        using offset_xy [OF b lo] x by simp
      show "unat (bm_stride b) = 4 * unat (bm_width b)" using b by (simp add: bmp_ok_def)
      have "unat hi - 1 < unat (bm_height b)" using lt le(3) by linarith
      then have "(unat hi - 1) * unat (bm_width b) + Suc (unat x) \<le> unat (bm_width b) * unat (bm_height b)"
        using side_product(1) [OF b _ Suc_leI [OF x]] by blast
      moreover have "unat lo * unat (bm_width b) + unat (bm_width b) * (unat (hi - lo) - 1) = (unat hi - 1) * unat (bm_width b)"
      proof -
        have "unat lo + (unat (hi - lo) - 1) = unat hi - 1" using lt n by linarith
        then show ?thesis by (metis add_mult_distrib mult.commute)
      qed
      ultimately show "unat (hi - lo) = 0 \<or>
          4 * (unat lo * unat (bm_width b) + unat x + unat (bm_width b) * (unat (hi - lo) - 1)) + 4 \<le> length bits"
        unfolding L by (intro disjI2 cell_bound)
      show "length bits < 2 ^ 32" using bits_small [OF b] len by simp
    qed
    then obtain bits' where r: "pixel_run bits (lo * bm_stride b + x * bm_bpp b div 8) (bm_stride b) (gc_color gc) (unat (hi - lo)) = Inr bits'"
      "painted bits (\<lambda>k. \<exists>m < unat (hi - lo). k = unat lo * unat (bm_width b) + unat x + unat (bm_width b) * m) (gc_color gc) bits'"
      by blast
    have "painted bits (\<lambda>k. \<exists>y. k = y * unat (bm_width b) + unat x \<and>
        min (unat ya) (unat yb) \<le> y \<and> y < max (unat ya) (unat yb)) (gc_color gc) bits'"
    proof (rule painted_cong [OF r(2)])
      fix k
      show "(\<exists>m < unat (hi - lo). k = unat lo * unat (bm_width b) + unat x + unat (bm_width b) * m) =
        (\<exists>y. k = y * unat (bm_width b) + unat x \<and> min (unat ya) (unat yb) \<le> y \<and> y < max (unat ya) (unat yb))"
        unfolding le(1,2) [symmetric] n
      proof safe
        fix m assume "m < unat hi - unat lo"
        then show "\<exists>y. unat lo * unat (bm_width b) + unat x + unat (bm_width b) * m = y * unat (bm_width b) + unat x \<and>
          unat lo \<le> y \<and> y < unat hi"
          by (intro exI [of _ "unat lo + m"]) (simp add: algebra_simps)
      next
        fix y assume "unat lo \<le> y" "y < unat hi"
        then show "\<exists>m < unat hi - unat lo. y * unat (bm_width b) + unat x =
          unat lo * unat (bm_width b) + unat x + unat (bm_width b) * m"
          by (intro exI [of _ "y - unat lo"]) (simp add: algebra_simps flip: add_mult_distrib2)
      qed
    qed
    then show ?thesis using r(1) eq by auto
  qed
qed

section \<open>Filling\<close>

text \<open>Rows \<open>ya\<close> to \<open>ya + n\<close> in the columns between \<open>xa\<close> and \<open>xb\<close>.\<close>

definition in_rows :: "nat \<Rightarrow> nat \<Rightarrow> nat \<Rightarrow> nat \<Rightarrow> nat \<Rightarrow> nat \<Rightarrow> bool" where
  "in_rows w k lo hi ya n \<longleftrightarrow> (\<exists>x y. k = y * w + x \<and> lo \<le> x \<and> x < hi \<and> ya \<le> y \<and> y < ya + n)"

lemma in_rows_Suc: "in_rows w k lo hi ya (Suc n) \<longleftrightarrow>
    (\<exists>x. k = ya * w + x \<and> lo \<le> x \<and> x < hi) \<or> in_rows w k lo hi (Suc ya) n"
proof
  assume "in_rows w k lo hi ya (Suc n)"
  then obtain x y where xy: "k = y * w + x" "lo \<le> x" "x < hi" "ya \<le> y" "y < ya + Suc n"
    unfolding in_rows_def by blast
  show "(\<exists>x. k = ya * w + x \<and> lo \<le> x \<and> x < hi) \<or> in_rows w k lo hi (Suc ya) n"
  proof (cases "y = ya")
    case False
    then have "Suc ya \<le> y" "y < Suc ya + n" using xy by simp_all
    then show ?thesis using xy unfolding in_rows_def by blast
  qed (use xy in blast)
next
  assume "(\<exists>x. k = ya * w + x \<and> lo \<le> x \<and> x < hi) \<or> in_rows w k lo hi (Suc ya) n"
  moreover have "Suc ya \<le> y \<and> y < Suc ya + n \<Longrightarrow> ya \<le> y \<and> y < ya + Suc n" "ya \<le> ya \<and> ya < ya + Suc n" for y
    by simp_all
  ultimately show "in_rows w k lo hi ya (Suc n)" unfolding in_rows_def by blast
qed

lemma fill_loop_paints:
  assumes b: "bmp_ok b" and "length bits = length (bm_bits b)"
    and x: "unat xa \<le> unat (bm_width b)" "unat xb \<le> unat (bm_width b)"
    and "unat y + n \<le> unat (bm_height b)"
  shows "\<exists>bits'. fill_loop gc b bits xa xb y n = Inr bits' \<and>
    painted bits (\<lambda>k. in_rows (unat (bm_width b)) k (min (unat xa) (unat xb)) (max (unat xa) (unat xb)) (unat y) n)
      (gc_color gc) bits'"
  using assms(2,5)
proof (induction n arbitrary: bits y)
  case 0
  then show ?case by (auto simp: painted_def in_rows_def)
next
  case (Suc n)
  have y: "unat y < unat (bm_height b)" using Suc.prems(2) by simp
  obtain b1 where b1: "intrnl_draw_hline_bgra32 gc b bits xa y xb = Inr b1"
    "painted bits (\<lambda>k. \<exists>x. k = unat y * unat (bm_width b) + x \<and>
      min (unat xa) (unat xb) \<le> x \<and> x < max (unat xa) (unat xb)) (gc_color gc) b1"
    using hline_paints [OF b Suc.prems(1) y x] by blast
  have y1: "unat (y + 1) = Suc (unat y)"
    using y b by (subst unat_add_small) (simp_all add: bmp_ok_def)
  obtain b2 where b2: "fill_loop gc b b1 xa xb (y + 1) n = Inr b2"
    "painted b1 (\<lambda>k. in_rows (unat (bm_width b)) k (min (unat xa) (unat xb)) (max (unat xa) (unat xb)) (Suc (unat y)) n)
      (gc_color gc) b2"
    using Suc.IH [of b1 "y + 1"] Suc.prems painted_length [OF b1(2)] y1 by auto
  have "fill_loop gc b bits xa xb y (Suc n) = Inr b2" using b1(1) b2(1) by simp
  then show ?case
    using painted_trans [OF b1(2) b2(2)] unfolding in_rows_Suc by blast
qed


section \<open>The clip rectangle\<close>

text \<open>What \<^verbatim>\<open>set_clip_rect\<close> ensures: every coordinate lies between 0 and the side of the bitmap. The corners
  need not be ordered.\<close>

definition in_side :: "i32 \<Rightarrow> u32 \<Rightarrow> bool" where
  "in_side v side \<longleftrightarrow> 0 \<le> sint v \<and> sint v \<le> int (unat side)"

definition clip_ok :: "NXGI_RECT \<Rightarrow> NXGI_BITMAP \<Rightarrow> bool" where
  "clip_ok r b \<longleftrightarrow> in_side (x1 r) (bm_width b) \<and> in_side (x2 r) (bm_width b) \<and>
     in_side (y1 r) (bm_height b) \<and> in_side (y2 r) (bm_height b)"

lemma sint_nonneg_obtain:
  assumes "0 \<le> sint (v :: i32)"
  obtains n where "unat v = n" and "sint v = int n"
proof -
  have "sint v < 2 ^ 31" using sint_lt [of v] by simp
  then have "uint v = sint v"
    using assms by (simp add: uint_sint take_bit_int_eq_self)
  then show ?thesis using that [of "unat v"] by simp
qed

lemma in_side_obtain:
  assumes "in_side v side"
  obtains n where "unat v = n" and "sint v = int n" and "n \<le> unat side"
proof -
  have "0 \<le> sint v" "sint v \<le> int (unat side)" using assms by (simp_all add: in_side_def)
  then show ?thesis by (metis sint_nonneg_obtain of_nat_le_iff that)
qed

lemma sint_small_unat: "unat (v :: u32) < 2 ^ 31 \<Longrightarrow> sint v = int (unat v)"
  using sint_of_nat_small [of "unat v"] by simp

lemma transform_in:
  assumes "clip_ok (gc_clip_rect gc) b"
  shows "in_side (px (intrnl_transform_point gc p)) (bm_width b)"
    and "in_side (py (intrnl_transform_point gc p)) (bm_height b)"
  using assms unfolding clip_ok_def in_side_def intrnl_transform_point_def Let_def signed_order
  by auto

section \<open>Filling a rectangle\<close>

lemma in_rows_pixel:
  assumes "x < w" and "hi \<le> w"
  shows "in_rows w (y * w + x) lo hi ya n \<longleftrightarrow> lo \<le> x \<and> x < hi \<and> ya \<le> y \<and> y < ya + n"
proof
  assume "in_rows w (y * w + x) lo hi ya n"
  then obtain x' y' where e: "y * w + x = y' * w + x'" and r: "lo \<le> x'" "x' < hi" "ya \<le> y'" "y' < ya + n"
    unfolding in_rows_def by blast
  have x': "x' < w" using r assms(2) by simp
  have "(y * w + x) mod w = (y' * w + x') mod w" "(y * w + x) div w = (y' * w + x') div w"
    using e by simp_all
  then have "x = x'" "y = y'" using assms(1) x' by simp_all
  then show "lo \<le> x \<and> x < hi \<and> ya \<le> y \<and> y < ya + n" using r by simp
qed (auto simp: in_rows_def)

lemma fill_rect_bits_paints:
  fixes gc b r
  defines "p \<equiv> intrnl_transform_point gc (p1 r)" and "q \<equiv> intrnl_transform_point gc (p2 r)"
  assumes b: "bmp_ok b" and c: "clip_ok (gc_clip_rect gc) b"
  shows "\<exists>hr bits'. fill_rect_bits gc b r = Inr (hr, bits') \<and> SUCCEEDED hr \<and>
    painted (bm_bits b) (\<lambda>k. in_rows (unat (bm_width b)) k
      (min (unat (px p)) (unat (px q))) (max (unat (px p)) (unat (px q)))
      (min (unat (py p)) (unat (py q))) (max (unat (py p)) (unat (py q)) - min (unat (py p)) (unat (py q))))
      (gc_color gc) bits'"
proof -
  have px: "unat (px p) \<le> unat (bm_width b)" "unat (px q) \<le> unat (bm_width b)"
    using transform_in(1) [OF c] unfolding p_def q_def by (metis in_side_obtain)+
  obtain i j where i: "unat (py p) = i" "sint (py p) = int i" "i \<le> unat (bm_height b)"
    and j: "unat (py q) = j" "sint (py q) = int j" "j \<le> unat (bm_height b)"
    using transform_in(2) [OF c] unfolding p_def q_def by (metis in_side_obtain)
  show ?thesis
  proof (cases "px p = px q \<or> py p = py q")
    case True
    then have "fill_rect_bits gc b r = Inr (S_FALSE, bm_bits b)"
      unfolding fill_rect_bits_def Let_def p_def q_def by simp
    moreover have "\<not> in_rows (unat (bm_width b)) k
      (min (unat (px p)) (unat (px q))) (max (unat (px p)) (unat (px q)))
      (min (unat (py p)) (unat (py q))) (max (unat (py p)) (unat (py q)) - min (unat (py p)) (unat (py q)))" for k
      using True by (auto simp: in_rows_def)
    ultimately show ?thesis by (simp add: painted_def)
  next
    case False
    define ya yb where "ya = (if py q <s py p then py q else py p)" and "yb = (if py q <s py p then py p else py q)"
    have y: "unat ya = min (unat (py p)) (unat (py q))" "unat yb = max (unat (py p)) (unat (py q))"
      "nat (sint yb - sint ya) = unat yb - unat ya"
      by (auto simp: i j ya_def yb_def signed_order min_def max_def)
    have "unat ya + (unat yb - unat ya) \<le> unat (bm_height b)" using y i j by simp
    then obtain bits' where r: "fill_loop gc b (bm_bits b) (px p) (px q) ya (unat yb - unat ya) = Inr bits'"
      "painted (bm_bits b) (\<lambda>k. in_rows (unat (bm_width b)) k (min (unat (px p)) (unat (px q)))
         (max (unat (px p)) (unat (px q))) (unat ya) (unat yb - unat ya)) (gc_color gc) bits'"
      using fill_loop_paints [OF b refl px] by blast
    have "fill_rect_bits gc b r =
      bindR (fill_loop gc b (bm_bits b) (px p) (px q) ya (nat (sint yb - sint ya))) (\<lambda>bits. Inr (S_OK, bits))"
      using False
      by (simp add: fill_rect_bits_def Let_def intrnl_swap_ints_def p_def [symmetric] q_def [symmetric] ya_def yb_def)
    then show ?thesis using r y by simp
  qed
qed

definition clampv :: "i32 \<Rightarrow> i32 \<Rightarrow> i32 \<Rightarrow> i32" where
  "clampv lo hi v = (if hi <s v then hi else if v <s lo then lo else v)"

lemma transform_clampv:
  "px (intrnl_transform_point gc p) = clampv (x1 (gc_clip_rect gc)) (x2 (gc_clip_rect gc)) (px p + px (gc_offset gc))"
  "py (intrnl_transform_point gc p) = clampv (y1 (gc_clip_rect gc)) (y2 (gc_clip_rect gc)) (py p + py (gc_offset gc))"
  by (simp_all add: intrnl_transform_point_def clampv_def Let_def)

lemma rect_offset_sel [simp]:
  "x1 (nxgig_rect_offset r d) = x1 r + px d" "y1 (nxgig_rect_offset r d) = y1 r + py d"
  "x2 (nxgig_rect_offset r d) = x2 r + px d" "y2 (nxgig_rect_offset r d) = y2 r + py d"
  by (simp_all add: nxgig_rect_offset_def nxgig_point_add_def)

lemma clampv_between:
  assumes "in_side lo s" "in_side hi s" "lo \<le>s hi" "v \<le>s w"
  shows "min (unat (clampv lo hi v)) (unat (clampv lo hi w)) \<le> x \<and>
      x < max (unat (clampv lo hi v)) (unat (clampv lo hi w)) \<longleftrightarrow>
    sint v \<le> int x \<and> int x < sint w \<and> sint lo \<le> int x \<and> int x < sint hi"
proof -
  have "in_side (clampv lo hi v) s" "in_side (clampv lo hi w) s"
    using assms by (auto simp: clampv_def in_side_def signed_order)
  then obtain i j where u: "unat (clampv lo hi v) = i" "sint (clampv lo hi v) = int i"
    "unat (clampv lo hi w) = j" "sint (clampv lo hi w) = int j"
    by (metis in_side_obtain)
  have "sint (clampv lo hi v) \<le> sint (clampv lo hi w)"
    using assms by (auto simp: clampv_def signed_order)
  then have "(min i j \<le> x \<and> x < max i j) \<longleftrightarrow> sint (clampv lo hi v) \<le> int x \<and> int x < sint (clampv lo hi w)"
    by (auto simp: u(2,4))
  also have "\<dots> \<longleftrightarrow> sint v \<le> int x \<and> int x < sint w \<and> sint lo \<le> int x \<and> int x < sint hi"
    using assms(3,4) by (auto simp: clampv_def signed_order split: if_splits)
  finally show ?thesis unfolding u(1,3) .
qed

lemma transform_ordered:
  assumes "clip_ok (gc_clip_rect gc) b" "rect_ok (gc_clip_rect gc)" "rect_ok (nxgig_rect_offset r (gc_offset gc))"
  shows "min (unat (px (intrnl_transform_point gc (p1 r)))) (unat (px (intrnl_transform_point gc (p2 r)))) \<le> x \<and>
      x < max (unat (px (intrnl_transform_point gc (p1 r)))) (unat (px (intrnl_transform_point gc (p2 r)))) \<longleftrightarrow>
    sint (x1 (nxgig_rect_offset r (gc_offset gc))) \<le> int x \<and> int x < sint (x2 (nxgig_rect_offset r (gc_offset gc))) \<and>
    sint (x1 (gc_clip_rect gc)) \<le> int x \<and> int x < sint (x2 (gc_clip_rect gc))"
  and "min (unat (py (intrnl_transform_point gc (p1 r)))) (unat (py (intrnl_transform_point gc (p2 r)))) \<le> x \<and>
      x < max (unat (py (intrnl_transform_point gc (p1 r)))) (unat (py (intrnl_transform_point gc (p2 r)))) \<longleftrightarrow>
    sint (y1 (nxgig_rect_offset r (gc_offset gc))) \<le> int x \<and> int x < sint (y2 (nxgig_rect_offset r (gc_offset gc))) \<and>
    sint (y1 (gc_clip_rect gc)) \<le> int x \<and> int x < sint (y2 (gc_clip_rect gc))"
  using assms unfolding transform_clampv rect_offset_sel clip_ok_def rect_ok_def
  by (intro clampv_between; blast)+

text \<open>A context whose target is a good bitmap.\<close>

definition gc_on :: "nxgi \<Rightarrow> u32 \<Rightarrow> NXGI_GRAPHICS_CONTEXT \<Rightarrow> NXGI_BITMAP \<Rightarrow> bool" where
  "gc_on st g gc b \<longleftrightarrow> gc_at st g = Inr gc \<and> gc_target gc \<noteq> 0 \<and> bmp_at st (gc_target gc) = Inr b \<and>
     bmp_ok b \<and> clip_ok (gc_clip_rect gc) b"

definition in_half_open :: "nat \<Rightarrow> nat \<Rightarrow> NXGI_RECT \<Rightarrow> bool" where
  "in_half_open x y r \<longleftrightarrow> sint (x1 r) \<le> int x \<and> int x < sint (x2 r) \<and> sint (y1 r) \<le> int y \<and> int y < sint (y2 r)"

lemma painted_bmp_ok:
  assumes "bmp_ok b" and "painted (bm_bits b) P c bits"
  shows "bmp_ok (b\<lparr>bm_bits := bits\<rparr>)"
  using assms by (simp add: bmp_ok_def painted_def)

lemma pixel_in_bits:
  assumes "bmp_ok b" and "x < unat (bm_width b)" and "y < unat (bm_height b)"
  shows "4 * (y * unat (bm_width b) + x) + 4 \<le> length (bm_bits b)"
  using side_product(1) [OF assms(1,3) Suc_leI [OF assms(2)]] assms(1) by (simp add: bmp_ok_def)

lemma painted_pixel:
  assumes "bmp_ok b" and "painted (bm_bits b) P c bits" and "x < unat (bm_width b)" and "y < unat (bm_height b)"
  shows "pixel (b\<lparr>bm_bits := bits\<rparr>) x y = (if P (y * unat (bm_width b) + x) then c else pixel b x y)"
  using assms(2) pixel_in_bits [OF assms(1,3,4)] by (simp add: pixel_def painted_def)

lemma fill_rect_safe:
  assumes "gc_on st g gc b"
  shows "\<exists>hr bits. graphics_fill_rect_bgra32 g r st = Inr (hr, put_bmp (gc_target gc) (b\<lparr>bm_bits := bits\<rparr>) st) \<and>
    SUCCEEDED hr \<and> bmp_ok (b\<lparr>bm_bits := bits\<rparr>)"
proof -
  have b: "bmp_ok b" and c: "clip_ok (gc_clip_rect gc) b" using assms by (auto simp: gc_on_def)
  from fill_rect_bits_paints [OF b c, of r] obtain hr bits P
    where f: "fill_rect_bits gc b r = Inr (hr, bits)" "SUCCEEDED hr" "painted (bm_bits b) P (gc_color gc) bits"
    by blast
  then show ?thesis
    using assms painted_bmp_ok [OF b f(3)]
    by (auto simp: graphics_fill_rect_bgra32_def with_target_def gc_on_def)
qed

text \<open>C25. Filling a rectangle with ordered corners sets exactly the pixels that lie both in the rectangle,
  moved by the offset, and in the clip rectangle, right and lower sides excluded, and leaves all others.\<close>

theorem fill_rect_exact:
  assumes on: "gc_on st g gc b" and c: "rect_ok (gc_clip_rect gc)" and m: "rect_ok (nxgig_rect_offset r (gc_offset gc))"
  shows "\<exists>hr b'. graphics_fill_rect_bgra32 g r st = Inr (hr, put_bmp (gc_target gc) b' st) \<and> SUCCEEDED hr \<and>
    (\<forall>x y. x < unat (bm_width b) \<and> y < unat (bm_height b) \<longrightarrow>
       pixel b' x y = (if in_half_open x y (nxgig_rect_offset r (gc_offset gc)) \<and> in_half_open x y (gc_clip_rect gc)
                       then gc_color gc else pixel b x y))"
proof -
  have b: "bmp_ok b" and ck: "clip_ok (gc_clip_rect gc) b" using on by (auto simp: gc_on_def)
  define p q where "p = intrnl_transform_point gc (p1 r)" and "q = intrnl_transform_point gc (p2 r)"
  define P where "P k = in_rows (unat (bm_width b)) k
      (min (unat (px p)) (unat (px q))) (max (unat (px p)) (unat (px q)))
      (min (unat (py p)) (unat (py q))) (max (unat (py p)) (unat (py q)) - min (unat (py p)) (unat (py q)))" for k
  obtain hr bits where f: "fill_rect_bits gc b r = Inr (hr, bits)" "SUCCEEDED hr" "painted (bm_bits b) P (gc_color gc) bits"
    using fill_rect_bits_paints [OF b ck, of r] unfolding P_def [abs_def] p_def q_def by blast
  have wide: "max (unat (px p)) (unat (px q)) \<le> unat (bm_width b)"
    using transform_in(1) [OF ck] unfolding p_def q_def by (metis in_side_obtain max.bounded_iff)
  have "pixel (b\<lparr>bm_bits := bits\<rparr>) x y = (if in_half_open x y (nxgig_rect_offset r (gc_offset gc)) \<and>
      in_half_open x y (gc_clip_rect gc) then gc_color gc else pixel b x y)"
    if "x < unat (bm_width b)" "y < unat (bm_height b)" for x y
  proof -
    have "P (y * unat (bm_width b) + x) \<longleftrightarrow>
      (min (unat (px p)) (unat (px q)) \<le> x \<and> x < max (unat (px p)) (unat (px q))) \<and>
      (min (unat (py p)) (unat (py q)) \<le> y \<and> y < max (unat (py p)) (unat (py q)))"
      unfolding P_def in_rows_pixel [OF that(1) wide] by auto
    also have "\<dots> \<longleftrightarrow> in_half_open x y (nxgig_rect_offset r (gc_offset gc)) \<and> in_half_open x y (gc_clip_rect gc)"
      unfolding p_def q_def transform_ordered [OF ck c m] in_half_open_def by blast
    finally show ?thesis using painted_pixel [OF b f(3) that] by simp
  qed
  moreover have "graphics_fill_rect_bgra32 g r st = Inr (hr, put_bmp (gc_target gc) (b\<lparr>bm_bits := bits\<rparr>) st)"
    using on f(1) by (simp add: graphics_fill_rect_bgra32_def with_target_def gc_on_def)
  ultimately show ?thesis using f(2) by blast
qed

section \<open>A small screen\<close>

text \<open>One bitmap of 4 by 4 pixels and one context that draws on it.\<close>

definition demo_bmp :: NXGI_BITMAP where
  "demo_bmp = \<lparr>bm_width = 4, bm_stride = 16, bm_height = 4, bm_bpp = 32, bm_format = NXGI_FORMAT_BGRA32,
     bm_refs = 1, bm_tag = NXGI_BITMAP_TAG_DEFAULT, bm_bits = replicate 64 0, bm_destroy = nxgi_destroy_bitmap_fn\<rparr>"

definition demo_gc :: NXGI_GRAPHICS_CONTEXT where
  "demo_gc = \<lparr>gc_ops = True, gc_target = 2,
     gc_font = \<lparr>fn_name = ''System'', fn_size = 1, fn_style = 0, fn_color = COLOR 255 255 255 255, fn_reserved = 0\<rparr>,
     gc_offset = POINT 0 0, gc_color = COLOR 1 2 3 4, gc_clip_rect = RECT 0 0 4 4\<rparr>"

definition demo_gfx :: nxgi where
  "demo_gfx = \<lparr>bmps = [2 \<mapsto> demo_bmp], gcs = [1 \<mapsto> demo_gc], graphics_drv = 0, screen_surf = 0\<rparr>"

lemma demo_bmp_ok: "bmp_ok demo_bmp"
  by code_simp

lemma demo_gc_on: "gc_on demo_gfx 1 demo_gc demo_bmp"
proof -
  have "clip_ok (gc_clip_rect demo_gc) demo_bmp" by code_simp
  then show ?thesis
    using demo_bmp_ok by (simp add: gc_on_def gc_at_def bmp_at_def demo_gfx_def demo_gc_def)
qed

lemma fill_rect_exact_witness:
  "\<exists>hr b'. graphics_fill_rect_bgra32 1 (RECT 1 1 3 2) demo_gfx = Inr (hr, put_bmp 2 b' demo_gfx) \<and>
     pixel b' 2 1 = COLOR 1 2 3 4 \<and> pixel b' 3 1 = COLOR 0 0 0 0"
proof -
  have "rect_ok (gc_clip_rect demo_gc)" "rect_ok (nxgig_rect_offset (RECT 1 1 3 2) (gc_offset demo_gc))" by code_simp+
  from fill_rect_exact [OF demo_gc_on this] obtain hr b' where
    f: "graphics_fill_rect_bgra32 1 (RECT 1 1 3 2) demo_gfx = Inr (hr, put_bmp (gc_target demo_gc) b' demo_gfx)"
    and p: "\<And>x y. x < unat (bm_width demo_bmp) \<Longrightarrow> y < unat (bm_height demo_bmp) \<Longrightarrow> pixel b' x y =
      (if in_half_open x y (nxgig_rect_offset (RECT 1 1 3 2) (gc_offset demo_gc)) \<and> in_half_open x y (gc_clip_rect demo_gc)
       then gc_color demo_gc else pixel demo_bmp x y)"
    by blast
  have "2 < unat (bm_width demo_bmp)" "3 < unat (bm_width demo_bmp)" "1 < unat (bm_height demo_bmp)"
    "in_half_open 2 1 (nxgig_rect_offset (RECT 1 1 3 2) (gc_offset demo_gc)) \<and> in_half_open 2 1 (gc_clip_rect demo_gc)"
    "\<not> (in_half_open 3 1 (nxgig_rect_offset (RECT 1 1 3 2) (gc_offset demo_gc)) \<and> in_half_open 3 1 (gc_clip_rect demo_gc))"
    "gc_color demo_gc = COLOR 1 2 3 4" "pixel demo_bmp 3 1 = COLOR 0 0 0 0" "gc_target demo_gc = 2"
    by code_simp+
  then show ?thesis using f p [of 2 1] p [of 3 1] by auto
qed

end
