(* ===== verification/Lines.thy ===== *)
theory Lines
  imports Drawing
begin

text \<open>
  The lines of \<^verbatim>\<open>graphics_draw_line_bgra32\<close>: the error term of Bresenham's loop over the integers, the
  loop over words, and the pixels it sets.
\<close>

section \<open>Bresenham's line\<close>

text \<open>The minor coordinate after \<open>i\<close> steps along the major axis, for extents \<open>M\<close> and \<open>N \<le> M\<close>: \<open>N i / M\<close>
  rounded to the nearest integer. \<open>line_err\<close> is what the loop keeps in \<^verbatim>\<open>err\<close>.\<close>

definition line_minor :: "int \<Rightarrow> int \<Rightarrow> int \<Rightarrow> int" where
  "line_minor M N i = (N * i + (M - 1) div 2) div M"

definition line_err :: "int \<Rightarrow> int \<Rightarrow> int \<Rightarrow> int" where
  "line_err M N i = M div 2 - N * i + M * line_minor M N i"

lemma line_err_mod: "line_err M N i = M - 1 - (N * i + (M - 1) div 2) mod M"
proof -
  have "M div 2 + (M - 1) div 2 = M - 1" by linarith
  moreover have "M * ((N * i + (M - 1) div 2) div M) = N * i + (M - 1) div 2 - (N * i + (M - 1) div 2) mod M"
    by (simp add: minus_mod_eq_mult_div)
  ultimately show ?thesis unfolding line_err_def line_minor_def by linarith
qed

lemma line_err_range: "0 < M \<Longrightarrow> 0 \<le> line_err M N i \<and> line_err M N i < M"
  using pos_mod_bound [of M "N * i + (M - 1) div 2"] pos_mod_sign [of M "N * i + (M - 1) div 2"]
  unfolding line_err_mod by linarith

lemma line_minor_Suc:
  assumes "0 \<le> N" and "N \<le> M" and "0 < M"
  shows "line_minor M N (i + 1) = line_minor M N i + (if line_err M N i < N then 1 else 0)"
proof -
  define v r where "v = N * i + (M - 1) div 2" and "r = v mod M"
  have r: "0 \<le> r" "r < M" using assms(3) by (simp_all add: r_def)
  have e: "line_err M N i = M - 1 - r" by (simp add: line_err_mod v_def r_def)
  have "(v + N) div M = v div M + (r + N) div M"
    using assms(3) by (simp add: r_def div_add1_eq [of v N] div_add1_eq [of "v mod M" N])
  moreover have "(r + N) div M = (if M \<le> r + N then 1 else 0)"
    using r assms by (auto simp: div_pos_geq div_pos_pos_trivial)
  ultimately have "(v + N) div M = v div M + (if line_err M N i < N then 1 else 0)"
    using e by auto
  then show ?thesis by (simp add: line_minor_def v_def algebra_simps)
qed

lemma line_err_Suc:
  assumes "0 \<le> N" and "N \<le> M" and "0 < M"
  shows "line_err M N (i + 1) = line_err M N i - N + (if line_err M N i < N then M else 0)"
  unfolding line_err_def [of M N "i + 1"] line_minor_Suc [OF assms]
  by (simp add: line_err_def algebra_simps)

lemma line_minor_ends: "0 < M \<Longrightarrow> line_minor M N 0 = 0" "0 < M \<Longrightarrow> line_minor M N M = N"
proof -
  assume M: "0 < M"
  then have m: "0 \<le> (M - 1) div 2" "(M - 1) div 2 < M" by linarith+
  then show "line_minor M N 0 = 0" by (simp add: line_minor_def)
  show "line_minor M N M = N" using m M by (simp add: line_minor_def)
qed

lemma line_minor_mono:
  assumes "0 \<le> N" and "0 < M" and "i \<le> j"
  shows "line_minor M N i \<le> line_minor M N j"
proof -
  have "N * i \<le> N * j" using assms by (simp add: mult_left_mono)
  then show ?thesis unfolding line_minor_def using assms(2) by (intro zdiv_mono1) simp_all
qed

text \<open>Each point is within half a pixel of the straight line.\<close>

lemma line_minor_near: "0 < M \<Longrightarrow> \<bar>2 * (M * line_minor M N i - N * i)\<bar> \<le> M"
proof -
  assume "0 < M"
  then have "0 \<le> M div 2 - N * i + M * line_minor M N i" "M div 2 - N * i + M * line_minor M N i < M"
    using line_err_range [of M N i] by (simp_all add: line_err_def)
  moreover have "0 \<le> M div 2 - x + y \<Longrightarrow> M div 2 - x + y < M \<Longrightarrow> \<bar>2 * (y - x)\<bar> \<le> M" for x y
    by presburger
  ultimately show ?thesis by blast
qed

section \<open>The loop\<close>

definition line_step :: "i32 \<Rightarrow> i32 \<Rightarrow> i32 \<Rightarrow> i32 \<Rightarrow> NXGI_POINT \<Rightarrow> i32 \<Rightarrow> NXGI_POINT \<times> i32" where
  "line_step dx sx dy sy p err =
     (POINT (if - dx <s err then px p + sx else px p) (if err <s dy then py p + sy else py p),
      (if - dx <s err then err - dy else err) + (if err <s dy then dx else 0))"

definition point_in_bmp :: "NXGI_BITMAP \<Rightarrow> NXGI_POINT \<Rightarrow> bool" where
  "point_in_bmp b p \<longleftrightarrow> unat (px p) < unat (bm_width b) \<and> unat (py p) < unat (bm_height b)"

definition point_cell :: "NXGI_BITMAP \<Rightarrow> NXGI_POINT \<Rightarrow> nat" where
  "point_cell b p = unat (py p) * unat (bm_width b) + unat (px p)"

lemma store_pixel:
  assumes "bmp_ok b" and "point_in_bmp b p" and "length bits = length (bm_bits b)"
  shows "\<exists>bits'. store_color bits (pixel_offset b (px p) (py p)) c = Inr bits' \<and>
    painted bits (\<lambda>k. k = point_cell b p) c bits'"
proof (rule store_painted)
  have p: "unat (px p) < unat (bm_width b)" "unat (py p) < unat (bm_height b)"
    using assms(2) by (auto simp: point_in_bmp_def)
  show "unat (pixel_offset b (px p) (py p)) = 4 * point_cell b p"
    using offset_xy(2) [OF assms(1) p(2)] p(1) by (simp add: pixel_offset_def point_cell_def)
  show "4 * point_cell b p + 4 \<le> length bits"
    using pixel_in_bits [OF assms(1) p] assms(3) by (simp add: point_cell_def)
qed

lemma line_loop_run:
  assumes b: "bmp_ok b"
    and step: "\<And>i. i < n \<Longrightarrow> line_step dx sx dy sy (P i) (Er i) = (P (Suc i), Er (Suc i))"
    and neq: "\<And>i. i < n \<Longrightarrow> P i \<noteq> P n"
    and inb: "\<And>i. i \<le> n \<Longrightarrow> point_in_bmp b (P i)"
    and "length bits = length (bm_bits b)" and "i \<le> n"
  shows "\<exists>bits'. line_loop b c dx sx dy sy (P i) (P n) bits (Er i) = Some (Inr bits') \<and>
    painted bits (\<lambda>k. \<exists>j \<in> {i..n}. k = point_cell b (P j)) c bits'"
  using assms(5,6)
proof (induction "n - i" arbitrary: i bits)
  case 0
  then have i: "i = n" by simp
  obtain b1 where "store_color bits (pixel_offset b (px (P n)) (py (P n))) c = Inr b1"
    "painted bits (\<lambda>k. k = point_cell b (P n)) c b1"
    using store_pixel [OF b inb 0(2)] by blast
  then show ?case by (subst line_loop.simps) (simp add: i)
next
  case (Suc d)
  have lt: "i < n" using Suc.hyps(2) by simp
  obtain b1 where b1: "store_color bits (pixel_offset b (px (P i)) (py (P i))) c = Inr b1"
    "painted bits (\<lambda>k. k = point_cell b (P i)) c b1"
    using store_pixel [OF b inb Suc.prems(1)] Suc.prems(2) by blast
  have ne: "\<not> (px (P i) = px (P n) \<and> py (P i) = py (P n))" using neq [OF lt] by (auto intro: point_eqI)
  obtain b2 where b2: "line_loop b c dx sx dy sy (P (Suc i)) (P n) b1 (Er (Suc i)) = Some (Inr b2)"
    "painted b1 (\<lambda>k. \<exists>j \<in> {Suc i..n}. k = point_cell b (P j)) c b2"
  proof -
    have "d = n - Suc i" "length b1 = length (bm_bits b)" "Suc i \<le> n"
      using Suc.hyps(2) painted_length [OF b1(2)] Suc.prems(1) lt by simp_all
    then show ?thesis using Suc.hyps(1) that by blast
  qed
  have "line_loop b c dx sx dy sy (P i) (P n) bits (Er i) = Some (Inr b2)"
    using step [OF lt] b1(1) ne b2(1) by (subst line_loop.simps) (auto simp: line_step_def)
  moreover have "painted bits (\<lambda>k. \<exists>j \<in> {i..n}. k = point_cell b (P j)) c b2"
  proof (rule painted_cong [OF painted_trans [OF b1(2) b2(2)]])
    fix k
    show "(k = point_cell b (P i) \<or> (\<exists>j \<in> {Suc i..n}. k = point_cell b (P j))) = (\<exists>j \<in> {i..n}. k = point_cell b (P j))"
      using lt by (auto simp: atLeastAtMost_insertL [symmetric, of i n])
  qed
  ultimately show ?case by blast
qed

section \<open>Words of the loop\<close>

lemma sint_of_int: "- (2 ^ 31) \<le> v \<Longrightarrow> v < 2 ^ 31 \<Longrightarrow> sint (of_int v :: i32) = v"
  by (simp add: sint_sbintrunc' signed_take_bit_int_eq_self)

lemma unat_of_int:
  assumes "0 \<le> v" and "v < 2 ^ 31"
  shows "unat (of_int v :: i32) = nat v"
proof -
  have s: "sint (of_int v :: i32) = v" using assms by (intro sint_of_int) simp_all
  then obtain n where "unat (of_int v :: i32) = n" "sint (of_int v :: i32) = int n"
    using assms(1) by (metis sint_nonneg_obtain)
  then show ?thesis using s by (simp only: nat_int)
qed

text \<open>The points along the \<open>x\<close> axis from \<open>(a, c)\<close>, in the directions \<open>\<sigma>\<close> and \<open>\<tau>\<close>, and those along the \<open>y\<close>
  axis.\<close>

definition x_major :: "int \<Rightarrow> int \<Rightarrow> int \<Rightarrow> int \<Rightarrow> int \<Rightarrow> int \<Rightarrow> nat \<Rightarrow> NXGI_POINT" where
  "x_major a c \<sigma> \<tau> D E i = POINT (of_int (a + \<sigma> * int i)) (of_int (c + \<tau> * line_minor D E (int i)))"

definition y_major :: "int \<Rightarrow> int \<Rightarrow> int \<Rightarrow> int \<Rightarrow> int \<Rightarrow> int \<Rightarrow> nat \<Rightarrow> NXGI_POINT" where
  "y_major a c \<sigma> \<tau> D E i = POINT (of_int (a + \<sigma> * line_minor E D (int i))) (of_int (c + \<tau> * int i))"

lemma x_major_step:
  assumes "0 \<le> E" "E \<le> D" "0 < D" "D < 2 ^ 14"
  shows "line_step (of_int D) (of_int \<sigma>) (of_int E) (of_int \<tau>) (x_major a c \<sigma> \<tau> D E i) (of_int (line_err D E (int i))) =
    (x_major a c \<sigma> \<tau> D E (Suc i), of_int (line_err D E (int (Suc i))))"
proof -
  let ?e = "line_err D E (int i)"
  have e: "0 \<le> ?e" "?e < D" using line_err_range [OF assms(3)] by blast+
  have s: "sint (of_int ?e :: i32) = ?e" "sint (- of_int D :: i32) = - D" "sint (of_int E :: i32) = E"
    using e assms sint_of_int [of "- D"] sint_of_int [of ?e] sint_of_int [of E] by simp_all
  have c: "- of_int D <s (of_int ?e :: i32)" "(of_int ?e <s (of_int E :: i32)) = (?e < E)"
    using e assms by (simp_all add: word_sless_alt s)
  have n: "int (Suc i) = int i + 1" by simp
  show ?thesis
    unfolding line_step_def c x_major_def n line_minor_Suc [OF assms(1,2,3)] line_err_Suc [OF assms(1,2,3)]
    using c(1) by (auto simp: algebra_simps)
qed

lemma y_major_step:
  assumes "0 \<le> D" "D \<le> E" "0 < E" "E < 2 ^ 14"
  shows "line_step (of_int D) (of_int \<sigma>) (of_int E) (of_int \<tau>) (y_major a c \<sigma> \<tau> D E i) (of_int (- line_err E D (int i))) =
    (y_major a c \<sigma> \<tau> D E (Suc i), of_int (- line_err E D (int (Suc i))))"
proof -
  let ?e = "line_err E D (int i)"
  have e: "0 \<le> ?e" "?e < E" using line_err_range [OF assms(3)] by blast+
  have s: "sint (- of_int ?e :: i32) = - ?e" "sint (- of_int D :: i32) = - D" "sint (of_int E :: i32) = E"
    using e assms sint_of_int [of "- D"] sint_of_int [of "- ?e"] sint_of_int [of E] by simp_all
  have c: "- of_int ?e <s (of_int E :: i32)" "(- of_int D <s (- of_int ?e :: i32)) = (?e < D)"
    using e assms by (simp_all add: word_sless_alt s)
  have n: "int (Suc i) = int i + 1" by simp
  show ?thesis
    unfolding line_step_def y_major_def n of_int_minus c line_minor_Suc [OF assms(1,2,3)] line_err_Suc [OF assms(1,2,3)]
    using c(1) by (auto simp: algebra_simps)
qed


section \<open>Drawing a line\<close>

definition dir :: "int \<Rightarrow> int \<Rightarrow> int" where
  "dir a b = (if a < b then 1 else - 1)"

lemma dir_reaches: "a + dir a b * \<bar>b - a\<bar> = b"
  by (simp add: dir_def)

lemma dir_between:
  assumes "0 \<le> i" and "i \<le> \<bar>b - a\<bar>" and "0 \<le> a" "a < w" "0 \<le> b" "b < w"
  shows "0 \<le> a + dir a b * i" and "a + dir a b * i < w"
  using assms by (auto simp: dir_def)

lemma dir_neq: "i < \<bar>b - a\<bar> \<Longrightarrow> a + dir a b * i \<noteq> b"
  by (auto simp: dir_def)

lemma half32_pos: "0 \<le> v \<Longrightarrow> v < 2 ^ 31 \<Longrightarrow> half32 (of_int v) = of_int (v div 2)"
proof -
  assume v: "0 \<le> v" "v < 2 ^ 31"
  then have s: "sint (of_int v :: i32) = v" by (intro sint_of_int) simp_all
  have "unat ((of_int v :: i32) div 2) = nat v div 2"
    using v by (simp add: unat_div unat_of_int)
  also have "\<dots> = unat (of_int (v div 2) :: i32)"
    using v by (subst unat_of_int) (simp_all add: nat_div_distrib)
  finally have "(of_int v :: i32) div 2 = of_int (v div 2)" by (simp only: word_unat_eq_iff)
  then show ?thesis using v s by (simp add: half32_def word_sless_alt)
qed

lemma half32_neg: "0 < v \<Longrightarrow> v < 2 ^ 31 \<Longrightarrow> half32 (- of_int v) = - of_int (v div 2)"
proof -
  assume v: "0 < v" "v < 2 ^ 31"
  have s: "sint (- of_int v :: i32) = - v" "sint (of_int v :: i32) = v"
    using v sint_of_int [of "- v"] sint_of_int [of v] by simp_all
  then have "half32 (of_int v) = of_int v div 2" using v by (simp add: half32_def word_sless_alt)
  then show ?thesis using v s half32_pos [of v] by (simp add: half32_def word_sless_alt)
qed

lemma abs32_diff:
  assumes "\<bar>b - a\<bar> < 2 ^ 31"
  shows "abs32 (of_int b - of_int a) = of_int \<bar>b - a\<bar>"
proof -
  have e: "(of_int b - of_int a :: i32) = of_int (b - a)" by simp
  have "sint (of_int (b - a) :: i32) = b - a" using assms by (intro sint_of_int) auto
  then show ?thesis unfolding e abs32_def word_sless_alt by simp
qed

text \<open>The pixels of the line between two points of the plane: one per step along the longer axis, at the
  nearest pixel on the other axis.\<close>

definition line_pixels :: "NXGI_POINT \<Rightarrow> NXGI_POINT \<Rightarrow> (nat \<times> nat) set" where
  "line_pixels p q =
     (let a = sint (px p); a' = sint (px q); c = sint (py p); c' = sint (py q);
          D = \<bar>a' - a\<bar>; E = \<bar>c' - c\<bar> in
      if E < D then {(nat (a + dir a a' * i), nat (c + dir c c' * line_minor D E i)) | i. i \<in> int ` {0..nat D}}
      else {(nat (a + dir a a' * line_minor E D i), nat (c + dir c c' * i)) | i. i \<in> int ` {0..nat E}})"

lemma line_minor_range:
  assumes "0 \<le> N" "0 < M" "0 \<le> i" "i \<le> M"
  shows "0 \<le> line_minor M N i \<and> line_minor M N i \<le> N"
  using line_minor_mono [OF assms(1,2,3)] line_minor_mono [OF assms(1,2,4)] line_minor_ends [OF assms(2)]
  by simp

lemma point_in_obtain:
  assumes "bmp_ok b" and "point_in_bmp b p"
  obtains a c where "px p = of_int a" "py p = of_int c" "sint (px p) = a" "sint (py p) = c"
    "0 \<le> a" "a < int (unat (bm_width b))" "0 \<le> c" "c < int (unat (bm_height b))"
proof -
  have "unat (px p) < 2 ^ 31" "unat (py p) < 2 ^ 31"
    using assms by (auto simp: bmp_ok_def point_in_bmp_def)
  then have s: "sint (px p) = int (unat (px p))" "sint (py p) = int (unat (py p))"
    by (simp_all only: sint_small_unat)
  show ?thesis
  proof (rule that [of "sint (px p)" "sint (py p)"])
    show "sint (px p) < int (unat (bm_width b))" "sint (py p) < int (unat (bm_height b))"
      "0 \<le> sint (px p)" "0 \<le> sint (py p)"
      using assms(2) unfolding s point_in_bmp_def by (simp_all only: of_nat_less_iff of_nat_0_le_iff)
  qed simp_all
qed

lemma point_of_ints:
  assumes "bmp_ok b" and "0 \<le> x" "x < int (unat (bm_width b))" "0 \<le> y" "y < int (unat (bm_height b))"
  shows "point_in_bmp b (POINT (of_int x) (of_int y))"
    and "point_cell b (POINT (of_int x) (of_int y)) = nat y * unat (bm_width b) + nat x"
proof -
  have "int (unat (bm_width b)) < 2 ^ 14" "int (unat (bm_height b)) < 2 ^ 14"
    using assms(1) unfolding bmp_ok_def by (metis of_nat_less_iff of_nat_numeral of_nat_power)+
  then have "unat (of_int x :: i32) = nat x" "unat (of_int y :: i32) = nat y"
    using assms by (auto intro!: unat_of_int)
  then show "point_in_bmp b (POINT (of_int x) (of_int y))"
    "point_cell b (POINT (of_int x) (of_int y)) = nat y * unat (bm_width b) + nat x"
    using assms(2-) by (simp_all only: point_in_bmp_def point_cell_def POINT_sel nat_less_iff)
qed


lemma sint_of_int14: "0 \<le> v \<Longrightarrow> v < 2 ^ 14 \<Longrightarrow> sint (of_int v :: i32) = v"
  by (intro sint_of_int) simp_all

lemma side_lt: "bmp_ok b \<Longrightarrow> int (unat (bm_width b)) < 2 ^ 14 \<and> int (unat (bm_height b)) < 2 ^ 14"
  unfolding bmp_ok_def by (metis of_nat_less_iff of_nat_numeral of_nat_power)

lemma line_loop_ints:
  assumes b: "bmp_ok b" and len: "length bits = length (bm_bits b)"
    and r: "\<And>i. i \<le> n \<Longrightarrow> 0 \<le> f i \<and> f i < int (unat (bm_width b)) \<and> 0 \<le> g i \<and> g i < int (unat (bm_height b))"
    and step: "\<And>i. i < n \<Longrightarrow> line_step dx sx dy sy (POINT (of_int (f i)) (of_int (g i))) (Er i) =
      (POINT (of_int (f (Suc i))) (of_int (g (Suc i))), Er (Suc i))"
    and neq: "\<And>i. i < n \<Longrightarrow> f i \<noteq> f n \<or> g i \<noteq> g n"
  shows "\<exists>bits'. line_loop b col dx sx dy sy (POINT (of_int (f 0)) (of_int (g 0))) (POINT (of_int (f n)) (of_int (g n)))
      bits (Er 0) = Some (Inr bits') \<and>
    painted bits (\<lambda>k. \<exists>i \<in> {0..n}. k = nat (g i) * unat (bm_width b) + nat (f i)) col bits'"
proof -
  have sf: "sint (of_int (f i) :: i32) = f i" "sint (of_int (g i) :: i32) = g i" if "i \<le> n" for i
    using r [OF that] side_lt [OF b] by (intro sint_of_int14; linarith)+
  obtain bits' where l: "line_loop b col dx sx dy sy (POINT (of_int (f 0)) (of_int (g 0))) (POINT (of_int (f n)) (of_int (g n)))
      bits (Er 0) = Some (Inr bits')"
    "painted bits (\<lambda>k. \<exists>i \<in> {0..n}. k = point_cell b (POINT (of_int (f i)) (of_int (g i)))) col bits'"
  proof -
    have "\<exists>bits'. line_loop b col dx sx dy sy (POINT (of_int (f 0)) (of_int (g 0))) (POINT (of_int (f n)) (of_int (g n)))
        bits (Er 0) = Some (Inr bits') \<and>
      painted bits (\<lambda>k. \<exists>i \<in> {0..n}. k = point_cell b (POINT (of_int (f i)) (of_int (g i)))) col bits'"
    proof (rule line_loop_run [where P = "\<lambda>i. POINT (of_int (f i)) (of_int (g i))" and Er = Er and n = n, OF b])
      show "line_step dx sx dy sy (POINT (of_int (f i)) (of_int (g i))) (Er i) =
        (POINT (of_int (f (Suc i))) (of_int (g (Suc i))), Er (Suc i))" if "i < n" for i
        using step [OF that] .
      show "POINT (of_int (f i)) (of_int (g i)) \<noteq> POINT (of_int (f n)) (of_int (g n))" if "i < n" for i
      proof
        assume "POINT (of_int (f i)) (of_int (g i)) = POINT (of_int (f n)) (of_int (g n))"
        then have "(of_int (f i) :: i32) = of_int (f n)" "(of_int (g i) :: i32) = of_int (g n)"
          by (simp_all add: POINT_def)
        moreover have "i \<le> n" using that by simp
        ultimately have "f i = f n" "g i = g n" using sf [of i] sf [of n] by (metis le_refl)+
        then show False using neq [OF that] by blast
      qed
      show "point_in_bmp b (POINT (of_int (f i)) (of_int (g i)))" if "i \<le> n" for i
        using point_of_ints(1) [OF b] r [OF that] by blast
    qed (use len in simp_all)
    then show thesis using that by blast
  qed
  have "painted bits (\<lambda>k. \<exists>i \<in> {0..n}. k = nat (g i) * unat (bm_width b) + nat (f i)) col bits'"
  proof (rule painted_cong [OF l(2)])
    fix k
    show "(\<exists>i \<in> {0..n}. k = point_cell b (POINT (of_int (f i)) (of_int (g i)))) =
      (\<exists>i \<in> {0..n}. k = nat (g i) * unat (bm_width b) + nat (f i))"
      using point_of_ints(2) [OF b] r by (intro bex_cong) auto
  qed
  then show ?thesis using l(1) by blast
qed

text \<open>The words of the loop for a line from \<open>(a, c)\<close> to \<open>(a', c')\<close>.\<close>

definition line_words :: "NXGI_BITMAP \<Rightarrow> NXGI_COLOR \<Rightarrow> int \<Rightarrow> int \<Rightarrow> int \<Rightarrow> int \<Rightarrow> bytes \<Rightarrow> int \<Rightarrow> bytes run option" where
  "line_words b col a c a' c' bits e =
     line_loop b col (of_int \<bar>a' - a\<bar>) (of_int (dir a a')) (of_int \<bar>c' - c\<bar>) (of_int (dir c c'))
       (POINT (of_int a) (of_int c)) (POINT (of_int a') (of_int c')) bits (of_int e)"

lemma x_loop_paints:
  assumes b: "bmp_ok b" and len: "length bits = length (bm_bits b)"
    and a: "0 \<le> a" "a < int (unat (bm_width b))" "0 \<le> a'" "a' < int (unat (bm_width b))"
    and c: "0 \<le> c" "c < int (unat (bm_height b))" "0 \<le> c'" "c' < int (unat (bm_height b))"
    and ED: "\<bar>c' - c\<bar> < \<bar>a' - a\<bar>"
  shows "\<exists>bits'. line_words b col a c a' c' bits (\<bar>a' - a\<bar> div 2) = Some (Inr bits') \<and>
    painted bits (\<lambda>k. \<exists>i \<in> {0..nat \<bar>a' - a\<bar>}.
      k = nat (c + dir c c' * line_minor \<bar>a' - a\<bar> \<bar>c' - c\<bar> (int i)) * unat (bm_width b) + nat (a + dir a a' * int i)) col bits'"
proof -
  define D E where "D = \<bar>a' - a\<bar>" and "E = \<bar>c' - c\<bar>"
  define f where "f i = a + dir a a' * int i" for i
  define g where "g i = c + dir c c' * line_minor D E (int i)" for i
  have DE: "0 \<le> E" "E \<le> D" "0 < D" "D < 2 ^ 14" using ED a side_lt [OF b] by (auto simp: D_def E_def)
  have ends: "f 0 = a" "g 0 = c" "f (nat D) = a'" "g (nat D) = c'"
    using DE(3) dir_reaches by (simp_all add: f_def g_def line_minor_ends D_def E_def)
  have "\<exists>bits'. line_loop b col (of_int D) (of_int (dir a a')) (of_int E) (of_int (dir c c'))
      (POINT (of_int (f 0)) (of_int (g 0))) (POINT (of_int (f (nat D))) (of_int (g (nat D)))) bits
      (of_int (line_err D E (int 0))) = Some (Inr bits') \<and>
    painted bits (\<lambda>k. \<exists>i \<in> {0..nat D}. k = nat (g i) * unat (bm_width b) + nat (f i)) col bits'"
  proof (rule line_loop_ints [OF b len])
    show "0 \<le> f i \<and> f i < int (unat (bm_width b)) \<and> 0 \<le> g i \<and> g i < int (unat (bm_height b))" if "i \<le> nat D" for i
    proof -
      have i: "0 \<le> int i" "int i \<le> D" using that DE(3) by simp_all
      then have "0 \<le> line_minor D E (int i)" "line_minor D E (int i) \<le> E"
        using line_minor_range [OF DE(1,3)] by blast+
      then show ?thesis
        using i a c dir_between [of "int i" a' a] dir_between [of "line_minor D E (int i)" c' c]
        unfolding D_def E_def f_def g_def by blast
    qed
    show "line_step (of_int D) (of_int (dir a a')) (of_int E) (of_int (dir c c')) (POINT (of_int (f i)) (of_int (g i)))
        (of_int (line_err D E (int i))) = (POINT (of_int (f (Suc i))) (of_int (g (Suc i))), of_int (line_err D E (int (Suc i))))" for i
      using x_major_step [OF DE] unfolding x_major_def f_def g_def .
    show "f i \<noteq> f (nat D) \<or> g i \<noteq> g (nat D)" if "i < nat D" for i
      using that dir_neq [of "int i" a' a] unfolding ends(3) by (simp add: f_def D_def zless_nat_eq_int_zless)
  qed
  moreover have "line_err D E (int 0) = D div 2" by (simp add: line_err_def line_minor_ends DE)
  ultimately show ?thesis
    unfolding line_words_def D_def [symmetric] E_def [symmetric] f_def [symmetric] g_def [symmetric]
    unfolding ends by (simp only:)
qed

lemma y_loop_paints:
  assumes b: "bmp_ok b" and len: "length bits = length (bm_bits b)"
    and a: "0 \<le> a" "a < int (unat (bm_width b))" "0 \<le> a'" "a' < int (unat (bm_width b))"
    and c: "0 \<le> c" "c < int (unat (bm_height b))" "0 \<le> c'" "c' < int (unat (bm_height b))"
    and ED: "\<bar>a' - a\<bar> \<le> \<bar>c' - c\<bar>" "c \<noteq> c'"
  shows "\<exists>bits'. line_words b col a c a' c' bits (- (\<bar>c' - c\<bar> div 2)) = Some (Inr bits') \<and>
    painted bits (\<lambda>k. \<exists>i \<in> {0..nat \<bar>c' - c\<bar>}.
      k = nat (c + dir c c' * int i) * unat (bm_width b) + nat (a + dir a a' * line_minor \<bar>c' - c\<bar> \<bar>a' - a\<bar> (int i))) col bits'"
proof -
  define D E where "D = \<bar>a' - a\<bar>" and "E = \<bar>c' - c\<bar>"
  define f where "f i = a + dir a a' * line_minor E D (int i)" for i
  define g where "g i = c + dir c c' * int i" for i
  have DE: "0 \<le> D" "D \<le> E" "0 < E" "E < 2 ^ 14" using ED c side_lt [OF b] by (auto simp: D_def E_def)
  have ends: "f 0 = a" "g 0 = c" "f (nat E) = a'" "g (nat E) = c'"
    using DE(3) dir_reaches by (simp_all add: f_def g_def line_minor_ends D_def E_def)
  have "\<exists>bits'. line_loop b col (of_int D) (of_int (dir a a')) (of_int E) (of_int (dir c c'))
      (POINT (of_int (f 0)) (of_int (g 0))) (POINT (of_int (f (nat E))) (of_int (g (nat E)))) bits
      (of_int (- line_err E D (int 0))) = Some (Inr bits') \<and>
    painted bits (\<lambda>k. \<exists>i \<in> {0..nat E}. k = nat (g i) * unat (bm_width b) + nat (f i)) col bits'"
  proof (rule line_loop_ints [OF b len])
    show "0 \<le> f i \<and> f i < int (unat (bm_width b)) \<and> 0 \<le> g i \<and> g i < int (unat (bm_height b))" if "i \<le> nat E" for i
    proof -
      have i: "0 \<le> int i" "int i \<le> E" using that DE(3) by simp_all
      then have "0 \<le> line_minor E D (int i)" "line_minor E D (int i) \<le> D"
        using line_minor_range [OF DE(1,3)] by blast+
      then show ?thesis
        using i a c dir_between [of "int i" c' c] dir_between [of "line_minor E D (int i)" a' a]
        unfolding D_def E_def f_def g_def by blast
    qed
    show "line_step (of_int D) (of_int (dir a a')) (of_int E) (of_int (dir c c')) (POINT (of_int (f i)) (of_int (g i)))
        (of_int (- line_err E D (int i))) = (POINT (of_int (f (Suc i))) (of_int (g (Suc i))), of_int (- line_err E D (int (Suc i))))" for i
      using y_major_step [OF DE] unfolding y_major_def f_def g_def .
    show "f i \<noteq> f (nat E) \<or> g i \<noteq> g (nat E)" if "i < nat E" for i
      using that dir_neq [of "int i" c' c] unfolding ends(4) by (simp add: g_def E_def zless_nat_eq_int_zless)
  qed
  moreover have "- line_err E D (int 0) = - (E div 2)" by (simp add: line_err_def line_minor_ends DE)
  ultimately show ?thesis
    unfolding line_words_def D_def [symmetric] E_def [symmetric] f_def [symmetric] g_def [symmetric]
    unfolding ends by (simp only:)
qed


lemma line_pixels_cell:
  assumes "bmp_ok b" and "point_in_bmp b p" and "point_in_bmp b q" and x: "x < unat (bm_width b)"
    and P: "\<And>k. P k \<longleftrightarrow> (\<exists>i \<in> I. k = g i * unat (bm_width b) + f i)"
    and f: "\<And>i. i \<in> I \<Longrightarrow> f i < unat (bm_width b)"
    and L: "line_pixels p q = (\<lambda>i. (f i, g i)) ` I"
  shows "P (y * unat (bm_width b) + x) \<longleftrightarrow> (x, y) \<in> line_pixels p q"
proof
  assume "P (y * unat (bm_width b) + x)"
  then obtain i where i: "i \<in> I" and e: "y * unat (bm_width b) + x = g i * unat (bm_width b) + f i"
    unfolding P by blast
  have "(y * unat (bm_width b) + x) mod unat (bm_width b) = (g i * unat (bm_width b) + f i) mod unat (bm_width b)"
    "(y * unat (bm_width b) + x) div unat (bm_width b) = (g i * unat (bm_width b) + f i) div unat (bm_width b)"
    using e by simp_all
  then have "x = f i" "y = g i" using x f [OF i] by simp_all
  then show "(x, y) \<in> line_pixels p q" unfolding L using i by blast
qed (auto simp: L P)

lemma draw_line_bits_slanted:
  fixes gc b xa ya xb yb
  defines "p \<equiv> intrnl_transform_point gc (POINT xa ya)" and "q \<equiv> intrnl_transform_point gc (POINT xb yb)"
  assumes b: "bmp_ok b" and pq: "point_in_bmp b p" "point_in_bmp b q"
    and slant: "px p \<noteq> px q" "py p \<noteq> py q"
    and vis: "nxgig_line_rect_intersect (POINT xa ya) (POINT xb yb)
      (nxgig_rect_offset (gc_clip_rect gc) (POINT (- px (gc_offset gc)) (- py (gc_offset gc))))"
  shows "\<exists>bits'. draw_line_bits gc b (bm_bits b) xa ya xb yb = Some (Inr bits') \<and>
    (\<exists>P. painted (bm_bits b) P (gc_color gc) bits' \<and>
      (\<forall>x y. x < unat (bm_width b) \<longrightarrow> P (y * unat (bm_width b) + x) = ((x, y) \<in> line_pixels p q)))"
proof -
  obtain a c where a: "px p = of_int a" "py p = of_int c" "sint (px p) = a" "sint (py p) = c"
    "0 \<le> a" "a < int (unat (bm_width b))" "0 \<le> c" "c < int (unat (bm_height b))"
    using point_in_obtain [OF b pq(1)] by blast
  obtain a' c' where a': "px q = of_int a'" "py q = of_int c'" "sint (px q) = a'" "sint (py q) = c'"
    "0 \<le> a'" "a' < int (unat (bm_width b))" "0 \<le> c'" "c' < int (unat (bm_height b))"
    using point_in_obtain [OF b pq(2)] by blast
  define D E where "D = \<bar>a' - a\<bar>" and "E = \<bar>c' - c\<bar>"
  have ne: "a \<noteq> a'" "c \<noteq> c'" using slant a(1,2) a'(1,2) by auto
  have sm: "D < 2 ^ 14" "E < 2 ^ 14" "0 < D" "0 < E"
    using a a' side_lt [OF b] ne by (auto simp: D_def E_def)
  have d: "abs32 (px q - px p) = of_int D" "abs32 (py q - py p) = of_int E"
    unfolding a(1,2) a'(1,2) D_def E_def using sm by (simp_all add: abs32_diff D_def E_def)
  have sg: "(if px p <s px q then 1 else - 1) = (of_int (dir a a') :: i32)"
    "(if py p <s py q then 1 else - 1) = (of_int (dir c c') :: i32)"
    unfolding word_sless_alt a(3,4) a'(3,4) dir_def by simp_all
  have sd: "sint (of_int D :: i32) = D" "sint (of_int E :: i32) = E"
    using sm by (simp_all add: sint_of_int14)
  have h: "half32 (if of_int E <s (of_int D :: i32) then of_int D else - of_int E) =
      of_int (if E < D then D div 2 else - (E div 2))"
    using sm half32_pos [of D] half32_neg [of E] by (simp add: word_sless_alt sd)
  have PQ: "p = POINT (of_int a) (of_int c)" "q = POINT (of_int a') (of_int c')"
    using a(1,2) a'(1,2) by (simp_all add: POINT_def)
  have eq: "draw_line_bits gc b (bm_bits b) xa ya xb yb =
      line_words b (gc_color gc) a c a' c' (bm_bits b) (if E < D then D div 2 else - (E div 2))"
    unfolding draw_line_bits_def Let_def p_def [symmetric] q_def [symmetric] d h sg line_words_def D_def [symmetric] E_def [symmetric]
    using vis slant by (simp only: PQ [symmetric] if_False if_True not_not simp_thms)
  have L: "line_pixels p q = (if E < D
      then (\<lambda>i. (nat (a + dir a a' * int i), nat (c + dir c c' * line_minor D E (int i)))) ` {0..nat D}
      else (\<lambda>i. (nat (a + dir a a' * line_minor E D (int i)), nat (c + dir c c' * int i))) ` {0..nat E})"
    unfolding line_pixels_def Let_def a(3,4) a'(3,4) D_def [symmetric] E_def [symmetric] by auto
  have col: "nat (a + dir a a' * i) < unat (bm_width b)" if "0 \<le> i" "i \<le> D" for i
    using dir_between [of i a' a "int (unat (bm_width b))"] that a(5,6) a'(5,6) unfolding D_def
    by (metis nat_less_iff)
  show ?thesis
  proof (cases "E < D")
    case True
    let ?P = "\<lambda>k. \<exists>i \<in> {0..nat D}. k = nat (c + dir c c' * line_minor D E (int i)) * unat (bm_width b) + nat (a + dir a a' * int i)"
    obtain bits' where r: "line_words b (gc_color gc) a c a' c' (bm_bits b) (D div 2) = Some (Inr bits')"
      "painted (bm_bits b) ?P (gc_color gc) bits'"
      using x_loop_paints [OF b refl a(5,6) a'(5,6) a(7,8) a'(7,8)] True unfolding D_def E_def by blast
    have "?P (y * unat (bm_width b) + x) = ((x, y) \<in> line_pixels p q)" if "x < unat (bm_width b)" for x y
      by (rule line_pixels_cell [OF b pq that, where I = "{0..nat D}"]) (use True L col sm in \<open>auto simp: le_nat_iff\<close>)
    then show ?thesis using r eq True by auto
  next
    case False
    let ?P = "\<lambda>k. \<exists>i \<in> {0..nat E}. k = nat (c + dir c c' * int i) * unat (bm_width b) + nat (a + dir a a' * line_minor E D (int i))"
    obtain bits' where r: "line_words b (gc_color gc) a c a' c' (bm_bits b) (- (E div 2)) = Some (Inr bits')"
      "painted (bm_bits b) ?P (gc_color gc) bits'"
    proof -
      have "\<bar>a' - a\<bar> \<le> \<bar>c' - c\<bar>" using False by (simp add: D_def E_def)
      then show thesis
        using y_loop_paints [OF b refl a(5,6) a'(5,6) a(7,8) a'(7,8) _ ne(2)] that unfolding D_def E_def by blast
    qed
    have m: "0 \<le> line_minor E D (int i) \<and> line_minor E D (int i) \<le> D" if "i \<le> nat E" for i
      using that sm by (intro line_minor_range) simp_all
    have "?P (y * unat (bm_width b) + x) = ((x, y) \<in> line_pixels p q)" if "x < unat (bm_width b)" for x y
      by (rule line_pixels_cell [OF b pq that, where I = "{0..nat E}"]) (use False L col m in auto)
    then show ?thesis using r eq False by auto
  qed
qed

text \<open>C26. A slanted line whose clipped ends lie in the bitmap is drawn: the loop returns, and exactly the
  pixels nearest to the straight line, one per step of the longer axis, get the colour.\<close>

theorem draw_line_bresenham:
  assumes on: "gc_on st g gc b"
    and pq: "point_in_bmp b (intrnl_transform_point gc (POINT xa ya))" "point_in_bmp b (intrnl_transform_point gc (POINT xb yb))"
    and slant: "px (intrnl_transform_point gc (POINT xa ya)) \<noteq> px (intrnl_transform_point gc (POINT xb yb))"
      "py (intrnl_transform_point gc (POINT xa ya)) \<noteq> py (intrnl_transform_point gc (POINT xb yb))"
    and vis: "nxgig_line_rect_intersect (POINT xa ya) (POINT xb yb)
      (nxgig_rect_offset (gc_clip_rect gc) (POINT (- px (gc_offset gc)) (- py (gc_offset gc))))"
  shows "\<exists>b'. graphics_draw_line_bgra32 g xa ya xb yb st = Some (Inr (S_OK, put_bmp (gc_target gc) b' st)) \<and>
    (\<forall>x y. x < unat (bm_width b) \<and> y < unat (bm_height b) \<longrightarrow>
       pixel b' x y = (if (x, y) \<in> line_pixels (intrnl_transform_point gc (POINT xa ya)) (intrnl_transform_point gc (POINT xb yb))
                       then gc_color gc else pixel b x y))"
proof -
  have b: "bmp_ok b" using on by (simp add: gc_on_def)
  obtain bits' P where r: "draw_line_bits gc b (bm_bits b) xa ya xb yb = Some (Inr bits')"
    "painted (bm_bits b) P (gc_color gc) bits'"
    "\<forall>x y. x < unat (bm_width b) \<longrightarrow> P (y * unat (bm_width b) + x) =
      ((x, y) \<in> line_pixels (intrnl_transform_point gc (POINT xa ya)) (intrnl_transform_point gc (POINT xb yb)))"
    using draw_line_bits_slanted [OF b pq slant vis] by blast
  have "graphics_draw_line_bgra32 g xa ya xb yb st = Some (Inr (S_OK, put_bmp (gc_target gc) (b\<lparr>bm_bits := bits'\<rparr>) st))"
    using on r(1) by (simp add: graphics_draw_line_bgra32_def gc_on_def)
  moreover have "pixel (b\<lparr>bm_bits := bits'\<rparr>) x y =
      (if (x, y) \<in> line_pixels (intrnl_transform_point gc (POINT xa ya)) (intrnl_transform_point gc (POINT xb yb))
       then gc_color gc else pixel b x y)" if "x < unat (bm_width b) \<and> y < unat (bm_height b)" for x y
    using painted_pixel [OF b r(2)] r(3) that by simp
  ultimately show ?thesis by (intro exI [of _ "b\<lparr>bm_bits := bits'\<rparr>"] conjI allI impI)
qed

lemma draw_line_bresenham_witness:
  "\<exists>b'. graphics_draw_line_bgra32 1 0 0 3 2 demo_gfx = Some (Inr (S_OK, put_bmp 2 b' demo_gfx)) \<and>
     pixel b' 1 1 = COLOR 1 2 3 4"
proof -
  have h: "point_in_bmp demo_bmp (intrnl_transform_point demo_gc (POINT 0 0))"
    "point_in_bmp demo_bmp (intrnl_transform_point demo_gc (POINT 3 2))"
    "px (intrnl_transform_point demo_gc (POINT 0 0)) \<noteq> px (intrnl_transform_point demo_gc (POINT 3 2))"
    "py (intrnl_transform_point demo_gc (POINT 0 0)) \<noteq> py (intrnl_transform_point demo_gc (POINT 3 2))"
    "nxgig_line_rect_intersect (POINT 0 0) (POINT 3 2)
      (nxgig_rect_offset (gc_clip_rect demo_gc) (POINT (- px (gc_offset demo_gc)) (- py (gc_offset demo_gc))))"
    by code_simp+
  have t: "intrnl_transform_point demo_gc (POINT 0 0) = POINT 0 0" "intrnl_transform_point demo_gc (POINT 3 2) = POINT 3 2"
    by code_simp+
  have "(1, 1) \<in> line_pixels (POINT 0 0) (POINT 3 2)"
    unfolding line_pixels_def Let_def
    by (simp add: dir_def line_minor_def image_iff) (intro exI [of _ 1] conjI bexI [of _ 1], auto)
  moreover have "1 < unat (bm_width demo_bmp)" "1 < unat (bm_height demo_bmp)" "gc_color demo_gc = COLOR 1 2 3 4"
    "gc_target demo_gc = 2"
    by code_simp+
  ultimately show ?thesis using draw_line_bresenham [OF demo_gc_on h] unfolding t by fastforce
qed

end
