(* ===== verification/Surface.thy ===== *)
theory Surface
  imports Lines
begin

text \<open>
  Contexts and bitmaps as a state: every operation of \<open>Graphics\<close> keeps it well-formed. What drawing does at
  the edges of a bitmap.
\<close>

section \<open>Drawing keeps the shape of a bitmap\<close>

lemma store_color_length: "store_color bits off c = Inr bits' \<Longrightarrow> length bits' = length bits"
  by (auto simp: store_color_def split: if_splits)

lemma pixel_run_length: "pixel_run bits off step c n = Inr bits' \<Longrightarrow> length bits' = length bits"
  by (induction n arbitrary: bits off) (auto dest: store_color_length)

lemma hline_length: "intrnl_draw_hline_bgra32 gc b bits xa y xb = Inr bits' \<Longrightarrow> length bits' = length bits"
  by (auto simp: intrnl_draw_hline_bgra32_def Let_def split: prod.splits dest: pixel_run_length)

lemma vline_length: "intrnl_draw_vline_bgra32 gc b bits x ya yb = Inr bits' \<Longrightarrow> length bits' = length bits"
  by (auto simp: intrnl_draw_vline_bgra32_def Let_def split: prod.splits dest: pixel_run_length)

lemma fill_loop_length: "fill_loop gc b bits xa xb y n = Inr bits' \<Longrightarrow> length bits' = length bits"
  by (induction n arbitrary: bits y) (auto dest: hline_length)

lemma fill_rect_bits_length: "fill_rect_bits gc b r = Inr (hr, bits') \<Longrightarrow> length bits' = length (bm_bits b)"
  by (auto simp: fill_rect_bits_def Let_def split: if_splits prod.splits dest: fill_loop_length)

lemma line_loop_length:
  assumes "line_loop b c dx sx dy sy p q bits err = Some (Inr bits')"
  shows "length bits' = length bits"
proof -
  have "\<forall>bits'. r = Inr bits' \<longrightarrow> length bits' = length bits"
    if "line_loop b c dx sx dy sy p q bits err = Some r" for r
  proof (rule line_loop.raw_induct
      [of "\<lambda>b c dx sx dy sy p q bits err r. \<forall>bits'. r = Inr bits' \<longrightarrow> length bits' = length bits", OF _ that])
    fix f b c dx sx dy sy p q bits err r
    assume IH: "\<And>b c dx sx dy sy p q bits err r. f b c dx sx dy sy p q bits err = Some r \<Longrightarrow>
        \<forall>bits'. r = Inr bits' \<longrightarrow> length bits' = length bits"
      and body: "(case store_color bits (pixel_offset b (px p) (py p)) c of
        Inl h \<Rightarrow> Some (Inl h)
      | Inr bits \<Rightarrow>
          if px p = px q \<and> py p = py q then Some (Inr bits)
          else f b c dx sx dy sy
              (POINT (if - dx <s err then px p + sx else px p) (if err <s dy then py p + sy else py p)) q bits
              ((if - dx <s err then err - dy else err) + (if err <s dy then dx else 0))) = Some r"
    show "\<forall>bits'. r = Inr bits' \<longrightarrow> length bits' = length bits"
    proof (cases "store_color bits (pixel_offset b (px p) (py p)) c")
      case (Inl h)
      then show ?thesis using body by auto
    next
      case (Inr b1)
      then have l: "length b1 = length bits" by (rule store_color_length)
      show ?thesis
      proof (cases "px p = px q \<and> py p = py q")
        case True
        then show ?thesis using Inr l body by auto
      next
        case False
        then have "f b c dx sx dy sy
          (POINT (if - dx <s err then px p + sx else px p) (if err <s dy then py p + sy else py p)) q b1
          ((if - dx <s err then err - dy else err) + (if err <s dy then dx else 0)) = Some r"
          using body unfolding Inr by (simp only: sum.case if_False)
        from IH [OF this] show ?thesis using l by simp
      qed
    qed
  qed
  then show ?thesis using assms by blast
qed

lemma draw_line_bits_length:
  "draw_line_bits gc b bits xa ya xb yb = Some (Inr bits') \<Longrightarrow> length bits' = length bits"
  unfolding draw_line_bits_def Let_def
  by (auto split: if_splits dest: vline_length hline_length line_loop_length)

lemma glyph_row_length: "glyph_row c pp gl i n bits = Inr bits' \<Longrightarrow> length bits' = length bits"
  by (induction n arbitrary: i bits) (auto simp: Let_def split: if_splits dest: store_color_length)

lemma char_rows_length: "char_rows b col x y c j n bits = Inr bits' \<Longrightarrow> length bits' = length bits"
  by (induction n arbitrary: j bits) (auto simp: Let_def split: if_splits dest: glyph_row_length)

lemma draw_char_length: "intrnl_draw_char_bgra32 b bits x y font c = Inr bits' \<Longrightarrow> length bits' = length bits"
  by (auto simp: intrnl_draw_char_bgra32_def split: if_splits dest: char_rows_length)

lemma glyph_row_segment_length: "glyph_row_segment c cr x pp gl i n bits = Inr bits' \<Longrightarrow> length bits' = length bits"
  by (induction n arbitrary: i bits) (auto simp: Let_def split: if_splits dest: store_color_length)

lemma char_rows_segment_length: "char_rows_segment b col x y cr c j n bits = Inr bits' \<Longrightarrow> length bits' = length bits"
  by (induction n arbitrary: j bits) (auto simp: Let_def split: if_splits dest: glyph_row_segment_length)

lemma draw_char_segment_length:
  "intrnl_draw_char_segment_bgra32 b bits x y cr font c = Inr bits' \<Longrightarrow> length bits' = length bits"
  by (auto simp: intrnl_draw_char_segment_bgra32_def split: if_splits dest: char_rows_segment_length)

lemma draw_text_loop_length: "draw_text_loop gc b pos cntr cs bits = Inr bits' \<Longrightarrow> length bits' = length bits"
proof (induction cs arbitrary: pos cntr bits)
  case (Cons c cs)
  then show ?case
    by (simp only: draw_text_loop.simps Let_def split: if_splits)
       (auto dest!: draw_char_length draw_char_segment_length)
qed simp

section \<open>Well-formed states\<close>

text \<open>Every bitmap is good, and every context that has a target has one of them, with a clip rectangle
  inside it.\<close>

definition gc_ok :: "nxgi \<Rightarrow> NXGI_GRAPHICS_CONTEXT \<Rightarrow> bool" where
  "gc_ok st gc \<longleftrightarrow> gc_target gc = 0 \<or>
     (\<exists>b. bmps st (gc_target gc) = Some b \<and> clip_ok (gc_clip_rect gc) b)"

definition nxgi_ok :: "nxgi \<Rightarrow> bool" where
  "nxgi_ok st \<longleftrightarrow> (\<forall>p b. bmps st p = Some b \<longrightarrow> bmp_ok b) \<and> (\<forall>g gc. gcs st g = Some gc \<longrightarrow> gc_ok st gc)"

text \<open>The same bitmaps up to their pixels and reference counts.\<close>

definition same_bitmap :: "NXGI_BITMAP \<Rightarrow> NXGI_BITMAP \<Rightarrow> bool" where
  "same_bitmap b b' \<longleftrightarrow> length (bm_bits b') = length (bm_bits b) \<and> bm_width b' = bm_width b \<and>
     bm_height b' = bm_height b \<and> bm_stride b' = bm_stride b \<and> bm_bpp b' = bm_bpp b"

lemma same_bitmap_ok: "same_bitmap b b' \<Longrightarrow> bmp_ok b' = bmp_ok b" "same_bitmap b b' \<Longrightarrow> clip_ok r b' = clip_ok r b"
  by (simp_all add: same_bitmap_def bmp_ok_def clip_ok_def)

definition only_pixels :: "nxgi \<Rightarrow> nxgi \<Rightarrow> bool" where
  "only_pixels st st' \<longleftrightarrow> gcs st' = gcs st \<and>
     (\<forall>p. (bmps st p = None \<longrightarrow> bmps st' p = None) \<and>
          (\<forall>b. bmps st p = Some b \<longrightarrow> (\<exists>b'. bmps st' p = Some b' \<and> same_bitmap b b')))"

lemma same_bitmap_refl: "same_bitmap b b"
  by (simp add: same_bitmap_def)

lemma same_bitmap_trans: "same_bitmap a b \<Longrightarrow> same_bitmap b c \<Longrightarrow> same_bitmap a c"
  by (simp add: same_bitmap_def)

lemma only_pixels_refl [simp]: "only_pixels st st"
  by (simp add: only_pixels_def same_bitmap_refl)

lemma only_pixels_trans:
  assumes "only_pixels a b" and "only_pixels b c"
  shows "only_pixels a c"
proof -
  have "\<exists>y. bmps c p = Some y \<and> same_bitmap x y" if "bmps a p = Some x" for p x
    using assms that same_bitmap_trans unfolding only_pixels_def by blast
  then show ?thesis using assms by (simp add: only_pixels_def)
qed

lemma only_pixels_put:
  assumes "bmp_at st p = Inr b" and "same_bitmap b b'"
  shows "only_pixels st (put_bmp p b' st)"
proof -
  have "bmps st p = Some b" using assms(1) by (auto simp: bmp_at_def split: if_splits option.splits)
  then show ?thesis using assms(2) by (simp add: only_pixels_def put_bmp_def same_bitmap_refl)
qed

lemma only_pixels_bits: "bmp_at st p = Inr b \<Longrightarrow> length bits = length (bm_bits b) \<Longrightarrow>
   only_pixels st (put_bmp p (b\<lparr>bm_bits := bits\<rparr>) st)"
  by (erule only_pixels_put) (simp add: same_bitmap_def)

lemma only_pixels_ok:
  assumes "only_pixels st st'" and "nxgi_ok st"
  shows "nxgi_ok st'"
  unfolding nxgi_ok_def
proof (intro conjI allI impI)
  fix p b' assume p: "bmps st' p = Some b'"
  then obtain b where "bmps st p = Some b" "same_bitmap b b'"
    using assms(1) unfolding only_pixels_def by (metis not_None_eq option.inject)
  then show "bmp_ok b'" using assms(2) same_bitmap_ok(1) unfolding nxgi_ok_def by blast
next
  fix g gc assume "gcs st' g = Some gc"
  then have "gc_ok st gc" using assms unfolding only_pixels_def nxgi_ok_def by simp
  then show "gc_ok st' gc"
    using assms(1) same_bitmap_ok(2) unfolding only_pixels_def gc_ok_def by metis
qed

lemma with_target_pixels:
  assumes "with_target g st f = Inr (hr, st')"
    and "\<And>gc b hr bits. f gc b = Inr (hr, bits) \<Longrightarrow> length bits = length (bm_bits b)"
  shows "only_pixels st st'"
  using assms unfolding with_target_def
  by (auto split: if_splits intro!: only_pixels_bits)

lemma set_pixel_pixels: "graphics_set_pixel_bgra32 g pos c st = Inr (hr, st') \<Longrightarrow> only_pixels st st'"
  unfolding graphics_set_pixel_bgra32_def by (erule with_target_pixels) (auto dest: store_color_length)

lemma fill_rect_pixels: "graphics_fill_rect_bgra32 g r st = Inr (hr, st') \<Longrightarrow> only_pixels st st'"
  unfolding graphics_fill_rect_bgra32_def by (erule with_target_pixels) (auto dest: fill_rect_bits_length)

lemma draw_text_pixels: "graphics_draw_text_bgra32 g pos txt st = Inr (hr, st') \<Longrightarrow> only_pixels st st'"
  unfolding graphics_draw_text_bgra32_def
  by (erule with_target_pixels) (auto simp: Let_def split: if_splits dest: draw_text_loop_length)

lemma bindO_eq_Some_Inr [simp]:
  "bindO m k = Some (Inr y) \<longleftrightarrow> (\<exists>x. m = Some (Inr x) \<and> k x = Some (Inr y))"
proof (cases m)
  case (Some r)
  then show ?thesis by (cases r) auto
qed simp

lemma draw_line_pixels: "graphics_draw_line_bgra32 g xa ya xb yb st = Some (Inr (hr, st')) \<Longrightarrow> only_pixels st st'"
  unfolding graphics_draw_line_bgra32_def
  by (auto split: if_splits intro!: only_pixels_bits dest: draw_line_bits_length)

lemma draw_rect_pixels: "graphics_draw_rect_bgra32 g r st = Some (Inr (hr, st')) \<Longrightarrow> only_pixels st st'"
  unfolding graphics_draw_rect_bgra32_def Let_def
  by (auto split: if_splits dest!: draw_line_pixels intro: only_pixels_trans)

lemma copy_bytes_pixels: "copy_bytes d doff s soff n st = Inr st' \<Longrightarrow> only_pixels st st'"
proof (induction n arbitrary: doff soff st)
  case (Suc n)
  obtain sb where sb: "bmp_at st s = Inr sb" using Suc.prems by auto
  obtain db where d: "bmp_at st d = Inr db" using Suc.prems by auto
  have r: "copy_bytes d (doff + 1) s (soff + 1) n
      (put_bmp d (db\<lparr>bm_bits := (bm_bits db)[unat doff := bm_bits sb ! unat soff]\<rparr>) st) = Inr st'"
    using Suc.prems by (simp add: sb d)
  have "only_pixels st (put_bmp d (db\<lparr>bm_bits := (bm_bits db)[unat doff := bm_bits sb ! unat soff]\<rparr>) st)"
    by (rule only_pixels_bits [OF d]) simp
  then show ?case using Suc.IH [OF r] only_pixels_trans by blast
qed simp

lemma blit_loop_pixels:
  "blit_loop d db s sb cl sr co ls ho sho j n st = Inr st' \<Longrightarrow> only_pixels st st'"
  by (induction n arbitrary: j st) (auto dest!: copy_bytes_pixels intro: only_pixels_trans)

lemma bitblt_pixels: "graphics_bitblt_bgra32 g pos s r st = Inr (hr, st') \<Longrightarrow> only_pixels st st'"
  unfolding graphics_bitblt_bgra32_def Let_def
  by (auto split: if_splits prod.splits dest: blit_loop_pixels)


section \<open>Operations as steps\<close>

text \<open>The video driver sets a mode of 32 bits per pixel and at most \<open>2\<^sup>1\<^sup>4\<close> pixels per side, and the frame buffer it
  locks has that many rows without padding.\<close>

definition driver_ok :: "video_iface \<Rightarrow> bool" where
  "driver_ok vi \<longleftrightarrow> (case vi_lock_fb vi of (hr, fb, stride) \<Rightarrow>
     let m = vi_get_mode vi in
       vm_bpp m = 32 \<and> unat (vm_width m) < 2 ^ 14 \<and> unat (vm_height m) < 2 ^ 14 \<and>
       unat stride = 4 * unat (vm_width m) \<and> length fb = 4 * (unat (vm_width m) * unat (vm_height m)))"

text \<open>One operation, of the whole interface: those that return a value and leave the state alone are left out. The
  allocators return unused addresses and as many bytes as asked for; bitmaps have fewer than \<open>2\<^sup>1\<^sup>4\<close> pixels per
  side; a bitmap is destroyed, and the screen taken down, when no context draws on it, which the code leaves to its
  callers.\<close>

inductive gfx_step :: "nxgi \<Rightarrow> nxgi \<Rightarrow> bool" where
  create_bitmap: "gfx_step st st'"
    if "nxgi_create_bitmap w h fmt p km st = (hr, p', st')" and "bmps st p = None"
      and "unat w < 2 ^ 14" and "unat h < 2 ^ 14" and "\<And>n bits. km n = Some bits \<Longrightarrow> length bits = unat n"
| destroy_bitmap: "gfx_step st st'"
    if "nxgi_destroy_bitmap p st = Inr (hr, p', st')" and "\<And>g gc. gcs st g = Some gc \<Longrightarrow> gc_target gc \<noteq> p"
| create_context: "gfx_step st st'" if "nxgi_create_graphics_context g st = Inr (hr, g', st')"
| destroy_context: "gfx_step st st'" if "nxgi_destroy_graphics_context g st = Inr st'"
| set_target: "gfx_step st st'" if "nxgi_set_target g p st = Inr (hr, st')"
| set_clip_rect: "gfx_step st st'" if "nxgi_set_clip_rect g r st = Inr (hr, st')"
| set_color: "gfx_step st st'" if "nxgi_set_color g c st = Inr (hr, st')"
| set_offset: "gfx_step st st'" if "nxgi_set_offset g d st = Inr (hr, st')"
| set_font: "gfx_step st st'" if "nxgi_set_font g f st = Inr (hr, st')"
| set_pixel: "gfx_step st st'" if "graphics_set_pixel_bgra32 g d c st = Inr (hr, st')"
| draw_line: "gfx_step st st'" if "nxgi_draw_line g xa ya xb yb st = Some (Inr (hr, st'))"
| draw_rect: "gfx_step st st'" if "nxgi_draw_rect g r st = Some (Inr (hr, st'))"
| fill_rect: "gfx_step st st'" if "nxgi_fill_rect g r st = Inr (hr, st')"
| bitblt: "gfx_step st st'" if "nxgi_bitblt g d p r st = Inr (hr, st')"
| draw_text: "gfx_step st st'" if "nxgi_draw_text g d cs st = Inr (hr, st')"
| draw_aligned_text: "gfx_step st st'" if "nxgi_draw_aligned_text g box ha va cs st = Inr (hr, st')"
| stretchblt: "gfx_step st st'" if "nxgi_stretchblt g dr p r st = Inr (hr, st')"
| alphablend: "gfx_step st st'" if "nxgi_alphablend g d p r st = Inr (hr, st')"
| init: "gfx_step st st'"
    if "nxgi_init fopen (hr0, vi) p xres yres fmt st = Inr (hr, st')" and "bmps st p = None" and "driver_ok vi"
| fini: "gfx_step st st'"
    if "nxgi_fini ioctl st = Inr (hr, st')" and "\<And>g gc. screen_surf st \<noteq> 0 \<Longrightarrow> gcs st g = Some gc \<Longrightarrow> gc_target gc \<noteq> screen_surf st"

lemma nxgi_okD:
  "nxgi_ok st \<Longrightarrow> bmps st p = Some b \<Longrightarrow> bmp_ok b"
  "nxgi_ok st \<Longrightarrow> gcs st g = Some gc \<Longrightarrow> gc_ok st gc"
  by (simp_all add: nxgi_ok_def)

lemma bmp_at_Some: "bmp_at st p = Inr b \<longleftrightarrow> p \<noteq> 0 \<and> bmps st p = Some b"
  by (auto simp: bmp_at_def split: option.splits)

lemma gc_at_Some: "gc_at st g = Inr gc \<longleftrightarrow> g \<noteq> 0 \<and> gcs st g = Some gc"
  by (auto simp: gc_at_def split: option.splits)

lemma gc_ok_put_gc [simp]: "gc_ok (put_gc g gc' st) gc = gc_ok st gc"
  by (simp add: gc_ok_def put_gc_def)

lemma put_gc_ok: "nxgi_ok st \<Longrightarrow> gc_ok st gc \<Longrightarrow> nxgi_ok (put_gc g gc st)"
  unfolding nxgi_ok_def gc_ok_put_gc by (auto simp: put_gc_def)

lemma refs_pixels: "bmp_at st p = Inr b \<Longrightarrow> only_pixels st (put_bmp p (b\<lparr>bm_refs := n\<rparr>) st)"
  by (erule only_pixels_put) (simp add: same_bitmap_def)

lemma put_bmp_ok:
  assumes ok: "nxgi_ok st" and p: "bmps st p = None" and b: "bmp_ok b"
  shows "nxgi_ok (put_bmp p b st)"
  unfolding nxgi_ok_def
proof (intro conjI allI impI)
  fix q b' assume "bmps (put_bmp p b st) q = Some b'"
  then show "bmp_ok b'" using nxgi_okD(1) [OF ok] b by (auto simp: put_bmp_def split: if_splits)
next
  fix g gc assume "gcs (put_bmp p b st) g = Some gc"
  then have "gc_ok st gc" using nxgi_okD(2) [OF ok] by (simp add: put_bmp_def)
  then show "gc_ok (put_bmp p b st) gc"
    using p unfolding gc_ok_def put_bmp_def by (cases "gc_target gc = p") auto
qed

lemma create_bitmap_ok:
  assumes "nxgi_create_bitmap w h fmt p km st = (hr, p', st')" and p: "bmps st p = None" and ok: "nxgi_ok st"
    and wh: "unat w < 2 ^ 14" "unat h < 2 ^ 14" and km: "\<And>n bits. km n = Some bits \<Longrightarrow> length bits = unat n"
  shows "nxgi_ok st'"
proof -
  have bpp: "nxgi_format_to_bpp fmt = 32" by (cases fmt) (simp_all add: nxgi_format_to_bpp_def)
  have stride: "unat (w * 32 div 8) = 4 * unat w"
    using wh by (subst unat_div_8, subst unat_mult_small) simp_all
  have "unat w * unat h \<le> 2 ^ 14 * 2 ^ 14" using wh by (intro mult_le_mono) auto
  then have "4 * (unat w * unat h) \<le> 4 * (2 ^ 14 * 2 ^ 14)" by (rule mult_le_mono2)
  then have "4 * unat w * unat h \<le> 4 * (2 ^ 14 * 2 ^ 14)" by (simp only: mult.assoc)
  then have "4 * unat w * unat h < 2 ^ 32" by (rule le_less_trans) simp
  then have "unat (w * 32 div 8 * h) = 4 * (unat w * unat h)"
    by (subst unat_mult_small) (simp_all add: stride)
  then have new: "bmp_ok \<lparr>bm_width = w, bm_stride = w * 32 div 8, bm_height = h, bm_bpp = 32, bm_format = fmt,
      bm_refs = 0, bm_tag = NXGI_BITMAP_TAG_DEFAULT, bm_bits = bits, bm_destroy = nxgi_destroy_bitmap_fn\<rparr>"
    if "km (w * 32 div 8 * h) = Some bits" for bits
    using km [OF that] wh stride by (simp add: bmp_ok_def)
  show ?thesis
    using assms(1) ok put_bmp_ok [OF ok p] new unfolding nxgi_create_bitmap_def bpp Let_def
    by (auto split: if_splits option.splits)
qed

lemma set_clip_rect_ok:
  assumes "graphics_set_clip_rect g r st = Inr (hr, st')" and "nxgi_ok st"
  shows "nxgi_ok st'"
proof -
  obtain gc b where g: "gc_at st g = Inr gc" and b: "bmp_at st (gc_target gc) = Inr b"
    using assms(1) by (auto simp: graphics_set_clip_rect_def)
  define r' where "r' = RECT (clamp_high (bm_width b) (clamp_low (x1 r))) (clamp_high (bm_height b) (clamp_low (y1 r)))
    (clamp_high (bm_width b) (clamp_low (x2 r))) (clamp_high (bm_height b) (clamp_low (y2 r)))"
  have st': "st' = put_gc g (gc\<lparr>gc_clip_rect := r'\<rparr>) st"
    using assms(1) by (simp add: graphics_set_clip_rect_def g b Let_def r'_def)
  have "bmp_ok b" using nxgi_okD(1) [OF assms(2)] b unfolding bmp_at_Some by blast
  then have "unat (bm_width b) < 2 ^ 31" "unat (bm_height b) < 2 ^ 31" by (simp_all add: bmp_ok_def)
  then have s: "sint (bm_width b) = int (unat (bm_width b))" "sint (bm_height b) = int (unat (bm_height b))"
    by (simp_all only: sint_small_unat)
  have "in_side (clamp_high m (clamp_low v)) m" if "sint m = int (unat m)" for m v
    unfolding in_side_def clamp_high_def clamp_low_def word_sless_alt using that by auto
  then have "clip_ok r' b" using s by (simp add: clip_ok_def r'_def)
  then have "gc_ok st (gc\<lparr>gc_clip_rect := r'\<rparr>)" using b by (simp add: gc_ok_def bmp_at_Some)
  then show ?thesis using put_gc_ok [OF assms(2)] st' by simp
qed

lemma detach_ok:
  assumes "detach_target g gc st = Inr st'" and "nxgi_ok st" and "gcs st g = Some gc"
  shows "nxgi_ok st' \<and> (gc_target gc \<noteq> 0 \<longrightarrow> gcs st' g = Some (gc\<lparr>gc_target := 0\<rparr>)) \<and> (gc_target gc = 0 \<longrightarrow> st' = st)"
proof (cases "gc_target gc = 0")
  case False
  then obtain b where b: "bmp_at st (gc_target gc) = Inr b"
    and st': "st' = put_gc g (gc\<lparr>gc_target := 0\<rparr>) (put_bmp (gc_target gc) (b\<lparr>bm_refs := bm_refs b - 1\<rparr>) st)"
    using assms(1) by (auto simp: detach_target_def)
  have "nxgi_ok (put_bmp (gc_target gc) (b\<lparr>bm_refs := bm_refs b - 1\<rparr>) st)"
    using only_pixels_ok [OF refs_pixels [OF b] assms(2)] .
  then have "nxgi_ok st'" unfolding st' by (rule put_gc_ok) (simp add: gc_ok_def)
  then show ?thesis using False by (simp add: st' put_gc_def)
qed (use assms in \<open>simp add: detach_target_def\<close>)

text \<open>Attaching: in between, the old clip rectangle belongs to the new target, so the clip rectangle is
  set before the state is well-formed again.\<close>

lemma attach_ok:
  assumes "attach_target g p st = Inr (hr, st')" and ok: "nxgi_ok st" and "p \<noteq> 0"
  shows "nxgi_ok st'"
proof -
  obtain gc b where g: "gc_at st g = Inr gc" and b: "bmp_at st p = Inr b"
    using assms(1) by (auto simp: attach_target_def)
  define b' where "b' = b\<lparr>bm_refs := bm_refs b + 1\<rparr>"
  define st1 where "st1 = put_bmp p b' st"
  define r where "r = RECT (clamp_high (bm_width b) (clamp_low 0)) (clamp_high (bm_height b) (clamp_low 0))
    (clamp_high (bm_width b) (clamp_low (bm_width b))) (clamp_high (bm_height b) (clamp_low (bm_height b)))"
  have ok1: "nxgi_ok st1" unfolding st1_def b'_def by (rule only_pixels_ok [OF refs_pixels [OF b] ok])
  have "bmp_ok b" using nxgi_okD(1) [OF ok] b unfolding bmp_at_Some by blast
  then have "unat (bm_width b) < 2 ^ 31" "unat (bm_height b) < 2 ^ 31" by (simp_all add: bmp_ok_def)
  then have s: "sint (bm_width b) = int (unat (bm_width b))" "sint (bm_height b) = int (unat (bm_height b))"
    by (simp_all only: sint_small_unat)
  have "in_side (clamp_high m (clamp_low v)) m" if "sint m = int (unat m)" for m v
    unfolding in_side_def clamp_high_def clamp_low_def word_sless_alt using that by auto
  then have clip: "clip_ok r b'" using s by (simp add: clip_ok_def r_def b'_def)
  have at: "gc_at (put_gc g (gc\<lparr>gc_target := p\<rparr>) st1) g = Inr (gc\<lparr>gc_target := p\<rparr>)"
    "bmp_at (put_gc g (gc\<lparr>gc_target := p\<rparr>) st1) p = Inr b'"
    using g assms(3) by (simp_all add: gc_at_def bmp_at_def put_gc_def st1_def put_bmp_def split: if_splits)
  have sc: "graphics_set_clip_rect g (RECT 0 0 (bm_width b) (bm_height b)) (put_gc g (gc\<lparr>gc_target := p\<rparr>) st1) =
    Inr (S_OK, put_gc g (gc\<lparr>gc_target := p, gc_clip_rect := r\<rparr>) st1)"
    by (simp add: graphics_set_clip_rect_def at Let_def r_def b'_def) (simp add: put_gc_def)
  have "gc_ok st1 (gc\<lparr>gc_target := p, gc_clip_rect := r, gc_ops := o'\<rparr>)" for o'
    using clip by (simp add: gc_ok_def st1_def put_bmp_def)
  then have ok2: "nxgi_ok (put_gc g (gc\<lparr>gc_target := p, gc_clip_rect := r, gc_ops := o'\<rparr>) st1)" for o'
    by (rule put_gc_ok [OF ok1])
  have at2: "gc_at (put_gc g (gc\<lparr>gc_target := p, gc_clip_rect := r\<rparr>) st1) g = Inr (gc\<lparr>gc_target := p, gc_clip_rect := r\<rparr>)"
    using g by (simp add: gc_at_def put_gc_def split: if_splits)
  show ?thesis
    using assms(1) ok ok2 [of True] ok2 [of "gc_ops gc"]
    unfolding attach_target_def g b bindR.simps Let_def st1_def [unfolded b'_def, symmetric] sc at2 prod.case
    by (auto simp: put_gc_def split: if_splits NXGI_FORMAT.splits)
qed

lemma set_target_ok:
  assumes "graphics_set_target g p st = Inr (hr, st')" and "nxgi_ok st"
  shows "nxgi_ok st'"
proof -
  obtain gc s1 where g: "gc_at st g = Inr gc" and d: "detach_target g gc st = Inr s1"
    and r: "(if p = 0 then Inr (S_OK, s1) else attach_target g p s1) = Inr (hr, st')"
    using assms(1) by (auto simp: graphics_set_target_def)
  have "nxgi_ok s1" using detach_ok [OF d assms(2)] g by (simp add: gc_at_Some)
  then show ?thesis using r attach_ok by (auto split: if_splits)
qed

lemma drawing_op_Inr: "drawing_op g st r = Inr y \<Longrightarrow> r = Inr y"
  by (auto simp: drawing_op_def split: if_splits)

lemma fields_ok [simp]: "nxgi_ok (st\<lparr>graphics_drv := d\<rparr>) = nxgi_ok st" "nxgi_ok (st\<lparr>screen_surf := p\<rparr>) = nxgi_ok st"
  by (simp_all add: nxgi_ok_def gc_ok_def)

lemma drop_bitmap_ok:
  assumes "nxgi_ok st" and "\<And>g gc. gcs st g = Some gc \<Longrightarrow> gc_target gc \<noteq> p"
  shows "nxgi_ok (st\<lparr>bmps := (bmps st)(p := None)\<rparr>)"
  using assms by (auto simp: nxgi_ok_def gc_ok_def)

lemma make_screen_ok:
  assumes "nxgi_ok st" and "bmps st p = None" and "driver_ok vi"
  shows "nxgi_ok (snd (nxgi_make_screen vi p st))"
proof -
  obtain hr fb stride where l: "vi_lock_fb vi = (hr, fb, stride)" by (cases "vi_lock_fb vi")
  have "bmp_ok \<lparr>bm_width = vm_width (vi_get_mode vi), bm_stride = stride, bm_height = vm_height (vi_get_mode vi),
      bm_bpp = vm_bpp (vi_get_mode vi), bm_format = vm_format (vi_get_mode vi), bm_refs = 0,
      bm_tag = NXGI_BITMAP_TAG_SCREEN_SURFACE, bm_bits = fb, bm_destroy = nxgi_destroy_screensurf_fn\<rparr>"
    using assms(3) by (simp add: driver_ok_def l Let_def bmp_ok_def)
  then show ?thesis
    using assms(1) put_bmp_ok [OF assms(1,2)] by (simp add: nxgi_make_screen_def l Let_def)
qed

text \<open>Bitmaps and contexts come and go.\<close>

lemma destroy_bitmap_ok:
  assumes run: "nxgi_destroy_bitmap p st = Inr (hr, p', st')" and "\<And>g gc. gcs st g = Some gc \<Longrightarrow> gc_target gc \<noteq> p"
    and ok: "nxgi_ok st"
  shows "nxgi_ok st'"
proof -
  have "nxgi_ok (st\<lparr>bmps := (bmps st)(p := None)\<rparr>)" by (rule drop_bitmap_ok [OF ok assms(2)])
  moreover obtain b where "bmp_at st p = Inr b" using run by (auto simp: nxgi_destroy_bitmap_def)
  ultimately show ?thesis
    using run ok
    by (cases "bm_destroy b")
       (simp_all add: nxgi_destroy_bitmap_def nxgi_destroy_bitmap_impl_def nxgi_destroy_screensurf_impl_def)
qed

lemma create_context_ok:
  assumes "nxgi_create_graphics_context g st = Inr (hr, g', st')" and ok: "nxgi_ok st"
  shows "nxgi_ok st'"
proof -
  have "gc_ok st empty_gc" by (simp add: gc_ok_def empty_gc_def)
  then have "nxgi_ok (put_gc g empty_gc st)" by (rule put_gc_ok [OF ok])
  moreover have "gc_ok s (empty_gc\<lparr>gc_font := f\<rparr>)" for s f by (simp add: gc_ok_def empty_gc_def)
  ultimately show ?thesis
    using assms
    by (auto simp: nxgi_create_graphics_context_def graphics_create_context_def graphics_set_font_def gc_at_Some
        put_gc_ok put_gc_def [of g empty_gc] split: if_splits intro!: put_gc_ok)
qed

lemma destroy_context_ok:
  assumes "nxgi_destroy_graphics_context g st = Inr st'" and ok: "nxgi_ok st"
  shows "nxgi_ok st'"
proof -
  obtain hr s1 where s1: "graphics_set_target g 0 st = Inr (hr, s1)" and st': "st' = s1\<lparr>gcs := (gcs s1)(g := None)\<rparr>"
    using assms(1) by (auto simp: nxgi_destroy_graphics_context_def graphics_destroy_context_def)
  from set_target_ok [OF s1 ok] show ?thesis by (auto simp: st' nxgi_ok_def gc_ok_def split: if_splits)
qed

text \<open>Setting up a context.\<close>

lemma set_color_ok: "nxgi_set_color g c st = Inr (hr, st') \<Longrightarrow> nxgi_ok st \<Longrightarrow> nxgi_ok st'"
  by (auto simp: nxgi_set_color_def graphics_set_color_def gc_at_Some gc_ok_def intro!: put_gc_ok dest: nxgi_okD(2))

lemma set_offset_ok: "nxgi_set_offset g d st = Inr (hr, st') \<Longrightarrow> nxgi_ok st \<Longrightarrow> nxgi_ok st'"
  by (auto simp: nxgi_set_offset_def graphics_set_offset_def gc_at_Some gc_ok_def intro!: put_gc_ok dest: nxgi_okD(2))

lemma set_font_ok: "nxgi_set_font g f st = Inr (hr, st') \<Longrightarrow> nxgi_ok st \<Longrightarrow> nxgi_ok st'"
  by (auto simp: nxgi_set_font_def graphics_set_font_def gc_at_Some gc_ok_def split: if_splits intro!: put_gc_ok dest: nxgi_okD(2))

lemmas set_up_ok = set_target_ok [folded nxgi_set_target_def] set_clip_rect_ok [folded nxgi_set_clip_rect_def]
  set_color_ok set_offset_ok set_font_ok

text \<open>Drawing changes pixels only, if anything.\<close>

lemma drawing_pixels:
  "graphics_set_pixel_bgra32 g d c st = Inr (hr, st') \<Longrightarrow> only_pixels st st'"
  "nxgi_draw_line g xa ya xb yb st = Some (Inr (hr, st')) \<Longrightarrow> only_pixels st st'"
  "nxgi_draw_rect g r st = Some (Inr (hr, st')) \<Longrightarrow> only_pixels st st'"
  "nxgi_fill_rect g r st = Inr (hr, st') \<Longrightarrow> only_pixels st st'"
  "nxgi_bitblt g d p r st = Inr (hr, st') \<Longrightarrow> only_pixels st st'"
  "nxgi_draw_text g d cs st = Inr (hr, st') \<Longrightarrow> only_pixels st st'"
  by (auto simp: nxgi_draw_line_def nxgi_draw_rect_def nxgi_fill_rect_def nxgi_bitblt_def nxgi_draw_text_def
    intro: set_pixel_pixels draw_line_pixels draw_rect_pixels fill_rect_pixels bitblt_pixels draw_text_pixels dest: drawing_op_Inr)

lemma aligned_text_pixels:
  "nxgi_draw_aligned_text g box ha va cs st = Inr (hr, st') \<Longrightarrow> st' = st \<or> only_pixels st st'"
  by (auto simp: nxgi_draw_aligned_text_def Let_def split: if_splits dest: drawing_pixels(6))

lemma not_implemented_same:
  "nxgi_stretchblt g dr p r st = Inr (hr, st') \<Longrightarrow> st' = st" "nxgi_alphablend g d p r st = Inr (hr, st') \<Longrightarrow> st' = st"
  by (auto simp: nxgi_stretchblt_def graphics_stretchblt_bgra32_def nxgi_alphablend_def graphics_alphablend_bgra32_def
    dest: drawing_op_Inr)

text \<open>The screen.\<close>

lemma init_ok:
  assumes "nxgi_init fopen (hr0, vi) p xres yres fmt st = Inr (hr, st')" and "bmps st p = None" and "driver_ok vi" and ok: "nxgi_ok st"
  shows "nxgi_ok st'"
proof -
  have "nxgi_ok (snd (nxgi_make_screen vi p (st\<lparr>graphics_drv := d\<rparr>)))" for d
    using make_screen_ok [of "st\<lparr>graphics_drv := d\<rparr>" p vi] assms(2-4) by simp
  then show ?thesis
    using assms(1) ok
    by (auto simp: nxgi_init_def get_graphics_iface_def Let_def split: prod.splits if_splits) (metis snd_conv)
qed

lemma fini_ok:
  assumes "nxgi_fini ioctl st = Inr (hr, st')"
    and "\<And>g gc. screen_surf st \<noteq> 0 \<Longrightarrow> gcs st g = Some gc \<Longrightarrow> gc_target gc \<noteq> screen_surf st" and ok: "nxgi_ok st"
  shows "nxgi_ok st'"
proof -
  have "nxgi_ok (st\<lparr>bmps := (bmps st)(screen_surf st := None), screen_surf := 0\<rparr>)" if "screen_surf st \<noteq> 0"
    using drop_bitmap_ok [OF ok assms(2) [OF that]] by simp
  then show ?thesis
    using assms(1) ok by (auto simp: nxgi_fini_def Let_def split: if_splits)
qed

text \<open>C27. Every operation of the graphics interface keeps the state well-formed: bitmaps keep their
  format, and a context with a target has an existing bitmap and a clip rectangle inside it. Among the operations
  are those that set up the screen and take it down. Three uses are excluded because the code does not
  guard against them: creating a bitmap with \<open>2\<^sup>1\<^sup>4\<close> pixels or more on a side (its size in bytes may
  wrap around), and destroying a bitmap or taking down the screen while a context draws on it
  (\<open>nxgi_fini_dangles\<close>, \<open>destroy_bitmap_ignores_references\<close>). The video driver is one whose mode has 32 bits
  per pixel and a frame buffer without padding.\<close>

theorem gfx_step_well_formed:
  assumes "gfx_step st st'" and "nxgi_ok st"
  shows "nxgi_ok st'"
  using assms
  by (cases rule: gfx_step.cases)
    (blast intro: create_bitmap_ok destroy_bitmap_ok create_context_ok destroy_context_ok set_up_ok init_ok fini_ok
       only_pixels_ok drawing_pixels dest: aligned_text_pixels not_implemented_same)+

text \<open>Taking down the screen while a context draws on it leaves the context with a target that is freed.\<close>

theorem nxgi_fini_dangles:
  assumes "gcs st g = Some gc" and "gc_target gc = screen_surf st" and "screen_surf st \<noteq> 0"
    and "nxgi_fini ioctl st = Inr (hr, st')"
  shows "hr = S_OK \<and> \<not> nxgi_ok st'"
proof -
  have "gcs st' g = Some gc" "bmps st' (gc_target gc) = None" "hr = S_OK"
    using assms by (auto simp: nxgi_fini_def Let_def split: if_splits)
  then show ?thesis using assms(2,3) nxgi_okD(2) by (fastforce simp: gc_ok_def)
qed


lemma demo_ok: "nxgi_ok demo_gfx"
proof -
  have "clip_ok (gc_clip_rect demo_gc) demo_bmp" by code_simp
  then show ?thesis
    using demo_bmp_ok by (auto simp: nxgi_ok_def gc_ok_def demo_gfx_def demo_gc_def split: if_splits)
qed

lemma gfx_step_well_formed_witness:
  "\<exists>hr st'. nxgi_fill_rect 1 (RECT 1 1 3 2) demo_gfx = Inr (hr, st') \<and> nxgi_ok st'"
proof -
  obtain hr st' where f: "graphics_fill_rect_bgra32 1 (RECT 1 1 3 2) demo_gfx = Inr (hr, st')"
    using fill_rect_safe [OF demo_gc_on] by blast
  have "nxgi_fill_rect 1 (RECT 1 1 3 2) demo_gfx = Inr (hr, st')"
    using f demo_gc_on by (simp add: nxgi_fill_rect_def drawing_op_def gc_on_def demo_gc_def)
  moreover from this have "nxgi_ok st'" using gfx_step_well_formed [OF gfx_step.fill_rect demo_ok] by blast
  ultimately show ?thesis by blast
qed

section \<open>At the edges\<close>

text \<open>The clip rectangle includes its right and lower sides, which lie outside the bitmap: a vertical
  line clipped to the right side writes past the last row.\<close>

theorem draw_line_right_edge_overruns:
  assumes on: "gc_on st g gc b" and clip: "gc_clip_rect gc = RECT 0 0 (bm_width b) (bm_height b)"
    and off: "gc_offset gc = POINT 0 0" and h: "0 < bm_height b"
  shows "graphics_draw_line_bgra32 g (bm_width b) (bm_height b - 1) (bm_width b) (bm_height b) st = Some (Inl BadAccess)"
proof -
  have b: "bmp_ok b" using on by (simp add: gc_on_def)
  define w hh where "w = bm_width b" and "hh = bm_height b"
  have wl: "unat w < 2 ^ 14" "unat hh < 2 ^ 14" "0 < unat hh"
    using b h by (auto simp: bmp_ok_def w_def hh_def word_less_nat_alt)
  have hm: "unat (hh - 1) = unat hh - 1" using wl(3) by (subst unat_sub_small) simp_all
  define n m where "n = unat w" and "m = unat hh"
  have s: "sint w = int n" "sint hh = int m" "sint (hh - 1) = int (m - 1)"
    using wl hm sint_small_unat [of w] sint_small_unat [of hh] sint_small_unat [of "hh - 1"]
    by (simp_all add: n_def m_def)
  have z: "sint (0 :: i32) = 0" by simp
  have vis: "nxgig_line_rect_intersect (POINT w (hh - 1)) (POINT w hh)
      (nxgig_rect_offset (gc_clip_rect gc) (POINT (- px (gc_offset gc)) (- py (gc_offset gc))))"
    unfolding nxgig_line_rect_intersect_def Let_def nxgig_point_in_rect_def signed_order rect_offset_sel clip off
      w_def [symmetric] hh_def [symmetric]
    by (simp add: s z)
  have t: "intrnl_transform_point gc (POINT w (hh - 1)) = POINT w (hh - 1)" "intrnl_transform_point gc (POINT w hh) = POINT w hh"
    unfolding intrnl_transform_point_def Let_def clip off signed_order w_def [symmetric] hh_def [symmetric]
    by (simp_all add: s z)
  have lt: "\<not> hh < hh - 1" using wl(3) hm by (simp add: word_less_nat_alt)
  have one: "unat (hh - (hh - 1)) = Suc 0" by simp
  have "unat ((hh - 1) * bm_stride b + w * bm_bpp b div 8) = 4 * (unat (hh - 1) * unat w + unat w)"
    using wl hm offset_xy(1) [OF b, of "hh - 1" w] by (simp add: w_def hh_def)
  moreover have "unat (hh - 1) * unat w + unat w = unat w * unat hh"
    unfolding hm using wl(3) by (cases "unat hh") simp_all
  moreover have "length (bm_bits b) = 4 * (unat w * unat hh)"
    using b by (simp add: bmp_ok_def w_def hh_def)
  ultimately have "unat ((hh - 1) * bm_stride b + w * bm_bpp b div 8) = length (bm_bits b)"
    by (simp only:)
  then have "store_color (bm_bits b) ((hh - 1) * bm_stride b + w * bm_bpp b div 8) (gc_color gc) = Inl BadAccess"
    by (simp add: store_color_def)
  then have "intrnl_draw_vline_bgra32 gc b (bm_bits b) w (hh - 1) hh = Inl BadAccess"
    unfolding intrnl_draw_vline_bgra32_def using lt one by simp
  then have "draw_line_bits gc b (bm_bits b) w (hh - 1) w hh = Some (Inl BadAccess)"
    unfolding draw_line_bits_def Let_def using vis by (simp add: t)
  then show ?thesis
    using on by (simp add: graphics_draw_line_bgra32_def gc_on_def w_def hh_def)
qed

lemma draw_line_right_edge_overruns_witness:
  "graphics_draw_line_bgra32 1 4 3 4 4 demo_gfx = Some (Inl BadAccess)"
proof -
  have "gc_clip_rect demo_gc = RECT 0 0 (bm_width demo_bmp) (bm_height demo_bmp)" "gc_offset demo_gc = POINT 0 0"
    "0 < bm_height demo_bmp" "bm_width demo_bmp = 4" "bm_height demo_bmp - 1 = 3" "bm_height demo_bmp = 4"
    by code_simp+
  then show ?thesis using draw_line_right_edge_overruns [OF demo_gc_on] by simp
qed

text \<open>A glyph is drawn one column to the right of its cell, in columns 1 to 8: the last column of an M at the
  right edge of a bitmap of one cell is written outside it.\<close>

theorem draw_char_past_cell:
  "intrnl_draw_char_bgra32 (demo_bmp\<lparr>bm_width := 8, bm_height := 8, bm_stride := 32\<rparr>) (replicate 256 0) 0 0
     (gc_font demo_gc) 77 = Inl BadAccess"
  by code_simp

text \<open>A bitmap is destroyed although a context draws on it; the next drawing reads freed memory.\<close>

theorem destroy_bitmap_ignores_references:
  "(case nxgi_destroy_bitmap 2 demo_gfx of
      Inr (hr, _, st) \<Rightarrow> hr = S_OK \<and> nxgi_fill_rect 1 (RECT 0 0 1 1) st = Inl BadAccess
    | Inl _ \<Rightarrow> False)"
  by code_simp

end
