(* ===== verification/TextScreen.thy ===== *)
theory TextScreen
  imports Sync
begin

unbundle bit_operations_syntax

text \<open>
  \<^verbatim>\<open>vga.c\<close>: the text screen of 25 rows of 80 cells, kept twice: in video memory and in a copy in
  kernel memory from which scrolling reads. \<^verbatim>\<open>term_pointer\<close> is the cell the next character goes to. Port
  writes that move the hardware cursor are a log. A string is the list of its bytes up to the terminator;
  \<^verbatim>\<open>vga_printf\<close> is \<open>vga_print\<close> of what \<^verbatim>\<open>vsprintf\<close> (theory \<open>CString\<close>) makes of its arguments.
\<close>

section \<open>State\<close>

datatype vga_color = COLOR_BLACK | COLOR_BLUE | COLOR_GREEN | COLOR_CYAN | COLOR_RED | COLOR_MAGENTA | COLOR_BROWN
  | COLOR_LIGHT_GREY | COLOR_DARK_GREY | COLOR_LIGHT_BLUE | COLOR_LIGHT_GREEN | COLOR_LIGHT_CYAN | COLOR_LIGHT_RED
  | COLOR_LIGHT_MAGENTA | COLOR_LIGHT_BROWN | COLOR_WHITE

fun color_code :: "vga_color \<Rightarrow> u8" where
  "color_code COLOR_BLACK = 0"
| "color_code COLOR_BLUE = 1"
| "color_code COLOR_GREEN = 2"
| "color_code COLOR_CYAN = 3"
| "color_code COLOR_RED = 4"
| "color_code COLOR_MAGENTA = 5"
| "color_code COLOR_BROWN = 6"
| "color_code COLOR_LIGHT_GREY = 7"
| "color_code COLOR_DARK_GREY = 8"
| "color_code COLOR_LIGHT_BLUE = 9"
| "color_code COLOR_LIGHT_GREEN = 10"
| "color_code COLOR_LIGHT_CYAN = 11"
| "color_code COLOR_LIGHT_RED = 12"
| "color_code COLOR_LIGHT_MAGENTA = 13"
| "color_code COLOR_LIGHT_BROWN = 14"
| "color_code COLOR_WHITE = 15"

definition vga_make_color :: "vga_color \<Rightarrow> vga_color \<Rightarrow> u8" where
  "vga_make_color fg bg = color_code bg OR (color_code fg AND 0xF)"

text \<open>\<^verbatim>\<open>char\<close> is signed, so the conversion to 16 bits extends the sign.\<close>

definition vga_make_entry :: "u8 \<Rightarrow> u8 \<Rightarrow> u16" where
  "vga_make_entry c color = scast c OR push_bit 8 (ucast color)"

record terminal =
  term_buff :: "u16 list"
  term_buff_sw :: "u16 list"
  term_pointer :: u32
  term_cursor_update_cntr :: u32
  term_fg :: vga_color
  term_bg :: vga_color
  term_ports :: "(u16 \<times> u8) list"

text \<open>Writing one cell of a buffer.\<close>

definition put_cell :: "u16 list \<Rightarrow> u32 \<Rightarrow> u16 \<Rightarrow> u16 list run" where
  "put_cell b i v = (if unat i < length b then Inr (b[unat i := v]) else Inl BadAccess)"

definition put_both :: "u32 \<Rightarrow> u16 \<Rightarrow> terminal \<Rightarrow> terminal run" where
  "put_both i v t =
     bindR (put_cell (term_buff_sw t) i v) (\<lambda>sw.
     bindR (put_cell (term_buff t) i v) (\<lambda>hw. Inr (t\<lparr>term_buff_sw := sw, term_buff := hw\<rparr>)))"

definition blank :: "terminal \<Rightarrow> u16" where
  "blank t = vga_make_entry 32 (vga_make_color (term_fg t) (term_bg t))"

section \<open>Cursor\<close>

definition vga_set_cursor_position :: "u32 \<Rightarrow> terminal \<Rightarrow> terminal" where
  "vga_set_cursor_position pos t =
     (if term_cursor_update_cntr t \<noteq> 0 then t
      else t\<lparr>term_ports := term_ports t @ [(0x3D4, 14), (0x3D5, ucast (drop_bit 8 pos)), (0x3D4, 15), (0x3D5, ucast pos)]\<rparr>)"

definition vga_cursor_begin_update :: "terminal \<Rightarrow> terminal" where
  "vga_cursor_begin_update t = t\<lparr>term_cursor_update_cntr := term_cursor_update_cntr t + 1\<rparr>"

definition vga_cursor_end_update :: "terminal \<Rightarrow> terminal run" where
  "vga_cursor_end_update t =
     (let t = t\<lparr>term_cursor_update_cntr := term_cursor_update_cntr t - 1\<rparr> in
      if term_cursor_update_cntr t = 0 then Inr (vga_set_cursor_position (term_pointer t) t)
      else if term_cursor_update_cntr t <s 0 then Inl (Panic ''VGA: Cursor update counter dropped below 0.'')
      else Inr t)"

section \<open>Clearing and scrolling\<close>

text \<open>The nested loops of \<^verbatim>\<open>vga_clear\<close> visit the cells \<open>80 j + i\<close> in order.\<close>

fun clear_loop :: "nat list \<Rightarrow> terminal \<Rightarrow> terminal run" where
  "clear_loop [] t = Inr t"
| "clear_loop (i # is) t = bindR (put_both (of_nat i) (blank t) t) (clear_loop is)"

definition vga_clear :: "terminal \<Rightarrow> terminal run" where
  "vga_clear t =
     bindR (clear_loop [j * 80 + i. j \<leftarrow> [0..<25], i \<leftarrow> [0..<80]] t)
       (\<lambda>t. Inr (vga_set_cursor_position 0 (t\<lparr>term_pointer := 0\<rparr>)))"

text \<open>The mapping of video memory holds whatever is on the screen, \<open>screen\<close>.\<close>

definition vga_init_terminal :: "u16 list \<Rightarrow> terminal \<Rightarrow> terminal run" where
  "vga_init_terminal screen t =
     vga_clear (t\<lparr>term_buff := screen, term_pointer := 0, term_cursor_update_cntr := 0,
                  term_fg := COLOR_LIGHT_GREY, term_bg := COLOR_BLACK\<rparr>)"

text \<open>One row is copied between two buffers, 160 bytes. Row \<open>y\<close> and row \<open>y + 1\<close> do not overlap.\<close>

definition copy_row :: "u16 list \<Rightarrow> nat \<Rightarrow> u16 list \<Rightarrow> u16 list run" where
  "copy_row dst y src = memcpyR dst (y * 80) src ((y + 1) * 80) 80"

fun scroll_rows :: "nat list \<Rightarrow> terminal \<Rightarrow> terminal run" where
  "scroll_rows [] t = Inr t"
| "scroll_rows (y # ys) t =
     bindR (copy_row (term_buff t) y (term_buff_sw t)) (\<lambda>hw.
     bindR (copy_row (term_buff_sw t) y (term_buff_sw t)) (\<lambda>sw.
       scroll_rows ys (t\<lparr>term_buff := hw, term_buff_sw := sw\<rparr>)))"

definition vga_scroll_vert :: "terminal \<Rightarrow> terminal run" where
  "vga_scroll_vert t =
     bindR (scroll_rows [0..<24] t) (\<lambda>t.
     bindR (clear_loop [25 * 80 - i - 1. i \<leftarrow> [0..<80]] t) (\<lambda>t.
       let t = t\<lparr>term_pointer := term_pointer t - 80\<rparr>;
           t = vga_set_cursor_position (term_pointer t) t in
       if 25 \<le> term_pointer t div 80 then Inl (Panic ''VGA: vga_scroll_vert(): failed.'') else Inr t))"

section \<open>Printing\<close>

definition vga_print_char :: "u8 \<Rightarrow> terminal \<Rightarrow> terminal run" where
  "vga_print_char c t =
     bindR (if 80 * 25 \<le> term_pointer t then vga_scroll_vert t else Inr t) (\<lambda>t.
     bindR (put_both (term_pointer t) (vga_make_entry c (vga_make_color (term_fg t) (term_bg t))) t) (\<lambda>t.
       let t = t\<lparr>term_pointer := term_pointer t + 1\<rparr> in
       Inr (vga_set_cursor_position (term_pointer t) t)))"

definition vga_new_line :: "terminal \<Rightarrow> terminal run" where
  "vga_new_line t =
     (let t = t\<lparr>term_pointer := (term_pointer t + 80) div 80 * 80\<rparr> in
      if 80 * 25 \<le> term_pointer t then vga_scroll_vert t
      else Inr (vga_set_cursor_position (term_pointer t) t))"

fun tab_loop :: "nat \<Rightarrow> terminal \<Rightarrow> terminal run" where
  "tab_loop 0 t = Inr t"
| "tab_loop (Suc cnt) t = bindR (vga_print_char 32 t) (tab_loop cnt)"

definition vga_apply_tab :: "terminal \<Rightarrow> terminal run" where
  "vga_apply_tab t =
     (let cnt = unat (term_pointer t mod 8) in
      bindR (tab_loop cnt (vga_cursor_begin_update t)) vga_cursor_end_update)"

definition vga_apply_carriage_return :: "terminal \<Rightarrow> terminal" where
  "vga_apply_carriage_return t =
     (let t = t\<lparr>term_pointer := term_pointer t - term_pointer t mod 80\<rparr> in
      vga_set_cursor_position (term_pointer t) t)"

definition vga_set_color :: "vga_color \<Rightarrow> vga_color \<Rightarrow> terminal \<Rightarrow> terminal" where
  "vga_set_color fg bg t = t\<lparr>term_fg := fg, term_bg := bg\<rparr>"

definition print_step :: "u8 \<Rightarrow> terminal \<Rightarrow> terminal run" where
  "print_step c t =
     (if c = 10 then vga_new_line t
      else if c = 9 then vga_apply_tab t
      else if c = 13 then Inr (vga_apply_carriage_return t)
      else vga_print_char c t)"

fun print_loop :: "bytes \<Rightarrow> terminal \<Rightarrow> terminal run" where
  "print_loop [] t = Inr t"
| "print_loop (c # cs) t = bindR (print_step c t) (print_loop cs)"

definition vga_print :: "bytes \<Rightarrow> cpu \<Rightarrow> terminal \<Rightarrow> (cpu \<times> terminal) run" where
  "vga_print str c t =
     bindR (spinlock_acquire c spinlock_create) (\<lambda>(intf, c, sl).
     bindR (print_loop str (vga_cursor_begin_update t)) (\<lambda>t.
     bindR (vga_cursor_end_update t) (\<lambda>t.
     bindR (spinlock_release c sl intf) (\<lambda>(c, _). Inr (c, t)))))"

section \<open>Both buffers move together\<close>

text \<open>\<open>same b t\<close>: video memory and its copy both hold the 2000 cells \<open>b\<close>.\<close>

definition same :: "u16 list \<Rightarrow> terminal \<Rightarrow> bool" where
  "same b t = (term_buff t = b \<and> term_buff_sw t = b \<and> length b = 2000)"

definition with_cells :: "u16 list \<Rightarrow> terminal \<Rightarrow> terminal" where
  "with_cells b t = t\<lparr>term_buff := b, term_buff_sw := b\<rparr>"

lemma with_cells_simps [simp]:
  "term_buff (with_cells b t) = b" "term_buff_sw (with_cells b t) = b"
  "term_pointer (with_cells b t) = term_pointer t" "term_fg (with_cells b t) = term_fg t"
  "term_bg (with_cells b t) = term_bg t" "term_ports (with_cells b t) = term_ports t"
  "term_cursor_update_cntr (with_cells b t) = term_cursor_update_cntr t"
  "with_cells b' (with_cells b t) = with_cells b' t" "blank (with_cells b t) = blank t"
  by (simp_all add: with_cells_def blank_def)

lemma same_with_cells [simp]: "same b' (with_cells b t) \<longleftrightarrow> b' = b \<and> length b = 2000"
  by (auto simp: same_def)

lemma with_cells_same: "same b t \<Longrightarrow> with_cells b t = t"
  by (simp add: same_def with_cells_def)

lemma put_both_same: "same b t \<Longrightarrow> unat i < 2000 \<Longrightarrow>
   put_both i v t = Inr (with_cells (b[unat i := v]) t)"
  by (simp add: put_both_def put_cell_def same_def with_cells_def)

lemma clear_loop_same: "same b t \<Longrightarrow> \<forall>i\<in>set is. i < 2000 \<Longrightarrow>
   clear_loop is t = Inr (with_cells (fold (\<lambda>i b. b[i := blank t]) is b) t)"
proof (induction "is" arbitrary: b t)
  case Nil
  then show ?case by (simp add: with_cells_same)
next
  case (Cons i js)
  have i: "unat (of_nat i :: u32) = i" "i < 2000"
    using Cons.prems(2) by (simp_all add: unat_of_nat_small)
  have s: "same (b[i := blank t]) (with_cells (b[i := blank t]) t)"
    using Cons.prems(1) by (simp add: same_def)
  show ?case
    using Cons.IH [OF s] Cons.prems i put_both_same [OF Cons.prems(1), of "of_nat i"] by simp
qed

lemma length_fold_update [simp]: "length (fold (\<lambda>i b. b[i := v]) is b) = length b"
  by (induction "is" arbitrary: b) simp_all

lemma nth_fold_update: "k < length b \<Longrightarrow>
   fold (\<lambda>i b. b[i := v]) is b ! k = (if k \<in> set is then v else b ! k)"
  by (induction "is" arbitrary: b) (auto simp: nth_list_update)

lemma fold_update_all: "length b = n \<Longrightarrow> (\<And>k. k < n \<Longrightarrow> k \<in> set is) \<Longrightarrow>
   fold (\<lambda>i b. b[i := v]) is b = replicate n v"
  by (rule nth_equalityI) (auto simp: nth_fold_update)

text \<open>The rows above \<open>k\<close> have moved up.\<close>

definition shifted :: "nat \<Rightarrow> u16 list \<Rightarrow> u16 list" where
  "shifted k b = take (80 * k) (drop 80 b) @ drop (80 * k) b"

lemma nth_shifted: "length b = 2000 \<Longrightarrow> k \<le> 24 \<Longrightarrow> i < 2000 \<Longrightarrow>
   shifted k b ! i = (if i < 80 * k then b ! (i + 80) else b ! i)"
  by (auto simp: shifted_def nth_append add.commute)

lemma length_shifted [simp]: "length b = 2000 \<Longrightarrow> k \<le> 24 \<Longrightarrow> length (shifted k b) = 2000"
  by (auto simp: shifted_def)

lemma copy_row_shifted:
  assumes "length b = 2000" "k < 24"
  shows "copy_row (shifted k b) k (shifted k b) = Inr (shifted (Suc k) b)"
proof -
  let ?r = "buf_put (shifted k b) (k * 80) (buf_get (shifted k b) ((k + 1) * 80) 80)"
  have "?r = shifted (Suc k) b"
  proof (rule nth_equalityI)
    show "length ?r = length (shifted (Suc k) b)" using assms by simp
    fix i assume "i < length ?r"
    then have i: "i < 2000" using assms by simp
    show "?r ! i = shifted (Suc k) b ! i"
      using assms i by (auto simp: nth_buf_put nth_buf_get nth_shifted add.commute)
  qed
  then show ?thesis using assms by (simp add: copy_row_def memcpyR_ok)
qed

lemma scroll_rows_same: "length b = 2000 \<Longrightarrow> k \<le> 24 \<Longrightarrow>
   scroll_rows [k..<24] (with_cells (shifted k b) t) = Inr (with_cells (shifted 24 b) t)"
proof (induction "24 - k" arbitrary: k)
  case 0
  then show ?case by simp
next
  case (Suc n)
  then have k: "k < 24" by simp
  have u: "(with_cells (shifted k b) t)\<lparr>term_buff := shifted (Suc k) b, term_buff_sw := shifted (Suc k) b\<rparr>
    = with_cells (shifted (Suc k) b) t" by (simp add: with_cells_def)
  show ?case
    using Suc.hyps(1) [of "Suc k"] Suc.hyps(2) Suc.prems(1) k copy_row_shifted [OF Suc.prems(1) k]
    by (simp add: upt_conv_Cons [OF k] u del: upt_Suc)
qed

text \<open>What scrolling leaves on the screen: the first row is gone, a blank row is at the bottom.\<close>

definition rolled :: "u16 \<Rightarrow> u16 list \<Rightarrow> u16 list" where
  "rolled e b = drop 80 b @ replicate 80 e"

lemma clear_last_row:
  assumes "length b = 2000"
  shows "fold (\<lambda>i b. b[i := e]) [25 * 80 - i - 1. i \<leftarrow> [0..<80]] (shifted 24 b) = rolled e b"
    (is "?l = ?r")
proof (rule nth_equalityI)
  show "length ?l = length ?r" using assms by (simp add: rolled_def)
  fix k assume "k < length ?l"
  then have k: "k < 2000" using assms by simp
  have m: "k \<in> set [25 * 80 - i - 1. i \<leftarrow> [0..<80]] \<longleftrightarrow> 1920 \<le> k"
  proof
    assume "1920 \<le> k"
    then have "k = 25 * 80 - (1999 - k) - 1" "1999 - k < 80" using k by auto
    then show "k \<in> set [25 * 80 - i - 1. i \<leftarrow> [0..<80]]" by (force simp del: upt_Suc)
  qed auto
  show "?l ! k = ?r ! k"
    unfolding nth_fold_update [of k "shifted 24 b" e "[25 * 80 - i - 1. i \<leftarrow> [0..<80]]",
      simplified length_shifted [OF assms order_refl], OF k] m
    using assms k by (auto simp: nth_shifted rolled_def nth_append add.commute)
qed

lemma vga_scroll_vert_same:
  assumes "same b t"
  shows "vga_scroll_vert t =
    (let t' = vga_set_cursor_position (term_pointer t - 80)
                (with_cells (rolled (blank t) b) (t\<lparr>term_pointer := term_pointer t - 80\<rparr>))
     in if 25 \<le> (term_pointer t - 80) div 80 then Inl (Panic ''VGA: vga_scroll_vert(): failed.'') else Inr t')"
proof -
  have l: "length b = 2000" using assms by (simp add: same_def)
  have z: "shifted 0 b = b" by (simp add: shifted_def)
  have 1: "scroll_rows [0..<24] t = Inr (with_cells (shifted 24 b) t)"
    using scroll_rows_same [OF l, of 0 t] with_cells_same [OF assms] unfolding z by simp
  have s: "same (shifted 24 b) (with_cells (shifted 24 b) t)" using l by simp
  have 2: "clear_loop [25 * 80 - i - 1. i \<leftarrow> [0..<80]] (with_cells (shifted 24 b) t)
      = Inr (with_cells (rolled (blank t) b) t)"
    by (subst clear_loop_same [OF s]) (use l in \<open>auto simp: clear_last_row [OF l, of "blank t", simplified]\<close>)
  have u: "(with_cells (rolled (blank t) b) t)\<lparr>term_pointer := p\<rparr>
     = with_cells (rolled (blank t) b) (t\<lparr>term_pointer := p\<rparr>)" for p
    by (simp add: with_cells_def)
  show ?thesis
    unfolding vga_scroll_vert_def 1 bindR.simps 2 Let_def with_cells_simps(3) u
    by (simp add: vga_set_cursor_position_def)
qed

section \<open>The paper behind the screen\<close>

text \<open>
  The abstract terminal writes on paper that only grows: a position and the cells written so far, row by
  row. Reaching the end of the paper adds a blank row. The screen shows the last 25 rows. \<open>None\<close> is the
  case in which the kernel stops: a line feed when the last row has just been filled.
\<close>

type_synonym paper = "u16 list \<times> nat"

definition paper_char :: "u16 \<Rightarrow> u16 \<Rightarrow> paper \<Rightarrow> paper" where
  "paper_char e v = (\<lambda>(ps, pos).
     ((if pos = length ps then ps @ replicate 80 e else ps)[pos := v], pos + 1))"

definition paper_line_feed :: "u16 \<Rightarrow> paper \<Rightarrow> paper option" where
  "paper_line_feed e = (\<lambda>(ps, pos).
     let pos' = (pos div 80 + 1) * 80 in
     if pos = length ps then None
     else Some (if pos' = length ps then ps @ replicate 80 e else ps, pos'))"

definition paper_return :: "paper \<Rightarrow> paper" where
  "paper_return = (\<lambda>(ps, pos). (ps, pos div 80 * 80))"

definition paper_tab :: "u16 \<Rightarrow> paper \<Rightarrow> paper" where
  "paper_tab e = (\<lambda>(ps, pos). (paper_char e e ^^ (pos mod 8)) (ps, pos))"

definition paper_step :: "u8 \<Rightarrow> u8 \<Rightarrow> paper \<Rightarrow> paper option" where
  "paper_step color c p =
     (let e = vga_make_entry 32 color in
      if c = 10 then paper_line_feed e p
      else if c = 9 then Some (paper_tab e p)
      else if c = 13 then Some (paper_return p)
      else Some (paper_char e (vga_make_entry c color) p))"

fun paper_print :: "u8 \<Rightarrow> bytes \<Rightarrow> paper \<Rightarrow> paper option" where
  "paper_print color [] p = Some p"
| "paper_print color (c # cs) p = Option.bind (paper_step color c p) (paper_print color cs)"

definition visible :: "u16 list \<Rightarrow> u16 list" where
  "visible ps = drop (length ps - 2000) ps"

definition shows_paper :: "paper \<Rightarrow> terminal \<Rightarrow> bool" where
  "shows_paper = (\<lambda>(ps, pos) t.
     2000 \<le> length ps \<and> 80 dvd length ps \<and> pos \<le> length ps \<and>
     pos = unat (term_pointer t) + (length ps - 2000) \<and> same (visible ps) t)"

text \<open>While a string is printed the cursor counter is positive and no port is written.\<close>

definition in_update :: "terminal \<Rightarrow> terminal \<Rightarrow> bool" where
  "in_update t t' = (0 < term_cursor_update_cntr t \<and> term_cursor_update_cntr t < 0x7FFFFFFF \<and>
     term_cursor_update_cntr t' = term_cursor_update_cntr t \<and> term_ports t' = term_ports t \<and>
     term_fg t' = term_fg t \<and> term_bg t' = term_bg t)"

definition hue :: "terminal \<Rightarrow> u8" where
  "hue t = vga_make_color (term_fg t) (term_bg t)"

lemma blank_hue: "blank t = vga_make_entry 32 (hue t)"
  by (simp add: blank_def hue_def)

lemma visible_roll: "2000 \<le> length ps \<Longrightarrow> visible (ps @ replicate 80 e) = rolled e (visible ps)"
  by (simp add: visible_def rolled_def)

lemma length_visible: "2000 \<le> length ps \<Longrightarrow> length (visible ps) = 2000"
  by (simp add: visible_def)

lemma visible_update: "2000 \<le> length ps \<Longrightarrow> i < 2000 \<Longrightarrow>
   visible (ps[i + (length ps - 2000) := v]) = (visible ps)[i := v]"
  by (simp add: visible_def drop_update_swap add.commute)

lemma no_cursor [simp]: "0 < term_cursor_update_cntr t \<Longrightarrow> vga_set_cursor_position pos t = t"
  by (auto simp: vga_set_cursor_position_def)

definition cursor_ports :: "u32 \<Rightarrow> (u16 \<times> u8) list" where
  "cursor_ports p = [(0x3D4, 14), (0x3D5, ucast (drop_bit 8 p)), (0x3D4, 15), (0x3D5, ucast p)]"

text \<open>A run of printable characters that stays on the paper.\<close>

lemma paper_print_run:
  "\<forall>x \<in> set str. 32 \<le> x \<Longrightarrow> pos + length str \<le> length ps \<Longrightarrow>
   \<exists>qs. length qs = length ps \<and> paper_print color (str @ rest) (ps, pos) = paper_print color rest (qs, pos + length str)"
proof (induction str arbitrary: ps pos)
  case Nil
  then show ?case by auto
next
  case (Cons x xs)
  have "x \<noteq> 10" "x \<noteq> 9" "x \<noteq> 13" using Cons.prems(1) by auto
  then show ?case
    using Cons.IH [of "Suc pos" "ps[pos := vga_make_entry x color]"] Cons.prems
    by (simp add: paper_step_def paper_char_def)
qed

lemma paper_print_full_row:
  assumes "\<forall>x \<in> set str. 32 \<le> x" "pos + length str = length ps"
  shows "paper_print color (str @ 10 # rest) (ps, pos) = None"
  using paper_print_run [OF assms(1) eq_refl [OF assms(2)], of color "10 # rest"] assms(2)
  by (auto simp: paper_step_def paper_line_feed_def)

text \<open>Scrolling is one more row of paper.\<close>

lemma scroll_shows_paper:
  assumes s: "same (visible ps) t" and l: "2000 \<le> length ps" "80 dvd length ps"
    and p: "2000 \<le> unat (term_pointer t)" "unat (term_pointer t) < 2080"
    and c: "0 < term_cursor_update_cntr t"
    and pos: "pos = unat (term_pointer t) + (length ps - 2000)"
  shows "\<exists>t'. vga_scroll_vert t = Inr t' \<and> shows_paper (ps @ replicate 80 (blank t), pos) t' \<and>
     unat (term_pointer t') = unat (term_pointer t) - 80 \<and>
     (term_cursor_update_cntr t < 0x7FFFFFFF \<longrightarrow> in_update t t')"
proof -
  have u: "unat (term_pointer t - 80) = unat (term_pointer t) - 80"
    using p by (simp add: unat_sub_small)
  have d: "\<not> 25 \<le> (term_pointer t - 80) div 80"
    using p u by (simp add: word_le_nat_alt unat_div)
  show ?thesis
    using l p c pos s
    by (simp add: vga_scroll_vert_same [OF s] d Let_def shows_paper_def visible_roll u in_update_def
        length_visible)
       (simp add: rolled_def length_visible)
qed


lemma shows_paperD:
  assumes "shows_paper (ps, pos) t"
  shows "2000 \<le> length ps" "80 dvd length ps" "pos \<le> length ps"
    "pos = unat (term_pointer t) + (length ps - 2000)" "same (visible ps) t"
    "unat (term_pointer t) \<le> 2000" "unat (term_pointer t) = 2000 \<longleftrightarrow> pos = length ps"
  using assms by (auto simp: shows_paper_def)

lemma shows_paper_frame [simp]:
  "shows_paper p (t\<lparr>term_cursor_update_cntr := n\<rparr>) = shows_paper p t"
  "shows_paper p (t\<lparr>term_ports := q\<rparr>) = shows_paper p t"
  by (simp_all add: shows_paper_def same_def split_beta)

lemma in_update_trans: "in_update t t' \<Longrightarrow> in_update t' t'' \<Longrightarrow> in_update t t''"
  by (simp add: in_update_def)

lemma in_update_refl: "in_update t t' \<Longrightarrow> in_update t t"
  by (simp add: in_update_def)

lemma hue_in_update: "in_update t t' \<Longrightarrow> hue t' = hue t"
  by (simp add: in_update_def hue_def)

lemma put_shows_paper:
  assumes s: "shows_paper (ps, pos) t" and p: "unat (term_pointer t) < 2000" and u: "in_update t t"
  shows "\<exists>t'. bindR (put_both (term_pointer t) v t) (\<lambda>t. let t = t\<lparr>term_pointer := term_pointer t + 1\<rparr> in
       Inr (vga_set_cursor_position (term_pointer t) t)) = Inr t' \<and>
     shows_paper (ps[pos := v], pos + 1) t' \<and> in_update t t'"
proof -
  note d = shows_paperD [OF s]
  have n: "unat (term_pointer t + 1) = unat (term_pointer t) + 1"
    using p by (subst unat_add_small) simp_all
  have c: "0 < term_cursor_update_cntr t"
    using u by (simp add: in_update_def)
  have v: "visible (ps[pos := v]) = (visible ps)[unat (term_pointer t) := v]"
    unfolding d(4) by (rule visible_update [OF d(1) p])
  have w: "same (visible (ps[pos := v])) ((with_cells ((visible ps)[unat (term_pointer t) := v]) t)
      \<lparr>term_pointer := term_pointer t + 1\<rparr>)"
    unfolding v using d(1) by (simp add: same_def length_visible)
  show ?thesis
    using d(1-4) p w c u n
    by (simp add: put_both_same [OF d(5) p] Let_def shows_paper_def in_update_def) arith
qed

lemma print_char_shows_paper:
  assumes s: "shows_paper (ps, pos) t" and u: "in_update t t"
  shows "\<exists>t'. vga_print_char c t = Inr t' \<and>
     shows_paper (paper_char (vga_make_entry 32 (hue t)) (vga_make_entry c (hue t)) (ps, pos)) t' \<and> in_update t t'"
proof (cases "unat (term_pointer t) = 2000")
  case True
  note d = shows_paperD [OF s]
  have c: "0 < term_cursor_update_cntr t" "term_cursor_update_cntr t < 0x7FFFFFFF"
    using u by (simp_all add: in_update_def)
  obtain t1 where t1: "vga_scroll_vert t = Inr t1" "shows_paper (ps @ replicate 80 (blank t), pos) t1"
      "unat (term_pointer t1) = 1920" "in_update t t1"
    using scroll_shows_paper [OF d(5) d(1,2) _ _ c(1) d(4)] True c by auto
  have g: "80 * 25 \<le> term_pointer t" using True by (simp add: word_le_nat_alt)
  have u1: "in_update t1 t1" using t1(4) by (simp add: in_update_def)
  obtain t2 where t2: "bindR (put_both (term_pointer t1) (vga_make_entry c (hue t1)) t1)
      (\<lambda>t. let t = t\<lparr>term_pointer := term_pointer t + 1\<rparr> in Inr (vga_set_cursor_position (term_pointer t) t)) = Inr t2"
      "shows_paper ((ps @ replicate 80 (blank t))[pos := vga_make_entry c (hue t1)], pos + 1) t2" "in_update t1 t2"
    using put_shows_paper [OF t1(2) _ u1, of "vga_make_entry c (hue t1)"] t1(3) by auto
  show ?thesis
    by (rule exI [of _ t2], use t2 t1(1) g in_update_trans [OF t1(4) t2(3)] True d(7) hue_in_update [OF t1(4)]
        in \<open>simp add: vga_print_char_def paper_char_def blank_hue hue_def\<close>)
next
  case False
  note d = shows_paperD [OF s]
  have p: "unat (term_pointer t) < 2000" using False d(6) by simp
  have g: "\<not> 80 * 25 \<le> term_pointer t" using p by (simp add: word_le_nat_alt)
  show ?thesis
    using put_shows_paper [OF s p u, of "vga_make_entry c (hue t)"] g False d(7)
    by (simp add: vga_print_char_def paper_char_def hue_def)
qed

lemma line_feed_shows_paper:
  assumes s: "shows_paper (ps, pos) t" and u: "in_update t t"
  shows "case paper_line_feed (vga_make_entry 32 (hue t)) (ps, pos) of
       None \<Rightarrow> vga_new_line t = Inl (Panic ''VGA: vga_scroll_vert(): failed.'')
     | Some p' \<Rightarrow> \<exists>t'. vga_new_line t = Inr t' \<and> shows_paper p' t' \<and> in_update t t'"
proof -
  note d = shows_paperD [OF s]
  let ?q = "(term_pointer t + 80) div 80 * 80"
  let ?t = "t\<lparr>term_pointer := ?q\<rparr>"
  have c: "0 < term_cursor_update_cntr t" "term_cursor_update_cntr t < 0x7FFFFFFF"
    using u by (simp_all add: in_update_def)
  have a: "unat (term_pointer t + 80) = unat (term_pointer t) + 80"
    using d(6) by (subst unat_add_small) simp_all
  have "(unat (term_pointer t) + 80) div 80 * 80 \<le> unat (term_pointer t) + 80"
    by (rule div_times_less_eq_dividend)
  then have n80: "(unat (term_pointer t) div 80 + 1) * 80 \<le> unat (term_pointer t) + 80" by simp
  have e80: "(unat (term_pointer t) + 80) div 80 = unat (term_pointer t) div 80 + 1" by presburger
  have q: "unat ?q = (unat (term_pointer t) div 80 + 1) * 80"
    using d(6) n80 e80 by (simp add: unat_word_ariths unat_div a)
  obtain m where m: "length ps = 80 * m" using d(2) by (auto elim: dvdE)
  have m25: "25 \<le> m" using d(1) m by simp
  have pos': "(pos div 80 + 1) * 80 = unat ?q + (length ps - 2000)"
  proof -
    have "length ps - 2000 = 80 * (m - 25)" using m m25 by simp
    then have "pos div 80 = unat (term_pointer t) div 80 + (m - 25)" using d(4) by simp
    then show ?thesis using q m m25 by simp
  qed
  have sm: "same (visible ps) ?t" using d(5) by (simp add: same_def)
  have cur: "blank ?t = vga_make_entry 32 (hue t)" "term_cursor_update_cntr ?t = term_cursor_update_cntr t"
    by (simp_all add: blank_def hue_def)
  consider (full) "unat (term_pointer t) = 2000" | (lastrow) "1920 \<le> unat (term_pointer t)" "unat (term_pointer t) < 2000"
    | (upper) "unat (term_pointer t) < 1920"
    using d(6) by linarith
  then show ?thesis
  proof cases
    case full
    then have q2: "unat ?q = 2080" using q by simp
    then have q3: "?q = 2080" by (intro word_unat_eq_iff [THEN iffD2]) simp
    have sm2: "same (visible ps) (t\<lparr>term_pointer := 2080\<rparr>)" using d(5) by (simp add: same_def)
    have "vga_scroll_vert (t\<lparr>term_pointer := 2080\<rparr>) = Inl (Panic ''VGA: vga_scroll_vert(): failed.'')"
      unfolding vga_scroll_vert_same [OF sm2] Let_def by simp
    then have "vga_new_line t = Inl (Panic ''VGA: vga_scroll_vert(): failed.'')"
      unfolding vga_new_line_def Let_def q3 by simp
    then show ?thesis
      using full d(7) by (simp add: paper_line_feed_def)
  next
    case lastrow
    then have "unat (term_pointer t) div 80 = 24" by (intro div_nat_eqI) simp_all
    then have q2: "unat ?q = 2000" using q by simp
    have tp: "term_pointer ?t = ?q" "term_cursor_update_cntr ?t = term_cursor_update_cntr t" by simp_all
    have x: "2000 \<le> unat (term_pointer ?t)" "unat (term_pointer ?t) < 2080" "0 < term_cursor_update_cntr ?t"
      "(pos div 80 + 1) * 80 = unat (term_pointer ?t) + (length ps - 2000)"
      unfolding tp pos' q2 using c by simp_all
    obtain t' where t': "vga_scroll_vert ?t = Inr t'"
       "shows_paper (ps @ replicate 80 (blank ?t), (pos div 80 + 1) * 80) t'" "in_update ?t t'"
      using scroll_shows_paper [OF sm d(1,2) x] c(2) unfolding tp(2) by blast
    have np: "pos \<noteq> length ps" "(pos div 80 + 1) * 80 = length ps"
      using lastrow d(7) pos' q2 d(1) by auto
    have iu: "in_update t t'" using t'(3) by (simp add: in_update_def)
    have g: "80 * 25 \<le> ?q" using q2 by (simp add: word_le_nat_alt)
    show ?thesis
      using np t' iu g by (simp add: paper_line_feed_def vga_new_line_def Let_def cur)
  next
    case upper
    then have "unat (term_pointer t) div 80 < 24" by (simp add: div_less_iff_less_mult)
    then have q2: "unat ?q \<le> 1920" using q by simp
    have np: "pos \<noteq> length ps" "(pos div 80 + 1) * 80 \<noteq> length ps"
      using upper d(1,7) pos' q2 by auto
    have g: "\<not> 80 * 25 \<le> ?q" using q2 by (simp add: word_le_nat_alt)
    show ?thesis
      using np g d(1-3) sm pos' u c q2
      by (simp add: paper_line_feed_def vga_new_line_def Let_def shows_paper_def in_update_def)
  qed
qed

lemma return_shows_paper:
  assumes s: "shows_paper (ps, pos) t" and u: "in_update t t"
  shows "shows_paper (paper_return (ps, pos)) (vga_apply_carriage_return t) \<and> in_update t (vga_apply_carriage_return t)"
proof -
  note d = shows_paperD [OF s]
  let ?q = "term_pointer t - term_pointer t mod 80"
  have q: "unat ?q = unat (term_pointer t) - unat (term_pointer t) mod 80"
    by (subst unat_sub_small) (simp_all add: unat_mod)
  obtain m where m: "length ps = 80 * m" using d(2) by (auto elim: dvdE)
  have "length ps - 2000 = 80 * (m - 25)" using m by simp
  then have "pos div 80 = unat (term_pointer t) div 80 + (m - 25)" using d(4) by simp
  moreover have "unat (term_pointer t) div 80 * 80 = unat ?q"
    unfolding q by (simp add: minus_mod_eq_div_mult)
  ultimately have p: "pos div 80 * 80 = unat ?q + (length ps - 2000)"
    using m by (simp add: algebra_simps)
  have "pos div 80 * 80 \<le> length ps" using d(3) by (metis div_times_less_eq_dividend le_trans)
  then show ?thesis
    using d(1,2) p u d(5)
    by (simp add: vga_apply_carriage_return_def paper_return_def shows_paper_def in_update_def same_def)
qed

lemma tab_loop_shows_paper:
  "shows_paper p t \<Longrightarrow> in_update t t \<Longrightarrow>
   \<exists>t'. tab_loop n t = Inr t' \<and>
     shows_paper ((paper_char (vga_make_entry 32 (hue t)) (vga_make_entry 32 (hue t)) ^^ n) p) t' \<and> in_update t t'"
proof (induction n arbitrary: p t)
  case 0
  then show ?case by simp
next
  case (Suc n)
  obtain t1 where t1: "vga_print_char 32 t = Inr t1" "in_update t t1"
     "shows_paper (paper_char (vga_make_entry 32 (hue t)) (vga_make_entry 32 (hue t)) p) t1"
    using print_char_shows_paper [of "fst p" "snd p" t 32] Suc.prems by auto
  have "in_update t1 t1" using t1(2) by (simp add: in_update_def)
  from Suc.IH [OF t1(3) this] show ?case
    using t1 in_update_trans [OF t1(2)] by (auto simp: funpow_Suc_right hue_in_update simp del: funpow.simps)
qed

lemma tab_shows_paper:
  assumes s: "shows_paper (ps, pos) t" and u: "in_update t t"
    and n: "term_cursor_update_cntr t = 1"
  shows "\<exists>t'. vga_apply_tab t = Inr t' \<and> shows_paper (paper_tab (vga_make_entry 32 (hue t)) (ps, pos)) t' \<and> in_update t t'"
proof -
  note d = shows_paperD [OF s]
  let ?b = "vga_cursor_begin_update t"
  have sb: "shows_paper (ps, pos) ?b"
    using d by (simp add: shows_paper_def vga_cursor_begin_update_def same_def)
  have ub: "in_update ?b ?b"
    using n by (simp add: in_update_def vga_cursor_begin_update_def)
  have m: "unat (term_pointer t mod 8) = pos mod 8"
  proof -
    obtain k where k: "length ps = 80 * k" using d(2) by (auto elim: dvdE)
    have "length ps - 2000 = 8 * (10 * (k - 25))" using k by simp
    then have "pos mod 8 = (unat (term_pointer t) + 8 * (10 * (k - 25))) mod 8" using d(4) by simp
    then show ?thesis by (simp only: unat_mod mod_mult_self2) simp
  qed
  obtain t1 where t1: "tab_loop (pos mod 8) ?b = Inr t1" "in_update ?b t1"
     "shows_paper ((paper_char (vga_make_entry 32 (hue ?b)) (vga_make_entry 32 (hue ?b)) ^^ (pos mod 8)) (ps, pos)) t1"
    using tab_loop_shows_paper [OF sb ub] by blast
  have h: "hue ?b = hue t" by (simp add: hue_def vga_cursor_begin_update_def)
  have c: "term_cursor_update_cntr t1 = 2"
    using t1(2) n by (simp add: in_update_def vga_cursor_begin_update_def)
  show ?thesis
    using t1 c n u unfolding h
    by (simp add: vga_apply_tab_def m paper_tab_def vga_cursor_end_update_def Let_def in_update_def
        vga_cursor_begin_update_def word_sless_alt)
qed

lemma print_step_shows_paper:
  assumes s: "shows_paper p t" and u: "in_update t t" and n: "term_cursor_update_cntr t = 1"
  shows "case paper_step (hue t) c p of
       None \<Rightarrow> print_step c t = Inl (Panic ''VGA: vga_scroll_vert(): failed.'')
     | Some p' \<Rightarrow> \<exists>t'. print_step c t = Inr t' \<and> shows_paper p' t' \<and> in_update t t'"
proof -
  obtain ps pos where p: "p = (ps, pos)" by (cases p)
  note s = s [unfolded p]
  consider (nl) "c = 10" | (tab) "c = 9" | (cr) "c = 13" | (ch) "c \<noteq> 10" "c \<noteq> 9" "c \<noteq> 13" by blast
  then show ?thesis
  proof cases
    case nl
    then have "print_step c t = vga_new_line t" "paper_step (hue t) c p = paper_line_feed (vga_make_entry 32 (hue t)) (ps, pos)"
      by (simp_all add: paper_step_def print_step_def p Let_def)
    then show ?thesis using line_feed_shows_paper [OF s u] by (simp only:)
  next
    case tab
    then show ?thesis using tab_shows_paper [OF s u n] by (simp add: paper_step_def print_step_def p Let_def)
  next
    case cr
    then show ?thesis using return_shows_paper [OF s u] by (simp add: paper_step_def print_step_def p Let_def)
  next
    case ch
    then show ?thesis using print_char_shows_paper [OF s u] by (simp add: paper_step_def print_step_def p Let_def)
  qed
qed

lemma print_loop_shows_paper:
  "shows_paper p t \<Longrightarrow> in_update t t \<Longrightarrow> term_cursor_update_cntr t = 1 \<Longrightarrow>
   case paper_print (hue t) str p of
       None \<Rightarrow> print_loop str t = Inl (Panic ''VGA: vga_scroll_vert(): failed.'')
     | Some p' \<Rightarrow> \<exists>t'. print_loop str t = Inr t' \<and> shows_paper p' t' \<and> in_update t t'"
proof (induction str arbitrary: p t)
  case Nil
  then show ?case by simp
next
  case (Cons c cs)
  show ?case
  proof (cases "paper_step (hue t) c p")
    case None
    then show ?thesis using print_step_shows_paper [OF Cons.prems, of c] by simp
  next
    case (Some q)
    then obtain t1 where t1: "print_step c t = Inr t1" "shows_paper q t1" "in_update t t1"
      using print_step_shows_paper [OF Cons.prems, of c] by auto
    have "in_update t1 t1" "term_cursor_update_cntr t1 = 1"
      using t1(3) Cons.prems(3) by (simp_all add: in_update_def)
    from Cons.IH [OF t1(2) this] show ?thesis
      using Some t1 hue_in_update [OF t1(3)] in_update_trans [OF t1(3)] by (auto split: option.splits)
  qed
qed

lemma vga_print_shows_paper_aux:
  assumes s: "shows_paper p t" and n: "term_cursor_update_cntr t = 0"
  shows "case paper_print (hue t) str p of
      None \<Rightarrow> vga_print str c t = Inl (Panic ''VGA: vga_scroll_vert(): failed.'')
    | Some p' \<Rightarrow> \<exists>t'. vga_print str c t = Inr (c, t') \<and> shows_paper p' t' \<and> term_cursor_update_cntr t' = 0 \<and>
        term_ports t' = term_ports t @ cursor_ports (term_pointer t')"
proof -
  let ?b = "vga_cursor_begin_update t"
  have b: "shows_paper p ?b" "in_update ?b ?b" "term_cursor_update_cntr ?b = 1" "hue ?b = hue t"
    using s n by (auto simp: shows_paper_def vga_cursor_begin_update_def same_def in_update_def hue_def split_beta)
  note l = print_loop_shows_paper [OF b(1-3), of str, unfolded b(4)]
  have a: "spinlock_acquire c spinlock_create = Inr (if cpu_if c then 1 else 0, c\<lparr>cpu_if := False\<rparr>, \<lparr>sl_lock = 1\<rparr>)"
    by (simp add: spinlock_acquire_def spinlock_create_def)
  have r: "(if (if cpu_if c then 1 else (0 :: u32)) \<noteq> 0 then c\<lparr>cpu_if := False, cpu_if := True\<rparr> else c\<lparr>cpu_if := False\<rparr>) = c"
    by simp
  show ?thesis
  proof (cases "paper_print (hue t) str p")
    case None
    then show ?thesis using l by (simp add: vga_print_def a)
  next
    case (Some p')
    then obtain t1 where t1: "print_loop str ?b = Inr t1" "shows_paper p' t1" "in_update ?b t1"
      using l by auto
    have c1: "term_cursor_update_cntr t1 = 1" "term_ports t1 = term_ports t"
      using t1(3) n by (simp_all add: in_update_def vga_cursor_begin_update_def)
    let ?t = "t1\<lparr>term_cursor_update_cntr := 0, term_ports := term_ports t @ cursor_ports (term_pointer t1)\<rparr>"
    have "vga_print str c t = Inr (c, ?t)"
      using t1(1) c1 by (simp add: vga_print_def a spinlock_release_def vga_cursor_end_update_def Let_def
        vga_set_cursor_position_def cursor_ports_def)
    moreover have "shows_paper p' ?t"
      using t1(2) by (auto simp: shows_paper_def same_def split_beta)
    ultimately show ?thesis using Some by simp
  qed
qed

lemma vga_clear_same:
  assumes "same b t"
  shows "\<exists>t'. vga_clear t = Inr t' \<and> shows_paper (replicate 2000 (blank t), 0) t' \<and>
    term_cursor_update_cntr t' = term_cursor_update_cntr t \<and> hue t' = hue t"
proof -
  have l: "length b = 2000" using assms by (simp add: same_def)
  let ?is = "[j * 80 + i. j \<leftarrow> [0..<25], i \<leftarrow> [0..<80]] :: nat list"
  have mem: "k \<in> set ?is \<longleftrightarrow> k < 2000" for k
  proof
    assume "k < 2000"
    then have "k = k div 80 * 80 + k mod 80" "k div 80 < 25" "k mod 80 < 80" by simp_all
    then show "k \<in> set ?is" by (auto simp del: upt_Suc intro!: bexI [of _ "k div 80"] image_eqI [of _ _ "k mod 80"])
  qed (auto simp del: upt_Suc)
  have "fold (\<lambda>i b. b[i := blank t]) ?is b = replicate 2000 (blank t)"
    using fold_update_all [of b 2000 ?is "blank t"] mem l by blast
  then have "clear_loop ?is t = Inr (with_cells (replicate 2000 (blank t)) t)"
    using clear_loop_same [OF assms, of ?is] mem by simp
  then show ?thesis
    by (simp add: vga_clear_def vga_set_cursor_position_def shows_paper_def visible_def same_def hue_def)
qed

section \<open>Properties\<close>

definition demo_terminal :: terminal where
  "demo_terminal = \<lparr> term_buff = replicate 2000 0x0720, term_buff_sw = replicate 2000 0x0720, term_pointer = 0,
     term_cursor_update_cntr = 0, term_fg = COLOR_LIGHT_GREY, term_bg = COLOR_BLACK, term_ports = [] \<rparr>"

lemma demo_terminal_shows: "shows_paper (replicate 2000 0x0720, 0) demo_terminal"
  by (simp add: shows_paper_def demo_terminal_def same_def visible_def)

text \<open>C5. Printing a string to a screen that shows the end of some paper leaves the screen showing the end of the
  paper on which the string has been written; the hardware cursor ends where the next character goes, and the
  interrupt flag is as before. If the paper model has no result (a line feed comes right after the last cell of
  the last row was filled), the kernel panics.\<close>

theorem vga_print_refines_paper:
  assumes "shows_paper p t" and "term_cursor_update_cntr t = 0"
  shows "case paper_print (hue t) str p of
      None \<Rightarrow> vga_print str c t = Inl (Panic ''VGA: vga_scroll_vert(): failed.'')
    | Some p' \<Rightarrow> \<exists>t'. vga_print str c t = Inr (c, t') \<and> shows_paper p' t' \<and> term_cursor_update_cntr t' = 0 \<and>
        term_ports t' = term_ports t @ cursor_ports (term_pointer t')"
  using assms by (rule vga_print_shows_paper_aux)

theorem vga_print_refines_paper_witness:
  "\<exists>t'. vga_print [65, 10] \<lparr> cpu_if = True, cpu_current = None \<rparr> demo_terminal
      = Inr (\<lparr> cpu_if = True, cpu_current = None \<rparr>, t') \<and>
    shows_paper ((replicate 2000 0x0720)[0 := 0x0741], 80) t' \<and> term_cursor_update_cntr t' = 0 \<and>
    term_ports t' = term_ports demo_terminal @ cursor_ports (term_pointer t')"
proof -
  have h: "hue demo_terminal = 7" by (simp add: hue_def demo_terminal_def vga_make_color_def)
  have "vga_make_entry 65 7 = 0x0741" "vga_make_entry 32 7 = 0x0720"
    by (simp_all add: vga_make_entry_def)
  then have "paper_print 7 [65, 10] (replicate 2000 0x0720, 0) = Some ((replicate 2000 0x0720)[0 := 0x0741], 80)"
    by (simp add: paper_step_def paper_char_def paper_line_feed_def Let_def)
  then show ?thesis
    using vga_print_refines_paper [OF demo_terminal_shows, of "[65, 10]" "\<lparr> cpu_if = True, cpu_current = None \<rparr>"]
    unfolding h by (simp add: demo_terminal_def)
qed

text \<open>A line of 80 characters printed on the last row fills it without scrolling; a line feed after it
  then stops the kernel, from every such screen.\<close>

theorem full_last_row_line_feed_panics:
  assumes "same b t" and "term_pointer t = 1920" and "term_cursor_update_cntr t = 0"
    and "length str = 80" and "\<forall>x \<in> set str. 32 \<le> x"
  shows "vga_print (str @ 10 # rest) c t = Inl (Panic ''VGA: vga_scroll_vert(): failed.'')"
proof -
  have s: "shows_paper (b, 1920) t"
    using assms(1,2) by (simp add: shows_paper_def visible_def same_def)
  have "paper_print (hue t) (str @ 10 # rest) (b, 1920) = None"
    using assms(1,4,5) by (simp add: paper_print_full_row same_def)
  then show ?thesis
    using vga_print_shows_paper_aux [OF s assms(3), of "str @ 10 # rest" c] by simp
qed

theorem full_last_row_line_feed_panics_witness:
  "vga_print (replicate 80 65 @ [10]) \<lparr> cpu_if = True, cpu_current = None \<rparr> (demo_terminal\<lparr>term_pointer := 1920\<rparr>)
     = Inl (Panic ''VGA: vga_scroll_vert(): failed.'')"
  by (rule full_last_row_line_feed_panics [of "replicate 2000 0x0720"]) (simp_all add: same_def demo_terminal_def)

end
