(* ===== verification/PortIO.thy ===== *)
theory PortIO
  imports Antonix_Base
begin

text \<open>
  Port input and output as the drivers see it. A driver's past is the history of its port accesses and
  clock readings, oldest first; the rest of the machine is a function that says what the next read gives after
  a history. Every behaviour of the hardware (and of interrupts that move the clock) is such a function, so a
  theorem about all machines covers them all. The routines are those of \<^verbatim>\<open>hal.asm\<close> and \<^verbatim>\<open>hal.h\<close>.
\<close>

datatype io_event = OutB u16 u8 | OutW u16 u16 | OutD u16 u32 | InB u16 | InW u16 | InD u16 | ClockRead

type_synonym io = "io_event list"

record machine =
  m_inb :: "io \<Rightarrow> u16 \<Rightarrow> u8"
  m_inw :: "io \<Rightarrow> u16 \<Rightarrow> u16"
  m_ind :: "io \<Rightarrow> u16 \<Rightarrow> u32"
  m_clock :: "io \<Rightarrow> u32"

definition outb :: "u16 \<Rightarrow> u8 \<Rightarrow> io \<Rightarrow> io" where
  "outb port v h = h @ [OutB port v]"

definition outw :: "u16 \<Rightarrow> u16 \<Rightarrow> io \<Rightarrow> io" where
  "outw port v h = h @ [OutW port v]"

definition outd :: "u16 \<Rightarrow> u32 \<Rightarrow> io \<Rightarrow> io" where
  "outd port v h = h @ [OutD port v]"

definition inb :: "machine \<Rightarrow> u16 \<Rightarrow> io \<Rightarrow> u8 \<times> io" where
  "inb m port h = (m_inb m h port, h @ [InB port])"

definition inw :: "machine \<Rightarrow> u16 \<Rightarrow> io \<Rightarrow> u16 \<times> io" where
  "inw m port h = (m_inw m h port, h @ [InW port])"

definition ind :: "machine \<Rightarrow> u16 \<Rightarrow> io \<Rightarrow> u32 \<times> io" where
  "ind m port h = (m_ind m h port, h @ [InD port])"

text \<open>\<^verbatim>\<open>timer_gettickcount\<close> as its callers see it; theory \<open>Timer\<close> has its definition.\<close>

definition read_clock :: "machine \<Rightarrow> io \<Rightarrow> u32 \<times> io" where
  "read_clock m h = (m_clock m h, h @ [ClockRead])"

text \<open>A wait that never ends is \<open>NoReturn\<close>.\<close>

definition endless :: "'a run option \<Rightarrow> 'a run" where
  "endless r = (case r of None \<Rightarrow> Inl NoReturn | Some x \<Rightarrow> x)"

lemma endless_simps [simp]: "endless None = Inl NoReturn" "endless (Some r) = r"
  by (simp_all add: endless_def)

text \<open>The bytes a history has sent to a port, oldest first.\<close>

fun sent_to :: "u16 \<Rightarrow> io \<Rightarrow> bytes" where
  "sent_to p [] = []"
| "sent_to p (OutB q v # h) = (if q = p then v # sent_to p h else sent_to p h)"
| "sent_to p (_ # h) = sent_to p h"

lemma sent_to_append [simp]: "sent_to p (h @ k) = sent_to p h @ sent_to p k"
  by (induction p h rule: sent_to.induct) simp_all

end
