(* ===== verification/Ps2.thy ===== *)
theory Ps2
  imports PortIO Interrupts
begin

unbundle bit_operations_syntax

text \<open>
  \<^verbatim>\<open>ps2.c\<close> and \<^verbatim>\<open>include/keyboard.h\<close>: the PS/2 controller and the keyboard. The buffer of typed characters is
  an array of 256 with a count; the interrupt handler appends, \<^verbatim>\<open>getch\<close> and \<^verbatim>\<open>readch\<close> take the first and move
  the others down. The addresses of the handlers and what installing the mouse driver does are arguments.
\<close>

section \<open>State\<close>

record ps2 =
  ps2_initialized :: bool
  ps2_channels :: u8
  ps_caps :: bool
  ps_scroll :: bool
  ps_num :: bool
  keydown_map :: "bool list"
  kbd_buffer :: bytes
  kbd_ptr :: int
  ps2_irqs :: interrupts

definition PORT_PS2_DATA :: u16 where "PORT_PS2_DATA = 0x60"
definition PORT_PS2_STATUS :: u16 where "PORT_PS2_STATUS = 0x64"
definition PORT_PS2_CMD :: u16 where "PORT_PS2_CMD = 0x64"
definition PS2DEV_RESET :: u8 where "PS2DEV_RESET = 0xFF"
definition READ_TIMEOUT :: u32 where "READ_TIMEOUT = 200"
definition IRQ1_INTID :: u32 where "IRQ1_INTID = 33"

lemmas ps2_ports = PORT_PS2_DATA_def PORT_PS2_CMD_def PORT_PS2_STATUS_def

section \<open>The controller\<close>

definition ps2_get_status :: "machine \<Rightarrow> io \<Rightarrow> u8 \<times> io" where
  "ps2_get_status m h = inb m PORT_PS2_CMD h"

partial_function (option) ps2_wait_read_loop :: "machine \<Rightarrow> u32 \<Rightarrow> u8 \<Rightarrow> io \<Rightarrow> (hresult \<times> io) run option" where
  "ps2_wait_read_loop m to_time s h =
     (if s AND 1 \<noteq> 0 then Some (Inr (S_OK, h))
      else
        let (now, h) = read_clock m h in
        if to_time \<le> now then Some (Inr (E_FAIL, h))
        else let (s, h) = ps2_get_status m h in ps2_wait_read_loop m to_time s h)"

definition ps2_wait_read :: "machine \<Rightarrow> u32 \<Rightarrow> io \<Rightarrow> (hresult \<times> io) run" where
  "ps2_wait_read m dwTimeout h =
     (let (s, h) = ps2_get_status m h;
          (now, h) = read_clock m h
      in endless (ps2_wait_read_loop m (now + dwTimeout) s h))"

partial_function (option) ps2_wait_write_loop :: "machine \<Rightarrow> u8 \<Rightarrow> io \<Rightarrow> io run option" where
  "ps2_wait_write_loop m s h =
     (if s AND 2 = 0 then Some (Inr h)
      else let (s, h) = ps2_get_status m h in ps2_wait_write_loop m s h)"

definition ps2_wait_write :: "machine \<Rightarrow> io \<Rightarrow> io run" where
  "ps2_wait_write m h = (let (s, h) = ps2_get_status m h in endless (ps2_wait_write_loop m s h))"

definition ps2_set_conf :: "machine \<Rightarrow> bool \<Rightarrow> bool \<Rightarrow> bool \<Rightarrow> io \<Rightarrow> io run" where
  "ps2_set_conf m ch1_int ch2_int transl h =
     (let h = outb PORT_PS2_CMD 0x20 h in
      bindR (ps2_wait_read m READ_TIMEOUT h) (\<lambda>(_, h).
        let (cb, h) = inb m PORT_PS2_DATA h;
            cb = (if ch1_int then cb OR 0x01 else cb AND NOT 0x01);
            cb = (if ch2_int then cb OR 0x02 else cb AND NOT 0x02);
            cb = (if transl then cb OR 0x40 else cb AND NOT 0x40);
            h = outb PORT_PS2_CMD 0x60 h
        in bindR (ps2_wait_write m h) (\<lambda>h. Inr (outb PORT_PS2_DATA cb h))))"

definition ps2_device_write :: "machine \<Rightarrow> ps2 \<Rightarrow> int \<Rightarrow> u8 \<Rightarrow> io \<Rightarrow> (hresult \<times> io) run" where
  "ps2_device_write m d dev_id b h =
     (let send = (\<lambda>h. bindR (ps2_wait_write m h) (\<lambda>h. Inr (S_OK, outb PORT_PS2_DATA b h))) in
      if dev_id = 0 then send h
      else if dev_id = 1 then
        if ps2_channels d < 2 then Inr (E_FAIL, h) else send (outb PORT_PS2_CMD 0xD4 h)
      else Inr (E_INVALIDARG, h))"

definition ps2_device_read_ex :: "machine \<Rightarrow> u32 \<Rightarrow> io \<Rightarrow> (u8 \<times> io) run" where
  "ps2_device_read_ex m dwTimeout h =
     bindR (if dwTimeout \<noteq> 0 then ps2_wait_read m dwTimeout h else Inr (S_OK, h))
       (\<lambda>(_, h). Inr (inb m PORT_PS2_DATA h))"

definition ps2_device_read :: "machine \<Rightarrow> io \<Rightarrow> (u8 \<times> io) run" where
  "ps2_device_read m h = bindR (ps2_wait_read m READ_TIMEOUT h) (\<lambda>(_, h). Inr (inb m PORT_PS2_DATA h))"

definition ps2_cpu_reset :: "machine \<Rightarrow> io \<Rightarrow> (hresult \<times> io) run" where
  "ps2_cpu_reset m h = bindR (ps2_wait_write m h) (\<lambda>h. Inr (S_OK, outb PORT_PS2_CMD 0xFE h))"

definition ps2_device_reset :: "machine \<Rightarrow> ps2 \<Rightarrow> int \<Rightarrow> io \<Rightarrow> (hresult \<times> io) run" where
  "ps2_device_reset m d dev_id h =
     bindR (ps2_device_write m d dev_id PS2DEV_RESET h) (\<lambda>(_, h).
     bindR (ps2_device_read m h) (\<lambda>(r, h). Inr (if r \<noteq> 0xFA then E_FAIL else S_OK, h)))"

partial_function (option) keyboard_waitfor_ack_loop :: "machine \<Rightarrow> io \<Rightarrow> io run option" where
  "keyboard_waitfor_ack_loop m h =
     (let (b, h) = inb m PORT_PS2_DATA h in
      if b = 0xFA then Some (Inr h) else keyboard_waitfor_ack_loop m h)"

definition keyboard_waitfor_ack :: "machine \<Rightarrow> io \<Rightarrow> io run" where
  "keyboard_waitfor_ack m h = endless (keyboard_waitfor_ack_loop m h)"

definition mouse_irq_handler :: "machine \<Rightarrow> io \<Rightarrow> io run" where
  "mouse_irq_handler m h =
     bindR (ps2_device_read m h) (\<lambda>(_, h).
     bindR (ps2_device_read_ex m 0 h) (\<lambda>(_, h).
     bindR (ps2_device_read_ex m 0 h) (\<lambda>(_, h). Inr h)))"

text \<open>Reading and writing a block through port 1. The count is \<^verbatim>\<open>size\<close>, nothing if it is not positive.\<close>

fun ps2_device1_read :: "machine \<Rightarrow> nat \<Rightarrow> io \<Rightarrow> (bytes \<times> io) run" where
  "ps2_device1_read m 0 h = Inr ([], h)"
| "ps2_device1_read m (Suc n) h =
     bindR (ps2_device_read m h) (\<lambda>(b, h).
     bindR (ps2_device1_read m n h) (\<lambda>(bs, h). Inr (b # bs, h)))"

fun ps2_device1_write :: "machine \<Rightarrow> ps2 \<Rightarrow> bytes \<Rightarrow> io \<Rightarrow> (nat \<times> io) run" where
  "ps2_device1_write m d [] h = Inr (0, h)"
| "ps2_device1_write m d (b # bs) h =
     bindR (ps2_device_write m d 0 b h) (\<lambda>(hr, h).
     bindR (ps2_device1_write m d bs h) (\<lambda>(n, h). Inr (if SUCCEEDED hr then Suc n else n, h)))"

section \<open>Scan codes\<close>

abbreviation VKEY_ESC :: u16 where "VKEY_ESC \<equiv> 0xFF01"

abbreviation VKEY_LEFTCTRL :: u16 where "VKEY_LEFTCTRL \<equiv> 0xFF0D"

abbreviation VKEY_BACKSP :: u16 where "VKEY_BACKSP \<equiv> 0xFF0E"

abbreviation VKEY_TAB :: u16 where "VKEY_TAB \<equiv> 0xFF0F"

abbreviation VKEY_LEFTSHIFT :: u16 where "VKEY_LEFTSHIFT \<equiv> 0xFF2A"

abbreviation VKEY_RIGHTSHIFT :: u16 where "VKEY_RIGHTSHIFT \<equiv> 0xFF36"

abbreviation VKEY_LEFTALT :: u16 where "VKEY_LEFTALT \<equiv> 0xFF38"

abbreviation VKEY_CAPSLOCK :: u16 where "VKEY_CAPSLOCK \<equiv> 0xFF3A"

abbreviation VKEY_NUMLOCK :: u16 where "VKEY_NUMLOCK \<equiv> 0xFF45"

abbreviation VKEY_SCROLLLOCK :: u16 where "VKEY_SCROLLLOCK \<equiv> 0xFF46"

abbreviation VKEY_F1 :: u16 where "VKEY_F1 \<equiv> 0xFF3B"

abbreviation VKEY_F2 :: u16 where "VKEY_F2 \<equiv> 0xFF3C"

abbreviation VKEY_F3 :: u16 where "VKEY_F3 \<equiv> 0xFF3D"

abbreviation VKEY_F4 :: u16 where "VKEY_F4 \<equiv> 0xFF3E"

abbreviation VKEY_F5 :: u16 where "VKEY_F5 \<equiv> 0xFF3F"

abbreviation VKEY_F6 :: u16 where "VKEY_F6 \<equiv> 0xFF40"

abbreviation VKEY_F7 :: u16 where "VKEY_F7 \<equiv> 0xFF41"

abbreviation VKEY_F8 :: u16 where "VKEY_F8 \<equiv> 0xFF42"

abbreviation VKEY_F9 :: u16 where "VKEY_F9 \<equiv> 0xFF43"

abbreviation VKEY_F10 :: u16 where "VKEY_F10 \<equiv> 0xFF44"

abbreviation VKEY_F11 :: u16 where "VKEY_F11 \<equiv> 0xFF57"

abbreviation VKEY_F12 :: u16 where "VKEY_F12 \<equiv> 0xFF58"

text \<open>The arrays have 128 elements; those that the source does not list are 0.\<close>

definition keyboard_scs1 :: "u16 list" where
  "keyboard_scs1 = [
    0x00, VKEY_ESC, 0x31, 0x32, 0x33, 0x34, 0x35, 0x36, 0x37, 0x38, 0x39, 0x30, 0x2D, 0x3D, VKEY_BACKSP,
    VKEY_TAB, 0x71, 0x77, 0x65, 0x72, 0x74, 0x79, 0x75, 0x69, 0x6F, 0x70, 0x5B, 0x5D, 0x0A, VKEY_LEFTCTRL,
    0x61, 0x73, 0x64, 0x66, 0x67, 0x68, 0x6A, 0x6B, 0x6C, 0x3B, 0x27, 0x60, VKEY_LEFTSHIFT, 0x5C, 0x7A, 0x78,
    0x63, 0x76, 0x62, 0x6E, 0x6D, 0x2C, 0x2E, 0x2F, VKEY_RIGHTSHIFT, 0x2A, VKEY_LEFTALT, 0x20, VKEY_CAPSLOCK,
    VKEY_F1, VKEY_F2, VKEY_F3, VKEY_F4, VKEY_F5, VKEY_F6, VKEY_F7, VKEY_F8, VKEY_F9, VKEY_F10, VKEY_F11,
    VKEY_F12, 0x5F, 0x5F, 0x5F, 0x5F, 0x5F, 0x5F, 0x5F, 0x5F, 0x5F] @ replicate 48 0"

definition keyboard_scs1_uc :: "u16 list" where
  "keyboard_scs1_uc = [
    0x00, VKEY_ESC, 0x21, 0x40, 0x23, 0x24, 0x25, 0x5E, 0x26, 0x2A, 0x28, 0x29, 0x5F, 0x2B, VKEY_BACKSP,
    VKEY_TAB, 0x51, 0x57, 0x45, 0x52, 0x54, 0x59, 0x55, 0x49, 0x4F, 0x50, 0x7B, 0x7D, 0x0A, VKEY_LEFTCTRL,
    0x41, 0x53, 0x44, 0x46, 0x47, 0x48, 0x4A, 0x4B, 0x4C, 0x3A, 0x22, 0x7E, VKEY_LEFTSHIFT, 0x7C, 0x5A, 0x58,
    0x43, 0x56, 0x42, 0x4E, 0x4D, 0x3C, 0x3E, 0x3F, VKEY_RIGHTSHIFT, 0x2A, VKEY_LEFTALT, 0x20, VKEY_CAPSLOCK,
    VKEY_F1, VKEY_F2, VKEY_F3, VKEY_F4, VKEY_F5, VKEY_F6, VKEY_F7, VKEY_F8, VKEY_F9, VKEY_F10, VKEY_F11,
    VKEY_F12, 0x5F, 0x5F, 0x5F, 0x5F, 0x5F, 0x5F, 0x5F, 0x5F, 0x5F] @ replicate 48 0"

definition is_ascii_sym :: "u16 \<Rightarrow> bool" where
  "is_ascii_sym scancode = (scancode AND 0xFF00 \<noteq> 0xFF00)"

section \<open>The keyboard\<close>

definition keyboard_initialize :: "u32 \<Rightarrow> ps2 \<Rightarrow> hresult \<times> ps2" where
  "keyboard_initialize handler d =
     (S_OK, d\<lparr>ps2_irqs := snd (register_isr_callback (ps2_irqs d) IRQ1_INTID handler),
              ps_caps := False, ps_scroll := False, ps_num := False, keydown_map := replicate 128 False\<rparr>)"

definition keyboard_irq_handler :: "machine \<Rightarrow> ps2 \<Rightarrow> io \<Rightarrow> (ps2 \<times> io) run" where
  "keyboard_irq_handler m d h =
     (if 256 \<le> kbd_ptr d then Inl (Panic ''Keyboard buffer overflow!'')
      else bindR (ps2_device_read_ex m 0 h) (\<lambda>(b, h).
        if b AND 0x80 \<noteq> 0
        then Inr (d\<lparr>keydown_map := (keydown_map d)[unat (b AND 0x7F) := False]\<rparr>, h)
        else
          let d = d\<lparr>keydown_map := (keydown_map d)[unat b := True]\<rparr>;
              pseudoascii = (if keydown_map d ! 0x2A \<or> keydown_map d ! 0x36
                             then keyboard_scs1_uc ! unat b else keyboard_scs1 ! unat b)
          in if is_ascii_sym pseudoascii then
               if 0 \<le> kbd_ptr d \<and> nat (kbd_ptr d) < length (kbd_buffer d)
               then Inr (d\<lparr>kbd_buffer := (kbd_buffer d)[nat (kbd_ptr d) := ucast pseudoascii],
                           kbd_ptr := kbd_ptr d + 1\<rparr>, h)
               else Inl BadAccess
             else if pseudoascii = VKEY_CAPSLOCK then Inr (d\<lparr>ps_caps := \<not> ps_caps d\<rparr>, h)
             else if pseudoascii = VKEY_SCROLLLOCK then Inr (d\<lparr>ps_scroll := \<not> ps_scroll d\<rparr>, h)
             else if pseudoascii = VKEY_NUMLOCK then Inr (d\<lparr>ps_num := \<not> ps_num d\<rparr>, h)
             else Inr (d, h)))"

text \<open>\<^verbatim>\<open>kbd_buffer[i] = kbd_buffer[i + 1]\<close> for the indices of the list.\<close>

fun move_down :: "nat list \<Rightarrow> bytes \<Rightarrow> bytes run" where
  "move_down [] b = Inr b"
| "move_down (i # is) b = (if Suc i < length b then move_down is (b[i := b ! Suc i]) else Inl BadAccess)"

text \<open>\<open>arrivals k\<close> is what interrupts do to the driver's state while \<^verbatim>\<open>getch\<close> waits for the \<open>k\<close>-th time.\<close>

partial_function (option) getch_wait :: "(nat \<Rightarrow> ps2 \<Rightarrow> ps2) \<Rightarrow> nat \<Rightarrow> ps2 \<Rightarrow> ps2 run option" where
  "getch_wait arrivals k d =
     (if kbd_ptr d \<noteq> 0 then Some (Inr d) else getch_wait arrivals (Suc k) (arrivals k d))"

definition getch :: "(nat \<Rightarrow> ps2 \<Rightarrow> ps2) \<Rightarrow> ps2 \<Rightarrow> (u8 \<times> ps2) run" where
  "getch arrivals d =
     bindR (endless (getch_wait arrivals 0 d)) (\<lambda>d.
     bindR (guardR (kbd_buffer d \<noteq> []) BadAccess) (\<lambda>_.
       let res = kbd_buffer d ! 0 in
       bindR (move_down [0..<nat (kbd_ptr d - 1)] (kbd_buffer d)) (\<lambda>b.
         Inr (res, d\<lparr>kbd_buffer := b, kbd_ptr := kbd_ptr d - 1\<rparr>))))"

text \<open>\<^verbatim>\<open>readch\<close> up to the decrement of \<^verbatim>\<open>kbd_ptr\<close>, and its loop: an interrupt may come between them.\<close>

definition readch_take :: "ps2 \<Rightarrow> (u8 \<times> ps2) option" where
  "readch_take d = (if kbd_ptr d = 0 then None else Some (kbd_buffer d ! 0, d\<lparr>kbd_ptr := kbd_ptr d - 1\<rparr>))"

definition readch_shift :: "ps2 \<Rightarrow> ps2 run" where
  "readch_shift d = bindR (move_down [0..<nat (kbd_ptr d)] (kbd_buffer d)) (\<lambda>b. Inr (d\<lparr>kbd_buffer := b\<rparr>))"

definition readch :: "ps2 \<Rightarrow> (hresult \<times> u8 option \<times> ps2) run" where
  "readch d =
     (case readch_take d of
        None \<Rightarrow> Inr (E_ENDOFSTR, None, d)
      | Some (c, d) \<Rightarrow> bindR (readch_shift d) (\<lambda>d. Inr (S_OK, Some c, d)))"

section \<open>Starting the controller\<close>

text \<open>\<open>install\<close> is the effect of \<^verbatim>\<open>ps2mouse_install\<close>.\<close>

definition ps2_initialize ::
  "machine \<Rightarrow> u32 \<Rightarrow> (ps2 \<Rightarrow> io \<Rightarrow> (hresult \<times> ps2 \<times> io) run) \<Rightarrow> ps2 \<Rightarrow> io \<Rightarrow> (hresult \<times> ps2 \<times> io) run" where
  "ps2_initialize m handler install d h =
     (let cli = (\<lambda>d. d\<lparr>ps2_irqs := (ps2_irqs d)\<lparr>in_if := False\<rparr>\<rparr>);
          sti = (\<lambda>d. d\<lparr>ps2_irqs := (ps2_irqs d)\<lparr>in_if := True\<rparr>\<rparr>);
          d = (cli d)\<lparr>ps2_channels := 2\<rparr>;
          h = outb PORT_PS2_CMD 0xAD h;
          h = outb PORT_PS2_CMD 0xA7 h;
          (_, h) = inb m PORT_PS2_DATA h in
      bindR (ps2_set_conf m False False False h) (\<lambda>h.
      bindR (ps2_wait_read m READ_TIMEOUT (outb PORT_PS2_CMD 0xAA h)) (\<lambda>(_, h).
        let (res, h) = inb m PORT_PS2_DATA h in
        if res = 0xFC then Inr (E_FAIL, sti d, h)
        else if res \<noteq> 0x55 then Inl (Panic ''Unexpected return code from PS2 controller test...'')
        else bindR (ps2_wait_read m READ_TIMEOUT (outb PORT_PS2_CMD 0xAB h)) (\<lambda>(_, h).
          let (res, h) = inb m PORT_PS2_DATA h in
          if res \<noteq> 0 then Inr (E_FAIL, sti d, h)
          else bindR (ps2_set_conf m True False True (outb PORT_PS2_CMD 0xAE h)) (\<lambda>h.
          bindR (ps2_device_reset m d 0 h) (\<lambda>(hres, h).
            if FAILED hres then Inr (hres, sti d, h)
            else
              let d = sti (snd (keyboard_initialize handler d)) in
              bindR (install d h) (\<lambda>(hres, d, h).
                let d = (if FAILED hres then d\<lparr>ps2_channels := 1\<rparr> else d) in
                Inr (S_OK, d\<lparr>kbd_ptr := 0, ps2_initialized := True\<rparr>, h))))))))"

section \<open>The buffer as a queue\<close>

definition queue :: "ps2 \<Rightarrow> bytes" where
  "queue d = take (nat (kbd_ptr d)) (kbd_buffer d)"

definition kbd_ok :: "ps2 \<Rightarrow> bool" where
  "kbd_ok d = (length (kbd_buffer d) = 256 \<and> 0 \<le> kbd_ptr d \<and> kbd_ptr d \<le> 256 \<and> length (keydown_map d) = 128)"

lemma length_queue: "kbd_ok d \<Longrightarrow> int (length (queue d)) = kbd_ptr d"
  by (auto simp: queue_def kbd_ok_def min_def)

lemma move_down_from:
  "k \<le> n \<Longrightarrow> n < length b \<Longrightarrow>
   move_down [k..<n] b = Inr (take k b @ take (n - k) (drop (Suc k) b) @ drop n b)"
proof (induction "n - k" arbitrary: k b)
  case 0
  then show ?case by simp
next
  case (Suc j)
  then have k: "k < n" by simp
  let ?b = "b[k := b ! Suc k]"
  have "take (n - k) (drop (Suc k) b) = b ! Suc k # take (n - Suc k) (drop (Suc (Suc k)) b)"
    using k Suc.prems by (simp add: Cons_nth_drop_Suc [symmetric] Suc_diff_Suc [symmetric] del: Cons_nth_drop_Suc)
  moreover have "take (Suc k) ?b = take k b @ [b ! Suc k]"
    using k Suc.prems by (simp add: take_Suc_conv_app_nth)
  ultimately show ?case
    using Suc.hyps(1) [of "Suc k" ?b] Suc.hyps(2) Suc.prems k by (simp add: upt_conv_Cons [OF k])
qed

lemma move_down_all: "n < length b \<Longrightarrow> move_down [0..<n] b = Inr (take n (tl b) @ drop n b)"
  using move_down_from [of 0 n b] by (simp add: drop_Suc)

lemma readch_empty: "queue d = [] \<Longrightarrow> kbd_ok d \<Longrightarrow> readch d = Inr (E_ENDOFSTR, None, d)"
  using length_queue [of d] by (simp add: readch_def readch_take_def)

lemma take_queue_cons:
  assumes "length b = (256 :: nat)" "n \<le> 256" "0 < n"
  shows "take n b = b ! 0 # take (n - 1) (tl b)"
  using assms by (cases b; cases n) auto

lemma readch_queue:
  assumes "kbd_ok d" "queue d = c # cs"
  shows "\<exists>d'. readch d = Inr (S_OK, Some c, d') \<and> kbd_ok d' \<and> queue d' = cs \<and> keydown_map d' = keydown_map d"
proof -
  note ok = assms(1) [unfolded kbd_ok_def]
  let ?n = "nat (kbd_ptr d)"
  have n: "0 < ?n" "?n \<le> 256" using length_queue [OF assms(1)] assms(2) ok by auto
  have q: "c = kbd_buffer d ! 0" "cs = take (?n - 1) (tl (kbd_buffer d))"
    using take_queue_cons [of "kbd_buffer d" ?n] ok n assms(2) by (simp_all add: queue_def)
  have e: "nat (kbd_ptr d - 1) = ?n - 1" by simp
  have "move_down [0..<?n - 1] (kbd_buffer d) = Inr (take (?n - 1) (tl (kbd_buffer d)) @ drop (?n - 1) (kbd_buffer d))"
    using n ok by (intro move_down_all) simp
  then show ?thesis
    using n ok q by (simp add: readch_def readch_take_def readch_shift_def e kbd_ok_def queue_def)
qed

text \<open>\<^verbatim>\<open>getch\<close> on a nonempty buffer is \<^verbatim>\<open>readch\<close>.\<close>

lemma getch_queue:
  assumes "kbd_ok d" "queue d = c # cs"
  shows "\<exists>d'. getch arrivals d = Inr (c, d') \<and> readch d = Inr (S_OK, Some c, d')"
proof -
  note ok = assms(1) [unfolded kbd_ok_def]
  have n: "kbd_ptr d \<noteq> 0" using length_queue [OF assms(1)] assms(2) by auto
  then have w: "getch_wait arrivals 0 d = Some (Inr d)" by (subst getch_wait.simps) simp
  obtain d' where "readch d = Inr (S_OK, Some c, d')"
    using readch_queue [OF assms] by blast
  then show ?thesis
    using n ok w by (auto simp: getch_def readch_def readch_take_def readch_shift_def)
qed

section \<open>What the keys spell\<close>

text \<open>A key is held if its last event was a press. The trace of scan codes has the newest first.\<close>

fun held :: "u8 \<Rightarrow> bytes \<Rightarrow> bool" where
  "held k [] = False"
| "held k (x # tr) = (if x AND 0x7F = k then x AND 0x80 = 0 else held k tr)"

definition spelled :: "bytes \<Rightarrow> u8 \<Rightarrow> bytes" where
  "spelled tr x =
     (if x AND 0x80 \<noteq> 0 then []
      else let w = (if held 0x2A (x # tr) \<or> held 0x36 (x # tr) then keyboard_scs1_uc else keyboard_scs1) ! unat x
           in if is_ascii_sym w then [ucast w] else [])"

fun spell :: "bytes \<Rightarrow> bytes \<Rightarrow> bytes" where
  "spell tr [] = []"
| "spell tr (x # xs) = spelled tr x @ spell (x # tr) xs"

definition tracks :: "bytes \<Rightarrow> ps2 \<Rightarrow> bool" where
  "tracks tr d = (\<forall>k. k AND 0x80 = 0 \<longrightarrow> keydown_map d ! unat k = held k tr)"

lemma low7: "(x :: u8) AND 0x80 = 0 \<Longrightarrow> x AND 0x7F = x \<and> unat x < 128"
proof -
  assume a: "x AND 0x80 = 0"
  have "x = x AND 0xFF" using and.right_neutral [of x] by (simp add: minus_1_eq_mask mask_numeral del: and.right_neutral)
  also have "\<dots> = (x AND 0x7F) OR (x AND 0x80)"
    by (simp flip: bit.conj_disj_distrib)
  finally have "x = (x AND 0x7F) OR (x AND 0x80)" .
  with a have e: "x AND 0x7F = x" by simp
  have "x AND 0x7F \<le> 0x7F" by (rule word_and_le1)
  then show ?thesis unfolding e by (simp add: e word_le_nat_alt)
qed

lemma and7F_low: "((x :: u8) AND 0x7F) AND 0x80 = 0"
  by (simp add: and.assoc)

lemma tracks_update:
  assumes "tracks tr d" "length (keydown_map d) = 128"
    and "keydown_map d' = (keydown_map d)[unat (x AND 0x7F) := (x AND 0x80 = 0)]"
  shows "tracks (x # tr) d'"
  unfolding tracks_def
proof (intro allI impI)
  fix k :: u8 assume k: "k AND 0x80 = 0"
  have "x AND 0x7F = k \<longleftrightarrow> unat (x AND 0x7F) = unat k"
    by (rule word_unat_eq_iff)
  then show "keydown_map d' ! unat k = held k (x # tr)"
    using assms k low7 [OF k] by (auto simp: nth_list_update tracks_def)
qed

lemma keyboard_irq_step:
  assumes ok: "kbd_ok d" and tr: "tracks tr d" and room: "length (queue d) < 256"
  shows "\<exists>d'. keyboard_irq_handler m d h = Inr (d', h @ [InB 0x60]) \<and> kbd_ok d' \<and>
     tracks (m_inb m h 0x60 # tr) d' \<and> queue d' = queue d @ spelled tr (m_inb m h 0x60) \<and>
     (\<forall>i. length (queue d) < i \<longrightarrow> kbd_buffer d' ! i = kbd_buffer d ! i)"
proof -
  note k = ok [unfolded kbd_ok_def]
  let ?x = "m_inb m h 0x60"
  have p: "\<not> 256 \<le> kbd_ptr d" "nat (kbd_ptr d) < 256"
    using room length_queue [OF ok] by auto
  have rd: "ps2_device_read_ex m 0 h = Inr (?x, h @ [InB 0x60])"
    by (simp add: ps2_device_read_ex_def inb_def ps2_ports)
  show ?thesis
  proof (cases "?x AND 0x80 = 0")
    case False
    let ?d = "d\<lparr>keydown_map := (keydown_map d)[unat (?x AND 0x7F) := False]\<rparr>"
    have "tracks (?x # tr) ?d" using False k tr by (intro tracks_update [of tr d]) simp_all
    then show ?thesis
      using False p rd k by (simp add: keyboard_irq_handler_def kbd_ok_def queue_def spelled_def)
  next
    case True
    note l = low7 [OF True]
    let ?map = "(keydown_map d)[unat ?x := True]"
    have t: "tracks (?x # tr) d'" if "keydown_map d' = ?map" for d'
      using True k tr l that by (intro tracks_update [of tr d]) simp_all
    have sh: "?map ! 0x2A = held 0x2A (?x # tr)" "?map ! 0x36 = held 0x36 (?x # tr)"
      using t [of "d\<lparr>keydown_map := ?map\<rparr>"] by (auto simp: tracks_def dest: spec [of _ "0x2A"] spec [of _ "0x36"])
    let ?w = "(if held 0x2A (?x # tr) \<or> held 0x36 (?x # tr) then keyboard_scs1_uc else keyboard_scs1) ! unat ?x"
    have w: "(if ?map ! 0x2A \<or> ?map ! 0x36 then keyboard_scs1_uc ! unat ?x else keyboard_scs1 ! unat ?x) = ?w"
      unfolding sh by simp
    show ?thesis
    proof (cases "is_ascii_sym ?w")
      case T: True
      have "take (Suc (nat (kbd_ptr d))) ((kbd_buffer d)[nat (kbd_ptr d) := c]) = take (nat (kbd_ptr d)) (kbd_buffer d) @ [c]" for c
        using p k by (simp add: take_Suc_conv_app_nth)
      moreover have "nat (kbd_ptr d + 1) = Suc (nat (kbd_ptr d))" using k by linarith
      ultimately show ?thesis
        using True T p k rd t w
        by (simp add: keyboard_irq_handler_def Let_def kbd_ok_def queue_def spelled_def)
    next
      case F: False
      show ?thesis
        using True F p k rd t w
        by (simp add: keyboard_irq_handler_def Let_def kbd_ok_def queue_def spelled_def)
    qed
  qed
qed

section \<open>Programs of interrupts and reads\<close>

datatype kbd_op = KeyIrq | ReadCh

fun kbd_run :: "machine \<Rightarrow> kbd_op list \<Rightarrow> ps2 \<Rightarrow> io \<Rightarrow> (bytes \<times> bytes \<times> ps2 \<times> io) run" where
  "kbd_run m [] d h = Inr ([], [], d, h)"
| "kbd_run m (KeyIrq # ops) d h =
     bindR (keyboard_irq_handler m d h) (\<lambda>(d, h').
     bindR (kbd_run m ops d h') (\<lambda>(rcv, del, r). Inr (m_inb m h 0x60 # rcv, del, r)))"
| "kbd_run m (ReadCh # ops) d h =
     bindR (readch d) (\<lambda>(_, c, d).
     bindR (kbd_run m ops d h) (\<lambda>(rcv, del, r). Inr (rcv, (case c of None \<Rightarrow> del | Some x \<Rightarrow> x # del), r)))"

text \<open>What a run that ends says: the characters delivered and those that wait are what was typed.\<close>

definition kbd_spelt :: "machine \<Rightarrow> bytes \<Rightarrow> kbd_op list \<Rightarrow> ps2 \<Rightarrow> io \<Rightarrow> bytes \<Rightarrow> bytes \<Rightarrow> ps2 \<Rightarrow> bool" where
  "kbd_spelt m tr ops d h rcv del d' \<longleftrightarrow> (\<exists>h'. kbd_run m ops d h = Inr (rcv, del, d', h')) \<and> kbd_ok d' \<and>
     length rcv = count_list ops KeyIrq \<and> queue d @ spell tr rcv = del @ queue d'"

definition kbd_outcome :: "machine \<Rightarrow> bytes \<Rightarrow> kbd_op list \<Rightarrow> ps2 \<Rightarrow> io \<Rightarrow> bool" where
  "kbd_outcome m tr ops d h \<longleftrightarrow> (\<exists>rcv del d'. kbd_spelt m tr ops d h rcv del d') \<or>
     (\<exists>before after rcv del d'. ops = before @ KeyIrq # after \<and> kbd_spelt m tr before d h rcv del d' \<and>
        length (queue d') = 256 \<and> kbd_run m ops d h = Inl (Panic ''Keyboard buffer overflow!''))"

lemma kbd_outcome_Cons:
  assumes spelt: "\<And>ops rcv del d'. kbd_spelt m tr1 ops d1 h1 rcv del d' \<Longrightarrow>
      \<exists>rcv' del'. kbd_spelt m tr (p # ops) d h rcv' del' d'"
    and panic: "\<And>s. kbd_run m ops d1 h1 = Inl s \<Longrightarrow> kbd_run m (p # ops) d h = Inl s"
    and rest: "kbd_outcome m tr1 ops d1 h1"
  shows "kbd_outcome m tr (p # ops) d h"
  using rest unfolding kbd_outcome_def
proof (elim disjE exE conjE)
  fix rcv del d' assume "kbd_spelt m tr1 ops d1 h1 rcv del d'"
  from spelt [OF this] show "(\<exists>rcv del d'. kbd_spelt m tr (p # ops) d h rcv del d') \<or>
     (\<exists>before after rcv del d'. p # ops = before @ KeyIrq # after \<and> kbd_spelt m tr before d h rcv del d' \<and>
        length (queue d') = 256 \<and> kbd_run m (p # ops) d h = Inl (Panic ''Keyboard buffer overflow!''))" by blast
next
  fix before after rcv del d'
  assume "ops = before @ KeyIrq # after" "kbd_spelt m tr1 before d1 h1 rcv del d'" "length (queue d') = 256"
    "kbd_run m ops d1 h1 = Inl (Panic ''Keyboard buffer overflow!'')"
  with spelt panic have "p # ops = (p # before) @ KeyIrq # after \<and>
     (\<exists>rcv del. kbd_spelt m tr (p # before) d h rcv del d') \<and> length (queue d') = 256 \<and>
     kbd_run m (p # ops) d h = Inl (Panic ''Keyboard buffer overflow!'')" by simp
  then show "(\<exists>rcv del d'. kbd_spelt m tr (p # ops) d h rcv del d') \<or>
     (\<exists>before after rcv del d'. p # ops = before @ KeyIrq # after \<and> kbd_spelt m tr before d h rcv del d' \<and>
        length (queue d') = 256 \<and> kbd_run m (p # ops) d h = Inl (Panic ''Keyboard buffer overflow!''))" by blast
qed

lemma kbd_run_spells: "kbd_ok d \<Longrightarrow> tracks tr d \<Longrightarrow> kbd_outcome m tr ops d h"
proof (induction ops arbitrary: d tr h)
  case Nil
  then show ?case by (auto simp: kbd_outcome_def kbd_spelt_def)
next
  case (Cons p ops d tr h)
  show ?case
  proof (cases p)
    case KeyIrq
    show ?thesis
    proof (cases "length (queue d) < 256")
      case True
      obtain d1 where d1: "keyboard_irq_handler m d h = Inr (d1, h @ [InB 0x60])" "kbd_ok d1"
         "tracks (m_inb m h 0x60 # tr) d1" "queue d1 = queue d @ spelled tr (m_inb m h 0x60)"
        using keyboard_irq_step [OF Cons.prems True, of m h] by auto
      show ?thesis
        by (rule kbd_outcome_Cons [OF _ _ Cons.IH [OF d1(2,3), of "h @ [InB 0x60]"]])
          (auto simp: KeyIrq d1 kbd_spelt_def)
    next
      case False
      then have full: "256 \<le> kbd_ptr d" "length (queue d) = 256"
        using length_queue [OF Cons.prems(1)] Cons.prems(1) by (auto simp: kbd_ok_def)
      then have "kbd_run m (p # ops) d h = Inl (Panic ''Keyboard buffer overflow!'')"
        by (simp add: KeyIrq keyboard_irq_handler_def)
      moreover have "kbd_spelt m tr [] d h [] [] d" using Cons.prems by (simp add: kbd_spelt_def)
      ultimately show ?thesis
        using full(2) KeyIrq unfolding kbd_outcome_def by (metis append_Nil)
    qed
  next
    case ReadCh
    show ?thesis
    proof (cases "queue d")
      case Nil
      show ?thesis
        by (rule kbd_outcome_Cons [OF _ _ Cons.IH [OF Cons.prems, of h]])
          (auto simp: ReadCh readch_empty [OF Nil Cons.prems(1)] kbd_spelt_def)
    next
      case (Cons c cs)
      obtain d1 where d1: "readch d = Inr (S_OK, Some c, d1)" "kbd_ok d1" "queue d1 = cs"
          "keydown_map d1 = keydown_map d"
        using readch_queue [OF Cons.prems(1) Cons] by blast
      then have "tracks tr d1" using Cons.prems(2) by (simp add: tracks_def)
      note rest = Cons.IH [OF d1(2) this, of h]
      show ?thesis
        by (rule kbd_outcome_Cons [OF _ _ rest])
          (auto simp: ReadCh d1 Cons kbd_spelt_def)
    qed
  qed
qed

section \<open>Waiting for the controller\<close>

text \<open>The history after \<open>n\<close> rounds of polling.\<close>

definition polled :: "nat \<Rightarrow> io \<Rightarrow> io" where
  "polled n h = h @ concat (replicate n [ClockRead, InB 0x64])"

lemma polled_simps [simp]: "polled 0 h = h" "polled (Suc n) h = polled n (h @ [ClockRead, InB 0x64])"
  by (simp_all add: polled_def)

text \<open>Once the clock passes the deadline, or the controller has data, the wait is over.\<close>

lemma ps2_wait_read_loop_returns:
  "to_time \<le> m_clock m (polled n h) \<Longrightarrow> \<exists>r. ps2_wait_read_loop m to_time s h = Some (Inr r)"
proof (induction n arbitrary: h s)
  case 0
  then show ?case by (subst ps2_wait_read_loop.simps) (simp add: read_clock_def Let_def)
next
  case (Suc n)
  then show ?case
    by (subst ps2_wait_read_loop.simps)
      (simp add: read_clock_def Let_def ps2_get_status_def inb_def ps2_ports)
qed

lemma ps2_wait_read_returns:
  assumes "m_clock m (h @ [InB 0x64]) + t \<le> m_clock m (polled n (h @ [InB 0x64, ClockRead]))"
  shows "\<exists>r. ps2_wait_read m t h = Inr r"
  using ps2_wait_read_loop_returns [OF assms, of "m_inb m h 0x64"]
  by (auto simp: ps2_wait_read_def ps2_get_status_def inb_def read_clock_def ps2_ports)

text \<open>Near the end of the clock's range the deadline wraps, and a device that is not ready at once has failed.\<close>

lemma ps2_wait_read_wraps:
  assumes "m_inb m h 0x64 AND 1 = 0" and "m_clock m (h @ [InB 0x64]) + t < m_clock m (h @ [InB 0x64])"
    and "m_clock m (h @ [InB 0x64]) \<le> m_clock m (h @ [InB 0x64, ClockRead])"
  shows "ps2_wait_read m t h = Inr (E_FAIL, h @ [InB 0x64, ClockRead, ClockRead])"
proof -
  have "m_clock m (h @ [InB 0x64]) + t \<le> m_clock m (h @ [InB 0x64, ClockRead])"
    using assms(2,3) by simp
  then show ?thesis
    using assms(1) by (simp add: ps2_wait_read_def ps2_get_status_def inb_def read_clock_def ps2_ports
        ps2_wait_read_loop.simps)
qed

section \<open>Properties\<close>

text \<open>The scan code table has F11 where the num lock key is and F12 where scroll lock is.\<close>

lemma scan_tables_lack_locks:
  "\<forall>w \<in> set keyboard_scs1 \<union> set keyboard_scs1_uc. w \<noteq> VKEY_NUMLOCK \<and> w \<noteq> VKEY_SCROLLLOCK"
  by (simp add: keyboard_scs1_def keyboard_scs1_uc_def)

lemma length_scan_tables [simp]: "length keyboard_scs1 = 128" "length keyboard_scs1_uc = 128"
  by (simp_all add: keyboard_scs1_def keyboard_scs1_uc_def)

theorem locks_never_toggle:
  assumes "keyboard_irq_handler m d h = Inr (d', h')"
  shows "ps_num d' = ps_num d \<and> ps_scroll d' = ps_scroll d"
proof -
  have low: "b AND 0x80 = 0 \<Longrightarrow> keyboard_scs1 ! unat b \<noteq> VKEY_NUMLOCK \<and> keyboard_scs1 ! unat b \<noteq> VKEY_SCROLLLOCK \<and>
     keyboard_scs1_uc ! unat b \<noteq> VKEY_NUMLOCK \<and> keyboard_scs1_uc ! unat b \<noteq> VKEY_SCROLLLOCK" for b :: u8
    using scan_tables_lack_locks low7 [of b] by (auto simp: Ball_def)
  show ?thesis
    using assms low by (auto simp: keyboard_irq_handler_def Let_def split: if_splits)
qed

lemma length_spell: "length (spell tr xs) \<le> length xs"
proof (induction xs arbitrary: tr)
  case (Cons x xs)
  have "length (spelled tr x) \<le> 1" by (simp add: spelled_def Let_def)
  then show ?case using Cons.IH [of "x # tr"] by simp
qed simp

definition demo_kbd :: "bytes \<Rightarrow> ps2" where
  "demo_kbd cs = \<lparr> ps2_initialized = True, ps2_channels = 2, ps_caps = False, ps_scroll = False, ps_num = False,
     keydown_map = replicate 128 False, kbd_buffer = cs @ replicate (256 - length cs) 0, kbd_ptr = int (length cs),
     ps2_irqs = \<lparr> in_if = True, in_gdt = [], in_idt = [],
        in_tss = \<lparr> ts_esp0 = 0, ts_ss0 = 0, ts_cs = 0, ts_ss = 0, ts_ds = 0, ts_es = 0, ts_fs = 0, ts_gs = 0 \<rparr>,
        in_isr = [], in_io = [] \<rparr> \<rparr>"

lemma demo_kbd_ok: "length cs \<le> 256 \<Longrightarrow> kbd_ok (demo_kbd cs) \<and> tracks [] (demo_kbd cs) \<and> queue (demo_kbd cs) = cs"
  by (auto simp: kbd_ok_def demo_kbd_def tracks_def queue_def low7)

text \<open>A keyboard that sends the scan codes \<open>xs\<close>, one per read.\<close>

definition typing :: "bytes \<Rightarrow> machine" where
  "typing xs = \<lparr> m_inb = (\<lambda>h p. if length h < length xs then xs ! length h else 0), m_inw = (\<lambda>_ _. 0),
     m_ind = (\<lambda>_ _. 0), m_clock = (\<lambda>_. 0) \<rparr>"

text \<open>C7. Any program of keyboard interrupts and reads, of any length, has one of two ends. Either it runs through, and
  the characters read followed by those that still wait are the characters that waited at first followed by what
  the received scan codes spell: upper case while a shift key is held, one character for each press of a printable
  key, nothing for a release. Or it panics, and then at a keyboard interrupt that came while 256 characters were
  waiting, and up to that interrupt everything was read and queued as it was spelled. So a program that never has an
  interrupt while 256 characters wait loses and reorders nothing.\<close>

theorem keyboard_spells:
  assumes "kbd_ok d" and "tracks tr d"
  shows "(\<exists>rcv del d' h'. kbd_run m ops d h = Inr (rcv, del, d', h') \<and> kbd_ok d' \<and>
      length rcv = count_list ops KeyIrq \<and> queue d @ spell tr rcv = del @ queue d') \<or>
    (\<exists>before after rcv del d' h'. ops = before @ KeyIrq # after \<and> kbd_run m before d h = Inr (rcv, del, d', h') \<and>
      length rcv = count_list before KeyIrq \<and> queue d @ spell tr rcv = del @ queue d' \<and> length (queue d') = 256 \<and>
      kbd_run m ops d h = Inl (Panic ''Keyboard buffer overflow!''))"
  using kbd_run_spells [OF assms, of m ops h] unfolding kbd_outcome_def kbd_spelt_def by blast

theorem keyboard_spells_witness:
  "\<exists>rcv del d' h'. kbd_run (typing [0x2A, 0x1E, 0x9E]) [KeyIrq, KeyIrq, ReadCh, KeyIrq] (demo_kbd [0x7A]) []
     = Inr (rcv, del, d', h') \<and> kbd_ok d' \<and> length rcv = 3 \<and> [0x7A] @ spell [] rcv = del @ queue d'"
proof -
  let ?ops = "[KeyIrq, KeyIrq, ReadCh, KeyIrq]"
  have d: "kbd_ok (demo_kbd [0x7A])" "tracks [] (demo_kbd [0x7A])" "queue (demo_kbd [0x7A]) = [0x7A]"
    using demo_kbd_ok [of "[0x7A]"] by simp_all
  have few: False if "?ops = before @ KeyIrq # after" "length rcv = count_list before KeyIrq"
    "[0x7A] @ spell [] rcv = del @ w" "length w = 256" for before after rcv del and w :: bytes
  proof -
    have "length rcv \<le> length ?ops"
      unfolding that(1,2) using count_le_length [of before KeyIrq] by simp
    then have "length ([0x7A] @ spell [] rcv) \<le> 5" using length_spell [of "[]" rcv] by simp
    then show False unfolding that(3) using that(4) by simp
  qed
  have n: "count_list ?ops KeyIrq = 3" by simp
  show ?thesis
    using keyboard_spells [OF d(1,2), of "typing [0x2A, 0x1E, 0x9E]" ?ops "[]"] few unfolding d(3) n by blast
qed

text \<open>C32. A key press that interrupts \<^verbatim>\<open>readch\<close> between the decrement of the count and the moving of the
  buffer is not queued behind the characters that wait: a character is lost and a stale byte of the buffer
  appears at the end. Handled after the call it is queued as it should be.\<close>

theorem readch_irq_race:
  assumes ok: "kbd_ok d" and n: "0 < kbd_ptr d" "kbd_ptr d < 256" and t: "tracks tr d"
    and x: "spelled tr (m_inb m h 0x60) = [x]"
  shows "(\<exists>c d1 d2 d3. readch_take d = Some (c, d1) \<and> keyboard_irq_handler m d1 h = Inr (d2, h @ [InB 0x60]) \<and>
       readch_shift d2 = Inr d3 \<and> queue d3 = tl (butlast (queue d) @ [x]) @ [kbd_buffer d ! length (queue d)]) \<and>
     (\<exists>c d1 d2. readch d = Inr (S_OK, Some c, d1) \<and> keyboard_irq_handler m d1 h = Inr (d2, h @ [InB 0x60]) \<and>
       queue d2 = tl (queue d) @ [x])"
proof -
  note k = ok [unfolded kbd_ok_def]
  let ?n = "nat (kbd_ptr d)"
  let ?d1 = "d\<lparr>kbd_ptr := kbd_ptr d - 1\<rparr>"
  have take: "readch_take d = Some (kbd_buffer d ! 0, ?d1)" using n by (simp add: readch_take_def)
  have ok1: "kbd_ok ?d1" "tracks tr ?d1" using k n t by (simp_all add: kbd_ok_def tracks_def)
  have q1: "queue ?d1 = butlast (queue d)"
    using k n by (simp add: queue_def butlast_take nat_diff_distrib)
  have lq: "length (queue d) = ?n" using length_queue [OF ok] n by simp
  have r1: "length (queue ?d1) < 256" unfolding q1 using lq n by simp
  obtain d2 where d2: "keyboard_irq_handler m ?d1 h = Inr (d2, h @ [InB 0x60])" "kbd_ok d2"
      "queue d2 = butlast (queue d) @ [x]" "kbd_buffer d2 ! ?n = kbd_buffer d ! ?n"
    using keyboard_irq_step [OF ok1 r1, of m h] x lq n unfolding q1 by auto
  have p2: "nat (kbd_ptr d2) = ?n" "?n < 256"
    using length_queue [OF d2(2)] d2(3) lq n by auto
  let ?b = "kbd_buffer d2"
  have lb: "length ?b = 256" using d2(2) by (simp add: kbd_ok_def)
  have sh: "readch_shift d2 = Inr (d2\<lparr>kbd_buffer := take ?n (tl ?b) @ drop ?n ?b\<rparr>)"
    unfolding readch_shift_def p2(1) using p2(2) lb by (simp add: move_down_all)
  have "take ?n (tl ?b) = tl (take (Suc ?n) ?b)" using lb by (simp add: take_tl)
  also have "\<dots> = tl (queue d2 @ [?b ! ?n])"
    using p2 lb by (simp add: queue_def take_Suc_conv_app_nth)
  also have "\<dots> = tl (butlast (queue d) @ [x]) @ [kbd_buffer d ! ?n]"
    unfolding d2(3,4) by (cases "butlast (queue d)") simp_all
  finally have tk: "take ?n (tl ?b) = tl (butlast (queue d) @ [x]) @ [kbd_buffer d ! ?n]" .
  have len: "length (take ?n (tl ?b)) = ?n" using p2(2) lb by simp
  have q3: "queue (d2\<lparr>kbd_buffer := take ?n (tl ?b) @ drop ?n ?b\<rparr>) = tl (butlast (queue d) @ [x]) @ [kbd_buffer d ! ?n]"
    unfolding tk [symmetric] using len p2(1) by (simp add: queue_def)
  obtain c cs where cs: "queue d = c # cs" using lq n by (cases "queue d") auto
  obtain e1 where e1: "readch d = Inr (S_OK, Some c, e1)" "kbd_ok e1" "queue e1 = cs" "keydown_map e1 = keydown_map d"
    using readch_queue [OF ok cs] by blast
  have "tracks tr e1" "length (queue e1) < 256" using t e1(3,4) lq cs n by (auto simp: tracks_def)
  then obtain e2 where "keyboard_irq_handler m e1 h = Inr (e2, h @ [InB 0x60])" "queue e2 = cs @ [x]"
    using keyboard_irq_step [OF e1(2), of tr m h] x e1(3) by auto
  then show ?thesis using take d2(1) sh q3 e1(1) cs lq by auto
qed

theorem readch_irq_race_witness:
  "\<exists>c d1 d2 d3. readch_take (demo_kbd [0x61, 0x62]) = Some (c, d1) \<and>
     keyboard_irq_handler (typing [0x2E]) d1 [] = Inr (d2, [InB 0x60]) \<and> readch_shift d2 = Inr d3 \<and>
     queue d3 = [0x63, 0]"
proof -
  have d: "kbd_ok (demo_kbd [0x61, 0x62])" "tracks [] (demo_kbd [0x61, 0x62])"
      "queue (demo_kbd [0x61, 0x62]) = [0x61, 0x62]"
    using demo_kbd_ok [of "[0x61, 0x62]"] by simp_all
  have p: "kbd_ptr (demo_kbd [0x61, 0x62]) = 2" "kbd_buffer (demo_kbd [0x61, 0x62]) ! 2 = 0"
    by (simp_all add: demo_kbd_def)
  have x: "spelled [] (m_inb (typing [0x2E]) [] 0x60) = [0x63]"
    by (simp add: spelled_def typing_def keyboard_scs1_def is_ascii_sym_def)
  show ?thesis
    using readch_irq_race [OF d(1) _ _ d(2) x] p d(3) by (auto simp: numeral_2_eq_2)
qed

end
