(* ===== verification/Mouse.thy ===== *)
theory Mouse
  imports PortIO Interrupts Sync
begin

unbundle bit_operations_syntax

text \<open>
  \<^verbatim>\<open>drivers/ps2mouse.c\<close>: the mouse on the second port of the PS/2 controller. The interrupt handler collects
  packets of three bytes and calls the registered callbacks; a callback is an address with a user pointer, and
  the calls are the output of the model.
\<close>

section \<open>State\<close>

datatype mouse_event =
    MOUSE_EVENT_MOVEMENT u32 u32
  | MOUSE_EVENT_SCROLL u32
  | MOUSE_EVENT_BUTTON_DOWN nat
  | MOUSE_EVENT_BUTTON_UP nat

datatype mouse_wait_reason = WAIT_READ | WAIT_WRITE

record mouse =
  read_counter :: u32
  packet :: bytes
  button_cnt :: u32
  button_state :: "bool list"
  cb_list :: "u32 list"
  cb_user_list :: "u32 list"
  cb_count :: u32
  cb_lock :: spinlock

definition MOUSE_DATA_PORT :: u16 where "MOUSE_DATA_PORT = 0x60"
definition MOUSE_STATUS_PORT :: u16 where "MOUSE_STATUS_PORT = 0x64"
definition MOUSE_COMMAND_PORT :: u16 where "MOUSE_COMMAND_PORT = 0x64"
definition MOUSE_MAX_CB_COUNT :: u32 where "MOUSE_MAX_CB_COUNT = 32"
definition MOUSE_IRQ_ID :: u32 where "MOUSE_IRQ_ID = 12"
definition MOUSE_SUCCESS :: u8 where "MOUSE_SUCCESS = 0xFA"

lemmas mouse_ports = MOUSE_DATA_PORT_def MOUSE_STATUS_PORT_def MOUSE_COMMAND_PORT_def

text \<open>The driver: the context that \<^verbatim>\<open>__ctx\<close> points to and the interrupt tables.\<close>

record mouse_driver =
  md_ctx :: "mouse option"
  md_irqs :: interrupts

type_synonym mouse_call = "u32 \<times> u32 \<times> mouse_event"

section \<open>The controller\<close>

fun mouse_wait_loop :: "machine \<Rightarrow> (u8 \<Rightarrow> bool) \<Rightarrow> nat \<Rightarrow> io \<Rightarrow> hresult \<times> io" where
  "mouse_wait_loop m ready 0 h = (E_TIMEDOUT, h)"
| "mouse_wait_loop m ready (Suc timeout) h =
     (let (s, h) = inb m MOUSE_STATUS_PORT h in
      if ready s then (S_OK, h) else mouse_wait_loop m ready timeout h)"

definition mouse_wait :: "machine \<Rightarrow> mouse_wait_reason \<Rightarrow> io \<Rightarrow> hresult \<times> io" where
  "mouse_wait m rsn h =
     (case rsn of
        WAIT_READ \<Rightarrow> mouse_wait_loop m (\<lambda>s. s AND 1 = 1) 100000 h
      | WAIT_WRITE \<Rightarrow> mouse_wait_loop m (\<lambda>s. s AND 2 = 0) 100000 h)"

definition mouse_write :: "machine \<Rightarrow> u8 \<Rightarrow> io \<Rightarrow> hresult \<times> io" where
  "mouse_write m b h =
     (let (hr, h) = mouse_wait m WAIT_WRITE h in
      if FAILED hr then (hr, h)
      else
        let h = outb MOUSE_COMMAND_PORT 0xD4 h;
            (hr, h) = mouse_wait m WAIT_WRITE h in
        if FAILED hr then (hr, h) else (S_OK, outb MOUSE_DATA_PORT b h))"

definition mouse_read :: "machine \<Rightarrow> io \<Rightarrow> u8 \<times> hresult \<times> io" where
  "mouse_read m h =
     (let (hr, h) = mouse_wait m WAIT_READ h in
      if FAILED hr then (0, hr, h)
      else let (b, h) = inb m MOUSE_DATA_PORT h in (b, hr, h))"

definition mouse_enable_ps2_port2 :: "machine \<Rightarrow> bool \<Rightarrow> io \<Rightarrow> hresult \<times> io" where
  "mouse_enable_ps2_port2 m enabled h =
     (let (_, h) = mouse_wait m WAIT_WRITE h;
          h = outb MOUSE_COMMAND_PORT (if enabled then 0xA8 else 0xA7) h;
          (_, h) = mouse_wait m WAIT_WRITE h;
          h = outb MOUSE_COMMAND_PORT 0x20 h;
          (_, h) = mouse_wait m WAIT_READ h;
          (status, h) = inb m MOUSE_DATA_PORT h;
          status = (if enabled then (status OR 2) AND NOT 0x20 else status AND NOT 2);
          (_, h) = mouse_wait m WAIT_WRITE h;
          h = outb MOUSE_COMMAND_PORT 0x60 h;
          (_, h) = mouse_wait m WAIT_WRITE h
      in (S_OK, outb MOUSE_DATA_PORT status h))"

text \<open>The comparison of the answer is an assignment, \<^verbatim>\<open>ps2_status = MOUSE_SUCCESS ? S_OK : E_FAIL\<close>: its value
  is \<^verbatim>\<open>S_OK\<close>.\<close>

definition mouse_reset :: "machine \<Rightarrow> io \<Rightarrow> hresult \<times> io" where
  "mouse_reset m h =
     (let (_, h) = mouse_write m 0xFF h;
          (ps2_status, hr, h) = mouse_read m h in
      if FAILED hr then (hr, h) else (if MOUSE_SUCCESS \<noteq> 0 then S_OK else E_FAIL, h))"

section \<open>Packets\<close>

definition mouse_decode_packet :: "bytes \<Rightarrow> u8 \<Rightarrow> u16 \<times> u16 \<times> bool list" where
  "mouse_decode_packet p sz =
     (if sz \<noteq> 3 then (0, 0, replicate 5 False)
      else
        (if drop_bit 4 (p ! 0) AND 1 \<noteq> 0 then ucast (p ! 1) - 256 else ucast (p ! 1),
         if drop_bit 5 (p ! 0) AND 1 \<noteq> 0 then ucast (p ! 2) - 256 else ucast (p ! 2),
         [p ! 0 AND 1 \<noteq> 0, drop_bit 1 (p ! 0) AND 1 \<noteq> 0, drop_bit 2 (p ! 0) AND 1 \<noteq> 0, False, False]))"

fun emit_loop :: "mouse_event \<Rightarrow> nat list \<Rightarrow> mouse \<Rightarrow> mouse_call list run" where
  "emit_loop ev [] c = Inr []"
| "emit_loop ev (i # is) c =
     (if i < length (cb_list c) \<and> i < length (cb_user_list c)
      then bindR (emit_loop ev is c) (\<lambda>calls. Inr ((cb_list c ! i, cb_user_list c ! i, ev) # calls))
      else Inl BadAccess)"

definition mouse_emit_event :: "mouse_event \<Rightarrow> cpu \<Rightarrow> mouse \<Rightarrow> (mouse_call list \<times> cpu \<times> mouse) run" where
  "mouse_emit_event ev cpu c =
     bindR (spinlock_acquire cpu (cb_lock c)) (\<lambda>(iflag, cpu, sl).
     bindR (emit_loop ev [0..<unat (cb_count c)] c) (\<lambda>calls.
     bindR (spinlock_release cpu sl iflag) (\<lambda>(cpu, sl). Inr (calls, cpu, c\<lparr>cb_lock := sl\<rparr>))))"

fun button_loop :: "nat list \<Rightarrow> bool list \<Rightarrow> cpu \<Rightarrow> mouse \<Rightarrow> (mouse_call list \<times> cpu \<times> mouse) run" where
  "button_loop [] new_states cpu c = Inr ([], cpu, c)"
| "button_loop (i # is) new_states cpu c =
     (if button_state c ! i \<noteq> new_states ! i
      then bindR (mouse_emit_event (if new_states ! i then MOUSE_EVENT_BUTTON_DOWN i else MOUSE_EVENT_BUTTON_UP i) cpu c)
             (\<lambda>(calls, cpu, c). bindR (button_loop is new_states cpu c) (\<lambda>(calls', r). Inr (calls @ calls', r)))
      else button_loop is new_states cpu c)"

text \<open>Emitting an event never fails, so the early returns of the source are not taken.\<close>

definition mouse_parse_packet :: "bytes \<Rightarrow> u32 \<Rightarrow> cpu \<Rightarrow> mouse \<Rightarrow> (mouse_call list \<times> cpu \<times> mouse) run" where
  "mouse_parse_packet p sz cpu c =
     (let (xm, ym, new_states) = mouse_decode_packet p (ucast sz) in
      bindR (button_loop [0..<5] new_states cpu c) (\<lambda>(calls, cpu, c).
        if xm \<noteq> 0 \<or> ym \<noteq> 0
        then bindR (mouse_emit_event (MOUSE_EVENT_MOVEMENT (scast xm) (scast ym)) cpu c)
               (\<lambda>(calls', r). Inr (calls @ calls', r))
        else Inr (calls, cpu, c)))"

definition mouse_isr :: "machine \<Rightarrow> cpu \<Rightarrow> mouse_driver \<Rightarrow> io \<Rightarrow> (mouse_call list \<times> cpu \<times> mouse_driver \<times> io) run" where
  "mouse_isr m cpu d h =
     (let (s, h) = inb m MOUSE_STATUS_PORT h in
      if s AND 0x20 = 0 then Inl (Panic ''mouse_isr(): Unexpected'')
      else
        let (b, h) = inb m MOUSE_DATA_PORT h in
        case md_ctx d of
          None \<Rightarrow> Inl BadAccess
        | Some c \<Rightarrow>
            if read_counter c = 0 \<and> b AND 0x08 = 0 then Inr ([], cpu, d, h)
            else if 2 < read_counter c then Inl (Panic ''PS/2 Mouse: mouse_isr(): unexpected read counter value.'')
            else
              let c = c\<lparr>packet := (packet c)[unat (read_counter c) := b]\<rparr> in
              bindR (if read_counter c = 2
                     then bindR (mouse_parse_packet (packet c) 3 cpu c) (\<lambda>(calls, cpu, c).
                            let (_, _, bs) = mouse_decode_packet (packet c) 3 in
                            Inr (calls, cpu, c\<lparr>button_state := bs\<rparr>))
                     else Inr ([], cpu, c))
                (\<lambda>(calls, cpu, c).
                  Inr (calls, cpu, d\<lparr>md_ctx := Some (c\<lparr>read_counter := (read_counter c + 1) mod 3\<rparr>)\<rparr>, h)))"

section \<open>Callbacks\<close>

text \<open>The loop of both routines: the first index below \<^verbatim>\<open>cb_count\<close> that holds the pair.\<close>

fun find_cb :: "nat list \<Rightarrow> u32 \<Rightarrow> u32 \<Rightarrow> mouse \<Rightarrow> nat option run" where
  "find_cb [] cb user c = Inr None"
| "find_cb (i # is) cb user c =
     (if i < length (cb_list c) \<and> i < length (cb_user_list c)
      then if cb_list c ! i = cb \<and> cb_user_list c ! i = user then Inr (Some i) else find_cb is cb user c
      else Inl BadAccess)"

definition mouse_register_cb :: "u32 \<Rightarrow> u32 \<Rightarrow> cpu \<Rightarrow> mouse \<Rightarrow> (hresult \<times> cpu \<times> mouse) run" where
  "mouse_register_cb cb user cpu c =
     bindR (spinlock_acquire cpu (cb_lock c)) (\<lambda>(iflag, cpu, sl).
     bindR (if MOUSE_MAX_CB_COUNT \<le> cb_count c then Inr (E_FAIL, c)
            else bindR (find_cb [0..<unat (cb_count c)] cb user c) (\<lambda>r.
              case r of
                Some _ \<Rightarrow> Inr (E_INVALIDARG, c)
              | None \<Rightarrow> Inr (S_OK, c\<lparr>cb_list := (cb_list c)[unat (cb_count c) := cb],
                                    cb_user_list := (cb_user_list c)[unat (cb_count c) := user],
                                    cb_count := cb_count c + 1\<rparr>)))
       (\<lambda>(hr, c).
     bindR (spinlock_release cpu sl iflag) (\<lambda>(cpu, sl). Inr (hr, cpu, c\<lparr>cb_lock := sl\<rparr>))))"

fun remove_loop :: "nat list \<Rightarrow> mouse \<Rightarrow> mouse run" where
  "remove_loop [] c = Inr c"
| "remove_loop (i # is) c =
     (if Suc i < length (cb_list c) \<and> Suc i < length (cb_user_list c)
      then remove_loop is (c\<lparr>cb_list := (cb_list c)[i := cb_list c ! Suc i],
                            cb_user_list := (cb_user_list c)[i := cb_user_list c ! Suc i]\<rparr>)
      else Inl BadAccess)"

definition mouse_unregister_cb :: "u32 \<Rightarrow> u32 \<Rightarrow> cpu \<Rightarrow> mouse \<Rightarrow> (hresult \<times> cpu \<times> mouse) run" where
  "mouse_unregister_cb cb user cpu c =
     bindR (spinlock_acquire cpu (cb_lock c)) (\<lambda>(iflag, cpu, sl).
     bindR (bindR (find_cb [0..<unat (cb_count c)] cb user c) (\<lambda>r.
              case r of
                None \<Rightarrow> Inr (E_NOTFOUND, c)
              | Some i \<Rightarrow> bindR (remove_loop [i..<unat (cb_count c - 1)] c) (\<lambda>c.
                           Inr (S_OK, c\<lparr>cb_count := cb_count c - 1\<rparr>))))
       (\<lambda>(hr, c).
     bindR (spinlock_release cpu sl iflag) (\<lambda>(cpu, sl). Inr (hr, cpu, c\<lparr>cb_lock := sl\<rparr>))))"

datatype mouse_request = IOCTL_DEVICE_OPEN | IOCTL_DEVICE_CLOSE | IOCTL_POINTING_REGISTER u32 u32
  | IOCTL_POINTING_UNREGISTER u32 u32 | OTHER_CODE u32

definition mouse_ioctl :: "mouse_request \<Rightarrow> cpu \<Rightarrow> mouse \<Rightarrow> (hresult \<times> cpu \<times> mouse) run" where
  "mouse_ioctl code cpu c =
     (case code of
        IOCTL_DEVICE_OPEN \<Rightarrow> Inr (S_OK, cpu, c)
      | IOCTL_DEVICE_CLOSE \<Rightarrow> Inr (S_OK, cpu, c)
      | IOCTL_POINTING_REGISTER cb user \<Rightarrow> mouse_register_cb cb user cpu c
      | IOCTL_POINTING_UNREGISTER cb user \<Rightarrow> mouse_unregister_cb cb user cpu c
      | OTHER_CODE _ \<Rightarrow> Inr (E_INVALIDARG, cpu, c))"

section \<open>Starting and stopping\<close>

definition new_mouse :: mouse where
  "new_mouse = \<lparr> read_counter = 0, packet = replicate 4 0, button_cnt = 0, button_state = replicate 5 False,
     cb_list = replicate 32 0, cb_user_list = replicate 32 0, cb_count = 0, cb_lock = \<lparr> sl_lock = 0 \<rparr> \<rparr>"

text \<open>\<open>mem\<close> says whether \<^verbatim>\<open>kcalloc\<close> has memory, \<open>handler\<close> is the address of \<^verbatim>\<open>mouse_isr\<close>.\<close>

definition mouse_init :: "machine \<Rightarrow> bool \<Rightarrow> u32 \<Rightarrow> cpu \<Rightarrow> mouse_driver \<Rightarrow> io \<Rightarrow> hresult \<times> cpu \<times> mouse_driver \<times> io" where
  "mouse_init m mem handler cpu d h =
     (if md_ctx d \<noteq> None then (E_FAIL, cpu, d, h)
      else if \<not> mem then (E_OUTOFMEM, cpu, d, h)
      else
        let d = d\<lparr>md_ctx := Some new_mouse\<rparr>;
            cpu = cpu\<lparr>cpu_if := False\<rparr>;
            (_, h) = mouse_enable_ps2_port2 m True h;
            (hr, h) = mouse_reset m h in
        if FAILED hr then (E_FAIL, cpu\<lparr>cpu_if := True\<rparr>, d, h)
        else
          let (_, h) = mouse_write m 0xF6 h;
              (_, _, h) = mouse_read m h;
              (_, h) = mouse_write m 0xF4 h;
              (_, _, h) = mouse_read m h;
              d = d\<lparr>md_irqs := snd (register_isr_callback (md_irqs d) (irq_to_intid MOUSE_IRQ_ID) handler)\<rparr>
          in (S_OK, cpu\<lparr>cpu_if := True\<rparr>, d\<lparr>md_ctx := Some (new_mouse\<lparr>cb_lock := spinlock_create\<rparr>)\<rparr>, h))"

definition mouse_fini :: "machine \<Rightarrow> cpu \<Rightarrow> mouse_driver \<Rightarrow> io \<Rightarrow> (hresult \<times> cpu \<times> mouse_driver \<times> io) run" where
  "mouse_fini m cpu d h =
     (let (_, h) = mouse_enable_ps2_port2 m False h in
      bindR (guardR (md_ctx d \<noteq> None) BadAccess) (\<lambda>_.
        Inr (S_OK, cpu\<lparr>cpu_if := True\<rparr>,
             d\<lparr>md_ctx := None, md_irqs := snd (unregister_isr_callback (md_irqs d) (irq_to_intid MOUSE_IRQ_ID))\<rparr>, h)))"

section \<open>Well-formed contexts and the callbacks they hold\<close>

definition mouse_ok :: "mouse \<Rightarrow> bool" where
  "mouse_ok c = (length (packet c) = 4 \<and> length (button_state c) = 5 \<and> length (cb_list c) = 32 \<and>
     length (cb_user_list c) = 32 \<and> cb_count c \<le> 32 \<and> sl_lock (cb_lock c) = 0)"

definition callbacks :: "mouse \<Rightarrow> (u32 \<times> u32) list" where
  "callbacks c = take (unat (cb_count c)) (zip (cb_list c) (cb_user_list c))"

definition deliver :: "(u32 \<times> u32) list \<Rightarrow> mouse_event list \<Rightarrow> mouse_call list" where
  "deliver cbs evs = [(cb, user, ev). ev \<leftarrow> evs, (cb, user) \<leftarrow> cbs]"

lemma deliver_simps [simp]:
  "deliver cbs [] = []" "deliver cbs (ev # evs) = map (\<lambda>(cb, user). (cb, user, ev)) cbs @ deliver cbs evs"
  "deliver cbs (evs @ evs') = deliver cbs evs @ deliver cbs evs'"
  by (auto simp: deliver_def)

lemma cb_count_le: "mouse_ok c \<Longrightarrow> unat (cb_count c) \<le> 32"
  by (simp add: mouse_ok_def word_le_nat_alt)

lemma emit_loop_calls:
  "\<forall>i\<in>set is. i < length (cb_list c) \<and> i < length (cb_user_list c) \<Longrightarrow>
   emit_loop ev is c = Inr (map (\<lambda>i. (cb_list c ! i, cb_user_list c ! i, ev)) is)"
  by (induction "is") simp_all

lemma mouse_emit_event_ok:
  assumes "mouse_ok c"
  shows "mouse_emit_event ev cpu c = Inr (deliver (callbacks c) [ev], cpu, c)"
proof -
  note k = assms [unfolded mouse_ok_def]
  have n: "unat (cb_count c) \<le> 32" by (rule cb_count_le [OF assms])
  have "map (\<lambda>i. (cb_list c ! i, cb_user_list c ! i, ev)) [0..<unat (cb_count c)] = deliver (callbacks c) [ev]"
    using k n by (intro nth_equalityI) (auto simp: callbacks_def)
  then have e: "emit_loop ev [0..<unat (cb_count c)] c = Inr (deliver (callbacks c) [ev])"
    using emit_loop_calls [of "[0..<unat (cb_count c)]" c ev] k n by simp
  have l: "cb_lock c = \<lparr>sl_lock = 0\<rparr>" using k by (cases "cb_lock c") simp
  show ?thesis
    by (simp add: mouse_emit_event_def spinlock_acquire_def spinlock_release_def l e Let_def)
qed

section \<open>What the packets mean\<close>

text \<open>The three buttons, and the movement as two nine-bit numbers in two's complement whose ninth bits are in the
  first byte.\<close>

definition buttons_of :: "bytes \<Rightarrow> bool list" where
  "buttons_of p = [bit (p ! 0) 0, bit (p ! 0) 1, bit (p ! 0) 2, False, False]"

lemma length_buttons_of: "length (buttons_of p) = 5"
  by (simp add: buttons_of_def)

definition moved :: "u8 \<Rightarrow> bool \<Rightarrow> int" where
  "moved b neg = signed_take_bit 8 (uint b + (if neg then 256 else 0))"

definition packet_events :: "bool list \<Rightarrow> bytes \<Rightarrow> mouse_event list" where
  "packet_events old p =
     [if buttons_of p ! i then MOUSE_EVENT_BUTTON_DOWN i else MOUSE_EVENT_BUTTON_UP i.
        i \<leftarrow> filter (\<lambda>i. old ! i \<noteq> buttons_of p ! i) [0..<5]] @
     (let x = moved (p ! 1) (bit (p ! 0) 4); y = moved (p ! 2) (bit (p ! 0) 5) in
      if x = 0 \<and> y = 0 then [] else [MOUSE_EVENT_MOVEMENT (word_of_int x) (word_of_int y)])"

fun stream_events :: "bool list \<Rightarrow> bytes list \<Rightarrow> mouse_event list" where
  "stream_events old [] = []"
| "stream_events old (p # ps) = packet_events old p @ stream_events (buttons_of p) ps"

text \<open>How a stream of bytes falls into packets: a byte that cannot start one is skipped.\<close>

fun packets :: "bytes \<Rightarrow> bytes list" where
  "packets [] = []"
| "packets (a # r) =
     (if a AND 0x08 = 0 then packets r
      else case r of b # c # r' \<Rightarrow> [a, b, c] # packets r' | _ \<Rightarrow> [])"

lemma test_bit_and: "(drop_bit n w AND 1 \<noteq> (0 :: u8)) = bit w n"
  by (simp add: and_one_eq odd_iff_mod_2_eq_one [symmetric] bit_iff_odd_drop_bit)

lemma small_signed: "- 256 \<le> (k :: int) \<Longrightarrow> k < 256 \<Longrightarrow> signed_take_bit 8 k = k"
  by (rule signed_take_bit_int_eq_self) simp_all

lemma moved_cases: "moved b neg = (if neg then uint b - 256 else uint b)"
proof -
  have b: "0 \<le> uint b" "uint b < 256" using uint_lt2p [of b] by simp_all
  show ?thesis
  proof (cases neg)
    case True
    have "signed_take_bit 8 (uint b + 256) = signed_take_bit 8 (uint b - 256)"
      using signed_take_bit_diff [of 8 "uint b + 256" 512] by (simp add: signed_take_bit_eq_take_bit_shift take_bit_eq_mod)
    also have "\<dots> = uint b - 256" by (rule small_signed) (use b in linarith)+
    finally show ?thesis using True by (simp add: moved_def)
  next
    case False
    have "signed_take_bit 8 (uint b) = uint b" by (rule small_signed) (use b in linarith)+
    then show ?thesis using False by (simp add: moved_def)
  qed
qed

lemma decode_word:
  "(if neg then ucast b - 256 else ucast b :: u16) = word_of_int (moved b neg)"
  by (simp add: moved_cases)

lemma moved_word: "scast (word_of_int (moved b neg) :: u16) = (word_of_int (moved b neg) :: u32)"
  and moved_zero: "(word_of_int (moved b neg) :: u16) = 0 \<longleftrightarrow> moved b neg = 0"
proof -
  have b: "0 \<le> uint b" "uint b < 256" using uint_lt2p [of b] by simp_all
  have r: "- 32768 \<le> moved b neg" "moved b neg < 32768"
    unfolding moved_cases using b by (cases neg; simp only: if_True if_False; linarith)+
  have "sint (word_of_int (moved b neg) :: u16) = moved b neg"
    using r by (subst sint_sbintrunc') (simp add: signed_take_bit_int_eq_self)
  then show "scast (word_of_int (moved b neg) :: u16) = (word_of_int (moved b neg) :: u32)"
    "(word_of_int (moved b neg) :: u16) = 0 \<longleftrightarrow> moved b neg = 0"
    by (metis of_int_sint, metis sint_0 word_of_int_0)
qed

lemma mouse_decode_ok:
  "mouse_decode_packet p 3 =
     (word_of_int (moved (p ! 1) (bit (p ! 0) 4)), word_of_int (moved (p ! 2) (bit (p ! 0) 5)), buttons_of p)"
  using test_bit_and [of 0 "p ! 0"]
  by (simp add: mouse_decode_packet_def buttons_of_def test_bit_and decode_word)

lemma button_loop_calls:
  assumes "mouse_ok c"
  shows "button_loop is new cpu c = Inr (deliver (callbacks c)
     [if new ! i then MOUSE_EVENT_BUTTON_DOWN i else MOUSE_EVENT_BUTTON_UP i.
        i \<leftarrow> filter (\<lambda>i. button_state c ! i \<noteq> new ! i) is], cpu, c)"
  by (induction "is") (simp_all add: mouse_emit_event_ok [OF assms])

lemma mouse_parse_packet_ok:
  assumes "mouse_ok c"
  shows "mouse_parse_packet p 3 cpu c = Inr (deliver (callbacks c) (packet_events (button_state c) p), cpu, c)"
proof -
  have u: "ucast (3 :: u32) = (3 :: u8)" by simp
  show ?thesis
    unfolding mouse_parse_packet_def u mouse_decode_ok Let_def prod.case button_loop_calls [OF assms] bindR.simps
      mouse_emit_event_ok [OF assms] packet_events_def moved_word moved_zero
    by simp
qed

section \<open>The handler over a stream of bytes\<close>

definition pending :: "mouse \<Rightarrow> bytes" where
  "pending c = take (unat (read_counter c)) (packet c)"

definition stream_inv :: "mouse \<Rightarrow> bool" where
  "stream_inv c = (mouse_ok c \<and> read_counter c \<le> 2 \<and> (read_counter c = 0 \<or> packet c ! 0 AND 0x08 \<noteq> 0))"

text \<open>What a byte does to the packet that is being collected.\<close>

definition collect :: "bytes \<Rightarrow> u8 \<Rightarrow> bytes" where
  "collect pd b =
     (if pd = [] \<and> b AND 0x08 = 0 then [] else if length pd = 2 then [] else pd @ [b])"

lemma short_list:
  assumes "length xs \<le> 2"
  obtains "xs = []" | x where "xs = [x]" | x y where "xs = [x, y]"
proof (cases xs)
  case (Cons x r)
  then show ?thesis
  proof (cases r)
    case C: (Cons y r')
    then have "r' = []" using assms Cons by simp
    then show ?thesis using C Cons that(3) by simp
  qed (use Cons that(2) in simp)
qed (use that(1) in simp)

lemma packet_4: "length (p :: 'a list) = 4 \<Longrightarrow> \<exists>a b c d. p = [a, b, c, d]"
  by (auto simp: numeral_eq_Suc length_Suc_conv)

lemma mouse_isr_step:
  assumes inv: "stream_inv c" and d: "md_ctx d = Some c" and st: "m_inb m h 0x64 AND 0x20 \<noteq> 0"
  defines "b \<equiv> m_inb m (h @ [InB 0x64]) 0x60"
  shows "\<exists>c'. mouse_isr m cpu d h = Inr (deliver (callbacks c)
       (if length (pending c) = 2 then packet_events (button_state c) (pending c @ [b]) else []),
       cpu, d\<lparr>md_ctx := Some c'\<rparr>, h @ [InB 0x64, InB 0x60]) \<and> stream_inv c' \<and> callbacks c' = callbacks c \<and>
     pending c' = collect (pending c) b \<and>
     button_state c' = (if length (pending c) = 2 then buttons_of (pending c @ [b]) else button_state c)"
proof -
  note i = inv [unfolded stream_inv_def]
  note k = conjunct1 [OF i, unfolded mouse_ok_def]
  obtain p0 p1 p2 p3 where p: "packet c = [p0, p1, p2, p3]" using packet_4 k by blast
  consider "read_counter c = 0" | "read_counter c = 1" | "read_counter c = 2"
  proof -
    have "unat (read_counter c) \<le> 2" using i by (simp add: word_le_nat_alt)
    then have "unat (read_counter c) = unat (0 :: u32) \<or> unat (read_counter c) = unat (1 :: u32) \<or>
       unat (read_counter c) = unat (2 :: u32)" by auto
    then show ?thesis using that by (auto simp only: word_unat_eq_iff [symmetric])
  qed
  then show ?thesis
  proof cases
    case 1
    have same: "d\<lparr>md_ctx := Some c\<rparr> = d" using d by (cases d) simp
    show ?thesis
    proof (cases "b AND 0x08 = 0")
      case True
      then show ?thesis
        using 1 d st k p i same
        by (intro exI [of _ c]) (simp add: mouse_isr_def inb_def mouse_ports b_def [symmetric] pending_def
            stream_inv_def collect_def)
    next
      case False
      with 1 show ?thesis using d st k p i
      by (auto simp: mouse_isr_def inb_def mouse_ports b_def [symmetric] pending_def stream_inv_def collect_def
          mouse_ok_def callbacks_def Let_def)
    qed
  next
    case 2
    then show ?thesis using d st k p i
      by (intro exI [of _ "c\<lparr>packet := [p0, b, p2, p3], read_counter := 2\<rparr>"])
        (auto simp: mouse_isr_def inb_def mouse_ports b_def [symmetric] pending_def stream_inv_def collect_def
          mouse_ok_def callbacks_def Let_def)
  next
    case 3
    let ?c = "c\<lparr>packet := [p0, p1, b, p3]\<rparr>"
    have ok: "mouse_ok ?c" using k by (simp add: mouse_ok_def)
    have e: "packet_events old [p0, p1, b, p3] = packet_events old [p0, p1, b]" for old
      by (simp add: packet_events_def buttons_of_def)
    have "buttons_of [p0, p1, b, p3] = buttons_of [p0, p1, b]" by (simp add: buttons_of_def)
    with 3 show ?thesis using d st k p i
      by (intro exI [of _ "c\<lparr>packet := [p0, p1, b, p3], button_state := buttons_of [p0, p1, b], read_counter := 0\<rparr>"])
        (auto simp: mouse_isr_def inb_def mouse_ports b_def [symmetric] pending_def stream_inv_def collect_def
          mouse_parse_packet_ok [OF ok] mouse_decode_ok e mouse_ok_def callbacks_def Let_def length_buttons_of)
  qed
qed

text \<open>\<open>n\<close> interrupts: the bytes received and the calls made.\<close>

fun isr_run :: "machine \<Rightarrow> nat \<Rightarrow> cpu \<Rightarrow> mouse_driver \<Rightarrow> io \<Rightarrow> (bytes \<times> mouse_call list \<times> cpu \<times> mouse_driver) run" where
  "isr_run m 0 cpu d h = Inr ([], [], cpu, d)"
| "isr_run m (Suc n) cpu d h =
     bindR (mouse_isr m cpu d h) (\<lambda>(calls, cpu, d, h').
     bindR (isr_run m n cpu d h') (\<lambda>(bs, calls', r). Inr (m_inb m (h @ [InB 0x64]) 0x60 # bs, calls @ calls', r)))"

lemma isr_run_stream:
  "stream_inv c \<Longrightarrow> md_ctx d = Some c \<Longrightarrow> \<forall>h. m_inb m h 0x64 AND 0x20 \<noteq> 0 \<Longrightarrow>
   \<exists>bs d' c'. isr_run m n cpu d h = Inr (bs, deliver (callbacks c)
       (stream_events (button_state c) (packets (pending c @ bs))), cpu, d') \<and> length bs = n \<and>
     md_ctx d' = Some c' \<and> stream_inv c' \<and> callbacks c' = callbacks c"
proof (induction n arbitrary: c d h)
  case 0
  have "packets (pending c) = []"
  proof -
    have "length (pending c) \<le> 2"
      using 0(1) by (auto simp: stream_inv_def pending_def word_le_nat_alt min_def)
    from short_list [OF this] show ?thesis by cases simp_all
  qed
  then show ?case using 0 by simp
next
  case (Suc n)
  let ?b = "m_inb m (h @ [InB 0x64]) 0x60"
  obtain c1 where c1: "mouse_isr m cpu d h = Inr (deliver (callbacks c)
       (if length (pending c) = 2 then packet_events (button_state c) (pending c @ [?b]) else []),
       cpu, d\<lparr>md_ctx := Some c1\<rparr>, h @ [InB 0x64, InB 0x60])" "stream_inv c1" "callbacks c1 = callbacks c"
     "pending c1 = collect (pending c) ?b"
     "button_state c1 = (if length (pending c) = 2 then buttons_of (pending c @ [?b]) else button_state c)"
    using mouse_isr_step [OF Suc.prems(1,2), of m h] Suc.prems(3) by auto
  have d1: "md_ctx (d\<lparr>md_ctx := Some c1\<rparr>) = Some c1" by simp
  obtain bs d' c' where r: "isr_run m n cpu (d\<lparr>md_ctx := Some c1\<rparr>) (h @ [InB 0x64, InB 0x60]) =
       Inr (bs, deliver (callbacks c1) (stream_events (button_state c1) (packets (pending c1 @ bs))), cpu, d')"
     "length bs = n" "md_ctx d' = Some c'" "stream_inv c'" "callbacks c' = callbacks c1"
    using Suc.IH [OF c1(2) d1 Suc.prems(3)] by blast
  have len: "length (pending c) \<le> 2" "pending c \<noteq> [] \<longrightarrow> pending c ! 0 AND 0x08 \<noteq> 0"
    using Suc.prems(1) by (auto simp: stream_inv_def pending_def word_le_nat_alt min_def mouse_ok_def)
  have "stream_events (button_state c) (packets (pending c @ ?b # bs)) =
     (if length (pending c) = 2 then packet_events (button_state c) (pending c @ [?b]) else []) @
     stream_events (button_state c1) (packets (pending c1 @ bs))"
  proof -
    from short_list [OF len(1)] show ?thesis
      by cases (use len c1(4,5) in \<open>auto simp: collect_def\<close>)
  qed
  then show ?case using c1 r by auto
qed

section \<open>Properties\<close>

text \<open>A reset that answers at all has succeeded, whatever the answer: the test is an assignment.\<close>

lemma mouse_reset_ignores_answer:
  assumes "mouse_reset m h = (hr, h')"
  shows "hr = S_OK \<or> hr = E_TIMEDOUT"
proof -
  have w: "fst (mouse_wait_loop m f n k) \<in> {S_OK, E_TIMEDOUT}" for f n k
    by (induction n arbitrary: k) (simp_all add: inb_def)
  have "fst (snd (mouse_read m k)) \<in> {S_OK, E_TIMEDOUT}" for k
    using w [of "\<lambda>s. s AND 1 = 1" 100000 k]
    by (auto simp: mouse_read_def mouse_wait_def split_beta Let_def)
  from this [of "snd (mouse_write m 0xFF h)"] show ?thesis
    using assms by (auto simp: mouse_reset_def MOUSE_SUCCESS_def split_beta Let_def split: if_splits)
qed

lemma callbacks_distinct_register:
  assumes ok: "mouse_ok c" and new: "(cb, user) \<notin> set (callbacks c)" and room: "unat (cb_count c) < 32"
  shows "\<exists>c'. mouse_register_cb cb user cpu c = Inr (S_OK, cpu, c') \<and> mouse_ok c' \<and>
    callbacks c' = callbacks c @ [(cb, user)]"
proof -
  note k = ok [unfolded mouse_ok_def]
  let ?n = "unat (cb_count c)"
  have nth: "callbacks c ! i = (cb_list c ! i, cb_user_list c ! i)" if "i < ?n" for i
    using that k room by (simp add: callbacks_def)
  have len: "length (callbacks c) = ?n" using k room by (simp add: callbacks_def)
  have f: "find_cb is cb user c = Inr None" if "\<forall>i\<in>set is. i < ?n" for "is"
    using that
  proof (induction "is")
    case (Cons i js)
    then have "(cb_list c ! i, cb_user_list c ! i) \<noteq> (cb, user)"
      using nth [of i] len new by (metis list.set_intros(1) nth_mem)
    then show ?case using Cons k room by auto
  qed simp
  have l: "cb_lock c = \<lparr>sl_lock = 0\<rparr>" using k by (cases "cb_lock c") simp
  have n1: "unat (cb_count c + 1) = Suc ?n" using room by (subst unat_add_small) simp_all
  have lt: "\<not> MOUSE_MAX_CB_COUNT \<le> cb_count c" using room by (simp add: MOUSE_MAX_CB_COUNT_def word_le_nat_alt)
  have z: "take (Suc ?n) (zip ((cb_list c)[?n := cb]) ((cb_user_list c)[?n := user])) = callbacks c @ [(cb, user)]"
    using k room by (simp add: callbacks_def take_Suc_conv_app_nth take_zip)
  show ?thesis
    using lt f [of "[0..<?n]"] k room n1 z
    by (simp add: mouse_register_cb_def l spinlock_acquire_def spinlock_release_def Let_def mouse_ok_def
        word_le_nat_alt) (simp add: callbacks_def)
qed

definition demo_mouse :: mouse_driver where
  "demo_mouse = \<lparr> md_ctx = Some (new_mouse\<lparr>cb_list := 0xC0101000 # replicate 31 0, cb_user_list := 7 # replicate 31 0,
       cb_count := 1\<rparr>),
     md_irqs = \<lparr> in_if = True, in_gdt = [], in_idt = [],
        in_tss = \<lparr> ts_esp0 = 0, ts_ss0 = 0, ts_cs = 0, ts_ss = 0, ts_ds = 0, ts_es = 0, ts_fs = 0, ts_gs = 0 \<rparr>,
        in_isr = [], in_io = [] \<rparr> \<rparr>"

text \<open>A mouse that sends the bytes \<open>xs\<close>, and whose status register always shows that they are its own.\<close>

definition moving :: "bytes \<Rightarrow> machine" where
  "moving xs = \<lparr> m_inb = (\<lambda>h p. if p = 0x64 then 0x21 else if length h div 2 < length xs then xs ! (length h div 2) else 8),
     m_inw = (\<lambda>_ _. 0), m_ind = (\<lambda>_ _. 0), m_clock = (\<lambda>_. 0) \<rparr>"

text \<open>C8. However many interrupts the mouse raises, the handler returns, and the calls it has made are, for every
  registered callback, the events that the received bytes mean: bytes that cannot start a packet are skipped, a
  packet yields one event for each button that changed and one for a movement that is not zero, with coordinates
  read as nine-bit numbers in two's complement.\<close>

theorem mouse_stream_events:
  assumes "stream_inv c" and "md_ctx d = Some c" and "\<forall>h. m_inb m h 0x64 AND 0x20 \<noteq> 0"
  shows "\<exists>bs d' c'. isr_run m n cpu d h = Inr (bs, deliver (callbacks c)
       (stream_events (button_state c) (packets (pending c @ bs))), cpu, d') \<and> length bs = n \<and>
     md_ctx d' = Some c' \<and> stream_inv c' \<and> callbacks c' = callbacks c"
  using assms by (rule isr_run_stream)

theorem mouse_stream_events_witness:
  "\<exists>bs d' c'. isr_run (moving [0x00, 0x19, 0xFF, 0x02]) 4 \<lparr> cpu_if = False, cpu_current = None \<rparr> demo_mouse []
     = Inr (bs, deliver [(0xC0101000, 7)] (stream_events (replicate 5 False) (packets bs)),
         \<lparr> cpu_if = False, cpu_current = None \<rparr>, d') \<and> length bs = 4 \<and> md_ctx d' = Some c' \<and> stream_inv c'"
proof -
  let ?c = "new_mouse\<lparr>cb_list := 0xC0101000 # replicate 31 0, cb_user_list := 7 # replicate 31 0, cb_count := 1\<rparr>"
  have inv: "stream_inv ?c" by (simp add: stream_inv_def mouse_ok_def new_mouse_def)
  have d: "md_ctx demo_mouse = Some ?c" by (simp add: demo_mouse_def)
  have m: "\<forall>h. m_inb (moving [0x00, 0x19, 0xFF, 0x02]) h 0x64 AND 0x20 \<noteq> 0" by (simp add: moving_def)
  have cb: "callbacks ?c = [(0xC0101000, 7)]" by (simp add: callbacks_def)
  have p: "pending ?c = []" "button_state ?c = replicate 5 False" by (simp_all add: pending_def new_mouse_def)
  from mouse_stream_events [OF inv d m, of 4 "\<lparr> cpu_if = False, cpu_current = None \<rparr>" "[]"]
  show ?thesis unfolding cb p append.simps by blast
qed

text \<open>The bytes of one packet: a press of the left button while the mouse moves by (-1, 2), after a stray byte.\<close>

lemma demo_packet:
  "packets [0x00, 0x19, 0xFF, 0x02] = [[0x19, 0xFF, 0x02]]"
  "stream_events (replicate 5 False) [[0x19, 0xFF, 0x02]]
     = [MOUSE_EVENT_BUTTON_DOWN 0, MOUSE_EVENT_MOVEMENT 0xFFFFFFFF 2]"
  by (simp_all add: packet_events_def buttons_of_def moved_cases upt_rec bit_numeral_rec Let_def)

end
