(* ===== verification/Timer.thy ===== *)
theory Timer
  imports PortIO Interrupts
begin

text \<open>
  \<^verbatim>\<open>timer.c\<close>: the tick counter of the programmable interval timer, the milliseconds derived from it and the busy
  sleep. A division by zero faults.
\<close>

section \<open>State and operations\<close>

record timer =
  timer_ticks :: u64
  timer_rate :: u32
  timer_irqs :: interrupts

definition timer_irq_handler :: "timer \<Rightarrow> timer" where
  "timer_irq_handler t = t\<lparr>timer_ticks := (timer_ticks t + 1) mod 0xFFFFFFFFFFFFFFFF\<rparr>"

definition timer_enter_irq_handler :: "timer \<Rightarrow> timer" where
  "timer_enter_irq_handler t = timer_irq_handler t"

definition timer_initialize :: "u32 \<Rightarrow> u32 \<Rightarrow> timer \<Rightarrow> io \<Rightarrow> (timer \<times> io) run" where
  "timer_initialize handler rate t h =
     bindR (guardR (rate \<noteq> 0) BadAccess) (\<lambda>_.
       let divisor = 1193180 div rate;
           t = t\<lparr>timer_irqs := snd (register_isr_callback (timer_irqs t) IRQ0_INTID handler)\<rparr>;
           h = outb 0x43 0x36 h;
           h = outb 0x40 (ucast divisor) h;
           h = outb 0x40 (ucast (drop_bit 8 divisor)) h
       in Inr (t\<lparr>timer_rate := rate, timer_ticks := 0\<rparr>, h))"

definition timer_uninitialize :: "timer \<Rightarrow> timer" where
  "timer_uninitialize t =
     t\<lparr>timer_irqs := snd (unregister_isr_callback (snd (irq_disable (timer_irqs t) 0)) IRQ0_INTID),
       timer_ticks := 0\<rparr>"

text \<open>The product is cut to 32 bits before the division, the quotient is widened to 64.\<close>

definition timer_gettickcount :: "timer \<Rightarrow> u64 run" where
  "timer_gettickcount t =
     bindR (guardR (timer_rate t \<noteq> 0) BadAccess)
       (\<lambda>_. Inr (ucast ((ucast (1000 * timer_ticks t) :: u32) div timer_rate t)))"

text \<open>\<open>clock k\<close> is what the \<open>k\<close>-th reading of the milliseconds gives while other threads and interrupts run;
  \<^verbatim>\<open>sched_yield\<close> only lets them run. The result is the number of readings made.\<close>

partial_function (option) timer_sleep_loop :: "(nat \<Rightarrow> u32) \<Rightarrow> u32 \<Rightarrow> nat \<Rightarrow> nat option" where
  "timer_sleep_loop clock end_time k =
     (if clock k \<le> end_time then Some (Suc k) else timer_sleep_loop clock end_time (Suc k))"

definition timer_sleep :: "(nat \<Rightarrow> u32) \<Rightarrow> u32 \<Rightarrow> nat run" where
  "timer_sleep clock dwMilliseconds =
     (case timer_sleep_loop clock (clock 0 + dwMilliseconds) 1 of None \<Rightarrow> Inl NoReturn | Some n \<Rightarrow> Inr n)"

section \<open>The millisecond clock\<close>

fun ticks_after :: "nat \<Rightarrow> timer \<Rightarrow> timer" where
  "ticks_after 0 t = t"
| "ticks_after (Suc n) t = timer_irq_handler (ticks_after n t)"

lemma ticks_after_count:
  "timer_ticks t = 0 \<Longrightarrow> n < 0xFFFFFFFFFFFFFFFF \<Longrightarrow>
   unat (timer_ticks (ticks_after n t)) = n \<and> timer_rate (ticks_after n t) = timer_rate t"
proof (induction n)
  case 0
  then show ?case by simp
next
  case (Suc n)
  then have ih: "unat (timer_ticks (ticks_after n t)) = n" "timer_rate (ticks_after n t) = timer_rate t" by simp_all
  have "unat (timer_ticks (ticks_after n t) + 1) = Suc n"
    using ih(1) Suc.prems(2) by (simp add: unat_word_ariths)
  then show ?case
    using ih(2) Suc.prems(2) by (simp add: timer_irq_handler_def unat_mod)
qed

lemma unat_ucast32 [simp]: "unat (ucast (w :: u64) :: u32) = unat w mod 2 ^ 32"
  by (simp add: unsigned_ucast_eq take_bit_eq_mod)

lemma timer_gettickcount_unat:
  assumes "timer_rate t \<noteq> 0"
  shows "\<exists>v. timer_gettickcount t = Inr v \<and>
    unat v = (1000 * unat (timer_ticks t)) mod 2 ^ 32 div unat (timer_rate t)"
proof -
  have "(1000 * unat (timer_ticks t)) mod 2 ^ 64 mod 2 ^ 32 = (1000 * unat (timer_ticks t)) mod (2 ^ 32 :: nat)"
    by (rule mod_mod_cancel) simp
  then show ?thesis
    using assms by (simp add: timer_gettickcount_def unat_div unat_word_ariths)
qed

section \<open>Properties\<close>

definition demo_timer :: timer where
  "demo_timer = \<lparr> timer_ticks = 0, timer_rate = 20,
     timer_irqs = \<lparr> in_if = True, in_gdt = [], in_idt = [],
        in_tss = \<lparr> ts_esp0 = 0, ts_ss0 = 0, ts_cs = 0, ts_ss = 0, ts_ds = 0, ts_es = 0, ts_fs = 0, ts_gs = 0 \<rparr>,
        in_isr = [], in_io = [] \<rparr> \<rparr>"

text \<open>After a timer of a nonzero rate has ticked \<open>n\<close> times from zero, the clock shows \<open>1000 n / rate\<close>, the
  milliseconds that have passed, with \<open>1000 n\<close> reduced modulo \<open>2 ^ 32\<close>: it starts over when the product no longer
  fits in 32 bits and never shows more than \<open>(2 ^ 32 - 1) / rate\<close>.\<close>

theorem timer_clock_milliseconds:
  assumes "timer_ticks t = 0" and "timer_rate t \<noteq> 0" and "n < 0xFFFFFFFFFFFFFFFF"
  shows "\<exists>v. timer_gettickcount (ticks_after n t) = Inr v \<and>
    unat v = 1000 * n mod 2 ^ 32 div unat (timer_rate t) \<and>
    unat v \<le> (2 ^ 32 - 1) div unat (timer_rate t)"
proof -
  note c = ticks_after_count [OF assms(1,3)]
  obtain v where v: "timer_gettickcount (ticks_after n t) = Inr v"
     "unat v = (1000 * n) mod 2 ^ 32 div unat (timer_rate t)"
    using timer_gettickcount_unat [of "ticks_after n t"] assms(2) c by auto
  have "(1000 * n) mod 2 ^ 32 \<le> 2 ^ 32 - (1 :: nat)"
    using mod_less_divisor [of "2 ^ 32" "1000 * n"] by simp
  then have "unat v \<le> (2 ^ 32 - 1) div unat (timer_rate t)"
    unfolding v(2) by (rule div_le_mono)
  then show ?thesis using v by auto
qed

theorem timer_clock_milliseconds_witness:
  "(\<exists>v. timer_gettickcount (ticks_after 100 demo_timer) = Inr v \<and> unat v = 5000) \<and>
   (\<exists>v. timer_gettickcount (ticks_after 5000000 demo_timer) = Inr v \<and> unat v = 35251635)"
proof -
  have t: "timer_ticks demo_timer = 0" "timer_rate demo_timer \<noteq> 0" "unat (timer_rate demo_timer) = 20"
    by (simp_all add: demo_timer_def)
  show ?thesis
    using timer_clock_milliseconds [OF t(1,2), of 100] timer_clock_milliseconds [OF t(1,2), of 5000000] t(3) by auto
qed

text \<open>\<^verbatim>\<open>timer_sleep\<close> returns at its first look at the clock if that is not past the end of the sleep, so it
  waits for nothing; if all readings are past the end, which is when it should return, it never does.\<close>

theorem timer_sleep_inverted:
  "(clock 1 \<le> clock 0 + ms \<longrightarrow> timer_sleep clock ms = Inr 2) \<and>
   ((\<forall>k>0. clock 0 + ms < clock k) \<longrightarrow> timer_sleep clock ms = Inl NoReturn)"
proof (intro conjI impI)
  assume "clock 1 \<le> clock 0 + ms"
  then show "timer_sleep clock ms = Inr 2"
    by (simp add: timer_sleep_def timer_sleep_loop.simps [of clock _ "Suc 0"])
next
  assume past: "\<forall>k>0. clock 0 + ms < clock k"
  have "0 < k \<Longrightarrow> False" if "timer_sleep_loop clock (clock 0 + ms) k = Some n" for k n
  proof -
    have "(0 < k \<longrightarrow> (\<forall>j>0. e < clock j) \<longrightarrow> False)" if "timer_sleep_loop clock e k = Some n" for e k n
      by (rule timer_sleep_loop.raw_induct [of "\<lambda>clock e k n. 0 < k \<longrightarrow> (\<forall>j>0. e < clock j) \<longrightarrow> False", OF _ that])
        (auto split: if_splits)
    then show "0 < k \<Longrightarrow> False" using that past by blast
  qed
  then have "timer_sleep_loop clock (clock 0 + ms) 1 = None"
    by (metis not_None_eq zero_less_one)
  then show "timer_sleep clock ms = Inl NoReturn" by (simp add: timer_sleep_def)
qed

theorem timer_sleep_inverted_witness:
  "timer_sleep (\<lambda>_. 700) 1000 = Inr 2 \<and> timer_sleep (\<lambda>k. if k = 0 then 700 else 1701) 1000 = Inl NoReturn"
  using timer_sleep_inverted [of "\<lambda>_. 700" 1000] timer_sleep_inverted [of "\<lambda>k. if k = 0 then 700 else 1701" 1000]
  by simp

end
