(* ===== verification/Syscall.thy ===== *)
theory Syscall
  imports VfsFile TextScreen Interrupts
begin

text \<open>
  \<^verbatim>\<open>syscall.c\<close>: the handler of interrupt 0x80. The registers of the caller are on the stack, where the handlers
  change them. Mutexes and strings of the caller are found by their address; what memory, other threads
  and drivers do is a record of arguments.
\<close>

section \<open>State\<close>

record regs =
  r_eax :: u32
  r_ebx :: u32
  r_ecx :: u32
  r_edx :: u32

record sys =
  sy_cnt :: u32
  sy_cpu :: cpu
  sy_screen :: terminal
  sy_vfs :: vfs
  sy_mutexes :: "u32 \<rightharpoonup> mutex"
  sy_strings :: "u32 \<rightharpoonup> bytes"
  sy_irqs :: interrupts

record sys_env =
  se_dev_open :: "u32 \<Rightarrow> hresult"
  se_name_ok :: bool
  se_new_stream :: u32
  se_fs_open :: "u32 \<Rightarrow> u32 \<Rightarrow> bytes \<Rightarrow> vfs \<Rightarrow> (hresult \<times> u32 \<times> vfs) run"
  se_drv_close :: "u32 \<Rightarrow> vfs \<Rightarrow> u32 \<Rightarrow> (hresult \<times> u32 \<times> vfs) run"
  se_dev_close :: "stream_fn \<Rightarrow> hresult"
  se_others :: "nat \<Rightarrow> mutex \<Rightarrow> mutex"

datatype syscall_handler_t = Sys_test | Sys_exit | Sys_fopen | Sys_fclose | Sys_fwrite | Sys_mutex

definition SYSCALL_ID_FOPEN :: u32 where "SYSCALL_ID_FOPEN = 0x02"
definition SYSCALL_ID_FCLOSE :: u32 where "SYSCALL_ID_FCLOSE = 0x03"
definition SYSCALL_ID_MUTEX :: u32 where "SYSCALL_ID_MUTEX = 0x04"

definition syscalls :: "syscall_handler_t option list" where
  "syscalls = [Some Sys_test, Some Sys_exit, Some Sys_fopen, Some Sys_fclose, Some Sys_fwrite, Some Sys_mutex, None]"

section \<open>Handlers\<close>

definition sys_test :: "sys \<Rightarrow> regs \<Rightarrow> (sys \<times> regs) run" where
  "sys_test s r =
     bindR (vga_print (map of_char ''SYSCALL INVOKED!'' @ [10]) (sy_cpu s) (sy_screen s)) (\<lambda>(c, t).
     Inr (s\<lparr>sy_cpu := c, sy_screen := t\<rparr>, r))"

definition sys_mutex :: "sys_env \<Rightarrow> sys \<Rightarrow> regs \<Rightarrow> (sys \<times> regs) run" where
  "sys_mutex env s r =
     (let a = r_edx r;
          apply_to = (\<lambda>f. case sy_mutexes s a of
             None \<Rightarrow> Inl BadAccess
           | Some m \<Rightarrow> bindR (f (sy_cpu s) m) (\<lambda>(c, m).
               Inr (s\<lparr>sy_cpu := c, sy_mutexes := (sy_mutexes s)(a \<mapsto> m)\<rparr>, r\<lparr>r_eax := hr_code S_OK\<rparr>))) in
      if r_ebx r = 0 then apply_to (\<lambda>c m. Inr (c, mutex_create))
      else if r_ebx r = 1 then apply_to mutex_lock
      else if r_ebx r = 2 then apply_to mutex_unlock
      else if r_ebx r = 3 then apply_to (mutex_destroy (se_others env))
      else Inr (s, r\<lparr>r_eax := hr_code E_FAIL\<rparr>))"

definition sys_fopen :: "sys_env \<Rightarrow> sys \<Rightarrow> regs \<Rightarrow> (sys \<times> regs) run" where
  "sys_fopen env s r =
     (case sy_strings s (r_ebx r) of
        None \<Rightarrow> Inl BadAccess
      | Some url \<Rightarrow>
          bindR (k_fopen (se_dev_open env) (se_name_ok env) (sy_vfs s) url (r_edx r) (se_new_stream env)) (\<lambda>sv.
          bindR (case sv of
                   Served (hr, str, v) \<Rightarrow> Inr (hr, str, v)
                 | Passed f d path \<Rightarrow> se_fs_open env f d path (sy_vfs s)) (\<lambda>(hr, str, v).
          Inr (s\<lparr>sy_vfs := v\<rparr>, r\<lparr>r_eax := if FAILED hr then 0 else str\<rparr>))))"

definition sys_fclose :: "sys_env \<Rightarrow> sys \<Rightarrow> regs \<Rightarrow> (sys \<times> regs) run" where
  "sys_fclose env s r =
     bindR (k_fclose (se_drv_close env) (se_dev_close env) (sy_vfs s) (r_ebx r)) (\<lambda>(hr, _, v).
     Inr (s\<lparr>sy_vfs := v\<rparr>, r\<lparr>r_eax := hr_code hr\<rparr>))"

definition sys_fwrite :: "sys \<Rightarrow> regs \<Rightarrow> (sys \<times> regs) run" where
  "sys_fwrite s r =
     (if r_ebx r = 1 then
        (case sy_strings s (r_ecx r) of
           None \<Rightarrow> Inl BadAccess
         | Some msg \<Rightarrow> bindR (vga_print msg (sy_cpu s) (sy_screen s)) (\<lambda>(c, t).
             Inr (s\<lparr>sy_cpu := c, sy_screen := t\<rparr>, r)))
      else Inl (Panic ''sys_fwrite(): Not implemented.''))"

definition sys_exit :: "sys \<Rightarrow> regs \<Rightarrow> (sys \<times> regs) run" where
  "sys_exit s r = Inr (s, r)"

definition run_handler :: "sys_env \<Rightarrow> syscall_handler_t \<Rightarrow> sys \<Rightarrow> regs \<Rightarrow> (sys \<times> regs) run" where
  "run_handler env f s r =
     (case f of
        Sys_test \<Rightarrow> sys_test s r
      | Sys_exit \<Rightarrow> sys_exit s r
      | Sys_fopen \<Rightarrow> sys_fopen env s r
      | Sys_fclose \<Rightarrow> sys_fclose env s r
      | Sys_fwrite \<Rightarrow> sys_fwrite s r
      | Sys_mutex \<Rightarrow> sys_mutex env s r)"

definition syscall_handler :: "sys_env \<Rightarrow> sys \<Rightarrow> regs \<Rightarrow> (sys \<times> regs) run" where
  "syscall_handler env s r =
     (if sy_cnt s \<le> r_eax r then Inr (s, r)
      else if unat (r_eax r) < length syscalls then
        (case syscalls ! unat (r_eax r) of
           None \<Rightarrow> Inl BadAccess
         | Some f \<Rightarrow> run_handler env f s r)
      else Inl BadAccess)"

text \<open>The loop that counts the entries before the null pointer.\<close>

fun count_handlers :: "syscall_handler_t option list \<Rightarrow> u32 \<Rightarrow> u32 run" where
  "count_handlers [] n = Inl BadAccess"
| "count_handlers (None # fs) n = Inr n"
| "count_handlers (Some _ # fs) n = count_handlers fs (n + 1)"

definition syscall_init :: "u32 \<Rightarrow> sys \<Rightarrow> (hresult \<times> sys) run" where
  "syscall_init handler s =
     bindR (count_handlers (drop (unat (sy_cnt s)) syscalls) (sy_cnt s)) (\<lambda>n.
     Inr (S_OK, s\<lparr>sy_cnt := n, sy_irqs := snd (register_isr_callback (sy_irqs s) 0x80 handler)\<rparr>))"

section \<open>Dispatch\<close>

lemma syscall_init_counts: "sy_cnt s = 0 \<Longrightarrow> \<exists>s'. syscall_init a s = Inr (S_OK, s') \<and> sy_cnt s' = 6"
  by (simp add: syscall_init_def syscalls_def)

lemma syscall_init_again: "sy_cnt s = 6 \<Longrightarrow> \<exists>s'. syscall_init a s = Inr (S_OK, s') \<and> sy_cnt s' = 6"
  by (simp add: syscall_init_def syscalls_def)

lemma dispatch_simps:
  assumes "sy_cnt s = 6"
  shows "r_eax r = 0 \<Longrightarrow> syscall_handler env s r = sys_test s r"
    "r_eax r = 1 \<Longrightarrow> syscall_handler env s r = sys_exit s r"
    "r_eax r = 2 \<Longrightarrow> syscall_handler env s r = sys_fopen env s r"
    "r_eax r = 3 \<Longrightarrow> syscall_handler env s r = sys_fclose env s r"
    "r_eax r = 4 \<Longrightarrow> syscall_handler env s r = sys_fwrite s r"
    "r_eax r = 5 \<Longrightarrow> syscall_handler env s r = sys_mutex env s r"
    "6 \<le> r_eax r \<Longrightarrow> syscall_handler env s r = Inr (s, r)"
proof -
  have "\<not> (6 :: u32) \<le> 1" by (simp add: word_le_nat_alt)
  with assms show "r_eax r = 0 \<Longrightarrow> syscall_handler env s r = sys_test s r"
    "r_eax r = 1 \<Longrightarrow> syscall_handler env s r = sys_exit s r"
    "r_eax r = 2 \<Longrightarrow> syscall_handler env s r = sys_fopen env s r"
    "r_eax r = 3 \<Longrightarrow> syscall_handler env s r = sys_fclose env s r"
    "r_eax r = 4 \<Longrightarrow> syscall_handler env s r = sys_fwrite s r"
    "r_eax r = 5 \<Longrightarrow> syscall_handler env s r = sys_mutex env s r"
    "6 \<le> r_eax r \<Longrightarrow> syscall_handler env s r = Inr (s, r)"
    by (simp_all add: syscall_handler_def syscalls_def run_handler_def)
qed

section \<open>Properties\<close>

definition quiet_env :: sys_env where
  "quiet_env = \<lparr> se_dev_open = (\<lambda>_. S_OK), se_name_ok = True, se_new_stream = 0, se_fs_open = (\<lambda>_ _ _ v. Inr (E_FAIL, 0, v)),
     se_drv_close = (\<lambda>_ v s. Inr (E_FAIL, s, v)), se_dev_close = (\<lambda>_. S_OK), se_others = (\<lambda>_ m. m) \<rparr>"

definition demo_sys :: sys where
  "demo_sys = \<lparr> sy_cnt = 6, sy_cpu = \<lparr> cpu_if = True, cpu_current = Some (1, 1) \<rparr>, sy_screen = demo_terminal,
     sy_vfs = \<lparr> vs_root = 0, vs_self = 0, vs_nodes = Map.empty, vs_drivers = Map.empty, vs_streams = Map.empty \<rparr>,
     sy_mutexes = Map.empty(0x5000 \<mapsto> mutex_create), sy_strings = Map.empty(0x6000 \<mapsto> [72, 105, 10]),
     sy_irqs = \<lparr> in_if = True, in_gdt = [], in_idt = [],
        in_tss = \<lparr> ts_esp0 = 0, ts_ss0 = 0, ts_cs = 0, ts_ss = 0, ts_ds = 0, ts_es = 0, ts_fs = 0, ts_gs = 0 \<rparr>,
        in_isr = [], in_io = [] \<rparr> \<rparr>"

text \<open>A program that asks for a mutex operation with the identifier that the header gives reaches the handler for
  writing instead: unless the operation is lock, the kernel stops.\<close>

theorem documented_mutex_call_panics:
  assumes "sy_cnt s = 6" and "r_eax r = SYSCALL_ID_MUTEX" and "r_ebx r \<noteq> 1"
  shows "syscall_handler env s r = Inl (Panic ''sys_fwrite(): Not implemented.'')"
  using assms dispatch_simps(5) [OF assms(1), of r env] by (simp add: SYSCALL_ID_MUTEX_def sys_fwrite_def)

theorem documented_mutex_call_panics_witness:
  "syscall_handler quiet_env demo_sys \<lparr> r_eax = 4, r_ebx = 0, r_ecx = 0, r_edx = 0x5000 \<rparr>
     = Inl (Panic ''sys_fwrite(): Not implemented.'')"
  by (rule documented_mutex_call_panics) (simp_all add: demo_sys_def SYSCALL_ID_MUTEX_def)

end
