(* ===== verification/IsaDma.thy ===== *)
theory IsaDma
  imports PortIO Sync
begin

unbundle bit_operations_syntax

text \<open>
  \<^verbatim>\<open>isa_dma.c\<close>: programming the two 8237A DMA controllers. The driver's port writes are a history (theory
  \<open>PortIO\<close>); the section on the chip interprets a history as the registers that the two controllers then hold,
  after the data sheet that the source names. The delays only burn time.
\<close>

section \<open>State and register maps\<close>

record dma =
  flipflop_lock :: spinlock
  inner_lock :: spinlock
  dma_cpu :: cpu
  dma_io :: io

record dma_regs =
  dp_status :: u8
  dp_command :: u8
  dp_request :: u8
  dp_single_channel_mask :: u8
  dp_mode :: u8
  dp_clear_flip_flop :: u8
  dp_intermediate :: u8
  dp_master_reset :: u8
  dp_mask_reset :: u8
  dp_multi_channel_mask :: u8

record dma_ch_regs =
  dc_start_addr :: u8
  dc_count :: u8
  dc_page_addr :: u8

definition dma_ports :: "dma_regs list" where
  "dma_ports =
     [\<lparr> dp_status = 0x08, dp_command = 0x08, dp_request = 0x09, dp_single_channel_mask = 0x0A, dp_mode = 0x0B,
        dp_clear_flip_flop = 0x0C, dp_intermediate = 0x0D, dp_master_reset = 0x0D, dp_mask_reset = 0x0E,
        dp_multi_channel_mask = 0x0F \<rparr>,
      \<lparr> dp_status = 0xD0, dp_command = 0xD0, dp_request = 0xD2, dp_single_channel_mask = 0xD4, dp_mode = 0xD6,
        dp_clear_flip_flop = 0xD8, dp_intermediate = 0xDA, dp_master_reset = 0xDA, dp_mask_reset = 0xDC,
        dp_multi_channel_mask = 0xDE \<rparr>]"

definition dma_ch_ports :: "dma_ch_regs list" where
  "dma_ch_ports =
     [\<lparr> dc_start_addr = 0x00, dc_count = 0x01, dc_page_addr = 0x87 \<rparr>,
      \<lparr> dc_start_addr = 0x02, dc_count = 0x03, dc_page_addr = 0x83 \<rparr>,
      \<lparr> dc_start_addr = 0x04, dc_count = 0x05, dc_page_addr = 0x81 \<rparr>,
      \<lparr> dc_start_addr = 0x06, dc_count = 0x07, dc_page_addr = 0x82 \<rparr>,
      \<lparr> dc_start_addr = 0xC0, dc_count = 0xC2, dc_page_addr = 0x8F \<rparr>,
      \<lparr> dc_start_addr = 0xC4, dc_count = 0xC6, dc_page_addr = 0x8B \<rparr>,
      \<lparr> dc_start_addr = 0xC8, dc_count = 0xCA, dc_page_addr = 0x89 \<rparr>,
      \<lparr> dc_start_addr = 0xCC, dc_count = 0xCE, dc_page_addr = 0x8A \<rparr>]"

definition DMA_TRANSFER_READ :: u32 where "DMA_TRANSFER_READ = 0x00"
definition DMA_TRANSFER_WRITE :: u32 where "DMA_TRANSFER_WRITE = 0x01"
definition DMA_TRANSFER_VERIFY :: u32 where "DMA_TRANSFER_VERIFY = 0x02"

lemmas dma_modes = DMA_TRANSFER_READ_def DMA_TRANSFER_WRITE_def DMA_TRANSFER_VERIFY_def

section \<open>Operations\<close>

definition dma_out :: "u8 \<Rightarrow> u8 \<Rightarrow> dma \<Rightarrow> dma" where
  "dma_out port v d = d\<lparr>dma_io := outb (ucast port) v (dma_io d)\<rparr>"

definition dma_write_word :: "u8 \<Rightarrow> u16 \<Rightarrow> dma \<Rightarrow> dma run" where
  "dma_write_word port v d =
     bindR (spinlock_acquire (dma_cpu d) (flipflop_lock d)) (\<lambda>(inf, c, sl).
       let d = dma_out port (ucast (v AND 0xFF)) d;
           d = dma_out port (ucast (drop_bit 8 v AND 0xFF)) d in
       bindR (spinlock_release c sl inf) (\<lambda>(c, sl). Inr (d\<lparr>dma_cpu := c, flipflop_lock := sl\<rparr>)))"

definition dma_disable_ctrl :: "nat \<Rightarrow> dma \<Rightarrow> dma" where
  "dma_disable_ctrl ctrl_id d = dma_out (dp_command (dma_ports ! ctrl_id)) 0x04 d"

definition dma_enable_ctrl :: "nat \<Rightarrow> dma \<Rightarrow> dma" where
  "dma_enable_ctrl ctrl_id d = dma_out (dp_command (dma_ports ! ctrl_id)) 0x00 d"

definition dma_mask_channel :: "u32 \<Rightarrow> bool \<Rightarrow> dma \<Rightarrow> hresult \<times> dma" where
  "dma_mask_channel ch_id enabled d =
     (if ch_id = 0 \<or> ch_id = 4 then (E_FAIL, d)
      else if ch_id > 7 then (E_INVALIDARG, d)
      else
        let ctrl_id = (if ch_id > 3 then 1 else 0);
            mask_flag = (if enabled then 0x00 else push_bit 2 0x01 :: u32)
        in (S_OK, dma_out (dp_single_channel_mask (dma_ports ! ctrl_id)) (ucast ((ch_id AND 0x03) OR mask_flag)) d))"

definition dma_set_channel_mode :: "u32 \<Rightarrow> u32 \<Rightarrow> u32 \<Rightarrow> u32 \<Rightarrow> u32 \<Rightarrow> dma \<Rightarrow> dma run" where
  "dma_set_channel_mode ch_id transf_mode op_mode autoinit reverse d =
     (let ctrl_id = (if ch_id > 3 then 1 else 0) in
      bindR (if transf_mode = DMA_TRANSFER_READ then Inr 2
             else if transf_mode = DMA_TRANSFER_WRITE then Inr 1
             else if transf_mode = DMA_TRANSFER_VERIFY then Inr 0
             else Inl (Panic ''dma_set_channel_mode(): Invalid channel mode.'')) (\<lambda>transfer_type.
      if op_mode > 2 then Inl (Panic ''dma_set_channel(): invalid operation mode'')
      else
        let autoinit = (if autoinit \<noteq> 0 then 1 else 0);
            reverse = (if reverse \<noteq> 0 then 1 else 0);
            b = ucast ((ch_id AND 0x03) OR push_bit 2 transfer_type OR push_bit 4 autoinit OR push_bit 5 reverse
                       OR push_bit 6 op_mode)
        in Inr (dma_out (dp_mode (dma_ports ! ctrl_id)) b d)))"

definition dma_reset_flipflop :: "nat \<Rightarrow> dma \<Rightarrow> dma run" where
  "dma_reset_flipflop ctrl_id d =
     bindR (spinlock_acquire (dma_cpu d) (flipflop_lock d)) (\<lambda>(inf, c, sl).
       let d = dma_out (dp_clear_flip_flop (dma_ports ! ctrl_id)) 0x01 d in
       bindR (spinlock_release c sl inf) (\<lambda>(c, sl). Inr (d\<lparr>dma_cpu := c, flipflop_lock := sl\<rparr>)))"

text \<open>The part of \<^verbatim>\<open>isadma_open_channel\<close> between the locking and the label \<^verbatim>\<open>finally\<close>.\<close>

definition dma_program :: "nat \<Rightarrow> u32 \<Rightarrow> u32 \<Rightarrow> u32 \<Rightarrow> u32 \<Rightarrow> u32 \<Rightarrow> u32 \<Rightarrow> dma \<Rightarrow> (hresult \<times> dma) run" where
  "dma_program ctrl_id channel address count t_mode o_mode autoinit d =
     (let (hr, d) = dma_mask_channel channel False (dma_disable_ctrl ctrl_id d) in
      if FAILED hr then Inr (E_FAIL, d)
      else bindR (dma_set_channel_mode channel t_mode o_mode autoinit 0 d) (\<lambda>d.
        let addr_low = ucast (address AND 0xFFFF);
            addr_page = ucast (drop_bit 16 address AND 0xFF) in
        bindR (dma_reset_flipflop ctrl_id d) (\<lambda>d.
        bindR (dma_write_word (dc_start_addr (dma_ch_ports ! unat channel)) addr_low d) (\<lambda>d.
        bindR (dma_reset_flipflop ctrl_id d) (\<lambda>d.
        let count = (if ctrl_id = 1 then count div 2 else count) in
        bindR (dma_write_word (dc_count (dma_ch_ports ! unat channel)) (ucast (count - 1)) d) (\<lambda>d.
        bindR (dma_reset_flipflop ctrl_id d) (\<lambda>d.
        let d = dma_out (dc_page_addr (dma_ch_ports ! unat channel)) addr_page d in
        Inr (S_OK, snd (dma_mask_channel channel True d)))))))))"

definition isadma_open_channel :: "u32 \<Rightarrow> u32 \<Rightarrow> u32 \<Rightarrow> u32 \<Rightarrow> u32 \<Rightarrow> u32 \<Rightarrow> dma \<Rightarrow> (hresult \<times> dma) run" where
  "isadma_open_channel channel address count t_mode o_mode autoinit d =
     (if channel > 7 \<or> count = 0 then Inr (E_INVALIDARG, d)
      else if t_mode \<noteq> DMA_TRANSFER_READ \<and> t_mode \<noteq> DMA_TRANSFER_WRITE \<and> t_mode \<noteq> DMA_TRANSFER_VERIFY
      then Inr (E_INVALIDARG, d)
      else if address > 0xFFFFFF then Inl (Panic ''isadma_open_channel(): receiving buffer above 16mb boundary.'')
      else if t_mode = DMA_TRANSFER_VERIFY then Inr (E_NOTIMPL, d)
      else
        let ctrl_id = (if channel > 3 then 1 else 0) in
        bindR (spinlock_acquire (dma_cpu d) (inner_lock d)) (\<lambda>(inf, c, sl).
        bindR (dma_program ctrl_id channel address count t_mode o_mode autoinit (d\<lparr>dma_cpu := c, inner_lock := sl\<rparr>))
          (\<lambda>(hr, d).
            let d = dma_enable_ctrl ctrl_id d in
            bindR (spinlock_release (dma_cpu d) (inner_lock d) inf) (\<lambda>(c, sl).
            Inr (hr, d\<lparr>dma_cpu := c, inner_lock := sl\<rparr>)))))"

definition isadma_close_channel :: "u32 \<Rightarrow> dma \<Rightarrow> (hresult \<times> dma) run" where
  "isadma_close_channel channel d =
     (if channel > 7 then Inr (E_INVALIDARG, d)
      else if channel = 0 \<or> channel = 4 then Inr (E_FAIL, d)
      else
        let ctrl_id = (if channel > 3 then 1 else 0) in
        bindR (spinlock_acquire (dma_cpu d) (inner_lock d)) (\<lambda>(inf, c, sl).
          let d = dma_disable_ctrl ctrl_id d;
              d = snd (dma_mask_channel channel False d);
              d = dma_enable_ctrl ctrl_id d in
          bindR (spinlock_release c sl inf) (\<lambda>(c, sl). Inr (S_OK, d\<lparr>dma_cpu := c, inner_lock := sl\<rparr>))))"

definition isadma_initialize :: "dma \<Rightarrow> hresult \<times> dma" where
  "isadma_initialize d =
     (let d = foldl (\<lambda>d i. snd (dma_mask_channel (of_nat i) False d)) d [0..<8];
          d = dma_enable_ctrl 1 (dma_enable_ctrl 0 d)
      in (S_OK, d\<lparr>flipflop_lock := spinlock_create, inner_lock := spinlock_create\<rparr>))"

section \<open>The chips\<close>

text \<open>Registers of both controllers by channel number. A sixteen-bit register is written low byte first; the
  flip-flop of the controller tells which byte is next.\<close>

record chips =
  ch_flipflop :: "nat \<Rightarrow> bool"
  ch_disabled :: "nat \<Rightarrow> bool"
  ch_addr :: "nat \<Rightarrow> u16"
  ch_count :: "nat \<Rightarrow> u16"
  ch_page :: "nat \<Rightarrow> u8"
  ch_mode :: "nat \<Rightarrow> u8"
  ch_masked :: "nat \<Rightarrow> bool"

definition write_half :: "bool \<Rightarrow> u8 \<Rightarrow> u16 \<Rightarrow> u16" where
  "write_half high v w = (if high then (w AND 0xFF) OR push_bit 8 (ucast v) else (w AND 0xFF00) OR ucast v)"

definition write_addr :: "nat \<Rightarrow> u8 \<Rightarrow> chips \<Rightarrow> chips" where
  "write_addr n v c =
     c\<lparr>ch_addr := (ch_addr c)(n := write_half (ch_flipflop c (n div 4)) v (ch_addr c n)),
       ch_flipflop := (ch_flipflop c)(n div 4 := \<not> ch_flipflop c (n div 4))\<rparr>"

definition write_count :: "nat \<Rightarrow> u8 \<Rightarrow> chips \<Rightarrow> chips" where
  "write_count n v c =
     c\<lparr>ch_count := (ch_count c)(n := write_half (ch_flipflop c (n div 4)) v (ch_count c n)),
       ch_flipflop := (ch_flipflop c)(n div 4 := \<not> ch_flipflop c (n div 4))\<rparr>"

definition write_page :: "nat \<Rightarrow> u8 \<Rightarrow> chips \<Rightarrow> chips" where
  "write_page n v c = c\<lparr>ch_page := (ch_page c)(n := v)\<rparr>"

definition write_command :: "nat \<Rightarrow> u8 \<Rightarrow> chips \<Rightarrow> chips" where
  "write_command k v c = c\<lparr>ch_disabled := (ch_disabled c)(k := bit v 2)\<rparr>"

definition write_mask :: "nat \<Rightarrow> u8 \<Rightarrow> chips \<Rightarrow> chips" where
  "write_mask k v c = c\<lparr>ch_masked := (ch_masked c)(4 * k + unat (v AND 3) := bit v 2)\<rparr>"

definition write_mode :: "nat \<Rightarrow> u8 \<Rightarrow> chips \<Rightarrow> chips" where
  "write_mode k v c = c\<lparr>ch_mode := (ch_mode c)(4 * k + unat (v AND 3) := v)\<rparr>"

definition clear_flipflop :: "nat \<Rightarrow> chips \<Rightarrow> chips" where
  "clear_flipflop k c = c\<lparr>ch_flipflop := (ch_flipflop c)(k := False)\<rparr>"

definition chip_ports :: "(u16 \<times> (u8 \<Rightarrow> chips \<Rightarrow> chips)) list" where
  "chip_ports =
     [(0x00, write_addr 0), (0x01, write_count 0), (0x02, write_addr 1), (0x03, write_count 1),
      (0x04, write_addr 2), (0x05, write_count 2), (0x06, write_addr 3), (0x07, write_count 3),
      (0x08, write_command 0), (0x0A, write_mask 0), (0x0B, write_mode 0), (0x0C, \<lambda>_. clear_flipflop 0),
      (0xC0, write_addr 4), (0xC2, write_count 4), (0xC4, write_addr 5), (0xC6, write_count 5),
      (0xC8, write_addr 6), (0xCA, write_count 6), (0xCC, write_addr 7), (0xCE, write_count 7),
      (0xD0, write_command 1), (0xD4, write_mask 1), (0xD6, write_mode 1), (0xD8, \<lambda>_. clear_flipflop 1),
      (0x87, write_page 0), (0x83, write_page 1), (0x81, write_page 2), (0x82, write_page 3),
      (0x8F, write_page 4), (0x8B, write_page 5), (0x89, write_page 6), (0x8A, write_page 7)]"

fun chip_step :: "chips \<Rightarrow> io_event \<Rightarrow> chips" where
  "chip_step c (OutB p v) = (case map_of chip_ports p of None \<Rightarrow> c | Some f \<Rightarrow> f v c)"
| "chip_step c _ = c"

definition chips_after :: "chips \<Rightarrow> io \<Rightarrow> chips" where
  "chips_after c h = foldl chip_step c h"

text \<open>The physical address at which the transfer of channel \<open>n\<close> starts. The channels of the second controller
  count words: their address register holds bits 1 to 16 and bit 0 of the page is not used.\<close>

definition transfer_start :: "nat \<Rightarrow> chips \<Rightarrow> nat" where
  "transfer_start n c =
     (if n < 4 then unat (ch_page c n) * 65536 + unat (ch_addr c n)
      else unat (ch_page c n AND 0xFE) * 65536 + 2 * unat (ch_addr c n))"

section \<open>What opening a channel writes\<close>

definition dma_free :: "dma \<Rightarrow> bool" where
  "dma_free d = (sl_lock (flipflop_lock d) = 0 \<and> sl_lock (inner_lock d) = 0)"

definition out8 :: "u8 \<Rightarrow> u8 \<Rightarrow> io_event" where
  "out8 p v = OutB (ucast p) v"

definition mode_byte :: "u32 \<Rightarrow> u32 \<Rightarrow> u32 \<Rightarrow> u32 \<Rightarrow> u8" where
  "mode_byte channel t_mode o_mode autoinit =
     ucast ((channel AND 0x03) OR push_bit 2 (if t_mode = DMA_TRANSFER_READ then 2 else 1) OR
       push_bit 4 (if autoinit \<noteq> 0 then 1 else 0) OR push_bit 6 o_mode)"

definition open_events :: "u32 \<Rightarrow> u32 \<Rightarrow> u32 \<Rightarrow> u32 \<Rightarrow> u32 \<Rightarrow> u32 \<Rightarrow> io" where
  "open_events channel address count t_mode o_mode autoinit =
     (let k = (if channel > 3 then 1 else 0); r = dma_ports ! k; q = dma_ch_ports ! unat channel;
          low = ucast (address AND 0xFFFF) :: u16;
          n = ucast ((if k = 1 then count div 2 else count) - 1) :: u16 in
      [out8 (dp_command r) 4, out8 (dp_single_channel_mask r) (ucast ((channel AND 0x03) OR 4)),
       out8 (dp_mode r) (mode_byte channel t_mode o_mode autoinit),
       out8 (dp_clear_flip_flop r) 1,
       out8 (dc_start_addr q) (ucast (low AND 0xFF)), out8 (dc_start_addr q) (ucast (drop_bit 8 low AND 0xFF)),
       out8 (dp_clear_flip_flop r) 1,
       out8 (dc_count q) (ucast (n AND 0xFF)), out8 (dc_count q) (ucast (drop_bit 8 n AND 0xFF)),
       out8 (dp_clear_flip_flop r) 1,
       out8 (dc_page_addr q) (ucast (drop_bit 16 address AND 0xFF)),
       out8 (dp_single_channel_mask r) (ucast (channel AND 0x03)),
       out8 (dp_command r) 0])"

definition log_io :: "io \<Rightarrow> dma \<Rightarrow> dma" where
  "log_io es d = d\<lparr>dma_io := dma_io d @ es\<rparr>"

lemma log_io_simps [simp]:
  "log_io es (log_io fs d) = log_io (fs @ es) d" "dma_cpu (log_io es d) = dma_cpu d"
  "flipflop_lock (log_io es d) = flipflop_lock d" "inner_lock (log_io es d) = inner_lock d"
  "dma_io (log_io es d) = dma_io d @ es"
  by (simp_all add: log_io_def)

lemma dma_out_log: "dma_out p v d = log_io [out8 p v] d"
  by (simp add: dma_out_def log_io_def out8_def outb_def)

lemma free_lock_record: "sl_lock l = 0 \<Longrightarrow> l = \<lparr>sl_lock = 0\<rparr>"
  by (cases l) simp

lemma dma_write_word_log:
  assumes "sl_lock (flipflop_lock d) = 0"
  shows "dma_write_word p v d = Inr (log_io [out8 p (ucast (v AND 0xFF)), out8 p (ucast (drop_bit 8 v AND 0xFF))] d)"
  using free_lock_record [OF assms]
  by (simp add: dma_write_word_def spinlock_acquire_def spinlock_release_def dma_out_log Let_def)

lemma dma_reset_flipflop_log:
  assumes "sl_lock (flipflop_lock d) = 0"
  shows "dma_reset_flipflop k d = Inr (log_io [out8 (dp_clear_flip_flop (dma_ports ! k)) 1] d)"
  using free_lock_record [OF assms]
  by (simp add: dma_reset_flipflop_def spinlock_acquire_def spinlock_release_def dma_out_log Let_def)

definition usable_channel :: "u32 \<Rightarrow> bool" where
  "usable_channel ch = (ch \<le> 7 \<and> ch \<noteq> 0 \<and> ch \<noteq> 4)"

lemma isadma_open_channel_log:
  assumes d: "dma_free d" and ch: "usable_channel channel" and n: "count \<noteq> 0"
    and t: "t_mode = DMA_TRANSFER_READ \<or> t_mode = DMA_TRANSFER_WRITE" and a: "address \<le> 0xFFFFFF" and o: "o_mode \<le> 2"
  shows "isadma_open_channel channel address count t_mode o_mode autoinit d =
    Inr (S_OK, log_io (open_events channel address count t_mode o_mode autoinit) d)"
proof -
  let ?k = "if channel > 3 then 1 else 0 :: nat"
  let ?d = "d\<lparr>dma_cpu := (dma_cpu d)\<lparr>cpu_if := False\<rparr>, inner_lock := (inner_lock d)\<lparr>sl_lock := 1\<rparr>\<rparr>"
  have f: "sl_lock (flipflop_lock d) = 0" "sl_lock (inner_lock d) = 0" using d by (simp_all add: dma_free_def)
  have c: "\<not> channel > 7" "channel \<noteq> 0" "channel \<noteq> 4" using ch by (auto simp: usable_channel_def)
  have t': "t_mode \<noteq> DMA_TRANSFER_VERIFY" "DMA_TRANSFER_READ \<noteq> DMA_TRANSFER_WRITE" using t by (auto simp: dma_modes)
  have o': "\<not> o_mode > 2" "\<not> address > 0xFFFFFF" using o a by auto
  have p: "dma_program ?k channel address count t_mode o_mode autoinit ?d =
     Inr (S_OK, log_io (butlast (open_events channel address count t_mode o_mode autoinit)) ?d)"
    using c o' t t' f(1)
    by (auto simp: dma_program_def dma_mask_channel_def dma_set_channel_mode_def dma_disable_ctrl_def dma_out_log
        dma_write_word_log dma_reset_flipflop_log open_events_def mode_byte_def Let_def)
  have l: "open_events channel address count t_mode o_mode autoinit =
     butlast (open_events channel address count t_mode o_mode autoinit) @ [out8 (dp_command (dma_ports ! ?k)) 0]"
    by (simp add: open_events_def Let_def)
  have acq: "spinlock_acquire (dma_cpu d) (inner_lock d) =
     Inr (if cpu_if (dma_cpu d) then 1 else 0, (dma_cpu d)\<lparr>cpu_if := False\<rparr>, (inner_lock d)\<lparr>sl_lock := 1\<rparr>)"
    using f by (simp add: spinlock_acquire_def Let_def)
  have il: "inner_lock d = \<lparr>sl_lock = 0\<rparr>" by (rule free_lock_record [OF f(2)])
  have same: "d\<lparr>dma_io := x, inner_lock := \<lparr>sl_lock = 0\<rparr>\<rparr> = d\<lparr>dma_io := x\<rparr>" for x
    using il by (cases d) simp
  show ?thesis
    unfolding isadma_open_channel_def Let_def acq bindR.simps prod.case p
    using c n t t' o'
    by (subst l) (simp add: dma_enable_ctrl_def dma_out_log spinlock_release_def il log_io_def same)
qed

section \<open>The registers afterwards\<close>

lemma write_word_halves:
  "write_half True (ucast (drop_bit 8 v AND 0xFF)) (write_half False (ucast (v AND 0xFF)) w) = (v :: u16)"
proof -
  have m: "(0xFF :: u16) = mask 8" "(0xFF00 :: u16) = NOT (mask 8)"
    by (simp_all add: mask_numeral)
  show ?thesis
    unfolding write_half_def m by (rule bit_word_eqI) (auto simp: bit_simps)
qed

lemma usable_channel_cases:
  assumes "usable_channel ch"
  obtains "ch = 1" | "ch = 2" | "ch = 3" | "ch = 5" | "ch = 6" | "ch = 7"
proof -
  have "unat ch \<le> 7" using assms by (simp add: usable_channel_def word_le_nat_alt)
  moreover have "unat ch \<noteq> unat (0 :: u32)" "unat ch \<noteq> unat (4 :: u32)"
    using assms by (auto simp only: usable_channel_def word_unat_eq_iff)
  ultimately have "unat ch = unat (1 :: u32) \<or> unat ch = unat (2 :: u32) \<or> unat ch = unat (3 :: u32) \<or>
     unat ch = unat (5 :: u32) \<or> unat ch = unat (6 :: u32) \<or> unat ch = unat (7 :: u32)" by auto
  then show ?thesis using that by (auto simp only: word_unat_eq_iff [symmetric])
qed

lemma chips_after_append: "chips_after c (h @ k) = chips_after (chips_after c h) k"
  by (simp add: chips_after_def)

text \<open>The registers of channel \<open>n\<close> as the call asks for them; those of the other channels stay.\<close>

definition programmed :: "nat \<Rightarrow> u16 \<Rightarrow> u16 \<Rightarrow> u8 \<Rightarrow> u8 \<Rightarrow> chips \<Rightarrow> chips" where
  "programmed n addr count page mode c =
     c\<lparr>ch_flipflop := (ch_flipflop c)(n div 4 := False), ch_disabled := (ch_disabled c)(n div 4 := False),
       ch_addr := (ch_addr c)(n := addr), ch_count := (ch_count c)(n := count), ch_page := (ch_page c)(n := page),
       ch_mode := (ch_mode c)(n := mode), ch_masked := (ch_masked c)(n := False)\<rparr>"

lemma mode_byte_channel: "mode_byte channel t_mode o_mode autoinit AND 3 = ucast channel AND 3"
proof -
  have m: "(3 :: u8) = mask 2" "(3 :: u32) = mask 2" by (simp_all add: mask_numeral)
  show ?thesis
    unfolding mode_byte_def m by (rule bit_word_eqI) (auto simp: bit_simps)
qed

lemmas chip_defs = open_events_def chips_after_def out8_def dma_ports_def dma_ch_ports_def chip_ports_def
  write_addr_def write_count_def write_page_def write_command_def write_mask_def write_mode_def
  clear_flipflop_def programmed_def write_word_halves mode_byte_channel Let_def

lemma open_events_programmed:
  assumes "usable_channel channel"
  shows "chips_after c (open_events channel address count t_mode o_mode autoinit) =
    programmed (unat channel) (ucast (address AND 0xFFFF)) (ucast ((if channel > 3 then count div 2 else count) - 1))
      (ucast (drop_bit 16 address AND 0xFF)) (mode_byte channel t_mode o_mode autoinit) c"
  using assms
proof (cases rule: usable_channel_cases)
  case 1
  then show ?thesis by (simp add: chip_defs)
next
  case 2
  then show ?thesis by (simp add: chip_defs) (simp only: numeral_2_eq_2, simp)
next
  case 3
  then show ?thesis by (simp add: chip_defs)
next
  case 4
  then show ?thesis by (simp add: chip_defs)
next
  case 5
  then show ?thesis by (simp add: chip_defs)
next
  case 6
  then show ?thesis by (simp add: chip_defs)
qed

lemma address_parts:
  assumes "(address :: u32) \<le> 0xFFFFFF"
  shows "unat (ucast (address AND 0xFFFF) :: u16) = unat address mod 65536"
    "unat (ucast (drop_bit 16 address AND 0xFF) :: u8) = unat address div 65536"
proof -
  have m: "address AND 0xFFFF = take_bit 16 address" "drop_bit 16 address AND 0xFF = take_bit 8 (drop_bit 16 address)"
    by (simp_all add: take_bit_eq_mask mask_numeral)
  have a: "unat address < 65536 * 256" using assms by (simp add: word_le_nat_alt)
  then have "unat address div 65536 < 256" by (simp add: div_less_iff_less_mult)
  then show "unat (ucast (address AND 0xFFFF) :: u16) = unat address mod 65536"
    "unat (ucast (drop_bit 16 address AND 0xFF) :: u8) = unat address div 65536"
    unfolding m by (simp_all add: unsigned_ucast_eq take_bit_eq_mod drop_bit_eq_div unat_mod unat_div)
qed

lemma and_not_mask: "w AND NOT (mask n) = push_bit n (drop_bit n (w :: 'a::len word))"
  by (rule bit_word_eqI) (auto simp: bit_simps)

lemma and_FE: "unat ((p :: u8) AND 0xFE) = unat p - unat p mod 2"
proof -
  have "(0xFE :: u8) = NOT (mask 1)" by simp
  then have "p AND 0xFE = p AND NOT (mask 1)" by (simp only:)
  also have "\<dots> = push_bit 1 (drop_bit 1 p)" by (rule and_not_mask)
  finally have e: "p AND 0xFE = 2 * drop_bit 1 p" by (simp add: push_bit_eq_mult)
  have d: "unat (drop_bit 1 p) = unat p div 2" by (simp add: drop_bit_eq_div unat_div)
  have "unat p < 256" using unsigned_less [of p] by simp
  then have "2 * (unat p div 2) < 256" by linarith
  then have "unat (2 * drop_bit 1 p) = 2 * (unat p div 2)"
    using d by (simp add: unat_word_ariths)
  then show ?thesis unfolding e by (simp add: minus_mod_eq_mult_div)
qed

lemma word_start:
  "l < 65536 \<Longrightarrow> r < 2 \<Longrightarrow> p = 2 * q + r \<Longrightarrow>
   (p - r) * 65536 + 2 * l = p * 65536 + l \<longleftrightarrow> r * 65536 + l = (0 :: nat)"
  by (cases "r = 0") auto

text \<open>Where a transfer through the second controller starts.\<close>

lemma programmed_16bit_start:
  assumes "(address :: u32) \<le> 0xFFFFFF" and "4 \<le> n"
  shows "transfer_start n (programmed n (ucast (address AND 0xFFFF)) count (ucast (drop_bit 16 address AND 0xFF)) mode c) =
    unat address \<longleftrightarrow> unat address mod 131072 = 0"
proof -
  let ?l = "unat address mod 65536" and ?p = "unat address div 65536"
  have "transfer_start n (programmed n (ucast (address AND 0xFFFF)) count (ucast (drop_bit 16 address AND 0xFF)) mode c) =
     (?p - ?p mod 2) * 65536 + 2 * ?l"
    using assms(2) address_parts [OF assms(1)] by (simp add: transfer_start_def programmed_def and_FE)
  moreover have "(?p - ?p mod 2) * 65536 + 2 * ?l = unat address \<longleftrightarrow> unat address mod 131072 = 0"
  proof -
    have "unat address = ?p * 65536 + ?l" "?p = 2 * (?p div 2) + ?p mod 2" "?l < 65536" "?p mod 2 < 2" by simp_all
    moreover have "unat address mod 131072 = ?p mod 2 * 65536 + ?l"
      using mod_mult2_eq [of "unat address" 65536 2] by (simp add: mult.commute add.commute)
    ultimately show ?thesis
      using word_start [of ?l "?p mod 2" ?p "?p div 2"] by (simp only:)
  qed
  ultimately show ?thesis by simp
qed

section \<open>Properties\<close>

definition demo_dma :: dma where
  "demo_dma = \<lparr> flipflop_lock = \<lparr> sl_lock = 0 \<rparr>, inner_lock = \<lparr> sl_lock = 0 \<rparr>,
     dma_cpu = \<lparr> cpu_if = True, cpu_current = None \<rparr>, dma_io = [] \<rparr>"

definition demo_chips :: chips where
  "demo_chips = \<lparr> ch_flipflop = (\<lambda>_. True), ch_disabled = (\<lambda>_. True), ch_addr = (\<lambda>_. 0), ch_count = (\<lambda>_. 0),
     ch_page = (\<lambda>_. 0), ch_mode = (\<lambda>_. 0), ch_masked = (\<lambda>_. True) \<rparr>"

text \<open>C11. Whatever state the two DMA chips are in, opening one of the channels 1, 2, 3, 5, 6, 7 for a read or write below
  16 MB leaves that channel with the low sixteen bits of the address, the page, the mode, and the number of units
  less one, unmasked, the flip-flop reset, the controller enabled and every other channel as it was; the locks and
  the interrupt flag are as before. A transfer on channels 1 to 3 then starts at the address that was asked for.\<close>

theorem isadma_open_channel_programs:
  assumes "dma_free d" and "usable_channel channel" and "count \<noteq> 0"
    and "t_mode = DMA_TRANSFER_READ \<or> t_mode = DMA_TRANSFER_WRITE" and "address \<le> 0xFFFFFF" and "o_mode \<le> 2"
  shows "\<exists>d'. isadma_open_channel channel address count t_mode o_mode autoinit d = Inr (S_OK, d') \<and>
     dma_free d' \<and> dma_cpu d' = dma_cpu d \<and>
     chips_after c (dma_io d') = programmed (unat channel) (ucast (address AND 0xFFFF))
       (ucast ((if channel > 3 then count div 2 else count) - 1)) (ucast (drop_bit 16 address AND 0xFF))
       (mode_byte channel t_mode o_mode autoinit) (chips_after c (dma_io d)) \<and>
     (channel \<le> 3 \<longrightarrow> transfer_start (unat channel) (chips_after c (dma_io d')) = unat address)"
proof -
  let ?d = "log_io (open_events channel address count t_mode o_mode autoinit) d"
  have "chips_after c (dma_io ?d) = programmed (unat channel) (ucast (address AND 0xFFFF))
       (ucast ((if channel > 3 then count div 2 else count) - 1)) (ucast (drop_bit 16 address AND 0xFF))
       (mode_byte channel t_mode o_mode autoinit) (chips_after c (dma_io d))"
    unfolding log_io_simps chips_after_append by (rule open_events_programmed [OF assms(2)])
  moreover have "transfer_start (unat channel) (programmed (unat channel) (ucast (address AND 0xFFFF)) n
       (ucast (drop_bit 16 address AND 0xFF)) b e) = unat address" if "channel \<le> 3" for n b e
  proof -
    have "unat channel < 4" using that by (simp add: word_le_nat_alt)
    then show ?thesis
      using address_parts [OF assms(5)] by (simp add: transfer_start_def programmed_def)
  qed
  ultimately show ?thesis
    using isadma_open_channel_log [OF assms] assms(1) by (simp add: dma_free_def)
qed

theorem isadma_open_channel_programs_witness:
  "\<exists>d'. isadma_open_channel 2 0x12345 512 DMA_TRANSFER_WRITE 1 0 demo_dma = Inr (S_OK, d') \<and>
     chips_after demo_chips (dma_io d') = programmed 2 0x2345 511 0x01 0x46 demo_chips \<and>
     transfer_start 2 (chips_after demo_chips (dma_io d')) = 0x12345"
proof -
  have "dma_free demo_dma" "usable_channel 2" by (simp_all add: dma_free_def demo_dma_def usable_channel_def)
  moreover have "mode_byte 2 DMA_TRANSFER_WRITE 1 0 = 0x46" by (simp add: mode_byte_def dma_modes)
  moreover have "chips_after demo_chips (dma_io demo_dma) = demo_chips" by (simp add: chips_after_def demo_dma_def)
  ultimately show ?thesis
    using isadma_open_channel_programs [where d = demo_dma and channel = 2 and count = 512 and t_mode = DMA_TRANSFER_WRITE and
      address = "0x12345" and o_mode = 1 and autoinit = 0 and c = demo_chips] by auto
qed

text \<open>On the channels of the second controller, which count in words, the code still writes the address in bytes:
  the transfer starts where it was asked to only if the address is a multiple of 128 KB.\<close>

theorem isadma_16bit_channel_misplaced:
  assumes "dma_free d" and "channel \<in> {5, 6, 7}" and "count \<noteq> 0"
    and "t_mode = DMA_TRANSFER_READ \<or> t_mode = DMA_TRANSFER_WRITE" and "address \<le> 0xFFFFFF" and "o_mode \<le> 2"
  shows "\<exists>d'. isadma_open_channel channel address count t_mode o_mode autoinit d = Inr (S_OK, d') \<and>
     (transfer_start (unat channel) (chips_after c (dma_io d')) = unat address \<longleftrightarrow> unat address mod 131072 = 0)"
proof -
  let ?d = "log_io (open_events channel address count t_mode o_mode autoinit) d"
  have u: "usable_channel channel" "4 \<le> unat channel" using assms(2) by (auto simp: usable_channel_def)
  have "transfer_start (unat channel) (chips_after c (dma_io ?d)) = unat address \<longleftrightarrow> unat address mod 131072 = 0"
    unfolding log_io_simps chips_after_append open_events_programmed [OF u(1)] by (rule programmed_16bit_start [OF assms(5) u(2)])
  then show ?thesis
    using isadma_open_channel_log [OF assms(1) u(1) assms(3-6)] by simp
qed

theorem isadma_16bit_channel_misplaced_witness:
  "\<exists>d'. isadma_open_channel 5 0x30000 4096 DMA_TRANSFER_READ 1 1 demo_dma = Inr (S_OK, d') \<and>
     transfer_start 5 (chips_after demo_chips (dma_io d')) \<noteq> 0x30000"
proof -
  have "dma_free demo_dma" by (simp add: dma_free_def demo_dma_def)
  then show ?thesis
    using isadma_16bit_channel_misplaced [where d = demo_dma and channel = 5 and count = 4096 and t_mode = DMA_TRANSFER_READ and
      address = "0x30000" and o_mode = 1 and autoinit = 1 and c = demo_chips] by auto
qed

end
