(* ===== verification/Elf.thy ===== *)
theory Elf
  imports VfsFile Sched
begin

unbundle bit_operations_syntax

text \<open>
  \<^verbatim>\<open>elf.c\<close>: recognising an executable in a stream and loading it into a new process. The state is the kernel
  with the contents of physical memory; a write through a virtual address goes to the frame by which the page
  tables of the address space translate it. The streams are those of \<open>VfsFile\<close>; the routines of device streams
  are arguments.
\<close>

section \<open>The file format\<close>

record elf_header =
  eh_magic :: bytes
  eh_class :: u8
  eh_little_endian :: u8
  eh_version :: u8
  eh_os_abi :: u8
  eh_padding :: bytes
  eh_type :: u16
  eh_arch :: u16
  eh_version2 :: u32
  eh_entry :: u32
  eh_prog_hdr_table :: u32
  eh_sect_hdr_table :: u32
  eh_flags :: u32
  eh_hdr_size :: u16
  eh_pht_entry_size :: u16
  eh_pht_num_entries :: u16
  eh_sht_entry_size :: u16
  eh_sht_num_entries :: u16
  eh_sht_index :: u16

record elf_progr_hdr =
  ph_seg_type :: u32
  ph_p_offset :: u32
  ph_p_vaddr :: u32
  ph_reserved :: u32
  ph_size_in_file :: u32
  ph_size_mem :: u32
  ph_flags :: u32
  ph_align :: u32

definition ELF_CLASS_32BIT :: u8 where "ELF_CLASS_32BIT = 0x01"
definition ELF_ARCH_X86 :: u16 where "ELF_ARCH_X86 = 0x03"
definition ELF_TYPE_EXECUTABLE :: u16 where "ELF_TYPE_EXECUTABLE = 0x02"
definition ELF_PT_NULL :: u32 where "ELF_PT_NULL = 0x00"
definition ELF_PT_LOAD :: u32 where "ELF_PT_LOAD = 0x01"
definition ELF_PT_PHDR :: u32 where "ELF_PT_PHDR = 0x06"
definition ELF_PF_W :: u32 where "ELF_PF_W = 0x02"
definition USAGE_CODE :: u32 where "USAGE_CODE = 0x80"
definition USAGE_DATA :: u32 where "USAGE_DATA = 0x100"
definition ACCESS_READ :: u32 where "ACCESS_READ = 0x01"

lemmas elf_consts = ELF_CLASS_32BIT_def ELF_ARCH_X86_def ELF_TYPE_EXECUTABLE_def ELF_PT_NULL_def ELF_PT_LOAD_def
  ELF_PT_PHDR_def ELF_PF_W_def

definition sizeof_elf_header :: nat where "sizeof_elf_header = 52"
definition sizeof_progr_hdr :: nat where "sizeof_progr_hdr = 32"

text \<open>The packed records as they lie in a buffer; reading past its end is an error.\<close>

definition read_elf_header :: "bytes \<Rightarrow> elf_header run" where
  "read_elf_header b =
     bindR (guardR (sizeof_elf_header \<le> length b) BadAccess) (\<lambda>_. Inr
     \<lparr> eh_magic = buf_get b 0 4, eh_class = b ! 4, eh_little_endian = b ! 5, eh_version = b ! 6, eh_os_abi = b ! 7,
       eh_padding = buf_get b 8 8, eh_type = le_word (buf_get b 16 2), eh_arch = le_word (buf_get b 18 2),
       eh_version2 = le_word (buf_get b 20 4), eh_entry = le_word (buf_get b 24 4),
       eh_prog_hdr_table = le_word (buf_get b 28 4), eh_sect_hdr_table = le_word (buf_get b 32 4),
       eh_flags = le_word (buf_get b 36 4), eh_hdr_size = le_word (buf_get b 40 2),
       eh_pht_entry_size = le_word (buf_get b 42 2), eh_pht_num_entries = le_word (buf_get b 44 2),
       eh_sht_entry_size = le_word (buf_get b 46 2), eh_sht_num_entries = le_word (buf_get b 48 2),
       eh_sht_index = le_word (buf_get b 50 2) \<rparr>)"

definition read_progr_hdr :: "bytes \<Rightarrow> nat \<Rightarrow> elf_progr_hdr run" where
  "read_progr_hdr b at =
     bindR (guardR (at + sizeof_progr_hdr \<le> length b) BadAccess) (\<lambda>_. Inr
     \<lparr> ph_seg_type = le_word (buf_get b at 4), ph_p_offset = le_word (buf_get b (at + 4) 4),
       ph_p_vaddr = le_word (buf_get b (at + 8) 4), ph_reserved = le_word (buf_get b (at + 12) 4),
       ph_size_in_file = le_word (buf_get b (at + 16) 4), ph_size_mem = le_word (buf_get b (at + 20) 4),
       ph_flags = le_word (buf_get b (at + 24) 4), ph_align = le_word (buf_get b (at + 28) 4) \<rparr>)"

section \<open>Recognising\<close>

text \<open>The routines of the drivers below device streams.\<close>

record stream_drivers =
  sd_read :: "u32 \<Rightarrow> vfs \<Rightarrow> u32 \<Rightarrow> u32 \<Rightarrow> bytes \<Rightarrow> (hresult \<times> bytes \<times> u32 option \<times> vfs) run"
  sd_tell :: "u32 \<Rightarrow> cpu \<Rightarrow> vfs \<Rightarrow> u32 \<Rightarrow> (u32 \<times> cpu \<times> vfs) run"
  sd_seek :: "u32 \<Rightarrow> cpu \<Rightarrow> vfs \<Rightarrow> u32 \<Rightarrow> u64 \<Rightarrow> u8 \<Rightarrow> (u32 \<times> cpu \<times> vfs) run"

definition check_header :: "elf_header \<Rightarrow> hresult" where
  "check_header hdr =
     (if eh_magic hdr \<noteq> [0x7F, 0x45, 0x4C, 0x46] then E_INVALIDDATA
      else if eh_class hdr \<noteq> ELF_CLASS_32BIT then E_FAIL
      else if eh_little_endian hdr \<noteq> 1 then E_FAIL
      else if eh_arch hdr \<noteq> ELF_ARCH_X86 then E_FAIL
      else S_OK)"

text \<open>\<open>hdr0\<close> and \<open>bytes0\<close> are the uninitialised variables \<^verbatim>\<open>hdr\<close> and \<^verbatim>\<open>bytes\<close>.\<close>

definition elf_probe ::
  "stream_drivers \<Rightarrow> bytes \<Rightarrow> u32 \<Rightarrow> cpu \<Rightarrow> vfs \<Rightarrow> u32 \<Rightarrow> (hresult \<times> cpu \<times> vfs) run" where
  "elf_probe dv hdr0 bytes0 c s str =
     bindR (k_ftell (sd_tell dv) c s str) (\<lambda>(pos, c, s).
     bindR (k_fread (sd_read dv) s str (of_nat sizeof_elf_header) hdr0) (\<lambda>(hr, buf, cnt, s).
     let n = (case cnt of None \<Rightarrow> bytes0 | Some k \<Rightarrow> k) in
     bindR (if FAILED hr \<or> n \<noteq> of_nat sizeof_elf_header then Inr E_FAIL
            else bindR (read_elf_header buf) (\<lambda>hdr. Inr (check_header hdr))) (\<lambda>hr.
     bindR (k_fseek (sd_seek dv) c s str (ucast pos) KSTREAM_ORIGIN_BEGINNING) (\<lambda>(r, c, s).
     Inr (if r \<noteq> pos then E_FAIL else hr, c, s)))))"

section \<open>Loading\<close>

type_synonym phys_mem = "u32 \<Rightarrow> u8"

definition set_byte :: "kernel \<Rightarrow> u32 \<Rightarrow> u32 \<Rightarrow> u8 \<Rightarrow> phys_mem \<Rightarrow> phys_mem run" where
  "set_byte s dir va v mem =
     (case mapped s dir (unat (va div 0x1000)) of
        None \<Rightarrow> bindR vmm_page_fault_handler (\<lambda>_. Inl BadAccess)
      | Some e \<Rightarrow> Inr (mem(pe_frame_addr e * 0x1000 + va mod 0x1000 := v)))"

fun store_bytes :: "kernel \<Rightarrow> u32 \<Rightarrow> u32 \<Rightarrow> bytes \<Rightarrow> phys_mem \<Rightarrow> phys_mem run" where
  "store_bytes s dir va [] mem = Inr mem"
| "store_bytes s dir va (v # vs) mem = bindR (set_byte s dir va v mem) (store_bytes s dir (va + 1) vs)"

text \<open>The page-aligned region of a segment: address, bytes before the segment, size.\<close>

definition segment_region :: "elf_progr_hdr \<Rightarrow> u32 \<times> u32 \<times> u32" where
  "segment_region ph =
     (let align_excess = ph_p_vaddr ph mod VM_PAGE_FRAME_SIZE;
          new_vaddr = ph_p_vaddr ph - align_excess;
          size0 = ph_size_mem ph + (ph_p_vaddr ph - new_vaddr)
      in (new_vaddr, align_excess, size0 + (VM_PAGE_FRAME_SIZE - size0 mod VM_PAGE_FRAME_SIZE)))"

definition orFail :: "hresult \<Rightarrow> string \<Rightarrow> unit run" where
  "orFail hr msg = guardR (SUCCEEDED hr) (Panic msg)"

definition load_segment :: "bytes \<Rightarrow> elf_progr_hdr \<Rightarrow> u32 \<Rightarrow> kernel \<times> phys_mem \<Rightarrow> (kernel \<times> phys_mem) run" where
  "load_segment buff ph proc = (\<lambda>(s, mem).
     let usage = (if ph_flags ph AND ELF_PF_W = 0 then USAGE_CODE else USAGE_DATA);
         access = (if ph_flags ph AND ELF_PF_W \<noteq> 0 then ACCESS_READWRITE else ACCESS_READ);
         (new_vaddr, align_excess, sz) = segment_region ph in
     bindR (vmm_alloc_and_map s proc new_vaddr sz (usage OR USAGE_USER) access False) (\<lambda>(hr, s).
     bindR (orFail hr ''Failed to allocate and map ELF segment.'') (\<lambda>_.
     bindR (vmm_get_region_phys_addr s proc new_vaddr) (\<lambda>(hr, phys_addr, s).
     bindR (orFail hr ''Failed to find region physical address.'') (\<lambda>_.
     let iflag = in_if (ks_int s); s = set_if False s in
     bindR (sched_get_current_proc s) (\<lambda>((hr, cur_proc), s).
     bindR (orFail hr ''Failed to retrieve current process pcb.'') (\<lambda>_.
     bindR (vmm_temp_map_region s cur_proc phys_addr sz) (\<lambda>(hr, temp_vaddr, s).
     bindR (orFail hr ''Failed to tempmap.'') (\<lambda>_.
     bindR (guardR (ph_size_mem ph > 0) (Panic [])) (\<lambda>_.
     bindR (guardR (unat (ph_p_offset ph) + unat (ph_size_in_file ph) \<le> length buff) BadAccess) (\<lambda>_.
     let dir = pr_page_dir (ks_procs s cur_proc) in
     bindR (store_bytes s dir (temp_vaddr + align_excess)
              (buf_get buff (unat (ph_p_offset ph)) (unat (ph_size_in_file ph))) mem) (\<lambda>mem.
     bindR (if ph_size_in_file ph \<noteq> ph_size_mem ph
            then store_bytes s dir (temp_vaddr + align_excess + ph_size_in_file ph)
                   (replicate (unat (ph_size_mem ph - ph_size_in_file ph)) 0) mem
            else Inr mem) (\<lambda>mem.
     bindR (vmm_unmap_region s cur_proc temp_vaddr True) (\<lambda>(hr, s).
     bindR (orFail hr ''Failed to unmap temp region.'') (\<lambda>_.
     Inr (if iflag then set_if True s else s, mem))))))))))))))))"

text \<open>The program headers of the indices given, from the address of the table on.\<close>

fun load_segments :: "bytes \<Rightarrow> nat \<Rightarrow> nat list \<Rightarrow> u32 \<Rightarrow> kernel \<times> phys_mem \<Rightarrow> (kernel \<times> phys_mem) run" where
  "load_segments buff table [] proc st = Inr st"
| "load_segments buff table (i # is) proc st =
     bindR (read_progr_hdr buff (table + i * sizeof_progr_hdr)) (\<lambda>ph.
     bindR (if ph_seg_type ph = ELF_PT_NULL then Inr st
            else if ph_seg_type ph = ELF_PT_LOAD then load_segment buff ph proc st
            else if ph_seg_type ph = ELF_PT_PHDR then Inr st
            else Inl (Panic ''Unhandled program header type.'')) (load_segments buff table is proc))"

definition elf_load_from_memory ::
  "u32 \<Rightarrow> bytes \<Rightarrow> kernel \<times> phys_mem \<Rightarrow> ((hresult \<times> u32 option) \<times> kernel \<times> phys_mem) run" where
  "elf_load_from_memory exit_addr buff = (\<lambda>(s, mem).
     bindR (read_elf_header buff) (\<lambda>hdr.
     if eh_type hdr \<noteq> ELF_TYPE_EXECUTABLE then Inr ((E_FAIL, None), s, mem)
     else
       bindR (sched_create_process s (eh_entry hdr) PROCESS_PRIORITY_NORMAL exit_addr) (\<lambda>((hr, pid), s).
       if FAILED hr then Inr ((hr, None), s, mem)
       else
         bindR (sched_find_proc s (the pid)) (\<lambda>((hr, proc), s).
         bindR (orFail hr ''elf_load_from_memory(): Failed to find process.'') (\<lambda>_.
         bindR (vmm_map_region s proc 0 0xC0000000 (4 * 1024 * 1024) USAGE_KERNEL ACCESS_READWRITE False) (\<lambda>(hr, s).
         bindR (orFail hr ''Failed to map region [0x0..0x00100000] to [0xC0000000..0xC0100000].'') (\<lambda>_.
         bindR (load_segments buff (unat (eh_prog_hdr_table hdr)) [0..<unat (eh_pht_num_entries hdr)] proc (s, mem)) (\<lambda>(s, mem).
         bindR (sched_add_thread_to_run_queue s (pr_threads (ks_procs s proc) ! 0)) (\<lambda>(hr, s).
         Inr ((hr, pid), s, mem)))))))))) "

text \<open>\<open>buff\<close> is the block that \<^verbatim>\<open>kmalloc\<close> returns for a size, \<open>None\<close> without memory; reading into a null pointer
  faults. The kernel state with its streams is passed along.\<close>

definition elf_execute ::
  "stream_drivers \<Rightarrow> bytes \<Rightarrow> u32 \<Rightarrow> (u32 \<Rightarrow> bytes option) \<Rightarrow> u32 \<Rightarrow> cpu \<Rightarrow> vfs \<Rightarrow> u32 \<Rightarrow> kernel \<times> phys_mem
   \<Rightarrow> ((hresult \<times> u32 option) \<times> cpu \<times> vfs \<times> kernel \<times> phys_mem) run" where
  "elf_execute dv hdr0 bytes0 buff exit_addr c s str k =
     bindR (elf_probe dv hdr0 bytes0 c s str) (\<lambda>(hr, c, s).
     if FAILED hr then Inr ((hr, None), c, s, k)
     else
       bindR (k_ftell (sd_tell dv) c s str) (\<lambda>(pos, c, s).
       bindR (k_fseek (sd_seek dv) c s str 0 KSTREAM_ORIGIN_END) (\<lambda>(_, c, s).
       bindR (k_ftell (sd_tell dv) c s str) (\<lambda>(endpos, c, s).
       bindR (k_fseek (sd_seek dv) c s str (ucast pos) KSTREAM_ORIGIN_BEGINNING) (\<lambda>(_, c, s).
       let sz = endpos - pos in
       case buff sz of
         None \<Rightarrow> Inl BadAccess
       | Some b \<Rightarrow>
           bindR (k_fread (sd_read dv) s str sz b) (\<lambda>(hr, b, cnt, s).
           let n = (case cnt of None \<Rightarrow> bytes0 | Some m \<Rightarrow> m) in
           if FAILED hr \<or> n \<noteq> sz then Inr ((E_FAIL, None), c, s, k)
           else bindR (elf_load_from_memory exit_addr b k) (\<lambda>(r, k). Inr (r, c, s, k))))))))"


section \<open>Recognising a file\<close>

lemma stream_okD:
  assumes "stream_ok c st nd"
  shows "content_ok nd" "unat (st_pos st) \<le> unat (vn_size nd)" "lockable c (st_lock st)" "mx_count (st_lock st) \<noteq> - 1"
    "st_read st = Vfs_file_read" "st_seek st = Vfs_file_seek"
  using assms by (simp_all add: stream_ok_def free_lock_def)

text \<open>Telling the position of a stream on a file changes nothing that shows.\<close>

lemma tell_shows:
  assumes st: "vs_streams s str = Some st" "st_tell st = Vfs_file_tell"
    and nd: "vs_nodes s (st_priv_data st) = Some nd" and ok: "stream_ok c st nd"
  shows "\<exists>s' st'. k_ftell drv c s str = Inr (st_pos st, c, s') \<and> vs_streams s' str = Some st' \<and> st_pos st' = st_pos st
    \<and> vs_nodes s' (st_priv_data st') = Some nd \<and> stream_ok c st' nd"
proof -
  note crit = mutex_critical [OF stream_okD(3,4) [OF ok]]
  let ?st = "st\<lparr>st_lock := left (entered c (st_lock st))\<rparr>"
  have "k_ftell drv c s str = Inr (st_pos st, c, put_stream s str ?st)"
    using st crit by (simp add: k_ftell_def derefS_def vfs_file_tell_def)
  moreover have "stream_ok c ?st nd" using ok crit by (simp add: stream_ok_def free_lock_def)
  ultimately show ?thesis using nd
    by (intro exI [of _ "put_stream s str ?st"] exI [of _ ?st]) (simp add: put_stream_def)
qed

text \<open>Reading \<open>n\<close> bytes into a buffer of that size.\<close>

lemma read_shows:
  assumes st: "vs_streams s str = Some st" and nd: "vs_nodes s (st_priv_data st) = Some nd" and ok: "stream_ok c st nd"
    and n: "0 < n" "n < 2 ^ 31" "length buf = n"
    and kd: "k = min n (length (node_data nd) - unat (st_pos st))"
  shows "\<exists>hr out s' st'. k_fread drv s str (of_nat n) buf = Inr (hr, out, Some (of_nat k), s') \<and> (FAILED hr \<longleftrightarrow> k = 0)
    \<and> take k out = take n (drop (unat (st_pos st)) (node_data nd)) \<and> length out = n
    \<and> vs_streams s' str = Some st' \<and> vs_nodes s' (st_priv_data st') = Some nd \<and> stream_ok c st' nd"
proof -
  let ?p = "unat (st_pos st)" and ?size = "ucast (vn_size nd) :: u32"
  have c: "content_ok nd" and p: "?p \<le> unat (vn_size nd)" using stream_okD [OF ok] by simp_all
  note len = length_node_data [OF c]
  have sz: "unat ?size = unat (vn_size nd)" using size32 [OF c] .
  have small: "unat (vn_size nd) < 2 ^ 31" using c by (simp add: content_ok_def)
  have un: "unat (of_nat n :: u32) = n" using n by (intro unat_of_nat_small) simp
  have sum: "unat (st_pos st + of_nat n) = ?p + n" using un n p small by (subst unat_add_small) auto
  define eff where "eff = (if st_pos st + of_nat n > ?size then ?size - st_pos st else of_nat n)"
  have eff: "unat eff = min n (unat (vn_size nd) - ?p)"
    unfolding eff_def word_less_nat_alt sum sz using p un sz by (auto simp: unat_sub_small)
  have k: "unat eff = k" using eff len kd by simp
  have m: "k_fread drv s str (of_nat n) buf =
      (if eff = 0 then Inr (E_ENDOFSTR, buf, Some 0, s)
       else bindR (memcpyR buf 0 (content_bytes nd) ?p (unat eff)) (\<lambda>out.
              Inr (S_OK, out, Some eff, put_stream s str (st\<lparr>st_pos := st_pos st + eff\<rparr>))))"
    using ok st nd p sz unfolding eff_def
    by (simp add: k_fread_def derefS_def vfs_file_read_def derefN_def stream_ok_def Let_def word_less_nat_alt)
  show ?thesis
  proof (cases "eff = 0")
    case True
    then have k0: "k = 0" using k by (metis unat_0)
    then have "drop ?p (node_data nd) = []" using kd n(1) by (auto simp: min_def split: if_splits)
    then show ?thesis using m True st nd ok n k0
      by (intro exI [of _ E_ENDOFSTR] exI [of _ buf] exI [of _ s] exI [of _ st])
        (simp add: FAILED_def)
  next
    case False
    have cb: "unat (vn_size nd) \<le> length (content_bytes nd)" using c by (simp add: content_ok_def)
    let ?out = "buf_put buf 0 (buf_get (content_bytes nd) ?p (unat eff))"
    have out: "memcpyR buf 0 (content_bytes nd) ?p (unat eff) = Inr ?out"
      using eff p cb n by (intro memcpyR_ok) auto
    have get: "buf_get (content_bytes nd) ?p (unat eff) = take n (drop ?p (node_data nd))"
      using eff p by (simp add: buf_get_def node_data_def drop_take min_def)
    have tl: "length (take n (drop ?p (node_data nd))) = unat eff" using k kd by simp
    have l: "length ?out = n" using eff cb p n unfolding get buf_put_def by simp
    have res: "take (unat eff) ?out = take n (drop ?p (node_data nd))"
      unfolding get using tl by (metis append_Nil append_eq_conv_conj buf_put_def take_0)
    let ?st = "st\<lparr>st_pos := st_pos st + eff\<rparr>"
    have pos: "unat (st_pos st + eff) = ?p + unat eff" using eff p small by (subst unat_add_small) auto
    have "stream_ok c ?st nd" using ok pos eff p by (simp add: stream_ok_def)
    moreover have "unat eff \<noteq> 0" using False by (simp add: unat_eq_zero)
    moreover have "word_of_nat k = eff" by (simp flip: k)
    ultimately show ?thesis using m False out res [unfolded k] l k nd
      by (intro exI [of _ S_OK] exI [of _ ?out] exI [of _ "put_stream s str ?st"] exI [of _ ?st])
        (simp add: put_stream_def FAILED_def)
  qed
qed

lemma sint_ucast_wide: "sint (ucast (x :: u32) :: u64) = int (unat x)"
proof -
  have "int (unat x) < 2 ^ 63" using uint_bounded [of x] by simp
  moreover have "- (2 ^ 63) \<le> int (unat x)" by (rule order_trans [of _ 0]) (simp, rule of_nat_0_le_iff)
  ultimately have "signed_take_bit 63 (int (unat x)) = int (unat x)" by (intro signed_take_bit_int_eq_self)
  moreover have "uint (ucast x :: u64) = int (unat x)" by (metis uint_nat unat_ucast64)
  ultimately show ?thesis by (simp add: sint_uint)
qed

text \<open>Going back to a position in the file.\<close>

lemma seek_back:
  assumes st: "vs_streams s str = Some st" and nd: "vs_nodes s (st_priv_data st) = Some nd" and ok: "stream_ok c st nd"
    and p: "unat (pos :: u32) \<le> length (node_data nd)"
  shows "\<exists>c' s'. k_fseek drv c s str (ucast pos) KSTREAM_ORIGIN_BEGINNING = Inr (hr_code S_OK, c', s')
    \<and> shows_file c s' str (node_data nd, unat pos)"
proof -
  have small: "length (node_data nd) < 2 ^ 31" using stream_okD(1) [OF ok] length_node_data by (simp add: content_ok_def)
  have si: "sint (ucast pos :: u64) = int (unat pos)"
    by (rule sint_ucast_wide)
  have "unat pos < 2147483648" using p small by simp
  then have pb: "int (unat pos) < 2147483648" by (metis of_nat_less_iff of_nat_numeral)
  have low: "low_half (int (unat pos)) = int (unat pos)"
    using pb by (intro low_half_small) (simp_all, metis uint_nonnegative order_trans neg_numeral_le_zero)
  have pl: "uint pos \<le> int (length (node_data nd))" using p by (metis of_nat_le_iff uint_nat)
  have fs: "file_step (File_seek (ucast pos) KSTREAM_ORIGIN_BEGINNING) (node_data nd, unat (st_pos st))
      = ((hr_code S_OK, []), (node_data nd, unat pos))"
    using si pl low by (simp add: seek_target_def origins)
  obtain s' where s': "k_step (\<lambda>_. 0) (True, True) c str (File_seek (ucast pos) KSTREAM_ORIGIN_BEGINNING) s
      = Inr ((hr_code S_OK, []), c, s')" "shows_file c s' str (node_data nd, unat pos)"
    using seek_refines [OF st nd ok, of "\<lambda>_. 0" "(True, True)" "ucast pos" KSTREAM_ORIGIN_BEGINNING] unfolding fs by auto
  then have "k_fseek drv c s str (ucast pos) KSTREAM_ORIGIN_BEGINNING = Inr (hr_code S_OK, c, s')"
    using st stream_okD(6) [OF ok] by (auto simp: k_fseek_def derefS_def)
  then show ?thesis using s'(2) by blast
qed

text \<open>What the bytes of a file say of its format.\<close>

definition elf_format :: "bytes \<Rightarrow> hresult" where
  "elf_format d =
     (if length d < 52 then E_FAIL
      else if take 4 d \<noteq> [0x7F, 0x45, 0x4C, 0x46] then E_INVALIDDATA
      else if d ! 4 = 1 \<and> d ! 5 = 1 \<and> d ! 18 = 3 \<and> d ! 19 = 0 then S_OK
      else E_FAIL)"

lemma le_word_arch: "(le_word [x, y] :: u16) = ELF_ARCH_X86 \<longleftrightarrow> x = 3 \<and> y = 0"
proof -
  have u8_lt: "unat x < 256" for x :: u8
    using unsigned_less [of x, where 'a = nat] by simp
  have ux: "unat (ucast x :: u16) = unat x" for x :: u8
    using u8_lt [of x] by (simp add: unsigned_ucast_eq take_bit_nat_eq_self)
  have u: "unat (ucast x + 256 * ucast y :: u16) = unat x + 256 * unat y"
    using u8_lt [of x] u8_lt [of y] by (simp add: unat_word_ariths ux)
  have "(le_word [x, y] :: u16) = ELF_ARCH_X86 \<longleftrightarrow> unat (ucast x + 256 * ucast y :: u16) = unat (3 :: u16)"
    unfolding word_unat_eq_iff [symmetric] by (simp add: ELF_ARCH_X86_def)
  also have "\<dots> \<longleftrightarrow> unat x + 256 * unat y = 3" unfolding u by simp
  also have "\<dots> \<longleftrightarrow> unat x = 3 \<and> unat y = 0" by (cases "unat y") simp_all
  also have "\<dots> \<longleftrightarrow> x = 3 \<and> y = 0" by (simp add: word_unat_eq_iff)
  finally show ?thesis .
qed

lemma check_header_format:
  assumes "length d \<ge> 52"
  shows "bindR (read_elf_header (take 52 d)) (\<lambda>hdr. Inr (check_header hdr)) = Inr (elf_format d)"
proof -
  have "buf_get (take 52 d) 18 2 = [d ! 18, d ! 19]"
    using assms by (auto simp: buf_get_def list_eq_iff_nth_eq less_Suc_eq numeral_2_eq_2 nth_Cons split: nat.splits)
  moreover have "buf_get (take 52 d) 0 4 = take 4 d" using assms by (simp add: buf_get_def min_def)
  ultimately show ?thesis using assms le_word_arch [of "d ! 18" "d ! 19"]
    by (simp add: read_elf_header_def check_header_def elf_format_def sizeof_elf_header_def elf_consts guardR_def)
qed

text \<open>C31. On a stream at the start of a file, \<^verbatim>\<open>elf_probe\<close> answers what the bytes of the file say: too short or the
  wrong class, byte order or machine is \<^verbatim>\<open>E_FAIL\<close>, another magic number \<^verbatim>\<open>E_INVALIDDATA\<close>, the rest \<^verbatim>\<open>S_OK\<close>. At any
  other position it is \<^verbatim>\<open>E_FAIL\<close>, as the result of \<^verbatim>\<open>k_fseek\<close>, a status, is compared with the position. The stream
  is back at its position in every case.\<close>

theorem elf_probe_classifies:
  assumes shown: "shows_file c s str (d, p)" and tl: "st_tell (the (vs_streams s str)) = Vfs_file_tell"
    and hdr: "length hdr0 = 52"
  shows "\<exists>c' s'. elf_probe dv hdr0 bytes0 c s str = Inr (if p = 0 then elf_format d else E_FAIL, c', s')
    \<and> shows_file c s' str (d, p)"
proof -
  obtain st nd where st: "vs_streams s str = Some st" and nd: "vs_nodes s (st_priv_data st) = Some nd"
    and ok: "stream_ok c st nd" and v: "d = node_data nd" "p = unat (st_pos st)"
    using shown by (auto simp: shows_file_def)
  obtain s1 st1 where tell: "k_ftell (sd_tell dv) c s str = Inr (st_pos st, c, s1)"
    and st1: "vs_streams s1 str = Some st1" "vs_nodes s1 (st_priv_data st1) = Some nd" "stream_ok c st1 nd"
      "st_pos st1 = st_pos st"
    using tell_shows [OF st _ nd ok, of "sd_tell dv"] tl st by auto
  define k where "k = min 52 (length d - p)"
  have kk: "k = min 52 (length (node_data nd) - unat (st_pos st1))" using k_def v st1(4) by simp
  have k52: "k \<le> 52" by (simp add: k_def)
  have pos1: "unat (st_pos st1) = p" using v st1(4) by simp
  note R = read_shows [OF st1(1-3) _ _ hdr kk, of "sd_read dv", unfolded pos1]
  obtain hr out s2 st2 where rd: "k_fread (sd_read dv) s1 str (of_nat 52) hdr0 = Inr (hr, out, Some (of_nat k), s2)"
    and k: "k \<le> 52" "FAILED hr \<longleftrightarrow> k = 0" "take k out = take 52 (drop p d)" "length out = 52"
    and st2: "vs_streams s2 str = Some st2" "vs_nodes s2 (st_priv_data st2) = Some nd" "stream_ok c st2 nd"
    using R k52 unfolding v by auto
  have pl: "unat (st_pos st) \<le> length (node_data nd)" using shows_file_pos [OF shown] v by simp
  obtain c' s' where sk: "k_fseek (sd_seek dv) c s2 str (ucast (st_pos st)) KSTREAM_ORIGIN_BEGINNING = Inr (hr_code S_OK, c', s')"
    and sh: "shows_file c s' str (d, p)"
    using seek_back [OF st2 pl, of "sd_seek dv"] v by auto
  have kn: "(of_nat k :: u32) = 52 \<longleftrightarrow> k = 52"
    using k(1) by (simp add: word_unat_eq_iff unat_of_nat)
  have ps: "(0 :: u32) \<noteq> st_pos st \<longleftrightarrow> p \<noteq> 0" using v by (metis unat_0 unat_eq_zero)
  have "(if FAILED hr \<or> (of_nat k :: u32) \<noteq> of_nat 52 then Inr E_FAIL
      else bindR (read_elf_header out) (\<lambda>hdr. Inr (check_header hdr))) = Inr (elf_format d)" if "p = 0"
  proof (cases "length d < 52")
    case True
    then show ?thesis using k(2) that kn k_def by (simp add: elf_format_def)
  next
    case False
    then have "k = 52" "out = take 52 d" using k that k_def by auto
    then show ?thesis using k(2) check_header_format [of d] False by simp
  qed
  moreover have "\<exists>r. (if FAILED hr \<or> (of_nat k :: u32) \<noteq> of_nat 52 then Inr E_FAIL
      else bindR (read_elf_header out) (\<lambda>hdr. Inr (check_header hdr))) = Inr r"
    using k(4) by (auto simp: read_elf_header_def guardR_def sizeof_elf_header_def)
  moreover have "elf_probe dv hdr0 bytes0 c s str
    = bindR (if FAILED hr \<or> (of_nat k :: u32) \<noteq> of_nat 52 then Inr E_FAIL
        else bindR (read_elf_header out) (\<lambda>hdr. Inr (check_header hdr)))
        (\<lambda>r. Inr (if hr_code S_OK \<noteq> st_pos st then E_FAIL else r, c', s'))"
    unfolding elf_probe_def tell bindR.simps prod.case sizeof_elf_header_def rd Let_def option.case sk by simp
  ultimately show ?thesis using sh ps by (intro exI [of _ c'] exI [of _ s']) (cases "p = 0"; auto)
qed

section \<open>The region of a segment\<close>

text \<open>The region mapped for a segment is made of whole pages, starts in the page of the segment and covers it; a
  segment that ends at the end of a page gets one more page.\<close>

theorem segment_region_covers:
  assumes "unat (ph_p_vaddr ph) + unat (ph_size_mem ph) + 8192 \<le> 2 ^ 32"
  shows "\<exists>va ex sz. segment_region ph = (va, ex, sz) \<and> unat va mod 4096 = 0 \<and> unat sz mod 4096 = 0
    \<and> unat va + unat ex = unat (ph_p_vaddr ph) \<and> unat ex < 4096
    \<and> unat (ph_p_vaddr ph) + unat (ph_size_mem ph) < unat va + unat sz
    \<and> unat va + unat sz \<le> unat (ph_p_vaddr ph) + unat (ph_size_mem ph) + 4096"
proof -
  define v n where "v = unat (ph_p_vaddr ph)" and "n = unat (ph_size_mem ph)"
  have le: "v + n + 8192 \<le> 4294967296" using assms by (simp add: v_def n_def)
  let ?pg = "VM_PAGE_FRAME_SIZE"
  have pg: "unat ?pg = 4096" by (simp add: VM_PAGE_FRAME_SIZE_def)
  let ?ex = "ph_p_vaddr ph mod ?pg"
  have ex: "unat ?ex = v mod 4096" by (simp add: unat_mod pg v_def)
  have va: "unat (ph_p_vaddr ph - ?ex) = v - v mod 4096"
    using ex by (subst unat_sub) (auto simp: word_le_nat_alt v_def)
  let ?s0 = "ph_size_mem ph + ?ex"
  define m where "m = (n + v mod 4096) mod 4096"
  have s0: "unat ?s0 = n + v mod 4096" using ex le by (subst unat_add_small) (auto simp: n_def)
  have m: "unat (?s0 mod ?pg) = m" "m < 4096" unfolding m_def unat_mod pg s0 by simp_all
  have r: "unat (?pg - ?s0 mod ?pg) = 4096 - m" using m pg by (subst unat_sub) (auto simp: word_le_nat_alt)
  have sz: "unat (?s0 + (?pg - ?s0 mod ?pg)) = n + v mod 4096 + (4096 - m)"
    using le s0 r m(2) mod_less_eq_dividend [of v 4096] by (subst unat_add_small) auto
  have al: "(n + v mod 4096 + (4096 - m)) mod 4096 = 0"
  proof -
    have "n + v mod 4096 = 4096 * ((n + v mod 4096) div 4096) + m" unfolding m_def by simp
    then have "n + v mod 4096 + (4096 - m) = 4096 * ((n + v mod 4096) div 4096) + 4096" using m(2) by linarith
    then show ?thesis by simp
  qed
  have va0: "(v - v mod 4096) mod 4096 = 0" by (simp add: minus_mod_eq_mult_div)
  have "segment_region ph = (ph_p_vaddr ph - ?ex, ?ex, ?s0 + (?pg - ?s0 mod ?pg))"
    by (simp add: segment_region_def Let_def)
  moreover have "v - v mod 4096 + v mod 4096 = v" "v mod 4096 < 4096" by simp_all
  moreover have "v + n < v - v mod 4096 + (n + v mod 4096 + (4096 - m))"
    "v - v mod 4096 + (n + v mod 4096 + (4096 - m)) \<le> v + n + 4096"
    using m(2) mod_less_eq_dividend [of v 4096] by linarith+
  ultimately show ?thesis unfolding v_def [symmetric] n_def [symmetric]
    by (intro exI [of _ "ph_p_vaddr ph - ?ex"] exI [of _ ?ex] exI [of _ "?s0 + (?pg - ?s0 mod ?pg)"] conjI)
      (simp_all only: va ex sz al va0)
qed

section \<open>Adding the main thread twice\<close>

lemma chain_cut:
  "chain ths q (xs @ t # ys) \<Longrightarrow> (\<And>x. x \<in> set xs \<Longrightarrow> th_next (ths' x) = th_next (ths x)) \<Longrightarrow> th_next (ths' t) = 0 \<Longrightarrow>
     chain ths' q (xs @ [t])"
  by (induction xs arbitrary: q) auto

text \<open>A thread that is in the run queue becomes its last one, and those behind it are gone.\<close>

lemma queue_append_again:
  assumes "chain (ks_threads s) (ks_run_queue s) (xs @ t # ys)" and "distinct (xs @ t # ys)"
  shows "\<exists>s'. queue_append s t = Inr s' \<and> chain (ks_threads s') (ks_run_queue s) (xs @ [t]) \<and> ks_run_queue s' = ks_run_queue s
    \<and> ks_sched_lock s' = ks_sched_lock s"
proof -
  obtain zs z where z: "t # ys = zs @ [z]" by (cases "t # ys" rule: rev_cases) auto
  then have "xs @ t # ys = (xs @ zs) @ [z]" by simp
  then have q: "queue_last (ks_threads s) (ks_run_queue s) = Some z"
    using assms(1) queue_last_chain by metis
  have "z \<in> set (t # ys)" unfolding z by simp
  then have "z \<notin> set xs" "t \<notin> set xs" using assms(2) by auto
  then have "chain (ks_threads (upd_thread (upd_thread s z (\<lambda>th. th\<lparr>th_next := t\<rparr>)) t (\<lambda>th. th\<lparr>th_next := 0\<rparr>))) (ks_run_queue s) (xs @ [t])"
    by (intro chain_cut [OF assms(1)]) (auto simp: upd_thread_def)
  then show ?thesis using q by (simp add: queue_append_def upd_thread_def)
qed

text \<open>Adding a thread that is in the run queue already, which \<^verbatim>\<open>elf_load_from_memory\<close> does with the main thread of
  the new process, drops from the queue all the threads that wait behind it.\<close>

theorem thread_readded_drops_rest:
  assumes "run_queue s (xs @ t # ys)" and "sl_lock (ks_sched_lock s) = 0"
  shows "\<exists>s'. sched_add_thread_to_run_queue s t = Inr (S_OK, s') \<and> run_queue s' (xs @ [t])"
proof -
  let ?l = "locked s SchedLock"
  have fields: "ks_threads ?l = ks_threads s" "ks_run_queue ?l = ks_run_queue s" "ks_run_queue s \<noteq> 0"
    using assms(1) by (cases xs; simp add: run_queue_def locked_def set_if_def)+
  obtain s' where s': "queue_append ?l t = Inr s'" "chain (ks_threads s') (ks_run_queue s) (xs @ [t])"
    "ks_run_queue s' = ks_run_queue s" "sl_lock (ks_sched_lock s') = 1"
    using queue_append_again [of ?l xs t ys] assms(1) fields by (auto simp: run_queue_def locked_def)
  have "sched_add_thread_to_run_queue s t
      = bindR (lock_release s' SchedLock (if in_if (ks_int s) then 1 else 0)) (\<lambda>s. Inr (S_OK, s))"
    using assms(2) fields s'(1) by (simp add: sched_add_thread_to_run_queue_def with_lock_def lock_acquire_free)
  moreover obtain s'' where "lock_release s' SchedLock (if in_if (ks_int s) then 1 else 0) = Inr s''"
    "ks_threads s'' = ks_threads s'" "ks_run_queue s'' = ks_run_queue s'"
    using s'(4) by (simp add: lock_release_def spinlock_release_def set_if_def)
  ultimately show ?thesis using s' assms(1) by (auto simp: run_queue_def)
qed

section \<open>Examples\<close>

definition no_devices :: stream_drivers where
  "no_devices = \<lparr> sd_read = (\<lambda>_ _ _ _ _. Inl BadAccess), sd_tell = (\<lambda>_ _ _ _. Inl BadAccess),
     sd_seek = (\<lambda>_ _ _ _ _ _. Inl BadAccess) \<rparr>"

theorem elf_probe_classifies_witness:
  "\<exists>c' s'. elf_probe no_devices (replicate 52 0) 0 (cpu_of (1, 1)) file_vfs 8 = Inr (E_FAIL, c', s')
    \<and> shows_file (cpu_of (1, 1)) s' 8 ([1, 2, 3], 0)"
  using elf_probe_classifies [OF file_vfs_shows, of "replicate 52 0" no_devices 0]
  by (simp add: file_vfs_def elf_format_def)

theorem segment_region_covers_witness:
  "\<exists>va ex sz. segment_region \<lparr> ph_seg_type = 1, ph_p_offset = 0, ph_p_vaddr = 0x8048100, ph_reserved = 0,
      ph_size_in_file = 0x200, ph_size_mem = 0x1F00, ph_flags = 5, ph_align = 0x1000 \<rparr> = (va, ex, sz)
    \<and> unat va = 0x8048000 \<and> unat sz = 0x3000"
proof -
  let ?ph = "\<lparr> ph_seg_type = 1, ph_p_offset = 0, ph_p_vaddr = 0x8048100, ph_reserved = 0,
      ph_size_in_file = 0x200, ph_size_mem = 0x1F00, ph_flags = 5, ph_align = 0x1000 \<rparr>"
  have "segment_region ?ph = (0x8048000, 0x100, 0x3000)" by (simp add: segment_region_def Let_def VM_PAGE_FRAME_SIZE_def)
  then show ?thesis using segment_region_covers [of ?ph] by simp
qed

theorem thread_readded_drops_rest_witness:
  "\<exists>s'. sched_add_thread_to_run_queue sched_example 0xC0210010 = Inr (S_OK, s') \<and> run_queue s' [0xC0210010]"
proof -
  have "sl_lock (ks_sched_lock sched_example) = 0"
    by (simp add: sched_example_def example_kernel_def spinlock_create_def)
  then show ?thesis
    using thread_readded_drops_rest [of sched_example "[]" "0xC0210010" "[0xC0220010]"] sched_example_schedulable
    by (simp add: schedulable_def)
qed

end
