(* ===== verification/Controls.thy ===== *)
theory Controls
  imports LinkedList RingBuffer Graphics
begin

unbundle bit_operations_syntax

text \<open>
  \<^verbatim>\<open>subsystems/henjin_control.c\<close>: the controls of the window system. A control has a list of child controls, a
  queue of messages, common properties and a surface, each behind its own mutex. The state holds the objects of
  every class by address, the graphics interface, and the processor as the mutexes see it. A control is the
  first field of the objects of all classes, so they have its address. Messages of controls in deferred mode
  are stored in a ring buffer as the bytes of the packed \<^verbatim>\<open>HJ_MESSAGE\<close>.
\<close>

section \<open>Messages\<close>

datatype mouse_message =
  HJ_MESSAGE_MOUSE_MOVED | HJ_MESSAGE_MOUSE_CLICK | HJ_MESSAGE_MOUSE_DBL_CLICK | HJ_MESSAGE_MOUSE_DOWN | HJ_MESSAGE_MOUSE_UP

text \<open>The tag and, for each tag, the member of the union that belongs to it. Buttons, graphics contexts and
  events are numbers and addresses.\<close>

datatype hj_message =
    Mouse_message mouse_message u16 u16 u32
  | HJ_MESSAGE_KEY_DOWN u32 u16
  | HJ_MESSAGE_KEY_UP u32 u16
  | HJ_MESSAGE_RESIZE u16 u16 NXGI_FORMAT
  | HJ_MESSAGE_REPAINT NXGI_RECT u32
  | HJ_MESSAGE_DISABLE_DRAWING u32
  | HJ_MESSAGE_ENABLE_DRAWING u32
  | HJ_MESSAGE_QUIT

definition HJ_MOUSE_BUTTON_LEFT :: u32 where "HJ_MOUSE_BUTTON_LEFT = 0"

text \<open>The layout of the packed record.\<close>

definition le_bytes :: "nat \<Rightarrow> 'a::len word \<Rightarrow> bytes" where
  "le_bytes n w = map (\<lambda>i. ucast (drop_bit (8 * i) w)) [0..<n]"

fun mouse_type :: "mouse_message \<Rightarrow> u32" where
  "mouse_type HJ_MESSAGE_MOUSE_MOVED = 0"
| "mouse_type HJ_MESSAGE_MOUSE_CLICK = 1"
| "mouse_type HJ_MESSAGE_MOUSE_DBL_CLICK = 2"
| "mouse_type HJ_MESSAGE_MOUSE_DOWN = 3"
| "mouse_type HJ_MESSAGE_MOUSE_UP = 4"

fun msg_type :: "hj_message \<Rightarrow> u32" where
  "msg_type (Mouse_message k x y b) = mouse_type k"
| "msg_type (HJ_MESSAGE_KEY_DOWN st vk) = 5"
| "msg_type (HJ_MESSAGE_KEY_UP st vk) = 6"
| "msg_type (HJ_MESSAGE_RESIZE x y fmt) = 7"
| "msg_type (HJ_MESSAGE_REPAINT r gc) = 8"
| "msg_type (HJ_MESSAGE_DISABLE_DRAWING ev) = 9"
| "msg_type (HJ_MESSAGE_ENABLE_DRAWING ev) = 10"
| "msg_type HJ_MESSAGE_QUIT = 11"

fun format_code :: "NXGI_FORMAT \<Rightarrow> u32" where
  "format_code NXGI_FORMAT_RGBA32 = 0"
| "format_code NXGI_FORMAT_BGRA32 = 1"

definition sizeof_hj_message :: nat where "sizeof_hj_message = 24"

fun msg_union :: "hj_message \<Rightarrow> bytes" where
  "msg_union (Mouse_message k x y b) = le_bytes 2 x @ le_bytes 2 y @ le_bytes 4 b"
| "msg_union (HJ_MESSAGE_KEY_DOWN st vk) = le_bytes 4 st @ le_bytes 2 vk"
| "msg_union (HJ_MESSAGE_KEY_UP st vk) = le_bytes 4 st @ le_bytes 2 vk"
| "msg_union (HJ_MESSAGE_RESIZE x y fmt) = le_bytes 2 x @ le_bytes 2 y @ le_bytes 4 (format_code fmt)"
| "msg_union (HJ_MESSAGE_REPAINT r gc) =
     le_bytes 4 (x1 r) @ le_bytes 4 (y1 r) @ le_bytes 4 (x2 r) @ le_bytes 4 (y2 r) @ le_bytes 4 gc"
| "msg_union (HJ_MESSAGE_DISABLE_DRAWING ev) = le_bytes 4 ev"
| "msg_union (HJ_MESSAGE_ENABLE_DRAWING ev) = le_bytes 4 ev"
| "msg_union HJ_MESSAGE_QUIT = []"

definition message_bytes :: "hj_message \<Rightarrow> bytes" where
  "message_bytes m = take sizeof_hj_message (le_bytes 4 (msg_type m) @ msg_union m @ replicate sizeof_hj_message 0)"

text \<open>The record that a buffer holds; the format of an enumeration outside its range is not represented.\<close>

definition mouse_of :: "u32 \<Rightarrow> mouse_message" where
  "mouse_of t = (if t = 0 then HJ_MESSAGE_MOUSE_MOVED else if t = 1 then HJ_MESSAGE_MOUSE_CLICK
     else if t = 2 then HJ_MESSAGE_MOUSE_DBL_CLICK else if t = 3 then HJ_MESSAGE_MOUSE_DOWN else HJ_MESSAGE_MOUSE_UP)"

definition message_of :: "bytes \<Rightarrow> hj_message option" where
  "message_of b =
     (let t = le_word (buf_get b 0 4) :: u32; h = (\<lambda>i. le_word (buf_get b i 2) :: u16);
          w = (\<lambda>i. le_word (buf_get b i 4) :: u32) in
      if t \<le> 4 then Some (Mouse_message (mouse_of t) (h 4) (h 6) (w 8))
      else if t = 5 then Some (HJ_MESSAGE_KEY_DOWN (w 4) (h 8))
      else if t = 6 then Some (HJ_MESSAGE_KEY_UP (w 4) (h 8))
      else if t = 7 \<and> w 8 \<le> 1 then Some (HJ_MESSAGE_RESIZE (h 4) (h 6) (if w 8 = 0 then NXGI_FORMAT_RGBA32 else NXGI_FORMAT_BGRA32))
      else if t = 8 then Some (HJ_MESSAGE_REPAINT (RECT (w 4) (w 8) (w 12) (w 16)) (w 20))
      else if t = 9 then Some (HJ_MESSAGE_DISABLE_DRAWING (w 4))
      else if t = 10 then Some (HJ_MESSAGE_ENABLE_DRAWING (w 4))
      else if t = 11 then Some HJ_MESSAGE_QUIT
      else None)"

section \<open>Objects\<close>

datatype hj_class = HJ_CLASS_OBJECT | HJ_CLASS_CONTROL | HJ_CLASS_DESKTOP | HJ_CLASS_TASKPANEL | HJ_CLASS_WINDOW | HJ_CLASS_BUTTON

datatype control_type = HJ_CONTROL_DEFERRED | HJ_CONTROL_IMMEDIATE

datatype color_tone = HJ_COLOR_LIGHTER | HJ_COLOR_LIGHT | HJ_COLOR_MAIN | HJ_COLOR_DARK | HJ_COLOR_DARKER

datatype decoration_type = HJ_DECORATION_NORMAL | HJ_DECORATION_NONE

text \<open>The functions that the kernel puts into the function pointers of controls.\<close>

datatype msg_handler = Desktop_message_handler | Window_message_handler | Taskpan_message_handler | Button_message_handler
datatype msg_dispatcher = Desktop_dispatch_message | Window_message_dispatcher
datatype app_handler = Demo1_message_handler
datatype child_fn = Desktop_on_add_child | Window_on_add_child
datatype feedback_fn = Desktop_receive_feedback | Window_receive_feedback

record hj_color_preset =
  window_color :: "color_tone \<Rightarrow> NXGI_COLOR"
  text_color :: "color_tone \<Rightarrow> NXGI_COLOR"

text \<open>\<open>hc_inst\<close> is the table for casts, \<open>hc_queue\<close> and \<open>hc_children\<close> are \<open>None\<close> for a null pointer.\<close>

record hj_control =
  hc_class :: hj_class
  hc_inst :: "hj_class \<Rightarrow> u32"
  hc_children :: "dlist option"
  hc_children_lock :: mutex
  hc_type :: control_type
  hc_queue :: "ring_buffer option"
  hc_message_lock :: mutex
  hc_handler :: "msg_handler option"
  hc_dispatcher :: "msg_dispatcher option"
  hc_property_lock :: mutex
  hc_size :: NXGI_SIZE
  hc_surface :: u32
  hc_gc :: u32
  hc_surface_lock :: mutex
  hc_theme :: hj_color_preset
  hc_parent :: u32
  hc_parent_feedback :: "feedback_fn option"
  hc_on_add_child :: "child_fn option"
  hc_on_remove_child :: "child_fn option"

record hj_control_meta =
  cm_pos :: NXGI_POINT
  cm_offset :: NXGI_POINT
  cm_decor_type :: decoration_type
  cm_border_width :: u32
  cm_drag_mode :: bool
  cm_drag_source :: NXGI_POINT
  cm_drag_wnd_pos :: NXGI_POINT
  cm_control :: u32

record hj_desktop =
  dt_wallpaper :: u32
  dt_background_color :: NXGI_COLOR
  dt_bounds_rect :: NXGI_RECT
  dt_mouse_pos :: NXGI_POINT
  dt_gc :: u32
  dt_draw_enabled :: bool
  dt_term_event :: k_event
  dt_task_panel :: u32

record hj_window =
  wn_bounds_rect :: NXGI_RECT
  wn_handler :: "app_handler option"

record hj_button =
  bt_bounds_rect :: NXGI_RECT
  bt_down :: bool
  bt_caption :: bytes

record hj_taskpanel =
  tp_bounds_rect :: NXGI_RECT

text \<open>\<open>gu_fresh\<close> are the addresses that the next allocations of objects return, a null pointer when there are none
  left; \<open>gu_blocks\<close> is the block of bytes that an allocation of a size returns, \<open>gu_junk\<close> what an uninitialised
  word holds, and \<open>gu_draw_time\<close> the text that shows how long drawing takes.\<close>

record gui =
  gu_cpu :: cpu
  gu_ctrls :: "u32 \<rightharpoonup> hj_control"
  gu_metas :: "u32 \<rightharpoonup> hj_control_meta"
  gu_desktops :: "u32 \<rightharpoonup> hj_desktop"
  gu_windows :: "u32 \<rightharpoonup> hj_window"
  gu_buttons :: "u32 \<rightharpoonup> hj_button"
  gu_taskpanels :: "u32 \<rightharpoonup> hj_taskpanel"
  gu_events :: "u32 \<rightharpoonup> k_event"
  gu_nodes :: dstore
  gu_gfx :: nxgi
  gu_fresh :: "u32 list"
  gu_blocks :: "u32 \<Rightarrow> bytes option"
  gu_junk :: u32
  gu_draw_time :: bytes

section \<open>Actions\<close>

type_synonym 'a act = "gui \<Rightarrow> ('a \<times> gui) run"

definition retS :: "'a \<Rightarrow> 'a act" where
  "retS x s = Inr (x, s)"

definition bindS :: "'a act \<Rightarrow> ('a \<Rightarrow> 'b act) \<Rightarrow> 'b act" where
  "bindS m k s = bindR (m s) (\<lambda>(x, s). k x s)"

definition failS :: "halt \<Rightarrow> 'a act" where
  "failS h s = Inl h"

definition readS :: "(gui \<Rightarrow> 'a run) \<Rightarrow> 'a act" where
  "readS f s = bindR (f s) (\<lambda>x. Inr (x, s))"

definition derefC :: "(u32 \<rightharpoonup> 'a) \<Rightarrow> u32 \<Rightarrow> 'a run" where
  "derefC m p = (if p = 0 then Inl BadAccess else case m p of None \<Rightarrow> Inl BadAccess | Some x \<Rightarrow> Inr x)"

text \<open>Calls in sequence that stop at the first failing one: \<^verbatim>\<open>if (FAILED(hr)) return hr\<close>.\<close>

definition okS :: "hresult act \<Rightarrow> hresult act \<Rightarrow> hresult act" where
  "okS m k = bindS m (\<lambda>hr. if FAILED hr then retS hr else k)"

text \<open>Calls whose result the code ignores.\<close>

definition thenS :: "'a act \<Rightarrow> 'b act \<Rightarrow> 'b act" where
  "thenS m k = bindS m (\<lambda>_. k)"

definition ctl :: "u32 \<Rightarrow> hj_control act" where
  "ctl p = readS (\<lambda>s. derefC (gu_ctrls s) p)"

definition upd_ctl :: "u32 \<Rightarrow> (hj_control \<Rightarrow> hj_control) \<Rightarrow> unit act" where
  "upd_ctl p f = bindS (ctl p) (\<lambda>c s. Inr ((), s\<lparr>gu_ctrls := (gu_ctrls s)(p \<mapsto> f c)\<rparr>))"

definition meta :: "u32 \<Rightarrow> hj_control_meta act" where
  "meta m = readS (\<lambda>s. derefC (gu_metas s) m)"

definition upd_meta :: "u32 \<Rightarrow> (hj_control_meta \<Rightarrow> hj_control_meta) \<Rightarrow> unit act" where
  "upd_meta m f = bindS (meta m) (\<lambda>x s. Inr ((), s\<lparr>gu_metas := (gu_metas s)(m \<mapsto> f x)\<rparr>))"

definition gfx :: "(nxgi \<Rightarrow> ('a \<times> nxgi) run) \<Rightarrow> 'a act" where
  "gfx f s = bindR (f (gu_gfx s)) (\<lambda>(x, g). Inr (x, s\<lparr>gu_gfx := g\<rparr>))"

definition gfx_loop :: "(nxgi \<Rightarrow> ('a \<times> nxgi) run option) \<Rightarrow> 'a act" where
  "gfx_loop f = gfx (\<lambda>g. case f g of None \<Rightarrow> Inl NoReturn | Some r \<Rightarrow> r)"

definition kallocS :: "u32 act" where
  "kallocS s = Inr (case gu_fresh s of [] \<Rightarrow> (0, s) | a # as \<Rightarrow> (a, s\<lparr>gu_fresh := as\<rparr>))"

text \<open>The four mutexes of a control.\<close>

datatype ctl_lock = Children_lock | Message_lock | Property_lock | Surface_lock

fun get_lock :: "ctl_lock \<Rightarrow> hj_control \<Rightarrow> mutex" where
  "get_lock Children_lock = hc_children_lock"
| "get_lock Message_lock = hc_message_lock"
| "get_lock Property_lock = hc_property_lock"
| "get_lock Surface_lock = hc_surface_lock"

fun put_lock :: "ctl_lock \<Rightarrow> mutex \<Rightarrow> hj_control \<Rightarrow> hj_control" where
  "put_lock Children_lock m c = c\<lparr>hc_children_lock := m\<rparr>"
| "put_lock Message_lock m c = c\<lparr>hc_message_lock := m\<rparr>"
| "put_lock Property_lock m c = c\<lparr>hc_property_lock := m\<rparr>"
| "put_lock Surface_lock m c = c\<lparr>hc_surface_lock := m\<rparr>"

definition lock_step :: "(cpu \<Rightarrow> mutex \<Rightarrow> (cpu \<times> mutex) run) \<Rightarrow> ctl_lock \<Rightarrow> u32 \<Rightarrow> unit act" where
  "lock_step f l p = bindS (ctl p) (\<lambda>c s. bindR (f (gu_cpu s) (get_lock l c)) (\<lambda>(cpu, m).
     Inr ((), s\<lparr>gu_cpu := cpu, gu_ctrls := (gu_ctrls s)(p \<mapsto> put_lock l m c)\<rparr>)))"

definition critical :: "ctl_lock \<Rightarrow> u32 \<Rightarrow> 'a act \<Rightarrow> 'a act" where
  "critical l p body =
     bindS (lock_step mutex_lock l p) (\<lambda>_. bindS body (\<lambda>r. bindS (lock_step mutex_unlock l p) (\<lambda>_. retS r)))"

definition HJ_CAST :: "u32 \<Rightarrow> hj_class \<Rightarrow> u32 act" where
  "HJ_CAST p k = bindS (ctl p) (\<lambda>c. retS (hc_inst c k))"

definition HJ_SUPPORTS :: "u32 \<Rightarrow> hj_class \<Rightarrow> bool act" where
  "HJ_SUPPORTS p k = bindS (ctl p) (\<lambda>c. retS (hc_inst c k \<noteq> 0))"


section \<open>Creation\<close>

definition MESSAGE_QUEUE_SIZE :: u32 where "MESSAGE_QUEUE_SIZE = 512 * of_nat sizeof_hj_message"
definition GUI_TITLEBOX_HEIGHT :: i32 where "GUI_TITLEBOX_HEIGHT = 26"

fun main_window_color :: "color_tone \<Rightarrow> NXGI_COLOR" where
  "main_window_color HJ_COLOR_MAIN = COLOR 0 64 128 255"
| "main_window_color HJ_COLOR_LIGHTER = COLOR 0 128 255 255"
| "main_window_color HJ_COLOR_LIGHT = COLOR 0 96 192 255"
| "main_window_color HJ_COLOR_DARK = COLOR 0 32 64 255"
| "main_window_color HJ_COLOR_DARKER = COLOR 0 16 32 255"

fun main_text_color :: "color_tone \<Rightarrow> NXGI_COLOR" where
  "main_text_color HJ_COLOR_MAIN = COLOR 255 255 255 255"
| "main_text_color HJ_COLOR_LIGHTER = COLOR 255 255 255 255"
| "main_text_color HJ_COLOR_LIGHT = COLOR 255 255 255 255"
| "main_text_color HJ_COLOR_DARK = COLOR 192 192 192 255"
| "main_text_color HJ_COLOR_DARKER = COLOR 128 128 128 255"

text \<open>What \<^verbatim>\<open>kcalloc\<close> leaves in a new control.\<close>

definition zero_control :: hj_control where
  "zero_control = \<lparr> hc_class = HJ_CLASS_OBJECT, hc_inst = (\<lambda>_. 0), hc_children = None, hc_children_lock = mutex_create,
     hc_type = HJ_CONTROL_DEFERRED, hc_queue = None, hc_message_lock = mutex_create, hc_handler = None,
     hc_dispatcher = None, hc_property_lock = mutex_create, hc_size = SIZE 0 0, hc_surface = 0, hc_gc = 0,
     hc_surface_lock = mutex_create,
     hc_theme = \<lparr> window_color = (\<lambda>_. COLOR 0 0 0 0), text_color = (\<lambda>_. COLOR 0 0 0 0) \<rparr>,
     hc_parent = 0, hc_parent_feedback = None, hc_on_add_child = None, hc_on_remove_child = None \<rparr>"

definition hj_control_init :: "u32 \<Rightarrow> control_type \<Rightarrow> msg_handler \<Rightarrow> msg_dispatcher option \<Rightarrow> hresult act" where
  "hj_control_init p type handler dispatcher =
     bindS kallocS (\<lambda>list.
     thenS (upd_ctl p (\<lambda>c. c\<lparr>hc_children := dlist_create (list \<noteq> 0), hc_type := type, hc_handler := Some handler,
                              hc_dispatcher := dispatcher\<rparr>))
     (bindS (if type = HJ_CONTROL_DEFERRED
             then bindS kallocS (\<lambda>desc. bindS (readS (\<lambda>s. Inr (gu_blocks s MESSAGE_QUEUE_SIZE))) (\<lambda>mem.
                    let q = create_ring_buffer (desc \<noteq> 0) mem MESSAGE_QUEUE_SIZE RING_BUFFER_LOCK_NONE in
                    thenS (upd_ctl p (\<lambda>c. c\<lparr>hc_queue := q\<rparr>)) (retS (q \<noteq> None))))
             else retS True) (\<lambda>ok.
      if \<not> ok then retS E_OUTOFMEM
      else
        thenS (upd_ctl p (\<lambda>c. c\<lparr>hc_theme := \<lparr> window_color = main_window_color, text_color = main_text_color \<rparr>,
                 hc_message_lock := mutex_create, hc_children_lock := mutex_create,
                 hc_property_lock := mutex_create, hc_surface_lock := mutex_create\<rparr>))
        (retS S_OK))))"

text \<open>\<open>others\<close> is what other threads do to a mutex while its destruction waits for them.\<close>

definition hj_control_fini :: "(nat \<Rightarrow> mutex \<Rightarrow> mutex) \<Rightarrow> u32 \<Rightarrow> hresult act" where
  "hj_control_fini others p =
     thenS (lock_step (mutex_destroy others) Message_lock p)
     (thenS (lock_step (mutex_destroy others) Children_lock p)
     (thenS (lock_step (mutex_destroy others) Property_lock p)
     (thenS (lock_step (mutex_destroy others) Surface_lock p)
     (retS E_NOTIMPL))))"

section \<open>The message queue\<close>

text \<open>Reading and writing the queue of a control; a null queue faults.\<close>

definition queue_step :: "u32 \<Rightarrow> (cpu \<Rightarrow> ring_buffer \<Rightarrow> ('a \<times> cpu \<times> ring_buffer) run) \<Rightarrow> 'a act" where
  "queue_step p f = bindS (ctl p) (\<lambda>c s.
     case hc_queue c of
       None \<Rightarrow> Inl BadAccess
     | Some q \<Rightarrow> bindR (f (gu_cpu s) q) (\<lambda>(x, cpu, q).
         Inr (x, s\<lparr>gu_cpu := cpu, gu_ctrls := (gu_ctrls s)(p \<mapsto> c\<lparr>hc_queue := Some q\<rparr>)\<rparr>)))"

text \<open>\<open>process\<close> is \<^verbatim>\<open>hj_process_message\<close>, which messages of immediate controls are given to at once.\<close>

definition queue_message :: "(u32 \<Rightarrow> hj_message \<Rightarrow> hresult act) \<Rightarrow> u32 \<Rightarrow> hj_message \<Rightarrow> hresult act" where
  "queue_message process p msg =
     critical Message_lock p (bindS (ctl p) (\<lambda>c.
       if hc_type c = HJ_CONTROL_IMMEDIATE then process p msg
       else
         bindS (queue_step p rb_get_write_size) (\<lambda>n.
         if n < of_nat sizeof_hj_message then retS E_BUFFEROVERFLOW
         else queue_step p (\<lambda>cpu q. rb_write cpu q (message_bytes msg) (of_nat sizeof_hj_message)))))"

text \<open>\<open>msg0\<close> are the bytes of the place for the message.\<close>

definition hj_get_message :: "u32 \<Rightarrow> bytes \<Rightarrow> (hresult \<times> bytes) act" where
  "hj_get_message p msg0 =
     critical Message_lock p (bindS (ctl p) (\<lambda>c.
       if hc_type c = HJ_CONTROL_IMMEDIATE then retS (E_FAIL, msg0)
       else
         bindS (queue_step p rb_get_read_size) (\<lambda>n.
         if n < of_nat sizeof_hj_message then retS (E_BUFFERUNDERFLOW, msg0)
         else queue_step p (\<lambda>cpu q.
                bindR (rb_read cpu q msg0 (of_nat sizeof_hj_message)) (\<lambda>(hr, b, cpu, q). Inr ((hr, b), cpu, q))))))"

text \<open>\<open>handle\<close> and \<open>dispatch\<close> call a message handler and a dispatcher. A null handler faults.\<close>

definition process_message ::
  "(msg_handler \<Rightarrow> u32 \<Rightarrow> hj_message \<Rightarrow> hresult act) \<Rightarrow> (msg_dispatcher \<Rightarrow> u32 \<Rightarrow> hj_message \<Rightarrow> (hresult \<times> bool) act)
   \<Rightarrow> u32 \<Rightarrow> hj_message \<Rightarrow> hresult act" where
  "process_message handle dispatch p msg =
     bindS (ctl p) (\<lambda>c.
     bindS (case hc_dispatcher c of None \<Rightarrow> retS (S_OK, False) | Some d \<Rightarrow> dispatch d p msg) (\<lambda>(hr, dispatched).
     if FAILED hr then retS hr
     else if \<not> dispatched
     then bindS (ctl p) (\<lambda>c. case hc_handler c of None \<Rightarrow> failS BadAccess | Some h \<Rightarrow> handle h p msg)
     else retS hr))"

text \<open>The requests below send a message; \<open>Q\<close> is \<^verbatim>\<open>hj_queue_message\<close>.\<close>

type_synonym sender = "u32 \<Rightarrow> hj_message \<Rightarrow> hresult act"

definition hj_control_invalidate_rect :: "sender \<Rightarrow> u32 \<Rightarrow> NXGI_RECT \<Rightarrow> hresult act" where
  "hj_control_invalidate_rect Q p rect = Q p (HJ_MESSAGE_REPAINT rect 0)"

definition hj_control_invalidate_rect2 :: "sender \<Rightarrow> u32 \<Rightarrow> NXGI_RECT \<Rightarrow> u32 \<Rightarrow> hresult act" where
  "hj_control_invalidate_rect2 Q p rect gc = Q p (HJ_MESSAGE_REPAINT rect gc)"

definition hj_control_resize :: "sender \<Rightarrow> u32 \<Rightarrow> NXGI_SIZE \<Rightarrow> hresult act" where
  "hj_control_resize Q p new_size =
     bindS (readS (\<lambda>s. nxgi_internal_format (gu_gfx s))) (\<lambda>fmt.
     Q p (HJ_MESSAGE_RESIZE (ucast (sz_width new_size)) (ucast (sz_height new_size)) fmt))"

section \<open>Children\<close>

definition child_list :: "u32 \<Rightarrow> dlist act" where
  "child_list p = bindS (ctl p) (\<lambda>c. case hc_children c of None \<Rightarrow> failS BadAccess | Some l \<Rightarrow> retS l)"

definition child_at :: "u32 \<Rightarrow> u32 \<Rightarrow> u32 act" where
  "child_at p i = bindS (child_list p) (\<lambda>l. readS (\<lambda>s. dlist_get_at (gu_nodes s) l i))"

definition child_list_step :: "u32 \<Rightarrow> (dstore \<Rightarrow> dlist \<Rightarrow> (u32 \<times> dstore \<times> dlist) run) \<Rightarrow> u32 act" where
  "child_list_step p f = bindS (child_list p) (\<lambda>l s. bindR (f (gu_nodes s) l) (\<lambda>(r, ns, l).
     bindR (upd_ctl p (\<lambda>c. c\<lparr>hc_children := Some l\<rparr>) (s\<lparr>gu_nodes := ns\<rparr>)) (\<lambda>(_, s). Inr (r, s))))"

text \<open>\<^verbatim>\<open>desktop_on_add_child\<close> and \<^verbatim>\<open>window_on_add_child\<close>.\<close>

definition desktop_on_add_child :: "u32 \<Rightarrow> u32 \<Rightarrow> hresult act" where
  "desktop_on_add_child this child =
     thenS (upd_ctl child (\<lambda>c. c\<lparr>hc_parent_feedback := Some Desktop_receive_feedback, hc_parent := this\<rparr>)) (retS S_OK)"

definition window_on_add_child :: "u32 \<Rightarrow> u32 \<Rightarrow> hresult act" where
  "window_on_add_child this child =
     thenS (upd_ctl child (\<lambda>c. c\<lparr>hc_parent_feedback := Some Window_receive_feedback, hc_parent := this\<rparr>)) (retS S_OK)"

fun call_child_fn :: "child_fn \<Rightarrow> u32 \<Rightarrow> u32 \<Rightarrow> hresult act" where
  "call_child_fn Desktop_on_add_child = desktop_on_add_child"
| "call_child_fn Window_on_add_child = window_on_add_child"

definition new_meta :: "u32 \<Rightarrow> hj_control_meta" where
  "new_meta child = \<lparr> cm_pos = POINT 0 0, cm_offset = POINT 0 0, cm_decor_type = HJ_DECORATION_NONE, cm_border_width = 0,
     cm_drag_mode = False, cm_drag_source = POINT 0 0, cm_drag_wnd_pos = POINT 0 0, cm_control = child \<rparr>"

definition hj_add_child :: "u32 \<Rightarrow> u32 \<Rightarrow> hresult act" where
  "hj_add_child target child =
     critical Children_lock target (bindS kallocS (\<lambda>m.
       if m = 0 then retS E_OUTOFMEM
       else
         thenS (\<lambda>s. Inr ((), s\<lparr>gu_metas := (gu_metas s)(m \<mapsto> new_meta child)\<rparr>))
         (bindS kallocS (\<lambda>node.
          bindS (child_list_step target (\<lambda>ns l. dlist_add ns l node m)) (\<lambda>cnt.
          if cnt = 0 then retS E_FAIL
          else bindS (ctl target) (\<lambda>c.
            case hc_on_add_child c of None \<Rightarrow> retS S_OK | Some f \<Rightarrow> call_child_fn f target child))))))"

text \<open>The parameter \<^verbatim>\<open>child_out\<close> is a pointer that is overwritten and never followed.\<close>

definition hj_remove_child :: "u32 \<Rightarrow> u32 \<Rightarrow> hresult act" where
  "hj_remove_child target index =
     critical Children_lock target (bindS (child_list target) (\<lambda>l.
       if index \<ge> dlist_get_count l then retS E_INVALIDARG
       else
         bindS (child_list_step target (\<lambda>ns l. dlist_remove_at ns l index)) (\<lambda>m.
         bindS (meta m) (\<lambda>x.
         let hr = (if cm_control x = 0 then E_FAIL else S_OK) in
         bindS (ctl target) (\<lambda>c.
         thenS (case hc_on_remove_child c of None \<Rightarrow> retS S_OK | Some f \<Rightarrow> call_child_fn f target (cm_control x))
         (\<lambda>s. Inr (hr, s\<lparr>gu_metas := (gu_metas s)(m := None)\<rparr>)))))))"

definition hj_get_children_count :: "u32 \<Rightarrow> u32 act" where
  "hj_get_children_count target =
     critical Children_lock target (bindS (child_list target) (\<lambda>l. retS (dlist_get_count l)))"

definition hj_control_get_size :: "u32 \<Rightarrow> NXGI_SIZE act" where
  "hj_control_get_size target = critical Property_lock target (bindS (ctl target) (\<lambda>c. retS (hc_size c)))"

definition hj_get_child_at :: "u32 \<Rightarrow> u32 \<Rightarrow> (hresult \<times> hj_control_meta option) act" where
  "hj_get_child_at target index =
     critical Children_lock target (bindS (child_list target) (\<lambda>l.
       if index \<ge> dlist_get_count l then retS (E_INVALIDARG, None)
       else bindS (child_at target index) (\<lambda>m. bindS (meta m) (\<lambda>x. retS (S_OK, Some x)))))"

text \<open>The rectangles of a child, from its description and its size.\<close>

definition bounds_of :: "hj_control_meta \<Rightarrow> NXGI_SIZE \<Rightarrow> NXGI_RECT" where
  "bounds_of x sz =
     (let w = sz_width sz + cm_border_width x * 2; h = sz_height sz + cm_border_width x * 2;
          br = \<lparr> p1 = cm_pos x, p2 = POINT (px (cm_pos x) + w) (py (cm_pos x) + h) \<rparr> in
      if cm_decor_type x = HJ_DECORATION_NORMAL then br\<lparr>p2 := POINT (x2 br) (y2 br + GUI_TITLEBOX_HEIGHT)\<rparr> else br)"

definition client_of :: "hj_control_meta \<Rightarrow> NXGI_SIZE \<Rightarrow> NXGI_RECT" where
  "client_of x sz =
     (let p = nxgig_point_add (cm_pos x) (cm_offset x) in
      \<lparr> p1 = p, p2 = POINT (px p + sz_width sz) (py p + sz_height sz) \<rparr>)"

definition hj_get_child_boundsrect :: "u32 \<Rightarrow> u32 \<Rightarrow> NXGI_RECT act" where
  "hj_get_child_boundsrect target index =
     bindS (hj_get_child_at target index) (\<lambda>(hr, x).
     case x of None \<Rightarrow> retS (RECT 0 0 0 0)
     | Some x \<Rightarrow> bindS (hj_control_get_size (cm_control x)) (\<lambda>sz. retS (bounds_of x sz)))"

definition hj_get_child_clientrect :: "u32 \<Rightarrow> u32 \<Rightarrow> NXGI_RECT act" where
  "hj_get_child_clientrect target index =
     bindS (hj_get_child_at target index) (\<lambda>(hr, x).
     case x of None \<Rightarrow> retS (RECT 0 0 0 0)
     | Some x \<Rightarrow> bindS (hj_control_get_size (cm_control x)) (\<lambda>sz. retS (client_of x sz)))"

definition hj_control_get_gc :: "u32 \<Rightarrow> u32 act" where
  "hj_control_get_gc p = critical Surface_lock p (bindS (ctl p) (\<lambda>c. retS (hc_gc c)))"

definition hj_control_set_child_position :: "u32 \<Rightarrow> u32 \<Rightarrow> NXGI_POINT \<Rightarrow> hresult act" where
  "hj_control_set_child_position parent index pos =
     critical Children_lock parent (bindS (child_at parent index) (\<lambda>m.
       if m = 0 then retS E_FAIL else thenS (upd_meta m (\<lambda>x. x\<lparr>cm_pos := pos\<rparr>)) (retS S_OK)))"

definition hj_control_get_theme :: "u32 \<Rightarrow> (hresult \<times> hj_color_preset) act" where
  "hj_control_get_theme p = critical Property_lock p (bindS (ctl p) (\<lambda>c. retS (S_OK, hc_theme c)))"

definition decorate :: "decoration_type \<Rightarrow> hj_control_meta \<Rightarrow> hj_control_meta" where
  "decorate d x = (case d of
       HJ_DECORATION_NONE \<Rightarrow> x\<lparr>cm_decor_type := d, cm_border_width := 0, cm_offset := POINT 0 0\<rparr>
     | HJ_DECORATION_NORMAL \<Rightarrow> x\<lparr>cm_decor_type := d, cm_border_width := 2, cm_offset := POINT 2 (GUI_TITLEBOX_HEIGHT + 2)\<rparr>)"

definition hj_control_set_child_decoration :: "u32 \<Rightarrow> u32 \<Rightarrow> decoration_type \<Rightarrow> hresult act" where
  "hj_control_set_child_decoration parent index d =
     critical Children_lock parent (bindS (child_at parent index) (\<lambda>m.
       if m = 0 then retS E_FAIL else thenS (upd_meta m (decorate d)) (retS S_OK)))"

text \<open>The loop of \<^verbatim>\<open>hj_child_find\<close> over \<open>n\<close> children from index \<open>i\<close> on.\<close>

fun child_find_loop :: "u32 \<Rightarrow> u32 \<Rightarrow> u32 \<Rightarrow> nat \<Rightarrow> u32 act" where
  "child_find_loop target child i 0 = retS (- 1)"
| "child_find_loop target child i (Suc n) =
     bindS (child_at target i) (\<lambda>m.
     if m = 0 then retS (- 1)
     else bindS (meta m) (\<lambda>x. if cm_control x = child then retS i else child_find_loop target child (i + 1) n))"

definition hj_child_find :: "u32 \<Rightarrow> u32 \<Rightarrow> u32 act" where
  "hj_child_find target child =
     critical Children_lock target (bindS (child_list target) (\<lambda>l.
       child_find_loop target child 0 (unat (dlist_get_count l))))"

section \<open>The surface\<close>

definition hj_control_free_surface :: "u32 \<Rightarrow> hresult act" where
  "hj_control_free_surface p =
     critical Surface_lock p (bindS (ctl p) (\<lambda>c.
       thenS (if hc_gc c \<noteq> 0
              then thenS (gfx (\<lambda>g. bindR (nxgi_destroy_graphics_context (hc_gc c) g) (\<lambda>g. Inr ((), g))))
                         (upd_ctl p (\<lambda>c. c\<lparr>hc_gc := 0\<rparr>))
              else retS ())
       (thenS (if hc_surface c \<noteq> 0
               then thenS (gfx (\<lambda>g. bindR (nxgi_destroy_bitmap (hc_surface c) g) (\<lambda>(hr, _, g). Inr (hr, g))))
                          (upd_ctl p (\<lambda>c. c\<lparr>hc_surface := 0\<rparr>))
               else retS ())
       (retS S_OK))))"

definition surface_fits :: "NXGI_SIZE \<Rightarrow> NXGI_FORMAT \<Rightarrow> u32 \<Rightarrow> bool act" where
  "surface_fits sz fmt surface =
     (if surface = 0 then retS False
      else bindS (readS (\<lambda>s. bmp_at (gu_gfx s) surface)) (\<lambda>b.
        retS (bm_width b = sz_width sz \<and> bm_height b = sz_height sz \<and> bm_format b = fmt)))"

definition hj_control_realloc_surface :: "u32 \<Rightarrow> NXGI_SIZE \<Rightarrow> NXGI_FORMAT \<Rightarrow> hresult act" where
  "hj_control_realloc_surface p new_size pixel_format =
     critical Surface_lock p (bindS (ctl p) (\<lambda>c.
     bindS (surface_fits new_size pixel_format (hc_surface c)) (\<lambda>same.
       if same then retS S_OK
       else
         okS (hj_control_free_surface p)
         (if sz_width new_size = 0 \<or> sz_height new_size = 0 then retS S_FALSE
          else
            bindS kallocS (\<lambda>bptr. bindS (readS (\<lambda>s. Inr (gu_blocks s))) (\<lambda>blocks.
            bindS (gfx (\<lambda>g. case nxgi_create_bitmap (sz_width new_size) (sz_height new_size) pixel_format bptr blocks g of
                              (hr, b, g) \<Rightarrow> Inr ((hr, b), g))) (\<lambda>(hr, b).
            if FAILED hr then retS hr
            else
              thenS (upd_ctl p (\<lambda>c. c\<lparr>hc_surface := b\<rparr>))
              (bindS kallocS (\<lambda>gptr.
               bindS (gfx (\<lambda>g. bindR (nxgi_create_graphics_context gptr g) (\<lambda>(hr, gc, g). Inr ((hr, gc), g)))) (\<lambda>(hr, gc).
               if FAILED hr then retS hr
               else
                 thenS (upd_ctl p (\<lambda>c. c\<lparr>hc_gc := gc\<rparr>))
                 (okS (gfx (nxgi_set_target gc b))
                  (thenS (critical Property_lock p (upd_ctl p (\<lambda>c. c\<lparr>hc_size := new_size\<rparr>)))
                  (retS S_OK)))))))))))))"

text \<open>\<open>feedback\<close> calls the feedback routine of the parent, with the parent, the sender and the rectangle of the
  message.\<close>

definition hj_control_request_parent_repaint ::
  "(feedback_fn \<Rightarrow> u32 \<Rightarrow> u32 \<Rightarrow> NXGI_RECT \<Rightarrow> hresult act) \<Rightarrow> u32 \<Rightarrow> NXGI_RECT option \<Rightarrow> hresult act" where
  "hj_control_request_parent_repaint feedback this dirty_rect =
     bindS (ctl this) (\<lambda>c.
     case hc_parent_feedback c of
       None \<Rightarrow> retS E_NOTSUPPORTED
     | Some f \<Rightarrow>
         bindS (case dirty_rect of
                  Some r \<Rightarrow> retS r
                | None \<Rightarrow> bindS (hj_control_get_size this) (\<lambda>sz. retS (RECT 0 0 (sz_width sz) (sz_height sz)))) (\<lambda>r.
         feedback f (hc_parent c) this r))"

section \<open>Loops over children\<close>

lemma word_below_Suc: "i < (n :: u32) \<Longrightarrow> unat (i + 1) = Suc (unat i)"
  using unat_lt_2_32 [of n] by (simp add: unat_word_ariths word_less_nat_alt)

text \<open>\<^verbatim>\<open>for (i = \<dots>; i < hj_get_children_count(p); i++)\<close> with a body that may return early with a failure.\<close>

function each_child :: "('b \<Rightarrow> u32 \<Rightarrow> (hresult \<times> 'b) act) \<Rightarrow> u32 \<Rightarrow> u32 \<Rightarrow> 'b \<Rightarrow> (hresult \<times> 'b) act" where
  "each_child body p i acc =
     bindS (hj_get_children_count p) (\<lambda>n.
     if i < n
     then bindS (body acc i) (\<lambda>(hr, acc). if FAILED hr then retS (hr, acc) else each_child body p (i + 1) acc)
     else retS (S_OK, acc))"
  by auto

termination
proof (relation "measure (\<lambda>(_, _, i, _). 2 ^ 32 - unat (i :: u32))")
  show "((body, p, i + 1, acc'), body, p, i, acc) \<in> measure (\<lambda>(_, _, i, _). 2 ^ 32 - unat (i :: u32))"
    if "i < n" for body :: "'b \<Rightarrow> u32 \<Rightarrow> (hresult \<times> 'b) act" and p i acc acc' and n :: u32
    using word_below_Suc [OF that] unat_lt_2_32 [of i] by simp
qed simp

declare each_child.simps [simp del]

end
