(* ===== verification/ControlLaws.thy ===== *)
theory ControlLaws
  imports Controls
begin

unbundle bit_operations_syntax

text \<open>
  Reasoning about the actions of controls. The mutexes are taken and left in every routine; \<open>naked\<close> is the state
  without them, and \<open>yields s m r t\<close> says that \<open>m\<close> returns \<open>r\<close> from \<open>s\<close> in a state that is \<open>t\<close> but for its mutexes,
  with every mutex held as often as before.
\<close>

section \<open>States without their mutexes\<close>

definition bare_lock :: "mutex \<Rightarrow> mutex" where
  "bare_lock m = (if mx_count m = 0 then m\<lparr>mx_pid := 0, mx_tid := 0\<rparr> else m)"

definition naked_ctl :: "hj_control \<Rightarrow> hj_control" where
  "naked_ctl c = c\<lparr>hc_children_lock := mutex_create, hc_message_lock := mutex_create, hc_property_lock := mutex_create,
     hc_surface_lock := mutex_create\<rparr>"

definition naked :: "gui \<Rightarrow> gui" where
  "naked s = s\<lparr>gu_ctrls := (\<lambda>p. map_option naked_ctl (gu_ctrls s p))\<rparr>"

definition same_locks :: "gui \<Rightarrow> gui \<Rightarrow> bool" where
  "same_locks s s' \<longleftrightarrow> gu_cpu s' = gu_cpu s
     \<and> (\<forall>p c. gu_ctrls s p = Some c \<longrightarrow> (\<exists>c'. gu_ctrls s' p = Some c' \<and> (\<forall>l. bare_lock (get_lock l c') = bare_lock (get_lock l c))))
     \<and> (\<forall>p c'. gu_ctrls s p = None \<longrightarrow> gu_ctrls s' p = Some c' \<longrightarrow> (\<forall>l. bare_lock (get_lock l c') = mutex_create))"

text \<open>Every mutex can be entered \<open>k\<close> more times by the current thread.\<close>

definition enterable :: "nat \<Rightarrow> cpu \<Rightarrow> mutex \<Rightarrow> bool" where
  "enterable k c m \<longleftrightarrow> lockable c m \<and> unat (mx_count m) + k < 2 ^ 32"

definition locks :: "nat \<Rightarrow> gui \<Rightarrow> bool" where
  "locks k s \<longleftrightarrow> cpu_current (gu_cpu s) \<noteq> None \<and> k < 2 ^ 32
     \<and> (\<forall>p c l. gu_ctrls s p = Some c \<longrightarrow> enterable k (gu_cpu s) (get_lock l c))"

definition yields :: "gui \<Rightarrow> 'a act \<Rightarrow> 'a \<Rightarrow> gui \<Rightarrow> bool" where
  "yields s m r t \<longleftrightarrow> (\<exists>s'. m s = Inr (r, s') \<and> naked s' = t \<and> same_locks s s')"

lemma naked_sel [simp]:
  "gu_cpu (naked s) = gu_cpu s" "gu_metas (naked s) = gu_metas s" "gu_desktops (naked s) = gu_desktops s"
  "gu_windows (naked s) = gu_windows s" "gu_buttons (naked s) = gu_buttons s"
  "gu_taskpanels (naked s) = gu_taskpanels s" "gu_events (naked s) = gu_events s" "gu_nodes (naked s) = gu_nodes s"
  "gu_gfx (naked s) = gu_gfx s" "gu_fresh (naked s) = gu_fresh s" "gu_blocks (naked s) = gu_blocks s"
  "gu_junk (naked s) = gu_junk s" "gu_draw_time (naked s) = gu_draw_time s"
  by (simp_all add: naked_def)

lemma naked_ctrls: "gu_ctrls (naked s) p = map_option naked_ctl (gu_ctrls s p)"
  by (simp add: naked_def)

lemma naked_ctl_sel [simp]:
  "hc_class (naked_ctl c) = hc_class c" "hc_inst (naked_ctl c) = hc_inst c" "hc_children (naked_ctl c) = hc_children c"
  "hc_type (naked_ctl c) = hc_type c" "hc_queue (naked_ctl c) = hc_queue c" "hc_handler (naked_ctl c) = hc_handler c"
  "hc_dispatcher (naked_ctl c) = hc_dispatcher c" "hc_size (naked_ctl c) = hc_size c"
  "hc_surface (naked_ctl c) = hc_surface c" "hc_gc (naked_ctl c) = hc_gc c" "hc_theme (naked_ctl c) = hc_theme c"
  "hc_parent (naked_ctl c) = hc_parent c" "hc_parent_feedback (naked_ctl c) = hc_parent_feedback c"
  "hc_on_add_child (naked_ctl c) = hc_on_add_child c" "hc_on_remove_child (naked_ctl c) = hc_on_remove_child c"
  by (simp_all add: naked_ctl_def)

lemma naked_ctl_put_lock [simp]: "naked_ctl (put_lock l m c) = naked_ctl c"
  by (cases l) (simp_all add: naked_ctl_def)

lemma naked_ctl_idem [simp]: "naked_ctl (naked_ctl c) = naked_ctl c"
  by (simp add: naked_ctl_def)

lemma naked_idem [simp]: "naked (naked s) = naked s"
  by (simp add: naked_def comp_def option.map_comp)

lemma get_put_lock: "get_lock l (put_lock l' m c) = (if l = l' then m else get_lock l c)"
  by (cases l; cases l') simp_all

lemma same_locks_refl [simp]: "same_locks s s"
  by (simp add: same_locks_def)

lemma same_locks_trans: "same_locks s t \<Longrightarrow> same_locks t u \<Longrightarrow> same_locks s u"
proof -
  assume a: "same_locks s t" and b: "same_locks t u"
  have "\<exists>c'. gu_ctrls u p = Some c' \<and> (\<forall>l. bare_lock (get_lock l c') = bare_lock (get_lock l c))"
    if "gu_ctrls s p = Some c" for p c
    using a b that unfolding same_locks_def by metis
  moreover have "\<forall>l. bare_lock (get_lock l c') = mutex_create"
    if "gu_ctrls s p = None" "gu_ctrls u p = Some c'" for p c'
  proof (cases "gu_ctrls t p")
    case None
    then show ?thesis using b that unfolding same_locks_def by blast
  next
    case (Some d)
    then have "\<forall>l. bare_lock (get_lock l d) = mutex_create" using a that unfolding same_locks_def by blast
    moreover have "\<forall>l. bare_lock (get_lock l c') = bare_lock (get_lock l d)" using b Some that unfolding same_locks_def by fastforce
    ultimately show ?thesis by simp
  qed
  ultimately show ?thesis using a b unfolding same_locks_def by simp
qed

lemma bare_lock_sel: "sl_lock (mx_inner (bare_lock m)) = sl_lock (mx_inner m)" "mx_count (bare_lock m) = mx_count m"
  "mx_count m \<noteq> 0 \<Longrightarrow> bare_lock m = m"
  by (simp_all add: bare_lock_def)

lemma enterable_bare: "enterable k c (bare_lock m) = enterable k c m"
  by (auto simp: enterable_def lockable_def bare_lock_def split: option.splits)

lemma locks_same:
  assumes "locks k s" and "same_locks s s'"
  shows "locks k s'"
proof -
  have "enterable k (gu_cpu s) (get_lock l c')" if c': "gu_ctrls s' p = Some c'" for p c' l
  proof (cases "gu_ctrls s p")
    case None
    then have "bare_lock (get_lock l c') = mutex_create" using assms(2) c' by (auto simp: same_locks_def)
    moreover have "enterable k (gu_cpu s) mutex_create"
      using assms(1) by (auto simp: enterable_def lockable_def mutex_create_def spinlock_create_def locks_def)
    ultimately show ?thesis by (metis enterable_bare)
  next
    case (Some c)
    then have "bare_lock (get_lock l c') = bare_lock (get_lock l c)" using assms(2) c' unfolding same_locks_def by fastforce
    moreover have "enterable k (gu_cpu s) (get_lock l c)" using assms(1) Some by (auto simp: locks_def)
    ultimately show ?thesis by (metis enterable_bare)
  qed
  then show ?thesis using assms by (auto simp: locks_def same_locks_def)
qed

lemma enterable_Suc: "enterable (Suc k) c m \<Longrightarrow> enterable k c m"
  by (simp add: enterable_def)

lemma locks_Suc: "locks (Suc k) s \<Longrightarrow> locks k s"
  using enterable_Suc by (auto simp: locks_def)

lemma locks_mono: "locks k s \<Longrightarrow> j \<le> k \<Longrightarrow> locks j s"
proof (induction k)
  case (Suc k)
  then show ?case using locks_Suc by (cases "j = Suc k") auto
qed simp

section \<open>Rules\<close>

lemma bindS_assoc: "bindS (bindS m f) g = bindS m (\<lambda>x. bindS (f x) g)"
proof
  show "bindS (bindS m f) g s = bindS m (\<lambda>x. bindS (f x) g) s" for s
    by (cases "m s") (auto simp: bindS_def)
qed

lemma yields_ret: "naked s = t \<Longrightarrow> yields s (retS x) x t"
  by (auto simp: yields_def retS_def)

lemma yields_bind:
  assumes "yields s m x u" and "locks k s"
    and "\<And>s1. naked s1 = u \<Longrightarrow> locks k s1 \<Longrightarrow> yields s1 (f x) r t"
  shows "yields s (bindS m f) r t"
proof -
  obtain s1 where s1: "m s = Inr (x, s1)" "naked s1 = u" "same_locks s s1" using assms(1) by (auto simp: yields_def)
  then obtain s2 where "f x s1 = Inr (r, s2)" "naked s2 = t" "same_locks s1 s2"
    using assms(3) [OF s1(2) locks_same [OF assms(2) s1(3)]] by (auto simp: yields_def)
  then show ?thesis using s1 same_locks_trans by (auto simp: yields_def bindS_def)
qed

lemma yields_then:
  assumes "yields s m x u" and "locks k s" and "\<And>s1. naked s1 = u \<Longrightarrow> locks k s1 \<Longrightarrow> yields s1 m' r t"
  shows "yields s (thenS m m') r t"
  unfolding thenS_def by (rule yields_bind [OF assms])

lemma yields_ok:
  assumes "yields s m hr u" and "locks k s" and "SUCCEEDED hr" and "\<And>s1. naked s1 = u \<Longrightarrow> locks k s1 \<Longrightarrow> yields s1 m' r t"
  shows "yields s (okS m m') r t"
  unfolding okS_def by (rule yields_bind [OF assms(1,2)]) (use assms(3,4) in auto)

lemma yields_fail:
  assumes "yields s m hr u" and "locks k s" and "FAILED hr"
  shows "yields s (okS m m') hr u"
  unfolding okS_def by (rule yields_bind [OF assms(1,2)]) (use assms(3) in \<open>auto intro: yields_ret\<close>)

lemma ctl_naked:
  assumes "gu_ctrls (naked s) p = Some c0"
  obtains c where "gu_ctrls s p = Some c" "naked_ctl c = c0"
  using assms by (auto simp: naked_ctrls)

lemma yields_ctl:
  assumes "gu_ctrls (naked s) p = Some c0" and "p \<noteq> 0" and "\<And>c. naked_ctl c = c0 \<Longrightarrow> gu_ctrls s p = Some c \<Longrightarrow> yields s (f c) r t"
  shows "yields s (bindS (ctl p) f) r t"
proof -
  obtain c where "gu_ctrls s p = Some c" "naked_ctl c = c0" using ctl_naked [OF assms(1)] .
  then show ?thesis using assms(2,3) by (simp add: bindS_def ctl_def readS_def derefC_def yields_def)
qed

lemma yields_read:
  assumes "g s = Inr x" and "yields s (f x) r t"
  shows "yields s (bindS (readS g) f) r t"
  using assms by (simp add: bindS_def readS_def yields_def)

lemma yields_meta:
  assumes "gu_metas (naked s) m = Some x" and "m \<noteq> 0" and "yields s (f x) r t"
  shows "yields s (bindS (meta m) f) r t"
  unfolding meta_def by (rule yields_read) (use assms in \<open>simp_all add: derefC_def\<close>)

text \<open>Changing a control in a field that is no mutex.\<close>

lemma yields_upd_ctl:
  assumes "gu_ctrls (naked s) p = Some c0" and "p \<noteq> 0" and f: "\<And>c l. get_lock l (f c) = get_lock l c"
    and c1: "\<And>c. naked_ctl c = c0 \<Longrightarrow> naked_ctl (f c) = c1"
  shows "yields s (upd_ctl p f) () ((naked s)\<lparr>gu_ctrls := (gu_ctrls (naked s))(p \<mapsto> c1)\<rparr>)"
proof -
  obtain c where c: "gu_ctrls s p = Some c" "naked_ctl c = c0" using ctl_naked [OF assms(1)] .
  have "(\<lambda>q. map_option naked_ctl (((gu_ctrls s)(p \<mapsto> f c)) q)) = (\<lambda>q. map_option naked_ctl (gu_ctrls s q))(p \<mapsto> c1)"
    using c1 [OF c(2)] by (rule_tac ext) simp
  then have "naked (s\<lparr>gu_ctrls := (gu_ctrls s)(p \<mapsto> f c)\<rparr>) = (naked s)\<lparr>gu_ctrls := (gu_ctrls (naked s))(p \<mapsto> c1)\<rparr>"
    by (simp add: naked_def)
  moreover have "same_locks s (s\<lparr>gu_ctrls := (gu_ctrls s)(p \<mapsto> f c)\<rparr>)"
    using c f by (auto simp: same_locks_def)
  ultimately show ?thesis
    using c assms(2) by (simp add: yields_def upd_ctl_def bindS_def ctl_def readS_def derefC_def)
qed

text \<open>Changing anything but the controls.\<close>

lemma yields_upd:
  assumes "g s = Inr (x, s')" and "gu_ctrls s' = gu_ctrls s" and "gu_cpu s' = gu_cpu s" and "naked s' = t"
  shows "yields s g x t"
  using assms by (auto simp: yields_def same_locks_def)

lemma yields_upd_meta:
  assumes "gu_metas (naked s) m = Some x" and "m \<noteq> 0"
  shows "yields s (upd_meta m f) () ((naked s)\<lparr>gu_metas := (gu_metas (naked s))(m \<mapsto> f x)\<rparr>)"
  using assms
  by (intro yields_upd [where s' = "s\<lparr>gu_metas := (gu_metas s)(m \<mapsto> f x)\<rparr>"])
    (simp_all add: upd_meta_def bindS_def meta_def readS_def derefC_def naked_def)

text \<open>A critical section behaves like its body.\<close>

lemma yields_critical_at:
  assumes lk: "locks (Suc k) s" and p: "p \<noteq> 0" "gu_ctrls (naked s) p = Some c0"
  obtains s1 where "naked s1 = naked s" "locks k s1" "\<And>r t. yields s1 body r t \<Longrightarrow> yields s (critical l p body) r t"
proof -
  obtain c where c: "gu_ctrls s p = Some c" "naked_ctl c = c0" using ctl_naked [OF p(2)] .
  let ?cpu = "gu_cpu s" and ?m = "get_lock l c"
  have en: "enterable (Suc k) ?cpu ?m" using lk c by (auto simp: locks_def)
  then have la: "lockable ?cpu ?m" and cnt: "unat (mx_count ?m) + Suc k < 2 ^ 32" by (simp_all add: enterable_def)
  have suc: "unat (mx_count ?m + 1) = Suc (unat (mx_count ?m))"
    using cnt by (subst unat_add_small) simp_all
  then have nm: "mx_count ?m \<noteq> - 1" by auto
  note crit = mutex_critical [OF la nm]
  have ecount: "mx_count (entered ?cpu ?m) = mx_count ?m + 1" by (simp add: entered_def)
  then have nz: "mx_count (entered ?cpu ?m) \<noteq> 0" using suc by (metis nat.distinct(1) unat_0)
  let ?s1 = "s\<lparr>gu_cpu := ?cpu, gu_ctrls := (gu_ctrls s)(p \<mapsto> put_lock l (entered ?cpu ?m) c)\<rparr>"
  have step1: "lock_step mutex_lock l p s = Inr ((), ?s1)"
    using c p(1) crit(1) by (simp add: lock_step_def bindS_def ctl_def readS_def derefC_def)
  have n1: "naked ?s1 = naked s" using c by (auto simp: naked_def fun_eq_iff)
  have "enterable k ?cpu (entered ?cpu ?m)"
    using lockable_entered [OF la nm] la suc cnt unfolding enterable_def ecount
    by (auto simp: lockable_def entered_def split: option.splits)
  moreover have "enterable k ?cpu (get_lock l' c')" if "gu_ctrls s q = Some c'" for q c' l'
    using locks_Suc [OF lk] that by (auto simp: locks_def)
  ultimately have l1: "locks k ?s1"
    using lk c by (auto simp: locks_def get_put_lock split: if_splits)
  have step: "yields s (critical l p body) r t" if y: "yields ?s1 body r t" for r t
  proof -
    obtain s2 where s2: "body ?s1 = Inr (r, s2)" "naked s2 = t" "same_locks ?s1 s2"
      using y by (auto simp: yields_def)
    obtain c2 where c2: "gu_ctrls s2 p = Some c2" "\<forall>l'. bare_lock (get_lock l' c2) = bare_lock (get_lock l' (put_lock l (entered ?cpu ?m) c))"
      using s2(3) unfolding same_locks_def by (metis (mono_tags, lifting) fun_upd_same gui.select_convs(2) gui.surjective gui.update_convs(1,2))
    have "bare_lock (get_lock l c2) = bare_lock (entered ?cpu ?m)" using c2(2) by (simp add: get_put_lock)
    then have held: "get_lock l c2 = entered ?cpu ?m" using nz by (metis bare_lock_sel(2,3))
    have cpu2: "gu_cpu s2 = ?cpu" using s2(3) by (simp add: same_locks_def)
    let ?s3 = "s2\<lparr>gu_cpu := ?cpu, gu_ctrls := (gu_ctrls s2)(p \<mapsto> put_lock l (left (entered ?cpu ?m)) c2)\<rparr>"
    have step3: "lock_step mutex_unlock l p s2 = Inr ((), ?s3)"
      using c2 p(1) crit(2) held cpu2 by (simp add: lock_step_def bindS_def ctl_def readS_def derefC_def)
    have n3: "naked ?s3 = t" using s2(2) c2(1) cpu2 by (auto simp: naked_def fun_eq_iff)
    have "bare_lock (left (entered ?cpu ?m)) = bare_lock ?m"
      using la by (cases ?m) (auto simp: bare_lock_def left_def entered_def lockable_def split: option.splits)
    then have own: "bare_lock (get_lock l' (put_lock l (left (entered ?cpu ?m)) c2)) = bare_lock (get_lock l' c)" for l'
      using c2(2) by (simp add: get_put_lock)
    have "same_locks s ?s3"
      unfolding same_locks_def
    proof (intro conjI allI impI)
      show "gu_cpu ?s3 = gu_cpu s" by simp
    next
      fix q d assume q: "gu_ctrls s q = Some d"
      show "\<exists>c'. gu_ctrls ?s3 q = Some c' \<and> (\<forall>l'. bare_lock (get_lock l' c') = bare_lock (get_lock l' d))"
      proof (cases "q = p")
        case True
        then show ?thesis using q c own by simp
      next
        case False
        then show ?thesis using q s2(3) by (auto simp: same_locks_def)
      qed
    next
      fix q c' l' assume "gu_ctrls s q = None" "gu_ctrls ?s3 q = Some c'"
      then have "q \<noteq> p" "gu_ctrls ?s1 q = None" "gu_ctrls s2 q = Some c'" using c by (auto split: if_splits)
      then show "bare_lock (get_lock l' c') = mutex_create" using s2(3) unfolding same_locks_def by blast
    qed
    moreover have "critical l p body s = Inr (r, ?s3)"
      using step1 s2(1) step3 by (simp add: critical_def bindS_def retS_def)
    ultimately show ?thesis using n3 by (auto simp: yields_def)
  qed
  show ?thesis by (rule that [OF n1 l1 step])
qed

lemma yields_critical:
  assumes "locks (Suc k) s" and "p \<noteq> 0" "gu_ctrls (naked s) p = Some c0"
    and "\<And>s1. naked s1 = naked s \<Longrightarrow> locks k s1 \<Longrightarrow> yields s1 body r t"
  shows "yields s (critical l p body) r t"
proof -
  obtain s1 where "naked s1 = naked s" "locks k s1" "\<And>r t. yields s1 body r t \<Longrightarrow> yields s (critical l p body) r t"
    using yields_critical_at [OF assms(1-3)] by blast
  then show ?thesis using assms(4) by blast
qed

text \<open>\<open>gives s m r R\<close>: \<open>m\<close> returns \<open>r\<close> from \<open>s\<close>, and what it leaves, without its mutexes, satisfies \<open>R\<close>.\<close>

definition gives :: "gui \<Rightarrow> 'a act \<Rightarrow> 'a \<Rightarrow> (gui \<Rightarrow> bool) \<Rightarrow> bool" where
  "gives s m r R \<longleftrightarrow> (\<exists>t. yields s m r t \<and> R t)"

lemma gives_yields: "yields s m r t \<Longrightarrow> R t \<Longrightarrow> gives s m r R"
  by (auto simp: gives_def)

lemma givesE:
  assumes "gives s m r R" and "locks k s"
  obtains s' where "m s = Inr (r, s')" "same_locks s s'" "locks k s'" "R (naked s')"
  using assms locks_same unfolding gives_def yields_def by metis

lemma givesI: "m s = Inr (r, s') \<Longrightarrow> same_locks s s' \<Longrightarrow> R (naked s') \<Longrightarrow> gives s m r R"
  by (auto simp: gives_def yields_def)

lemma gives_ret: "R (naked s) \<Longrightarrow> gives s (retS x) x R"
  by (rule gives_yields [OF yields_ret [OF refl]])

lemma gives_bind:
  assumes "gives s m x R" and "locks k s" and "\<And>s1. R (naked s1) \<Longrightarrow> locks k s1 \<Longrightarrow> gives s1 (f x) r R'"
  shows "gives s (bindS m f) r R'"
proof -
  obtain s1 where s1: "m s = Inr (x, s1)" "same_locks s s1" "locks k s1" "R (naked s1)" using givesE [OF assms(1,2)] .
  obtain s2 where s2: "f x s1 = Inr (r, s2)" "same_locks s1 s2" "R' (naked s2)"
    using givesE [OF assms(3) [OF s1(4,3)] s1(3)] by blast
  show ?thesis by (rule givesI [of _ _ _ s2]) (use s1 s2 same_locks_trans in \<open>auto simp: bindS_def\<close>)
qed

text \<open>Reading.\<close>

lemma gives_pure: "m s = Inr (x, s) \<Longrightarrow> gives s (f x) r R \<Longrightarrow> gives s (bindS m f) r R"
  by (simp add: gives_def yields_def bindS_def)

lemma gives_then:
  assumes "gives s m x R" and "locks k s" and "\<And>s1. R (naked s1) \<Longrightarrow> locks k s1 \<Longrightarrow> gives s1 m' r R'"
  shows "gives s (thenS m m') r R'"
  unfolding thenS_def by (rule gives_bind [OF assms])

lemma gives_critical:
  assumes "locks (Suc k) s" and "p \<noteq> 0" "gu_ctrls (naked s) p = Some c0"
    and "\<And>s1. naked s1 = naked s \<Longrightarrow> locks k s1 \<Longrightarrow> gives s1 body r R"
  shows "gives s (critical l p body) r R"
proof -
  obtain s1 where "naked s1 = naked s" "locks k s1" "\<And>r t. yields s1 body r t \<Longrightarrow> yields s (critical l p body) r t"
    using yields_critical_at [OF assms(1-3)] by blast
  then show ?thesis using assms(4) unfolding gives_def by metis
qed

section \<open>Messages as bytes\<close>

lemma low_byte: "ucast (ucast w :: u8) + 256 * drop_bit 8 w = (w :: 'a::len word)" if "8 \<le> LENGTH('a)"
proof -
  have "ucast (ucast w :: u8) = take_bit 8 w"
    using that by (intro bit_word_eqI) (auto simp: bit_simps dest: bit_imp_le_length)
  then show ?thesis by (simp add: take_bit_eq_mod drop_bit_eq_div mod_mult_div_eq)
qed

lemma le_word_le_bytes [simp]:
  "le_word (le_bytes 4 (w :: u32)) = w" "le_word (le_bytes 2 (h :: u16)) = h"
proof -
  have top: "ucast (ucast (drop_bit 24 w) :: u8) = drop_bit 24 w"
    by (intro bit_word_eqI) (auto simp: bit_simps dest: bit_imp_le_length)
  have "le_word (le_bytes 4 w) = ucast (ucast w :: u8) + 256 * (ucast (ucast (drop_bit 8 w) :: u8)
      + 256 * (ucast (ucast (drop_bit 16 w) :: u8) + 256 * ucast (ucast (drop_bit 24 w) :: u8)))"
    by (simp add: le_bytes_def upt_rec)
  also have "\<dots> = w"
    using low_byte [of w] low_byte [of "drop_bit 8 w"] low_byte [of "drop_bit 16 w"] top by simp
  finally show "le_word (le_bytes 4 w) = w" .
  have toph: "ucast (ucast (drop_bit 8 h) :: u8) = drop_bit 8 h"
    by (intro bit_word_eqI) (auto simp: bit_simps dest: bit_imp_le_length)
  have "le_word (le_bytes 2 h) = ucast (ucast h :: u8) + 256 * ucast (ucast (drop_bit 8 h) :: u8)"
    by (simp add: le_bytes_def upt_rec)
  also have "\<dots> = h" using low_byte [of h] toph by simp
  finally show "le_word (le_bytes 2 h) = h" .
qed

lemma length_le_bytes [simp]: "length (le_bytes n w) = n"
  by (simp add: le_bytes_def)

lemma length_msg_union: "length (msg_union m) \<le> 20"
  by (cases m) auto

lemma message_bytes_eq: "message_bytes m = le_bytes 4 (msg_type m) @ msg_union m @ replicate (20 - length (msg_union m)) 0"
  using length_msg_union [of m] by (simp add: message_bytes_def sizeof_hj_message_def min_def)

lemma length_message_bytes [simp]: "length (message_bytes m) = 24"
  using length_msg_union [of m] by (simp add: message_bytes_eq)

lemma buf_get_skip: "length xs \<le> i \<Longrightarrow> buf_get (xs @ ys) i n = buf_get ys (i - length xs) n"
  by (simp add: buf_get_def)

lemma buf_get_head: "length xs = n \<Longrightarrow> buf_get (xs @ ys) 0 n = xs"
  by (simp add: buf_get_def)

lemma buf_get_all: "length xs = n \<Longrightarrow> buf_get xs 0 n = xs"
  by (simp add: buf_get_def)

lemma mouse_of_type [simp]: "mouse_of (mouse_type k) = k" "mouse_type k \<le> 4"
  by (cases k; simp add: mouse_of_def)+

lemma message_of_bytes [simp]: "message_of (message_bytes m) = Some m"
proof (cases m)
  case (HJ_MESSAGE_RESIZE x y fmt)
  then show ?thesis by (cases fmt) (simp_all add: message_bytes_eq message_of_def buf_get_skip buf_get_head buf_get_all Let_def)
next
  case (HJ_MESSAGE_REPAINT r gc)
  have "RECT (x1 r) (y1 r) (x2 r) (y2 r) = r" by (cases r) (simp add: RECT_def)
  then show ?thesis using HJ_MESSAGE_REPAINT
    by (simp add: message_bytes_eq message_of_def buf_get_skip buf_get_head buf_get_all Let_def)
qed (simp_all add: message_bytes_eq message_of_def buf_get_skip buf_get_head buf_get_all Let_def)

lemma rb_write_size:
  assumes inv: "rb_inv (c, rb)"
  shows "\<exists>n rb'. rb_get_write_size c rb = Inr (n, c, rb') \<and> rb_inv (c, rb')
     \<and> rb_contents (c, rb') = rb_contents (c, rb) \<and> rb_usable (c, rb') = rb_usable (c, rb)
     \<and> unat n = rb_usable (c, rb) - length (rb_contents (c, rb))"
proof -
  have ok: "ring_ok (rb_capacity rb) (rb_read_pointer rb) (rb_write_pointer rb) (rb_buffer rb)"
    and lk: "rb_locks_ok c rb"
    using inv by (simp_all add: rb_inv_def)
  obtain sl c1 rb1 where lock: "RB_LOCK c rb = Inr (sl, c1, rb1)" "rb_held c rb sl c1 rb1"
    using rb_lock_held [OF lk] by blast
  obtain rb3 where "RB_UNLOCK sl c1 rb1 = Inr (c, rb3)" "rb_locks_ok c rb3" "rb_same_data rb3 rb"
    using rb_held_unlock_same [OF lock(2)] by blast
  with lock(1) rb_held_data [OF lock(2)] rb_inv_same [of rb3 rb c] inv ring_free_unat [OF ok] length_ring_data_less [OF ok] show ?thesis
    by (simp add: rb_get_write_size_def Let_def) (simp add: rb_contents_def rb_usable_def)
qed

end
