(* ===== verification/MessageQueue.thy ===== *)
theory MessageQueue
  imports ControlLaws
begin

text \<open>
  The message queue of a control in deferred mode is a bounded first-in first-out queue of messages: the bytes in
  its ring buffer are those of the queued messages one after the other, and 511 of them fit.
\<close>

section \<open>Queued messages\<close>

definition queue_room :: nat where "queue_room = 511"

definition mailbox :: "gui \<Rightarrow> u32 \<Rightarrow> hj_message list \<Rightarrow> bool" where
  "mailbox s p ms \<longleftrightarrow> p \<noteq> 0 \<and> (\<exists>c q. gu_ctrls s p = Some c \<and> hc_type c = HJ_CONTROL_DEFERRED \<and> hc_queue c = Some q
     \<and> rb_inv (gu_cpu s, q) \<and> rb_usable (gu_cpu s, q) = 12287
     \<and> rb_contents (gu_cpu s, q) = concat (map message_bytes ms))"

text \<open>\<open>t\<close> is \<open>s\<close> with another queue in the control \<open>p\<close>.\<close>

definition queue_only :: "u32 \<Rightarrow> gui \<Rightarrow> gui \<Rightarrow> bool" where
  "queue_only p s t \<longleftrightarrow> (\<exists>c q. gu_ctrls s p = Some c \<and> t = s\<lparr>gu_ctrls := (gu_ctrls s)(p \<mapsto> c\<lparr>hc_queue := q\<rparr>)\<rparr>)"

lemma mailbox_naked [simp]: "mailbox (naked s) p ms = mailbox s p ms"
  by (auto simp: mailbox_def naked_ctrls)

lemma queue_only_trans: "queue_only p s t \<Longrightarrow> queue_only p t u \<Longrightarrow> queue_only p s u"
  unfolding queue_only_def by fastforce

lemma length_messages [simp]: "length (concat (map message_bytes ms)) = 24 * length ms"
  by (induction ms) simp_all

lemma mailbox_length: "mailbox s p ms \<Longrightarrow> length ms \<le> queue_room"
proof -
  assume "mailbox s p ms"
  then obtain q where q: "rb_inv (gu_cpu s, q)" "rb_usable (gu_cpu s, q) = 12287"
    "rb_contents (gu_cpu s, q) = concat (map message_bytes ms)" by (auto simp: mailbox_def)
  have "length (rb_contents (gu_cpu s, q)) < unat (rb_capacity q)"
    using q(1) by (auto simp: rb_inv_def rb_contents_def intro: length_ring_data_less)
  then show ?thesis using q(2,3) by (simp add: rb_usable_def queue_room_def)
qed

lemma yields_queue_step:
  assumes "gu_ctrls (naked s) p = Some c" and "p \<noteq> 0" and "hc_queue c = Some q"
    and "f (gu_cpu s) q = Inr (x, gu_cpu s, q')"
  shows "yields s (queue_step p f) x ((naked s)\<lparr>gu_ctrls := (gu_ctrls (naked s))(p \<mapsto> c\<lparr>hc_queue := Some q'\<rparr>)\<rparr>)"
proof -
  have put: "queue_step p f s = Inr (x, snd (projr (upd_ctl p (\<lambda>c. c\<lparr>hc_queue := Some q'\<rparr>) s)))"
    using assms by (auto simp: queue_step_def upd_ctl_def bindS_def ctl_def readS_def derefC_def naked_ctrls)
  have "yields s (upd_ctl p (\<lambda>c. c\<lparr>hc_queue := Some q'\<rparr>)) () ((naked s)\<lparr>gu_ctrls := (gu_ctrls (naked s))(p \<mapsto> c\<lparr>hc_queue := Some q'\<rparr>)\<rparr>)"
  proof (rule yields_upd_ctl [OF assms(1,2)])
    show "get_lock l (d\<lparr>hc_queue := Some q'\<rparr>) = get_lock l d" for d l by (cases l) simp_all
    show "naked_ctl (d\<lparr>hc_queue := Some q'\<rparr>) = c\<lparr>hc_queue := Some q'\<rparr>" if "naked_ctl d = c" for d
      using that by (auto simp: naked_ctl_def)
  qed
  then show ?thesis using put by (auto simp: yields_def)
qed

text \<open>Asking a queue for its sizes and changing it keep the control.\<close>

lemma mailbox_put:
  assumes "mailbox s p ms" and "gu_ctrls s p = Some c" and "rb_inv (gu_cpu s, q')"
    and "rb_usable (gu_cpu s, q') = 12287" and "rb_contents (gu_cpu s, q') = concat (map message_bytes ms')"
  shows "mailbox (s\<lparr>gu_ctrls := (gu_ctrls s)(p \<mapsto> c\<lparr>hc_queue := Some q'\<rparr>)\<rparr>) p ms'"
    "queue_only p s (s\<lparr>gu_ctrls := (gu_ctrls s)(p \<mapsto> c\<lparr>hc_queue := Some q'\<rparr>)\<rparr>)"
  using assms by (auto simp: mailbox_def queue_only_def)

lemma mailboxE:
  assumes "mailbox s p ms"
  obtains c q where "p \<noteq> 0" "gu_ctrls (naked s) p = Some c" "hc_type c = HJ_CONTROL_DEFERRED" "hc_queue c = Some q"
    "rb_inv (gu_cpu s, q)" "rb_usable (gu_cpu s, q) = 12287" "rb_contents (gu_cpu s, q) = concat (map message_bytes ms)"
  using assms by (auto simp: mailbox_def naked_ctrls)

definition steps_to :: "gui \<Rightarrow> 'a act \<Rightarrow> 'a \<Rightarrow> u32 \<Rightarrow> hj_message list \<Rightarrow> bool" where
  "steps_to s m r p ms' \<longleftrightarrow> (\<exists>t. yields s m r t \<and> queue_only p (naked s) t \<and> mailbox t p ms')"

lemma steps_toE:
  assumes "steps_to s m r p ms'" and "locks k s"
  obtains s' where "m s = Inr (r, s')" "same_locks s s'" "locks k s'" "queue_only p (naked s) (naked s')" "mailbox s' p ms'"
  using assms locks_same unfolding steps_to_def yields_def by (metis mailbox_naked)

lemma steps_to_bind:
  assumes "steps_to s m x p ms1" and "locks k s"
    and "\<And>s1. mailbox s1 p ms1 \<Longrightarrow> locks k s1 \<Longrightarrow> steps_to s1 (f x) r p ms'"
  shows "steps_to s (bindS m f) r p ms'"
proof -
  obtain s1 where s1: "m s = Inr (x, s1)" "same_locks s s1" "locks k s1" "queue_only p (naked s) (naked s1)" "mailbox s1 p ms1"
    using steps_toE [OF assms(1,2)] .
  obtain s2 where s2: "f x s1 = Inr (r, s2)" "same_locks s1 s2" "queue_only p (naked s1) (naked s2)" "mailbox s2 p ms'"
    using steps_toE [OF assms(3) [OF s1(5,3)] s1(3)] by blast
  show ?thesis using s1 s2 same_locks_trans queue_only_trans
    unfolding steps_to_def yields_def by (intro exI [of _ "naked s2"]) (auto simp: bindS_def)
qed

lemma steps_to_ret: "mailbox s p ms \<Longrightarrow> steps_to s (retS x) x p ms"
proof -
  assume m: "mailbox s p ms"
  then obtain c q where c: "gu_ctrls (naked s) p = Some c" "hc_queue c = Some q" by (auto elim: mailboxE)
  then have "(gu_ctrls (naked s))(p \<mapsto> c\<lparr>hc_queue := Some q\<rparr>) = gu_ctrls (naked s)" by (simp add: fun_upd_idem)
  then have "queue_only p (naked s) (naked s)" using c unfolding queue_only_def
    by (intro exI [of _ c] exI [of _ "Some q"]) simp
  then show ?thesis using m unfolding steps_to_def by (intro exI [of _ "naked s"]) (simp add: yields_ret)
qed

lemma steps_to_critical:
  assumes lk: "locks (Suc k) s" and m: "mailbox s p ms"
    and body: "\<And>s1. mailbox s1 p ms \<Longrightarrow> locks k s1 \<Longrightarrow> naked s1 = naked s \<Longrightarrow> steps_to s1 body r p ms'"
  shows "steps_to s (critical l p body) r p ms'"
proof -
  obtain c where c: "p \<noteq> 0" "gu_ctrls (naked s) p = Some c" using m by (auto elim: mailboxE)
  obtain s1 where s1: "naked s1 = naked s" "locks k s1" "\<And>r t. yields s1 body r t \<Longrightarrow> yields s (critical l p body) r t"
    using yields_critical_at [OF lk c] by blast
  have "mailbox s1 p ms" using m s1(1) by (metis mailbox_naked)
  then show ?thesis using body s1 unfolding steps_to_def by metis
qed

section \<open>Sending and taking\<close>

lemma queue_steps_to:
  assumes "mailbox s p ms"
    and "\<And>q. rb_inv (gu_cpu s, q) \<Longrightarrow> rb_usable (gu_cpu s, q) = 12287 \<Longrightarrow> rb_contents (gu_cpu s, q) = concat (map message_bytes ms) \<Longrightarrow>
      \<exists>q'. f (gu_cpu s) q = Inr (x, gu_cpu s, q') \<and> rb_inv (gu_cpu s, q') \<and> rb_usable (gu_cpu s, q') = 12287
        \<and> rb_contents (gu_cpu s, q') = concat (map message_bytes ms')"
  shows "steps_to s (queue_step p f) x p ms'"
proof -
  obtain c q where m: "p \<noteq> 0" "gu_ctrls (naked s) p = Some c" "hc_queue c = Some q" "rb_inv (gu_cpu s, q)"
    "rb_usable (gu_cpu s, q) = 12287" "rb_contents (gu_cpu s, q) = concat (map message_bytes ms)"
    using assms(1) by (auto elim: mailboxE)
  obtain q' where r: "f (gu_cpu s) q = Inr (x, gu_cpu s, q')" "rb_inv (gu_cpu s, q')"
    "rb_usable (gu_cpu s, q') = 12287" "rb_contents (gu_cpu s, q') = concat (map message_bytes ms')"
    using assms(2) [OF m(4-6)] by blast
  show ?thesis
    using yields_queue_step [where f = f and x = x and q' = q', OF m(2,1,3) r(1)] mailbox_put [of "naked s" p ms c q' ms'] assms(1) m(2) r(2-4)
    unfolding steps_to_def by auto
qed

lemma word_eq_of_nat: "unat (n :: u32) = k \<Longrightarrow> n = of_nat k"
  by auto

lemma size_step:
  "mailbox s p ms \<Longrightarrow> steps_to s (queue_step p rb_get_write_size) (of_nat (12287 - 24 * length ms)) p ms"
  using rb_write_size word_eq_of_nat by (intro queue_steps_to) (assumption, fastforce)

lemma avail_step:
  "mailbox s p ms \<Longrightarrow> steps_to s (queue_step p rb_get_read_size) (of_nat (24 * length ms)) p ms"
  using rb_read_size word_eq_of_nat by (intro queue_steps_to) (assumption, fastforce)

lemma store_step:
  assumes "mailbox s p ms" and "length ms < queue_room"
  shows "steps_to s (queue_step p (\<lambda>cpu q. rb_write cpu q (message_bytes x) (of_nat sizeof_hj_message))) S_OK p (ms @ [x])"
proof (rule queue_steps_to [OF assms(1)])
  fix q assume "rb_inv (gu_cpu s, q)" "rb_usable (gu_cpu s, q) = 12287" "rb_contents (gu_cpu s, q) = concat (map message_bytes ms)"
  then show "\<exists>q'. rb_write (gu_cpu s) q (message_bytes x) (of_nat sizeof_hj_message) = Inr (S_OK, gu_cpu s, q') \<and> rb_inv (gu_cpu s, q')
      \<and> rb_usable (gu_cpu s, q') = 12287 \<and> rb_contents (gu_cpu s, q') = concat (map message_bytes (ms @ [x]))"
    using rb_write_fits [of "gu_cpu s" q "message_bytes x" 24] assms(2) by (auto simp: queue_room_def sizeof_hj_message_def)
qed

lemma fetch_step:
  assumes "mailbox s p (x # ms)" and "length b = 24"
  shows "steps_to s (queue_step p (\<lambda>cpu q. bindR (rb_read cpu q b (of_nat sizeof_hj_message)) (\<lambda>(hr, b, cpu, q). Inr ((hr, b), cpu, q))))
    (S_OK, message_bytes x) p ms"
proof (rule queue_steps_to [OF assms(1)])
  fix q assume "rb_inv (gu_cpu s, q)" "rb_usable (gu_cpu s, q) = 12287" "rb_contents (gu_cpu s, q) = concat (map message_bytes (x # ms))"
  then show "\<exists>q'. bindR (rb_read (gu_cpu s) q b (of_nat sizeof_hj_message)) (\<lambda>(hr, b, cpu, q). Inr ((hr, b), cpu, q)) = Inr ((S_OK, message_bytes x), gu_cpu s, q')
      \<and> rb_inv (gu_cpu s, q') \<and> rb_usable (gu_cpu s, q') = 12287 \<and> rb_contents (gu_cpu s, q') = concat (map message_bytes ms)"
    using rb_read_ready [of "gu_cpu s" q 24 b] assms(2) by (auto simp: sizeof_hj_message_def buf_put_def)
qed

lemma steps_to_ctl:
  assumes "mailbox s p ms" and "\<And>c. gu_ctrls s p = Some c \<Longrightarrow> hc_type c = HJ_CONTROL_DEFERRED \<Longrightarrow> steps_to s (f c) r p ms'"
  shows "steps_to s (bindS (ctl p) f) r p ms'"
proof -
  obtain c where c: "p \<noteq> 0" "gu_ctrls s p = Some c" "hc_type c = HJ_CONTROL_DEFERRED" using assms(1) by (auto simp: mailbox_def)
  then show ?thesis using assms(2) [OF c(2,3)]
    by (simp add: steps_to_def yields_def bindS_def ctl_def readS_def derefC_def)
qed

lemma queue_message_deferred:
  assumes "locks 1 s" and "mailbox s p ms"
  shows "steps_to s (queue_message process p x) (if length ms < queue_room then S_OK else E_BUFFEROVERFLOW) p
    (if length ms < queue_room then ms @ [x] else ms)"
  unfolding queue_message_def
proof (rule steps_to_critical [where k = 0, OF _ assms(2)], goal_cases)
  case (2 s1)
  have n0: "unat (of_nat (12287 - 24 * length ms) :: u32) = 12287 - 24 * length ms" by (rule unat_of_nat_small) simp
  have n: "(of_nat (12287 - 24 * length ms) :: u32) < of_nat sizeof_hj_message \<longleftrightarrow> \<not> length ms < queue_room"
    using mailbox_length [OF assms(2)] by (simp only: word_less_nat_alt n0 sizeof_hj_message_def queue_room_def) (simp, arith)
  have rest: "steps_to s1 (bindS (queue_step p rb_get_write_size) (\<lambda>n. if n < of_nat sizeof_hj_message then retS E_BUFFEROVERFLOW
        else queue_step p (\<lambda>cpu q. rb_write cpu q (message_bytes x) (of_nat sizeof_hj_message))))
        (if length ms < queue_room then S_OK else E_BUFFEROVERFLOW) p (if length ms < queue_room then ms @ [x] else ms)"
  proof (rule steps_to_bind [OF size_step [OF 2(1)] 2(2)])
    fix s2 assume "mailbox s2 p ms"
    then show "steps_to s2 (if (of_nat (12287 - 24 * length ms) :: u32) < of_nat sizeof_hj_message then retS E_BUFFEROVERFLOW
        else queue_step p (\<lambda>cpu q. rb_write cpu q (message_bytes x) (of_nat sizeof_hj_message)))
        (if length ms < queue_room then S_OK else E_BUFFEROVERFLOW) p (if length ms < queue_room then ms @ [x] else ms)"
      unfolding n by (auto intro: steps_to_ret store_step)
  qed
  show ?case by (rule steps_to_ctl [OF 2(1)]) (use rest in \<open>simp only: control_type.distinct if_False\<close>)
qed (use assms in simp_all)

lemma hj_get_message_deferred:
  assumes "locks 1 s" and "mailbox s p ms" and "length b = 24"
  shows "steps_to s (hj_get_message p b) (case ms of [] \<Rightarrow> (E_BUFFERUNDERFLOW, b) | x # _ \<Rightarrow> (S_OK, message_bytes x)) p (tl ms)"
  unfolding hj_get_message_def
proof (rule steps_to_critical [where k = 0, OF _ assms(2)], goal_cases)
  case (2 s1)
  have n0: "unat (of_nat (24 * length ms) :: u32) = 24 * length ms"
    using mailbox_length [OF assms(2)] by (intro unat_of_nat_small) (simp add: queue_room_def)
  have n: "(of_nat (24 * length ms) :: u32) < of_nat sizeof_hj_message \<longleftrightarrow> ms = []"
    by (simp only: word_less_nat_alt n0 sizeof_hj_message_def) simp
  show ?case
  proof (rule steps_to_ctl [OF 2(1)], simp, rule steps_to_bind [OF avail_step [OF 2(1)] 2(2)])
    fix s2 assume "mailbox s2 p ms"
    then show "steps_to s2 (if (of_nat (24 * length ms) :: u32) < of_nat sizeof_hj_message then retS (E_BUFFERUNDERFLOW, b)
        else queue_step p (\<lambda>cpu q. bindR (rb_read cpu q b (of_nat sizeof_hj_message)) (\<lambda>(hr, b, cpu, q). Inr ((hr, b), cpu, q))))
        (case ms of [] \<Rightarrow> (E_BUFFERUNDERFLOW, b) | x # _ \<Rightarrow> (S_OK, message_bytes x)) p (tl ms)"
      unfolding n using assms(3) by (cases ms) (auto intro: steps_to_ret fetch_step)
  qed
qed (use assms in simp_all)

section \<open>Properties\<close>

datatype mail_op = Send hj_message | Take

text \<open>A run of calls on a control, with what each returns; \<open>process\<close> is for immediate controls.\<close>

fun mail_step :: "(u32 \<Rightarrow> hj_message \<Rightarrow> hresult act) \<Rightarrow> u32 \<Rightarrow> mail_op \<Rightarrow> (hresult \<times> hj_message option) act" where
  "mail_step process p (Send m) = bindS (queue_message process p m) (\<lambda>hr. retS (hr, None))"
| "mail_step process p Take =
     bindS (hj_get_message p (replicate sizeof_hj_message 0)) (\<lambda>(hr, b). retS (hr, if FAILED hr then None else message_of b))"

fun mail_run :: "(u32 \<Rightarrow> hj_message \<Rightarrow> hresult act) \<Rightarrow> u32 \<Rightarrow> mail_op list \<Rightarrow> (hresult \<times> hj_message option) list act" where
  "mail_run process p [] = retS []"
| "mail_run process p (x # xs) = bindS (mail_step process p x) (\<lambda>r. bindS (mail_run process p xs) (\<lambda>rs. retS (r # rs)))"

text \<open>What a bounded queue answers.\<close>

fun fifo_step :: "mail_op \<Rightarrow> hj_message list \<Rightarrow> (hresult \<times> hj_message option) \<times> hj_message list" where
  "fifo_step (Send m) ms = (if length ms < queue_room then ((S_OK, None), ms @ [m]) else ((E_BUFFEROVERFLOW, None), ms))"
| "fifo_step Take [] = ((E_BUFFERUNDERFLOW, None), [])"
| "fifo_step Take (m # ms) = ((S_OK, Some m), ms)"

fun fifo_run :: "mail_op list \<Rightarrow> hj_message list \<Rightarrow> (hresult \<times> hj_message option) list \<times> hj_message list" where
  "fifo_run [] ms = ([], ms)"
| "fifo_run (x # xs) ms = (case fifo_step x ms of (r, ms) \<Rightarrow> case fifo_run xs ms of (rs, ms) \<Rightarrow> (r # rs, ms))"

lemma mail_step_fifo:
  assumes "locks 1 s" and "mailbox s p ms"
  shows "steps_to s (mail_step process p x) (fst (fifo_step x ms)) p (snd (fifo_step x ms))"
proof (cases x)
  case (Send m)
  show ?thesis unfolding Send mail_step.simps
    by (rule steps_to_bind [OF queue_message_deferred [OF assms] assms(1)]) (auto intro: steps_to_ret)
next
  case Take
  show ?thesis unfolding Take mail_step.simps
    by (rule steps_to_bind [OF hj_get_message_deferred [OF assms] assms(1)], simp add: sizeof_hj_message_def)
      (cases ms; auto intro: steps_to_ret)
qed

lemma mail_run_fifo:
  "locks 1 s \<Longrightarrow> mailbox s p ms \<Longrightarrow> steps_to s (mail_run process p ops) (fst (fifo_run ops ms)) p (snd (fifo_run ops ms))"
proof (induction ops arbitrary: s ms)
  case Nil
  then show ?case by (simp add: steps_to_ret)
next
  case (Cons x xs)
  obtain r ms1 where st: "fifo_step x ms = (r, ms1)" by fastforce
  obtain rs ms2 where rn: "fifo_run xs ms1 = (rs, ms2)" by fastforce
  have one: "steps_to s (mail_step process p x) r p ms1" using mail_step_fifo [OF Cons.prems, of process x] st by simp
  have all: "steps_to s1 (mail_run process p xs) rs p ms2" if "locks 1 s1" "mailbox s1 p ms1" for s1
    using Cons.IH [OF that] rn by simp
  show ?case unfolding mail_run.simps
    by (rule steps_to_bind [OF one Cons.prems(1)], rule steps_to_bind [OF all])
      (auto simp: st rn intro: steps_to_ret)
qed

text \<open>
  C17. Whatever messages threads send to a control in deferred mode and take from it, the control answers as a queue of
  511 messages: a message is accepted as long as there is room and refused with an overflow otherwise, every
  accepted message comes out unchanged and in order, taking from an empty queue is an underflow, no call faults or
  panics, and nothing but the queue is left changed (locks are as free as before).\<close>

theorem message_queue_fifo:
  assumes "locks 1 s" and "mailbox s p ms"
  shows "\<exists>s'. mail_run process p ops s = Inr (fst (fifo_run ops ms), s') \<and> mailbox s' p (snd (fifo_run ops ms))
    \<and> queue_only p (naked s) (naked s') \<and> locks 1 s'"
  using mail_run_fifo [OF assms, of process ops] assms(1) by (metis steps_toE)

text \<open>A window with an empty queue, in a window system that has nothing else.\<close>

definition empty_gui :: gui where
  "empty_gui = \<lparr> gu_cpu = \<lparr> cpu_if = True, cpu_current = Some (1, 1) \<rparr>, gu_ctrls = Map.empty, gu_metas = Map.empty, gu_desktops = Map.empty, gu_windows = Map.empty,
     gu_buttons = Map.empty, gu_taskpanels = Map.empty, gu_events = Map.empty, gu_nodes = Map.empty, gu_gfx = \<lparr>bmps = Map.empty, gcs = Map.empty, graphics_drv = 0, screen_surf = 0\<rparr>,
     gu_fresh = [], gu_blocks = (\<lambda>_. None), gu_junk = 0, gu_draw_time = [] \<rparr>"

definition gui_example :: gui where
  "gui_example = empty_gui\<lparr>gu_ctrls := [0x1000 \<mapsto> zero_control\<lparr>hc_inst := (\<lambda>_. 0x1000), hc_queue :=
     create_ring_buffer True (Some (replicate 12288 0)) MESSAGE_QUEUE_SIZE RING_BUFFER_LOCK_NONE\<rparr>]\<rparr>"

lemma get_lock_fresh [simp]: "get_lock l (c\<lparr>hc_queue := q\<rparr>) = get_lock l c"
  "get_lock l (c\<lparr>hc_inst := i\<rparr>) = get_lock l c" "get_lock l zero_control = mutex_create"
  by (cases l; simp add: zero_control_def)+

lemma locks_gui_example: "locks 5 gui_example"
  by (simp add: locks_def gui_example_def empty_gui_def enterable_def lockable_def)
    (simp add: mutex_create_def spinlock_create_def)

lemma mailbox_gui_example: "mailbox gui_example 0x1000 []"
    by (simp add: mailbox_def gui_example_def empty_gui_def zero_control_def create_ring_buffer_def MESSAGE_QUEUE_SIZE_def sizeof_hj_message_def
      rb_inv_def rb_locks_ok_def ring_ok_def rb_usable_def rb_contents_def ring_data_def)

lemma message_queue_fifo_witness:
  "\<exists>s'. mail_run (\<lambda>p m. retS S_OK) 0x1000 [Send HJ_MESSAGE_QUIT, Take, Take] gui_example
      = Inr ([(S_OK, None), (S_OK, Some HJ_MESSAGE_QUIT), (E_BUFFERUNDERFLOW, None)], s') \<and> mailbox s' 0x1000 []"
proof -
  have "locks 1 gui_example" using locks_mono [OF locks_gui_example] by simp
  then show ?thesis
    using mailbox_gui_example message_queue_fifo [where s = gui_example and p = "0x1000" and ms = "[]" and process = "\<lambda>p m. retS S_OK"
        and ops = "[Send HJ_MESSAGE_QUIT, Take, Take]"]
    by (auto simp: queue_room_def)
qed

end
