(* ===== verification/Widgets.thy ===== *)
theory Widgets
  imports Controls
begin

unbundle bit_operations_syntax

text \<open>
  The controls inside a window and the task panel: \<^verbatim>\<open>henjin_window.c\<close>, \<^verbatim>\<open>henjin_button.c\<close> and
  \<^verbatim>\<open>henjin_taskpanel.c\<close>. \<open>Q\<close> is \<^verbatim>\<open>hj_queue_message\<close> and \<open>F\<close> calls the feedback routine of a parent; they are tied
  to the definitions here in \<open>Henjin\<close>.
\<close>

type_synonym feedback = "feedback_fn \<Rightarrow> u32 \<Rightarrow> u32 \<Rightarrow> NXGI_RECT \<Rightarrow> hresult act"

section \<open>Rerouting the mouse\<close>

text \<open>The child under the point: the last one from index 1 on whose bounds hold it. The body of the loop, whose
  result is the index found so far.\<close>

definition hit_child :: "u32 \<Rightarrow> NXGI_POINT \<Rightarrow> u32 option \<Rightarrow> u32 \<Rightarrow> (hresult \<times> u32 option) act" where
  "hit_child p pt k i =
     bindS (hj_get_child_at p i) (\<lambda>(hr, _).
     if FAILED hr then retS (hr, k)
     else bindS (hj_get_child_boundsrect p i) (\<lambda>rect.
       retS (S_OK, if nxgig_point_in_rect pt rect then Some i else k)))"

text \<open>\<^verbatim>\<open>desktop_dispatch_mouse_messages\<close>, which \<^verbatim>\<open>window_dispatch_mouse_message\<close> repeats: the message goes to the
  child, with the position relative to it, and whether there is one is the second result.\<close>

definition dispatch_mouse :: "sender \<Rightarrow> u32 \<Rightarrow> mouse_message \<Rightarrow> u16 \<Rightarrow> u16 \<Rightarrow> u32 \<Rightarrow> (hresult \<times> bool) act" where
  "dispatch_mouse Q p kind x y button =
     bindS (each_child (hit_child p (POINT (ucast x) (ucast y))) p 1 None) (\<lambda>(hr, k).
     if FAILED hr then retS (hr, k \<noteq> None)
     else case k of
       None \<Rightarrow> retS (S_OK, False)
     | Some k \<Rightarrow>
         bindS (hj_get_child_at p k) (\<lambda>(hr, c).
         case c of
           None \<Rightarrow> retS (hr, True)
         | Some c \<Rightarrow>
             bindS (Q (cm_control c) (Mouse_message kind (x - ucast (px (cm_pos c))) (y - ucast (py (cm_pos c))) button))
               (\<lambda>hr. retS (if FAILED hr then hr else S_OK, True))))"

section \<open>Windows\<close>

definition wnd_at :: "u32 \<Rightarrow> hj_window act" where
  "wnd_at p = readS (\<lambda>s. derefC (gu_windows s) p)"

definition window_dispatch_mouse_message ::
  "sender \<Rightarrow> u32 \<Rightarrow> mouse_message \<Rightarrow> u16 \<Rightarrow> u16 \<Rightarrow> u32 \<Rightarrow> (hresult \<times> bool) act" where
  "window_dispatch_mouse_message Q wnd kind x y button = dispatch_mouse Q wnd kind x y button"

definition window_message_dispatcher :: "sender \<Rightarrow> u32 \<Rightarrow> hj_message \<Rightarrow> (hresult \<times> bool) act" where
  "window_message_dispatcher Q ctrl msg =
     bindS (HJ_CAST ctrl HJ_CLASS_WINDOW) (\<lambda>wnd.
     case msg of
       Mouse_message kind x y b \<Rightarrow> window_dispatch_mouse_message Q wnd kind x y b
     | _ \<Rightarrow> retS (S_OK, False))"

text \<open>Repainting the child \<open>i\<close>.\<close>

definition window_repaint_child :: "sender \<Rightarrow> u32 \<Rightarrow> u32 \<Rightarrow> NXGI_RECT \<Rightarrow> unit \<Rightarrow> u32 \<Rightarrow> (hresult \<times> unit) act" where
  "window_repaint_child Q wnd gc clip_rect u i =
     bindS (hj_get_child_at wnd i) (\<lambda>(hr, c).
     case c of
       None \<Rightarrow> retS (hr, ())
     | Some c \<Rightarrow>
         bindS (hj_get_child_boundsrect wnd i) (\<lambda>br.
         if nxgig_rect_intersect br clip_rect
         then
           let cr = nxgig_rect_offset br (POINT (- x1 br) (- y1 br)) in
           thenS (gfx (nxgi_set_offset gc (p1 br)))
           (thenS (gfx (nxgi_set_clip_rect gc br))
           (bindS (hj_control_invalidate_rect2 Q (cm_control c) cr gc) (\<lambda>hr. retS (hr, ()))))
         else retS (S_OK, ())))"

definition window_repaint :: "sender \<Rightarrow> feedback \<Rightarrow> u32 \<Rightarrow> NXGI_RECT \<Rightarrow> hresult act" where
  "window_repaint Q F wnd clip_rect =
     bindS (hj_control_get_gc wnd) (\<lambda>gc.
     thenS (gfx (nxgi_set_offset gc (POINT 0 0)))
     (thenS (gfx (nxgi_set_clip_rect gc clip_rect))
     (thenS (gfx (nxgi_set_color gc (COLOR 220 220 220 255)))
     (bindS (wnd_at wnd) (\<lambda>w.
      thenS (gfx (nxgi_fill_rect gc (wn_bounds_rect w)))
      (bindS (each_child (window_repaint_child Q wnd gc clip_rect) wnd 0 ()) (\<lambda>(hr, _).
       if FAILED hr then retS hr
       else thenS (hj_control_request_parent_repaint F wnd (Some clip_rect)) (retS S_OK))))))))"

definition window_resize :: "u32 \<Rightarrow> NXGI_SIZE \<Rightarrow> NXGI_FORMAT \<Rightarrow> hresult act" where
  "window_resize wnd new_size pix_fmt =
     okS (hj_control_realloc_surface wnd new_size pix_fmt)
     (bindS (wnd_at wnd) (\<lambda>w s. Inr (S_OK, s\<lparr>gu_windows := (gu_windows s)(wnd \<mapsto>
        w\<lparr>wn_bounds_rect := RECT 0 0 (sz_width new_size) (sz_height new_size)\<rparr>)\<rparr>)))"

text \<open>\<open>app\<close> calls the message handler of the application.\<close>

definition window_message_handler ::
  "sender \<Rightarrow> feedback \<Rightarrow> (app_handler \<Rightarrow> u32 \<Rightarrow> hj_message \<Rightarrow> hresult act) \<Rightarrow> u32 \<Rightarrow> hj_message \<Rightarrow> hresult act" where
  "window_message_handler Q F app this msg =
     bindS (HJ_CAST this HJ_CLASS_WINDOW) (\<lambda>wnd.
     bindS (case msg of
              HJ_MESSAGE_REPAINT rect gc \<Rightarrow> window_repaint Q F wnd rect
            | HJ_MESSAGE_RESIZE x y fmt \<Rightarrow> window_resize wnd (SIZE (ucast x) (ucast y)) fmt
            | _ \<Rightarrow> retS S_FALSE) (\<lambda>hr.
     if FAILED hr then retS hr
     else bindS (wnd_at wnd) (\<lambda>w. case wn_handler w of None \<Rightarrow> retS hr | Some h \<Rightarrow> app h this msg)))"

text \<open>\<^verbatim>\<open>window_receive_feedback\<close>, which \<^verbatim>\<open>desktop_receive_feedback\<close> repeats: the part of the child that changed is
  repainted.\<close>

definition receive_feedback :: "sender \<Rightarrow> u32 \<Rightarrow> u32 \<Rightarrow> NXGI_RECT \<Rightarrow> hresult act" where
  "receive_feedback Q this sender rect =
     bindS (hj_child_find this sender) (\<lambda>i.
     if i = - 1 then retS E_FAIL
     else bindS (hj_get_child_clientrect this i) (\<lambda>cr.
       hj_control_invalidate_rect Q this (nxgig_rect_offset rect (p1 cr))))"

definition window_receive_feedback :: "sender \<Rightarrow> u32 \<Rightarrow> u32 \<Rightarrow> NXGI_RECT \<Rightarrow> hresult act" where
  "window_receive_feedback Q this sender rect = receive_feedback Q this sender rect"

text \<open>A new object of a class: a control at \<open>p\<close> with the table for casts, which has the object, the control and the
  class itself.\<close>

definition new_object :: "u32 \<Rightarrow> hj_class \<Rightarrow> hj_class \<Rightarrow> hj_control" where
  "new_object p class self =
     zero_control\<lparr>hc_class := class, hc_inst := (\<lambda>k. if k = HJ_CLASS_OBJECT \<or> k = HJ_CLASS_CONTROL \<or> k = self then p else 0)\<rparr>"

definition put_object :: "u32 \<Rightarrow> hj_control \<Rightarrow> unit act" where
  "put_object p c s = Inr ((), s\<lparr>gu_ctrls := (gu_ctrls s)(p \<mapsto> c)\<rparr>)"

definition hj_create_window :: "app_handler option \<Rightarrow> u32 act" where
  "hj_create_window msg_handler =
     bindS kallocS (\<lambda>wnd.
     if wnd = 0 then retS 0
     else
       thenS (put_object wnd (new_object wnd HJ_CLASS_WINDOW HJ_CLASS_WINDOW))
       (bindS (hj_control_init wnd HJ_CONTROL_DEFERRED Window_message_handler (Some Window_message_dispatcher)) (\<lambda>hr.
        if FAILED hr then retS 0
        else
          thenS (\<lambda>s. Inr ((), s\<lparr>gu_windows := (gu_windows s)(wnd \<mapsto>
                   \<lparr> wn_bounds_rect = RECT 0 0 0 0, wn_handler = msg_handler \<rparr>)\<rparr>))
          (thenS (upd_ctl wnd (\<lambda>c. c\<lparr>hc_on_add_child := Some Window_on_add_child\<rparr>))
          (retS wnd)))))"

section \<open>Buttons\<close>

definition btn_at :: "u32 \<Rightarrow> hj_button act" where
  "btn_at p = readS (\<lambda>s. derefC (gu_buttons s) p)"

definition upd_btn :: "u32 \<Rightarrow> (hj_button \<Rightarrow> hj_button) \<Rightarrow> unit act" where
  "upd_btn p f = bindS (btn_at p) (\<lambda>b s. Inr ((), s\<lparr>gu_buttons := (gu_buttons s)(p \<mapsto> f b)\<rparr>))"

definition button_repaint :: "u32 \<Rightarrow> u32 \<Rightarrow> hresult act" where
  "button_repaint this gc =
     bindS (btn_at this) (\<lambda>b.
     let r = bt_bounds_rect b; r = (if bt_down b then nxgig_rect_offset r (POINT 0 (RECT_HEIGHT r)) else r) in
     thenS (critical Surface_lock this (bindS (ctl this) (\<lambda>c. gfx (nxgi_bitblt gc (POINT 0 0) (hc_surface c) r))))
     (retS S_OK))"

text \<open>Setting the font of a context to the system font in a colour.\<close>

definition set_system_font :: "u32 \<Rightarrow> NXGI_COLOR \<Rightarrow> hresult act" where
  "set_system_font gc color =
     bindS (readS (\<lambda>s. FONT_PARAMS (gu_junk s) ''System'' 1 0 color)) (\<lambda>f. gfx (nxgi_set_font gc f))"

abbreviation draw_line_in :: "u32 \<Rightarrow> u32 \<Rightarrow> u32 \<Rightarrow> u32 \<Rightarrow> u32 \<Rightarrow> hresult act" where
  "draw_line_in gc xa ya xb yb \<equiv> gfx_loop (nxgi_draw_line gc xa ya xb yb)"

text \<open>The two glyphs of a button, released above and pressed below.\<close>

definition draw_upper_glyph :: "u32 \<Rightarrow> hj_color_preset \<Rightarrow> bytes \<Rightarrow> NXGI_RECT \<Rightarrow> unit act" where
  "draw_upper_glyph gc theme caption glyph_rect =
     thenS (gfx (nxgi_set_color gc (window_color theme HJ_COLOR_MAIN)))
     (thenS (gfx (nxgi_fill_rect gc (nxgig_rect_inflate glyph_rect (- 1))))
     (thenS (gfx (nxgi_set_color gc (window_color theme HJ_COLOR_LIGHT)))
     (thenS (draw_line_in gc (x1 glyph_rect + 1) (y1 glyph_rect + 1) (x2 glyph_rect - 1) (x1 glyph_rect + 1))
     (thenS (draw_line_in gc (x1 glyph_rect + 1) (y1 glyph_rect + 1) (x1 glyph_rect + 1) (y2 glyph_rect - 1))
     (thenS (gfx (nxgi_set_color gc (window_color theme HJ_COLOR_DARK)))
     (thenS (gfx_loop (nxgi_draw_rect gc glyph_rect))
     (thenS (set_system_font gc (text_color theme HJ_COLOR_MAIN))
     (thenS (gfx (nxgi_draw_aligned_text gc (nxgig_rect_inflate glyph_rect (- 3)) NXGI_HALIGN_CENTER NXGI_VALIGN_MIDDLE caption))
     (retS ())))))))))"

definition draw_lower_glyph :: "u32 \<Rightarrow> hj_color_preset \<Rightarrow> bytes \<Rightarrow> NXGI_RECT \<Rightarrow> unit act" where
  "draw_lower_glyph gc theme caption glyph_rect =
     thenS (gfx (nxgi_set_color gc (window_color theme HJ_COLOR_MAIN)))
     (thenS (gfx (nxgi_fill_rect gc (nxgig_rect_inflate glyph_rect (- 1))))
     (thenS (gfx (nxgi_set_color gc (window_color theme HJ_COLOR_LIGHT)))
     (thenS (draw_line_in gc (x2 glyph_rect - 2) (y1 glyph_rect + 1) (x2 glyph_rect - 2) (y2 glyph_rect - 2))
     (thenS (draw_line_in gc (x1 glyph_rect + 1) (y2 glyph_rect - 2) (x2 glyph_rect - 2) (y2 glyph_rect - 2))
     (thenS (gfx (nxgi_set_color gc (window_color theme HJ_COLOR_DARK)))
     (thenS (gfx_loop (nxgi_draw_rect gc glyph_rect))
     (thenS (set_system_font gc (text_color theme HJ_COLOR_MAIN))
     (thenS (gfx (nxgi_draw_aligned_text gc (nxgig_rect_offset (nxgig_rect_inflate glyph_rect (- 3)) (POINT 1 1))
                    NXGI_HALIGN_CENTER NXGI_VALIGN_MIDDLE caption))
     (retS ())))))))))"

definition button_update_backbuffer :: "feedback \<Rightarrow> u32 \<Rightarrow> hresult act" where
  "button_update_backbuffer F this =
     thenS (critical Surface_lock this
       (bindS (hj_control_get_gc this) (\<lambda>gc.
        bindS (btn_at this) (\<lambda>b.
        let glyph_rect = bt_bounds_rect b in
        if gc = 0 then retS ()
        else bindS (ctl this) (\<lambda>c.
          thenS (draw_upper_glyph gc (hc_theme c) (bt_caption b) glyph_rect)
          (draw_lower_glyph gc (hc_theme c) (bt_caption b) (nxgig_rect_offset glyph_rect (POINT 0 (RECT_HEIGHT glyph_rect)))))))))
     (okS (hj_control_request_parent_repaint F this None) (retS S_OK))"

text \<open>\<^verbatim>\<open>strcpy\<close> into the 256 bytes of the caption.\<close>

definition set_caption :: "u32 \<Rightarrow> bytes \<Rightarrow> unit act" where
  "set_caption this caption = (if length caption < 256 then upd_btn this (\<lambda>b. b\<lparr>bt_caption := caption\<rparr>) else failS BadAccess)"

definition hj_create_button :: "u32 act" where
  "hj_create_button =
     bindS kallocS (\<lambda>btn.
     if btn = 0 then retS 0
     else
       thenS (put_object btn (new_object btn HJ_CLASS_BUTTON HJ_CLASS_BUTTON))
       (thenS (\<lambda>s. Inr ((), s\<lparr>gu_buttons := (gu_buttons s)(btn \<mapsto>
                 \<lparr> bt_bounds_rect = RECT 0 0 0 0, bt_down = False, bt_caption = [] \<rparr>)\<rparr>))
       (bindS (hj_control_init btn HJ_CONTROL_IMMEDIATE Button_message_handler None) (\<lambda>hr.
        if FAILED hr then retS 0
        else thenS (set_caption btn (map of_char ''Button'')) (retS btn)))))"

definition hj_btn_set_caption :: "feedback \<Rightarrow> u32 \<Rightarrow> bytes \<Rightarrow> hresult act" where
  "hj_btn_set_caption F b caption = thenS (set_caption b caption) (button_update_backbuffer F b)"

definition hj_btn_get_caption :: "u32 \<Rightarrow> (hresult \<times> bytes) act" where
  "hj_btn_get_caption b = bindS (btn_at b) (\<lambda>x. retS (S_OK, bt_caption x))"

definition button_resize :: "feedback \<Rightarrow> u32 \<Rightarrow> u32 \<Rightarrow> u32 \<Rightarrow> NXGI_FORMAT \<Rightarrow> hresult act" where
  "button_resize F this x y fmt =
     critical Surface_lock this
       (okS (hj_control_realloc_surface this (SIZE x (y * 2)) fmt)
       (thenS (critical Property_lock this (upd_ctl this (\<lambda>c. c\<lparr>hc_size := SIZE x y\<rparr>)))
       (thenS (upd_btn this (\<lambda>b. b\<lparr>bt_bounds_rect := RECT 0 0 x y\<rparr>))
       (button_update_backbuffer F this))))"

definition button_mouse_down :: "feedback \<Rightarrow> u32 \<Rightarrow> u32 \<Rightarrow> hresult act" where
  "button_mouse_down F this btn =
     (if btn \<noteq> HJ_MOUSE_BUTTON_LEFT then retS S_OK
      else thenS (upd_btn this (\<lambda>b. b\<lparr>bt_down := True\<rparr>)) (hj_control_request_parent_repaint F this None))"

definition button_mouse_up :: "feedback \<Rightarrow> u32 \<Rightarrow> u32 \<Rightarrow> hresult act" where
  "button_mouse_up F this btn =
     (if btn \<noteq> HJ_MOUSE_BUTTON_LEFT then retS S_OK
      else thenS (upd_btn this (\<lambda>b. b\<lparr>bt_down := False\<rparr>)) (hj_control_request_parent_repaint F this None))"

definition button_message_handler :: "feedback \<Rightarrow> u32 \<Rightarrow> hj_message \<Rightarrow> hresult act" where
  "button_message_handler F this msg =
     bindS (HJ_CAST this HJ_CLASS_BUTTON) (\<lambda>b.
     case msg of
       HJ_MESSAGE_REPAINT rect gc \<Rightarrow> button_repaint b gc
     | HJ_MESSAGE_RESIZE x y fmt \<Rightarrow> button_resize F b (ucast x) (ucast y) fmt
     | Mouse_message HJ_MESSAGE_MOUSE_DOWN x y button \<Rightarrow> button_mouse_down F b button
     | Mouse_message HJ_MESSAGE_MOUSE_UP x y button \<Rightarrow> button_mouse_up F b button
     | _ \<Rightarrow> retS S_FALSE)"

section \<open>The task panel\<close>

definition GUI_BOXTHINGY_WIDTH :: i32 where "GUI_BOXTHINGY_WIDTH = 10"
definition GUI_TIMEBOX_WIDTH :: i32 where "GUI_TIMEBOX_WIDTH = 60"

definition pan_at :: "u32 \<Rightarrow> hj_taskpanel act" where
  "pan_at p = readS (\<lambda>s. derefC (gu_taskpanels s) p)"

definition taskpane_set_text_color :: "u32 \<Rightarrow> NXGI_COLOR \<Rightarrow> hresult act" where
  "taskpane_set_text_color this color = bindS (ctl this) (\<lambda>c. set_system_font (hc_gc c) color)"

text \<open>Lines in a colour of the theme.\<close>

definition colored_line :: "u32 \<Rightarrow> NXGI_COLOR \<Rightarrow> i32 \<Rightarrow> i32 \<Rightarrow> i32 \<Rightarrow> i32 \<Rightarrow> hresult act" where
  "colored_line gc color xa ya xb yb = thenS (gfx (nxgi_set_color gc color)) (draw_line_in gc xa ya xb yb)"

definition taskpan_repaint :: "u32 \<Rightarrow> NXGI_RECT \<Rightarrow> hresult act" where
  "taskpan_repaint this clip_rect =
     bindS (HJ_CAST this HJ_CLASS_CONTROL) (\<lambda>control.
     bindS (hj_control_get_gc control) (\<lambda>gc.
     bindS (pan_at this) (\<lambda>p.
     let br = tp_bounds_rect p in
     bindS (hj_control_get_theme this) (\<lambda>(_, theme).
     let mainc = window_color theme HJ_COLOR_MAIN; darker = window_color theme HJ_COLOR_DARKER;
         box_rect = RECT (x2 br - GUI_BOXTHINGY_WIDTH) (y1 br) (x2 br) (y2 br);
         time_box = RECT (x1 box_rect - GUI_TIMEBOX_WIDTH) (y1 br) (x2 box_rect - GUI_BOXTHINGY_WIDTH) (y2 br) in
     thenS (gfx (nxgi_set_clip_rect gc clip_rect))
     (thenS (gfx (nxgi_set_color gc (window_color theme HJ_COLOR_DARK)))
     (thenS (gfx (nxgi_fill_rect gc br))
     (thenS (colored_line gc mainc (x1 br) (y1 br + 1) (x2 br) (y1 br + 1))
     (thenS (colored_line gc darker (x1 br) (y1 br) (x2 br) (y1 br))
     (thenS (colored_line gc mainc (x1 box_rect + 1) (y1 box_rect + 1) (x1 box_rect + 1) (y2 box_rect - 1))
     (thenS (colored_line gc darker (x1 box_rect) (y1 box_rect + 1) (x1 box_rect) (y2 box_rect - 1))
     (thenS (taskpane_set_text_color this (text_color theme HJ_COLOR_DARK))
     (thenS (gfx (nxgi_draw_aligned_text gc time_box NXGI_HALIGN_CENTER NXGI_VALIGN_MIDDLE (map of_char ''12:00'')))
     (thenS (colored_line gc mainc (x1 time_box + 1) (y1 time_box + 10) (x1 time_box + 1) (y2 time_box - 5))
     (thenS (colored_line gc darker (x1 time_box) (y1 time_box + 10) (x1 time_box) (y2 time_box - 5))
     (thenS (set_system_font gc (text_color theme HJ_COLOR_MAIN))
     (thenS (gfx (nxgi_draw_text gc (POINT 10 10) (map of_char ''START'')))
     (retS S_OK)))))))))))))))))"

definition taskpan_resize :: "sender \<Rightarrow> u32 \<Rightarrow> NXGI_SIZE \<Rightarrow> NXGI_FORMAT \<Rightarrow> hresult act" where
  "taskpan_resize Q this new_size pixel_format =
     okS (hj_control_realloc_surface this new_size pixel_format)
     (bindS (pan_at this) (\<lambda>p.
      let r = RECT 0 0 (sz_width new_size) (sz_height new_size) in
      thenS (\<lambda>s. Inr ((), s\<lparr>gu_taskpanels := (gu_taskpanels s)(this \<mapsto> p\<lparr>tp_bounds_rect := r\<rparr>)\<rparr>))
      (okS (hj_control_invalidate_rect Q this r) (retS S_OK))))"

definition taskpan_message_handler :: "sender \<Rightarrow> u32 \<Rightarrow> hj_message \<Rightarrow> hresult act" where
  "taskpan_message_handler Q this msg =
     bindS (HJ_CAST this HJ_CLASS_TASKPANEL) (\<lambda>p.
     case msg of
       HJ_MESSAGE_REPAINT rect gc \<Rightarrow> taskpan_repaint p rect
     | HJ_MESSAGE_RESIZE x y fmt \<Rightarrow> taskpan_resize Q p (SIZE (ucast x) (ucast y)) fmt
     | _ \<Rightarrow> retS S_FALSE)"

definition hj_create_taskpanel :: "u32 act" where
  "hj_create_taskpanel =
     bindS kallocS (\<lambda>p.
     if p = 0 then retS 0
     else
       thenS (put_object p (new_object p HJ_CLASS_DESKTOP HJ_CLASS_TASKPANEL))
       (thenS (\<lambda>s. Inr ((), s\<lparr>gu_taskpanels := (gu_taskpanels s)(p \<mapsto> \<lparr> tp_bounds_rect = RECT 0 0 0 0 \<rparr>)\<rparr>))
       (bindS (hj_control_init p HJ_CONTROL_IMMEDIATE Taskpan_message_handler None) (\<lambda>hr.
        if FAILED hr then retS 0 else retS p))))"

end
