(* ===== verification/Desktop.thy ===== *)
theory Desktop
  imports Widgets
begin

unbundle bit_operations_syntax

text \<open>
  \<^verbatim>\<open>henjin_desktop.c\<close>: the desktop composes the surfaces of its windows on the screen, reroutes the mouse to them and
  lets the user drag them by their title boxes. Child 0 is the task panel. \<open>Q\<close> and \<open>F\<close> are as in \<open>Widgets\<close>.
\<close>

definition dsk_at :: "u32 \<Rightarrow> hj_desktop act" where
  "dsk_at p = readS (\<lambda>s. derefC (gu_desktops s) p)"

definition upd_dsk :: "u32 \<Rightarrow> (hj_desktop \<Rightarrow> hj_desktop) \<Rightarrow> unit act" where
  "upd_dsk p f = bindS (dsk_at p) (\<lambda>d s. Inr ((), s\<lparr>gu_desktops := (gu_desktops s)(p \<mapsto> f d)\<rparr>))"

section \<open>Dispatching\<close>

definition desktop_dispatch_mouse_messages ::
  "sender \<Rightarrow> u32 \<Rightarrow> mouse_message \<Rightarrow> u16 \<Rightarrow> u16 \<Rightarrow> u32 \<Rightarrow> (hresult \<times> bool) act" where
  "desktop_dispatch_mouse_messages Q d kind x y button = dispatch_mouse Q d kind x y button"

text \<open>The desktop also gets the messages that move its pointer and drag windows.\<close>

definition desktop_dispatch_message :: "sender \<Rightarrow> u32 \<Rightarrow> hj_message \<Rightarrow> (hresult \<times> bool) act" where
  "desktop_dispatch_message Q ctrl msg =
     bindS (HJ_CAST ctrl HJ_CLASS_DESKTOP) (\<lambda>d.
     case msg of
       Mouse_message kind x y b \<Rightarrow>
         bindS (desktop_dispatch_mouse_messages Q d kind x y b) (\<lambda>(hr, dispatched).
         retS (hr, if kind = HJ_MESSAGE_MOUSE_MOVED \<or> kind = HJ_MESSAGE_MOUSE_DOWN \<or> kind = HJ_MESSAGE_MOUSE_UP
                   then False else dispatched))
     | _ \<Rightarrow> retS (S_OK, False))"

section \<open>Dragging windows\<close>

text \<open>The search of \<^verbatim>\<open>desktop_mouse_down\<close> over \<open>n\<close> children from \<open>i\<close> on: the last child whose title box is hit.\<close>

fun title_hit :: "u32 \<Rightarrow> NXGI_POINT \<Rightarrow> u32 option \<Rightarrow> u32 \<Rightarrow> nat \<Rightarrow> u32 option act" where
  "title_hit c pos k i 0 = retS k"
| "title_hit c pos k i (Suc n) =
     bindS (hj_get_child_boundsrect c i) (\<lambda>br.
     bindS (hj_get_child_clientrect c i) (\<lambda>cr.
     if \<not> nxgig_point_in_rect pos br \<or> nxgig_point_in_rect pos cr then title_hit c pos k (i + 1) n
     else
       let tr = RECT (x1 br) (y1 br) (x2 br) (y1 br + GUI_TITLEBOX_HEIGHT) in
       title_hit c pos (if nxgig_point_in_rect pos tr then Some i else k) (i + 1) n))"

definition desktop_mouse_down :: "u32 \<Rightarrow> NXGI_POINT \<Rightarrow> u32 \<Rightarrow> hresult act" where
  "desktop_mouse_down d pos button =
     (if button \<noteq> HJ_MOUSE_BUTTON_LEFT then retS S_OK
      else
        critical Children_lock d
          (bindS (child_list d) (\<lambda>l.
           bindS (title_hit d pos None 0 (unat (dlist_get_count l))) (\<lambda>k.
           case k of
             None \<Rightarrow> retS S_OK
           | Some k \<Rightarrow>
               bindS (child_at d k) (\<lambda>m.
               thenS (upd_meta m (\<lambda>x. x\<lparr>cm_drag_source := pos, cm_drag_wnd_pos := cm_pos x, cm_drag_mode := True\<rparr>))
               (retS S_OK))))))"

text \<open>The first child that is being dragged, with its description.\<close>

fun drag_child :: "u32 \<Rightarrow> u32 \<Rightarrow> nat \<Rightarrow> (u32 \<times> u32) option act" where
  "drag_child c i 0 = retS None"
| "drag_child c i (Suc n) =
     bindS (child_at c i) (\<lambda>m. bindS (meta m) (\<lambda>x.
     if cm_drag_mode x then retS (Some (i, m)) else drag_child c (i + 1) n))"

definition desktop_mouse_move_handle_dragging :: "sender \<Rightarrow> u32 \<Rightarrow> NXGI_POINT \<Rightarrow> hresult act" where
  "desktop_mouse_move_handle_dragging Q d pos =
     critical Children_lock d
       (bindS (child_list d) (\<lambda>l.
        bindS (drag_child d 0 (unat (dlist_get_count l))) (\<lambda>f.
        case f of
          None \<Rightarrow> retS S_OK
        | Some (k, m) \<Rightarrow>
            bindS (hj_get_child_boundsrect d k) (\<lambda>br.
            bindS (meta m) (\<lambda>x.
            let delta_x = px pos - px (cm_drag_source x); delta_y = py pos - py (cm_drag_source x);
                new_pos = POINT (px (cm_drag_wnd_pos x) + delta_x) (py (cm_drag_wnd_pos x) + delta_y) in
            if abs32 (px new_pos - x1 br) <s 2 \<and> abs32 (py new_pos - y1 br) <s 2 then retS S_OK
            else
              thenS (hj_control_set_child_position d k new_pos)
              (bindS (hj_get_child_boundsrect d k) (\<lambda>new_br.
               thenS (hj_control_invalidate_rect Q d (nxgig_rects_union br new_br)) (retS S_OK))))))))"

fun stop_dragging :: "u32 \<Rightarrow> u32 \<Rightarrow> nat \<Rightarrow> unit act" where
  "stop_dragging c i 0 = retS ()"
| "stop_dragging c i (Suc n) =
     bindS (child_at c i) (\<lambda>m. bindS (meta m) (\<lambda>x.
     thenS (if cm_drag_mode x then upd_meta m (\<lambda>x. x\<lparr>cm_drag_mode := False\<rparr>) else retS ()) (stop_dragging c (i + 1) n)))"

definition desktop_mouse_up :: "u32 \<Rightarrow> NXGI_POINT \<Rightarrow> hresult act" where
  "desktop_mouse_up d pos =
     critical Children_lock d
       (bindS (child_list d) (\<lambda>l. thenS (stop_dragging d 0 (unat (dlist_get_count l))) (retS S_OK)))"

text \<open>The parts of the screen that a move of the pointer changes: in one rectangle if that is smaller.\<close>

definition pointer_area :: "NXGI_POINT \<Rightarrow> NXGI_RECT" where
  "pointer_area p = RECT (px p) (py p) (px p + 16) (py p + 16)"

definition desktop_mouse_move :: "sender \<Rightarrow> u32 \<Rightarrow> NXGI_POINT \<Rightarrow> hresult act" where
  "desktop_mouse_move Q d pos =
     bindS (dsk_at d) (\<lambda>x.
     let old_area = pointer_area (dt_mouse_pos x); new_area = pointer_area pos;
         unified = nxgig_rects_union old_area new_area in
     thenS (upd_dsk d (\<lambda>x. x\<lparr>dt_mouse_pos := pos\<rparr>))
     (thenS (if nxgig_rect_area unified < nxgig_rect_area old_area + nxgig_rect_area new_area
             then hj_control_invalidate_rect Q d unified
             else thenS (hj_control_invalidate_rect Q d old_area) (hj_control_invalidate_rect Q d new_area))
     (thenS (desktop_mouse_move_handle_dragging Q d pos)
     (retS S_OK))))"

section \<open>Painting\<close>

definition desktop_draw_title :: "u32 \<Rightarrow> u32 \<Rightarrow> NXGI_RECT \<Rightarrow> NXGI_RECT \<Rightarrow> NXGI_RECT \<Rightarrow> unit act" where
  "desktop_draw_title d gc titlebox_rect boundsrect clientrect =
     bindS (ctl d) (\<lambda>c.
     let darker = window_color (hc_theme c) HJ_COLOR_DARKER; dark = window_color (hc_theme c) HJ_COLOR_DARK;
         icon_rect = RECT (x1 clientrect + 4) (y1 boundsrect + 6) (x1 clientrect + 4 + 16) (y1 boundsrect + 6 + 16);
         title_rect = RECT (x2 icon_rect + 5) (y1 icon_rect) (x2 icon_rect + 140) (y2 icon_rect) in
     thenS (gfx (nxgi_set_color gc darker))
     (thenS (gfx (nxgi_fill_rect gc titlebox_rect))
     (thenS (gfx (nxgi_set_color gc dark))
     (thenS (draw_line_in gc (x1 titlebox_rect + 1) (y2 titlebox_rect - 1) (x1 titlebox_rect + 1) (y1 titlebox_rect + 1))
     (thenS (draw_line_in gc (x1 titlebox_rect + 1) (y1 titlebox_rect + 1) (x2 titlebox_rect - 1) (y1 titlebox_rect + 1))
     (thenS (gfx (nxgi_set_color gc (COLOR 255 255 255 255)))
     (thenS (gfx (nxgi_fill_rect gc icon_rect))
     (thenS (gfx (nxgi_draw_aligned_text gc title_rect NXGI_HALIGN_CENTER NXGI_VALIGN_MIDDLE (map of_char ''Demo application'')))
     (retS ())))))))))"

definition desktop_draw_borders :: "u32 \<Rightarrow> u32 \<Rightarrow> hj_control_meta \<Rightarrow> NXGI_RECT \<Rightarrow> unit act" where
  "desktop_draw_borders d gc x clientrect =
     bindS (ctl d) (\<lambda>c.
     let border_rect = nxgig_rect_inflate clientrect (cm_border_width x) in
     thenS (gfx (nxgi_set_color gc (window_color (hc_theme c) HJ_COLOR_DARKER)))
     (thenS (gfx_loop (nxgi_draw_rect gc border_rect))
     (if cm_border_width x > 1
      then thenS (gfx (nxgi_set_color gc (window_color (hc_theme c) HJ_COLOR_DARK)))
           (thenS (gfx_loop (nxgi_draw_rect gc (nxgig_rect_inflate border_rect (- 1)))) (retS ()))
      else retS ())))"

definition desktop_blit_subcontrol :: "u32 \<Rightarrow> hj_control_meta \<Rightarrow> NXGI_RECT \<Rightarrow> NXGI_RECT \<Rightarrow> NXGI_RECT \<Rightarrow> hresult act" where
  "desktop_blit_subcontrol d x boundsrect clientrect clip_rect =
     bindS (hj_control_get_gc d) (\<lambda>gc.
     bindS (hj_control_get_size (cm_control x)) (\<lambda>wnd_size.
     okS (if nxgig_rect_intersect clientrect clientrect
          then critical Surface_lock (cm_control x) (bindS (ctl (cm_control x)) (\<lambda>w.
                 if hc_surface w \<noteq> 0
                 then gfx (nxgi_bitblt gc (p1 clientrect) (hc_surface w) (RECT 0 0 (sz_width wnd_size) (sz_height wnd_size)))
                 else retS S_OK))
          else retS S_OK)
     (if cm_decor_type x = HJ_DECORATION_NORMAL
      then
        let titlebox_rect = boundsrect\<lparr>p2 := POINT (x2 boundsrect) (y1 boundsrect + GUI_TITLEBOX_HEIGHT)\<rparr> in
        thenS (if nxgig_rect_intersect titlebox_rect clip_rect
               then desktop_draw_title d gc titlebox_rect boundsrect clientrect else retS ())
        (thenS (desktop_draw_borders d gc x clientrect) (retS S_OK))
      else retS S_OK)))"

definition desktop_repaint_child :: "u32 \<Rightarrow> NXGI_RECT \<Rightarrow> unit \<Rightarrow> u32 \<Rightarrow> (hresult \<times> unit) act" where
  "desktop_repaint_child d clip_rect u i =
     bindS (hj_get_child_at d i) (\<lambda>(hr, x).
     case x of
       None \<Rightarrow> retS (hr, ())
     | Some x \<Rightarrow>
         bindS (hj_get_child_boundsrect d i) (\<lambda>boundsrect.
         bindS (hj_get_child_clientrect d i) (\<lambda>clientrect.
         if nxgig_rect_intersect boundsrect clip_rect
         then bindS (desktop_blit_subcontrol d x boundsrect clientrect clip_rect) (\<lambda>hr. retS (hr, ()))
         else retS (S_OK, ()))))"

definition desktop_repaint_subcontrols :: "u32 \<Rightarrow> NXGI_RECT \<Rightarrow> hresult act" where
  "desktop_repaint_subcontrols d clip_rect =
     bindS (each_child (desktop_repaint_child d clip_rect) d 0 ()) (\<lambda>(hr, _). retS (if FAILED hr then hr else S_OK))"

definition desktop_repaint :: "u32 \<Rightarrow> NXGI_RECT \<Rightarrow> hresult act" where
  "desktop_repaint d rect =
     bindS (dsk_at d) (\<lambda>x.
     let gc = dt_gc x; br = dt_bounds_rect x; m = dt_mouse_pos x in
     thenS (gfx (nxgi_set_offset gc (POINT 0 0)))
     (thenS (gfx (nxgi_set_clip_rect gc rect))
     (thenS (gfx (nxgi_set_color gc (dt_background_color x)))
     (thenS (gfx (nxgi_fill_rect gc (RECT 0 0 (x2 br) (y2 br - 30))))
     (thenS (set_system_font gc (COLOR 255 255 255 255))
     (thenS (gfx (nxgi_draw_text gc (POINT 25 25) (map of_char ''ANTONIX kernel v0.1 BUILD-07102016'')))
     (thenS (gfx (nxgi_draw_text gc (POINT 25 40) (map of_char ''Henjin Window Compositor'')))
     (okS (desktop_repaint_subcontrols d rect)
     (thenS (gfx (nxgi_set_clip_rect gc br))
     (thenS (bindS (readS (\<lambda>s. Inr (gu_draw_time s))) (\<lambda>t. gfx (nxgi_draw_text gc (POINT 25 70) t)))
     (thenS (gfx (nxgi_set_clip_rect gc rect))
     (thenS (gfx (nxgi_set_color gc (COLOR 255 0 0 255)))
     (thenS (gfx (nxgi_fill_rect gc (RECT (px m + 4) (py m + 4) (px m + 12) (py m + 12))))
     (retS S_OK))))))))))))))"

section \<open>Size and drawing context\<close>

definition desktop_allocate_graphics_context :: "u32 \<Rightarrow> hresult act" where
  "desktop_allocate_graphics_context d =
     bindS (readS (\<lambda>s. Inr (nxgi_get_screen (gu_gfx s)))) (\<lambda>(hr, surface).
     thenS (upd_ctl d (\<lambda>c. c\<lparr>hc_surface := surface\<rparr>))
     (if FAILED hr then retS hr
      else
        bindS kallocS (\<lambda>gptr.
        bindS (gfx (\<lambda>g. bindR (nxgi_create_graphics_context gptr g) (\<lambda>(hr, gc, g). Inr ((hr, gc), g)))) (\<lambda>(hr, gc).
        if FAILED hr then retS hr
        else
          thenS (upd_ctl d (\<lambda>c. c\<lparr>hc_gc := gc\<rparr>))
          (okS (gfx (nxgi_set_target gc surface))
          (thenS (upd_dsk d (\<lambda>x. x\<lparr>dt_gc := gc\<rparr>)) (retS S_OK)))))))"

definition desktop_resize :: "sender \<Rightarrow> u32 \<Rightarrow> u32 \<Rightarrow> u32 \<Rightarrow> hresult act" where
  "desktop_resize Q d x y =
     thenS (upd_dsk d (\<lambda>s. s\<lparr>dt_bounds_rect := RECT 0 0 x y\<rparr>))
     (thenS (upd_ctl d (\<lambda>c. c\<lparr>hc_size := SIZE x y\<rparr>))
     (bindS (dsk_at d) (\<lambda>s.
      okS (hj_control_resize Q (dt_task_panel s) (SIZE x 30))
      (okS (hj_control_set_child_position d 0 (POINT 0 (y - 30))) (retS S_OK)))))"

section \<open>Messages\<close>

text \<open>Signalling the event of a message, if it has one.\<close>

definition signal_event :: "u32 \<Rightarrow> unit act" where
  "signal_event ev s =
     (if ev = 0 then Inr ((), s)
      else bindR (derefC (gu_events s) ev) (\<lambda>e. bindR (event_signal (gu_cpu s) e) (\<lambda>(cpu, e).
        Inr ((), s\<lparr>gu_cpu := cpu, gu_events := (gu_events s)(ev \<mapsto> e)\<rparr>))))"

definition desktop_disable_drawing :: "u32 \<Rightarrow> u32 \<Rightarrow> hresult act" where
  "desktop_disable_drawing d ev =
     bindS (dsk_at d) (\<lambda>x.
     thenS (if dt_draw_enabled x
            then bindS (ctl d) (\<lambda>c.
                   thenS (gfx (\<lambda>g. bindR (nxgi_destroy_graphics_context (dt_gc x) g) (\<lambda>g. Inr ((), g))))
                   (bindS (gfx (\<lambda>g. bindR (nxgi_destroy_bitmap (hc_surface c) g) (\<lambda>(hr, b, g). Inr (b, g)))) (\<lambda>b.
                    thenS (upd_ctl d (\<lambda>c. c\<lparr>hc_surface := b\<rparr>))
                    (upd_dsk d (\<lambda>x. x\<lparr>dt_draw_enabled := False\<rparr>)))))
            else retS ())
     (thenS (signal_event ev) (retS S_OK)))"

definition desktop_enable_drawing :: "u32 \<Rightarrow> u32 \<Rightarrow> hresult act" where
  "desktop_enable_drawing d ev =
     bindS (dsk_at d) (\<lambda>x.
     if dt_draw_enabled x then retS S_OK
     else
       bindS (desktop_allocate_graphics_context d) (\<lambda>hr.
       if FAILED hr then retS E_FAIL
       else
         thenS (signal_event ev)
         (thenS (upd_dsk d (\<lambda>x. x\<lparr>dt_draw_enabled := True\<rparr>)) (retS S_OK))))"

definition desktop_message_handler :: "sender \<Rightarrow> u32 \<Rightarrow> hj_message \<Rightarrow> hresult act" where
  "desktop_message_handler Q this msg =
     bindS (HJ_SUPPORTS this HJ_CLASS_DESKTOP) (\<lambda>supported.
     if \<not> supported then retS E_FAIL
     else
       bindS (HJ_CAST this HJ_CLASS_DESKTOP) (\<lambda>d.
       case msg of
         HJ_MESSAGE_DISABLE_DRAWING ev \<Rightarrow> desktop_disable_drawing d ev
       | HJ_MESSAGE_ENABLE_DRAWING ev \<Rightarrow> desktop_enable_drawing d ev
       | HJ_MESSAGE_RESIZE x y fmt \<Rightarrow>
           bindS (desktop_resize Q d (ucast x) (ucast y)) (\<lambda>hr. retS (if FAILED hr then E_FAIL else S_OK))
       | Mouse_message HJ_MESSAGE_MOUSE_MOVED x y b \<Rightarrow> desktop_mouse_move Q d (POINT (ucast x) (ucast y))
       | Mouse_message HJ_MESSAGE_MOUSE_DOWN x y b \<Rightarrow> desktop_mouse_down d (POINT (ucast x) (ucast y)) b
       | Mouse_message HJ_MESSAGE_MOUSE_UP x y b \<Rightarrow> desktop_mouse_up d (POINT (ucast x) (ucast y))
       | HJ_MESSAGE_REPAINT rect gc \<Rightarrow>
           bindS (dsk_at d) (\<lambda>x. if \<not> dt_draw_enabled x then retS S_FALSE else desktop_repaint d rect)
       | _ \<Rightarrow> retS S_FALSE))"

definition desktop_receive_feedback :: "sender \<Rightarrow> u32 \<Rightarrow> u32 \<Rightarrow> NXGI_RECT \<Rightarrow> hresult act" where
  "desktop_receive_feedback Q this sender rect = receive_feedback Q this sender rect"

section \<open>Creation\<close>

definition zero_desktop :: hj_desktop where
  "zero_desktop = \<lparr> dt_wallpaper = 0, dt_background_color = COLOR 0 0 0 0, dt_bounds_rect = RECT 0 0 0 0,
     dt_mouse_pos = POINT 0 0, dt_gc = 0, dt_draw_enabled = False, dt_term_event = event_create 0, dt_task_panel = 0 \<rparr>"

text \<open>\<^verbatim>\<open>event_destroy\<close> of the termination event leaves nothing behind, as the desktop is freed after it.\<close>

definition hj_destroy_desktop :: "(nat \<Rightarrow> mutex \<Rightarrow> mutex) \<Rightarrow> u32 \<Rightarrow> unit act" where
  "hj_destroy_desktop others d =
     bindS (dsk_at d) (\<lambda>x.
     thenS (hj_control_fini others d)
     (thenS (if dt_wallpaper x \<noteq> 0
             then gfx (\<lambda>g. bindR (nxgi_destroy_bitmap (dt_wallpaper x) g) (\<lambda>(hr, _, g). Inr (hr, g)))
             else retS S_OK)
     (thenS (if dt_gc x \<noteq> 0
             then gfx (\<lambda>g. bindR (nxgi_destroy_graphics_context (dt_gc x) g) (\<lambda>g. Inr ((), g)))
             else retS ())
     (\<lambda>s. Inr ((), s\<lparr>gu_ctrls := (gu_ctrls s)(d := None), gu_desktops := (gu_desktops s)(d := None)\<rparr>)))))"

definition hj_create_desktop :: "(nat \<Rightarrow> mutex \<Rightarrow> mutex) \<Rightarrow> u32 act" where
  "hj_create_desktop others =
     bindS kallocS (\<lambda>d.
     if d = 0 then retS 0
     else
       thenS (put_object d (new_object d HJ_CLASS_DESKTOP HJ_CLASS_DESKTOP))
       (thenS (\<lambda>s. Inr ((), s\<lparr>gu_desktops := (gu_desktops s)(d \<mapsto> zero_desktop)\<rparr>))
       (bindS (hj_control_init d HJ_CONTROL_DEFERRED Desktop_message_handler (Some Desktop_dispatch_message)) (\<lambda>hr.
        if FAILED hr then thenS (hj_destroy_desktop others d) (retS 0)
        else
          thenS (upd_dsk d (\<lambda>x. x\<lparr>dt_term_event := event_create 0, dt_background_color := COLOR 0 64 128 255,
                                   dt_bounds_rect := RECT 0 0 0 0\<rparr>))
          (thenS (upd_ctl d (\<lambda>c. c\<lparr>hc_on_add_child := Some Desktop_on_add_child\<rparr>))
          (bindS hj_create_taskpanel (\<lambda>panel.
           bindS (HJ_CAST panel HJ_CLASS_CONTROL) (\<lambda>task_panel.
           thenS (upd_dsk d (\<lambda>x. x\<lparr>dt_task_panel := task_panel\<rparr>))
           (thenS (hj_add_child d task_panel)
           (retS d))))))))))"

end
