(* ===== verification/MouseDispatch.thy ===== *)
theory MouseDispatch
  imports MessageQueue Desktop
begin

unbundle bit_operations_syntax

text \<open>
  What the children of a control look like in the store, and where windows and the desktop send the mouse.
\<close>

declare each_child.simps [simp del]

section \<open>The children of a control\<close>

text \<open>\<open>family s p xs\<close>: the children of \<open>p\<close> in order, each with the address of its description, the description and the
  size of the control.\<close>

type_synonym child = "u32 \<times> hj_control_meta \<times> NXGI_SIZE"

abbreviation child_meta :: "child \<Rightarrow> hj_control_meta" where "child_meta x \<equiv> fst (snd x)"
abbreviation child_bounds :: "child \<Rightarrow> NXGI_RECT" where "child_bounds x \<equiv> bounds_of (fst (snd x)) (snd (snd x))"
abbreviation child_client :: "child \<Rightarrow> NXGI_RECT" where "child_client x \<equiv> client_of (fst (snd x)) (snd (snd x))"

definition child_ok :: "gui \<Rightarrow> child \<Rightarrow> bool" where
  "child_ok s = (\<lambda>(m, x, sz). m \<noteq> 0 \<and> gu_metas s m = Some x \<and> cm_control x \<noteq> 0
     \<and> (\<exists>c. gu_ctrls s (cm_control x) = Some c \<and> hc_size c = sz))"

definition family :: "gui \<Rightarrow> u32 \<Rightarrow> child list \<Rightarrow> bool" where
  "family s p xs \<longleftrightarrow> p \<noteq> 0 \<and> distinct (map fst xs) \<and> (\<forall>x \<in> set xs. child_ok s x)
     \<and> (\<exists>c l ns. gu_ctrls s p = Some c \<and> hc_children c = Some l \<and> dl_repr (gu_nodes s) l ns \<and> map snd ns = map fst xs)"

lemma family_naked [simp]: "family (naked s) p xs = family s p xs"
proof -
  have "child_ok (naked s) x = child_ok s x" for x by (auto simp: child_ok_def naked_ctrls)
  then show ?thesis by (auto simp: family_def naked_ctrls)
qed

lemma familyE:
  assumes "family s p xs"
  obtains c l ns where "p \<noteq> 0" "gu_ctrls (naked s) p = Some c" "hc_children c = Some l" "dl_repr (gu_nodes s) l ns"
    "map snd ns = map fst xs" "length ns = length xs" "dlist_get_count l = of_nat (length xs)" "length xs < 2 ^ 32 - 1"
proof -
  obtain c l ns where c: "p \<noteq> 0" "gu_ctrls s p = Some c" "hc_children c = Some l" "dl_repr (gu_nodes s) l ns" "map snd ns = map fst xs"
    using assms by (auto simp: family_def)
  moreover have "length ns = length xs" using c(5) by (metis length_map)
  ultimately show ?thesis using that by (auto simp: naked_ctrls dlist_get_count_def dl_repr_def)
qed

lemma family_same: "naked s1 = naked s \<Longrightarrow> family s p xs \<Longrightarrow> family s1 p xs"
  by (metis family_naked)

lemma family_child:
  assumes "family s p xs" and "k < length xs"
  shows "fst (xs ! k) \<noteq> 0" "gu_metas s (fst (xs ! k)) = Some (child_meta (xs ! k))" "cm_control (child_meta (xs ! k)) \<noteq> 0"
    "\<exists>c. gu_ctrls (naked s) (cm_control (child_meta (xs ! k))) = Some c \<and> hc_size c = snd (snd (xs ! k))"
proof -
  have "child_ok s (xs ! k)" using assms by (simp add: family_def)
  then show "fst (xs ! k) \<noteq> 0" "gu_metas s (fst (xs ! k)) = Some (child_meta (xs ! k))" "cm_control (child_meta (xs ! k)) \<noteq> 0"
    "\<exists>c. gu_ctrls (naked s) (cm_control (child_meta (xs ! k))) = Some c \<and> hc_size c = snd (snd (xs ! k))"
    by (auto simp: child_ok_def naked_ctrls split: prod.splits)
qed

section \<open>Reading the children\<close>

lemma child_list_run:
  assumes "family s p xs"
  obtains l where "child_list p s = Inr (l, s)" "dlist_get_count l = of_nat (length xs)"
    "\<And>i. dlist_get_at (gu_nodes s) l i = Inr (if unat i < length xs then fst (xs ! unat i) else 0)"
proof -
  obtain c l ns where c: "p \<noteq> 0" "gu_ctrls (naked s) p = Some c" "hc_children c = Some l" "dl_repr (gu_nodes s) l ns"
    "map snd ns = map fst xs" "length ns = length xs" "dlist_get_count l = of_nat (length xs)" by (rule familyE [OF assms(1)])
  obtain d where d: "gu_ctrls s p = Some d" "naked_ctl d = c" using ctl_naked [OF c(2)] .
  have "hc_children d = Some l" using d(2) c(3) by auto
  then have run: "child_list p s = Inr (l, s)"
    using d c(1) by (simp add: bindS_def child_list_def ctl_def readS_def derefC_def retS_def)
  have "snd (ns ! k) = fst (xs ! k)" if "k < length xs" for k using c(5,6) that by (metis nth_map)
  then have "dlist_get_at (gu_nodes s) l i = Inr (if unat i < length xs then fst (xs ! unat i) else 0)" for i
    using dlist_get_at_repr [OF c(4), of i] c(6) by simp
  then show ?thesis using that [OF run c(7)] by blast
qed

lemma child_at_run:
  assumes "family s p xs" shows "child_at p i s = Inr (if unat i < length xs then fst (xs ! unat i) else 0, s)"
proof -
  obtain l where "child_list p s = Inr (l, s)" "dlist_get_at (gu_nodes s) l i = Inr (if unat i < length xs then fst (xs ! unat i) else 0)"
    using child_list_run [OF assms] by metis
  then show ?thesis by (simp add: child_at_def bindS_def readS_def)
qed

lemma yields_child_list:
  assumes "family s p xs" and "\<And>l. dlist_get_count l = of_nat (length xs) \<Longrightarrow> yields s (f l) r t"
  shows "yields s (bindS (child_list p) f) r t"
  by (rule child_list_run [OF assms(1)]) (use assms(2) in \<open>simp add: yields_def bindS_def\<close>)

lemma yields_child_at:
  assumes "family s p xs" and "yields s (f (if unat i < length xs then fst (xs ! unat i) else 0)) r t"
  shows "yields s (bindS (child_at p i) f) r t"
  using child_at_run [OF assms(1)] assms(2) by (simp add: yields_def bindS_def)

lemma gives_child_list:
  assumes "family s p xs" and "\<And>l. dlist_get_count l = of_nat (length xs) \<Longrightarrow> gives s (f l) r R"
  shows "gives s (bindS (child_list p) f) r R"
  by (rule child_list_run [OF assms(1)]) (use assms(2) in \<open>simp add: gives_def yields_def bindS_def\<close>)

lemma gives_child_at:
  assumes "family s p xs" and "gives s (f (if unat i < length xs then fst (xs ! unat i) else 0)) r R"
  shows "gives s (bindS (child_at p i) f) r R"
  using child_at_run [OF assms(1)] assms(2) by (simp add: gives_def yields_def bindS_def)

lemma gives_meta:
  assumes "family s p xs" and "k < length xs" and "gives s (f (child_meta (xs ! k))) r R"
  shows "gives s (bindS (meta (fst (xs ! k))) f) r R"
  using family_child [OF assms(1,2)] assms(3) by (simp add: gives_def yields_def bindS_def meta_def readS_def derefC_def)

lemma hj_get_children_count_yields:
  assumes "locks 1 s" and "family s p xs"
  shows "yields s (hj_get_children_count p) (of_nat (length xs)) (naked s)"
proof -
  obtain c where c: "p \<noteq> 0" "gu_ctrls (naked s) p = Some c" by (rule familyE [OF assms(2)])
  show ?thesis unfolding hj_get_children_count_def
    by (rule yields_critical [OF assms(1) [unfolded One_nat_def] c], rule yields_child_list, rule family_same [OF _ assms(2)])
      (auto intro: yields_ret)
qed

lemma hj_get_child_at_yields:
  assumes "locks 1 s" and "family s p xs" and "unat i < length xs"
  shows "yields s (hj_get_child_at p i) (S_OK, Some (child_meta (xs ! unat i))) (naked s)"
proof -
  obtain c where c: "p \<noteq> 0" "gu_ctrls (naked s) p = Some c" "length xs < 2 ^ 32 - 1" by (rule familyE [OF assms(2)])
  show ?thesis unfolding hj_get_child_at_def
  proof (rule yields_critical [OF assms(1) [unfolded One_nat_def] c(1,2)])
    fix s1 assume s1: "naked s1 = naked s"
    note f1 = family_same [OF s1 assms(2)]
    show "yields s1 (bindS (child_list p) (\<lambda>l. if dlist_get_count l \<le> i then retS (E_INVALIDARG, None)
       else bindS (child_at p i) (\<lambda>m. bindS (meta m) (\<lambda>x. retS (S_OK, Some x))))) (S_OK, Some (child_meta (xs ! unat i))) (naked s)"
    proof (rule yields_child_list [OF f1])
      fix l assume "dlist_get_count l = (of_nat (length xs) :: u32)"
      then have "\<not> dlist_get_count l \<le> i" using assms(3) c(3) by (simp add: word_le_nat_alt unat_of_nat_small)
      moreover have "yields s1 (bindS (child_at p i) (\<lambda>m. bindS (meta m) (\<lambda>x. retS (S_OK, Some x)))) (S_OK, Some (child_meta (xs ! unat i))) (naked s)"
        using family_child [OF f1 assms(3)] family_child [OF assms(2,3)] assms(3) s1
        by (intro yields_child_at [OF f1] yields_meta [where x = "child_meta (xs ! unat i)"] yields_ret) auto
      ultimately show "yields s1 (if dlist_get_count l \<le> i then retS (E_INVALIDARG, None)
        else bindS (child_at p i) (\<lambda>m. bindS (meta m) (\<lambda>x. retS (S_OK, Some x)))) (S_OK, Some (child_meta (xs ! unat i))) (naked s)" by simp
    qed
  qed
qed

lemma hj_control_get_size_yields:
  assumes "locks 1 s" and "p \<noteq> 0" and "gu_ctrls (naked s) p = Some c"
  shows "yields s (hj_control_get_size p) (hc_size c) (naked s)"
  unfolding hj_control_get_size_def
  by (rule yields_critical [OF assms(1) [unfolded One_nat_def] assms(2,3)], rule yields_ctl [of _ p c])
    (use assms in \<open>auto intro: yields_ret\<close>)

lemma child_rect_yields:
  assumes lk: "locks 1 s" and f: "family s p xs" and k: "unat i < length xs"
  shows "yields s (hj_get_child_boundsrect p i) (child_bounds (xs ! unat i)) (naked s)"
    "yields s (hj_get_child_clientrect p i) (child_client (xs ! unat i)) (naked s)"
proof -
  let ?x = "child_meta (xs ! unat i)"
  have each: "yields s (bindS (hj_get_child_at p i) (\<lambda>(hr, x). case x of None \<Rightarrow> retS (RECT 0 0 0 0)
     | Some x \<Rightarrow> bindS (hj_control_get_size (cm_control x)) (\<lambda>sz. retS (g x sz)))) (g ?x (snd (snd (xs ! unat i)))) (naked s)" for g
  proof (rule yields_bind [OF hj_get_child_at_yields [OF lk f k] lk], simp)
    fix s1 assume s1: "naked s1 = naked s" "locks (Suc 0) s1"
    obtain c where c: "gu_ctrls (naked s) (cm_control ?x) = Some c" "hc_size c = snd (snd (xs ! unat i))"
      using family_child(4) [OF f k] by blast
    have "yields s1 (hj_control_get_size (cm_control ?x)) (hc_size c) (naked s1)"
      by (rule hj_control_get_size_yields) (use s1 c family_child(3) [OF f k] in simp_all)
    then show "yields s1 (bindS (hj_control_get_size (cm_control ?x)) (\<lambda>sz. retS (g ?x sz))) (g ?x (snd (snd (xs ! unat i)))) (naked s)"
      by (rule yields_bind [OF _ s1(2)]) (use s1 c in \<open>auto intro: yields_ret\<close>)
  qed
  show "yields s (hj_get_child_boundsrect p i) (child_bounds (xs ! unat i)) (naked s)"
    "yields s (hj_get_child_clientrect p i) (child_client (xs ! unat i)) (naked s)"
    unfolding hj_get_child_boundsrect_def hj_get_child_clientrect_def by (rule each)+
qed

section \<open>The child under the mouse\<close>

definition hit :: "NXGI_POINT \<Rightarrow> child \<Rightarrow> bool" where
  "hit pt x = nxgig_point_in_rect pt (child_bounds x)"

text \<open>The last child from index \<open>n\<close> on that has a property, by its index.\<close>

definition last_such :: "(child \<Rightarrow> bool) \<Rightarrow> child list \<Rightarrow> nat \<Rightarrow> nat option" where
  "last_such P xs n = (let is = filter (\<lambda>i. P (xs ! i)) [n..<length xs] in if is = [] then None else Some (last is))"

abbreviation last_hit :: "NXGI_POINT \<Rightarrow> child list \<Rightarrow> nat \<Rightarrow> nat option" where
  "last_hit pt \<equiv> last_such (hit pt)"

lemma last_such_step: "n < length xs \<Longrightarrow> last_such P xs n =
  (case last_such P xs (Suc n) of None \<Rightarrow> if P (xs ! n) then Some n else None | Some k \<Rightarrow> Some k)"
  by (simp add: last_such_def upt_conv_Cons Let_def)

lemma last_such_end: "length xs \<le> n \<Longrightarrow> last_such P xs n = None"
  by (simp add: last_such_def)

lemma last_such_Some:
  "last_such P xs n = Some k \<Longrightarrow> n \<le> k \<and> k < length xs \<and> P (xs ! k) \<and> (\<forall>i. k < i \<longrightarrow> i < length xs \<longrightarrow> \<not> P (xs ! i))"
  "last_such P xs n = None \<Longrightarrow> n \<le> i \<Longrightarrow> i < length xs \<Longrightarrow> \<not> P (xs ! i)"
proof -
  have "(\<forall>k. last_such P xs n = Some k \<longrightarrow> n \<le> k \<and> k < length xs \<and> P (xs ! k) \<and> (\<forall>i. k < i \<longrightarrow> i < length xs \<longrightarrow> \<not> P (xs ! i)))
    \<and> (last_such P xs n = None \<longrightarrow> (\<forall>i. n \<le> i \<longrightarrow> i < length xs \<longrightarrow> \<not> P (xs ! i)))"
  proof (induction "length xs - n" arbitrary: n)
    case 0
    then show ?case by (simp add: last_such_end)
  next
    case (Suc d)
    then have "n < length xs" "d = length xs - Suc n" by simp_all
    then show ?case using Suc(1) [of "Suc n"] last_such_step [of n xs P]
      by (auto split: option.splits if_splits) (metis Suc_leI le_neq_implies_less)+
  qed
  then show "last_such P xs n = Some k \<Longrightarrow> n \<le> k \<and> k < length xs \<and> P (xs ! k) \<and> (\<forall>i. k < i \<longrightarrow> i < length xs \<longrightarrow> \<not> P (xs ! i))"
    "last_such P xs n = None \<Longrightarrow> n \<le> i \<Longrightarrow> i < length xs \<Longrightarrow> \<not> P (xs ! i)" by blast+
qed

lemma hit_child_yields:
  assumes lk: "locks 1 s" and f: "family s p xs" and k: "unat i < length xs"
  shows "yields s (hit_child p pt acc i) (S_OK, if hit pt (xs ! unat i) then Some i else acc) (naked s)"
  unfolding hit_child_def
proof (rule yields_bind [OF hj_get_child_at_yields [OF lk f k] lk], simp split del: if_split)
  fix s1 assume s1: "naked s1 = naked s" "locks (Suc 0) s1"
  have "yields s1 (hj_get_child_boundsrect p i) (child_bounds (xs ! unat i)) (naked s1)"
    by (rule child_rect_yields) (use s1 family_same [OF s1(1) f] k in simp_all)
  then show "yields s1 (bindS (hj_get_child_boundsrect p i) (\<lambda>rect. retS (S_OK, if nxgig_point_in_rect pt rect then Some i else acc)))
      (S_OK, if hit pt (xs ! unat i) then Some i else acc) (naked s)"
    by (rule yields_bind [OF _ s1(2)]) (use s1 in \<open>auto simp: hit_def intro: yields_ret\<close>)
qed

lemma search_yields:
  assumes "locks 1 s" and "family s p xs"
  shows "yields s (each_child (hit_child p pt) p i acc)
    (S_OK, case last_hit pt xs (unat i) of None \<Rightarrow> acc | Some k \<Rightarrow> Some (of_nat k)) (naked s)"
  using assms
proof (induction "length xs - unat i" arbitrary: s i acc)
  case 0
  obtain c l ns where n: "length xs < 2 ^ 32 - 1" by (rule familyE [OF 0(3)])
  then have "\<not> i < of_nat (length xs)" using 0(1) by (simp add: word_less_nat_alt unat_of_nat_small)
  then show ?case using 0(1)
    by (subst each_child.simps, intro yields_bind [OF hj_get_children_count_yields [OF 0(2,3)] 0(2)])
      (auto simp: last_such_end intro: yields_ret)
next
  case (Suc n)
  have len: "length xs < 2 ^ 32 - 1" by (rule familyE [OF Suc(4)])
  have i: "unat i < length xs" using Suc(2) by simp
  then have less: "i < of_nat (length xs)" using len by (simp add: word_less_nat_alt unat_of_nat_small)
  have i1: "unat (i + 1) = Suc (unat i)" by (rule word_below_Suc [OF less])
  let ?acc = "if hit pt (xs ! unat i) then Some i else acc"
  show ?case
  proof (subst each_child.simps, rule yields_bind [OF hj_get_children_count_yields [OF Suc(3,4)] Suc(3)])
    fix s1 assume s1: "naked s1 = naked s" "locks 1 s1"
    note f1 = family_same [OF s1(1) Suc(4)]
    have step: "yields s2 (each_child (hit_child p pt) p (i + 1) ?acc)
        (S_OK, case last_hit pt xs (unat i) of None \<Rightarrow> acc | Some k \<Rightarrow> Some (of_nat k)) (naked s)"
      if s2: "naked s2 = naked s1" "locks 1 s2" for s2
      using Suc(1) [of "i + 1" s2 ?acc] Suc(2) s2 s1 family_same [OF _ Suc(4), of s2] i i1 last_such_step [OF i, of "hit pt"]
      by (auto split: option.splits if_splits)
    have "yields s1 (bindS (hit_child p pt acc i) (\<lambda>(hr, acc). if FAILED hr then retS (hr, acc) else each_child (hit_child p pt) p (i + 1) acc))
        (S_OK, case last_hit pt xs (unat i) of None \<Rightarrow> acc | Some k \<Rightarrow> Some (of_nat k)) (naked s)"
      by (rule yields_bind [OF hit_child_yields [OF s1(2) f1 i] s1(2)]) (use step in simp)
    then show "yields s1 (if i < of_nat (length xs) then bindS (hit_child p pt acc i) (\<lambda>(hr, acc). if FAILED hr then retS (hr, acc)
        else each_child (hit_child p pt) p (i + 1) acc) else retS (S_OK, acc))
        (S_OK, case last_hit pt xs (unat i) of None \<Rightarrow> acc | Some k \<Rightarrow> Some (of_nat k)) (naked s)"
      using less by simp
  qed
qed

lemma last_such_eq:
  assumes "n \<le> k" "k < length xs" "P (xs ! k)" "\<And>i. k < i \<Longrightarrow> i < length xs \<Longrightarrow> \<not> P (xs ! i)"
  shows "last_such P xs n = Some k"
proof (cases "last_such P xs n")
  case None
  then show ?thesis using last_such_Some(2) assms by blast
next
  case (Some j)
  then have "P (xs ! j)" "j < length xs" "\<And>i. j < i \<Longrightarrow> i < length xs \<Longrightarrow> \<not> P (xs ! i)" using last_such_Some(1) by blast+
  then have "j = k" using assms by (metis linorder_neqE_nat)
  then show ?thesis using Some by simp
qed

section \<open>Rerouting\<close>

text \<open>What sending the message to the child \<open>x\<close> does.\<close>

definition send_to_child :: "sender \<Rightarrow> child \<Rightarrow> mouse_message \<Rightarrow> u16 \<Rightarrow> u16 \<Rightarrow> u32 \<Rightarrow> (hresult \<times> bool) act" where
  "send_to_child Q c kind x y b =
     bindS (Q (cm_control (child_meta c))
             (Mouse_message kind (x - ucast (px (cm_pos (child_meta c)))) (y - ucast (py (cm_pos (child_meta c)))) b))
       (\<lambda>hr. retS (if FAILED hr then hr else S_OK, True))"

lemma dispatch_mouse_last_hit:
  assumes lk: "locks 1 s" and f: "family s p xs"
  shows "\<exists>s'. naked s' = naked s \<and> locks 1 s' \<and> dispatch_mouse Q p kind x y b s =
    (case last_hit (POINT (ucast x) (ucast y)) xs 1 of None \<Rightarrow> Inr ((S_OK, False), s')
     | Some k \<Rightarrow> send_to_child Q (xs ! k) kind x y b s')"
proof -
  let ?pt = "POINT (ucast x) (ucast y)"
  let ?k = "last_hit ?pt xs 1"
  obtain s1 where s1: "each_child (hit_child p ?pt) p 1 None s = Inr ((S_OK, map_option of_nat ?k), s1)"
    "naked s1 = naked s" "same_locks s s1"
    using search_yields [OF lk f, of ?pt 1 None] by (auto simp: yields_def map_option_case)
  have l1: "locks 1 s1" using locks_same [OF lk s1(3)] .
  show ?thesis
  proof (cases ?k)
    case None
    then show ?thesis using s1 l1 by (intro exI [of _ s1]) (simp add: dispatch_mouse_def bindS_def retS_def)
  next
    case (Some k)
    have len: "length xs < 2 ^ 32 - 1" by (rule familyE [OF f])
    have k: "k < length xs" using last_such_Some(1) [OF Some] by simp
    then have u: "unat (of_nat k :: u32) = k" using len by (intro unat_of_nat_small) simp
    obtain s2 where s2: "hj_get_child_at p (of_nat k) s1 = Inr ((S_OK, Some (child_meta (xs ! k))), s2)"
      "naked s2 = naked s1" "same_locks s1 s2"
      using hj_get_child_at_yields [OF l1 family_same [OF s1(2) f], of "of_nat k"] k u by (auto simp: yields_def)
    have "locks 1 s2" using locks_same [OF l1 s2(3)] .
    then show ?thesis using s1 s2 Some
      by (intro exI [of _ s2]) (simp add: dispatch_mouse_def send_to_child_def bindS_def)
  qed
qed

text \<open>A control that is a window.\<close>

definition is_window :: "gui \<Rightarrow> u32 \<Rightarrow> bool" where
  "is_window s w \<longleftrightarrow> (\<exists>c. gu_ctrls s w = Some c \<and> hc_inst c HJ_CLASS_WINDOW = w)"

lemma window_dispatcher_mouse:
  assumes "is_window s w" and "w \<noteq> 0"
  shows "window_message_dispatcher Q w (Mouse_message kind x y b) s = dispatch_mouse Q w kind x y b s"
  using assms by (auto simp: is_window_def window_message_dispatcher_def window_dispatch_mouse_message_def bindS_def HJ_CAST_def ctl_def readS_def derefC_def retS_def)

text \<open>
  C15. A mouse message that reaches a window goes to the topmost of its children, other than the first, that are under the
  pointer: of the children from the second on whose bounds hold the position, the one added last, with the position
  relative to that child and the same kind and button; no other control is involved and nothing else changes on the
  way. The first child is passed over even where it is the only one under the pointer
  (\<open>first_child_never_gets_mouse\<close>).\<close>

theorem mouse_goes_to_topmost_child:
  assumes "locks 1 s" and "is_window s w" and "family s w xs" and "1 \<le> k" and "k < length xs"
    and "hit (POINT (ucast x) (ucast y)) (xs ! k)"
    and "\<And>i. k < i \<Longrightarrow> i < length xs \<Longrightarrow> \<not> hit (POINT (ucast x) (ucast y)) (xs ! i)"
  shows "\<exists>s'. naked s' = naked s \<and> locks 1 s'
    \<and> window_message_dispatcher Q w (Mouse_message kind x y b) s = send_to_child Q (xs ! k) kind x y b s'"
proof -
  have "w \<noteq> 0" using assms(3) by (simp add: family_def)
  then show ?thesis
    using dispatch_mouse_last_hit [OF assms(1,3), of Q kind x y b] last_such_eq [where P = "hit (POINT (ucast x) (ucast y))", OF assms(4-7)] window_dispatcher_mouse [OF assms(2)]
    by auto
qed

text \<open>The search for the child under the pointer starts at index one in windows too, where it is meant to skip the task
  panel of the desktop: the first child of a window never gets a mouse message, wherever it lies. With no other
  child under the pointer the message is not dispatched at all.\<close>

theorem first_child_never_gets_mouse:
  assumes "locks 1 s" and "is_window s w" and "family s w (x0 # xs)"
    and "\<And>c. c \<in> set xs \<Longrightarrow> \<not> hit (POINT (ucast x) (ucast y)) c"
  shows "\<exists>s'. naked s' = naked s \<and> window_message_dispatcher Q w (Mouse_message kind x y b) s = Inr ((S_OK, False), s')"
proof -
  have "last_hit (POINT (ucast x) (ucast y)) (x0 # xs) 1 = None"
  proof (cases "last_hit (POINT (ucast x) (ucast y)) (x0 # xs) 1")
    case (Some k)
    then have "1 \<le> k" "k < length (x0 # xs)" "hit (POINT (ucast x) (ucast y)) ((x0 # xs) ! k)"
      using last_such_Some(1) by blast+
    then show ?thesis using assms(4) [of "xs ! (k - 1)"] by (simp add: nth_Cons')
  qed simp
  moreover have "w \<noteq> 0" using assms(3) by (simp add: family_def)
  ultimately show ?thesis
    using dispatch_mouse_last_hit [OF assms(1,3), of Q kind x y b] window_dispatcher_mouse [OF assms(2)] by auto
qed

text \<open>A window with two buttons of ten by ten pixels, the second at (20, 5).\<close>

definition button_ctl :: "u32 \<Rightarrow> hj_control" where
  "button_ctl p = (new_object p HJ_CLASS_BUTTON HJ_CLASS_BUTTON)\<lparr>hc_type := HJ_CONTROL_IMMEDIATE, hc_handler := Some Button_message_handler, hc_size := SIZE 10 10\<rparr>"

definition two_buttons :: gui where
  "two_buttons = empty_gui\<lparr>
     gu_ctrls := [0x1000 \<mapsto> (new_object 0x1000 HJ_CLASS_WINDOW HJ_CLASS_WINDOW)\<lparr>hc_children :=
                               Some \<lparr>dl_count = 2, dl_root = 0x100\<rparr>\<rparr>,
                  0x2000 \<mapsto> button_ctl 0x2000, 0x3000 \<mapsto> button_ctl 0x3000],
     gu_metas := [0x10 \<mapsto> new_meta 0x2000, 0x20 \<mapsto> (new_meta 0x3000)\<lparr>cm_pos := POINT 20 5\<rparr>],
     gu_nodes := [0x100 \<mapsto> \<lparr>dn_prev = 0, dn_next = 0x200, dn_payload = 0x10\<rparr>,
                  0x200 \<mapsto> \<lparr>dn_prev = 0x100, dn_next = 0, dn_payload = 0x20\<rparr>]\<rparr>"

definition two_children :: "child list" where
  "two_children = [(0x10, new_meta 0x2000, SIZE 10 10), (0x20, (new_meta 0x3000)\<lparr>cm_pos := POINT 20 5\<rparr>, SIZE 10 10)]"

lemma get_lock_new [simp]:
  "get_lock l (new_object p k k') = mutex_create" "get_lock l (c\<lparr>hc_children := ch\<rparr>) = get_lock l c"
  "get_lock l (button_ctl p) = mutex_create"
  by (cases l; simp add: new_object_def zero_control_def button_ctl_def)+

lemma two_buttons_facts:
  "locks 1 two_buttons" "is_window two_buttons 0x1000" "family two_buttons 0x1000 two_children"
proof -
  show "locks 1 two_buttons"
    by (simp add: locks_def two_buttons_def empty_gui_def enterable_def lockable_def)
      (simp add: mutex_create_def spinlock_create_def)
  show "is_window two_buttons 0x1000"
    by (simp add: is_window_def two_buttons_def new_object_def)
  have "dl_repr (gu_nodes two_buttons) \<lparr>dl_count = 2, dl_root = 0x100\<rparr> [(0x100, 0x10), (0x200, 0x20)]"
    by (simp add: dl_repr_def addr_of_def node_of_def two_buttons_def less_Suc_eq)
  then show "family two_buttons 0x1000 two_children"
    unfolding family_def
    by (intro conjI exI [of _ "[(0x100, 0x10), (0x200, 0x20)]"] exI [of _ "\<lparr>dl_count = 2, dl_root = 0x100\<rparr>"]
        exI [of _ "(new_object 0x1000 HJ_CLASS_WINDOW HJ_CLASS_WINDOW)\<lparr>hc_children := Some \<lparr>dl_count = 2, dl_root = 0x100\<rparr>\<rparr>"])
      (simp_all add: two_children_def two_buttons_def child_ok_def new_meta_def button_ctl_def)
qed

lemma hit_two_children:
  "hit (POINT 25 10) (two_children ! 1)" "hit (POINT 5 5) (two_children ! 0)" "\<not> hit (POINT 5 5) (two_children ! 1)"
  by code_simp+

lemma mouse_goes_to_topmost_child_witness:
  "\<exists>s'. naked s' = naked two_buttons \<and> window_message_dispatcher (\<lambda>p m. retS S_OK) 0x1000 (Mouse_message HJ_MESSAGE_MOUSE_UP 25 10 0) two_buttons
     = send_to_child (\<lambda>p m. retS S_OK) (two_children ! 1) HJ_MESSAGE_MOUSE_UP 25 10 0 s'"
  using mouse_goes_to_topmost_child [OF two_buttons_facts, of 1 25 10 "\<lambda>p m. retS S_OK" HJ_MESSAGE_MOUSE_UP 0] hit_two_children
  by (auto simp: two_children_def)

lemma first_child_never_gets_mouse_witness:
  "\<exists>s'. hit (POINT 5 5) (two_children ! 0)
     \<and> window_message_dispatcher (\<lambda>p m. retS S_OK) 0x1000 (Mouse_message HJ_MESSAGE_MOUSE_UP 5 5 0) two_buttons = Inr ((S_OK, False), s')"
  using first_child_never_gets_mouse [OF two_buttons_facts(1,2), of "two_children ! 0" "[two_children ! 1]" 5 5 "\<lambda>p m. retS S_OK" HJ_MESSAGE_MOUSE_UP 0]
    two_buttons_facts(3) hit_two_children
  by (auto simp: two_children_def)

end
