(* ===== verification/Henjin.thy ===== *)
theory Henjin
  imports Desktop Mouse
begin

unbundle bit_operations_syntax

text \<open>
  The window server: \<^verbatim>\<open>henjin.c\<close> with the demo application of \<^verbatim>\<open>henjin_demos.c\<close>, and the recursion between sending a
  message and handling it. A message to an immediate control is handled in the call that sends it, and the
  handler may send further messages; the first argument of \<open>hj_queue_message\<close> is the number of such calls that the
  stack has room for; two are enough (\<open>NestedCalls\<close>).
\<close>

section \<open>Sending and handling\<close>

definition henjin_unregister_window :: "u32 \<Rightarrow> hresult act" where
  "henjin_unregister_window wnd = retS E_NOTIMPL"

definition demo1_quit :: "u32 \<Rightarrow> hresult act" where
  "demo1_quit wnd = okS (henjin_unregister_window wnd) (retS S_OK)"

definition demo1_message_handler :: "sender \<Rightarrow> u32 \<Rightarrow> hj_message \<Rightarrow> hresult act" where
  "demo1_message_handler Q this msg =
     bindS (HJ_CAST this HJ_CLASS_WINDOW) (\<lambda>wnd.
     case msg of
       HJ_MESSAGE_REPAINT rect gc \<Rightarrow> retS S_OK
     | HJ_MESSAGE_RESIZE x y fmt \<Rightarrow> okS (hj_control_invalidate_rect Q wnd (RECT 0 0 (ucast x) (ucast y))) (retS S_OK)
     | HJ_MESSAGE_QUIT \<Rightarrow> demo1_quit wnd
     | _ \<Rightarrow> retS S_FALSE)"

text \<open>The calls through function pointers.\<close>

fun call_app :: "sender \<Rightarrow> app_handler \<Rightarrow> u32 \<Rightarrow> hj_message \<Rightarrow> hresult act" where
  "call_app Q Demo1_message_handler = demo1_message_handler Q"

fun call_feedback :: "sender \<Rightarrow> feedback" where
  "call_feedback Q Desktop_receive_feedback = desktop_receive_feedback Q"
| "call_feedback Q Window_receive_feedback = window_receive_feedback Q"

fun call_handler :: "sender \<Rightarrow> msg_handler \<Rightarrow> u32 \<Rightarrow> hj_message \<Rightarrow> hresult act" where
  "call_handler Q Desktop_message_handler = desktop_message_handler Q"
| "call_handler Q Window_message_handler = window_message_handler Q (call_feedback Q) (call_app Q)"
| "call_handler Q Taskpan_message_handler = taskpan_message_handler Q"
| "call_handler Q Button_message_handler = button_message_handler (call_feedback Q)"

fun call_dispatcher :: "sender \<Rightarrow> msg_dispatcher \<Rightarrow> u32 \<Rightarrow> hj_message \<Rightarrow> (hresult \<times> bool) act" where
  "call_dispatcher Q Desktop_dispatch_message = desktop_dispatch_message Q"
| "call_dispatcher Q Window_message_dispatcher = window_message_dispatcher Q"

definition process_with :: "sender \<Rightarrow> u32 \<Rightarrow> hj_message \<Rightarrow> hresult act" where
  "process_with Q = process_message (call_handler Q) (call_dispatcher Q)"

fun hj_queue_message :: "nat \<Rightarrow> u32 \<Rightarrow> hj_message \<Rightarrow> hresult act" where
  "hj_queue_message 0 p msg = failS NoReturn"
| "hj_queue_message (Suc n) p msg = queue_message (process_with (hj_queue_message n)) p msg"

definition hj_process_message :: "nat \<Rightarrow> u32 \<Rightarrow> hj_message \<Rightarrow> hresult act" where
  "hj_process_message n = process_with (hj_queue_message n)"

section \<open>Threads\<close>

text \<open>One round of the loop of \<^verbatim>\<open>hj_desktop_thread_proc\<close> or of \<^verbatim>\<open>demo1_thread_proc\<close>; the result is whether there was a
  message. \<open>msg0\<close> are the bytes of the place for it.\<close>

definition pump :: "nat \<Rightarrow> string \<Rightarrow> string \<Rightarrow> bytes \<Rightarrow> u32 \<Rightarrow> bool act" where
  "pump n no_message not_processed msg0 p =
     bindS (hj_get_message p msg0) (\<lambda>(hr, b).
     if hr = E_BUFFERUNDERFLOW then retS False
     else if FAILED hr then failS (Panic no_message)
     else case message_of b of
       None \<Rightarrow> failS BadAccess
     | Some msg \<Rightarrow>
         bindS (hj_process_message n p msg) (\<lambda>hr. if FAILED hr then failS (Panic not_processed) else retS True))"

definition desktop_round :: "nat \<Rightarrow> bytes \<Rightarrow> u32 \<Rightarrow> bool act" where
  "desktop_round n msg0 desktop =
     pump n ''hj_desktop_thread_proc(): failed to retrieve message.''
       ''hj_desktop_thread_proc(): failed to process message.'' msg0 desktop"

definition demo1_round :: "nat \<Rightarrow> bytes \<Rightarrow> u32 \<Rightarrow> bool act" where
  "demo1_round n msg0 wnd_demo1 =
     pump n ''demo1_thread_proc(): failed to retrieve message.'' ''demo1_thread_proc(): failed to process message.''
       msg0 wnd_demo1"

section \<open>The server\<close>

record hj_server =
  sv_mouse_driver_events :: "ring_buffer option"
  sv_mouse_drv :: u32
  sv_mouse_pos :: NXGI_POINT
  sv_screen_rect :: NXGI_RECT
  sv_desktop :: u32
  sv_running :: bool

text \<open>The layout of \<^verbatim>\<open>K_MOUSE_EVENT\<close>, whose unused bytes are zero.\<close>

definition sizeof_mouse_event :: nat where "sizeof_mouse_event = 12"

fun event_bytes :: "mouse_event \<Rightarrow> bytes" where
  "event_bytes (MOUSE_EVENT_MOVEMENT x y) = le_bytes 4 (0 :: u32) @ le_bytes 4 x @ le_bytes 4 y"
| "event_bytes (MOUSE_EVENT_SCROLL amount) = le_bytes 4 (1 :: u32) @ le_bytes 4 amount @ replicate 4 0"
| "event_bytes (MOUSE_EVENT_BUTTON_DOWN b) = le_bytes 4 (2 :: u32) @ le_bytes 4 (of_nat b :: u32) @ replicate 4 0"
| "event_bytes (MOUSE_EVENT_BUTTON_UP b) = le_bytes 4 (3 :: u32) @ le_bytes 4 (of_nat b :: u32) @ replicate 4 0"

text \<open>The events that a buffer can hold, a type outside the enumeration being none of them.\<close>

definition event_of :: "bytes \<Rightarrow> mouse_event option" where
  "event_of b =
     (let t = le_word (buf_get b 0 4) :: u32; v = le_word (buf_get b 4 4) :: u32; w = le_word (buf_get b 8 4) :: u32 in
      if t = 0 then Some (MOUSE_EVENT_MOVEMENT v w)
      else if t = 1 then Some (MOUSE_EVENT_SCROLL v)
      else if t = 2 then Some (MOUSE_EVENT_BUTTON_DOWN (unat v))
      else if t = 3 then Some (MOUSE_EVENT_BUTTON_UP (unat v))
      else None)"

text \<open>The queue of the server, on the processor of the state.\<close>

definition events_step :: "hj_server \<Rightarrow> (cpu \<Rightarrow> ring_buffer \<Rightarrow> ('a \<times> cpu \<times> ring_buffer) run) \<Rightarrow> ('a \<times> hj_server) act" where
  "events_step sv f s =
     (case sv_mouse_driver_events sv of
        None \<Rightarrow> Inl BadAccess
      | Some q \<Rightarrow> bindR (f (gu_cpu s) q) (\<lambda>(x, cpu, q).
          Inr ((x, sv\<lparr>sv_mouse_driver_events := Some q\<rparr>), s\<lparr>gu_cpu := cpu\<rparr>)))"

definition henjin_mouse_driver_callback :: "mouse_event \<Rightarrow> hj_server \<Rightarrow> (hresult \<times> hj_server) act" where
  "henjin_mouse_driver_callback ev sv =
     bindS (events_step sv (\<lambda>cpu q. rb_write cpu q (event_bytes ev) (of_nat sizeof_mouse_event))) (\<lambda>(_, sv). retS (S_OK, sv))"

text \<open>One event as a message to the desktop; results of sending are ignored.\<close>

fun mouse_event_message :: "mouse_event \<Rightarrow> hj_server \<Rightarrow> hj_server \<times> hj_message option" where
  "mouse_event_message (MOUSE_EVENT_MOVEMENT dx dy) sv =
     (let p = nxgig_clip_point (POINT (px (sv_mouse_pos sv) + dx) (py (sv_mouse_pos sv) - dy)) (sv_screen_rect sv) in
      (sv\<lparr>sv_mouse_pos := p\<rparr>, Some (Mouse_message HJ_MESSAGE_MOUSE_MOVED (ucast (px p)) (ucast (py p)) 0)))"
| "mouse_event_message (MOUSE_EVENT_BUTTON_UP b) sv =
     (sv, Some (Mouse_message HJ_MESSAGE_MOUSE_UP (ucast (px (sv_mouse_pos sv))) (ucast (py (sv_mouse_pos sv))) (of_nat b)))"
| "mouse_event_message (MOUSE_EVENT_BUTTON_DOWN b) sv =
     (sv, Some (Mouse_message HJ_MESSAGE_MOUSE_DOWN (ucast (px (sv_mouse_pos sv))) (ucast (py (sv_mouse_pos sv))) 0))"
| "mouse_event_message (MOUSE_EVENT_SCROLL amount) sv = (sv, None)"

text \<open>The loop over the queued events, \<open>fuel\<close> rounds at most; \<open>ev0\<close> are the bytes of the variable for the event.\<close>

fun mouse_events_loop :: "sender \<Rightarrow> nat \<Rightarrow> bytes \<Rightarrow> u32 \<Rightarrow> hj_server \<Rightarrow> (hresult \<times> hj_server) act" where
  "mouse_events_loop Q 0 ev0 desktop sv = failS NoReturn"
| "mouse_events_loop Q (Suc fuel) ev0 desktop sv =
     bindS (events_step sv rb_get_read_size) (\<lambda>(n, sv).
     if n < of_nat sizeof_mouse_event then retS (S_OK, sv)
     else
       bindS (events_step sv (\<lambda>cpu q. bindR (rb_read cpu q ev0 (of_nat sizeof_mouse_event)) (\<lambda>(hr, b, cpu, q).
                                       Inr ((hr, b), cpu, q)))) (\<lambda>((hr, b), sv).
       if FAILED hr then retS (hr, sv)
       else case event_of b of
         None \<Rightarrow> mouse_events_loop Q fuel b desktop sv
       | Some ev \<Rightarrow>
           (case mouse_event_message ev sv of (sv, m) \<Rightarrow>
             thenS (case m of None \<Rightarrow> retS S_OK | Some m \<Rightarrow> Q desktop m) (mouse_events_loop Q fuel b desktop sv))))"

text \<open>A round takes twelve bytes from the queue, so there are fewer rounds than it has bytes.\<close>

definition henjin_process_mouse_events :: "sender \<Rightarrow> bytes \<Rightarrow> hj_server \<Rightarrow> (hresult \<times> hj_server) act" where
  "henjin_process_mouse_events Q ev0 sv =
     bindS (HJ_CAST (sv_desktop sv) HJ_CLASS_CONTROL) (\<lambda>desktop.
     case sv_mouse_driver_events sv of
       None \<Rightarrow> failS BadAccess
     | Some q \<Rightarrow> mouse_events_loop Q (unat (rb_capacity q) + 1) ev0 desktop sv)"

text \<open>\<open>wait\<close> is \<^verbatim>\<open>event_waitfor\<close> of an event with what the other threads do until it returns, and \<open>video\<close> what opening the
  video driver and asking for its interface return.\<close>

definition henjin_set_resolution ::
  "sender \<Rightarrow> (u32 \<Rightarrow> u32 \<Rightarrow> hresult act) \<Rightarrow> (hresult \<times> u32) \<times> (hresult \<times> video_iface) \<Rightarrow> u32 \<Rightarrow> u32 \<Rightarrow> NXGI_FORMAT
   \<Rightarrow> hj_server \<Rightarrow> (hresult \<times> hj_server) act" where
  "henjin_set_resolution Q wait video width height format sv =
     bindS kallocS (\<lambda>ev.
     if ev = 0 then retS (E_OUTOFMEM, sv)
     else
       thenS (\<lambda>s. Inr ((), s\<lparr>gu_events := (gu_events s)(ev \<mapsto> event_create EVENT_FLAG_AUTORESET)\<rparr>))
       (bindS
         (let send = (\<lambda>m. bindS (HJ_CAST (sv_desktop sv) HJ_CLASS_CONTROL) (\<lambda>d. Q d m)) in
          okS (send (HJ_MESSAGE_DISABLE_DRAWING ev))
          (okS (wait ev 5000)
          (thenS (gfx (nxgi_fini (snd video)))
          (bindS kallocS (\<lambda>ptr.
           okS (gfx (nxgi_init (fst video) (snd video) ptr width height format))
           (okS (send (HJ_MESSAGE_ENABLE_DRAWING 0))
           (thenS (\<lambda>s. bindR (derefC (gu_events s) ev) (\<lambda>e. bindR (event_reset (gu_cpu s) e) (\<lambda>(cpu, e).
                    Inr ((), s\<lparr>gu_cpu := cpu, gu_events := (gu_events s)(ev \<mapsto> e)\<rparr>))))
           (okS (send (HJ_MESSAGE_RESIZE (ucast width) (ucast height) NXGI_FORMAT_RGBA32))
           (send (HJ_MESSAGE_REPAINT (RECT 0 0 width height) 0)))))))))) (\<lambda>hr.
        thenS (\<lambda>s. Inr ((), s\<lparr>gu_events := (gu_events s)(ev := None)\<rparr>))
        (retS (hr, if FAILED hr then sv
                   else let r = RECT 0 0 width height in
                        sv\<lparr>sv_screen_rect := r, sv_mouse_pos := nxgig_clip_point (sv_mouse_pos sv) r\<rparr>)))))"

definition henjin_register_window :: "hj_server \<Rightarrow> u32 \<Rightarrow> NXGI_POINT \<Rightarrow> hresult act" where
  "henjin_register_window sv wnd position =
     bindS (HJ_CAST (sv_desktop sv) HJ_CLASS_CONTROL) (\<lambda>desktop.
     bindS (HJ_CAST wnd HJ_CLASS_CONTROL) (\<lambda>control.
     okS (hj_add_child desktop control)
     (bindS (hj_get_children_count desktop) (\<lambda>n.
      okS (hj_control_set_child_decoration desktop (n - 1) HJ_DECORATION_NORMAL)
      (bindS (hj_get_children_count desktop) (\<lambda>n.
       okS (hj_control_set_child_position desktop (n - 1) position) (retS S_OK)))))))"

section \<open>The demo application\<close>

text \<open>One button of the demo: created, added to the window, labelled, placed and sized.\<close>

definition demo1_button :: "sender \<Rightarrow> u32 \<Rightarrow> string \<Rightarrow> NXGI_POINT \<Rightarrow> NXGI_SIZE \<Rightarrow> hresult act" where
  "demo1_button Q wnd caption pos sz =
     bindS hj_create_button (\<lambda>btn.
     if btn = 0 then retS E_FAIL
     else
       okS (hj_add_child wnd btn)
       (okS (hj_btn_set_caption (call_feedback Q) btn (map of_char caption))
       (bindS (hj_get_children_count wnd) (\<lambda>n.
        thenS (hj_control_set_child_position wnd (n - 1) pos)
        (thenS (hj_control_resize Q btn sz) (retS S_OK))))))"

text \<open>\<open>thread\<close> is the result of \<^verbatim>\<open>sched_create_thread\<close>. The result includes the new value of \<^verbatim>\<open>wnd_demo1\<close>.\<close>

definition demo1_init :: "sender \<Rightarrow> hresult \<Rightarrow> hj_server \<Rightarrow> (hresult \<times> u32) act" where
  "demo1_init Q thread sv =
     bindS (hj_create_window (Some Demo1_message_handler)) (\<lambda>wnd.
     if wnd = 0 then retS (E_FAIL, 0)
     else
       bindS (hj_control_resize Q wnd (SIZE 300 200)) (\<lambda>hr.
       if FAILED hr then retS (hr, 0)
       else
         bindS (okS (henjin_register_window sv wnd (POINT 100 100))
               (okS (demo1_button Q wnd ''Okay'' (POINT 220 160) (SIZE 70 30))
               (okS (demo1_button Q wnd ''Cancel'' (POINT (210 - 120) 160) (SIZE 120 30))
               (okS (retS thread) (retS S_OK))))) (\<lambda>hr. retS (hr, wnd))))"

section \<open>Start and end\<close>

text \<open>Closing the mouse: the request and the closing are calls of the driver, whose results are not used.\<close>

definition henjin_shutdown_server :: "hj_server \<Rightarrow> hresult \<times> hj_server" where
  "henjin_shutdown_server sv = (E_NOTIMPL, if sv_mouse_drv sv \<noteq> 0 then sv\<lparr>sv_mouse_drv := 0\<rparr> else sv)"

text \<open>What the calls outside the window system return while the server starts: creating the threads of the desktop
  and of the demo, opening the mouse and registering the callback.\<close>

record start_env =
  se_desktop_thread :: hresult
  se_demo_thread :: hresult
  se_mouse :: "hresult \<times> u32"
  se_register :: hresult

text \<open>The start of the server up to its loop: \<open>None\<close> when it enters the loop, and the status when it gives up.\<close>

definition henjin_start_server ::
  "sender \<Rightarrow> (u32 \<Rightarrow> u32 \<Rightarrow> hresult act) \<Rightarrow> (hresult \<times> u32) \<times> (hresult \<times> video_iface) \<Rightarrow> (nat \<Rightarrow> mutex \<Rightarrow> mutex) \<Rightarrow> start_env
   \<Rightarrow> hj_server \<Rightarrow> (hresult option \<times> hj_server) act" where
  "henjin_start_server Q wait video others env sv =
     bindS (hj_create_desktop others) (\<lambda>desktop.
     let sv = sv\<lparr>sv_desktop := desktop\<rparr>;
         fail = (\<lambda>sv. thenS (hj_destroy_desktop others (sv_desktop sv)) (retS (Some E_FAIL, sv\<lparr>sv_desktop := 0\<rparr>))) in
     if FAILED (se_desktop_thread env)
     then retS (Some (se_desktop_thread env), snd (henjin_shutdown_server sv))
     else
       bindS (henjin_set_resolution Q wait video 640 480 NXGI_FORMAT_BGRA32 sv) (\<lambda>(hr, sv).
       if FAILED hr then fail sv
       else
         bindS (demo1_init Q (se_demo_thread env) sv) (\<lambda>(hr, _).
         if FAILED hr then fail sv
         else
           bindS kallocS (\<lambda>desc. bindS (readS (\<lambda>s. Inr (gu_blocks s (128 * of_nat sizeof_mouse_event)))) (\<lambda>mem.
           let sv = sv\<lparr>sv_mouse_driver_events :=
                         create_ring_buffer (desc \<noteq> 0) mem (128 * of_nat sizeof_mouse_event) RING_BUFFER_LOCK_SPINLOCK,
                       sv_running := True\<rparr>;
               sv = (if SUCCEEDED (fst (se_mouse env)) then sv\<lparr>sv_mouse_drv := snd (se_mouse env)\<rparr> else sv) in
           if SUCCEEDED (fst (se_mouse env)) \<and> FAILED (se_register env) then fail sv else retS (None, sv))))))"

text \<open>One round of the loop of the server; \<open>Some\<close> when it ends.\<close>

definition henjin_server_round ::
  "sender \<Rightarrow> bytes \<Rightarrow> (nat \<Rightarrow> mutex \<Rightarrow> mutex) \<Rightarrow> hj_server \<Rightarrow> (hresult option \<times> hj_server) act" where
  "henjin_server_round Q ev0 others sv =
     bindS (henjin_process_mouse_events Q ev0 sv) (\<lambda>(hr, sv).
     if FAILED hr
     then thenS (hj_destroy_desktop others (sv_desktop sv)) (retS (Some E_FAIL, sv\<lparr>sv_desktop := 0\<rparr>))
     else retS (None, sv))"

end
