(* ===== verification/NestedCalls.thy ===== *)
theory NestedCalls
  imports Henjin MouseDispatch
begin

unbundle bit_operations_syntax

text \<open>
  How deep sending a message nests. A message to an immediate control is handled in the call that sends it, by a
  handler that may send messages itself; two such calls inside each other are the most that happens.
\<close>

section \<open>Programs that agree\<close>

text \<open>Controls that handle messages when they are sent are buttons and the task panel.\<close>

definition leaf :: "hj_control \<Rightarrow> bool" where
  "leaf c \<longleftrightarrow> (hc_type c = HJ_CONTROL_IMMEDIATE \<longrightarrow>
     hc_dispatcher c = None \<and> (hc_handler c = Some Taskpan_message_handler \<or> hc_handler c = Some Button_message_handler))"

definition leaves :: "gui \<Rightarrow> bool" where
  "leaves s \<longleftrightarrow> (\<forall>p c. gu_ctrls s p = Some c \<longrightarrow> leaf c)"

text \<open>\<open>agree m m'\<close>: on such states the two programs do the same, and they end in such states.\<close>

definition agree :: "'a act \<Rightarrow> 'a act \<Rightarrow> bool" where
  "agree m m' \<longleftrightarrow> (\<forall>s. leaves s \<longrightarrow> m s = m' s \<and> (\<forall>r s'. m s = Inr (r, s') \<longrightarrow> leaves s'))"

named_theorems agree_intros

lemma agreeI: "(\<And>s. leaves s \<Longrightarrow> m s = m' s) \<Longrightarrow> (\<And>s r s'. leaves s \<Longrightarrow> m s = Inr (r, s') \<Longrightarrow> leaves s') \<Longrightarrow> agree m m'"
  by (auto simp: agree_def)

lemma agreeD: "agree m m' \<Longrightarrow> leaves s \<Longrightarrow> m s = m' s" "agree m m' \<Longrightarrow> leaves s \<Longrightarrow> m s = Inr (r, s') \<Longrightarrow> leaves s'"
  by (auto simp: agree_def)

lemma agree_ret [agree_intros]: "agree (retS x) (retS x)"
  by (auto simp: agree_def retS_def)

lemma agree_fail [agree_intros]: "agree (failS h) (failS h)"
  by (auto simp: agree_def failS_def)

lemma agree_bind [agree_intros]:
  assumes "agree m m'" and "\<And>x. agree (f x) (f' x)"
  shows "agree (bindS m f) (bindS m' f')"
proof (rule agreeI)
  fix s assume l: "leaves s"
  show "bindS m f s = bindS m' f' s"
    using agreeD [OF assms(1) l] agreeD(1) [OF assms(2)] by (cases "m' s") (auto simp: bindS_def split: prod.split)
  fix r s' assume "bindS m f s = Inr (r, s')"
  then show "leaves s'"
    using agreeD [OF assms(1) l] agreeD(2) [OF assms(2)] by (cases "m' s") (auto simp: bindS_def split: prod.splits)
qed

lemma agree_then [agree_intros]: "agree m m' \<Longrightarrow> agree f f' \<Longrightarrow> agree (thenS m f) (thenS m' f')"
  unfolding thenS_def by (intro agree_intros)

lemma agree_if [agree_intros]: "agree a a' \<Longrightarrow> agree b b' \<Longrightarrow> agree (if P then a else b) (if P then a' else b')"
  by simp

lemma agree_ok [agree_intros]: "agree m m' \<Longrightarrow> agree f f' \<Longrightarrow> agree (okS m f) (okS m' f')"
  unfolding okS_def by (intro agree_intros)

lemma agree_option [agree_intros]:
  "agree a a' \<Longrightarrow> (\<And>y. agree (b y) (b' y)) \<Longrightarrow> agree (case x of None \<Rightarrow> a | Some y \<Rightarrow> b y) (case x of None \<Rightarrow> a' | Some y \<Rightarrow> b' y)"
  by (cases x) simp_all

lemma agree_prod [agree_intros]: "(\<And>a b. agree (f a b) (g a b)) \<Longrightarrow> agree (case x of (a, b) \<Rightarrow> f a b) (case x of (a, b) \<Rightarrow> g a b)"
  by (cases x) simp

lemma agree_message [agree_intros]:
  assumes "\<And>k x y b. agree (m k x y b) (m' k x y b)" "\<And>x y. agree (kd x y) (kd' x y)" "\<And>x y. agree (ku x y) (ku' x y)"
    "\<And>x y f. agree (rs x y f) (rs' x y f)" "\<And>r g. agree (rp r g) (rp' r g)" "\<And>e. agree (di e) (di' e)"
    "\<And>e. agree (en e) (en' e)" "agree q q'"
  shows "agree (case_hj_message m kd ku rs rp di en q msg) (case_hj_message m' kd' ku' rs' rp' di' en' q' msg)"
  by (cases msg) (simp_all add: assms)

lemma agree_mouse [agree_intros]:
  "agree a a' \<Longrightarrow> agree b b' \<Longrightarrow> agree c c' \<Longrightarrow> agree d d' \<Longrightarrow> agree e e' \<Longrightarrow>
   agree (case_mouse_message a b c d e k) (case_mouse_message a' b' c' d' e' k)"
  by (cases k) simp_all

lemma agree_read [agree_intros]: "agree (readS f) (readS f)"
proof (rule agreeI)
  fix s r s' assume "leaves s" "readS f s = Inr (r, s')"
  then show "leaves s'" by (cases "f s") (auto simp: readS_def)
qed simp

lemma agree_gfx [agree_intros]: "agree (gfx f) (gfx f)"
proof (rule agreeI)
  fix s r s' assume "leaves s" "gfx f s = Inr (r, s')"
  then show "leaves s'" by (cases "f (gu_gfx s)") (auto simp: gfx_def leaves_def)
qed simp

lemma agree_gfx_loop [agree_intros]: "agree (gfx_loop f) (gfx_loop f)"
  unfolding gfx_loop_def by (rule agree_gfx)

lemma agree_kalloc [agree_intros]: "agree kallocS kallocS"
  by (auto simp: agree_def kallocS_def leaves_def split: list.splits)

lemma agree_other: "(\<And>s. gu_ctrls (f s) = gu_ctrls s) \<Longrightarrow> agree (\<lambda>s. Inr (x, f s)) (\<lambda>s. Inr (x, f s))"
  by (auto simp: agree_def leaves_def)

lemma agree_ctl [agree_intros]: "agree (ctl p) (ctl p)" "agree (meta m) (meta m)"
  unfolding ctl_def meta_def by (intro agree_intros)+

lemma agree_put_ctl:
  assumes "\<And>c. leaf c \<Longrightarrow> leaf (f c)"
  shows "agree (upd_ctl p f) (upd_ctl p f)"
proof (rule agreeI)
  fix s r s' assume "leaves s" "upd_ctl p f s = Inr (r, s')"
  then show "leaves s'" using assms
    by (auto simp: upd_ctl_def bindS_def ctl_def readS_def derefC_def leaves_def split: if_splits option.splits)
qed simp

lemma agree_upd_meta [agree_intros]: "agree (upd_meta m f) (upd_meta m f)"
  unfolding upd_meta_def by (intro agree_intros agree_other) simp

lemma leaf_put_lock [simp]: "leaf (put_lock l m c) = leaf c"
  by (cases l) (simp_all add: leaf_def)

lemma agree_lock_step [agree_intros]: "agree (lock_step f l p) (lock_step f l p)"
proof (rule agreeI)
  fix s r s' assume l: "leaves s" and st: "lock_step f l p s = Inr (r, s')"
  obtain c where c: "gu_ctrls s p = Some c" "p \<noteq> 0"
    using st by (auto simp: lock_step_def bindS_def ctl_def readS_def derefC_def split: if_splits option.splits)
  then show "leaves s'" using l st
    by (cases "f (gu_cpu s) (get_lock l c)") (auto simp: lock_step_def bindS_def ctl_def readS_def derefC_def leaves_def split: if_splits)
qed simp

lemma agree_critical [agree_intros]: "agree m m' \<Longrightarrow> agree (critical l p m) (critical l p m')"
  unfolding critical_def by (intro agree_intros)

lemma agree_HJ_CAST [agree_intros]: "agree (HJ_CAST p k) (HJ_CAST p k)" "agree (HJ_SUPPORTS p k) (HJ_SUPPORTS p k)"
  unfolding HJ_CAST_def HJ_SUPPORTS_def by (intro agree_intros)+

text \<open>Changes of a control that keep how it handles messages.\<close>

lemma agree_upd_ctl [agree_intros]:
  "(\<And>c. hc_type (f c) = hc_type c) \<Longrightarrow> (\<And>c. hc_dispatcher (f c) = hc_dispatcher c) \<Longrightarrow> (\<And>c. hc_handler (f c) = hc_handler c) \<Longrightarrow>
   agree (upd_ctl p f) (upd_ctl p f)"
  by (rule agree_put_ctl) (simp add: leaf_def)

section \<open>The operations of controls\<close>

lemma agree_child_list [agree_intros]: "agree (child_list p) (child_list p)" "agree (child_at p i) (child_at p i)"
  unfolding child_at_def child_list_def by (intro agree_intros)+

lemma agree_reads [agree_intros]:
  "agree (hj_get_children_count p) (hj_get_children_count p)" "agree (hj_control_get_size p) (hj_control_get_size p)"
  "agree (hj_get_child_at p i) (hj_get_child_at p i)" "agree (hj_get_child_boundsrect p i) (hj_get_child_boundsrect p i)"
  "agree (hj_get_child_clientrect p i) (hj_get_child_clientrect p i)" "agree (hj_control_get_gc p) (hj_control_get_gc p)"
  "agree (hj_control_get_theme p) (hj_control_get_theme p)"
  unfolding hj_get_children_count_def hj_control_get_size_def hj_get_child_at_def hj_get_child_boundsrect_def
    hj_get_child_clientrect_def hj_control_get_gc_def hj_control_get_theme_def
  by (intro agree_intros)+

lemma agree_child_find_loop [agree_intros]: "agree (child_find_loop p c i n) (child_find_loop p c i n)"
  by (induction n arbitrary: i) (auto intro!: agree_intros)

lemma agree_child_ops [agree_intros]:
  "agree (hj_child_find p c) (hj_child_find p c)"
  "agree (hj_control_set_child_position p i pos) (hj_control_set_child_position p i pos)"
  "agree (hj_control_set_child_decoration p i d) (hj_control_set_child_decoration p i d)"
  unfolding hj_child_find_def hj_control_set_child_position_def hj_control_set_child_decoration_def
  by (intro agree_intros)+

lemma agree_free_surface [agree_intros]: "agree (hj_control_free_surface p) (hj_control_free_surface p)"
  unfolding hj_control_free_surface_def by (intro agree_intros) simp_all

lemma agree_realloc_surface [agree_intros]:
  "agree (hj_control_realloc_surface p sz fmt) (hj_control_realloc_surface p sz fmt)"
  unfolding hj_control_realloc_surface_def surface_fits_def by (intro agree_intros) simp_all

lemma agree_request_repaint [agree_intros]:
  "(\<And>f q r. agree (F f q p r) (F' f q p r)) \<Longrightarrow>
   agree (hj_control_request_parent_repaint F p d) (hj_control_request_parent_repaint F' p d)"
  unfolding hj_control_request_parent_repaint_def by (intro agree_intros)

lemma agree_each_child [agree_intros]:
  assumes "\<And>acc i. agree (b acc i) (b' acc i)"
  shows "agree (each_child b p i acc) (each_child b' p i acc)"
proof (induction "2 ^ 32 - unat i" arbitrary: i acc rule: less_induct)
  case less
  have step: "agree (bindS (b acc i) (\<lambda>(hr, acc). if FAILED hr then retS (hr, acc) else each_child b p (i + 1) acc))
    (bindS (b' acc i) (\<lambda>(hr, acc). if FAILED hr then retS (hr, acc) else each_child b' p (i + 1) acc))" if "i < n" for n
  proof (intro agree_intros assms)
    fix acc'
    have "2 ^ 32 - unat (i + 1) < 2 ^ 32 - unat i" using word_below_Suc [OF that] unat_lt_2_32 [of i] by simp
    then show "agree (each_child b p (i + 1) acc') (each_child b' p (i + 1) acc')" by (rule less)
  qed
  show ?case
  proof (subst (1 2) each_child.simps, rule agree_bind, rule agree_reads)
    show "agree (if i < n then bindS (b acc i) (\<lambda>(hr, acc). if FAILED hr then retS (hr, acc) else each_child b p (i + 1) acc) else retS (S_OK, acc))
     (if i < n then bindS (b' acc i) (\<lambda>(hr, acc). if FAILED hr then retS (hr, acc) else each_child b' p (i + 1) acc) else retS (S_OK, acc))" for n
      using step [of n] agree_ret by (cases "i < n") simp_all
  qed
qed

section \<open>Handlers\<close>

definition repaints_agree :: "sender \<Rightarrow> sender \<Rightarrow> bool" where
  "repaints_agree Q Q' \<longleftrightarrow> (\<forall>p r g. agree (Q p (HJ_MESSAGE_REPAINT r g)) (Q' p (HJ_MESSAGE_REPAINT r g)))"

lemma repaints_agreeD [agree_intros]:
  assumes "repaints_agree Q Q'"
  shows "agree (hj_control_invalidate_rect Q p r) (hj_control_invalidate_rect Q' p r)"
    "agree (hj_control_invalidate_rect2 Q p r g) (hj_control_invalidate_rect2 Q' p r g)"
    "agree (receive_feedback Q p c r) (receive_feedback Q' p c r)"
proof -
  have r: "agree (Q p (HJ_MESSAGE_REPAINT r g)) (Q' p (HJ_MESSAGE_REPAINT r g))" for p r g
    using assms by (simp add: repaints_agree_def)
  show "agree (hj_control_invalidate_rect Q p r) (hj_control_invalidate_rect Q' p r)"
    "agree (hj_control_invalidate_rect2 Q p r g) (hj_control_invalidate_rect2 Q' p r g)"
    "agree (receive_feedback Q p c r) (receive_feedback Q' p c r)"
    unfolding receive_feedback_def hj_control_invalidate_rect_def hj_control_invalidate_rect2_def
    by (intro agree_intros r)+
qed

lemma agree_feedback [agree_intros]: "repaints_agree Q Q' \<Longrightarrow> agree (call_feedback Q f p c r) (call_feedback Q' f p c r)"
  by (cases f) (simp_all add: desktop_receive_feedback_def window_receive_feedback_def agree_intros)

lemma agree_btn [agree_intros]: "agree (btn_at p) (btn_at p)" "agree (upd_btn p f) (upd_btn p f)" "agree (pan_at p) (pan_at p)"
  "agree (wnd_at p) (wnd_at p)" "agree (dsk_at p) (dsk_at p)" "agree (upd_dsk p g) (upd_dsk p g)"
  unfolding btn_at_def upd_btn_def pan_at_def wnd_at_def dsk_at_def upd_dsk_def
  by (intro agree_intros agree_other; simp)+

lemma agree_draw [agree_intros]: "agree (set_system_font gc c) (set_system_font gc c)"
  "agree (draw_upper_glyph gc t cap r) (draw_upper_glyph gc t cap r)" "agree (draw_lower_glyph gc t cap r) (draw_lower_glyph gc t cap r)"
  "agree (colored_line gc c xa ya xb yb) (colored_line gc c xa ya xb yb)" "agree (taskpane_set_text_color p c) (taskpane_set_text_color p c)"
  unfolding set_system_font_def draw_upper_glyph_def draw_lower_glyph_def colored_line_def taskpane_set_text_color_def
  by (intro agree_intros)+

lemma agree_button [agree_intros]:
  assumes "repaints_agree Q Q'"
  shows "agree (button_message_handler (call_feedback Q) p msg) (button_message_handler (call_feedback Q') p msg)"
  unfolding button_message_handler_def button_repaint_def button_resize_def button_update_backbuffer_def button_mouse_down_def
    button_mouse_up_def Let_def
  using assms by (intro agree_intros) simp_all

lemma agree_taskpan [agree_intros]:
  assumes "repaints_agree Q Q'"
  shows "agree (taskpan_message_handler Q p msg) (taskpan_message_handler Q' p msg)"
  unfolding taskpan_message_handler_def taskpan_repaint_def taskpan_resize_def Let_def
  using assms by (intro agree_intros agree_other) simp_all

text \<open>Repainting a button or the panel sends nothing.\<close>

lemma agree_repaint_leaf:
  "agree (button_message_handler F p (HJ_MESSAGE_REPAINT r g)) (button_message_handler F' p (HJ_MESSAGE_REPAINT r g))"
  "agree (taskpan_message_handler Q p (HJ_MESSAGE_REPAINT r g)) (taskpan_message_handler Q' p (HJ_MESSAGE_REPAINT r g))"
  unfolding button_message_handler_def button_repaint_def taskpan_message_handler_def taskpan_repaint_def Let_def
  by (simp_all only: hj_message.case) (intro agree_intros)+

section \<open>Sending\<close>

text \<open>What a control does with a message that is not dispatched further.\<close>

definition handle_now :: "sender \<Rightarrow> hj_control \<Rightarrow> u32 \<Rightarrow> hj_message \<Rightarrow> hresult act" where
  "handle_now Q c p msg = (case hc_handler c of None \<Rightarrow> failS BadAccess | Some h \<Rightarrow> call_handler Q h p msg)"

lemma process_leaf:
  assumes "gu_ctrls s p = Some c" and "p \<noteq> 0" and "hc_dispatcher c = None"
  shows "process_with Q p msg s = handle_now Q c p msg s"
  using assms by (simp add: process_with_def process_message_def handle_now_def bindS_def ctl_def readS_def derefC_def retS_def)

lemma agree_queue:
  assumes "\<And>c. agree (handle_now Q c p msg) (handle_now Q' c p msg) \<or> \<not> leaf c \<or> hc_type c \<noteq> HJ_CONTROL_IMMEDIATE"
  shows "agree (queue_message (process_with Q) p msg) (queue_message (process_with Q') p msg)"
proof -
  let ?send = "bindS (queue_step p rb_get_write_size) (\<lambda>n. if n < of_nat sizeof_hj_message then retS E_BUFFEROVERFLOW
      else queue_step p (\<lambda>cpu q. rb_write cpu q (message_bytes msg) (of_nat sizeof_hj_message)))"
  have step: "agree (queue_step p f) (queue_step p f)" for f :: "cpu \<Rightarrow> ring_buffer \<Rightarrow> ('a \<times> cpu \<times> ring_buffer) run"
  proof (rule agreeI)
    fix s r s' assume l: "leaves s" and st: "queue_step p f s = Inr (r, s')"
    obtain c q where c: "gu_ctrls s p = Some c" "p \<noteq> 0" "hc_queue c = Some q"
      using st by (auto simp: queue_step_def bindS_def ctl_def readS_def derefC_def split: if_splits option.splits)
    have "leaf (c\<lparr>hc_queue := q'\<rparr>)" for q' using l c by (auto simp: leaves_def leaf_def)
    then show "leaves s'" using l st c
      by (cases "f (gu_cpu s) q") (auto simp: queue_step_def bindS_def ctl_def readS_def derefC_def leaves_def split: if_splits)
  qed simp
  have send: "agree ?send ?send" by (intro agree_intros step)
  have body: "agree (bindS (ctl p) (\<lambda>c. if hc_type c = HJ_CONTROL_IMMEDIATE then process_with Q p msg else ?send))
    (bindS (ctl p) (\<lambda>c. if hc_type c = HJ_CONTROL_IMMEDIATE then process_with Q' p msg else ?send))"
  proof -
    have now: "process_with Q p msg s = process_with Q' p msg s \<and> (\<forall>r s'. process_with Q p msg s = Inr (r, s') \<longrightarrow> leaves s')"
      if l: "leaves s" and c: "gu_ctrls s p = Some c" "p \<noteq> 0" "hc_type c = HJ_CONTROL_IMMEDIATE" for s c
    proof -
      have lf: "leaf c" using l c by (simp add: leaves_def)
      then have d: "hc_dispatcher c = None" using c by (simp add: leaf_def)
      have "agree (handle_now Q c p msg) (handle_now Q' c p msg)" using assms [of c] lf c by simp
      then show ?thesis using process_leaf [OF c(1,2) d] l by (simp add: agree_def)
    qed
    show ?thesis unfolding agree_def
    proof (intro allI impI)
      fix s assume l: "leaves s"
      show "bindS (ctl p) (\<lambda>c. if hc_type c = HJ_CONTROL_IMMEDIATE then process_with Q p msg else ?send) s
          = bindS (ctl p) (\<lambda>c. if hc_type c = HJ_CONTROL_IMMEDIATE then process_with Q' p msg else ?send) s
        \<and> (\<forall>r s'. bindS (ctl p) (\<lambda>c. if hc_type c = HJ_CONTROL_IMMEDIATE then process_with Q p msg else ?send) s = Inr (r, s') \<longrightarrow> leaves s')"
        using l now [OF l] agreeD(2) [OF send l]
        by (cases "gu_ctrls s p") (auto simp: bindS_def ctl_def readS_def derefC_def)
    qed
  qed
  show ?thesis unfolding queue_message_def by (intro agree_intros body)
qed

text \<open>\<open>calls_below deeper n\<close> sends messages like \<open>hj_queue_message n\<close>, but the call inside \<open>n\<close> others does what
  \<open>deeper\<close> does.\<close>

fun calls_below :: "sender \<Rightarrow> nat \<Rightarrow> sender" where
  "calls_below deeper 0 = deeper"
| "calls_below deeper (Suc n) = queue_message (process_with (calls_below deeper n))"

lemma calls_below_stack: "calls_below (\<lambda>p msg. failS NoReturn) n = hj_queue_message n"
proof (induction n)
  case (Suc n)
  have "hj_queue_message (Suc n) = queue_message (process_with (hj_queue_message n))" by (intro ext) simp
  then show ?case by (simp add: Suc)
qed (simp add: fun_eq_iff)

lemma calls_below_add: "calls_below deeper (n + m) = calls_below (calls_below deeper m) n"
  by (induction n) simp_all

lemma repaint_one_deep: "repaints_agree (calls_below D (Suc 0)) (calls_below D' (Suc 0))"
  unfolding repaints_agree_def calls_below.simps
proof (intro allI agree_queue)
  fix p r g c
  show "agree (handle_now D c p (HJ_MESSAGE_REPAINT r g)) (handle_now D' c p (HJ_MESSAGE_REPAINT r g))
    \<or> \<not> leaf c \<or> hc_type c \<noteq> HJ_CONTROL_IMMEDIATE"
    using agree_repaint_leaf by (auto simp: leaf_def handle_now_def)
qed

lemma agree_two_deep: "agree (calls_below D 2 p msg) (calls_below D' 2 p msg)"
  unfolding numeral_2_eq_2 calls_below.simps(2) [of _ "Suc 0"]
proof (rule agree_queue)
  show "agree (handle_now (calls_below D (Suc 0)) c p msg) (handle_now (calls_below D' (Suc 0)) c p msg)
    \<or> \<not> leaf c \<or> hc_type c \<noteq> HJ_CONTROL_IMMEDIATE" for c
    using agree_button [OF repaint_one_deep [of D D'], of p msg] agree_taskpan [OF repaint_one_deep [of D D'], of p msg]
    by (auto simp: leaf_def handle_now_def)
qed

section \<open>Threads\<close>

definition senders_agree :: "sender \<Rightarrow> sender \<Rightarrow> bool" where
  "senders_agree Q Q' \<longleftrightarrow> (\<forall>p msg. agree (Q p msg) (Q' p msg))"

lemma senders_repaint: "senders_agree Q Q' \<Longrightarrow> repaints_agree Q Q'"
  by (simp add: senders_agree_def repaints_agree_def)

lemma agree_title_hit [agree_intros]: "agree (title_hit c pos k i n) (title_hit c pos k i n)"
  by (induction n arbitrary: i k) (simp_all add: Let_def agree_intros)

lemma agree_drag [agree_intros]: "agree (drag_child c i n) (drag_child c i n)" "agree (stop_dragging c i n) (stop_dragging c i n)"
  by (induction n arbitrary: i) (simp_all add: agree_intros)

lemma agree_signal [agree_intros]: "agree (signal_event e) (signal_event e)"
proof (rule agreeI)
  fix s r s' assume l: "leaves s" and st: "signal_event e s = Inr (r, s')"
  show "leaves s'"
  proof (cases "e = 0")
    case False
    obtain ev where ev: "derefC (gu_events s) e = Inr ev" using st False by (cases "derefC (gu_events s) e") (auto simp: signal_event_def)
    show ?thesis using l st False ev by (cases "event_signal (gu_cpu s) ev") (auto simp: signal_event_def leaves_def)
  qed (use l st in \<open>simp add: signal_event_def\<close>)
qed simp

lemma agree_resize [agree_intros]:
  "senders_agree Q Q' \<Longrightarrow> agree (hj_control_resize Q p sz) (hj_control_resize Q' p sz)"
  unfolding hj_control_resize_def senders_agree_def by (intro agree_intros) simp

lemma agree_dispatch [agree_intros]:
  assumes "senders_agree Q Q'"
  shows "agree (dispatch_mouse Q p k x y b) (dispatch_mouse Q' p k x y b)"
proof -
  have Q: "agree (Q p msg) (Q' p msg)" for p msg using assms by (simp add: senders_agree_def)
  show ?thesis unfolding dispatch_mouse_def hit_child_def by (intro agree_intros Q)
qed

lemma agree_dispatcher [agree_intros]:
  "senders_agree Q Q' \<Longrightarrow> agree (call_dispatcher Q d p msg) (call_dispatcher Q' d p msg)"
  by (cases d) (simp_all add: desktop_dispatch_message_def desktop_dispatch_mouse_messages_def window_message_dispatcher_def
    window_dispatch_mouse_message_def agree_intros)

lemma agree_app [agree_intros]: "senders_agree Q Q' \<Longrightarrow> agree (call_app Q a p msg) (call_app Q' a p msg)"
  using senders_repaint [of Q Q']
  by (cases a) (auto simp: demo1_message_handler_def demo1_quit_def henjin_unregister_window_def intro!: agree_intros)

lemma agree_window [agree_intros]:
  assumes "senders_agree Q Q'"
  shows "agree (window_message_handler Q (call_feedback Q) (call_app Q) p msg) (window_message_handler Q' (call_feedback Q') (call_app Q') p msg)"
  unfolding window_message_handler_def window_repaint_def window_repaint_child_def window_resize_def Let_def
  by (intro agree_intros agree_other assms senders_repaint [OF assms]) simp_all

lemma agree_desktop [agree_intros]:
  assumes "senders_agree Q Q'"
  shows "agree (desktop_message_handler Q p msg) (desktop_message_handler Q' p msg)"
  unfolding desktop_message_handler_def desktop_disable_drawing_def desktop_enable_drawing_def desktop_resize_def
    desktop_mouse_move_def desktop_mouse_move_handle_dragging_def desktop_mouse_down_def desktop_mouse_up_def
    desktop_repaint_def desktop_repaint_subcontrols_def desktop_repaint_child_def desktop_blit_subcontrol_def
    desktop_draw_title_def desktop_draw_borders_def desktop_allocate_graphics_context_def Let_def
  by (intro agree_intros assms senders_repaint [OF assms]) simp_all

lemma agree_process:
  assumes "senders_agree Q Q'"
  shows "agree (process_with Q p msg) (process_with Q' p msg)"
proof -
  have "agree (call_handler Q h p msg) (call_handler Q' h p msg)" for h
    by (cases h) (simp_all add: agree_intros assms senders_repaint [OF assms])
  then show ?thesis unfolding process_with_def process_message_def by (intro agree_intros assms)
qed

section \<open>Properties\<close>

text \<open>
  C28. Sending a message and processing one nest at most two calls of sending inside each other, whatever the message,
  the receiver and the tree of controls are, provided controls in immediate mode are buttons or the task panel: a
  third call, whatever it did, would not be reached, so the recursion between sending and handling ends. Processing
  keeps the condition.\<close>

theorem sending_nests_two_deep:
  assumes "leaves s"
  shows "calls_below deeper 2 p msg s = hj_queue_message 2 p msg s
    \<and> process_with (calls_below deeper 2) p msg s = hj_process_message 2 p msg s
    \<and> (\<forall>r s'. hj_process_message 2 p msg s = Inr (r, s') \<longrightarrow> leaves s')"
proof -
  let ?stack = "\<lambda>p msg. failS NoReturn"
  have q: "senders_agree (calls_below deeper 2) (calls_below ?stack 2)"
    using agree_two_deep by (simp add: senders_agree_def)
  have p: "agree (process_with (calls_below deeper 2) p msg) (process_with (calls_below ?stack 2) p msg)"
    by (rule agree_process [OF q])
  show ?thesis
    using agreeD [OF p assms] agreeD(1) [OF agree_two_deep assms, of deeper p msg ?stack]
    by (simp add: calls_below_stack hj_process_message_def)
qed

lemma leaves_two_buttons: "leaves two_buttons"
  by (simp add: leaves_def leaf_def two_buttons_def button_ctl_def new_object_def zero_control_def)

lemma sending_nests_two_deep_witness:
  "calls_below (\<lambda>p msg. failS BadAccess) 2 0x2000 (Mouse_message HJ_MESSAGE_MOUSE_UP 5 5 0) two_buttons
     = hj_queue_message 2 0x2000 (Mouse_message HJ_MESSAGE_MOUSE_UP 5 5 0) two_buttons"
  using sending_nests_two_deep [OF leaves_two_buttons] by blast

end
