(* ===== verification/Dragging.thy ===== *)
theory Dragging
  imports MouseDispatch Henjin
begin

unbundle bit_operations_syntax

text \<open>
  Moving a window by its title box: pressing the left button on the title starts it, the window then follows the
  pointer, and releasing the button ends it.
\<close>

declare hj_queue_message.simps [simp del]

section \<open>A desktop with its windows\<close>

text \<open>A desktop that takes messages, with the children \<open>xs\<close>.\<close>

definition desk :: "gui \<Rightarrow> u32 \<Rightarrow> child list \<Rightarrow> bool" where
  "desk s d xs \<longleftrightarrow> family s d xs \<and> (\<exists>ms. mailbox s d ms) \<and> gu_desktops s d \<noteq> None"

lemma desk_naked [simp]: "desk (naked s) d xs = desk s d xs"
  by (simp add: desk_def)

lemma desk_family: "desk s d xs \<Longrightarrow> family s d xs"
  by (simp add: desk_def)

lemma desk_ctl:
  assumes "desk s d xs"
  obtains c where "d \<noteq> 0" "gu_ctrls (naked s) d = Some c"
  using assms by (auto simp: desk_def elim: familyE)

lemma desk_same: "naked s1 = naked s \<Longrightarrow> desk s d xs \<Longrightarrow> desk s1 d xs"
  by (metis desk_naked)

lemma family_queue: "queue_only p s t \<Longrightarrow> family s d xs \<Longrightarrow> family t d xs"
proof -
  assume q: "queue_only p s t" and f: "family s d xs"
  obtain c q' where t: "gu_ctrls s p = Some c" "t = s\<lparr>gu_ctrls := (gu_ctrls s)(p \<mapsto> c\<lparr>hc_queue := q'\<rparr>)\<rparr>"
    using q by (auto simp: queue_only_def)
  have "child_ok t x" if "child_ok s x" for x using that t by (auto simp: child_ok_def)
  then show ?thesis using f t by (auto simp: family_def)
qed

text \<open>Sending the desktop a message keeps its windows.\<close>

lemma desk_send:
  assumes "locks 1 s" and "desk s d xs"
  obtains hr where "gives s (hj_queue_message (Suc n) d msg) hr (\<lambda>t. desk t d xs)"
proof -
  obtain ms where m: "mailbox s d ms" using assms(2) by (auto simp: desk_def)
  obtain t ms' where t: "yields s (hj_queue_message (Suc n) d msg) (if length ms < queue_room then S_OK else E_BUFFEROVERFLOW) t"
    "queue_only d (naked s) t" "mailbox t d ms'"
    using queue_message_deferred [OF assms(1) m, of "process_with (hj_queue_message n)" msg] unfolding steps_to_def hj_queue_message.simps by blast
  have "gu_desktops t d \<noteq> None" using t(2) assms(2) by (auto simp: desk_def queue_only_def)
  moreover have "family t d xs" using family_queue [OF t(2)] assms(2) by (simp add: desk_def)
  ultimately have "desk t d xs" using t(3) by (auto simp: desk_def)
  then show ?thesis using t(1) that by (blast intro: gives_yields)
qed

text \<open>Changing the description of a child.\<close>

definition with_meta :: "(hj_control_meta \<Rightarrow> hj_control_meta) \<Rightarrow> child \<Rightarrow> child" where
  "with_meta f x = (fst x, f (child_meta x), snd (snd x))"

lemma desk_set_meta:
  assumes "desk s d xs" and "k < length xs" and "\<And>x. cm_control (f x) = cm_control x"
  shows "desk (s\<lparr>gu_metas := (gu_metas s)(fst (xs ! k) \<mapsto> f (child_meta (xs ! k)))\<rparr>) d (xs[k := with_meta f (xs ! k)])"
proof -
  let ?t = "s\<lparr>gu_metas := (gu_metas s)(fst (xs ! k) \<mapsto> f (child_meta (xs ! k)))\<rparr>"
  let ?ys = "xs[k := with_meta f (xs ! k)]"
  have f: "family s d xs" using assms(1) by (simp add: desk_def)
  have fsts: "map fst ?ys = map fst xs" using assms(2) by (simp add: map_update with_meta_def list_update_id [symmetric]) (metis list_update_id nth_map)
  have "child_ok ?t (?ys ! i)" if i: "i < length xs" for i
  proof (cases "i = k")
    case True
    have "child_ok s (xs ! k)" using f assms(2) by (simp add: family_def)
    then show ?thesis using True assms(2,3) by (cases "xs ! k") (auto simp: child_ok_def with_meta_def)
  next
    case False
    then have "fst (xs ! i) \<noteq> fst (xs ! k)" using f i assms(2) unfolding family_def by (metis nth_map length_map nth_eq_iff_index_eq)
    moreover have "child_ok s (xs ! i)" using f i by (simp add: family_def)
    ultimately show ?thesis using False by (auto simp: child_ok_def split: prod.splits)
  qed
  then have "\<forall>x \<in> set ?ys. child_ok ?t x" by (metis in_set_conv_nth length_list_update)
  then have "family ?t d ?ys" using f fsts by (auto simp: family_def)
  then show ?thesis using assms(1) by (auto simp: desk_def mailbox_def)
qed

lemma desk_upd_meta:
  assumes "desk s d xs" and "k < length xs" and "\<And>x. cm_control (f x) = cm_control x"
  shows "gives s (upd_meta (fst (xs ! k)) f) () (\<lambda>t. desk t d (xs[k := with_meta f (xs ! k)]))"
proof (rule gives_yields [OF yields_upd_meta])
  note c = family_child [OF desk_family [OF assms(1)] assms(2)]
  show "gu_metas (naked s) (fst (xs ! k)) = Some (child_meta (xs ! k))" "fst (xs ! k) \<noteq> 0" using c by simp_all
  show "desk (naked s\<lparr>gu_metas := (gu_metas (naked s))(fst (xs ! k) \<mapsto> f (child_meta (xs ! k)))\<rparr>) d (xs[k := with_meta f (xs ! k)])"
    using desk_set_meta [of "naked s" d xs k f] assms by simp
qed

section \<open>Pressing the button\<close>

text \<open>The pointer is on the title of a window: in its bounds, not in its client area, and in the upper 26 rows.\<close>

definition on_title :: "NXGI_POINT \<Rightarrow> child \<Rightarrow> bool" where
  "on_title pt x \<longleftrightarrow> (let br = child_bounds x in nxgig_point_in_rect pt br \<and> \<not> nxgig_point_in_rect pt (child_client x)
     \<and> nxgig_point_in_rect pt (RECT (x1 br) (y1 br) (x2 br) (y1 br + GUI_TITLEBOX_HEIGHT)))"

lemma title_hit_yields:
  assumes "locks 1 s" and "family s d xs" and "unat i + n = length xs"
  shows "yields s (title_hit d pt k i n) (case last_such (on_title pt) xs (unat i) of None \<Rightarrow> k | Some j \<Rightarrow> Some (of_nat j)) (naked s)"
  using assms
proof (induction n arbitrary: s i k)
  case 0
  then show ?case by (auto simp: last_such_end intro: yields_ret)
next
  case (Suc n)
  have len: "length xs < 2 ^ 32 - 1" by (rule familyE [OF Suc(3)])
  have i: "unat i < length xs" using Suc(4) by simp
  then have "i < of_nat (length xs)" using len by (simp add: word_less_nat_alt unat_of_nat_small)
  then have i1: "unat (i + 1) = Suc (unat i)" by (rule word_below_Suc)
  let ?x = "xs ! unat i"
  let ?r = "case last_such (on_title pt) xs (unat i) of None \<Rightarrow> k | Some j \<Rightarrow> Some (of_nat j)"
  have rest: "yields s2 (title_hit d pt (if on_title pt ?x then Some i else k) (i + 1) n) ?r (naked s)"
    if s2: "naked s2 = naked s" "locks 1 s2" for s2
    using Suc.IH [OF s2(2) family_same [OF s2(1) Suc(3)], of "i + 1" "if on_title pt ?x then Some i else k"] Suc(4) i1 s2(1)
      last_such_step [OF i, of "on_title pt"] by (auto split: option.splits if_splits)
  show ?case unfolding title_hit.simps
  proof (rule yields_bind [OF child_rect_yields(1) [OF Suc(2,3) i] Suc(2)])
    fix s1 assume s1: "naked s1 = naked s" "locks 1 s1"
    note f1 = family_same [OF s1(1) Suc(3)]
    show "yields s1 (bindS (hj_get_child_clientrect d i) (\<lambda>cr.
       if \<not> nxgig_point_in_rect pt (child_bounds ?x) \<or> nxgig_point_in_rect pt cr then title_hit d pt k (i + 1) n
       else let tr = RECT (x1 (child_bounds ?x)) (y1 (child_bounds ?x)) (x2 (child_bounds ?x)) (y1 (child_bounds ?x) + GUI_TITLEBOX_HEIGHT) in
         title_hit d pt (if nxgig_point_in_rect pt tr then Some i else k) (i + 1) n)) ?r (naked s)"
      by (rule yields_bind [OF child_rect_yields(2) [OF s1(2) f1 i] s1(2)])
        (use rest s1 in \<open>auto simp: on_title_def Let_def split: if_splits\<close>)
  qed
qed

definition start_drag :: "NXGI_POINT \<Rightarrow> hj_control_meta \<Rightarrow> hj_control_meta" where
  "start_drag pt x = x\<lparr>cm_drag_source := pt, cm_drag_wnd_pos := cm_pos x, cm_drag_mode := True\<rparr>"

lemma mouse_down_gives:
  assumes "locks 2 s" and "desk s d xs" and k: "last_such (on_title pt) xs 0 = Some k"
  shows "gives s (desktop_mouse_down d pt HJ_MOUSE_BUTTON_LEFT) S_OK (\<lambda>t. desk t d (xs[k := with_meta (start_drag pt) (xs ! k)]))"
proof -
  let ?R = "\<lambda>t. desk t d (xs[k := with_meta (start_drag pt) (xs ! k)])"
  obtain c where c: "d \<noteq> 0" "gu_ctrls (naked s) d = Some c" by (rule desk_ctl [OF assms(2)])
  have len: "length xs < 2 ^ 32 - 1" by (rule familyE [OF desk_family [OF assms(2)]])
  have kl: "k < length xs" using last_such_Some(1) [OF k] by simp
  have uk: "unat (of_nat k :: u32) = k" using kl len by (intro unat_of_nat_small) simp
  have set: "gives s2 (bindS (child_at d (of_nat k)) (\<lambda>m. thenS (upd_meta m (start_drag pt)) (retS S_OK))) S_OK ?R"
    if s2: "naked s2 = naked s" "locks 1 s2" for s2
  proof -
    have d2: "desk s2 d xs" using s2(1) assms(2) by (rule desk_same)
    show ?thesis
      by (rule gives_child_at [OF desk_family [OF d2]], simp add: kl uk, rule gives_then [OF desk_upd_meta [OF d2 kl] s2(2)])
        (auto simp: start_drag_def intro: gives_ret)
  qed
  have "gives s (critical Children_lock d (bindS (child_list d) (\<lambda>l. bindS (title_hit d pt None 0 (unat (dlist_get_count l))) (\<lambda>k.
      case k of None \<Rightarrow> retS S_OK | Some k \<Rightarrow> bindS (child_at d k) (\<lambda>m. thenS (upd_meta m (start_drag pt)) (retS S_OK)))))) S_OK ?R"
  proof (rule gives_critical [where k = 1, OF _ c])
    show "locks (Suc 1) s" using assms(1) by (simp add: numeral_2_eq_2)
    fix s1 assume s1: "naked s1 = naked s" "locks 1 s1"
    note f1 = desk_family [OF desk_same [OF s1(1) assms(2)]]
    show "gives s1 (bindS (child_list d) (\<lambda>l. bindS (title_hit d pt None 0 (unat (dlist_get_count l))) (\<lambda>k.
      case k of None \<Rightarrow> retS S_OK | Some k \<Rightarrow> bindS (child_at d k) (\<lambda>m. thenS (upd_meta m (start_drag pt)) (retS S_OK))))) S_OK ?R"
      using title_hit_yields [OF s1(2) f1, of 0 "length xs" pt None] k len
      by (intro gives_child_list [OF f1] gives_bind [OF gives_yields [where R = "\<lambda>t. t = naked s1"] s1(2)])
        (auto simp: s1 unat_of_nat_small intro: set [unfolded One_nat_def])
  qed
  then show ?thesis unfolding desktop_mouse_down_def start_drag_def [abs_def] by simp
qed

section \<open>Moving the pointer\<close>

text \<open>The child that is being dragged, if it is the only one.\<close>

definition only_dragged :: "child list \<Rightarrow> nat \<Rightarrow> bool" where
  "only_dragged xs k \<longleftrightarrow> k < length xs \<and> (\<forall>i < length xs. cm_drag_mode (child_meta (xs ! i)) = (i = k))"

lemma drag_child_run:
  assumes "family s d xs" and "only_dragged xs k" and "unat i + n = length xs" and "unat i \<le> k"
  shows "drag_child d i n s = Inr (Some (of_nat k, fst (xs ! k)), s)"
  using assms(3,4)
proof (induction n arbitrary: i)
  case 0
  then show ?case using assms(2) by (simp add: only_dragged_def)
next
  case (Suc n)
  have len: "length xs < 2 ^ 32 - 1" by (rule familyE [OF assms(1)])
  have i: "unat i < length xs" using Suc(2) by simp
  then have i1: "unat (i + 1) = Suc (unat i)"
    using len by (intro word_below_Suc [of _ "of_nat (length xs)"]) (simp add: word_less_nat_alt unat_of_nat_small)
  note c = family_child [OF assms(1) i]
  have here: "drag_child d i (Suc n) s = (if cm_drag_mode (child_meta (xs ! unat i)) then Inr (Some (i, fst (xs ! unat i)), s)
      else drag_child d (i + 1) n s)"
    using child_at_run [OF assms(1), of i] i c by (simp add: bindS_def meta_def readS_def derefC_def retS_def)
  show ?case
  proof (cases "unat i = k")
    case True
    then have "i = of_nat k" by auto
    then show ?thesis using here True assms(2) i by (simp add: only_dragged_def)
  next
    case False
    then show ?thesis using here Suc i1 assms(2) i by (simp add: only_dragged_def)
  qed
qed

definition near :: "NXGI_POINT \<Rightarrow> NXGI_POINT \<Rightarrow> bool" where
  "near p q \<longleftrightarrow> abs32 (px p - px q) <s 2 \<and> abs32 (py p - py q) <s 2"

definition drag_target :: "hj_control_meta \<Rightarrow> NXGI_POINT \<Rightarrow> NXGI_POINT" where
  "drag_target x pt = POINT (px (cm_drag_wnd_pos x) + (px pt - px (cm_drag_source x))) (py (cm_drag_wnd_pos x) + (py pt - py (cm_drag_source x)))"

definition drag_to :: "NXGI_POINT \<Rightarrow> hj_control_meta \<Rightarrow> hj_control_meta" where
  "drag_to pt x = (if near (drag_target x pt) (cm_pos x) then x else x\<lparr>cm_pos := drag_target x pt\<rparr>)"

lemma bounds_pos [simp]: "p1 (bounds_of x sz) = cm_pos x"
  by (auto simp: bounds_of_def Let_def)

lemma set_position_gives:
  assumes "locks 1 s" and "desk s d xs" and "k < length xs"
  shows "gives s (hj_control_set_child_position d (of_nat k) pt) S_OK (\<lambda>t. desk t d (xs[k := with_meta (\<lambda>x. x\<lparr>cm_pos := pt\<rparr>) (xs ! k)]))"
proof -
  obtain c where c: "d \<noteq> 0" "gu_ctrls (naked s) d = Some c" by (rule desk_ctl [OF assms(2)])
  have len: "length xs < 2 ^ 32 - 1" by (rule familyE [OF desk_family [OF assms(2)]])
  have uk: "unat (of_nat k :: u32) = k" using assms(3) len by (intro unat_of_nat_small) simp
  show ?thesis unfolding hj_control_set_child_position_def
  proof (rule gives_critical [OF assms(1) [unfolded One_nat_def] c])
    fix s1 assume s1: "naked s1 = naked s" "locks 0 s1"
    note d1 = desk_same [OF s1(1) assms(2)]
    show "gives s1 (bindS (child_at d (of_nat k)) (\<lambda>m. if m = 0 then retS E_FAIL
       else thenS (upd_meta m (\<lambda>x. x\<lparr>cm_pos := pt\<rparr>)) (retS S_OK))) S_OK (\<lambda>t. desk t d (xs[k := with_meta (\<lambda>x. x\<lparr>cm_pos := pt\<rparr>) (xs ! k)]))"
      using family_child(1) [OF desk_family [OF d1] assms(3)]
      by (intro gives_child_at [OF desk_family [OF d1]])
        (auto simp: uk assms(3) intro!: gives_then [OF desk_upd_meta [OF d1 assms(3)] s1(2)] gives_ret)
  qed
qed

lemma move_dragging_gives:
  assumes "locks 2 s" and "desk s d xs" and dr: "only_dragged xs k"
  shows "gives s (desktop_mouse_move_handle_dragging (hj_queue_message (Suc n)) d pt) S_OK (\<lambda>t. desk t d (xs[k := with_meta (drag_to pt) (xs ! k)]))"
proof -
  let ?x = "child_meta (xs ! k)"
  let ?R = "\<lambda>t. desk t d (xs[k := with_meta (drag_to pt) (xs ! k)])"
  let ?new = "drag_target ?x pt"
  obtain c where c: "d \<noteq> 0" "gu_ctrls (naked s) d = Some c" by (rule desk_ctl [OF assms(2)])
  have len: "length xs < 2 ^ 32 - 1" by (rule familyE [OF desk_family [OF assms(2)]])
  have kl: "k < length xs" using dr by (simp add: only_dragged_def)
  have uk: "unat (of_nat k :: u32) = k" using kl len by (intro unat_of_nat_small) simp
  define after where "after = (\<lambda>br. thenS (hj_control_set_child_position d (of_nat k) ?new)
     (bindS (hj_get_child_boundsrect d (of_nat k)) (\<lambda>new_br.
      thenS (hj_control_invalidate_rect (hj_queue_message (Suc n)) d (nxgig_rects_union br new_br)) (retS S_OK))))"
  have after: "gives s1 (after br) S_OK ?R" if s1: "naked s1 = naked s" "locks 1 s1" and far: "\<not> near ?new (cm_pos ?x)" for s1 br
    unfolding after_def
  proof (rule gives_then [OF set_position_gives [OF s1(2) desk_same [OF s1(1) assms(2)] kl] s1(2)])
    let ?ys = "xs[k := with_meta (\<lambda>x. x\<lparr>cm_pos := ?new\<rparr>) (xs ! k)]"
    have ys: "?ys = xs[k := with_meta (drag_to pt) (xs ! k)]" using far by (simp add: with_meta_def drag_to_def)
    fix s2 assume s2: "desk (naked s2) d ?ys" "locks 1 s2"
    have b: "yields s2 (hj_get_child_boundsrect d (of_nat k)) (child_bounds (?ys ! k)) (naked s2)"
      using child_rect_yields(1) [OF s2(2) desk_family, of d ?ys "of_nat k"] s2(1) uk kl by simp
    show "gives s2 (bindS (hj_get_child_boundsrect d (of_nat k)) (\<lambda>new_br.
      thenS (hj_control_invalidate_rect (hj_queue_message (Suc n)) d (nxgig_rects_union br new_br)) (retS S_OK))) S_OK ?R"
    proof (rule gives_bind [OF gives_yields [where R = "\<lambda>t. t = naked s2", OF b refl] s2(2)])
      fix s3 assume s3: "naked s3 = naked s2" "locks 1 s3"
      have d3: "desk s3 d ?ys" using s3(1) s2(1) by (metis desk_naked)
      obtain hr where "gives s3 (hj_queue_message (Suc n) d (HJ_MESSAGE_REPAINT (nxgig_rects_union br (child_bounds (?ys ! k))) 0)) hr (\<lambda>t. desk t d ?ys)"
        by (rule desk_send [OF s3(2) d3])
      then show "gives s3 (thenS (hj_control_invalidate_rect (hj_queue_message (Suc n)) d (nxgig_rects_union br (child_bounds (?ys ! k)))) (retS S_OK)) S_OK ?R"
        unfolding hj_control_invalidate_rect_def by (rule gives_then [OF _ s3(2)]) (auto intro: gives_ret simp: ys)
    qed
  qed
  have body: "gives s1 (bindS (hj_get_child_boundsrect d (of_nat k)) (\<lambda>br. bindS (meta (fst (xs ! k))) (\<lambda>x.
      let delta_x = px pt - px (cm_drag_source x); delta_y = py pt - py (cm_drag_source x);
          new_pos = POINT (px (cm_drag_wnd_pos x) + delta_x) (py (cm_drag_wnd_pos x) + delta_y) in
      if abs32 (px new_pos - x1 br) <s 2 \<and> abs32 (py new_pos - y1 br) <s 2 then retS S_OK
      else thenS (hj_control_set_child_position d (of_nat k) new_pos)
        (bindS (hj_get_child_boundsrect d (of_nat k)) (\<lambda>new_br.
         thenS (hj_control_invalidate_rect (hj_queue_message (Suc n)) d (nxgig_rects_union br new_br)) (retS S_OK)))))) S_OK ?R"
    if s1: "naked s1 = naked s" "locks 1 s1" for s1
  proof -
    have b: "yields s1 (hj_get_child_boundsrect d (of_nat k)) (child_bounds (xs ! k)) (naked s1)"
      using child_rect_yields(1) [OF s1(2) desk_family [OF desk_same [OF s1(1) assms(2)]], of "of_nat k"] uk kl by simp
    show ?thesis
    proof (rule gives_bind [OF gives_yields [where R = "\<lambda>t. t = naked s1", OF b refl] s1(2)])
      fix s2 assume s2: "naked s2 = naked s1" "locks 1 s2"
      have n2: "naked s2 = naked s" using s1(1) s2(1) by simp
      have still: "gives s2 (retS S_OK) S_OK ?R" if "near ?new (cm_pos ?x)"
        using that desk_same [OF n2 assms(2)] kl by (intro gives_ret) (simp add: with_meta_def drag_to_def list_update_same_conv)
      show "gives s2 (bindS (meta (fst (xs ! k))) (\<lambda>x.
      let delta_x = px pt - px (cm_drag_source x); delta_y = py pt - py (cm_drag_source x);
          new_pos = POINT (px (cm_drag_wnd_pos x) + delta_x) (py (cm_drag_wnd_pos x) + delta_y) in
      if abs32 (px new_pos - x1 (child_bounds (xs ! k))) <s 2 \<and> abs32 (py new_pos - y1 (child_bounds (xs ! k))) <s 2 then retS S_OK
      else thenS (hj_control_set_child_position d (of_nat k) new_pos)
        (bindS (hj_get_child_boundsrect d (of_nat k)) (\<lambda>new_br.
         thenS (hj_control_invalidate_rect (hj_queue_message (Suc n)) d (nxgig_rects_union (child_bounds (xs ! k)) new_br)) (retS S_OK))))) S_OK ?R"
        using still after [OF n2 s2(2), of "child_bounds (xs ! k)"]
        by (intro gives_meta [OF desk_family [OF desk_same [OF n2 assms(2)]] kl]) (simp add: Let_def after_def near_def drag_target_def)
    qed
  qed
  show ?thesis unfolding desktop_mouse_move_handle_dragging_def
  proof (rule gives_critical [where k = 1, OF _ c])
    show "locks (Suc 1) s" using assms(1) by (simp add: numeral_2_eq_2)
    fix s1 assume s1: "naked s1 = naked s" "locks 1 s1"
    note f1 = desk_family [OF desk_same [OF s1(1) assms(2)]]
    show "gives s1 (bindS (child_list d) (\<lambda>l. bindS (drag_child d 0 (unat (dlist_get_count l))) (\<lambda>f. case f of None \<Rightarrow> retS S_OK
      | Some (k, m) \<Rightarrow> bindS (hj_get_child_boundsrect d k) (\<lambda>br. bindS (meta m) (\<lambda>x.
            let delta_x = px pt - px (cm_drag_source x); delta_y = py pt - py (cm_drag_source x);
                new_pos = POINT (px (cm_drag_wnd_pos x) + delta_x) (py (cm_drag_wnd_pos x) + delta_y) in
            if abs32 (px new_pos - x1 br) <s 2 \<and> abs32 (py new_pos - y1 br) <s 2 then retS S_OK
            else thenS (hj_control_set_child_position d k new_pos)
              (bindS (hj_get_child_boundsrect d k) (\<lambda>new_br.
               thenS (hj_control_invalidate_rect (hj_queue_message (Suc n)) d (nxgig_rects_union br new_br)) (retS S_OK)))))))) S_OK ?R"
    proof (rule gives_child_list [OF f1])
      fix l assume l: "dlist_get_count l = of_nat (length xs)"
      have "drag_child d 0 (unat (dlist_get_count l)) s1 = Inr (Some (of_nat k, fst (xs ! k)), s1)"
        using drag_child_run [OF f1 dr, of 0 "length xs"] l len by (simp add: unat_of_nat_small)
      then show "gives s1 (bindS (drag_child d 0 (unat (dlist_get_count l))) (\<lambda>f. case f of None \<Rightarrow> retS S_OK
      | Some (k, m) \<Rightarrow> bindS (hj_get_child_boundsrect d k) (\<lambda>br. bindS (meta m) (\<lambda>x.
            let delta_x = px pt - px (cm_drag_source x); delta_y = py pt - py (cm_drag_source x);
                new_pos = POINT (px (cm_drag_wnd_pos x) + delta_x) (py (cm_drag_wnd_pos x) + delta_y) in
            if abs32 (px new_pos - x1 br) <s 2 \<and> abs32 (py new_pos - y1 br) <s 2 then retS S_OK
            else thenS (hj_control_set_child_position d k new_pos)
              (bindS (hj_get_child_boundsrect d k) (\<lambda>new_br.
               thenS (hj_control_invalidate_rect (hj_queue_message (Suc n)) d (nxgig_rects_union br new_br)) (retS S_OK))))))) S_OK ?R"
        by (rule gives_pure) (use body [OF s1] in simp)
    qed
  qed
qed

text \<open>The whole handler also moves the pointer and asks for what it covered to be painted.\<close>

lemma upd_dsk_gives:
  assumes "desk s d xs"
  shows "gives s (upd_dsk d f) () (\<lambda>t. desk t d xs)"
proof -
  obtain x where x: "gu_desktops s d = Some x" "d \<noteq> 0" using assms by (auto simp: desk_def family_def)
  have "desk (s\<lparr>gu_desktops := (gu_desktops s)(d \<mapsto> f x)\<rparr>) d xs"
    using assms by (auto simp: desk_def family_def mailbox_def child_ok_def split: prod.splits)
  then show ?thesis using x
    by (intro gives_yields [OF yields_upd [where s' = "s\<lparr>gu_desktops := (gu_desktops s)(d \<mapsto> f x)\<rparr>", OF _ _ _ refl]])
      (auto simp: upd_dsk_def dsk_at_def bindS_def readS_def derefC_def)
qed

lemma mouse_move_gives:
  assumes "locks 2 s" and "desk s d xs" and dr: "only_dragged xs k"
  shows "gives s (desktop_mouse_move (hj_queue_message (Suc n)) d pt) S_OK (\<lambda>t. desk t d (xs[k := with_meta (drag_to pt) (xs ! k)]))"
proof -
  let ?Q = "hj_queue_message (Suc n)"
  let ?R = "\<lambda>t. desk t d (xs[k := with_meta (drag_to pt) (xs ! k)])"
  obtain x where x: "gu_desktops s d = Some x" "d \<noteq> 0" using assms(2) by (auto simp: desk_def family_def)
  have drag: "gives s1 (thenS (desktop_mouse_move_handle_dragging ?Q d pt) (retS S_OK)) S_OK ?R"
    if "desk s1 d xs" "locks 2 s1" for s1
    by (rule gives_then [OF move_dragging_gives [OF that(2,1) dr] that(2)]) (auto intro: gives_ret)
  have paint: "\<exists>hr. gives s1 (hj_control_invalidate_rect ?Q d r) hr (\<lambda>t. desk t d xs)" if "desk s1 d xs" "locks 2 s1" for s1 r
    using desk_send [OF locks_mono [OF that(2)] that(1), of n] unfolding hj_control_invalidate_rect_def by auto
  have paint2: "\<exists>hr. gives s1 (thenS (hj_control_invalidate_rect ?Q d r) (hj_control_invalidate_rect ?Q d r')) hr (\<lambda>t. desk t d xs)"
    if start: "desk s1 d xs" "locks 2 s1" for s1 r r'
  proof -
    obtain hr where one: "gives s1 (hj_control_invalidate_rect ?Q d r) hr (\<lambda>t. desk t d xs)" using paint [OF start] by blast
    obtain s2 where s2: "hj_control_invalidate_rect ?Q d r s1 = Inr (hr, s2)" "same_locks s1 s2" "locks 2 s2" "desk s2 d xs"
      using givesE [OF one start(2)] by (metis desk_naked)
    obtain hr' where two: "gives s2 (hj_control_invalidate_rect ?Q d r') hr' (\<lambda>t. desk t d xs)" using paint [OF s2(4,3)] by blast
    obtain s3 where "hj_control_invalidate_rect ?Q d r' s2 = Inr (hr', s3)" "same_locks s2 s3" "desk (naked s3) d xs"
      by (rule givesE [OF two s2(3)])
    then show ?thesis using s2 same_locks_trans
      by (intro exI [of _ hr'] givesI [of _ _ _ s3]) (auto simp: thenS_def bindS_def)
  qed
  have all: "gives s1 (thenS (if P then hj_control_invalidate_rect ?Q d r else thenS (hj_control_invalidate_rect ?Q d r1) (hj_control_invalidate_rect ?Q d r2))
      (thenS (desktop_mouse_move_handle_dragging ?Q d pt) (retS S_OK))) S_OK ?R" if s1: "desk (naked s1) d xs" "locks 2 s1" for s1 P r r1 r2
  proof -
    have d1: "desk s1 d xs" using s1(1) by simp
    obtain hr where "gives s1 (if P then hj_control_invalidate_rect ?Q d r else thenS (hj_control_invalidate_rect ?Q d r1) (hj_control_invalidate_rect ?Q d r2)) hr (\<lambda>t. desk t d xs)"
      using paint [OF d1 s1(2), of r] paint2 [OF d1 s1(2), of r1 r2] by (cases P) auto
    then show ?thesis by (rule gives_then [OF _ s1(2)]) (auto intro: drag)
  qed
  have "dsk_at d s = Inr (x, s)" using x by (simp add: dsk_at_def readS_def derefC_def)
  then show ?thesis unfolding desktop_mouse_move_def Let_def
    by (intro gives_pure [where f = "\<lambda>x. _ x", of "dsk_at d" s x] gives_then [OF upd_dsk_gives [OF assms(2)] assms(1)] all)
qed

section \<open>Releasing the button\<close>

definition stop_drag :: "hj_control_meta \<Rightarrow> hj_control_meta" where
  "stop_drag x = x\<lparr>cm_drag_mode := False\<rparr>"

lemma stop_dragging_gives:
  assumes "locks k s" and "desk s d xs" and "unat i + n = length xs"
  shows "gives s (stop_dragging d i n) () (\<lambda>t. desk t d (take (unat i) xs @ map (with_meta stop_drag) (drop (unat i) xs)))"
  using assms
proof (induction n arbitrary: s i xs)
  case 0
  then show ?case by (auto intro: gives_ret)
next
  case (Suc n)
  have f: "family s d xs" using Suc(3) by (rule desk_family)
  have len: "length xs < 2 ^ 32 - 1" by (rule familyE [OF f])
  have i: "unat i < length xs" using Suc(4) by simp
  then have i1: "unat (i + 1) = Suc (unat i)"
    using len by (intro word_below_Suc [of _ "of_nat (length xs)"]) (simp add: word_less_nat_alt unat_of_nat_small)
  let ?x = "xs ! unat i"
  let ?ys = "xs[unat i := with_meta stop_drag ?x]"
  have same: "\<not> cm_drag_mode (child_meta ?x) \<Longrightarrow> ?ys = xs"
  proof -
    assume "\<not> cm_drag_mode (child_meta ?x)"
    then have "stop_drag (child_meta ?x) = child_meta ?x" by (cases "child_meta ?x") (simp add: stop_drag_def)
    then show "?ys = xs" using i by (simp add: with_meta_def list_update_same_conv)
  qed
  have one: "gives s (if cm_drag_mode (child_meta ?x) then upd_meta (fst ?x) (\<lambda>x. x\<lparr>cm_drag_mode := False\<rparr>) else retS ()) () (\<lambda>t. desk t d ?ys)"
    using desk_upd_meta [OF Suc(3) i, of stop_drag] Suc(3) same by (auto simp: stop_drag_def [abs_def] intro: gives_ret)
  have eq: "take (Suc (unat i)) ?ys @ map (with_meta stop_drag) (drop (Suc (unat i)) ?ys)
      = take (unat i) xs @ map (with_meta stop_drag) (drop (unat i) xs)"
    using i by (simp add: take_Suc_conv_app_nth Cons_nth_drop_Suc [symmetric])
  have rest: "gives s1 (stop_dragging d (i + 1) n) () (\<lambda>t. desk t d (take (unat i) xs @ map (with_meta stop_drag) (drop (unat i) xs)))"
    if "desk (naked s1) d ?ys" "locks k s1" for s1
    using Suc.IH [OF that(2), of ?ys "i + 1"] that(1) Suc(4) i1 eq by simp
  show ?case unfolding stop_dragging.simps
    by (rule gives_child_at [OF f], simp only: i if_True, rule gives_meta [OF f i], rule gives_then [OF one Suc(2)], rule rest)
qed

lemma mouse_up_gives:
  assumes "locks 2 s" and "desk s d xs"
  shows "gives s (desktop_mouse_up d pt) S_OK (\<lambda>t. desk t d (map (with_meta stop_drag) xs))"
proof -
  obtain c where c: "d \<noteq> 0" "gu_ctrls (naked s) d = Some c" by (rule desk_ctl [OF assms(2)])
  have len: "length xs < 2 ^ 32 - 1" by (rule familyE [OF desk_family [OF assms(2)]])
  show ?thesis unfolding desktop_mouse_up_def
  proof (rule gives_critical [where k = 1, OF _ c])
    show "locks (Suc 1) s" using assms(1) by (simp add: numeral_2_eq_2)
    fix s1 assume s1: "naked s1 = naked s" "locks 1 s1"
    note d1 = desk_same [OF s1(1) assms(2)]
    show "gives s1 (bindS (child_list d) (\<lambda>l. thenS (stop_dragging d 0 (unat (dlist_get_count l))) (retS S_OK))) S_OK
      (\<lambda>t. desk t d (map (with_meta stop_drag) xs))"
    proof (rule gives_child_list [OF desk_family [OF d1]])
      fix l assume l: "dlist_get_count l = of_nat (length xs)"
      show "gives s1 (thenS (stop_dragging d 0 (unat (dlist_get_count l))) (retS S_OK)) S_OK (\<lambda>t. desk t d (map (with_meta stop_drag) xs))"
        using stop_dragging_gives [OF s1(2) d1, of 0 "length xs"] l len
        by (intro gives_then [where R = "\<lambda>t. desk t d (map (with_meta stop_drag) xs)", OF _ s1(2)])
          (auto simp: unat_of_nat_small intro: gives_ret)
    qed
  qed
qed

section \<open>Properties\<close>

fun mouse_moves :: "sender \<Rightarrow> u32 \<Rightarrow> NXGI_POINT list \<Rightarrow> hresult act" where
  "mouse_moves Q d [] = retS S_OK"
| "mouse_moves Q d (pt # pts) = okS (desktop_mouse_move Q d pt) (mouse_moves Q d pts)"

text \<open>Press at \<open>a\<close>, move over \<open>pts\<close> and release.\<close>

definition drag_gesture :: "sender \<Rightarrow> u32 \<Rightarrow> NXGI_POINT \<Rightarrow> NXGI_POINT list \<Rightarrow> hresult act" where
  "drag_gesture Q d a pts = okS (desktop_mouse_down d a HJ_MOUSE_BUTTON_LEFT) (okS (mouse_moves Q d pts) (desktop_mouse_up d (List.last (a # pts))))"

lemma gives_ok:
  assumes "gives s m S_OK R" and "locks k s" and "\<And>s1. R (naked s1) \<Longrightarrow> locks k s1 \<Longrightarrow> gives s1 m' r R'"
  shows "gives s (okS m m') r R'"
  unfolding okS_def by (rule gives_bind [OF assms(1,2)]) (use assms(3) in simp)

lemma drag_to_fields [simp]:
  "cm_control (drag_to pt x) = cm_control x" "cm_drag_mode (drag_to pt x) = cm_drag_mode x"
  "cm_drag_source (drag_to pt x) = cm_drag_source x" "cm_drag_wnd_pos (drag_to pt x) = cm_drag_wnd_pos x"
  by (simp_all add: drag_to_def)

lemma only_dragged_with_meta:
  "only_dragged xs k \<Longrightarrow> cm_drag_mode (f (child_meta (xs ! k))) \<Longrightarrow> only_dragged (xs[k := with_meta f (xs ! k)]) k"
  by (auto simp: only_dragged_def with_meta_def nth_list_update)

lemma with_meta_comp: "with_meta f (with_meta g x) = with_meta (\<lambda>x. f (g x)) x"
  by (simp add: with_meta_def)

lemma mouse_moves_gives:
  "locks 2 s \<Longrightarrow> desk s d xs \<Longrightarrow> only_dragged xs k \<Longrightarrow>
   gives s (mouse_moves (hj_queue_message (Suc n)) d pts) S_OK (\<lambda>t. desk t d (xs[k := with_meta (fold drag_to pts) (xs ! k)]))"
proof (induction pts arbitrary: s xs)
  case Nil
  have "xs[k := with_meta id (xs ! k)] = xs" by (simp add: with_meta_def)
  then show ?case using Nil by (auto intro: gives_ret simp: id_def)
next
  case (Cons pt pts)
  let ?ys = "xs[k := with_meta (drag_to pt) (xs ! k)]"
  have kl: "k < length xs" using Cons(4) by (simp add: only_dragged_def)
  have od: "only_dragged ?ys k"
    by (rule only_dragged_with_meta [OF Cons(4)]) (use Cons(4) kl in \<open>simp add: only_dragged_def\<close>)
  have eq: "?ys[k := with_meta (fold drag_to pts) (?ys ! k)] = xs[k := with_meta (fold drag_to (pt # pts)) (xs ! k)]"
    using kl by (simp add: with_meta_comp comp_def)
  show ?case unfolding mouse_moves.simps
  proof (rule gives_ok [OF mouse_move_gives [OF Cons(2,3,4)] Cons(2)])
    fix s1 assume "desk (naked s1) d ?ys" "locks 2 s1"
    then show "gives s1 (mouse_moves (hj_queue_message (Suc n)) d pts) S_OK (\<lambda>t. desk t d (xs[k := with_meta (fold drag_to (pt # pts)) (xs ! k)]))"
      using Cons.IH [of s1 ?ys] od unfolding eq by simp
  qed
qed

lemma near_refl [simp]: "near p p"
  by (simp add: near_def abs32_def word_sless_alt)

lemma fold_drag_near:
  "near (drag_target x a) (cm_pos x) \<Longrightarrow> near (drag_target x (List.last (a # pts))) (cm_pos (fold drag_to pts x))"
proof (induction pts arbitrary: a x)
  case (Cons pt pts)
  have t: "drag_target (drag_to pt x) = drag_target x" by (simp add: drag_target_def fun_eq_iff)
  have "near (drag_target x pt) (cm_pos (drag_to pt x))" by (simp add: drag_to_def)
  then show ?case using Cons.IH [of "drag_to pt x" pt] t by simp
qed simp

text \<open>
  C14. Dragging: press the left button where the titles of windows are, move the pointer along any points and release the
  button. Every call succeeds; the window whose title is the last one in order there (whatever else covers it) lies
  within one pixel of where it was plus the way of the pointer from the press to its last position, all other windows
  are as they were, and no window is left in drag mode.\<close>

theorem window_follows_pointer:
  assumes "locks 2 s" and "desk s d xs" and "\<And>x. x \<in> set xs \<Longrightarrow> \<not> cm_drag_mode (child_meta x)"
    and "k < length xs" and "on_title a (xs ! k)" and "\<And>i. k < i \<Longrightarrow> i < length xs \<Longrightarrow> \<not> on_title a (xs ! i)"
  shows "\<exists>s' x'. drag_gesture (hj_queue_message (Suc n)) d a pts s = Inr (S_OK, s') \<and> desk s' d (xs[k := with_meta (\<lambda>_. x') (xs ! k)])
    \<and> \<not> cm_drag_mode x'
    \<and> near (POINT (px (cm_pos (child_meta (xs ! k))) + (px (List.last (a # pts)) - px a))
                  (py (cm_pos (child_meta (xs ! k))) + (py (List.last (a # pts)) - py a))) (cm_pos x')"
proof -
  let ?x = "child_meta (xs ! k)"
  let ?x1 = "start_drag a ?x"
  let ?x2 = "stop_drag (fold drag_to pts ?x1)"
  let ?ys = "xs[k := with_meta (start_drag a) (xs ! k)]"
  let ?zs = "?ys[k := with_meta (fold drag_to pts) (?ys ! k)]"
  have lh: "last_such (on_title a) xs 0 = Some k" by (rule last_such_eq) (use assms in auto)
  have od: "only_dragged ?ys k" using assms(3,4)
    by (auto simp: only_dragged_def with_meta_def start_drag_def nth_list_update)
  have off: "with_meta stop_drag x = x" if "x \<in> set xs" for x
  proof -
    have "stop_drag (child_meta x) = child_meta x" using assms(3) [OF that] by (cases "child_meta x") (simp add: stop_drag_def)
    then show ?thesis by (simp add: with_meta_def)
  qed
  have fin: "map (with_meta stop_drag) ?zs = xs[k := with_meta (\<lambda>_. ?x2) (xs ! k)]"
  proof (rule nth_equalityI)
    fix i assume "i < length (map (with_meta stop_drag) ?zs)"
    then show "map (with_meta stop_drag) ?zs ! i = xs[k := with_meta (\<lambda>_. ?x2) (xs ! k)] ! i"
      using off [of "xs ! i"] by (cases "i = k") (simp_all add: with_meta_def)
  qed simp
  have "gives s (drag_gesture (hj_queue_message (Suc n)) d a pts) S_OK (\<lambda>t. desk t d (xs[k := with_meta (\<lambda>_. ?x2) (xs ! k)]))"
    unfolding drag_gesture_def
  proof (rule gives_ok [OF mouse_down_gives [OF assms(1,2) lh] assms(1)])
    fix s1 assume s1: "desk (naked s1) d ?ys" "locks 2 s1"
    show "gives s1 (okS (mouse_moves (hj_queue_message (Suc n)) d pts) (desktop_mouse_up d (List.last (a # pts)))) S_OK
        (\<lambda>t. desk t d (xs[k := with_meta (\<lambda>_. ?x2) (xs ! k)]))"
    proof (rule gives_ok [OF mouse_moves_gives [OF s1(2) _ od] s1(2)])
      show "desk s1 d ?ys" using s1(1) by simp
      fix s2 assume "desk (naked s2) d ?zs" "locks 2 s2"
      then show "gives s2 (desktop_mouse_up d (List.last (a # pts))) S_OK (\<lambda>t. desk t d (xs[k := with_meta (\<lambda>_. ?x2) (xs ! k)]))"
        using mouse_up_gives [of s2 d ?zs] unfolding fin by simp
    qed
  qed
  then obtain s' where s': "drag_gesture (hj_queue_message (Suc n)) d a pts s = Inr (S_OK, s')" "desk s' d (xs[k := with_meta (\<lambda>_. ?x2) (xs ! k)])"
    using givesE [OF _ assms(1)] by (metis desk_naked)
  have t: "drag_target ?x1 p = POINT (px (cm_pos ?x) + (px p - px a)) (py (cm_pos ?x) + (py p - py a))" for p
    by (simp add: drag_target_def start_drag_def)
  have "near (drag_target ?x1 a) (cm_pos ?x1)" using t [of a] by (simp add: start_drag_def) (cases "cm_pos ?x", simp add: POINT_def)
  from fold_drag_near [OF this, of pts]
  have "near (drag_target ?x1 (List.last (a # pts))) (cm_pos ?x2)" by (simp add: stop_drag_def)
  then show ?thesis using s' t by (intro exI [of _ s'] exI [of _ ?x2]) (simp add: stop_drag_def)
qed

text \<open>A desktop with the task panel and a decorated window at (100, 100).\<close>

definition panel_child :: child where
  "panel_child = (0x10, (new_meta 0x2000)\<lparr>cm_pos := POINT 0 450\<rparr>, SIZE 10 10)"

definition window_child :: child where
  "window_child = (0x20, decorate HJ_DECORATION_NORMAL ((new_meta 0x3000)\<lparr>cm_pos := POINT 100 100\<rparr>), SIZE 10 10)"

definition one_window :: gui where
  "one_window = empty_gui\<lparr>
     gu_ctrls := [0x1000 \<mapsto> (new_object 0x1000 HJ_CLASS_DESKTOP HJ_CLASS_DESKTOP)\<lparr>hc_children := Some \<lparr>dl_count = 2, dl_root = 0x100\<rparr>,
                    hc_queue := create_ring_buffer True (Some (replicate 12288 0)) MESSAGE_QUEUE_SIZE RING_BUFFER_LOCK_NONE\<rparr>,
                  0x2000 \<mapsto> button_ctl 0x2000, 0x3000 \<mapsto> button_ctl 0x3000],
     gu_desktops := [0x1000 \<mapsto> zero_desktop],
     gu_metas := [0x10 \<mapsto> child_meta panel_child, 0x20 \<mapsto> child_meta window_child],
     gu_nodes := [0x100 \<mapsto> \<lparr>dn_prev = 0, dn_next = 0x200, dn_payload = 0x10\<rparr>,
                  0x200 \<mapsto> \<lparr>dn_prev = 0x100, dn_next = 0, dn_payload = 0x20\<rparr>]\<rparr>"

lemma one_window_facts:
  "locks 2 one_window" "desk one_window 0x1000 [panel_child, window_child]"
proof -
  show "locks 2 one_window"
    by (simp add: locks_def one_window_def empty_gui_def enterable_def lockable_def)
      (simp add: mutex_create_def spinlock_create_def)
  have "mailbox one_window 0x1000 []"
    by (simp add: mailbox_def one_window_def empty_gui_def new_object_def zero_control_def create_ring_buffer_def MESSAGE_QUEUE_SIZE_def
      sizeof_hj_message_def rb_inv_def rb_locks_ok_def ring_ok_def rb_usable_def rb_contents_def ring_data_def)
  moreover have "dl_repr (gu_nodes one_window) \<lparr>dl_count = 2, dl_root = 0x100\<rparr> [(0x100, 0x10), (0x200, 0x20)]"
    by (simp add: dl_repr_def addr_of_def node_of_def one_window_def less_Suc_eq)
  then have "family one_window 0x1000 [panel_child, window_child]"
    unfolding family_def
    by (intro conjI exI [of _ "[(0x100, 0x10), (0x200, 0x20)]"] exI [of _ "\<lparr>dl_count = 2, dl_root = 0x100\<rparr>"]
        exI [of _ "(new_object 0x1000 HJ_CLASS_DESKTOP HJ_CLASS_DESKTOP)\<lparr>hc_children := Some \<lparr>dl_count = 2, dl_root = 0x100\<rparr>,
          hc_queue := create_ring_buffer True (Some (replicate 12288 0)) MESSAGE_QUEUE_SIZE RING_BUFFER_LOCK_NONE\<rparr>"])
      (simp_all add: panel_child_def window_child_def one_window_def child_ok_def new_meta_def button_ctl_def decorate_def)
  ultimately show "desk one_window 0x1000 [panel_child, window_child]"
    by (auto simp: desk_def one_window_def)
qed

lemma window_follows_pointer_witness:
  "\<exists>s' x'. drag_gesture (hj_queue_message (Suc 1)) 0x1000 (POINT 105 110) [POINT 107 111, POINT 205 160] one_window = Inr (S_OK, s')
     \<and> desk s' 0x1000 [panel_child, (0x20, x', SIZE 10 10)] \<and> near (POINT 200 150) (cm_pos x')"
proof -
  have t: "on_title (POINT 105 110) window_child" by code_simp
  have m: "\<not> cm_drag_mode (child_meta panel_child)" "\<not> cm_drag_mode (child_meta window_child)" by code_simp+
  have p: "fst window_child = 0x20" "snd (snd window_child) = SIZE 10 10" "cm_pos (child_meta window_child) = POINT 100 100" by code_simp+
  have off: "\<not> cm_drag_mode (child_meta x)" if "x \<in> set [panel_child, window_child]" for x using that m by auto
  obtain s' x' where r: "drag_gesture (hj_queue_message (Suc 1)) 0x1000 (POINT 105 110) [POINT 107 111, POINT 205 160] one_window = Inr (S_OK, s')"
    "desk s' 0x1000 ([panel_child, window_child][1 := with_meta (\<lambda>_. x') ([panel_child, window_child] ! 1)])"
    "near (POINT (px (cm_pos (child_meta ([panel_child, window_child] ! 1))) + (px (List.last [POINT 105 110, POINT 107 111, POINT 205 160]) - px (POINT 105 110)))
      (py (cm_pos (child_meta ([panel_child, window_child] ! 1))) + (py (List.last [POINT 105 110, POINT 107 111, POINT 205 160]) - py (POINT 105 110)))) (cm_pos x')"
    using window_follows_pointer [OF one_window_facts, of 1 "POINT 105 110" 1 "[POINT 107 111, POINT 205 160]"] off t by fastforce
  have "desk s' 0x1000 [panel_child, (0x20, x', SIZE 10 10)]" "near (POINT 200 150) (cm_pos x')"
    using r(2,3) p by (simp_all add: with_meta_def)
  then show ?thesis using r(1) by blast
qed

end
