(* ===== verification/MouseEvents.thy ===== *)
theory MouseEvents
  imports MessageQueue Henjin
begin

unbundle bit_operations_syntax

text \<open>
  From the mouse driver to the desktop: the events that the driver's callback has queued become messages in the queue
  of the desktop.
\<close>

declare hj_queue_message.simps [simp del]

section \<open>Queued events\<close>

fun event_ok :: "mouse_event \<Rightarrow> bool" where
  "event_ok (MOUSE_EVENT_BUTTON_DOWN b) = (b < 2 ^ 32)"
| "event_ok (MOUSE_EVENT_BUTTON_UP b) = (b < 2 ^ 32)"
| "event_ok _ = True"

definition events_queued :: "cpu \<Rightarrow> hj_server \<Rightarrow> mouse_event list \<Rightarrow> bool" where
  "events_queued cpu sv evs \<longleftrightarrow> (\<exists>q. sv_mouse_driver_events sv = Some q \<and> rb_inv (cpu, q)
     \<and> rb_contents (cpu, q) = concat (map event_bytes evs) \<and> (\<forall>ev \<in> set evs. event_ok ev))"

lemma length_event_bytes [simp]: "length (event_bytes ev) = 12"
  by (cases ev) simp_all

lemma length_events [simp]: "length (concat (map event_bytes evs)) = 12 * length evs"
  by (induction evs) simp_all

lemma event_of_bytes: "event_ok ev \<Longrightarrow> event_of (event_bytes ev) = Some ev"
  by (cases ev) (simp_all add: event_of_def buf_get_skip buf_get_head buf_get_all Let_def unat_of_nat_small)

lemma events_size:
  assumes "events_queued (gu_cpu s) sv evs"
  obtains sv' where "events_step sv rb_get_read_size s = Inr ((of_nat (12 * length evs), sv'), s)"
    "events_queued (gu_cpu s) sv' evs" "\<exists>q. sv' = sv\<lparr>sv_mouse_driver_events := q\<rparr>"
proof -
  obtain q where q: "sv_mouse_driver_events sv = Some q" "rb_inv (gu_cpu s, q)" "rb_contents (gu_cpu s, q) = concat (map event_bytes evs)"
    "\<forall>ev \<in> set evs. event_ok ev" using assms by (auto simp: events_queued_def)
  obtain n q' where r: "rb_get_read_size (gu_cpu s) q = Inr (n, gu_cpu s, q')" "rb_inv (gu_cpu s, q')"
    "rb_contents (gu_cpu s, q') = concat (map event_bytes evs)" "unat n = 12 * length evs"
    using rb_read_size [OF q(2)] q(3) by auto
  have "n = of_nat (12 * length evs)" using word_eq_of_nat [OF r(4)] .
  then have "events_step sv rb_get_read_size s = Inr ((of_nat (12 * length evs), sv\<lparr>sv_mouse_driver_events := Some q'\<rparr>), s)"
    using q(1) r(1) by (simp add: events_step_def)
  then show ?thesis by (rule that) (use r q in \<open>auto simp: events_queued_def\<close>)
qed

lemma events_fetch:
  assumes "events_queued (gu_cpu s) sv (ev # evs)" and "length b = 12"
  obtains sv' where "events_step sv (\<lambda>cpu q. bindR (rb_read cpu q b (of_nat sizeof_mouse_event)) (\<lambda>(hr, b, cpu, q). Inr ((hr, b), cpu, q))) s
      = Inr (((S_OK, event_bytes ev), sv'), s)"
    "events_queued (gu_cpu s) sv' evs" "\<exists>q. sv' = sv\<lparr>sv_mouse_driver_events := q\<rparr>"
proof -
  obtain q where q: "sv_mouse_driver_events sv = Some q" "rb_inv (gu_cpu s, q)" "rb_contents (gu_cpu s, q) = concat (map event_bytes (ev # evs))"
    "\<forall>e \<in> set (ev # evs). event_ok e" using assms by (auto simp: events_queued_def)
  obtain q' where r: "rb_read (gu_cpu s) q b 12 = Inr (S_OK, event_bytes ev, gu_cpu s, q')" "rb_inv (gu_cpu s, q')"
    "rb_contents (gu_cpu s, q') = concat (map event_bytes evs)"
    using rb_read_ready [OF q(2), of 12 b] q(3) assms(2) by (auto simp: buf_put_def)
  have "events_step sv (\<lambda>cpu q. bindR (rb_read cpu q b (of_nat sizeof_mouse_event)) (\<lambda>(hr, b, cpu, q). Inr ((hr, b), cpu, q))) s
      = Inr (((S_OK, event_bytes ev), sv\<lparr>sv_mouse_driver_events := Some q'\<rparr>), s)"
    using q(1) r(1) by (simp add: events_step_def sizeof_mouse_event_def)
  then show ?thesis by (rule that) (use r q in \<open>auto simp: events_queued_def\<close>)
qed

section \<open>What the desktop is told\<close>

definition at_pos :: "mouse_message \<Rightarrow> NXGI_POINT \<Rightarrow> u32 \<Rightarrow> hj_message" where
  "at_pos kind p b = Mouse_message kind (ucast (px p)) (ucast (py p)) b"

text \<open>The pointer after a list of events, and the messages for them: movements add up, kept on the screen, with the
  vertical axis turned round.\<close>

fun pointer_step :: "NXGI_RECT \<Rightarrow> mouse_event \<Rightarrow> NXGI_POINT \<Rightarrow> NXGI_POINT" where
  "pointer_step r (MOUSE_EVENT_MOVEMENT dx dy) p = nxgig_clip_point (POINT (px p + dx) (py p - dy)) r"
| "pointer_step r _ p = p"

fun told :: "mouse_event \<Rightarrow> NXGI_POINT \<Rightarrow> hj_message list" where
  "told (MOUSE_EVENT_MOVEMENT dx dy) p = [at_pos HJ_MESSAGE_MOUSE_MOVED p 0]"
| "told (MOUSE_EVENT_BUTTON_UP b) p = [at_pos HJ_MESSAGE_MOUSE_UP p (of_nat b)]"
| "told (MOUSE_EVENT_BUTTON_DOWN b) p = [at_pos HJ_MESSAGE_MOUSE_DOWN p HJ_MOUSE_BUTTON_LEFT]"
| "told (MOUSE_EVENT_SCROLL a) p = []"

fun messages_for :: "NXGI_RECT \<Rightarrow> NXGI_POINT \<Rightarrow> mouse_event list \<Rightarrow> hj_message list" where
  "messages_for r p [] = []"
| "messages_for r p (ev # evs) = (let p = pointer_step r ev p in told ev p @ messages_for r p evs)"

lemma mouse_event_message_told:
  "mouse_event_message ev sv = (sv\<lparr>sv_mouse_pos := pointer_step (sv_screen_rect sv) ev (sv_mouse_pos sv)\<rparr>,
     case told ev (pointer_step (sv_screen_rect sv) ev (sv_mouse_pos sv)) of [] \<Rightarrow> None | m # _ \<Rightarrow> Some m)"
  by (cases ev) (simp_all add: at_pos_def Let_def HJ_MOUSE_BUTTON_LEFT_def)

lemma told_cases: "told ev p = [] \<or> (\<exists>m. told ev p = [m])"
  by (cases ev) simp_all

text \<open>Messages beyond the room of the queue are lost.\<close>

lemma send_told:
  assumes "locks 1 s" and "mailbox s d ms" and "told ev p = ls"
  shows "\<exists>hr s'. (case (case ls of [] \<Rightarrow> None | m # _ \<Rightarrow> Some m) of None \<Rightarrow> retS S_OK | Some m \<Rightarrow> hj_queue_message (Suc n) d m) s = Inr (hr, s')
    \<and> locks 1 s' \<and> gu_cpu s' = gu_cpu s \<and> mailbox s' d (take queue_room (ms @ ls)) \<and> queue_only d (naked s) (naked s')"
proof -
  have len: "length ms \<le> queue_room" by (rule mailbox_length [OF assms(2)])
  show ?thesis
  proof (cases "ls = []")
    case True
    have "steps_to s (retS S_OK) S_OK d ms" using assms(2) by (rule steps_to_ret)
    then have "queue_only d (naked s) (naked s)" by (auto simp: steps_to_def yields_def retS_def)
    then show ?thesis using True assms len by (auto simp: retS_def)
  next
    case False
    then obtain m where m: "ls = [m]" using told_cases [of ev p] assms(3) by auto
    have q: "take queue_room (ms @ [m]) = (if length ms < queue_room then ms @ [m] else ms)" using len by simp
    obtain s' where "queue_message (process_with (hj_queue_message n)) d m s = Inr (if length ms < queue_room then S_OK else E_BUFFEROVERFLOW, s')"
      "same_locks s s'" "locks 1 s'" "queue_only d (naked s) (naked s')" "mailbox s' d (take queue_room (ms @ [m]))"
      unfolding q by (rule steps_toE [OF queue_message_deferred [OF assms(1,2), of "process_with (hj_queue_message n)" m] assms(1)])
    then show ?thesis using m by (auto simp: same_locks_def hj_queue_message.simps)
  qed
qed

lemma take_room: "take n (take n (xs @ ys) @ zs) = take n (xs @ ys @ zs)"
  by (induction xs arbitrary: n; simp add: take_Cons' min_def)

lemma mouse_events_loop_delivers:
  assumes "locks 1 s" and "mailbox s d ms" and "events_queued (gu_cpu s) sv evs" and "length b = 12" and "length evs < fuel" and "12 * length evs < 2 ^ 32"
  shows "\<exists>s' sv'. mouse_events_loop (hj_queue_message (Suc n)) fuel b d sv s = Inr ((S_OK, sv'), s')
    \<and> mailbox s' d (take queue_room (ms @ messages_for (sv_screen_rect sv) (sv_mouse_pos sv) evs))
    \<and> sv_mouse_pos sv' = fold (pointer_step (sv_screen_rect sv)) evs (sv_mouse_pos sv)
    \<and> events_queued (gu_cpu s) sv' [] \<and> queue_only d (naked s) (naked s') \<and> locks 1 s'"
  using assms
proof (induction evs arbitrary: s sv ms b fuel)
  case Nil
  obtain f where f: "fuel = Suc f" using Nil(5) by (cases fuel) auto
  obtain sv' where sv': "events_step sv rb_get_read_size s = Inr ((0, sv'), s)" "events_queued (gu_cpu s) sv' []" "\<exists>q. sv' = sv\<lparr>sv_mouse_driver_events := q\<rparr>"
    using events_size [OF Nil(3)] by auto
  have "queue_only d (naked s) (naked s)"
    using steps_to_ret [OF Nil(2), of "()"] by (auto simp: steps_to_def yields_def retS_def)
  then show ?case using sv' Nil f mailbox_length [OF Nil(2)]
    by (intro exI [of _ s] exI [of _ sv']) (auto simp: bindS_def retS_def sizeof_mouse_event_def)
next
  case (Cons ev evs)
  obtain f where f: "fuel = Suc f" using Cons(6) by (cases fuel) auto
  obtain sv1 where sv1: "events_step sv rb_get_read_size s = Inr ((of_nat (12 * length (ev # evs)), sv1), s)"
    "events_queued (gu_cpu s) sv1 (ev # evs)" "\<exists>q. sv1 = sv\<lparr>sv_mouse_driver_events := q\<rparr>"
    by (rule events_size [OF Cons(4)])
  obtain sv2 where sv2: "events_step sv1 (\<lambda>cpu q. bindR (rb_read cpu q b (of_nat sizeof_mouse_event)) (\<lambda>(hr, b, cpu, q). Inr ((hr, b), cpu, q))) s
      = Inr (((S_OK, event_bytes ev), sv2), s)" "events_queued (gu_cpu s) sv2 evs" "\<exists>q. sv2 = sv1\<lparr>sv_mouse_driver_events := q\<rparr>"
    by (rule events_fetch [OF sv1(2) Cons(5)])
  have pos: "sv_screen_rect sv2 = sv_screen_rect sv" "sv_mouse_pos sv2 = sv_mouse_pos sv" using sv1(3) sv2(3) by auto
  let ?p = "pointer_step (sv_screen_rect sv) ev (sv_mouse_pos sv)"
  let ?sv3 = "sv2\<lparr>sv_mouse_pos := ?p\<rparr>"
  have enough: "\<not> (of_nat (12 * length (ev # evs)) :: u32) < of_nat sizeof_mouse_event"
  proof -
    have "unat (of_nat (12 * length (ev # evs)) :: u32) = 12 * length (ev # evs)" using Cons(7) by (intro unat_of_nat_small) simp
    then show ?thesis by (simp only: word_less_nat_alt sizeof_mouse_event_def) simp
  qed
  have ok: "event_ok ev" using Cons(4) by (auto simp: events_queued_def)
  obtain hr s1 where s1: "(case (case told ev ?p of [] \<Rightarrow> None | m # _ \<Rightarrow> Some m) of None \<Rightarrow> retS S_OK | Some m \<Rightarrow> hj_queue_message (Suc n) d m) s = Inr (hr, s1)"
    "locks 1 s1" "gu_cpu s1 = gu_cpu s" "mailbox s1 d (take queue_room (ms @ told ev ?p))" "queue_only d (naked s) (naked s1)"
    using send_told [OF Cons(2,3), of ev ?p _ n] by blast
  have q3: "events_queued (gu_cpu s1) ?sv3 evs" using sv2(2) s1(3) by (auto simp: events_queued_def)
  have lens: "length evs < f" "12 * length evs < 2 ^ 32" using Cons(6,7) f by simp_all
  obtain s' sv' where r: "mouse_events_loop (hj_queue_message (Suc n)) f (event_bytes ev) d ?sv3 s1 = Inr ((S_OK, sv'), s')"
    "mailbox s' d (take queue_room (take queue_room (ms @ told ev ?p) @ messages_for (sv_screen_rect ?sv3) (sv_mouse_pos ?sv3) evs))"
    "sv_mouse_pos sv' = fold (pointer_step (sv_screen_rect ?sv3)) evs (sv_mouse_pos ?sv3)"
    "events_queued (gu_cpu s1) sv' []" "queue_only d (naked s1) (naked s')" "locks 1 s'"
    using Cons.IH [OF s1(2,4) q3 length_event_bytes lens] by blast
  have step: "mouse_events_loop (hj_queue_message (Suc n)) fuel b d sv s = mouse_events_loop (hj_queue_message (Suc n)) f (event_bytes ev) d ?sv3 s1"
    unfolding f mouse_events_loop.simps
    using sv1(1) sv2(1) enough event_of_bytes [OF ok] s1(1) mouse_event_message_told [of ev sv2] pos
    by (simp add: bindS_def thenS_def)
  show ?case
    using r step pos s1 queue_only_trans [OF s1(5) r(5)] take_room [of queue_room ms "told ev ?p"]
    by (intro exI [of _ s'] exI [of _ sv']) (simp add: Let_def del: take_append)
qed

section \<open>Properties\<close>

text \<open>
  C9. One round of the server takes every event that the mouse driver has queued and tells the desktop about it: its
  message queue gets one message for each movement, press and release, in the order of the events and with the
  position of the pointer at that time, as far as there is room; the pointer moves by the sum of the movements,
  kept on the screen after each. Whatever button is pressed, the message says it is the left one. The round ends
  with the queue of events empty.\<close>

theorem mouse_events_reach_desktop:
  assumes "locks 1 s" and "mailbox s d ms" and "gu_ctrls s d = Some c" and "hc_inst c HJ_CLASS_CONTROL = d"
    and "sv_desktop sv = d" and "events_queued (gu_cpu s) sv evs" and "length b = sizeof_mouse_event"
  shows "\<exists>s' sv'. henjin_process_mouse_events (hj_queue_message (Suc n)) b sv s = Inr ((S_OK, sv'), s')
    \<and> mailbox s' d (take queue_room (ms @ messages_for (sv_screen_rect sv) (sv_mouse_pos sv) evs))
    \<and> sv_mouse_pos sv' = fold (pointer_step (sv_screen_rect sv)) evs (sv_mouse_pos sv)
    \<and> events_queued (gu_cpu s) sv' [] \<and> queue_only d (naked s) (naked s')"
proof -
  obtain q where q: "sv_mouse_driver_events sv = Some q" "rb_inv (gu_cpu s, q)" "rb_contents (gu_cpu s, q) = concat (map event_bytes evs)"
    using assms(6) by (auto simp: events_queued_def)
  have ok: "ring_ok (rb_capacity q) (rb_read_pointer q) (rb_write_pointer q) (rb_buffer q)" using q(2) by (simp add: rb_inv_def)
  have "length (rb_contents (gu_cpu s, q)) < unat (rb_capacity q)" using length_ring_data_less [OF ok] by (simp add: rb_contents_def)
  then have len: "12 * length evs < unat (rb_capacity q)" using q(3) by simp
  have "length evs < unat (rb_capacity q) + 1" "12 * length evs < 2 ^ 32" using len unat_lt_2_32 [of "rb_capacity q"] by simp_all
  from mouse_events_loop_delivers [OF assms(1,2,6) _ this, of b n] assms(7)
  have loop: "\<exists>s' sv'. mouse_events_loop (hj_queue_message (Suc n)) (unat (rb_capacity q) + 1) b d sv s = Inr ((S_OK, sv'), s')
    \<and> mailbox s' d (take queue_room (ms @ messages_for (sv_screen_rect sv) (sv_mouse_pos sv) evs))
    \<and> sv_mouse_pos sv' = fold (pointer_step (sv_screen_rect sv)) evs (sv_mouse_pos sv)
    \<and> events_queued (gu_cpu s) sv' [] \<and> queue_only d (naked s) (naked s')" unfolding sizeof_mouse_event_def by blast
  have "d \<noteq> 0" using assms(2) by (simp add: mailbox_def)
  then have "henjin_process_mouse_events (hj_queue_message (Suc n)) b sv s
      = mouse_events_loop (hj_queue_message (Suc n)) (unat (rb_capacity q) + 1) b d sv s"
    using q(1) assms(3-5) by (simp add: henjin_process_mouse_events_def bindS_def HJ_CAST_def ctl_def readS_def derefC_def retS_def del: mouse_events_loop.simps)
  then show ?thesis using loop by simp
qed

text \<open>A server with a movement and the press of button two in its queue.\<close>

definition server_example :: "mouse_event list \<Rightarrow> hj_server" where
  "server_example evs = \<lparr> sv_mouse_driver_events = map_option (\<lambda>q. q\<lparr>rb_write_pointer := of_nat (12 * length evs)\<rparr>)
       (create_ring_buffer True (Some (concat (map event_bytes evs) @ replicate 1512 0)) 1536 RING_BUFFER_LOCK_SPINLOCK),
     sv_mouse_drv = 0, sv_mouse_pos = POINT 630 470, sv_screen_rect = RECT 0 0 640 480, sv_desktop = 0x1000, sv_running = True \<rparr>"

lemma mouse_events_reach_desktop_witness:
  "\<exists>s' sv'. henjin_process_mouse_events (hj_queue_message (Suc 1)) (replicate sizeof_mouse_event 0)
        (server_example [MOUSE_EVENT_MOVEMENT 20 5, MOUSE_EVENT_BUTTON_DOWN 2]) gui_example = Inr ((S_OK, sv'), s')
     \<and> mailbox s' 0x1000 [Mouse_message HJ_MESSAGE_MOUSE_MOVED 640 465 0, Mouse_message HJ_MESSAGE_MOUSE_DOWN 640 465 0]"
proof -
  let ?evs = "[MOUSE_EVENT_MOVEMENT 20 5, MOUSE_EVENT_BUTTON_DOWN 2]"
  have ev: "events_queued (gu_cpu gui_example) (server_example ?evs) ?evs"
    by (simp add: events_queued_def server_example_def create_ring_buffer_def rb_inv_def rb_locks_ok_def ring_ok_def rb_contents_def
      ring_data_def spinlock_create_def)
  have msgs: "messages_for (RECT 0 0 640 480) (POINT 630 470) ?evs
      = [Mouse_message HJ_MESSAGE_MOUSE_MOVED 640 465 0, Mouse_message HJ_MESSAGE_MOUSE_DOWN 640 465 0]"
    by code_simp
  show ?thesis
    using mouse_events_reach_desktop [OF locks_mono [OF locks_gui_example] mailbox_gui_example _ _ _ ev, of _ "replicate sizeof_mouse_event 0" 1] msgs
    by (auto simp: server_example_def gui_example_def queue_room_def)
qed

end
