(* ===== verification/SoundBlaster.thy ===== *)
theory SoundBlaster
  imports IsaDma Vmm Fifo_Spec
begin

unbundle bit_operations_syntax

text \<open>
  \<^verbatim>\<open>drivers/sound_blaster16.c\<close>: the sound card. Samples wait in a ring buffer; the interrupt at the end of each half
  of the DMA memory fills a half with the next of them. The state holds the contexts of the driver by address,
  the two pointers to the context, the port accesses (in the state of \<open>IsaDma\<close>) and the kernel with the handlers
  and the processor. The card is a \<open>machine\<close> of \<open>PortIO\<close>; what runs while the driver yields is a parameter. The
  contents of the 64 KB at \<^verbatim>\<open>dma_memory\<close> and of the audio buffer belong to the context; a null pointer is an empty buffer.
\<close>

section \<open>State\<close>

record sb16_audio_format =
  af_bit_depth :: u32
  af_block_size :: u32
  af_sample_rate :: u32
  af_channels :: u32

record sb16_drv_context =
  sb_dma_memory :: bytes
  sb_dma_memory_phys :: u32
  sb_dma_mode :: u32
  sb_dma_current_half :: u32
  sb_audio_buffer :: bytes
  sb_audio_buffer_capacity :: u32
  sb_audio_rp :: u32
  sb_audio_wp :: u32
  sb_audio_buffer_lock :: spinlock
  sb_version_major :: u32
  sb_version_minor :: u32
  sb_irq_id :: u32
  sb_dma_channel :: u32
  sb_player_state :: u32
  sb_stop_pending_flag :: u32
  sb_skip_cntr :: u32
  sb_fmt :: sb16_audio_format

record sb16_port_map =
  po_dsp_reset :: u32
  po_dsp_read :: u32
  po_dsp_write :: u32
  po_dsp_read_status :: u32
  po_int_acknwg16 :: u32
  po_mixer_data :: u32
  po_mixer_addr :: u32

record sb16 =
  sbs_ports :: sb16_port_map
  sbs_ctxs :: "u32 \<Rightarrow> sb16_drv_context option"
  sbs_drv_ctx :: u32
  sbs_opaque :: u32
  sbs_dma :: dma
  sbs_kernel :: kernel

definition SB16_DMA_MODE_8BIT :: u32 where "SB16_DMA_MODE_8BIT = 0x01"
definition SB16_DMA_MODE_16BIT :: u32 where "SB16_DMA_MODE_16BIT = 0x02"
definition PLAYER_STATE_NOT_READY :: u32 where "PLAYER_STATE_NOT_READY = 0x00"
definition PLAYER_STATE_STOPPED :: u32 where "PLAYER_STATE_STOPPED = 0x01"
definition PLAYER_STATE_PLAYING :: u32 where "PLAYER_STATE_PLAYING = 0x02"
definition PLAYER_STATE_PAUSED :: u32 where "PLAYER_STATE_PAUSED = 0x03"
definition BASE_PORTS :: "u32 list" where "BASE_PORTS = [0x200, 0x220, 0x240, 0x260, 0x280, 0x210]"
definition CMD_GET_VERSION :: u8 where "CMD_GET_VERSION = 0xE1"
definition CMD_SET_SAMPLE_RATE :: u8 where "CMD_SET_SAMPLE_RATE = 0x41"
definition CMD_SPEAKER_ON :: u8 where "CMD_SPEAKER_ON = 0xD1"
definition CMD_SPEAKER_OFF :: u8 where "CMD_SPEAKER_OFF = 0xD3"
definition CMD_START_8BIT_OUT :: u8 where "CMD_START_8BIT_OUT = 0xC6"
definition CMD_START_16BIT_OUT :: u8 where "CMD_START_16BIT_OUT = 0xB6"
definition CMD_STOP_8BIT :: u8 where "CMD_STOP_8BIT = 0xDA"
definition CMD_STOP_16BIT :: u8 where "CMD_STOP_16BIT = 0xD9"
definition DMA_BUFFER_SIZE :: u32 where "DMA_BUFFER_SIZE = 0x10000"
definition DMA_MODE_SINGLE :: u32 where "DMA_MODE_SINGLE = 0x01"


lemmas player_states = PLAYER_STATE_NOT_READY_def PLAYER_STATE_STOPPED_def PLAYER_STATE_PLAYING_def PLAYER_STATE_PAUSED_def
lemmas sb_modes = SB16_DMA_MODE_8BIT_def SB16_DMA_MODE_16BIT_def

definition sb_ctx :: "u32 \<Rightarrow> sb16 \<Rightarrow> sb16_drv_context run" where
  "sb_ctx p s = (case sbs_ctxs s p of None \<Rightarrow> Inl BadAccess | Some c \<Rightarrow> Inr c)"

definition sb_put :: "u32 \<Rightarrow> sb16_drv_context \<Rightarrow> sb16 \<Rightarrow> sb16" where
  "sb_put p c s = s\<lparr>sbs_ctxs := (sbs_ctxs s)(p \<mapsto> c)\<rparr>"

definition sb_upd :: "u32 \<Rightarrow> (sb16_drv_context \<Rightarrow> sb16_drv_context) \<Rightarrow> sb16 \<Rightarrow> sb16 run" where
  "sb_upd p f s = bindR (sb_ctx p s) (\<lambda>c. Inr (sb_put p (f c) s))"

definition get_drv_ctx :: "sb16 \<Rightarrow> u32" where
  "get_drv_ctx s = sbs_opaque s"

definition sb_out :: "u32 \<Rightarrow> u8 \<Rightarrow> sb16 \<Rightarrow> sb16" where
  "sb_out port v s = s\<lparr>sbs_dma := (sbs_dma s)\<lparr>dma_io := outb (ucast port) v (dma_io (sbs_dma s))\<rparr>\<rparr>"

definition sb_in :: "machine \<Rightarrow> u32 \<Rightarrow> sb16 \<Rightarrow> u8 \<times> sb16" where
  "sb_in m port s =
     (let (v, h) = inb m (ucast port) (dma_io (sbs_dma s)) in (v, s\<lparr>sbs_dma := (sbs_dma s)\<lparr>dma_io := h\<rparr>\<rparr>))"

text \<open>The spinlock of the audio buffer.\<close>

definition sb_lock :: "u32 \<Rightarrow> sb16 \<Rightarrow> (u32 \<times> sb16) run" where
  "sb_lock p s =
     bindR (sb_ctx p s) (\<lambda>c.
     bindR (spinlock_acquire (kernel_cpu (sbs_kernel s)) (sb_audio_buffer_lock c)) (\<lambda>(intf, cpu, sl).
     Inr (intf, sb_put p (c\<lparr>sb_audio_buffer_lock := sl\<rparr>) (s\<lparr>sbs_kernel := set_if (cpu_if cpu) (sbs_kernel s)\<rparr>))))"

definition sb_unlock :: "u32 \<Rightarrow> u32 \<Rightarrow> sb16 \<Rightarrow> sb16 run" where
  "sb_unlock p intf s =
     bindR (sb_ctx p s) (\<lambda>c.
     bindR (spinlock_release (kernel_cpu (sbs_kernel s)) (sb_audio_buffer_lock c) intf) (\<lambda>(cpu, sl).
     Inr (sb_put p (c\<lparr>sb_audio_buffer_lock := sl\<rparr>) (s\<lparr>sbs_kernel := set_if (cpu_if cpu) (sbs_kernel s)\<rparr>))))"

text \<open>A routine of \<open>IsaDma\<close>, which has the processor in its own state.\<close>

definition with_dma :: "(dma \<Rightarrow> ('a \<times> dma) run) \<Rightarrow> sb16 \<Rightarrow> ('a \<times> sb16) run" where
  "with_dma f s =
     bindR (f ((sbs_dma s)\<lparr>dma_cpu := kernel_cpu (sbs_kernel s)\<rparr>)) (\<lambda>(r, d).
     Inr (r, s\<lparr>sbs_dma := d, sbs_kernel := set_if (cpu_if (dma_cpu d)) (sbs_kernel s)\<rparr>))"

section \<open>The signal processor and the mixer\<close>

text \<open>The polls that are left before the panic.\<close>

fun sb_write_wait :: "machine \<Rightarrow> nat \<Rightarrow> sb16 \<Rightarrow> sb16 run" where
  "sb_write_wait m 0 s = Inl (Panic ''sb_write_dsp(): timed out.'')"
| "sb_write_wait m (Suc n) s =
     (let (v, s) = sb_in m (po_dsp_write (sbs_ports s)) s in
      if v AND 0x80 \<noteq> 0 then sb_write_wait m n s else Inr s)"

definition sb_write_dsp :: "machine \<Rightarrow> u8 \<Rightarrow> sb16 \<Rightarrow> (hresult \<times> sb16) run" where
  "sb_write_dsp m data s =
     bindR (sb_write_wait m 50000 s) (\<lambda>s. Inr (S_OK, sb_out (po_dsp_write (sbs_ports s)) data s))"

fun sb_read_wait :: "machine \<Rightarrow> nat \<Rightarrow> sb16 \<Rightarrow> sb16 run" where
  "sb_read_wait m 0 s = Inl (Panic ''sb_read_dsp(): timed out.'')"
| "sb_read_wait m (Suc n) s =
     (let (v, s) = sb_in m (po_dsp_read_status (sbs_ports s)) s in
      if v AND 0x80 = 0 then sb_read_wait m n s else Inr s)"

definition sb_read_dsp :: "machine \<Rightarrow> sb16 \<Rightarrow> (u8 \<times> hresult \<times> sb16) run" where
  "sb_read_dsp m s =
     bindR (sb_read_wait m 50000 s) (\<lambda>s.
       let (v, s) = sb_in m (po_dsp_read (sbs_ports s)) s in Inr (v, S_OK, s))"

definition sb_write_mixer :: "u8 \<Rightarrow> u8 \<Rightarrow> sb16 \<Rightarrow> sb16" where
  "sb_write_mixer reg data s =
     sb_out (po_mixer_data (sbs_ports s)) data (sb_out (po_mixer_addr (sbs_ports s)) reg s)"

definition sb_set_volume :: "u8 \<Rightarrow> sb16 \<Rightarrow> sb16" where
  "sb_set_volume master s =
     (let v = push_bit 3 master in
      foldl (\<lambda>s (reg, x). sb_write_mixer reg x s) s
        [(0x32, v), (0x33, v), (0x34, 0), (0x35, 0), (0x36, 0), (0x37, 0), (0x38, 0), (0x39, 0), (0x3A, 0), (0x30, v), (0x31, v)])"

definition sb_read_mixer :: "machine \<Rightarrow> u8 \<Rightarrow> sb16 \<Rightarrow> u8 \<times> sb16" where
  "sb_read_mixer m reg s = sb_in m (po_mixer_data (sbs_ports s)) (sb_out (po_mixer_addr (sbs_ports s)) reg s)"

definition sb_set_mixer_irq_dma :: "u32 \<Rightarrow> u32 \<Rightarrow> sb16 \<Rightarrow> hresult \<times> sb16" where
  "sb_set_mixer_irq_dma irq dma_channel s =
     (case map_of [(2, 1), (5, 2), (7, 4), (10, 8)] irq of
        None \<Rightarrow> (E_FAIL, s)
      | Some int_status \<Rightarrow>
          (S_OK, sb_write_mixer 0x81 (push_bit (unat dma_channel) 1) (sb_write_mixer 0x80 int_status s)))"

text \<open>A register with no meaning leaves the corresponding variable as it is.\<close>

definition sb_get_mixer_irq_dma :: "machine \<Rightarrow> u32 \<Rightarrow> u32 \<Rightarrow> sb16 \<Rightarrow> hresult \<times> u32 \<times> u32 \<times> sb16" where
  "sb_get_mixer_irq_dma m irq dma_channel s =
     (let (irq_status, s) = sb_read_mixer m 0x80 s;
          (dma_status, s) = sb_read_mixer m 0x81 s in
      case map_of [(1, 2), (2, 5), (4, 7), (8, 10)] irq_status of
        None \<Rightarrow> (E_FAIL, irq, dma_channel, s)
      | Some irq \<Rightarrow>
          (case map_of [(1, 0), (2, 1), (8, 3), (32, 5), (64, 6), (128, 7)] dma_status of
             None \<Rightarrow> (E_FAIL, irq, dma_channel, s)
           | Some chan \<Rightarrow> (S_OK, irq, chan, s)))"

definition sb_reset_mixer :: "sb16 \<Rightarrow> sb16" where
  "sb_reset_mixer s = sb_write_mixer 0x00 0 s"

section \<open>The ring buffer\<close>

definition sb_rb_write :: "sb16_drv_context \<Rightarrow> bytes \<Rightarrow> u32 \<Rightarrow> (hresult \<times> sb16_drv_context) run" where
  "sb_rb_write ctx src len =
     (let free_seg_size = ring_free (sb_audio_buffer_capacity ctx) (sb_audio_rp ctx) (sb_audio_wp ctx) - 1 in
      if free_seg_size < len then Inr (E_BUFFEROVERFLOW, ctx)
      else bindR (ring_store (sb_audio_buffer_capacity ctx) (sb_audio_wp ctx) (sb_audio_buffer ctx) src len) (\<lambda>(buf, wp).
        Inr (S_OK, ctx\<lparr>sb_audio_buffer := buf, sb_audio_wp := wp\<rparr>)))"

definition rb_get_read_size :: "sb16_drv_context \<Rightarrow> u32" where
  "rb_get_read_size ctx = ring_avail (sb_audio_buffer_capacity ctx) (sb_audio_rp ctx) (sb_audio_wp ctx)"

definition rb_get_write_size :: "sb16_drv_context \<Rightarrow> u32" where
  "rb_get_write_size ctx = ring_free (sb_audio_buffer_capacity ctx) (sb_audio_rp ctx) (sb_audio_wp ctx) - 1"

definition sb_rb_read :: "sb16_drv_context \<Rightarrow> bytes \<Rightarrow> u32 \<Rightarrow> (hresult \<times> bytes \<times> sb16_drv_context) run" where
  "sb_rb_read ctx dst len =
     (if rb_get_read_size ctx < len then Inr (E_BUFFERUNDERFLOW, dst, ctx)
      else bindR (ring_fetch (sb_audio_buffer_capacity ctx) (sb_audio_rp ctx) (sb_audio_buffer ctx) dst len) (\<lambda>(dst, rp).
        Inr (S_OK, dst, ctx\<lparr>sb_audio_rp := rp\<rparr>)))"

definition sb_rb_read_upto :: "sb16_drv_context \<Rightarrow> bytes \<Rightarrow> u32 \<Rightarrow> (hresult \<times> bytes \<times> u32 \<times> sb16_drv_context) run" where
  "sb_rb_read_upto ctx dst limit =
     (let size = rb_get_read_size ctx; size = (if size > limit then limit else size) in
      if size = 0 then Inr (E_BUFFERUNDERFLOW, dst, size, ctx)
      else bindR (sb_rb_read ctx dst size) (\<lambda>(hr, dst, ctx). Inr (hr, dst, size, ctx)))"

section \<open>Detecting the card\<close>

definition sb16_ports_at :: "u32 \<Rightarrow> sb16_port_map" where
  "sb16_ports_at base = \<lparr> po_dsp_reset = base + 0x06, po_dsp_read = base + 0x0A, po_dsp_write = base + 0x0C,
     po_dsp_read_status = base + 0x0E, po_int_acknwg16 = base + 0x0F, po_mixer_data = base + 0x05, po_mixer_addr = base + 0x04 \<rparr>"

definition no_sb16_ports :: sb16_port_map where
  "no_sb16_ports = \<lparr> po_dsp_reset = 0, po_dsp_read = 0, po_dsp_write = 0, po_dsp_read_status = 0, po_int_acknwg16 = 0,
     po_mixer_data = 0, po_mixer_addr = 0 \<rparr>"

text \<open>Polling for the answer to a reset; whether it came.\<close>

fun sb_reset_wait :: "machine \<Rightarrow> nat \<Rightarrow> sb16 \<Rightarrow> bool \<times> sb16" where
  "sb_reset_wait m 0 s = (False, s)"
| "sb_reset_wait m (Suc n) s =
     (let (v, s) = sb_in m (po_dsp_read_status (sbs_ports s)) s in
      if v AND 0x80 = 0 then sb_reset_wait m n s else (True, s))"

text \<open>\<open>yield\<close> is what runs while \<^verbatim>\<open>sched_update_sw\<close> gives up the processor. The first delay only burns time.\<close>

definition sb16_reset_dsp :: "machine \<Rightarrow> (sb16 \<Rightarrow> sb16 run) \<Rightarrow> u32 \<Rightarrow> sb16 \<Rightarrow> (hresult \<times> sb16) run" where
  "sb16_reset_dsp m yield base s =
     (let s = s\<lparr>sbs_ports := sb16_ports_at base\<rparr>;
          s = sb_out (po_dsp_reset (sbs_ports s)) 1 s;
          s = sb_out (po_dsp_reset (sbs_ports s)) 0 s in
      bindR (yield s) (\<lambda>s. bindR (yield s) (\<lambda>s. bindR (yield s) (\<lambda>s.
        let (ready, s) = sb_reset_wait m 65535 s in
        if \<not> ready then Inr (E_FAIL, s\<lparr>sbs_ports := no_sb16_ports\<rparr>)
        else
          let (v, s) = sb_in m (po_dsp_read (sbs_ports s)) s in
          if v \<noteq> 0xAA then Inr (E_FAIL, s\<lparr>sbs_ports := no_sb16_ports\<rparr>) else Inr (S_OK, s)))))"

definition sb_enable_dac_speaker :: "machine \<Rightarrow> bool \<Rightarrow> sb16 \<Rightarrow> sb16 run" where
  "sb_enable_dac_speaker m enable s =
     bindR (sb_write_dsp m (if enable then CMD_SPEAKER_ON else CMD_SPEAKER_OFF) s) (\<lambda>(_, s). Inr s)"

definition sb_get_version :: "machine \<Rightarrow> sb16 \<Rightarrow> (hresult \<times> u8 \<times> u8 \<times> sb16) run" where
  "sb_get_version m s =
     bindR (sb_write_dsp m CMD_GET_VERSION s) (\<lambda>(_, s).
     bindR (sb_read_dsp m s) (\<lambda>(maj, _, s).
     bindR (sb_read_dsp m s) (\<lambda>(mn, hr, s). Inr (hr, maj, mn, s))))"

section \<open>The interrupt\<close>

text \<open>\<^verbatim>\<open>memset\<close> at an offset.\<close>

definition silence :: "bytes \<Rightarrow> nat \<Rightarrow> nat \<Rightarrow> bytes run" where
  "silence b off n = memcpyR b off (replicate n 0) 0 n"

text \<open>The part under the lock.\<close>

definition sb16_fill_half :: "sb16_drv_context \<Rightarrow> sb16_drv_context run" where
  "sb16_fill_half ctx =
     (if sb_skip_cntr ctx \<noteq> 0 then Inr (ctx\<lparr>sb_skip_cntr := sb_skip_cntr ctx - 1\<rparr>)
      else
        let size = DMA_BUFFER_SIZE div 2;
            off = (if sb_dma_current_half ctx = 0 then 0 else unat size) in
        bindR (sb_rb_read_upto ctx (drop off (sb_dma_memory ctx)) size) (\<lambda>(_, dst, actual_size, ctx).
        bindR (if actual_size < size then silence dst (unat actual_size) (unat (size - actual_size)) else Inr dst) (\<lambda>dst.
        Inr (ctx\<lparr>sb_dma_memory := take off (sb_dma_memory ctx) @ dst\<rparr>))))"

definition sb16_isr :: "machine \<Rightarrow> sb16 \<Rightarrow> sb16 run" where
  "sb16_isr m s =
     (let p = sbs_drv_ctx s;
          (intr_status, s) = sb_read_mixer m 0x82 s;
          bad = Panic ''sb16_isr(): invalid interrupt status (read from reg 0x82).'' in
      bindR (sb_upd p (\<lambda>c. c\<lparr>sb_dma_current_half := sb_dma_current_half c XOR 1\<rparr>) s) (\<lambda>s.
      bindR (sb_ctx p s) (\<lambda>ctx.
      bindR (if sb_stop_pending_flag ctx \<noteq> 0 then
               bindR (if intr_status AND 0x07 = 1 then sb_write_dsp m CMD_STOP_8BIT s
                      else if intr_status AND 0x07 = 2 then sb_write_dsp m CMD_STOP_16BIT s else Inl bad) (\<lambda>(_, s).
               sb_upd p (\<lambda>c. c\<lparr>sb_stop_pending_flag := 0\<rparr>) s)
             else
               bindR (sb_lock p s) (\<lambda>(intf, s).
               bindR (sb_ctx p s) (\<lambda>ctx.
               bindR (sb16_fill_half ctx) (\<lambda>ctx.
               sb_unlock p intf (sb_put p ctx s))))) (\<lambda>s.
      if intr_status AND 0x07 = 1 then Inr (snd (sb_in m (po_dsp_read_status (sbs_ports s)) s))
      else if intr_status AND 0x07 = 2 then Inr (snd (sb_in m (po_int_acknwg16 (sbs_ports s)) s))
      else Inl bad))))"

section \<open>Requests\<close>

definition sb16_get_bufferred_size :: "sb16 \<Rightarrow> (hresult \<times> u32 \<times> sb16) run" where
  "sb16_get_bufferred_size s =
     (let p = get_drv_ctx s in
      bindR (sb_lock p s) (\<lambda>(intf, s).
      bindR (sb_ctx p s) (\<lambda>ctx.
      bindR (sb_unlock p intf s) (\<lambda>s. Inr (S_OK, rb_get_read_size ctx, s)))))"

definition sb16_get_buffer_free_size :: "sb16 \<Rightarrow> (hresult \<times> u32 \<times> sb16) run" where
  "sb16_get_buffer_free_size s =
     (let p = get_drv_ctx s in
      bindR (sb_lock p s) (\<lambda>(intf, s).
      bindR (sb_ctx p s) (\<lambda>ctx.
      bindR (sb_unlock p intf s) (\<lambda>s. Inr (S_OK, rb_get_write_size ctx, s)))))"

definition sb16_set_format :: "u32 \<Rightarrow> u32 \<Rightarrow> u32 \<Rightarrow> sb16 \<Rightarrow> (hresult \<times> sb16) run" where
  "sb16_set_format channel_cnt sample_size_bits sample_rate s =
     (let p = get_drv_ctx s in
      bindR (sb_ctx p s) (\<lambda>ctx.
      if sb_player_state ctx \<noteq> PLAYER_STATE_STOPPED then Inr (E_INVALIDSTATE, s)
      else if sample_rate < 5000 \<or> sample_rate > 44100 then Inr (E_NOTSUPPORTED, s)
      else if sample_size_bits \<noteq> 8 \<and> sample_size_bits \<noteq> 16 then Inr (E_NOTSUPPORTED, s)
      else if channel_cnt < 1 \<or> channel_cnt > 2 then Inr (E_NOTSUPPORTED, s)
      else Inr (S_OK, sb_put p (ctx\<lparr>sb_audio_rp := 0, sb_audio_wp := 0,
        sb_fmt := \<lparr> af_bit_depth = sample_size_bits, af_block_size = channel_cnt * sample_size_bits div 8,
          af_sample_rate = sample_rate, af_channels = channel_cnt \<rparr>\<rparr>) s)))"

definition sb16_get_format :: "sb16 \<Rightarrow> (hresult \<times> sb16_audio_format option) run" where
  "sb16_get_format s =
     bindR (sb_ctx (get_drv_ctx s) s) (\<lambda>ctx.
     if sb_player_state ctx = PLAYER_STATE_NOT_READY then Inr (E_INVALIDSTATE, None) else Inr (S_OK, Some (sb_fmt ctx)))"

definition sb16_update_player_state :: "u32 \<Rightarrow> u32 \<Rightarrow> sb16 \<Rightarrow> sb16 run" where
  "sb16_update_player_state p new_state s = sb_upd p (\<lambda>c. c\<lparr>sb_player_state := new_state\<rparr>) s"

text \<open>The part of \<^verbatim>\<open>sb16_begin_playback\<close> for a player that is stopped.\<close>

definition sb16_setup_dma :: "u32 \<Rightarrow> sb16 \<Rightarrow> (hresult \<times> sb16) run" where
  "sb16_setup_dma p s =
     bindR (sb_upd p (\<lambda>c.
       let mode = (if af_bit_depth (sb_fmt c) = 8 then SB16_DMA_MODE_8BIT else SB16_DMA_MODE_16BIT) in
       c\<lparr>sb_dma_mode := mode, sb_dma_channel := (if mode = SB16_DMA_MODE_8BIT then 1 else 5),
         sb_dma_current_half := 0, sb_skip_cntr := 1\<rparr>) s) (\<lambda>s.
     bindR (sb_ctx p s) (\<lambda>ctx.
       let (hr, s) = sb_set_mixer_irq_dma (sb_irq_id ctx) (sb_dma_channel ctx) s in
       if FAILED hr then Inr (hr, s)
       else with_dma (isadma_open_channel (sb_dma_channel ctx) (sb_dma_memory_phys ctx) DMA_BUFFER_SIZE DMA_TRANSFER_READ
              DMA_MODE_SINGLE 1) s))"

text \<open>Moving what is queued to the DMA memory.\<close>

definition sb16_preroll :: "sb16_drv_context \<Rightarrow> sb16_drv_context run" where
  "sb16_preroll ctx =
     bindR (sb_rb_read_upto ctx (sb_dma_memory ctx) DMA_BUFFER_SIZE) (\<lambda>(_, mem, actual, ctx).
       let ctx = ctx\<lparr>sb_dma_memory := mem\<rparr> in
       Inr (if actual < DMA_BUFFER_SIZE then ctx\<lparr>sb_skip_cntr := 0, sb_dma_current_half := 1\<rparr> else ctx))"

fun sb_write_all :: "machine \<Rightarrow> bytes \<Rightarrow> sb16 \<Rightarrow> sb16 run" where
  "sb_write_all m [] s = Inr s"
| "sb_write_all m (x # xs) s = bindR (sb_write_dsp m x s) (\<lambda>(_, s). sb_write_all m xs s)"

text \<open>The commands that start the output.\<close>

definition sb16_start_commands :: "sb16_drv_context \<Rightarrow> bytes run" where
  "sb16_start_commands ctx =
     (let rate = af_sample_rate (sb_fmt ctx); mono = (af_channels (sb_fmt ctx) = 1);
          head = [CMD_SET_SAMPLE_RATE, ucast (drop_bit 8 rate AND 0xFF), ucast (rate AND 0xFF)] in
      if sb_dma_mode ctx = SB16_DMA_MODE_8BIT then
        let blk = ucast (DMA_BUFFER_SIZE div 2 - 1) :: u16 in
        Inr (head @ [CMD_START_8BIT_OUT, if mono then 0x00 else 0x20, ucast (blk AND 0xFF), ucast (drop_bit 8 blk AND 0xFF)])
      else if sb_dma_mode ctx = SB16_DMA_MODE_16BIT then
        let blk = ucast (DMA_BUFFER_SIZE div 4 - 1) :: u16 in
        Inr (head @ [CMD_START_16BIT_OUT, if mono then 0x10 else 0x30, ucast (blk AND 0xFF), ucast (drop_bit 8 blk AND 0xFF)])
      else Inl (Panic ''sb16_begin_playback(): Unexpected DMA mode.''))"

text \<open>\<open>isr\<close> is the address of \<^verbatim>\<open>sb16_isr\<close>.\<close>

definition sb16_begin_playback :: "machine \<Rightarrow> u32 \<Rightarrow> sb16 \<Rightarrow> (hresult \<times> sb16) run" where
  "sb16_begin_playback m isr s =
     (let p = get_drv_ctx s in
      bindR (sb_ctx p s) (\<lambda>ctx.
      if sb_player_state ctx = PLAYER_STATE_PLAYING \<or> sb_player_state ctx = PLAYER_STATE_NOT_READY then Inr (E_INVALIDSTATE, s)
      else
        bindR (silence (sb_dma_memory ctx) 0 (unat DMA_BUFFER_SIZE)) (\<lambda>mem.
        let (_, irq, chan, s) = sb_get_mixer_irq_dma m (sb_irq_id ctx) (sb_dma_channel ctx) s;
            s = sb_put p (ctx\<lparr>sb_dma_memory := mem, sb_irq_id := irq, sb_dma_channel := chan\<rparr>) s;
            s = s\<lparr>sbs_kernel := (sbs_kernel s)\<lparr>ks_int := snd (register_isr_callback (ks_int (sbs_kernel s)) (irq_to_intid irq) isr)\<rparr>\<rparr> in
        bindR (if sb_player_state ctx = PLAYER_STATE_STOPPED then sb16_setup_dma p s else Inr (S_OK, s)) (\<lambda>(hr, s).
        if FAILED hr then Inr (hr, s)
        else
          bindR (sb_ctx p s) (\<lambda>ctx.
          bindR (sb16_preroll ctx) (\<lambda>ctx.
          bindR (sb_enable_dac_speaker m True (sb_put p ctx s)) (\<lambda>s.
          bindR (sb16_start_commands ctx) (\<lambda>cmds.
          bindR (sb_write_all m cmds s) (\<lambda>s.
          bindR (sb16_update_player_state p PLAYER_STATE_PLAYING s) (\<lambda>s. Inr (S_OK, s)))))))))))"

fun sb_stop_wait :: "(sb16 \<Rightarrow> sb16 run) \<Rightarrow> u32 \<Rightarrow> nat \<Rightarrow> sb16 \<Rightarrow> (hresult \<times> sb16) run" where
  "sb_stop_wait yield p 0 s = Inr (E_TIMEDOUT, s)"
| "sb_stop_wait yield p (Suc n) s =
     bindR (sb_ctx p s) (\<lambda>ctx.
     if sb_stop_pending_flag ctx = 0 then Inr (S_OK, s)
     else bindR (yield s) (\<lambda>s. sb_stop_wait yield p n s))"

definition sb16_stop_playback :: "machine \<Rightarrow> (sb16 \<Rightarrow> sb16 run) \<Rightarrow> sb16 \<Rightarrow> (hresult \<times> sb16) run" where
  "sb16_stop_playback m yield s =
     (let p = get_drv_ctx s in
      bindR (sb_ctx p s) (\<lambda>ctx.
      if sb_player_state ctx \<noteq> PLAYER_STATE_PLAYING \<and> sb_player_state ctx \<noteq> PLAYER_STATE_PAUSED then Inr (E_INVALIDSTATE, s)
      else
        bindR (sb_stop_wait yield p 10000 (sb_put p (ctx\<lparr>sb_stop_pending_flag := 1\<rparr>) s)) (\<lambda>(hr, s).
        if FAILED hr then Inr (hr, s)
        else
          bindR (sb_enable_dac_speaker m False s) (\<lambda>s.
          bindR (sb_ctx p s) (\<lambda>ctx.
            let s = s\<lparr>sbs_kernel := (sbs_kernel s)\<lparr>ks_int := snd (unregister_isr_callback (ks_int (sbs_kernel s)) (irq_to_intid (sb_irq_id ctx)))\<rparr>\<rparr> in
          bindR (with_dma (isadma_close_channel (sb_dma_channel ctx)) s) (\<lambda>(_, s).
          bindR (sb_upd p (\<lambda>c. c\<lparr>sb_audio_rp := 0, sb_audio_wp := 0\<rparr>) s) (\<lambda>s. Inr (S_OK, s))))))))"

definition sb16_write :: "bytes \<Rightarrow> u32 \<Rightarrow> sb16 \<Rightarrow> (hresult \<times> sb16) run" where
  "sb16_write in_buf block_size s =
     (let p = get_drv_ctx s in
      bindR (sb_lock p s) (\<lambda>(intf, s).
      bindR (sb_ctx p s) (\<lambda>ctx.
      bindR (sb_rb_write ctx in_buf block_size) (\<lambda>(hr, ctx).
      bindR (sb_unlock p intf (sb_put p ctx s)) (\<lambda>s. Inr (hr, s))))))"

text \<open>The codes of \<^verbatim>\<open>ioctl_def.h\<close> with what they pass in; \<open>DEVIO_SIGNAL\<close> stands for opening and closing.\<close>

datatype audio_request =
    IOCTL_AUDIO_BEGIN_PLAYBACK | IOCTL_AUDIO_STOP_PLAYBACK | IOCTL_AUDIO_SET_FORMAT sb16_audio_format
  | IOCTL_AUDIO_GET_FORMAT | IOCTL_AUDIO_GET_PLAYER_STATE | IOCTL_AUDIO_BUFFER_FREE_SIZE | IOCTL_AUDIO_GET_BUFFERED_SIZE
  | DEVIO_SIGNAL | Other_request u32

datatype audio_answer = No_answer | Number u32 | Format sb16_audio_format

definition sb16_ioctl :: "machine \<Rightarrow> u32 \<Rightarrow> (sb16 \<Rightarrow> sb16 run) \<Rightarrow> audio_request \<Rightarrow> sb16 \<Rightarrow> (hresult \<times> audio_answer \<times> sb16) run" where
  "sb16_ioctl m isr yield req s =
     (case req of
        IOCTL_AUDIO_BEGIN_PLAYBACK \<Rightarrow> bindR (sb16_begin_playback m isr s) (\<lambda>(hr, s). Inr (hr, No_answer, s))
      | IOCTL_AUDIO_STOP_PLAYBACK \<Rightarrow> bindR (sb16_stop_playback m yield s) (\<lambda>(hr, s). Inr (hr, No_answer, s))
      | IOCTL_AUDIO_SET_FORMAT af \<Rightarrow>
          bindR (sb16_set_format (af_channels af) (af_bit_depth af) (af_sample_rate af) s) (\<lambda>(hr, s). Inr (hr, No_answer, s))
      | IOCTL_AUDIO_GET_FORMAT \<Rightarrow>
          bindR (sb16_get_format s) (\<lambda>(hr, f). Inr (hr, case f of None \<Rightarrow> No_answer | Some f \<Rightarrow> Format f, s))
      | IOCTL_AUDIO_GET_PLAYER_STATE \<Rightarrow>
          bindR (sb_ctx (get_drv_ctx s) s) (\<lambda>ctx. Inr (S_OK, Number (sb_player_state ctx), s))
      | IOCTL_AUDIO_BUFFER_FREE_SIZE \<Rightarrow> bindR (sb16_get_buffer_free_size s) (\<lambda>(hr, n, s). Inr (hr, Number n, s))
      | IOCTL_AUDIO_GET_BUFFERED_SIZE \<Rightarrow> bindR (sb16_get_bufferred_size s) (\<lambda>(hr, n, s). Inr (hr, Number n, s))
      | DEVIO_SIGNAL \<Rightarrow> Inr (S_OK, No_answer, s)
      | Other_request code \<Rightarrow> Inr (E_NOTSUPPORTED, No_answer, s))"

section \<open>Life cycle\<close>

definition sb16_device_fini :: "sb16 \<Rightarrow> (hresult \<times> sb16) run" where
  "sb16_device_fini s =
     (let p = sbs_opaque s in
      if p = 0 then Inl (Panic ''Finalizing SB16 driver while pDevice->opaque == NULL.'')
      else bindR (sb_ctx p s) (\<lambda>ctx.
        bindR (vmm_unmap_region (sbs_kernel s) 0 (KERNEL_TEMP_START - 0x10000) False) (\<lambda>(_, k).
        Inr (S_OK, s\<lparr>sbs_kernel := k, sbs_ctxs := (sbs_ctxs s)(p := None)\<rparr>))))"

definition zero_sb16_context :: sb16_drv_context where
  "zero_sb16_context = \<lparr> sb_dma_memory = [], sb_dma_memory_phys = 0, sb_dma_mode = 0, sb_dma_current_half = 0,
     sb_audio_buffer = [], sb_audio_buffer_capacity = 0, sb_audio_rp = 0, sb_audio_wp = 0,
     sb_audio_buffer_lock = spinlock_create, sb_version_major = 0, sb_version_minor = 0, sb_irq_id = 0, sb_dma_channel = 0,
     sb_player_state = 0, sb_stop_pending_flag = 0, sb_skip_cntr = 0,
     sb_fmt = \<lparr> af_bit_depth = 0, af_block_size = 0, af_sample_rate = 0, af_channels = 0 \<rparr> \<rparr>"

text \<open>The address of the context and the contents of the audio buffer and of the DMA memory, as the allocators
  return them.\<close>

record sb16_memory =
  sm_context :: u32
  sm_audio_buffer :: bytes
  sm_dma_memory :: bytes

text \<open>The loop over the base ports: the first at which a card answers.\<close>

fun sb16_probe :: "machine \<Rightarrow> (sb16 \<Rightarrow> sb16 run) \<Rightarrow> u32 list \<Rightarrow> sb16 \<Rightarrow> (u32 option \<times> sb16) run" where
  "sb16_probe m yield [] s = Inr (None, s)"
| "sb16_probe m yield (b # bs) s =
     bindR (sb16_reset_dsp m yield b s) (\<lambda>(hr, s).
     if SUCCEEDED hr then Inr (Some b, s) else sb16_probe m yield bs s)"

text \<open>Setting up the context, from the allocation on.\<close>

definition sb16_setup_context :: "sb16_memory \<Rightarrow> u32 \<Rightarrow> u32 \<Rightarrow> sb16 \<Rightarrow> (hresult \<times> sb16) run" where
  "sb16_setup_context mem vmaj vmin s =
     (let p = sm_context mem;
          c = zero_sb16_context\<lparr>sb_player_state := PLAYER_STATE_NOT_READY, sb_version_major := vmaj, sb_version_minor := vmin,
                sb_audio_buffer_capacity := 128 * 1024 * 3, sb_audio_buffer := sm_audio_buffer mem\<rparr>;
          s = s\<lparr>sbs_opaque := p, sbs_drv_ctx := p\<rparr>;
          fail = (\<lambda>s. bindR (sb16_device_fini s) (\<lambda>(_, s). Inr (E_FAIL, s))) in
      if p = 0 then Inl BadAccess
      else
        let s = sb_put p c s in
        bindR (vmm_alloc_and_map_limited (sbs_kernel s) 0 (KERNEL_TEMP_START - 0x10000) 0xFFFFFF DMA_BUFFER_SIZE 0x100
                 ACCESS_READWRITE True) (\<lambda>(hr, k).
        let s = s\<lparr>sbs_kernel := k\<rparr> in
        if FAILED hr then fail s
        else
          bindR (vmm_get_region_phys_addr k 0 (KERNEL_TEMP_START - 0x10000)) (\<lambda>(hr, phys, k).
          let s = s\<lparr>sbs_kernel := k\<rparr> in
          if FAILED hr then fail s
          else if phys AND 0xFFFF \<noteq> 0 then Inl (Panic ''SB16: DMA buffer is not on 64k physical boundary.'')
          else
            let s = sb_put p (c\<lparr>sb_dma_memory := sm_dma_memory mem, sb_dma_memory_phys := phys\<rparr>) s in
            bindR (sb16_update_player_state p PLAYER_STATE_STOPPED s) (\<lambda>s. Inr (hr, s)))))"

text \<open>\<^verbatim>\<open>b\<close> has no value before the loop: \<open>junk\<close> is what the stack holds there.\<close>

definition sb16_device_init :: "machine \<Rightarrow> (sb16 \<Rightarrow> sb16 run) \<Rightarrow> u32 \<Rightarrow> sb16_memory \<Rightarrow> sb16 \<Rightarrow> (hresult \<times> sb16) run" where
  "sb16_device_init m yield junk mem s =
     (if sbs_opaque s \<noteq> 0 then Inr (E_FAIL, s)
      else bindR (sb16_probe m yield BASE_PORTS s) (\<lambda>(found, s).
        let b = (case found of None \<Rightarrow> junk | Some b \<Rightarrow> b) in
        if b = 0 then Inr (E_FAIL, s)
        else bindR (sb_get_version m s) (\<lambda>(hr, vmaj, vmin, s).
          if FAILED hr then bindR (sb16_device_fini s) (\<lambda>(_, s). Inr (E_FAIL, s))
          else if vmaj < 4 then Inr (E_FAIL, s)
          else sb16_setup_context mem (ucast vmaj) (ucast vmin) (sb_set_volume 22 (sb_reset_mixer s)))))"

end
