(* ===== verification/Playback.thy ===== *)
theory Playback
  imports SoundBlaster
begin

unbundle bit_operations_syntax

text \<open>
  What the sound card plays. The card is to read the two halves of the DMA memory in turn and interrupts at the end of
  each; the interrupt handler must fill the half that the card has just finished. Which memory the card really reads
  follows from the registers of the DMA controller, which the port writes of the driver have programmed.
\<close>

section \<open>Single routines\<close>

lemma DMA_size [simp]: "unat DMA_BUFFER_SIZE = 65536" "unat (DMA_BUFFER_SIZE div 2) = 32768" "DMA_BUFFER_SIZE div 2 = 0x8000"
  by (simp_all add: DMA_BUFFER_SIZE_def)

lemma sb_in_fst: "fst (sb_in m p s) = m_inb m (dma_io (sbs_dma s)) (ucast p)"
  by (simp add: sb_in_def inb_def)

text \<open>\<open>io_only s t\<close>: only accesses to the ports of the card lie between the two states.\<close>

definition card_ports :: "sb16_port_map \<Rightarrow> u16 set" where
  "card_ports po = ucast ` {po_dsp_reset po, po_dsp_write po, po_mixer_addr po, po_mixer_data po}"

definition card_io :: "sb16_port_map \<Rightarrow> io \<Rightarrow> bool" where
  "card_io po h \<longleftrightarrow> (\<forall>p v. OutB p v \<in> set h \<longrightarrow> p \<in> card_ports po)"

lemma card_io_simps [simp]: "card_io po []" "card_io po (h @ k) \<longleftrightarrow> card_io po h \<and> card_io po k"
  by (auto simp: card_io_def)

definition io_only :: "sb16 \<Rightarrow> sb16 \<Rightarrow> bool" where
  "io_only s t \<longleftrightarrow> (\<exists>h. t = s\<lparr>sbs_dma := (sbs_dma s)\<lparr>dma_io := dma_io (sbs_dma s) @ h\<rparr>\<rparr> \<and> card_io (sbs_ports s) h)"

lemma io_only_refl: "io_only s s"
  unfolding io_only_def by (rule exI [of _ "[]"]) simp

lemma io_only_trans: "io_only s t \<Longrightarrow> io_only t u \<Longrightarrow> io_only s u"
  unfolding io_only_def by auto

lemma io_only_out: "p \<in> {po_dsp_reset po, po_dsp_write po, po_mixer_addr po, po_mixer_data po} \<Longrightarrow> po = sbs_ports s \<Longrightarrow> io_only s (sb_out p v s)"
  by (auto simp: io_only_def sb_out_def outb_def card_io_def card_ports_def)

lemma io_only_in: "io_only s (snd (sb_in m p s))"
  by (auto simp: io_only_def sb_in_def inb_def card_io_def)

lemma io_only_fields:
  assumes "io_only s t"
  shows "sbs_ports t = sbs_ports s" "sbs_ctxs t = sbs_ctxs s" "sbs_drv_ctx t = sbs_drv_ctx s" "sbs_opaque t = sbs_opaque s"
    "sbs_kernel t = sbs_kernel s" "flipflop_lock (sbs_dma t) = flipflop_lock (sbs_dma s)"
    "inner_lock (sbs_dma t) = inner_lock (sbs_dma s)"
  using assms by (auto simp: io_only_def)

text \<open>Whatever else changes, the ports written in between are those of the card.\<close>

definition io_grows :: "sb16 \<Rightarrow> sb16 \<Rightarrow> bool" where
  "io_grows s t \<longleftrightarrow> sbs_ports t = sbs_ports s \<and> (\<exists>h. dma_io (sbs_dma t) = dma_io (sbs_dma s) @ h \<and> card_io (sbs_ports s) h)"

lemma io_only_grows: "io_only s t \<Longrightarrow> io_grows s t"
  by (auto simp: io_only_def io_grows_def)

lemma io_grows_trans: "io_grows s t \<Longrightarrow> io_grows t u \<Longrightarrow> io_grows s u"
  unfolding io_grows_def by auto

text \<open>A card that takes every command at once and whose mixer registers read as \<open>r\<close>.\<close>

definition obeys :: "machine \<Rightarrow> sb16_port_map \<Rightarrow> (u8 \<Rightarrow> u8) \<Rightarrow> bool" where
  "obeys m po r \<longleftrightarrow> (\<forall>h. m_inb m h (ucast (po_dsp_write po)) AND 0x80 = 0)
     \<and> (\<forall>h reg. m_inb m (h @ [OutB (ucast (po_mixer_addr po)) reg]) (ucast (po_mixer_data po)) = r reg)"

lemma read_mixer:
  assumes "obeys m (sbs_ports s) r"
  shows "\<exists>t. sb_read_mixer m reg s = (r reg, t) \<and> io_only s t"
proof -
  have "io_only s (snd (sb_read_mixer m reg s))"
    unfolding sb_read_mixer_def by (rule io_only_trans [OF io_only_out io_only_in]) auto
  moreover have "fst (sb_read_mixer m reg s) = r reg"
    using assms by (simp add: sb_read_mixer_def sb_in_fst sb_out_def outb_def obeys_def)
  ultimately show ?thesis by (cases "sb_read_mixer m reg s") auto
qed

lemma write_mixer: "io_only s (sb_write_mixer reg x s)"
  unfolding sb_write_mixer_def by (rule io_only_trans [OF io_only_out io_only_out]) (auto simp: sb_out_def)

lemma write_dsp:
  assumes "obeys m (sbs_ports s) r"
  shows "\<exists>t. sb_write_dsp m x s = Inr (S_OK, t) \<and> io_only s t"
proof -
  let ?t = "snd (sb_in m (po_dsp_write (sbs_ports s)) s)"
  have "fst (sb_in m (po_dsp_write (sbs_ports s)) s) AND 0x80 = 0"
    using assms by (simp add: sb_in_fst obeys_def)
  moreover have "(50000 :: nat) = Suc 49999" by simp
  ultimately have "sb_write_wait m 50000 s = Inr ?t"
    by (simp only: sb_write_wait.simps) (simp add: case_prod_beta)
  then show ?thesis
    using io_only_trans [OF io_only_in io_only_out [of _ "sbs_ports ?t"]] by (auto simp: sb_write_dsp_def)
qed

lemma write_all:
  "obeys m (sbs_ports s) r \<Longrightarrow> \<exists>t. sb_write_all m xs s = Inr t \<and> io_only s t"
proof (induction xs arbitrary: s)
  case Nil
  then show ?case by (simp add: io_only_refl)
next
  case (Cons x xs)
  obtain t where t: "sb_write_dsp m x s = Inr (S_OK, t)" "io_only s t"
    using write_dsp [OF Cons.prems] by blast
  then obtain u where "sb_write_all m xs t = Inr u" "io_only t u"
    using Cons.IH [of t] Cons.prems by (auto simp: io_only_fields)
  with t show ?case by (auto intro: io_only_trans)
qed

lemma speaker:
  "obeys m (sbs_ports s) r \<Longrightarrow> \<exists>t. sb_enable_dac_speaker m b s = Inr t \<and> io_only s t"
  using write_dsp by (fastforce simp: sb_enable_dac_speaker_def)

section \<open>The queue of samples\<close>

definition queued :: "sb16_drv_context \<Rightarrow> bytes" where
  "queued c = ring_data (sb_audio_rp c) (sb_audio_wp c) (sb_audio_buffer c)"

definition ctx_ok :: "sb16_drv_context \<Rightarrow> bool" where
  "ctx_ok c \<longleftrightarrow> ring_ok 393216 (sb_audio_rp c) (sb_audio_wp c) (sb_audio_buffer c)
     \<and> sb_audio_buffer_capacity c = 393216 \<and> length (sb_dma_memory c) = 65536 \<and> sl_lock (sb_audio_buffer_lock c) = 0"

lemma queued_less: "ctx_ok c \<Longrightarrow> length (queued c) < 393216"
  using length_ring_data_less by (fastforce simp: ctx_ok_def queued_def)

lemma read_upto:
  assumes ok: "ring_ok (sb_audio_buffer_capacity c) (sb_audio_rp c) (sb_audio_wp c) (sb_audio_buffer c)"
    and room: "unat limit \<le> length dst"
  shows "\<exists>hr rp'. sb_rb_read_upto c dst limit = Inr (hr, buf_put dst 0 (take (unat limit) (queued c)),
       of_nat (min (length (queued c)) (unat limit)), c\<lparr>sb_audio_rp := rp'\<rparr>)
     \<and> ring_ok (sb_audio_buffer_capacity c) rp' (sb_audio_wp c) (sb_audio_buffer c)
     \<and> ring_data rp' (sb_audio_wp c) (sb_audio_buffer c) = drop (unat limit) (queued c)"
proof -
  let ?n = "rb_get_read_size c" and ?Q = "queued c"
  have n: "unat ?n = length ?Q" using ring_avail_unat [OF ok] by (simp add: rb_get_read_size_def queued_def)
  define k where "k = (if ?n > limit then limit else ?n)"
  have k: "unat k = min (length ?Q) (unat limit)" by (auto simp: k_def n [symmetric] word_less_nat_alt)
  have kw: "k = of_nat (min (length ?Q) (unat limit))" by (simp add: k [symmetric])
  have tk: "take (unat k) ?Q = take (unat limit) ?Q" "drop (unat k) ?Q = drop (unat limit) ?Q" unfolding k by (simp_all add: min_def)
  show ?thesis
  proof (cases "k = 0")
    case True
    then have "min (length ?Q) (unat limit) = 0" using k by simp
    then have t: "take (unat limit) ?Q = []" "drop (unat limit) ?Q = ?Q" by (auto simp: min_def split: if_splits)
    show ?thesis
      unfolding t using True ok
      by (intro exI [of _ E_BUFFERUNDERFLOW] exI [of _ "sb_audio_rp c"])
        (simp add: sb_rb_read_upto_def Let_def k_def [symmetric] kw [symmetric] queued_def [symmetric])
  next
    case False
    have le: "\<not> ?n < k" by (auto simp: k_def)
    have "unat k \<le> length dst" "unat k \<le> length ?Q" using room k by simp_all
    then obtain rp' where rp: "ring_fetch (sb_audio_buffer_capacity c) (sb_audio_rp c) (sb_audio_buffer c) dst k
        = Inr (buf_put dst 0 (take (unat k) ?Q), rp')" "ring_ok (sb_audio_buffer_capacity c) rp' (sb_audio_wp c) (sb_audio_buffer c)"
      "ring_data rp' (sb_audio_wp c) (sb_audio_buffer c) = drop (unat k) ?Q"
      using ring_fetch_ok [OF ok, folded queued_def] by blast
    then show ?thesis
      using False le by (intro exI [of _ S_OK] exI [of _ rp'])
        (simp add: sb_rb_read_upto_def sb_rb_read_def Let_def k_def [symmetric] kw [symmetric] tk)
  qed
qed

text \<open>The next block for the card: what is queued, with silence after it.\<close>

definition next_block :: "bytes \<Rightarrow> bytes" where
  "next_block q = take 32768 q @ replicate (32768 - length q) 0"

lemma length_next_block [simp]: "length (next_block q) = 32768"
  by (simp add: next_block_def)

definition fill :: "bool \<Rightarrow> bytes \<Rightarrow> bytes \<Rightarrow> bytes" where
  "fill second xs mem = (if second then take 32768 mem @ xs else xs @ drop 32768 mem)"

lemma silence_fits: "off + n \<le> length b \<Longrightarrow> silence b off n = Inr (buf_put b off (replicate n 0))"
  by (simp add: silence_def memcpyR_ok buf_get_def)

lemma silence_rest:
  assumes "n \<le> length D"
  shows "(if length q < n then silence (buf_put D 0 (take n q)) (min (length q) n) (n - length q) else Inr (buf_put D 0 (take n q)))
     = Inr (take n q @ replicate (n - length q) 0 @ drop n D)"
proof (cases "length q < n")
  case True
  then have "buf_put (buf_put D 0 (take n q)) (length q) (replicate (n - length q) 0) = q @ replicate (n - length q) 0 @ drop n D"
    using assms by (simp add: buf_put_def)
  with True assms show ?thesis by (simp add: silence_fits min_def)
qed (use assms in \<open>simp add: buf_put_def\<close>)

lemma fill_half_fills:
  assumes ok: "ctx_ok c" and sk: "sb_skip_cntr c = 0"
  shows "\<exists>rp'. sb16_fill_half c = Inr (c\<lparr>sb_audio_rp := rp',
       sb_dma_memory := fill (sb_dma_current_half c \<noteq> 0) (next_block (queued c)) (sb_dma_memory c)\<rparr>)
     \<and> ring_ok (sb_audio_buffer_capacity c) rp' (sb_audio_wp c) (sb_audio_buffer c)
     \<and> ring_data rp' (sb_audio_wp c) (sb_audio_buffer c) = drop 32768 (queued c)"
proof -
  define off :: nat where "off = (if sb_dma_current_half c = 0 then 0 else 32768)"
  let ?Q = "queued c" and ?M = "sb_dma_memory c"
  have M: "length ?M = 65536" and r: "ring_ok (sb_audio_buffer_capacity c) (sb_audio_rp c) (sb_audio_wp c) (sb_audio_buffer c)"
    using ok by (simp_all add: ctx_ok_def)
  have room: "unat (0x8000 :: u32) \<le> length (drop off ?M)" using M by (simp add: off_def)
  obtain hr rp' where u: "sb_rb_read_upto c (drop off ?M) 0x8000 = Inr (hr, buf_put (drop off ?M) 0 (take 32768 ?Q),
       of_nat (min (length ?Q) 32768), c\<lparr>sb_audio_rp := rp'\<rparr>)"
     "ring_ok (sb_audio_buffer_capacity c) rp' (sb_audio_wp c) (sb_audio_buffer c)"
     "ring_data rp' (sb_audio_wp c) (sb_audio_buffer c) = drop 32768 ?Q"
    using read_upto [OF r room] by auto
  define a :: u32 where "a = of_nat (min (length ?Q) 32768)"
  have a: "unat a = min (length ?Q) 32768" unfolding a_def by (rule unat_of_nat_small) simp
  have d: "a < 0x8000 \<longleftrightarrow> length ?Q < 32768" by (auto simp: word_less_nat_alt a)
  have rest: "unat (0x8000 - a) = 32768 - length ?Q" by (subst unat_sub_small) (simp_all add: a)
  have s: "(if a < 0x8000 then silence (buf_put (drop off ?M) 0 (take 32768 ?Q)) (unat a) (unat (0x8000 - a))
        else Inr (buf_put (drop off ?M) 0 (take 32768 ?Q))) = Inr (next_block ?Q @ drop 32768 (drop off ?M))"
    unfolding d a rest next_block_def append_assoc by (rule silence_rest) (use M in \<open>simp add: off_def\<close>)
  have e: "take off ?M @ next_block ?Q @ drop 32768 (drop off ?M) = fill (sb_dma_current_half c \<noteq> 0) (next_block ?Q) ?M"
    using M by (simp add: fill_def off_def)
  have o: "(if sb_dma_current_half c = 0 then 0 else unat (DMA_BUFFER_SIZE div 2)) = off" by (simp add: off_def)
  show ?thesis
    unfolding sb16_fill_half_def Let_def o unfolding DMA_size(3)
    using sk u [folded a_def] s e by (intro exI [of _ rp']) (simp del: bindR_eq_Inr split del: if_split)
qed

lemma fill_half_unlocked:
  "sb16_fill_half c = Inr c' \<Longrightarrow> sb16_fill_half (c\<lparr>sb_audio_buffer_lock := l\<rparr>) = Inr (c'\<lparr>sb_audio_buffer_lock := l\<rparr>)"
  by (auto simp: sb16_fill_half_def sb_rb_read_upto_def sb_rb_read_def rb_get_read_size_def Let_def split: if_splits)

text \<open>\<open>has_ctx s c\<close>: the device and the interrupt handler have the context \<open>c\<close>.\<close>

definition has_ctx :: "sb16 \<Rightarrow> sb16_drv_context \<Rightarrow> bool" where
  "has_ctx s c \<longleftrightarrow> sbs_opaque s = sbs_drv_ctx s \<and> sbs_ctxs s (sbs_drv_ctx s) = Some c"

lemma at_io_only: "io_only s t \<Longrightarrow> has_ctx t c = has_ctx s c"
  by (simp add: has_ctx_def io_only_fields)

lemma after_in [simp]: "has_ctx (snd (sb_in m p s)) c = has_ctx s c" "sbs_ports (snd (sb_in m p s)) = sbs_ports s"
  by (simp_all add: at_io_only [OF io_only_in] io_only_fields [OF io_only_in])

lemma at_put [simp]: "sbs_opaque s = sbs_drv_ctx s \<Longrightarrow> p = sbs_drv_ctx s \<Longrightarrow> has_ctx (sb_put p c s) c"
  by (simp add: has_ctx_def sb_put_def)

lemma put_fields [simp]:
  "sbs_ports (sb_put p c s) = sbs_ports s" "sbs_drv_ctx (sb_put p c s) = sbs_drv_ctx s" "sbs_opaque (sb_put p c s) = sbs_opaque s"
  "sbs_dma (sb_put p c s) = sbs_dma s" "sbs_kernel (sb_put p c s) = sbs_kernel s"
  "sbs_ctxs (sb_put p c s) p = Some c" "sb_put p c (sb_put p c' s) = sb_put p c s"
  by (simp_all add: sb_put_def)

lemma at_ctx: "has_ctx s c \<Longrightarrow> sb_ctx (sbs_drv_ctx s) s = Inr c" "has_ctx s c \<Longrightarrow> sb_ctx (sbs_opaque s) s = Inr c"
  by (simp_all add: has_ctx_def sb_ctx_def)

lemma ctx_put [simp]: "sb_ctx p (sb_put p c s) = Inr c"
  by (simp add: sb_ctx_def)

lemma free_lock: "sl_lock l = 0 \<Longrightarrow> l = \<lparr>sl_lock = 0\<rparr>"
  by (cases l) simp

lemma same_lock: "sl_lock (sb_audio_buffer_lock c) = 0 \<Longrightarrow> c\<lparr>sb_audio_buffer_lock := \<lparr>sl_lock = 0\<rparr>\<rparr> = c"
  by (drule free_lock) (cases c, simp)

lemma lock_free:
  assumes "sb_ctx p s = Inr c" and "sl_lock (sb_audio_buffer_lock c) = 0"
  shows "sb_lock p s = Inr (if in_if (ks_int (sbs_kernel s)) then 1 else 0,
     sb_put p (c\<lparr>sb_audio_buffer_lock := \<lparr>sl_lock = 1\<rparr>\<rparr>) (s\<lparr>sbs_kernel := set_if False (sbs_kernel s)\<rparr>))"
  using assms by (cases "sb_audio_buffer_lock c") (simp add: sb_lock_def spinlock_acquire_def Let_def)

lemma set_if_back: "in_if (ks_int k) = b \<Longrightarrow> set_if b k = k"
  by (auto simp: set_if_def)

lemma unlock_held:
  assumes "sl_lock (sb_audio_buffer_lock c) = 1"
  shows "sb_unlock p (if in_if (ks_int (sbs_kernel s)) then 1 else 0)
     (sb_put p c (s\<lparr>sbs_kernel := set_if False (sbs_kernel s)\<rparr>)) = Inr (sb_put p (c\<lparr>sb_audio_buffer_lock := \<lparr>sl_lock = 0\<rparr>\<rparr>) s)"
  using assms by (cases "sb_audio_buffer_lock c") (cases s, auto simp: sb_unlock_def spinlock_release_def sb_put_def sb_ctx_def set_if_back)

text \<open>Work on the context under the lock.\<close>

lemma under_lock:
  assumes c: "sb_ctx p s = Inr c" "sl_lock (sb_audio_buffer_lock c) = 0"
    and f: "f (c\<lparr>sb_audio_buffer_lock := \<lparr>sl_lock = 1\<rparr>\<rparr>) = Inr (r, c')" "sb_audio_buffer_lock c' = \<lparr>sl_lock = 1\<rparr>"
  shows "bindR (sb_lock p s) (\<lambda>(intf, s). bindR (sb_ctx p s) (\<lambda>ctx. bindR (f ctx) (\<lambda>(r, ctx).
      bindR (sb_unlock p intf (sb_put p ctx s)) (\<lambda>s. Inr (r, s))))) =
     Inr (r, sb_put p (c'\<lparr>sb_audio_buffer_lock := \<lparr>sl_lock = 0\<rparr>\<rparr>) s)"
  using f by (simp add: lock_free [OF c] unlock_held)

lemma under_lock_state:
  assumes c: "sb_ctx p s = Inr c" "sl_lock (sb_audio_buffer_lock c) = 0"
    and f: "f (c\<lparr>sb_audio_buffer_lock := \<lparr>sl_lock = 1\<rparr>\<rparr>) = Inr c'" "sb_audio_buffer_lock c' = \<lparr>sl_lock = 1\<rparr>"
  shows "bindR (sb_lock p s) (\<lambda>(intf, s). bindR (sb_ctx p s) (\<lambda>ctx. bindR (f ctx) (\<lambda>ctx. sb_unlock p intf (sb_put p ctx s)))) =
     Inr (sb_put p (c'\<lparr>sb_audio_buffer_lock := \<lparr>sl_lock = 0\<rparr>\<rparr>) s)"
  using f by (simp add: lock_free [OF c] unlock_held)

section \<open>The interrupt\<close>

lemma xor_1_half: "(if even k then (0 :: u32) else 1) XOR 1 = (if even (Suc k) then 0 else 1)"
  by simp

lemma ctx_ok_locked: "ctx_ok c \<Longrightarrow> sb_audio_buffer_lock c = \<lparr>sl_lock = 0\<rparr>"
  by (simp add: ctx_ok_def free_lock)

lemma isr_runs:
  assumes at: "has_ctx s c" and ok: "ctx_ok c" and card: "obeys m (sbs_ports s) r" and st: "r 0x82 AND 7 = 1 \<or> r 0x82 AND 7 = 2"
    and stop: "sb_stop_pending_flag c = 0"
    and fill: "sb16_fill_half (c\<lparr>sb_dma_current_half := sb_dma_current_half c XOR 1, sb_audio_buffer_lock := \<lparr>sl_lock = 1\<rparr>\<rparr>)
      = Inr c'" "sb_audio_buffer_lock c' = \<lparr>sl_lock = 1\<rparr>"
  shows "\<exists>t. sb16_isr m s = Inr t \<and> has_ctx t (c'\<lparr>sb_audio_buffer_lock := \<lparr>sl_lock = 0\<rparr>\<rparr>) \<and> sbs_ports t = sbs_ports s
     \<and> io_grows s t"
proof -
  obtain s1 where s1: "sb_read_mixer m 0x82 s = (r 0x82, s1)" "io_only s s1"
    using read_mixer [OF card] by blast
  let ?p = "sbs_drv_ctx s"
  let ?c1 = "c\<lparr>sb_dma_current_half := sb_dma_current_half c XOR 1\<rparr>"
  let ?s2 = "sb_put ?p ?c1 s1"
  have p: "sb_ctx ?p s1 = Inr c" using at_ctx(1) [OF at] io_only_fields [OF s1(2)] by (simp add: sb_ctx_def)
  have lk: "sl_lock (sb_audio_buffer_lock ?c1) = 0" using ok by (simp add: ctx_ok_def)
  have c2: "sb_ctx ?p ?s2 = Inr ?c1" by simp
  let ?s3 = "sb_put ?p (c'\<lparr>sb_audio_buffer_lock := \<lparr>sl_lock = 0\<rparr>\<rparr>) ?s2"
  have same: "sbs_opaque s1 = sbs_drv_ctx s1" "?p = sbs_drv_ctx s1" "sbs_ports s1 = sbs_ports s"
    using at io_only_fields [OF s1(2)] by (simp_all add: has_ctx_def)
  have u: "sb_upd ?p (\<lambda>c. c\<lparr>sb_dma_current_half := sb_dma_current_half c XOR 1\<rparr>) s1 = Inr ?s2"
    using p by (simp add: sb_upd_def)
  have b: "bindR (sb_lock ?p ?s2) (\<lambda>(intf, s). bindR (sb_ctx ?p s) (\<lambda>ctx. bindR (sb16_fill_half ctx) (\<lambda>ctx.
      sb_unlock ?p intf (sb_put ?p ctx s)))) = Inr ?s3"
    by (rule under_lock_state [OF c2 lk]) (use fill in simp_all)
  have isr: "sb16_isr m s = Inr (snd (sb_in m (if r 0x82 AND 7 = 1 then po_dsp_read_status (sbs_ports ?s3)
      else po_int_acknwg16 (sbs_ports ?s3)) ?s3))"
    unfolding sb16_isr_def Let_def s1(1) prod.case u bindR.simps c2
    using st b stop by (auto simp del: bindR_eq_Inr put_fields(7))
  have t: "has_ctx ?s3 (c'\<lparr>sb_audio_buffer_lock := \<lparr>sl_lock = 0\<rparr>\<rparr>)" "sbs_ports ?s3 = sbs_ports s"
    using same by simp_all
  have "io_grows s ?s3" using s1(2) io_only_fields [OF s1(2)] by (auto simp: io_only_def io_grows_def)
  then have "io_grows s (snd (sb_in m p ?s3))" for p
    using io_grows_trans [OF _ io_only_grows [OF io_only_in]] by blast
  then show ?thesis
    unfolding isr using t by (auto simp del: at_put)
qed

lemma isr_fills:
  assumes at: "has_ctx s c" and ok: "ctx_ok c" and card: "obeys m (sbs_ports s) r" and st: "r 0x82 AND 7 = 1 \<or> r 0x82 AND 7 = 2"
    and stop: "sb_stop_pending_flag c = 0" and sk: "sb_skip_cntr c = 0"
  shows "\<exists>t c'. sb16_isr m s = Inr t \<and> has_ctx t c' \<and> sbs_ports t = sbs_ports s \<and> ctx_ok c' \<and> queued c' = drop 32768 (queued c)
     \<and> sb_dma_memory c' = fill (sb_dma_current_half c XOR 1 \<noteq> 0) (next_block (queued c)) (sb_dma_memory c)
     \<and> sb_dma_current_half c' = sb_dma_current_half c XOR 1 \<and> sb_skip_cntr c' = 0 \<and> sb_stop_pending_flag c' = 0
     \<and> sb_player_state c' = sb_player_state c \<and> io_grows s t"
proof -
  let ?half = "sb_dma_current_half c XOR 1"
  let ?f = "c\<lparr>sb_dma_current_half := ?half\<rparr>" and ?l = "c\<lparr>sb_dma_current_half := ?half, sb_audio_buffer_lock := \<lparr>sl_lock = 1\<rparr>\<rparr>"
  have f: "ctx_ok ?f" "sb_skip_cntr ?f = 0" "queued ?f = queued c" using ok sk by (simp_all add: ctx_ok_def queued_def)
  let ?m = "fill (?half \<noteq> 0) (next_block (queued c)) (sb_dma_memory c)"
  obtain rp' where rp: "sb16_fill_half ?f = Inr (?f\<lparr>sb_audio_rp := rp', sb_dma_memory := ?m\<rparr>)"
    "ring_ok (sb_audio_buffer_capacity c) rp' (sb_audio_wp c) (sb_audio_buffer c)"
    "ring_data rp' (sb_audio_wp c) (sb_audio_buffer c) = drop 32768 (queued c)"
    using fill_half_fills [OF f(1,2)] unfolding f(3) by auto
  have l: "sb16_fill_half ?l = Inr (?l\<lparr>sb_audio_rp := rp', sb_dma_memory := ?m\<rparr>)"
    using fill_half_unlocked [OF rp(1), of "\<lparr>sl_lock = 1\<rparr>"] by simp
  let ?c' = "?f\<lparr>sb_audio_rp := rp', sb_dma_memory := ?m, sb_audio_buffer_lock := \<lparr>sl_lock = 0\<rparr>\<rparr>"
  obtain t where "sb16_isr m s = Inr t" "has_ctx t ?c'" "sbs_ports t = sbs_ports s" "io_grows s t"
    using isr_runs [OF at ok card st stop l] by auto
  moreover have "ctx_ok ?c'" "queued ?c' = drop 32768 (queued c)" using ok rp by (simp_all add: ctx_ok_def queued_def fill_def)
  ultimately show ?thesis
    using sk stop by (intro exI [of _ t] exI [of _ ?c']) simp
qed

lemma isr_skips:
  assumes at: "has_ctx s c" and ok: "ctx_ok c" and card: "obeys m (sbs_ports s) r" and st: "r 0x82 AND 7 = 1 \<or> r 0x82 AND 7 = 2"
    and stop: "sb_stop_pending_flag c = 0" and sk: "sb_skip_cntr c = 1"
  shows "\<exists>t. sb16_isr m s = Inr t \<and> has_ctx t (c\<lparr>sb_dma_current_half := sb_dma_current_half c XOR 1, sb_skip_cntr := 0\<rparr>)
     \<and> sbs_ports t = sbs_ports s \<and> io_grows s t"
proof -
  let ?c = "c\<lparr>sb_dma_current_half := sb_dma_current_half c XOR 1, sb_skip_cntr := 0\<rparr>"
  have "sb16_fill_half (c\<lparr>sb_dma_current_half := sb_dma_current_half c XOR 1, sb_audio_buffer_lock := \<lparr>sl_lock = 1\<rparr>\<rparr>) =
     Inr (?c\<lparr>sb_audio_buffer_lock := \<lparr>sl_lock = 1\<rparr>\<rparr>)" using sk by (simp add: sb16_fill_half_def)
  moreover have "?c\<lparr>sb_audio_buffer_lock := \<lparr>sl_lock = 0\<rparr>\<rparr> = ?c" using ok by (intro same_lock) (simp add: ctx_ok_def)
  ultimately show ?thesis
    using isr_runs [OF at ok card st stop] by fastforce
qed

section \<open>Queueing samples\<close>

text \<open>A block is queued whole or not at all.\<close>

definition accepted :: "bytes \<Rightarrow> bytes \<Rightarrow> bytes" where
  "accepted q xs = (if length q + length xs < 393216 then q @ xs else q)"

lemma rb_write_accepts:
  assumes ok: "ctx_ok c" and len: "length xs < 2 ^ 32"
  shows "\<exists>hr buf wp. sb_rb_write (c\<lparr>sb_audio_buffer_lock := l\<rparr>) xs (of_nat (length xs)) =
       Inr (hr, c\<lparr>sb_audio_buffer_lock := l, sb_audio_buffer := buf, sb_audio_wp := wp\<rparr>)
     \<and> (hr = S_OK \<longleftrightarrow> length (queued c) + length xs < 393216)
     \<and> ring_ok (sb_audio_buffer_capacity c) (sb_audio_rp c) wp buf \<and> ring_data (sb_audio_rp c) wp buf = accepted (queued c) xs"
proof -
  let ?cap = "sb_audio_buffer_capacity c" and ?n = "of_nat (length xs) :: u32"
  have r: "ring_ok ?cap (sb_audio_rp c) (sb_audio_wp c) (sb_audio_buffer c)" and cap: "?cap = 393216"
    using ok by (simp_all add: ctx_ok_def)
  have n: "unat ?n = length xs" by (rule unat_of_nat_small) (use len in simp)
  have free: "unat (ring_free ?cap (sb_audio_rp c) (sb_audio_wp c) - 1) = 393215 - length (queued c)"
    using ring_free_unat [OF r] cap by (simp add: queued_def)
  have q: "length (queued c) < 393216" by (rule queued_less [OF ok])
  show ?thesis
  proof (cases "length (queued c) + length xs < 393216")
    case True
    then have fit: "length (ring_data (sb_audio_rp c) (sb_audio_wp c) (sb_audio_buffer c)) + unat ?n \<le> unat ?cap - 1"
      by (simp add: cap n queued_def)
    have "\<not> ring_free ?cap (sb_audio_rp c) (sb_audio_wp c) - 1 < ?n" using True by (simp add: word_less_nat_alt n free)
    moreover obtain buf wp where "ring_store ?cap (sb_audio_wp c) (sb_audio_buffer c) xs ?n = Inr (buf, wp)"
      "ring_ok ?cap (sb_audio_rp c) wp buf" "ring_data (sb_audio_rp c) wp buf = queued c @ xs"
      using ring_store_ok [OF r n [symmetric] fit] by (auto simp: queued_def)
    ultimately show ?thesis
      using True by (intro exI [of _ S_OK] exI [of _ buf] exI [of _ wp]) (simp add: sb_rb_write_def Let_def accepted_def)
  next
    case False
    then have "ring_free ?cap (sb_audio_rp c) (sb_audio_wp c) - 1 < ?n" using q by (simp add: word_less_nat_alt n free)
    then show ?thesis
      using False r by (intro exI [of _ E_BUFFEROVERFLOW] exI [of _ "sb_audio_buffer c"] exI [of _ "sb_audio_wp c"])
        (simp add: sb_rb_write_def Let_def accepted_def queued_def)
  qed
qed

lemma write_accepts:
  assumes at: "has_ctx s c" and ok: "ctx_ok c" and len: "length xs < 2 ^ 32"
  shows "\<exists>hr t c'. sb16_write xs (of_nat (length xs)) s = Inr (hr, t) \<and> has_ctx t c' \<and> sbs_ports t = sbs_ports s \<and> ctx_ok c'
     \<and> (hr = S_OK \<longleftrightarrow> length (queued c) + length xs < 393216)
     \<and> queued c' = accepted (queued c) xs \<and> sb_dma_memory c' = sb_dma_memory c \<and> sb_dma_current_half c' = sb_dma_current_half c
     \<and> sb_skip_cntr c' = sb_skip_cntr c \<and> sb_stop_pending_flag c' = sb_stop_pending_flag c
     \<and> sb_player_state c' = sb_player_state c \<and> sbs_drv_ctx t = sbs_drv_ctx s"
proof -
  obtain hr buf wp where w: "sb_rb_write (c\<lparr>sb_audio_buffer_lock := \<lparr>sl_lock = 1\<rparr>\<rparr>) xs (of_nat (length xs)) =
       Inr (hr, c\<lparr>sb_audio_buffer_lock := \<lparr>sl_lock = 1\<rparr>, sb_audio_buffer := buf, sb_audio_wp := wp\<rparr>)"
     "hr = S_OK \<longleftrightarrow> length (queued c) + length xs < 393216"
     "ring_ok (sb_audio_buffer_capacity c) (sb_audio_rp c) wp buf" "ring_data (sb_audio_rp c) wp buf = accepted (queued c) xs"
    using rb_write_accepts [OF ok len] by blast
  let ?c' = "c\<lparr>sb_audio_buffer := buf, sb_audio_wp := wp, sb_audio_buffer_lock := \<lparr>sl_lock = 0\<rparr>\<rparr>"
  have lk: "sl_lock (sb_audio_buffer_lock c) = 0" using ok by (simp add: ctx_ok_def)
  have "sb16_write xs (of_nat (length xs)) s = Inr (hr, sb_put (sbs_opaque s) ?c' s)"
    using under_lock [OF at_ctx(2) [OF at] lk, where f = "\<lambda>c. sb_rb_write c xs (of_nat (length xs))", OF w(1)] by (simp add: sb16_write_def get_drv_ctx_def Let_def del: bindR_eq_Inr)
  moreover have "has_ctx (sb_put (sbs_opaque s) ?c' s) ?c'" using at by (simp add: has_ctx_def sb_put_def)
  moreover have "ctx_ok ?c'" "queued ?c' = accepted (queued c) xs" using ok w(3,4) by (simp_all add: ctx_ok_def queued_def)
  ultimately show ?thesis
    using w(2) by (intro exI [of _ hr] exI [of _ "sb_put (sbs_opaque s) ?c' s"] exI [of _ ?c']) simp
qed

section \<open>Beginning to play\<close>

lemma preroll_fills:
  assumes ok: "ctx_ok c" and z: "sb_dma_memory c = replicate 65536 0"
  shows "\<exists>c'. sb16_preroll c = Inr c' \<and> ctx_ok c' \<and> queued c' = drop 65536 (queued c)
     \<and> sb_dma_memory c' = take 65536 (queued c) @ replicate (65536 - length (queued c)) 0
     \<and> sb_skip_cntr c' = (if length (queued c) < 65536 then 0 else sb_skip_cntr c)
     \<and> sb_dma_current_half c' = (if length (queued c) < 65536 then 1 else sb_dma_current_half c)
     \<and> sb_stop_pending_flag c' = sb_stop_pending_flag c \<and> sb_fmt c' = sb_fmt c \<and> sb_dma_mode c' = sb_dma_mode c"
proof -
  let ?Q = "queued c"
  have r: "ring_ok (sb_audio_buffer_capacity c) (sb_audio_rp c) (sb_audio_wp c) (sb_audio_buffer c)"
    using ok by (simp add: ctx_ok_def)
  have room: "unat DMA_BUFFER_SIZE \<le> length (sb_dma_memory c)" by (simp add: z)
  obtain hr rp' where u: "sb_rb_read_upto c (sb_dma_memory c) DMA_BUFFER_SIZE = Inr (hr, buf_put (sb_dma_memory c) 0 (take 65536 ?Q),
       of_nat (min (length ?Q) 65536), c\<lparr>sb_audio_rp := rp'\<rparr>)"
     "ring_ok (sb_audio_buffer_capacity c) rp' (sb_audio_wp c) (sb_audio_buffer c)"
     "ring_data rp' (sb_audio_wp c) (sb_audio_buffer c) = drop 65536 ?Q"
    using read_upto [OF r room] unfolding DMA_size(1) by blast
  define a :: u32 where "a = of_nat (min (length ?Q) 65536)"
  have "unat a = min (length ?Q) 65536" unfolding a_def by (rule unat_of_nat_small) simp
  then have d: "a < DMA_BUFFER_SIZE \<longleftrightarrow> length ?Q < 65536" by (auto simp: word_less_nat_alt)
  have m: "buf_put (sb_dma_memory c) 0 (take 65536 ?Q) = take 65536 ?Q @ replicate (65536 - length ?Q) 0"
    by (simp add: z buf_put_def)
  let ?c1 = "c\<lparr>sb_audio_rp := rp', sb_dma_memory := take 65536 ?Q @ replicate (65536 - length ?Q) 0\<rparr>"
  have e: "sb16_preroll c = Inr (if length ?Q < 65536 then ?c1\<lparr>sb_skip_cntr := 0, sb_dma_current_half := 1\<rparr> else ?c1)"
    unfolding sb16_preroll_def u(1) [folded a_def] by (simp add: d m)
  have "length (take 65536 ?Q @ replicate (65536 - length ?Q) 0) = 65536" by simp
  then show ?thesis
    unfolding e using ok u(2,3) by (simp add: ctx_ok_def queued_def)
qed

lemma get_mixer:
  assumes card: "obeys m (sbs_ports s) r" and irq: "map_of [(1, 2), (2, 5), (4, 7), (8, 10)] (r 0x80) = Some irq"
  shows "\<exists>hr chan t. sb_get_mixer_irq_dma m i ch0 s = (hr, irq, chan, t) \<and> io_only s t"
proof -
  obtain s1 where s1: "sb_read_mixer m 0x80 s = (r 0x80, s1)" "io_only s s1" using read_mixer [OF card] by blast
  then have "obeys m (sbs_ports s1) r" using card by (simp add: io_only_fields)
  then obtain s2 where s2: "sb_read_mixer m 0x81 s1 = (r 0x81, s2)" "io_only s1 s2" using read_mixer by blast
  show ?thesis
    using irq io_only_trans [OF s1(2) s2(2)] unfolding sb_get_mixer_irq_dma_def Let_def s1(1) prod.case s2(1)
    by (auto split: option.split)
qed

lemma set_mixer:
  assumes "irq \<in> {2, 5, 7, 10}"
  shows "\<exists>t. sb_set_mixer_irq_dma irq chan s = (S_OK, t) \<and> io_only s t"
  using assms io_only_trans [OF write_mixer write_mixer] by (auto simp: sb_set_mixer_irq_dma_def)

text \<open>The transfer that the driver asks the DMA controller for.\<close>

definition transfer_events :: "sb16_drv_context \<Rightarrow> io" where
  "transfer_events c = open_events (if af_bit_depth (sb_fmt c) = 8 then 1 else 5) (sb_dma_memory_phys c) DMA_BUFFER_SIZE
     DMA_TRANSFER_READ DMA_MODE_SINGLE 1"

lemma setup_dma_opens:
  assumes at: "has_ctx s c" and irq: "sb_irq_id c \<in> {2, 5, 7, 10}" and free: "dma_free (sbs_dma s)" and phys: "sb_dma_memory_phys c \<le> 0xFFFFFF"
  shows "\<exists>t mode chan h. sb16_setup_dma (sbs_drv_ctx s) s = Inr (S_OK, t)
     \<and> has_ctx t (c\<lparr>sb_dma_mode := mode, sb_dma_channel := chan, sb_dma_current_half := 0, sb_skip_cntr := 1\<rparr>)
     \<and> mode \<in> {SB16_DMA_MODE_8BIT, SB16_DMA_MODE_16BIT} \<and> sbs_ports t = sbs_ports s \<and> sbs_drv_ctx t = sbs_drv_ctx s
     \<and> dma_io (sbs_dma t) = dma_io (sbs_dma s) @ h @ transfer_events c \<and> dma_free (sbs_dma t)"
proof -
  define mode where "mode = (if af_bit_depth (sb_fmt c) = 8 then SB16_DMA_MODE_8BIT else SB16_DMA_MODE_16BIT)"
  define chan :: u32 where "chan = (if mode = SB16_DMA_MODE_8BIT then 1 else 5)"
  have chan: "chan = (if af_bit_depth (sb_fmt c) = 8 then 1 else 5)" by (simp add: chan_def mode_def sb_modes)
  let ?p = "sbs_drv_ctx s"
  let ?c1 = "c\<lparr>sb_dma_mode := mode, sb_dma_channel := chan, sb_dma_current_half := 0, sb_skip_cntr := 1\<rparr>"
  let ?s1 = "sb_put ?p ?c1 s"
  have u: "sb_upd ?p (\<lambda>c. let mode = if af_bit_depth (sb_fmt c) = 8 then SB16_DMA_MODE_8BIT else SB16_DMA_MODE_16BIT in
       c\<lparr>sb_dma_mode := mode, sb_dma_channel := (if mode = SB16_DMA_MODE_8BIT then 1 else 5),
         sb_dma_current_half := 0, sb_skip_cntr := 1\<rparr>) s = Inr ?s1"
    using at_ctx(1) [OF at] unfolding Let_def sb_upd_def by (simp add: chan_def mode_def)
  obtain s2 where s2: "sb_set_mixer_irq_dma (sb_irq_id ?c1) (sb_dma_channel ?c1) ?s1 = (S_OK, s2)" "io_only ?s1 s2"
    using set_mixer [of "sb_irq_id ?c1" "sb_dma_channel ?c1" ?s1] irq by auto
  let ?d = "(sbs_dma s2)\<lparr>dma_cpu := kernel_cpu (sbs_kernel s2)\<rparr>"
  let ?t = "s2\<lparr>sbs_dma := log_io (transfer_events c) ?d, sbs_kernel := set_if (cpu_if (kernel_cpu (sbs_kernel s2))) (sbs_kernel s2)\<rparr>"
  have fr: "dma_free ?d" using free io_only_fields [OF s2(2)] by (simp add: dma_free_def)
  have us: "usable_channel chan" by (simp add: chan usable_channel_def)
  have "isadma_open_channel chan (sb_dma_memory_phys ?c1) DMA_BUFFER_SIZE DMA_TRANSFER_READ DMA_MODE_SINGLE 1 ?d =
     Inr (S_OK, log_io (transfer_events c) ?d)"
    unfolding transfer_events_def chan [symmetric]
    using isadma_open_channel_log [OF fr us, of DMA_BUFFER_SIZE DMA_TRANSFER_READ "sb_dma_memory_phys c" DMA_MODE_SINGLE 1] phys
    by (simp add: DMA_BUFFER_SIZE_def DMA_MODE_SINGLE_def)
  then have w: "with_dma (isadma_open_channel (sb_dma_channel ?c1) (sb_dma_memory_phys ?c1) DMA_BUFFER_SIZE DMA_TRANSFER_READ DMA_MODE_SINGLE 1) s2
     = Inr (S_OK, ?t)"
    by (simp add: with_dma_def)
  have "sb16_setup_dma ?p s = Inr (S_OK, ?t)"
    unfolding sb16_setup_dma_def Let_def u [unfolded Let_def] bindR.simps ctx_put s2(1) prod.case using w by simp
  moreover have "has_ctx ?t ?c1" using at io_only_fields [OF s2(2)] by (simp add: has_ctx_def)
  moreover obtain h where "dma_io (sbs_dma s2) = dma_io (sbs_dma s) @ h" using s2(2) by (auto simp: io_only_def)
  moreover have "mode \<in> {SB16_DMA_MODE_8BIT, SB16_DMA_MODE_16BIT}" by (simp add: mode_def)
  ultimately show ?thesis
    using io_only_fields [OF s2(2)] fr by (intro exI [of _ ?t] exI [of _ mode] exI [of _ chan] exI [of _ h]) (simp add: dma_free_def)
qed

text \<open>A stopped player on a card whose mixer names an interrupt line.\<close>

definition stopped :: "machine \<Rightarrow> (u8 \<Rightarrow> u8) \<Rightarrow> sb16 \<Rightarrow> sb16_drv_context \<Rightarrow> bool" where
  "stopped m r s c \<longleftrightarrow> has_ctx s c \<and> ctx_ok c \<and> obeys m (sbs_ports s) r \<and> r 0x80 \<in> {1, 2, 4, 8}
     \<and> (r 0x82 AND 7 = 1 \<or> r 0x82 AND 7 = 2) \<and> sb_player_state c = PLAYER_STATE_STOPPED \<and> sb_stop_pending_flag c = 0
     \<and> dma_free (sbs_dma s) \<and> sb_dma_memory_phys c \<le> 0xFFFFFF"

text \<open>The context once the player runs, with the samples \<open>q\<close> that were queued.\<close>

definition started :: "bytes \<Rightarrow> sb16_drv_context \<Rightarrow> bool" where
  "started q c \<longleftrightarrow> ctx_ok c \<and> queued c = drop 65536 q \<and> sb_dma_memory c = take 65536 q @ replicate (65536 - length q) 0
     \<and> sb_skip_cntr c = (if length q < 65536 then 0 else 1) \<and> sb_dma_current_half c = (if length q < 65536 then 1 else 0)
     \<and> sb_stop_pending_flag c = 0 \<and> sb_player_state c = PLAYER_STATE_PLAYING"

lemma started_mode:
  assumes "sb_dma_mode c \<in> {SB16_DMA_MODE_8BIT, SB16_DMA_MODE_16BIT}"
  shows "\<exists>cmds. sb16_start_commands c = Inr cmds"
  using assms by (auto simp: sb16_start_commands_def sb_modes Let_def)

lemma begin_playback_starts:
  assumes st: "stopped m r s c"
  shows "\<exists>t c' h k. sb16_begin_playback m isr s = Inr (S_OK, t) \<and> has_ctx t c' \<and> started (queued c) c' \<and> sbs_ports t = sbs_ports s
     \<and> dma_io (sbs_dma t) = h @ transfer_events c @ k \<and> card_io (sbs_ports s) k \<and> dma_free (sbs_dma t)"
proof -
  note st' = st [unfolded stopped_def]
  have at: "has_ctx s c" and ok: "ctx_ok c" and card: "obeys m (sbs_ports s) r" and state: "sb_player_state c = PLAYER_STATE_STOPPED"
    and free: "dma_free (sbs_dma s)" and phys: "sb_dma_memory_phys c \<le> 0xFFFFFF" using st' by blast+
  let ?p = "sbs_drv_ctx s" and ?z = "replicate 65536 0"
  have p: "get_drv_ctx s = ?p" using at by (simp add: has_ctx_def get_drv_ctx_def)
  obtain irq :: u32 where irq: "map_of [(1, 2), (2, 5), (4, 7), (8, 10)] (r 0x80) = Some irq" "irq \<in> {2, 5, 7, 10}"
    using st' by auto
  obtain hr chan s1 where s1: "sb_get_mixer_irq_dma m (sb_irq_id c) (sb_dma_channel c) s = (hr, irq, chan, s1)" "io_only s s1"
    using get_mixer [OF card irq(1)] by blast
  have z: "silence (sb_dma_memory c) 0 (unat DMA_BUFFER_SIZE) = Inr ?z"
    using ok by (subst silence_fits) (simp_all add: ctx_ok_def buf_put_def)
  let ?c2 = "c\<lparr>sb_dma_memory := ?z, sb_irq_id := irq, sb_dma_channel := chan\<rparr>"
  let ?s2 = "sb_put ?p ?c2 s1"
  let ?s3 = "?s2\<lparr>sbs_kernel := (sbs_kernel ?s2)\<lparr>ks_int := snd (register_isr_callback (ks_int (sbs_kernel ?s2)) (irq_to_intid irq) isr)\<rparr>\<rparr>"
  have same: "?p = sbs_drv_ctx s1" "sbs_opaque s1 = sbs_drv_ctx s1" "dma_free (sbs_dma s1)" "sbs_ports s1 = sbs_ports s"
    using io_only_fields [OF s1(2)] at free by (simp_all add: has_ctx_def dma_free_def)
  have at3: "has_ctx ?s3 ?c2" "sbs_drv_ctx ?s3 = ?p" "dma_free (sbs_dma ?s3)" using same by (simp_all add: has_ctx_def)
  obtain s4 mode chan' h where s4: "sb16_setup_dma ?p ?s3 = Inr (S_OK, s4)"
     "has_ctx s4 (?c2\<lparr>sb_dma_mode := mode, sb_dma_channel := chan', sb_dma_current_half := 0, sb_skip_cntr := 1\<rparr>)"
     "mode \<in> {SB16_DMA_MODE_8BIT, SB16_DMA_MODE_16BIT}" "sbs_ports s4 = sbs_ports s" "sbs_drv_ctx s4 = ?p"
     "dma_io (sbs_dma s4) = dma_io (sbs_dma s1) @ h @ transfer_events c" "dma_free (sbs_dma s4)"
    using setup_dma_opens [OF at3(1) _ at3(3)] irq(2) phys same unfolding at3(2) by (fastforce simp: transfer_events_def)
  let ?c4 = "?c2\<lparr>sb_dma_mode := mode, sb_dma_channel := chan', sb_dma_current_half := 0, sb_skip_cntr := 1\<rparr>"
  have c4: "ctx_ok ?c4" "sb_dma_memory ?c4 = ?z" "queued ?c4 = queued c" using ok by (simp_all add: ctx_ok_def queued_def)
  obtain c5 where c5: "sb16_preroll ?c4 = Inr c5" "ctx_ok c5" "queued c5 = drop 65536 (queued c)"
     "sb_dma_memory c5 = take 65536 (queued c) @ replicate (65536 - length (queued c)) 0"
     "sb_skip_cntr c5 = (if length (queued c) < 65536 then 0 else 1)"
     "sb_dma_current_half c5 = (if length (queued c) < 65536 then 1 else 0)"
     "sb_stop_pending_flag c5 = 0" "sb_dma_mode c5 = mode"
    using preroll_fills [OF c4(1,2)] st' unfolding c4(3) by auto
  let ?s5 = "sb_put ?p c5 s4"
  obtain s6 where s6: "sb_enable_dac_speaker m True ?s5 = Inr s6" "io_only ?s5 s6"
    using speaker [of m ?s5 r] card s4(4) by auto
  obtain cmds where cmds: "sb16_start_commands c5 = Inr cmds" using started_mode [of c5] c5(8) s4(3) by auto
  obtain s7 where s7: "sb_write_all m cmds s6 = Inr s7" "io_only s6 s7"
    using write_all [of m s6 r] card s4(4) io_only_fields [OF s6(2)] by auto
  note io = io_only_trans [OF s6(2) s7(2)]
  let ?c8 = "c5\<lparr>sb_player_state := PLAYER_STATE_PLAYING\<rparr>"
  have c7: "sb_ctx ?p s7 = Inr c5" using io_only_fields(2) [OF io] by (simp add: sb_ctx_def)
  have "sb16_begin_playback m isr s = Inr (S_OK, sb_put ?p ?c8 s7)"
    unfolding sb16_begin_playback_def p Let_def at_ctx(1) [OF at] bindR.simps z s1(1) prod.case
    using s4(1) at_ctx(1) [OF s4(2)] c5(1) s6(1) cmds s7(1) c7 state
    by (simp add: s4(5) player_states sb16_update_player_state_def sb_upd_def)
  moreover have "has_ctx (sb_put ?p ?c8 s7) ?c8"
    using s4(2,5) io_only_fields [OF io] by (intro at_put) (simp_all add: has_ctx_def)
  moreover have "started (queued c) ?c8" using c5 by (simp add: started_def ctx_ok_def queued_def)
  moreover obtain k where "dma_io (sbs_dma s7) = dma_io (sbs_dma s4) @ k" "card_io (sbs_ports s) k"
    using io s4(4) by (auto simp: io_only_def)
  ultimately show ?thesis
    using s4(4,6,7) io_only_fields [OF io]
    by (intro exI [of _ "sb_put ?p ?c8 s7"] exI [of _ ?c8] exI [of _ "dma_io (sbs_dma s1) @ h"] exI [of _ k]) (simp add: dma_free_def)
qed

section \<open>The card at work\<close>

text \<open>What happens while the card plays: programs queue samples, and the card comes to the end of a block. The driver
  means the \<open>n\<close>-th block to be the half \<open>n mod 2\<close> of the DMA memory. \<open>card_run\<close> yields for each block what is in its
  half at its end, and what is in the half of the next block when that begins, just before the interrupt handler
  runs. It says what the driver has put where, and nothing of where the card reads.\<close>

datatype card_event = Queue bytes | Block_end

definition half_of :: "nat \<Rightarrow> bytes \<Rightarrow> bytes" where
  "half_of n mem = (if even n then take 32768 mem else drop 32768 mem)"

fun card_run :: "machine \<Rightarrow> card_event list \<Rightarrow> nat \<Rightarrow> sb16 \<Rightarrow> ((bytes \<times> bytes) list \<times> sb16) run" where
  "card_run m [] n s = Inr ([], s)"
| "card_run m (Queue xs # es) n s = bindR (sb16_write xs (of_nat (length xs)) s) (\<lambda>(_, s). card_run m es n s)"
| "card_run m (Block_end # es) n s =
     bindR (sb_ctx (sbs_drv_ctx s) s) (\<lambda>c.
     bindR (sb16_isr m s) (\<lambda>s'.
     bindR (card_run m es (Suc n) s') (\<lambda>(bs, t).
     Inr ((half_of n (sb_dma_memory c), half_of (Suc n) (sb_dma_memory c)) # bs, t))))"

text \<open>
  Where the card reads is up to the DMA controller. \<open>dma_addr chan c k\<close> is the physical address of the \<open>k\<close>-th byte, from
  the start of the transfer on, that channel \<open>chan\<close> of the chips \<open>c\<close> delivers to a device: none if the controller is
  disabled, the channel masked or not set for that direction, or if the count has run out and the channel does not
  start again by itself. Address and count are of bytes for the first controller and of words for the second one; the
  address counts up within its sixteen bits, the page does not change.\<close>

definition dma_addr :: "nat \<Rightarrow> chips \<Rightarrow> nat \<Rightarrow> nat option" where
  "dma_addr chan c k =
     (let width = (if chan < 4 then 1 else 2); units = unat (ch_count c chan) + 1; j = k div width;
          a = (unat (ch_addr c chan) + j mod units) mod 65536 in
      if ch_disabled c (chan div 4) \<or> ch_masked c chan \<or> ch_mode c chan AND 0x0C \<noteq> 0x08
         \<or> (units \<le> j \<and> ch_mode c chan AND 0x10 = 0)
      then None
      else if chan < 4 then Some (unat (ch_page c chan) * 65536 + a)
      else Some (unat (ch_page c chan AND 0xFE) * 65536 + 2 * a + k mod 2))"

text \<open>Physical memory with the bytes \<open>mem\<close> at \<open>phys\<close>, and the \<open>n\<close>-th block of 32 KB that the card fetches from it.\<close>

definition memory_with :: "(nat \<Rightarrow> u8) \<Rightarrow> u32 \<Rightarrow> bytes \<Rightarrow> nat \<Rightarrow> u8" where
  "memory_with ram phys mem a =
     (if unat phys \<le> a \<and> a < unat phys + length mem then mem ! (a - unat phys) else ram a)"

definition fetched :: "nat \<Rightarrow> chips \<Rightarrow> (nat \<Rightarrow> u8) \<Rightarrow> nat \<Rightarrow> bytes" where
  "fetched chan c ram n =
     concat (map (\<lambda>i. case dma_addr chan c (n * 32768 + i) of None \<Rightarrow> [] | Some a \<Rightarrow> [ram a]) [0..<32768])"

text \<open>The card at work with a controller that had the registers \<open>regs\<close> at the beginning and has since been programmed by
  the port writes of the driver, the DMA memory being at \<open>phys\<close>. A run yields for each block the samples that the card
  fetches, at its end, and those that it finds for the next block when that begins.\<close>

fun play_run :: "machine \<Rightarrow> (nat \<Rightarrow> u8) \<Rightarrow> u32 \<Rightarrow> nat \<Rightarrow> chips \<Rightarrow> card_event list \<Rightarrow> nat \<Rightarrow> sb16
    \<Rightarrow> ((bytes \<times> bytes) list \<times> sb16) run" where
  "play_run m ram phys chan regs [] n s = Inr ([], s)"
| "play_run m ram phys chan regs (Queue xs # es) n s =
     bindR (sb16_write xs (of_nat (length xs)) s) (\<lambda>(_, s). play_run m ram phys chan regs es n s)"
| "play_run m ram phys chan regs (Block_end # es) n s =
     bindR (sb_ctx (sbs_drv_ctx s) s) (\<lambda>c.
     let chips = chips_after regs (dma_io (sbs_dma s)); memory = memory_with ram phys (sb_dma_memory c) in
     bindR (sb16_isr m s) (\<lambda>s'.
     bindR (play_run m ram phys chan regs es (Suc n) s') (\<lambda>(bs, t).
     Inr ((fetched chan chips memory n, fetched chan chips memory (Suc n)) # bs, t))))"

text \<open>The channel that the driver uses, where its memory must be for that channel to reach it, and ports of the card
  apart from those of the controllers.\<close>

definition card_channel :: "sb16_drv_context \<Rightarrow> nat" where
  "card_channel c = (if af_bit_depth (sb_fmt c) = 8 then 1 else 5)"

definition well_placed :: "sb16_drv_context \<Rightarrow> bool" where
  "well_placed c \<longleftrightarrow> unat (sb_dma_memory_phys c) mod (if af_bit_depth (sb_fmt c) = 8 then 65536 else 131072) = 0"

definition separate_ports :: "sb16_port_map \<Rightarrow> bool" where
  "separate_ports po \<longleftrightarrow> (\<forall>p \<in> card_ports po. map_of chip_ports p = None)"

lemma chips_after_quiet:
  "(\<And>p v. OutB p v \<in> set h \<Longrightarrow> map_of chip_ports p = None) \<Longrightarrow> chips_after c h = c"
proof (induction h arbitrary: c)
  case (Cons e h)
  have "chip_step c e = c"
  proof (cases e)
    case (OutB p v)
    then have "map_of chip_ports p = None" using Cons.prems [of p v] by simp
    with OutB show ?thesis by simp
  qed simp_all
  moreover have "chips_after c h = c" by (rule Cons.IH) (meson Cons.prems list.set_intros(2))
  ultimately show ?case by (simp add: chips_after_def)
qed (simp add: chips_after_def)

lemma chips_after_card: "card_io po k \<Longrightarrow> separate_ports po \<Longrightarrow> chips_after x k = x"
  by (intro chips_after_quiet) (auto simp: card_io_def separate_ports_def)

text \<open>What the driver has programmed makes the card read its memory round and round.\<close>

lemma page_byte: "unat (phys :: u32) mod 65536 = 0 \<Longrightarrow> unat phys div 65536 * 65536 = unat phys"
  using div_mult_mod_eq [of "unat phys" 65536] by simp

lemma even_page: "unat (phys :: u32) mod 131072 = 0 \<Longrightarrow> unat phys mod 65536 = 0 \<and> unat phys div 65536 mod 2 = 0"
  using mod_mult2_eq [of "unat phys" 65536 2] by simp

lemma word_address: "2 * (k div 2 mod 32768) + k mod 2 = k mod (65536 :: nat)"
  using mod_mult2_eq [of k 2 32768] by simp

lemma transfer_addr:
  assumes phys: "sb_dma_memory_phys c \<le> 0xFFFFFF" and "well_placed c"
  shows "dma_addr (card_channel c) (chips_after regs (transfer_events c)) k = Some (unat (sb_dma_memory_phys c) + k mod 65536)"
proof (cases "af_bit_depth (sb_fmt c) = 8")
  case True
  have ch: "usable_channel 1" by (simp add: usable_channel_def)
  have z: "unat (sb_dma_memory_phys c) mod 65536 = 0" using assms(2) True by (simp add: well_placed_def)
  have e: "transfer_events c = open_events 1 (sb_dma_memory_phys c) DMA_BUFFER_SIZE DMA_TRANSFER_READ DMA_MODE_SINGLE 1"
    using True by (simp add: transfer_events_def)
  have m: "mode_byte 1 DMA_TRANSFER_READ DMA_MODE_SINGLE 1 = 0x59"
    by (simp add: mode_byte_def dma_modes DMA_MODE_SINGLE_def)
  show ?thesis
    unfolding e open_events_programmed [OF ch] m
    using True z address_parts [OF phys] page_byte [OF z]
    by (simp add: dma_addr_def programmed_def card_channel_def DMA_BUFFER_SIZE_def)
next
  case False
  have ch: "usable_channel 5" by (simp add: usable_channel_def)
  have z': "unat (sb_dma_memory_phys c) mod 131072 = 0" using assms(2) False by (simp add: well_placed_def)
  note z = conjunct1 [OF even_page [OF z']] and pg = conjunct2 [OF even_page [OF z']]
  have e: "transfer_events c = open_events 5 (sb_dma_memory_phys c) DMA_BUFFER_SIZE DMA_TRANSFER_READ DMA_MODE_SINGLE 1"
    using False by (simp add: transfer_events_def)
  have m: "mode_byte 5 DMA_TRANSFER_READ DMA_MODE_SINGLE 1 = 0x59"
    by (simp add: mode_byte_def dma_modes DMA_MODE_SINGLE_def)
  have "k div 2 mod 32768 < 65536" using mod_less_divisor [of 32768 "k div 2"] by linarith
  then show ?thesis
    unfolding e open_events_programmed [OF ch] m
    using False z pg address_parts [OF phys] page_byte [OF z] word_address [of k]
    by (simp add: dma_addr_def programmed_def card_channel_def DMA_BUFFER_SIZE_def and_FE)
qed

lemma concat_single: "concat (map (\<lambda>i. [f i]) xs) = map f xs"
  by (induction xs) simp_all

lemma half_of_nth: "length mem = 65536 \<Longrightarrow> half_of n mem = map (\<lambda>i. mem ! ((n * 32768 + i) mod 65536)) [0..<32768]"
proof -
  assume len: "length mem = 65536"
  have "(n * 32768 + i) mod 65536 = (if even n then i else 32768 + i)" if "i < 32768" for i
  proof (cases "even n")
    case True
    then obtain j where "n = 2 * j" by blast
    then have "n * 32768 + i = i + 65536 * j" by simp
    then show ?thesis using that True by (simp only: mod_mult_self2) simp
  next
    case False
    then obtain j where "n = Suc (2 * j)" by (auto elim: oddE)
    then have "n * 32768 + i = (32768 + i) + 65536 * j" by simp
    then show ?thesis using that False by (simp only: mod_mult_self2) simp
  qed
  then show ?thesis using len by (intro nth_equalityI) (auto simp: half_of_def)
qed

lemma transfer_fetches:
  assumes "\<And>k. dma_addr chan regs k = Some (unat phys + k mod 65536)" and len: "length mem = 65536"
  shows "fetched chan regs (memory_with ram phys mem) n = half_of n mem"
  using len unfolding fetched_def assms(1) option.case concat_single half_of_nth [OF len] by (simp add: memory_with_def)

text \<open>A player that is on time: the block that the card plays, the one that is ready, and the queue.\<close>

fun on_time :: "card_event list \<Rightarrow> bytes \<Rightarrow> bytes \<Rightarrow> bytes \<Rightarrow> (bytes \<times> bytes) list" where
  "on_time [] cur nxt q = []"
| "on_time (Queue xs # es) cur nxt q = on_time es cur nxt (accepted q xs)"
| "on_time (Block_end # es) cur nxt q = (cur, nxt) # on_time es nxt (next_block q) (drop 32768 q)"

text \<open>A player that is late: the card begins a block with what the half still holds, and the samples for it are
  written while it plays. The first interrupt writes nothing.\<close>

fun late :: "bool \<Rightarrow> card_event list \<Rightarrow> bytes \<Rightarrow> bytes \<Rightarrow> bytes \<Rightarrow> (bytes \<times> bytes) list" where
  "late skip [] cur other q = []"
| "late skip (Queue xs # es) cur other q = late skip es cur other (accepted q xs)"
| "late skip (Block_end # es) cur other q =
     (cur, other) # (if skip then late False es other cur q else late False es (next_block q) cur (drop 32768 q))"

definition requests_ok :: "card_event list \<Rightarrow> bool" where
  "requests_ok es \<longleftrightarrow> (\<forall>xs. Queue xs \<in> set es \<longrightarrow> length xs < 2 ^ 32)"

lemma requests_ok_Cons [simp]:
  "requests_ok (Queue xs # es) \<longleftrightarrow> length xs < 2 ^ 32 \<and> requests_ok es" "requests_ok (Block_end # es) \<longleftrightarrow> requests_ok es"
  by (auto simp: requests_ok_def)

lemma half_of_Suc_Suc [simp]: "half_of (Suc (Suc n)) mem = half_of n mem"
  by (simp add: half_of_def)

lemma half_of_fill:
  "length mem = 65536 \<Longrightarrow> length xs = 32768 \<Longrightarrow>
   half_of k (fill b xs mem) = (if b = odd k then xs else half_of k mem)"
  by (auto simp: half_of_def fill_def)

definition playing_with :: "machine \<Rightarrow> (u8 \<Rightarrow> u8) \<Rightarrow> sb16 \<Rightarrow> sb16_drv_context \<Rightarrow> bool" where
  "playing_with m r s c \<longleftrightarrow> has_ctx s c \<and> ctx_ok c \<and> obeys m (sbs_ports s) r \<and> (r 0x82 AND 7 = 1 \<or> r 0x82 AND 7 = 2)
     \<and> sb_stop_pending_flag c = 0"

lemma playing_write:
  assumes "playing_with m r s c" and "length xs < 2 ^ 32"
  obtains hr t c' where "sb16_write xs (of_nat (length xs)) s = Inr (hr, t)" "playing_with m r t c'"
    "queued c' = accepted (queued c) xs" "sb_dma_memory c' = sb_dma_memory c"
    "sb_dma_current_half c' = sb_dma_current_half c" "sb_skip_cntr c' = sb_skip_cntr c"
  using write_accepts [of s c xs] assms by (auto simp: playing_with_def)

lemma playing_isr:
  assumes "playing_with m r s c" and "sb_skip_cntr c = 0"
  obtains t c' where "sb16_isr m s = Inr t" "playing_with m r t c'" "queued c' = drop 32768 (queued c)"
    "sb_dma_memory c' = fill (sb_dma_current_half c XOR 1 \<noteq> 0) (next_block (queued c)) (sb_dma_memory c)"
    "sb_dma_current_half c' = sb_dma_current_half c XOR 1" "sb_skip_cntr c' = 0" "io_grows s t"
  using isr_fills [of s c m r] assms by (auto simp: playing_with_def)

lemma playing_isr_skips:
  assumes "playing_with m r s c" and "sb_skip_cntr c = 1"
  obtains t c' where "sb16_isr m s = Inr t" "playing_with m r t c'" "queued c' = queued c"
    "sb_dma_memory c' = sb_dma_memory c" "sb_dma_current_half c' = sb_dma_current_half c XOR 1" "sb_skip_cntr c' = 0" "io_grows s t"
proof -
  let ?c = "c\<lparr>sb_dma_current_half := sb_dma_current_half c XOR 1, sb_skip_cntr := 0\<rparr>"
  obtain t where "sb16_isr m s = Inr t" "has_ctx t ?c" "sbs_ports t = sbs_ports s" "io_grows s t"
    using isr_skips [of s c m r] assms by (auto simp: playing_with_def)
  then show ?thesis
    using assms by (intro that [of t ?c]) (auto simp: playing_with_def ctx_ok_def queued_def)
qed

lemma playing_ctx: "playing_with m r s c \<Longrightarrow> sb_ctx (sbs_drv_ctx s) s = Inr c"
  by (simp add: playing_with_def at_ctx)

lemma playing_memory: "playing_with m r s c \<Longrightarrow> length (sb_dma_memory c) = 65536"
  by (simp add: playing_with_def ctx_ok_def)

lemma runs_on_time:
  assumes "playing_with m r s c" and "sb_skip_cntr c = 0" and "sb_dma_current_half c = (if even n then 1 else 0)" and "requests_ok es"
  shows "\<exists>t. card_run m es n s =
    Inr (on_time es (half_of n (sb_dma_memory c)) (half_of (Suc n) (sb_dma_memory c)) (queued c), t)"
  using assms
proof (induction es arbitrary: n s c)
  case Nil
  then show ?case by simp
next
  case (Cons e es)
  show ?case
  proof (cases e)
    case (Queue xs)
    then have len: "length xs < 2 ^ 32" using Cons.prems(4) by simp
    obtain hr t c' where t: "sb16_write xs (of_nat (length xs)) s = Inr (hr, t)" "playing_with m r t c'"
        "queued c' = accepted (queued c) xs" "sb_dma_memory c' = sb_dma_memory c"
        "sb_dma_current_half c' = sb_dma_current_half c" "sb_skip_cntr c' = sb_skip_cntr c"
      by (rule playing_write [OF Cons.prems(1) len])
    show ?thesis
      using Cons.IH [OF t(2), of n] t Cons.prems(2-4) Queue by auto
  next
    case Block_end
    obtain t c' where t: "sb16_isr m s = Inr t" "playing_with m r t c'" "queued c' = drop 32768 (queued c)"
        "sb_dma_memory c' = fill (sb_dma_current_half c XOR 1 \<noteq> 0) (next_block (queued c)) (sb_dma_memory c)"
        "sb_dma_current_half c' = sb_dma_current_half c XOR 1" "sb_skip_cntr c' = 0"
      by (rule playing_isr [OF Cons.prems(1,2)])
    have h: "sb_dma_current_half c' = (if even (Suc n) then 1 else 0)" "(sb_dma_current_half c XOR 1 \<noteq> 0) = odd n"
      using t(5) Cons.prems(3) by auto
    have m: "half_of (Suc n) (sb_dma_memory c') = half_of (Suc n) (sb_dma_memory c)"
      "half_of (Suc (Suc n)) (sb_dma_memory c') = next_block (queued c)"
      unfolding t(4) h(2) using playing_memory [OF Cons.prems(1)] by (simp_all add: half_of_fill)
    show ?thesis
      using Cons.IH [OF t(2,6) h(1)] Cons.prems(4) t(1,3) m playing_ctx [OF Cons.prems(1)] Block_end by fastforce
  qed
qed

lemma runs_late:
  assumes "playing_with m r s c" and "sb_skip_cntr c = (if skip then 1 else 0)"
    and "sb_dma_current_half c = (if even n then 0 else 1)" and "requests_ok es"
  shows "\<exists>t. card_run m es n s =
    Inr (late skip es (half_of n (sb_dma_memory c)) (half_of (Suc n) (sb_dma_memory c)) (queued c), t)"
  using assms
proof (induction es arbitrary: n s c skip)
  case Nil
  then show ?case by simp
next
  case (Cons e es)
  show ?case
  proof (cases e)
    case (Queue xs)
    then have len: "length xs < 2 ^ 32" using Cons.prems(4) by simp
    obtain hr t c' where t: "sb16_write xs (of_nat (length xs)) s = Inr (hr, t)" "playing_with m r t c'"
        "queued c' = accepted (queued c) xs" "sb_dma_memory c' = sb_dma_memory c"
        "sb_dma_current_half c' = sb_dma_current_half c" "sb_skip_cntr c' = sb_skip_cntr c"
      by (rule playing_write [OF Cons.prems(1) len])
    show ?thesis
      using Cons.IH [OF t(2), of skip n] t Cons.prems(2-4) Queue by auto
  next
    case Block_end
    have ctx: "sb_ctx (sbs_drv_ctx s) s = Inr c" by (rule playing_ctx [OF Cons.prems(1)])
    show ?thesis
    proof (cases skip)
      case True
      then obtain t c' where t: "sb16_isr m s = Inr t" "playing_with m r t c'" "queued c' = queued c"
          "sb_dma_memory c' = sb_dma_memory c" "sb_dma_current_half c' = sb_dma_current_half c XOR 1" "sb_skip_cntr c' = 0"
        using Cons.prems(2) by (auto elim: playing_isr_skips [OF Cons.prems(1)])
      have h: "sb_dma_current_half c' = (if even (Suc n) then 0 else 1)" using t(5) Cons.prems(3) by auto
      show ?thesis
        using Cons.IH [OF t(2) _ h, of False] Cons.prems(4) t ctx Block_end True by fastforce
    next
      case False
      then obtain t c' where t: "sb16_isr m s = Inr t" "playing_with m r t c'" "queued c' = drop 32768 (queued c)"
          "sb_dma_memory c' = fill (sb_dma_current_half c XOR 1 \<noteq> 0) (next_block (queued c)) (sb_dma_memory c)"
          "sb_dma_current_half c' = sb_dma_current_half c XOR 1" "sb_skip_cntr c' = 0"
        using Cons.prems(2) by (auto elim: playing_isr [OF Cons.prems(1)])
      have h: "sb_dma_current_half c' = (if even (Suc n) then 0 else 1)" "(sb_dma_current_half c XOR 1 \<noteq> 0) = even n"
        using t(5) Cons.prems(3) by auto
      have m: "half_of (Suc n) (sb_dma_memory c') = next_block (queued c)"
        "half_of (Suc (Suc n)) (sb_dma_memory c') = half_of n (sb_dma_memory c)"
        unfolding t(4) h(2) using playing_memory [OF Cons.prems(1)] by (simp_all add: half_of_fill)
      show ?thesis
        using Cons.IH [OF t(2) _ h(1), of False] Cons.prems(4) t(1,3,6) m ctx Block_end False by fastforce
    qed
  qed
qed

text \<open>As long as the controller delivers the DMA memory, the card plays what the driver puts into it.\<close>

lemma write_quiet:
  assumes "sb16_write xs n s = Inr (hr, t)"
  shows "sbs_dma t = sbs_dma s" "sbs_ports t = sbs_ports s"
  using assms by (auto simp: sb16_write_def sb_lock_def sb_unlock_def sb_ctx_def sb_put_def Let_def split: if_splits option.splits)

lemma grown_transfer:
  "io_grows s t \<Longrightarrow> separate_ports (sbs_ports s) \<Longrightarrow> chips_after regs (dma_io (sbs_dma t)) = chips_after regs (dma_io (sbs_dma s))"
  by (auto simp: io_grows_def chips_after_append chips_after_card)

lemma card_plays_memory:
  assumes "playing_with m r s c" and "sb_skip_cntr c \<in> {0, 1}" and "requests_ok es" and "separate_ports (sbs_ports s)"
    and "\<And>k. dma_addr chan (chips_after regs (dma_io (sbs_dma s))) k = Some (unat phys + k mod 65536)"
  shows "play_run m ram phys chan regs es n s = card_run m es n s"
  using assms
proof (induction es arbitrary: n s c)
  case Nil
  then show ?case by simp
next
  case (Cons e es)
  show ?case
  proof (cases e)
    case (Queue xs)
    then have len: "length xs < 2 ^ 32" using Cons.prems(3) by simp
    obtain hr t c' where t: "sb16_write xs (of_nat (length xs)) s = Inr (hr, t)" "playing_with m r t c'"
        "sb_skip_cntr c' = sb_skip_cntr c"
      by (rule playing_write [OF Cons.prems(1) len])
    show ?thesis
      using Cons.IH [OF t(2), of n] t(1,3) Cons.prems(2-5) write_quiet [OF t(1)] Queue by simp
  next
    case Block_end
    obtain t c' where t: "sb16_isr m s = Inr t" "playing_with m r t c'" "sb_skip_cntr c' = 0" "io_grows s t"
      using Cons.prems(2) by (auto elim: playing_isr [OF Cons.prems(1)] playing_isr_skips [OF Cons.prems(1)])
    have p: "separate_ports (sbs_ports t)" using t(4) Cons.prems(4) by (simp add: io_grows_def)
    have f: "fetched chan (chips_after regs (dma_io (sbs_dma s))) (memory_with ram phys (sb_dma_memory c)) i =
       half_of i (sb_dma_memory c)" for i
      by (rule transfer_fetches [OF Cons.prems(5) playing_memory [OF Cons.prems(1)]])
    have "play_run m ram phys chan regs es (Suc n) t = card_run m es (Suc n) t"
      using Cons.IH [OF t(2), of "Suc n"] t(3) p Cons.prems(3,5) grown_transfer [OF t(4) Cons.prems(4)] Block_end by simp
    then show ?thesis
      using t(1) playing_ctx [OF Cons.prems(1)] f Block_end by (simp add: Let_def del: bindR_eq_Inr)
  qed
qed

lemma late_head: "0 < length (late skip es cur other q) \<Longrightarrow> snd (late skip es cur other q ! 0) = other"
proof (induction es arbitrary: q)
  case (Cons e es)
  then show ?case by (cases e) auto
qed simp

text \<open>Being late means that a block begins with the samples of the block before last.\<close>

lemma late_repeats:
  "Suc i < length (late skip es cur other q) \<Longrightarrow>
   snd (late skip es cur other q ! Suc i) = fst (late skip es cur other q ! i)"
proof (induction es arbitrary: skip cur other q i)
  case Nil
  then show ?case by simp
next
  case (Cons e es)
  show ?case
  proof (cases e)
    case (Queue xs)
    then show ?thesis using Cons.IH Cons.prems by simp
  next
    case Block_end
    then show ?thesis
    proof (cases i)
      case 0
      then show ?thesis using Cons.prems Block_end late_head by (auto split: if_splits)
    next
      case (Suc j)
      then show ?thesis using Cons.IH Cons.prems Block_end by (auto split: if_splits)
    qed
  qed
qed

section \<open>Properties\<close>

lemma started_playing: "stopped m r s c \<Longrightarrow> has_ctx t c' \<Longrightarrow> started q c' \<Longrightarrow> sbs_ports t = sbs_ports s \<Longrightarrow> playing_with m r t c'"
  by (auto simp: stopped_def started_def playing_with_def)

lemma halves_short:
  assumes "length q < 65536"
  shows "half_of 0 (take 65536 q @ replicate (65536 - length q) 0) = next_block q"
    "half_of (Suc 0) (take 65536 q @ replicate (65536 - length q) 0) = next_block (drop 32768 q)"
proof -
  have "replicate (65536 - length q) (0 :: u8) = replicate (32768 - length q) 0 @ replicate (32768 - (length q - 32768)) 0" if "length q < 32768"
    using that by (simp add: replicate_add [symmetric])
  with assms show "half_of 0 (take 65536 q @ replicate (65536 - length q) 0) = next_block q"
    by (cases "length q < 32768") (simp_all add: half_of_def next_block_def)
  show "half_of (Suc 0) (take 65536 q @ replicate (65536 - length q) 0) = next_block (drop 32768 q)"
    using assms by (simp add: half_of_def next_block_def drop_replicate)
qed

text \<open>C10. A stopped player with fewer than 64 KB queued plays on time once it is started: whatever is queued while it plays,
  every block that the card fetches from physical memory, through the DMA controller as the driver has programmed it, is
  at its end what the card found when it began it, and the blocks are the queued samples in their order, 32 KB at a
  time, with silence when the queue runs dry. The DMA memory must be where the channel reaches it: at a multiple of
  64 KB for samples of eight bits, of 128 KB for other ones (C34 has the case that it is not), below 16 MB. The ports of the card are not
  those of the controllers, its mixer names an interrupt line and reports the interrupt as its own, it takes every
  command at once, no lock is held and no program queues 4 GB at once.\<close>

theorem short_preroll_plays_on_time:
  assumes "stopped m r s c" and "length (queued c) < 65536" and "requests_ok es" and "well_placed c"
    and "separate_ports (sbs_ports s)"
  shows "\<exists>t u. sb16_begin_playback m isr s = Inr (S_OK, t) \<and>
     play_run m ram (sb_dma_memory_phys c) (card_channel c) regs es 0 t =
     Inr (on_time es (next_block (queued c)) (next_block (drop 32768 (queued c))) [], u)"
proof -
  obtain t c' h k where t: "sb16_begin_playback m isr s = Inr (S_OK, t)" "has_ctx t c'" "started (queued c) c'" "sbs_ports t = sbs_ports s"
    "dma_io (sbs_dma t) = h @ transfer_events c @ k" "card_io (sbs_ports s) k"
    using begin_playback_starts [OF assms(1)] by blast
  have f: "sb_skip_cntr c' = 0" "sb_dma_current_half c' = (if even (0 :: nat) then 1 else 0)" "queued c' = []"
    "sb_dma_memory c' = take 65536 (queued c) @ replicate (65536 - length (queued c)) 0"
    using t(3) assms(2) by (simp_all add: started_def)
  have p: "playing_with m r t c'" by (rule started_playing [OF assms(1) t(2-4)])
  have "sb_dma_memory_phys c \<le> 0xFFFFFF" using assms(1) by (simp add: stopped_def)
  then have "play_run m ram (sb_dma_memory_phys c) (card_channel c) regs es 0 t = card_run m es 0 t"
    using f(1) assms(3,5) t(4)
    by (intro card_plays_memory [OF p]) (simp_all add: t(5) chips_after_append chips_after_card [OF t(6) assms(5)]
      transfer_addr [OF _ assms(4)])
  then show ?thesis
    using runs_on_time [OF p f(1,2) assms(3)] t(1) f(3) unfolding f(4) halves_short [OF assms(2)] by auto
qed

text \<open>C29. With 64 KB or more queued before the start the handler is late for ever: from the third block on, the half of the
  DMA memory that is to be played next still holds, when its block begins, the samples of the block before last, and
  the handler writes the next ones over them during the block. (Where the card reads is left open here.)\<close>

theorem full_preroll_plays_late:
  assumes "stopped m r s c" and "65536 \<le> length (queued c)" and "requests_ok es"
  shows "\<exists>t bs u. sb16_begin_playback m isr s = Inr (S_OK, t) \<and> card_run m es 0 t = Inr (bs, u) \<and>
     bs = late True es (take 32768 (queued c)) (take 32768 (drop 32768 (queued c))) (drop 65536 (queued c)) \<and>
     (\<forall>i. Suc i < length bs \<longrightarrow> snd (bs ! Suc i) = fst (bs ! i))"
proof -
  obtain t c' where t: "sb16_begin_playback m isr s = Inr (S_OK, t)" "has_ctx t c'" "started (queued c) c'" "sbs_ports t = sbs_ports s"
    using begin_playback_starts [OF assms(1)] by blast
  have f: "sb_skip_cntr c' = (if True then 1 else 0)" "sb_dma_current_half c' = (if even (0 :: nat) then 0 else 1)"
    "queued c' = drop 65536 (queued c)" "sb_dma_memory c' = take 65536 (queued c)"
    using t(3) assms(2) by (simp_all add: started_def)
  have h: "half_of 0 (take 65536 (queued c)) = take 32768 (queued c)"
    "half_of (Suc 0) (take 65536 (queued c)) = take 32768 (drop 32768 (queued c))"
    by (simp_all add: half_of_def drop_take)
  obtain u where "card_run m es 0 t = Inr (late True es (take 32768 (queued c)) (take 32768 (drop 32768 (queued c))) (drop 65536 (queued c)), u)"
    using runs_late [OF started_playing [OF assms(1) t(2-4)] f(1,2) assms(3)] unfolding f(3,4) h by blast
  then show ?thesis using t(1) late_repeats by blast
qed

text \<open>A player with \<open>n\<close> samples queued, on a card all of whose registers read 2.\<close>

definition demo_card :: machine where
  "demo_card = \<lparr> m_inb = (\<lambda>_ _. 2), m_inw = (\<lambda>_ _. 0), m_ind = (\<lambda>_ _. 0), m_clock = (\<lambda>_. 0) \<rparr>"

definition demo_player :: "u32 \<Rightarrow> u32 \<Rightarrow> sb16_drv_context" where
  "demo_player n phys = zero_sb16_context\<lparr>sb_player_state := PLAYER_STATE_STOPPED, sb_audio_buffer_capacity := 393216,
     sb_audio_buffer := replicate 393216 7, sb_audio_wp := n, sb_dma_memory := replicate 65536 0, sb_dma_memory_phys := phys,
     sb_fmt := \<lparr> af_bit_depth = 16, af_block_size = 4, af_sample_rate = 44100, af_channels = 2 \<rparr>\<rparr>"

definition demo_sb16 :: "u32 \<Rightarrow> u32 \<Rightarrow> sb16" where
  "demo_sb16 n phys = \<lparr> sbs_ports = sb16_ports_at 0x220, sbs_ctxs = [0x1000 \<mapsto> demo_player n phys], sbs_drv_ctx = 0x1000,
     sbs_opaque = 0x1000, sbs_dma = demo_dma, sbs_kernel = example_kernel \<rparr>"

lemma demo_stopped: "unat n \<le> 65536 \<Longrightarrow> phys \<le> 0xFFFFFF \<Longrightarrow> stopped demo_card (\<lambda>_. 2) (demo_sb16 n phys) (demo_player n phys)"
  by (simp add: stopped_def has_ctx_def ctx_ok_def obeys_def dma_free_def ring_ok_def demo_sb16_def demo_player_def demo_card_def
    demo_dma_def zero_sb16_context_def spinlock_create_def)

lemma demo_queued: "queued (demo_player n phys) = take (unat n) (replicate 393216 7)"
  by (simp add: queued_def demo_player_def zero_sb16_context_def ring_data_def)

lemma demo_separate: "separate_ports (sbs_ports (demo_sb16 n phys))"
  by (simp add: separate_ports_def card_ports_def demo_sb16_def sb16_ports_at_def chip_ports_def)

theorem short_preroll_plays_on_time_witness:
  "\<exists>t u. sb16_begin_playback demo_card 0xC0100000 (demo_sb16 0 0x20000) = Inr (S_OK, t) \<and>
     play_run demo_card (\<lambda>_. 9) 0x20000 5 demo_chips [Queue [1, 2, 3], Block_end, Block_end, Block_end] 0 t =
     Inr ([(next_block [], next_block []), (next_block [], next_block [1, 2, 3]), (next_block [1, 2, 3], next_block [])], u)"
proof -
  have q: "queued (demo_player 0 0x20000) = []" by (simp add: demo_queued)
  have s: "stopped demo_card (\<lambda>_. 2) (demo_sb16 0 0x20000) (demo_player 0 0x20000)" by (rule demo_stopped) simp_all
  have w: "well_placed (demo_player 0 0x20000)" "card_channel (demo_player 0 0x20000) = 5" "sb_dma_memory_phys (demo_player 0 0x20000) = 0x20000"
    by (simp_all add: well_placed_def card_channel_def demo_player_def)
  show ?thesis
    using short_preroll_plays_on_time [OF s _ _ w(1) demo_separate, of "[Queue [1, 2, 3], Block_end, Block_end, Block_end]" "0xC0100000"
      "\<lambda>_. 9" demo_chips]
    unfolding q w by (simp add: accepted_def requests_ok_def)
qed

theorem full_preroll_plays_late_witness:
  "\<exists>t bs u. sb16_begin_playback demo_card 0xC0100000 (demo_sb16 0x10000 0x20000) = Inr (S_OK, t) \<and>
     card_run demo_card [Queue [1, 2, 3], Block_end, Block_end, Block_end] 0 t = Inr (bs, u) \<and> length bs = 3 \<and>
     snd (bs ! 1) = fst (bs ! 0)"
proof -
  have q: "65536 \<le> length (queued (demo_player 0x10000 0x20000))" by (simp add: demo_queued)
  have s: "stopped demo_card (\<lambda>_. 2) (demo_sb16 0x10000 0x20000) (demo_player 0x10000 0x20000)" by (rule demo_stopped) simp_all
  have e: "requests_ok [Queue [1, 2, 3], Block_end, Block_end, Block_end]" by (simp add: requests_ok_def)
  obtain t bs u where t: "sb16_begin_playback demo_card 0xC0100000 (demo_sb16 0x10000 0x20000) = Inr (S_OK, t)"
    "card_run demo_card [Queue [1, 2, 3], Block_end, Block_end, Block_end] 0 t = Inr (bs, u)"
    "length bs = 3" "\<forall>i. Suc i < length bs \<longrightarrow> snd (bs ! Suc i) = fst (bs ! i)"
    using full_preroll_plays_late [OF s q e, of "0xC0100000"] by force
  from t(4) have "snd (bs ! Suc 0) = fst (bs ! 0)" using t(3) by simp
  with t(1-3) show ?thesis by auto
qed

section \<open>Sixteen-bit samples\<close>

text \<open>C34. Samples of sixteen bits go through DMA channel 5. The driver checks that its memory starts at a multiple of 64 KB,
  but the transfer it starts is at that memory only if the address is a multiple of 128 KB.\<close>

theorem sixteen_bit_playback_misplaced:
  assumes "stopped m r s c" and "af_bit_depth (sb_fmt c) \<noteq> 8"
    and "\<forall>p \<in> card_ports (sbs_ports s). map_of chip_ports p = None"
  shows "\<exists>t. sb16_begin_playback m isr s = Inr (S_OK, t) \<and>
     (transfer_start 5 (chips_after regs (dma_io (sbs_dma t))) = unat (sb_dma_memory_phys c) \<longleftrightarrow>
      unat (sb_dma_memory_phys c) mod 131072 = 0)"
proof -
  obtain t h k where t: "sb16_begin_playback m isr s = Inr (S_OK, t)"
     "dma_io (sbs_dma t) = h @ transfer_events c @ k" "card_io (sbs_ports s) k"
    using begin_playback_starts [OF assms(1)] by blast
  have k: "chips_after x k = x" for x
    by (rule chips_after_card [OF t(3)]) (use assms(3) in \<open>simp add: separate_ports_def\<close>)
  have five: "usable_channel 5" "sb_dma_memory_phys c \<le> 0xFFFFFF" using assms(1) by (simp_all add: usable_channel_def stopped_def)
  have u5: "unat (5 :: u32) = 5" by simp
  have e: "transfer_events c = open_events 5 (sb_dma_memory_phys c) DMA_BUFFER_SIZE DMA_TRANSFER_READ DMA_MODE_SINGLE 1"
    using assms(2) by (simp add: transfer_events_def)
  have r: "chips_after regs (dma_io (sbs_dma t)) = chips_after (chips_after regs h) (transfer_events c)"
    unfolding t(2) chips_after_append by (rule k)
  have "4 \<le> (5 :: nat)" by simp
  from programmed_16bit_start [OF five(2) this] show ?thesis
    by (intro exI [of _ t] conjI t(1)) (unfold r e open_events_programmed [OF five(1)] u5)
qed

theorem sixteen_bit_playback_misplaced_witness:
  "\<exists>t. sb16_begin_playback demo_card 0xC0100000 (demo_sb16 0 0x30000) = Inr (S_OK, t) \<and>
     transfer_start 5 (chips_after demo_chips (dma_io (sbs_dma t))) \<noteq> 0x30000"
proof -
  have s: "stopped demo_card (\<lambda>_. 2) (demo_sb16 0 0x30000) (demo_player 0 0x30000)" by (rule demo_stopped) simp_all
  have "sb_dma_memory_phys (demo_player 0 0x30000) = 0x30000" "af_bit_depth (sb_fmt (demo_player 0 0x30000)) \<noteq> 8"
    by (simp_all add: demo_player_def)
  moreover have "\<forall>p \<in> card_ports (sbs_ports (demo_sb16 0 0x30000)). map_of chip_ports p = None"
    by (simp add: card_ports_def demo_sb16_def sb16_ports_at_def chip_ports_def)
  ultimately show ?thesis
    using sixteen_bit_playback_misplaced [OF s, where regs = demo_chips and isr = "0xC0100000"] by auto
qed

end
