(* ===== verification/AudioSession.thy ===== *)
theory AudioSession
  imports Playback
begin

unbundle bit_operations_syntax

text \<open>
  \<^verbatim>\<open>subsystems/nxa.c\<close>: audio sessions over the stream of a sound driver. Requests to the stream go to the driver
  (\<open>dev_ioctl\<close>, \<open>dev_write\<close>; \<open>VfsFile\<close> has the streams), whose state is part of the state here; \<open>sb16_ioctl\<close> and
  \<open>sb16_write\<close> of \<open>SoundBlaster\<close> are such routines.
\<close>

section \<open>Sessions\<close>

record k_audio_session =
  as_fmt :: sb16_audio_format
  as_driver :: u32

record 'd nxa =
  nx_aud_driver :: u32
  nx_sessions :: "u32 \<Rightarrow> k_audio_session option"
  nx_device :: 'd

type_synonym 'd dev_ioctl = "audio_request \<Rightarrow> 'd \<Rightarrow> (hresult \<times> audio_answer \<times> 'd) run"
type_synonym 'd dev_write = "bytes \<Rightarrow> u32 \<Rightarrow> 'd \<Rightarrow> (hresult \<times> 'd) run"

definition stream_ioctl :: "'d dev_ioctl \<Rightarrow> u32 \<Rightarrow> audio_request \<Rightarrow> 'd nxa \<Rightarrow> (hresult \<times> audio_answer \<times> 'd nxa) run" where
  "stream_ioctl I str req s =
     (if str = 0 then Inl BadAccess
      else bindR (I req (nx_device s)) (\<lambda>(hr, a, d). Inr (hr, a, s\<lparr>nx_device := d\<rparr>)))"

definition stream_write :: "'d dev_write \<Rightarrow> u32 \<Rightarrow> bytes \<Rightarrow> u32 \<Rightarrow> 'd nxa \<Rightarrow> (hresult \<times> 'd nxa) run" where
  "stream_write W str buf n s =
     (if str = 0 then Inl BadAccess
      else bindR (W buf n (nx_device s)) (\<lambda>(hr, d). Inr (hr, s\<lparr>nx_device := d\<rparr>)))"

definition session_at :: "u32 \<Rightarrow> 'd nxa \<Rightarrow> k_audio_session run" where
  "session_at p s = (case nx_sessions s p of None \<Rightarrow> Inl BadAccess | Some x \<Rightarrow> Inr x)"

text \<open>\<open>fopen\<close> opens a stream and yields its address. The name is copied into an array of 64 characters.\<close>

definition nxa_initialize :: "(string \<Rightarrow> hresult \<times> u32) \<Rightarrow> string option \<Rightarrow> 'd nxa \<Rightarrow> (hresult \<times> 'd nxa) run" where
  "nxa_initialize fopen audio_driver s =
     (if nx_aud_driver s \<noteq> 0 then Inr (E_FAIL, s)
      else
        let drv_name = (case audio_driver of None \<Rightarrow> ''/dev/sb16'' | Some name \<Rightarrow> name) in
        if length drv_name \<ge> 64 then Inl BadAccess
        else let (hr, str) = fopen drv_name in Inr (hr, s\<lparr>nx_aud_driver := str\<rparr>))"

definition nxa_finalize :: "(u32 \<Rightarrow> hresult \<times> u32) \<Rightarrow> 'd nxa \<Rightarrow> hresult \<times> 'd nxa" where
  "nxa_finalize fclose s =
     (if nx_aud_driver s = 0 then (E_FAIL, s)
      else let (hr, str) = fclose (nx_aud_driver s) in (hr, s\<lparr>nx_aud_driver := str\<rparr>))"

text \<open>\<open>p\<close> is the address that \<^verbatim>\<open>kcalloc\<close> returns. The second result is the session that the caller gets.\<close>

definition nxa_open_session ::
  "'d dev_ioctl \<Rightarrow> 'd dev_write \<Rightarrow> sb16_audio_format \<Rightarrow> bytes \<Rightarrow> u32 \<Rightarrow> u32 \<Rightarrow> 'd nxa \<Rightarrow> (hresult \<times> u32 option \<times> 'd nxa) run" where
  "nxa_open_session I W fmt preroll_buff preroll_size p s =
     bindR (stream_ioctl I (nx_aud_driver s) (IOCTL_AUDIO_SET_FORMAT fmt) s) (\<lambda>(hr, _, s).
     if FAILED hr then Inr (hr, None, s)
     else
       bindR (if preroll_size > 0 then stream_write W (nx_aud_driver s) preroll_buff preroll_size s else Inr (S_OK, s)) (\<lambda>(hr, s).
       if FAILED hr then Inr (hr, None, s)
       else
         bindR (stream_ioctl I (nx_aud_driver s) IOCTL_AUDIO_BEGIN_PLAYBACK s) (\<lambda>(hr, _, s).
         if FAILED hr then Inr (hr, None, s)
         else if p = 0 then Inl BadAccess
         else
           let ses = \<lparr> as_fmt = fmt, as_driver = nx_aud_driver s \<rparr> in
           bindR (stream_ioctl I (nx_aud_driver s) IOCTL_AUDIO_GET_FORMAT s) (\<lambda>(hr, a, s).
           let ses = (case a of Format f \<Rightarrow> ses\<lparr>as_fmt := f\<rparr> | _ \<Rightarrow> ses) in
           Inr (hr, Some p, s\<lparr>nx_sessions := (nx_sessions s)(p \<mapsto> ses)\<rparr>)))))"

definition nxa_queue_audio :: "'d dev_write \<Rightarrow> u32 \<Rightarrow> bytes option \<Rightarrow> u32 \<Rightarrow> 'd nxa \<Rightarrow> (hresult \<times> 'd nxa) run" where
  "nxa_queue_audio W session buffer buff_size s =
     (case buffer of
        None \<Rightarrow> Inr (E_INVALIDARG, s)
      | Some buf \<Rightarrow>
          if buff_size = 0 then Inr (E_INVALIDARG, s)
          else bindR (session_at session s) (\<lambda>ses. stream_write W (as_driver ses) buf buff_size s))"

text \<open>The two size queries; \<open>wanted\<close> says whether the caller passed a place for the answer.\<close>

definition nxa_get_buffered_audio_size :: "'d dev_ioctl \<Rightarrow> u32 \<Rightarrow> bool \<Rightarrow> 'd nxa \<Rightarrow> (hresult \<times> audio_answer \<times> 'd nxa) run" where
  "nxa_get_buffered_audio_size I session wanted s =
     (if \<not> wanted then Inr (E_POINTER, No_answer, s)
      else bindR (session_at session s) (\<lambda>ses. stream_ioctl I (as_driver ses) IOCTL_AUDIO_GET_BUFFERED_SIZE s))"

definition nxa_get_free_buffer_space :: "'d dev_ioctl \<Rightarrow> u32 \<Rightarrow> bool \<Rightarrow> 'd nxa \<Rightarrow> (hresult \<times> audio_answer \<times> 'd nxa) run" where
  "nxa_get_free_buffer_space I session wanted s =
     (if \<not> wanted then Inr (E_POINTER, No_answer, s)
      else bindR (session_at session s) (\<lambda>ses. stream_ioctl I (as_driver ses) IOCTL_AUDIO_BUFFER_FREE_SIZE s))"

definition nxa_get_format :: "u32 \<Rightarrow> 'd nxa \<Rightarrow> (hresult \<times> sb16_audio_format) run" where
  "nxa_get_format session s = bindR (session_at session s) (\<lambda>ses. Inr (S_OK, as_fmt ses))"

definition nxa_set_volume :: "u32 \<Rightarrow> u32 \<Rightarrow> hresult" where
  "nxa_set_volume session flags = E_NOTIMPL"

definition nxa_get_volume :: "u32 \<Rightarrow> u32 \<Rightarrow> hresult" where
  "nxa_get_volume session flags = E_NOTIMPL"

definition nxa_samples_to_bytes :: "u32 \<Rightarrow> u32 \<Rightarrow> 'd nxa \<Rightarrow> (hresult \<times> u32) run" where
  "nxa_samples_to_bytes session sample_cnt s =
     bindR (session_at session s) (\<lambda>ses. Inr (S_OK, sample_cnt * af_block_size (as_fmt ses)))"

text \<open>\<open>tick k\<close> is what interrupts do to the driver before the next poll.\<close>

partial_function (option) nxa_wait_loop ::
  "'d dev_ioctl \<Rightarrow> (nat \<Rightarrow> 'd \<Rightarrow> 'd run) \<Rightarrow> u32 \<Rightarrow> nat \<Rightarrow> 'd nxa \<Rightarrow> (hresult \<times> 'd nxa) run option" where
  "nxa_wait_loop I tick session k s =
     (case nxa_get_buffered_audio_size I session True s of
        Inl h \<Rightarrow> Some (Inl h)
      | Inr (hr, a, s) \<Rightarrow>
          if FAILED hr then Some (Inr (hr, s))
          else (case a of
                  Number n \<Rightarrow>
                    if n > 0 then
                      (case tick k (nx_device s) of
                         Inl h \<Rightarrow> Some (Inl h)
                       | Inr d \<Rightarrow> nxa_wait_loop I tick session (Suc k) (s\<lparr>nx_device := d\<rparr>))
                    else Some (Inr (hr, s))
                | _ \<Rightarrow> Some (Inr (hr, s))))"

definition nxa_close_session ::
  "'d dev_ioctl \<Rightarrow> (nat \<Rightarrow> 'd \<Rightarrow> 'd run) \<Rightarrow> u32 \<Rightarrow> bool \<Rightarrow> 'd nxa \<Rightarrow> (hresult \<times> 'd nxa) run" where
  "nxa_close_session I tick session wait_buffer_exhaust s =
     bindR (if wait_buffer_exhaust then endless (nxa_wait_loop I tick session 0 s) else Inr (S_OK, s)) (\<lambda>(hr, s).
     if FAILED hr then Inr (hr, s)
     else
       bindR (session_at session s) (\<lambda>ses.
       bindR (stream_ioctl I (as_driver ses) IOCTL_AUDIO_STOP_PLAYBACK s) (\<lambda>(hr, _, s).
       if FAILED hr then Inr (hr, s)
       else Inr (S_OK, s\<lparr>nx_sessions := (nx_sessions s)(session := None)\<rparr>))))"

section \<open>A driver that stays active\<close>

text \<open>What clients do with sessions, and interrupts between.\<close>

datatype audio_op =
    Open_session sb16_audio_format bytes u32 u32 | Queue_audio u32 bytes u32 | Close_session u32 bool
  | Buffered_size u32 | Free_space u32 | Interrupt

fun audio_run :: "'d dev_ioctl \<Rightarrow> 'd dev_write \<Rightarrow> (nat \<Rightarrow> 'd \<Rightarrow> 'd run) \<Rightarrow> audio_op list \<Rightarrow> 'd nxa \<Rightarrow> 'd nxa run" where
  "audio_run I W tick [] s = Inr s"
| "audio_run I W tick (Open_session f buf n p # ops) s =
     bindR (nxa_open_session I W f buf n p s) (\<lambda>(_, _, s). audio_run I W tick ops s)"
| "audio_run I W tick (Queue_audio ses buf n # ops) s =
     bindR (nxa_queue_audio W ses (Some buf) n s) (\<lambda>(_, s). audio_run I W tick ops s)"
| "audio_run I W tick (Close_session ses w # ops) s =
     bindR (nxa_close_session I tick ses w s) (\<lambda>(_, s). audio_run I W tick ops s)"
| "audio_run I W tick (Buffered_size ses # ops) s =
     bindR (nxa_get_buffered_audio_size I ses True s) (\<lambda>(_, _, s). audio_run I W tick ops s)"
| "audio_run I W tick (Free_space ses # ops) s =
     bindR (nxa_get_free_buffer_space I ses True s) (\<lambda>(_, _, s). audio_run I W tick ops s)"
| "audio_run I W tick (Interrupt # ops) s =
     bindR (tick 0 (nx_device s)) (\<lambda>d. audio_run I W tick ops (s\<lparr>nx_device := d\<rparr>))"

text \<open>A driver that is active after it has begun to play, whatever it is asked, and takes no format when it is active.\<close>

definition live :: "('d \<Rightarrow> bool) \<Rightarrow> 'd nxa \<Rightarrow> bool" where
  "live active s \<longleftrightarrow> active (nx_device s) \<and> nx_aud_driver s \<noteq> 0"

lemma live_update [simp]:
  "live active (s\<lparr>nx_sessions := x\<rparr>) = live active s" "live active s \<Longrightarrow> live active (s\<lparr>nx_device := d\<rparr>) = active d"
  by (simp_all add: live_def)

locale stubborn_device =
  fixes I :: "'d dev_ioctl" and W :: "'d dev_write" and tick :: "nat \<Rightarrow> 'd \<Rightarrow> 'd run" and active :: "'d \<Rightarrow> bool"
  assumes ioctl_active: "active d \<Longrightarrow> I req d = Inr (hr, a, d') \<Longrightarrow> active d'"
    and write_active: "active d \<Longrightarrow> W buf n d = Inr (hr, d') \<Longrightarrow> active d'"
    and tick_active: "active d \<Longrightarrow> tick k d = Inr d' \<Longrightarrow> active d'"
    and begin_active: "I IOCTL_AUDIO_BEGIN_PLAYBACK d = Inr (hr, a, d') \<Longrightarrow> SUCCEEDED hr \<Longrightarrow> active d'"
    and no_format: "active d \<Longrightarrow> I (IOCTL_AUDIO_SET_FORMAT f) d = Inr (E_INVALIDSTATE, No_answer, d)"
begin

lemma stream_ioctl_live: "live active s \<Longrightarrow> stream_ioctl I str req s = Inr (hr, a, t) \<Longrightarrow> live active t"
  by (auto simp: live_def stream_ioctl_def split: if_splits dest: ioctl_active)

lemma stream_write_live: "live active s \<Longrightarrow> stream_write W str buf n s = Inr (hr, t) \<Longrightarrow> live active t"
  by (auto simp: live_def stream_write_def split: if_splits dest: write_active)

lemma open_fails:
  assumes "live active s"
  shows "nxa_open_session I W f buf n p s = Inr (E_INVALIDSTATE, None, s)"
  using assms by (simp add: live_def nxa_open_session_def stream_ioctl_def no_format)

lemma open_begins:
  assumes "nxa_open_session I W f buf n p s = Inr (hr, Some ses, t)"
  shows "live active t"
  using assms
  by (auto simp: nxa_open_session_def stream_ioctl_def stream_write_def live_def Let_def split: if_splits prod.splits)
    (metis begin_active ioctl_active)+

lemma wait_live:
  assumes "nxa_wait_loop I tick ses k s = Some (Inr (hr, t))" and "live active s"
  shows "live active t"
proof -
  have "live active s \<longrightarrow> (\<forall>hr t. r = Inr (hr, t) \<longrightarrow> live active t)"
    if "nxa_wait_loop I tick ses k s = Some r" for r k and s :: "'d nxa"
  proof (rule nxa_wait_loop.raw_induct [of "\<lambda>I' tick' ses k s r. I' = I \<longrightarrow> tick' = tick \<longrightarrow> live active s \<longrightarrow>
        (\<forall>hr t. r = Inr (hr, t) \<longrightarrow> live active t)", OF _ that, THEN mp, OF _ refl, THEN mp, OF _ refl])
    fix f :: "'d dev_ioctl \<Rightarrow> (nat \<Rightarrow> 'd \<Rightarrow> 'd run) \<Rightarrow> u32 \<Rightarrow> nat \<Rightarrow> 'd nxa \<Rightarrow> (hresult \<times> 'd nxa) run option"
      and I' tick' session k r and s :: "'d nxa"
    assume IH: "\<And>I' tick' ses k s r. f I' tick' ses k s = Some r \<Longrightarrow> I' = I \<longrightarrow> tick' = tick \<longrightarrow> live active s \<longrightarrow>
        (\<forall>hr t. r = Inr (hr, t) \<longrightarrow> live active t)"
    assume body: "(case nxa_get_buffered_audio_size I' session True s of Inl h \<Rightarrow> Some (Inl h)
      | Inr (hr, a, s) \<Rightarrow> if FAILED hr then Some (Inr (hr, s))
          else (case a of
                  Number n \<Rightarrow>
                    if n > 0 then
                      (case tick' k (nx_device s) of
                         Inl h \<Rightarrow> Some (Inl h)
                       | Inr d \<Rightarrow> f I' tick' session (Suc k) (s\<lparr>nx_device := d\<rparr>))
                    else Some (Inr (hr, s))
                | _ \<Rightarrow> Some (Inr (hr, s)))) = Some r"
    show "I' = I \<longrightarrow> tick' = tick \<longrightarrow> live active s \<longrightarrow> (\<forall>hr t. r = Inr (hr, t) \<longrightarrow> live active t)"
    proof (intro impI allI)
      fix hr t
      assume I: "I' = I" and T: "tick' = tick" and s: "live active s" and r: "r = Inr (hr, t)"
      show "live active t"
      proof (cases "nxa_get_buffered_audio_size I' session True s")
        case (Inl h)
        then show ?thesis using body r by simp
      next
        case (Inr x)
        obtain hr1 a s1 where x: "x = (hr1, a, s1)" by (cases x)
        have s1: "live active s1"
          using Inr s unfolding x I by (auto simp: nxa_get_buffered_audio_size_def dest: stream_ioctl_live)
        show ?thesis
        proof (cases "\<exists>n d. SUCCEEDED hr1 \<and> a = Number n \<and> n > 0 \<and> tick k (nx_device s1) = Inr d")
          case True
          then obtain n d where d: "SUCCEEDED hr1" "a = Number n" "n > 0" "tick k (nx_device s1) = Inr d" by blast
          have f: "f I' tick' session (Suc k) (s1\<lparr>nx_device := d\<rparr>) = Some r" using body Inr x d T by simp
          have "active d" using s1 d(4) tick_active by (auto simp: live_def)
          then show ?thesis using IH [OF f] I T r s1 by simp
        next
          case False
          then show ?thesis using body Inr x r s1 T by (auto split: if_splits audio_answer.splits sum.splits)
        qed
      qed
    qed
  qed
  with assms show ?thesis by blast
qed

lemma close_live: "live active s \<Longrightarrow> nxa_close_session I tick ses w s = Inr (hr, t) \<Longrightarrow> live active t"
  by (auto simp: nxa_close_session_def endless_def split: if_splits option.splits dest: wait_live stream_ioctl_live)
    (metis wait_live stream_ioctl_live)

lemma run_live: "live active s \<Longrightarrow> audio_run I W tick ops s = Inr t \<Longrightarrow> live active t"
proof (induction ops arbitrary: s)
  case (Cons x ops)
  show ?case
  proof (cases x)
    case Open_session
    then show ?thesis using Cons open_fails by fastforce
  next
    case Queue_audio
    then show ?thesis using Cons by (auto simp: nxa_queue_audio_def split: if_splits dest: stream_write_live)
  next
    case Close_session
    then show ?thesis using Cons by (auto dest: close_live)
  next
    case Buffered_size
    then show ?thesis using Cons by (auto simp: nxa_get_buffered_audio_size_def dest: stream_ioctl_live)
  next
    case Free_space
    then show ?thesis using Cons by (auto simp: nxa_get_free_buffer_space_def dest: stream_ioctl_live)
  next
    case Interrupt
    then obtain d where d: "tick 0 (nx_device s) = Inr d" "audio_run I W tick ops (s\<lparr>nx_device := d\<rparr>) = Inr t" using Cons.prems(2) by auto
    have "active d" using Cons.prems(1) d(1) tick_active by (auto simp: live_def)
    then show ?thesis using Cons.IH [OF _ d(2)] Cons.prems(1) by simp
  qed
qed simp

lemma one_session:
  assumes "nxa_open_session I W f buf n p s = Inr (hr, Some ses, t)" and "audio_run I W tick ops t = Inr u"
  shows "nxa_open_session I W f' buf' n' p' u = Inr (E_INVALIDSTATE, None, u)"
  by (rule open_fails) (rule run_live [OF open_begins [OF assms(1)] assms(2)])

end

section \<open>The sound card never stops\<close>

text \<open>\<open>stays s t\<close>: the device has its context still, and no player has changed its state.\<close>

definition stays :: "sb16 \<Rightarrow> sb16 \<Rightarrow> bool" where
  "stays s t \<longleftrightarrow> sbs_opaque t = sbs_opaque s
     \<and> (\<forall>p c. sbs_ctxs s p = Some c \<longrightarrow> (\<exists>c'. sbs_ctxs t p = Some c' \<and> sb_player_state c' = sb_player_state c))"

definition playing :: "sb16 \<Rightarrow> bool" where
  "playing s \<longleftrightarrow> (\<exists>c. sbs_ctxs s (sbs_opaque s) = Some c \<and> sb_player_state c = PLAYER_STATE_PLAYING)"

lemma playing_stays: "playing s \<Longrightarrow> stays s t \<Longrightarrow> playing t"
  unfolding playing_def stays_def by fastforce

lemma stays_refl [simp]: "stays s s"
  by (simp add: stays_def)

lemma stays_trans: "stays s t \<Longrightarrow> stays t u \<Longrightarrow> stays s u"
  unfolding stays_def by metis

lemma stays_update [simp]:
  "stays s (t\<lparr>sbs_dma := d\<rparr>) = stays s t" "stays s (t\<lparr>sbs_kernel := k\<rparr>) = stays s t" "stays s (t\<lparr>sbs_ports := po\<rparr>) = stays s t"
  by (simp_all add: stays_def)

lemma stays_out [simp]: "stays s (sb_out p v t) = stays s t"
  by (simp add: sb_out_def)

lemma stays_in: "sb_in m p t = (v, t') \<Longrightarrow> stays s t' = stays s t"
  by (auto simp: sb_in_def split: prod.splits)

lemma stays_in_snd [simp]: "stays s (snd (sb_in m p t)) = stays s t"
  by (rule stays_in [of m p t "fst (sb_in m p t)"]) simp

lemma stays_put:
  assumes "stays s t" and "sb_ctx p t = Inr c" and "sb_player_state c' = sb_player_state c"
  shows "stays s (sb_put p c' t)"
proof -
  have c: "sbs_ctxs t p = Some c" using assms(2) by (simp add: sb_ctx_def split: option.splits)
  have "\<exists>d'. sbs_ctxs (sb_put p c' t) q = Some d' \<and> sb_player_state d' = sb_player_state d" if q: "sbs_ctxs s q = Some d" for q d
  proof -
    obtain d' where "sbs_ctxs t q = Some d'" "sb_player_state d' = sb_player_state d"
      using assms(1) q unfolding stays_def by blast
    then show ?thesis using c assms(3) by (cases "q = p") (simp_all add: sb_put_def)
  qed
  then show ?thesis using assms(1) by (simp add: stays_def)
qed

lemma stays_upd: "stays s t \<Longrightarrow> sb_upd p f t = Inr u \<Longrightarrow> (\<And>c. sb_player_state (f c) = sb_player_state c) \<Longrightarrow> stays s u"
  by (auto simp: sb_upd_def intro: stays_put)

lemma stays_write_wait: "sb_write_wait m n t = Inr u \<Longrightarrow> stays s u = stays s t"
  by (induction m n t rule: sb_write_wait.induct) (auto simp: stays_in split: prod.splits if_splits)

lemma stays_write_dsp: "sb_write_dsp m x t = Inr (hr, u) \<Longrightarrow> stays s u = stays s t"
  by (auto simp: sb_write_dsp_def stays_write_wait)

lemma stays_speaker: "sb_enable_dac_speaker m b t = Inr u \<Longrightarrow> stays s u = stays s t"
  by (auto simp: sb_enable_dac_speaker_def stays_write_dsp)

lemma stays_write_all: "sb_write_all m xs t = Inr u \<Longrightarrow> stays s u = stays s t"
proof (induction xs arbitrary: t)
  case (Cons x xs)
  then obtain hr t1 where t1: "sb_write_dsp m x t = Inr (hr, t1)" "sb_write_all m xs t1 = Inr u" by auto
  show ?case using Cons.IH [OF t1(2)] stays_write_dsp [OF t1(1)] by simp
qed simp

lemma stays_read_mixer: "sb_read_mixer m reg t = (v, u) \<Longrightarrow> stays s u = stays s t"
  by (simp add: sb_read_mixer_def stays_in)

lemma stays_write_mixer [simp]: "stays s (sb_write_mixer reg x t) = stays s t"
  by (simp add: sb_write_mixer_def)

lemma stays_get_mixer: "sb_get_mixer_irq_dma m i c t = (hr, i', c', u) \<Longrightarrow> stays s u = stays s t"
  by (auto simp: sb_get_mixer_irq_dma_def Let_def stays_read_mixer split: prod.splits option.splits)

lemma stays_set_mixer: "sb_set_mixer_irq_dma i c t = (hr, u) \<Longrightarrow> stays s u = stays s t"
  by (auto simp: sb_set_mixer_irq_dma_def split: option.splits)

lemma stays_lock: "stays s t \<Longrightarrow> sb_lock p t = Inr (intf, u) \<Longrightarrow> stays s u"
  by (auto simp: sb_lock_def sb_ctx_def intro!: stays_put split: option.splits)

lemma stays_unlock: "stays s t \<Longrightarrow> sb_unlock p intf t = Inr u \<Longrightarrow> stays s u"
  by (auto simp: sb_unlock_def sb_ctx_def intro!: stays_put split: option.splits)

lemma stays_dma: "with_dma f t = Inr (r, u) \<Longrightarrow> stays s u = stays s t"
  by (auto simp: with_dma_def)

lemma fill_half_state: "sb16_fill_half c = Inr c' \<Longrightarrow> sb_player_state c' = sb_player_state c"
  by (auto simp: sb16_fill_half_def sb_rb_read_upto_def sb_rb_read_def Let_def split: if_splits)

lemma rb_write_state: "sb_rb_write c buf n = Inr (hr, c') \<Longrightarrow> sb_player_state c' = sb_player_state c"
  by (auto simp: sb_rb_write_def Let_def split: if_splits)

lemma isr_stays:
  assumes "sb16_isr m s = Inr t"
  shows "stays s t"
proof -
  obtain v s1 where s1: "sb_read_mixer m 0x82 s = (v, s1)" by fastforce
  let ?p = "sbs_drv_ctx s"
  obtain s2 c s3 where s2: "sb_upd ?p (\<lambda>c. c\<lparr>sb_dma_current_half := sb_dma_current_half c XOR 1\<rparr>) s1 = Inr s2"
    and c: "sb_ctx ?p s2 = Inr c"
    and s3: "(if sb_stop_pending_flag c \<noteq> 0 then
               bindR (if v AND 0x07 = 1 then sb_write_dsp m CMD_STOP_8BIT s2
                      else if v AND 0x07 = 2 then sb_write_dsp m CMD_STOP_16BIT s2
                      else Inl (Panic ''sb16_isr(): invalid interrupt status (read from reg 0x82).'')) (\<lambda>(_, s).
               sb_upd ?p (\<lambda>c. c\<lparr>sb_stop_pending_flag := 0\<rparr>) s)
             else
               bindR (sb_lock ?p s2) (\<lambda>(intf, s).
               bindR (sb_ctx ?p s) (\<lambda>ctx.
               bindR (sb16_fill_half ctx) (\<lambda>ctx.
               sb_unlock ?p intf (sb_put ?p ctx s))))) = Inr s3"
    and t: "t = snd (sb_in m (po_dsp_read_status (sbs_ports s3)) s3) \<or> t = snd (sb_in m (po_int_acknwg16 (sbs_ports s3)) s3)"
    using assms unfolding sb16_isr_def Let_def s1 prod.case by (fastforce split: if_splits)
  have "stays s s1" using stays_read_mixer [OF s1] by simp
  then have st2: "stays s s2" by (rule stays_upd [OF _ s2]) simp
  have "stays s s3"
  proof (cases "sb_stop_pending_flag c = 0")
    case True
    then obtain intf u c1 c2 where u: "sb_lock ?p s2 = Inr (intf, u)" "sb_ctx ?p u = Inr c1" "sb16_fill_half c1 = Inr c2"
      "sb_unlock ?p intf (sb_put ?p c2 u) = Inr s3" using s3 by auto
    show ?thesis
      by (rule stays_unlock [OF stays_put [OF stays_lock [OF st2 u(1)] u(2)] u(4)]) (rule fill_half_state [OF u(3)])
  next
    case False
    then obtain x hr u where u: "sb_write_dsp m x s2 = Inr (hr, u)" "sb_upd ?p (\<lambda>c. c\<lparr>sb_stop_pending_flag := 0\<rparr>) u = Inr s3"
      using s3 by (auto split: if_splits)
    show ?thesis by (rule stays_upd [OF _ u(2)]) (use st2 stays_write_dsp [OF u(1)] in simp_all)
  qed
  with t show ?thesis by auto
qed

lemma write_stays:
  assumes "sb16_write buf n s = Inr (hr, t)"
  shows "stays s t"
proof -
  obtain intf u c c' where u: "sb_lock (sbs_opaque s) s = Inr (intf, u)" "sb_ctx (sbs_opaque s) u = Inr c"
    "sb_rb_write c buf n = Inr (hr, c')" "sb_unlock (sbs_opaque s) intf (sb_put (sbs_opaque s) c' u) = Inr t"
    using assms by (auto simp: sb16_write_def get_drv_ctx_def Let_def)
  show ?thesis
    by (rule stays_unlock [OF stays_put [OF stays_lock [OF stays_refl u(1)] u(2)] u(4)]) (rule rb_write_state [OF u(3)])
qed

lemma size_stays:
  "sb16_get_bufferred_size s = Inr (hr, n, t) \<Longrightarrow> stays s t" "sb16_get_buffer_free_size s = Inr (hr, n, t) \<Longrightarrow> stays s t"
  by (auto simp: sb16_get_bufferred_size_def sb16_get_buffer_free_size_def Let_def
      dest!: stays_lock [OF stays_refl] intro: stays_unlock)

lemma stop_wait_stays:
  assumes "\<And>s t. yield s = Inr t \<Longrightarrow> stays s t"
  shows "sb_stop_wait yield p n s = Inr (hr, t) \<Longrightarrow> stays s t"
proof (induction n arbitrary: s)
  case (Suc n)
  then show ?case using assms by (auto split: if_splits intro: stays_trans)
qed simp

lemma stop_stays:
  assumes y: "\<And>s t. yield s = Inr t \<Longrightarrow> stays s t" and stop: "sb16_stop_playback m yield s = Inr (hr, t)"
  shows "stays s t"
proof -
  let ?p = "sbs_opaque s"
  obtain c where c: "sb_ctx ?p s = Inr c" using stop by (auto simp: sb16_stop_playback_def get_drv_ctx_def Let_def)
  show ?thesis
  proof (cases "sb_player_state c \<noteq> PLAYER_STATE_PLAYING \<and> sb_player_state c \<noteq> PLAYER_STATE_PAUSED")
    case True
    then show ?thesis using stop c by (simp add: sb16_stop_playback_def get_drv_ctx_def Let_def)
  next
    case False
    then obtain hr1 s1 where s1: "sb_stop_wait yield ?p 10000 (sb_put ?p (c\<lparr>sb_stop_pending_flag := 1\<rparr>) s) = Inr (hr1, s1)"
      and rest: "(if FAILED hr1 then Inr (hr1, s1)
        else
          bindR (sb_enable_dac_speaker m False s1) (\<lambda>s.
          bindR (sb_ctx ?p s) (\<lambda>ctx.
          bindR (with_dma (isadma_close_channel (sb_dma_channel ctx)) (s\<lparr>sbs_kernel := (sbs_kernel s)\<lparr>ks_int :=
              snd (unregister_isr_callback (ks_int (sbs_kernel s)) (irq_to_intid (sb_irq_id ctx)))\<rparr>\<rparr>)) (\<lambda>(_, s).
          bindR (sb_upd ?p (\<lambda>c. c\<lparr>sb_audio_rp := 0, sb_audio_wp := 0\<rparr>) s) (\<lambda>s. Inr (S_OK, s)))))) = Inr (hr, t)"
      using stop c unfolding sb16_stop_playback_def get_drv_ctx_def Let_def by auto
    have "stays s (sb_put ?p (c\<lparr>sb_stop_pending_flag := 1\<rparr>) s)" by (rule stays_put [OF stays_refl c]) simp
    then have st1: "stays s s1" by (rule stays_trans) (rule stop_wait_stays [OF y s1])
    show ?thesis
    proof (cases "SUCCEEDED hr1")
      case False
      then show ?thesis using rest st1 by simp
    next
      case True
      obtain s2 where s2: "sb_enable_dac_speaker m False s1 = Inr s2"
        using rest True by (cases "sb_enable_dac_speaker m False s1") simp_all
      obtain c2 where c2: "sb_ctx ?p s2 = Inr c2" using rest True s2 by (cases "sb_ctx ?p s2") simp_all
      obtain r s3 where s3: "with_dma (isadma_close_channel (sb_dma_channel c2)) (s2\<lparr>sbs_kernel := (sbs_kernel s2)\<lparr>ks_int :=
              snd (unregister_isr_callback (ks_int (sbs_kernel s2)) (irq_to_intid (sb_irq_id c2)))\<rparr>\<rparr>) = Inr (r, s3)"
        using rest True s2 c2 by auto
      have t: "sb_upd ?p (\<lambda>c. c\<lparr>sb_audio_rp := 0, sb_audio_wp := 0\<rparr>) s3 = Inr t"
        using rest True s2 c2 s3 by auto
      show ?thesis
        by (rule stays_upd [OF _ t]) (use st1 stays_speaker [OF s2] stays_dma [OF s3] in simp_all)
    qed
  qed
qed

lemma stays_put_old:
  assumes "stays s t" and "sb_ctx p s = Inr c" and "sb_player_state c' = sb_player_state c"
  shows "stays s (sb_put p c' t)"
proof -
  obtain c1 where "sb_ctx p t = Inr c1" "sb_player_state c1 = sb_player_state c"
    using assms(1,2) unfolding stays_def sb_ctx_def by (fastforce split: option.splits)
  then show ?thesis using stays_put [OF assms(1)] assms(3) by simp
qed

lemma setup_dma_stays:
  assumes "sb16_setup_dma p s = Inr (hr, t)"
  shows "stays s t"
proof -
  obtain s1 c where s1: "sb_upd p (\<lambda>c.
       let mode = (if af_bit_depth (sb_fmt c) = 8 then SB16_DMA_MODE_8BIT else SB16_DMA_MODE_16BIT) in
       c\<lparr>sb_dma_mode := mode, sb_dma_channel := (if mode = SB16_DMA_MODE_8BIT then 1 else 5),
         sb_dma_current_half := 0, sb_skip_cntr := 1\<rparr>) s = Inr s1" and c: "sb_ctx p s1 = Inr c"
    using assms unfolding sb16_setup_dma_def by auto
  obtain hr1 s2 where s2: "sb_set_mixer_irq_dma (sb_irq_id c) (sb_dma_channel c) s1 = (hr1, s2)" by fastforce
  have "stays s s1" by (rule stays_upd [OF stays_refl s1]) (simp add: Let_def)
  then have "stays s s2" by (simp add: stays_set_mixer [OF s2])
  moreover have "t = s2 \<or> (\<exists>f. with_dma f s2 = Inr (hr, t))"
    using assms unfolding sb16_setup_dma_def Let_def s1 [unfolded Let_def] bindR.simps c s2 prod.case by (auto split: if_splits)
  ultimately show ?thesis by (auto simp: stays_dma)
qed

lemma preroll_state: "sb16_preroll c = Inr c' \<Longrightarrow> sb_player_state c' = sb_player_state c"
  by (auto simp: sb16_preroll_def sb_rb_read_upto_def sb_rb_read_def Let_def split: if_splits)

lemma begin_refused: "playing s \<Longrightarrow> sb16_begin_playback m isr s = Inr (E_INVALIDSTATE, s)"
  by (auto simp: playing_def sb16_begin_playback_def get_drv_ctx_def sb_ctx_def)

lemma format_refused: "playing s \<Longrightarrow> sb16_set_format chans bits rate s = Inr (E_INVALIDSTATE, s)"
  by (auto simp: playing_def sb16_set_format_def get_drv_ctx_def sb_ctx_def player_states)

lemma begin_plays:
  assumes "sb16_begin_playback m isr s = Inr (hr, t)" and "SUCCEEDED hr"
  shows "playing t"
proof -
  let ?p = "sbs_opaque s"
  obtain c where c: "sb_ctx ?p s = Inr c" using assms(1) by (auto simp: sb16_begin_playback_def get_drv_ctx_def Let_def)
  obtain mem where mem: "silence (sb_dma_memory c) 0 (unat DMA_BUFFER_SIZE) = Inr mem"
    and ok: "\<not> (sb_player_state c = PLAYER_STATE_PLAYING \<or> sb_player_state c = PLAYER_STATE_NOT_READY)"
    using assms c by (auto simp: sb16_begin_playback_def get_drv_ctx_def Let_def split: if_splits)
  obtain h irq chan s1 where s1: "sb_get_mixer_irq_dma m (sb_irq_id c) (sb_dma_channel c) s = (h, irq, chan, s1)"
    by (cases "sb_get_mixer_irq_dma m (sb_irq_id c) (sb_dma_channel c) s") auto
  let ?s2 = "sb_put ?p (c\<lparr>sb_dma_memory := mem, sb_irq_id := irq, sb_dma_channel := chan\<rparr>) s1"
  let ?s3 = "?s2\<lparr>sbs_kernel := (sbs_kernel ?s2)\<lparr>ks_int := snd (register_isr_callback (ks_int (sbs_kernel ?s2)) (irq_to_intid irq) isr)\<rparr>\<rparr>"
  have st3: "stays s ?s3"
    unfolding stays_update by (rule stays_put_old [OF _ c]) (simp_all add: stays_get_mixer [OF s1])
  obtain h4 s4 where s4: "(if sb_player_state c = PLAYER_STATE_STOPPED then sb16_setup_dma ?p ?s3 else Inr (S_OK, ?s3)) = Inr (h4, s4)"
    and r4: "(if FAILED h4 then Inr (h4, s4)
        else
          bindR (sb_ctx ?p s4) (\<lambda>ctx.
          bindR (sb16_preroll ctx) (\<lambda>ctx.
          bindR (sb_enable_dac_speaker m True (sb_put ?p ctx s4)) (\<lambda>s.
          bindR (sb16_start_commands ctx) (\<lambda>cmds.
          bindR (sb_write_all m cmds s) (\<lambda>s.
          bindR (sb16_update_player_state ?p PLAYER_STATE_PLAYING s) (\<lambda>s. Inr (S_OK, s)))))))) = Inr (hr, t)"
    using assms(1) ok unfolding sb16_begin_playback_def get_drv_ctx_def Let_def c bindR.simps mem s1 prod.case by auto
  have "stays ?s3 s4" using s4 setup_dma_stays by (auto split: if_splits)
  then have st4: "stays s s4" by (rule stays_trans [OF st3])
  have "SUCCEEDED h4" using r4 assms(2) by (auto split: if_splits)
  then obtain c4 c5 s5 cmds s6 where u: "sb_ctx ?p s4 = Inr c4" "sb16_preroll c4 = Inr c5"
     "sb_enable_dac_speaker m True (sb_put ?p c5 s4) = Inr s5" "sb_write_all m cmds s5 = Inr s6"
     "sb16_update_player_state ?p PLAYER_STATE_PLAYING s6 = Inr t"
    using r4 by auto
  have "stays s (sb_put ?p c5 s4)" by (rule stays_put [OF st4 u(1) preroll_state [OF u(2)]])
  then have "stays s s6" using stays_speaker [OF u(3)] stays_write_all [OF u(4)] by simp
  then show ?thesis
    using u(5) by (auto simp: stays_def playing_def sb16_update_player_state_def sb_upd_def sb_put_def)
qed

lemma ioctl_keeps_playing:
  assumes "playing s" and "sb16_ioctl m isr (sb16_isr m) req s = Inr (hr, a, t)"
  shows "playing t"
proof -
  have "stays s t"
    using assms stop_stays [OF isr_stays] size_stays
    by (cases req) (auto simp: sb16_ioctl_def begin_refused format_refused)
  then show ?thesis by (rule playing_stays [OF assms(1)])
qed

interpretation sb: stubborn_device "sb16_ioctl m isr (sb16_isr m)" sb16_write "\<lambda>_. sb16_isr m" playing for m isr
proof
  show "playing d \<Longrightarrow> sb16_ioctl m isr (sb16_isr m) req d = Inr (hr, a, d') \<Longrightarrow> playing d'" for d req hr a d'
    by (rule ioctl_keeps_playing)
  show "playing d \<Longrightarrow> sb16_write buf n d = Inr (hr, d') \<Longrightarrow> playing d'" for d buf n hr d'
    using write_stays playing_stays by blast
  show "playing d \<Longrightarrow> sb16_isr m d = Inr d' \<Longrightarrow> playing d'" for d d'
    using isr_stays playing_stays by blast
  show "sb16_ioctl m isr (sb16_isr m) IOCTL_AUDIO_BEGIN_PLAYBACK d = Inr (hr, a, d') \<Longrightarrow> SUCCEEDED hr \<Longrightarrow> playing d'" for d hr a d'
    using begin_plays by (auto simp: sb16_ioctl_def)
  show "playing d \<Longrightarrow> sb16_ioctl m isr (sb16_isr m) (IOCTL_AUDIO_SET_FORMAT f) d = Inr (E_INVALIDSTATE, No_answer, d)" for d f
    by (simp add: sb16_ioctl_def format_refused)
qed

text \<open>Removing the driver leaves the pointer to its context in place, so that it cannot be installed again.\<close>

lemma removed_driver_stays_removed: "sb16_device_fini s = Inr (hr, t) \<Longrightarrow> sb16_device_init m yield junk mem t = Inr (E_FAIL, t)"
  by (auto simp: sb16_device_fini_def sb16_device_init_def Let_def split: if_splits)

section \<open>Properties\<close>

text \<open>C30. The driver never leaves the state in which it plays: once a session has been opened on the sound card, no session can be
  opened again, whatever is done in between, closing the first one included.\<close>

theorem sound_card_serves_one_session:
  assumes "nxa_open_session (sb16_ioctl m isr (sb16_isr m)) sb16_write f buf n p s = Inr (hr, Some ses, t)"
    and "audio_run (sb16_ioctl m isr (sb16_isr m)) sb16_write (\<lambda>_. sb16_isr m) ops t = Inr u"
  shows "nxa_open_session (sb16_ioctl m isr (sb16_isr m)) sb16_write f' buf' n' p' u = Inr (E_INVALIDSTATE, None, u)"
  by (rule sb.one_session [OF assms])

text \<open>Closing works: the handler answers the request to stop.\<close>

lemma isr_stops:
  assumes at: "has_ctx s c" and card: "obeys m (sbs_ports s) r" and st: "r 0x82 AND 7 = 1 \<or> r 0x82 AND 7 = 2"
    and stop: "sb_stop_pending_flag c \<noteq> 0"
  shows "\<exists>t c'. sb16_isr m s = Inr t \<and> has_ctx t c' \<and> sbs_ports t = sbs_ports s \<and> sb_stop_pending_flag c' = 0
     \<and> sbs_drv_ctx t = sbs_drv_ctx s \<and> (dma_free (sbs_dma s) \<longrightarrow> dma_free (sbs_dma t))"
proof -
  obtain s1 where s1: "sb_read_mixer m 0x82 s = (r 0x82, s1)" "io_only s s1" using read_mixer [OF card] by blast
  let ?p = "sbs_drv_ctx s"
  let ?c1 = "c\<lparr>sb_dma_current_half := sb_dma_current_half c XOR 1\<rparr>" and ?c2 = "c\<lparr>sb_dma_current_half := sb_dma_current_half c XOR 1, sb_stop_pending_flag := 0\<rparr>"
  let ?s2 = "sb_put ?p ?c1 s1"
  have p: "sb_ctx ?p s1 = Inr c" using at_ctx(1) [OF at] io_only_fields [OF s1(2)] by (simp add: sb_ctx_def)
  define cmd where "cmd = (if r 0x82 AND 7 = 1 then CMD_STOP_8BIT else CMD_STOP_16BIT)"
  obtain s3 where s3: "sb_write_dsp m cmd ?s2 = Inr (S_OK, s3)" "io_only ?s2 s3"
    using write_dsp [of m ?s2 r] card io_only_fields [OF s1(2)] by auto
  have c3: "sb_ctx ?p s3 = Inr ?c1" using io_only_fields [OF s3(2)] by (simp add: sb_ctx_def)
  let ?s4 = "sb_put ?p ?c2 s3"
  let ?t = "snd (sb_in m (if r 0x82 AND 7 = 1 then po_dsp_read_status (sbs_ports ?s4) else po_int_acknwg16 (sbs_ports ?s4)) ?s4)"
  have "sb16_isr m s = Inr ?t"
    using st stop p s3(1) c3 unfolding sb16_isr_def Let_def s1(1) prod.case
    by (auto simp: sb_upd_def cmd_def)
  moreover have "has_ctx ?s4 ?c2" using at io_only_fields [OF s1(2)] io_only_fields [OF s3(2)] by (intro at_put) (simp_all add: has_ctx_def)
  ultimately show ?thesis
    using io_only_fields [OF s1(2)] io_only_fields [OF s3(2)] io_only_fields [OF io_only_in [of ?s4 m]]
    by (intro exI [of _ ?t] exI [of _ ?c2]) (auto simp: dma_free_def)
qed

lemma close_channel_returns: "dma_free d \<Longrightarrow> \<exists>hr d'. isadma_close_channel ch0 d = Inr (hr, d')"
  by (auto simp: isadma_close_channel_def spinlock_acquire_def spinlock_release_def dma_free_def Let_def)

lemma stop_returns:
  assumes at: "has_ctx s c" and card: "obeys m (sbs_ports s) r" and st: "r 0x82 AND 7 = 1 \<or> r 0x82 AND 7 = 2"
    and pl: "sb_player_state c = PLAYER_STATE_PLAYING" and free: "dma_free (sbs_dma s)"
  shows "\<exists>t. sb16_stop_playback m (sb16_isr m) s = Inr (S_OK, t)"
proof -
  let ?p = "sbs_opaque s"
  have p: "?p = sbs_drv_ctx s" using at by (simp add: has_ctx_def)
  let ?c1 = "c\<lparr>sb_stop_pending_flag := 1\<rparr>" and ?s1 = "sb_put ?p (c\<lparr>sb_stop_pending_flag := 1\<rparr>) s"
  have a1: "has_ctx ?s1 ?c1" using at by (intro at_put) (simp_all add: has_ctx_def)
  have cd: "obeys m (sbs_ports ?s1) r" and sf: "sb_stop_pending_flag ?c1 \<noteq> 0" using card by simp_all
  obtain s2 c2 where s2: "sb16_isr m ?s1 = Inr s2" "has_ctx s2 c2" "sbs_ports s2 = sbs_ports s" "sb_stop_pending_flag c2 = 0"
    "sbs_drv_ctx s2 = ?p" "dma_free (sbs_dma s2)"
    using isr_stops [OF a1 cd st sf] free p by auto
  have n: "(10000 :: nat) = Suc (Suc 9998)" by simp
  have x1: "sb_ctx ?p ?s1 = Inr ?c1" and x2: "sb_ctx ?p s2 = Inr c2" using at_ctx(1) [OF s2(2)] s2(5) by simp_all
  have w: "sb_stop_wait (sb16_isr m) ?p 10000 ?s1 = Inr (S_OK, s2)"
    unfolding n sb_stop_wait.simps x1 bindR.simps s2(1) x2 by (simp add: s2(4))
  obtain s3 where s3: "sb_enable_dac_speaker m False s2 = Inr s3" "io_only s2 s3" using speaker card s2(3) by metis
  have x3: "sb_ctx ?p s3 = Inr c2" using x2 io_only_fields [OF s3(2)] by (simp add: sb_ctx_def)
  let ?k = "\<lambda>s c. s\<lparr>sbs_kernel := (sbs_kernel s)\<lparr>ks_int := snd (unregister_isr_callback (ks_int (sbs_kernel s)) (irq_to_intid (sb_irq_id c)))\<rparr>\<rparr>"
  have "dma_free ((sbs_dma (?k s3 c2))\<lparr>dma_cpu := kernel_cpu (sbs_kernel (?k s3 c2))\<rparr>)"
    using s2(6) io_only_fields [OF s3(2)] by (simp add: dma_free_def)
  then obtain hr d where d: "isadma_close_channel (sb_dma_channel c2) ((sbs_dma (?k s3 c2))\<lparr>dma_cpu := kernel_cpu (sbs_kernel (?k s3 c2))\<rparr>) = Inr (hr, d)"
    using close_channel_returns by blast
  have x4: "sb_ctx ?p (s\<lparr>sbs_kernel := k\<rparr>) = sb_ctx ?p s" "sb_ctx ?p (s\<lparr>sbs_dma := e\<rparr>) = sb_ctx ?p s" for s k e
    by (simp_all add: sb_ctx_def)
  show ?thesis
    using at_ctx(2) [OF at] pl w s3(1) x3 d
    by (auto simp: sb16_stop_playback_def get_drv_ctx_def Let_def with_dma_def sb_upd_def x4)
qed

definition demo_nxa :: "sb16 nxa" where
  "demo_nxa = \<lparr> nx_aud_driver = 0x2000, nx_sessions = (\<lambda>_. None), nx_device = demo_sb16 0 0x20000 \<rparr>"

definition demo_format :: sb16_audio_format where
  "demo_format = \<lparr> af_bit_depth = 16, af_block_size = 4, af_sample_rate = 44100, af_channels = 2 \<rparr>"

abbreviation demo_ioctl :: "sb16 dev_ioctl" where
  "demo_ioctl \<equiv> sb16_ioctl demo_card 0xC0100000 (sb16_isr demo_card)"

lemma demo_set_format: "sb16_set_format 2 16 44100 (demo_sb16 0 0x20000) = Inr (S_OK, demo_sb16 0 0x20000)"
  by (simp add: sb16_set_format_def get_drv_ctx_def sb_ctx_def demo_sb16_def demo_player_def zero_sb16_context_def sb_put_def
    player_states Let_def)

theorem sound_card_serves_one_session_witness:
  "\<exists>t u. nxa_open_session demo_ioctl sb16_write demo_format [] 0 0x3000 demo_nxa = Inr (S_OK, Some 0x3000, t) \<and>
     audio_run demo_ioctl sb16_write (\<lambda>_. sb16_isr demo_card) [Close_session 0x3000 False] t = Inr u \<and>
     nxa_open_session demo_ioctl sb16_write demo_format [] 0 0x3000 u = Inr (E_INVALIDSTATE, None, u)"
proof -
  let ?d = "demo_sb16 0 0x20000" and ?c = "demo_player 0 0x20000"
  have st: "stopped demo_card (\<lambda>_. 2) ?d ?c" by (rule demo_stopped) simp_all
  obtain d c' where d: "sb16_begin_playback demo_card 0xC0100000 ?d = Inr (S_OK, d)" "has_ctx d c'" "started (queued ?c) c'"
    "sbs_ports d = sbs_ports ?d" "dma_free (sbs_dma d)"
    using begin_playback_starts [OF st] by blast
  have f: "sb16_get_format d = Inr (S_OK, Some (sb_fmt c'))"
    using at_ctx(2) [OF d(2)] d(3) by (simp add: sb16_get_format_def get_drv_ctx_def started_def player_states)
  let ?t = "\<lparr> nx_aud_driver = 0x2000, nx_sessions = [0x3000 \<mapsto> \<lparr> as_fmt = sb_fmt c', as_driver = 0x2000 \<rparr>], nx_device = d \<rparr>"
  have o: "nxa_open_session demo_ioctl sb16_write demo_format [] 0 0x3000 demo_nxa = Inr (S_OK, Some 0x3000, ?t)"
    using d(1) f demo_set_format
    by (simp add: nxa_open_session_def stream_ioctl_def demo_nxa_def demo_format_def sb16_ioctl_def Let_def)
  have cd: "obeys demo_card (sbs_ports d) (\<lambda>_. 2)" using st d(4) by (simp add: stopped_def)
  have "sb_player_state c' = PLAYER_STATE_PLAYING" using d(3) by (simp add: started_def)
  then obtain e where e: "sb16_stop_playback demo_card (sb16_isr demo_card) d = Inr (S_OK, e)"
    using stop_returns [OF d(2) cd _ _ d(5)] by auto
  then obtain u where u: "audio_run demo_ioctl sb16_write (\<lambda>_. sb16_isr demo_card) [Close_session 0x3000 False] ?t = Inr u"
    by (simp add: nxa_close_session_def session_at_def stream_ioctl_def sb16_ioctl_def)
  show ?thesis
    using o u sound_card_serves_one_session [OF o u] by blast
qed

end
